(* ===== verification/Idpf_Prelude.thy ===== *)
theory Idpf_Prelude
  imports "HOL-Library.Word"
begin

unbundle bit_operations_syntax

text \<open>
  Shared vocabulary of the development: the C integer types of the driver, nullable pointers,
  the errno values the code returns, truncation of counters that the code keeps in 16 and 32
  bit variables, and the arithmetic of circular descriptor rings.

  Registers, flags and descriptor fields, on which the code works bitwise, are machine words.
  Ring indices and counters, on which the code only counts and compares, are natural numbers,
  and every assignment to a 16 or 32 bit variable that could wrap is written with
  \<open>trunc16\<close> or \<open>trunc32\<close>.  The host is little endian, so the byte order conversions of the
  code (\<open>cpu_to_le16\<close>, \<open>le32_to_cpu\<close> and the like) are identities on the values kept here.
\<close>

section \<open>Integers, pointers, return codes\<close>

type_synonym u8 = "8 word"
type_synonym u16 = "16 word"
type_synonym u32 = "32 word"
type_synonym u64 = "64 word"
type_synonym ptr = "64 word"

abbreviation NULL :: ptr where
  "NULL \<equiv> 0"

text \<open>
  A function of the driver that returns \<open>int\<close> returns 0 or a negated errno.  \<open>None\<close> stands
  for 0, \<open>Some e\<close> for \<open>-e\<close>.
\<close>

datatype errno =
    ENOMEM | EBADR | ENOSPC | EBADMSG | ENOBUFS | ENOMSG | EINVAL | EIO | ENODEV | EBUSY
  | ETIME | ENXIO | EOPNOTSUPP | ENOENT | EEXIST | EPERM | EAGAIN | EFAULT | E2BIG | ESRCH
  | ENETDOWN | ERANGE | EREMOTEIO | ETIMEDOUT

type_synonym ret = "errno option"

abbreviation ret_ok :: ret where
  "ret_ok \<equiv> None"

definition trunc16 :: "nat \<Rightarrow> nat" where
  "trunc16 x = x mod 65536"

definition trunc32 :: "nat \<Rightarrow> nat" where
  "trunc32 x = x mod 4294967296"

definition lower_32_bits :: "u64 \<Rightarrow> u32" where
  "lower_32_bits x = ucast x"

definition upper_32_bits :: "u64 \<Rightarrow> u32" where
  "upper_32_bits x = ucast (drop_bit 32 x)"

section \<open>Ring arithmetic\<close>

text \<open>
  \<open>ring_dist n a b\<close> is the number of steps from slot \<open>a\<close> forward to slot \<open>b\<close> of a ring with
  \<open>n\<close> slots; \<open>ring_seg n a k\<close> lists the \<open>k\<close> slots met from \<open>a\<close> on.
\<close>

definition ring_dist :: "nat \<Rightarrow> nat \<Rightarrow> nat \<Rightarrow> nat" where
  "ring_dist n a b = (if a \<le> b then b - a else n + b - a)"

definition ring_seg :: "nat \<Rightarrow> nat \<Rightarrow> nat \<Rightarrow> nat list" where
  "ring_seg n a k = map (\<lambda>j. (a + j) mod n) [0..<k]"

named_theorems ring_arith \<open>facts that turn ring index terms into case distinctions\<close>

lemma trunc16_id [simp]: "x < 65536 \<Longrightarrow> trunc16 x = x"
  by (simp add: trunc16_def)

lemma trunc16_less [simp]: "trunc16 x < 65536"
  by (simp add: trunc16_def)

lemma trunc32_id [simp]: "x < 4294967296 \<Longrightarrow> trunc32 x = x"
  by (simp add: trunc32_def)

lemma trunc32_less [simp]: "trunc32 x < 4294967296"
  by (simp add: trunc32_def)

lemma mod_ring [ring_arith]:
  fixes a b n :: nat
  assumes "a < n" and "b \<le> n"
  shows "(a + b) mod n = (if a + b < n then a + b else a + b - n)"
  using assms by (auto simp: le_mod_geq)

lemma Suc_mod_ring [ring_arith]: "i < n \<Longrightarrow> Suc i mod n = (if Suc i = n then 0 else Suc i)"
  by auto

lemma ring_dist_less [simp]: "a < n \<Longrightarrow> b < n \<Longrightarrow> ring_dist n a b < n"
  by (auto simp: ring_dist_def)

lemma ring_dist_self [simp]: "ring_dist n a a = 0"
  by (simp add: ring_dist_def)

lemma ring_dist_eq_0 [simp]: "a < n \<Longrightarrow> ring_dist n a b = 0 \<longleftrightarrow> a = b"
  by (auto simp: ring_dist_def)

lemma ring_add_dist:
  "a < n \<Longrightarrow> b < n \<Longrightarrow> (a + ring_dist n a b) mod n = b"
  by (auto simp: ring_dist_def)

lemma ring_dist_add:
  "a < n \<Longrightarrow> k < n \<Longrightarrow> ring_dist n a ((a + k) mod n) = k"
  by (auto simp: mod_ring ring_dist_def)

lemma ring_add_neq: "(a::nat) < n \<Longrightarrow> 0 < j \<Longrightarrow> j < n \<Longrightarrow> (a + j) mod n \<noteq> a"
  using mod_ring [of a n j] by (auto split: if_splits)

lemma ring_dist_Suc:
  assumes "a < n" and "b < n" and "Suc (ring_dist n a b) < n"
  shows "ring_dist n a (Suc b mod n) = Suc (ring_dist n a b)"
  using assms by (auto simp: ring_dist_def Suc_mod_ring split: if_splits)

lemma ring_dist_Suc_left:
  assumes "a < n" and "b < n" and "a \<noteq> b"
  shows "ring_dist n (Suc a mod n) b = ring_dist n a b - 1"
  using assms by (auto simp: ring_dist_def Suc_mod_ring split: if_splits)

lemma ring_dist_step:
  "a < n \<Longrightarrow> b < n \<Longrightarrow> a \<noteq> b \<Longrightarrow> ring_dist n a b = Suc (ring_dist n (Suc a mod n) b)"
  using ring_dist_Suc_left [of a n b] by (cases "ring_dist n a b") auto

lemma length_ring_seg [simp]: "length (ring_seg n a k) = k"
  by (simp add: ring_seg_def)

lemma ring_seg_0 [simp]: "ring_seg n a 0 = []"
  by (simp add: ring_seg_def)

lemma ring_seg_nth [simp]: "j < k \<Longrightarrow> ring_seg n a k ! j = (a + j) mod n"
  by (simp add: ring_seg_def)

lemma ring_seg_snoc: "ring_seg n a (Suc k) = ring_seg n a k @ [(a + k) mod n]"
  by (simp add: ring_seg_def)

lemma ring_seg_Cons: "ring_seg n a (Suc k) = a mod n # ring_seg n (Suc a mod n) k"
proof -
  have "[0..<Suc k] = 0 # map Suc [0..<k]"
    by (simp add: map_Suc_upt upt_conv_Cons)
  then show ?thesis
    by (simp add: ring_seg_def mod_simps)
qed

lemma ring_seg_drop:
  "k \<le> m \<Longrightarrow> drop k (ring_seg n a m) = ring_seg n ((a + k) mod n) (m - k)"
  by (rule nth_equalityI) (auto simp: mod_simps ac_simps)

lemma ring_seg_take: "take k (ring_seg n a m) = ring_seg n a (min k m)"
  by (rule nth_equalityI) auto

lemma ring_seg_less: "0 < n \<Longrightarrow> i \<in> set (ring_seg n a k) \<Longrightarrow> i < n"
  by (auto simp: ring_seg_def)

lemma in_ring_seg_iff:
  assumes "a < n" and "k \<le> n" and "i < n"
  shows "i \<in> set (ring_seg n a k) \<longleftrightarrow> ring_dist n a i < k"
proof
  assume "i \<in> set (ring_seg n a k)"
  then obtain j where "j < k" and "i = (a + j) mod n"
    by (auto simp: ring_seg_def)
  with assms show "ring_dist n a i < k"
    using ring_dist_add [of a n j] by simp
next
  assume "ring_dist n a i < k"
  moreover have "i = (a + ring_dist n a i) mod n"
    using assms by (simp add: ring_add_dist)
  ultimately show "i \<in> set (ring_seg n a k)"
    unfolding ring_seg_def by force
qed

lemma set_ring_seg:
  "a < n \<Longrightarrow> k \<le> n \<Longrightarrow> i \<in> set (ring_seg n a k) \<longleftrightarrow> i < n \<and> ring_dist n a i < k"
  using in_ring_seg_iff [of a n k i] ring_seg_less [of n i a k] by auto

lemma ring_seg_end_notin:
  "a < n \<Longrightarrow> b < n \<Longrightarrow> b \<notin> set (ring_seg n a (ring_dist n a b))"
  by (simp add: in_ring_seg_iff less_imp_le)

lemma distinct_ring_seg: "a < n \<Longrightarrow> k \<le> n \<Longrightarrow> distinct (ring_seg n a k)"
  unfolding distinct_conv_nth
  using ring_dist_add [of a n] by (metis length_ring_seg ring_seg_nth order_less_le_trans)

section \<open>Lists and stores\<close>

lemma map_nth_list_update_notin [simp]:
  "i \<notin> set is \<Longrightarrow> map ((!) (xs[i := v])) is = map ((!) xs) is"
  by (induction "is") auto

lemma nth_update_notin: "i \<notin> set ss \<Longrightarrow> s \<in> set ss \<Longrightarrow> xs[i := v] ! s = xs ! s"
  by (metis nth_list_update_neq)

lemma takeWhile_True [simp]: "takeWhile (\<lambda>x. True) xs = xs"
  by (induction xs) auto

lemma upt_0_2: "[0..<2] = [0, 1 :: nat]"
  by (simp add: numeral_2_eq_2)

lemma all_less_2: "(\<forall>i<2. P i) \<longleftrightarrow> P 0 \<and> P (1::nat)"
  by (auto simp: less_Suc_eq numeral_2_eq_2)

lemma all_less_3: "(\<forall>i<3. P i) \<longleftrightarrow> P 0 \<and> P 1 \<and> P (2::nat)"
  by (auto simp: numeral_3_eq_3 less_Suc_eq numeral_2_eq_2)

lemma take_Suc_nth: "k < length xs \<Longrightarrow> take (Suc k) xs = take k xs @ [xs ! k]"
  by (simp add: take_Suc_conv_app_nth)

end
