(* ===== verification/Idpf_Ring.thy ===== *)
theory Idpf_Ring
  imports Idpf_Prelude
begin

text \<open>
  The interface of a descriptor ring shared by a producer and a consumer.  Control queues and
  data path transmit queues keep one: a number of slots, a producer index (\<open>next_to_use\<close>), a
  consumer index (\<open>next_to_clean\<close>), a successor on indices, and a macro that counts the free
  slots.  The locale fixes these operations over an arbitrary queue record and proves once what
  every queue of the driver relies on: one slot always stays free, so a full ring is never taken
  for an empty one, and a producer that respects the free count never reaches the consumer.
\<close>

locale descriptor_ring =
  fixes ok :: "'q \<Rightarrow> bool"
    and slots :: "'q \<Rightarrow> nat"
    and prod :: "'q \<Rightarrow> nat"
    and cons :: "'q \<Rightarrow> nat"
    and succ :: "'q \<Rightarrow> nat \<Rightarrow> nat"
    and unused :: "'q \<Rightarrow> nat"
  assumes prod_less: "ok q \<Longrightarrow> prod q < slots q"
    and cons_less: "ok q \<Longrightarrow> cons q < slots q"
    and succ_mod: "ok q \<Longrightarrow> i < slots q \<Longrightarrow> succ q i = Suc i mod slots q"
    and unused_dist: "ok q \<Longrightarrow> unused q = slots q - 1 - ring_dist (slots q) (cons q) (prod q)"
begin

lemma slots_pos: "ok q \<Longrightarrow> 0 < slots q"
  using prod_less by fastforce

lemma used_plus_unused:
  assumes "ok q"
  shows "ring_dist (slots q) (cons q) (prod q) + unused q = slots q - 1"
proof -
  have "ring_dist (slots q) (cons q) (prod q) < slots q"
    using assms by (simp add: cons_less prod_less)
  then show ?thesis
    using assms by (simp add: unused_dist)
qed

lemma unused_less: "ok q \<Longrightarrow> unused q < slots q"
  using used_plus_unused [of q] slots_pos [of q] by simp

lemma empty_iff:
  assumes "ok q"
  shows "prod q = cons q \<longleftrightarrow> unused q = slots q - 1"
proof -
  have "ring_dist (slots q) (cons q) (prod q) = 0 \<longleftrightarrow> unused q = slots q - 1"
    using used_plus_unused [OF assms] slots_pos [OF assms] by linarith
  then show ?thesis
    using ring_dist_eq_0 [OF cons_less [OF assms], of "prod q"] by auto
qed

lemma full_iff: "ok q \<Longrightarrow> succ q (prod q) = cons q \<longleftrightarrow> unused q = 0"
  by (auto simp: succ_mod prod_less cons_less unused_dist ring_dist_def Suc_mod_ring
      dest: prod_less cons_less split: if_splits)

lemma succ_less: "ok q \<Longrightarrow> i < slots q \<Longrightarrow> succ q i < slots q"
  by (simp add: succ_mod slots_pos)

lemma succ_pow:
  assumes "ok q" and "i < slots q"
  shows "(succ q ^^ k) i = (i + k) mod slots q"
proof (induction k)
  case 0
  then show ?case using assms by simp
next
  case (Suc k)
  then show ?case
    using assms slots_pos [of q] by (simp add: succ_mod mod_simps)
qed

lemma produce_used:
  assumes "ok q" and "k \<le> unused q"
  shows "ring_dist (slots q) (cons q) ((prod q + k) mod slots q) =
         ring_dist (slots q) (cons q) (prod q) + k"
  using assms used_plus_unused [of q] cons_less [of q] prod_less [of q]
  by (auto simp: mod_ring ring_dist_def split: if_splits)

lemma free_slot_not_used:
  assumes "ok q" and "k < unused q"
  shows "(prod q + k) mod slots q \<notin>
         set (ring_seg (slots q) (cons q) (ring_dist (slots q) (cons q) (prod q) + k))"
proof -
  have "k < slots q" and "ring_dist (slots q) (cons q) (prod q) + k \<le> slots q"
    using assms used_plus_unused [of q] unused_less [of q] by auto
  then show ?thesis
    using assms slots_pos [of q] cons_less [of q] produce_used [of q k]
    by (subst in_ring_seg_iff) auto
qed

end

end
