(* ===== verification/Idpf_Controlq.thy ===== *)
theory Idpf_Controlq
  imports Idpf_Ring
begin

text \<open>
  The run-time operations of the control queues (mailbox send and receive rings):
  \<open>idpf_controlq.c\<close> with its types from \<open>idpf_controlq.h\<close>, \<open>idpf_controlq_api.h\<close> and
  \<open>idpf_mem.h\<close>.  Messages and DMA buffers live in stores indexed by their addresses, because the
  rings keep pointers to them and \<open>idpf_ctlq_clean_sq\<close> writes a status through such a pointer.
  A register write appends to the log \<open>mmio\<close>, so the order of the writes is visible.
  The union members that share storage share a field: \<open>ret_val\<close> with \<open>pfid_vfid\<close> and
  \<open>func_id\<close> with \<open>status\<close>; the 16 context bytes of a message are two 32 bit words and the
  8 bytes that hold the payload pointer.
\<close>

section \<open>Data\<close>

datatype idpf_ctlq_type =
    IDPF_CTLQ_TYPE_MAILBOX_TX | IDPF_CTLQ_TYPE_MAILBOX_RX | IDPF_CTLQ_TYPE_CONFIG_TX
  | IDPF_CTLQ_TYPE_CONFIG_RX | IDPF_CTLQ_TYPE_EVENT_RX | IDPF_CTLQ_TYPE_RDMA_TX
  | IDPF_CTLQ_TYPE_RDMA_RX | IDPF_CTLQ_TYPE_RDMA_COMPL

record idpf_dma_mem =
  dma_va :: ptr
  dma_pa :: u64
  dma_size :: u64

record idpf_ctlq_reg =
  reg_head :: u32
  reg_tail :: u32
  reg_len :: u32
  reg_bah :: u32
  reg_bal :: u32
  reg_len_mask :: u32
  reg_len_ena_mask :: u32
  reg_head_mask :: u32

record idpf_ctlq_desc =
  d_flags :: u16
  d_opcode :: u16
  d_datalen :: u16
  d_ret_val :: u16
  d_cookie_high :: u32
  d_cookie_low :: u32
  d_param0 :: u32
  d_param1 :: u32
  d_addr_high :: u32
  d_addr_low :: u32

record idpf_ctlq_msg =
  m_vmvf_type :: u8
  m_host_id :: u8
  m_opcode :: u16
  m_data_len :: u16
  m_status :: u16
  m_chnl_opcode :: u32
  m_chnl_retval :: u32
  m_ctx0 :: u32
  m_ctx1 :: u32
  m_payload :: ptr

record idpf_ctlq_info =
  cq_type :: idpf_ctlq_type
  q_id :: int
  cq_lock :: bool
  next_to_use :: nat
  next_to_clean :: nat
  next_to_post :: nat
  desc_mem :: idpf_dma_mem
  desc_ring :: "idpf_ctlq_desc list"
  bi_array :: ptr
  bi :: "ptr list"
  buf_size :: nat
  ring_size :: nat
  reg :: idpf_ctlq_reg

record idpf_hw =
  mmio :: "(u32 \<times> u32) list"
  subsystem_device_id :: u16
  cq_list_head :: "ptr list"
  asq :: ptr
  arq :: ptr

type_synonym msg_store = "ptr \<Rightarrow> idpf_ctlq_msg"
type_synonym dma_store = "ptr \<Rightarrow> idpf_dma_mem"

definition IDPF_CTLQ_FLAG_DD :: u16 where "IDPF_CTLQ_FLAG_DD = 0x1"
definition IDPF_CTLQ_FLAG_ERR :: u16 where "IDPF_CTLQ_FLAG_ERR = 0x4"
definition IDPF_CTLQ_FLAG_FTYPE_VM :: u16 where "IDPF_CTLQ_FLAG_FTYPE_VM = 0x40"
definition IDPF_CTLQ_FLAG_FTYPE_PF :: u16 where "IDPF_CTLQ_FLAG_FTYPE_PF = 0x80"
definition IDPF_CTLQ_FLAG_RD :: u16 where "IDPF_CTLQ_FLAG_RD = 0x400"
definition IDPF_CTLQ_FLAG_BUF :: u16 where "IDPF_CTLQ_FLAG_BUF = 0x1000"
definition idpf_mbq_opc_send_msg_to_pf :: u16 where "idpf_mbq_opc_send_msg_to_pf = 0x0801"

definition IS_SIMICS_DEVICE :: "u16 \<Rightarrow> bool" where
  "IS_SIMICS_DEVICE subdev \<longleftrightarrow> subdev = 0x12D1"

definition zero_desc :: idpf_ctlq_desc where
  "zero_desc = \<lparr>d_flags = 0, d_opcode = 0, d_datalen = 0, d_ret_val = 0, d_cookie_high = 0,
     d_cookie_low = 0, d_param0 = 0, d_param1 = 0, d_addr_high = 0, d_addr_low = 0\<rparr>"

definition wr32 :: "idpf_hw \<Rightarrow> u32 \<Rightarrow> u32 \<Rightarrow> idpf_hw" where
  "wr32 hw r v = hw\<lparr>mmio := mmio hw @ [(r, v)]\<rparr>"

section \<open>Ring indices\<close>

text \<open>The macro is evaluated in \<open>int\<close> and its result cast to \<open>u16\<close>.\<close>

definition IDPF_CTLQ_DESC_UNUSED :: "idpf_ctlq_info \<Rightarrow> nat" where
  "IDPF_CTLQ_DESC_UNUSED cq =
     nat (((if next_to_clean cq > next_to_use cq then 0 else int (ring_size cq))
           + int (next_to_clean cq) - int (next_to_use cq) - 1) mod 65536)"

text \<open>The increment of a \<open>u16\<close> index that wraps at the ring size, by equality and by comparison.\<close>

definition ctlq_bump :: "idpf_ctlq_info \<Rightarrow> nat \<Rightarrow> nat" where
  "ctlq_bump cq i = (let j = trunc16 (i + 1) in if j = ring_size cq then 0 else j)"

definition ctlq_bump_ge :: "idpf_ctlq_info \<Rightarrow> nat \<Rightarrow> nat" where
  "ctlq_bump_ge cq i = (let j = trunc16 (i + 1) in if j \<ge> ring_size cq then 0 else j)"

section \<open>Sending\<close>

definition ctlq_desc_header :: "idpf_ctlq_msg \<Rightarrow> idpf_ctlq_desc \<Rightarrow> idpf_ctlq_desc" where
  "ctlq_desc_header msg d = d\<lparr>d_opcode := m_opcode msg, d_ret_val := m_status msg,
     d_cookie_high := m_chnl_opcode msg, d_cookie_low := m_chnl_retval msg,
     d_flags := push_bit 13 (ucast (m_host_id msg AND 7))\<rparr>"

definition ctlq_simics_param0 :: "idpf_hw \<Rightarrow> idpf_ctlq_msg \<Rightarrow> idpf_ctlq_desc \<Rightarrow> idpf_ctlq_desc" where
  "ctlq_simics_param0 hw msg d =
     (if IS_SIMICS_DEVICE (subsystem_device_id hw) \<and> m_opcode msg = idpf_mbq_opc_send_msg_to_pf
      then d\<lparr>d_param0 := ucast (m_status msg)\<rparr> else d)"

definition ctlq_desc_indirect ::
  "dma_store \<Rightarrow> idpf_hw \<Rightarrow> idpf_ctlq_msg \<Rightarrow> idpf_ctlq_desc \<Rightarrow> idpf_ctlq_desc" where
  "ctlq_desc_indirect dmas hw msg d =
     (let buff = dmas (m_payload msg);
          d1 = d\<lparr>d_datalen := d_datalen d OR m_data_len msg,
                 d_flags := d_flags d OR IDPF_CTLQ_FLAG_BUF OR IDPF_CTLQ_FLAG_RD,
                 d_addr_high := upper_32_bits (dma_pa buff),
                 d_addr_low := lower_32_bits (dma_pa buff)\<rparr>
      in ctlq_simics_param0 hw msg (d1\<lparr>d_param0 := m_ctx0 msg, d_param1 := m_ctx1 msg\<rparr>))"

definition ctlq_desc_direct :: "idpf_hw \<Rightarrow> idpf_ctlq_msg \<Rightarrow> idpf_ctlq_desc \<Rightarrow> idpf_ctlq_desc" where
  "ctlq_desc_direct hw msg d =
     ctlq_simics_param0 hw msg (d\<lparr>d_param0 := m_ctx0 msg, d_param1 := m_ctx1 msg,
       d_addr_high := lower_32_bits (m_payload msg), d_addr_low := upper_32_bits (m_payload msg)\<rparr>)"

definition ctlq_fill_desc ::
  "dma_store \<Rightarrow> idpf_hw \<Rightarrow> idpf_ctlq_msg \<Rightarrow> idpf_ctlq_desc \<Rightarrow> idpf_ctlq_desc" where
  "ctlq_fill_desc dmas hw msg d =
     (if m_data_len msg \<noteq> 0 then ctlq_desc_indirect dmas hw msg (ctlq_desc_header msg d)
      else ctlq_desc_direct hw msg (ctlq_desc_header msg d))"

fun ctlq_send_loop ::
  "msg_store \<Rightarrow> dma_store \<Rightarrow> idpf_hw \<Rightarrow> ptr list \<Rightarrow> idpf_ctlq_info \<Rightarrow> ret \<times> idpf_ctlq_info" where
  "ctlq_send_loop msgs dmas hw [] cq = (ret_ok, cq)"
| "ctlq_send_loop msgs dmas hw (p # ps) cq =
     (let msg = msgs p; ntu = next_to_use cq; d = desc_ring cq ! ntu in
      if m_data_len msg \<noteq> 0 \<and> m_payload msg = NULL
      then (Some EBADMSG, cq\<lparr>desc_ring := (desc_ring cq)[ntu := ctlq_desc_header msg d]\<rparr>)
      else ctlq_send_loop msgs dmas hw ps
             (cq\<lparr>desc_ring := (desc_ring cq)[ntu := ctlq_fill_desc dmas hw msg d],
                 bi := (bi cq)[ntu := p], next_to_use := ctlq_bump cq ntu\<rparr>))"

definition idpf_ctlq_send ::
  "msg_store \<Rightarrow> dma_store \<Rightarrow> idpf_hw \<Rightarrow> idpf_ctlq_info \<Rightarrow> nat \<Rightarrow> ptr list
   \<Rightarrow> ret \<times> idpf_hw \<times> idpf_ctlq_info" where
  "idpf_ctlq_send msgs dmas hw cq num_q_msg q_msg =
     (let cq = cq\<lparr>cq_lock := True\<rparr>; num_desc_avail = IDPF_CTLQ_DESC_UNUSED cq in
      if num_desc_avail = 0 \<or> num_desc_avail < num_q_msg
      then (Some ENOSPC, hw, cq\<lparr>cq_lock := False\<rparr>)
      else case ctlq_send_loop msgs dmas hw (take num_q_msg q_msg) cq of
             (Some e, cq) \<Rightarrow> (Some e, hw, cq\<lparr>cq_lock := False\<rparr>)
           | (None, cq) \<Rightarrow>
               (ret_ok, wr32 hw (reg_tail (reg cq)) (of_nat (next_to_use cq)), cq\<lparr>cq_lock := False\<rparr>))"

section \<open>Reclaiming sent messages\<close>

text \<open>
  \<open>ctlq_clean_loop k i\<close> is the \<open>for\<close> loop with \<open>k\<close> iterations left and loop counter \<open>i\<close>;
  it returns the counter at which the loop stopped and the local \<open>ntc\<close>.
\<close>

fun ctlq_clean_loop ::
  "bool \<Rightarrow> nat \<Rightarrow> nat \<Rightarrow> nat \<Rightarrow> msg_store \<Rightarrow> idpf_ctlq_info \<Rightarrow> ptr list
   \<Rightarrow> nat \<times> nat \<times> msg_store \<times> idpf_ctlq_info \<times> ptr list" where
  "ctlq_clean_loop force 0 i ntc msgs cq msg_status = (i, ntc, msgs, cq, msg_status)"
| "ctlq_clean_loop force (Suc k) i ntc msgs cq msg_status =
     (let desc = desc_ring cq ! ntc in
      if \<not> force \<and> d_flags desc AND IDPF_CTLQ_FLAG_DD = 0 then (i, ntc, msgs, cq, msg_status)
      else let desc_err = d_ret_val desc AND 0xff; m = bi cq ! ntc;
               msg_status = msg_status[i := m] in
           if m = NULL then (i, ntc, msgs, cq, msg_status)
           else ctlq_clean_loop force k (i + 1) (ctlq_bump cq ntc)
                  (msgs(m := (msgs m)\<lparr>m_status := desc_err\<rparr>))
                  (cq\<lparr>bi := (bi cq)[ntc := NULL], desc_ring := (desc_ring cq)[ntc := zero_desc]\<rparr>)
                  msg_status)"

definition ctlq_clean_sq ::
  "msg_store \<Rightarrow> idpf_ctlq_info \<Rightarrow> nat \<Rightarrow> ptr list \<Rightarrow> bool
   \<Rightarrow> ret \<times> msg_store \<times> idpf_ctlq_info \<times> nat \<times> ptr list" where
  "ctlq_clean_sq msgs cq clean_count msg_status force =
     (if clean_count = 0 then (ret_ok, msgs, cq, clean_count, msg_status)
      else if clean_count > ring_size cq then (Some EBADR, msgs, cq, clean_count, msg_status)
      else let cq = cq\<lparr>cq_lock := True\<rparr>;
               (i, ntc, msgs, cq, msg_status) =
                 ctlq_clean_loop force clean_count 0 (next_to_clean cq) msgs cq msg_status
           in (ret_ok, msgs, cq\<lparr>next_to_clean := ntc, cq_lock := False\<rparr>, i, msg_status))"

definition idpf_ctlq_clean_sq_force where
  "idpf_ctlq_clean_sq_force msgs cq clean_count msg_status =
     ctlq_clean_sq msgs cq clean_count msg_status True"

definition idpf_ctlq_clean_sq where
  "idpf_ctlq_clean_sq msgs cq clean_count msg_status =
     ctlq_clean_sq msgs cq clean_count msg_status False"

section \<open>Posting receive buffers\<close>

text \<open>
  The two loops run until an index meets \<open>next_to_clean\<close>; \<open>None\<close> is a run that never returns.
  \<open>ctlq_find_buf\<close> is the inner search: it stops at a slot that holds a buffer, or at
  \<open>next_to_clean\<close> when there is none.
\<close>

partial_function (option) ctlq_find_buf :: "idpf_ctlq_info \<Rightarrow> nat \<Rightarrow> nat option" where
  "ctlq_find_buf cq tbp =
     (if tbp = next_to_clean cq then Some tbp
      else if bi cq ! tbp \<noteq> NULL then Some tbp
      else ctlq_find_buf cq (ctlq_bump_ge cq tbp))"

definition ctlq_rx_fill_desc :: "dma_store \<Rightarrow> nat \<Rightarrow> idpf_ctlq_info \<Rightarrow> idpf_ctlq_info" where
  "ctlq_rx_fill_desc dmas ntp cq =
     (let b = dmas (bi cq ! ntp) in
      cq\<lparr>desc_ring := (desc_ring cq)[ntp := (desc_ring cq ! ntp)\<lparr>
         d_flags := IDPF_CTLQ_FLAG_BUF OR IDPF_CTLQ_FLAG_RD,
         d_datalen := ucast (dma_size b),
         d_addr_high := upper_32_bits (dma_pa b),
         d_addr_low := lower_32_bits (dma_pa b)\<rparr>]\<rparr>)"

partial_function (option) ctlq_post_loop ::
  "dma_store \<Rightarrow> nat \<Rightarrow> ptr list \<Rightarrow> bool \<Rightarrow> nat \<Rightarrow> nat \<Rightarrow> idpf_ctlq_info
   \<Rightarrow> (nat \<times> nat \<times> idpf_ctlq_info) option" where
  "ctlq_post_loop dmas buff_count buffs buffs_avail i ntp cq =
     (if ntp = next_to_clean cq then Some (ntp, i, cq)
      else if bi cq ! ntp \<noteq> NULL then
        ctlq_post_loop dmas buff_count buffs buffs_avail i (ctlq_bump cq ntp)
          (ctlq_rx_fill_desc dmas ntp cq)
      else if \<not> buffs_avail then
        Option.bind (ctlq_find_buf cq (ctlq_bump_ge cq ntp)) (\<lambda>tbp.
          if tbp = next_to_clean cq then Some (ntp, i, cq)
          else ctlq_post_loop dmas buff_count buffs buffs_avail i (ctlq_bump cq ntp)
                 (ctlq_rx_fill_desc dmas ntp
                    (cq\<lparr>bi := (bi cq)[ntp := bi cq ! tbp, tbp := NULL]\<rparr>)))
      else
        ctlq_post_loop dmas buff_count buffs (i + 1 < buff_count) (i + 1) (ctlq_bump cq ntp)
          (ctlq_rx_fill_desc dmas ntp (cq\<lparr>bi := (bi cq)[ntp := buffs ! i]\<rparr>)))"

definition ctlq_post_out ::
  "idpf_hw \<Rightarrow> nat \<Rightarrow> nat \<times> nat \<times> idpf_ctlq_info \<Rightarrow> ret \<times> idpf_hw \<times> idpf_ctlq_info \<times> nat" where
  "ctlq_post_out hw buff_count r =
     (case r of (ntp, i, cq) \<Rightarrow>
        if next_to_post cq \<noteq> ntp then
          let cq = cq\<lparr>next_to_post := (if ntp \<noteq> 0 then ntp - 1 else trunc16 (ring_size cq + 65535))\<rparr> in
          (ret_ok, wr32 hw (reg_tail (reg cq)) (of_nat (next_to_post cq)), cq\<lparr>cq_lock := False\<rparr>,
           buff_count - i)
        else (ret_ok, hw, cq\<lparr>cq_lock := False\<rparr>, buff_count - i))"

definition idpf_ctlq_post_rx_buffs ::
  "dma_store \<Rightarrow> idpf_hw \<Rightarrow> idpf_ctlq_info \<Rightarrow> nat \<Rightarrow> ptr list
   \<Rightarrow> (ret \<times> idpf_hw \<times> idpf_ctlq_info \<times> nat) option" where
  "idpf_ctlq_post_rx_buffs dmas hw cq buff_count buffs =
     (if buff_count > ring_size cq then Some (Some EBADR, hw, cq, buff_count)
      else let cq = cq\<lparr>cq_lock := True\<rparr>; ntp = next_to_post cq in
           if ctlq_bump_ge cq ntp = next_to_clean cq
           then Some (ctlq_post_out hw buff_count (ntp, 0, cq))
           else map_option (ctlq_post_out hw buff_count)
                  (ctlq_post_loop dmas buff_count buffs (buff_count > 0) 0 ntp cq))"

section \<open>Receiving\<close>

definition ctlq_recv_msg :: "idpf_ctlq_desc \<Rightarrow> ptr \<Rightarrow> idpf_ctlq_msg \<Rightarrow> idpf_ctlq_msg" where
  "ctlq_recv_msg desc rx_buff m =
     (let m = m\<lparr>m_vmvf_type := ucast (drop_bit 6 (d_flags desc AND
                    (IDPF_CTLQ_FLAG_FTYPE_VM OR IDPF_CTLQ_FLAG_FTYPE_PF))),
                m_chnl_opcode := d_cookie_high desc, m_chnl_retval := d_cookie_low desc,
                m_opcode := d_opcode desc, m_data_len := d_datalen desc,
                m_status := d_ret_val desc,
                m_ctx0 := d_param0 desc, m_ctx1 := d_param1 desc\<rparr>
      in if d_datalen desc \<noteq> 0 then m\<lparr>m_payload := rx_buff\<rparr>
         else m\<lparr>m_payload := ucast (d_addr_high desc) OR push_bit 32 (ucast (d_addr_low desc))\<rparr>)"

fun ctlq_recv_loop ::
  "nat \<Rightarrow> nat \<Rightarrow> nat \<Rightarrow> idpf_ctlq_info \<Rightarrow> idpf_ctlq_msg list \<Rightarrow> ret
   \<Rightarrow> nat \<times> nat \<times> idpf_ctlq_info \<times> idpf_ctlq_msg list \<times> ret" where
  "ctlq_recv_loop 0 i ntc cq q_msg err = (i, ntc, cq, q_msg, err)"
| "ctlq_recv_loop (Suc k) i ntc cq q_msg err =
     (let desc = desc_ring cq ! ntc; flags = d_flags desc in
      if flags AND IDPF_CTLQ_FLAG_DD = 0 then (i, ntc, cq, q_msg, err)
      else ctlq_recv_loop k (i + 1) (ctlq_bump cq ntc)
             (cq\<lparr>bi := (if d_datalen desc \<noteq> 0 then (bi cq)[ntc := NULL] else bi cq),
                 desc_ring := (desc_ring cq)[ntc := zero_desc]\<rparr>)
             (q_msg[i := ctlq_recv_msg desc (bi cq ! ntc) (q_msg ! i)])
             (if flags AND IDPF_CTLQ_FLAG_ERR \<noteq> 0 then Some EBADMSG else err))"

text \<open>The queue argument is \<open>None\<close> when the pointer is \<open>NULL\<close>.\<close>

definition idpf_ctlq_recv ::
  "idpf_ctlq_info option \<Rightarrow> nat \<Rightarrow> idpf_ctlq_msg list
   \<Rightarrow> ret \<times> idpf_ctlq_info option \<times> nat \<times> idpf_ctlq_msg list" where
  "idpf_ctlq_recv cqo num_q_msg q_msg =
     (case cqo of None \<Rightarrow> (Some ENOBUFS, None, num_q_msg, q_msg)
      | Some cq \<Rightarrow>
        if ring_size cq = 0 then (Some ENOBUFS, cqo, num_q_msg, q_msg)
        else if num_q_msg = 0 then (ret_ok, cqo, num_q_msg, q_msg)
        else if num_q_msg > ring_size cq then (Some EBADR, cqo, num_q_msg, q_msg)
        else let cq = cq\<lparr>cq_lock := True\<rparr>;
                 (i, ntc, cq, q_msg, err) =
                   ctlq_recv_loop num_q_msg 0 (next_to_clean cq) cq q_msg ret_ok
             in (if i = 0 then Some ENOMSG else err,
                 Some (cq\<lparr>next_to_clean := ntc, cq_lock := False\<rparr>), i, q_msg))"

end
