(* ===== verification/Idpf_Controlq_Send.thy ===== *)
theory Idpf_Controlq_Send
  imports Idpf_Controlq
begin

text \<open>
  The send side of a control queue implements a bounded FIFO of message pointers: the slots from
  \<open>next_to_clean\<close> up to \<open>next_to_use\<close> hold the messages in flight, in order.  The invariant
  \<open>sq_inv\<close> ties the shadow array \<open>bi\<close> and the descriptors to that segment; sending, reclaiming
  (also forced) and every write of the device to a descriptor it owns keep it.
\<close>

section \<open>Invariant, abstraction, specification\<close>

definition ctlq_idx_ok :: "idpf_ctlq_info \<Rightarrow> bool" where
  "ctlq_idx_ok cq \<longleftrightarrow> ring_size cq < 65536 \<and> next_to_use cq < ring_size cq \<and>
     next_to_clean cq < ring_size cq \<and> length (desc_ring cq) = ring_size cq \<and>
     length (bi cq) = ring_size cq"

definition sq_count :: "idpf_ctlq_info \<Rightarrow> nat" where
  "sq_count cq = ring_dist (ring_size cq) (next_to_clean cq) (next_to_use cq)"

definition sq_busy :: "idpf_ctlq_info \<Rightarrow> nat \<Rightarrow> bool" where
  "sq_busy cq i \<longleftrightarrow> ring_dist (ring_size cq) (next_to_clean cq) i < sq_count cq"

definition sq_slots :: "idpf_ctlq_info \<Rightarrow> nat list" where
  "sq_slots cq = ring_seg (ring_size cq) (next_to_clean cq) (sq_count cq)"

definition sq_msgs :: "idpf_ctlq_info \<Rightarrow> ptr list" where
  "sq_msgs cq = map ((!) (bi cq)) (sq_slots cq)"

definition desc_idle :: "idpf_ctlq_desc \<Rightarrow> bool" where
  "desc_idle d \<longleftrightarrow> d_datalen d = 0 \<and> d_flags d AND IDPF_CTLQ_FLAG_DD = 0"

definition sq_inv :: "idpf_ctlq_info \<Rightarrow> bool" where
  "sq_inv cq \<longleftrightarrow> ctlq_idx_ok cq \<and>
     (\<forall>i<ring_size cq. bi cq ! i \<noteq> NULL \<longleftrightarrow> sq_busy cq i) \<and>
     (\<forall>i<ring_size cq. \<not> sq_busy cq i \<longrightarrow> desc_idle (desc_ring cq ! i))"

definition msg_sendable :: "idpf_ctlq_msg \<Rightarrow> bool" where
  "msg_sendable m \<longleftrightarrow> m_data_len m = 0 \<or> m_payload m \<noteq> NULL"

text \<open>The bounded FIFO: what a send does to the messages in flight.\<close>

definition sq_spec_send :: "msg_store \<Rightarrow> nat \<Rightarrow> ptr list \<Rightarrow> ptr list \<Rightarrow> ret \<times> ptr list" where
  "sq_spec_send msgs cap q ms =
     (if length q = cap \<or> cap < length q + length ms then (Some ENOSPC, q)
      else if list_all (\<lambda>p. msg_sendable (msgs p)) ms then (ret_ok, q @ ms)
      else (Some EBADMSG, q @ takeWhile (\<lambda>p. msg_sendable (msgs p)) ms))"

text \<open>The slots a reclaim may take: done (or any, when forced), in order, at most \<open>k\<close>.\<close>

definition sq_reclaim :: "bool \<Rightarrow> nat \<Rightarrow> idpf_ctlq_info \<Rightarrow> nat list" where
  "sq_reclaim force k cq =
     takeWhile (\<lambda>s. force \<or> d_flags (desc_ring cq ! s) AND IDPF_CTLQ_FLAG_DD \<noteq> 0) (take k (sq_slots cq))"

text \<open>The device writes only to descriptors that were handed to it.\<close>

definition sq_device_write :: "idpf_ctlq_info \<Rightarrow> idpf_ctlq_desc list \<Rightarrow> bool" where
  "sq_device_write cq ds \<longleftrightarrow> length ds = length (desc_ring cq) \<and>
     (\<forall>i<length ds. \<not> sq_busy cq i \<longrightarrow> ds ! i = desc_ring cq ! i)"

inductive sq_step :: "idpf_ctlq_info \<Rightarrow> idpf_ctlq_info \<Rightarrow> bool" where
  send: "NULL \<notin> set q_msg \<Longrightarrow> idpf_ctlq_send msgs dmas hw cq num q_msg = (r, hw', cq') \<Longrightarrow> sq_step cq cq'"
| clean: "ctlq_clean_sq msgs cq n ms force = (r, msgs', cq', n', ms') \<Longrightarrow> sq_step cq cq'"
| device: "sq_device_write cq ds \<Longrightarrow> sq_step cq (cq\<lparr>desc_ring := ds\<rparr>)"

inductive_cases sq_stepE: "sq_step cq cq'"

text \<open>A freshly added send queue: \<open>idpf_ctlq_add\<close> zeroes the ring, the indices and the array.\<close>

definition sq_fresh :: "idpf_ctlq_info \<Rightarrow> bool" where
  "sq_fresh cq \<longleftrightarrow> 0 < ring_size cq \<and> ring_size cq < 65536 \<and> next_to_use cq = 0 \<and>
     next_to_clean cq = 0 \<and> desc_ring cq = replicate (ring_size cq) zero_desc \<and>
     bi cq = replicate (ring_size cq) NULL"

section \<open>The ring interface\<close>

interpretation ctlq: descriptor_ring ctlq_idx_ok ring_size next_to_use next_to_clean ctlq_bump
  IDPF_CTLQ_DESC_UNUSED
proof unfold_locales
  fix q :: idpf_ctlq_info and i
  assume ok: "ctlq_idx_ok q"
  show "next_to_use q < ring_size q" and "next_to_clean q < ring_size q"
    using ok by (simp_all add: ctlq_idx_ok_def)
  show "ctlq_bump q i = Suc i mod ring_size q" if "i < ring_size q"
    using ok that by (auto simp: ctlq_idx_ok_def ctlq_bump_def Let_def Suc_mod_ring)
  show "IDPF_CTLQ_DESC_UNUSED q =
    ring_size q - 1 - ring_dist (ring_size q) (next_to_clean q) (next_to_use q)"
    using ok by (auto simp: ctlq_idx_ok_def IDPF_CTLQ_DESC_UNUSED_def ring_dist_def nat_eq_iff)
qed

lemma ctlq_idx_okD:
  assumes "ctlq_idx_ok cq"
  shows "ring_size cq < 65536" "next_to_use cq < ring_size cq" "next_to_clean cq < ring_size cq"
    "length (desc_ring cq) = ring_size cq" "length (bi cq) = ring_size cq"
  using assms by (simp_all add: ctlq_idx_ok_def)

lemma sq_invD:
  assumes "sq_inv cq"
  shows "ctlq_idx_ok cq"
    and "\<And>i. i < ring_size cq \<Longrightarrow> bi cq ! i \<noteq> NULL \<longleftrightarrow> sq_busy cq i"
    and "\<And>i. i < ring_size cq \<Longrightarrow> \<not> sq_busy cq i \<Longrightarrow> desc_idle (desc_ring cq ! i)"
  using assms by (auto simp: sq_inv_def)

lemma sq_count_less: "ctlq_idx_ok cq \<Longrightarrow> sq_count cq < ring_size cq"
  by (simp add: sq_count_def ctlq_idx_okD)

lemma sq_count_unused: "ctlq_idx_ok cq \<Longrightarrow> sq_count cq + IDPF_CTLQ_DESC_UNUSED cq = ring_size cq - 1"
  using ctlq.used_plus_unused by (simp add: sq_count_def)

lemma length_sq_slots [simp]: "length (sq_slots cq) = sq_count cq"
  by (simp add: sq_slots_def)

lemma length_sq_msgs [simp]: "length (sq_msgs cq) = sq_count cq"
  by (simp add: sq_msgs_def)

lemma sq_slots_busy:
  "ctlq_idx_ok cq \<Longrightarrow> i \<in> set (sq_slots cq) \<longleftrightarrow> i < ring_size cq \<and> sq_busy cq i"
  by (simp add: sq_slots_def sq_busy_def set_ring_seg ctlq_idx_okD sq_count_less less_imp_le)

lemma next_to_use_free: "\<not> sq_busy cq (next_to_use cq)"
  by (simp add: sq_busy_def sq_count_def)

lemma sq_fresh_inv: "sq_fresh cq \<Longrightarrow> sq_inv cq"
  by (auto simp: sq_fresh_def sq_inv_def ctlq_idx_ok_def sq_busy_def sq_count_def desc_idle_def
      zero_desc_def)

section \<open>Pushing one message\<close>

definition sq_push :: "idpf_ctlq_desc \<Rightarrow> ptr \<Rightarrow> idpf_ctlq_info \<Rightarrow> idpf_ctlq_info" where
  "sq_push d p cq = cq\<lparr>desc_ring := (desc_ring cq)[next_to_use cq := d],
     bi := (bi cq)[next_to_use cq := p], next_to_use := ctlq_bump cq (next_to_use cq)\<rparr>"

lemma sq_push_simps [simp]:
  "ring_size (sq_push d p cq) = ring_size cq"
  "next_to_clean (sq_push d p cq) = next_to_clean cq"
  "next_to_use (sq_push d p cq) = ctlq_bump cq (next_to_use cq)"
  "desc_ring (sq_push d p cq) = (desc_ring cq)[next_to_use cq := d]"
  "bi (sq_push d p cq) = (bi cq)[next_to_use cq := p]"
  "cq_lock (sq_push d p cq) = cq_lock cq"
  "reg (sq_push d p cq) = reg cq"
  by (simp_all add: sq_push_def)

lemma sq_push_count:
  assumes "ctlq_idx_ok cq" and "0 < IDPF_CTLQ_DESC_UNUSED cq"
  shows "sq_count (sq_push d p cq) = Suc (sq_count cq)"
  using assms ctlq.produce_used [of cq 1] ctlq_idx_okD [OF assms(1)]
  by (simp add: sq_count_def ctlq.succ_mod)

lemma sq_push_idx_ok: "ctlq_idx_ok cq \<Longrightarrow> ctlq_idx_ok (sq_push d p cq)"
  using ctlq.succ_less [of cq "next_to_use cq"] by (simp add: ctlq_idx_ok_def)

lemma sq_push_unused:
  assumes "ctlq_idx_ok cq" and "0 < IDPF_CTLQ_DESC_UNUSED cq"
  shows "IDPF_CTLQ_DESC_UNUSED (sq_push d p cq) = IDPF_CTLQ_DESC_UNUSED cq - 1"
  using sq_push_count [OF assms, of d p] sq_count_unused [OF assms(1)]
    sq_count_unused [OF sq_push_idx_ok [OF assms(1)], of d p] by simp

lemma sq_push_busy:
  assumes "ctlq_idx_ok cq" and "0 < IDPF_CTLQ_DESC_UNUSED cq" and "i < ring_size cq"
  shows "sq_busy (sq_push d p cq) i \<longleftrightarrow> sq_busy cq i \<or> i = next_to_use cq"
proof -
  have "ring_dist (ring_size cq) (next_to_clean cq) i = sq_count cq \<longleftrightarrow> i = next_to_use cq"
    using assms ctlq_idx_okD [OF assms(1)] ring_add_dist [of "next_to_clean cq" "ring_size cq"]
    unfolding sq_count_def by metis
  then show ?thesis
    using sq_push_count [OF assms(1,2), of d p] by (auto simp: sq_busy_def less_Suc_eq)
qed

lemma sq_push_inv:
  assumes inv: "sq_inv cq" and "0 < IDPF_CTLQ_DESC_UNUSED cq" and "p \<noteq> NULL"
  shows "sq_inv (sq_push d p cq)"
  using assms sq_invD [OF inv] sq_push_busy [of cq]
  by (auto simp: sq_inv_def sq_push_idx_ok nth_list_update ctlq_idx_okD)

lemma sq_push_msgs:
  assumes ok: "ctlq_idx_ok cq" and room: "0 < IDPF_CTLQ_DESC_UNUSED cq"
  shows "sq_msgs (sq_push d p cq) = sq_msgs cq @ [p]"
proof -
  have "next_to_use cq \<notin> set (sq_slots cq)"
    using ok by (simp add: sq_slots_busy next_to_use_free)
  moreover have "(next_to_clean cq + sq_count cq) mod ring_size cq = next_to_use cq"
    using ok by (simp add: sq_count_def ring_add_dist ctlq_idx_okD)
  ultimately show ?thesis
    using ok sq_push_count [OF ok room, of d p]
    by (simp add: sq_msgs_def sq_slots_def ring_seg_snoc ctlq_idx_okD)
qed

section \<open>The send loop\<close>

lemma ctlq_send_loop_Cons:
  "ctlq_send_loop msgs dmas hw (p # ps) cq =
     (if msg_sendable (msgs p)
      then ctlq_send_loop msgs dmas hw ps
             (sq_push (ctlq_fill_desc dmas hw (msgs p) (desc_ring cq ! next_to_use cq)) p cq)
      else (Some EBADMSG, cq\<lparr>desc_ring := (desc_ring cq)[next_to_use cq :=
              ctlq_desc_header (msgs p) (desc_ring cq ! next_to_use cq)]\<rparr>))"
  by (simp add: msg_sendable_def sq_push_def Let_def)

declare ctlq_send_loop.simps(2) [simp del]

lemma ctlq_send_loop_frame:
  "ctlq_send_loop msgs dmas hw ps cq = (r, cq') \<Longrightarrow>
     reg cq' = reg cq \<and> ring_size cq' = ring_size cq \<and> next_to_clean cq' = next_to_clean cq \<and>
     cq_lock cq' = cq_lock cq"
  by (induction ps arbitrary: cq) (auto simp: ctlq_send_loop_Cons split: if_splits)

lemma header_idle:
  assumes "desc_idle d"
  shows "desc_idle (ctlq_desc_header m d)"
proof -
  have "push_bit 13 w AND IDPF_CTLQ_FLAG_DD = 0" for w :: u16
    by (rule bit_word_eqI) (auto simp: IDPF_CTLQ_FLAG_DD_def bit_simps bit_1_iff)
  with assms show ?thesis
    by (simp add: desc_idle_def ctlq_desc_header_def)
qed

lemma sq_inv_set_free_desc:
  assumes "sq_inv cq" and "i < ring_size cq" and "desc_idle d"
  shows "sq_inv (cq\<lparr>desc_ring := (desc_ring cq)[i := d]\<rparr>)"
  using assms
  by (auto simp: sq_inv_def ctlq_idx_ok_def sq_busy_def sq_count_def nth_list_update)

lemma ctlq_send_loop_inv:
  assumes "sq_inv cq" and "length ps \<le> IDPF_CTLQ_DESC_UNUSED cq" and "NULL \<notin> set ps"
    and "ctlq_send_loop msgs dmas hw ps cq = (r, cq')"
  shows "sq_inv cq'"
  using assms
proof (induction ps arbitrary: cq)
  case (Cons p ps)
  let ?push = "sq_push (ctlq_fill_desc dmas hw (msgs p) (desc_ring cq ! next_to_use cq)) p cq"
  note inv = Cons.prems(1) and ok = sq_invD(1) [OF Cons.prems(1)]
  show ?case
  proof (cases "msg_sendable (msgs p)")
    case True
    with Cons.prems inv ok show ?thesis
      using Cons.IH [of ?push] by (simp add: ctlq_send_loop_Cons sq_push_inv sq_push_unused)
  next
    case False
    with Cons.prems ok show ?thesis
      by (auto simp: ctlq_send_loop_Cons ctlq_idx_okD next_to_use_free sq_invD(3) [OF inv]
          intro!: sq_inv_set_free_desc [OF inv] header_idle)
  qed
qed simp

lemma ctlq_send_loop_abs:
  assumes "ctlq_idx_ok cq" and "length ps \<le> IDPF_CTLQ_DESC_UNUSED cq"
    and "ctlq_send_loop msgs dmas hw ps cq = (r, cq')"
  shows "(r, sq_msgs cq') =
    (if list_all (\<lambda>p. msg_sendable (msgs p)) ps then (ret_ok, sq_msgs cq @ ps)
     else (Some EBADMSG, sq_msgs cq @ takeWhile (\<lambda>p. msg_sendable (msgs p)) ps))"
  using assms
proof (induction ps arbitrary: cq)
  case (Cons p ps)
  let ?push = "sq_push (ctlq_fill_desc dmas hw (msgs p) (desc_ring cq ! next_to_use cq)) p cq"
  show ?case
  proof (cases "msg_sendable (msgs p)")
    case True
    with Cons.prems show ?thesis
      using Cons.IH [of ?push]
      by (simp add: ctlq_send_loop_Cons sq_push_idx_ok sq_push_unused sq_push_msgs split: if_splits)
  next
    case False
    with Cons.prems show ?thesis
      by (auto simp: ctlq_send_loop_Cons sq_msgs_def sq_slots_def sq_count_def)
  qed
qed simp

section \<open>Reclaiming\<close>

definition sq_pop :: "idpf_ctlq_info \<Rightarrow> idpf_ctlq_info" where
  "sq_pop cq = cq\<lparr>bi := (bi cq)[next_to_clean cq := NULL],
     desc_ring := (desc_ring cq)[next_to_clean cq := zero_desc],
     next_to_clean := ctlq_bump cq (next_to_clean cq)\<rparr>"

definition sq_report :: "idpf_ctlq_info \<Rightarrow> nat list \<Rightarrow> msg_store \<Rightarrow> msg_store" where
  "sq_report cq slots = fold (\<lambda>s msgs. msgs(bi cq ! s :=
     (msgs (bi cq ! s))\<lparr>m_status := d_ret_val (desc_ring cq ! s) AND 0xff\<rparr>)) slots"

lemma sq_pop_simps [simp]:
  "ring_size (sq_pop cq) = ring_size cq"
  "next_to_use (sq_pop cq) = next_to_use cq"
  "next_to_clean (sq_pop cq) = ctlq_bump cq (next_to_clean cq)"
  "desc_ring (sq_pop cq) = (desc_ring cq)[next_to_clean cq := zero_desc]"
  "bi (sq_pop cq) = (bi cq)[next_to_clean cq := NULL]"
  by (simp_all add: sq_pop_def)

lemma sq_pop_idx_ok: "ctlq_idx_ok cq \<Longrightarrow> ctlq_idx_ok (sq_pop cq)"
  using ctlq.succ_less [of cq "next_to_clean cq"] by (simp add: ctlq_idx_ok_def)

lemma sq_count_0: "ctlq_idx_ok cq \<Longrightarrow> sq_count cq = 0 \<longleftrightarrow> next_to_clean cq = next_to_use cq"
  by (simp add: sq_count_def ctlq_idx_okD)

lemma sq_pop_count:
  assumes "ctlq_idx_ok cq" and "sq_count cq \<noteq> 0"
  shows "sq_count cq = Suc (sq_count (sq_pop cq))"
  using assms ring_dist_step [of "next_to_clean cq" "ring_size cq" "next_to_use cq"]
  by (simp add: sq_count_def ctlq.succ_mod ctlq_idx_okD)

lemma sq_pop_slots:
  assumes "ctlq_idx_ok cq" and "sq_count cq \<noteq> 0"
  shows "sq_slots cq = next_to_clean cq # sq_slots (sq_pop cq)"
  using assms sq_pop_count [OF assms]
  by (simp add: sq_slots_def ring_seg_Cons ctlq.succ_mod ctlq_idx_okD)

lemma distinct_sq_slots: "ctlq_idx_ok cq \<Longrightarrow> distinct (sq_slots cq)"
  by (simp add: sq_slots_def distinct_ring_seg ctlq_idx_okD sq_count_less less_imp_le)

lemma sq_pop_notin:
  "ctlq_idx_ok cq \<Longrightarrow> sq_count cq \<noteq> 0 \<Longrightarrow> next_to_clean cq \<notin> set (sq_slots (sq_pop cq))"
  using distinct_sq_slots [of cq] by (simp add: sq_pop_slots)

lemma sq_pop_busy:
  assumes "ctlq_idx_ok cq" and "sq_count cq \<noteq> 0" and "i < ring_size cq"
  shows "sq_busy (sq_pop cq) i \<longleftrightarrow> sq_busy cq i \<and> i \<noteq> next_to_clean cq"
  using assms sq_slots_busy [OF assms(1), of i] sq_slots_busy [OF sq_pop_idx_ok [OF assms(1)], of i]
    sq_pop_slots [OF assms(1,2)] sq_pop_notin [OF assms(1,2)] by auto

lemma zero_desc_idle [simp]: "desc_idle zero_desc"
  by (simp add: desc_idle_def zero_desc_def)

lemma sq_pop_inv:
  assumes "sq_inv cq" and "sq_count cq \<noteq> 0"
  shows "sq_inv (sq_pop cq)"
  using sq_invD [OF assms(1)] sq_pop_busy [OF _ assms(2)] assms(2)
  by (auto simp: sq_inv_def sq_pop_idx_ok nth_list_update ctlq_idx_okD)

lemma sq_pop_msgs:
  assumes "ctlq_idx_ok cq" and "sq_count cq \<noteq> 0"
  shows "sq_msgs cq = bi cq ! next_to_clean cq # sq_msgs (sq_pop cq)"
  using sq_pop_notin [OF assms] by (simp add: sq_msgs_def sq_pop_slots [OF assms])

lemma sq_busy_next_to_clean: "sq_busy cq (next_to_clean cq) \<longleftrightarrow> sq_count cq \<noteq> 0"
  by (simp add: sq_busy_def)

lemma sq_reclaim_Suc:
  assumes "ctlq_idx_ok cq" and "sq_count cq \<noteq> 0"
  shows "sq_reclaim force (Suc k) cq =
    (if force \<or> d_flags (desc_ring cq ! next_to_clean cq) AND IDPF_CTLQ_FLAG_DD \<noteq> 0
     then next_to_clean cq # sq_reclaim force k (sq_pop cq) else [])"
proof -
  have "(desc_ring cq)[next_to_clean cq := zero_desc] ! s = desc_ring cq ! s"
    if "s \<in> set (take k (sq_slots (sq_pop cq)))" for s
    using sq_pop_notin [OF assms] that by (metis in_set_takeD nth_list_update_neq)
  then show ?thesis
    by (auto simp: sq_reclaim_def sq_pop_slots [OF assms] cong: takeWhile_cong)
qed

lemma sq_reclaim_empty: "sq_count cq = 0 \<Longrightarrow> sq_reclaim force k cq = []"
  by (simp add: sq_reclaim_def sq_slots_def)

lemma sq_reclaim_0 [simp]: "sq_reclaim force 0 cq = []"
  by (simp add: sq_reclaim_def)

lemma length_sq_reclaim_le: "length (sq_reclaim force k cq) \<le> k"
  unfolding sq_reclaim_def
  by (rule order_trans [OF length_takeWhile_le]) simp

text \<open>The loop with its local index corresponds to the queue whose consumer index is that index.\<close>

lemma ctlq_clean_loop_Suc:
  assumes "sq_inv (cq\<lparr>next_to_clean := ntc\<rparr>)"
  shows "ctlq_clean_loop force (Suc k) i ntc msgs cq ms =
    (if sq_count (cq\<lparr>next_to_clean := ntc\<rparr>) \<noteq> 0 \<and>
        (force \<or> d_flags (desc_ring cq ! ntc) AND IDPF_CTLQ_FLAG_DD \<noteq> 0)
     then ctlq_clean_loop force k (i + 1) (ctlq_bump cq ntc)
            (msgs(bi cq ! ntc := (msgs (bi cq ! ntc))\<lparr>m_status := d_ret_val (desc_ring cq ! ntc) AND 0xff\<rparr>))
            (cq\<lparr>bi := (bi cq)[ntc := NULL], desc_ring := (desc_ring cq)[ntc := zero_desc]\<rparr>)
            (ms[i := bi cq ! ntc])
     else (i, ntc, msgs, cq, if force then ms[i := NULL] else ms))"
proof -
  let ?c = "cq\<lparr>next_to_clean := ntc\<rparr>"
  have ntc: "ntc < ring_size cq"
    using ctlq_idx_okD(3) [OF sq_invD(1) [OF assms]] by simp
  have busy: "bi cq ! ntc \<noteq> NULL \<longleftrightarrow> sq_count ?c \<noteq> 0"
    using sq_invD(2) [OF assms, of ntc] ntc sq_busy_next_to_clean [of ?c] by simp
  have "d_flags (desc_ring cq ! ntc) AND IDPF_CTLQ_FLAG_DD = 0" if "sq_count ?c = 0"
    using sq_invD(3) [OF assms, of ntc] ntc that sq_busy_next_to_clean [of ?c]
    by (simp add: desc_idle_def)
  with busy show ?thesis
    by (auto simp: Let_def)
qed

lemma sq_report_pop:
  assumes "ctlq_idx_ok cq" and "sq_count cq \<noteq> 0" and "set ss \<subseteq> set (sq_slots (sq_pop cq))"
  shows "sq_report (sq_pop cq) ss msgs = sq_report cq ss msgs"
proof -
  have "s \<noteq> next_to_clean cq" if "s \<in> set ss" for s
    using sq_pop_notin [OF assms(1,2)] assms(3) that by blast
  then have "bi (sq_pop cq) ! s = bi cq ! s \<and> desc_ring (sq_pop cq) ! s = desc_ring cq ! s"
    if "s \<in> set ss" for s
    using that by (metis nth_list_update_neq sq_pop_simps(4,5))
  then show ?thesis
    unfolding sq_report_def by (intro fold_cong) auto
qed

lemma sq_reclaim_subset: "set (sq_reclaim force k cq) \<subseteq> set (sq_slots cq)"
  by (auto simp: sq_reclaim_def dest!: set_takeWhileD in_set_takeD)

lemma ctlq_clean_loop_spec:
  assumes "sq_inv (cq\<lparr>next_to_clean := ntc\<rparr>)"
    and "ctlq_clean_loop force k i ntc msgs cq ms = (i', ntc', msgs', cq', ms')"
  shows "let c = cq\<lparr>next_to_clean := ntc\<rparr>; done = sq_reclaim force k c in
    i' = i + length done \<and> sq_inv (cq'\<lparr>next_to_clean := ntc'\<rparr>) \<and>
    sq_msgs (cq'\<lparr>next_to_clean := ntc'\<rparr>) = drop (length done) (sq_msgs c) \<and>
    msgs' = sq_report c done msgs \<and>
    (i + k \<le> length ms \<longrightarrow> take i' ms' = take i ms @ take (length done) (sq_msgs c))"
  using assms
proof (induction k arbitrary: i ntc msgs cq ms)
  case 0
  then show ?case by (auto simp: sq_report_def)
next
  case (Suc k)
  let ?c = "cq\<lparr>next_to_clean := ntc\<rparr>"
  note inv = Suc.prems(1) and ok = sq_invD(1) [OF Suc.prems(1)]
  show ?case
  proof (cases "sq_count ?c \<noteq> 0 \<and> (force \<or> d_flags (desc_ring cq ! ntc) AND IDPF_CTLQ_FLAG_DD \<noteq> 0)")
    case True
    let ?cq1 = "cq\<lparr>bi := (bi cq)[ntc := NULL], desc_ring := (desc_ring cq)[ntc := zero_desc]\<rparr>"
    define st where "st = msgs(bi cq ! ntc :=
      (msgs (bi cq ! ntc))\<lparr>m_status := d_ret_val (desc_ring cq ! ntc) AND 0xff\<rparr>)"
    have pop: "?cq1\<lparr>next_to_clean := ctlq_bump cq ntc\<rparr> = sq_pop ?c"
      by (simp add: sq_pop_def ctlq_bump_def)
    have loop: "ctlq_clean_loop force k (i + 1) (ctlq_bump cq ntc) st ?cq1 (ms[i := bi cq ! ntc])
        = (i', ntc', msgs', cq', ms')"
      using Suc.prems(2) True unfolding ctlq_clean_loop_Suc [OF inv] st_def by simp
    have nonempty: "sq_count ?c \<noteq> 0"
      using True by simp
    have recl: "sq_reclaim force (Suc k) ?c = ntc # sq_reclaim force k (sq_pop ?c)"
      using sq_reclaim_Suc [OF ok nonempty, of force k] True by simp
    have rep: "sq_report (sq_pop ?c) (sq_reclaim force k (sq_pop ?c)) st
        = sq_report ?c (sq_reclaim force (Suc k) ?c) msgs"
      using sq_report_pop [OF ok nonempty sq_reclaim_subset, of force k st] recl
      by (simp add: sq_report_def st_def)
    have take: "take (Suc i) (ms[i := bi cq ! ntc]) = take i ms @ [bi cq ! ntc]"
      if "i < length ms"
      using that by (simp add: take_Suc_nth)
    show ?thesis
      using Suc.IH [OF _ loop] sq_pop_inv [OF inv nonempty] pop recl rep take
        sq_pop_msgs [OF ok nonempty]
      by (auto simp: Let_def)
  next
    case False
    then have "sq_reclaim force (Suc k) ?c = []"
      using sq_reclaim_Suc [OF ok, of force k] sq_reclaim_empty [of ?c force "Suc k"]
      by (cases "sq_count ?c = 0") auto
    moreover have "(i', ntc', msgs', cq') = (i, ntc, msgs, cq)" "take i ms' = take i ms"
      using Suc.prems(2) False unfolding ctlq_clean_loop_Suc [OF inv] by (auto split: if_splits)
    ultimately show ?thesis
      using inv by (simp add: sq_report_def)
  qed
qed

section \<open>Descriptors written by a send\<close>

lemma fill_desc_datalen: "d_datalen d = 0 \<Longrightarrow> d_datalen (ctlq_fill_desc dmas hw m d) = m_data_len m"
  by (simp add: ctlq_fill_desc_def ctlq_desc_indirect_def ctlq_desc_direct_def Let_def
      ctlq_simics_param0_def ctlq_desc_header_def)

lemma fill_desc_header:
  "d_opcode (ctlq_fill_desc dmas hw m d) = m_opcode m"
  "d_ret_val (ctlq_fill_desc dmas hw m d) = m_status m"
  "d_cookie_high (ctlq_fill_desc dmas hw m d) = m_chnl_opcode m"
  "d_cookie_low (ctlq_fill_desc dmas hw m d) = m_chnl_retval m"
  "d_flags (ctlq_fill_desc dmas hw m d) =
     push_bit 13 (ucast (m_host_id m AND 7)) OR (if m_data_len m \<noteq> 0 then 0x1400 else 0)"
  by (simp_all add: ctlq_fill_desc_def ctlq_desc_indirect_def ctlq_desc_direct_def Let_def
      ctlq_simics_param0_def ctlq_desc_header_def IDPF_CTLQ_FLAG_BUF_def IDPF_CTLQ_FLAG_RD_def or.assoc)

lemma fill_desc_params:
  "d_param0 (ctlq_fill_desc dmas hw m d) =
     (if subsystem_device_id hw = 0x12D1 \<and> m_opcode m = 0x0801 then ucast (m_status m) else m_ctx0 m)"
  "d_param1 (ctlq_fill_desc dmas hw m d) = m_ctx1 m"
  by (simp_all add: ctlq_fill_desc_def ctlq_desc_indirect_def ctlq_desc_direct_def Let_def
      ctlq_simics_param0_def IS_SIMICS_DEVICE_def idpf_mbq_opc_send_msg_to_pf_def)

lemma unat_halves: "2 ^ 32 * unat (upper_32_bits w) + unat (lower_32_bits w) = unat w"
proof -
  have "unat w < 2 ^ 64"
    using unsigned_less [of w] by simp
  then have "unat w div 2 ^ 32 < 2 ^ 32" by simp
  then show ?thesis
    by (simp add: lower_32_bits_def upper_32_bits_def unsigned_ucast_eq unsigned_take_bit_eq
        unsigned_drop_bit_eq drop_bit_eq_div unat_div take_bit_eq_mod)
qed

lemma fill_desc_addr:
  "m_data_len m \<noteq> 0 \<Longrightarrow> 2 ^ 32 * unat (d_addr_high (ctlq_fill_desc dmas hw m d))
      + unat (d_addr_low (ctlq_fill_desc dmas hw m d)) = unat (dma_pa (dmas (m_payload m)))"
  "m_data_len m = 0 \<Longrightarrow> 2 ^ 32 * unat (d_addr_low (ctlq_fill_desc dmas hw m d))
      + unat (d_addr_high (ctlq_fill_desc dmas hw m d)) = unat (m_payload m)"
  by (simp_all only: unat_halves [symmetric])
    (simp_all add: ctlq_fill_desc_def ctlq_desc_indirect_def ctlq_desc_direct_def Let_def
      ctlq_simics_param0_def)

lemma ctlq_send_loop_next:
  assumes "ctlq_idx_ok cq" and "list_all (\<lambda>p. msg_sendable (msgs p)) ps"
    and "ctlq_send_loop msgs dmas hw ps cq = (r, cq')"
  shows "next_to_use cq' = (next_to_use cq + length ps) mod ring_size cq"
  using assms
proof (induction ps arbitrary: cq)
  case (Cons p ps)
  let ?push = "sq_push (ctlq_fill_desc dmas hw (msgs p) (desc_ring cq ! next_to_use cq)) p cq"
  show ?case
    using Cons.prems Cons.IH [of ?push]
    by (simp add: ctlq_send_loop_Cons sq_push_idx_ok ctlq.succ_mod ctlq_idx_okD mod_simps)
qed (simp add: ctlq_idx_okD)

lemma ctlq_send_loop_desc_other:
  assumes "ctlq_idx_ok cq" and "ctlq_send_loop msgs dmas hw ps cq = (r, cq')"
    and "i \<notin> set (ring_seg (ring_size cq) (next_to_use cq) (length ps))"
  shows "desc_ring cq' ! i = desc_ring cq ! i"
  using assms
proof (induction ps arbitrary: cq)
  case (Cons p ps)
  let ?push = "sq_push (ctlq_fill_desc dmas hw (msgs p) (desc_ring cq ! next_to_use cq)) p cq"
  show ?case
    using Cons.prems Cons.IH [of ?push]
    by (auto simp: ctlq_send_loop_Cons sq_push_idx_ok ctlq.succ_mod ctlq_idx_okD ring_seg_Cons
        split: if_splits)
qed simp

lemma ctlq_send_loop_desc:
  assumes "ctlq_idx_ok cq" and "list_all (\<lambda>p. msg_sendable (msgs p)) ps"
    and "length ps \<le> ring_size cq"
    and "ctlq_send_loop msgs dmas hw ps cq = (r, cq')" and "j < length ps"
  shows "desc_ring cq' ! ((next_to_use cq + j) mod ring_size cq) =
    ctlq_fill_desc dmas hw (msgs (ps ! j)) (desc_ring cq ! ((next_to_use cq + j) mod ring_size cq))"
  using assms
proof (induction ps arbitrary: cq j)
  case (Cons p ps)
  let ?n = "ring_size cq" and ?ntu = "next_to_use cq"
  let ?push = "sq_push (ctlq_fill_desc dmas hw (msgs p) (desc_ring cq ! ?ntu)) p cq"
  note ok = Cons.prems(1)
  have loop: "ctlq_send_loop msgs dmas hw ps ?push = (r, cq')"
    using Cons.prems by (simp add: ctlq_send_loop_Cons)
  have ntu: "next_to_use ?push = Suc ?ntu mod ?n"
    using ok by (simp add: ctlq.succ_mod ctlq_idx_okD)
  have "distinct (ring_seg ?n ?ntu (length (p # ps)))"
    using ok Cons.prems(3) by (intro distinct_ring_seg) (simp_all add: ctlq_idx_okD)
  then have fresh: "?ntu \<notin> set (ring_seg ?n (Suc ?ntu mod ?n) (length ps))"
    using ok by (simp add: ring_seg_Cons ctlq_idx_okD)
  show ?case
  proof (cases j)
    case 0
    have "desc_ring cq' ! ?ntu = desc_ring ?push ! ?ntu"
      using ctlq_send_loop_desc_other [OF sq_push_idx_ok [OF ok] loop] fresh ntu by simp
    with 0 ok show ?thesis by (simp add: ctlq_idx_okD)
  next
    case (Suc j')
    have "(Suc ?ntu mod ?n + j') mod ?n = (?ntu + j) mod ?n"
      using Suc by (simp add: mod_simps)
    moreover have "(?ntu + j) mod ?n \<noteq> ?ntu"
      using Cons.prems(3,5) Suc ctlq_idx_okD(2) [OF ok] by (intro ring_add_neq) auto
    ultimately show ?thesis
      using Cons.IH [OF sq_push_idx_ok [OF ok] _ _ loop, of j'] Cons.prems Suc ntu by simp
  qed
qed simp

section \<open>Properties\<close>

lemma lock_irrelevant [simp]:
  "sq_inv (c\<lparr>cq_lock := b\<rparr>) = sq_inv c" "sq_msgs (c\<lparr>cq_lock := b\<rparr>) = sq_msgs c"
  "ctlq_idx_ok (c\<lparr>cq_lock := b\<rparr>) = ctlq_idx_ok c"
  "IDPF_CTLQ_DESC_UNUSED (c\<lparr>cq_lock := b\<rparr>) = IDPF_CTLQ_DESC_UNUSED c"
  by (simp_all add: sq_inv_def ctlq_idx_ok_def sq_busy_def sq_count_def sq_msgs_def sq_slots_def
      IDPF_CTLQ_DESC_UNUSED_def)

lemma idpf_ctlq_sendE:
  assumes "idpf_ctlq_send msgs dmas hw cq num q_msg = (r, hw', cq')"
  obtains (full) "IDPF_CTLQ_DESC_UNUSED cq = 0 \<or> IDPF_CTLQ_DESC_UNUSED cq < num"
      "r = Some ENOSPC" "hw' = hw" "cq' = cq\<lparr>cq_lock := False\<rparr>"
  | (room) c where "IDPF_CTLQ_DESC_UNUSED cq \<noteq> 0" "num \<le> IDPF_CTLQ_DESC_UNUSED cq"
      "ctlq_send_loop msgs dmas hw (take num q_msg) (cq\<lparr>cq_lock := True\<rparr>) = (r, c)"
      "cq' = c\<lparr>cq_lock := False\<rparr>"
      "hw' = (if r = ret_ok then wr32 hw (reg_tail (reg cq)) (of_nat (next_to_use c)) else hw)"
  using assms ctlq_send_loop_frame [of msgs dmas hw "take num q_msg" "cq\<lparr>cq_lock := True\<rparr>"]
  by (cases "ctlq_send_loop msgs dmas hw (take num q_msg) (cq\<lparr>cq_lock := True\<rparr>)")
    (auto simp: idpf_ctlq_send_def Let_def split: if_splits option.splits)

lemma idpf_ctlq_send_inv:
  assumes "idpf_ctlq_send msgs dmas hw cq num q_msg = (r, hw', cq')"
    and "sq_inv cq" and "NULL \<notin> set q_msg"
  shows "sq_inv cq'"
  using assms(1)
proof (cases rule: idpf_ctlq_sendE)
  case (room c)
  have "NULL \<notin> set (take num q_msg)"
    using assms(3) by (auto dest: in_set_takeD)
  then have "sq_inv c"
    using ctlq_send_loop_inv [OF _ _ _ room(3)] assms(2) room(2) by simp
  then show ?thesis using room by simp
qed (simp add: assms)

lemma ctlq_clean_sq_loop:
  assumes "ctlq_clean_sq msgs cq n ms force = (r, msgs', cq', n', ms')"
    and "0 < n" and "n \<le> ring_size cq"
  obtains c ntc where
    "ctlq_clean_loop force n 0 (next_to_clean cq) msgs (cq\<lparr>cq_lock := True\<rparr>) ms = (n', ntc, msgs', c, ms')"
    "r = ret_ok" "cq' = c\<lparr>next_to_clean := ntc, cq_lock := False\<rparr>"
  using assms by (auto simp: ctlq_clean_sq_def Let_def split: prod.splits)

lemma ctlq_clean_sq_spec:
  assumes "ctlq_clean_sq msgs cq n ms force = (r, msgs', cq', n', ms')"
    and inv: "sq_inv cq" and n: "0 < n" "n \<le> ring_size cq"
  shows "r = ret_ok" and "n' = length (sq_reclaim force n cq)" and "sq_inv cq'"
    and "sq_msgs cq' = drop n' (sq_msgs cq)"
    and "msgs' = sq_report cq (sq_reclaim force n cq) msgs"
    and "n \<le> length ms \<Longrightarrow> take n' ms' = take n' (sq_msgs cq)"
    and "\<not> cq_lock cq'"
proof -
  obtain c ntc where loop: "ctlq_clean_loop force n 0 (next_to_clean cq) msgs
        (cq\<lparr>cq_lock := True\<rparr>) ms = (n', ntc, msgs', c, ms')"
    and r: "r = ret_ok" "cq' = c\<lparr>next_to_clean := ntc, cq_lock := False\<rparr>"
    using ctlq_clean_sq_loop [OF assms(1) n] by metis
  have lock: "(cq\<lparr>cq_lock := True\<rparr>)\<lparr>next_to_clean := next_to_clean cq\<rparr> = cq\<lparr>cq_lock := True\<rparr>"
    by simp
  have "sq_inv (cq\<lparr>cq_lock := True\<rparr>)"
    using inv by simp
  moreover have "sq_reclaim force n (cq\<lparr>cq_lock := True\<rparr>) = sq_reclaim force n cq"
    "sq_report (cq\<lparr>cq_lock := True\<rparr>) = sq_report cq"
    by (simp_all add: sq_reclaim_def sq_slots_def sq_count_def sq_report_def fun_eq_iff)
  ultimately have "n' = length (sq_reclaim force n cq) \<and> sq_inv (c\<lparr>next_to_clean := ntc\<rparr>) \<and>
      sq_msgs (c\<lparr>next_to_clean := ntc\<rparr>) = drop (length (sq_reclaim force n cq)) (sq_msgs cq) \<and>
      msgs' = sq_report cq (sq_reclaim force n cq) msgs \<and>
      (n \<le> length ms \<longrightarrow> take n' ms' = take (length (sq_reclaim force n cq)) (sq_msgs cq))"
    using ctlq_clean_loop_spec [OF _ loop]
    unfolding lock by (auto simp: Let_def)
  with r show "r = ret_ok" "n' = length (sq_reclaim force n cq)" "sq_inv cq'"
    "sq_msgs cq' = drop n' (sq_msgs cq)" "msgs' = sq_report cq (sq_reclaim force n cq) msgs"
    "n \<le> length ms \<Longrightarrow> take n' ms' = take n' (sq_msgs cq)" "\<not> cq_lock cq'"
    by auto
qed

lemma sq_report_other:
  "m \<notin> (\<lambda>s. bi cq ! s) ` set ss \<Longrightarrow> sq_report cq ss msgs m = msgs m"
  by (induction ss arbitrary: msgs) (auto simp: sq_report_def)

lemma sq_report_status:
  assumes "distinct (map ((!) (bi cq)) ss)" and "s \<in> set ss"
  shows "m_status (sq_report cq ss msgs (bi cq ! s)) = d_ret_val (desc_ring cq ! s) AND 0xff"
  using assms
proof (induction ss arbitrary: msgs)
  case (Cons x ss)
  show ?case
  proof (cases "s = x")
    case True
    have "sq_report cq (x # ss) msgs (bi cq ! x) =
      (msgs (bi cq ! x))\<lparr>m_status := d_ret_val (desc_ring cq ! x) AND 0xff\<rparr>"
      using Cons.prems(1) sq_report_other [of "bi cq ! x" cq ss] by (simp add: sq_report_def)
    with True show ?thesis by simp
  next
    case False
    with Cons.prems Cons.IH show ?thesis by (simp add: sq_report_def)
  qed
qed simp

lemma sq_reclaim_prefix: "sq_reclaim force k cq = take (length (sq_reclaim force k cq)) (sq_slots cq)"
  by (metis append_eq_conv_conj append_take_drop_id append.assoc sq_reclaim_def takeWhile_dropWhile_id)

lemma ctlq_clean_sq_inv:
  assumes "ctlq_clean_sq msgs cq n ms force = (r, msgs', cq', n', ms')" and "sq_inv cq"
  shows "sq_inv cq'"
proof (cases "0 < n \<and> n \<le> ring_size cq")
  case True
  then show ?thesis using ctlq_clean_sq_spec(3) [OF assms] by blast
next
  case False
  then show ?thesis using assms by (auto simp: ctlq_clean_sq_def Let_def split: prod.splits)
qed

lemma sq_device_inv: "sq_device_write cq ds \<Longrightarrow> sq_inv cq \<Longrightarrow> sq_inv (cq\<lparr>desc_ring := ds\<rparr>)"
  by (auto simp: sq_device_write_def sq_inv_def ctlq_idx_ok_def sq_busy_def sq_count_def)

lemma sq_step_inv: "sq_step cq cq' \<Longrightarrow> sq_inv cq \<Longrightarrow> sq_inv cq'"
  by (auto elim!: sq_stepE intro: idpf_ctlq_send_inv ctlq_clean_sq_inv sq_device_inv)

text \<open>A small mailbox send queue with two messages, on which the properties are instantiated.\<close>

definition demo_reg :: idpf_ctlq_reg where
  "demo_reg = \<lparr>reg_head = 0x10, reg_tail = 0x14, reg_len = 0x18, reg_bah = 0x1c, reg_bal = 0x20,
     reg_len_mask = 0x3ff, reg_len_ena_mask = 0x80000000, reg_head_mask = 0x3ff\<rparr>"

definition demo_sq :: idpf_ctlq_info where
  "demo_sq = \<lparr>cq_type = IDPF_CTLQ_TYPE_MAILBOX_TX, q_id = -1, cq_lock = False, next_to_use = 0,
     next_to_clean = 0, next_to_post = 2, desc_mem = \<lparr>dma_va = 0x1000, dma_pa = 0x1000, dma_size = 4096\<rparr>,
     desc_ring = [zero_desc, zero_desc, zero_desc], bi_array = 0x2000, bi = [NULL, NULL, NULL],
     buf_size = 4096, ring_size = 3, reg = demo_reg\<rparr>"

definition demo_hw :: idpf_hw where
  "demo_hw = \<lparr>mmio = [], subsystem_device_id = 0, cq_list_head = [], asq = NULL, arq = NULL\<rparr>"

definition demo_msgs :: msg_store where
  "demo_msgs p = \<lparr>m_vmvf_type = 0, m_host_id = 1, m_opcode = 0x801, m_data_len = (if p = 0x40 then 16 else 0),
     m_status = 0, m_chnl_opcode = 1, m_chnl_retval = 0, m_ctx0 = 7, m_ctx1 = 9, m_payload = 0x80\<rparr>"

definition demo_dmas :: dma_store where
  "demo_dmas p = \<lparr>dma_va = 0x9000, dma_pa = 0x500009000, dma_size = 4096\<rparr>"

lemmas demo_defs = demo_reg_def demo_sq_def demo_hw_def demo_msgs_def demo_dmas_def zero_desc_def

lemmas sq_eval = sq_msgs_def sq_slots_def sq_count_def sq_busy_def ring_dist_def ring_seg_def
  sq_reclaim_def IDPF_CTLQ_FLAG_DD_def sq_inv_def ctlq_idx_ok_def desc_idle_def upt_0_2

lemmas send_eval = idpf_ctlq_send_def IDPF_CTLQ_DESC_UNUSED_def ctlq_send_loop.simps ctlq_bump_def
  ctlq_fill_desc_def ctlq_desc_header_def ctlq_desc_direct_def ctlq_desc_indirect_def
  ctlq_simics_param0_def IS_SIMICS_DEVICE_def idpf_mbq_opc_send_msg_to_pf_def wr32_def Let_def

lemma demo_sq_fresh: "sq_fresh demo_sq"
  by (simp add: sq_fresh_def demo_sq_def numeral_3_eq_3)

lemma idpf_ctlq_send_spec:
  assumes "sq_inv cq" and "length q_msg = num" and "NULL \<notin> set q_msg"
    and "idpf_ctlq_send msgs dmas hw cq num q_msg = (r, hw', cq')"
  shows "(r, sq_msgs cq') = sq_spec_send msgs (ring_size cq - 1) (sq_msgs cq) q_msg \<and>
    sq_inv cq' \<and> \<not> cq_lock cq' \<and>
    mmio hw' = mmio hw @ (if r = ret_ok then [(reg_tail (reg cq), of_nat (next_to_use cq'))] else [])"
proof -
  have ok: "ctlq_idx_ok cq"
    using assms(1) by (rule sq_invD)
  have inv: "sq_inv cq'"
    using idpf_ctlq_send_inv [OF assms(4,1,3)] .
  show ?thesis
    using assms(4)
  proof (cases rule: idpf_ctlq_sendE)
    case full
    then show ?thesis
      using inv sq_count_unused [OF ok] assms(2) by (auto simp: sq_spec_send_def)
  next
    case (room c)
    have "(r, sq_msgs c) = sq_spec_send msgs (ring_size cq - 1) (sq_msgs cq) q_msg"
      using ctlq_send_loop_abs [OF _ _ room(3)] ok assms(2) room(1,2) sq_count_unused [OF ok]
      by (auto simp: sq_spec_send_def split: if_splits)
    then show ?thesis
      using room inv by (simp add: wr32_def)
  qed
qed

text \<open>
  C1: sending on a control queue implements the bounded FIFO.  For every queue that satisfies the
  invariant and every batch of messages, the return code and the messages in flight afterwards are
  those of the specification: no room leaves the queue alone with -ENOSPC, a message that announces
  a payload but has none stops the batch with -EBADMSG after the messages before it, and otherwise
  all messages are appended in order.  The lock is released on every path, and the tail register is
  written exactly when the send succeeds, with the new producer index.
\<close>

theorem idpf_ctlq_send_refines:
  assumes "sq_inv cq" and "length q_msg = num" and "NULL \<notin> set q_msg"
    and "idpf_ctlq_send msgs dmas hw cq num q_msg = (r, hw', cq')"
  shows "(r, sq_msgs cq') = sq_spec_send msgs (ring_size cq - 1) (sq_msgs cq) q_msg \<and>
    sq_inv cq' \<and> \<not> cq_lock cq' \<and>
    mmio hw' = mmio hw @ (if r = ret_ok then [(reg_tail (reg cq), of_nat (next_to_use cq'))] else [])"
  using assms by (rule idpf_ctlq_send_spec)

theorem idpf_ctlq_send_refines_witness:
  "fst (idpf_ctlq_send demo_msgs demo_dmas demo_hw demo_sq 2 [0x30, 0x40]) = ret_ok \<and>
   sq_msgs (snd (snd (idpf_ctlq_send demo_msgs demo_dmas demo_hw demo_sq 2 [0x30, 0x40]))) = [0x30, 0x40]"
  using idpf_ctlq_send_refines [OF sq_fresh_inv [OF demo_sq_fresh], of "[0x30, 0x40]" 2 demo_msgs
      demo_dmas demo_hw
      "fst (idpf_ctlq_send demo_msgs demo_dmas demo_hw demo_sq 2 [0x30, 0x40])"
      "fst (snd (idpf_ctlq_send demo_msgs demo_dmas demo_hw demo_sq 2 [0x30, 0x40]))"
      "snd (snd (idpf_ctlq_send demo_msgs demo_dmas demo_hw demo_sq 2 [0x30, 0x40]))"]
  by (simp add: sq_spec_send_def msg_sendable_def demo_defs sq_msgs_def sq_slots_def sq_count_def)

lemma ctlq_clean_sq_fifo:
  assumes "sq_inv cq" and "distinct (sq_msgs cq)"
    and "0 < n" and "n \<le> ring_size cq" and "n \<le> length ms"
    and "ctlq_clean_sq msgs cq n ms force = (r, msgs', cq', n', ms')"
  shows "r = ret_ok \<and> \<not> cq_lock cq' \<and> sq_inv cq' \<and>
    n' = length (sq_reclaim force n cq) \<and> (force \<longrightarrow> n' = min n (sq_count cq)) \<and>
    take n' ms' = take n' (sq_msgs cq) \<and> sq_msgs cq' = drop n' (sq_msgs cq) \<and>
    (\<forall>s \<in> set (sq_reclaim force n cq).
       m_status (msgs' (bi cq ! s)) = d_ret_val (desc_ring cq ! s) AND 0xff) \<and>
    (\<forall>m. m \<notin> set (take n' (sq_msgs cq)) \<longrightarrow> msgs' m = msgs m)"
proof -
  note spec = ctlq_clean_sq_spec [OF assms(6,1,3,4)]
  have taken: "map ((!) (bi cq)) (sq_reclaim force n cq) = take n' (sq_msgs cq)"
    unfolding sq_msgs_def take_map spec(2)
    by (rule arg_cong [OF sq_reclaim_prefix])
  have "force \<longrightarrow> n' = min n (sq_count cq)"
    using spec(2) by (auto simp: sq_reclaim_def)
  moreover have "m_status (msgs' (bi cq ! s)) = d_ret_val (desc_ring cq ! s) AND 0xff"
    if "s \<in> set (sq_reclaim force n cq)" for s
    using sq_report_status [OF _ that, of cq msgs] taken assms(2) spec(5) by (simp add: distinct_take)
  moreover have "msgs' m = msgs m" if "m \<notin> set (take n' (sq_msgs cq))" for m
    using sq_report_other [of m cq "sq_reclaim force n cq" msgs] that spec(5)
    unfolding taken [symmetric] by simp
  ultimately show ?thesis
    using spec assms(5) by blast
qed

text \<open>
  C2: reclaiming implements the removal of a prefix of the FIFO.  The messages handed back are the
  oldest ones, in the order they were sent: with \<open>force\<close> as many as asked for and in flight, else
  the longest prefix whose descriptors the device has marked done.  Each gets the low byte of its
  own descriptor's return value as status, all other messages keep theirs, and the queue keeps
  exactly the rest.  A forced reclaim of the whole ring therefore never hands out a slot that holds
  no message.
\<close>

theorem ctlq_clean_sq_refines:
  assumes "sq_inv cq" and "distinct (sq_msgs cq)"
    and "0 < n" and "n \<le> ring_size cq" and "n \<le> length ms"
    and "ctlq_clean_sq msgs cq n ms force = (r, msgs', cq', n', ms')"
  shows "r = ret_ok \<and> \<not> cq_lock cq' \<and> sq_inv cq' \<and>
    n' = length (sq_reclaim force n cq) \<and> (force \<longrightarrow> n' = min n (sq_count cq)) \<and>
    take n' ms' = take n' (sq_msgs cq) \<and> sq_msgs cq' = drop n' (sq_msgs cq) \<and>
    (\<forall>s \<in> set (sq_reclaim force n cq).
       m_status (msgs' (bi cq ! s)) = d_ret_val (desc_ring cq ! s) AND 0xff) \<and>
    (\<forall>m. m \<notin> set (take n' (sq_msgs cq)) \<longrightarrow> msgs' m = msgs m)"
  using assms by (rule ctlq_clean_sq_fifo)

definition demo_busy_sq :: idpf_ctlq_info where
  "demo_busy_sq = demo_sq\<lparr>next_to_use := 2, bi := [0x30, 0x40, NULL],
     desc_ring := [zero_desc\<lparr>d_flags := 1, d_ret_val := 0x1205\<rparr>, zero_desc, zero_desc]\<rparr>"

lemma demo_busy_inv: "sq_inv demo_busy_sq"
  by (simp add: sq_eval demo_busy_sq_def demo_defs all_less_3)

theorem ctlq_clean_sq_refines_witness:
  "\<exists>r msgs' cq' n' ms'. ctlq_clean_sq demo_msgs demo_busy_sq 2 [NULL, NULL] False = (r, msgs', cq', n', ms') \<and>
     n' = 1 \<and> take 1 ms' = [0x30] \<and> sq_msgs cq' = [0x40] \<and> m_status (msgs' 0x30) = 0x05"
proof -
  obtain r msgs' cq' n' ms' where
    clean: "ctlq_clean_sq demo_msgs demo_busy_sq 2 [NULL, NULL] False = (r, msgs', cq', n', ms')"
    using prod_cases5 by blast
  have recl: "sq_reclaim False 2 demo_busy_sq = [0]" and msgs: "sq_msgs demo_busy_sq = [0x30, 0x40]"
    by (simp_all add: sq_eval demo_busy_sq_def demo_defs)
  have slot: "ring_size demo_busy_sq = 3" "bi demo_busy_sq ! 0 = 0x30"
    "d_ret_val (desc_ring demo_busy_sq ! 0) = 0x1205"
    by (simp_all add: demo_busy_sq_def demo_defs)
  have "n' = 1 \<and> take n' ms' = take n' [0x30, 0x40] \<and> sq_msgs cq' = drop n' [0x30, 0x40] \<and>
      m_status (msgs' 0x30) = 0x05"
    using ctlq_clean_sq_refines [OF demo_busy_inv _ _ _ _ clean] recl msgs slot by auto
  then show ?thesis
    using clean by auto
qed

text \<open>
  C3: safety of every run of a send queue.  Starting from a freshly added queue, after any sequence
  of sends (of any batches, with any outcome), reclaims (normal or forced, of any count) and
  arbitrary writes of the device to the descriptors it owns, the indices are inside the ring, a slot
  of the shadow array holds a message exactly when it lies between the consumer and the producer
  index, at most \<open>ring_size - 1\<close> messages are in flight, and free descriptors carry neither a stale
  length nor a stale done bit.
\<close>

theorem sq_runs_inv:
  assumes "sq_fresh cq0" and "sq_step\<^sup>*\<^sup>* cq0 cq"
  shows "sq_inv cq \<and> sq_count cq < ring_size cq \<and> NULL \<notin> set (sq_msgs cq)"
proof -
  have "sq_inv cq"
    using assms(2,1) by (induction rule: rtranclp_induct) (auto intro: sq_fresh_inv sq_step_inv)
  moreover from this have "sq_count cq < ring_size cq"
    by (simp add: sq_count_less sq_invD)
  moreover have "NULL \<notin> set (sq_msgs cq)"
    using \<open>sq_inv cq\<close> sq_slots_busy [of cq] by (auto simp: sq_msgs_def sq_inv_def)
  ultimately show ?thesis by blast
qed

theorem sq_runs_inv_witness:
  "\<exists>cq. sq_step\<^sup>*\<^sup>* demo_sq cq \<and> sq_inv cq \<and> sq_msgs cq = [0x30]"
proof -
  obtain r hw' cq where send: "idpf_ctlq_send demo_msgs demo_dmas demo_hw demo_sq 1 [0x30] = (r, hw', cq)"
    using prod_cases3 by blast
  have "sq_step demo_sq cq"
    by (rule sq_step.send [OF _ send]) simp
  then have "sq_step\<^sup>*\<^sup>* demo_sq cq" by blast
  moreover have "sq_msgs (snd (snd (idpf_ctlq_send demo_msgs demo_dmas demo_hw demo_sq 1 [0x30]))) = [0x30]"
    by (simp add: sq_eval send_eval demo_defs)
  ultimately show ?thesis
    using sq_runs_inv [OF demo_sq_fresh] send by auto
qed

text \<open>
  C4: what the device reads after a successful send.  The descriptors of the batch are the slots
  from the old producer index on.  The one of message \<open>j\<close> carries the message's opcode, return
  value, virtual channel opcode and cookie, the host id in bits 13 to 15 of the flags, exactly the
  message's data length (no bits of an earlier message) and its context words.  For a message with a
  payload the buffer and read flags are set and the two address words are the upper and the lower
  half of the bus address of the payload; without one no flag is set and the four parameter words
  are the direct context as it lies in memory.  On the simulated device the first parameter of a
  message to the PF is the status instead.  No other descriptor is written, in particular none that
  is still in flight; the producer index advances by the number of messages, and the only register
  write is that index to the tail register.
\<close>

theorem idpf_ctlq_send_descs:
  assumes "sq_inv cq" and "length q_msg = num"
    and "idpf_ctlq_send msgs dmas hw cq num q_msg = (ret_ok, hw', cq')"
  shows "(\<forall>j < num. let m = msgs (q_msg ! j); d = desc_ring cq' ! ((next_to_use cq + j) mod ring_size cq) in
      d_opcode d = m_opcode m \<and> d_ret_val d = m_status m \<and>
      d_cookie_high d = m_chnl_opcode m \<and> d_cookie_low d = m_chnl_retval m \<and>
      d_datalen d = m_data_len m \<and>
      d_flags d = push_bit 13 (ucast (m_host_id m AND 7)) OR (if m_data_len m \<noteq> 0 then 0x1400 else 0) \<and>
      d_param0 d = (if subsystem_device_id hw = 0x12D1 \<and> m_opcode m = 0x0801
                    then ucast (m_status m) else m_ctx0 m) \<and>
      d_param1 d = m_ctx1 m \<and>
      (if m_data_len m \<noteq> 0
       then 2 ^ 32 * unat (d_addr_high d) + unat (d_addr_low d) = unat (dma_pa (dmas (m_payload m)))
       else 2 ^ 32 * unat (d_addr_low d) + unat (d_addr_high d) = unat (m_payload m))) \<and>
    (\<forall>i < ring_size cq. (\<forall>j < num. i \<noteq> (next_to_use cq + j) mod ring_size cq) \<or> sq_busy cq i
      \<longrightarrow> desc_ring cq' ! i = desc_ring cq ! i) \<and>
    next_to_use cq' = (next_to_use cq + num) mod ring_size cq \<and>
    hw' = wr32 hw (reg_tail (reg cq)) (of_nat (next_to_use cq'))"
  using assms(3)
proof (cases rule: idpf_ctlq_sendE)
  case (room c)
  let ?n = "ring_size cq" and ?ntu = "next_to_use cq"
  have ok: "ctlq_idx_ok cq"
    using assms(1) by (rule sq_invD)
  have loop: "ctlq_send_loop msgs dmas hw q_msg (cq\<lparr>cq_lock := True\<rparr>) = (ret_ok, c)"
    using room(3) assms(2) by simp
  have sendable: "list_all (\<lambda>p. msg_sendable (msgs p)) q_msg"
    using ctlq_send_loop_abs [OF _ _ loop] ok room(2) assms(2) by (auto split: if_splits)
  have le: "num < ?n"
    using room(2) ctlq.unused_less [OF ok] by simp
  have free: "\<not> sq_busy cq ((?ntu + j) mod ?n)" if "j < num" for j
    using ctlq.produce_used [OF ok, of j] room(2) that by (simp add: sq_busy_def sq_count_def)
  have other: "desc_ring cq' ! i = desc_ring cq ! i"
    if "(\<forall>j < num. i \<noteq> (?ntu + j) mod ?n) \<or> sq_busy cq i" for i
  proof -
    have "i \<notin> set (ring_seg ?n ?ntu num)"
      using that free by (auto simp: ring_seg_def)
    then show ?thesis
      using ctlq_send_loop_desc_other [OF _ loop, of i] ok assms(2) room(4) by simp
  qed
  have "desc_ring cq' ! ((?ntu + j) mod ?n) =
      ctlq_fill_desc dmas hw (msgs (q_msg ! j)) (desc_ring cq ! ((?ntu + j) mod ?n))"
    if "j < num" for j
    using ctlq_send_loop_desc [OF _ sendable _ loop, of j] ok assms(2) le room(4) that by simp
  moreover have "d_datalen (desc_ring cq ! ((?ntu + j) mod ?n)) = 0" if "j < num" for j
    using sq_invD(3) [OF assms(1) _ free [OF that]] ctlq.slots_pos [OF ok] by (simp add: desc_idle_def)
  moreover have "next_to_use c = (?ntu + num) mod ?n"
    using ctlq_send_loop_next [OF _ sendable loop] ok assms(2) by simp
  ultimately show ?thesis
    using room(4,5) other by (simp add: fill_desc_header fill_desc_datalen fill_desc_params
        fill_desc_addr [simplified] Let_def)
qed simp

theorem idpf_ctlq_send_descs_witness:
  "\<exists>cq. idpf_ctlq_send demo_msgs demo_dmas demo_hw demo_sq 1 [0x40]
       = (ret_ok, wr32 demo_hw 0x14 1, cq) \<and> d_datalen (desc_ring cq ! 0) = 16"
proof -
  have inv: "sq_inv demo_sq" "sq_count demo_sq = 0"
    by (simp_all add: sq_eval demo_defs all_less_3)
  have "fst (idpf_ctlq_send demo_msgs demo_dmas demo_hw demo_sq 1 [0x40]) = ret_ok"
    "fst (snd (idpf_ctlq_send demo_msgs demo_dmas demo_hw demo_sq 1 [0x40])) = wr32 demo_hw 0x14 1"
    by (simp_all add: send_eval demo_defs)
  then obtain cq where send: "idpf_ctlq_send demo_msgs demo_dmas demo_hw demo_sq 1 [0x40]
      = (ret_ok, wr32 demo_hw 0x14 1, cq)"
    by (metis prod.collapse)
  show ?thesis
    using idpf_ctlq_send_descs [OF inv(1) _ send] send
    by (auto simp: demo_sq_def demo_msgs_def Let_def)
qed

end
