(* ===== verification/Idpf_Controlq_Recv.thy ===== *)
theory Idpf_Controlq_Recv
  imports Idpf_Controlq_Send "HOL-Library.Multiset"
begin

text \<open>
  The receive side of a control queue.  \<open>idpf_ctlq_post_rx_buffs\<close> refills the slots the driver has
  emptied: its two nested loops terminate on every queue whose indices are inside the ring, no
  buffer is lost or duplicated, and it stops early only when there is no buffer left to post.
  \<open>idpf_ctlq_recv\<close> hands out the done descriptors in ring order.
\<close>

section \<open>Invariant and specification\<close>

definition rq_ok :: "idpf_ctlq_info \<Rightarrow> bool" where
  "rq_ok cq \<longleftrightarrow> ctlq_idx_ok cq \<and> next_to_post cq < ring_size cq"

definition rq_bufs :: "idpf_ctlq_info \<Rightarrow> ptr multiset" where
  "rq_bufs cq = filter_mset (\<lambda>p. p \<noteq> NULL) (mset (bi cq))"

text \<open>Slot \<open>s\<close> holds a buffer and its descriptor gives that buffer to the device.\<close>

definition rx_posted :: "dma_store \<Rightarrow> idpf_ctlq_info \<Rightarrow> nat \<Rightarrow> bool" where
  "rx_posted dmas cq s \<longleftrightarrow> bi cq ! s \<noteq> NULL \<and>
     (let d = desc_ring cq ! s; b = dmas (bi cq ! s) in
      d_flags d = IDPF_CTLQ_FLAG_BUF OR IDPF_CTLQ_FLAG_RD \<and> d_datalen d = ucast (dma_size b) \<and>
      d_addr_high d = upper_32_bits (dma_pa b) \<and> d_addr_low d = lower_32_bits (dma_pa b))"

definition same_config :: "idpf_ctlq_info \<Rightarrow> idpf_ctlq_info \<Rightarrow> bool" where
  "same_config c c' \<longleftrightarrow> ring_size c' = ring_size c \<and> next_to_clean c' = next_to_clean c \<and>
     next_to_use c' = next_to_use c \<and> next_to_post c' = next_to_post c \<and> reg c' = reg c \<and>
     cq_lock c' = cq_lock c \<and> length (bi c') = length (bi c) \<and>
     length (desc_ring c') = length (desc_ring c)"

text \<open>What the posting loop achieves from slot \<open>ntp\<close> with \<open>i\<close> buffers already used.\<close>

definition post_result ::
  "dma_store \<Rightarrow> nat \<Rightarrow> ptr list \<Rightarrow> nat \<Rightarrow> nat \<Rightarrow> idpf_ctlq_info \<Rightarrow> nat \<Rightarrow> nat \<Rightarrow> idpf_ctlq_info \<Rightarrow> bool" where
  "post_result dmas cnt buffs i ntp cq ntp' i' cq' \<longleftrightarrow>
     (let n = ring_size cq; ntc = next_to_clean cq in
      same_config cq cq' \<and> ntp' < n \<and> i \<le> i' \<and> i' \<le> cnt \<and>
      ring_dist n ntp ntp' \<le> ring_dist n ntp ntc \<and>
      rq_bufs cq' = rq_bufs cq + mset (drop i (take i' buffs)) \<and>
      (\<forall>s<n. ring_dist n ntp ntc \<le> ring_dist n ntp s \<longrightarrow>
         bi cq' ! s = bi cq ! s \<and> desc_ring cq' ! s = desc_ring cq ! s) \<and>
      (\<forall>s<n. ring_dist n ntp s < ring_dist n ntp ntp' \<longrightarrow> rx_posted dmas cq' s) \<and>
      (ntp' \<noteq> ntc \<longrightarrow> i' = cnt \<and>
         (\<forall>s<n. ring_dist n ntp ntp' \<le> ring_dist n ntp s \<and> ring_dist n ntp s < ring_dist n ntp ntc
            \<longrightarrow> bi cq' ! s = NULL)))"

section \<open>The search loop\<close>

lemma bump_ge_mod: "ctlq_idx_ok cq \<Longrightarrow> i < ring_size cq \<Longrightarrow> ctlq_bump_ge cq i = Suc i mod ring_size cq"
  by (auto simp: ctlq_idx_ok_def ctlq_bump_ge_def Let_def Suc_mod_ring)

lemma ring_dist_split:
  assumes "a < n" and "b < n" and "s < n" and "a \<noteq> b"
  shows "ring_dist n a s < ring_dist n a b \<longleftrightarrow>
    s = a \<or> ring_dist n (Suc a mod n) s < ring_dist n (Suc a mod n) b"
  using assms by (auto simp: ring_dist_def Suc_mod_ring)

lemma ctlq_find_buf_total:
  assumes "ctlq_idx_ok cq" and "tbp < ring_size cq"
  shows "\<exists>t<ring_size cq. ctlq_find_buf cq tbp = Some t \<and>
    ring_dist (ring_size cq) tbp t \<le> ring_dist (ring_size cq) tbp (next_to_clean cq) \<and>
    (t \<noteq> next_to_clean cq \<longrightarrow> bi cq ! t \<noteq> NULL) \<and>
    (\<forall>s<ring_size cq. ring_dist (ring_size cq) tbp s < ring_dist (ring_size cq) tbp t \<longrightarrow> bi cq ! s = NULL)"
  using assms
proof (induction "ring_dist (ring_size cq) tbp (next_to_clean cq)" arbitrary: tbp)
  case 0
  then have "tbp = next_to_clean cq" by (simp add: ctlq_idx_okD)
  then show ?case
    using 0 by (auto simp: ctlq_find_buf.simps [of cq "next_to_clean cq"])
next
  case (Suc d)
  let ?n = "ring_size cq" and ?ntc = "next_to_clean cq"
  have lt: "tbp < ?n" "?ntc < ?n" and neq: "tbp \<noteq> ?ntc"
    using Suc.prems Suc.hyps(2) by (auto simp: ctlq_idx_okD)
  show ?case
  proof (cases "bi cq ! tbp = NULL")
    case False
    with lt neq show ?thesis
      by (auto simp: ctlq_find_buf.simps [of cq tbp])
  next
    case True
    have nxt: "Suc tbp mod ?n < ?n" using lt by simp
    have "d = ring_dist ?n (Suc tbp mod ?n) ?ntc"
      using Suc.hyps(2) lt neq by (simp add: ring_dist_Suc_left)
    from Suc.hyps(1) [OF this Suc.prems(1) nxt] obtain t where t: "t < ?n"
      "ctlq_find_buf cq (Suc tbp mod ?n) = Some t"
      "ring_dist ?n (Suc tbp mod ?n) t \<le> ring_dist ?n (Suc tbp mod ?n) ?ntc"
      "t \<noteq> ?ntc \<longrightarrow> bi cq ! t \<noteq> NULL"
      "\<forall>s<?n. ring_dist ?n (Suc tbp mod ?n) s < ring_dist ?n (Suc tbp mod ?n) t \<longrightarrow> bi cq ! s = NULL"
      by blast
    have find: "ctlq_find_buf cq tbp = Some t"
      using t(2) True neq Suc.prems lt by (simp add: ctlq_find_buf.simps [of cq tbp] bump_ge_mod)
    have "t \<noteq> tbp"
      using t(3) lt neq ring_dist_split [of "tbp" ?n ?ntc t]
      by (auto simp: ring_dist_def Suc_mod_ring split: if_splits)
    then show ?thesis
      using t find lt neq True ring_dist_split [of tbp ?n t] ring_dist_step [of tbp ?n t]
        ring_dist_step [of tbp ?n ?ntc]
      by (intro exI [of _ t]) auto
  qed
qed

section \<open>Buffer accounting\<close>

lemma rq_bufs_update:
  assumes "i < length (bi cq)" and "bi cq ! i = NULL" and "b \<noteq> NULL"
  shows "rq_bufs (cq\<lparr>bi := (bi cq)[i := b]\<rparr>) = add_mset b (rq_bufs cq)"
  using assms by (simp add: rq_bufs_def mset_update)

lemma rq_bufs_move:
  assumes "i < length (bi cq)" and "j < length (bi cq)" and "i \<noteq> j"
    and "bi cq ! i = NULL" and "bi cq ! j \<noteq> NULL"
  shows "rq_bufs (cq\<lparr>bi := (bi cq)[i := bi cq ! j, j := NULL]\<rparr>) = rq_bufs cq"
  using assms by (simp add: rq_bufs_def mset_update nth_list_update)

lemma rx_fill_desc_simps [simp]:
  "bi (ctlq_rx_fill_desc dmas s cq) = bi cq"
  "ring_size (ctlq_rx_fill_desc dmas s cq) = ring_size cq"
  "next_to_clean (ctlq_rx_fill_desc dmas s cq) = next_to_clean cq"
  "rq_bufs (ctlq_rx_fill_desc dmas s cq) = rq_bufs cq"
  by (simp_all add: ctlq_rx_fill_desc_def rq_bufs_def Let_def)

section \<open>The posting loop\<close>

lemma ring_dist_next:
  assumes "a < n" and "b < n" and "a \<noteq> b" and "t < n"
    and "ring_dist n (Suc a mod n) t \<le> ring_dist n (Suc a mod n) b"
  shows "t \<noteq> a \<and> ring_dist n a t = Suc (ring_dist n (Suc a mod n) t) \<and>
    ring_dist n a b = Suc (ring_dist n (Suc a mod n) b)"
proof -
  have "t \<noteq> a"
    using assms by (auto simp: ring_dist_def Suc_mod_ring split: if_splits)
  then show ?thesis
    using assms ring_dist_step [of a n t] ring_dist_step [of a n b] by simp
qed

lemma rx_posted_fill:
  "s < length (desc_ring cq) \<Longrightarrow> bi cq ! s \<noteq> NULL \<Longrightarrow> rx_posted dmas (ctlq_rx_fill_desc dmas s cq) s"
  by (simp add: rx_posted_def ctlq_rx_fill_desc_def Let_def)

lemma drop_take_append:
  assumes "i \<le> j" and "j \<le> k"
  shows "drop i (take j xs) @ drop j (take k xs) = drop i (take k xs)"
  using assms take_add [of "j - i" "k - j" "drop i xs"] by (simp add: drop_take)

text \<open>One iteration: \<open>c\<close> is the queue after the iteration has put a buffer into slot \<open>ntp\<close>.\<close>

lemma post_result_step:
  assumes ok: "ctlq_idx_ok cq" and ntp: "ntp < ring_size cq" "ntp \<noteq> next_to_clean cq"
    and conf: "same_config cq c" and descs: "desc_ring c = desc_ring cq" and buf: "bi c ! ntp \<noteq> NULL"
    and outside: "\<And>s. s < ring_size cq \<Longrightarrow> ring_dist (ring_size cq) ntp (next_to_clean cq) \<le>
        ring_dist (ring_size cq) ntp s \<Longrightarrow> bi c ! s = bi cq ! s"
    and bufs: "rq_bufs c = rq_bufs cq + mset (drop i (take j buffs))" and ij: "i \<le> j"
    and rest: "post_result dmas cnt buffs j (Suc ntp mod ring_size cq) (ctlq_rx_fill_desc dmas ntp c) ntp' i' cq'"
  shows "post_result dmas cnt buffs i ntp cq ntp' i' cq'"
proof -
  let ?n = "ring_size cq" and ?ntc = "next_to_clean cq" and ?f = "ctlq_rx_fill_desc dmas ntp c"
  have sizes: "ring_size ?f = ?n" "next_to_clean ?f = ?ntc" "?ntc < ?n"
    using conf ok by (auto simp: same_config_def ctlq_idx_okD)
  note r = rest [unfolded post_result_def Let_def sizes]
  have lt: "ntp' < ?n" "j \<le> i'" using r by auto
  note nxt = ring_dist_next [OF ntp(1) sizes(3) ntp(2)]
  have end1: "ring_dist ?n ntp ntp' = Suc (ring_dist ?n (Suc ntp mod ?n) ntp')"
    using nxt [OF lt(1)] r by blast
  have dist: "ring_dist ?n ntp ?ntc = Suc (ring_dist ?n (Suc ntp mod ?n) ?ntc)"
    using nxt [OF sizes(3)] by simp
  have slot: "ring_dist ?n ntp s = Suc (ring_dist ?n (Suc ntp mod ?n) s)" if "s < ?n" "s \<noteq> ntp" for s
    using ring_dist_step [of ntp ?n s] ntp(1) that by simp
  have f: "same_config c ?f" "\<And>s. s \<noteq> ntp \<Longrightarrow> desc_ring ?f ! s = desc_ring cq ! s"
    using descs by (auto simp: same_config_def ctlq_rx_fill_desc_def Let_def)
  have far: "ring_dist ?n (Suc ntp mod ?n) ?ntc \<le> ring_dist ?n (Suc ntp mod ?n) ntp"
    using ntp sizes(3) by (auto simp: ring_dist_def Suc_mod_ring)
  have kept: "bi cq' ! ntp = bi c ! ntp" "desc_ring cq' ! ntp = desc_ring ?f ! ntp"
    using r far ntp(1) by auto
  have posted: "rx_posted dmas ?f ntp"
    using buf ok descs ntp(1) by (intro rx_posted_fill) (simp_all add: ctlq_idx_okD)
  have facts: "same_config ?f cq'" "i' \<le> cnt" "rq_bufs cq' = rq_bufs ?f + mset (drop j (take i' buffs))"
    "ring_dist ?n (Suc ntp mod ?n) ntp' \<le> ring_dist ?n (Suc ntp mod ?n) ?ntc"
    using r by auto
  have conf': "same_config cq cq'"
    using conf f(1) facts(1) by (simp add: same_config_def)
  have bufs': "rq_bufs cq' = rq_bufs cq + mset (drop i (take i' buffs))"
    using facts(3) bufs ij lt(2) drop_take_append [of i j i' buffs]
    by (metis add.assoc mset_append rx_fill_desc_simps(4))
  have frame: "\<forall>s<?n. ring_dist ?n ntp ?ntc \<le> ring_dist ?n ntp s \<longrightarrow>
      bi cq' ! s = bi cq ! s \<and> desc_ring cq' ! s = desc_ring cq ! s"
  proof (intro allI impI)
    fix s assume s: "s < ?n" "ring_dist ?n ntp ?ntc \<le> ring_dist ?n ntp s"
    then have "s \<noteq> ntp" using dist by auto
    with s show "bi cq' ! s = bi cq ! s \<and> desc_ring cq' ! s = desc_ring cq ! s"
      using r slot [of s] dist outside [of s] f(2) [of s] by auto
  qed
  have posted_all: "\<forall>s<?n. ring_dist ?n ntp s < ring_dist ?n ntp ntp' \<longrightarrow> rx_posted dmas cq' s"
  proof (intro allI impI)
    fix s assume s: "s < ?n" "ring_dist ?n ntp s < ring_dist ?n ntp ntp'"
    show "rx_posted dmas cq' s"
    proof (cases "s = ntp")
      case True
      with posted kept show ?thesis by (simp add: rx_posted_def)
    next
      case False
      with s r slot [of s] end1 show ?thesis by simp
    qed
  qed
  have stop: "ntp' \<noteq> ?ntc \<longrightarrow> i' = cnt \<and> (\<forall>s<?n. ring_dist ?n ntp ntp' \<le> ring_dist ?n ntp s \<and>
      ring_dist ?n ntp s < ring_dist ?n ntp ?ntc \<longrightarrow> bi cq' ! s = NULL)"
  proof (intro conjI impI allI)
    fix s assume "ntp' \<noteq> ?ntc" "s < ?n" "ring_dist ?n ntp ntp' \<le> ring_dist ?n ntp s \<and>
      ring_dist ?n ntp s < ring_dist ?n ntp ?ntc"
    moreover from this end1 have "s \<noteq> ntp" by auto
    ultimately show "bi cq' ! s = NULL"
      using r slot [of s] end1 dist by simp
  qed (use r in simp)
  have le: "i \<le> i'" "ring_dist ?n ntp ntp' \<le> ring_dist ?n ntp ?ntc"
    using ij lt(2) facts(4) end1 dist by simp_all
  show ?thesis
    unfolding post_result_def Let_def
    by (intro conjI conf' lt(1) le facts(2) bufs' frame posted_all stop)
qed

lemma ctlq_post_loop_unfold:
  assumes "ctlq_idx_ok cq" and "ntp < ring_size cq" and "ntp \<noteq> next_to_clean cq"
  shows "ctlq_post_loop dmas cnt buffs avail i ntp cq =
     (if bi cq ! ntp \<noteq> NULL then
        ctlq_post_loop dmas cnt buffs avail i (Suc ntp mod ring_size cq) (ctlq_rx_fill_desc dmas ntp cq)
      else if \<not> avail then
        Option.bind (ctlq_find_buf cq (Suc ntp mod ring_size cq)) (\<lambda>tbp.
          if tbp = next_to_clean cq then Some (ntp, i, cq)
          else ctlq_post_loop dmas cnt buffs avail i (Suc ntp mod ring_size cq)
                 (ctlq_rx_fill_desc dmas ntp (cq\<lparr>bi := (bi cq)[ntp := bi cq ! tbp, tbp := NULL]\<rparr>)))
      else
        ctlq_post_loop dmas cnt buffs (i + 1 < cnt) (i + 1) (Suc ntp mod ring_size cq)
          (ctlq_rx_fill_desc dmas ntp (cq\<lparr>bi := (bi cq)[ntp := buffs ! i]\<rparr>)))"
proof -
  have bump: "ctlq_bump cq ntp = Suc ntp mod ring_size cq" "ctlq_bump_ge cq ntp = Suc ntp mod ring_size cq"
    using assms by (simp_all add: bump_ge_mod ctlq.succ_mod)
  show ?thesis
    unfolding ctlq_post_loop.simps [of dmas cnt buffs avail i ntp cq] bump using assms(3) by simp
qed

lemma same_config_idx: "same_config c c' \<Longrightarrow> ctlq_idx_ok c \<Longrightarrow> ctlq_idx_ok c'"
  by (simp add: same_config_def ctlq_idx_ok_def)

lemma same_config_fill [simp]:
  "same_config c (ctlq_rx_fill_desc dmas s c') \<longleftrightarrow> same_config c c'"
  by (simp add: same_config_def ctlq_rx_fill_desc_def Let_def)

lemma same_config_bi [simp]:
  "same_config c (c\<lparr>bi := b\<rparr>) \<longleftrightarrow> length b = length (bi c)"
  by (simp add: same_config_def)

lemma ctlq_post_loop_total:
  assumes "ctlq_idx_ok cq" and "ntp < ring_size cq" and "i \<le> cnt" and "cnt \<le> length buffs"
    and "NULL \<notin> set buffs"
  shows "\<exists>ntp' i' cq'. ctlq_post_loop dmas cnt buffs (i < cnt) i ntp cq = Some (ntp', i', cq') \<and>
    post_result dmas cnt buffs i ntp cq ntp' i' cq'"
  using assms
proof (induction "ring_dist (ring_size cq) ntp (next_to_clean cq)" arbitrary: ntp i cq)
  case 0
  then have "ntp = next_to_clean cq" by (simp add: ctlq_idx_okD)
  then show ?case
    using 0 by (auto simp: ctlq_post_loop.simps [of _ _ _ _ _ "next_to_clean cq"] post_result_def
        same_config_def Let_def)
next
  case (Suc d)
  let ?n = "ring_size cq" and ?ntc = "next_to_clean cq" and ?nxt = "Suc ntp mod ring_size cq"
  note ok = Suc.prems(1) and lt = Suc.prems(2)
  have ntc: "?ntc < ?n" and neq: "ntp \<noteq> ?ntc"
    using ok Suc.hyps(2) by (auto simp: ctlq_idx_okD)
  have d: "d = ring_dist ?n ?nxt ?ntc"
    using Suc.hyps(2) lt ntc neq by (simp add: ring_dist_Suc_left)
  have next_lt: "?nxt < ?n" using lt by simp
  note unfold = ctlq_post_loop_unfold [OF ok lt neq]
  have go: "\<exists>ntp' i' cq'. ctlq_post_loop dmas cnt buffs (j < cnt) j ?nxt (ctlq_rx_fill_desc dmas ntp c)
        = Some (ntp', i', cq') \<and> post_result dmas cnt buffs i ntp cq ntp' i' cq'"
    if c: "same_config cq c" "desc_ring c = desc_ring cq" "bi c ! ntp \<noteq> NULL"
      "\<And>s. s < ?n \<Longrightarrow> ring_dist ?n ntp ?ntc \<le> ring_dist ?n ntp s \<Longrightarrow> bi c ! s = bi cq ! s"
      "rq_bufs c = rq_bufs cq + mset (drop i (take j buffs))" "i \<le> j" "j \<le> cnt" for c j
  proof -
    let ?f = "ctlq_rx_fill_desc dmas ntp c"
    have sz: "ring_size ?f = ?n" "next_to_clean ?f = ?ntc"
      using c(1) by (simp_all add: same_config_def)
    have "ctlq_idx_ok ?f"
      using c(1) ok same_config_idx [of cq ?f] by simp
    with Suc.hyps(1) [of ?f ?nxt j] d sz next_lt c(7) Suc.prems(4,5)
    obtain ntp' i' cq' where "ctlq_post_loop dmas cnt buffs (j < cnt) j ?nxt ?f = Some (ntp', i', cq')"
      "post_result dmas cnt buffs j ?nxt ?f ntp' i' cq'"
      by auto
    then show ?thesis
      using post_result_step [OF ok lt neq c(1-6)] by blast
  qed
  show ?case
  proof (cases "bi cq ! ntp = NULL")
    case False
    then show ?thesis
      using go [of cq i] Suc.prems(3) unfold by (simp add: same_config_def)
  next
    case empty: True
    show ?thesis
    proof (cases "i < cnt")
      case True
      let ?c = "cq\<lparr>bi := (bi cq)[ntp := buffs ! i]\<rparr>"
      have "i < length buffs" using True Suc.prems(4) by simp
      then have b: "buffs ! i \<noteq> NULL" "drop i (take (Suc i) buffs) = [buffs ! i]"
        using Suc.prems(5) nth_mem by (fastforce, simp add: take_Suc_conv_app_nth)
      have "rq_bufs ?c = rq_bufs cq + mset (drop i (take (Suc i) buffs))"
        using rq_bufs_update [of ntp cq "buffs ! i"] empty b lt ok by (simp add: ctlq_idx_okD)
      moreover have "bi ?c ! s = bi cq ! s"
        if "ring_dist ?n ntp ?ntc \<le> ring_dist ?n ntp s" for s
        using that neq lt by (cases "s = ntp") auto
      ultimately show ?thesis
        using go [of ?c "Suc i"] True b lt ok unfold empty by (simp add: ctlq_idx_okD)
    next
      case False
      obtain t where t: "t < ?n" "ctlq_find_buf cq ?nxt = Some t"
        "ring_dist ?n ?nxt t \<le> ring_dist ?n ?nxt ?ntc" "t \<noteq> ?ntc \<longrightarrow> bi cq ! t \<noteq> NULL"
        "\<forall>s<?n. ring_dist ?n ?nxt s < ring_dist ?n ?nxt t \<longrightarrow> bi cq ! s = NULL"
        using ctlq_find_buf_total [OF ok next_lt] by blast
      show ?thesis
      proof (cases "t = ?ntc")
        case True
        have "bi cq ! s = NULL" if "s < ?n" "ring_dist ?n ntp s < ring_dist ?n ntp ?ntc" for s
          using that t(5) True empty ring_dist_split [OF lt ntc that(1) neq] by auto
        then have "post_result dmas cnt buffs i ntp cq ntp i cq"
          using lt False Suc.prems(3) by (auto simp: post_result_def Let_def same_config_def)
        then show ?thesis
          using unfold empty False t(2) True by auto
      next
        case busy: False
        let ?c = "cq\<lparr>bi := (bi cq)[ntp := bi cq ! t, t := NULL]\<rparr>"
        have tn: "t \<noteq> ntp" "ring_dist ?n ntp t = Suc (ring_dist ?n ?nxt t)"
          "ring_dist ?n ntp ?ntc = Suc (ring_dist ?n ?nxt ?ntc)"
          using ring_dist_next [OF lt ntc neq t(1,3)] by auto
        have tb: "bi cq ! t \<noteq> NULL" using t(4) busy by simp
        have tlt: "ring_dist ?n ntp t < ring_dist ?n ntp ?ntc"
          using tn t(1,3) busy ntc next_lt ring_add_dist [of ?nxt ?n t] ring_add_dist [of ?nxt ?n ?ntc]
          by (cases "ring_dist ?n ?nxt t = ring_dist ?n ?nxt ?ntc") auto
        have "rq_bufs ?c = rq_bufs cq"
          using rq_bufs_move [of ntp cq t] empty tb tn(1) t(1) lt ok by (simp add: ctlq_idx_okD)
        moreover have "bi ?c ! ntp \<noteq> NULL"
          using tb tn(1) lt ok by (simp add: ctlq_idx_okD)
        moreover have "bi ?c ! s = bi cq ! s"
          if "ring_dist ?n ntp ?ntc \<le> ring_dist ?n ntp s" for s
          using that neq lt tlt by (cases "s = ntp"; cases "s = t") auto
        ultimately show ?thesis
          using go [of ?c i] False Suc.prems(3) unfold empty t(2) busy by simp
      qed
    qed
  qed
qed

section \<open>Receiving\<close>

definition rq_done :: "idpf_ctlq_info \<Rightarrow> nat \<Rightarrow> nat \<Rightarrow> nat list" where
  "rq_done cq ntc k = takeWhile (\<lambda>s. d_flags (desc_ring cq ! s) AND IDPF_CTLQ_FLAG_DD \<noteq> 0)
     (ring_seg (ring_size cq) ntc k)"

definition rq_handed :: "idpf_ctlq_info \<Rightarrow> nat list \<Rightarrow> ptr multiset" where
  "rq_handed cq ss = filter_mset (\<lambda>p. p \<noteq> NULL)
     (mset (map ((!) (bi cq)) (filter (\<lambda>s. d_datalen (desc_ring cq ! s) \<noteq> 0) ss)))"

definition rq_consume :: "nat \<Rightarrow> idpf_ctlq_info \<Rightarrow> idpf_ctlq_info" where
  "rq_consume s cq = cq\<lparr>bi := (if d_datalen (desc_ring cq ! s) \<noteq> 0 then (bi cq)[s := NULL] else bi cq),
     desc_ring := (desc_ring cq)[s := zero_desc]\<rparr>"

lemma rq_consume_simps [simp]:
  "ring_size (rq_consume s cq) = ring_size cq"
  "desc_ring (rq_consume s cq) = (desc_ring cq)[s := zero_desc]"
  "next_to_clean (rq_consume s cq) = next_to_clean cq"
  "same_config c (rq_consume s cq) = same_config c cq"
  by (auto simp: rq_consume_def same_config_def)

lemma rq_consume_bi_other: "t \<noteq> s \<Longrightarrow> bi (rq_consume s cq) ! t = bi cq ! t"
  by (simp add: rq_consume_def)

lemma ctlq_recv_loop_Suc:
  "ctlq_recv_loop (Suc k) i ntc cq q err =
     (if d_flags (desc_ring cq ! ntc) AND IDPF_CTLQ_FLAG_DD = 0 then (i, ntc, cq, q, err)
      else ctlq_recv_loop k (i + 1) (ctlq_bump cq ntc) (rq_consume ntc cq)
             (q[i := ctlq_recv_msg (desc_ring cq ! ntc) (bi cq ! ntc) (q ! i)])
             (if d_flags (desc_ring cq ! ntc) AND IDPF_CTLQ_FLAG_ERR \<noteq> 0 then Some EBADMSG else err))"
  by (simp add: Let_def rq_consume_def)

declare ctlq_recv_loop.simps(2) [simp del]

lemma rq_done_0 [simp]: "rq_done cq ntc 0 = []"
  by (simp add: rq_done_def)

lemma rq_done_subset: "set (rq_done cq ntc k) \<subseteq> set (ring_seg (ring_size cq) ntc k)"
  by (auto simp: rq_done_def dest: set_takeWhileD)

lemma next_notin_seg:
  assumes "a < n" and "Suc k \<le> n"
  shows "a \<notin> set (ring_seg n (Suc a mod n) k)"
  using distinct_ring_seg [OF assms] assms by (simp add: ring_seg_Cons)

lemma rq_done_Suc:
  assumes "ntc < ring_size cq" and "Suc k \<le> ring_size cq"
  shows "rq_done cq ntc (Suc k) =
    (if d_flags (desc_ring cq ! ntc) AND IDPF_CTLQ_FLAG_DD = 0 then []
     else ntc # rq_done (rq_consume ntc cq) (Suc ntc mod ring_size cq) k)"
proof -
  have "(desc_ring cq)[ntc := zero_desc] ! s = desc_ring cq ! s"
    if "s \<in> set (ring_seg (ring_size cq) (Suc ntc mod ring_size cq) k)" for s
    using next_notin_seg [OF assms] that by (metis nth_list_update_neq)
  then show ?thesis
    using assms by (auto simp: rq_done_def ring_seg_Cons intro!: takeWhile_cong)
qed

lemma rq_handed_Cons:
  assumes "ntc < length (bi cq)" and "ntc \<notin> set ss"
  shows "rq_handed cq (ntc # ss) + rq_bufs (rq_consume ntc cq) = rq_bufs cq + rq_handed (rq_consume ntc cq) ss"
proof -
  have same: "rq_handed (rq_consume ntc cq) ss = rq_handed cq ss"
  proof -
    have "filter (\<lambda>s. d_datalen (desc_ring (rq_consume ntc cq) ! s) \<noteq> 0) ss =
        filter (\<lambda>s. d_datalen (desc_ring cq ! s) \<noteq> 0) ss"
      using assms(2) by (intro filter_cong) (simp_all add: nth_update_notin)
    moreover have "map ((!) (bi (rq_consume ntc cq))) (filter P ss) = map ((!) (bi cq)) (filter P ss)" for P
      using assms(2) by (intro map_cong) (auto intro: rq_consume_bi_other)
    ultimately show ?thesis
      unfolding rq_handed_def by (simp only:)
  qed
  show ?thesis
  proof (cases "d_datalen (desc_ring cq ! ntc) \<noteq> 0")
    case True
    then show ?thesis
      using assms(1) same by (simp add: rq_handed_def rq_bufs_def rq_consume_def mset_update)
  next
    case False
    then show ?thesis
      using same by (simp add: rq_handed_def rq_bufs_def rq_consume_def)
  qed
qed

lemma ctlq_recv_loop_spec:
  assumes "ctlq_idx_ok cq" and "ntc < ring_size cq" and "k \<le> ring_size cq"
    and "ctlq_recv_loop k i ntc cq q err = (i', ntc', cq', q', err')"
  shows "i' = i + length (rq_done cq ntc k) \<and>
    ntc' = (ntc + length (rq_done cq ntc k)) mod ring_size cq \<and> same_config cq cq' \<and>
    rq_handed cq (rq_done cq ntc k) + rq_bufs cq' = rq_bufs cq \<and>
    err' = (if \<exists>s \<in> set (rq_done cq ntc k). d_flags (desc_ring cq ! s) AND IDPF_CTLQ_FLAG_ERR \<noteq> 0
            then Some EBADMSG else err)"
  using assms
proof (induction k arbitrary: i ntc cq q err)
  case 0
  then show ?case
    by (auto simp: rq_handed_def same_config_def)
next
  case (Suc k)
  let ?n = "ring_size cq" and ?nxt = "Suc ntc mod ring_size cq" and ?c = "rq_consume ntc cq"
  show ?case
  proof (cases "d_flags (desc_ring cq ! ntc) AND IDPF_CTLQ_FLAG_DD = 0")
    case True
    then show ?thesis
      using Suc.prems by (auto simp: ctlq_recv_loop_Suc rq_done_Suc rq_handed_def same_config_def)
  next
    case False
    let ?e = "if d_flags (desc_ring cq ! ntc) AND IDPF_CTLQ_FLAG_ERR \<noteq> 0 then Some EBADMSG else err"
    let ?D = "rq_done ?c ?nxt k"
    have ok: "ctlq_idx_ok ?c"
      using Suc.prems(1) by (simp add: ctlq_idx_ok_def rq_consume_def)
    have loop: "ctlq_recv_loop k (i + 1) ?nxt ?c
        (q[i := ctlq_recv_msg (desc_ring cq ! ntc) (bi cq ! ntc) (q ! i)]) ?e = (i', ntc', cq', q', err')"
      using Suc.prems False by (simp add: ctlq_recv_loop_Suc ctlq.succ_mod)
    have notin: "ntc \<notin> set ?D"
      using rq_done_subset [of ?c ?nxt k] next_notin_seg [OF Suc.prems(2,3)] by auto
    have ih: "i' = i + 1 + length ?D" "ntc' = (?nxt + length ?D) mod ?n" "same_config ?c cq'"
      "rq_handed ?c ?D + rq_bufs cq' = rq_bufs ?c"
      "err' = (if \<exists>s \<in> set ?D. d_flags (desc_ring ?c ! s) AND IDPF_CTLQ_FLAG_ERR \<noteq> 0 then Some EBADMSG else ?e)"
      using Suc.IH [OF ok _ _ loop] Suc.prems(2,3) by auto
    have "rq_handed cq (ntc # ?D) + rq_bufs cq' = rq_bufs cq"
      using rq_handed_Cons [of ntc cq ?D] notin Suc.prems(1,2) unfolding ih(4) [symmetric]
      by (simp add: ctlq_idx_okD ac_simps)
    moreover have "same_config cq cq'"
      using ih(3) by (auto simp: same_config_def rq_consume_def)
    moreover have "d_flags (desc_ring ?c ! s) = d_flags (desc_ring cq ! s)" if "s \<in> set ?D" for s
      using notin that by (simp add: nth_update_notin)
    ultimately show ?thesis
      using ih(1,2,5) Suc.prems(2,3) False by (auto simp: rq_done_Suc mod_simps)
  qed
qed

lemma ctlq_recv_loop_msgs:
  assumes "ctlq_idx_ok cq" and "ntc < ring_size cq" and "k \<le> ring_size cq" and "i + k \<le> length q"
    and "ctlq_recv_loop k i ntc cq q err = (i', ntc', cq', q', err')"
  shows "(\<forall>j < length (rq_done cq ntc k). let s = rq_done cq ntc k ! j in
      q' ! (i + j) = ctlq_recv_msg (desc_ring cq ! s) (bi cq ! s) (q ! (i + j))) \<and>
    (\<forall>m<i. q' ! m = q ! m)"
  using assms
proof (induction k arbitrary: i ntc cq q err)
  case (Suc k)
  let ?n = "ring_size cq" and ?nxt = "Suc ntc mod ring_size cq" and ?c = "rq_consume ntc cq"
  show ?case
  proof (cases "d_flags (desc_ring cq ! ntc) AND IDPF_CTLQ_FLAG_DD = 0")
    case True
    then show ?thesis
      using Suc.prems by (auto simp: ctlq_recv_loop_Suc rq_done_Suc)
  next
    case False
    let ?e = "if d_flags (desc_ring cq ! ntc) AND IDPF_CTLQ_FLAG_ERR \<noteq> 0 then Some EBADMSG else err"
    let ?m = "ctlq_recv_msg (desc_ring cq ! ntc) (bi cq ! ntc) (q ! i)" and ?D = "rq_done ?c ?nxt k"
    have ok: "ctlq_idx_ok ?c"
      using Suc.prems(1) by (simp add: ctlq_idx_ok_def rq_consume_def)
    have loop: "ctlq_recv_loop k (Suc i) ?nxt ?c (q[i := ?m]) ?e = (i', ntc', cq', q', err')"
      using Suc.prems False by (simp add: ctlq_recv_loop_Suc ctlq.succ_mod)
    have ih: "\<And>j. j < length ?D \<Longrightarrow> q' ! (Suc i + j) =
        ctlq_recv_msg (desc_ring ?c ! (?D ! j)) (bi ?c ! (?D ! j)) ((q[i := ?m]) ! (Suc i + j))"
      and low: "\<And>m. m < Suc i \<Longrightarrow> q' ! m = (q[i := ?m]) ! m"
      using Suc.IH [OF ok _ _ _ loop] Suc.prems(2,3,4) by (auto simp: Let_def)
    have notin: "ntc \<notin> set ?D"
      using rq_done_subset [of ?c ?nxt k] next_notin_seg [OF Suc.prems(2,3)] by auto
    have D: "rq_done cq ntc (Suc k) = ntc # ?D"
      using Suc.prems(2,3) False by (simp add: rq_done_Suc)
    have "q' ! (i + j) = ctlq_recv_msg (desc_ring cq ! ((ntc # ?D) ! j)) (bi cq ! ((ntc # ?D) ! j)) (q ! (i + j))"
      if "j < length (ntc # ?D)" for j
    proof (cases j)
      case 0
      then show ?thesis using low [of i] Suc.prems(4) by simp
    next
      case (Suc j')
      then have j': "j' < length ?D" using that by simp
      then have "?D ! j' \<noteq> ntc" using notin nth_mem by fastforce
      then show ?thesis using ih [OF j'] Suc by (simp add: rq_consume_bi_other)
    qed
    moreover have "q' ! m = q ! m" if "m < i" for m
      using low [of m] that by simp
    ultimately show ?thesis
      unfolding D Let_def by blast
  qed
qed simp

section \<open>Properties\<close>

lemma ctlq_post_out_eq:
  assumes "ctlq_idx_ok cq" and "ntp < ring_size cq"
  shows "ctlq_post_out hw cnt (ntp, i, cq) =
    (let p = (if next_to_post cq = ntp then ntp else (ntp + ring_size cq - 1) mod ring_size cq) in
     (ret_ok, if next_to_post cq = ntp then hw else wr32 hw (reg_tail (reg cq)) (of_nat p),
      cq\<lparr>next_to_post := p, cq_lock := False\<rparr>, cnt - i))"
proof -
  have "(ntp + ring_size cq - 1) mod ring_size cq = (if ntp \<noteq> 0 then ntp - 1 else ring_size cq - 1)"
    using assms by (auto simp: le_mod_geq)
  moreover have "trunc16 (ring_size cq + 65535) = ring_size cq - 1"
    using ctlq_idx_okD(1) [OF assms(1)] assms(2) by (simp add: trunc16_def le_mod_geq)
  ultimately show ?thesis
    by (auto simp: ctlq_post_out_def Let_def)
qed

text \<open>The two ways through \<open>idpf_ctlq_post_rx_buffs\<close>: nothing to do, or the loop.\<close>

lemma idpf_ctlq_post_rx_buffs_run:
  assumes "rq_ok cq" and "cnt \<le> ring_size cq" and "cnt \<le> length buffs" and "NULL \<notin> set buffs"
  obtains (idle) "Suc (next_to_post cq) mod ring_size cq = next_to_clean cq"
      "idpf_ctlq_post_rx_buffs dmas hw cq cnt buffs = Some (ret_ok, hw, cq\<lparr>cq_lock := False\<rparr>, cnt)"
  | (loop) ntp' i' c p hw' where "Suc (next_to_post cq) mod ring_size cq \<noteq> next_to_clean cq"
      "post_result dmas cnt buffs 0 (next_to_post cq) (cq\<lparr>cq_lock := True\<rparr>) ntp' i' c"
      "p = (if next_to_post cq = ntp' then ntp' else (ntp' + ring_size cq - 1) mod ring_size cq)"
      "hw' = (if next_to_post cq = ntp' then hw else wr32 hw (reg_tail (reg cq)) (of_nat p))"
      "idpf_ctlq_post_rx_buffs dmas hw cq cnt buffs = Some (ret_ok, hw', c\<lparr>next_to_post := p, cq_lock := False\<rparr>, cnt - i')"
proof -
  let ?n = "ring_size cq" and ?ntp = "next_to_post cq" and ?ntc = "next_to_clean cq"
  let ?l = "cq\<lparr>cq_lock := True\<rparr>"
  have ok: "ctlq_idx_ok cq" "ctlq_idx_ok ?l" and ntp: "?ntp < ?n"
    using assms(1) by (simp_all add: rq_ok_def)
  have bump: "ctlq_bump_ge ?l ?ntp = Suc ?ntp mod ?n"
    using bump_ge_mod [OF ok(2)] ntp by simp
  show thesis
  proof (cases "Suc ?ntp mod ?n = ?ntc")
    case True
    then have "idpf_ctlq_post_rx_buffs dmas hw cq cnt buffs = Some (ret_ok, hw, cq\<lparr>cq_lock := False\<rparr>, cnt)"
      using assms(2) bump ctlq_post_out_eq [OF ok(2), of ?ntp] ntp
      by (simp add: idpf_ctlq_post_rx_buffs_def Let_def)
    with True show thesis by (rule idle)
  next
    case False
    obtain ntp' i' c where run: "ctlq_post_loop dmas cnt buffs (0 < cnt) 0 ?ntp ?l = Some (ntp', i', c)"
      and res: "post_result dmas cnt buffs 0 ?ntp ?l ntp' i' c"
      using ctlq_post_loop_total [of ?l ?ntp 0 cnt buffs dmas] ok ntp assms(3,4) by auto
    have conf: "ring_size c = ?n" "next_to_post c = ?ntp" "reg c = reg cq" "ctlq_idx_ok c" "ntp' < ?n"
      using res ok(2) same_config_idx [of ?l c] by (auto simp: same_config_def post_result_def Let_def)
    show thesis
      by (rule loop [OF False res refl refl])
        (use assms(2) bump False run ctlq_post_out_eq [OF conf(4), of ntp' hw cnt i'] conf in
          \<open>simp add: idpf_ctlq_post_rx_buffs_def Let_def\<close>)
  qed
qed

text \<open>
  C5: posting receive buffers is total and loses nothing.  On every queue with indices inside the
  ring, the two nested loops return.  The buffers in the ring afterwards are those before plus
  exactly the first \<open>count - rest\<close> buffers of the caller (as multisets, so moving a buffer along
  the ring neither drops nor doubles one), where \<open>rest\<close> is the count handed back.  Every slot the
  loop went over carries a buffer whose address and size its descriptor announces, and the loop
  stops before \<open>next_to_clean\<close> only when all buffers of the caller are used and no slot ahead holds
  one.  The tail register is written iff a slot was posted, with the new \<open>next_to_post\<close>, and the
  lock is released.
\<close>

theorem idpf_ctlq_post_rx_buffs_total:
  assumes "rq_ok cq" and "cnt \<le> ring_size cq" and "cnt \<le> length buffs" and "NULL \<notin> set buffs"
  shows "\<exists>hw' cq' rest ntp'. let n = ring_size cq; ntp = next_to_post cq; ntc = next_to_clean cq in
    idpf_ctlq_post_rx_buffs dmas hw cq cnt buffs = Some (ret_ok, hw', cq', rest) \<and>
    rq_ok cq' \<and> \<not> cq_lock cq' \<and> rest \<le> cnt \<and> ntp' < n \<and>
    rq_bufs cq' = rq_bufs cq + mset (take (cnt - rest) buffs) \<and>
    (\<forall>s<n. ring_dist n ntp s < ring_dist n ntp ntp' \<longrightarrow> rx_posted dmas cq' s) \<and>
    (Suc ntp mod n \<noteq> ntc \<and> ntp' \<noteq> ntc \<longrightarrow> rest = 0 \<and>
       (\<forall>s<n. ring_dist n ntp ntp' \<le> ring_dist n ntp s \<and> ring_dist n ntp s < ring_dist n ntp ntc
          \<longrightarrow> bi cq' ! s = NULL)) \<and>
    mmio hw' = mmio hw @ (if ntp' = ntp then [] else [(reg_tail (reg cq), of_nat (next_to_post cq'))])"
proof -
  let ?n = "ring_size cq" and ?ntp = "next_to_post cq" and ?ntc = "next_to_clean cq"
  have ok: "ctlq_idx_ok cq" and ntp: "?ntp < ?n" using assms(1) by (simp_all add: rq_ok_def)
  from assms show ?thesis
  proof (cases rule: idpf_ctlq_post_rx_buffs_run [where dmas = dmas and hw = hw])
    case idle
    then show ?thesis
      using ok ntp
      by (intro exI [of _ hw] exI [of _ "cq\<lparr>cq_lock := False\<rparr>"] exI [of _ cnt] exI [of _ ?ntp])
        (simp add: rq_ok_def rq_bufs_def)
  next
    case (loop ntp' i' cq' p hw')
    note r = loop(2) [unfolded post_result_def Let_def, simplified]
    have conf: "ring_size cq' = ?n" "ctlq_idx_ok cq'"
      using r ok same_config_idx [of "cq\<lparr>cq_lock := True\<rparr>" cq'] by (auto simp: same_config_def)
    let ?c = "cq'\<lparr>next_to_post := p, cq_lock := False\<rparr>"
    have p: "p < ?n" using r ntp loop(3) by auto
    have c: "rq_bufs ?c = rq_bufs cq'" "rx_posted dmas ?c s = rx_posted dmas cq' s" "rq_ok ?c" for s
      using p conf by (simp_all add: rq_bufs_def rx_posted_def rq_ok_def ctlq_idx_ok_def)
    have "rq_bufs (cq\<lparr>cq_lock := True\<rparr>) = rq_bufs cq" by (simp add: rq_bufs_def)
    then have bufs: "rq_bufs ?c = rq_bufs cq + mset (take (cnt - (cnt - i')) buffs)"
      using r c(1) by simp
    have posted: "\<forall>s<?n. ring_dist ?n ?ntp s < ring_dist ?n ?ntp ntp' \<longrightarrow> rx_posted dmas ?c s"
      unfolding c(2) using r by blast
    have stop: "Suc ?ntp mod ?n \<noteq> ?ntc \<and> ntp' \<noteq> ?ntc \<longrightarrow> cnt - i' = 0 \<and>
       (\<forall>s<?n. ring_dist ?n ?ntp ntp' \<le> ring_dist ?n ?ntp s \<and> ring_dist ?n ?ntp s < ring_dist ?n ?ntp ?ntc
          \<longrightarrow> bi ?c ! s = NULL)"
      using r by simp
    have tail: "mmio hw' = mmio hw @ (if ntp' = ?ntp then [] else [(reg_tail (reg cq), of_nat (next_to_post ?c))])"
      using loop(4) by (simp add: wr32_def)
    have "ntp' < ?n" "\<not> cq_lock ?c" "cnt - i' \<le> cnt" using r by simp_all
    then show ?thesis
      unfolding Let_def using loop(5) c(3) bufs posted stop tail
      by (intro exI [of _ hw'] exI [of _ ?c] exI [of _ "cnt - i'"] exI [of _ ntp'] conjI)
  qed
qed

definition demo_rq :: idpf_ctlq_info where
  "demo_rq = demo_sq\<lparr>cq_type := IDPF_CTLQ_TYPE_MAILBOX_RX, next_to_clean := 1, next_to_post := 2,
     bi := [NULL, 0x50, NULL], desc_ring := [zero_desc, zero_desc\<lparr>d_flags := 0x85, d_datalen := 8\<rparr>, zero_desc]\<rparr>"

lemma demo_rq_ok: "rq_ok demo_rq"
  by (simp add: rq_ok_def ctlq_idx_ok_def demo_rq_def demo_sq_def)

theorem idpf_ctlq_post_rx_buffs_total_witness:
  "\<exists>hw' cq' rest. idpf_ctlq_post_rx_buffs demo_dmas demo_hw demo_rq 1 [0x60] = Some (ret_ok, hw', cq', rest) \<and>
     rq_bufs cq' = rq_bufs demo_rq + mset (take (1 - rest) [0x60])"
proof -
  have "1 \<le> ring_size demo_rq"
    by (simp add: demo_rq_def demo_sq_def)
  then show ?thesis
    using idpf_ctlq_post_rx_buffs_total [OF demo_rq_ok, of 1 "[0x60]" demo_dmas demo_hw]
    by (simp add: Let_def) blast
qed

text \<open>
  C6: receiving hands out the done descriptors in ring order and nothing else.  The number of
  messages returned is the length of the run of done descriptors from \<open>next_to_clean\<close> on, bounded
  by the request; message \<open>j\<close> is decoded from the \<open>j\<close>-th of these slots and carries that slot's
  buffer when it has a payload.  The buffers handed to the caller are exactly those missing from the
  ring afterwards.  The result is -ENOMSG when nothing was done, -EBADMSG when one of the
  descriptors has its error flag set (the messages are handed out all the same), else 0.
\<close>

theorem idpf_ctlq_recv_order:
  assumes "rq_ok cq" and "0 < num" and "num \<le> ring_size cq" and "num \<le> length q"
    and "idpf_ctlq_recv (Some cq) num q = (r, cqo, i, q')"
  shows "\<exists>cq'. let D = rq_done cq (next_to_clean cq) num in
    cqo = Some cq' \<and> i = length D \<and> rq_ok cq' \<and> \<not> cq_lock cq' \<and>
    next_to_clean cq' = (next_to_clean cq + i) mod ring_size cq \<and>
    rq_handed cq D + rq_bufs cq' = rq_bufs cq \<and>
    r = (if D = [] then Some ENOMSG
         else if \<exists>s \<in> set D. d_flags (desc_ring cq ! s) AND IDPF_CTLQ_FLAG_ERR \<noteq> 0 then Some EBADMSG
         else ret_ok) \<and>
    (\<forall>j<i. q' ! j = ctlq_recv_msg (desc_ring cq ! (D ! j)) (bi cq ! (D ! j)) (q ! j))"
proof -
  let ?l = "cq\<lparr>cq_lock := True\<rparr>" and ?ntc = "next_to_clean cq"
  let ?D = "rq_done cq ?ntc num"
  have ok: "ctlq_idx_ok ?l" "?ntc < ring_size ?l" "num \<le> ring_size ?l"
    using assms(1,3) by (auto simp: rq_ok_def ctlq_idx_ok_def)
  obtain i' ntc' c q1 err where loop: "ctlq_recv_loop num 0 ?ntc ?l q ret_ok = (i', ntc', c, q1, err)"
    using prod_cases5 by blast
  have res: "r = (if i' = 0 then Some ENOMSG else err)" "i = i'" "q' = q1"
    "cqo = Some (c\<lparr>next_to_clean := ntc', cq_lock := False\<rparr>)"
    using assms(2,3,5) loop ok by (auto simp: idpf_ctlq_recv_def Let_def)
  have lock: "rq_done ?l ?ntc num = ?D" "rq_handed ?l = rq_handed cq" "rq_bufs ?l = rq_bufs cq"
    by (simp_all add: rq_done_def rq_handed_def rq_bufs_def fun_eq_iff)
  note spec = ctlq_recv_loop_spec [OF ok loop, unfolded lock, simplified]
  have "ctlq_idx_ok c" "next_to_post c = next_to_post cq"
    using spec same_config_idx [OF _ ok(1)] by (auto simp: same_config_def)
  then have "rq_ok (c\<lparr>next_to_clean := ntc', cq_lock := False\<rparr>)"
    using spec assms(1) ok(2) by (auto simp: rq_ok_def ctlq_idx_ok_def same_config_def)
  moreover have "rq_bufs (c\<lparr>next_to_clean := ntc', cq_lock := False\<rparr>) = rq_bufs c"
    by (simp add: rq_bufs_def)
  moreover have "\<forall>j < length ?D. q1 ! j = ctlq_recv_msg (desc_ring cq ! (?D ! j)) (bi cq ! (?D ! j)) (q ! j)"
    using ctlq_recv_loop_msgs [OF ok _ loop, unfolded lock] assms(4) by (simp add: Let_def)
  ultimately show ?thesis
    using res spec by (intro exI [of _ "c\<lparr>next_to_clean := ntc', cq_lock := False\<rparr>"]) (simp add: Let_def)
qed

theorem idpf_ctlq_recv_order_witness:
  "\<exists>r cq' q'. idpf_ctlq_recv (Some demo_rq) 1 [demo_msgs 0] = (r, Some cq', 1, q') \<and>
     r = Some EBADMSG \<and> m_payload (q' ! 0) = 0x50 \<and> m_vmvf_type (q' ! 0) = 2 \<and> rq_bufs cq' = {#}"
proof -
  obtain r cqo i q' where recv: "idpf_ctlq_recv (Some demo_rq) 1 [demo_msgs 0] = (r, cqo, i, q')"
    using prod_cases4 by blast
  have D: "rq_done demo_rq (next_to_clean demo_rq) 1 = [1]"
    by (simp add: rq_done_def demo_rq_def demo_sq_def ring_seg_def IDPF_CTLQ_FLAG_DD_def)
  have slot: "1 \<le> ring_size demo_rq" "desc_ring demo_rq ! 1 = zero_desc\<lparr>d_flags := 0x85, d_datalen := 8\<rparr>"
    "bi demo_rq ! 1 = 0x50" "rq_bufs demo_rq = {#0x50#}"
    by (simp_all add: demo_rq_def demo_sq_def rq_bufs_def)
  have m: "m_payload (ctlq_recv_msg (zero_desc\<lparr>d_flags := 0x85, d_datalen := 8\<rparr>) 0x50 x) = 0x50"
    "m_vmvf_type (ctlq_recv_msg (zero_desc\<lparr>d_flags := 0x85, d_datalen := 8\<rparr>) 0x50 x) = 2" for x
    by (simp_all add: ctlq_recv_msg_def zero_desc_def IDPF_CTLQ_FLAG_FTYPE_VM_def IDPF_CTLQ_FLAG_FTYPE_PF_def
        Let_def drop_bit_eq_div)
  have "rq_handed demo_rq [1] = {#0x50#}"
    using slot by (simp add: rq_handed_def zero_desc_def)
  then show ?thesis
    using idpf_ctlq_recv_order [OF demo_rq_ok _ _ _ recv] recv slot m
    unfolding D by (auto simp: Let_def zero_desc_def IDPF_CTLQ_FLAG_ERR_def)
qed

end
