(* ===== verification/Idpf_Controlq_Setup.thy ===== *)
theory Idpf_Controlq_Setup
  imports Idpf_Controlq_Recv
begin

text \<open>
  Creation and destruction of control queues: \<open>idpf_controlq_setup.c\<close>, the set-up half of
  \<open>idpf_controlq.c\<close>, and the DMA helpers of \<open>idpf_lib.c\<close> they call.

  The kernel's allocators are a parameter: the lists \<open>kscript\<close> and \<open>dscript\<close> of the world give the
  answers to the coming calls, \<open>NULL\<close> (or nothing left) being a failed one.  An answer that names
  an object still in use counts as a failure, so every script is a behaviour of an allocator that
  never hands out a live object.  The world keeps the live objects; freeing anything else (a double
  free, a wild pointer) raises \<open>bad_free\<close>.
\<close>

section \<open>Memory\<close>

record idpf_world =
  live :: "ptr set"
  dma_live :: "ptr set"
  kscript :: "ptr list"
  dscript :: "(ptr \<times> u64) list"
  bad_free :: bool
  dmas :: dma_store
  cqs :: "ptr \<Rightarrow> idpf_ctlq_info"
  hw :: idpf_hw

definition kcalloc :: "idpf_world \<Rightarrow> ptr \<times> idpf_world" where
  "kcalloc w = (case kscript w of [] \<Rightarrow> (NULL, w)
     | p # ps \<Rightarrow> if p \<noteq> NULL \<and> p \<notin> live w then (p, w\<lparr>kscript := ps, live := insert p (live w)\<rparr>)
                else (NULL, w\<lparr>kscript := ps\<rparr>))"

definition kfree :: "ptr \<Rightarrow> idpf_world \<Rightarrow> idpf_world" where
  "kfree p w = (if p = NULL then w
     else if p \<in> live w then w\<lparr>live := live w - {p}\<rparr> else w\<lparr>bad_free := True\<rparr>)"

definition dma_alloc_attrs :: "idpf_world \<Rightarrow> (ptr \<times> u64) \<times> idpf_world" where
  "dma_alloc_attrs w = (case dscript w of [] \<Rightarrow> ((NULL, 0), w)
     | (va, pa) # ps \<Rightarrow>
         if va \<noteq> NULL \<and> va \<notin> dma_live w
         then ((va, pa), w\<lparr>dscript := ps, dma_live := insert va (dma_live w)\<rparr>)
         else ((NULL, 0), w\<lparr>dscript := ps\<rparr>))"

definition dma_free_attrs :: "ptr \<Rightarrow> idpf_world \<Rightarrow> idpf_world" where
  "dma_free_attrs va w = (if va = NULL then w
     else if va \<in> dma_live w then w\<lparr>dma_live := dma_live w - {va}\<rparr> else w\<lparr>bad_free := True\<rparr>)"

text \<open>\<open>mem\<close> is the descriptor of the DMA area as it was; \<open>pa\<close> is only written on success.\<close>

definition idpf_alloc_dma_mem :: "idpf_world \<Rightarrow> idpf_dma_mem \<Rightarrow> u64 \<Rightarrow> idpf_dma_mem \<times> idpf_world" where
  "idpf_alloc_dma_mem w mem sz =
     (case dma_alloc_attrs w of ((va, pa), w') \<Rightarrow>
        (\<lparr>dma_va = va, dma_pa = (if va = NULL then dma_pa mem else pa),
          dma_size = (sz + 4095) AND NOT 4095\<rparr>, w'))"

definition zero_dma :: idpf_dma_mem where
  "zero_dma = \<lparr>dma_va = NULL, dma_pa = 0, dma_size = 0\<rparr>"

definition idpf_free_dma_mem :: "ptr \<Rightarrow> idpf_world \<Rightarrow> idpf_world" where
  "idpf_free_dma_mem p w = (dma_free_attrs (dma_va (dmas w p)) w)\<lparr>dmas := (dmas w)(p := zero_dma)\<rparr>"

section \<open>Ring resources\<close>

definition idpf_ctlq_alloc_desc_ring ::
  "idpf_world \<Rightarrow> idpf_ctlq_info \<Rightarrow> ret \<times> idpf_ctlq_info \<times> idpf_world" where
  "idpf_ctlq_alloc_desc_ring w cq =
     (case idpf_alloc_dma_mem w (desc_mem cq) (of_nat (ring_size cq * 32)) of (mem, w') \<Rightarrow>
        (if dma_va mem = NULL then Some ENOMEM else ret_ok,
         cq\<lparr>desc_mem := mem, desc_ring := replicate (ring_size cq) zero_desc\<rparr>, w'))"

text \<open>The allocation loop with \<open>k\<close> buffers to go; it returns whether it completed and its counter.\<close>

fun ctlq_alloc_bufs_loop ::
  "nat \<Rightarrow> nat \<Rightarrow> idpf_world \<Rightarrow> idpf_ctlq_info \<Rightarrow> bool \<times> nat \<times> idpf_ctlq_info \<times> idpf_world" where
  "ctlq_alloc_bufs_loop 0 i w cq = (True, i, cq, w)"
| "ctlq_alloc_bufs_loop (Suc k) i w cq =
     (case kcalloc w of (p, w1) \<Rightarrow>
        let cq = cq\<lparr>bi := (bi cq)[i := p]\<rparr> in
        if p = NULL then (False, i, cq, w1)
        else case idpf_alloc_dma_mem w1 zero_dma (of_nat (buf_size cq)) of (mem, w2) \<Rightarrow>
          let w3 = w2\<lparr>dmas := (dmas w2)(p := mem)\<rparr> in
          if dma_va mem = NULL then (False, i, cq, kfree p w3)
          else ctlq_alloc_bufs_loop k (i + 1) w3 cq)"

fun ctlq_free_list :: "ptr list \<Rightarrow> idpf_world \<Rightarrow> idpf_world" where
  "ctlq_free_list [] w = w"
| "ctlq_free_list (p # ps) w = ctlq_free_list ps (kfree p (idpf_free_dma_mem p w))"

definition idpf_ctlq_alloc_bufs ::
  "idpf_world \<Rightarrow> idpf_ctlq_info \<Rightarrow> ret \<times> idpf_ctlq_info \<times> idpf_world" where
  "idpf_ctlq_alloc_bufs w cq =
     (if cq_type cq = IDPF_CTLQ_TYPE_MAILBOX_TX then (ret_ok, cq, w)
      else case kcalloc w of (a, w1) \<Rightarrow>
        let cq = cq\<lparr>bi_array := a, bi := replicate (ring_size cq) NULL\<rparr> in
        if a = NULL then (Some ENOMEM, cq, w1)
        else case ctlq_alloc_bufs_loop (ring_size cq - 1) 0 w1 cq of (ok, i, cq, w2) \<Rightarrow>
          if ok then (ret_ok, cq, w2)
          else (Some ENOMEM, cq, kfree a (ctlq_free_list (rev (take i (bi cq))) w2)))"

definition idpf_ctlq_free_desc_ring :: "idpf_ctlq_info \<Rightarrow> idpf_world \<Rightarrow> idpf_ctlq_info \<times> idpf_world" where
  "idpf_ctlq_free_desc_ring cq w = (cq\<lparr>desc_mem := zero_dma\<rparr>, dma_free_attrs (dma_va (desc_mem cq)) w)"

definition idpf_ctlq_free_bufs :: "idpf_ctlq_info \<Rightarrow> idpf_world \<Rightarrow> idpf_world" where
  "idpf_ctlq_free_bufs cq w =
     kfree (bi_array cq)
       (if cq_type cq = IDPF_CTLQ_TYPE_MAILBOX_RX
        then ctlq_free_list (filter (\<lambda>p. p \<noteq> NULL) (take (ring_size cq) (bi cq))) w else w)"

definition idpf_ctlq_dealloc_ring_res :: "idpf_ctlq_info \<Rightarrow> idpf_world \<Rightarrow> idpf_ctlq_info \<times> idpf_world" where
  "idpf_ctlq_dealloc_ring_res cq w = idpf_ctlq_free_desc_ring cq (idpf_ctlq_free_bufs cq w)"

definition idpf_ctlq_alloc_ring_res ::
  "idpf_world \<Rightarrow> idpf_ctlq_info \<Rightarrow> ret \<times> idpf_ctlq_info \<times> idpf_world" where
  "idpf_ctlq_alloc_ring_res w cq =
     (case idpf_ctlq_alloc_desc_ring w cq of
        (Some e, cq, w) \<Rightarrow> (Some e, cq, w)
      | (None, cq, w) \<Rightarrow>
          (case idpf_ctlq_alloc_bufs w cq of
             (Some e, cq, w) \<Rightarrow> (case idpf_ctlq_free_desc_ring cq w of (cq, w) \<Rightarrow> (Some e, cq, w))
           | (None, cq, w) \<Rightarrow> (ret_ok, cq, w)))"

section \<open>Queues\<close>

record idpf_ctlq_create_info =
  ci_type :: idpf_ctlq_type
  ci_id :: int
  ci_len :: nat
  ci_buf_size :: nat
  ci_reg :: idpf_ctlq_reg

definition idpf_ctlq_setup_regs :: "idpf_ctlq_info \<Rightarrow> idpf_ctlq_create_info \<Rightarrow> idpf_ctlq_info" where
  "idpf_ctlq_setup_regs cq ci = cq\<lparr>reg := \<lparr>reg_head = reg_head (ci_reg ci), reg_tail = reg_tail (ci_reg ci),
     reg_len = reg_len (ci_reg ci), reg_bah = reg_bah (ci_reg ci), reg_bal = reg_bal (ci_reg ci),
     reg_len_mask = reg_len_mask (ci_reg ci), reg_len_ena_mask = reg_len_ena_mask (ci_reg ci),
     reg_head_mask = reg_head_mask (ci_reg ci)\<rparr>\<rparr>"

definition idpf_ctlq_init_regs :: "idpf_hw \<Rightarrow> idpf_ctlq_info \<Rightarrow> bool \<Rightarrow> idpf_hw" where
  "idpf_ctlq_init_regs h cq is_rxq =
     (let h = (if is_rxq then wr32 h (reg_tail (reg cq)) (of_int (int (ring_size cq) - 1)) else h) in
      if q_id cq \<noteq> -1 then h
      else let h = wr32 h (reg_head (reg cq)) 0;
               h = wr32 h (reg_bal (reg cq)) (lower_32_bits (dma_pa (desc_mem cq)));
               h = wr32 h (reg_bah (reg cq)) (upper_32_bits (dma_pa (desc_mem cq)))
           in wr32 h (reg_len (reg cq)) (of_nat (ring_size cq) OR reg_len_ena_mask (reg cq)))"

definition ctlq_init_rx_desc :: "idpf_dma_mem \<Rightarrow> idpf_ctlq_desc \<Rightarrow> idpf_ctlq_desc" where
  "ctlq_init_rx_desc b d = d\<lparr>d_flags := IDPF_CTLQ_FLAG_BUF OR IDPF_CTLQ_FLAG_RD, d_opcode := 0,
     d_datalen := ucast (dma_size b), d_ret_val := 0, d_cookie_high := 0, d_cookie_low := 0,
     d_addr_high := upper_32_bits (dma_pa b), d_addr_low := lower_32_bits (dma_pa b),
     d_param0 := 0, d_param1 := 0\<rparr>"

definition idpf_ctlq_init_rxq_bufs :: "dma_store \<Rightarrow> idpf_ctlq_info \<Rightarrow> idpf_ctlq_info" where
  "idpf_ctlq_init_rxq_bufs ds cq =
     cq\<lparr>desc_ring := map (\<lambda>i. let d = desc_ring cq ! i in
          if bi cq ! i = NULL then d else ctlq_init_rx_desc (ds (bi cq ! i)) d) [0..<ring_size cq]\<rparr>"

definition zero_reg :: idpf_ctlq_reg where
  "zero_reg = \<lparr>reg_head = 0, reg_tail = 0, reg_len = 0, reg_bah = 0, reg_bal = 0, reg_len_mask = 0,
     reg_len_ena_mask = 0, reg_head_mask = 0\<rparr>"

text \<open>The zeroed structure with the fields that \<open>idpf_ctlq_add\<close> sets before allocating.\<close>

definition ctlq_new :: "idpf_ctlq_create_info \<Rightarrow> idpf_ctlq_info" where
  "ctlq_new ci = \<lparr>cq_type = ci_type ci, q_id = ci_id ci, cq_lock = False, next_to_use = 0,
     next_to_clean = 0, next_to_post = trunc16 (ci_len ci + 65535), desc_mem = zero_dma,
     desc_ring = [], bi_array = NULL, bi = [], buf_size = ci_buf_size ci, ring_size = ci_len ci,
     reg = zero_reg\<rparr>"

definition ctlq_publish ::
  "idpf_world \<Rightarrow> ptr \<Rightarrow> idpf_ctlq_info \<Rightarrow> idpf_ctlq_create_info \<Rightarrow> bool \<Rightarrow> idpf_world" where
  "ctlq_publish w p cq ci is_rxq =
     (let cq = idpf_ctlq_setup_regs cq ci;
          h = idpf_ctlq_init_regs (hw w) cq is_rxq
      in w\<lparr>cqs := (cqs w)(p := cq), hw := h\<lparr>cq_list_head := p # cq_list_head h\<rparr>\<rparr>)"

definition idpf_ctlq_add ::
  "idpf_world \<Rightarrow> idpf_ctlq_create_info \<Rightarrow> ret \<times> ptr \<times> idpf_world" where
  "idpf_ctlq_add w ci =
     (case kcalloc w of (p, w1) \<Rightarrow>
        if p = NULL then (Some ENOMEM, NULL, w1)
        else if ci_type ci = IDPF_CTLQ_TYPE_MAILBOX_RX then
          (case idpf_ctlq_alloc_ring_res w1 (ctlq_new ci) of
             (Some e, cq, w2) \<Rightarrow> (Some e, NULL, kfree p w2)
           | (None, cq, w2) \<Rightarrow>
               (ret_ok, p, ctlq_publish w2 p (idpf_ctlq_init_rxq_bufs (dmas w2) cq) ci True))
        else if ci_type ci = IDPF_CTLQ_TYPE_MAILBOX_TX then
          (case idpf_ctlq_alloc_ring_res w1 (ctlq_new ci) of
             (Some e, cq, w2) \<Rightarrow> (Some e, NULL, kfree p w2)
           | (None, cq, w2) \<Rightarrow>
               (case kcalloc w2 of (a, w3) \<Rightarrow>
                  let cq = cq\<lparr>bi_array := a, bi := replicate (ci_len ci) NULL\<rparr> in
                  if a = NULL then (Some ENOMEM, NULL, kfree p (snd (idpf_ctlq_dealloc_ring_res cq w3)))
                  else (ret_ok, p, ctlq_publish w3 p cq ci False)))
        else (Some EBADR, NULL, kfree p w1))"

definition ctlq_simics_clear :: "idpf_hw \<Rightarrow> idpf_ctlq_info \<Rightarrow> idpf_hw" where
  "ctlq_simics_clear h cq =
     (if IS_SIMICS_DEVICE (subsystem_device_id h)
      then wr32 (wr32 (wr32 (wr32 (wr32 h (reg_head (reg cq)) 0) (reg_tail (reg cq)) 0)
             (reg_len (reg cq)) 0) (reg_bal (reg cq)) 0) (reg_bah (reg cq)) 0
      else h)"

definition idpf_ctlq_shutdown :: "ptr \<Rightarrow> idpf_world \<Rightarrow> idpf_world" where
  "idpf_ctlq_shutdown p w =
     (let w1 = w\<lparr>hw := ctlq_simics_clear (hw w) (cqs w p)\<rparr> in
      case idpf_ctlq_dealloc_ring_res (cqs w1 p) w1 of (cq, w2) \<Rightarrow>
        w2\<lparr>cqs := (cqs w2)(p := cq\<lparr>ring_size := 0\<rparr>)\<rparr>)"

definition idpf_ctlq_remove :: "ptr \<Rightarrow> idpf_world \<Rightarrow> idpf_world" where
  "idpf_ctlq_remove p w =
     (let h = hw w; w1 = w\<lparr>hw := h\<lparr>cq_list_head := remove1 p (cq_list_head h)\<rparr>\<rparr>
      in kfree p (idpf_ctlq_shutdown p w1))"

fun ctlq_remove_all :: "ptr list \<Rightarrow> idpf_world \<Rightarrow> idpf_world" where
  "ctlq_remove_all [] w = w"
| "ctlq_remove_all (p # ps) w = ctlq_remove_all ps (idpf_ctlq_remove p w)"

fun ctlq_add_all :: "idpf_ctlq_create_info list \<Rightarrow> idpf_world \<Rightarrow> ret \<times> idpf_world" where
  "ctlq_add_all [] w = (ret_ok, w)"
| "ctlq_add_all (ci # cis) w =
     (case idpf_ctlq_add w ci of
        (None, p, w) \<Rightarrow> ctlq_add_all cis w
      | (Some e, p, w) \<Rightarrow> (Some e, w))"

definition idpf_ctlq_deinit :: "idpf_world \<Rightarrow> idpf_world" where
  "idpf_ctlq_deinit w = ctlq_remove_all (cq_list_head (hw w)) w"

definition idpf_ctlq_init :: "idpf_world \<Rightarrow> idpf_ctlq_create_info list \<Rightarrow> ret \<times> idpf_world" where
  "idpf_ctlq_init w q_info =
     (case ctlq_add_all q_info (w\<lparr>hw := (hw w)\<lparr>cq_list_head := []\<rparr>\<rparr>) of
        (None, w) \<Rightarrow> (ret_ok, w)
      | (Some e, w) \<Rightarrow> (Some e, idpf_ctlq_deinit w))"

end
