(* ===== verification/Idpf_Controlq_Leak.thy ===== *)
theory Idpf_Controlq_Leak
  imports Idpf_Controlq_Setup
begin

text \<open>
  Memory safety of control queue creation and destruction: whatever the allocators answer, a failed
  creation gives back everything it took, nothing is freed twice, and destroying the queues returns
  the heap to where it was.
\<close>

section \<open>Ownership\<close>

text \<open>\<open>owns w0 K D w\<close>: since \<open>w0\<close>, exactly the objects \<open>K\<close> and the DMA areas \<open>D\<close> were taken.\<close>

definition owns :: "idpf_world \<Rightarrow> ptr set \<Rightarrow> ptr set \<Rightarrow> idpf_world \<Rightarrow> bool" where
  "owns w0 K D w \<longleftrightarrow> live w = live w0 \<union> K \<and> K \<inter> live w0 = {} \<and>
     dma_live w = dma_live w0 \<union> D \<and> D \<inter> dma_live w0 = {} \<and> bad_free w = bad_free w0"

text \<open>Stores of objects that were live are not touched.\<close>

definition keeps :: "idpf_world \<Rightarrow> idpf_world \<Rightarrow> bool" where
  "keeps w w' \<longleftrightarrow> (\<forall>p \<in> live w. dmas w' p = dmas w p \<and> cqs w' p = cqs w p)"

definition area :: "idpf_world \<Rightarrow> ptr \<Rightarrow> ptr" where
  "area w p = dma_va (dmas w p)"

definition buf_list :: "idpf_world \<Rightarrow> ptr list \<Rightarrow> bool" where
  "buf_list w bs \<longleftrightarrow> distinct bs \<and> NULL \<notin> set bs \<and> distinct (map (area w) bs) \<and> NULL \<notin> set (map (area w) bs)"

lemma owns_refl [simp]: "owns w {} {} w"
  by (simp add: owns_def)

lemma keeps_refl [simp]: "keeps w w"
  by (simp add: keeps_def)

lemma owns_trans:
  assumes "owns w0 K D w" and "owns w K' D' w'"
  shows "owns w0 (K \<union> K') (D \<union> D') w'" "K \<inter> K' = {}" "D \<inter> D' = {}"
  using assms by (auto simp: owns_def)

lemma keeps_trans: "keeps w w1 \<Longrightarrow> live w \<subseteq> live w1 \<Longrightarrow> keeps w1 w2 \<Longrightarrow> keeps w w2"
  by (auto simp: keeps_def)

lemma owns_live: "owns w0 K D w \<Longrightarrow> live w0 \<subseteq> live w"
  by (auto simp: owns_def)

lemma kcallocE:
  assumes "kcalloc w = (p, w')"
  obtains (fail) "p = NULL" "owns w {} {} w'" "dmas w' = dmas w" "cqs w' = cqs w" "hw w' = hw w"
  | (ok) "p \<noteq> NULL" "owns w {p} {} w'" "dmas w' = dmas w" "cqs w' = cqs w" "hw w' = hw w"
  using assms by (auto simp: kcalloc_def owns_def split: list.splits if_splits)

lemma idpf_alloc_dma_memE:
  assumes "idpf_alloc_dma_mem w mem sz = (m, w')"
  obtains (fail) "dma_va m = NULL" "owns w {} {} w'" "dmas w' = dmas w" "cqs w' = cqs w" "hw w' = hw w"
  | (ok) "dma_va m \<noteq> NULL" "owns w {} {dma_va m} w'" "dmas w' = dmas w" "cqs w' = cqs w" "hw w' = hw w"
  using assms
  by (auto simp: idpf_alloc_dma_mem_def dma_alloc_attrs_def owns_def split: list.splits prod.splits if_splits)

lemma owns_upd [simp]:
  "owns w0 K D (w\<lparr>dmas := d\<rparr>) = owns w0 K D w" "owns (w\<lparr>dmas := d\<rparr>) K D w0 = owns w K D w0"
  "owns w0 K D (w\<lparr>cqs := c\<rparr>) = owns w0 K D w" "owns (w\<lparr>hw := h\<rparr>) K D w0 = owns w K D w0"
  "owns w0 K D (w\<lparr>hw := h\<rparr>) = owns w0 K D w"
  by (simp_all add: owns_def)

lemma kfree_owns:
  assumes "owns w0 (insert p K) D w" and "p \<notin> K" and "p \<noteq> NULL"
  shows "owns w0 K D (kfree p w)"
proof -
  have "p \<notin> live w0" "live w = live w0 \<union> insert p K"
    using assms(1) by (auto simp: owns_def)
  then have "kfree p w = w\<lparr>live := live w0 \<union> K\<rparr>"
    using assms(2,3) by (auto simp: kfree_def)
  then show ?thesis
    using assms(1) by (auto simp: owns_def)
qed

lemma dma_free_owns:
  assumes "owns w0 K (insert v D) w" and "v \<notin> D" and "v \<noteq> NULL"
  shows "owns w0 K D (dma_free_attrs v w)"
proof -
  have "v \<notin> dma_live w0" "dma_live w = dma_live w0 \<union> insert v D"
    using assms(1) by (auto simp: owns_def)
  then have "dma_free_attrs v w = w\<lparr>dma_live := dma_live w0 \<union> D\<rparr>"
    using assms(2,3) by (auto simp: dma_free_attrs_def)
  then show ?thesis
    using assms(1) by (auto simp: owns_def)
qed

lemma kfree_simps [simp]:
  "dmas (kfree p w) = dmas w" "cqs (kfree p w) = cqs w" "hw (kfree p w) = hw w"
  by (simp_all add: kfree_def)

lemma dma_free_simps [simp]:
  "dmas (dma_free_attrs p w) = dmas w" "cqs (dma_free_attrs p w) = cqs w" "hw (dma_free_attrs p w) = hw w"
  by (simp_all add: dma_free_attrs_def)

lemma kfree_NULL [simp]: "kfree NULL w = w"
  by (simp add: kfree_def)

lemma buf_list_Cons:
  "buf_list w (b # bs) \<longleftrightarrow> b \<noteq> NULL \<and> area w b \<noteq> NULL \<and> b \<notin> set bs \<and> area w b \<notin> area w ` set bs \<and> buf_list w bs"
  by (auto simp: buf_list_def)

lemma area_upd_other: "p \<notin> set bs \<Longrightarrow> map (area (w\<lparr>dmas := (dmas w)(p := m)\<rparr>)) bs = map (area w) bs"
  by (auto simp: area_def)

lemma free_one:
  assumes "owns w0 (insert p K) (insert (area w p) D) w" and "p \<notin> K" "p \<noteq> NULL" "area w p \<notin> D" "area w p \<noteq> NULL"
  shows "owns w0 K D (kfree p (idpf_free_dma_mem p w))"
proof -
  have "owns w0 (insert p K) D (idpf_free_dma_mem p w)"
    using dma_free_owns [OF assms(1,4,5)] by (simp add: idpf_free_dma_mem_def area_def)
  then show ?thesis
    using assms(2,3) by (rule kfree_owns)
qed

lemma ctlq_free_list_owns:
  assumes "buf_list w bs" and "owns w0 (K \<union> set bs) (D \<union> area w ` set bs) w"
    and "K \<inter> set bs = {}" and "D \<inter> area w ` set bs = {}"
  shows "owns w0 K D (ctlq_free_list bs w)"
  using assms
proof (induction bs arbitrary: w)
  case (Cons b bs)
  let ?w = "kfree b (idpf_free_dma_mem b w)"
  have b: "b \<noteq> NULL" "area w b \<noteq> NULL" "b \<notin> set bs" "area w b \<notin> area w ` set bs" "buf_list w bs"
    using Cons.prems(1) by (simp_all add: buf_list_Cons)
  have same: "\<And>x. x \<in> set bs \<Longrightarrow> area ?w x = area w x"
    using b(3) by (auto simp: area_def idpf_free_dma_mem_def)
  have area: "area ?w ` set bs = area w ` set bs" "buf_list ?w bs"
    using b(5) same by (auto simp: buf_list_def distinct_map inj_on_def)
  have "owns w0 (K \<union> set bs) (D \<union> area w ` set bs) ?w"
    using Cons.prems(2,3,4) b by (intro free_one) auto
  then have "owns w0 K D (ctlq_free_list bs ?w)"
    using Cons.IH [OF area(2)] area(1) Cons.prems(3,4) by auto
  then show ?case by simp
qed simp

lemma ctlq_free_list_stores:
  "cqs (ctlq_free_list bs w) = cqs w \<and> hw (ctlq_free_list bs w) = hw w \<and>
   (\<forall>p. p \<notin> set bs \<longrightarrow> dmas (ctlq_free_list bs w) p = dmas w p)"
  by (induction bs arbitrary: w) (auto simp: idpf_free_dma_mem_def)

lemma ctlq_free_list_keeps: "keeps w w2 \<Longrightarrow> set bs \<inter> live w = {} \<Longrightarrow> keeps w (ctlq_free_list bs w2)"
  using ctlq_free_list_stores [of bs w2] by (simp add: keeps_def) (metis disjoint_iff)

section \<open>The allocation loop\<close>

lemma ctlq_alloc_bufs_loop_owns:
  assumes "ctlq_alloc_bufs_loop k i w cq = (ok, i', cq', w')" and "i + k \<le> length (bi cq)"
  shows "\<exists>bs. i' = i + length bs \<and> take i' (bi cq') = take i (bi cq) @ bs \<and>
     (ok \<longrightarrow> length bs = k \<and> drop i' (bi cq') = drop i' (bi cq)) \<and>
     cq' = cq\<lparr>bi := bi cq'\<rparr> \<and> owns w (set bs) (area w' ` set bs) w' \<and> buf_list w' bs \<and>
     keeps w w' \<and> hw w' = hw w"
  using assms
proof (induction k arbitrary: i w cq)
  case 0
  then show ?case by (intro exI [of _ "[]"]) (auto simp: buf_list_def)
next
  case (Suc k)
  obtain p w1 where kc: "kcalloc w = (p, w1)" by fastforce
  obtain mem w2 where dm: "idpf_alloc_dma_mem w1 zero_dma (of_nat (buf_size cq)) = (mem, w2)" by fastforce
  let ?cq = "cq\<lparr>bi := (bi cq)[i := p]\<rparr>" and ?w3 = "w2\<lparr>dmas := (dmas w2)(p := mem)\<rparr>"
  show ?case
  proof (cases "p = NULL")
    case True
    with kc Suc.prems(1) have "ok = False" "i' = i" "cq' = ?cq" "w' = w1" by auto
    moreover have "owns w {} {} w1" "dmas w1 = dmas w" "cqs w1 = cqs w" "hw w1 = hw w"
      using kc True by (auto elim: kcallocE)
    ultimately show ?thesis
      by (intro exI [of _ "[]"]) (auto simp: buf_list_def keeps_def)
  next
    case False
    then have k1: "owns w {p} {} w1" "dmas w1 = dmas w" "cqs w1 = cqs w" "hw w1 = hw w"
      using kc by (auto elim: kcallocE)
    then have p: "p \<notin> live w" by (auto simp: owns_def)
    show ?thesis
    proof (cases "dma_va mem = NULL")
      case True
      with kc dm False Suc.prems(1) have "ok = False" "i' = i" "cq' = ?cq" "w' = kfree p ?w3"
        by auto
      moreover have m: "owns w1 {} {} w2" "dmas w2 = dmas w1" "cqs w2 = cqs w1" "hw w2 = hw w1"
        using dm True by (auto elim: idpf_alloc_dma_memE)
      moreover have "owns w {} {} (kfree p ?w3)"
        using owns_trans(1) [OF k1(1) m(1)] False by (intro kfree_owns) auto
      ultimately show ?thesis
        using k1 p by (intro exI [of _ "[]"]) (auto simp: buf_list_def keeps_def)
    next
      case va: False
      then have m: "owns w1 {} {dma_va mem} w2" "dmas w2 = dmas w1" "cqs w2 = cqs w1" "hw w2 = hw w1"
        using dm by (auto elim: idpf_alloc_dma_memE)
      have w3: "owns w {p} {dma_va mem} ?w3" "keeps w ?w3" "hw ?w3 = hw w"
        using owns_trans(1) [OF k1(1) m(1)] m k1 p by (auto simp: keeps_def)
      have "ctlq_alloc_bufs_loop k (i + 1) ?w3 ?cq = (ok, i', cq', w')"
        using Suc.prems(1) kc dm False va by simp
      then obtain bs where IH: "i' = i + 1 + length bs"
          "take i' (bi cq') = take (i + 1) (bi ?cq) @ bs"
          "ok \<longrightarrow> length bs = k \<and> drop i' (bi cq') = drop i' (bi ?cq)" "cq' = ?cq\<lparr>bi := bi cq'\<rparr>"
          "owns ?w3 (set bs) (area w' ` set bs) w'" "buf_list w' bs" "keeps ?w3 w'" "hw w' = hw ?w3"
        using Suc.IH [of "i + 1" ?w3 ?cq] Suc.prems(2) by auto
      have "p \<in> live ?w3" using w3(1) by (auto simp: owns_def)
      then have ap: "area w' p = dma_va mem" using IH(7) by (simp add: keeps_def area_def)
      have dj: "p \<notin> set bs" "dma_va mem \<notin> area w' ` set bs"
        using owns_trans(2,3) [OF w3(1) IH(5)] by auto
      have "owns w (set (p # bs)) (area w' ` set (p # bs)) w'"
        using owns_trans(1) [OF w3(1) IH(5)] ap by simp
      moreover have "buf_list w' (p # bs)"
        using dj ap IH(6) False va by (simp add: buf_list_Cons)
      moreover have "keeps w w'"
        using keeps_trans [OF w3(2) owns_live [OF w3(1)] IH(7)] .
      moreover have "take i' (bi cq') = take i (bi cq) @ p # bs"
        using IH(2) Suc.prems(2) by (simp add: take_Suc_conv_app_nth)
      moreover have "cq' = cq\<lparr>bi := bi cq'\<rparr>" using IH(4) by (cases cq; cases cq') simp
      moreover have "ok \<longrightarrow> length (p # bs) = Suc k \<and> drop i' (bi cq') = drop i' (bi cq)"
        using IH(1,3) by auto
      ultimately show ?thesis
        using IH(1,8) w3(3) by (intro exI [of _ "p # bs"]) auto
    qed
  qed
qed

section \<open>What a queue owns\<close>

definition cq_bufs :: "idpf_ctlq_info \<Rightarrow> ptr list" where
  "cq_bufs cq = (if cq_type cq = IDPF_CTLQ_TYPE_MAILBOX_RX
     then filter (\<lambda>p. p \<noteq> NULL) (take (ring_size cq) (bi cq)) else [])"

definition cq_objs :: "idpf_ctlq_info \<Rightarrow> ptr list" where
  "cq_objs cq = (if bi_array cq = NULL then [] else [bi_array cq]) @ cq_bufs cq"

definition cq_areas :: "idpf_world \<Rightarrow> idpf_ctlq_info \<Rightarrow> ptr list" where
  "cq_areas w cq = dma_va (desc_mem cq) # map (area w) (cq_bufs cq)"

definition cq_ok :: "idpf_world \<Rightarrow> idpf_ctlq_info \<Rightarrow> bool" where
  "cq_ok w cq \<longleftrightarrow> distinct (cq_objs cq) \<and> distinct (cq_areas w cq) \<and> NULL \<notin> set (cq_areas w cq)"

lemma cq_bufs_not_NULL: "NULL \<notin> set (cq_bufs cq)"
  by (simp add: cq_bufs_def)

lemma cq_ok_buf_list: "cq_ok w cq \<Longrightarrow> buf_list w (cq_bufs cq)"
  using cq_bufs_not_NULL by (auto simp: cq_ok_def buf_list_def cq_objs_def cq_areas_def)

lemma idpf_ctlq_free_bufs_eq: "idpf_ctlq_free_bufs cq w = kfree (bi_array cq) (ctlq_free_list (cq_bufs cq) w)"
  by (simp add: idpf_ctlq_free_bufs_def cq_bufs_def)

lemma idpf_ctlq_free_bufs_owns:
  assumes "cq_ok w cq" and "owns w0 (K \<union> set (cq_objs cq)) (D \<union> set (cq_areas w cq)) w"
    and "K \<inter> set (cq_objs cq) = {}" and "D \<inter> set (cq_areas w cq) = {}"
  shows "owns w0 K (insert (dma_va (desc_mem cq)) D) (idpf_ctlq_free_bufs cq w)"
proof -
  let ?a = "if bi_array cq = NULL then {} else {bi_array cq}" and ?d = "dma_va (desc_mem cq)"
  have "owns w0 (K \<union> ?a) (insert ?d D) (ctlq_free_list (cq_bufs cq) w)"
  proof (rule ctlq_free_list_owns [OF cq_ok_buf_list [OF assms(1)]])
    show "owns w0 (K \<union> ?a \<union> set (cq_bufs cq)) (insert ?d D \<union> area w ` set (cq_bufs cq)) w"
      using assms(2) by (auto simp: cq_objs_def cq_areas_def Un_ac insert_commute split: if_splits)
  qed (use assms(1,3,4) in \<open>auto simp: cq_ok_def cq_objs_def cq_areas_def\<close>)
  then show ?thesis
    using assms(3) by (auto simp: idpf_ctlq_free_bufs_eq cq_objs_def intro: kfree_owns split: if_splits)
qed

lemma idpf_ctlq_free_bufs_stores:
  "cqs (idpf_ctlq_free_bufs cq w) = cqs w" "hw (idpf_ctlq_free_bufs cq w) = hw w"
  "p \<notin> set (cq_bufs cq) \<Longrightarrow> dmas (idpf_ctlq_free_bufs cq w) p = dmas w p"
  by (simp_all add: idpf_ctlq_free_bufs_eq ctlq_free_list_stores)

lemma idpf_ctlq_dealloc_ring_res_owns:
  assumes "cq_ok w cq" and "owns w0 (K \<union> set (cq_objs cq)) (D \<union> set (cq_areas w cq)) w"
    and "K \<inter> set (cq_objs cq) = {}" and "D \<inter> set (cq_areas w cq) = {}"
  shows "owns w0 K D (snd (idpf_ctlq_dealloc_ring_res cq w))"
proof -
  have "dma_va (desc_mem cq) \<notin> D" "dma_va (desc_mem cq) \<noteq> NULL"
    using assms(1,4) by (auto simp: cq_areas_def cq_ok_def)
  then show ?thesis
    using idpf_ctlq_free_bufs_owns [OF assms]
    by (simp add: idpf_ctlq_dealloc_ring_res_def idpf_ctlq_free_desc_ring_def dma_free_owns)
qed

lemma idpf_ctlq_dealloc_ring_res_stores:
  "fst (idpf_ctlq_dealloc_ring_res cq w) = cq\<lparr>desc_mem := zero_dma\<rparr>"
  "cqs (snd (idpf_ctlq_dealloc_ring_res cq w)) = cqs w" "hw (snd (idpf_ctlq_dealloc_ring_res cq w)) = hw w"
  "p \<notin> set (cq_bufs cq) \<Longrightarrow> dmas (snd (idpf_ctlq_dealloc_ring_res cq w)) p = dmas w p"
  by (simp_all add: idpf_ctlq_dealloc_ring_res_def idpf_ctlq_free_desc_ring_def idpf_ctlq_free_bufs_stores)

section \<open>Allocation of the ring resources\<close>

lemma idpf_ctlq_alloc_bufs_tx:
  "cq_type cq = IDPF_CTLQ_TYPE_MAILBOX_TX \<Longrightarrow> idpf_ctlq_alloc_bufs w cq = (ret_ok, cq, w)"
  by (simp add: idpf_ctlq_alloc_bufs_def)

lemma filter_not_NULL_app:
  "NULL \<notin> set bs \<Longrightarrow> filter (\<lambda>p. p \<noteq> NULL) (bs @ replicate n NULL) = bs"
  by (induction bs) auto

lemma idpf_ctlq_alloc_bufs_rx:
  assumes "cq_type cq = IDPF_CTLQ_TYPE_MAILBOX_RX" and "idpf_ctlq_alloc_bufs w cq = (r, cq', w')"
  shows "\<exists>bs. keeps w w' \<and> hw w' = hw w \<and> desc_mem cq' = desc_mem cq \<and> cq_type cq' = cq_type cq \<and>
    ring_size cq' = ring_size cq \<and> r \<in> {None, Some ENOMEM} \<and> (if r = None
     then bi_array cq' \<noteq> NULL \<and> bi_array cq' \<notin> set bs \<and> cq_bufs cq' = bs \<and> buf_list w' bs \<and>
          owns w (insert (bi_array cq') (set bs)) (area w' ` set bs) w'
     else owns w {} {} w')"
proof -
  obtain a w1 where kc: "kcalloc w = (a, w1)" by fastforce
  let ?n = "ring_size cq"
  let ?cq = "cq\<lparr>bi_array := a, bi := replicate ?n NULL\<rparr>"
  obtain ok i cq2 w2 where lp: "ctlq_alloc_bufs_loop (?n - 1) 0 w1 ?cq = (ok, i, cq2, w2)"
    by (metis prod_cases4)
  show ?thesis
  proof (cases "a = NULL")
    case True
    then have "owns w {} {} w1" "dmas w1 = dmas w" "cqs w1 = cqs w" "hw w1 = hw w"
      using kc by (auto elim: kcallocE)
    then show ?thesis
      using True kc assms by (auto simp: idpf_ctlq_alloc_bufs_def keeps_def)
  next
    case False
    then have k1: "owns w {a} {} w1" "keeps w w1" "hw w1 = hw w"
      using kc by (auto elim: kcallocE simp: keeps_def)
    obtain bs where bs: "i = length bs" "take i (bi cq2) = bs"
        "ok \<longrightarrow> length bs = ?n - 1 \<and> drop i (bi cq2) = drop i (replicate ?n NULL)" "cq2 = ?cq\<lparr>bi := bi cq2\<rparr>"
        "owns w1 (set bs) (area w2 ` set bs) w2" "buf_list w2 bs" "keeps w1 w2" "hw w2 = hw w1"
      by (rule exE [OF ctlq_alloc_bufs_loop_owns [OF lp]], simp, elim conjE, rule that) auto
    have o: "owns w (insert a (set bs)) (area w2 ` set bs) w2" "a \<notin> set bs"
      using owns_trans [OF k1(1) bs(5)] by simp_all
    have f: "cq_type cq2 = cq_type cq" "ring_size cq2 = ?n" "bi_array cq2 = a" "desc_mem cq2 = desc_mem cq"
      by (subst bs(4), simp)+
    have kp: "keeps w w2" using keeps_trans [OF k1(2) owns_live [OF k1(1)] bs(7)] .
    show ?thesis
    proof (cases ok)
      case True
      have res: "r = None" "cq' = cq2" "w' = w2"
        using assms kc False lp True by (simp_all add: idpf_ctlq_alloc_bufs_def)
      have "bi cq2 = bs @ replicate (?n - length bs) NULL"
        using bs(1,2,3) True by (metis append_take_drop_id drop_replicate)
      then have "cq_bufs cq2 = bs"
        using bs(6) assms(1) f(1,2) bs(3) True
        by (simp add: cq_bufs_def filter_not_NULL_app [simplified] buf_list_def)
      then show ?thesis
        using res o f kp bs(6,8) k1(3) False by auto
    next
      case nok: False
      have res: "r = Some ENOMEM" "cq' = cq2" "w' = kfree a (ctlq_free_list (rev bs) w2)"
        using assms kc False lp nok bs(2) by (simp_all add: idpf_ctlq_alloc_bufs_def)
      have "owns w {a} {} (ctlq_free_list (rev bs) w2)"
        using o bs(6) by (intro ctlq_free_list_owns) (simp_all add: buf_list_def rev_map [symmetric])
      then have "owns w {} {} w'"
        unfolding res(3) using False by (intro kfree_owns) auto
      moreover have "keeps w w'"
        using ctlq_free_list_keeps [OF kp, of "rev bs"] o(1) unfolding res(3)
        by (auto simp: keeps_def owns_def)
      ultimately show ?thesis
        using res f bs(8) k1(3) by (simp add: ctlq_free_list_stores)
    qed
  qed
qed

lemma idpf_ctlq_alloc_ring_res_owns:
  assumes "idpf_ctlq_alloc_ring_res w cq = (r, cq', w')" and "bi_array cq = NULL"
    and "cq_type cq \<in> {IDPF_CTLQ_TYPE_MAILBOX_RX, IDPF_CTLQ_TYPE_MAILBOX_TX}"
  shows "keeps w w' \<and> hw w' = hw w \<and> r \<in> {None, Some ENOMEM} \<and>
    (if r = None then cq_ok w' cq' \<and> owns w (set (cq_objs cq')) (set (cq_areas w' cq')) w' \<and>
        cq_type cq' = cq_type cq \<and> ring_size cq' = ring_size cq \<and>
        (cq_type cq = IDPF_CTLQ_TYPE_MAILBOX_RX \<longrightarrow> bi_array cq' \<noteq> NULL)
     else owns w {} {} w')"
proof -
  obtain mem w1 where dm: "idpf_alloc_dma_mem w (desc_mem cq) (of_nat (ring_size cq * 32)) = (mem, w1)"
    by fastforce
  let ?cq = "cq\<lparr>desc_mem := mem, desc_ring := replicate (ring_size cq) zero_desc\<rparr>"
  obtain r2 cq2 w2 where ab: "idpf_ctlq_alloc_bufs w1 ?cq = (r2, cq2, w2)" by (metis prod_cases3)
  show ?thesis
  proof (cases "dma_va mem = NULL")
    case True
    then have "owns w {} {} w1" "keeps w w1" "hw w1 = hw w"
      using dm by (auto elim: idpf_alloc_dma_memE simp: keeps_def)
    then show ?thesis
      using True assms(1) dm by (auto simp: idpf_ctlq_alloc_ring_res_def idpf_ctlq_alloc_desc_ring_def)
  next
    case False
    then have d: "owns w {} {dma_va mem} w1" "keeps w w1" "hw w1 = hw w"
      using dm by (auto elim: idpf_alloc_dma_memE simp: keeps_def)
    have run: "idpf_ctlq_alloc_ring_res w cq = (if r2 = None then (None, cq2, w2)
        else (r2, cq2\<lparr>desc_mem := zero_dma\<rparr>, dma_free_attrs (dma_va (desc_mem cq2)) w2))"
      using dm False ab
      by (auto simp: idpf_ctlq_alloc_ring_res_def idpf_ctlq_alloc_desc_ring_def
          idpf_ctlq_free_desc_ring_def split: option.splits)
    show ?thesis
    proof (cases "cq_type cq = IDPF_CTLQ_TYPE_MAILBOX_TX")
      case True
      then have "r = None" "cq' = ?cq" "w' = w1"
        using assms(1) ab run by (simp_all add: idpf_ctlq_alloc_bufs_tx)
      then show ?thesis
        using d False True assms(2) by (simp add: cq_ok_def cq_objs_def cq_areas_def cq_bufs_def)
    next
      case rx: False
      then obtain bs where k: "keeps w1 w2" "hw w2 = hw w1" "desc_mem cq2 = mem" "cq_type cq2 = cq_type cq"
          "ring_size cq2 = ring_size cq" "r2 \<in> {None, Some ENOMEM}"
          and bs: "if r2 = None
            then bi_array cq2 \<noteq> NULL \<and> bi_array cq2 \<notin> set bs \<and> cq_bufs cq2 = bs \<and> buf_list w2 bs \<and>
              owns w1 (insert (bi_array cq2) (set bs)) (area w2 ` set bs) w2
            else owns w1 {} {} w2"
        using idpf_ctlq_alloc_bufs_rx [OF _ ab] assms(3) by auto
      have kp: "keeps w w2" using keeps_trans [OF d(2) owns_live [OF d(1)] k(1)] .
      show ?thesis
      proof (cases "r2 = None")
        case True
        then have o: "owns w1 (insert (bi_array cq2) (set bs)) (area w2 ` set bs) w2"
          and b: "bi_array cq2 \<noteq> NULL" "bi_array cq2 \<notin> set bs" "cq_bufs cq2 = bs" "buf_list w2 bs"
          using bs by simp_all
        have "owns w (set (cq_objs cq2)) (set (cq_areas w2 cq2)) w2"
          using owns_trans(1) [OF d(1) o] b(1,3) k(3) by (simp add: cq_objs_def cq_areas_def)
        moreover have "cq_ok w2 cq2"
          using owns_trans(3) [OF d(1) o] b k(3) False
          by (auto simp: cq_ok_def cq_objs_def cq_areas_def buf_list_def)
        ultimately show ?thesis
          using True run assms(1) kp k d(3) b(1) by simp
      next
        case err: False
        then have "owns w {} {dma_va mem} w2"
          using owns_trans(1) [OF d(1)] bs by force
        then have "owns w {} {} (dma_free_attrs (dma_va mem) w2)"
          using False by (intro dma_free_owns) auto
        then show ?thesis
          using err run assms(1) kp k d(3) by (auto simp: keeps_def)
      qed
    qed
  qed
qed

section \<open>Adding a queue\<close>

lemmas cq_field_defs = cq_ok_def cq_objs_def cq_areas_def cq_bufs_def

lemma idpf_ctlq_init_rxq_bufs_fields:
  "cq_type (idpf_ctlq_init_rxq_bufs ds cq) = cq_type cq" "ring_size (idpf_ctlq_init_rxq_bufs ds cq) = ring_size cq"
  "bi_array (idpf_ctlq_init_rxq_bufs ds cq) = bi_array cq" "bi (idpf_ctlq_init_rxq_bufs ds cq) = bi cq"
  "desc_mem (idpf_ctlq_init_rxq_bufs ds cq) = desc_mem cq"
  by (simp_all add: idpf_ctlq_init_rxq_bufs_def)

lemma ctlq_publish_fields:
  assumes "ctlq_publish w p cq ci rx = w'"
  shows "live w' = live w" "dma_live w' = dma_live w" "bad_free w' = bad_free w" "dmas w' = dmas w"
    "q \<noteq> p \<Longrightarrow> cqs w' q = cqs w q" "cq_list_head (hw w') = p # cq_list_head (hw w)"
    "cq_objs (cqs w' p) = cq_objs cq" "cq_areas w' (cqs w' p) = cq_areas w cq"
    "cq_type (cqs w' p) = cq_type cq" "ring_size (cqs w' p) = ring_size cq" "bi_array (cqs w' p) = bi_array cq"
proof -
  have "cq_list_head (idpf_ctlq_init_regs h c rx) = cq_list_head h" for h c
    by (simp add: idpf_ctlq_init_regs_def wr32_def Let_def)
  then show "cq_list_head (hw w') = p # cq_list_head (hw w)"
    using assms by (auto simp: ctlq_publish_def Let_def)
qed (use assms in \<open>auto simp: ctlq_publish_def Let_def idpf_ctlq_setup_regs_def cq_objs_def cq_areas_def
       cq_bufs_def area_def\<close>)

definition added :: "idpf_world \<Rightarrow> idpf_ctlq_create_info \<Rightarrow> ptr \<Rightarrow> idpf_world \<Rightarrow> bool" where
  "added w ci p w' \<longleftrightarrow> p \<noteq> NULL \<and> p \<notin> set (cq_objs (cqs w' p)) \<and> cq_ok w' (cqs w' p) \<and>
     owns w (insert p (set (cq_objs (cqs w' p)))) (set (cq_areas w' (cqs w' p))) w' \<and>
     keeps w w' \<and> cq_list_head (hw w') = p # cq_list_head (hw w) \<and>
     cq_type (cqs w' p) = ci_type ci \<and> ring_size (cqs w' p) = ci_len ci \<and> bi_array (cqs w' p) \<noteq> NULL"

lemma added_publish:
  assumes "p \<noteq> NULL" and "p \<notin> live w" and "owns w (insert p (set (cq_objs cq))) (set (cq_areas w2 cq)) w2"
    and "p \<notin> set (cq_objs cq)" and "cq_ok w2 cq" and "keeps w w2" and "hw w2 = hw w"
    and "cq_type cq = ci_type ci" "ring_size cq = ci_len ci" "bi_array cq \<noteq> NULL"
  shows "added w ci p (ctlq_publish w2 p cq ci rx)"
  using assms ctlq_publish_fields [where w = w2 and p = p and cq = cq and ci = ci and rx = rx, OF refl]
  unfolding added_def cq_ok_def owns_def keeps_def by fastforce

lemma ctlq_new_fields [simp]:
  "cq_type (ctlq_new ci) = ci_type ci" "ring_size (ctlq_new ci) = ci_len ci" "bi_array (ctlq_new ci) = NULL"
  by (simp_all add: ctlq_new_def)

lemma cq_init_rxq_bufs_owned:
  "cq_objs (idpf_ctlq_init_rxq_bufs ds cq) = cq_objs cq" "cq_areas w (idpf_ctlq_init_rxq_bufs ds cq) = cq_areas w cq"
  "cq_ok w (idpf_ctlq_init_rxq_bufs ds cq) = cq_ok w cq"
  by (simp_all add: cq_field_defs idpf_ctlq_init_rxq_bufs_fields)

lemma cq_tx_array:
  assumes "cq_type cq = IDPF_CTLQ_TYPE_MAILBOX_TX" and "cq' = cq\<lparr>bi_array := a, bi := b\<rparr>"
  shows "cq_objs cq' = (if a = NULL then [] else [a])" "cq_areas w cq' = [dma_va (desc_mem cq)]"
    "cq_ok w cq' \<longleftrightarrow> dma_va (desc_mem cq) \<noteq> NULL" "cq_areas w cq = [dma_va (desc_mem cq)]"
  using assms by (auto simp: cq_field_defs)

lemma keeps_live: "keeps w w' \<Longrightarrow> q \<in> live w \<Longrightarrow> dmas w' q = dmas w q \<and> cqs w' q = cqs w q"
  by (simp add: keeps_def)

definition backed_out :: "idpf_world \<Rightarrow> idpf_world \<Rightarrow> bool" where
  "backed_out w w' \<longleftrightarrow> owns w {} {} w' \<and> keeps w w' \<and> hw w' = hw w"

lemma backed_out_kfree:
  assumes "owns w {p} {} w2" and "p \<noteq> NULL" and "keeps w w2" and "hw w2 = hw w"
  shows "backed_out w (kfree p w2)"
  using assms by (auto simp: backed_out_def keeps_def intro: kfree_owns)

lemma added_rx:
  assumes p: "owns w {p} {} w1" "p \<noteq> NULL" "keeps w w1" "hw w1 = hw w"
    and ty: "ci_type ci = IDPF_CTLQ_TYPE_MAILBOX_RX"
    and al: "idpf_ctlq_alloc_ring_res w1 (ctlq_new ci) = (None, cq, w2)"
  shows "added w ci p (ctlq_publish w2 p (idpf_ctlq_init_rxq_bufs (dmas w2) cq) ci True)"
proof -
  have k: "keeps w1 w2" "hw w2 = hw w1" "cq_ok w2 cq" "owns w1 (set (cq_objs cq)) (set (cq_areas w2 cq)) w2"
    "cq_type cq = ci_type ci" "ring_size cq = ci_len ci" "bi_array cq \<noteq> NULL"
    using idpf_ctlq_alloc_ring_res_owns [OF al] ty by auto
  have "p \<notin> live w" using p(1) by (auto simp: owns_def)
  then show ?thesis
    using owns_trans [OF p(1) k(4)] keeps_trans [OF p(3) owns_live [OF p(1)] k(1)] p(2,4) k
    by (intro added_publish) (simp_all add: cq_init_rxq_bufs_owned idpf_ctlq_init_rxq_bufs_fields)
qed

lemma added_tx:
  assumes p: "owns w {p} {} w1" "p \<noteq> NULL" "keeps w w1" "hw w1 = hw w"
    and ty: "ci_type ci = IDPF_CTLQ_TYPE_MAILBOX_TX"
    and al: "idpf_ctlq_alloc_ring_res w1 (ctlq_new ci) = (None, cq, w2)"
    and kc: "kcalloc w2 = (a, w3)" and cq': "cq' = cq\<lparr>bi_array := a, bi := b\<rparr>"
  shows "if a = NULL then backed_out w (kfree p (snd (idpf_ctlq_dealloc_ring_res cq' w3)))
    else added w ci p (ctlq_publish w3 p cq' ci False)"
proof -
  have k: "keeps w1 w2" "hw w2 = hw w1" "cq_ok w2 cq" "owns w1 (set (cq_objs cq)) (set (cq_areas w2 cq)) w2"
    "cq_type cq = IDPF_CTLQ_TYPE_MAILBOX_TX" "ring_size cq = ci_len ci"
    using idpf_ctlq_alloc_ring_res_owns [OF al] ty by auto
  have pw: "p \<notin> live w" using p(1) by (auto simp: owns_def)
  have "cq_objs cq = []" using al ty
    by (auto simp: idpf_ctlq_alloc_ring_res_def idpf_ctlq_alloc_desc_ring_def idpf_ctlq_alloc_bufs_tx
        cq_objs_def cq_bufs_def ctlq_new_def split: prod.splits option.splits if_splits)
  then have o: "owns w {p} {dma_va (desc_mem cq)} w2" "dma_va (desc_mem cq) \<noteq> NULL"
    using owns_trans(1) [OF p(1) k(4)] k(3,5) by (simp_all add: cq_field_defs)
  note tx = cq_tx_array [OF k(5) cq']
  have kp: "keeps w w2" using keeps_trans [OF p(3) owns_live [OF p(1)] k(1)] .
  show ?thesis
  proof (cases "a = NULL")
    case True
    then have w3: "owns w2 {} {} w3" "keeps w2 w3" "hw w3 = hw w2"
      using kc by (auto elim: kcallocE simp: keeps_def)
    have f: "owns w {p} {dma_va (desc_mem cq)} w3" "keeps w w3"
      using owns_trans(1) [OF o(1) w3(1)] keeps_trans [OF kp owns_live [OF o(1)] w3(2)] by simp_all
    have "owns w {p} {} (snd (idpf_ctlq_dealloc_ring_res cq' w3))"
      using f o(2) True tx by (intro idpf_ctlq_dealloc_ring_res_owns) simp_all
    moreover have "cq_bufs cq' = []" using k(5) cq' by (simp add: cq_bufs_def)
    ultimately have "backed_out w (kfree p (snd (idpf_ctlq_dealloc_ring_res cq' w3)))"
      using p(2,4) f(2) w3(3) k(2)
      by (intro backed_out_kfree) (simp_all add: keeps_def idpf_ctlq_dealloc_ring_res_stores)
    with True show ?thesis by simp
  next
    case False
    then have w3: "owns w2 {a} {} w3" "keeps w2 w3" "hw w3 = hw w2"
      using kc by (auto elim: kcallocE simp: keeps_def)
    have f: "owns w {p, a} {dma_va (desc_mem cq)} w3" "p \<noteq> a" "keeps w w3"
      using owns_trans [OF o(1) w3(1)] keeps_trans [OF kp owns_live [OF o(1)] w3(2)]
      by (simp_all add: insert_commute)
    have "added w ci p (ctlq_publish w3 p cq' ci False)"
      by (rule added_publish) (use pw p k f w3 False tx o(2) ty cq' in simp_all)
    with False show ?thesis by simp
  qed
qed

lemma ctlq_alloc_fail:
  assumes p: "owns w {p} {} w1" "p \<noteq> NULL" "keeps w w1" "hw w1 = hw w"
    and al: "idpf_ctlq_alloc_ring_res w1 (ctlq_new ci) = (Some e, cq, w2)"
    and ty: "ci_type ci \<in> {IDPF_CTLQ_TYPE_MAILBOX_RX, IDPF_CTLQ_TYPE_MAILBOX_TX}"
  shows "backed_out w (kfree p w2)" "e = ENOMEM"
proof -
  have k: "keeps w1 w2" "hw w2 = hw w1" "owns w1 {} {} w2" "e = ENOMEM"
    using idpf_ctlq_alloc_ring_res_owns [OF al] ty by auto
  then show "e = ENOMEM" by simp
  show "backed_out w (kfree p w2)"
    using owns_trans(1) [OF p(1) k(3)] keeps_trans [OF p(3) owns_live [OF p(1)] k(1)] p(2,4) k(2)
    by (intro backed_out_kfree) simp_all
qed

lemma idpf_ctlq_add_cases:
  assumes "idpf_ctlq_add w ci = (r, q, w')"
  shows "(if r = None then added w ci q w' else backed_out w w') \<and> r \<in> {None, Some ENOMEM, Some EBADR}"
proof -
  obtain p w1 where kc: "kcalloc w = (p, w1)" by fastforce
  obtain r2 cq w2 where al: "idpf_ctlq_alloc_ring_res w1 (ctlq_new ci) = (r2, cq, w2)" by (metis prod_cases3)
  obtain a w3 where kc2: "kcalloc w2 = (a, w3)" by fastforce
  consider "p = NULL" | (bad) "p \<noteq> NULL" "ci_type ci \<notin> {IDPF_CTLQ_TYPE_MAILBOX_RX, IDPF_CTLQ_TYPE_MAILBOX_TX}"
    | (rx) "p \<noteq> NULL" "ci_type ci = IDPF_CTLQ_TYPE_MAILBOX_RX" | (tx) "p \<noteq> NULL" "ci_type ci = IDPF_CTLQ_TYPE_MAILBOX_TX"
    by auto
  then show ?thesis
  proof cases
    case 1
    then have "backed_out w w1"
      using kc by (auto elim: kcallocE simp: keeps_def backed_out_def)
    then show ?thesis using 1 kc assms by (auto simp: idpf_ctlq_add_def)
  next
    case bad
    then have "owns w {p} {} w1" "keeps w w1" "hw w1 = hw w"
      using kc by (auto elim: kcallocE simp: keeps_def)
    then have "backed_out w (kfree p w1)" using bad(1) by (intro backed_out_kfree)
    then show ?thesis using bad kc assms by (auto simp: idpf_ctlq_add_def)
  next
    case rx
    then have p: "owns w {p} {} w1" "p \<noteq> NULL" "keeps w w1" "hw w1 = hw w"
      using kc by (auto elim: kcallocE simp: keeps_def)
    show ?thesis
    proof (cases r2)
      case None
      with added_rx [OF p rx(2)] al rx kc assms show ?thesis by (auto simp: idpf_ctlq_add_def)
    next
      case (Some e)
      have "backed_out w (kfree p w2)" "e = ENOMEM"
        using ctlq_alloc_fail [OF p al [unfolded Some]] rx by auto
      with Some al rx kc assms show ?thesis by (auto simp: idpf_ctlq_add_def)
    qed
  next
    case tx
    then have p: "owns w {p} {} w1" "p \<noteq> NULL" "keeps w w1" "hw w1 = hw w"
      using kc by (auto elim: kcallocE simp: keeps_def)
    show ?thesis
    proof (cases r2)
      case None
      with added_tx [OF p tx(2) _ kc2 refl] al tx kc kc2 assms show ?thesis
        by (cases "a = NULL") (auto simp: idpf_ctlq_add_def Let_def)
    next
      case (Some e)
      have "backed_out w (kfree p w2)" "e = ENOMEM"
        using ctlq_alloc_fail [OF p al [unfolded Some]] tx by auto
      with Some al tx kc assms show ?thesis by (auto simp: idpf_ctlq_add_def)
    qed
  qed
qed

section \<open>All queues of the list\<close>

definition held_objs :: "idpf_world \<Rightarrow> ptr list \<Rightarrow> ptr list" where
  "held_objs w ps = concat (map (\<lambda>p. p # cq_objs (cqs w p)) ps)"

definition held_areas :: "idpf_world \<Rightarrow> ptr list \<Rightarrow> ptr list" where
  "held_areas w ps = concat (map (\<lambda>p. cq_areas w (cqs w p)) ps)"

definition held :: "idpf_world \<Rightarrow> ptr list \<Rightarrow> idpf_world \<Rightarrow> bool" where
  "held w0 ps w \<longleftrightarrow> cq_list_head (hw w) = ps \<and> owns w0 (set (held_objs w ps)) (set (held_areas w ps)) w \<and>
     distinct (held_objs w ps) \<and> distinct (held_areas w ps) \<and> (\<forall>p \<in> set ps. p \<noteq> NULL \<and> cq_ok w (cqs w p))"

lemma held_Cons [simp]:
  "held_objs w (p # ps) = p # cq_objs (cqs w p) @ held_objs w ps"
  "held_areas w (p # ps) = cq_areas w (cqs w p) @ held_areas w ps"
  by (simp_all add: held_objs_def held_areas_def)

lemma held_Nil: "held w0 [] w \<longleftrightarrow> cq_list_head (hw w) = [] \<and> owns w0 {} {} w"
  by (simp add: held_def held_objs_def held_areas_def)

lemma cq_areas_cong:
  "(\<And>x. x \<in> set (cq_objs cq) \<Longrightarrow> dmas w' x = dmas w x) \<Longrightarrow> cq_areas w' cq = cq_areas w cq"
  by (auto simp: cq_areas_def cq_objs_def area_def)

lemma held_cong:
  assumes "\<And>x. x \<in> set (held_objs w ps) \<Longrightarrow> dmas w' x = dmas w x \<and> cqs w' x = cqs w x"
  shows "held_objs w' ps = held_objs w ps" "held_areas w' ps = held_areas w ps"
    "p \<in> set ps \<Longrightarrow> cqs w' p = cqs w p" "p \<in> set ps \<Longrightarrow> cq_ok w' (cqs w p) = cq_ok w (cqs w p)"
proof -
  have q: "cqs w' p = cqs w p \<and> cq_areas w' (cqs w p) = cq_areas w (cqs w p)" if "p \<in> set ps" for p
    using that assms by (intro conjI cq_areas_cong) (auto simp: held_objs_def)
  then show "p \<in> set ps \<Longrightarrow> cqs w' p = cqs w p" "p \<in> set ps \<Longrightarrow> cq_ok w' (cqs w p) = cq_ok w (cqs w p)"
    by (simp_all add: cq_ok_def)
  show "held_objs w' ps = held_objs w ps" "held_areas w' ps = held_areas w ps"
    using q by (auto simp: held_objs_def held_areas_def intro!: arg_cong [of _ _ concat])
qed

lemma held_live: "held w0 ps w \<Longrightarrow> set (held_objs w ps) \<subseteq> live w"
  by (auto simp: held_def owns_def)

lemma held_keeps:
  assumes "held w0 ps w" and "keeps w w'"
  shows "held_objs w' ps = held_objs w ps" "held_areas w' ps = held_areas w ps"
    "\<forall>p \<in> set ps. p \<noteq> NULL \<and> cq_ok w' (cqs w' p)" "map (cqs w') ps = map (cqs w) ps"
proof -
  have eq: "dmas w' x = dmas w x \<and> cqs w' x = cqs w x" if "x \<in> set (held_objs w ps)" for x
    using that held_live [OF assms(1)] assms(2) by (auto simp: keeps_def)
  note c = held_cong [of w ps w', OF eq]
  show "held_objs w' ps = held_objs w ps" "held_areas w' ps = held_areas w ps" using c(1,2) by simp_all
  show "\<forall>p \<in> set ps. p \<noteq> NULL \<and> cq_ok w' (cqs w' p)" using c(3,4) assms(1) by (auto simp: held_def)
  show "map (cqs w') ps = map (cqs w) ps" using c(3) by simp
qed

lemma held_backed_out: "held w0 ps w \<Longrightarrow> backed_out w w' \<Longrightarrow> held w0 ps w'"
  using owns_trans(1) [of w0 "set (held_objs w ps)" "set (held_areas w ps)" w "{}" "{}" w'] held_keeps [of w0 ps w w']
  by (simp add: held_def backed_out_def)

lemma held_added:
  assumes "held w0 ps w" and "added w ci p w'"
  shows "held w0 (p # ps) w'"
proof -
  have a: "p \<noteq> NULL" "p \<notin> set (cq_objs (cqs w' p))" "cq_ok w' (cqs w' p)"
      "owns w (insert p (set (cq_objs (cqs w' p)))) (set (cq_areas w' (cqs w' p))) w'"
      "keeps w w'" "cq_list_head (hw w') = p # ps"
    using assms by (simp_all add: added_def held_def)
  note k = held_keeps [OF assms(1) a(5)]
  have h: "owns w0 (set (held_objs w ps)) (set (held_areas w ps)) w" "distinct (held_objs w ps)" "distinct (held_areas w ps)"
    using assms(1) by (simp_all add: held_def)
  note t = owns_trans [OF h(1) a(4)]
  have "owns w0 (set (held_objs w' (p # ps))) (set (held_areas w' (p # ps))) w'"
    using t(1) k(1,2) by (simp add: Un_commute)
  moreover have "distinct (held_objs w' (p # ps))" "distinct (held_areas w' (p # ps))"
    using t(2,3) h(2,3) k(1,2) a(2,3) by (auto simp: cq_ok_def)
  ultimately show ?thesis
    using a k(3) by (simp add: held_def)
qed

lemma cq_areas_hw [simp]: "cq_areas (w\<lparr>hw := h\<rparr>) cq = cq_areas w cq" "cq_ok (w\<lparr>hw := h\<rparr>) cq = cq_ok w cq"
  using cq_areas_cong [of cq "w\<lparr>hw := h\<rparr>" w] by (simp_all add: cq_ok_def)

lemma ctlq_simics_clear_list [simp]: "cq_list_head (ctlq_simics_clear h cq) = cq_list_head h"
  by (simp add: ctlq_simics_clear_def wr32_def)

lemma idpf_ctlq_remove_held:
  assumes "held w0 (p # ps) w"
  shows "held w0 ps (idpf_ctlq_remove p w)"
proof -
  let ?cq = "cqs w p" and ?h = "hw w"
  let ?w1 = "w\<lparr>hw := ctlq_simics_clear (?h\<lparr>cq_list_head := ps\<rparr>) ?cq\<rparr>"
  let ?w2 = "snd (idpf_ctlq_dealloc_ring_res ?cq ?w1)"
  let ?w3 = "?w2\<lparr>cqs := (cqs ?w2)(p := ?cq\<lparr>desc_mem := zero_dma, ring_size := 0\<rparr>)\<rparr>"
  have h: "cq_list_head ?h = p # ps" "p \<noteq> NULL" "cq_ok w ?cq" "distinct (held_objs w (p # ps))" "distinct (held_areas w (p # ps))"
      "owns w0 (set (held_objs w (p # ps))) (set (held_areas w (p # ps))) w" "\<forall>q \<in> set ps. q \<noteq> NULL \<and> cq_ok w (cqs w q)"
    using assms by (simp_all add: held_def)
  have run: "idpf_ctlq_remove p w = kfree p ?w3"
    using h(1) idpf_ctlq_dealloc_ring_res_stores(1,2) [of ?cq ?w1]
    by (simp add: idpf_ctlq_remove_def idpf_ctlq_shutdown_def Let_def case_prod_beta)
  have "owns w0 (insert p (set (held_objs w ps))) (set (held_areas w ps)) ?w2"
    using h(3-6) by (intro idpf_ctlq_dealloc_ring_res_owns)
      (auto simp: Un_ac)
  then have own: "owns w0 (set (held_objs w ps)) (set (held_areas w ps)) (kfree p ?w3)"
    using h(2,4) by (intro kfree_owns) auto
  have eq: "dmas (kfree p ?w3) x = dmas w x \<and> cqs (kfree p ?w3) x = cqs w x" if "x \<in> set (held_objs w ps)" for x
  proof -
    have "x \<noteq> p" "x \<notin> set (cq_bufs ?cq)" using that h(4) by (auto simp: cq_objs_def)
    then show ?thesis by (simp add: idpf_ctlq_dealloc_ring_res_stores)
  qed
  note c = held_cong [of w ps "kfree p ?w3", OF eq]
  show ?thesis
    unfolding run using own c h(4,5,7) by (simp add: held_def idpf_ctlq_dealloc_ring_res_stores)
qed

lemma idpf_ctlq_deinit_held: "held w0 ps w \<Longrightarrow> held w0 [] (idpf_ctlq_deinit w)"
proof -
  have "held w0 ps w \<Longrightarrow> held w0 [] (ctlq_remove_all ps w)" for ps
    by (induction ps arbitrary: w) (simp_all add: idpf_ctlq_remove_held)
  then show "held w0 ps w \<Longrightarrow> held w0 [] (idpf_ctlq_deinit w)"
    by (simp add: idpf_ctlq_deinit_def held_def)
qed

lemma ctlq_add_all_held:
  assumes "held w0 ps w" and "ctlq_add_all cis w = (r, w')"
  shows "\<exists>qs. held w0 (qs @ ps) w' \<and> map (cqs w') ps = map (cqs w) ps \<and>
     (r = None \<longrightarrow> map (\<lambda>p. (cq_type (cqs w' p), ring_size (cqs w' p))) qs =
        rev (map (\<lambda>ci. (ci_type ci, ci_len ci)) cis)) \<and> r \<in> {None, Some ENOMEM, Some EBADR}"
  using assms
proof (induction cis arbitrary: ps w)
  case Nil
  then show ?case by (intro exI [of _ "[]"]) auto
next
  case (Cons ci cis)
  obtain r1 p w1 where ad: "idpf_ctlq_add w ci = (r1, p, w1)" by (metis prod_cases3)
  note c = idpf_ctlq_add_cases [OF ad]
  show ?case
  proof (cases r1)
    case None
    then have a: "added w ci p w1" using c by simp
    then have "held w0 (p # ps) w1" using Cons.prems(1) by (rule held_added [rotated])
    moreover have "ctlq_add_all cis w1 = (r, w')" using Cons.prems(2) ad None by simp
    ultimately obtain qs where qs: "held w0 (qs @ p # ps) w'" "map (cqs w') (p # ps) = map (cqs w1) (p # ps)"
        "r = None \<longrightarrow> map (\<lambda>p. (cq_type (cqs w' p), ring_size (cqs w' p))) qs =
          rev (map (\<lambda>ci. (ci_type ci, ci_len ci)) cis)" "r \<in> {None, Some ENOMEM, Some EBADR}"
      using Cons.IH [of "p # ps" w1] by auto
    have "map (cqs w1) ps = map (cqs w) ps"
      using a by (intro held_keeps(4) [OF Cons.prems(1)]) (simp add: added_def)
    then have "map (cqs w') ps = map (cqs w) ps" "cqs w' p = cqs w1 p" using qs(2) by simp_all
    moreover have "cq_type (cqs w1 p) = ci_type ci" "ring_size (cqs w1 p) = ci_len ci"
      using a by (simp_all add: added_def)
    ultimately show ?thesis
      using qs(1,3,4) by (intro exI [of _ "qs @ [p]"]) simp
  next
    case (Some e)
    then have b: "backed_out w w1" "r1 \<in> {None, Some ENOMEM, Some EBADR}" using c by simp_all
    moreover have "r = Some e" "w' = w1" using Cons.prems(2) ad Some by simp_all
    moreover have "map (cqs w1) ps = map (cqs w) ps"
      using b by (intro held_keeps(4) [OF Cons.prems(1)]) (simp add: backed_out_def)
    ultimately show ?thesis
      using held_backed_out [OF Cons.prems(1) b(1)] Some by (intro exI [of _ "[]"]) auto
  qed
qed

section \<open>The results\<close>

text \<open>
  C7. \<open>idpf_ctlq_add\<close> that fails, whichever allocation fails, gives back everything it took: the live
  objects, the DMA areas and the hardware state are those from before the call, no object is freed
  twice, and the other queues' data is untouched; the error is \<open>-ENOMEM\<close> or \<open>-EBADR\<close>.
\<close>

theorem idpf_ctlq_add_fail:
  assumes "idpf_ctlq_add w ci = (Some e, p, w')"
  shows "live w' = live w \<and> dma_live w' = dma_live w \<and> bad_free w' = bad_free w \<and> hw w' = hw w \<and>
    (\<forall>q \<in> live w. cqs w' q = cqs w q \<and> dmas w' q = dmas w q) \<and> e \<in> {ENOMEM, EBADR}"
  using idpf_ctlq_add_cases [OF assms] by (auto simp: backed_out_def owns_def keeps_def)

text \<open>The DMA allocator fails on the second buffer of a receive queue of three descriptors.\<close>

definition demo_ci :: "idpf_ctlq_type \<Rightarrow> idpf_ctlq_create_info" where
  "demo_ci t = \<lparr>ci_type = t, ci_id = -1, ci_len = 3, ci_buf_size = 4096, ci_reg = zero_reg\<rparr>"

definition demo_world :: "ptr list \<Rightarrow> (ptr \<times> u64) list \<Rightarrow> idpf_world" where
  "demo_world ks ds = \<lparr>live = {}, dma_live = {}, kscript = ks, dscript = ds, bad_free = False,
     dmas = (\<lambda>_. zero_dma), cqs = (\<lambda>_. ctlq_new (demo_ci IDPF_CTLQ_TYPE_MAILBOX_TX)), hw = demo_hw\<rparr>"

lemma setup_unroll:
  "ctlq_alloc_bufs_loop 2 i w cq = ctlq_alloc_bufs_loop (Suc (Suc 0)) i w cq"
  "replicate 3 x = [x, x, x]"
  by (simp_all only: numeral_2_eq_2 numeral_3_eq_3 replicate.simps)

lemmas setup_eval = setup_unroll idpf_ctlq_add_def idpf_ctlq_alloc_ring_res_def idpf_ctlq_alloc_desc_ring_def
  idpf_ctlq_alloc_bufs_def idpf_alloc_dma_mem_def dma_alloc_attrs_def kcalloc_def kfree_def
  idpf_free_dma_mem_def dma_free_attrs_def idpf_ctlq_free_desc_ring_def ctlq_new_def demo_ci_def
  demo_world_def zero_dma_def

theorem idpf_ctlq_add_fail_witness:
  "let (r, p, w') = idpf_ctlq_add (demo_world [1, 2, 3, 4] [(10, 0), (11, 0), (0, 0)])
                      (demo_ci IDPF_CTLQ_TYPE_MAILBOX_RX)
   in r = Some ENOMEM \<and> live w' = {} \<and> dma_live w' = {} \<and> \<not> bad_free w'"
proof -
  let ?w = "demo_world [1, 2, 3, 4] [(10, 0), (11, 0), (0, 0)]"
  obtain r p w' where run: "idpf_ctlq_add ?w (demo_ci IDPF_CTLQ_TYPE_MAILBOX_RX) = (r, p, w')"
    by (metis prod_cases3)
  have "fst (idpf_ctlq_add ?w (demo_ci IDPF_CTLQ_TYPE_MAILBOX_RX)) = Some ENOMEM"
    by (simp add: setup_eval)
  with run have r: "r = Some ENOMEM" by simp
  show ?thesis
    using idpf_ctlq_add_fail [OF run [unfolded r]] run r by (simp add: demo_world_def)
qed

text \<open>
  C8. \<open>idpf_ctlq_init\<close> is all or nothing: on an error no object and no DMA area it allocated is left
  and the queue list is empty; on success the list holds one queue per request, newest first and of
  the requested type and size, and \<open>idpf_ctlq_deinit\<close> then returns the heap to what it was.  Nothing is
  freed twice on any path.
\<close>

theorem idpf_ctlq_init_all_or_nothing:
  assumes "idpf_ctlq_init w q_info = (r, w')"
  shows "case r of
     Some e \<Rightarrow> e \<in> {ENOMEM, EBADR} \<and> cq_list_head (hw w') = [] \<and>
       live w' = live w \<and> dma_live w' = dma_live w \<and> bad_free w' = bad_free w
   | None \<Rightarrow>
       map (\<lambda>p. (cq_type (cqs w' p), ring_size (cqs w' p))) (cq_list_head (hw w')) =
         rev (map (\<lambda>ci. (ci_type ci, ci_len ci)) q_info) \<and>
       (let w'' = idpf_ctlq_deinit w' in cq_list_head (hw w'') = [] \<and>
          live w'' = live w \<and> dma_live w'' = dma_live w \<and> bad_free w'' = bad_free w)"
proof -
  let ?w = "w\<lparr>hw := (hw w)\<lparr>cq_list_head := []\<rparr>\<rparr>"
  obtain r1 w1 where ad: "ctlq_add_all q_info ?w = (r1, w1)" by fastforce
  have "held w [] ?w" by (simp add: held_Nil)
  from ctlq_add_all_held [OF this ad] obtain qs where qs: "held w qs w1"
      "r1 = None \<longrightarrow> map (\<lambda>p. (cq_type (cqs w1 p), ring_size (cqs w1 p))) qs =
         rev (map (\<lambda>ci. (ci_type ci, ci_len ci)) q_info)" "r1 \<in> {None, Some ENOMEM, Some EBADR}"
    by auto
  have d: "held w [] (idpf_ctlq_deinit w1)" using qs(1) by (rule idpf_ctlq_deinit_held)
  have l: "cq_list_head (hw w1) = qs" using qs(1) by (simp add: held_def)
  show ?thesis
  proof (cases r1)
    case None
    then have "r = None" "w' = w1" using assms ad by (simp_all add: idpf_ctlq_init_def)
    then show ?thesis using None qs(2) d l by (simp add: held_Nil owns_def Let_def)
  next
    case (Some e)
    then have "r = Some e" "w' = idpf_ctlq_deinit w1" using assms ad by (simp_all add: idpf_ctlq_init_def)
    then show ?thesis using Some qs(3) d by (auto simp: held_Nil owns_def)
  qed
qed

text \<open>A receive and a transmit queue are created and destroyed.\<close>

theorem idpf_ctlq_init_all_or_nothing_witness:
  "let (r, w') = idpf_ctlq_init (demo_world [1, 2, 3, 4, 5, 6] [(10, 0), (11, 0), (12, 0), (13, 0)])
                   [demo_ci IDPF_CTLQ_TYPE_MAILBOX_RX, demo_ci IDPF_CTLQ_TYPE_MAILBOX_TX];
       w'' = idpf_ctlq_deinit w'
   in r = None \<and> length (cq_list_head (hw w')) = 2 \<and> live w'' = {} \<and> dma_live w'' = {} \<and> \<not> bad_free w''"
proof -
  let ?w = "demo_world [1, 2, 3, 4, 5, 6] [(10, 0), (11, 0), (12, 0), (13, 0)]"
  let ?q = "[demo_ci IDPF_CTLQ_TYPE_MAILBOX_RX, demo_ci IDPF_CTLQ_TYPE_MAILBOX_TX]"
  obtain r w' where run: "idpf_ctlq_init ?w ?q = (r, w')" by fastforce
  have "fst (idpf_ctlq_init ?w ?q) = None"
    by (simp add: idpf_ctlq_init_def ctlq_publish_def setup_eval Let_def)
  with run have r: "r = None" by simp
  have "length (map (\<lambda>p. (cq_type (cqs w' p), ring_size (cqs w' p))) (cq_list_head (hw w'))) = 2"
    using idpf_ctlq_init_all_or_nothing [OF run] r by (simp del: length_map)
  then have "length (cq_list_head (hw w')) = 2" by simp
  then show ?thesis
    using idpf_ctlq_init_all_or_nothing [OF run] run r by (simp add: Let_def demo_world_def)
qed

end
