(* ===== verification/Idpf_Vc_Xn.thy ===== *)
theory Idpf_Vc_Xn
  imports Idpf_Controlq
begin

text \<open>
  Virtchnl transactions: \<open>idpf_vc_xn_*\<close> of \<open>idpf_virtchnl.c\<close> and their types in
  \<open>idpf_virtchnl.h\<close>.  A transaction manager hands out one of 255 slots to each request that waits
  for a reply; a reply finds its slot through a cookie made of the slot's index and a salt.

  Every function here is one critical section of the code (the slot's or the bitmap's spinlock is
  held), so the functions are the atomic steps of the interleavings in \<open>Idpf_Vc_Xn_Safety\<close>;
  \<open>idpf_vc_xn_exec\<close> and \<open>idpf_vc_xn_forward_reply\<close> compose them as the code does.
  Memory that a reply is copied into is byte addressed.  The callbacks of asynchronous requests are
  a parameter.  Log messages and \<open>WARN_ONCE\<close> have no effect on the state and are left out.
\<close>

section \<open>Data\<close>

datatype idpf_vc_xn_state =
    IDPF_VC_XN_IDLE | IDPF_VC_XN_WAITING | IDPF_VC_XN_COMPLETED_SUCCESS
  | IDPF_VC_XN_COMPLETED_FAILED | IDPF_VC_XN_SHUTDOWN | IDPF_VC_XN_ASYNC

record kvec =
  iov_base :: ptr
  iov_len :: nat

text \<open>\<open>completed\<close> is the counter of the kernel's completion object.\<close>

record idpf_vc_xn =
  completed :: nat
  xn_state :: idpf_vc_xn_state
  reply_sz :: nat
  reply :: kvec
  async_handler :: ptr
  vc_op :: u32
  xn_idx :: u8
  xn_salt :: u8

record idpf_vc_xn_manager =
  xn_ring :: "idpf_vc_xn list"
  free_xn_bm :: "bool list"
  mngr_salt :: u8
  mngr_active :: bool

record idpf_vc_xn_params =
  send_buf :: kvec
  recv_buf :: kvec
  is_async :: bool
  p_async_handler :: ptr
  p_vc_op :: u32

abbreviation IDPF_VC_XN_RING_LEN :: nat where
  "IDPF_VC_XN_RING_LEN \<equiv> 255"

type_synonym bytes = "u64 \<Rightarrow> u8"

section \<open>The kernel's completion object and memory copy\<close>

definition COMPLETE_ALL :: nat where
  "COMPLETE_ALL = 4294967295"

definition complete :: "nat \<Rightarrow> nat" where
  "complete n = (if n = COMPLETE_ALL then n else n + 1)"

text \<open>What a waiter that finds the counter positive leaves of it.\<close>

definition completion_take :: "nat \<Rightarrow> nat" where
  "completion_take n = (if n = COMPLETE_ALL then n else n - 1)"

definition memcpy :: "ptr \<Rightarrow> ptr \<Rightarrow> nat \<Rightarrow> bytes \<Rightarrow> bytes" where
  "memcpy d s n mem = (\<lambda>a. if unat (a - d) < n then mem (s + (a - d)) else mem a)"

section \<open>Slots\<close>

definition xn_update :: "idpf_vc_xn_manager \<Rightarrow> nat \<Rightarrow> (idpf_vc_xn \<Rightarrow> idpf_vc_xn) \<Rightarrow> idpf_vc_xn_manager" where
  "xn_update m i f = m\<lparr>xn_ring := (xn_ring m)[i := f (xn_ring m ! i)]\<rparr>"

definition idpf_vc_xn_release_bufs :: "idpf_vc_xn \<Rightarrow> idpf_vc_xn" where
  "idpf_vc_xn_release_bufs xn =
     (let xn = xn\<lparr>reply := \<lparr>iov_base = NULL, iov_len = 0\<rparr>\<rparr> in
      if xn_state xn \<noteq> IDPF_VC_XN_SHUTDOWN then xn\<lparr>xn_state := IDPF_VC_XN_IDLE\<rparr> else xn)"

definition idpf_init_vc_xn_completion :: "idpf_vc_xn_manager \<Rightarrow> idpf_vc_xn_manager" where
  "idpf_init_vc_xn_completion m = m\<lparr>xn_ring := map (\<lambda>xn. xn\<lparr>completed := 0\<rparr>) (xn_ring m)\<rparr>"

definition idpf_vc_xn_init :: "idpf_vc_xn_manager \<Rightarrow> idpf_vc_xn_manager" where
  "idpf_vc_xn_init m =
     (if mngr_active m then m
      else m\<lparr>xn_ring := map (\<lambda>i. (idpf_vc_xn_release_bufs
               ((xn_ring m ! i)\<lparr>xn_state := IDPF_VC_XN_IDLE, xn_idx := of_nat i\<rparr>))\<lparr>completed := 0\<rparr>)
               [0..<IDPF_VC_XN_RING_LEN],
             mngr_active := True, free_xn_bm := replicate IDPF_VC_XN_RING_LEN True\<rparr>)"

definition vc_xn_shutdown_bm :: "idpf_vc_xn_manager \<Rightarrow> idpf_vc_xn_manager" where
  "vc_xn_shutdown_bm m = m\<lparr>free_xn_bm := replicate IDPF_VC_XN_RING_LEN False\<rparr>"

definition vc_xn_shutdown_one :: "idpf_vc_xn_manager \<Rightarrow> nat \<Rightarrow> idpf_vc_xn_manager" where
  "vc_xn_shutdown_one m i = xn_update m i (\<lambda>xn.
     (idpf_vc_xn_release_bufs (xn\<lparr>xn_state := IDPF_VC_XN_SHUTDOWN\<rparr>))\<lparr>completed := COMPLETE_ALL\<rparr>)"

definition idpf_vc_xn_shutdown :: "idpf_vc_xn_manager \<Rightarrow> idpf_vc_xn_manager" where
  "idpf_vc_xn_shutdown m =
     (if \<not> mngr_active m then m
      else (foldl vc_xn_shutdown_one (vc_xn_shutdown_bm m) [0..<IDPF_VC_XN_RING_LEN])\<lparr>mngr_active := False\<rparr>)"

definition find_first_bit :: "bool list \<Rightarrow> nat" where
  "find_first_bit bm = length (takeWhile Not bm)"

definition idpf_vc_xn_pop_free :: "idpf_vc_xn_manager \<Rightarrow> nat option \<times> idpf_vc_xn_manager" where
  "idpf_vc_xn_pop_free m =
     (let free_idx = find_first_bit (free_xn_bm m) in
      if free_idx = IDPF_VC_XN_RING_LEN then (None, m)
      else (Some free_idx,
            (xn_update m free_idx (\<lambda>xn. xn\<lparr>xn_salt := mngr_salt m\<rparr>))
              \<lparr>free_xn_bm := (free_xn_bm m)[free_idx := False], mngr_salt := mngr_salt m + 1\<rparr>))"

definition idpf_vc_xn_push_free :: "idpf_vc_xn_manager \<Rightarrow> nat \<Rightarrow> idpf_vc_xn_manager" where
  "idpf_vc_xn_push_free m i =
     (let m = xn_update m i idpf_vc_xn_release_bufs in
      m\<lparr>free_xn_bm := (free_xn_bm m)[unat (xn_idx (xn_ring m ! i)) := True]\<rparr>)"

section \<open>Executing a transaction\<close>

text \<open>The first critical section of \<open>idpf_vc_xn_exec\<close>; \<open>Inl\<close> is the early return.\<close>

definition vc_xn_start ::
  "idpf_vc_xn_manager \<Rightarrow> nat \<Rightarrow> idpf_vc_xn_params \<Rightarrow> errno + idpf_vc_xn_manager" where
  "vc_xn_start m i params =
     (if xn_state (xn_ring m ! i) = IDPF_VC_XN_SHUTDOWN then Inl ENXIO
      else Inr (xn_update m i (\<lambda>xn. xn\<lparr>reply := recv_buf params, reply_sz := 0,
             xn_state := (if is_async params then IDPF_VC_XN_ASYNC else IDPF_VC_XN_WAITING),
             vc_op := p_vc_op params, async_handler := p_async_handler params\<rparr>)))"

text \<open>The condition of the \<open>WARN_ONCE\<close> in that section.\<close>

definition vc_xn_start_warns :: "idpf_vc_xn_manager \<Rightarrow> nat \<Rightarrow> bool" where
  "vc_xn_start_warns m i \<longleftrightarrow> xn_state (xn_ring m ! i) \<notin> {IDPF_VC_XN_SHUTDOWN, IDPF_VC_XN_IDLE}"

definition vc_xn_reinit :: "idpf_vc_xn_manager \<Rightarrow> nat \<Rightarrow> idpf_vc_xn_params \<Rightarrow> idpf_vc_xn_manager" where
  "vc_xn_reinit m i params =
     (if is_async params then m else xn_update m i (\<lambda>xn. xn\<lparr>completed := 0\<rparr>))"

definition vc_xn_cookie :: "idpf_vc_xn \<Rightarrow> u16" where
  "vc_xn_cookie xn = push_bit 8 (ucast (xn_salt xn)) OR ucast (xn_idx xn)"

text \<open>The last critical section: the final state decides the result and the slot is released.\<close>

definition vc_xn_finish :: "idpf_vc_xn_manager \<Rightarrow> nat \<Rightarrow> (errno + nat) \<times> idpf_vc_xn_manager" where
  "vc_xn_finish m i = (case xn_state (xn_ring m ! i) of
       IDPF_VC_XN_SHUTDOWN \<Rightarrow> (Inl ENXIO, m)
     | IDPF_VC_XN_WAITING \<Rightarrow> (Inl ETIME, idpf_vc_xn_push_free m i)
     | IDPF_VC_XN_COMPLETED_SUCCESS \<Rightarrow> (Inr (reply_sz (xn_ring m ! i)), idpf_vc_xn_push_free m i)
     | IDPF_VC_XN_COMPLETED_FAILED \<Rightarrow> (Inl EIO, idpf_vc_xn_push_free m i)
     | _ \<Rightarrow> (Inl EIO, idpf_vc_xn_push_free m i))"

text \<open>
  The whole function.  \<open>send\<close> is the call of \<open>idpf_send_mb_msg\<close> with the opcode, the buffer and the
  cookie; \<open>meanwhile\<close> is what the other threads do to the manager while this one waits.
\<close>

definition idpf_vc_xn_exec ::
  "(u32 \<Rightarrow> kvec \<Rightarrow> u16 \<Rightarrow> ret) \<Rightarrow> (nat \<Rightarrow> idpf_vc_xn_manager \<Rightarrow> idpf_vc_xn_manager)
   \<Rightarrow> idpf_vc_xn_manager \<Rightarrow> idpf_vc_xn_params \<Rightarrow> (errno + nat) \<times> idpf_vc_xn_manager" where
  "idpf_vc_xn_exec send meanwhile m params =
     (case idpf_vc_xn_pop_free m of
        (None, m) \<Rightarrow> (Inl ENOSPC, m)
      | (Some i, m) \<Rightarrow>
        (case vc_xn_start m i params of
           Inl e \<Rightarrow> (Inl e, m)
         | Inr m \<Rightarrow>
           let m = vc_xn_reinit m i params in
           (case send (p_vc_op params) (send_buf params) (vc_xn_cookie (xn_ring m ! i)) of
              Some e \<Rightarrow> (Inl e, idpf_vc_xn_push_free m i)
            | None \<Rightarrow> if is_async params then (Inr 0, m)
                      else vc_xn_finish (meanwhile i m) i)))"

section \<open>Replies\<close>

definition vc_msg_cookie :: "idpf_ctlq_msg \<Rightarrow> u16" where
  "vc_msg_cookie msg = ucast (m_ctx1 msg)"

definition idpf_vc_xn_forward_async ::
  "(ptr \<Rightarrow> idpf_vc_xn \<Rightarrow> idpf_ctlq_msg \<Rightarrow> ret) \<Rightarrow> idpf_vc_xn_manager \<Rightarrow> nat \<Rightarrow> idpf_ctlq_msg
   \<Rightarrow> ret \<times> idpf_vc_xn_manager" where
  "idpf_vc_xn_forward_async handler m i msg =
     (let xn = xn_ring m ! i in
      if m_chnl_opcode msg \<noteq> vc_op xn
      then (Some EINVAL, idpf_vc_xn_push_free (xn_update m i (\<lambda>xn. xn\<lparr>reply_sz := 0\<rparr>)) i)
      else if async_handler xn \<noteq> NULL
      then (handler (async_handler xn) xn msg, idpf_vc_xn_push_free m i)
      else if m_chnl_retval msg \<noteq> 0
      then (Some EINVAL, idpf_vc_xn_push_free (xn_update m i (\<lambda>xn. xn\<lparr>reply_sz := 0\<rparr>)) i)
      else (ret_ok, idpf_vc_xn_push_free m i))"

text \<open>
  A reply to a waiting transaction: the slot, the memory and the return code.
\<close>

definition vc_xn_deliver ::
  "dma_store \<Rightarrow> bytes \<Rightarrow> idpf_ctlq_msg \<Rightarrow> idpf_vc_xn \<Rightarrow> ret \<times> idpf_vc_xn \<times> bytes" where
  "vc_xn_deliver dmas mem msg xn =
     (if m_chnl_opcode msg \<noteq> vc_op xn \<or> m_chnl_retval msg \<noteq> 0
      then (Some EINVAL, xn\<lparr>reply_sz := 0, xn_state := IDPF_VC_XN_COMPLETED_FAILED\<rparr>, mem)
      else let payload_size = unat (m_data_len msg);
               payload = (if m_data_len msg \<noteq> 0 then dma_va (dmas (m_payload msg)) else NULL)
           in (ret_ok, xn\<lparr>reply_sz := payload_size, xn_state := IDPF_VC_XN_COMPLETED_SUCCESS\<rparr>,
               if iov_base (reply xn) \<noteq> NULL \<and> iov_len (reply xn) \<noteq> 0 \<and> payload_size \<noteq> 0
               then memcpy (iov_base (reply xn)) payload (min (iov_len (reply xn)) payload_size) mem
               else mem))"

text \<open>
  The critical section of \<open>idpf_vc_xn_forward_reply\<close>; the last component is the slot whose
  completion is signalled after the lock is dropped.
\<close>

definition vc_xn_reply_locked ::
  "(ptr \<Rightarrow> idpf_vc_xn \<Rightarrow> idpf_ctlq_msg \<Rightarrow> ret) \<Rightarrow> dma_store \<Rightarrow> idpf_vc_xn_manager \<Rightarrow> bytes \<Rightarrow> idpf_ctlq_msg
   \<Rightarrow> ret \<times> idpf_vc_xn_manager \<times> bytes \<times> nat option" where
  "vc_xn_reply_locked handler dmas m mem msg =
     (let msg_info = vc_msg_cookie msg; i = unat (msg_info AND 0xFF) in
      if i \<ge> IDPF_VC_XN_RING_LEN then (Some EINVAL, m, mem, None)
      else let xn = xn_ring m ! i; salt = drop_bit 8 (msg_info AND 0xFF00) in
        if ucast (xn_salt xn) \<noteq> salt then (Some EINVAL, m, mem, None)
        else (case xn_state xn of
            IDPF_VC_XN_WAITING \<Rightarrow>
              (case vc_xn_deliver dmas mem msg xn of (err, xn, mem) \<Rightarrow> (err, xn_update m i (\<lambda>_. xn), mem, Some i))
          | IDPF_VC_XN_IDLE \<Rightarrow> (Some EINVAL, m, mem, Some i)
          | IDPF_VC_XN_SHUTDOWN \<Rightarrow> (Some ENXIO, m, mem, Some i)
          | IDPF_VC_XN_ASYNC \<Rightarrow>
              (case idpf_vc_xn_forward_async handler
                      (xn_update m i (\<lambda>xn. xn\<lparr>reply_sz := unat (m_data_len msg)\<rparr>)) i msg of
                 (err, m) \<Rightarrow> (err, m, mem, None))
          | _ \<Rightarrow> (Some EBUSY, m, mem, Some i)))"

definition vc_xn_complete :: "idpf_vc_xn_manager \<Rightarrow> nat \<Rightarrow> idpf_vc_xn_manager" where
  "vc_xn_complete m i = xn_update m i (\<lambda>xn. xn\<lparr>completed := complete (completed xn)\<rparr>)"

definition idpf_vc_xn_forward_reply ::
  "(ptr \<Rightarrow> idpf_vc_xn \<Rightarrow> idpf_ctlq_msg \<Rightarrow> ret) \<Rightarrow> dma_store \<Rightarrow> idpf_vc_xn_manager \<Rightarrow> bytes \<Rightarrow> idpf_ctlq_msg
   \<Rightarrow> ret \<times> idpf_vc_xn_manager \<times> bytes" where
  "idpf_vc_xn_forward_reply handler dmas m mem msg =
     (case vc_xn_reply_locked handler dmas m mem msg of
        (err, m, mem, None) \<Rightarrow> (err, m, mem)
      | (err, m, mem, Some i) \<Rightarrow> (err, vc_xn_complete m i, mem))"

end
