(* ===== verification/Idpf_Pool.thy ===== *)
theory Idpf_Pool
  imports Idpf_Prelude
begin

text \<open>
  The interface of the driver's allocators of small resources (transaction slots, interrupt
  vectors, completion tags): a pool hands out one free resource at a time and takes it back.  What
  clients rely on, that nobody else gets a resource that is still held, follows from the laws.
\<close>

locale resource_pool =
  fixes ok :: "'s \<Rightarrow> bool" and universe :: "'r set" and free :: "'s \<Rightarrow> 'r set"
    and pop :: "'s \<Rightarrow> 'r option \<times> 's" and push :: "'s \<Rightarrow> 'r \<Rightarrow> 's"
  assumes pop_None: "ok s \<Longrightarrow> pop s = (None, s') \<Longrightarrow> free s = {} \<and> s' = s"
    and pop_Some: "ok s \<Longrightarrow> pop s = (Some r, s') \<Longrightarrow> ok s' \<and> r \<in> free s \<and> free s' = free s - {r}"
    and push_free: "ok s \<Longrightarrow> r \<in> universe \<Longrightarrow> r \<notin> free s \<Longrightarrow> ok (push s r) \<and> free (push s r) = insert r (free s)"
    and free_universe: "ok s \<Longrightarrow> free s \<subseteq> universe"
begin

lemma pop_some_iff: "ok s \<Longrightarrow> (\<exists>r s'. pop s = (Some r, s')) \<longleftrightarrow> free s \<noteq> {}"
  by (metis empty_iff not_None_eq old.prod.exhaust pop_None pop_Some)

lemma pop_twice_differ:
  "ok s \<Longrightarrow> pop s = (Some r, s1) \<Longrightarrow> pop s1 = (Some r', s2) \<Longrightarrow> r' \<noteq> r"
  using pop_Some [of s r s1] pop_Some [of s1 r' s2] by auto

lemma pop_push:
  assumes "ok s" and "pop s = (Some r, s1)"
  shows "ok (push s1 r)" "free (push s1 r) = free s"
proof -
  have "ok s1" "r \<in> free s" "free s1 = free s - {r}" using pop_Some [OF assms] by auto
  then show "ok (push s1 r)" "free (push s1 r) = free s"
    using push_free [of s1 r] free_universe [OF assms(1)] by auto
qed

text \<open>Held resources: nothing in \<open>H\<close> is free, and it stays so when somebody else pops.\<close>

lemma pop_not_held:
  "ok s \<Longrightarrow> pop s = (Some r, s') \<Longrightarrow> H \<inter> free s = {} \<Longrightarrow> r \<notin> H \<and> insert r H \<inter> free s' = {}"
  using pop_Some [of s r s'] by auto

lemma pop_card: "ok s \<Longrightarrow> finite universe \<Longrightarrow> pop s = (Some r, s') \<Longrightarrow> card (free s) = Suc (card (free s'))"
  by (metis card_Suc_Diff1 finite_subset free_universe pop_Some)

end

end
