(* ===== verification/Idpf_Vc_Xn_Safety.thy ===== *)
theory Idpf_Vc_Xn_Safety
  imports Idpf_Vc_Xn Idpf_Pool
begin

text \<open>
  Safety of virtchnl transactions under interleaving: threads that execute transactions, the
  thread that forwards replies and the one that shuts the manager down take turns at the
  granularity of the critical sections.
\<close>

section \<open>Words and slots\<close>

lemma xn_update_simps [simp]:
  "free_xn_bm (xn_update m i f) = free_xn_bm m" "mngr_salt (xn_update m i f) = mngr_salt m"
  "mngr_active (xn_update m i f) = mngr_active m" "length (xn_ring (xn_update m i f)) = length (xn_ring m)"
  "i < length (xn_ring m) \<Longrightarrow> xn_ring (xn_update m i f) ! i = f (xn_ring m ! i)"
  "j \<noteq> i \<Longrightarrow> xn_ring (xn_update m i f) ! j = xn_ring m ! j"
  by (simp_all add: xn_update_def)

lemma release_bufs_fields [simp]:
  "xn_idx (idpf_vc_xn_release_bufs xn) = xn_idx xn" "xn_salt (idpf_vc_xn_release_bufs xn) = xn_salt xn"
  "completed (idpf_vc_xn_release_bufs xn) = completed xn" "vc_op (idpf_vc_xn_release_bufs xn) = vc_op xn"
  "xn_state (idpf_vc_xn_release_bufs xn) =
     (if xn_state xn = IDPF_VC_XN_SHUTDOWN then IDPF_VC_XN_SHUTDOWN else IDPF_VC_XN_IDLE)"
  "iov_len (reply (idpf_vc_xn_release_bufs xn)) = 0"
  by (simp_all add: idpf_vc_xn_release_bufs_def Let_def)

definition mngr_ok :: "idpf_vc_xn_manager \<Rightarrow> bool" where
  "mngr_ok m \<longleftrightarrow> length (xn_ring m) = IDPF_VC_XN_RING_LEN \<and> length (free_xn_bm m) = IDPF_VC_XN_RING_LEN \<and>
     (\<forall>i < IDPF_VC_XN_RING_LEN. xn_idx (xn_ring m ! i) = of_nat i)"

definition free_slots :: "idpf_vc_xn_manager \<Rightarrow> nat set" where
  "free_slots m = {i. i < IDPF_VC_XN_RING_LEN \<and> free_xn_bm m ! i}"

lemma unat_idx: "i < 255 \<Longrightarrow> unat (of_nat i :: u8) = i"
  by (simp add: unat_of_nat)

lemma find_first_bit_less:
  assumes "find_first_bit bm \<noteq> length bm"
  shows "find_first_bit bm < length bm" "bm ! find_first_bit bm"
proof -
  have "find_first_bit bm \<le> length bm" by (simp add: find_first_bit_def length_takeWhile_le)
  with assms show "find_first_bit bm < length bm" by simp
  then show "bm ! find_first_bit bm"
    unfolding find_first_bit_def using nth_length_takeWhile by blast
qed

lemma find_first_bit_none: "find_first_bit bm = length bm \<Longrightarrow> i < length bm \<Longrightarrow> \<not> bm ! i"
  unfolding find_first_bit_def by (metis nth_mem set_takeWhileD takeWhile_eq_all_conv takeWhile_eq_take take_all order_refl)

lemma pop_free_ok:
  assumes "mngr_ok m" and "idpf_vc_xn_pop_free m = (r, m')"
  shows "case r of None \<Rightarrow> free_slots m = {} \<and> m' = m
    | Some i \<Rightarrow> mngr_ok m' \<and> i \<in> free_slots m \<and> free_slots m' = free_slots m - {i} \<and>
        mngr_salt m' = mngr_salt m + 1 \<and> xn_ring m' ! i = (xn_ring m ! i)\<lparr>xn_salt := mngr_salt m\<rparr> \<and>
        (\<forall>j. j \<noteq> i \<longrightarrow> xn_ring m' ! j = xn_ring m ! j)"
proof (cases "find_first_bit (free_xn_bm m) = IDPF_VC_XN_RING_LEN")
  case True
  then show ?thesis
    using assms find_first_bit_none [of "free_xn_bm m"]
    by (auto simp: idpf_vc_xn_pop_free_def mngr_ok_def free_slots_def)
next
  case False
  let ?i = "find_first_bit (free_xn_bm m)"
  have i: "?i < 255" "free_xn_bm m ! ?i"
    using False find_first_bit_less [of "free_xn_bm m"] assms(1) by (simp_all add: mngr_ok_def)
  have r: "r = Some ?i"
    "m' = (xn_update m ?i (\<lambda>xn. xn\<lparr>xn_salt := mngr_salt m\<rparr>))\<lparr>free_xn_bm := (free_xn_bm m)[?i := False], mngr_salt := mngr_salt m + 1\<rparr>"
    using assms(2) False by (auto simp: idpf_vc_xn_pop_free_def Let_def)
  have "xn_idx (xn_ring m' ! j) = xn_idx (xn_ring m ! j)" for j
    using i assms(1) by (cases "j = ?i") (simp_all add: r mngr_ok_def)
  then have "mngr_ok m'" using assms(1) by (simp add: mngr_ok_def r)
  moreover have "free_slots m' = free_slots m - {?i}"
    using assms(1) i by (auto simp: free_slots_def r mngr_ok_def nth_list_update split: if_splits)
  ultimately show ?thesis
    using i assms(1) by (simp add: r free_slots_def mngr_ok_def)
qed

lemma push_free_ok:
  assumes "mngr_ok m" and "i < IDPF_VC_XN_RING_LEN"
  shows "mngr_ok (idpf_vc_xn_push_free m i)" "free_slots (idpf_vc_xn_push_free m i) = insert i (free_slots m)"
    "xn_ring (idpf_vc_xn_push_free m i) ! i = idpf_vc_xn_release_bufs (xn_ring m ! i)"
    "j \<noteq> i \<Longrightarrow> xn_ring (idpf_vc_xn_push_free m i) ! j = xn_ring m ! j"
    "mngr_salt (idpf_vc_xn_push_free m i) = mngr_salt m"
proof -
  have ix: "xn_idx (xn_ring m ! i) = of_nat i" "i < length (xn_ring m)" using assms by (simp_all add: mngr_ok_def)
  then have eq: "idpf_vc_xn_push_free m i = (xn_update m i idpf_vc_xn_release_bufs)\<lparr>free_xn_bm := (free_xn_bm m)[i := True]\<rparr>"
    using assms(2) by (simp add: idpf_vc_xn_push_free_def Let_def unat_idx)
  have "xn_idx (xn_ring (idpf_vc_xn_push_free m i) ! j) = xn_idx (xn_ring m ! j)" for j
    using ix by (cases "j = i") (simp_all add: eq)
  then show "mngr_ok (idpf_vc_xn_push_free m i)" using assms(1) by (simp add: mngr_ok_def eq)
  show "free_slots (idpf_vc_xn_push_free m i) = insert i (free_slots m)"
    using assms by (auto simp: free_slots_def eq mngr_ok_def nth_list_update split: if_splits)
qed (use assms in \<open>simp_all add: idpf_vc_xn_push_free_def Let_def mngr_ok_def\<close>)

interpretation xn_pool: resource_pool mngr_ok "{i. i < IDPF_VC_XN_RING_LEN}" free_slots
    idpf_vc_xn_pop_free idpf_vc_xn_push_free
proof
  fix s s' and r assume "mngr_ok s" "idpf_vc_xn_pop_free s = (Some r, s')"
  then show "mngr_ok s' \<and> r \<in> free_slots s \<and> free_slots s' = free_slots s - {r}"
    using pop_free_ok by fastforce
qed (use pop_free_ok push_free_ok in \<open>fastforce simp: free_slots_def\<close>)+

section \<open>Cookies\<close>

lemma cookie_masks: "(0xFF :: u16) = mask 8" "(0xFF00 :: u16) = push_bit 8 (mask 8)"
  by (simp_all add: mask_eq_exp_minus_1)

lemma cookie_split: "(c :: u16) = push_bit 8 (drop_bit 8 (c AND 0xFF00)) OR (c AND 0xFF)"
  unfolding cookie_masks by (rule bit_word_eqI) (auto simp: bit_simps)

lemma cookie_fields:
  "vc_xn_cookie xn AND 0xFF = ucast (xn_idx xn)"
  "drop_bit 8 (vc_xn_cookie xn AND 0xFF00) = ucast (xn_salt xn)"
  unfolding vc_xn_cookie_def cookie_masks
  by (rule bit_word_eqI, auto simp: bit_simps dest: bit_imp_le_length)+

lemma unat_ucast_u8: "unat (ucast (x :: u8) :: u16) = unat x"
  by transfer (simp add: take_bit_nat_eq_self_iff)

definition cookie_for :: "u16 \<Rightarrow> nat \<Rightarrow> idpf_vc_xn \<Rightarrow> bool" where
  "cookie_for c i xn \<longleftrightarrow> unat (c AND 0xFF) = i \<and> ucast (xn_salt xn) = drop_bit 8 (c AND 0xFF00)"

lemma cookie_for_eq:
  assumes "xn_idx xn = of_nat i" and "i < IDPF_VC_XN_RING_LEN"
  shows "cookie_for c i xn \<longleftrightarrow> c = vc_xn_cookie xn"
proof
  assume "cookie_for c i xn"
  then have "c AND 0xFF = ucast (xn_idx xn)" "drop_bit 8 (c AND 0xFF00) = ucast (xn_salt xn)"
    using assms by (auto simp: cookie_for_def word_unat_eq_iff unat_ucast_u8 unat_idx)
  then show "c = vc_xn_cookie xn"
    unfolding vc_xn_cookie_def using cookie_split [of c] by simp
next
  assume "c = vc_xn_cookie xn"
  then show "cookie_for c i xn"
    using assms cookie_fields [of xn] by (simp add: cookie_for_def unat_ucast_u8 unat_idx)
qed

section \<open>What a reply does\<close>

lemma idpf_vc_xn_forward_async_eq:
  assumes "idpf_vc_xn_forward_async handler m i msg = (e, m')"
  shows "\<exists>z. m' = idpf_vc_xn_push_free (xn_update m i (\<lambda>xn. xn\<lparr>reply_sz := z\<rparr>)) i"
proof -
  have same: "xn_update m i (\<lambda>xn. xn\<lparr>reply_sz := reply_sz (xn_ring m ! i)\<rparr>) = m"
    by (simp add: xn_update_def)
  have "m' = idpf_vc_xn_push_free (xn_update m i (\<lambda>xn. xn\<lparr>reply_sz := 0\<rparr>)) i \<or> m' = idpf_vc_xn_push_free m i"
    using assms by (auto simp: idpf_vc_xn_forward_async_def Let_def split: if_splits)
  then show ?thesis
    using same by (elim disjE) (rule exI, assumption, rule exI [of _ "reply_sz (xn_ring m ! i)"], simp)
qed

datatype reply_effect = Dropped | Delivered nat | Async nat

lemma vc_xn_deliver_fields:
  assumes "vc_xn_deliver dmas mem msg xn = (err, xn', mem')"
  shows "xn_state xn' \<in> {IDPF_VC_XN_COMPLETED_SUCCESS, IDPF_VC_XN_COMPLETED_FAILED}"
    "xn_idx xn' = xn_idx xn" "xn_salt xn' = xn_salt xn" "vc_op xn' = vc_op xn" "reply xn' = reply xn"
    "completed xn' = completed xn"
    "xn_state xn' = IDPF_VC_XN_COMPLETED_SUCCESS \<Longrightarrow>
       m_chnl_opcode msg = vc_op xn \<and> m_chnl_retval msg = 0 \<and> reply_sz xn' = unat (m_data_len msg)"
  using assms by (auto simp: vc_xn_deliver_def Let_def split: if_splits)

text \<open>The three outcomes of the critical section of \<open>idpf_vc_xn_forward_reply\<close>.\<close>

definition reply_result ::
  "dma_store \<Rightarrow> idpf_vc_xn_manager \<Rightarrow> bytes \<Rightarrow> idpf_ctlq_msg \<Rightarrow> ret \<Rightarrow> idpf_vc_xn_manager \<Rightarrow> bytes \<Rightarrow> reply_effect \<Rightarrow> bool" where
  "reply_result dmas m mem msg err m' mem' e = (case e of
       Dropped \<Rightarrow> m' = m \<and> mem' = mem
     | Delivered i \<Rightarrow> i < IDPF_VC_XN_RING_LEN \<and> vc_msg_cookie msg = vc_xn_cookie (xn_ring m ! i) \<and>
         xn_state (xn_ring m ! i) = IDPF_VC_XN_WAITING \<and>
         (\<exists>xn'. vc_xn_deliver dmas mem msg (xn_ring m ! i) = (err, xn', mem') \<and> m' = xn_update m i (\<lambda>_. xn'))
     | Async i \<Rightarrow> i < IDPF_VC_XN_RING_LEN \<and> vc_msg_cookie msg = vc_xn_cookie (xn_ring m ! i) \<and>
         xn_state (xn_ring m ! i) = IDPF_VC_XN_ASYNC \<and> mem' = mem \<and>
         (\<exists>z. m' = idpf_vc_xn_push_free (xn_update m i (\<lambda>xn. xn\<lparr>reply_sz := z\<rparr>)) i))"

lemma vc_xn_reply_locked_result:
  assumes "mngr_ok m" and run: "vc_xn_reply_locked handler dmas m mem msg = (err, m', mem', c)"
  shows "\<exists>e. reply_result dmas m mem msg err m' mem' e"
proof -
  define i where "i = unat (vc_msg_cookie msg AND 0xFF)"
  let ?xn = "xn_ring m ! i"
  show ?thesis
  proof (cases "i < IDPF_VC_XN_RING_LEN \<and> cookie_for (vc_msg_cookie msg) i ?xn")
    case False
    then have "reply_result dmas m mem msg err m' mem' Dropped"
      using run by (auto simp: vc_xn_reply_locked_def Let_def i_def [symmetric] cookie_for_def reply_result_def
          split: if_splits)
    then show ?thesis by blast
  next
    case True
    then have i: "i < IDPF_VC_XN_RING_LEN" "ucast (xn_salt ?xn) = drop_bit 8 (vc_msg_cookie msg AND 0xFF00)"
        "vc_msg_cookie msg = vc_xn_cookie ?xn"
      using assms(1) cookie_for_eq [of ?xn i "vc_msg_cookie msg"] by (auto simp: mngr_ok_def cookie_for_def)
    note run' = run [unfolded vc_xn_reply_locked_def Let_def i_def [symmetric]]
    show ?thesis
    proof (cases "xn_state ?xn")
      case IDPF_VC_XN_WAITING
      then have "reply_result dmas m mem msg err m' mem' (Delivered i)"
        using i run' by (auto simp: reply_result_def split: if_splits prod.splits)
      then show ?thesis by blast
    next
      case IDPF_VC_XN_ASYNC
      let ?m = "xn_update m i (\<lambda>xn. xn\<lparr>reply_sz := unat (m_data_len msg)\<rparr>)"
      obtain e where fa: "idpf_vc_xn_forward_async handler ?m i msg = (e, m')" and mem: "mem' = mem"
        using IDPF_VC_XN_ASYNC i(1,2) run' by (auto split: if_splits prod.splits)
      obtain z where "m' = idpf_vc_xn_push_free (xn_update ?m i (\<lambda>xn. xn\<lparr>reply_sz := z\<rparr>)) i"
        using idpf_vc_xn_forward_async_eq [OF fa] by blast
      then have "m' = idpf_vc_xn_push_free (xn_update m i (\<lambda>xn. xn\<lparr>reply_sz := z\<rparr>)) i"
        using i(1) assms(1) by (simp add: xn_update_def mngr_ok_def)
      then have "reply_result dmas m mem msg err m' mem' (Async i)"
        using IDPF_VC_XN_ASYNC i mem by (auto simp: reply_result_def)
      then show ?thesis by blast
    next
      case IDPF_VC_XN_IDLE
      then have "reply_result dmas m mem msg err m' mem' Dropped"
        using i(1,2) run' by (simp add: reply_result_def)
      then show ?thesis by blast
    next
      case IDPF_VC_XN_SHUTDOWN
      then have "reply_result dmas m mem msg err m' mem' Dropped"
        using i(1,2) run' by (simp add: reply_result_def)
      then show ?thesis by blast
    next
      case IDPF_VC_XN_COMPLETED_SUCCESS
      then have "reply_result dmas m mem msg err m' mem' Dropped"
        using i(1,2) run' by (simp add: reply_result_def)
      then show ?thesis by blast
    next
      case IDPF_VC_XN_COMPLETED_FAILED
      then have "reply_result dmas m mem msg err m' mem' Dropped"
        using i(1,2) run' by (simp add: reply_result_def)
      then show ?thesis by blast
    qed
  qed
qed

section \<open>Interleavings\<close>

text \<open>
  Where a thread is in \<open>idpf_vc_xn_exec\<close>: it holds a popped slot, has run the first critical section
  (\<open>Armed\<close>), has reset the completion and is about to send (\<open>Ready\<close>), waits for the reply to its
  cookie, was woken or timed out, or has returned.
\<close>

datatype xn_thread =
    Outside
  | Popped nat idpf_vc_xn_params
  | Armed nat idpf_vc_xn_params
  | Ready nat idpf_vc_xn_params
  | Waiting nat idpf_vc_xn_params u16
  | Woken nat idpf_vc_xn_params u16
  | Returned "errno + nat"

fun slot_of :: "xn_thread \<Rightarrow> nat option" where
  "slot_of (Popped i p) = Some i"
| "slot_of (Armed i p) = Some i"
| "slot_of (Ready i p) = Some i"
| "slot_of (Waiting i p c) = Some i"
| "slot_of (Woken i p c) = Some i"
| "slot_of _ = None"

record xn_sys =
  mngr :: idpf_vc_xn_manager
  thr :: "nat \<Rightarrow> xn_thread"
  pend :: "nat list"

text \<open>A request that has its cookie but has not been handed to the device yet.\<close>

definition unsent :: "xn_sys \<Rightarrow> u16 \<Rightarrow> bool" where
  "unsent s c \<longleftrightarrow> (\<exists>t i p. thr s t \<in> {Armed i p, Ready i p} \<and> c = vc_xn_cookie (xn_ring (mngr s) ! i))"

text \<open>
  The steps.  The device may answer at any time and with any message, also late or twice, except
  that it does not answer a request before it is sent.  A shutdown may run concurrently, slot by
  slot; the manager is initialised again only when no thread is inside.
\<close>

inductive xn_step :: "xn_sys \<Rightarrow> xn_sys \<Rightarrow> bool" where
  pop: "thr s t = Outside \<Longrightarrow> idpf_vc_xn_pop_free (mngr s) = (Some i, m) \<Longrightarrow>
     xn_step s (s\<lparr>mngr := m, thr := (thr s)(t := Popped i p)\<rparr>)"
| pop_none: "thr s t = Outside \<Longrightarrow> idpf_vc_xn_pop_free (mngr s) = (None, m) \<Longrightarrow>
     xn_step s (s\<lparr>mngr := m, thr := (thr s)(t := Returned (Inl ENOSPC))\<rparr>)"
| start: "thr s t = Popped i p \<Longrightarrow> vc_xn_start (mngr s) i p = Inr m \<Longrightarrow>
     xn_step s (s\<lparr>mngr := m, thr := (thr s)(t := Armed i p)\<rparr>)"
| start_err: "thr s t = Popped i p \<Longrightarrow> vc_xn_start (mngr s) i p = Inl e \<Longrightarrow>
     xn_step s (s\<lparr>thr := (thr s)(t := Returned (Inl e))\<rparr>)"
| reinit: "thr s t = Armed i p \<Longrightarrow>
     xn_step s (s\<lparr>mngr := vc_xn_reinit (mngr s) i p, thr := (thr s)(t := Ready i p)\<rparr>)"
| send_fail: "thr s t = Ready i p \<Longrightarrow>
     xn_step s (s\<lparr>mngr := idpf_vc_xn_push_free (mngr s) i, thr := (thr s)(t := Returned (Inl e))\<rparr>)"
| send_async: "thr s t = Ready i p \<Longrightarrow> is_async p \<Longrightarrow>
     xn_step s (s\<lparr>thr := (thr s)(t := Returned (Inr 0))\<rparr>)"
| send_sync: "thr s t = Ready i p \<Longrightarrow> \<not> is_async p \<Longrightarrow>
     xn_step s (s\<lparr>thr := (thr s)(t := Waiting i p (vc_xn_cookie (xn_ring (mngr s) ! i)))\<rparr>)"
| wake: "thr s t = Waiting i p c \<Longrightarrow> completed (xn_ring (mngr s) ! i) > 0 \<Longrightarrow>
     xn_step s (s\<lparr>mngr := xn_update (mngr s) i (\<lambda>xn. xn\<lparr>completed := completion_take (completed xn)\<rparr>),
                  thr := (thr s)(t := Woken i p c)\<rparr>)"
| timeout: "thr s t = Waiting i p c \<Longrightarrow> completed (xn_ring (mngr s) ! i) = 0 \<Longrightarrow>
     xn_step s (s\<lparr>thr := (thr s)(t := Woken i p c)\<rparr>)"
| finish: "thr s t = Woken i p c \<Longrightarrow> vc_xn_finish (mngr s) i = (r, m) \<Longrightarrow>
     xn_step s (s\<lparr>mngr := m, thr := (thr s)(t := Returned r)\<rparr>)"
| again: "thr s t = Returned r \<Longrightarrow> xn_step s (s\<lparr>thr := (thr s)(t := Outside)\<rparr>)"
| reply: "\<not> unsent s (vc_msg_cookie msg) \<Longrightarrow>
     vc_xn_reply_locked handler dmas (mngr s) mem msg = (err, m, mem', c) \<Longrightarrow>
     xn_step s (s\<lparr>mngr := m, pend := (case c of None \<Rightarrow> pend s | Some i \<Rightarrow> i # pend s)\<rparr>)"
| signal: "i \<in> set (pend s) \<Longrightarrow>
     xn_step s (s\<lparr>mngr := vc_xn_complete (mngr s) i, pend := remove1 i (pend s)\<rparr>)"
| shut_bm: "xn_step s (s\<lparr>mngr := vc_xn_shutdown_bm (mngr s)\<rparr>)"
| shut_one: "i < IDPF_VC_XN_RING_LEN \<Longrightarrow> xn_step s (s\<lparr>mngr := vc_xn_shutdown_one (mngr s) i\<rparr>)"
| shut_end: "xn_step s (s\<lparr>mngr := (mngr s)\<lparr>mngr_active := False\<rparr>\<rparr>)"
| init: "(\<forall>t. slot_of (thr s t) = None) \<Longrightarrow> xn_step s (s\<lparr>mngr := idpf_vc_xn_init (mngr s)\<rparr>)"

text \<open>The state after the manager was allocated (all zero) and initialised.\<close>

definition xn_fresh :: idpf_vc_xn_manager where
  "xn_fresh = idpf_vc_xn_init \<lparr>xn_ring = replicate IDPF_VC_XN_RING_LEN
     \<lparr>completed = 0, xn_state = IDPF_VC_XN_IDLE, reply_sz = 0, reply = \<lparr>iov_base = NULL, iov_len = 0\<rparr>,
      async_handler = NULL, vc_op = 0, xn_idx = 0, xn_salt = 0\<rparr>,
     free_xn_bm = replicate IDPF_VC_XN_RING_LEN False, mngr_salt = 0, mngr_active = False\<rparr>"

definition xn_boot :: xn_sys where
  "xn_boot = \<lparr>mngr = xn_fresh, thr = (\<lambda>_. Outside), pend = []\<rparr>"

section \<open>The invariant\<close>

abbreviation idle_states :: "idpf_vc_xn_state set" where
  "idle_states \<equiv> {IDPF_VC_XN_IDLE, IDPF_VC_XN_SHUTDOWN}"

definition expected :: "idpf_vc_xn_params \<Rightarrow> idpf_vc_xn_state set" where
  "expected p = (if is_async p then {IDPF_VC_XN_ASYNC, IDPF_VC_XN_SHUTDOWN}
     else {IDPF_VC_XN_WAITING, IDPF_VC_XN_COMPLETED_SUCCESS, IDPF_VC_XN_COMPLETED_FAILED, IDPF_VC_XN_SHUTDOWN})"

definition carries :: "idpf_vc_xn_params \<Rightarrow> idpf_vc_xn \<Rightarrow> bool" where
  "carries p xn \<longleftrightarrow> xn_state xn \<in> expected p \<and>
     (xn_state xn \<noteq> IDPF_VC_XN_SHUTDOWN \<longrightarrow> vc_op xn = p_vc_op p \<and> reply xn = recv_buf p)"

fun phase_ok :: "xn_thread \<Rightarrow> idpf_vc_xn \<Rightarrow> bool" where
  "phase_ok (Popped i p) xn \<longleftrightarrow> xn_state xn \<in> idle_states"
| "phase_ok (Armed i p) xn \<longleftrightarrow> carries p xn"
| "phase_ok (Ready i p) xn \<longleftrightarrow> carries p xn"
| "phase_ok (Waiting i p c) xn \<longleftrightarrow> \<not> is_async p \<and> carries p xn \<and> c = vc_xn_cookie xn"
| "phase_ok (Woken i p c) xn \<longleftrightarrow> \<not> is_async p \<and> carries p xn \<and> c = vc_xn_cookie xn"
| "phase_ok _ xn \<longleftrightarrow> True"

definition xn_inv :: "xn_sys \<Rightarrow> bool" where
  "xn_inv s \<longleftrightarrow> mngr_ok (mngr s) \<and>
     (\<forall>i \<in> free_slots (mngr s). xn_state (xn_ring (mngr s) ! i) \<in> idle_states) \<and>
     (\<forall>t i. slot_of (thr s t) = Some i \<longrightarrow>
        i < IDPF_VC_XN_RING_LEN \<and> i \<notin> free_slots (mngr s) \<and> phase_ok (thr s t) (xn_ring (mngr s) ! i)) \<and>
     (\<forall>t t' i. slot_of (thr s t) = Some i \<longrightarrow> slot_of (thr s t') = Some i \<longrightarrow> t = t')"

lemma xn_invD:
  assumes "xn_inv s"
  shows "mngr_ok (mngr s)" "i \<in> free_slots (mngr s) \<Longrightarrow> xn_state (xn_ring (mngr s) ! i) \<in> idle_states"
    "slot_of (thr s t) = Some i \<Longrightarrow> i < IDPF_VC_XN_RING_LEN"
    "slot_of (thr s t) = Some i \<Longrightarrow> i \<notin> free_slots (mngr s)"
    "slot_of (thr s t) = Some i \<Longrightarrow> phase_ok (thr s t) (xn_ring (mngr s) ! i)"
    "slot_of (thr s t) = Some i \<Longrightarrow> slot_of (thr s t') = Some i \<Longrightarrow> t = t'"
  using assms unfolding xn_inv_def by blast+

lemma xn_invI:
  assumes "mngr_ok m" and "\<And>i. i \<in> free_slots m \<Longrightarrow> xn_state (xn_ring m ! i) \<in> idle_states"
    and "\<And>t i. slot_of (th t) = Some i \<Longrightarrow> i < IDPF_VC_XN_RING_LEN \<and> i \<notin> free_slots m \<and> phase_ok (th t) (xn_ring m ! i)"
    and "\<And>t t' i. slot_of (th t) = Some i \<Longrightarrow> slot_of (th t') = Some i \<Longrightarrow> t = t'"
  shows "xn_inv (s\<lparr>mngr := m, thr := th, pend := q\<rparr>)"
  unfolding xn_inv_def using assms by auto

text \<open>
  The three kinds of steps: of a thread that gets or keeps a slot, of a thread that gives its slot
  up, and of anybody else.
\<close>

lemma inv_owner_step:
  assumes inv: "xn_inv s" and own: "\<And>u. u \<noteq> t \<Longrightarrow> slot_of (thr s u) \<noteq> Some i" and ph: "slot_of ph = Some i"
    and i: "i < IDPF_VC_XN_RING_LEN" "i \<notin> free_slots m"
    and m: "mngr_ok m" "free_slots m \<subseteq> free_slots (mngr s)" "\<And>j. j \<noteq> i \<Longrightarrow> xn_ring m ! j = xn_ring (mngr s) ! j"
    and ok: "phase_ok ph (xn_ring m ! i)"
  shows "xn_inv (s\<lparr>mngr := m, thr := (thr s)(t := ph), pend := q\<rparr>)"
proof (rule xn_invI [OF m(1)])
  fix j assume "j \<in> free_slots m"
  then show "xn_state (xn_ring m ! j) \<in> idle_states"
    using m(2) m(3) [of j] i(2) xn_invD(2) [OF inv] by (cases "j = i") auto
next
  fix u j assume u: "slot_of (((thr s)(t := ph)) u) = Some j"
  show "j < IDPF_VC_XN_RING_LEN \<and> j \<notin> free_slots m \<and> phase_ok (((thr s)(t := ph)) u) (xn_ring m ! j)"
  proof (cases "u = t")
    case True
    then show ?thesis using u ph i ok by simp
  next
    case False
    with u have s: "slot_of (thr s u) = Some j" by simp
    with own False have "j \<noteq> i" by metis
    then show ?thesis using xn_invD(3-5) [OF inv s] m(2,3) False by auto
  qed
next
  fix u u' j assume "slot_of (((thr s)(t := ph)) u) = Some j" "slot_of (((thr s)(t := ph)) u') = Some j"
  then show "u = u'"
    using own ph xn_invD(6) [OF inv] by (auto split: if_splits)
qed

lemma inv_release_step:
  assumes inv: "xn_inv s" and own: "slot_of (thr s t) = Some i" and ph: "slot_of ph = None"
    and m: "mngr_ok m" "free_slots m \<subseteq> insert i (free_slots (mngr s))"
      "\<And>j. j \<noteq> i \<Longrightarrow> xn_ring m ! j = xn_ring (mngr s) ! j" "xn_state (xn_ring m ! i) \<in> idle_states \<or> i \<notin> free_slots m"
  shows "xn_inv (s\<lparr>mngr := m, thr := (thr s)(t := ph), pend := q\<rparr>)"
proof (rule xn_invI [OF m(1)])
  fix j assume "j \<in> free_slots m"
  then show "xn_state (xn_ring m ! j) \<in> idle_states"
    using m(2-4) xn_invD(2) [OF inv] by (cases "j = i") auto
next
  fix u j assume u: "slot_of (((thr s)(t := ph)) u) = Some j"
  then have s: "slot_of (thr s u) = Some j" "u \<noteq> t" using ph by (auto split: if_splits)
  then have "j \<noteq> i" using xn_invD(6) [OF inv own] by blast
  then show "j < IDPF_VC_XN_RING_LEN \<and> j \<notin> free_slots m \<and> phase_ok (((thr s)(t := ph)) u) (xn_ring m ! j)"
    using xn_invD(3-5) [OF inv s(1)] m(2,3) s(2) by auto
next
  fix u u' j assume "slot_of (((thr s)(t := ph)) u) = Some j" "slot_of (((thr s)(t := ph)) u') = Some j"
  then show "u = u'" using ph xn_invD(6) [OF inv] by (auto split: if_splits)
qed

lemma inv_env_step:
  assumes inv: "xn_inv s" and m: "mngr_ok m" "free_slots m \<subseteq> insert i (free_slots (mngr s))"
      "\<And>j. j \<noteq> i \<Longrightarrow> xn_ring m ! j = xn_ring (mngr s) ! j"
      "i \<in> free_slots m \<Longrightarrow> xn_state (xn_ring m ! i) \<in> idle_states"
    and ok: "\<And>t. slot_of (thr s t) = Some i \<Longrightarrow> phase_ok (thr s t) (xn_ring (mngr s) ! i) \<Longrightarrow>
      phase_ok (thr s t) (xn_ring m ! i) \<and> i \<notin> free_slots m"
  shows "xn_inv (s\<lparr>mngr := m, thr := thr s, pend := q\<rparr>)"
proof (rule xn_invI [OF m(1)])
  fix j assume "j \<in> free_slots m"
  then show "xn_state (xn_ring m ! j) \<in> idle_states"
    using m(2-4) xn_invD(2) [OF inv] by (cases "j = i") auto
next
  fix u j assume s: "slot_of (thr s u) = Some j"
  show "j < IDPF_VC_XN_RING_LEN \<and> j \<notin> free_slots m \<and> phase_ok (thr s u) (xn_ring m ! j)"
    using xn_invD(3-5) [OF inv s] m(2,3) ok [of u] s by (cases "j = i") auto
qed (rule xn_invD(6) [OF inv])

lemma free_slots_update [simp]: "free_slots (xn_update m i f) = free_slots m"
  by (simp add: free_slots_def)

lemma mngr_ok_update:
  assumes "mngr_ok m" and "xn_idx (f (xn_ring m ! i)) = xn_idx (xn_ring m ! i)"
  shows "mngr_ok (xn_update m i f)"
proof -
  have "xn_idx (xn_ring (xn_update m i f) ! j) = xn_idx (xn_ring m ! j)" for j
    using assms(2) by (cases "j = i"; cases "i < length (xn_ring m)") (simp_all add: xn_update_def list_update_beyond)
  then show ?thesis using assms(1) by (simp add: mngr_ok_def)
qed

lemma xn_ring_update_same:
  "mngr_ok m \<Longrightarrow> i < IDPF_VC_XN_RING_LEN \<Longrightarrow> xn_ring (xn_update m i f) ! i = f (xn_ring m ! i)"
  by (simp add: mngr_ok_def)

lemma inv_pop:
  assumes "xn_inv s" and "thr s t = Outside" and "idpf_vc_xn_pop_free (mngr s) = (Some i, m)"
  shows "xn_inv (s\<lparr>mngr := m, thr := (thr s)(t := Popped i p)\<rparr>)"
proof -
  have m: "mngr_ok m" "i \<in> free_slots (mngr s)" "free_slots m = free_slots (mngr s) - {i}"
      "xn_ring m ! i = (xn_ring (mngr s) ! i)\<lparr>xn_salt := mngr_salt (mngr s)\<rparr>"
      "\<And>j. j \<noteq> i \<Longrightarrow> xn_ring m ! j = xn_ring (mngr s) ! j"
    using pop_free_ok [OF xn_invD(1) [OF assms(1)] assms(3)] by auto
  have "slot_of (thr s u) \<noteq> Some i" for u
    using m(2) xn_invD(4) [OF assms(1)] by blast
  moreover have "i < IDPF_VC_XN_RING_LEN" using m(2) by (simp add: free_slots_def)
  ultimately have "xn_inv (s\<lparr>mngr := m, thr := (thr s)(t := Popped i p), pend := pend s\<rparr>)"
    using m xn_invD(2) [OF assms(1) m(2)] by (intro inv_owner_step [OF assms(1)]) auto
  then show ?thesis by simp
qed

lemma inv_own:
  assumes "xn_inv s" and "slot_of (thr s t) = Some i" and "slot_of ph = Some i"
    and "xn_idx (f (xn_ring (mngr s) ! i)) = xn_idx (xn_ring (mngr s) ! i)"
    and "phase_ok ph (f (xn_ring (mngr s) ! i))"
  shows "xn_inv (s\<lparr>mngr := xn_update (mngr s) i f, thr := (thr s)(t := ph)\<rparr>)"
proof -
  note d = xn_invD [OF assms(1)]
  have "xn_inv (s\<lparr>mngr := xn_update (mngr s) i f, thr := (thr s)(t := ph), pend := pend s\<rparr>)"
  proof (rule inv_owner_step [OF assms(1) _ assms(3)])
    show "mngr_ok (xn_update (mngr s) i f)" using mngr_ok_update [where f = f and i = i, OF d(1) assms(4)] .
    show "phase_ok ph (xn_ring (xn_update (mngr s) i f) ! i)"
      using assms(5) xn_ring_update_same [OF d(1) d(3) [OF assms(2)]] by simp
    show "slot_of (thr s u) \<noteq> Some i" if "u \<noteq> t" for u
      using that d(6) [OF _ assms(2)] by blast
  qed (use d(3,4) [OF assms(2)] in simp_all)
  then show ?thesis by simp
qed

lemma inv_own_same:
  assumes "xn_inv s" and "slot_of (thr s t) = Some i" and "slot_of ph = Some i"
    and "phase_ok ph (xn_ring (mngr s) ! i)"
  shows "xn_inv (s\<lparr>thr := (thr s)(t := ph)\<rparr>)"
  using inv_own [OF assms(1-3), of id] assms(4) by (simp add: xn_update_def)

lemma inv_push:
  assumes "xn_inv s" and "slot_of (thr s t) = Some i" and "slot_of ph = None"
  shows "xn_inv (s\<lparr>mngr := idpf_vc_xn_push_free (mngr s) i, thr := (thr s)(t := ph)\<rparr>)"
proof -
  note d = xn_invD [OF assms(1)]
  note p = push_free_ok [OF d(1) d(3) [OF assms(2)]]
  have "xn_inv (s\<lparr>mngr := idpf_vc_xn_push_free (mngr s) i, thr := (thr s)(t := ph), pend := pend s\<rparr>)"
    using p by (intro inv_release_step [OF assms]) auto
  then show ?thesis by simp
qed

lemma inv_leave:
  assumes "xn_inv s" and "slot_of (thr s t) = Some i" and "slot_of ph = None"
  shows "xn_inv (s\<lparr>thr := (thr s)(t := ph)\<rparr>)"
proof -
  note d = xn_invD [OF assms(1)]
  have "xn_inv (s\<lparr>mngr := mngr s, thr := (thr s)(t := ph), pend := pend s\<rparr>)"
    using d(1) d(4) [OF assms(2)] by (intro inv_release_step [OF assms]) auto
  then show ?thesis by simp
qed

lemma inv_env:
  assumes "xn_inv s" and "i < IDPF_VC_XN_RING_LEN" and "xn_idx (f (xn_ring (mngr s) ! i)) = xn_idx (xn_ring (mngr s) ! i)"
    and "xn_state (xn_ring (mngr s) ! i) \<in> idle_states \<Longrightarrow> xn_state (f (xn_ring (mngr s) ! i)) \<in> idle_states"
    and "\<And>t. slot_of (thr s t) = Some i \<Longrightarrow> phase_ok (thr s t) (xn_ring (mngr s) ! i) \<Longrightarrow>
      phase_ok (thr s t) (f (xn_ring (mngr s) ! i))"
  shows "xn_inv (s\<lparr>mngr := xn_update (mngr s) i f, pend := q\<rparr>)"
proof -
  note d = xn_invD [OF assms(1)]
  note same = xn_ring_update_same [OF d(1) assms(2), of f]
  have "xn_inv (s\<lparr>mngr := xn_update (mngr s) i f, thr := thr s, pend := q\<rparr>)"
    using mngr_ok_update [where f = f and i = i, OF d(1) assms(3)] same assms(4,5) d(2,4)
    by (intro inv_env_step [OF assms(1)]) auto
  then show ?thesis by simp
qed

lemma phase_ok_cong:
  assumes "xn_state xn' = xn_state xn" "vc_op xn' = vc_op xn" "reply xn' = reply xn"
    "xn_salt xn' = xn_salt xn" "xn_idx xn' = xn_idx xn"
  shows "phase_ok ph xn' = phase_ok ph xn"
  using assms by (cases ph) (simp_all add: carries_def vc_xn_cookie_def)

lemma xn_inv_pend: "xn_inv (s\<lparr>mngr := mngr s, pend := q\<rparr>) = xn_inv s"
  by (simp add: xn_inv_def)

lemma inv_reply:
  assumes inv: "xn_inv s" and un: "\<not> unsent s (vc_msg_cookie msg)"
    and run: "vc_xn_reply_locked handler dmas (mngr s) mem msg = (err, m, mem', c)"
  shows "xn_inv (s\<lparr>mngr := m, pend := q\<rparr>)"
proof -
  note d = xn_invD [OF inv]
  obtain e where e: "reply_result dmas (mngr s) mem msg err m mem' e"
    using vc_xn_reply_locked_result [OF d(1) run] by blast
  show ?thesis
  proof (cases e)
    case Dropped
    then show ?thesis using e inv by (simp add: reply_result_def xn_inv_def)
  next
    case (Delivered i)
    then obtain xn' where i: "i < IDPF_VC_XN_RING_LEN" "xn_state (xn_ring (mngr s) ! i) = IDPF_VC_XN_WAITING"
        "vc_xn_deliver dmas mem msg (xn_ring (mngr s) ! i) = (err, xn', mem')" "m = xn_update (mngr s) i (\<lambda>_. xn')"
      using e by (auto simp: reply_result_def)
    note f = vc_xn_deliver_fields [OF i(3)]
    have "phase_ok ph xn'" if "slot_of ph = Some i" "phase_ok ph (xn_ring (mngr s) ! i)" for ph
      using that f(1-5) i(2) by (cases ph) (auto simp: carries_def expected_def vc_xn_cookie_def split: if_splits)
    then show ?thesis
      unfolding i(4) using i(1,2) f(2) by (intro inv_env [OF inv]) auto
  next
    case (Async i)
    then obtain z where i: "i < IDPF_VC_XN_RING_LEN" "vc_msg_cookie msg = vc_xn_cookie (xn_ring (mngr s) ! i)"
        "xn_state (xn_ring (mngr s) ! i) = IDPF_VC_XN_ASYNC"
        "m = idpf_vc_xn_push_free (xn_update (mngr s) i (\<lambda>xn. xn\<lparr>reply_sz := z\<rparr>)) i"
      using e by (auto simp: reply_result_def)
    let ?m = "xn_update (mngr s) i (\<lambda>xn. xn\<lparr>reply_sz := z\<rparr>)"
    have mo: "mngr_ok ?m" using d(1) by (intro mngr_ok_update) simp_all
    note p = push_free_ok [OF mo i(1)]
    have no: "slot_of (thr s t) \<noteq> Some i" for t
    proof
      assume o: "slot_of (thr s t) = Some i"
      then have "phase_ok (thr s t) (xn_ring (mngr s) ! i)" by (rule d(5))
      with o i(3) have "\<exists>p. thr s t \<in> {Armed i p, Ready i p}"
        by (cases "thr s t") (auto simp: carries_def expected_def split: if_splits)
      with un i(2) show False by (auto simp: unsent_def)
    qed
    have "xn_inv (s\<lparr>mngr := m, thr := thr s, pend := q\<rparr>)"
      using p i(4) no by (intro inv_env_step [OF inv, of _ i]) auto
    then show ?thesis by simp
  qed
qed

lemma inv_finish:
  assumes "xn_inv s" and "thr s t = Woken i p c" and "vc_xn_finish (mngr s) i = (r, m)"
  shows "xn_inv (s\<lparr>mngr := m, thr := (thr s)(t := Returned r)\<rparr>)"
proof (cases "xn_state (xn_ring (mngr s) ! i) = IDPF_VC_XN_SHUTDOWN")
  case True
  then have "m = mngr s" using assms(3) by (simp add: vc_xn_finish_def)
  then show ?thesis using inv_leave [OF assms(1), of t i "Returned r"] assms(2) by simp
next
  case False
  then have "m = idpf_vc_xn_push_free (mngr s) i"
    using assms(3) by (auto simp: vc_xn_finish_def split: idpf_vc_xn_state.splits)
  then show ?thesis using inv_push [OF assms(1), of t i "Returned r"] assms(2) by simp
qed

lemma init_ok:
  assumes "\<not> mngr_active m"
  shows "mngr_ok (idpf_vc_xn_init m)" "i < IDPF_VC_XN_RING_LEN \<Longrightarrow> xn_state (xn_ring (idpf_vc_xn_init m) ! i) = IDPF_VC_XN_IDLE"
    "free_slots (idpf_vc_xn_init m) = {i. i < IDPF_VC_XN_RING_LEN}"
  using assms by (auto simp: idpf_vc_xn_init_def mngr_ok_def free_slots_def)

lemma inv_init:
  assumes "xn_inv s" and "\<And>t. slot_of (thr s t) = None"
  shows "xn_inv (s\<lparr>mngr := idpf_vc_xn_init (mngr s)\<rparr>)"
proof (cases "mngr_active (mngr s)")
  case True
  then show ?thesis using assms(1) by (simp add: idpf_vc_xn_init_def)
next
  case False
  have "xn_inv (s\<lparr>mngr := idpf_vc_xn_init (mngr s), thr := thr s, pend := pend s\<rparr>)"
    using init_ok [OF False] assms(2) by (intro xn_invI) auto
  then show ?thesis by simp
qed

lemma inv_shut_one:
  assumes "xn_inv s" and "i < IDPF_VC_XN_RING_LEN"
  shows "xn_inv (s\<lparr>mngr := vc_xn_shutdown_one (mngr s) i\<rparr>)"
proof -
  let ?f = "\<lambda>xn. (idpf_vc_xn_release_bufs (xn\<lparr>xn_state := IDPF_VC_XN_SHUTDOWN\<rparr>))\<lparr>completed := COMPLETE_ALL\<rparr>"
  have "phase_ok ph (?f xn)" if "phase_ok ph xn" for ph xn
    using that by (cases ph) (auto simp: carries_def expected_def vc_xn_cookie_def)
  then have "xn_inv (s\<lparr>mngr := xn_update (mngr s) i ?f, pend := pend s\<rparr>)"
    using assms(2) by (intro inv_env [OF assms(1)]) auto
  then show ?thesis by (simp add: vc_xn_shutdown_one_def)
qed

lemma inv_signal:
  assumes "xn_inv s"
  shows "xn_inv (s\<lparr>mngr := vc_xn_complete (mngr s) i, pend := q\<rparr>)"
proof (cases "i < IDPF_VC_XN_RING_LEN")
  case True
  have "phase_ok ph (xn\<lparr>completed := n\<rparr>) = phase_ok ph xn" for ph xn n
    by (rule phase_ok_cong) simp_all
  then show ?thesis
    unfolding vc_xn_complete_def using True by (intro inv_env [OF assms]) simp_all
next
  case False
  then have "vc_xn_complete (mngr s) i = mngr s"
    using xn_invD(1) [OF assms] by (simp add: vc_xn_complete_def xn_update_def mngr_ok_def list_update_beyond)
  then show ?thesis using assms by (simp add: xn_inv_def)
qed

lemma xn_step_inv: "xn_step s s' \<Longrightarrow> xn_inv s \<Longrightarrow> xn_inv s'"
proof (induction rule: xn_step.induct)
  case (pop s t i m p)
  then show ?case by (intro inv_pop)
next
  case (pop_none s t m)
  then have "m = mngr s" using pop_free_ok [OF xn_invD(1)] by fastforce
  with pop_none show ?case by (auto simp: xn_inv_def)
next
  case (start s t i p m)
  then have "m = xn_update (mngr s) i (\<lambda>xn. xn\<lparr>reply := recv_buf p, reply_sz := 0,
      xn_state := (if is_async p then IDPF_VC_XN_ASYNC else IDPF_VC_XN_WAITING),
      vc_op := p_vc_op p, async_handler := p_async_handler p\<rparr>)"
    by (auto simp: vc_xn_start_def split: if_splits)
  with start show ?case by (auto intro!: inv_own simp: carries_def expected_def)
next
  case (start_err s t i p e)
  then show ?case using inv_leave [of s t i "Returned (Inl e)"] by simp
next
  case (reinit s t i p)
  have "phase_ok ph (xn\<lparr>completed := n\<rparr>) = phase_ok ph xn" for ph xn n
    by (rule phase_ok_cong) simp_all
  with reinit show ?case
    using inv_own_same [of s t i "Ready i p"] inv_own [of s t i "Ready i p" "\<lambda>xn. xn\<lparr>completed := 0\<rparr>"] xn_invD(5) [of s t i]
    by (simp add: vc_xn_reinit_def)
next
  case (send_fail s t i p e)
  then show ?case using inv_push [of s t i "Returned (Inl e)"] by simp
next
  case (send_async s t i p)
  then show ?case using inv_leave [of s t i "Returned (Inr 0)"] by simp
next
  case (send_sync s t i p)
  then show ?case using xn_invD(5) [of s t i] by (intro inv_own_same) auto
next
  case (wake s t i p c)
  have "phase_ok ph (xn\<lparr>completed := n\<rparr>) = phase_ok ph xn" for ph xn n
    by (rule phase_ok_cong) simp_all
  with wake show ?case using xn_invD(5) [of s t i]
    by (intro inv_own) simp_all
next
  case (timeout s t i p c)
  then show ?case using xn_invD(5) [of s t i] by (intro inv_own_same) auto
next
  case (finish s t i p c r m)
  then show ?case by (intro inv_finish)
next
  case (again s t r)
  then show ?case by (auto simp: xn_inv_def)
next
  case (reply s msg handler dmas mem err m mem' c)
  then show ?case by (intro inv_reply)
next
  case (signal i s)
  then show ?case by (intro inv_signal)
next
  case (shut_bm s)
  then show ?case
    by (auto simp: xn_inv_def vc_xn_shutdown_bm_def mngr_ok_def free_slots_def)
next
  case (shut_one i s)
  then show ?case by (intro inv_shut_one)
next
  case (shut_end s)
  then show ?case by (auto simp: xn_inv_def mngr_ok_def free_slots_def)
next
  case (init s)
  then show ?case by (intro inv_init) auto
qed

lemma xn_boot_inv: "xn_inv xn_boot"
proof -
  let ?m = "\<lparr>xn_ring = replicate IDPF_VC_XN_RING_LEN
     \<lparr>completed = 0, xn_state = IDPF_VC_XN_IDLE, reply_sz = 0, reply = \<lparr>iov_base = NULL, iov_len = 0\<rparr>,
      async_handler = NULL, vc_op = 0, xn_idx = 0, xn_salt = 0\<rparr>,
     free_xn_bm = replicate IDPF_VC_XN_RING_LEN False, mngr_salt = 0, mngr_active = False\<rparr>"
  have "mngr_ok xn_fresh" "\<forall>i < IDPF_VC_XN_RING_LEN. xn_state (xn_ring xn_fresh ! i) = IDPF_VC_XN_IDLE"
    unfolding xn_fresh_def by (rule init_ok, simp) (auto intro: init_ok)
  then show ?thesis by (simp add: xn_inv_def xn_boot_def free_slots_def)
qed

lemma xn_runs_inv: "xn_step\<^sup>*\<^sup>* xn_boot s \<Longrightarrow> xn_inv s"
  by (induction rule: rtranclp_induct) (auto intro: xn_boot_inv xn_step_inv)

section \<open>Waiting slots have a waiter\<close>

definition waited :: "xn_sys \<Rightarrow> bool" where
  "waited s \<longleftrightarrow> (\<forall>i < IDPF_VC_XN_RING_LEN. xn_state (xn_ring (mngr s) ! i) = IDPF_VC_XN_WAITING \<longrightarrow>
     (\<exists>t. slot_of (thr s t) = Some i))"

lemma waited_frame:
  assumes "waited s"
    and "\<And>j. j < IDPF_VC_XN_RING_LEN \<Longrightarrow> xn_state (xn_ring (mngr s') ! j) = IDPF_VC_XN_WAITING \<Longrightarrow>
      xn_state (xn_ring (mngr s) ! j) = IDPF_VC_XN_WAITING"
    and "\<And>j t. xn_state (xn_ring (mngr s') ! j) = IDPF_VC_XN_WAITING \<Longrightarrow> slot_of (thr s t) = Some j \<Longrightarrow>
      slot_of (thr s' t) = Some j"
  shows "waited s'"
  using assms unfolding waited_def by metis

lemma state_of_update:
  assumes "mngr_ok m" and "i < IDPF_VC_XN_RING_LEN"
  shows "xn_state (xn_ring (xn_update m i f) ! j) =
    (if j = i then xn_state (f (xn_ring m ! i)) else xn_state (xn_ring m ! j))"
  using assms by (simp add: mngr_ok_def)

lemma state_of_push:
  assumes "mngr_ok m" and "i < IDPF_VC_XN_RING_LEN"
  shows "xn_state (xn_ring (idpf_vc_xn_push_free m i) ! j) =
    (if j = i then if xn_state (xn_ring m ! i) = IDPF_VC_XN_SHUTDOWN then IDPF_VC_XN_SHUTDOWN else IDPF_VC_XN_IDLE
     else xn_state (xn_ring m ! j))"
  using push_free_ok [OF assms] by simp

lemma reply_waiting:
  assumes "mngr_ok m" and "vc_xn_reply_locked handler dmas m mem msg = (err, m', mem', c)"
    and "xn_state (xn_ring m' ! j) = IDPF_VC_XN_WAITING"
  shows "xn_state (xn_ring m ! j) = IDPF_VC_XN_WAITING"
proof -
  obtain e where e: "reply_result dmas m mem msg err m' mem' e"
    using vc_xn_reply_locked_result [OF assms(1,2)] by blast
  show ?thesis
  proof (cases e)
    case (Delivered i)
    then obtain xn' where i: "i < IDPF_VC_XN_RING_LEN" "vc_xn_deliver dmas mem msg (xn_ring m ! i) = (err, xn', mem')"
        "m' = xn_update m i (\<lambda>_. xn')" using e by (auto simp: reply_result_def)
    then show ?thesis
      using assms(1,3) vc_xn_deliver_fields(1) [OF i(2)] by (auto simp: state_of_update split: if_splits)
  next
    case (Async i)
    then obtain z where i: "i < IDPF_VC_XN_RING_LEN"
        "m' = idpf_vc_xn_push_free (xn_update m i (\<lambda>xn. xn\<lparr>reply_sz := z\<rparr>)) i"
      using e by (auto simp: reply_result_def)
    have "mngr_ok (xn_update m i (\<lambda>xn. xn\<lparr>reply_sz := z\<rparr>))" using assms(1) by (intro mngr_ok_update) simp_all
    then show ?thesis
      using assms(1,3) i by (auto simp: state_of_push state_of_update split: if_splits)
  qed (use e assms(3) in \<open>simp add: reply_result_def\<close>)
qed

lemma waited_release:
  assumes "waited s" and "xn_inv s" and "slot_of (thr s t) = Some i"
    and "xn_state (xn_ring m ! i) \<noteq> IDPF_VC_XN_WAITING" and "\<And>j. j \<noteq> i \<Longrightarrow> xn_ring m ! j = xn_ring (mngr s) ! j"
  shows "waited (s\<lparr>mngr := m, thr := (thr s)(t := ph)\<rparr>)"
proof (rule waited_frame [OF assms(1)])
  fix j u assume j: "xn_state (xn_ring (mngr (s\<lparr>mngr := m, thr := (thr s)(t := ph)\<rparr>)) ! j) = IDPF_VC_XN_WAITING"
    "slot_of (thr s u) = Some j"
  then have "j \<noteq> i" using assms(4) by auto
  then have "u \<noteq> t" using j(2) assms(3) by auto
  then show "slot_of (thr (s\<lparr>mngr := m, thr := (thr s)(t := ph)\<rparr>) u) = Some j" using j(2) by simp
next
  fix j assume "j < IDPF_VC_XN_RING_LEN"
    "xn_state (xn_ring (mngr (s\<lparr>mngr := m, thr := (thr s)(t := ph)\<rparr>)) ! j) = IDPF_VC_XN_WAITING"
  then show "xn_state (xn_ring (mngr s) ! j) = IDPF_VC_XN_WAITING" using assms(4,5) by (cases "j = i") auto
qed

lemma waited_keep:
  assumes "waited s" and "slot_of (thr s t) = Some i" and "slot_of ph = Some i"
    and "\<And>j. j \<noteq> i \<Longrightarrow> xn_ring m ! j = xn_ring (mngr s) ! j"
  shows "waited (s\<lparr>mngr := m, thr := (thr s)(t := ph)\<rparr>)"
  unfolding waited_def
proof (intro allI impI)
  fix j assume j: "j < IDPF_VC_XN_RING_LEN"
    "xn_state (xn_ring (mngr (s\<lparr>mngr := m, thr := (thr s)(t := ph)\<rparr>)) ! j) = IDPF_VC_XN_WAITING"
  show "\<exists>u. slot_of (thr (s\<lparr>mngr := m, thr := (thr s)(t := ph)\<rparr>) u) = Some j"
  proof (cases "j = i")
    case True
    then show ?thesis using assms(3) by (intro exI [of _ t]) simp
  next
    case False
    then obtain u where "slot_of (thr s u) = Some j" using assms(1,4) j by (auto simp: waited_def)
    with False assms(2) show ?thesis by (intro exI [of _ u]) auto
  qed
qed

lemma waited_env:
  assumes "waited s" and "\<And>j. xn_state (xn_ring m ! j) = IDPF_VC_XN_WAITING \<Longrightarrow>
    xn_state (xn_ring (mngr s) ! j) = IDPF_VC_XN_WAITING"
  shows "waited (s\<lparr>mngr := m, pend := q\<rparr>)"
  using assms by (auto simp: waited_def)

end
