(* ===== verification/Idpf_Vc_Xn_Results.thy ===== *)
theory Idpf_Vc_Xn_Results
  imports Idpf_Vc_Xn_Safety
begin

text \<open>
  The results on virtchnl transactions: slots are never shared, a reply reaches only the thread that
  waits for it and only its buffer, what \<open>idpf_vc_xn_exec\<close> returns, and a wake-up that a concurrent
  shutdown can lose.
\<close>

lemma waited_same:
  assumes "waited s" and "slot_of (thr s t) = Some i" and "slot_of ph = Some i"
  shows "waited (s\<lparr>thr := (thr s)(t := ph)\<rparr>)"
  using waited_keep [OF assms, of "mngr s"] by simp

lemma waited_thr:
  assumes "waited s" and "slot_of (thr s t) = None"
  shows "waited (s\<lparr>thr := (thr s)(t := ph)\<rparr>)"
  using assms unfolding waited_def by (metis fun_upd_other option.distinct(1) xn_sys.select_convs(1,2)
      xn_sys.surjective xn_sys.update_convs(2))

lemma xn_step_waited: "xn_step s s' \<Longrightarrow> xn_inv s \<Longrightarrow> waited s \<Longrightarrow> waited s'"
proof (induction rule: xn_step.induct)
  case (pop s t i m p)
  then have "xn_state (xn_ring m ! j) = xn_state (xn_ring (mngr s) ! j)" for j
    using pop_free_ok [OF xn_invD(1) pop.hyps(2)] by (cases "j = i") auto
  then have "waited (s\<lparr>mngr := m, pend := pend s\<rparr>)" using pop by (intro waited_env) auto
  then show ?case using waited_thr [of "s\<lparr>mngr := m\<rparr>" t] pop.hyps(1) by simp
next
  case (pop_none s t m)
  then have "m = mngr s" using pop_free_ok [OF xn_invD(1)] by fastforce
  with pop_none show ?case using waited_thr [of s t] by simp
next
  case (start s t i p m)
  then show ?case by (intro waited_keep) (auto simp: vc_xn_start_def split: if_splits)
next
  case (start_err s t i p e)
  then have "xn_state (xn_ring (mngr s) ! i) \<noteq> IDPF_VC_XN_WAITING" by (simp add: vc_xn_start_def split: if_splits)
  then show ?case using waited_release [of s t i "mngr s" "Returned (Inl e)"] start_err by simp
next
  case (reinit s t i p)
  then show ?case by (intro waited_keep) (auto simp: vc_xn_reinit_def)
next
  case (send_fail s t i p e)
  then show ?case using push_free_ok [OF xn_invD(1,3), of s s t i]
    by (intro waited_release) (auto split: if_splits)
next
  case (send_async s t i p)
  then have "xn_state (xn_ring (mngr s) ! i) \<noteq> IDPF_VC_XN_WAITING"
    using xn_invD(5) [of s t i] by (auto simp: carries_def expected_def)
  then show ?case using waited_release [of s t i "mngr s" "Returned (Inr 0)"] send_async by simp
next
  case (send_sync s t i p)
  then show ?case by (intro waited_same) auto
next
  case (wake s t i p c)
  then show ?case by (intro waited_keep) auto
next
  case (timeout s t i p c)
  then show ?case by (intro waited_same) auto
next
  case (finish s t i p c r m)
  note ok = xn_invD(1,3) [OF finish.prems(1)]
  have "xn_state (xn_ring m ! i) \<noteq> IDPF_VC_XN_WAITING" "\<And>j. j \<noteq> i \<Longrightarrow> xn_ring m ! j = xn_ring (mngr s) ! j"
    using finish.hyps push_free_ok [OF ok(1) ok(2), of t i]
    by (auto simp: vc_xn_finish_def split: idpf_vc_xn_state.splits)
  with finish show ?case by (intro waited_release) auto
next
  case (again s t r)
  then show ?case by (intro waited_thr) auto
next
  case (reply s msg handler dmas mem err m mem' c)
  then show ?case using reply_waiting [OF xn_invD(1)] by (intro waited_env) blast+
next
  case (signal i s)
  have "xn_state (xn_ring (vc_xn_complete (mngr s) i) ! j) = xn_state (xn_ring (mngr s) ! j)" for j
    by (cases "j = i"; cases "i < length (xn_ring (mngr s))")
      (simp_all add: vc_xn_complete_def xn_update_def list_update_beyond)
  with signal show ?case by (intro waited_env) auto
next
  case (shut_bm s)
  then show ?case by (simp add: waited_def vc_xn_shutdown_bm_def)
next
  case (shut_one i s)
  have "waited (s\<lparr>mngr := vc_xn_shutdown_one (mngr s) i, pend := pend s\<rparr>)"
    using shut_one xn_invD(1) [of s]
    by (intro waited_env) (auto simp: vc_xn_shutdown_one_def state_of_update split: if_splits)
  then show ?case by simp
next
  case (shut_end s)
  then show ?case by (simp add: waited_def)
next
  case (init s)
  then show ?case
    using init_ok(2) [of "mngr s"] by (cases "mngr_active (mngr s)") (auto simp: waited_def idpf_vc_xn_init_def)
qed

lemma xn_boot_waited: "waited xn_boot"
  using init_ok(2) by (simp add: waited_def xn_boot_def xn_fresh_def)

lemma xn_runs_waited: "xn_step\<^sup>*\<^sup>* xn_boot s \<Longrightarrow> waited s"
  by (induction rule: rtranclp_induct) (auto intro: xn_boot_waited xn_step_waited xn_runs_inv)

section \<open>Exclusive slots\<close>

text \<open>
  C9. In every state that threads, replies and a shutdown can reach by interleaving: a slot in the
  free list is idle or shut down and in nobody's hands; no two threads hold the same slot; the warning
  that a popped transaction is not idle never fires; a thread that stops waiting finds one of the four
  states that \<open>idpf_vc_xn_exec\<close> handles (its ``invalid state'' branch is dead), and its slot still
  carries the cookie it sent.
\<close>

theorem vc_xn_slots_exclusive:
  assumes "xn_step\<^sup>*\<^sup>* xn_boot s"
  shows "(\<forall>i \<in> free_slots (mngr s). xn_state (xn_ring (mngr s) ! i) \<in> idle_states \<and> (\<forall>t. slot_of (thr s t) \<noteq> Some i)) \<and>
    (\<forall>t t' i. slot_of (thr s t) = Some i \<and> slot_of (thr s t') = Some i \<longrightarrow> t = t') \<and>
    (\<forall>t i p. thr s t = Popped i p \<longrightarrow> \<not> vc_xn_start_warns (mngr s) i) \<and>
    (\<forall>t i p c. thr s t = Woken i p c \<longrightarrow> c = vc_xn_cookie (xn_ring (mngr s) ! i) \<and>
       xn_state (xn_ring (mngr s) ! i) \<in> {IDPF_VC_XN_SHUTDOWN, IDPF_VC_XN_WAITING,
         IDPF_VC_XN_COMPLETED_SUCCESS, IDPF_VC_XN_COMPLETED_FAILED})"
proof -
  note d = xn_invD [OF xn_runs_inv [OF assms]]
  have "\<forall>i \<in> free_slots (mngr s). xn_state (xn_ring (mngr s) ! i) \<in> idle_states \<and> (\<forall>t. slot_of (thr s t) \<noteq> Some i)"
    using d(2,4) by blast
  moreover have "\<forall>t t' i. slot_of (thr s t) = Some i \<and> slot_of (thr s t') = Some i \<longrightarrow> t = t'"
    using d(6) by blast
  moreover have "\<not> vc_xn_start_warns (mngr s) i" if "thr s t = Popped i p" for t i p
    using d(5) [of t i] that by (auto simp: vc_xn_start_warns_def)
  moreover have "c = vc_xn_cookie (xn_ring (mngr s) ! i) \<and> xn_state (xn_ring (mngr s) ! i) \<in> {IDPF_VC_XN_SHUTDOWN,
      IDPF_VC_XN_WAITING, IDPF_VC_XN_COMPLETED_SUCCESS, IDPF_VC_XN_COMPLETED_FAILED}"
    if "thr s t = Woken i p c" for t i p c
    using d(5) [of t i] that by (auto simp: carries_def expected_def)
  ultimately show ?thesis by blast
qed

text \<open>A first thread has sent a synchronous request through slot 0 and waits.\<close>

definition demo_params :: idpf_vc_xn_params where
  "demo_params = \<lparr>send_buf = \<lparr>iov_base = 0x800, iov_len = 8\<rparr>, recv_buf = \<lparr>iov_base = 0x1000, iov_len = 4\<rparr>,
     is_async = False, p_async_handler = NULL, p_vc_op = 1\<rparr>"

definition demo_slot :: idpf_vc_xn where
  "demo_slot = \<lparr>completed = 0, xn_state = IDPF_VC_XN_WAITING, reply_sz = 0, reply = recv_buf demo_params,
     async_handler = NULL, vc_op = 1, xn_idx = 0, xn_salt = 0\<rparr>"

definition demo_popped :: idpf_vc_xn_manager where
  "demo_popped = snd (idpf_vc_xn_pop_free xn_fresh)"

definition demo_mngr :: idpf_vc_xn_manager where
  "demo_mngr = xn_update demo_popped 0 (\<lambda>_. demo_slot)"

definition demo_armed :: xn_sys where
  "demo_armed = \<lparr>mngr = demo_mngr, thr = (\<lambda>_. Outside)(0 := Armed 0 demo_params), pend = []\<rparr>"

definition demo_sys :: xn_sys where
  "demo_sys = \<lparr>mngr = demo_mngr, thr = (\<lambda>_. Outside)(0 := Waiting 0 demo_params 0), pend = []\<rparr>"

lemma find_first_bit_0: "0 < length bm \<Longrightarrow> bm ! 0 \<Longrightarrow> find_first_bit bm = 0"
  by (cases bm) (simp_all add: find_first_bit_def)

lemma xn_fresh_0:
  "xn_ring xn_fresh ! 0 = \<lparr>completed = 0, xn_state = IDPF_VC_XN_IDLE, reply_sz = 0, reply = \<lparr>iov_base = NULL, iov_len = 0\<rparr>,
      async_handler = NULL, vc_op = 0, xn_idx = 0, xn_salt = 0\<rparr>"
  "length (xn_ring xn_fresh) = 255" "mngr_salt xn_fresh = 0" "mngr_active xn_fresh" "free_xn_bm xn_fresh = replicate 255 True"
  by (simp_all add: xn_fresh_def idpf_vc_xn_init_def idpf_vc_xn_release_bufs_def Let_def)

lemma demo_pop: "idpf_vc_xn_pop_free xn_fresh = (Some 0, demo_popped)"
  unfolding demo_popped_def
  by (simp add: idpf_vc_xn_pop_free_def xn_fresh_0 find_first_bit_0 Let_def)

lemma demo_popped_0:
  "xn_ring demo_popped ! 0 = xn_ring xn_fresh ! 0" "length (xn_ring demo_popped) = 255" "mngr_active demo_popped"
  by (simp_all add: demo_popped_def idpf_vc_xn_pop_free_def xn_fresh_0 find_first_bit_0 Let_def)

lemma demo_start: "vc_xn_start demo_popped 0 demo_params = Inr demo_mngr"
  by (simp add: vc_xn_start_def demo_popped_0 xn_fresh_0 demo_mngr_def demo_slot_def demo_params_def xn_update_def)

lemma demo_armed_reachable: "xn_step\<^sup>*\<^sup>* xn_boot demo_armed"
proof -
  let ?s = "xn_boot\<lparr>mngr := demo_popped, thr := (thr xn_boot)(0 := Popped 0 demo_params)\<rparr>"
  have "xn_step xn_boot ?s"
    by (rule xn_step.pop) (simp_all add: xn_boot_def demo_pop)
  moreover have "xn_step ?s (?s\<lparr>mngr := demo_mngr, thr := (thr ?s)(0 := Armed 0 demo_params)\<rparr>)"
    by (rule xn_step.start) (simp_all add: demo_start)
  moreover have "?s\<lparr>mngr := demo_mngr, thr := (thr ?s)(0 := Armed 0 demo_params)\<rparr> = demo_armed"
    by (simp add: demo_armed_def xn_boot_def)
  ultimately show ?thesis by (metis converse_rtranclp_into_rtranclp r_into_rtranclp)
qed

lemma demo_slot_0: "xn_ring demo_mngr ! 0 = demo_slot" "vc_xn_cookie demo_slot = 0"
  by (simp_all add: demo_mngr_def demo_popped_0 demo_slot_def vc_xn_cookie_def)

lemma demo_reachable: "xn_step\<^sup>*\<^sup>* xn_boot demo_sys"
proof -
  let ?r = "demo_armed\<lparr>mngr := vc_xn_reinit (mngr demo_armed) 0 demo_params, thr := (thr demo_armed)(0 := Ready 0 demo_params)\<rparr>"
  have "xn_step demo_armed ?r"
    by (rule xn_step.reinit) (simp add: demo_armed_def)
  moreover have m: "vc_xn_reinit demo_mngr 0 demo_params = demo_mngr"
    by (simp add: vc_xn_reinit_def demo_params_def demo_mngr_def xn_update_def demo_popped_0 demo_slot_def)
  moreover have "xn_step ?r (?r\<lparr>thr := (thr ?r)(0 := Waiting 0 demo_params (vc_xn_cookie (xn_ring (mngr ?r) ! 0)))\<rparr>)"
    by (rule xn_step.send_sync) (simp_all add: demo_params_def)
  moreover have "?r\<lparr>thr := (thr ?r)(0 := Waiting 0 demo_params (vc_xn_cookie (xn_ring (mngr ?r) ! 0)))\<rparr> = demo_sys"
    by (simp add: demo_armed_def demo_sys_def m demo_slot_0)
  ultimately show ?thesis
    using demo_armed_reachable by (metis (no_types, lifting) rtranclp.rtrancl_into_rtrancl)
qed

theorem vc_xn_slots_exclusive_witness:
  "xn_step\<^sup>*\<^sup>* xn_boot demo_sys \<and> thr demo_sys 0 = Waiting 0 demo_params 0 \<and> 0 \<notin> free_slots (mngr demo_sys)"
proof -
  have t: "thr demo_sys 0 = Waiting 0 demo_params 0" by (simp add: demo_sys_def)
  then have "slot_of (thr demo_sys 0) = Some 0" by simp
  with vc_xn_slots_exclusive [OF demo_reachable] have "0 \<notin> free_slots (mngr demo_sys)" by metis
  with t demo_reachable show ?thesis by simp
qed

section \<open>Replies reach their sender only\<close>

lemma memcpy_bounds: "memcpy d s n mem a \<noteq> mem a \<Longrightarrow> unat (a - d) < n"
  by (auto simp: memcpy_def split: if_splits)

text \<open>
  C10. Whenever the reply path writes memory, in any reachable state and for any message that does not
  answer an unsent request, some thread is still waiting for exactly that cookie with exactly that
  opcode, and only bytes of this thread's receive buffer change: never beyond its length, never beyond
  the payload.  In particular a belated reply never touches the buffer of a call that has returned.
\<close>

theorem vc_xn_reply_in_bounds:
  assumes "xn_step\<^sup>*\<^sup>* xn_boot s" and "\<not> unsent s (vc_msg_cookie msg)"
    and "idpf_vc_xn_forward_reply handler dmas (mngr s) mem msg = (err, m', mem')" and "mem' a \<noteq> mem a"
  shows "\<exists>t i p. thr s t \<in> {Waiting i p (vc_msg_cookie msg), Woken i p (vc_msg_cookie msg)} \<and>
     m_chnl_opcode msg = p_vc_op p \<and> m_chnl_retval msg = 0 \<and> err = ret_ok \<and>
     unat (a - iov_base (recv_buf p)) < min (iov_len (recv_buf p)) (unat (m_data_len msg)) \<and>
     mem' a = mem (dma_va (dmas (m_payload msg)) + (a - iov_base (recv_buf p)))"
proof -
  note d = xn_invD [OF xn_runs_inv [OF assms(1)]]
  obtain m c where run: "vc_xn_reply_locked handler dmas (mngr s) mem msg = (err, m, mem', c)"
    using assms(3) by (auto simp: idpf_vc_xn_forward_reply_def split: prod.splits option.splits)
  obtain e where e: "reply_result dmas (mngr s) mem msg err m mem' e"
    using vc_xn_reply_locked_result [OF d(1) run] by blast
  with assms(4) obtain i where ei: "e = Delivered i"
    by (cases e) (auto simp: reply_result_def)
  let ?xn = "xn_ring (mngr s) ! i"
  obtain xn' where i: "i < IDPF_VC_XN_RING_LEN" "vc_msg_cookie msg = vc_xn_cookie ?xn"
      "xn_state ?xn = IDPF_VC_XN_WAITING" "vc_xn_deliver dmas mem msg ?xn = (err, xn', mem')"
    using e ei by (auto simp: reply_result_def)
  then obtain t where t: "slot_of (thr s t) = Some i"
    using xn_runs_waited [OF assms(1)] by (auto simp: waited_def)
  have "\<exists>p. thr s t \<in> {Waiting i p (vc_msg_cookie msg), Woken i p (vc_msg_cookie msg)} \<and> carries p ?xn"
    using d(5) [OF t] t i(2,3) assms(2) by (cases "thr s t") (auto simp: unsent_def)
  then obtain p where p: "thr s t \<in> {Waiting i p (vc_msg_cookie msg), Woken i p (vc_msg_cookie msg)}"
      "vc_op ?xn = p_vc_op p" "reply ?xn = recv_buf p"
    using i(3) by (auto simp: carries_def)
  let ?n = "min (iov_len (recv_buf p)) (unat (m_data_len msg))" and ?pl = "dma_va (dmas (m_payload msg))"
  have w: "m_chnl_opcode msg = p_vc_op p" "m_chnl_retval msg = 0" "err = ret_ok"
      "mem' = memcpy (iov_base (recv_buf p)) ?pl ?n mem"
    using i(4) p(2,3) assms(4) by (auto simp: vc_xn_deliver_def Let_def unat_eq_zero split: if_splits)
  have "unat (a - iov_base (recv_buf p)) < ?n"
    using memcpy_bounds assms(4) unfolding w(4) by blast
  then show ?thesis
    using p(1) w by (intro exI [of _ t] exI [of _ i] exI [of _ p]) (simp add: memcpy_def)
qed

text \<open>The reply has eight bytes of payload, the receive buffer four.\<close>

definition demo_reply :: idpf_ctlq_msg where
  "demo_reply = \<lparr>m_vmvf_type = 0, m_host_id = 0, m_opcode = 0, m_data_len = 8, m_status = 0, m_chnl_opcode = 1,
     m_chnl_retval = 0, m_ctx0 = 0, m_ctx1 = 0, m_payload = 0x60\<rparr>"

definition demo_payload :: dma_store where
  "demo_payload p = \<lparr>dma_va = 0x9000, dma_pa = 0, dma_size = 4096\<rparr>"

definition demo_mem :: bytes where
  "demo_mem a = (if a \<ge> 0x9000 then 0xAB else 0)"

lemma demo_forward:
  "idpf_vc_xn_forward_reply (\<lambda>_ _ _. ret_ok) demo_payload demo_mngr demo_mem demo_reply =
    (ret_ok, vc_xn_complete (xn_update demo_mngr 0 (\<lambda>_. demo_slot\<lparr>reply_sz := 8,
       xn_state := IDPF_VC_XN_COMPLETED_SUCCESS\<rparr>)) 0, memcpy 0x1000 0x9000 4 demo_mem)"
  by (simp add: idpf_vc_xn_forward_reply_def vc_xn_reply_locked_def vc_msg_cookie_def demo_reply_def Let_def
      demo_slot_0 demo_slot_def [of] vc_xn_deliver_def demo_payload_def demo_params_def)

theorem vc_xn_reply_in_bounds_witness:
  "\<exists>m' mem'. idpf_vc_xn_forward_reply (\<lambda>_ _ _. ret_ok) demo_payload (mngr demo_sys) demo_mem demo_reply = (ret_ok, m', mem') \<and>
     mem' 0x1003 = 0xAB \<and> mem' 0x1004 = 0 \<and> (\<exists>t i p. thr demo_sys t \<in> {Waiting i p 0, Woken i p 0} \<and> p_vc_op p = 1)"
proof -
  let ?mem = "memcpy 0x1000 0x9000 4 demo_mem"
  obtain m' where run: "idpf_vc_xn_forward_reply (\<lambda>_ _ _. ret_ok) demo_payload (mngr demo_sys) demo_mem demo_reply =
      (ret_ok, m', ?mem)"
    using demo_forward by (auto simp: demo_sys_def)
  have un: "\<not> unsent demo_sys (vc_msg_cookie demo_reply)"
    by (auto simp: unsent_def demo_sys_def)
  have b: "?mem 0x1003 = 0xAB" "?mem 0x1004 = 0" "demo_mem 0x1003 = 0"
    by (simp_all add: memcpy_def demo_mem_def)
  then have ne: "?mem 0x1003 \<noteq> demo_mem 0x1003" by simp
  have "vc_msg_cookie demo_reply = 0" "m_chnl_opcode demo_reply = 1"
    by (simp_all add: vc_msg_cookie_def demo_reply_def)
  then have "\<exists>t i p. thr demo_sys t \<in> {Waiting i p 0, Woken i p 0} \<and> p_vc_op p = 1"
    using vc_xn_reply_in_bounds [OF demo_reachable un run ne] by metis
  with run b show ?thesis by blast
qed

section \<open>What a transaction returns\<close>

definition xn_outcome :: "idpf_vc_xn \<Rightarrow> errno + nat" where
  "xn_outcome xn = (case xn_state xn of IDPF_VC_XN_SHUTDOWN \<Rightarrow> Inl ENXIO | IDPF_VC_XN_WAITING \<Rightarrow> Inl ETIME
     | IDPF_VC_XN_COMPLETED_SUCCESS \<Rightarrow> Inr (reply_sz xn) | _ \<Rightarrow> Inl EIO)"

lemma vc_xn_finish_result:
  assumes "mngr_ok m" and "i < IDPF_VC_XN_RING_LEN" and "vc_xn_finish m i = (r, m')"
  shows "r = xn_outcome (xn_ring m ! i) \<and> mngr_ok m' \<and> (xn_state (xn_ring m ! i) \<noteq> IDPF_VC_XN_SHUTDOWN \<longrightarrow>
    i \<in> free_slots m' \<and> xn_state (xn_ring m' ! i) = IDPF_VC_XN_IDLE \<and> iov_len (reply (xn_ring m' ! i)) = 0)"
proof (cases "xn_state (xn_ring m ! i) = IDPF_VC_XN_SHUTDOWN")
  case True
  then show ?thesis using assms by (simp add: vc_xn_finish_def xn_outcome_def)
next
  case False
  then have "m' = idpf_vc_xn_push_free m i" "r = xn_outcome (xn_ring m ! i)"
    using assms(3) by (auto simp: vc_xn_finish_def xn_outcome_def split: idpf_vc_xn_state.splits)
  then show ?thesis using push_free_ok [OF assms(1,2)] False by simp
qed

text \<open>
  C11. What \<open>idpf_vc_xn_exec\<close> does on every path, whatever the other threads do while it waits:
  \<open>-ENOSPC\<close> when no slot is free; \<open>-ENXIO\<close> when the slot is shut down, before or during the wait; the
  error of the send, the slot being free again; 0 for an asynchronous request, whose slot stays
  taken; otherwise \<open>-ETIME\<close>, \<open>-EIO\<close> or the size of the reply by the final state, the slot being free and
  idle again and no longer referring to the caller's buffer.
\<close>

theorem idpf_vc_xn_exec_result:
  assumes ok: "mngr_ok m" and others: "\<forall>i m1. mngr_ok m1 \<longrightarrow> mngr_ok (meanwhile i m1)"
    and run: "idpf_vc_xn_exec send meanwhile m p = (r, m')"
  shows "if free_slots m = {} then r = Inl ENOSPC \<and> m' = m
    else \<exists>i \<in> free_slots m. mngr_ok m' \<and>
      (let xn = (xn_ring m ! i)\<lparr>xn_salt := mngr_salt m\<rparr> in
       if xn_state xn = IDPF_VC_XN_SHUTDOWN then r = Inl ENXIO
       else case send (p_vc_op p) (send_buf p) (vc_xn_cookie xn) of
          Some e \<Rightarrow> r = Inl e \<and> free_slots m' = free_slots m \<and> iov_len (reply (xn_ring m' ! i)) = 0
        | None \<Rightarrow>
            if is_async p then r = Inr 0 \<and> i \<notin> free_slots m' \<and> xn_state (xn_ring m' ! i) = IDPF_VC_XN_ASYNC
            else \<exists>m1 y. y = xn_ring (meanwhile i m1) ! i \<and> xn_state (xn_ring m1 ! i) = IDPF_VC_XN_WAITING \<and>
              reply (xn_ring m1 ! i) = recv_buf p \<and> r = xn_outcome y \<and>
              (xn_state y \<noteq> IDPF_VC_XN_SHUTDOWN \<longrightarrow> i \<in> free_slots m' \<and>
                 xn_state (xn_ring m' ! i) = IDPF_VC_XN_IDLE \<and> iov_len (reply (xn_ring m' ! i)) = 0))"
proof (cases "idpf_vc_xn_pop_free m")
  case (Pair o0 m0)
  show ?thesis
  proof (cases o0)
    case None
    then show ?thesis using pop_free_ok [OF ok Pair] run Pair by (simp add: idpf_vc_xn_exec_def)
  next
    case (Some i)
    let ?xn = "(xn_ring m ! i)\<lparr>xn_salt := mngr_salt m\<rparr>"
    have m0: "mngr_ok m0" "i \<in> free_slots m" "free_slots m0 = free_slots m - {i}" "xn_ring m0 ! i = ?xn"
      using pop_free_ok [OF ok Pair] Some by simp_all
    then have i: "i < IDPF_VC_XN_RING_LEN" by (simp add: free_slots_def)
    have ne: "free_slots m \<noteq> {}" using m0(2) by blast
    show ?thesis
    proof (cases "xn_state ?xn = IDPF_VC_XN_SHUTDOWN")
      case True
      then have "r = Inl ENXIO" "m' = m0"
        using run Pair Some m0(4) by (simp_all add: idpf_vc_xn_exec_def vc_xn_start_def)
      then show ?thesis using True ne m0(1,2) by (auto simp: Let_def)
    next
      case False
      define ms where "ms = xn_update m0 i (\<lambda>xn. xn\<lparr>reply := recv_buf p, reply_sz := 0,
             xn_state := (if is_async p then IDPF_VC_XN_ASYNC else IDPF_VC_XN_WAITING),
             vc_op := p_vc_op p, async_handler := p_async_handler p\<rparr>)"
      define m1 where "m1 = vc_xn_reinit ms i p"
      have st: "vc_xn_start m0 i p = Inr ms" using False m0(4) by (simp add: vc_xn_start_def ms_def)
      have m1: "mngr_ok m1" "free_slots m1 = free_slots m - {i}" "reply (xn_ring m1 ! i) = recv_buf p"
          "xn_state (xn_ring m1 ! i) = (if is_async p then IDPF_VC_XN_ASYNC else IDPF_VC_XN_WAITING)"
          "vc_xn_cookie (xn_ring m1 ! i) = vc_xn_cookie ?xn"
        using m0 i by (auto simp: m1_def ms_def vc_xn_reinit_def mngr_ok_update xn_ring_update_same vc_xn_cookie_def)
      have ex: "(r, m') = (case send (p_vc_op p) (send_buf p) (vc_xn_cookie ?xn) of
          Some e \<Rightarrow> (Inl e, idpf_vc_xn_push_free m1 i)
        | None \<Rightarrow> if is_async p then (Inr 0, m1) else vc_xn_finish (meanwhile i m1) i)"
        unfolding run [symmetric] idpf_vc_xn_exec_def Pair Some
        by (simp only: prod.case option.case sum.case st Let_def m1_def [symmetric] m1(5))
      show ?thesis
      proof (cases "send (p_vc_op p) (send_buf p) (vc_xn_cookie ?xn)")
        case (Some e)
        then show ?thesis
          using ex push_free_ok [OF m1(1) i] m1(2) m0(2) ne False by (auto simp: Let_def insert_absorb intro!: bexI [of _ i])
      next
        case None
        show ?thesis
        proof (cases "is_async p")
          case True
          then have "r = Inr 0" "m' = m1" using ex None by simp_all
          moreover have "i \<notin> free_slots m1" using m1(2) by simp
          ultimately show ?thesis
            using ne m0(2) m1(1,4) None False True unfolding Let_def by (simp, intro bexI [of _ i]) simp_all
        next
          case sync: False
          then have "vc_xn_finish (meanwhile i m1) i = (r, m')" using ex None by simp
          note f = vc_xn_finish_result [OF others [rule_format, OF m1(1), of i] i this]
          have "\<exists>m1 y. y = xn_ring (meanwhile i m1) ! i \<and> xn_state (xn_ring m1 ! i) = IDPF_VC_XN_WAITING \<and>
              reply (xn_ring m1 ! i) = recv_buf p \<and> r = xn_outcome y \<and>
              (xn_state y \<noteq> IDPF_VC_XN_SHUTDOWN \<longrightarrow> i \<in> free_slots m' \<and>
                 xn_state (xn_ring m' ! i) = IDPF_VC_XN_IDLE \<and> iov_len (reply (xn_ring m' ! i)) = 0)"
            using f m1(3,4) sync by (intro exI [of _ m1]) simp
          then show ?thesis
            using ne m0(2) f None False sync unfolding Let_def by (simp, intro bexI [of _ i]) simp_all
        qed
      qed
    qed
  qed
qed

text \<open>Nobody answers a request sent on a fresh manager: it times out and its slot is free again.\<close>

lemma xn_fresh_ok:
  "mngr_ok xn_fresh" "free_slots xn_fresh = {i. i < IDPF_VC_XN_RING_LEN}"
  "i < IDPF_VC_XN_RING_LEN \<Longrightarrow> xn_state (xn_ring xn_fresh ! i) = IDPF_VC_XN_IDLE"
  unfolding xn_fresh_def by (intro init_ok; simp)+

theorem idpf_vc_xn_exec_result_witness:
  "\<exists>m' i. idpf_vc_xn_exec (\<lambda>_ _ _. ret_ok) (\<lambda>_ m. m) xn_fresh demo_params = (Inl ETIME, m') \<and>
     i \<in> free_slots m' \<and> xn_state (xn_ring m' ! i) = IDPF_VC_XN_IDLE"
proof -
  obtain r m' where run: "idpf_vc_xn_exec (\<lambda>_ _ _. ret_ok) (\<lambda>_ m. m) xn_fresh demo_params = (r, m')" by fastforce
  have ne: "free_slots xn_fresh \<noteq> {}" "\<not> is_async demo_params"
    by (auto simp: xn_fresh_ok demo_params_def intro!: exI [of _ 0])
  have idle: "xn_state (xn_ring xn_fresh ! i) \<noteq> IDPF_VC_XN_SHUTDOWN" if "i \<in> free_slots xn_fresh" for i
    using that xn_fresh_ok by simp
  have "r = Inl ETIME \<and> (\<exists>i. i \<in> free_slots m' \<and> xn_state (xn_ring m' ! i) = IDPF_VC_XN_IDLE)"
    using idpf_vc_xn_exec_result [OF xn_fresh_ok(1) _ run] ne idle by (auto simp: Let_def xn_outcome_def)
  then show ?thesis using run by auto
qed

section \<open>Shutdown\<close>

definition xn_shut :: "idpf_vc_xn \<Rightarrow> bool" where
  "xn_shut xn \<longleftrightarrow> xn_state xn = IDPF_VC_XN_SHUTDOWN \<and> completed xn = COMPLETE_ALL \<and> iov_len (reply xn) = 0"

lemma shutdown_fold:
  assumes "set is \<subseteq> {i. i < length (xn_ring m)}" and "m' = foldl vc_xn_shutdown_one m is"
  shows "length (xn_ring m') = length (xn_ring m) \<and> free_xn_bm m' = free_xn_bm m \<and>
    (\<forall>j. j \<in> set is \<or> xn_shut (xn_ring m ! j) \<longrightarrow> xn_shut (xn_ring m' ! j))"
  using assms
proof (induction "is" arbitrary: m)
  case (Cons i "is")
  let ?m = "vc_xn_shutdown_one m i"
  have i: "i < length (xn_ring m)" "set is \<subseteq> {i. i < length (xn_ring ?m)}"
    using Cons.prems by (auto simp: vc_xn_shutdown_one_def)
  have "xn_shut (xn_ring ?m ! j)" if "j = i \<or> xn_shut (xn_ring m ! j)" for j
    using that i(1) by (cases "j = i") (auto simp: vc_xn_shutdown_one_def xn_shut_def)
  then show ?case using Cons.IH [OF i(2)] Cons.prems(2) by (auto simp: vc_xn_shutdown_one_def)
qed simp

lemma idpf_vc_xn_shutdown_state:
  assumes "mngr_ok m" and "mngr_active m" and "m' = idpf_vc_xn_shutdown m"
  shows "free_xn_bm m' = replicate IDPF_VC_XN_RING_LEN False \<and> \<not> mngr_active m' \<and>
    (\<forall>i < IDPF_VC_XN_RING_LEN. xn_state (xn_ring m' ! i) = IDPF_VC_XN_SHUTDOWN \<and>
       completed (xn_ring m' ! i) = COMPLETE_ALL \<and> iov_len (reply (xn_ring m' ! i)) = 0)"
proof -
  let ?b = "vc_xn_shutdown_bm m" and ?is = "[0..<IDPF_VC_XN_RING_LEN]"
  have "set ?is \<subseteq> {i. i < length (xn_ring ?b)}"
    using assms(1) by (auto simp: vc_xn_shutdown_bm_def mngr_ok_def)
  note f = shutdown_fold [OF this refl]
  have "m' = (foldl vc_xn_shutdown_one ?b ?is)\<lparr>mngr_active := False\<rparr>"
    using assms(2,3) by (simp add: idpf_vc_xn_shutdown_def)
  then show ?thesis using f by (simp add: vc_xn_shutdown_bm_def xn_shut_def)
qed

text \<open>
  \<open>idpf_vc_xn_shutdown\<close> of an active manager: no slot is free, every slot is shut down, refers to
  no reply buffer and has its completion signalled for all waiters; every later transaction returns
  \<open>-ENOSPC\<close> and every later reply with a matching cookie \<open>-ENXIO\<close>, which makes the receive loop stop.
\<close>

theorem idpf_vc_xn_shutdown_effect:
  assumes "mngr_ok m" and "mngr_active m" and "m' = idpf_vc_xn_shutdown m"
  shows "free_slots m' = {} \<and> \<not> mngr_active m' \<and>
    (\<forall>i < IDPF_VC_XN_RING_LEN. xn_state (xn_ring m' ! i) = IDPF_VC_XN_SHUTDOWN \<and>
       completed (xn_ring m' ! i) = COMPLETE_ALL \<and> iov_len (reply (xn_ring m' ! i)) = 0) \<and>
    (\<forall>send meanwhile p. idpf_vc_xn_exec send meanwhile m' p = (Inl ENOSPC, m')) \<and>
    (\<forall>handler dmas mem msg. fst (idpf_vc_xn_forward_reply handler dmas m' mem msg) \<in> {Some EINVAL, Some ENXIO})"
proof -
  have bm: "free_xn_bm m' = replicate IDPF_VC_XN_RING_LEN False" and act: "\<not> mngr_active m'"
    and slots: "\<And>i. i < IDPF_VC_XN_RING_LEN \<Longrightarrow> xn_state (xn_ring m' ! i) = IDPF_VC_XN_SHUTDOWN \<and>
       completed (xn_ring m' ! i) = COMPLETE_ALL \<and> iov_len (reply (xn_ring m' ! i)) = 0"
    using idpf_vc_xn_shutdown_state [OF assms] by blast+
  have free: "free_slots m' = {}" using bm by (auto simp: free_slots_def)
  have "find_first_bit (replicate IDPF_VC_XN_RING_LEN False) = IDPF_VC_XN_RING_LEN"
    by (simp add: find_first_bit_def takeWhile_replicate)
  then have "idpf_vc_xn_exec send meanwhile m' p = (Inl ENOSPC, m')" for send meanwhile p
    using bm by (simp add: idpf_vc_xn_exec_def idpf_vc_xn_pop_free_def)
  moreover have "fst (idpf_vc_xn_forward_reply handler dmas m' mem msg) \<in> {Some EINVAL, Some ENXIO}" for handler dmas mem msg
    using slots [of "unat (vc_msg_cookie msg AND 0xFF)"]
    by (auto simp: idpf_vc_xn_forward_reply_def vc_xn_reply_locked_def Let_def)
  ultimately show ?thesis using free act slots by blast
qed

theorem idpf_vc_xn_shutdown_effect_witness:
  "xn_state (xn_ring (idpf_vc_xn_shutdown xn_fresh) ! 7) = IDPF_VC_XN_SHUTDOWN \<and> free_slots (idpf_vc_xn_shutdown xn_fresh) = {}"
  using idpf_vc_xn_shutdown_effect [OF xn_fresh_ok(1) xn_fresh_0(4) refl] by simp

lemma shutdown_one_steps:
  "set is \<subseteq> {i. i < IDPF_VC_XN_RING_LEN} \<Longrightarrow> xn_step\<^sup>*\<^sup>* s (s\<lparr>mngr := foldl vc_xn_shutdown_one (mngr s) is\<rparr>)"
proof (induction "is" arbitrary: s)
  case (Cons i "is")
  let ?s = "s\<lparr>mngr := vc_xn_shutdown_one (mngr s) i\<rparr>"
  have "xn_step s ?s" using Cons.prems by (intro xn_step.shut_one) simp
  moreover have "xn_step\<^sup>*\<^sup>* ?s (?s\<lparr>mngr := foldl vc_xn_shutdown_one (mngr ?s) is\<rparr>)"
    using Cons.prems by (intro Cons.IH) simp
  ultimately show ?case by (simp add: converse_rtranclp_into_rtranclp)
qed simp

lemma shutdown_steps:
  assumes "mngr_active (mngr s)"
  shows "xn_step\<^sup>*\<^sup>* s (s\<lparr>mngr := idpf_vc_xn_shutdown (mngr s)\<rparr>)"
proof -
  let ?b = "s\<lparr>mngr := vc_xn_shutdown_bm (mngr s)\<rparr>"
  let ?o = "?b\<lparr>mngr := foldl vc_xn_shutdown_one (mngr ?b) [0..<IDPF_VC_XN_RING_LEN]\<rparr>"
  have "xn_step s ?b" by (rule xn_step.shut_bm)
  moreover have "xn_step\<^sup>*\<^sup>* ?b ?o" by (rule shutdown_one_steps) auto
  moreover have "xn_step ?o (?o\<lparr>mngr := (mngr ?o)\<lparr>mngr_active := False\<rparr>\<rparr>)" by (rule xn_step.shut_end)
  moreover have "?o\<lparr>mngr := (mngr ?o)\<lparr>mngr_active := False\<rparr>\<rparr> = s\<lparr>mngr := idpf_vc_xn_shutdown (mngr s)\<rparr>"
    using assms by (simp add: idpf_vc_xn_shutdown_def)
  ultimately show ?thesis by (metis (no_types, lifting) converse_rtranclp_into_rtranclp rtranclp.rtrancl_into_rtrancl)
qed

text \<open>
  A wake-up can be lost.  A thread that has armed its slot but not yet run \<open>reinit_completion\<close>
  when a whole shutdown passes ends up waiting on a slot that is shut down and whose completion
  nobody will signal any more: it sleeps until its timeout, although \<open>idpf_vc_xn_shutdown\<close> is
  documented to wake up all waiting threads.
\<close>

theorem vc_xn_shutdown_lost_wakeup:
  "\<exists>s i p c. xn_step\<^sup>*\<^sup>* xn_boot s \<and> thr s 0 = Waiting i p c \<and> \<not> mngr_active (mngr s) \<and> pend s = [] \<and>
     xn_state (xn_ring (mngr s) ! i) = IDPF_VC_XN_SHUTDOWN \<and> completed (xn_ring (mngr s) ! i) = 0"
proof -
  let ?m = "idpf_vc_xn_shutdown demo_mngr"
  let ?s = "demo_armed\<lparr>mngr := ?m\<rparr>"
  have act: "mngr_active demo_mngr" by (simp add: demo_mngr_def demo_popped_0)
  have ok: "mngr_ok demo_mngr"
    using xn_invD(1) [OF xn_runs_inv [OF demo_reachable]] by (simp add: demo_sys_def)
  have len: "length (xn_ring ?m) = 255"
    using xn_invD(1) [OF xn_runs_inv] demo_armed_reachable shutdown_steps [of demo_armed] act
    by (metis demo_armed_def mngr_ok_def rtranclp_trans xn_sys.select_convs(1) xn_sys.update_convs(1))
  note e = idpf_vc_xn_shutdown_state [OF ok act refl]
  have r1: "xn_step\<^sup>*\<^sup>* xn_boot ?s"
    using demo_armed_reachable shutdown_steps [of demo_armed] act by (simp add: demo_armed_def)
  let ?r = "?s\<lparr>mngr := vc_xn_reinit (mngr ?s) 0 demo_params, thr := (thr ?s)(0 := Ready 0 demo_params)\<rparr>"
  let ?w = "?r\<lparr>thr := (thr ?r)(0 := Waiting 0 demo_params (vc_xn_cookie (xn_ring (mngr ?r) ! 0)))\<rparr>"
  have "xn_step ?s ?r" by (rule xn_step.reinit) (simp add: demo_armed_def)
  moreover have "xn_step ?r ?w" by (rule xn_step.send_sync) (simp_all add: demo_params_def)
  ultimately have "xn_step\<^sup>*\<^sup>* xn_boot ?w" using r1 by (metis (no_types, lifting) rtranclp.rtrancl_into_rtrancl)
  moreover have "xn_ring (mngr ?w) ! 0 = (xn_ring ?m ! 0)\<lparr>completed := 0\<rparr>" "mngr_active (mngr ?w) = mngr_active ?m"
    using len by (simp_all add: vc_xn_reinit_def demo_params_def)
  ultimately show ?thesis
    using e by (intro exI [of _ ?w] exI [of _ 0] exI [of _ demo_params] exI) (simp add: demo_armed_def)
qed

end
