(* ===== verification/Idpf_Mailbox.thy ===== *)
theory Idpf_Mailbox
  imports Idpf_Controlq_Leak Idpf_Vc_Xn
begin

text \<open>
  The mailbox: the functions of \<open>idpf_virtchnl.c\<close> that put virtchnl messages on the send queue, free
  them when the device is done, and dispatch what arrives on the receive queue to the transaction
  that waits for it or to the event handler.  They tie the control queues, the transactions and the
  allocators together.

  The network stack (carrier and queue state of a net device) is a pair of flags per vport; the ADI
  reset hook of \<open>dev_ops\<close> is recorded in a log.
\<close>

section \<open>State\<close>

record idpf_ptp_secondary_mbx =
  peer_mbx_q_id :: u16
  peer_id :: u16
  smbx_valid :: bool

record idpf_vport_link =
  link_up :: bool
  vport_is_up :: bool
  link_speed_mbps :: u32
  carrier_on :: bool
  tx_started :: bool

text \<open>What the mailbox functions reach from the adapter: \<open>vport_ids\<close> and \<open>vports\<close> are the two arrays
  of \<open>idpf_adapter\<close>, up to \<open>max_vports\<close>; a \<open>NULL\<close> vport is \<open>None\<close>.\<close>

record idpf_mbx =
  wld :: idpf_world
  mb_msgs :: msg_store
  mb_mem :: bytes
  vcxn_mngr :: idpf_vc_xn_manager
  vport_ids :: "u32 list"
  vports :: "idpf_vport_link option list"
  adi_resets :: "(u16 \<times> bool) list"
  mb_overflow :: bool

definition IDPF_DFLT_MBX_Q_LEN :: nat where
  "IDPF_DFLT_MBX_Q_LEN = 64"

definition IDPF_CTLQ_MAX_BUF_LEN :: u64 where
  "IDPF_CTLQ_MAX_BUF_LEN = 4096"

definition idpf_mbq_opc_send_msg_to_peer_drv :: u16 where
  "idpf_mbq_opc_send_msg_to_peer_drv = 0x0804"

section \<open>Reclaiming sent messages\<close>

definition mb_free_msg :: "ptr \<Rightarrow> idpf_mbx \<Rightarrow> idpf_mbx" where
  "mb_free_msg q s =
     (if q = NULL then s
      else let dma_mem = m_payload (mb_msgs s q);
               w = (if dma_mem \<noteq> NULL then dma_free_attrs (dma_va (dmas (wld s) dma_mem)) (wld s) else wld s)
           in s\<lparr>wld := kfree dma_mem (kfree q w)\<rparr>)"

definition idpf_mb_clean :: "idpf_mbx \<Rightarrow> ptr \<Rightarrow> bool \<Rightarrow> ret \<times> idpf_mbx" where
  "idpf_mb_clean s sqp deinit =
     (case kcalloc (wld s) of (a, w) \<Rightarrow>
        if a = NULL then (Some ENOMEM, s\<lparr>wld := w\<rparr>)
        else case (if deinit then idpf_ctlq_clean_sq_force else idpf_ctlq_clean_sq)
                    (mb_msgs s) (cqs w sqp) IDPF_DFLT_MBX_Q_LEN (replicate IDPF_DFLT_MBX_Q_LEN NULL) of
          (err, msgs, cq, num_q_msg, q_msg) \<Rightarrow>
            let s = s\<lparr>wld := w\<lparr>cqs := (cqs w)(sqp := cq)\<rparr>, mb_msgs := msgs\<rparr>;
                s = (if err \<noteq> ret_ok then s else fold mb_free_msg (take num_q_msg q_msg) s)
            in (err, s\<lparr>wld := kfree a (wld s)\<rparr>))"

section \<open>Sending\<close>

definition idpf_ptp_is_mb_msg :: "u32 \<Rightarrow> bool" where
  "idpf_ptp_is_mb_msg op \<longleftrightarrow> op \<in> {542, 543, 544, 545, 546, 547, 548}"

definition idpf_prepare_ptp_mb_msg ::
  "idpf_ptp_secondary_mbx \<Rightarrow> u32 \<Rightarrow> idpf_ctlq_msg \<Rightarrow> idpf_ctlq_msg" where
  "idpf_prepare_ptp_mb_msg smbx op m =
     (if \<not> idpf_ptp_is_mb_msg op \<or> \<not> smbx_valid smbx then m
      else m\<lparr>m_opcode := idpf_mbq_opc_send_msg_to_peer_drv, m_status := peer_mbx_q_id smbx,
             m_host_id := ucast (peer_id smbx)\<rparr>)"

definition zero_msg :: idpf_ctlq_msg where
  "zero_msg = \<lparr>m_vmvf_type = 0, m_host_id = 0, m_opcode = 0, m_data_len = 0, m_status = 0,
     m_chnl_opcode = 0, m_chnl_retval = 0, m_ctx0 = 0, m_ctx1 = 0, m_payload = NULL\<rparr>"

text \<open>The message as it is filled in; the software cookie is the low half of the second context word.\<close>

definition mb_build_msg ::
  "idpf_ptp_secondary_mbx \<Rightarrow> u32 \<Rightarrow> u16 \<Rightarrow> ptr \<Rightarrow> u16 \<Rightarrow> idpf_ctlq_msg" where
  "mb_build_msg smbx op msg_size dma_mem cookie =
     (let m = zero_msg\<lparr>m_status := 0, m_opcode := idpf_mbq_opc_send_msg_to_pf\<rparr>;
          m = idpf_prepare_ptp_mb_msg smbx op m;
          m = m\<lparr>m_data_len := msg_size, m_chnl_opcode := op, m_chnl_retval := 0\<rparr>
      in m\<lparr>m_payload := dma_mem, m_ctx1 := (m_ctx1 m AND NOT 0xFFFF) OR ucast cookie\<rparr>)"

text \<open>
  Allocation of the message and its buffer, then the send, with the unwinding of each failure.  The
  length is not compared with that of the buffer: \<open>mb_overflow\<close> records a copy that runs beyond it.
\<close>

definition mb_send_new ::
  "idpf_ptp_secondary_mbx \<Rightarrow> idpf_mbx \<Rightarrow> ptr \<Rightarrow> u32 \<Rightarrow> u16 \<Rightarrow> ptr \<Rightarrow> u16 \<Rightarrow> ret \<times> idpf_mbx" where
  "mb_send_new smbx s sqp op msg_size msg cookie =
     (case kcalloc (wld s) of (q, w) \<Rightarrow>
        if q = NULL then (Some ENOMEM, s\<lparr>wld := w\<rparr>)
        else case kcalloc w of (d, w) \<Rightarrow>
          if d = NULL then (Some ENOMEM, s\<lparr>wld := kfree q w\<rparr>)
          else case dma_alloc_attrs w of ((va, pa), w) \<Rightarrow>
            let w = w\<lparr>dmas := (dmas w)(d := \<lparr>dma_va = va, dma_pa = pa, dma_size = IDPF_CTLQ_MAX_BUF_LEN\<rparr>)\<rparr> in
            if va = NULL then (Some ENOMEM, s\<lparr>wld := kfree q (kfree d w)\<rparr>)
            else
              let s = s\<lparr>mb_mem := (if msg \<noteq> NULL \<and> msg_size \<noteq> 0 then memcpy va msg (unat msg_size) (mb_mem s)
                                   else mb_mem s),
                        mb_overflow := (mb_overflow s \<or> msg \<noteq> NULL \<and> unat msg_size > unat IDPF_CTLQ_MAX_BUF_LEN),
                        mb_msgs := (mb_msgs s)(q := mb_build_msg smbx op msg_size d cookie)\<rparr>
              in case idpf_ctlq_send (mb_msgs s) (dmas w) (hw w) (cqs w sqp) 1 [q] of (err, h, cq) \<Rightarrow>
                   let w = w\<lparr>hw := h, cqs := (cqs w)(sqp := cq)\<rparr> in
                   if err \<noteq> ret_ok then (err, s\<lparr>wld := kfree q (kfree d (dma_free_attrs va w))\<rparr>)
                   else (ret_ok, s\<lparr>wld := w\<rparr>))"

definition idpf_send_mb_msg ::
  "bool \<Rightarrow> idpf_ptp_secondary_mbx \<Rightarrow> idpf_mbx \<Rightarrow> ptr \<Rightarrow> u32 \<Rightarrow> u16 \<Rightarrow> ptr \<Rightarrow> u16 \<Rightarrow> ret \<times> idpf_mbx" where
  "idpf_send_mb_msg is_reset smbx s sqp op msg_size msg cookie =
     (if is_reset then (ret_ok, s)
      else case idpf_mb_clean s sqp False of
        (Some e, s) \<Rightarrow> (Some e, s)
      | (None, s) \<Rightarrow> mb_send_new smbx s sqp op msg_size msg cookie)"

section \<open>Events\<close>

definition read_le16 :: "bytes \<Rightarrow> ptr \<Rightarrow> u16" where
  "read_le16 mem a = ucast (mem a) OR push_bit 8 (ucast (mem (a + 1)))"

definition read_le32 :: "bytes \<Rightarrow> ptr \<Rightarrow> u32" where
  "read_le32 mem a = ucast (read_le16 mem a) OR push_bit 16 (ucast (read_le16 mem (a + 2)))"

record virtchnl2_event =
  ev_event :: u32
  ev_link_speed :: u32
  ev_vport_id :: u32
  ev_link_status :: u8
  ev_adi_id :: u16

definition read_event :: "bytes \<Rightarrow> ptr \<Rightarrow> virtchnl2_event" where
  "read_event mem a = \<lparr>ev_event = read_le32 mem a, ev_link_speed = read_le32 mem (a + 4),
     ev_vport_id = read_le32 mem (a + 8), ev_link_status = mem (a + 12), ev_adi_id = read_le16 mem (a + 14)\<rparr>"

text \<open>The index of the first matching id, if any: the loop of \<open>idpf_vid_to_vport\<close>.\<close>

fun vid_index :: "u32 list \<Rightarrow> u32 \<Rightarrow> nat \<Rightarrow> nat option" where
  "vid_index [] v i = None"
| "vid_index (x # xs) v i = (if x = v then Some i else vid_index xs v (i + 1))"

definition idpf_vid_to_vport :: "idpf_mbx \<Rightarrow> u32 \<Rightarrow> nat option" where
  "idpf_vid_to_vport s v_id =
     (case vid_index (vport_ids s) v_id 0 of None \<Rightarrow> None
      | Some i \<Rightarrow> if vports s ! i = None then None else Some i)"

definition vport_link_event :: "virtchnl2_event \<Rightarrow> idpf_vport_link \<Rightarrow> idpf_vport_link" where
  "vport_link_event e v =
     (let v = v\<lparr>link_speed_mbps := ev_link_speed e\<rparr> in
      if (if link_up v then 1 else 0) = ev_link_status e then v
      else let v = v\<lparr>link_up := (ev_link_status e \<noteq> 0)\<rparr> in
           if \<not> vport_is_up v then v
           else if link_up v then v\<lparr>tx_started := True, carrier_on := True\<rparr>
           else v\<lparr>tx_started := False, carrier_on := False\<rparr>)"

definition idpf_handle_event_link :: "idpf_mbx \<Rightarrow> virtchnl2_event \<Rightarrow> ret \<times> idpf_mbx" where
  "idpf_handle_event_link s e =
     (case idpf_vid_to_vport s (ev_vport_id e) of
        None \<Rightarrow> (Some EINVAL, s)
      | Some i \<Rightarrow> (ret_ok, s\<lparr>vports := (vports s)[i := map_option (vport_link_event e) (vports s ! i)]\<rparr>))"

text \<open>\<open>has_adi\<close>: the device offers the ADI reset notification.\<close>

definition idpf_recv_event_msg :: "bool \<Rightarrow> idpf_mbx \<Rightarrow> idpf_ctlq_msg \<Rightarrow> idpf_mbx" where
  "idpf_recv_event_msg has_adi s msg =
     (let buf = dmas (wld s) (m_payload msg) in
      if dma_size buf < 16 then s
      else let e = read_event (mb_mem s) (dma_va buf) in
        if ev_event e = 1 then snd (idpf_handle_event_link s e)
        else if ev_event e = 2 then
          (if has_adi then s\<lparr>adi_resets := adi_resets s @ [(ev_adi_id e, False)]\<rparr> else s)
        else if ev_event e = 3 then
          (if has_adi then s\<lparr>adi_resets := adi_resets s @ [(ev_adi_id e, True)]\<rparr> else s)
        else s)"

section \<open>Receiving\<close>

definition VIRTCHNL2_OP_EVENT :: u32 where
  "VIRTCHNL2_OP_EVENT = 522"

text \<open>What is done with one received message; the result is the return code of the forwarding.\<close>

definition mb_dispatch ::
  "(ptr \<Rightarrow> idpf_vc_xn \<Rightarrow> idpf_ctlq_msg \<Rightarrow> ret) \<Rightarrow> bool \<Rightarrow> idpf_mbx \<Rightarrow> idpf_ctlq_msg \<Rightarrow> ret \<times> idpf_mbx" where
  "mb_dispatch handler has_adi s msg =
     (if m_chnl_opcode msg = VIRTCHNL2_OP_EVENT then (ret_ok, idpf_recv_event_msg has_adi s msg)
      else case idpf_vc_xn_forward_reply handler (dmas (wld s)) (vcxn_mngr s) (mb_mem s) msg of
        (err, m, mem) \<Rightarrow> (err, s\<lparr>vcxn_mngr := m, mb_mem := mem\<rparr>))"

text \<open>
  The loop of \<open>idpf_recv_mb_msg\<close>.  It may run as long as the device fills descriptors; \<open>None\<close> is a
  run that never returns.
\<close>

partial_function (option) idpf_recv_mb_msg ::
  "(ptr \<Rightarrow> idpf_vc_xn \<Rightarrow> idpf_ctlq_msg \<Rightarrow> ret) \<Rightarrow> bool \<Rightarrow> ptr \<Rightarrow> idpf_mbx \<Rightarrow> (ret \<times> idpf_mbx) option" where
  "idpf_recv_mb_msg handler has_adi rqp s =
     (case idpf_ctlq_recv (Some (cqs (wld s) rqp)) 1 [zero_msg] of (err, cqo, num_recv, q_msg) \<Rightarrow>
        let s = s\<lparr>wld := (wld s)\<lparr>cqs := (cqs (wld s))(rqp := the cqo)\<rparr>\<rparr> in
        if err \<noteq> ret_ok \<or> num_recv = 0 then Some (err, s)
        else let msg = hd q_msg;
                 dma_mem = (if m_data_len msg \<noteq> 0 then m_payload msg else NULL);
                 num_recv = (if m_data_len msg \<noteq> 0 then num_recv else 0);
                 buffs = (if num_recv = 0 then [] else [dma_mem]) in
          case mb_dispatch handler has_adi s msg of (err, s) \<Rightarrow>
            Option.bind (idpf_ctlq_post_rx_buffs (dmas (wld s)) (hw (wld s)) (cqs (wld s) rqp) num_recv buffs)
              (\<lambda>(post_err, h, cq, rest).
                 let s = s\<lparr>wld := (wld s)\<lparr>hw := h, cqs := (cqs (wld s))(rqp := cq)\<rparr>\<rparr> in
                 if post_err \<noteq> ret_ok
                 then Some (err, if dma_mem \<noteq> NULL
                        then s\<lparr>wld := dma_free_attrs (dma_va (dmas (wld s) dma_mem)) (wld s)\<rparr> else s)
                 else if err \<noteq> ret_ok then Some (err, s)
                 else idpf_recv_mb_msg handler has_adi rqp s))"

end
