(* ===== verification/Idpf_Mailbox_Safety.thy ===== *)
theory Idpf_Mailbox_Safety
  imports Idpf_Mailbox
begin

text \<open>
  Ownership of mailbox messages: every message in flight owns its descriptor, its payload object
  and its DMA area, and nothing else is kept; sending and reclaiming preserve this on every path.
\<close>

section \<open>What the messages in flight own\<close>

definition mb_queue :: "ptr \<Rightarrow> idpf_mbx \<Rightarrow> ptr list" where
  "mb_queue p s = sq_msgs (cqs (wld s) p)"

definition payload_of :: "idpf_mbx \<Rightarrow> ptr \<Rightarrow> ptr" where
  "payload_of s q = m_payload (mb_msgs s q)"

definition msg_objs :: "idpf_mbx \<Rightarrow> ptr list \<Rightarrow> ptr list" where
  "msg_objs s qs = concat (map (\<lambda>q. [q, payload_of s q]) qs)"

definition msg_areas :: "idpf_mbx \<Rightarrow> ptr list \<Rightarrow> ptr list" where
  "msg_areas s qs = map (\<lambda>q. area (wld s) (payload_of s q)) qs"

definition msgs_ok :: "idpf_mbx \<Rightarrow> ptr list \<Rightarrow> bool" where
  "msgs_ok s qs \<longleftrightarrow> distinct (msg_objs s qs) \<and> NULL \<notin> set (msg_objs s qs) \<and>
     distinct (msg_areas s qs) \<and> NULL \<notin> set (msg_areas s qs)"

text \<open>Since \<open>w0\<close> exactly the objects of the messages \<open>qs\<close>, and \<open>K\<close>, were taken.\<close>

definition msgs_own :: "idpf_world \<Rightarrow> ptr set \<Rightarrow> ptr list \<Rightarrow> idpf_mbx \<Rightarrow> bool" where
  "msgs_own w0 K qs s \<longleftrightarrow> msgs_ok s qs \<and> K \<inter> set (msg_objs s qs) = {} \<and>
     owns w0 (K \<union> set (msg_objs s qs)) (set (msg_areas s qs)) (wld s)"

lemma msg_objs_Cons [simp]: "msg_objs s (q # qs) = q # payload_of s q # msg_objs s qs"
  "msg_objs s [] = []" "msg_areas s (q # qs) = area (wld s) (payload_of s q) # msg_areas s qs" "msg_areas s [] = []"
  by (simp_all add: msg_objs_def msg_areas_def)

lemma msg_objs_append [simp]: "msg_objs s (qs @ rs) = msg_objs s qs @ msg_objs s rs"
  "msg_areas s (qs @ rs) = msg_areas s qs @ msg_areas s rs"
  by (simp_all add: msg_objs_def msg_areas_def)

lemma msgs_ok_distinct: "msgs_ok s qs \<Longrightarrow> distinct qs"
proof (induction qs)
  case (Cons q qs)
  have "set qs \<subseteq> set (msg_objs s qs)" by (auto simp: msg_objs_def)
  with Cons show ?case by (auto simp: msgs_ok_def)
qed simp

lemma msg_objs_cong:
  assumes "\<And>q. q \<in> set qs \<Longrightarrow> payload_of s' q = payload_of s q"
    and "\<And>d. d \<in> payload_of s ` set qs \<Longrightarrow> dmas (wld s') d = dmas (wld s) d"
  shows "msg_objs s' qs = msg_objs s qs" "msg_areas s' qs = msg_areas s qs"
proof -
  show "msg_objs s' qs = msg_objs s qs"
    using assms(1) by (auto simp: msg_objs_def intro!: arg_cong [of _ _ concat])
  show "msg_areas s' qs = msg_areas s qs"
    using assms by (auto simp: msg_areas_def area_def)
qed

lemma msgs_own_cong:
  assumes "msgs_own w0 K qs s" and "\<And>q. q \<in> set qs \<Longrightarrow> payload_of s' q = payload_of s q"
    and "\<And>d. d \<in> payload_of s ` set qs \<Longrightarrow> dmas (wld s') d = dmas (wld s) d"
    and "live (wld s') = live (wld s)" "dma_live (wld s') = dma_live (wld s)" "bad_free (wld s') = bad_free (wld s)"
  shows "msgs_own w0 K qs s'"
  using assms(1,4-6) msg_objs_cong [OF assms(2,3)] by (simp add: msgs_own_def msgs_ok_def owns_def)

section \<open>Freeing messages\<close>

lemma mb_free_msg_own:
  assumes "msgs_own w0 K (q # qs) s"
  shows "msgs_own w0 K qs (mb_free_msg q s)"
proof -
  let ?d = "payload_of s q" and ?v = "area (wld s) (payload_of s q)"
  let ?O = "set (msg_objs s qs)" and ?A = "set (msg_areas s qs)"
  have h: "q \<noteq> NULL" "?d \<noteq> NULL" "?v \<noteq> NULL" "q \<noteq> ?d" "q \<notin> ?O" "?d \<notin> ?O" "?v \<notin> ?A" "q \<notin> K" "?d \<notin> K"
      "K \<inter> ?O = {}" "msgs_ok s qs"
      "owns w0 (insert q (insert ?d (K \<union> ?O))) (insert ?v ?A) (wld s)"
    using assms by (auto simp: msgs_own_def msgs_ok_def)
  have eq: "mb_free_msg q s = s\<lparr>wld := kfree ?d (kfree q (dma_free_attrs ?v (wld s)))\<rparr>"
    using h(1,2) by (simp add: mb_free_msg_def payload_of_def area_def Let_def)
  have "owns w0 (K \<union> ?O) ?A (kfree ?d (kfree q (dma_free_attrs ?v (wld s))))"
    using dma_free_owns [OF h(12,7,3)] h by (intro kfree_owns) auto
  moreover have "msg_objs (mb_free_msg q s) qs = msg_objs s qs" "msg_areas (mb_free_msg q s) qs = msg_areas s qs"
    by (rule msg_objs_cong; simp add: eq payload_of_def)+
  ultimately show ?thesis using h(10,11) eq by (simp add: msgs_own_def msgs_ok_def)
qed

lemma mb_free_msg_stores:
  "cqs (wld (mb_free_msg q s)) = cqs (wld s)" "hw (wld (mb_free_msg q s)) = hw (wld s)"
  "dmas (wld (mb_free_msg q s)) = dmas (wld s)" "mb_msgs (mb_free_msg q s) = mb_msgs s" "mb_mem (mb_free_msg q s) = mb_mem s"
  by (simp_all add: mb_free_msg_def Let_def)

lemma mb_free_list:
  "msgs_own w0 K (qs @ rs) s \<Longrightarrow> msgs_own w0 K rs (fold mb_free_msg qs s)"
  "cqs (wld (fold mb_free_msg qs s)) = cqs (wld s)" "hw (wld (fold mb_free_msg qs s)) = hw (wld s)"
  "dmas (wld (fold mb_free_msg qs s)) = dmas (wld s)" "mb_msgs (fold mb_free_msg qs s) = mb_msgs s"
  "mb_mem (fold mb_free_msg qs s) = mb_mem s"
  by (induction qs arbitrary: s) (simp_all add: mb_free_msg_stores mb_free_msg_own)

lemma sq_report_payload: "m_payload (sq_report cq ss msgs m) = m_payload (msgs m)"
proof -
  have "m_payload (fold (\<lambda>s msgs. msgs(bi cq ! s := (msgs (bi cq ! s))\<lparr>m_status := d_ret_val (desc_ring cq ! s) AND 0xff\<rparr>)) ss msgs m)
      = m_payload (msgs m)"
    by (induction ss arbitrary: msgs) simp_all
  then show ?thesis by (simp add: sq_report_def)
qed

section \<open>The mailbox invariant\<close>

definition mb_inv :: "idpf_world \<Rightarrow> ptr \<Rightarrow> idpf_mbx \<Rightarrow> bool" where
  "mb_inv w0 p s \<longleftrightarrow> sq_inv (cqs (wld s) p) \<and> msgs_own w0 {} (mb_queue p s) s"

lemma msgs_own_add:
  "msgs_own w0 {} qs s \<Longrightarrow> owns (wld s) {a} {} w \<Longrightarrow> dmas w = dmas (wld s) \<Longrightarrow> a \<noteq> NULL \<Longrightarrow> msgs_own w0 {a} qs (s\<lparr>wld := w\<rparr>)"
proof -
  assume h: "msgs_own w0 {} qs s" "owns (wld s) {a} {} w" "dmas w = dmas (wld s)"
  have c: "msg_objs (s\<lparr>wld := w\<rparr>) qs = msg_objs s qs" "msg_areas (s\<lparr>wld := w\<rparr>) qs = msg_areas s qs"
    by (rule msg_objs_cong; simp add: payload_of_def h(3))+
  have "owns w0 (set (msg_objs s qs)) (set (msg_areas s qs)) (wld s)" using h(1) by (simp add: msgs_own_def)
  from owns_trans [OF this h(2)] show ?thesis
    using h(1) c by (auto simp: msgs_own_def msgs_ok_def)
qed

lemma msgs_own_drop:
  "msgs_own w0 {a} qs s \<Longrightarrow> a \<noteq> NULL \<Longrightarrow> msgs_own w0 {} qs (s\<lparr>wld := kfree a (wld s)\<rparr>)"
proof -
  assume h: "msgs_own w0 {a} qs s" "a \<noteq> NULL"
  have c: "msg_objs (s\<lparr>wld := kfree a (wld s)\<rparr>) qs = msg_objs s qs" "msg_areas (s\<lparr>wld := kfree a (wld s)\<rparr>) qs = msg_areas s qs"
    by (rule msg_objs_cong; simp add: payload_of_def)+
  have "owns w0 (set (msg_objs s qs)) (set (msg_areas s qs)) (kfree a (wld s))"
    using h by (intro kfree_owns) (auto simp: msgs_own_def)
  then show ?thesis using h(1) c by (simp add: msgs_own_def msgs_ok_def)
qed

lemma idpf_mb_clean_inv:
  assumes inv: "mb_inv w0 p s" and run: "idpf_mb_clean s p deinit = (r, s')"
  shows "mb_inv w0 p s' \<and> r \<in> {None, Some ENOMEM, Some EBADR} \<and> mb_mem s' = mb_mem s \<and>
    (\<exists>k. mb_queue p s' = drop k (mb_queue p s)) \<and>
    (deinit \<and> r = None \<and> ring_size (cqs (wld s) p) = IDPF_DFLT_MBX_Q_LEN \<longrightarrow> mb_queue p s' = [])"
proof -
  let ?n = "IDPF_DFLT_MBX_Q_LEN"
  obtain a w where kc: "kcalloc (wld s) = (a, w)" by fastforce
  have sq: "sq_inv (cqs (wld s) p)" and own: "msgs_own w0 {} (mb_queue p s) s" using inv by (simp_all add: mb_inv_def)
  show ?thesis
  proof (cases "a = NULL")
    case True
    have w: "owns (wld s) {} {} w" "dmas w = dmas (wld s)" "cqs w = cqs (wld s)"
      using kc True by (auto elim: kcallocE)
    have "msgs_own w0 {} (mb_queue p s) (s\<lparr>wld := w\<rparr>)"
      using w by (intro msgs_own_cong [OF own]) (auto simp: owns_def payload_of_def)
    then show ?thesis
      using True kc run w(3) sq by (auto simp: idpf_mb_clean_def mb_inv_def mb_queue_def intro!: exI [of _ 0])
  next
    case False
    have w: "owns (wld s) {a} {} w" "dmas w = dmas (wld s)" "cqs w = cqs (wld s)"
      using kc False by (auto elim: kcallocE)
    obtain err msgs cq n' ms where cl: "ctlq_clean_sq (mb_msgs s) (cqs (wld s) p) ?n (replicate ?n NULL) deinit
        = (err, msgs, cq, n', ms)" by (metis prod_cases5)
    let ?s = "s\<lparr>wld := w\<lparr>cqs := (cqs w)(p := cq)\<rparr>, mb_msgs := msgs\<rparr>"
    let ?f = "if err \<noteq> ret_ok then ?s else fold mb_free_msg (take n' ms) ?s"
    have res: "r = err" "s' = ?f\<lparr>wld := kfree a (wld ?f)\<rparr>"
      using run kc False cl w(3) by (auto simp: idpf_mb_clean_def idpf_ctlq_clean_sq_def idpf_ctlq_clean_sq_force_def Let_def
          split: if_splits)
    note own1 = msgs_own_add [OF own w(1,2) False]
    show ?thesis
    proof (cases "?n \<le> ring_size (cqs (wld s) p)")
      case True
      note spec = ctlq_clean_sq_spec [OF cl sq _ True]
      have n0: "0 < ?n" by (simp add: IDPF_DFLT_MBX_Q_LEN_def)
      have ms: "take n' ms = take n' (mb_queue p s)" and ok: "err = ret_ok" "sq_inv cq" "sq_msgs cq = drop n' (mb_queue p s)"
        using spec(1,3,4,6) [OF n0] by (simp_all add: mb_queue_def)
      have "msgs_own w0 {a} (mb_queue p s) ?s"
        using spec(5) [OF n0] by (intro msgs_own_cong [OF own1]) (auto simp: payload_of_def sq_report_payload)
      then have "msgs_own w0 {a} (drop n' (mb_queue p s)) (fold mb_free_msg (take n' ms) ?s)"
        unfolding ms by (intro mb_free_list(1)) simp
      then have "msgs_own w0 {} (drop n' (mb_queue p s)) s'"
        using msgs_own_drop False res(2) ok(1) by simp
      moreover have q: "cqs (wld s') p = cq" using res(2) ok(1) by (simp add: mb_free_list)
      moreover have "n' = sq_count (cqs (wld s) p)" if "deinit" "ring_size (cqs (wld s) p) = ?n"
        using spec(2) [OF n0] that sq_count_less [OF sq_invD(1) [OF sq]] by (simp add: sq_reclaim_def)
      ultimately show ?thesis
        using ok res by (auto simp: mb_inv_def mb_queue_def mb_free_list)
    next
      case False': False
      then have "err = Some EBADR" "msgs = mb_msgs s" "cq = cqs (wld s) p"
        using cl by (simp_all add: ctlq_clean_sq_def IDPF_DFLT_MBX_Q_LEN_def)
      moreover have "msgs_own w0 {a} (mb_queue p s) ?s"
        using calculation by (intro msgs_own_cong [OF own1]) (auto simp: payload_of_def)
      ultimately show ?thesis
        using res sq msgs_own_drop [of w0 a "mb_queue p s" ?s] False
        by (auto simp: mb_inv_def mb_queue_def w(3) intro!: exI [of _ 0])
    qed
  qed
qed

section \<open>Sending\<close>

lemma dma_alloc_attrsE:
  assumes "dma_alloc_attrs w = ((va, pa), w')"
  obtains (fail) "va = NULL" "owns w {} {} w'" "dmas w' = dmas w" "cqs w' = cqs w" "hw w' = hw w"
  | (ok) "va \<noteq> NULL" "owns w {} {va} w'" "dmas w' = dmas w" "cqs w' = cqs w" "hw w' = hw w"
  using assms by (auto simp: dma_alloc_attrs_def owns_def split: list.splits prod.splits if_splits)

lemma kcalloc_stores: "kcalloc w = (p, w') \<Longrightarrow> dmas w' = dmas w \<and> cqs w' = cqs w"
  by (erule kcallocE) auto

lemma dma_alloc_stores: "dma_alloc_attrs w = ((va, pa), w') \<Longrightarrow> dmas w' = dmas w \<and> cqs w' = cqs w"
  by (erule dma_alloc_attrsE) auto

lemma owns_fresh:
  assumes "msgs_own w0 {} qs s" and "owns (wld s) K D w"
  shows "K \<inter> set (msg_objs s qs) = {}" "D \<inter> set (msg_areas s qs) = {}"
    "owns w0 (K \<union> set (msg_objs s qs)) (D \<union> set (msg_areas s qs)) w"
  using owns_trans [of w0 "set (msg_objs s qs)" "set (msg_areas s qs)" "wld s" K D w] assms
  by (auto simp: msgs_own_def Un_commute)

text \<open>A world that took and gave back the same objects leaves the messages in flight owned.\<close>

lemma msgs_own_back:
  assumes "msgs_own w0 {} qs s" and "owns (wld s) {} {} w"
    and "\<And>d. d \<in> set (msg_objs s qs) \<Longrightarrow> dmas w d = dmas (wld s) d"
    and "\<And>q. q \<in> set qs \<Longrightarrow> mb_msgs s' q = mb_msgs s q" and "wld s' = w"
  shows "msgs_own w0 {} qs s'"
  using assms by (intro msgs_own_cong [OF assms(1)]) (auto simp: owns_def payload_of_def msg_objs_def)

lemma mb_build_msg_fields [simp]:
  "m_payload (mb_build_msg smbx op sz d c) = d" "m_data_len (mb_build_msg smbx op sz d c) = sz"
  "m_chnl_opcode (mb_build_msg smbx op sz d c) = op" "m_chnl_retval (mb_build_msg smbx op sz d c) = 0"
  "vc_msg_cookie (mb_build_msg smbx op sz d c) = c"
  "m_opcode (mb_build_msg smbx op sz d c) = (if idpf_ptp_is_mb_msg op \<and> smbx_valid smbx
     then idpf_mbq_opc_send_msg_to_peer_drv else idpf_mbq_opc_send_msg_to_pf)"
proof -
  have "ucast (ucast (c :: u16) :: u32) = c"
    by (rule bit_word_eqI) (auto simp: bit_simps dest: bit_imp_le_length)
  then show "vc_msg_cookie (mb_build_msg smbx op sz d c) = c"
    by (simp add: mb_build_msg_def vc_msg_cookie_def zero_msg_def idpf_prepare_ptp_mb_msg_def Let_def)
qed (simp_all add: mb_build_msg_def zero_msg_def idpf_prepare_ptp_mb_msg_def Let_def)

lemma msgs_own_enqueue:
  assumes own: "msgs_own w0 {} qs s" and o: "owns (wld s) {q, d} {va} w" and n: "q \<noteq> NULL" "d \<noteq> NULL" "va \<noteq> NULL" "q \<noteq> d"
    and s': "wld s' = w" "\<And>x. x \<in> set (msg_objs s qs) \<Longrightarrow> dmas w x = dmas (wld s) x \<and> mb_msgs s' x = mb_msgs s x"
      "m_payload (mb_msgs s' q) = d" "dma_va (dmas w d) = va"
  shows "msgs_own w0 {} (qs @ [q]) s'"
proof -
  note f = owns_fresh [OF own o]
  have sub: "set qs \<subseteq> set (msg_objs s qs)" "payload_of s ` set qs \<subseteq> set (msg_objs s qs)" by (auto simp: msg_objs_def)
  have c: "msg_objs s' qs = msg_objs s qs" "msg_areas s' qs = msg_areas s qs"
    using s'(1,2) sub by (intro msg_objs_cong; auto simp: payload_of_def)+
  have new: "payload_of s' q = d" "area (wld s') d = va" using s' by (simp_all add: payload_of_def area_def)
  have "msgs_ok s' (qs @ [q])"
    using own f(1,2) n c new by (auto simp: msgs_own_def msgs_ok_def)
  moreover have "owns w0 (set (msg_objs s' (qs @ [q]))) (set (msg_areas s' (qs @ [q]))) (wld s')"
    using f(3) c new s'(1) by (simp add: insert_commute Un_commute)
  ultimately show ?thesis by (simp add: msgs_own_def)
qed

lemma objs_not_fresh:
  "msgs_own w0 {} qs s \<Longrightarrow> owns (wld s) K D w \<Longrightarrow> x \<in> set (msg_objs s qs) \<Longrightarrow> x \<notin> K"
  using owns_fresh(1) by blast

lemma mb_post_inv:
  assumes inv: "mb_inv w0 p s" and o: "owns (wld s) {q, d} {va} w" "cqs w = cqs (wld s)"
    and n: "q \<noteq> NULL" "d \<noteq> NULL" "va \<noteq> NULL" "q \<noteq> d"
    and dm: "\<And>x. x \<noteq> d \<Longrightarrow> dmas w x = dmas (wld s) x" "dma_va (dmas w d) = va"
    and s1: "\<And>x. x \<noteq> q \<Longrightarrow> mb_msgs s1 x = mb_msgs s x" "m_payload (mb_msgs s1 q) = d"
    and send: "idpf_ctlq_send (mb_msgs s1) (dmas w) h (cqs w p) 1 [q] = (err, h', cq)"
  shows "if err = ret_ok
    then mb_inv w0 p (s1\<lparr>wld := w\<lparr>hw := h', cqs := (cqs w)(p := cq)\<rparr>\<rparr>) \<and> sq_msgs cq = mb_queue p s @ [q]
    else err = Some ENOSPC \<and> sq_msgs cq = mb_queue p s \<and>
      mb_inv w0 p (s1\<lparr>wld := kfree q (kfree d (dma_free_attrs va (w\<lparr>hw := h', cqs := (cqs w)(p := cq)\<rparr>)))\<rparr>)"
proof -
  have sq: "sq_inv (cqs w p)" and own: "msgs_own w0 {} (mb_queue p s) s" using inv o(2) by (simp_all add: mb_inv_def)
  have spec: "(err, sq_msgs cq) = sq_spec_send (mb_msgs s1) (ring_size (cqs w p) - 1) (sq_msgs (cqs w p)) [q]" "sq_inv cq"
    using idpf_ctlq_send_spec [OF sq _ _ send] n(1) by simp_all
  have sendable: "msg_sendable (mb_msgs s1 q)" using s1(2) n(2) by (simp add: msg_sendable_def)
  note fr = objs_not_fresh [OF own o(1)]
  show ?thesis
  proof (cases "err = ret_ok")
    case True
    then have q: "sq_msgs cq = mb_queue p s @ [q]"
      using spec(1) o(2) by (auto simp: sq_spec_send_def mb_queue_def split: if_splits)
    have "msgs_own w0 {} (mb_queue p s @ [q]) (s1\<lparr>wld := w\<lparr>hw := h', cqs := (cqs w)(p := cq)\<rparr>\<rparr>)"
      using o dm s1 fr n by (intro msgs_own_enqueue [OF own, of q d va "w\<lparr>hw := h', cqs := (cqs w)(p := cq)\<rparr>"]) auto
    then show ?thesis using True q spec(2) by (simp add: mb_inv_def mb_queue_def)
  next
    case False
    then have q: "err = Some ENOSPC" "sq_msgs cq = mb_queue p s"
      using spec(1) o(2) sendable by (auto simp: sq_spec_send_def mb_queue_def split: if_splits)
    let ?w = "kfree q (kfree d (dma_free_attrs va (w\<lparr>hw := h', cqs := (cqs w)(p := cq)\<rparr>)))"
    have "owns (wld s) {} {} ?w"
      using o(1) n by (intro kfree_owns dma_free_owns) (auto simp: insert_commute)
    then have "msgs_own w0 {} (mb_queue p s) (s1\<lparr>wld := ?w\<rparr>)"
      using dm s1 fr by (intro msgs_own_back [OF own]) (auto simp: msg_objs_def)
    then show ?thesis using False q spec(2) by (simp add: mb_inv_def mb_queue_def)
  qed
qed

lemma memcpy_read: "k < n \<Longrightarrow> n < 65536 \<Longrightarrow> memcpy d m n mem (d + of_nat k) = mem (m + of_nat k)"
proof -
  assume k: "k < n" "n < 65536"
  then have "unat (of_nat k :: u64) = k" by (simp add: unat_of_nat)
  then show ?thesis using k(1) by (simp add: memcpy_def)
qed

definition mb_sent ::
  "idpf_ptp_secondary_mbx \<Rightarrow> idpf_mbx \<Rightarrow> u32 \<Rightarrow> u16 \<Rightarrow> ptr \<Rightarrow> u16 \<Rightarrow> ptr \<Rightarrow> idpf_mbx \<Rightarrow> bool" where
  "mb_sent smbx s op sz msg cookie q s' \<longleftrightarrow>
     (let m = mb_msgs s' q; va = dma_va (dmas (wld s') (m_payload m)) in
      m = mb_build_msg smbx op sz (m_payload m) cookie \<and>
      (msg \<noteq> NULL \<longrightarrow> (\<forall>k < unat sz. mb_mem s' (va + of_nat k) = mb_mem s (msg + of_nat k))) \<and>
      (\<forall>a. mb_mem s' a \<noteq> mb_mem s a \<longrightarrow> unat (a - va) < unat sz))"

lemma mb_copy_sent:
  assumes "mb_msgs s' q = mb_build_msg smbx op sz d cookie" and "dma_va (dmas (wld s') d) = va"
    and "mb_mem s' = (if msg \<noteq> NULL \<and> sz \<noteq> 0 then memcpy va msg (unat sz) (mb_mem s) else mb_mem s)"
  shows "mb_sent smbx s op sz msg cookie q s'"
proof -
  have "unat sz < 2 ^ LENGTH(16)" by (rule unsigned_less)
  then have lt: "unat sz < 65536" by simp
  have "mb_mem s' (va + of_nat k) = mb_mem s (msg + of_nat k)" if "msg \<noteq> NULL" "k < unat sz" for k
  proof -
    have "sz \<noteq> 0" using that(2) by auto
    then show ?thesis using that lt assms(3) by (simp add: memcpy_read)
  qed
  moreover have "unat (a - va) < unat sz" if "mb_mem s' a \<noteq> mb_mem s a" for a
    using that assms(3) by (auto simp: memcpy_def split: if_splits)
  ultimately show ?thesis using assms(1,2) by (simp add: mb_sent_def Let_def)
qed

lemma mb_unwound:
  assumes inv: "mb_inv w0 p s" and o: "owns (wld s) {} {} w" and "cqs w = cqs (wld s)"
    and "\<And>d. d \<in> set (msg_objs s (mb_queue p s)) \<Longrightarrow> dmas w d = dmas (wld s) d"
  shows "mb_inv w0 p (s\<lparr>wld := w\<rparr>)" "mb_queue p (s\<lparr>wld := w\<rparr>) = mb_queue p s"
  using assms msgs_own_back [OF _ o, of w0 "mb_queue p s" "s\<lparr>wld := w\<rparr>"] by (simp_all add: mb_inv_def mb_queue_def)

lemma mb_send_new_inv:
  assumes inv: "mb_inv w0 p s" and run: "mb_send_new smbx s p op sz msg cookie = (r, s')"
  shows "mb_inv w0 p s' \<and> (if r = ret_ok
    then \<exists>q. mb_queue p s' = mb_queue p s @ [q] \<and> mb_sent smbx s op sz msg cookie q s'
    else mb_queue p s' = mb_queue p s) \<and> r \<in> {ret_ok, Some ENOMEM, Some ENOSPC}"
proof -
  have own: "msgs_own w0 {} (mb_queue p s) s" using inv by (simp add: mb_inv_def)
  obtain q w1 where kq: "kcalloc (wld s) = (q, w1)" by fastforce
  obtain d w2 where kd: "kcalloc w1 = (d, w2)" by fastforce
  obtain va pa w3 where da: "dma_alloc_attrs w2 = ((va, pa), w3)" by (metis surj_pair)
  note send = run [unfolded mb_send_new_def kq]
  define w4 where "w4 = w3\<lparr>dmas := (dmas w3)(d := \<lparr>dma_va = va, dma_pa = pa, dma_size = IDPF_CTLQ_MAX_BUF_LEN\<rparr>)\<rparr>"
  consider "q = NULL" | "q \<noteq> NULL" "d = NULL" | "q \<noteq> NULL" "d \<noteq> NULL" "va = NULL"
    | (post) "q \<noteq> NULL" "d \<noteq> NULL" "va \<noteq> NULL" by auto
  then show ?thesis
  proof cases
    case 1
    then show ?thesis using kq send mb_unwound [OF inv, of w1] by (auto elim: kcallocE)
  next
    case 2
    have w: "owns (wld s) {q} {} w1" "owns w1 {} {} w2" "dmas w2 = dmas (wld s)" "cqs w2 = cqs (wld s)"
      using kq kd 2 kcalloc_stores [OF kq] kcalloc_stores [OF kd] by (auto elim: kcallocE)
    have "owns (wld s) {} {} (kfree q w2)"
      using owns_trans(1) [OF w(1,2)] 2 by (intro kfree_owns) auto
    then show ?thesis using mb_unwound [OF inv, of "kfree q w2"] w kd send 2 by auto
  next
    case 3
    have w: "owns (wld s) {q} {} w1" "owns w1 {d} {} w2" "owns w2 {} {} w3" "dmas w3 = dmas (wld s)" "cqs w3 = cqs (wld s)"
      using kq kd da 3 kcalloc_stores [OF kq] kcalloc_stores [OF kd] dma_alloc_stores [OF da]
      by (auto elim: kcallocE dma_alloc_attrsE)
    note t = owns_trans [OF w(1,2)] and t' = owns_trans(1) [OF owns_trans(1) [OF w(1,2)] w(3)]
    have o: "owns (wld s) {} {} (kfree q (kfree d w4))"
      using t(2) t' 3 by (intro kfree_owns) (auto simp: w4_def insert_commute)
    have "dmas (kfree q (kfree d w4)) x = dmas (wld s) x" if "x \<in> set (msg_objs s (mb_queue p s))" for x
      using objs_not_fresh [OF own t(1) that] w(4) by (auto simp: w4_def)
    then show ?thesis using mb_unwound [OF inv o] w(5) kd da send 3 by (auto simp: w4_def Let_def)
  next
    case post
    have w: "owns (wld s) {q} {} w1" "owns w1 {d} {} w2" "owns w2 {} {va} w3" "dmas w3 = dmas (wld s)" "cqs w3 = cqs (wld s)"
      using kq kd da post kcalloc_stores [OF kq] kcalloc_stores [OF kd] dma_alloc_stores [OF da]
      by (auto elim: kcallocE dma_alloc_attrsE)
    define s2 where "s2 = s\<lparr>mb_mem := (if msg \<noteq> NULL \<and> sz \<noteq> 0 then memcpy va msg (unat sz) (mb_mem s) else mb_mem s),
        mb_overflow := (mb_overflow s \<or> msg \<noteq> NULL \<and> unat sz > unat IDPF_CTLQ_MAX_BUF_LEN),
        mb_msgs := (mb_msgs s)(q := mb_build_msg smbx op sz d cookie)\<rparr>"
    obtain err h cq where se: "idpf_ctlq_send (mb_msgs s2) (dmas w4) (hw w4) (cqs w4 p) 1 [q] = (err, h, cq)"
      by (metis prod_cases3)
    let ?w5 = "w4\<lparr>hw := h, cqs := (cqs w4)(p := cq)\<rparr>"
    have res: "(r, s') = (if err \<noteq> ret_ok then (err, s2\<lparr>wld := kfree q (kfree d (dma_free_attrs va ?w5))\<rparr>)
        else (ret_ok, s2\<lparr>wld := ?w5\<rparr>))"
      using send [symmetric] kd da post se by (simp add: w4_def s2_def Let_def)
    have o4: "owns (wld s) {q, d} {va} w4" "q \<noteq> d" "cqs w4 = cqs (wld s)"
        "\<And>x. x \<noteq> d \<Longrightarrow> dmas w4 x = dmas (wld s) x" "dma_va (dmas w4 d) = va"
      using owns_trans(1) [OF owns_trans(1) [OF w(1,2)] w(3)] owns_trans(2) [OF w(1,2)] w(4,5)
      by (auto simp: w4_def insert_commute)
    have s2: "\<And>x. x \<noteq> q \<Longrightarrow> mb_msgs s2 x = mb_msgs s x" "m_payload (mb_msgs s2 q) = d" by (simp_all add: s2_def)
    note posted = mb_post_inv [OF inv o4(1,3) post o4(2,4,5) s2 se]
    have "mb_sent smbx s op sz msg cookie q (s2\<lparr>wld := ?w5\<rparr>)"
      using o4(5) by (intro mb_copy_sent [of _ _ _ _ _ d _ va]) (simp_all add: s2_def)
    then show ?thesis
      using posted res by (cases "err = ret_ok") (auto simp: mb_queue_def)
  qed
qed

text \<open>
  The copy into the payload area runs beyond its end exactly if the message is longer than 4096 bytes
  and everything could be allocated; the callers have to see to that.
\<close>

lemma mb_clean_overflow:
  assumes "idpf_mb_clean s p deinit = (r, s')"
  shows "mb_overflow s' = mb_overflow s"
proof -
  have "mb_overflow (fold mb_free_msg qs s) = mb_overflow s" for qs s
    by (induction qs arbitrary: s) (simp_all add: mb_free_msg_def Let_def)
  then show ?thesis using assms by (auto simp: idpf_mb_clean_def Let_def split: prod.splits if_splits)
qed

theorem send_mb_msg_overflow:
  assumes "idpf_send_mb_msg is_reset smbx s p op sz msg cookie = (r, s')"
  shows "mb_overflow s' \<longrightarrow> mb_overflow s \<or> msg \<noteq> NULL \<and> 4096 < unat sz"
    and "r = ret_ok \<and> \<not> is_reset \<and> msg \<noteq> NULL \<and> 4096 < unat sz \<longrightarrow> mb_overflow s'"
proof -
  have "(mb_overflow s2 \<longrightarrow> mb_overflow s1 \<or> msg \<noteq> NULL \<and> 4096 < unat sz) \<and>
      (r2 = ret_ok \<and> msg \<noteq> NULL \<and> 4096 < unat sz \<longrightarrow> mb_overflow s2)"
    if "mb_send_new smbx s1 p op sz msg cookie = (r2, s2)" for s1 r2 s2
    using that by (auto simp: mb_send_new_def IDPF_CTLQ_MAX_BUF_LEN_def Let_def split: prod.splits if_splits)
  then show "mb_overflow s' \<longrightarrow> mb_overflow s \<or> msg \<noteq> NULL \<and> 4096 < unat sz"
    "r = ret_ok \<and> \<not> is_reset \<and> msg \<noteq> NULL \<and> 4096 < unat sz \<longrightarrow> mb_overflow s'"
    using assms mb_clean_overflow [of s p False] by (auto simp: idpf_send_mb_msg_def split: if_splits prod.splits option.splits)
qed


text \<open>An idle mailbox queue of the default length, and one message sent through it.\<close>

definition demo_mbq :: idpf_ctlq_info where
  "demo_mbq = demo_sq\<lparr>ring_size := 64, desc_ring := replicate 64 zero_desc, bi := replicate 64 NULL\<rparr>"

definition demo_mbx :: "ptr list \<Rightarrow> idpf_mbx" where
  "demo_mbx ks = \<lparr>wld = (demo_world ks [(0x9000, 0x9000)])\<lparr>cqs := (\<lambda>_. demo_mbq)\<rparr>, mb_msgs = (\<lambda>_. zero_msg),
     mb_mem = (\<lambda>a. ucast a), vcxn_mngr = \<lparr>xn_ring = [], free_xn_bm = [], mngr_salt = 0, mngr_active = False\<rparr>,
     vport_ids = [], vports = [], adi_resets = [], mb_overflow = False\<rparr>"

definition demo_smbx :: idpf_ptp_secondary_mbx where
  "demo_smbx = \<lparr>peer_mbx_q_id = 0, peer_id = 0, smbx_valid = False\<rparr>"

lemma demo_mbx_inv: "mb_inv (wld (demo_mbx ks)) p (demo_mbx ks)" "mb_queue p (demo_mbx ks) = []"
proof -
  have "sq_fresh demo_mbq" by (simp add: sq_fresh_def demo_mbq_def demo_sq_def)
  moreover have q: "sq_msgs demo_mbq = []" by (simp add: sq_msgs_def sq_slots_def sq_count_def demo_mbq_def demo_sq_def)
  ultimately show "mb_inv (wld (demo_mbx ks)) p (demo_mbx ks)"
    by (simp add: mb_inv_def demo_mbx_def mb_queue_def sq_fresh_inv msgs_own_def msgs_ok_def owns_def)
  show "mb_queue p (demo_mbx ks) = []" using q by (simp add: mb_queue_def demo_mbx_def)
qed

lemma ctlq_clean_loop_stop:
  "0 < k \<Longrightarrow> d_flags (desc_ring cq ! ntc) AND IDPF_CTLQ_FLAG_DD = 0 \<Longrightarrow>
   ctlq_clean_loop False k i ntc msgs cq ms = (i, ntc, msgs, cq, ms)"
  by (cases k) simp_all

lemmas mb_eval = demo_mbx_def demo_mbq_def demo_sq_def demo_world_def demo_smbx_def kcalloc_def kfree_def
  dma_alloc_attrs_def ctlq_clean_sq_def idpf_ctlq_clean_sq_def idpf_ctlq_clean_sq_force_def zero_desc_def demo_hw_def

lemma demo_mb_clean: "idpf_mb_clean (demo_mbx (3 # ks)) 0 False =
    (ret_ok, (demo_mbx ks)\<lparr>wld := (wld (demo_mbx ks))\<lparr>cqs := (\<lambda>_. demo_mbq)(0 := demo_mbq\<lparr>cq_lock := False\<rparr>)\<rparr>\<rparr>)"
  by (simp add: idpf_mb_clean_def mb_eval IDPF_DFLT_MBX_Q_LEN_def Let_def ctlq_clean_loop_stop)


text \<open>
  C15. Taking the mailbox down loses nothing: when the reclaim of \<open>idpf_deinit_dflt_mbx\<close> (forced, on a queue
  of the default length) succeeds, no message is left in flight, and every object and DMA area that was
  taken for messages since \<open>w0\<close> has been freed exactly once.  Only the allocation of its scratch array can make
  it fail.
\<close>

theorem idpf_mb_clean_deinit_frees:
  assumes "mb_inv w0 p s" and "ring_size (cqs (wld s) p) = IDPF_DFLT_MBX_Q_LEN" and "idpf_mb_clean s p True = (r, s')"
  shows "r = (if fst (kcalloc (wld s)) = NULL then Some ENOMEM else ret_ok) \<and>
    (r = ret_ok \<longrightarrow> mb_queue p s' = [] \<and> live (wld s') = live w0 \<and> dma_live (wld s') = dma_live w0 \<and>
       bad_free (wld s') = bad_free w0)"
proof -
  note c = idpf_mb_clean_inv [OF assms(1,3)]
  have n0: "0 < IDPF_DFLT_MBX_Q_LEN" by (simp add: IDPF_DFLT_MBX_Q_LEN_def)
  obtain a w where kc: "kcalloc (wld s) = (a, w)" by fastforce
  have sq: "sq_inv (cqs (wld s) p)" using assms(1) by (simp add: mb_inv_def)
  have "r = (if a = NULL then Some ENOMEM else ret_ok)"
  proof -
    obtain err msgs cq n' ms where cl: "ctlq_clean_sq (mb_msgs s) (cqs (wld s) p) IDPF_DFLT_MBX_Q_LEN
        (replicate IDPF_DFLT_MBX_Q_LEN NULL) True = (err, msgs, cq, n', ms)" by (metis prod_cases5)
    have "err = ret_ok" using ctlq_clean_sq_spec(1) [OF cl sq n0] assms(2) by simp
    then show ?thesis
      using assms(3) kc cl kcalloc_stores [OF kc] by (auto simp: idpf_mb_clean_def idpf_ctlq_clean_sq_force_def Let_def)
  qed
  moreover have "mb_queue p s' = [] \<and> owns w0 {} {} (wld s')" if "r = ret_ok"
    using c assms(2) that by (auto simp: mb_inv_def msgs_own_def)
  ultimately show ?thesis using kc by (auto simp: owns_def)
qed

text \<open>The message sent above is freed.\<close>

theorem idpf_mb_clean_deinit_frees_witness:
  "let s = snd (mb_send_new demo_smbx (demo_mbx [1, 2, 3]) 0 1 8 0x40 7); (r, s') = idpf_mb_clean s 0 True
   in live (wld s) = {1, 2} \<and> r = ret_ok \<and> mb_queue 0 s' = [] \<and> live (wld s') = {} \<and> dma_live (wld s') = {} \<and> \<not> bad_free (wld s')"
proof -
  obtain r0 s where send: "mb_send_new demo_smbx (demo_mbx [1, 2, 3]) 0 1 8 0x40 7 = (r0, s)" by fastforce
  obtain r s' where run: "idpf_mb_clean s 0 True = (r, s')" by fastforce
  have inv: "mb_inv (wld (demo_mbx [1, 2, 3])) 0 s" using mb_send_new_inv [OF demo_mbx_inv(1) send] by blast
  have "s = snd (mb_send_new demo_smbx (demo_mbx [1, 2, 3]) 0 1 8 0x40 7)" using send by simp
  then have s: "ring_size (cqs (wld s) 0) = IDPF_DFLT_MBX_Q_LEN" "kscript (wld s) = [3]" "live (wld s) = {1, 2}"
    by (simp_all add: mb_send_new_def mb_eval send_eval IDPF_DFLT_MBX_Q_LEN_def insert_commute)
  then have "fst (kcalloc (wld s)) = 3" by (simp add: kcalloc_def)
  then show ?thesis
    using idpf_mb_clean_deinit_frees [OF inv s(1) run] send run s by (simp add: demo_mbx_def demo_world_def)
qed

end
