(* ===== verification/Idpf_Mailbox_Recv.thy ===== *)
theory Idpf_Mailbox_Recv
  imports Idpf_Mailbox
begin

text \<open>
  The receive loop \<open>idpf_recv_mb_msg\<close>: it returns, and it keeps the receive buffers, except the one of
  a message whose descriptor reports an error.
\<close>

section \<open>Done descriptors\<close>

definition dd :: "idpf_ctlq_info \<Rightarrow> nat \<Rightarrow> bool" where
  "dd cq s \<longleftrightarrow> d_flags (desc_ring cq ! s) AND IDPF_CTLQ_FLAG_DD \<noteq> 0"

definition dd_set :: "idpf_ctlq_info \<Rightarrow> nat set" where
  "dd_set cq = {s. s < ring_size cq \<and> dd cq s}"

text \<open>
  The layout of the receive ring between two calls: from \<open>next_to_clean\<close> up to \<open>next_to_post\<close> every slot
  holds a buffer and belongs to the device, which reports only such slots; \<open>next_to_post\<close> itself may
  hold a buffer, and all slots after it are empty.
\<close>

abbreviation with_dev :: "idpf_ctlq_info \<Rightarrow> nat" where
  "with_dev cq \<equiv> ring_dist (ring_size cq) (next_to_clean cq) (next_to_post cq)"

definition rq_lay :: "idpf_ctlq_info \<Rightarrow> bool" where
  "rq_lay cq \<longleftrightarrow> rq_ok cq \<and> (\<forall>s < ring_size cq. let k = ring_dist (ring_size cq) (next_to_clean cq) s in
     (k < with_dev cq \<longrightarrow> bi cq ! s \<noteq> NULL) \<and> (with_dev cq < k \<longrightarrow> bi cq ! s = NULL) \<and> (dd cq s \<longrightarrow> k < with_dev cq))"

lemma finite_dd_set [simp]: "finite (dd_set cq)"
  by (simp add: dd_set_def)

lemma rq_okD:
  assumes "rq_ok cq"
  shows "ctlq_idx_ok cq" "next_to_post cq < ring_size cq" "next_to_clean cq < ring_size cq"
    "length (bi cq) = ring_size cq" "length (desc_ring cq) = ring_size cq"
  using assms by (simp_all add: rq_ok_def ctlq_idx_ok_def)

lemma rq_layD:
  assumes "rq_lay cq" and "s < ring_size cq"
  shows "ring_dist (ring_size cq) (next_to_clean cq) s < with_dev cq \<Longrightarrow> bi cq ! s \<noteq> NULL"
    "with_dev cq < ring_dist (ring_size cq) (next_to_clean cq) s \<Longrightarrow> bi cq ! s = NULL"
    "dd cq s \<Longrightarrow> ring_dist (ring_size cq) (next_to_clean cq) s < with_dev cq"
  using assms by (auto simp: rq_lay_def Let_def)

section \<open>Ring arithmetic\<close>

lemma card_ring: "a < n \<Longrightarrow> k \<le> n \<Longrightarrow> card {s. s < n \<and> ring_dist n a s < k} = k"
proof -
  assume a: "a < n" "k \<le> n"
  have "{s. s < n \<and> ring_dist n a s < k} = (\<lambda>j. (a + j) mod n) ` {..<k}"
    using set_ring_seg [OF a] by (auto simp: ring_seg_def atLeast0LessThan)
  moreover have "inj_on (\<lambda>j. (a + j) mod n) {..<k}"
    using a by (intro inj_on_inverseI [where g = "ring_dist n a"]) (simp add: ring_dist_add)
  ultimately show ?thesis by (simp add: card_image)
qed

lemma ring_dist_inj: "a < n \<Longrightarrow> s < n \<Longrightarrow> t < n \<Longrightarrow> ring_dist n a s = ring_dist n a t \<longleftrightarrow> s = t"
  by (metis ring_add_dist)

lemma ring_flip: "a < n \<Longrightarrow> b < n \<Longrightarrow> s < n \<Longrightarrow> a \<noteq> b \<Longrightarrow> ring_dist n b s < ring_dist n b a \<longleftrightarrow> ring_dist n a b \<le> ring_dist n a s"
  by (auto simp: ring_dist_def split: if_splits)

lemma ring_shift: "a < n \<Longrightarrow> b < n \<Longrightarrow> s < n \<Longrightarrow> ring_dist n b a \<le> ring_dist n b s \<Longrightarrow> ring_dist n b s = ring_dist n b a + ring_dist n a s"
  by (auto simp: ring_dist_def split: if_splits)

lemma ring_around: "a < n \<Longrightarrow> b < n \<Longrightarrow> a \<noteq> b \<Longrightarrow> ring_dist n a b + ring_dist n b a = n"
  by (auto simp: ring_dist_def)

lemma ring_pred:
  assumes "a < n" "x < n" "a \<noteq> x"
  shows "(x + n - 1) mod n < n" "ring_dist n a ((x + n - 1) mod n) = ring_dist n a x - 1"
proof -
  have "(x + n - 1) mod n = (if x = 0 then n - 1 else x - 1)" using assms(2) by (auto simp: le_mod_geq)
  then show "(x + n - 1) mod n < n" "ring_dist n a ((x + n - 1) mod n) = ring_dist n a x - 1"
    using assms by (auto simp: ring_dist_def)
qed

section \<open>Posting\<close>

lemma dd_fill: "dd (ctlq_rx_fill_desc ds n cq) s \<Longrightarrow> dd cq s"
  by (cases "s = n"; cases "n < length (desc_ring cq)")
    (simp_all add: dd_def ctlq_rx_fill_desc_def Let_def list_update_beyond IDPF_CTLQ_FLAG_DD_def
      IDPF_CTLQ_FLAG_BUF_def IDPF_CTLQ_FLAG_RD_def)

lemma dd_bi [simp]: "dd (cq\<lparr>bi := b\<rparr>) s = dd cq s" "dd (cq\<lparr>cq_lock := l\<rparr>) s = dd cq s"
  "dd (cq\<lparr>next_to_post := p\<rparr>) s = dd cq s" "dd (cq\<lparr>next_to_clean := p\<rparr>) s = dd cq s"
  by (simp_all add: dd_def)

lemma ctlq_post_loop_dd:
  assumes "ctlq_post_loop ds cnt buffs avail i ntp cq = Some r"
  shows "dd (snd (snd r)) s \<longrightarrow> dd cq s"
proof (rule ctlq_post_loop.raw_induct [OF _ assms, of "\<lambda>_ _ _ _ _ _ cq r. dd (snd (snd r)) s \<longrightarrow> dd cq s"])
  fix f :: "dma_store \<Rightarrow> nat \<Rightarrow> ptr list \<Rightarrow> bool \<Rightarrow> nat \<Rightarrow> nat \<Rightarrow> idpf_ctlq_info \<Rightarrow> (nat \<times> nat \<times> idpf_ctlq_info) option"
    and ds cnt buffs avail i ntp cq r
  assume IH: "\<And>ds cnt buffs avail i ntp cq r. f ds cnt buffs avail i ntp cq = Some r \<Longrightarrow> dd (snd (snd r)) s \<longrightarrow> dd cq s"
    and run: "(if ntp = next_to_clean cq then Some (ntp, i, cq)
      else if bi cq ! ntp \<noteq> NULL then f ds cnt buffs avail i (ctlq_bump cq ntp) (ctlq_rx_fill_desc ds ntp cq)
      else if \<not> avail then
        Option.bind (ctlq_find_buf cq (ctlq_bump_ge cq ntp)) (\<lambda>tbp.
          if tbp = next_to_clean cq then Some (ntp, i, cq)
          else f ds cnt buffs avail i (ctlq_bump cq ntp)
                 (ctlq_rx_fill_desc ds ntp (cq\<lparr>bi := (bi cq)[ntp := bi cq ! tbp, tbp := NULL]\<rparr>)))
      else f ds cnt buffs (i + 1 < cnt) (i + 1) (ctlq_bump cq ntp)
          (ctlq_rx_fill_desc ds ntp (cq\<lparr>bi := (bi cq)[ntp := buffs ! i]\<rparr>))) = Some r"
  show "dd (snd (snd r)) s \<longrightarrow> dd cq s"
    using run by (auto split: if_splits bind_splits dest!: IH dest: dd_fill)
qed

lemma idpf_ctlq_post_rx_buffs_dd:
  "idpf_ctlq_post_rx_buffs ds h cq cnt buffs = Some (r, h', cq', rest) \<Longrightarrow> dd cq' s \<Longrightarrow> dd cq s"
  by (auto simp: idpf_ctlq_post_rx_buffs_def Let_def ctlq_post_out_def split: if_splits prod.splits
      dest!: ctlq_post_loop_dd [where s = s])

lemma size_rq_bufs: "size (rq_bufs cq) = card {s. s < length (bi cq) \<and> bi cq ! s \<noteq> NULL}"
  by (simp add: rq_bufs_def length_filter_conv_card flip: mset_filter)

lemma post_all:
  assumes "post_result ds (length buffs) buffs 0 ntp cq ntp' i' c" and "NULL \<notin> set buffs" "length buffs \<le> 1"
    and len: "length (bi cq) = ring_size cq" and ntp: "ntp < ring_size cq" "next_to_clean cq < ring_size cq"
    and hole: "buffs \<noteq> [] \<Longrightarrow> \<exists>s < ring_size cq. bi cq ! s = NULL \<and>
      ring_dist (ring_size cq) ntp s < ring_dist (ring_size cq) ntp (next_to_clean cq)"
  shows "i' = length buffs"
proof (rule ccontr)
  let ?n = "ring_size cq" and ?N = "\<lambda>c. {s. s < ring_size cq \<and> bi c ! s \<noteq> NULL}"
  note r = assms(1) [unfolded post_result_def Let_def]
  assume "i' \<noteq> length buffs"
  then have i': "i' = 0" "buffs \<noteq> []" "ntp' = next_to_clean cq" using r assms(3) by auto
  then have "size (rq_bufs c) = size (rq_bufs cq)" using r by simp
  moreover have "length (bi c) = ?n" using r len by (simp add: same_config_def)
  ultimately have card: "card (?N c) = card (?N cq)" using len by (simp add: size_rq_bufs)
  have posted: "bi c ! s \<noteq> NULL" if "s < ?n" "ring_dist ?n ntp s < ring_dist ?n ntp (next_to_clean cq)" for s
    using r that i'(3) by (auto simp: rx_posted_def)
  obtain h where h: "h < ?n" "bi cq ! h = NULL" "ring_dist ?n ntp h < ring_dist ?n ntp (next_to_clean cq)"
    using hole [OF i'(2)] by blast
  have "?N cq \<subset> ?N c"
  proof
    show "?N cq \<subseteq> ?N c" using r posted by (auto simp: not_less)
    show "?N cq \<noteq> ?N c" using h posted [OF h(1,3)] by blast
  qed
  then have "card (?N cq) < card (?N c)" by (intro psubset_card_mono) simp_all
  with card show False by simp
qed

lemma lay_size:
  assumes "rq_lay cq"
  shows "size (rq_bufs cq) = with_dev cq + (if bi cq ! next_to_post cq \<noteq> NULL then 1 else 0)"
proof -
  have ok: "rq_ok cq" using assms by (simp add: rq_lay_def)
  note d = rq_okD [OF ok] and l = rq_layD [OF assms]
  let ?n = "ring_size cq" and ?A = "{s. s < ring_size cq \<and> ring_dist (ring_size cq) (next_to_clean cq) s < with_dev cq}"
  let ?B = "if bi cq ! next_to_post cq \<noteq> NULL then {next_to_post cq} else {}"
  have "{s. s < ?n \<and> bi cq ! s \<noteq> NULL} = ?A \<union> ?B"
  proof (intro equalityI subsetI)
    fix s assume s: "s \<in> {s. s < ?n \<and> bi cq ! s \<noteq> NULL}"
    then have "\<not> with_dev cq < ring_dist ?n (next_to_clean cq) s" using l(2) [of s] by auto
    then show "s \<in> ?A \<union> ?B" using s ring_dist_inj [OF d(3), of s "next_to_post cq"] d(2) by (auto simp: not_less)
  qed (use l(1) d(2) in \<open>auto split: if_splits\<close>)
  then have "size (rq_bufs cq) = card (?A \<union> ?B)" using d(4) by (simp add: size_rq_bufs)
  also have "\<dots> = card ?A + card ?B" by (rule card_Un_disjoint) auto
  also have "card ?A = with_dev cq" using d(2,3) by (intro card_ring) (simp_all add: less_imp_le)
  finally show ?thesis by simp
qed

lemma post_lay:
  assumes ok: "rq_ok cq" and D: "1 \<le> with_dev cq" "with_dev cq + 2 \<le> ring_size cq"
    and full: "\<And>s. s < ring_size cq \<Longrightarrow> ring_dist (ring_size cq) (next_to_clean cq) s < with_dev cq \<Longrightarrow> bi cq ! s \<noteq> NULL"
    and dev: "\<And>s. s < ring_size cq \<Longrightarrow> dd cq s \<Longrightarrow> ring_dist (ring_size cq) (next_to_clean cq) s < with_dev cq"
    and buffs: "NULL \<notin> set buffs" "length buffs \<le> 1"
    and hole: "buffs \<noteq> [] \<Longrightarrow> \<exists>s < ring_size cq. bi cq ! s = NULL \<and>
      ring_dist (ring_size cq) (next_to_post cq) s < ring_dist (ring_size cq) (next_to_post cq) (next_to_clean cq)"
    and count: "size (rq_bufs cq) + length buffs = with_dev cq + k" "1 \<le> k"
  shows "\<exists>h' cq'. idpf_ctlq_post_rx_buffs ds h cq (length buffs) buffs = Some (ret_ok, h', cq', 0) \<and>
    rq_lay cq' \<and> dd_set cq' \<subseteq> dd_set cq \<and> rq_bufs cq' = rq_bufs cq + mset buffs"
proof -
  note d = rq_okD [OF ok]
  let ?n = "ring_size cq" and ?a = "next_to_post cq" and ?b = "next_to_clean cq"
  have ne: "?a \<noteq> ?b" using D(1) d(3) by auto
  have around: "ring_dist ?n ?a ?b + with_dev cq = ?n" using ring_around [OF d(2,3) ne] .
  have nidle: "Suc ?a mod ?n \<noteq> ?b"
  proof
    assume b: "Suc ?a mod ?n = ?b"
    have "ring_dist ?n ?a (Suc ?a mod ?n) = 1" using D d(2) by (subst ring_dist_Suc) auto
    with b around D(2) show False by simp
  qed
  have "length buffs \<le> ?n" using buffs(2) d(2) by simp
  from ok this order_refl buffs(1) show ?thesis
  proof (cases rule: idpf_ctlq_post_rx_buffs_run [where dmas = ds and hw = h])
    case idle
    with nidle show ?thesis by simp
  next
    case (loop x i' c p h')
    let ?c = "c\<lparr>next_to_post := p, cq_lock := False\<rparr>" and ?X = "ring_dist ?n ?a x"
    note r = loop(2) [unfolded post_result_def Let_def, simplified]
    have i': "i' = length buffs" using post_all [OF loop(2) buffs] d hole by simp
    have conf: "ring_size c = ?n" "next_to_clean c = ?b" "ctlq_idx_ok c" "length (bi c) = ?n"
      using r d(1,4) same_config_idx [of "cq\<lparr>cq_lock := True\<rparr>" c] by (auto simp: same_config_def)
    have x: "x < ?n" "?X \<le> ring_dist ?n ?a ?b" using r by auto
    have nn: "bi c ! s \<noteq> NULL \<longleftrightarrow> ring_dist ?n ?b s < with_dev cq \<or> ring_dist ?n ?a s < ?X" if "s < ?n" for s
      using r that full [OF that] ring_flip [OF d(2,3) that ne] x by (auto simp: rx_posted_def not_less)
    have "{s. s < ?n \<and> bi c ! s \<noteq> NULL} = {s. s < ?n \<and> ring_dist ?n ?b s < with_dev cq} \<union> {s. s < ?n \<and> ring_dist ?n ?a s < ?X}"
      using nn by auto
    moreover have "{s. s < ?n \<and> ring_dist ?n ?b s < with_dev cq} \<inter> {s. s < ?n \<and> ring_dist ?n ?a s < ?X} = {}"
      using ring_flip [OF d(2,3) _ ne] x(2) by (auto simp: not_less)
    ultimately have "size (rq_bufs c) = with_dev cq + ?X"
      using conf(4) d x by (simp add: size_rq_bufs card_Un_disjoint card_ring less_imp_le)
    moreover have bufs: "rq_bufs c = rq_bufs cq + mset buffs" using r i' by (simp add: rq_bufs_def)
    ultimately have X: "?X = k" using count(1) by simp
    then have "?a \<noteq> x" using count(2) by auto
    then have p: "p < ?n" "ring_dist ?n ?a p = k - 1" using loop(3) ring_pred [OF d(2) x(1)] X by simp_all
    have xle: "k \<le> ring_dist ?n ?a ?b" using X x(2) by simp
    have D': "ring_dist ?n ?b p = with_dev cq + k - 1"
    proof -
      have "\<not> ring_dist ?n ?a ?b \<le> ring_dist ?n ?a p" using p(2) xle count(2) by linarith
      then have "with_dev cq \<le> ring_dist ?n ?b p" using ring_flip [OF d(2,3) p(1) ne] by (simp add: not_less)
      from ring_shift [OF d(2,3) p(1) this] show ?thesis using p(2) count(2) by simp
    qed
    have lay: "(ring_dist ?n ?b s < ring_dist ?n ?b p \<longrightarrow> bi c ! s \<noteq> NULL) \<and>
        (ring_dist ?n ?b p < ring_dist ?n ?b s \<longrightarrow> bi c ! s = NULL)" if "s < ?n" for s
      using nn [OF that] ring_shift [OF d(2,3) that] X count(2) unfolding D' by (cases "ring_dist ?n ?b s < with_dev cq") (auto simp: not_less)
    have dds: "dd cq s" if "dd ?c s" for s
      using idpf_ctlq_post_rx_buffs_dd [OF loop(5) that] .
    have "ring_dist ?n ?b s < ring_dist ?n ?b p" if "s < ?n" "dd c s" for s
      using dev [OF that(1) dds] that(2) count(2) unfolding D' by simp
    then have "rq_lay ?c"
      using lay conf p(1) by (simp add: rq_lay_def rq_ok_def ctlq_idx_ok_def Let_def)
    moreover have "dd_set ?c \<subseteq> dd_set cq" using dds conf by (auto simp: dd_set_def)
    moreover have "rq_bufs ?c = rq_bufs cq + mset buffs" using bufs by (simp add: rq_bufs_def)
    ultimately show ?thesis using loop(5) i' by auto
  qed
qed

section \<open>Taking one message\<close>

definition rq_take :: "idpf_ctlq_info \<Rightarrow> idpf_ctlq_info" where
  "rq_take cq = (rq_consume (next_to_clean cq) cq)
     \<lparr>next_to_clean := Suc (next_to_clean cq) mod ring_size cq, cq_lock := False\<rparr>"

lemma recv_one:
  assumes "rq_ok cq"
  shows "idpf_ctlq_recv (Some cq) 1 [m] =
    (let d = desc_ring cq ! next_to_clean cq in
     if \<not> dd cq (next_to_clean cq) then (Some ENOMSG, Some (cq\<lparr>cq_lock := False\<rparr>), 0, [m])
     else (if d_flags d AND IDPF_CTLQ_FLAG_ERR \<noteq> 0 then Some EBADMSG else ret_ok, Some (rq_take cq), 1,
           [ctlq_recv_msg d (bi cq ! next_to_clean cq) m]))"
proof -
  have ok: "ctlq_idx_ok (cq\<lparr>cq_lock := True\<rparr>)" "next_to_clean cq < ring_size cq" "ring_size cq \<noteq> 0"
    using assms by (auto simp: rq_ok_def ctlq_idx_ok_def)
  have "ctlq_bump (cq\<lparr>cq_lock := True\<rparr>) (next_to_clean cq) = Suc (next_to_clean cq) mod ring_size cq"
    using ctlq.succ_mod [OF ok(1), of "next_to_clean cq"] ok(2) by simp
  then show ?thesis
    using ok by (simp add: idpf_ctlq_recv_def Let_def dd_def rq_take_def rq_consume_def)
qed

lemma rq_take_fields [simp]:
  "ring_size (rq_take cq) = ring_size cq" "next_to_post (rq_take cq) = next_to_post cq"
  "next_to_use (rq_take cq) = next_to_use cq"
  "next_to_clean (rq_take cq) = Suc (next_to_clean cq) mod ring_size cq"
  "desc_ring (rq_take cq) = (desc_ring cq)[next_to_clean cq := zero_desc]"
  "bi (rq_take cq) = (if d_datalen (desc_ring cq ! next_to_clean cq) \<noteq> 0 then (bi cq)[next_to_clean cq := NULL] else bi cq)"
  by (simp_all add: rq_take_def rq_consume_def)

definition taken :: "idpf_ctlq_info \<Rightarrow> ptr list" where
  "taken cq = (if d_datalen (desc_ring cq ! next_to_clean cq) \<noteq> 0 then [bi cq ! next_to_clean cq] else [])"

lemma rq_bufs_take:
  assumes "rq_ok cq" and "bi cq ! next_to_clean cq \<noteq> NULL"
  shows "rq_bufs (rq_take cq) + mset (taken cq) = rq_bufs cq"
proof -
  note d = rq_okD [OF assms(1)]
  let ?s = "next_to_clean cq"
  have "bi cq ! ?s \<in> set (bi cq)" using d(3,4) by (intro nth_mem) simp
  then have "bi cq ! ?s \<in># mset (bi cq)" by (simp only: set_mset_mset)
  then obtain M where M: "mset (bi cq) = add_mset (bi cq ! ?s) M" by (metis multi_member_split)
  have "mset ((bi cq)[?s := NULL]) = add_mset NULL M"
    using d(3,4) by (subst mset_update) (simp_all add: M)
  then have "rq_bufs (cq\<lparr>bi := (bi cq)[?s := NULL]\<rparr>) + {#bi cq ! ?s#} = rq_bufs cq"
    unfolding rq_bufs_def M using assms(2) by simp
  then show ?thesis by (simp add: rq_bufs_def taken_def)
qed

text \<open>After a message is taken: what posting needs.\<close>

lemma rq_take_lay:
  assumes lay: "rq_lay cq" and dn: "dd cq (next_to_clean cq)"
  shows "rq_ok (rq_take cq)" "Suc (with_dev (rq_take cq)) = with_dev cq"
    "dd_set (rq_take cq) = dd_set cq - {next_to_clean cq}" "next_to_clean cq \<in> dd_set cq"
    "bi cq ! next_to_clean cq \<noteq> NULL"
    "\<And>s. s < ring_size cq \<Longrightarrow> ring_dist (ring_size cq) (next_to_clean (rq_take cq)) s < with_dev (rq_take cq) \<Longrightarrow>
       bi (rq_take cq) ! s \<noteq> NULL"
    "\<And>s. s < ring_size cq \<Longrightarrow> dd (rq_take cq) s \<Longrightarrow> ring_dist (ring_size cq) (next_to_clean (rq_take cq)) s < with_dev (rq_take cq)"
proof -
  have ok: "rq_ok cq" using lay by (simp add: rq_lay_def)
  note d = rq_okD [OF ok] and l = rq_layD [OF lay]
  let ?n = "ring_size cq" and ?s = "next_to_clean cq" and ?p = "next_to_post cq"
  have ne: "?s \<noteq> ?p" using l(3) [OF d(3) dn] by auto
  have st: "ring_dist ?n ?s t = Suc (ring_dist ?n (Suc ?s mod ?n) t)" if "t < ?n" "t \<noteq> ?s" for t
    using that d(3) by (intro ring_dist_step) auto
  show D: "Suc (with_dev (rq_take cq)) = with_dev cq" using st [OF d(2)] ne by simp
  have dds: "dd (rq_take cq) t \<longleftrightarrow> t \<noteq> ?s \<and> dd cq t" if "t < ?n" for t
    using that d(5) by (cases "t = ?s") (simp_all add: dd_def zero_desc_def)
  then show "dd_set (rq_take cq) = dd_set cq - {?s}" by (auto simp: dd_set_def)
  show "?s \<in> dd_set cq" using dn d(3) by (simp add: dd_set_def)
  show "rq_ok (rq_take cq)" using ok by (auto simp: rq_ok_def ctlq_idx_ok_def)
  show "bi cq ! ?s \<noteq> NULL" using l(1,3) [OF d(3)] dn by blast
  show "ring_dist ?n (next_to_clean (rq_take cq)) t < with_dev (rq_take cq)" if "t < ?n" "dd (rq_take cq) t" for t
    using that dds [OF that(1)] l(3) [OF that(1)] st [OF that(1)] D by simp
  show "bi (rq_take cq) ! t \<noteq> NULL" if t: "t < ?n" "ring_dist ?n (next_to_clean (rq_take cq)) t < with_dev (rq_take cq)" for t
  proof -
    have "t \<noteq> ?s"
    proof
      assume "t = ?s"
      then have "ring_dist ?n (next_to_clean (rq_take cq)) t = ?n - 1"
        using d(3) by (auto simp: ring_dist_def Suc_mod_ring)
      then show False using t(2) D ring_dist_less [OF d(3,2)] by simp
    qed
    then show ?thesis using t st [OF t(1)] D l(1) [OF t(1)] by simp
  qed
qed

lemma rq_take_post:
  assumes lay: "rq_lay cq" and dn: "dd cq (next_to_clean cq)" and three: "3 \<le> size (rq_bufs cq)"
  shows "\<exists>h' cq'. idpf_ctlq_post_rx_buffs ds h (rq_take cq) (length (taken cq)) (taken cq) = Some (ret_ok, h', cq', 0) \<and>
    rq_lay cq' \<and> dd_set cq' \<subseteq> dd_set cq - {next_to_clean cq} \<and> rq_bufs cq' = rq_bufs cq"
proof -
  note t = rq_take_lay [OF lay dn]
  have ok: "rq_ok cq" using lay by (simp add: rq_lay_def)
  note d = rq_okD [OF ok]
  let ?n = "ring_size cq" and ?s = "next_to_clean cq" and ?p = "next_to_post cq"
  let ?k = "Suc (if bi cq ! ?p \<noteq> NULL then 1 else 0)"
  have D: "2 \<le> with_dev cq" "with_dev cq < ?n"
    using lay_size [OF lay] three d(2,3) by (auto split: if_splits)
  have far: "ring_dist ?n ?p ?s < ring_dist ?n ?p (Suc ?s mod ?n)"
    using D d(2,3) by (auto simp: ring_dist_def Suc_mod_ring split: if_splits)
  have bufs: "rq_bufs (rq_take cq) + mset (taken cq) = rq_bufs cq" using rq_bufs_take [OF ok t(5)] .
  then have "size (rq_bufs (rq_take cq)) + length (taken cq) = size (rq_bufs cq)"
    by (metis size_mset size_union)
  then have count: "size (rq_bufs (rq_take cq)) + length (taken cq) = with_dev (rq_take cq) + ?k"
    using lay_size [OF lay] t(2) by simp
  have "\<exists>h' cq'. idpf_ctlq_post_rx_buffs ds h (rq_take cq) (length (taken cq)) (taken cq) = Some (ret_ok, h', cq', 0) \<and>
    rq_lay cq' \<and> dd_set cq' \<subseteq> dd_set (rq_take cq) \<and> rq_bufs cq' = rq_bufs (rq_take cq) + mset (taken cq)"
  proof (rule post_lay [OF t(1) _ _ _ _ _ _ _ count])
    show "\<exists>s < ring_size (rq_take cq). bi (rq_take cq) ! s = NULL \<and>
      ring_dist (ring_size (rq_take cq)) (next_to_post (rq_take cq)) s <
      ring_dist (ring_size (rq_take cq)) (next_to_post (rq_take cq)) (next_to_clean (rq_take cq))" if "taken cq \<noteq> []"
      using that far d(3,4) by (intro exI [of _ ?s]) (auto simp: taken_def split: if_splits)
    show "NULL \<notin> set (taken cq)" using t(5) by (simp add: taken_def)
    show "length (taken cq) \<le> 1" by (simp add: taken_def)
    show "1 \<le> with_dev (rq_take cq)" "with_dev (rq_take cq) + 2 \<le> ring_size (rq_take cq)" "1 \<le> ?k"
      using D t(2) by simp_all
  qed (use t(6,7) in simp_all)
  then show ?thesis using t(3) bufs by simp
qed

section \<open>The loop\<close>

lemma mb_dispatch_wld: "mb_dispatch handler has_adi s msg = (err, s') \<Longrightarrow> wld s' = wld s"
  by (auto simp: mb_dispatch_def idpf_recv_event_msg_def idpf_handle_event_link_def Let_def
      split: if_splits prod.splits option.splits)

lemma recv_msg_payload [simp]:
  "m_data_len (ctlq_recv_msg d b m) = d_datalen d" "d_datalen d \<noteq> 0 \<Longrightarrow> m_payload (ctlq_recv_msg d b m) = b"
  by (simp_all add: ctlq_recv_msg_def Let_def)

definition heap_same :: "idpf_mbx \<Rightarrow> idpf_mbx \<Rightarrow> bool" where
  "heap_same s s' \<longleftrightarrow> live (wld s') = live (wld s) \<and> dma_live (wld s') = dma_live (wld s) \<and> bad_free (wld s') = bad_free (wld s)"

abbreviation rq_set :: "ptr \<Rightarrow> idpf_ctlq_info \<Rightarrow> idpf_mbx \<Rightarrow> idpf_mbx" where
  "rq_set p cq s \<equiv> s\<lparr>wld := (wld s)\<lparr>cqs := (cqs (wld s))(p := cq)\<rparr>\<rparr>"

text \<open>One turn of the loop.\<close>

lemma recv_turn:
  assumes lay: "rq_lay (cqs (wld s) p)" and three: "3 \<le> size (rq_bufs (cqs (wld s) p))"
  defines "cq \<equiv> cqs (wld s) p"
  defines "d \<equiv> desc_ring cq ! next_to_clean cq"
  obtains (none) "\<not> dd cq (next_to_clean cq)"
      "idpf_recv_mb_msg handler a p s = Some (Some ENOMSG, rq_set p (cq\<lparr>cq_lock := False\<rparr>) s)"
  | (bad) "dd cq (next_to_clean cq)" "d_flags d AND IDPF_CTLQ_FLAG_ERR \<noteq> 0"
      "idpf_recv_mb_msg handler a p s = Some (Some EBADMSG, rq_set p (rq_take cq) s)"
  | (msg) err s' cq' where "dd cq (next_to_clean cq)" "cqs (wld s') p = cq'" "heap_same s s'"
      "rq_lay cq'" "dd_set cq' \<subseteq> dd_set cq - {next_to_clean cq}" "rq_bufs cq' = rq_bufs cq"
      "idpf_recv_mb_msg handler a p s = (if err \<noteq> ret_ok then Some (err, s') else idpf_recv_mb_msg handler a p s')"
proof -
  have ok: "rq_ok cq" using lay by (simp add: rq_lay_def cq_def)
  note unf = idpf_recv_mb_msg.simps [of handler a p s, folded cq_def, unfolded recv_one [OF ok], folded d_def]
  consider (1) "\<not> dd cq (next_to_clean cq)" | (2) "dd cq (next_to_clean cq)" "d_flags d AND IDPF_CTLQ_FLAG_ERR \<noteq> 0"
    | (3) "dd cq (next_to_clean cq)" "d_flags d AND IDPF_CTLQ_FLAG_ERR = 0" by blast
  then show thesis
  proof cases
    case 1
    then show thesis using none unf by (simp add: Let_def)
  next
    case 2
    then show thesis using bad unf by (simp add: Let_def)
  next
    case 3
    let ?m = "ctlq_recv_msg d (bi cq ! next_to_clean cq) zero_msg" and ?s1 = "rq_set p (rq_take cq) s"
    obtain err s2 where dp: "mb_dispatch handler a ?s1 ?m = (err, s2)" by fastforce
    note w = mb_dispatch_wld [OF dp]
    obtain h' cq' where post: "idpf_ctlq_post_rx_buffs (dmas (wld s2)) (hw (wld s2)) (rq_take cq) (length (taken cq)) (taken cq)
        = Some (ret_ok, h', cq', 0)" "rq_lay cq'" "dd_set cq' \<subseteq> dd_set cq - {next_to_clean cq}" "rq_bufs cq' = rq_bufs cq"
      using rq_take_post [OF lay [folded cq_def] 3(1) three [folded cq_def]] by blast
    let ?s3 = "s2\<lparr>wld := (wld s2)\<lparr>hw := h', cqs := (cqs (wld s2))(p := cq')\<rparr>\<rparr>"
    have "idpf_recv_mb_msg handler a p s = (if err \<noteq> ret_ok then Some (err, ?s3) else idpf_recv_mb_msg handler a p ?s3)"
    proof (cases "d_datalen d = 0")
      case True
      then have "idpf_ctlq_post_rx_buffs (dmas (wld s2)) (hw (wld s2)) (rq_take cq) 0 [] = Some (ret_ok, h', cq', 0)"
        using post(1) by (simp add: taken_def d_def)
      then show ?thesis using 3 dp w True by (subst unf) (simp add: Let_def)
    next
      case False
      then have "idpf_ctlq_post_rx_buffs (dmas (wld s2)) (hw (wld s2)) (rq_take cq) (Suc 0) [m_payload ?m] = Some (ret_ok, h', cq', 0)"
        using post(1) by (simp add: taken_def d_def)
      then show ?thesis using 3 dp w False by (subst unf) (simp add: Let_def)
    qed
    moreover have "heap_same s ?s3" using w by (simp add: heap_same_def)
    ultimately show thesis using msg [of ?s3 cq' err] 3(1) post(2-4) by simp
  qed
qed

lemma idpf_recv_mb_msg_run:
  assumes "rq_lay (cqs (wld s) p)" and "3 \<le> size (rq_bufs (cqs (wld s) p))"
  shows "\<exists>err s' lost. idpf_recv_mb_msg handler a p s = Some (err, s') \<and> err \<noteq> ret_ok \<and> heap_same s s' \<and>
    rq_bufs (cqs (wld s') p) + lost = rq_bufs (cqs (wld s) p) \<and> size lost \<le> 1 \<and>
    (err \<noteq> Some EBADMSG \<longrightarrow> lost = {#} \<and> rq_lay (cqs (wld s') p))"
  using assms
proof (induction "card (dd_set (cqs (wld s) p))" arbitrary: s rule: less_induct)
  case less
  let ?cq = "cqs (wld s) p"
  from less.prems show ?case
  proof (cases rule: recv_turn [where handler = handler and a = a])
    case none
    then show ?thesis using less.prems
      by (intro exI [of _ "Some ENOMSG"] exI [of _ "rq_set p (?cq\<lparr>cq_lock := False\<rparr>) s"] exI [of _ "{#}"])
        (simp add: heap_same_def rq_bufs_def rq_lay_def rq_ok_def ctlq_idx_ok_def)
  next
    case bad
    have "rq_bufs (rq_take ?cq) + mset (taken ?cq) = rq_bufs ?cq"
      using rq_take_lay(5) [OF less.prems(1) bad(1)] less.prems(1) by (intro rq_bufs_take) (simp_all add: rq_lay_def)
    then show ?thesis using bad
      by (intro exI [of _ "Some EBADMSG"] exI [of _ "rq_set p (rq_take ?cq) s"] exI [of _ "mset (taken ?cq)"])
        (simp add: heap_same_def taken_def)
  next
    case (msg err s' cq')
    show ?thesis
    proof (cases "err = ret_ok")
      case False
      then show ?thesis using msg by (intro exI [of _ err] exI [of _ s'] exI [of _ "{#}"]) simp
    next
      case True
      have "next_to_clean ?cq \<in> dd_set ?cq" using rq_take_lay(4) [OF less.prems(1) msg(1)] .
      then have "card (dd_set cq') < card (dd_set ?cq)"
        using msg(5) by (intro psubset_card_mono) auto
      then obtain e s'' lost where "idpf_recv_mb_msg handler a p s' = Some (e, s'')" "e \<noteq> ret_ok" "heap_same s' s''"
          "rq_bufs (cqs (wld s'') p) + lost = rq_bufs (cqs (wld s') p)" "size lost \<le> 1"
          "e \<noteq> Some EBADMSG \<longrightarrow> lost = {#} \<and> rq_lay (cqs (wld s'') p)"
        using less.hyps [of s'] msg(2,4,6) less.prems(2) by auto
      then show ?thesis using msg True
        by (intro exI [of _ e] exI [of _ s''] exI [of _ lost]) (simp add: heap_same_def)
    qed
  qed
qed


text \<open>A ring of four slots with three buffers; the first descriptor holds an event that the driver ignores,
  or, with the error flag, a failed message.\<close>

definition demo_mb_rq :: "u16 \<Rightarrow> idpf_ctlq_info" where
  "demo_mb_rq fl = demo_sq\<lparr>cq_type := IDPF_CTLQ_TYPE_MAILBOX_RX, ring_size := 4, next_to_clean := 0, next_to_post := 2,
     bi := [0x50, 0x60, 0x70, NULL],
     desc_ring := [zero_desc\<lparr>d_flags := fl, d_datalen := 8, d_cookie_high := 522\<rparr>, zero_desc, zero_desc, zero_desc]\<rparr>"

definition demo_mb_recv :: "u16 \<Rightarrow> idpf_mbx" where
  "demo_mb_recv fl = \<lparr>wld = (demo_world [] [])\<lparr>cqs := (\<lambda>_. demo_mb_rq fl)\<rparr>, mb_msgs = (\<lambda>_. zero_msg),
     mb_mem = (\<lambda>a. 0), vcxn_mngr = \<lparr>xn_ring = [], free_xn_bm = [], mngr_salt = 0, mngr_active = False\<rparr>,
     vport_ids = [], vports = [], adi_resets = [], mb_overflow = False\<rparr>"

lemma all_less_4: "(\<forall>i < 4. P i) \<longleftrightarrow> P 0 \<and> P 1 \<and> P 2 \<and> P (3::nat)"
  by (auto simp: less_Suc_eq numeral_eq_Suc)

lemma demo_mb_rq_lay:
  "rq_lay (demo_mb_rq fl)" "rq_bufs (demo_mb_rq fl) = {#0x50, 0x60, 0x70#}" "rq_ok (demo_mb_rq fl)"
  "cqs (wld (demo_mb_recv fl)) p = demo_mb_rq fl"
  by (simp_all add: rq_lay_def rq_ok_def ctlq_idx_ok_def Let_def demo_mb_rq_def demo_sq_def rq_bufs_def dd_def
      ring_dist_def zero_desc_def demo_mb_recv_def all_less_4)


text \<open>
  The buffer that goes missing: a descriptor that reports an error and carries a payload has its buffer taken out
  of the ring by \<open>idpf_ctlq_recv\<close>, but \<open>idpf_recv_mb_msg\<close> returns \<open>-EBADMSG\<close> without posting or freeing it, so
  the buffer is in no slot of the ring any more while its memory is still allocated.
\<close>

theorem idpf_recv_mb_msg_loses_buffer:
  fixes s p
  defines "cq \<equiv> cqs (wld s) p"
  defines "d \<equiv> desc_ring cq ! next_to_clean cq" and "b \<equiv> bi cq ! next_to_clean cq"
  assumes "rq_ok cq" and "d_flags d AND IDPF_CTLQ_FLAG_DD \<noteq> 0" and "d_flags d AND IDPF_CTLQ_FLAG_ERR \<noteq> 0"
    and "d_datalen d \<noteq> 0" and "b \<noteq> NULL" and "Multiset.count (rq_bufs cq) b = 1"
  shows "\<exists>s'. idpf_recv_mb_msg handler has_adi p s = Some (Some EBADMSG, s') \<and>
    b \<notin># rq_bufs (cqs (wld s') p) \<and> live (wld s') = live (wld s) \<and> dma_live (wld s') = dma_live (wld s)"
proof -
  have dn: "dd cq (next_to_clean cq)" using assms(5) by (simp add: dd_def d_def)
  have "idpf_recv_mb_msg handler has_adi p s = Some (Some EBADMSG, rq_set p (rq_take cq) s)"
    using idpf_recv_mb_msg.simps [of handler has_adi p s, folded cq_def, unfolded recv_one [OF assms(4)], folded d_def]
      dn assms(6) by (simp add: Let_def)
  moreover have "rq_bufs (rq_take cq) + mset (taken cq) = rq_bufs cq"
    using assms(4,8) by (intro rq_bufs_take) (simp_all add: b_def)
  moreover have "taken cq = [b]" using assms(7) by (simp add: taken_def d_def b_def)
  ultimately have "rq_bufs (rq_take cq) + {#b#} = rq_bufs cq" by simp
  then have "Multiset.count (rq_bufs (rq_take cq)) b = 0" using assms(9)
    by (metis add_eq_self_zero add.commute count_single count_union)
  then show ?thesis using \<open>idpf_recv_mb_msg handler has_adi p s = _\<close> by (simp add: count_eq_zero_iff)
qed

theorem idpf_recv_mb_msg_loses_buffer_witness:
  "\<exists>s'. idpf_recv_mb_msg (\<lambda>_ _ _. ret_ok) False 0 (demo_mb_recv 5) = Some (Some EBADMSG, s') \<and>
    0x50 \<notin># rq_bufs (cqs (wld s') 0)"
proof -
  have "next_to_clean (demo_mb_rq 5) = 0" "desc_ring (demo_mb_rq 5) ! 0 = zero_desc\<lparr>d_flags := 5, d_datalen := 8, d_cookie_high := 522\<rparr>"
    "bi (demo_mb_rq 5) ! 0 = 0x50" by (simp_all add: demo_mb_rq_def demo_sq_def)
  with idpf_recv_mb_msg_loses_buffer [of "demo_mb_recv 5" 0 "\<lambda>_ _ _. ret_ok" False] show ?thesis
    by (auto simp: demo_mb_rq_lay zero_desc_def IDPF_CTLQ_FLAG_DD_def IDPF_CTLQ_FLAG_ERR_def)
qed

end
