(* ===== verification/Idpf_Vectors.thy ===== *)
theory Idpf_Vectors
  imports Idpf_Pool "HOL-Library.Multiset"
begin

text \<open>
  Distribution of the interrupt vectors: the vector stack of \<open>idpf_lib.c\<close> (\<open>struct idpf_vector_lifo\<close>),
  \<open>idpf_req_rel_vector_indexes\<close>, through which every vport and ADI gets and returns its vectors, and
  the two vport functions of \<open>idpf_virtchnl.c\<close> that call it.

  The array \<open>vec_idx\<close> is a list; its first \<open>base\<close> entries are the default pool (the mailbox vector and
  one vector per default vport), the entries from \<open>top\<close> on are the free pool.  Vector numbers and the
  16 bit counters are natural numbers.
\<close>

section \<open>State\<close>

record idpf_vector_lifo =
  lifo_top :: nat
  lifo_base :: nat
  lifo_size :: nat
  vec_idx :: "nat list"

record idpf_vector_info =
  num_req_vecs :: nat
  num_curr_vecs :: nat
  vi_index :: nat
  default_vport :: bool

text \<open>What the functions reach from \<open>idpf_adapter\<close>.\<close>

record idpf_vecs =
  vector_stack :: idpf_vector_lifo
  num_avail_msix :: nat
  num_msix_entries :: nat

definition IDPF_MBX_Q_VEC :: nat where
  "IDPF_MBX_Q_VEC = 1"

definition IDPF_MIN_Q_VEC :: nat where
  "IDPF_MIN_Q_VEC = 1"

section \<open>The stack\<close>

text \<open>\<open>got_mem\<close>: the allocation of the index array succeeded.\<close>

definition idpf_init_vector_stack :: "bool \<Rightarrow> idpf_vecs \<Rightarrow> ret \<times> idpf_vecs" where
  "idpf_init_vector_stack got_mem a =
     (let min_vec = trunc16 (65536 + num_msix_entries a - num_avail_msix a);
          st = \<lparr>lifo_top = min_vec, lifo_base = min_vec, lifo_size = num_msix_entries a,
                vec_idx = (if got_mem then [0..<num_msix_entries a] else [])\<rparr>
      in (if got_mem then ret_ok else Some ENOMEM, a\<lparr>vector_stack := st\<rparr>))"

definition idpf_deinit_vector_stack :: "idpf_vecs \<Rightarrow> idpf_vecs" where
  "idpf_deinit_vector_stack a = a\<lparr>vector_stack := (vector_stack a)\<lparr>vec_idx := []\<rparr>\<rparr>"

definition idpf_vector_lifo_push :: "idpf_vecs \<Rightarrow> nat \<Rightarrow> ret \<times> idpf_vecs" where
  "idpf_vector_lifo_push a v =
     (let st = vector_stack a in
      if lifo_top st = lifo_base st then (Some EINVAL, a)
      else (ret_ok, a\<lparr>vector_stack := st\<lparr>lifo_top := lifo_top st - 1, vec_idx := (vec_idx st)[lifo_top st - 1 := v]\<rparr>\<rparr>))"

definition idpf_vector_lifo_pop :: "idpf_vecs \<Rightarrow> (errno + nat) \<times> idpf_vecs" where
  "idpf_vector_lifo_pop a =
     (let st = vector_stack a in
      if lifo_top st = lifo_size st then (Inl EINVAL, a)
      else (Inr (vec_idx st ! lifo_top st), a\<lparr>vector_stack := st\<lparr>lifo_top := lifo_top st + 1\<rparr>\<rparr>))"

section \<open>Requests and releases\<close>

text \<open>\<open>vector_stash_loop idxs b k\<close> is the loop over \<open>i = k - 1\<close> down to \<open>b\<close>.\<close>

fun vector_stash_loop :: "nat list \<Rightarrow> nat \<Rightarrow> nat \<Rightarrow> idpf_vecs \<Rightarrow> idpf_vecs" where
  "vector_stash_loop idxs b 0 a = a"
| "vector_stash_loop idxs b (Suc i) a =
     (if i < b then a
      else let a = snd (idpf_vector_lifo_push a (idxs ! i))
           in vector_stash_loop idxs b i (a\<lparr>num_avail_msix := trunc16 (num_avail_msix a + 1)\<rparr>))"

definition idpf_vector_stash :: "idpf_vecs \<Rightarrow> nat list \<Rightarrow> idpf_vector_info \<Rightarrow> idpf_vecs" where
  "idpf_vector_stash a idxs vi =
     (if num_curr_vecs vi = 0 then a
      else vector_stash_loop idxs (if default_vport vi then IDPF_MIN_Q_VEC else 0) (num_curr_vecs vi) a)"

text \<open>The error value of a failed pop, \<open>-EINVAL\<close>, is stored into the 16 bit array like a vector.\<close>

fun vector_pop_loop :: "nat \<Rightarrow> nat list \<Rightarrow> nat \<Rightarrow> idpf_vecs \<Rightarrow> nat list \<times> nat \<times> idpf_vecs" where
  "vector_pop_loop 0 idxs n a = (idxs, n, a)"
| "vector_pop_loop (Suc k) idxs n a =
     (case idpf_vector_lifo_pop a of (r, a) \<Rightarrow>
        vector_pop_loop k (idxs[n := (case r of Inl e \<Rightarrow> 65514 | Inr v \<Rightarrow> v)]) (n + 1) a)"

text \<open>The vectors set aside for a default vport: \<open>k\<close> of them from slot \<open>j\<close> on.\<close>

fun vector_default_loop :: "nat \<Rightarrow> nat list \<Rightarrow> nat \<Rightarrow> nat list \<Rightarrow> nat \<Rightarrow> nat \<Rightarrow> nat list \<times> nat \<times> nat" where
  "vector_default_loop 0 vecs j idxs n req = (idxs, n, req)"
| "vector_default_loop (Suc k) vecs j idxs n req =
     vector_default_loop k vecs (j + 1) (idxs[n := vecs ! j]) (n + 1) (trunc16 (req + 65535))"

definition idpf_req_rel_vector_indexes ::
  "idpf_vecs \<Rightarrow> nat list \<Rightarrow> idpf_vector_info \<Rightarrow> nat \<times> nat list \<times> idpf_vecs" where
  "idpf_req_rel_vector_indexes a idxs vi =
     (let a = idpf_vector_stash a idxs vi in
      if num_req_vecs vi = 0 then (0, idxs, a)
      else case (if default_vport vi
                 then vector_default_loop IDPF_MIN_Q_VEC (vec_idx (vector_stack a))
                        (vi_index vi * IDPF_MIN_Q_VEC + IDPF_MBX_Q_VEC) idxs 0 (num_req_vecs vi)
                 else (idxs, 0, num_req_vecs vi)) of
        (idxs, num_alloc_vecs, req) \<Rightarrow>
          let max_vecs = min (num_avail_msix a) req in
          case vector_pop_loop max_vecs idxs num_alloc_vecs a of
            (idxs, num_alloc_vecs, a) \<Rightarrow>
              (num_alloc_vecs, idxs, a\<lparr>num_avail_msix := num_avail_msix a - max_vecs\<rparr>))"

section \<open>The vport's vectors\<close>

record idpf_q_vecs =
  qv_num_txq :: nat
  qv_num_rxq :: nat
  num_q_vectors :: nat
  q_vector_idxs :: "nat list"

text \<open>\<open>xdp\<close> is the number of XDP queues when a program is loaded.\<close>

definition idpf_vport_alloc_vec_indexes ::
  "bool \<Rightarrow> nat \<Rightarrow> nat option \<Rightarrow> idpf_vecs \<Rightarrow> idpf_q_vecs \<Rightarrow> ret \<times> idpf_q_vecs \<times> idpf_vecs" where
  "idpf_vport_alloc_vec_indexes dflt idx xdp a rsrc =
     (let vi = \<lparr>num_req_vecs = (case xdp of None \<Rightarrow> max (qv_num_txq rsrc) (qv_num_rxq rsrc)
                   | Some n \<Rightarrow> max (trunc16 (65536 + qv_num_txq rsrc - n)) (qv_num_rxq rsrc)),
                num_curr_vecs = num_q_vectors rsrc, vi_index = idx, default_vport = dflt\<rparr>
      in case idpf_req_rel_vector_indexes a (q_vector_idxs rsrc) vi of
           (n, idxs, a) \<Rightarrow>
             if n = 0 then (Some EINVAL, rsrc\<lparr>q_vector_idxs := idxs\<rparr>, a)
             else (ret_ok, rsrc\<lparr>q_vector_idxs := idxs, num_q_vectors := n\<rparr>, a))"

definition idpf_vport_dealloc_vec_indexes :: "bool \<Rightarrow> nat \<Rightarrow> idpf_vecs \<Rightarrow> idpf_q_vecs \<Rightarrow> idpf_q_vecs \<times> idpf_vecs" where
  "idpf_vport_dealloc_vec_indexes dflt idx a rsrc =
     (let vi = \<lparr>num_req_vecs = 0, num_curr_vecs = num_q_vectors rsrc, vi_index = idx, default_vport = dflt\<rparr>
      in case idpf_req_rel_vector_indexes a (q_vector_idxs rsrc) vi of
           (n, idxs, a) \<Rightarrow> (rsrc\<lparr>q_vector_idxs := []\<rparr>, a))"

section \<open>The stack as a list\<close>

definition free_vecs :: "idpf_vecs \<Rightarrow> nat list" where
  "free_vecs a = drop (lifo_top (vector_stack a)) (vec_idx (vector_stack a))"

definition default_pool :: "idpf_vecs \<Rightarrow> nat list" where
  "default_pool a = take (lifo_base (vector_stack a)) (vec_idx (vector_stack a))"

definition vecs_ok :: "idpf_vecs \<Rightarrow> bool" where
  "vecs_ok a \<longleftrightarrow> (let st = vector_stack a in
     lifo_base st \<le> lifo_top st \<and> lifo_top st \<le> lifo_size st \<and> lifo_size st < 65536 \<and> length (vec_idx st) = lifo_size st)"

definition vecs_inv :: "idpf_vecs \<Rightarrow> bool" where
  "vecs_inv a \<longleftrightarrow> vecs_ok a \<and> num_avail_msix a = length (free_vecs a)"

text \<open>Room for returned vectors.\<close>

definition vecs_out :: "idpf_vecs \<Rightarrow> nat" where
  "vecs_out a = lifo_top (vector_stack a) - lifo_base (vector_stack a)"

lemma push_spec:
  assumes "vecs_ok a" and "0 < vecs_out a" and "idpf_vector_lifo_push a v = (r, a')"
  shows "r = ret_ok" "vecs_ok a'" "free_vecs a' = v # free_vecs a" "Suc (vecs_out a') = vecs_out a"
    "default_pool a' = default_pool a" "num_avail_msix a' = num_avail_msix a"
    "lifo_base (vector_stack a') = lifo_base (vector_stack a)" "lifo_size (vector_stack a') = lifo_size (vector_stack a)"
proof -
  let ?t = "lifo_top (vector_stack a)"
  have t: "0 < ?t" "?t - 1 < length (vec_idx (vector_stack a))" "lifo_top (vector_stack a) \<noteq> lifo_base (vector_stack a)"
    using assms(1,2) by (auto simp: vecs_ok_def vecs_out_def Let_def)
  have *: "r = ret_ok" "a' = a\<lparr>vector_stack := (vector_stack a)\<lparr>lifo_top := ?t - 1, vec_idx := (vec_idx (vector_stack a))[?t - 1 := v]\<rparr>\<rparr>"
    using assms(3) t(3) by (simp_all add: idpf_vector_lifo_push_def Let_def)
  have "drop (?t - 1) ((vec_idx (vector_stack a))[?t - 1 := v]) = v # drop ?t (vec_idx (vector_stack a))"
    using t Cons_nth_drop_Suc [of "?t - 1" "(vec_idx (vector_stack a))[?t - 1 := v]"] by simp
  then show "free_vecs a' = v # free_vecs a" using * by (simp add: free_vecs_def)
  show "r = ret_ok" by (rule *(1))
  show "vecs_ok a'" "Suc (vecs_out a') = vecs_out a" "default_pool a' = default_pool a" "num_avail_msix a' = num_avail_msix a"
    "lifo_base (vector_stack a') = lifo_base (vector_stack a)" "lifo_size (vector_stack a') = lifo_size (vector_stack a)"
    using * t assms(1,2) by (auto simp: vecs_ok_def vecs_out_def Let_def default_pool_def)
qed

lemma pop_spec:
  assumes "vecs_ok a" and "idpf_vector_lifo_pop a = (r, a')"
  shows "free_vecs a = [] \<Longrightarrow> r = Inl EINVAL \<and> a' = a"
    "free_vecs a \<noteq> [] \<Longrightarrow> r = Inr (hd (free_vecs a)) \<and> vecs_ok a' \<and> free_vecs a' = tl (free_vecs a) \<and>
       vec_idx (vector_stack a') = vec_idx (vector_stack a) \<and> num_avail_msix a' = num_avail_msix a \<and>
       lifo_base (vector_stack a') = lifo_base (vector_stack a) \<and> lifo_size (vector_stack a') = lifo_size (vector_stack a)"
  using assms by (auto simp: idpf_vector_lifo_pop_def vecs_ok_def free_vecs_def Let_def hd_drop_conv_nth
      drop_Suc tl_drop split: if_splits)

text \<open>One vector at a time, the stack is a resource pool over the free part \<open>b..<n\<close> of the vectors.\<close>

definition vec_pop :: "idpf_vecs \<Rightarrow> nat option \<times> idpf_vecs" where
  "vec_pop a = (case idpf_vector_lifo_pop a of (Inl e, a') \<Rightarrow> (None, a') | (Inr v, a') \<Rightarrow> (Some v, a'))"

definition vec_push :: "idpf_vecs \<Rightarrow> nat \<Rightarrow> idpf_vecs" where
  "vec_push a v = snd (idpf_vector_lifo_push a v)"

definition vec_pool_ok :: "nat \<Rightarrow> nat \<Rightarrow> idpf_vecs \<Rightarrow> bool" where
  "vec_pool_ok b n a \<longleftrightarrow> vecs_ok a \<and> lifo_base (vector_stack a) = b \<and> lifo_size (vector_stack a) = n \<and>
     distinct (free_vecs a) \<and> set (free_vecs a) \<subseteq> {b..<n}"

lemma vec_pool_room:
  assumes "vec_pool_ok b n a" and "v \<in> {b..<n}" "v \<notin> set (free_vecs a)"
  shows "0 < vecs_out a"
proof -
  have "length (free_vecs a) = card (set (free_vecs a))" using assms(1) by (simp add: vec_pool_ok_def distinct_card)
  also have "\<dots> < card {b..<n}" using assms by (intro psubset_card_mono) (auto simp: vec_pool_ok_def)
  finally show ?thesis using assms(1) by (auto simp: vec_pool_ok_def vecs_ok_def vecs_out_def free_vecs_def Let_def)
qed

interpretation vec_pool: resource_pool "vec_pool_ok b n" "{b..<n}" "\<lambda>a. set (free_vecs a)" vec_pop vec_push
  for b n
proof
  fix s s'
  assume ok: "vec_pool_ok b n s" and pop: "vec_pop s = (None, s')"
  obtain r s1 where p: "idpf_vector_lifo_pop s = (r, s1)" by fastforce
  have "vecs_ok s" using ok by (simp add: vec_pool_ok_def)
  from pop_spec [OF this p] show "set (free_vecs s) = {} \<and> s' = s"
    using p pop by (cases "free_vecs s = []") (auto simp: vec_pop_def split: sum.splits)
next
  fix s s' r
  assume ok: "vec_pool_ok b n s" and pop: "vec_pop s = (Some r, s')"
  obtain r1 s1 where p: "idpf_vector_lifo_pop s = (r1, s1)" by fastforce
  have k: "vecs_ok s" using ok by (simp add: vec_pool_ok_def)
  note spec = pop_spec [OF k p]
  show "vec_pool_ok b n s' \<and> r \<in> set (free_vecs s) \<and> set (free_vecs s') = set (free_vecs s) - {r}"
  proof (cases "free_vecs s")
    case Nil
    then show ?thesis using spec(1) p pop by (simp add: vec_pop_def)
  next
    case (Cons x xs)
    then show ?thesis using spec(2) p pop ok by (auto simp: vec_pop_def vec_pool_ok_def)
  qed
next
  fix s r
  assume ok: "vec_pool_ok b n s" and r: "r \<in> {b..<n}" "r \<notin> set (free_vecs s)"
  obtain e s1 where p: "idpf_vector_lifo_push s r = (e, s1)" by fastforce
  have k: "vecs_ok s" using ok by (simp add: vec_pool_ok_def)
  note spec = push_spec [OF k vec_pool_room [OF ok r] p]
  show "vec_pool_ok b n (vec_push s r) \<and> set (free_vecs (vec_push s r)) = insert r (set (free_vecs s))"
    using spec p ok r by (auto simp: vec_push_def vec_pool_ok_def)
next
  fix s assume "vec_pool_ok b n s"
  then show "set (free_vecs s) \<subseteq> {b..<n}" by (simp add: vec_pool_ok_def)
qed

end
