(* ===== verification/Idpf_Vectors_Results.thy ===== *)
theory Idpf_Vectors_Results
  imports Idpf_Vectors
begin

text \<open>
  What \<open>idpf_req_rel_vector_indexes\<close> does to the stack as a list, that a vport gets its own vectors back,
  and that in every sequence of requests and releases no vector has two owners.
\<close>

section \<open>The loops\<close>

lemma vecs_avail [simp]:
  "free_vecs (a\<lparr>num_avail_msix := x\<rparr>) = free_vecs a" "default_pool (a\<lparr>num_avail_msix := x\<rparr>) = default_pool a"
  "vecs_out (a\<lparr>num_avail_msix := x\<rparr>) = vecs_out a" "vecs_ok (a\<lparr>num_avail_msix := x\<rparr>) = vecs_ok a"
  by (simp_all add: free_vecs_def default_pool_def vecs_out_def vecs_ok_def)

lemma stash_loop_spec:
  assumes "vecs_inv a" and "k \<le> length idxs" and "k - b \<le> vecs_out a"
  shows "let a' = vector_stash_loop idxs b k a in
    vecs_inv a' \<and> free_vecs a' = drop b (take k idxs) @ free_vecs a \<and> default_pool a' = default_pool a \<and>
    lifo_base (vector_stack a') = lifo_base (vector_stack a) \<and> lifo_size (vector_stack a') = lifo_size (vector_stack a)"
  using assms
proof (induction k arbitrary: a)
  case (Suc i)
  show ?case
  proof (cases "i < b")
    case True
    then show ?thesis using Suc.prems by simp
  next
    case False
    obtain r a1 where p: "idpf_vector_lifo_push a (idxs ! i) = (r, a1)" by fastforce
    have k: "vecs_ok a" "0 < vecs_out a" using Suc.prems False by (auto simp: vecs_inv_def)
    note spec = push_spec [OF k p]
    let ?a2 = "a1\<lparr>num_avail_msix := trunc16 (num_avail_msix a1 + 1)\<rparr>"
    have "length (free_vecs a1) \<le> lifo_size (vector_stack a1)" "lifo_size (vector_stack a1) < 65536"
      using spec(2) by (auto simp: vecs_ok_def free_vecs_def Let_def)
    then have inv: "vecs_inv ?a2"
      using Suc.prems(1) spec by (simp add: vecs_inv_def)
    have "i - b \<le> vecs_out ?a2" using Suc.prems(3) spec(4) False by simp
    from Suc.IH [OF inv _ this] show ?thesis
      using Suc.prems(2) p False spec by (simp add: Let_def take_Suc_conv_app_nth)
  qed
qed simp

lemma pop_loop_spec:
  assumes "vecs_ok a" and "k \<le> length (free_vecs a)" and "n + k \<le> length idxs"
    and "vector_pop_loop k idxs n a = (idxs', n', a')"
  shows "n' = n + k \<and> length idxs' = length idxs \<and> take n' idxs' = take n idxs @ take k (free_vecs a) \<and> drop n' idxs' = drop n' idxs \<and>
    vecs_ok a' \<and> free_vecs a' = drop k (free_vecs a) \<and> vec_idx (vector_stack a') = vec_idx (vector_stack a) \<and>
    num_avail_msix a' = num_avail_msix a \<and>
    lifo_base (vector_stack a') = lifo_base (vector_stack a) \<and> lifo_size (vector_stack a') = lifo_size (vector_stack a)"
  using assms
proof (induction k arbitrary: idxs n a)
  case (Suc k)
  then obtain x xs where f: "free_vecs a = x # xs" by (cases "free_vecs a") auto
  obtain r a1 where p: "idpf_vector_lifo_pop a = (r, a1)" by fastforce
  note spec = pop_spec(2) [OF Suc.prems(1) p]
  have run: "vector_pop_loop k (idxs[n := x]) (n + 1) a1 = (idxs', n', a')"
    using Suc.prems(4) p spec f by simp
  have "take (Suc n) (idxs[n := x]) = take n idxs @ [x]"
    using Suc.prems(3) by (simp add: take_Suc_conv_app_nth)
  moreover have "drop (Suc (n + k)) (idxs[n := x]) = drop (Suc (n + k)) idxs" by simp
  moreover note Suc.IH [OF _ _ _ run]
  ultimately show ?case using Suc.prems(2,3) spec f by auto
qed simp

section \<open>Request and release\<close>

abbreviation dflt_vecs :: "idpf_vector_info \<Rightarrow> nat" where
  "dflt_vecs vi \<equiv> (if default_vport vi then 1 else 0)"

text \<open>The vectors of the free pool that the caller holds and returns.\<close>

definition held_vecs :: "idpf_vector_info \<Rightarrow> nat list \<Rightarrow> nat list" where
  "held_vecs vi idxs = drop (dflt_vecs vi) (take (num_curr_vecs vi) idxs)"

text \<open>The vectors a request yields, given the stack after the release.\<close>

definition given_vecs :: "idpf_vecs \<Rightarrow> idpf_vector_info \<Rightarrow> nat list \<Rightarrow> nat list" where
  "given_vecs a vi st = take (num_req_vecs vi - dflt_vecs vi) st"

lemma vector_stash_spec:
  assumes "vecs_inv a" and "num_curr_vecs vi \<le> length idxs" and "length (held_vecs vi idxs) \<le> vecs_out a"
  defines "a' \<equiv> idpf_vector_stash a idxs vi"
  shows "vecs_inv a'" "free_vecs a' = held_vecs vi idxs @ free_vecs a" "default_pool a' = default_pool a"
    "lifo_base (vector_stack a') = lifo_base (vector_stack a)" "lifo_size (vector_stack a') = lifo_size (vector_stack a)"
proof -
  have "num_curr_vecs vi - dflt_vecs vi \<le> vecs_out a" using assms(2,3) by (simp add: held_vecs_def split: if_splits)
  from stash_loop_spec [OF assms(1,2) this]
  show "vecs_inv a'" "free_vecs a' = held_vecs vi idxs @ free_vecs a" "default_pool a' = default_pool a"
    "lifo_base (vector_stack a') = lifo_base (vector_stack a)" "lifo_size (vector_stack a') = lifo_size (vector_stack a)"
    using assms(1) by (auto simp: a'_def idpf_vector_stash_def held_vecs_def IDPF_MIN_Q_VEC_def Let_def)
qed

lemma req_rel_spec:
  assumes inv: "vecs_inv a" and cur: "num_curr_vecs vi \<le> length idxs" and held: "length (held_vecs vi idxs) \<le> vecs_out a"
    and req: "num_req_vecs vi \<le> length idxs" "num_req_vecs vi < 65536"
    and run: "idpf_req_rel_vector_indexes a idxs vi = (n, idxs', a')"
  defines "st \<equiv> held_vecs vi idxs @ free_vecs a"
  shows "vecs_inv a'" "default_pool a' = default_pool a" "lifo_base (vector_stack a') = lifo_base (vector_stack a)"
    "lifo_size (vector_stack a') = lifo_size (vector_stack a)" "length idxs' = length idxs"
    "free_vecs a' = drop (num_req_vecs vi - dflt_vecs vi) st"
    "num_req_vecs vi = 0 \<Longrightarrow> n = 0 \<and> idxs' = idxs"
    "num_req_vecs vi \<noteq> 0 \<Longrightarrow> n = dflt_vecs vi + length (given_vecs a vi st) \<and>
       held_vecs (vi\<lparr>num_curr_vecs := n\<rparr>) idxs' = given_vecs a vi st \<and> drop n idxs' = drop n idxs \<and>
       (default_vport vi \<and> vi_index vi + 1 < lifo_base (vector_stack a) \<longrightarrow> idxs' ! 0 = default_pool a ! (vi_index vi + 1))"
proof -
  define a1 where "a1 = idpf_vector_stash a idxs vi"
  note s = vector_stash_spec [OF inv cur held, folded a1_def st_def]
  let ?d = "dflt_vecs vi" and ?v = "vec_idx (vector_stack a1) ! (vi_index vi + 1)"
  define i1 where "i1 = (if default_vport vi then idxs[0 := ?v] else idxs)"
  define k where "k = min (num_avail_msix a1) (num_req_vecs vi - ?d)"
  have k: "k = min (length st) (num_req_vecs vi - ?d)" using s(1,2) by (simp add: k_def vecs_inv_def)
  have goal: "vecs_inv a' \<and> default_pool a' = default_pool a \<and> lifo_base (vector_stack a') = lifo_base (vector_stack a) \<and>
    lifo_size (vector_stack a') = lifo_size (vector_stack a) \<and> length idxs' = length idxs \<and>
    free_vecs a' = drop (num_req_vecs vi - ?d) st \<and>
    (num_req_vecs vi = 0 \<longrightarrow> n = 0 \<and> idxs' = idxs) \<and>
    (num_req_vecs vi \<noteq> 0 \<longrightarrow> n = ?d + length (given_vecs a vi st) \<and>
       held_vecs (vi\<lparr>num_curr_vecs := n\<rparr>) idxs' = given_vecs a vi st \<and> drop n idxs' = drop n idxs \<and>
       (default_vport vi \<and> vi_index vi + 1 < lifo_base (vector_stack a) \<longrightarrow> idxs' ! 0 = default_pool a ! (vi_index vi + 1)))"
  proof (cases "num_req_vecs vi = 0")
    case True
    then have "n = 0" "idxs' = idxs" "a' = a1" using run by (auto simp: idpf_req_rel_vector_indexes_def a1_def Let_def)
    then show ?thesis using s True by simp
  next
    case False
    obtain i2 n2 a2 where pl: "vector_pop_loop k i1 ?d a1 = (i2, n2, a2)" by (metis prod_cases3)
    have "trunc16 (num_req_vecs vi + 65535) = num_req_vecs vi - 1"
      using False req(2) by (cases "num_req_vecs vi") (simp_all add: trunc16_def)
    then have res: "n = n2" "idxs' = i2" "a' = a2\<lparr>num_avail_msix := num_avail_msix a2 - k\<rparr>"
      using run False pl by (auto simp: idpf_req_rel_vector_indexes_def a1_def [symmetric] Let_def IDPF_MIN_Q_VEC_def
          IDPF_MBX_Q_VEC_def i1_def k_def split: if_splits)
    have "vecs_ok a1" "k \<le> length (free_vecs a1)" "?d + k \<le> length i1"
      using s(1,2) k False req(1) by (auto simp: vecs_inv_def i1_def split: if_splits)
    note p = pop_loop_spec [OF this pl]
    have fr: "free_vecs a' = drop k st" using p res(3) s(2) by simp
    then have fr': "free_vecs a' = drop (num_req_vecs vi - ?d) st" using k by (cases "length st \<le> num_req_vecs vi - ?d") simp_all
    have gv: "take k (free_vecs a1) = given_vecs a vi st" using s(2) k by (simp add: given_vecs_def min_def)
    have lg: "length (given_vecs a vi st) = k" using k by (simp add: given_vecs_def)
    have "vecs_inv a'" using p res(3) s(1,2) fr by (simp add: vecs_inv_def)
    moreover have "default_pool a' = default_pool a" using p res(3) s(3-5) by (simp add: default_pool_def)
    moreover have "held_vecs (vi\<lparr>num_curr_vecs := n\<rparr>) idxs' = given_vecs a vi st"
      using p res gv False req(1) by (cases idxs) (auto simp: held_vecs_def i1_def drop_Suc)
    moreover have "drop n idxs' = drop n idxs"
      using p res by (auto simp: i1_def)
    moreover have "idxs' ! 0 = default_pool a ! (vi_index vi + 1)"
      if "default_vport vi" "vi_index vi + 1 < lifo_base (vector_stack a)"
    proof -
      have "take n2 i2 = idxs[0 := ?v] ! 0 # take k (free_vecs a1)"
        using p that(1) False req(1) by (cases idxs) (auto simp: i1_def)
      then have "i2 ! 0 = ?v" using False req(1) by (cases i2; cases idxs; cases n2) auto
      moreover have "default_pool a ! (vi_index vi + 1) = ?v" using s(3,4) that(2) by (metis default_pool_def nth_take)
      ultimately show ?thesis using res by simp
    qed
    ultimately show ?thesis using p res s(4,5) fr' lg False by (simp add: i1_def)
  qed
  then show "vecs_inv a'" "default_pool a' = default_pool a" "lifo_base (vector_stack a') = lifo_base (vector_stack a)"
    "lifo_size (vector_stack a') = lifo_size (vector_stack a)" "length idxs' = length idxs"
    "free_vecs a' = drop (num_req_vecs vi - dflt_vecs vi) st"
    "num_req_vecs vi = 0 \<Longrightarrow> n = 0 \<and> idxs' = idxs"
    "num_req_vecs vi \<noteq> 0 \<Longrightarrow> n = dflt_vecs vi + length (given_vecs a vi st) \<and>
       held_vecs (vi\<lparr>num_curr_vecs := n\<rparr>) idxs' = given_vecs a vi st \<and> drop n idxs' = drop n idxs \<and>
       (default_vport vi \<and> vi_index vi + 1 < lifo_base (vector_stack a) \<longrightarrow> idxs' ! 0 = default_pool a ! (vi_index vi + 1))"
    by blast+
qed

text \<open>
  C18. \<open>idpf_req_rel_vector_indexes\<close> on the stack as a list: the vectors the caller returns go on top in their
  order; then, unless the request is for nothing, a default vport gets its own vector of the default pool first and
  the caller gets from the top as many of the free vectors as it asked for, or all there are.  The count
  returned is the number of vectors stored, the rest of the caller's array is untouched, the default pool
  is unchanged and the counter \<open>num_avail_msix\<close> stays the number of free vectors.
\<close>

theorem idpf_req_rel_vector_indexes_refines:
  assumes "vecs_inv a" and "num_curr_vecs vi \<le> length idxs" and "length (held_vecs vi idxs) \<le> vecs_out a"
    and "num_req_vecs vi \<le> length idxs" and "num_req_vecs vi < 65536"
    and "idpf_req_rel_vector_indexes a idxs vi = (n, idxs', a')"
  shows "let st = held_vecs vi idxs @ free_vecs a in
    vecs_inv a' \<and> default_pool a' = default_pool a \<and> free_vecs a' = drop (num_req_vecs vi - dflt_vecs vi) st \<and>
    (if num_req_vecs vi = 0 then n = 0 \<and> idxs' = idxs
     else n = dflt_vecs vi + length (given_vecs a vi st) \<and> n \<le> num_req_vecs vi \<and>
       held_vecs (vi\<lparr>num_curr_vecs := n\<rparr>) idxs' = given_vecs a vi st \<and> drop n idxs' = drop n idxs \<and>
       (default_vport vi \<and> vi_index vi + 1 < lifo_base (vector_stack a) \<longrightarrow> idxs' ! 0 = default_pool a ! (vi_index vi + 1)))"
  using req_rel_spec [OF assms] by (auto simp: Let_def given_vecs_def)

text \<open>Three free vectors, of which a default vport that returns one gets two.\<close>

definition demo_vecs :: idpf_vecs where
  "demo_vecs = \<lparr>vector_stack = \<lparr>lifo_top = 3, lifo_base = 2, lifo_size = 6, vec_idx = [0, 1, 2, 3, 4, 5]\<rparr>,
     num_avail_msix = 3, num_msix_entries = 6\<rparr>"

lemma demo_vecs_inv: "vecs_inv demo_vecs" "free_vecs demo_vecs = [3, 4, 5]" "default_pool demo_vecs = [0, 1]" "vecs_out demo_vecs = 1"
  by (simp_all add: vecs_inv_def vecs_ok_def free_vecs_def default_pool_def vecs_out_def demo_vecs_def numeral_2_eq_2 numeral_3_eq_3)

theorem idpf_req_rel_vector_indexes_refines_witness:
  "\<exists>n idxs a'. idpf_req_rel_vector_indexes demo_vecs [1, 2, 0, 0]
       \<lparr>num_req_vecs = 3, num_curr_vecs = 2, vi_index = 0, default_vport = True\<rparr> = (n, idxs, a') \<and>
     n = 3 \<and> drop 1 (take n idxs) = [2, 3] \<and> idxs ! 0 = 1 \<and> free_vecs a' = [4, 5]"
proof -
  let ?vi = "\<lparr>num_req_vecs = 3, num_curr_vecs = 2, vi_index = 0, default_vport = True\<rparr>"
  obtain n idxs a' where run: "idpf_req_rel_vector_indexes demo_vecs [1, 2, 0, 0] ?vi = (n, idxs, a')"
    by (metis prod_cases3)
  have h: "held_vecs ?vi [1, 2, 0, 0] = [2]" by (simp add: held_vecs_def numeral_2_eq_2)
  have "lifo_base (vector_stack demo_vecs) = 2" by (simp add: demo_vecs_def)
  then show ?thesis
    using idpf_req_rel_vector_indexes_refines [OF demo_vecs_inv(1) _ _ _ _ run] run h
    by (auto simp: demo_vecs_inv given_vecs_def held_vecs_def Let_def numeral_2_eq_2)
qed

text \<open>
  Re-requesting is a round trip: a vport that returns its vectors and asks for as many in the same call
  (a reconfiguration with an unchanged number of queues) gets the very same vectors in the same order, so its
  interrupts keep their place, and the free pool and the counter are what they were.
\<close>

theorem idpf_req_rel_vector_indexes_same:
  assumes "vecs_inv a" and "num_curr_vecs vi \<le> length idxs" and "length (held_vecs vi idxs) \<le> vecs_out a"
    and "num_req_vecs vi = num_curr_vecs vi" and "0 < num_curr_vecs vi" and "num_curr_vecs vi < 65536"
    and "default_vport vi \<longrightarrow> vi_index vi + 1 < lifo_base (vector_stack a) \<and> idxs ! 0 = default_pool a ! (vi_index vi + 1)"
    and "idpf_req_rel_vector_indexes a idxs vi = (n, idxs', a')"
  shows "n = num_curr_vecs vi \<and> idxs' = idxs \<and> free_vecs a' = free_vecs a \<and> num_avail_msix a' = num_avail_msix a"
proof -
  have r: "num_req_vecs vi \<le> length idxs" "num_req_vecs vi < 65536" "num_req_vecs vi \<noteq> 0" using assms by simp_all
  note s = req_rel_spec [OF assms(1-3) r(1,2) assms(8)]
  let ?d = "dflt_vecs vi" and ?h = "held_vecs vi idxs"
  have lh: "length ?h = num_req_vecs vi - ?d" using assms(2,4) by (simp add: held_vecs_def)
  have gv: "given_vecs a vi (?h @ free_vecs a) = ?h" using lh by (simp add: given_vecs_def)
  have n: "n = num_curr_vecs vi" using s(8) [OF r(3)] gv lh assms(4,5) by simp
  have fr: "free_vecs a' = free_vecs a" using s(6) lh by simp
  have "drop ?d (take n idxs') = drop ?d (take n idxs)" "drop n idxs' = drop n idxs" "length idxs' = length idxs"
    using s(5,8) r(3) gv n by (simp_all add: held_vecs_def)
  moreover have "take ?d (take n idxs') = take ?d (take n idxs)"
  proof (cases "default_vport vi")
    case True
    then have "idxs' ! 0 = idxs ! 0" using s(8) [OF r(3)] assms(7) by simp
    moreover have "take 1 (take n xs) = [xs ! 0]" if "length xs = length idxs" for xs :: "nat list"
    proof -
      have "min 1 n = Suc 0" "0 < length xs" using n assms(2,5) that by auto
      then show ?thesis by (simp add: take_Suc_conv_app_nth)
    qed
    ultimately show ?thesis using True s(5) by simp
  qed simp
  ultimately have "idxs' = idxs" by (metis append_take_drop_id)
  then show ?thesis using n fr s(1) assms(1) by (simp add: vecs_inv_def)
qed

theorem idpf_req_rel_vector_indexes_same_witness:
  "\<exists>n idxs a'. idpf_req_rel_vector_indexes demo_vecs [2, 9]
       \<lparr>num_req_vecs = 1, num_curr_vecs = 1, vi_index = 7, default_vport = False\<rparr> = (n, idxs, a') \<and>
     idxs = [2, 9] \<and> free_vecs a' = [3, 4, 5]"
proof -
  let ?vi = "\<lparr>num_req_vecs = 1, num_curr_vecs = 1, vi_index = 7, default_vport = False\<rparr>"
  obtain n idxs a' where run: "idpf_req_rel_vector_indexes demo_vecs [2, 9] ?vi = (n, idxs, a')"
    by (metis prod_cases3)
  show ?thesis
    using idpf_req_rel_vector_indexes_same [OF demo_vecs_inv(1) _ _ _ _ _ _ run] run
    by (auto simp: demo_vecs_inv held_vecs_def)
qed

section \<open>All owners together\<close>

text \<open>
  The owners (vports and ADIs) are numbered; \<open>ow_idxs i\<close> and \<open>ow_num i\<close> are the vector array of owner \<open>i\<close> and how
  many entries of it are vectors it holds.  A step is one call of \<open>idpf_req_rel_vector_indexes\<close> by any owner with
  any request its array has room for, or an owner without vectors getting a new array.
\<close>

record vec_sys =
  vs_adapter :: idpf_vecs
  ow_idxs :: "nat \<Rightarrow> nat list"
  ow_num :: "nat \<Rightarrow> nat"

definition ow_info :: "(nat \<Rightarrow> bool) \<Rightarrow> nat \<Rightarrow> nat \<Rightarrow> vec_sys \<Rightarrow> idpf_vector_info" where
  "ow_info dflt i req s = \<lparr>num_req_vecs = req, num_curr_vecs = ow_num s i, vi_index = i, default_vport = dflt i\<rparr>"

inductive vec_step :: "(nat \<Rightarrow> bool) \<Rightarrow> vec_sys \<Rightarrow> vec_sys \<Rightarrow> bool" for dflt where
  call: "req \<le> length (ow_idxs s i) \<Longrightarrow> req < 65536 \<Longrightarrow>
    idpf_req_rel_vector_indexes (vs_adapter s) (ow_idxs s i) (ow_info dflt i req s) = (n, idxs, a) \<Longrightarrow>
    vec_step dflt s (s\<lparr>vs_adapter := a, ow_idxs := (ow_idxs s)(i := idxs), ow_num := (ow_num s)(i := n)\<rparr>)"
| new_array: "ow_num s i = 0 \<Longrightarrow> vec_step dflt s (s\<lparr>ow_idxs := (ow_idxs s)(i := idxs)\<rparr>)"

definition ow_held :: "(nat \<Rightarrow> bool) \<Rightarrow> vec_sys \<Rightarrow> nat \<Rightarrow> nat list" where
  "ow_held dflt s i = drop (if dflt i then 1 else 0) (take (ow_num s i) (ow_idxs s i))"

abbreviation vec_base :: "vec_sys \<Rightarrow> nat" where
  "vec_base s \<equiv> lifo_base (vector_stack (vs_adapter s))"

text \<open>Finitely many owners hold something: those in \<open>Q\<close>.\<close>

definition vec_sys_inv :: "(nat \<Rightarrow> bool) \<Rightarrow> nat set \<Rightarrow> vec_sys \<Rightarrow> bool" where
  "vec_sys_inv dflt Q s \<longleftrightarrow> finite Q \<and> (\<forall>i. i \<notin> Q \<longrightarrow> ow_num s i = 0) \<and> vecs_inv (vs_adapter s) \<and>
     (\<forall>i. ow_num s i \<le> length (ow_idxs s i)) \<and> default_pool (vs_adapter s) = [0..<vec_base s] \<and>
     (\<forall>i. dflt i \<longrightarrow> i + 1 < vec_base s) \<and> (\<forall>i. dflt i \<and> ow_num s i \<noteq> 0 \<longrightarrow> ow_idxs s i ! 0 = i + 1) \<and>
     (\<Sum>i\<in>Q. mset (ow_held dflt s i)) + mset (free_vecs (vs_adapter s)) =
       mset [vec_base s..<lifo_size (vector_stack (vs_adapter s))]"

lemma vec_sys_room:
  assumes "vec_sys_inv dflt Q s"
  shows "length (ow_held dflt s i) \<le> vecs_out (vs_adapter s)"
proof (cases "i \<in> Q")
  case False
  then show ?thesis using assms by (simp add: vec_sys_inv_def ow_held_def)
next
  case True
  have fin: "finite Q" using assms by (simp add: vec_sys_inv_def)
  let ?M = "\<Sum>i\<in>Q. mset (ow_held dflt s i)"
  have "size (?M + mset (free_vecs (vs_adapter s))) = size (mset [vec_base s..<lifo_size (vector_stack (vs_adapter s))])"
    using assms unfolding vec_sys_inv_def by metis
  then have "size ?M + length (free_vecs (vs_adapter s)) = lifo_size (vector_stack (vs_adapter s)) - vec_base s" by simp
  moreover have "vecs_ok (vs_adapter s)" using assms by (simp add: vec_sys_inv_def vecs_inv_def)
  ultimately have "size ?M \<le> vecs_out (vs_adapter s)" by (auto simp: vecs_ok_def free_vecs_def vecs_out_def Let_def)
  moreover have "length (ow_held dflt s i) \<le> size ?M"
    using sum.remove [OF fin True, of "\<lambda>i. mset (ow_held dflt s i)"] by simp
  ultimately show ?thesis by simp
qed

lemma sum_fun_upd:
  fixes f :: "nat \<Rightarrow> 'a multiset"
  assumes "finite Q" "i \<in> Q"
  shows "(\<Sum>j\<in>Q. (f(i := x)) j) + f i = (\<Sum>j\<in>Q. f j) + x"
  using sum.remove [OF assms, of f] sum.remove [OF assms, of "f(i := x)"]
  by (simp add: sum.cong [of "Q - {i}" _ "f(i := x)" f] ac_simps)

lemma sum_held_upd:
  assumes "finite Q" "i \<in> Q" "\<And>j. j \<noteq> i \<Longrightarrow> ow_held dflt s' j = ow_held dflt s j"
  shows "(\<Sum>j\<in>Q. mset (ow_held dflt s' j)) + mset (ow_held dflt s i) = (\<Sum>j\<in>Q. mset (ow_held dflt s j)) + mset (ow_held dflt s' i)"
proof -
  have *: "((\<lambda>j. mset (ow_held dflt s j))(i := mset (ow_held dflt s' i))) j = mset (ow_held dflt s' j)" for j
    using assms(3) by simp
  show ?thesis
    using sum_fun_upd [OF assms(1,2), of "\<lambda>j. mset (ow_held dflt s j)" "mset (ow_held dflt s' i)"] by (simp only: *)
qed

lemma vec_sys_widen:
  assumes "vec_sys_inv dflt Q s"
  shows "vec_sys_inv dflt (insert i Q) s"
  using assms by (cases "i \<in> Q") (auto simp: vec_sys_inv_def insert_absorb ow_held_def)

lemma vec_step_inv:
  assumes "vec_step dflt s s'" and "vec_sys_inv dflt Q s"
  shows "\<exists>Q'. vec_sys_inv dflt Q' s'"
  using assms(1)
proof cases
  case (call req i n idxs a)
  let ?vi = "ow_info dflt i req s"
  have inv: "vec_sys_inv dflt (insert i Q) s" using assms(2) by (rule vec_sys_widen)
  note iv = inv [unfolded vec_sys_inv_def]
  have h: "held_vecs ?vi (ow_idxs s i) = ow_held dflt s i" by (simp add: held_vecs_def ow_held_def ow_info_def)
  have pre: "vecs_inv (vs_adapter s)" "num_curr_vecs ?vi \<le> length (ow_idxs s i)"
    "length (held_vecs ?vi (ow_idxs s i)) \<le> vecs_out (vs_adapter s)" "num_req_vecs ?vi \<le> length (ow_idxs s i)" "num_req_vecs ?vi < 65536"
    using iv vec_sys_room [OF inv, of i] call(2,3) by (simp_all add: h) (simp_all add: ow_info_def)
  note sp = req_rel_spec [OF pre call(4), unfolded h]
  let ?st = "ow_held dflt s i @ free_vecs (vs_adapter s)"
  have held: "ow_held dflt s' i @ free_vecs a = ?st"
  proof (cases "req = 0")
    case True
    then show ?thesis using sp(6,7) call(1) by (simp add: ow_held_def ow_info_def)
  next
    case False
    have "num_req_vecs ?vi \<noteq> 0" using False by (simp add: ow_info_def)
    from sp(8) [OF this] have "held_vecs (?vi\<lparr>num_curr_vecs := n\<rparr>) idxs = given_vecs (vs_adapter s) ?vi ?st" by blast
    moreover have "ow_held dflt s' i = held_vecs (?vi\<lparr>num_curr_vecs := n\<rparr>) idxs"
      using call(1) by (simp add: ow_held_def held_vecs_def ow_info_def)
    ultimately have "ow_held dflt s' i = given_vecs (vs_adapter s) ?vi ?st" by simp
    then show ?thesis unfolding sp(6) given_vecs_def by (simp only: append_take_drop_id)
  qed
  have same: "ow_held dflt s' j = ow_held dflt s j" if "j \<noteq> i" for j using that call(1) by (simp add: ow_held_def)
  have n: "n \<le> length idxs"
  proof (cases "req = 0")
    case False
    then have "n \<le> req" using sp(8) by (auto simp: given_vecs_def ow_info_def)
    then show ?thesis using call(2) sp(5) by simp
  qed (use sp(7) in \<open>simp add: ow_info_def\<close>)
  have first: "idxs ! 0 = i + 1" if "dflt i" "n \<noteq> 0"
  proof -
    have "req \<noteq> 0" using sp(7) that(2) by (cases "req = 0") (simp_all add: ow_info_def)
    moreover have "i + 1 < vec_base s" using iv that(1) by blast
    ultimately show ?thesis using sp(8) that(1) iv by (simp add: ow_info_def)
  qed
  have "(\<Sum>j\<in>insert i Q. mset (ow_held dflt s' j)) + mset (free_vecs a) + mset (ow_held dflt s i) =
      (\<Sum>j\<in>insert i Q. mset (ow_held dflt s j)) + mset (ow_held dflt s' i @ free_vecs a)"
    using sum_held_upd [of "insert i Q" i dflt s' s] same iv by (simp add: ac_simps)
  then have "(\<Sum>j\<in>insert i Q. mset (ow_held dflt s' j)) + mset (free_vecs a) =
      (\<Sum>j\<in>insert i Q. mset (ow_held dflt s j)) + mset (free_vecs (vs_adapter s))"
    unfolding held by (simp add: ac_simps)
  moreover have "(\<Sum>j\<in>insert i Q. mset (ow_held dflt s j)) + mset (free_vecs (vs_adapter s)) =
      mset [vec_base s..<lifo_size (vector_stack (vs_adapter s))]" using iv by blast
  ultimately have "vec_sys_inv dflt (insert i Q) s'"
    using iv sp(1-4) n first call(1) unfolding vec_sys_inv_def by simp
  then show ?thesis by blast
next
  case (new_array i idxs)
  have "ow_held dflt s' j = ow_held dflt s j" for j
    using new_array by (simp add: ow_held_def)
  then have "vec_sys_inv dflt Q s'" using assms(2) new_array by (auto simp: vec_sys_inv_def)
  then show ?thesis by blast
qed

lemma vec_steps_inv: "(vec_step dflt)\<^sup>*\<^sup>* s s' \<Longrightarrow> vec_sys_inv dflt Q s \<Longrightarrow> \<exists>Q'. vec_sys_inv dflt Q' s'"
  by (induction rule: rtranclp_induct) (auto dest: vec_step_inv)

text \<open>Freshly initialised: every vector that is not set aside is free.\<close>

definition vec_boot :: "(nat \<Rightarrow> bool) \<Rightarrow> vec_sys \<Rightarrow> bool" where
  "vec_boot dflt s \<longleftrightarrow> (\<exists>a0. num_avail_msix a0 \<le> num_msix_entries a0 \<and> num_msix_entries a0 < 65536 \<and>
     idpf_init_vector_stack True a0 = (ret_ok, vs_adapter s) \<and> (\<forall>i. ow_num s i = 0) \<and>
     (\<forall>i. dflt i \<longrightarrow> i + 1 < num_msix_entries a0 - num_avail_msix a0))"

lemma vec_boot_inv: "vec_boot dflt s \<Longrightarrow> vec_sys_inv dflt {} s"
proof -
  assume "vec_boot dflt s"
  then obtain a0 where a0: "num_avail_msix a0 \<le> num_msix_entries a0" "num_msix_entries a0 < 65536"
    "idpf_init_vector_stack True a0 = (ret_ok, vs_adapter s)" "\<And>i. ow_num s i = 0"
    "\<And>i. dflt i \<Longrightarrow> i + 1 < num_msix_entries a0 - num_avail_msix a0" unfolding vec_boot_def by blast
  have "trunc16 (65536 + num_msix_entries a0 - num_avail_msix a0) = num_msix_entries a0 - num_avail_msix a0"
    using a0(1,2) mod_add_self1 [of 65536 "num_msix_entries a0 - num_avail_msix a0"] by (simp add: trunc16_def)
  then have "vs_adapter s = a0\<lparr>vector_stack := \<lparr>lifo_top = num_msix_entries a0 - num_avail_msix a0,
      lifo_base = num_msix_entries a0 - num_avail_msix a0, lifo_size = num_msix_entries a0, vec_idx = [0..<num_msix_entries a0]\<rparr>\<rparr>"
    using a0(3) by (simp add: idpf_init_vector_stack_def Let_def)
  then show ?thesis
    using a0 by (simp add: vec_sys_inv_def vecs_inv_def vecs_ok_def free_vecs_def default_pool_def take_upt)
qed

text \<open>The vectors owner \<open>i\<close> holds, its vector of the default pool included.\<close>

abbreviation ow_vecs :: "vec_sys \<Rightarrow> nat \<Rightarrow> nat list" where
  "ow_vecs s i \<equiv> take (ow_num s i) (ow_idxs s i)"

lemma ow_vecs_split:
  assumes "vec_sys_inv dflt Q s"
  shows "ow_vecs s i = (if dflt i \<and> ow_num s i \<noteq> 0 then [i + 1] else []) @ ow_held dflt s i"
proof (cases "dflt i \<and> ow_num s i \<noteq> 0")
  case True
  have "ow_num s i \<le> length (ow_idxs s i)" "ow_idxs s i ! 0 = i + 1" using assms True by (simp_all add: vec_sys_inv_def)
  then obtain xs where "ow_idxs s i = (i + 1) # xs" using True by (cases "ow_idxs s i") auto
  then show ?thesis using True by (cases "ow_num s i") (simp_all add: ow_held_def)
next
  case False
  then show ?thesis by (auto simp: ow_held_def)
qed

lemma held_pool:
  assumes "vec_sys_inv dflt Q s"
  shows "distinct (ow_held dflt s i)" "set (ow_held dflt s i) \<subseteq> {vec_base s..<lifo_size (vector_stack (vs_adapter s))}"
    "set (ow_held dflt s i) \<inter> set (free_vecs (vs_adapter s)) = {}"
    "i \<noteq> j \<Longrightarrow> set (ow_held dflt s i) \<inter> set (ow_held dflt s j) = {}"
proof -
  define U where "U = [vec_base s..<lifo_size (vector_stack (vs_adapter s))]"
  let ?g = "\<lambda>k. mset (ow_held dflt s k)"
  have inv: "vec_sys_inv dflt (insert i (insert j Q)) s" using assms by (intro vec_sys_widen)
  then have fin: "finite (insert i (insert j Q))" and U: "(\<Sum>k\<in>insert i (insert j Q). mset (ow_held dflt s k)) + mset (free_vecs (vs_adapter s)) = mset U"
    by (simp_all add: vec_sys_inv_def U_def)
  have si: "mset (ow_held dflt s i) + mset (free_vecs (vs_adapter s)) \<subseteq># mset U"
    unfolding U [symmetric] by (subst sum.remove [OF fin insertI1]) simp
  have dU: "distinct U" by (simp add: U_def)
  have app: "distinct xs" if "mset xs \<subseteq># mset U" for xs :: "nat list"
  proof -
    from that obtain B where "mset U = mset xs + B" by (auto simp: mset_subset_eq_exists_conv)
    moreover obtain ys where "mset ys = B" using ex_mset by blast
    ultimately have "mset U = mset (xs @ ys)" by simp
    then have "distinct (xs @ ys)" using dU mset_eq_imp_distinct_iff by blast
    then show ?thesis by simp
  qed
  have d: "distinct (ow_held dflt s i @ free_vecs (vs_adapter s))" using si by (intro app) simp
  then show "distinct (ow_held dflt s i)" "set (ow_held dflt s i) \<inter> set (free_vecs (vs_adapter s)) = {}" by auto
  have "set_mset (mset (ow_held dflt s i)) \<subseteq> set_mset (mset U)" using set_mset_mono [OF si] by simp
  then show "set (ow_held dflt s i) \<subseteq> {vec_base s..<lifo_size (vector_stack (vs_adapter s))}" by (simp add: U_def)
  show "set (ow_held dflt s i) \<inter> set (ow_held dflt s j) = {}" if "i \<noteq> j"
  proof -
    let ?A = "insert i (insert j Q)"
    have "sum ?g ?A = ?g i + sum ?g (?A - {i})" using fin by (intro sum.remove) auto
    moreover have "sum ?g (?A - {i}) = ?g j + sum ?g (?A - {i} - {j})" using fin that by (intro sum.remove) auto
    ultimately have "mset U = (?g i + ?g j) + (sum ?g (?A - {i} - {j}) + mset (free_vecs (vs_adapter s)))"
      using U [symmetric] by (simp only: add.assoc)
    then have "mset (ow_held dflt s i @ ow_held dflt s j) \<subseteq># mset U"
      unfolding mset_subset_eq_exists_conv mset_append by blast
    then have "distinct (ow_held dflt s i @ ow_held dflt s j)" by (rule app)
    then show ?thesis by auto
  qed
qed

text \<open>
  C20. In every sequence of requests and releases by any vports and ADIs after the initialisation of the
  stack, no interrupt vector has two owners: the vectors of two owners are disjoint, an owner holds no vector
  twice, what is held is not free, and the mailbox vector 0 is never handed out.
\<close>

theorem vector_indexes_exclusive:
  assumes "vec_boot dflt s0" and "(vec_step dflt)\<^sup>*\<^sup>* s0 s" and "i \<noteq> j"
  shows "distinct (ow_vecs s i) \<and> set (ow_vecs s i) \<inter> set (ow_vecs s j) = {} \<and>
    set (ow_vecs s i) \<inter> set (free_vecs (vs_adapter s)) = {} \<and> (0 < vec_base s \<longrightarrow> 0 \<notin> set (ow_vecs s i))"
proof -
  obtain Q where inv: "vec_sys_inv dflt Q s" using vec_steps_inv [OF assms(2) vec_boot_inv [OF assms(1)]] by blast
  have lt: "i + 1 < vec_base s" if "dflt i" for i using inv that by (simp add: vec_sys_inv_def)
  have "set (free_vecs (vs_adapter s)) \<subseteq> {vec_base s..<lifo_size (vector_stack (vs_adapter s))}"
  proof -
    have "set_mset (mset (free_vecs (vs_adapter s))) \<subseteq> set_mset (mset [vec_base s..<lifo_size (vector_stack (vs_adapter s))])"
      using inv unfolding vec_sys_inv_def by (metis Un_iff set_mset_union subsetI)
    then show ?thesis by simp
  qed
  then show ?thesis
    using held_pool(1-3) [OF inv, of i] held_pool(4) [OF inv, of i j] held_pool(2) [OF inv, of j] lt [of i] lt [of j] assms(3)
    unfolding ow_vecs_split [OF inv] by (auto simp: subset_iff)
qed

text \<open>Two vports of a device with six vectors.\<close>

definition demo_boot :: vec_sys where
  "demo_boot = \<lparr>vs_adapter = snd (idpf_init_vector_stack True (demo_vecs\<lparr>num_avail_msix := 4\<rparr>)),
     ow_idxs = (\<lambda>_. [0, 0, 0]), ow_num = (\<lambda>_. 0)\<rparr>"

theorem vector_indexes_exclusive_witness:
  "\<exists>s. (vec_step (\<lambda>i. i = 0))\<^sup>*\<^sup>* demo_boot s \<and> ow_num s 0 = 3 \<and> set (ow_vecs s 0) \<inter> set (ow_vecs s 1) = {}"
proof -
  let ?d = "\<lambda>i. i = (0::nat)"
  obtain n idxs a where run: "idpf_req_rel_vector_indexes (vs_adapter demo_boot) (ow_idxs demo_boot 0) (ow_info ?d 0 3 demo_boot) = (n, idxs, a)"
    by (metis prod_cases3)
  let ?s = "demo_boot\<lparr>vs_adapter := a, ow_idxs := (ow_idxs demo_boot)(0 := idxs), ow_num := (ow_num demo_boot)(0 := n)\<rparr>"
  have step: "vec_step ?d demo_boot ?s" by (rule vec_step.call [OF _ _ run]) (simp_all add: demo_boot_def)
  have boot: "vec_boot ?d demo_boot"
    unfolding vec_boot_def
    by (rule exI [of _ "demo_vecs\<lparr>num_avail_msix := 4\<rparr>"])
      (simp add: demo_boot_def demo_vecs_def idpf_init_vector_stack_def Let_def)
  have "fst (idpf_req_rel_vector_indexes (vs_adapter demo_boot) (ow_idxs demo_boot 0) (ow_info ?d 0 3 demo_boot)) = 3"
    by (simp add: idpf_req_rel_vector_indexes_def idpf_vector_stash_def idpf_vector_lifo_pop_def demo_boot_def demo_vecs_def ow_info_def
        idpf_init_vector_stack_def Let_def trunc16_def numeral_2_eq_2 IDPF_MIN_Q_VEC_def IDPF_MBX_Q_VEC_def upt_rec split: prod.splits)
  then have "n = 3" using run by simp
  moreover have "set (ow_vecs ?s 0) \<inter> set (ow_vecs ?s 1) = {}"
    using vector_indexes_exclusive [OF boot r_into_rtranclp [where r = "vec_step ?d", OF step] zero_neq_one] by blast
  ultimately show ?thesis using step by (intro exI [of _ ?s]) auto
qed

end
