(* ===== verification/Idpf_Queues.thy ===== *)
theory Idpf_Queues
  imports Idpf_Prelude
begin

text \<open>
  How many queues a vport has and which ids and registers they get: the queue counting functions of
  \<open>idpf_txrx.c\<close>, the budget of queues, and the conversion of the chunks of queue ids, vector ids
  and register offsets that the device sends (\<open>idpf_virtchnl.c\<close>).

  Counts and 16 bit fields are natural numbers (truncated where the code could wrap); ids and
  register offsets, which the code increments by a spacing, are words.  Compiled with
  \<open>HAVE_XDP_SUPPORT\<close>; \<open>xdp\<close> says whether a program is loaded.
\<close>

section \<open>State\<close>

definition IDPF_LARGE_MAX_Q :: nat where "IDPF_LARGE_MAX_Q = 256"
definition IDPF_MAX_TXQ :: nat where "IDPF_MAX_TXQ = IDPF_LARGE_MAX_Q"
definition IDPF_MAX_RXQ :: nat where "IDPF_MAX_RXQ = 64"
definition IDPF_MIN_Q :: nat where "IDPF_MIN_Q = 2"
definition IDPF_DFLT_NUM_Q :: nat where "IDPF_DFLT_NUM_Q = 16"
definition IDPF_MIN_TXQ_COMPLQ_DESC :: nat where "IDPF_MIN_TXQ_COMPLQ_DESC = 256"
definition IDPF_MAX_BUFQS_PER_RXQ_GRP :: nat where "IDPF_MAX_BUFQS_PER_RXQ_GRP = 2"
definition IDPF_SINGLE_BUFQ_PER_RXQ_GRP :: nat where "IDPF_SINGLE_BUFQ_PER_RXQ_GRP = 1"
definition IDPF_COMPLQ_PER_GROUP :: nat where "IDPF_COMPLQ_PER_GROUP = 1"
definition IDPF_DFLT_TX_Q_DESC_COUNT :: nat where "IDPF_DFLT_TX_Q_DESC_COUNT = 512"
definition IDPF_DFLT_TX_COMPLQ_DESC_COUNT :: nat where "IDPF_DFLT_TX_COMPLQ_DESC_COUNT = 512"
definition IDPF_DFLT_RX_Q_DESC_COUNT :: nat where "IDPF_DFLT_RX_Q_DESC_COUNT = 512"

definition IDPF_RX_BUFQ_DESC_COUNT :: "nat \<Rightarrow> nat \<Rightarrow> nat" where
  "IDPF_RX_BUFQ_DESC_COUNT RXD NUM_BUFQ = RXD div NUM_BUFQ"

text \<open>What these functions use of \<open>struct idpf_queue\<close>.\<close>

record idpf_qref =
  q_qid :: u32
  q_qtype :: u32
  q_tail :: u32

record idpf_txq_group =
  txqs :: "idpf_qref list"
  complq :: idpf_qref

text \<open>\<open>rxqs\<close>: the array \<open>singleq.rxqs\<close>, or the queues of \<open>splitq.rxq_sets\<close>.\<close>

record idpf_rxq_group =
  rxqs :: "idpf_qref list"
  bufqs :: "idpf_qref list"

record idpf_q_vec_rsrc =
  txq_grps :: "idpf_txq_group list"
  txq_desc_count :: nat
  complq_desc_count :: nat
  txq_model :: nat
  num_txq :: nat
  num_complq :: nat
  num_txq_grp :: nat
  num_rxq_grp :: nat
  rxq_model :: nat
  rxq_grps :: "idpf_rxq_group list"
  num_rxq :: nat
  num_bufq :: nat
  rxq_desc_count :: nat
  bufq_desc_count :: "nat list"
  num_bufqs_per_qgrp :: nat
  bufq_size :: "nat list"

record idpf_user_config =
  num_req_tx_qs :: nat
  num_req_rx_qs :: nat
  num_req_txq_desc :: nat
  num_req_rxq_desc :: nat
  xdp_prog :: bool

record virtchnl2_create_vport =
  vm_txq_model :: nat
  vm_rxq_model :: nat
  vm_num_tx_q :: nat
  vm_num_tx_complq :: nat
  vm_num_rx_q :: nat
  vm_num_rx_bufq :: nat

record idpf_vport_xdp =
  num_xdp_txq :: nat
  num_xdp_rxq :: nat
  xdp_txq_offset :: nat
  xdp_rxq_offset :: nat

record idpf_vport_max_q =
  max_rxq :: nat
  max_txq :: nat
  max_bufq :: nat
  max_complq :: nat

record idpf_avail_queue_info =
  avail_rxq :: nat
  avail_txq :: nat
  avail_bufq :: nat
  avail_complq :: nat

text \<open>The queue limits of \<open>virtchnl2_get_capabilities\<close>.\<close>

record virtchnl2_q_caps =
  cap_max_rx_q :: nat
  cap_max_tx_q :: nat
  cap_max_rx_bufq :: nat
  cap_max_tx_complq :: nat
  cap_default_num_vports :: nat

definition idpf_is_queue_model_split :: "nat \<Rightarrow> bool" where
  "idpf_is_queue_model_split q_model \<longleftrightarrow> q_model = 1"

section \<open>Counting queues\<close>

definition idpf_vport_init_num_qs ::
  "idpf_user_config \<Rightarrow> virtchnl2_create_vport \<Rightarrow> idpf_q_vec_rsrc \<Rightarrow> idpf_user_config \<times> idpf_vport_xdp \<times> idpf_q_vec_rsrc" where
  "idpf_vport_init_num_qs cfg vm rsrc =
     (let rsrc = rsrc\<lparr>num_txq := vm_num_tx_q vm, num_rxq := vm_num_rx_q vm\<rparr>;
          cfg = (if num_req_tx_qs cfg = 0 \<and> num_req_rx_qs cfg = 0
                 then cfg\<lparr>num_req_tx_qs := vm_num_tx_q vm, num_req_rx_qs := vm_num_rx_q vm\<rparr> else cfg);
          rsrc = (if idpf_is_queue_model_split (txq_model rsrc) then rsrc\<lparr>num_complq := vm_num_tx_complq vm\<rparr> else rsrc);
          rsrc = (if idpf_is_queue_model_split (rxq_model rsrc) then rsrc\<lparr>num_bufq := vm_num_rx_bufq vm\<rparr> else rsrc);
          vx = (if \<not> xdp_prog cfg then \<lparr>num_xdp_txq = 0, num_xdp_rxq = 0, xdp_txq_offset = 0, xdp_rxq_offset = 0\<rparr>
                else \<lparr>num_xdp_txq = vm_num_rx_q vm, num_xdp_rxq = 0,
                      xdp_txq_offset = trunc16 (65536 + vm_num_tx_q vm - vm_num_rx_q vm), xdp_rxq_offset = 0\<rparr>)
      in (cfg, vx,
          if \<not> idpf_is_queue_model_split (rxq_model rsrc)
          then rsrc\<lparr>num_bufqs_per_qgrp := 0, num_bufq := 0, bufq_size := (bufq_size rsrc)[0 := 2048]\<rparr>
          else if xdp_prog cfg
          then rsrc\<lparr>num_bufqs_per_qgrp := IDPF_SINGLE_BUFQ_PER_RXQ_GRP, bufq_size := (bufq_size rsrc)[0 := 4096],
                 num_bufq := trunc16 (num_rxq rsrc * IDPF_SINGLE_BUFQ_PER_RXQ_GRP)\<rparr>
          else rsrc\<lparr>num_bufqs_per_qgrp := IDPF_MAX_BUFQS_PER_RXQ_GRP, bufq_size := (bufq_size rsrc)[0 := 4096, 1 := 2048]\<rparr>))"

text \<open>The loop over the buffer queues: \<open>k\<close> of them, from \<open>i\<close> on.\<close>

fun bufq_desc_loop :: "nat \<Rightarrow> nat \<Rightarrow> nat \<Rightarrow> nat \<Rightarrow> nat list \<Rightarrow> nat list" where
  "bufq_desc_loop 0 i rxd n cnt = cnt"
| "bufq_desc_loop (Suc k) i rxd n cnt =
     bufq_desc_loop k (i + 1) rxd n (if cnt ! i = 0 then cnt[i := IDPF_RX_BUFQ_DESC_COUNT rxd n] else cnt)"

definition idpf_vport_calc_num_q_desc :: "idpf_user_config \<Rightarrow> idpf_q_vec_rsrc \<Rightarrow> idpf_q_vec_rsrc" where
  "idpf_vport_calc_num_q_desc cfg rsrc =
     (let num_bufqs = num_bufqs_per_qgrp rsrc;
          rsrc = rsrc\<lparr>complq_desc_count := 0\<rparr>;
          rsrc = (if num_req_txq_desc cfg \<noteq> 0
            then let rsrc = rsrc\<lparr>txq_desc_count := num_req_txq_desc cfg\<rparr> in
              if idpf_is_queue_model_split (txq_model rsrc)
              then rsrc\<lparr>complq_desc_count := max (num_req_txq_desc cfg) IDPF_MIN_TXQ_COMPLQ_DESC\<rparr> else rsrc
            else let rsrc = rsrc\<lparr>txq_desc_count := IDPF_DFLT_TX_Q_DESC_COUNT\<rparr> in
              if idpf_is_queue_model_split (txq_model rsrc)
              then rsrc\<lparr>complq_desc_count := IDPF_DFLT_TX_COMPLQ_DESC_COUNT\<rparr> else rsrc);
          rsrc = rsrc\<lparr>rxq_desc_count := (if num_req_rxq_desc cfg \<noteq> 0 then num_req_rxq_desc cfg else IDPF_DFLT_RX_Q_DESC_COUNT)\<rparr>
      in rsrc\<lparr>bufq_desc_count := bufq_desc_loop num_bufqs 0 (rxq_desc_count rsrc) num_bufqs (bufq_desc_count rsrc)\<rparr>)"

text \<open>\<open>cfgo\<close> is \<open>None\<close> before the vport is configured; then \<open>max_q\<close> and the number of CPUs decide.\<close>

definition idpf_vport_calc_total_qs ::
  "idpf_user_config option \<Rightarrow> idpf_vport_max_q \<Rightarrow> nat \<Rightarrow> virtchnl2_create_vport \<Rightarrow> virtchnl2_create_vport" where
  "idpf_vport_calc_total_qs cfgo max_q num_cpus vm =
     (let (ntx, nrx, nbpg) = (case cfgo of
            Some cfg \<Rightarrow>
              if xdp_prog cfg
              then (trunc16 (num_req_tx_qs cfg + num_req_rx_qs cfg), num_req_rx_qs cfg, IDPF_SINGLE_BUFQ_PER_RXQ_GRP)
              else (num_req_tx_qs cfg, num_req_rx_qs cfg, IDPF_MAX_BUFQS_PER_RXQ_GRP)
          | None \<Rightarrow> (min (min (max_txq max_q) IDPF_DFLT_NUM_Q) num_cpus,
                      min (min (max_rxq max_q) IDPF_DFLT_NUM_Q) num_cpus, IDPF_MAX_BUFQS_PER_RXQ_GRP))
      in vm\<lparr>vm_num_tx_q := ntx,
            vm_num_tx_complq := (if idpf_is_queue_model_split (vm_txq_model vm) then trunc16 (ntx * IDPF_COMPLQ_PER_GROUP) else 0),
            vm_num_rx_q := nrx,
            vm_num_rx_bufq := (if idpf_is_queue_model_split (vm_rxq_model vm) then trunc16 (nrx * nbpg) else 0)\<rparr>)"

definition idpf_vport_calc_num_q_groups :: "idpf_q_vec_rsrc \<Rightarrow> idpf_q_vec_rsrc" where
  "idpf_vport_calc_num_q_groups rsrc =
     rsrc\<lparr>num_txq_grp := (if idpf_is_queue_model_split (txq_model rsrc) then num_complq rsrc else 1),
          num_rxq_grp := (if idpf_is_queue_model_split (rxq_model rsrc) then num_rxq rsrc else 1)\<rparr>"

text \<open>Queues per group: transmit, receive.\<close>

definition idpf_vport_calc_numq_per_grp :: "idpf_q_vec_rsrc \<Rightarrow> nat \<times> nat" where
  "idpf_vport_calc_numq_per_grp rsrc =
     (if idpf_is_queue_model_split (txq_model rsrc) then 1 else num_txq rsrc,
      if idpf_is_queue_model_split (rxq_model rsrc) then 1 else num_rxq rsrc)"

definition zero_max_q :: idpf_vport_max_q where
  "zero_max_q = \<lparr>max_rxq = 0, max_txq = 0, max_bufq = 0, max_complq = 0\<rparr>"

definition idpf_vport_adjust_qs ::
  "idpf_user_config \<Rightarrow> idpf_q_vec_rsrc \<Rightarrow> idpf_user_config \<times> idpf_vport_xdp \<times> idpf_q_vec_rsrc" where
  "idpf_vport_adjust_qs cfg rsrc =
     (let vm = \<lparr>vm_txq_model = txq_model rsrc, vm_rxq_model = rxq_model rsrc, vm_num_tx_q = 0,
                vm_num_tx_complq = 0, vm_num_rx_q = 0, vm_num_rx_bufq = 0\<rparr>;
          vm = idpf_vport_calc_total_qs (Some cfg) zero_max_q 0 vm
      in case idpf_vport_init_num_qs cfg vm rsrc of
           (cfg, vx, rsrc) \<Rightarrow> (cfg, vx, idpf_vport_calc_num_q_groups rsrc))"

text \<open>
  The part of \<open>idpf_set_ringparam\<close> (ethtool) that changes the ring sizes, after the rounding of the
  counts; the soft reset that follows runs \<open>idpf_vport_calc_num_q_desc\<close> on the new configuration.
\<close>

fun bufq_set_loop :: "nat \<Rightarrow> nat \<Rightarrow> nat \<Rightarrow> nat \<Rightarrow> nat list \<Rightarrow> nat list" where
  "bufq_set_loop 0 i rxd n cnt = cnt"
| "bufq_set_loop (Suc k) i rxd n cnt = bufq_set_loop k (i + 1) rxd n (cnt[i := IDPF_RX_BUFQ_DESC_COUNT rxd n])"

definition align_up :: "nat \<Rightarrow> nat \<Rightarrow> nat" where
  "align_up x a = (x + a - 1) div a * a"

definition idpf_set_ringparam ::
  "nat \<Rightarrow> nat \<Rightarrow> idpf_user_config \<Rightarrow> idpf_q_vec_rsrc \<Rightarrow> ret \<times> idpf_user_config \<times> idpf_q_vec_rsrc" where
  "idpf_set_ringparam tx_pending rx_pending cfg rsrc =
     (if tx_pending < 128 then (Some EINVAL, cfg, rsrc)
      else if rx_pending < 64 then (Some EINVAL, cfg, rsrc)
      else let new_rx = align_up rx_pending (IDPF_MAX_BUFQS_PER_RXQ_GRP * 32); new_tx = align_up tx_pending 32 in
        if new_tx = txq_desc_count rsrc \<and> new_rx = rxq_desc_count rsrc then (ret_ok, cfg, rsrc)
        else let cfg = cfg\<lparr>num_req_txq_desc := new_tx, num_req_rxq_desc := new_rx\<rparr>;
                 n = num_bufqs_per_qgrp rsrc;
                 rsrc = rsrc\<lparr>bufq_desc_count := bufq_set_loop n 0 new_rx n (bufq_desc_count rsrc)\<rparr>
             in (ret_ok, cfg, idpf_vport_calc_num_q_desc cfg rsrc))"

text \<open>What loading or unloading an XDP program does to the counts.\<close>

definition xdp_change_qs :: "bool \<Rightarrow> idpf_user_config \<Rightarrow> idpf_q_vec_rsrc \<Rightarrow> idpf_user_config \<times> idpf_q_vec_rsrc" where
  "xdp_change_qs prog cfg rsrc =
     (case idpf_vport_adjust_qs (cfg\<lparr>xdp_prog := prog\<rparr>) rsrc of
        (cfg, vx, rsrc) \<Rightarrow> (cfg, idpf_vport_calc_num_q_desc cfg rsrc))"

section \<open>The budget of queues\<close>

text \<open>The queues a vport may have: its share of what the device offers, within the limits of the driver.\<close>

definition vport_max_qs :: "virtchnl2_q_caps \<Rightarrow> nat \<Rightarrow> idpf_vport_max_q \<Rightarrow> idpf_vport_max_q" where
  "vport_max_qs caps num_alloc_vports mq =
     (let dv = cap_default_num_vports caps; bufq = cap_max_rx_bufq caps div dv; complq = cap_max_tx_complq caps div dv;
          mq = (if num_alloc_vports < dv
                then mq\<lparr>max_rxq := min (cap_max_rx_q caps div dv) IDPF_MAX_RXQ, max_txq := min (cap_max_tx_q caps div dv) IDPF_MAX_TXQ\<rparr>
                else mq\<lparr>max_rxq := IDPF_MIN_Q, max_txq := IDPF_MIN_Q\<rparr>);
          mq = (if bufq \<noteq> 0
                then let r = min (max_rxq mq) (bufq div IDPF_MAX_BUFQS_PER_RXQ_GRP)
                     in mq\<lparr>max_rxq := r, max_bufq := r * IDPF_MAX_BUFQS_PER_RXQ_GRP\<rparr>
                else mq)
      in if complq \<noteq> 0 then let t = min (max_txq mq) complq in mq\<lparr>max_txq := t, max_complq := t\<rparr> else mq)"

text \<open>\<open>None\<close> when the device reports no default vport: the code then divides by zero.\<close>

definition idpf_vport_alloc_max_qs ::
  "virtchnl2_q_caps \<Rightarrow> nat \<Rightarrow> idpf_avail_queue_info \<Rightarrow> idpf_vport_max_q
   \<Rightarrow> (ret \<times> idpf_avail_queue_info \<times> idpf_vport_max_q) option" where
  "idpf_vport_alloc_max_qs caps num_alloc_vports av mq =
     (if cap_default_num_vports caps = 0 then None
      else let mq = vport_max_qs caps num_alloc_vports mq in
        if avail_rxq av < max_rxq mq \<or> avail_txq av < max_txq mq \<or> avail_bufq av < max_bufq mq \<or> avail_complq av < max_complq mq
        then Some (Some EINVAL, av, mq)
        else Some (ret_ok, \<lparr>avail_rxq = avail_rxq av - max_rxq mq, avail_txq = avail_txq av - max_txq mq,
               avail_bufq = avail_bufq av - max_bufq mq, avail_complq = avail_complq av - max_complq mq\<rparr>, mq))"

definition idpf_vport_dealloc_max_qs :: "idpf_avail_queue_info \<Rightarrow> idpf_vport_max_q \<Rightarrow> idpf_avail_queue_info" where
  "idpf_vport_dealloc_max_qs av mq =
     \<lparr>avail_rxq = trunc16 (avail_rxq av + max_rxq mq), avail_txq = trunc16 (avail_txq av + max_txq mq),
      avail_bufq = trunc16 (avail_bufq av + max_bufq mq), avail_complq = trunc16 (avail_complq av + max_complq mq)\<rparr>"

definition idpf_init_avail_queues :: "virtchnl2_q_caps \<Rightarrow> idpf_avail_queue_info" where
  "idpf_init_avail_queues caps =
     \<lparr>avail_rxq = cap_max_rx_q caps, avail_txq = cap_max_tx_q caps,
      avail_bufq = cap_max_rx_bufq caps, avail_complq = cap_max_tx_complq caps\<rparr>"

section \<open>Chunks of ids and registers\<close>

record idpf_queue_id_reg_chunk =
  qtail_reg_start :: u64
  qtail_reg_spacing :: u32
  chunk_type :: u32
  start_queue_id :: u32
  chunk_num_queues :: u32

text \<open>The chunks on the wire hold the same fields in little endian; the copy keeps them all.\<close>

definition idpf_vport_init_queue_reg_chunks ::
  "bool \<Rightarrow> idpf_queue_id_reg_chunk list \<Rightarrow> ret \<times> idpf_queue_id_reg_chunk list" where
  "idpf_vport_init_queue_reg_chunks got_mem schunks =
     (if \<not> got_mem then (Some ENOMEM, [])
      else (ret_ok, map (\<lambda>c. \<lparr>qtail_reg_start = qtail_reg_start c, qtail_reg_spacing = qtail_reg_spacing c,
                        chunk_type = chunk_type c, start_queue_id = start_queue_id c, chunk_num_queues = chunk_num_queues c\<rparr>) schunks))"

text \<open>
  \<open>fill_run k pos bound step v arr\<close>: at most \<open>k\<close> stores of \<open>v\<close>, \<open>v + step\<close>, ... from position \<open>pos\<close> on, not
  beyond \<open>bound\<close>: the inner loop of the functions below.
\<close>

fun fill_run :: "nat \<Rightarrow> nat \<Rightarrow> nat \<Rightarrow> 'a::len word \<Rightarrow> 'a word \<Rightarrow> 'a word list \<Rightarrow> nat \<times> 'a word list" where
  "fill_run 0 pos bound step v arr = (pos, arr)"
| "fill_run (Suc k) pos bound step v arr =
     (if pos < bound then fill_run k (pos + 1) bound step (v + step) (arr[pos := v]) else (pos, arr))"

text \<open>Vector ids: chunks \<open>(start_vector_id, num_vectors)\<close>, first to last, after the mailbox vector.\<close>

fun get_vec_ids_loop :: "(u16 \<times> u16) list \<Rightarrow> nat \<Rightarrow> nat \<Rightarrow> u16 list \<Rightarrow> nat \<times> u16 list" where
  "get_vec_ids_loop [] filled n vecids = (filled, vecids)"
| "get_vec_ids_loop ((start, num) # cs) filled n vecids =
     (case fill_run (unat num) filled n 1 start vecids of (filled, vecids) \<Rightarrow> get_vec_ids_loop cs filled n vecids)"

definition idpf_get_vec_ids :: "u16 \<Rightarrow> u16 list \<Rightarrow> nat \<Rightarrow> (u16 \<times> u16) list \<Rightarrow> nat \<times> u16 list" where
  "idpf_get_vec_ids mb_v_idx vecids num_vecids chunks =
     get_vec_ids_loop chunks 1 num_vecids (vecids[0 := mb_v_idx])"

text \<open>Queue ids: \<open>k\<close> chunks to go, the last of them first; other types are skipped.\<close>

fun get_queue_ids_loop ::
  "nat \<Rightarrow> idpf_queue_id_reg_chunk list \<Rightarrow> u32 \<Rightarrow> nat \<Rightarrow> nat \<Rightarrow> u32 list \<Rightarrow> nat \<times> u32 list" where
  "get_queue_ids_loop 0 chunks q_type filled n qids = (filled, qids)"
| "get_queue_ids_loop (Suc k) chunks q_type filled n qids =
     (let chunk = chunks ! k in
      if chunk_type chunk \<noteq> q_type then get_queue_ids_loop k chunks q_type filled n qids
      else case fill_run (unat (chunk_num_queues chunk)) filled n 1 (start_queue_id chunk) qids of
        (filled, qids) \<Rightarrow> get_queue_ids_loop k chunks q_type filled n qids)"

definition idpf_vport_get_queue_ids :: "u32 list \<Rightarrow> nat \<Rightarrow> u32 \<Rightarrow> idpf_queue_id_reg_chunk list \<Rightarrow> nat \<times> u32 list" where
  "idpf_vport_get_queue_ids qids num_qids q_type chunks = get_queue_ids_loop (length chunks) chunks q_type 0 num_qids qids"

text \<open>Tail registers: the count of a chunk is cut to 16 bits and its start to 32.\<close>

fun get_q_reg_loop ::
  "nat \<Rightarrow> idpf_queue_id_reg_chunk list \<Rightarrow> u32 \<Rightarrow> nat \<Rightarrow> nat \<Rightarrow> u32 list \<Rightarrow> nat \<times> u32 list" where
  "get_q_reg_loop 0 chunks q_type filled n regs = (filled, regs)"
| "get_q_reg_loop (Suc k) chunks q_type filled n regs =
     (let chunk = chunks ! k in
      if chunk_type chunk \<noteq> q_type then get_q_reg_loop k chunks q_type filled n regs
      else case fill_run (trunc16 (unat (chunk_num_queues chunk))) filled n (qtail_reg_spacing chunk)
                  (ucast (qtail_reg_start chunk)) regs of
        (filled, regs) \<Rightarrow> get_q_reg_loop k chunks q_type filled n regs)"

definition idpf_vport_get_q_reg :: "u32 list \<Rightarrow> nat \<Rightarrow> u32 \<Rightarrow> idpf_queue_id_reg_chunk list \<Rightarrow> nat \<times> u32 list" where
  "idpf_vport_get_q_reg regs num_regs q_type chunks = get_q_reg_loop (length chunks) chunks q_type 0 num_regs regs"

section \<open>Giving ids and registers to the queues\<close>

definition VIRTCHNL2_QUEUE_TYPE_TX :: u32 where "VIRTCHNL2_QUEUE_TYPE_TX = 0"
definition VIRTCHNL2_QUEUE_TYPE_RX :: u32 where "VIRTCHNL2_QUEUE_TYPE_RX = 1"
definition VIRTCHNL2_QUEUE_TYPE_TX_COMPLETION :: u32 where "VIRTCHNL2_QUEUE_TYPE_TX_COMPLETION = 2"
definition VIRTCHNL2_QUEUE_TYPE_RX_BUFFER :: u32 where "VIRTCHNL2_QUEUE_TYPE_RX_BUFFER = 3"

text \<open>One group: the first \<open>m\<close> queues get the values from \<open>k\<close> on while there are any (\<open>n\<close> in all).\<close>

fun assign_qs :: "(u32 \<Rightarrow> idpf_qref \<Rightarrow> idpf_qref) \<Rightarrow> u32 list \<Rightarrow> nat \<Rightarrow> nat \<Rightarrow> nat \<Rightarrow> idpf_qref list \<Rightarrow> idpf_qref list \<times> nat" where
  "assign_qs f vals n m k [] = ([], k)"
| "assign_qs f vals n m k (q # qs) =
     (if 0 < m \<and> k < n then (case assign_qs f vals n (m - 1) (k + 1) qs of (qs, k') \<Rightarrow> (f (vals ! k) q # qs, k'))
      else (q # qs, k))"

text \<open>All groups, the value index running on; \<open>m g\<close> is the number of queues of group \<open>g\<close>.\<close>

fun assign_grps :: "('g \<Rightarrow> idpf_qref list) \<Rightarrow> ('g \<Rightarrow> idpf_qref list \<Rightarrow> 'g) \<Rightarrow> ('g \<Rightarrow> nat) \<Rightarrow>
   (u32 \<Rightarrow> idpf_qref \<Rightarrow> idpf_qref) \<Rightarrow> u32 list \<Rightarrow> nat \<Rightarrow> nat \<Rightarrow> 'g list \<Rightarrow> 'g list" where
  "assign_grps get put m f vals n k [] = []"
| "assign_grps get put m f vals n k (g # gs) =
     (case assign_qs f vals n (m g) k (get g) of (qs, k') \<Rightarrow> put g qs # assign_grps get put m f vals n k' gs)"

abbreviation put_txqs :: "idpf_txq_group \<Rightarrow> idpf_qref list \<Rightarrow> idpf_txq_group" where
  "put_txqs g qs \<equiv> g\<lparr>txqs := qs\<rparr>"

abbreviation put_rxqs :: "idpf_rxq_group \<Rightarrow> idpf_qref list \<Rightarrow> idpf_rxq_group" where
  "put_rxqs g qs \<equiv> g\<lparr>rxqs := qs\<rparr>"

abbreviation put_bufqs :: "idpf_rxq_group \<Rightarrow> idpf_qref list \<Rightarrow> idpf_rxq_group" where
  "put_bufqs g qs \<equiv> g\<lparr>bufqs := qs\<rparr>"

definition vport_queue_ids_init :: "idpf_q_vec_rsrc \<Rightarrow> u32 list \<Rightarrow> nat \<Rightarrow> u32 \<Rightarrow> idpf_q_vec_rsrc" where
  "vport_queue_ids_init rsrc qids num_qids q_type =
     (let f = (\<lambda>v q. q\<lparr>q_qid := v, q_qtype := q_type\<rparr>) in
      if q_type = VIRTCHNL2_QUEUE_TYPE_TX
      then rsrc\<lparr>txq_grps := assign_grps txqs put_txqs (\<lambda>g. length (txqs g)) f qids num_qids 0 (txq_grps rsrc)\<rparr>
      else if q_type = VIRTCHNL2_QUEUE_TYPE_RX
      then rsrc\<lparr>rxq_grps := assign_grps rxqs put_rxqs (\<lambda>g. length (rxqs g)) f qids num_qids 0 (rxq_grps rsrc)\<rparr>
      else if q_type = VIRTCHNL2_QUEUE_TYPE_TX_COMPLETION
      then rsrc\<lparr>txq_grps := map (\<lambda>i. let g = txq_grps rsrc ! i in if i < num_qids then g\<lparr>complq := f (qids ! i) (complq g)\<rparr> else g)
                  [0..<length (txq_grps rsrc)]\<rparr>
      else if q_type = VIRTCHNL2_QUEUE_TYPE_RX_BUFFER
      then rsrc\<lparr>rxq_grps := assign_grps bufqs put_bufqs (\<lambda>g. num_bufqs_per_qgrp rsrc) f qids num_qids 0 (rxq_grps rsrc)\<rparr>
      else rsrc)"

text \<open>One queue type: fetch the ids and give them out, unless there are too few.\<close>

definition queue_ids_step ::
  "idpf_queue_id_reg_chunk list \<Rightarrow> u32 \<Rightarrow> nat \<Rightarrow> idpf_q_vec_rsrc \<times> u32 list \<Rightarrow> ret \<times> idpf_q_vec_rsrc \<times> u32 list" where
  "queue_ids_step chunks q_type need st =
     (case st of (rsrc, qids) \<Rightarrow>
      case idpf_vport_get_queue_ids qids IDPF_LARGE_MAX_Q q_type chunks of (num_ids, qids) \<Rightarrow>
        if num_ids < need then (Some EINVAL, rsrc, qids)
        else (ret_ok, vport_queue_ids_init rsrc qids num_ids q_type, qids))"

definition idpf_vport_queue_ids_init ::
  "bool \<Rightarrow> idpf_q_vec_rsrc \<Rightarrow> idpf_queue_id_reg_chunk list \<Rightarrow> ret \<times> idpf_q_vec_rsrc" where
  "idpf_vport_queue_ids_init got_mem rsrc chunks =
     (if \<not> got_mem then (Some ENOMEM, rsrc)
      else case queue_ids_step chunks VIRTCHNL2_QUEUE_TYPE_TX (num_txq rsrc) (rsrc, replicate IDPF_LARGE_MAX_Q 0) of
        (Some e, rsrc, qids) \<Rightarrow> (Some e, rsrc)
      | (None, rsrc, qids) \<Rightarrow>
      case queue_ids_step chunks VIRTCHNL2_QUEUE_TYPE_RX (num_rxq rsrc) (rsrc, qids) of
        (Some e, rsrc, qids) \<Rightarrow> (Some e, rsrc)
      | (None, rsrc, qids) \<Rightarrow>
      case (if idpf_is_queue_model_split (txq_model rsrc)
            then queue_ids_step chunks VIRTCHNL2_QUEUE_TYPE_TX_COMPLETION (num_complq rsrc) (rsrc, qids)
            else (ret_ok, rsrc, qids)) of
        (Some e, rsrc, qids) \<Rightarrow> (Some e, rsrc)
      | (None, rsrc, qids) \<Rightarrow>
      case (if idpf_is_queue_model_split (rxq_model rsrc)
            then queue_ids_step chunks VIRTCHNL2_QUEUE_TYPE_RX_BUFFER (num_bufq rsrc) (rsrc, qids)
            else (ret_ok, rsrc, qids)) of
        (r, rsrc, qids) \<Rightarrow> (r, rsrc))"

definition queue_reg_init :: "idpf_q_vec_rsrc \<Rightarrow> u32 list \<Rightarrow> nat \<Rightarrow> u32 \<Rightarrow> idpf_q_vec_rsrc" where
  "queue_reg_init rsrc regs num_regs q_type =
     (let f = (\<lambda>v q. q\<lparr>q_tail := v\<rparr>) in
      if q_type = VIRTCHNL2_QUEUE_TYPE_TX
      then rsrc\<lparr>txq_grps := assign_grps txqs put_txqs (\<lambda>g. length (txqs g)) f regs num_regs 0 (txq_grps rsrc)\<rparr>
      else if q_type = VIRTCHNL2_QUEUE_TYPE_RX
      then rsrc\<lparr>rxq_grps := assign_grps rxqs put_rxqs (\<lambda>g. length (rxqs g)) f regs num_regs 0 (rxq_grps rsrc)\<rparr>
      else if q_type = VIRTCHNL2_QUEUE_TYPE_RX_BUFFER
      then rsrc\<lparr>rxq_grps := assign_grps bufqs put_bufqs (\<lambda>g. num_bufqs_per_qgrp rsrc) f regs num_regs 0 (rxq_grps rsrc)\<rparr>
      else rsrc)"

definition queue_reg_step ::
  "idpf_queue_id_reg_chunk list \<Rightarrow> u32 \<Rightarrow> nat \<Rightarrow> idpf_q_vec_rsrc \<times> u32 list \<Rightarrow> ret \<times> idpf_q_vec_rsrc \<times> u32 list" where
  "queue_reg_step chunks q_type need st =
     (case st of (rsrc, regs) \<Rightarrow>
      case idpf_vport_get_q_reg regs IDPF_LARGE_MAX_Q q_type chunks of (num_regs, regs) \<Rightarrow>
        if num_regs < need then (Some EINVAL, rsrc, regs)
        else (ret_ok, queue_reg_init rsrc regs num_regs q_type, regs))"

definition idpf_queue_reg_init ::
  "bool \<Rightarrow> idpf_q_vec_rsrc \<Rightarrow> idpf_queue_id_reg_chunk list \<Rightarrow> ret \<times> idpf_q_vec_rsrc" where
  "idpf_queue_reg_init got_mem rsrc chunks =
     (if \<not> got_mem then (Some ENOMEM, rsrc)
      else case queue_reg_step chunks VIRTCHNL2_QUEUE_TYPE_TX (num_txq rsrc) (rsrc, replicate IDPF_LARGE_MAX_Q 0) of
        (Some e, rsrc, regs) \<Rightarrow> (Some e, rsrc)
      | (None, rsrc, regs) \<Rightarrow>
      case (if idpf_is_queue_model_split (rxq_model rsrc)
            then queue_reg_step chunks VIRTCHNL2_QUEUE_TYPE_RX_BUFFER (num_bufq rsrc) (rsrc, regs)
            else queue_reg_step chunks VIRTCHNL2_QUEUE_TYPE_RX (num_rxq rsrc) (rsrc, regs)) of
        (r, rsrc, regs) \<Rightarrow> (r, rsrc))"

end
