(* ===== verification/Idpf_Queues_Results.thy ===== *)
theory Idpf_Queues_Results
  imports Idpf_Queues
begin

text \<open>
  Correctness of the queue bookkeeping: the ids and registers that are filled in are those the device
  sent, every queue gets its own, the counts of queues, groups and buffers agree, and the budget of
  queues is conserved.
\<close>

section \<open>Filling an array from chunks\<close>

text \<open>The reference: the runs one after the other.\<close>

definition run_vals :: "nat \<times> 'a::len word \<times> 'a word \<Rightarrow> 'a word list" where
  "run_vals r = (case r of (k, step, v) \<Rightarrow> map (\<lambda>i. v + of_nat i * step) [0..<k])"

fun fill_runs :: "(nat \<times> 'a::len word \<times> 'a word) list \<Rightarrow> nat \<Rightarrow> nat \<Rightarrow> 'a word list \<Rightarrow> nat \<times> 'a word list" where
  "fill_runs [] pos n arr = (pos, arr)"
| "fill_runs ((k, step, v) # rs) pos n arr = (case fill_run k pos n step v arr of (pos, arr) \<Rightarrow> fill_runs rs pos n arr)"

lemma run_vals_0 [simp]: "run_vals (0, s, v) = []"
  by (simp add: run_vals_def)

lemma run_vals_Suc [simp]: "run_vals (Suc k, s, v) = v # run_vals (k, s, v + s)"
proof -
  have "[0..<Suc k] = 0 # map Suc [0..<k]" by (simp add: map_Suc_upt upt_conv_Cons)
  then show ?thesis by (simp add: run_vals_def algebra_simps)
qed

lemma length_run_vals [simp]: "length (run_vals (k, s, v)) = k"
  by (simp add: run_vals_def)

lemma fill_run_spec:
  "pos \<le> n \<Longrightarrow> n \<le> length arr \<Longrightarrow> fill_run k pos n s v arr =
     (pos + min k (n - pos), take pos arr @ take (n - pos) (run_vals (k, s, v)) @ drop (pos + min k (n - pos)) arr)"
proof (induction k arbitrary: pos v arr)
  case (Suc k)
  show ?case
  proof (cases "pos < n")
    case True
    then have "n - pos = Suc (n - Suc pos)" by simp
    then show ?thesis using Suc.IH [of "Suc pos" "arr[pos := v]" "v + s"] True Suc.prems
      by (simp add: take_Suc_conv_app_nth min_Suc1 split: nat.splits)
  next
    case False
    then show ?thesis using Suc.prems by simp
  qed
qed simp

lemma fill_runs_spec:
  "pos \<le> n \<Longrightarrow> n \<le> length arr \<Longrightarrow> fill_runs rs pos n arr =
     (let L = concat (map run_vals rs) in
      (pos + min (length L) (n - pos), take pos arr @ take (n - pos) L @ drop (pos + min (length L) (n - pos)) arr))"
proof (induction rs arbitrary: pos arr)
  case (Cons r rs)
  obtain k s v where r: "r = (k, s, v)" by (cases r)
  let ?m = "min k (n - pos)" and ?arr = "take pos arr @ take (n - pos) (run_vals (k, s, v)) @ drop (pos + min k (n - pos)) arr"
  have len: "length ?arr = length arr" "pos + ?m \<le> n" using Cons.prems by auto
  have IH: "fill_runs rs (pos + ?m) n ?arr = (let L = concat (map run_vals rs) in
      (pos + ?m + min (length L) (n - (pos + ?m)), take (pos + ?m) ?arr @ take (n - (pos + ?m)) L @
         drop (pos + ?m + min (length L) (n - (pos + ?m))) ?arr))"
    using Cons.prems len by (intro Cons.IH) simp_all
  have t: "take (pos + ?m) ?arr = take pos arr @ take (n - pos) (run_vals (k, s, v))" using Cons.prems by (simp add: min_def)
  have d: "drop (pos + ?m + j) ?arr = drop (pos + ?m + j) arr" for j
    using Cons.prems by (simp add: min_def ac_simps)
  define L where "L = concat (map run_vals rs)"
  have e: "pos + ?m + min (length L) (n - pos - k) = pos + min (k + length L) (n - pos)" "n - (pos + ?m) = n - pos - k"
    using Cons.prems by (auto simp: min_def)
  have "fill_runs (r # rs) pos n arr = (pos + min (k + length L) (n - pos),
      take pos arr @ take (n - pos) (run_vals (k, s, v)) @ take (n - pos - k) L @ drop (pos + min (k + length L) (n - pos)) arr)"
    using fill_run_spec [OF Cons.prems, of k s v] IH t d [of "min (length L) (n - (pos + ?m))"]
    unfolding r L_def [symmetric] Let_def by (simp only: fill_runs.simps prod.case e append_assoc)
  moreover have "concat (map run_vals (r # rs)) = run_vals (k, s, v) @ L" by (simp add: L_def r)
  ultimately show ?case by (simp add: Let_def)
qed simp

lemma get_vec_ids_runs:
  "get_vec_ids_loop cs pos n arr = fill_runs (map (\<lambda>(start, num). (unat num, 1, start)) cs) pos n arr"
  by (induction cs pos n arr rule: get_vec_ids_loop.induct) (auto split: prod.splits)

definition id_run :: "idpf_queue_id_reg_chunk \<Rightarrow> nat \<times> u32 \<times> u32" where
  "id_run c = (unat (chunk_num_queues c), 1, start_queue_id c)"

definition reg_run :: "idpf_queue_id_reg_chunk \<Rightarrow> nat \<times> u32 \<times> u32" where
  "reg_run c = (trunc16 (unat (chunk_num_queues c)), qtail_reg_spacing c, ucast (qtail_reg_start c))"

text \<open>The ids and the registers of a type, chunk by chunk from the last to the first.\<close>

definition queue_ids :: "u32 \<Rightarrow> idpf_queue_id_reg_chunk list \<Rightarrow> u32 list" where
  "queue_ids t chunks = concat (map (run_vals \<circ> id_run) (filter (\<lambda>c. chunk_type c = t) (rev chunks)))"

definition queue_regs :: "u32 \<Rightarrow> idpf_queue_id_reg_chunk list \<Rightarrow> u32 list" where
  "queue_regs t chunks = concat (map (run_vals \<circ> reg_run) (filter (\<lambda>c. chunk_type c = t) (rev chunks)))"

definition vec_ids :: "u16 \<Rightarrow> (u16 \<times> u16) list \<Rightarrow> u16 list" where
  "vec_ids mb chunks = mb # concat (map (\<lambda>(start, num). run_vals (unat num, 1, start)) chunks)"

lemma get_queue_ids_runs:
  "k \<le> length chunks \<Longrightarrow> get_queue_ids_loop k chunks t pos n arr =
     fill_runs (map id_run (filter (\<lambda>c. chunk_type c = t) (rev (take k chunks)))) pos n arr"
  by (induction k arbitrary: pos arr) (simp_all add: take_Suc_conv_app_nth id_run_def Let_def split: prod.splits)

lemma get_q_reg_runs:
  "k \<le> length chunks \<Longrightarrow> get_q_reg_loop k chunks t pos n arr =
     fill_runs (map reg_run (filter (\<lambda>c. chunk_type c = t) (rev (take k chunks)))) pos n arr"
  by (induction k arbitrary: pos arr) (simp_all add: take_Suc_conv_app_nth reg_run_def Let_def split: prod.splits)

lemma get_queue_ids_spec:
  "n \<le> length arr \<Longrightarrow> idpf_vport_get_queue_ids arr n t chunks =
     (min n (length (queue_ids t chunks)), take n (queue_ids t chunks) @ drop (min n (length (queue_ids t chunks))) arr)"
  using get_queue_ids_runs [of "length chunks" chunks t 0 n arr]
  by (simp add: idpf_vport_get_queue_ids_def fill_runs_spec queue_ids_def Let_def min.commute)

lemma get_q_reg_spec:
  "n \<le> length arr \<Longrightarrow> idpf_vport_get_q_reg arr n t chunks =
     (min n (length (queue_regs t chunks)), take n (queue_regs t chunks) @ drop (min n (length (queue_regs t chunks))) arr)"
  using get_q_reg_runs [of "length chunks" chunks t 0 n arr]
  by (simp add: idpf_vport_get_q_reg_def fill_runs_spec queue_regs_def Let_def min.commute)

text \<open>
  C21. The three functions that unpack chunks agree with their reference: into an array with room for \<open>n\<close>
  entries they store exactly the first \<open>n\<close> of the ids (or register offsets) the chunks describe in
  sequence, with the 16 or 32 bit wrap-around of the machine, return how many that is and leave the
  rest of the array alone; nothing is stored beyond \<open>n\<close>, whatever counts the device sent.
\<close>

theorem idpf_chunk_ids_equiv:
  assumes "1 \<le> n" and "n \<le> length (vecids :: u16 list)" and "n \<le> length (arr :: u32 list)"
  shows "idpf_get_vec_ids mb vecids n vchunks =
      (min n (length (vec_ids mb vchunks)), take n (vec_ids mb vchunks) @ drop (min n (length (vec_ids mb vchunks))) vecids) \<and>
    idpf_vport_get_queue_ids arr n t chunks =
      (min n (length (queue_ids t chunks)), take n (queue_ids t chunks) @ drop (min n (length (queue_ids t chunks))) arr) \<and>
    idpf_vport_get_q_reg arr n t chunks =
      (min n (length (queue_regs t chunks)), take n (queue_regs t chunks) @ drop (min n (length (queue_regs t chunks))) arr)"
proof -
  let ?L = "concat (map (\<lambda>(start, num). run_vals (unat num, 1, start)) vchunks)"
  have L: "concat (map run_vals (map (\<lambda>(start, num). (unat num, 1, start)) vchunks)) = ?L"
    by (simp add: comp_def split_def)
  obtain v vs where v: "vecids = v # vs" using assms by (cases vecids) auto
  obtain m where m: "n = Suc m" using assms(1) by (cases n) auto
  have "idpf_get_vec_ids mb vecids n vchunks =
      (min n (length (vec_ids mb vchunks)), take n (vec_ids mb vchunks) @ drop (min n (length (vec_ids mb vchunks))) vecids)"
    using assms(1,2) fill_runs_spec [of 1 n "vecids[0 := mb]" "map (\<lambda>(start, num). (unat num, 1, start)) vchunks"]
    unfolding L by (simp add: idpf_get_vec_ids_def get_vec_ids_runs vec_ids_def Let_def v m min_def)
  then show ?thesis using get_queue_ids_spec get_q_reg_spec assms(3) by blast
qed

text \<open>Two chunks of one type around one of another type, and an array of four entries.\<close>

definition demo_chunks :: "idpf_queue_id_reg_chunk list" where
  "demo_chunks = [\<lparr>qtail_reg_start = 0x1000, qtail_reg_spacing = 4, chunk_type = 0, start_queue_id = 10, chunk_num_queues = 2\<rparr>,
     \<lparr>qtail_reg_start = 0x3000, qtail_reg_spacing = 4, chunk_type = 1, start_queue_id = 30, chunk_num_queues = 2\<rparr>,
     \<lparr>qtail_reg_start = 0x2000, qtail_reg_spacing = 8, chunk_type = 0, start_queue_id = 20, chunk_num_queues = 3\<rparr>]"

theorem idpf_chunk_ids_equiv_witness:
  "idpf_get_vec_ids 5 [0, 0, 0, 0] 4 [(7, 1), (65535, 2)] = (4, [5, 7, 65535, 0]) \<and>
   idpf_vport_get_queue_ids [0, 0, 0, 0] 4 0 demo_chunks = (4, [20, 21, 22, 10]) \<and>
   idpf_vport_get_q_reg [0, 0, 0, 0] 4 0 demo_chunks = (4, [0x2000, 0x2008, 0x2010, 0x1000])"
proof -
  have "run_vals (2, s, v) = [v, v + s]" "run_vals (3, s, v) = [v, v + s, v + s + s]" "run_vals (1, s, v) = [v]" for s v :: u32
    by (simp_all add: numeral_eq_Suc)
  then have ids: "queue_ids 0 demo_chunks = [20, 21, 22, 10, 11]" "queue_regs 0 demo_chunks = [0x2000, 0x2008, 0x2010, 0x1000, 0x1004]"
    by (simp_all add: queue_ids_def queue_regs_def demo_chunks_def id_run_def reg_run_def trunc16_def)
  have "run_vals (2, 1, v) = [v, v + 1]" "run_vals (Suc 0, 1, v) = [v]" for v :: u16
    by (simp_all add: numeral_eq_Suc)
  then have vids: "vec_ids 5 [(7, 1), (65535, 2)] = [5, 7, 65535, 0]"
    by (simp add: vec_ids_def)
  show ?thesis
    using idpf_chunk_ids_equiv [of 4 "[0, 0, 0, 0]" "[0, 0, 0, 0]" 5 "[(7, 1), (65535, 2)]" 0 demo_chunks]
    unfolding ids vids by simp
qed

section \<open>Giving ids to the queues\<close>

lemma assign_qs_spec:
  "length qs \<le> m \<Longrightarrow> k + length qs \<le> n \<Longrightarrow> n \<le> length vals \<Longrightarrow>
   assign_qs f vals n m k qs = (map2 f (take (length qs) (drop k vals)) qs, k + length qs)"
proof (induction qs arbitrary: m k)
  case (Cons q qs)
  have "drop k vals = vals ! k # drop (Suc k) vals" using Cons.prems by (simp add: Cons_nth_drop_Suc)
  then show ?case using Cons by (simp split: prod.splits)
qed simp

lemma assign_grps_spec:
  assumes "\<And>g. g \<in> set gs \<Longrightarrow> length (get g) \<le> m g" and "\<And>g qs. get (put g qs) = qs"
    and "k + length (concat (map get gs)) \<le> n" and "n \<le> length vals"
  shows "concat (map get (assign_grps get put m f vals n k gs)) =
    map2 f (take (length (concat (map get gs))) (drop k vals)) (concat (map get gs))"
  using assms
proof (induction gs arbitrary: k)
  case (Cons g gs)
  let ?l = "length (get g)" and ?r = "length (concat (map get gs))"
  have a: "assign_qs f vals n (m g) k (get g) = (map2 f (take ?l (drop k vals)) (get g), k + ?l)"
    using Cons.prems by (intro assign_qs_spec) auto
  have IH: "concat (map get (assign_grps get put m f vals n (k + ?l) gs)) =
      map2 f (take ?r (drop (k + ?l) vals)) (concat (map get gs))"
    using Cons.prems by (intro Cons.IH) auto
  have "take (?l + ?r) (drop k vals) = take ?l (drop k vals) @ take ?r (drop (k + ?l) vals)"
    by (simp add: take_add ac_simps)
  moreover have "length (take ?l (drop k vals)) = ?l" using Cons.prems by simp
  ultimately show ?case using a IH Cons.prems(2) by (simp add: zip_append)
qed simp

lemma assign_grps_other:
  "(\<And>g qs. h (put g qs) = h g) \<Longrightarrow> map h (assign_grps get put m f vals n k gs) = map h gs"
  by (induction gs arbitrary: k) (simp_all split: prod.splits)

lemma map_map2_fst: "length xs = length ys \<Longrightarrow> (\<And>v q. h (f v q) = v) \<Longrightarrow> map h (map2 f xs ys) = xs"
  by (induction xs ys rule: list_induct2) simp_all

text \<open>All queues of a kind, group after group.\<close>

definition all_txqs :: "idpf_q_vec_rsrc \<Rightarrow> idpf_qref list" where
  "all_txqs r = concat (map txqs (txq_grps r))"

definition all_rxqs :: "idpf_q_vec_rsrc \<Rightarrow> idpf_qref list" where
  "all_rxqs r = concat (map rxqs (rxq_grps r))"

definition all_bufqs :: "idpf_q_vec_rsrc \<Rightarrow> idpf_qref list" where
  "all_bufqs r = concat (map bufqs (rxq_grps r))"

definition all_complqs :: "idpf_q_vec_rsrc \<Rightarrow> idpf_qref list" where
  "all_complqs r = map complq (txq_grps r)"

text \<open>The groups hold as many queues as the counts say.\<close>

definition rsrc_shape :: "idpf_q_vec_rsrc \<Rightarrow> bool" where
  "rsrc_shape r \<longleftrightarrow> length (all_txqs r) = num_txq r \<and> length (all_rxqs r) = num_rxq r \<and>
     (idpf_is_queue_model_split (txq_model r) \<longrightarrow> length (txq_grps r) = num_complq r) \<and>
     (idpf_is_queue_model_split (rxq_model r) \<longrightarrow> length (all_bufqs r) = num_bufq r \<and>
        (\<forall>g \<in> set (rxq_grps r). length (bufqs g) = num_bufqs_per_qgrp r))"

abbreviation rsrc_counts :: "idpf_q_vec_rsrc \<Rightarrow> nat list" where
  "rsrc_counts r \<equiv> [num_txq r, num_rxq r, num_complq r, num_bufq r, txq_model r, rxq_model r, num_bufqs_per_qgrp r]"

lemma ids_init_other:
  "rsrc_counts (vport_queue_ids_init r ids n t) = rsrc_counts r"
  "t \<noteq> VIRTCHNL2_QUEUE_TYPE_TX \<Longrightarrow> map txqs (txq_grps (vport_queue_ids_init r ids n t)) = map txqs (txq_grps r)"
  "t \<noteq> VIRTCHNL2_QUEUE_TYPE_RX \<Longrightarrow> map rxqs (rxq_grps (vport_queue_ids_init r ids n t)) = map rxqs (rxq_grps r)"
  "t \<noteq> VIRTCHNL2_QUEUE_TYPE_RX_BUFFER \<Longrightarrow> map bufqs (rxq_grps (vport_queue_ids_init r ids n t)) = map bufqs (rxq_grps r)"
  "t \<noteq> VIRTCHNL2_QUEUE_TYPE_TX_COMPLETION \<Longrightarrow> all_complqs (vport_queue_ids_init r ids n t) = all_complqs r"
  by (auto simp: vport_queue_ids_init_def Let_def assign_grps_other all_complqs_def map_nth intro: nth_equalityI)

lemma ids_init_this:
  assumes "n \<le> length ids"
  shows "t = VIRTCHNL2_QUEUE_TYPE_TX \<Longrightarrow> length (all_txqs r) \<le> n \<Longrightarrow>
      map q_qid (all_txqs (vport_queue_ids_init r ids n t)) = take (length (all_txqs r)) ids"
    "t = VIRTCHNL2_QUEUE_TYPE_RX \<Longrightarrow> length (all_rxqs r) \<le> n \<Longrightarrow>
      map q_qid (all_rxqs (vport_queue_ids_init r ids n t)) = take (length (all_rxqs r)) ids"
    "t = VIRTCHNL2_QUEUE_TYPE_RX_BUFFER \<Longrightarrow> length (all_bufqs r) \<le> n \<Longrightarrow>
      (\<And>g. g \<in> set (rxq_grps r) \<Longrightarrow> length (bufqs g) = num_bufqs_per_qgrp r) \<Longrightarrow>
      map q_qid (all_bufqs (vport_queue_ids_init r ids n t)) = take (length (all_bufqs r)) ids"
    "t = VIRTCHNL2_QUEUE_TYPE_TX_COMPLETION \<Longrightarrow> length (txq_grps r) \<le> n \<Longrightarrow>
      map q_qid (all_complqs (vport_queue_ids_init r ids n t)) = take (length (txq_grps r)) ids"
  using assms
  by (simp_all add: vport_queue_ids_init_def Let_def all_txqs_def all_rxqs_def all_bufqs_def all_complqs_def
      assign_grps_spec map_map2_fst VIRTCHNL2_QUEUE_TYPE_TX_def VIRTCHNL2_QUEUE_TYPE_RX_def
      VIRTCHNL2_QUEUE_TYPE_TX_COMPLETION_def VIRTCHNL2_QUEUE_TYPE_RX_BUFFER_def del: map_map)
    (auto intro!: nth_equalityI)

text \<open>One step of \<open>idpf_vport_queue_ids_init\<close>.\<close>

lemma queue_ids_step_spec:
  assumes "length qids = IDPF_LARGE_MAX_Q" and "queue_ids_step chunks t need (r, qids) = (e, r', qids')"
  shows "length qids' = IDPF_LARGE_MAX_Q"
    "e = (if need \<le> min IDPF_LARGE_MAX_Q (length (queue_ids t chunks)) then ret_ok else Some EINVAL)"
    "e = ret_ok \<Longrightarrow> \<exists>n. need \<le> n \<and> n \<le> length qids' \<and> take n qids' = take n (queue_ids t chunks) \<and> r' = vport_queue_ids_init r qids' n t"
    "e \<noteq> ret_ok \<Longrightarrow> r' = r"
proof -
  let ?L = "queue_ids t chunks" and ?n = "min IDPF_LARGE_MAX_Q (length (queue_ids t chunks))"
  define qs where "qs = take IDPF_LARGE_MAX_Q ?L @ drop ?n qids"
  have g: "idpf_vport_get_queue_ids qids IDPF_LARGE_MAX_Q t chunks = (?n, qs)"
    using assms(1) by (simp add: get_queue_ids_spec qs_def)
  have q: "length qs = IDPF_LARGE_MAX_Q" "take ?n qs = take ?n ?L" using assms(1) by (auto simp: qs_def min_def)
  have e: "(e, r', qids') = (if ?n < need then (Some EINVAL, r, qs) else (ret_ok, vport_queue_ids_init r qs ?n t, qs))"
    using assms(2) g by (simp add: queue_ids_step_def)
  then show "length qids' = IDPF_LARGE_MAX_Q"
    "e = (if need \<le> ?n then ret_ok else Some EINVAL)" "e \<noteq> ret_ok \<Longrightarrow> r' = r"
    using q(1) by (auto split: if_splits)
  show "\<exists>n. need \<le> n \<and> n \<le> length qids' \<and> take n qids' = take n ?L \<and> r' = vport_queue_ids_init r qids' n t" if "e = ret_ok"
    using e that q by (intro exI [of _ ?n]) (auto split: if_splits)
qed

lemma take_le: "take n xs = take n ys \<Longrightarrow> m \<le> n \<Longrightarrow> take m xs = take m ys"
  by (metis min.absorb1 take_take)

lemma step_counts:
  assumes "length qids = IDPF_LARGE_MAX_Q" and "queue_ids_step chunks t need (r, qids) = (e, r', qids')"
  shows "rsrc_counts r' = rsrc_counts r" "t \<noteq> VIRTCHNL2_QUEUE_TYPE_TX \<Longrightarrow> map txqs (txq_grps r') = map txqs (txq_grps r)"
    "t \<noteq> VIRTCHNL2_QUEUE_TYPE_RX \<Longrightarrow> map rxqs (rxq_grps r') = map rxqs (rxq_grps r)"
    "t \<noteq> VIRTCHNL2_QUEUE_TYPE_RX_BUFFER \<Longrightarrow> map bufqs (rxq_grps r') = map bufqs (rxq_grps r)"
    "t \<noteq> VIRTCHNL2_QUEUE_TYPE_TX_COMPLETION \<Longrightarrow> all_complqs r' = all_complqs r"
proof -
  consider "r' = r" | n where "r' = vport_queue_ids_init r qids' n t"
    using queue_ids_step_spec(3,4) [OF assms] by (cases "e = ret_ok") auto
  then show "rsrc_counts r' = rsrc_counts r" "t \<noteq> VIRTCHNL2_QUEUE_TYPE_TX \<Longrightarrow> map txqs (txq_grps r') = map txqs (txq_grps r)"
    "t \<noteq> VIRTCHNL2_QUEUE_TYPE_RX \<Longrightarrow> map rxqs (rxq_grps r') = map rxqs (rxq_grps r)"
    "t \<noteq> VIRTCHNL2_QUEUE_TYPE_RX_BUFFER \<Longrightarrow> map bufqs (rxq_grps r') = map bufqs (rxq_grps r)"
    "t \<noteq> VIRTCHNL2_QUEUE_TYPE_TX_COMPLETION \<Longrightarrow> all_complqs r' = all_complqs r"
    by (cases; use ids_init_other [where r = r and ids = qids' and t = t] in simp)+
qed

lemmas queue_types = VIRTCHNL2_QUEUE_TYPE_TX_def VIRTCHNL2_QUEUE_TYPE_RX_def
  VIRTCHNL2_QUEUE_TYPE_TX_COMPLETION_def VIRTCHNL2_QUEUE_TYPE_RX_BUFFER_def

text \<open>The ids of one kind after its step.\<close>

lemma step_ids:
  assumes "length qids = IDPF_LARGE_MAX_Q" and "queue_ids_step chunks t need (r, qids) = (ret_ok, r', qids')"
  shows "t = VIRTCHNL2_QUEUE_TYPE_TX \<Longrightarrow> length (all_txqs r) = need \<Longrightarrow> map q_qid (all_txqs r') = take need (queue_ids t chunks)"
    "t = VIRTCHNL2_QUEUE_TYPE_RX \<Longrightarrow> length (all_rxqs r) = need \<Longrightarrow> map q_qid (all_rxqs r') = take need (queue_ids t chunks)"
    "t = VIRTCHNL2_QUEUE_TYPE_RX_BUFFER \<Longrightarrow> length (all_bufqs r) = need \<Longrightarrow>
      (\<And>g. g \<in> set (rxq_grps r) \<Longrightarrow> length (bufqs g) = num_bufqs_per_qgrp r) \<Longrightarrow>
      map q_qid (all_bufqs r') = take need (queue_ids t chunks)"
    "t = VIRTCHNL2_QUEUE_TYPE_TX_COMPLETION \<Longrightarrow> length (txq_grps r) = need \<Longrightarrow> map q_qid (all_complqs r') = take need (queue_ids t chunks)"
proof -
  obtain n where n: "need \<le> n" "n \<le> length qids'" "take n qids' = take n (queue_ids t chunks)" "r' = vport_queue_ids_init r qids' n t"
    using queue_ids_step_spec(3) [OF assms] by blast
  have "take need qids' = take need (queue_ids t chunks)" using take_le [OF n(3,1)] .
  then show "t = VIRTCHNL2_QUEUE_TYPE_TX \<Longrightarrow> length (all_txqs r) = need \<Longrightarrow> map q_qid (all_txqs r') = take need (queue_ids t chunks)"
    "t = VIRTCHNL2_QUEUE_TYPE_RX \<Longrightarrow> length (all_rxqs r) = need \<Longrightarrow> map q_qid (all_rxqs r') = take need (queue_ids t chunks)"
    "t = VIRTCHNL2_QUEUE_TYPE_RX_BUFFER \<Longrightarrow> length (all_bufqs r) = need \<Longrightarrow>
      (\<And>g. g \<in> set (rxq_grps r) \<Longrightarrow> length (bufqs g) = num_bufqs_per_qgrp r) \<Longrightarrow>
      map q_qid (all_bufqs r') = take need (queue_ids t chunks)"
    "t = VIRTCHNL2_QUEUE_TYPE_TX_COMPLETION \<Longrightarrow> length (txq_grps r) = need \<Longrightarrow> map q_qid (all_complqs r') = take need (queue_ids t chunks)"
    using ids_init_this [OF n(2), where t = t and r = r] n(1,4) by simp_all
qed

text \<open>A step that is taken only in the split model.\<close>

definition opt_step ::
  "bool \<Rightarrow> idpf_queue_id_reg_chunk list \<Rightarrow> u32 \<Rightarrow> nat \<Rightarrow> idpf_q_vec_rsrc \<times> u32 list \<Rightarrow> ret \<times> idpf_q_vec_rsrc \<times> u32 list" where
  "opt_step b chunks t need st = (if b then queue_ids_step chunks t need st else (ret_ok, st))"

lemma opt_step_spec:
  assumes "length qids = IDPF_LARGE_MAX_Q" and "opt_step b chunks t need (r, qids) = (e, r', qids')"
  shows "length qids' = IDPF_LARGE_MAX_Q"
    "e = (if b \<longrightarrow> need \<le> min IDPF_LARGE_MAX_Q (length (queue_ids t chunks)) then ret_ok else Some EINVAL)"
    "rsrc_counts r' = rsrc_counts r" "t \<noteq> VIRTCHNL2_QUEUE_TYPE_TX \<Longrightarrow> map txqs (txq_grps r') = map txqs (txq_grps r)"
    "t \<noteq> VIRTCHNL2_QUEUE_TYPE_RX \<Longrightarrow> map rxqs (rxq_grps r') = map rxqs (rxq_grps r)"
    "t \<noteq> VIRTCHNL2_QUEUE_TYPE_RX_BUFFER \<Longrightarrow> map bufqs (rxq_grps r') = map bufqs (rxq_grps r)"
    "t \<noteq> VIRTCHNL2_QUEUE_TYPE_TX_COMPLETION \<Longrightarrow> all_complqs r' = all_complqs r"
proof -
  consider (no) "\<not> b" "e = ret_ok" "r' = r" "qids' = qids" | (yes) "b" "queue_ids_step chunks t need (r, qids) = (e, r', qids')"
    using assms(2) by (cases b) (auto simp: opt_step_def)
  then show "length qids' = IDPF_LARGE_MAX_Q"
    "e = (if b \<longrightarrow> need \<le> min IDPF_LARGE_MAX_Q (length (queue_ids t chunks)) then ret_ok else Some EINVAL)"
    "rsrc_counts r' = rsrc_counts r" "t \<noteq> VIRTCHNL2_QUEUE_TYPE_TX \<Longrightarrow> map txqs (txq_grps r') = map txqs (txq_grps r)"
    "t \<noteq> VIRTCHNL2_QUEUE_TYPE_RX \<Longrightarrow> map rxqs (rxq_grps r') = map rxqs (rxq_grps r)"
    "t \<noteq> VIRTCHNL2_QUEUE_TYPE_RX_BUFFER \<Longrightarrow> map bufqs (rxq_grps r') = map bufqs (rxq_grps r)"
    "t \<noteq> VIRTCHNL2_QUEUE_TYPE_TX_COMPLETION \<Longrightarrow> all_complqs r' = all_complqs r"
    using assms(1) by (cases; use queue_ids_step_spec(1,2) [OF assms(1)] step_counts [OF assms(1)] in auto)+
qed

lemma opt_ids:
  assumes "length qids = IDPF_LARGE_MAX_Q" and "opt_step b chunks t need (r, qids) = (ret_ok, r', qids')"
  shows "b \<Longrightarrow> t = VIRTCHNL2_QUEUE_TYPE_TX \<Longrightarrow> length (all_txqs r) = need \<Longrightarrow> map q_qid (all_txqs r') = take need (queue_ids t chunks)"
    "b \<Longrightarrow> t = VIRTCHNL2_QUEUE_TYPE_RX \<Longrightarrow> length (all_rxqs r) = need \<Longrightarrow> map q_qid (all_rxqs r') = take need (queue_ids t chunks)"
    "b \<Longrightarrow> t = VIRTCHNL2_QUEUE_TYPE_RX_BUFFER \<Longrightarrow> length (all_bufqs r) = need \<Longrightarrow>
      (\<And>g. g \<in> set (rxq_grps r) \<Longrightarrow> length (bufqs g) = num_bufqs_per_qgrp r) \<Longrightarrow>
      map q_qid (all_bufqs r') = take need (queue_ids t chunks)"
    "b \<Longrightarrow> t = VIRTCHNL2_QUEUE_TYPE_TX_COMPLETION \<Longrightarrow> length (txq_grps r) = need \<Longrightarrow>
      map q_qid (all_complqs r') = take need (queue_ids t chunks)"
  using step_ids [OF assms(1), of chunks t need r r' qids'] assms(2) by (simp_all add: opt_step_def)

text \<open>The successful run, step by step.\<close>

lemma queue_ids_init_run:
  assumes "idpf_vport_queue_ids_init True r chunks = (e, r')"
  obtains e1 r1 q1 e2 r2 q2 e3 r3 q3 e4 r4 q4 where
    "opt_step True chunks VIRTCHNL2_QUEUE_TYPE_TX (num_txq r) (r, replicate IDPF_LARGE_MAX_Q 0) = (e1, r1, q1)"
    "opt_step True chunks VIRTCHNL2_QUEUE_TYPE_RX (num_rxq r1) (r1, q1) = (e2, r2, q2)"
    "opt_step (idpf_is_queue_model_split (txq_model r2)) chunks VIRTCHNL2_QUEUE_TYPE_TX_COMPLETION (num_complq r2) (r2, q2) = (e3, r3, q3)"
    "opt_step (idpf_is_queue_model_split (rxq_model r3)) chunks VIRTCHNL2_QUEUE_TYPE_RX_BUFFER (num_bufq r3) (r3, q3) = (e4, r4, q4)"
    "e = (if e1 \<noteq> ret_ok then e1 else if e2 \<noteq> ret_ok then e2 else if e3 \<noteq> ret_ok then e3 else e4)" "e = ret_ok \<longrightarrow> r' = r4"
proof -
  obtain e1 r1 q1 where 1: "opt_step True chunks VIRTCHNL2_QUEUE_TYPE_TX (num_txq r) (r, replicate IDPF_LARGE_MAX_Q 0) = (e1, r1, q1)"
    by (metis prod_cases3)
  obtain e2 r2 q2 where 2: "opt_step True chunks VIRTCHNL2_QUEUE_TYPE_RX (num_rxq r1) (r1, q1) = (e2, r2, q2)" by (metis prod_cases3)
  obtain e3 r3 q3 where 3: "opt_step (idpf_is_queue_model_split (txq_model r2)) chunks VIRTCHNL2_QUEUE_TYPE_TX_COMPLETION
      (num_complq r2) (r2, q2) = (e3, r3, q3)" by (metis prod_cases3)
  obtain e4 r4 q4 where 4: "opt_step (idpf_is_queue_model_split (rxq_model r3)) chunks VIRTCHNL2_QUEUE_TYPE_RX_BUFFER
      (num_bufq r3) (r3, q3) = (e4, r4, q4)" by (metis prod_cases3)
  have 5: "e = (if e1 \<noteq> ret_ok then e1 else if e2 \<noteq> ret_ok then e2 else if e3 \<noteq> ret_ok then e3 else e4)" and 6: "e = ret_ok \<longrightarrow> r' = r4"
    using assms 1 2 3 4 unfolding idpf_vport_queue_ids_init_def opt_step_def by (auto split: option.splits if_splits)
  show thesis by (rule that [OF 1 2 3 4 5 6])
qed

text \<open>
  C22. \<open>idpf_vport_queue_ids_init\<close> succeeds exactly when the device sent enough ids of every type in use (of
  which at most 256 count), and then every transmit, receive, completion and buffer queue has its own id: the
  queues taken group by group carry the ids of their type in the order of the chunks.  Otherwise it
  returns \<open>-EINVAL\<close>.
\<close>

theorem idpf_vport_queue_ids_init_ok:
  assumes "rsrc_shape r" and "idpf_vport_queue_ids_init True r chunks = (e, r')"
  shows "let enough = (\<lambda>t n. n \<le> min IDPF_LARGE_MAX_Q (length (queue_ids t chunks))) in
    e = (if enough VIRTCHNL2_QUEUE_TYPE_TX (num_txq r) \<and> enough VIRTCHNL2_QUEUE_TYPE_RX (num_rxq r) \<and>
            (idpf_is_queue_model_split (txq_model r) \<longrightarrow> enough VIRTCHNL2_QUEUE_TYPE_TX_COMPLETION (num_complq r)) \<and>
            (idpf_is_queue_model_split (rxq_model r) \<longrightarrow> enough VIRTCHNL2_QUEUE_TYPE_RX_BUFFER (num_bufq r))
         then ret_ok else Some EINVAL) \<and>
    (e = ret_ok \<longrightarrow>
       map q_qid (all_txqs r') = take (num_txq r) (queue_ids VIRTCHNL2_QUEUE_TYPE_TX chunks) \<and>
       map q_qid (all_rxqs r') = take (num_rxq r) (queue_ids VIRTCHNL2_QUEUE_TYPE_RX chunks) \<and>
       (idpf_is_queue_model_split (txq_model r) \<longrightarrow>
          map q_qid (all_complqs r') = take (num_complq r) (queue_ids VIRTCHNL2_QUEUE_TYPE_TX_COMPLETION chunks)) \<and>
       (idpf_is_queue_model_split (rxq_model r) \<longrightarrow>
          map q_qid (all_bufqs r') = take (num_bufq r) (queue_ids VIRTCHNL2_QUEUE_TYPE_RX_BUFFER chunks)))"
proof -
  note sh = assms(1) [unfolded rsrc_shape_def]
  from assms(2) obtain e1 r1 q1 e2 r2 q2 e3 r3 q3 e4 r4 q4 where
    s: "opt_step True chunks VIRTCHNL2_QUEUE_TYPE_TX (num_txq r) (r, replicate IDPF_LARGE_MAX_Q 0) = (e1, r1, q1)"
      "opt_step True chunks VIRTCHNL2_QUEUE_TYPE_RX (num_rxq r1) (r1, q1) = (e2, r2, q2)"
      "opt_step (idpf_is_queue_model_split (txq_model r2)) chunks VIRTCHNL2_QUEUE_TYPE_TX_COMPLETION (num_complq r2) (r2, q2) = (e3, r3, q3)"
      "opt_step (idpf_is_queue_model_split (rxq_model r3)) chunks VIRTCHNL2_QUEUE_TYPE_RX_BUFFER (num_bufq r3) (r3, q3) = (e4, r4, q4)"
    and res: "e = (if e1 \<noteq> ret_ok then e1 else if e2 \<noteq> ret_ok then e2 else if e3 \<noteq> ret_ok then e3 else e4)" "e = ret_ok \<longrightarrow> r' = r4"
    by (rule queue_ids_init_run) (rule that)
  have l0: "length (replicate IDPF_LARGE_MAX_Q (0 :: u32)) = IDPF_LARGE_MAX_Q" by simp
  note p1 = opt_step_spec [OF l0 s(1)] note p2 = opt_step_spec [OF p1(1) s(2)]
  note p3 = opt_step_spec [OF p2(1) s(3)] note p4 = opt_step_spec [OF p3(1) s(4)]
  have cnt: "rsrc_counts r1 = rsrc_counts r" "rsrc_counts r2 = rsrc_counts r" "rsrc_counts r3 = rsrc_counts r"
    using p1(3) p2(3) p3(3) by simp_all
  have b: "map bufqs (rxq_grps r3) = map bufqs (rxq_grps r)" using p1(6) p2(6) p3(6) by (simp add: queue_types)
  have bufs: "length (bufqs g) = num_bufqs_per_qgrp r" if "g \<in> set (rxq_grps r3)" "idpf_is_queue_model_split (rxq_model r)" for g
  proof -
    have "bufqs g \<in> set (map bufqs (rxq_grps r))" using that(1) b by (metis image_eqI set_map)
    then show ?thesis using sh that(2) by auto
  qed
  have "all_complqs r2 = all_complqs r" using p1(7) p2(7) by (simp add: queue_types)
  then have len: "length (txq_grps r2) = length (txq_grps r)" by (metis all_complqs_def length_map)
  have moved: "all_txqs r4 = all_txqs r1" "all_rxqs r4 = all_rxqs r2" "all_complqs r4 = all_complqs r3"
    "length (all_rxqs r1) = length (all_rxqs r)" "length (all_bufqs r3) = length (all_bufqs r)"
    using p2(4) p3(4) p4(4) p1(5) p3(5) p4(5) p4(7) b by (simp_all add: all_txqs_def all_rxqs_def all_bufqs_def queue_types)
  have ids: "map q_qid (all_txqs r4) = take (num_txq r) (queue_ids VIRTCHNL2_QUEUE_TYPE_TX chunks)"
    "map q_qid (all_rxqs r4) = take (num_rxq r) (queue_ids VIRTCHNL2_QUEUE_TYPE_RX chunks)"
    "idpf_is_queue_model_split (txq_model r) \<Longrightarrow>
       map q_qid (all_complqs r4) = take (num_complq r) (queue_ids VIRTCHNL2_QUEUE_TYPE_TX_COMPLETION chunks)"
    "idpf_is_queue_model_split (rxq_model r) \<Longrightarrow>
       map q_qid (all_bufqs r4) = take (num_bufq r) (queue_ids VIRTCHNL2_QUEUE_TYPE_RX_BUFFER chunks)"
    if ok: "e1 = ret_ok" "e2 = ret_ok" "e3 = ret_ok" "e4 = ret_ok"
    using opt_ids(1) [OF l0 s(1) [unfolded ok]] opt_ids(2) [OF p1(1) s(2) [unfolded ok]]
      opt_ids(4) [OF p2(1) s(3) [unfolded ok]] opt_ids(3) [OF p3(1) s(4) [unfolded ok]] sh cnt moved len bufs by simp_all
  show ?thesis
    using res p1(2) p2(2) p3(2) p4(2) ids cnt unfolding Let_def by (auto simp del: min_less_iff_conj)
qed

text \<open>A vport in the single queue model with two transmit and two receive queues.\<close>

definition demo_q :: idpf_qref where
  "demo_q = \<lparr>q_qid = 0, q_qtype = 0, q_tail = 0\<rparr>"

definition demo_rsrc :: "nat \<Rightarrow> idpf_q_vec_rsrc" where
  "demo_rsrc model = \<lparr>txq_grps = [\<lparr>txqs = [demo_q, demo_q], complq = demo_q\<rparr>], txq_desc_count = 512, complq_desc_count = 0,
     txq_model = model, num_txq = 2, num_complq = 0, num_txq_grp = 1, num_rxq_grp = 1, rxq_model = model,
     rxq_grps = [\<lparr>rxqs = [demo_q, demo_q], bufqs = []\<rparr>], num_rxq = 2, num_bufq = 0, rxq_desc_count = 512,
     bufq_desc_count = [0, 0], num_bufqs_per_qgrp = 0, bufq_size = [2048, 0]\<rparr>"

theorem idpf_vport_queue_ids_init_ok_witness:
  "let (e, r) = idpf_vport_queue_ids_init True (demo_rsrc 0) demo_chunks
   in e = ret_ok \<and> map q_qid (all_txqs r) = [20, 21] \<and> map q_qid (all_rxqs r) = [30, 31]"
proof -
  obtain e r where run: "idpf_vport_queue_ids_init True (demo_rsrc 0) demo_chunks = (e, r)" by fastforce
  have "run_vals (2, s, v) = [v, v + s]" "run_vals (3, s, v) = [v, v + s, v + s + s]" for s v :: u32
    by (simp_all add: numeral_eq_Suc)
  then have ids: "queue_ids 0 demo_chunks = [20, 21, 22, 10, 11]" "queue_ids 1 demo_chunks = [30, 31]"
    by (simp_all add: queue_ids_def demo_chunks_def id_run_def)
  have "rsrc_shape (demo_rsrc 0)"
    by (simp add: rsrc_shape_def demo_rsrc_def all_txqs_def all_rxqs_def idpf_is_queue_model_split_def)
  from idpf_vport_queue_ids_init_ok [OF this run] show ?thesis
    using run by (simp add: queue_types ids demo_rsrc_def idpf_is_queue_model_split_def Let_def IDPF_LARGE_MAX_Q_def)
qed

section \<open>The budget\<close>

text \<open>The queues not yet given out, and what has been given to each vport.\<close>

inductive budget_step ::
  "virtchnl2_q_caps \<Rightarrow> idpf_avail_queue_info \<times> idpf_vport_max_q list \<Rightarrow> idpf_avail_queue_info \<times> idpf_vport_max_q list \<Rightarrow> bool"
  for caps where
  alloc: "idpf_vport_alloc_max_qs caps n av mq = Some (ret_ok, av', mq') \<Longrightarrow> budget_step caps (av, gs) (av', mq' # gs)"
| alloc_fail: "idpf_vport_alloc_max_qs caps n av mq = Some (Some e, av', mq') \<Longrightarrow> budget_step caps (av, gs) (av', gs)"
| dealloc: "mq \<in> set gs \<Longrightarrow> budget_step caps (av, gs) (idpf_vport_dealloc_max_qs av mq, remove1 mq gs)"

inductive_cases budget_stepE: "budget_step caps s s'"

definition caps_ok :: "virtchnl2_q_caps \<Rightarrow> bool" where
  "caps_ok c \<longleftrightarrow> cap_max_rx_q c < 65536 \<and> cap_max_tx_q c < 65536 \<and> cap_max_rx_bufq c < 65536 \<and> cap_max_tx_complq c < 65536"

definition budget_ok :: "virtchnl2_q_caps \<Rightarrow> idpf_avail_queue_info \<times> idpf_vport_max_q list \<Rightarrow> bool" where
  "budget_ok c s \<longleftrightarrow> (case s of (av, gs) \<Rightarrow>
     avail_rxq av + sum_list (map max_rxq gs) = cap_max_rx_q c \<and> avail_txq av + sum_list (map max_txq gs) = cap_max_tx_q c \<and>
     avail_bufq av + sum_list (map max_bufq gs) = cap_max_rx_bufq c \<and>
     avail_complq av + sum_list (map max_complq gs) = cap_max_tx_complq c)"

lemma alloc_max_qs_ok:
  assumes "idpf_vport_alloc_max_qs caps n av mq = Some (r, av', mq')"
  shows "r = ret_ok \<Longrightarrow> avail_rxq av' + max_rxq mq' = avail_rxq av \<and> avail_txq av' + max_txq mq' = avail_txq av \<and>
      avail_bufq av' + max_bufq mq' = avail_bufq av \<and> avail_complq av' + max_complq mq' = avail_complq av"
    "r \<noteq> ret_ok \<Longrightarrow> r = Some EINVAL \<and> av' = av"
  using assms unfolding idpf_vport_alloc_max_qs_def Let_def by (auto split: if_splits)

lemma sum_list_remove1: "x \<in> set xs \<Longrightarrow> f x + sum_list (map f (remove1 x xs)) = sum_list (map f xs)" for f :: "'a \<Rightarrow> nat"
  by (induction xs) auto

lemma trunc16_add: "a + b + c = d \<Longrightarrow> d < 65536 \<Longrightarrow> trunc16 (a + b) = a + b"
  by simp

lemma budget_step_ok:
  assumes "budget_step c s s'" and caps: "caps_ok c" and ok: "budget_ok c s"
  shows "budget_ok c s'"
  using assms(1)
proof cases
  case (alloc n av mq av' mq' gs)
  from alloc_max_qs_ok(1) [OF alloc(3)] show ?thesis using ok alloc(1,2) by (simp add: budget_ok_def)
next
  case (alloc_fail n av mq e av' mq' gs)
  from alloc_max_qs_ok(2) [OF alloc_fail(3)] show ?thesis using ok alloc_fail(1,2) by (simp add: budget_ok_def)
next
  case (dealloc mq gs av)
  have eq: "f mq + sum_list (map f (remove1 mq gs)) = sum_list (map f gs)" for f :: "idpf_vport_max_q \<Rightarrow> nat"
    using dealloc(3) by (rule sum_list_remove1)
  note o = ok [unfolded dealloc(1) budget_ok_def prod.case] and cp = caps [unfolded caps_ok_def]
  have "avail_rxq av + max_rxq mq + sum_list (map max_rxq (remove1 mq gs)) = cap_max_rx_q c"
    "avail_txq av + max_txq mq + sum_list (map max_txq (remove1 mq gs)) = cap_max_tx_q c"
    "avail_bufq av + max_bufq mq + sum_list (map max_bufq (remove1 mq gs)) = cap_max_rx_bufq c"
    "avail_complq av + max_complq mq + sum_list (map max_complq (remove1 mq gs)) = cap_max_tx_complq c"
    using o eq [of max_rxq] eq [of max_txq] eq [of max_bufq] eq [of max_complq] by linarith+
  moreover from this have "trunc16 (avail_rxq av + max_rxq mq) = avail_rxq av + max_rxq mq" "trunc16 (avail_txq av + max_txq mq) = avail_txq av + max_txq mq"
    "trunc16 (avail_bufq av + max_bufq mq) = avail_bufq av + max_bufq mq" "trunc16 (avail_complq av + max_complq mq) = avail_complq av + max_complq mq"
    using cp trunc16_add by blast+
  ultimately show ?thesis unfolding dealloc(2) budget_ok_def idpf_vport_dealloc_max_qs_def by simp
qed

text \<open>
  C23. The budget of queues is conserved: after any sequence of vports getting queues, failing to get them and
  returning what they got, what is left plus what the vports hold is what the device offers, for each of the
  four kinds of queue, so the device is never oversubscribed and nothing is lost.
\<close>

theorem idpf_queue_budget_conserved:
  assumes "caps_ok caps" and "(budget_step caps)\<^sup>*\<^sup>* (idpf_init_avail_queues caps, []) (av, gs)"
  shows "budget_ok caps (av, gs)"
proof -
  have "budget_ok caps (idpf_init_avail_queues caps, [])" by (simp add: budget_ok_def idpf_init_avail_queues_def)
  with assms(2) show ?thesis using assms(1) by (induction rule: rtranclp_induct) (auto intro: budget_step_ok)
qed

text \<open>A device with 64 queues of each kind and two default vports.\<close>

definition demo_caps :: virtchnl2_q_caps where
  "demo_caps = \<lparr>cap_max_rx_q = 64, cap_max_tx_q = 64, cap_max_rx_bufq = 64, cap_max_tx_complq = 64, cap_default_num_vports = 2\<rparr>"

theorem idpf_queue_budget_conserved_witness:
  "\<exists>av mq. (budget_step demo_caps)\<^sup>*\<^sup>* (idpf_init_avail_queues demo_caps, []) (av, [mq]) \<and>
     max_rxq mq = 16 \<and> avail_rxq av + max_rxq mq = 64 \<and> avail_bufq av + max_bufq mq = 64"
proof -
  let ?av = "idpf_init_avail_queues demo_caps"
  have run: "idpf_vport_alloc_max_qs demo_caps 0 ?av zero_max_q =
      Some (ret_ok, \<lparr>avail_rxq = 48, avail_txq = 32, avail_bufq = 32, avail_complq = 32\<rparr>,
        \<lparr>max_rxq = 16, max_txq = 32, max_bufq = 32, max_complq = 32\<rparr>)"
    by (simp add: idpf_vport_alloc_max_qs_def vport_max_qs_def demo_caps_def idpf_init_avail_queues_def zero_max_q_def Let_def
        IDPF_MAX_RXQ_def IDPF_MAX_TXQ_def IDPF_LARGE_MAX_Q_def IDPF_MAX_BUFQS_PER_RXQ_GRP_def)
  have "(budget_step demo_caps)\<^sup>*\<^sup>* (?av, []) (\<lparr>avail_rxq = 48, avail_txq = 32, avail_bufq = 32, avail_complq = 32\<rparr>,
      [\<lparr>max_rxq = 16, max_txq = 32, max_bufq = 32, max_complq = 32\<rparr>])"
    using budget_step.alloc [OF run] by blast
  moreover have "caps_ok demo_caps" by (simp add: caps_ok_def demo_caps_def)
  ultimately show ?thesis
    using idpf_queue_budget_conserved [of demo_caps] by (fastforce simp: budget_ok_def demo_caps_def)
qed

section \<open>Counts\<close>

lemma init_num_qs_fields:
  assumes "idpf_vport_init_num_qs cfg vm r = (cfg', vx, r')"
  shows "num_txq r' = vm_num_tx_q vm" "num_rxq r' = vm_num_rx_q vm" "txq_model r' = txq_model r" "rxq_model r' = rxq_model r"
    "idpf_is_queue_model_split (txq_model r) \<Longrightarrow> num_complq r' = vm_num_tx_complq vm"
    "idpf_is_queue_model_split (rxq_model r) \<Longrightarrow> num_bufqs_per_qgrp r' = (if xdp_prog cfg then 1 else 2)"
    "idpf_is_queue_model_split (rxq_model r) \<Longrightarrow> num_bufq r' = (if xdp_prog cfg then trunc16 (vm_num_rx_q vm) else vm_num_rx_bufq vm)"
    "num_xdp_txq vx = (if xdp_prog cfg then vm_num_rx_q vm else 0)"
    "xdp_txq_offset vx = (if xdp_prog cfg then trunc16 (65536 + vm_num_tx_q vm - vm_num_rx_q vm) else 0)"
  using assms by (auto simp: idpf_vport_init_num_qs_def Let_def IDPF_SINGLE_BUFQ_PER_RXQ_GRP_def IDPF_MAX_BUFQS_PER_RXQ_GRP_def
      split: if_splits)

text \<open>
  The counts of \<open>idpf_vport_adjust_qs\<close> fit together in both queue models, with and without an XDP program:
  groups times queues per group is the number of transmit and of receive queues, groups times buffer
  queues per group is the number of buffer queues, the split model has a completion queue per transmit
  queue, and with a program there is one XDP transmit queue per receive queue at the end of the transmit
  queues, which the others precede in the number the user asked for.
\<close>

theorem idpf_vport_adjust_qs_consistent:
  assumes "num_req_tx_qs cfg + 2 * num_req_rx_qs cfg < 65536" and "idpf_vport_adjust_qs cfg r = (cfg', vx, r')"
  shows "num_txq_grp r' * fst (idpf_vport_calc_numq_per_grp r') = num_txq r' \<and>
    num_rxq_grp r' * snd (idpf_vport_calc_numq_per_grp r') = num_rxq r' \<and>
    (idpf_is_queue_model_split (rxq_model r') \<longrightarrow> num_rxq_grp r' * num_bufqs_per_qgrp r' = num_bufq r') \<and>
    (idpf_is_queue_model_split (txq_model r') \<longrightarrow> num_complq r' = num_txq r') \<and>
    num_rxq r' = num_req_rx_qs cfg \<and> xdp_txq_offset vx = (if xdp_prog cfg then num_req_tx_qs cfg else 0) \<and>
    num_txq r' = num_req_tx_qs cfg + num_xdp_txq vx \<and> num_xdp_txq vx = (if xdp_prog cfg then num_rxq r' else 0)"
proof -
  let ?tx = "num_req_tx_qs cfg" and ?rx = "num_req_rx_qs cfg" and ?x = "xdp_prog cfg"
  let ?vm = "\<lparr>vm_txq_model = txq_model r, vm_rxq_model = rxq_model r, vm_num_tx_q = 0, vm_num_tx_complq = 0, vm_num_rx_q = 0, vm_num_rx_bufq = 0\<rparr>"
  define vm where "vm = idpf_vport_calc_total_qs (Some cfg) zero_max_q 0 ?vm"
  have t: "trunc16 (65536 + (?tx + ?rx) - ?rx) = ?tx" "trunc16 (?tx + ?rx) = ?tx + ?rx" "trunc16 ?tx = ?tx" "trunc16 ?rx = ?rx" "trunc16 (?rx * 2) = ?rx * 2"
    using assms(1) by (simp_all add: trunc16_def)
  have vm: "vm_num_rx_q vm = ?rx" "vm_num_tx_q vm = ?tx + (if ?x then ?rx else 0)"
    "idpf_is_queue_model_split (txq_model r) \<Longrightarrow> vm_num_tx_complq vm = ?tx + (if ?x then ?rx else 0)"
    "idpf_is_queue_model_split (rxq_model r) \<Longrightarrow> vm_num_rx_bufq vm = ?rx * (if ?x then 1 else 2)"
    using t by (simp_all add: vm_def idpf_vport_calc_total_qs_def Let_def IDPF_SINGLE_BUFQ_PER_RXQ_GRP_def
        IDPF_MAX_BUFQS_PER_RXQ_GRP_def IDPF_COMPLQ_PER_GROUP_def)
  obtain c1 r1 where i: "idpf_vport_init_num_qs cfg vm r = (c1, vx, r1)" "r' = idpf_vport_calc_num_q_groups r1"
    using assms(2) by (auto simp: idpf_vport_adjust_qs_def Let_def vm_def split: prod.splits)
  note f = init_num_qs_fields [OF i(1)]
  show ?thesis
    using f vm t unfolding i(2) by (simp add: idpf_vport_calc_num_q_groups_def idpf_vport_calc_numq_per_grp_def ac_simps)
qed

definition demo_cfg :: "bool \<Rightarrow> idpf_user_config" where
  "demo_cfg xdp = \<lparr>num_req_tx_qs = 4, num_req_rx_qs = 4, num_req_txq_desc = 0, num_req_rxq_desc = 0, xdp_prog = xdp\<rparr>"

theorem idpf_vport_adjust_qs_consistent_witness:
  "let (cfg, vx, r) = idpf_vport_adjust_qs (demo_cfg True) (demo_rsrc 1)
   in num_txq r = 8 \<and> num_rxq r = 4 \<and> num_xdp_txq vx = 4 \<and> xdp_txq_offset vx = 4 \<and> num_complq r = 8"
proof -
  obtain cfg vx r where run: "idpf_vport_adjust_qs (demo_cfg True) (demo_rsrc 1) = (cfg, vx, r)" by (metis prod_cases3)
  have "txq_model r = 1"
    using run by (auto simp: idpf_vport_adjust_qs_def idpf_vport_init_num_qs_def idpf_vport_calc_num_q_groups_def
        demo_rsrc_def demo_cfg_def Let_def split: prod.splits if_splits)
  then show ?thesis
    using idpf_vport_adjust_qs_consistent [OF _ run] run by (simp add: demo_cfg_def idpf_is_queue_model_split_def)
qed

section \<open>Buffers and completion descriptors\<close>

text \<open>The rule of \<open>idpf_txrx.h\<close>: no more buffers than the receive queue has descriptors.\<close>

definition bufs_fit :: "idpf_q_vec_rsrc \<Rightarrow> bool" where
  "bufs_fit r \<longleftrightarrow> sum_list (take (num_bufqs_per_qgrp r) (bufq_desc_count r)) \<le> rxq_desc_count r"

definition bufqs_wf :: "idpf_q_vec_rsrc \<Rightarrow> bool" where
  "bufqs_wf r \<longleftrightarrow> length (bufq_desc_count r) = 2 \<and> num_bufqs_per_qgrp r \<le> 2"

lemma upto_2_cases: "n \<le> (2::nat) \<Longrightarrow> n = 0 \<or> n = 1 \<or> n = 2"
  by auto

lemma len2E: "length xs = 2 \<Longrightarrow> \<exists>a b. xs = [a, b]"
  by (cases xs; cases "tl xs") auto

lemma calc_fields:
  "rxq_desc_count (idpf_vport_calc_num_q_desc cfg r) =
     (if num_req_rxq_desc cfg \<noteq> 0 then num_req_rxq_desc cfg else IDPF_DFLT_RX_Q_DESC_COUNT)"
  "num_bufqs_per_qgrp (idpf_vport_calc_num_q_desc cfg r) = num_bufqs_per_qgrp r"
  "bufq_desc_count (idpf_vport_calc_num_q_desc cfg r) = bufq_desc_loop (num_bufqs_per_qgrp r) 0
     (if num_req_rxq_desc cfg \<noteq> 0 then num_req_rxq_desc cfg else IDPF_DFLT_RX_Q_DESC_COUNT) (num_bufqs_per_qgrp r) (bufq_desc_count r)"
  by (simp_all add: idpf_vport_calc_num_q_desc_def Let_def)

text \<open>
  The rule is established when a vport is created and kept by \<open>ethtool -G\<close>: with the counts still zero,
  \<open>idpf_vport_calc_num_q_desc\<close> gives the buffer queues together no more descriptors than the receive queue,
  and every accepted change of the ring sizes does so again.
\<close>

theorem idpf_bufq_desc_fit:
  assumes "bufqs_wf r"
  shows "((\<forall>c \<in> set (bufq_desc_count r). c = 0) \<longrightarrow> bufs_fit (idpf_vport_calc_num_q_desc cfg r)) \<and>
    (bufs_fit r \<and> idpf_set_ringparam tx rx cfg r = (ret_ok, cfg', r') \<longrightarrow> bufs_fit r')"
proof -
  obtain a b where ab: "bufq_desc_count r = [a, b]" using len2E [of "bufq_desc_count r"] assms by (auto simp: bufqs_wf_def)
  have n: "num_bufqs_per_qgrp r = 0 \<or> num_bufqs_per_qgrp r = 1 \<or> num_bufqs_per_qgrp r = 2"
    using assms by (intro upto_2_cases) (simp add: bufqs_wf_def)
  have half: "x div 2 + x div 2 \<le> x" for x :: nat by simp
  have "bufs_fit (idpf_vport_calc_num_q_desc cfg r)" if "a = 0" "b = 0"
    using n that half ab by (auto simp: bufs_fit_def calc_fields IDPF_RX_BUFQ_DESC_COUNT_def numeral_2_eq_2)
  moreover have "bufs_fit r'" if "bufs_fit r" "idpf_set_ringparam tx rx cfg r = (ret_ok, cfg', r')"
  proof (cases "align_up tx 32 = txq_desc_count r \<and> align_up rx 64 = rxq_desc_count r")
    case True
    then show ?thesis using that by (auto simp: idpf_set_ringparam_def IDPF_MAX_BUFQS_PER_RXQ_GRP_def Let_def split: if_splits)
  next
    case False
    have "64 \<le> rx" using that(2) by (auto simp: idpf_set_ringparam_def split: if_splits)
    then have al: "64 \<le> align_up rx 64" by (simp add: align_up_def) 
    let ?n = "num_bufqs_per_qgrp r" and ?rx = "align_up rx 64"
    have "r' = idpf_vport_calc_num_q_desc cfg' (r\<lparr>bufq_desc_count := bufq_set_loop ?n 0 ?rx ?n [a, b]\<rparr>)" "num_req_rxq_desc cfg' = ?rx"
      using that(2) False ab by (auto simp: idpf_set_ringparam_def IDPF_MAX_BUFQS_PER_RXQ_GRP_def Let_def split: if_splits)
    then show ?thesis using n al half [of ?rx]
      by (auto simp: bufs_fit_def calc_fields IDPF_RX_BUFQ_DESC_COUNT_def numeral_2_eq_2)
  qed
  ultimately show ?thesis using ab by simp
qed

theorem idpf_bufq_desc_fit_witness:
  "bufs_fit (idpf_vport_calc_num_q_desc (demo_cfg False) ((demo_rsrc 1)\<lparr>num_bufqs_per_qgrp := 2\<rparr>))"
proof -
  have "bufqs_wf ((demo_rsrc 1)\<lparr>num_bufqs_per_qgrp := 2\<rparr>)" by (simp add: bufqs_wf_def demo_rsrc_def)
  from idpf_bufq_desc_fit [OF this] show ?thesis by (simp add: demo_rsrc_def)
qed

lemma calc_models: "rxq_model (idpf_vport_calc_num_q_desc cfg r) = rxq_model r"
  by (simp add: idpf_vport_calc_num_q_desc_def Let_def)

lemma adjust_bufs:
  assumes "idpf_vport_adjust_qs cfg r = (cfg', vx, r')" and "rxq_model r = 1"
  shows "rxq_model r' = 1" "num_bufqs_per_qgrp r' = (if xdp_prog cfg then 1 else 2)" "bufq_desc_count r' = bufq_desc_count r"
    "num_req_rxq_desc cfg' = num_req_rxq_desc cfg"
proof -
  obtain vm r1 where i: "idpf_vport_init_num_qs cfg vm r = (cfg', vx, r1)" "r' = idpf_vport_calc_num_q_groups r1"
    using assms(1) by (auto simp: idpf_vport_adjust_qs_def Let_def split: prod.splits)
  have "bufq_desc_count r1 = bufq_desc_count r" "num_req_rxq_desc cfg' = num_req_rxq_desc cfg"
    using i(1) by (auto simp: idpf_vport_init_num_qs_def Let_def split: if_splits)
  then show "rxq_model r' = 1" "num_bufqs_per_qgrp r' = (if xdp_prog cfg then 1 else 2)" "bufq_desc_count r' = bufq_desc_count r"
    "num_req_rxq_desc cfg' = num_req_rxq_desc cfg"
    using init_num_qs_fields(4,6) [OF i(1)] assms(2) i(2)
    by (simp_all add: idpf_vport_calc_num_q_groups_def idpf_is_queue_model_split_def)
qed

lemma xdp_change_fields:
  assumes "xdp_change_qs prog cfg r = (cfg', r')" and "rxq_model r = 1"
  shows "rxq_model r' = 1" "num_bufqs_per_qgrp r' = (if prog then 1 else 2)" "num_req_rxq_desc cfg' = num_req_rxq_desc cfg"
    "rxq_desc_count r' = (if num_req_rxq_desc cfg \<noteq> 0 then num_req_rxq_desc cfg else IDPF_DFLT_RX_Q_DESC_COUNT)"
    "bufq_desc_count r' = bufq_desc_loop (if prog then 1 else 2) 0
       (if num_req_rxq_desc cfg \<noteq> 0 then num_req_rxq_desc cfg else IDPF_DFLT_RX_Q_DESC_COUNT) (if prog then 1 else 2) (bufq_desc_count r)"
proof -
  obtain c1 vx r1 where a: "idpf_vport_adjust_qs (cfg\<lparr>xdp_prog := prog\<rparr>) r = (c1, vx, r1)" by (metis prod_cases3)
  have "cfg' = c1" "r' = idpf_vport_calc_num_q_desc c1 r1" using assms(1) a by (auto simp: xdp_change_qs_def)
  then show "rxq_model r' = 1" "num_bufqs_per_qgrp r' = (if prog then 1 else 2)" "num_req_rxq_desc cfg' = num_req_rxq_desc cfg"
    "rxq_desc_count r' = (if num_req_rxq_desc cfg \<noteq> 0 then num_req_rxq_desc cfg else IDPF_DFLT_RX_Q_DESC_COUNT)"
    "bufq_desc_count r' = bufq_desc_loop (if prog then 1 else 2) 0
       (if num_req_rxq_desc cfg \<noteq> 0 then num_req_rxq_desc cfg else IDPF_DFLT_RX_Q_DESC_COUNT) (if prog then 1 else 2) (bufq_desc_count r)"
    using adjust_bufs [OF a assms(2)] by (simp_all add: calc_models calc_fields)
qed

lemma ringparam_fields:
  assumes "128 \<le> tx" "64 \<le> rx" "align_up rx 64 \<noteq> rxq_desc_count r"
  shows "let (e, cfg', r') = idpf_set_ringparam tx rx cfg r; n = num_bufqs_per_qgrp r; d = align_up rx 64 in
    e = ret_ok \<and> rxq_model r' = rxq_model r \<and> num_bufqs_per_qgrp r' = n \<and> num_req_rxq_desc cfg' = d \<and>
    rxq_desc_count r' = (if d \<noteq> 0 then d else IDPF_DFLT_RX_Q_DESC_COUNT) \<and>
    bufq_desc_count r' = bufq_desc_loop n 0 (if d \<noteq> 0 then d else IDPF_DFLT_RX_Q_DESC_COUNT) n (bufq_set_loop n 0 d n (bufq_desc_count r))"
  using assms by (simp add: idpf_set_ringparam_def Let_def IDPF_MAX_BUFQS_PER_RXQ_GRP_def calc_fields calc_models)

lemma loop_2: "bufq_desc_loop 2 0 d n [a, b] =
    [if a = 0 then IDPF_RX_BUFQ_DESC_COUNT d n else a, if b = 0 then IDPF_RX_BUFQ_DESC_COUNT d n else b]"
  by (simp add: numeral_2_eq_2)

text \<open>
  Unloading an XDP program can break the rule: \<open>idpf_vport_calc_num_q_desc\<close> only sets counts that are
  zero, so after a change of the ring size under XDP, where there is one buffer queue, the counts of two
  buffer queues are left over from two configurations.  Here the receive queue has 1024 descriptors and
  the two buffer queues 1024 and 256.
\<close>

theorem idpf_xdp_change_breaks_fit:
  "let (cfg1, r1) = xdp_change_qs False (demo_cfg False) (demo_rsrc 1);
       (cfg2, r2) = xdp_change_qs True cfg1 r1;
       (e, cfg3, r3) = idpf_set_ringparam 512 1024 cfg2 r2;
       (cfg4, r4) = xdp_change_qs False cfg3 r3
   in bufs_fit r1 \<and> bufs_fit r2 \<and> e = ret_ok \<and> bufs_fit r3 \<and> \<not> bufs_fit r4 \<and>
      rxq_desc_count r4 = 1024 \<and> bufq_desc_count r4 = [1024, 256]"
proof -
  obtain c1 r1 where 1: "xdp_change_qs False (demo_cfg False) (demo_rsrc 1) = (c1, r1)" by fastforce
  obtain c2 r2 where 2: "xdp_change_qs True c1 r1 = (c2, r2)" by fastforce
  obtain e c3 r3 where 3: "idpf_set_ringparam 512 1024 c2 r2 = (e, c3, r3)" by (metis prod_cases3)
  obtain c4 r4 where 4: "xdp_change_qs False c3 r3 = (c4, r4)" by fastforce
  note loops = loop_2 IDPF_RX_BUFQ_DESC_COUNT_def IDPF_DFLT_RX_Q_DESC_COUNT_def
  have b1: "rxq_model r1 = 1" "num_bufqs_per_qgrp r1 = 2" "rxq_desc_count r1 = 512" "bufq_desc_count r1 = [256, 256]" "num_req_rxq_desc c1 = 0"
    using xdp_change_fields [OF 1] by (simp_all add: demo_rsrc_def demo_cfg_def loops)
  have b2: "rxq_model r2 = 1" "num_bufqs_per_qgrp r2 = 1" "rxq_desc_count r2 = 512" "bufq_desc_count r2 = [256, 256]"
    using xdp_change_fields [OF 2] b1 by (simp_all add: loops)
  have b3: "e = ret_ok" "rxq_model r3 = 1" "num_bufqs_per_qgrp r3 = 1" "rxq_desc_count r3 = 1024" "bufq_desc_count r3 = [1024, 256]"
    "num_req_rxq_desc c3 = 1024"
    using ringparam_fields [of 512 1024 r2 c2, unfolded 3] b2 by (simp_all add: loops align_up_def)
  have b4: "num_bufqs_per_qgrp r4 = 2" "rxq_desc_count r4 = 1024" "bufq_desc_count r4 = [1024, 256]"
    using xdp_change_fields [OF 4] b3 by (simp_all add: loops)
  show ?thesis using 1 2 3 4 b1 b2 b3 b4 by (simp add: bufs_fit_def numeral_2_eq_2)
qed

end
