(* ===== verification/Idpf_Fifo.thy ===== *)
theory Idpf_Fifo
  imports Idpf_Prelude
begin

text \<open>
  The interface of a bounded FIFO: what a user of a ring relies on when one side appends and the
  other removes.  A run of operations on any implementation of it gives the results the same
  operations give on a list, provided no append meets a full queue.
\<close>

datatype 'a fifo_op = Enq 'a | Deq

fun fifo_run ::
  "('q \<Rightarrow> 'a \<Rightarrow> 'q) \<Rightarrow> ('q \<Rightarrow> 'b option \<times> 'q) \<Rightarrow> 'a fifo_op list \<Rightarrow> 'q \<Rightarrow> 'b option list \<times> 'q" where
  "fifo_run enq deq [] q = ([], q)"
| "fifo_run enq deq (Enq x # ops) q = fifo_run enq deq ops (enq q x)"
| "fifo_run enq deq (Deq # ops) q =
     (case deq q of (r, q1) \<Rightarrow> case fifo_run enq deq ops q1 of (rs, q2) \<Rightarrow> (r # rs, q2))"

definition list_enq :: "('a \<Rightarrow> 'b) \<Rightarrow> 'b list \<Rightarrow> 'a \<Rightarrow> 'b list" where
  "list_enq f xs x = xs @ [f x]"

fun list_deq :: "'b list \<Rightarrow> 'b option \<times> 'b list" where
  "list_deq [] = (None, [])"
| "list_deq (x # xs) = (Some x, xs)"

text \<open>No append of the sequence meets a queue with \<open>cap\<close> elements, starting with \<open>k\<close>.\<close>

fun fifo_fits :: "nat \<Rightarrow> nat \<Rightarrow> 'a fifo_op list \<Rightarrow> bool" where
  "fifo_fits cap k [] = True"
| "fifo_fits cap k (Enq x # ops) = (k < cap \<and> fifo_fits cap (Suc k) ops)"
| "fifo_fits cap k (Deq # ops) = fifo_fits cap (k - 1) ops"

locale bounded_fifo =
  fixes ok :: "'q \<Rightarrow> bool" and cap :: "'q \<Rightarrow> nat" and content :: "'q \<Rightarrow> 'b list"
    and elem :: "'a \<Rightarrow> 'b" and enq :: "'q \<Rightarrow> 'a \<Rightarrow> 'q" and deq :: "'q \<Rightarrow> 'b option \<times> 'q"
  assumes enq_law: "ok q \<Longrightarrow> length (content q) < cap q \<Longrightarrow>
        ok (enq q x) \<and> cap (enq q x) = cap q \<and> content (enq q x) = content q @ [elem x]"
    and deq_empty: "ok q \<Longrightarrow> content q = [] \<Longrightarrow> deq q = (None, q)"
    and deq_law: "ok q \<Longrightarrow> content q = y # ys \<Longrightarrow>
        \<exists>q'. deq q = (Some y, q') \<and> ok q' \<and> cap q' = cap q \<and> content q' = ys"
begin

lemma run_refines:
  assumes "ok q" and "fifo_fits (cap q) (length (content q)) ops"
  shows "\<exists>rs q'. fifo_run enq deq ops q = (rs, q') \<and> ok q' \<and>
           fifo_run (list_enq elem) list_deq ops (content q) = (rs, content q')"
  using assms
proof (induction ops arbitrary: q)
  case Nil
  then show ?case by simp
next
  case (Cons a ops)
  show ?case
  proof (cases a)
    case (Enq x)
    then show ?thesis
      using Cons.prems enq_law [of q x] Cons.IH [of "enq q x"] by (auto simp: list_enq_def)
  next
    case Deq
    show ?thesis
    proof (cases "content q")
      case Nil
      then show ?thesis
        using Cons.prems Deq deq_empty [of q] Cons.IH [of q] by auto
    next
      case (Cons y ys)
      then obtain q' where q': "deq q = (Some y, q')" "ok q'" "cap q' = cap q" "content q' = ys"
        using Cons.prems deq_law by blast
      then have "fifo_fits (cap q') (length (content q')) ops"
        using Cons.prems Deq Cons by simp
      from Cons.IH [OF q'(2) this] show ?thesis
        using q' Deq Cons by auto
    qed
  qed
qed

end

end
