(* ===== verification/Idpf_Refill.thy ===== *)
theory Idpf_Refill
  imports Idpf_Ring Idpf_Pool Idpf_Fifo "HOL-Library.Multiset"
begin

text \<open>
  The refill queue (\<open>struct idpf_sw_queue\<close>, \<open>idpf_txrx.h\<close>): a ring in memory through which one
  context of the driver hands buffer ids to another without a lock.  The producer
  (\<open>idpf_post_buf_refill\<close>, \<open>idpf_txrx.c\<close>) and the consumer (\<open>idpf_tx_get_free_buf_id\<close>,
  \<open>idpf_txrx.h\<close>) share no index; a slot carries the id and a generation bit, each side toggles its
  own copy of the bit when it wraps, and the consumer takes a slot whose bit equals its copy.

  The theory models the queue, shows that it is a FIFO of ids as long as the producer never posts
  more ids than there are slots, and that the set of ids of a transmit queue, which starts full,
  is a pool in the sense of \<open>Idpf_Pool\<close>.
\<close>

section \<open>Model\<close>

definition IDPF_RFL_BI_GEN_M :: u32 where
  "IDPF_RFL_BI_GEN_M = push_bit 16 1"

definition IDPF_RFL_BI_BUFID_M :: u32 where
  "IDPF_RFL_BI_BUFID_M = mask 16"

record idpf_sw_queue =
  rfl_ring :: "u32 list"
  rfl_GEN_CHK :: bool
  rfl_RFL_GEN_CHK :: bool
  rfl_desc_count :: nat
  rfl_next_to_use :: nat
  rfl_next_to_clean :: nat

text \<open>\<open>FIELD_PREP(BUFID, id) | FIELD_PREP(GEN, gen)\<close> and the two \<open>FIELD_GET\<close>s.\<close>

definition refill_desc :: "u16 \<Rightarrow> bool \<Rightarrow> u32" where
  "refill_desc buf_id gen =
     (ucast buf_id AND IDPF_RFL_BI_BUFID_M) OR (push_bit 16 (of_bool gen) AND IDPF_RFL_BI_GEN_M)"

definition refill_buf_id :: "u32 \<Rightarrow> u32" where
  "refill_buf_id d = d AND IDPF_RFL_BI_BUFID_M"

definition refill_gen :: "u32 \<Rightarrow> bool" where
  "refill_gen d = (d AND IDPF_RFL_BI_GEN_M \<noteq> 0)"

definition idpf_post_buf_refill :: "idpf_sw_queue \<Rightarrow> u16 \<Rightarrow> idpf_sw_queue" where
  "idpf_post_buf_refill q buf_id =
     (let nta = rfl_next_to_use q;
          q = q\<lparr>rfl_ring := (rfl_ring q)[nta := refill_desc buf_id (rfl_GEN_CHK q)]\<rparr>
      in if Suc nta = rfl_desc_count q
         then q\<lparr>rfl_GEN_CHK := \<not> rfl_GEN_CHK q, rfl_next_to_use := 0\<rparr>
         else q\<lparr>rfl_next_to_use := Suc nta\<rparr>)"

text \<open>The consumer's step over the slot it has taken, shared by both consumers.\<close>

definition refill_bump_ntc :: "idpf_sw_queue \<Rightarrow> idpf_sw_queue" where
  "refill_bump_ntc q =
     (let ntc = rfl_next_to_clean q
      in if Suc ntc = rfl_desc_count q
         then q\<lparr>rfl_RFL_GEN_CHK := \<not> rfl_RFL_GEN_CHK q, rfl_next_to_clean := 0\<rparr>
         else q\<lparr>rfl_next_to_clean := Suc ntc\<rparr>)"

definition idpf_tx_get_free_buf_id :: "idpf_sw_queue \<Rightarrow> u32 option \<times> idpf_sw_queue" where
  "idpf_tx_get_free_buf_id q =
     (let d = rfl_ring q ! rfl_next_to_clean q
      in if rfl_RFL_GEN_CHK q \<noteq> refill_gen d then (None, q)
         else (Some (refill_buf_id d), refill_bump_ntc q))"

text \<open>The sum is at most \<open>desc_count - 1\<close> and never below 0, so the \<open>u32\<close> arithmetic is exact.\<close>

definition idpf_tx_splitq_get_free_bufs :: "idpf_sw_queue \<Rightarrow> nat" where
  "idpf_tx_splitq_get_free_bufs q =
     (if rfl_next_to_use q > rfl_next_to_clean q then 0 else rfl_desc_count q)
       + rfl_next_to_use q - rfl_next_to_clean q - 1"

text \<open>
  A receive refill queue starts empty (\<open>idpf_rxq_group_alloc\<close>), a transmit one full
  (\<open>idpf_txq_group_alloc\<close> sets the bits, \<open>idpf_tx_desc_alloc\<close> fills the ring and flips the
  producer's bit).
\<close>

definition rx_refillq_init :: "nat \<Rightarrow> idpf_sw_queue" where
  "rx_refillq_init n = \<lparr>rfl_ring = replicate n 0, rfl_GEN_CHK = True, rfl_RFL_GEN_CHK = True,
     rfl_desc_count = n, rfl_next_to_use = 0, rfl_next_to_clean = 0\<rparr>"

definition tx_refillq_fill :: "idpf_sw_queue \<Rightarrow> nat \<Rightarrow> idpf_sw_queue" where
  "tx_refillq_fill q buf_pool_size =
     q\<lparr>rfl_desc_count := buf_pool_size,
       rfl_ring := map (\<lambda>i. refill_desc (of_nat i) (rfl_GEN_CHK q)) [0..<buf_pool_size],
       rfl_GEN_CHK := \<not> rfl_GEN_CHK q\<rparr>"

section \<open>Slots\<close>

lemma bit_gen_m: "bit IDPF_RFL_BI_GEN_M n \<longleftrightarrow> n = 16"
  unfolding IDPF_RFL_BI_GEN_M_def bit_push_bit_iff by (auto simp: bit_1_iff)

lemma bit_gen_field: "bit (push_bit 16 (of_bool g) :: u32) n \<longleftrightarrow> g \<and> n = 16"
  unfolding bit_push_bit_iff by (auto simp: bit_of_bool_iff)

lemma bit_bufid_m: "bit IDPF_RFL_BI_BUFID_M n \<longleftrightarrow> n < 16"
  by (auto simp: IDPF_RFL_BI_BUFID_M_def bit_mask_iff)

lemma bit_refill_desc: "bit (refill_desc i g) n \<longleftrightarrow> n < 16 \<and> bit i n \<or> g \<and> n = 16"
  by (auto simp: refill_desc_def bit_or_iff bit_and_iff bit_gen_m bit_gen_field bit_bufid_m bit_ucast_iff)

lemma refill_gen_bit: "refill_gen d \<longleftrightarrow> bit d 16"
proof -
  have b: "bit (d AND IDPF_RFL_BI_GEN_M) n \<longleftrightarrow> bit d 16 \<and> n = 16" for n
    by (auto simp: bit_and_iff bit_gen_m)
  then have "\<not> bit d 16 \<Longrightarrow> d AND IDPF_RFL_BI_GEN_M = 0"
    by (intro bit_word_eqI) simp
  then show ?thesis using b [of 16] by (auto simp: refill_gen_def)
qed

lemma refill_gen_desc [simp]: "refill_gen (refill_desc i g) = g"
  by (simp add: refill_gen_bit bit_refill_desc)

lemma refill_buf_id_desc [simp]: "refill_buf_id (refill_desc i g) = ucast i"
  by (rule bit_word_eqI)
    (auto simp: refill_buf_id_def bit_and_iff bit_refill_desc bit_bufid_m bit_ucast_iff
      dest: bit_imp_le_length)

lemma refill_gen_0 [simp]: "refill_gen 0 = False"
  by (simp add: refill_gen_def)

section \<open>The queue as a list\<close>

definition refill_used :: "idpf_sw_queue \<Rightarrow> nat" where
  "refill_used q = (if rfl_GEN_CHK q = rfl_RFL_GEN_CHK q then 0 else rfl_desc_count q)
     + rfl_next_to_use q - rfl_next_to_clean q"

definition refill_slots :: "idpf_sw_queue \<Rightarrow> nat list" where
  "refill_slots q = ring_seg (rfl_desc_count q) (rfl_next_to_clean q) (refill_used q)"

definition refill_ids :: "idpf_sw_queue \<Rightarrow> u32 list" where
  "refill_ids q = map (\<lambda>i. refill_buf_id (rfl_ring q ! i)) (refill_slots q)"

text \<open>
  The slots before the producer's index belong to its current lap, the others to the lap before;
  the consumer is in the producer's lap or in the one before.
\<close>

definition refill_ok :: "idpf_sw_queue \<Rightarrow> bool" where
  "refill_ok q \<longleftrightarrow>
     length (rfl_ring q) = rfl_desc_count q \<and>
     rfl_next_to_use q < rfl_desc_count q \<and> rfl_next_to_clean q < rfl_desc_count q \<and>
     (if rfl_GEN_CHK q = rfl_RFL_GEN_CHK q then rfl_next_to_clean q \<le> rfl_next_to_use q
      else rfl_next_to_use q \<le> rfl_next_to_clean q) \<and>
     (\<forall>i<rfl_desc_count q. refill_gen (rfl_ring q ! i) =
        (if i < rfl_next_to_use q then rfl_GEN_CHK q else \<not> rfl_GEN_CHK q))"

lemma refill_used_le: "refill_ok q \<Longrightarrow> refill_used q \<le> rfl_desc_count q"
  by (auto simp: refill_ok_def refill_used_def split: if_splits)

lemma length_refill_ids [simp]: "length (refill_ids q) = refill_used q"
  by (simp add: refill_ids_def refill_slots_def)

lemma refill_ids_Nil: "refill_ids q = [] \<longleftrightarrow> refill_used q = 0"
  by (metis length_0_conv length_refill_ids)

lemma refill_next_slot:
  "refill_ok q \<Longrightarrow>
     (rfl_next_to_clean q + refill_used q) mod rfl_desc_count q = rfl_next_to_use q"
  by (auto simp: refill_ok_def refill_used_def split: if_splits)

lemma refill_gen_clean:
  "refill_ok q \<Longrightarrow>
     refill_gen (rfl_ring q ! rfl_next_to_clean q) = rfl_RFL_GEN_CHK q \<longleftrightarrow> refill_used q \<noteq> 0"
  by (auto simp: refill_ok_def refill_used_def split: if_splits)

section \<open>Posting\<close>

lemma idpf_post_buf_refill_fields [simp]:
  "rfl_desc_count (idpf_post_buf_refill q i) = rfl_desc_count q"
  "rfl_next_to_clean (idpf_post_buf_refill q i) = rfl_next_to_clean q"
  "rfl_RFL_GEN_CHK (idpf_post_buf_refill q i) = rfl_RFL_GEN_CHK q"
  "rfl_ring (idpf_post_buf_refill q i) =
     (rfl_ring q)[rfl_next_to_use q := refill_desc i (rfl_GEN_CHK q)]"
  by (simp_all add: idpf_post_buf_refill_def Let_def)

lemma refill_used_post:
  "refill_ok q \<Longrightarrow> refill_used q < rfl_desc_count q \<Longrightarrow>
     refill_used (idpf_post_buf_refill q i) = Suc (refill_used q)"
  by (auto simp: refill_ok_def refill_used_def idpf_post_buf_refill_def Let_def split: if_splits)

lemma refill_ok_post:
  assumes "refill_ok q" and "refill_used q < rfl_desc_count q"
  shows "refill_ok (idpf_post_buf_refill q i)"
  using assms
  by (auto simp: refill_ok_def refill_used_def idpf_post_buf_refill_def Let_def nth_list_update
      split: if_splits)

lemma refill_use_notin_slots:
  assumes "refill_ok q" and "refill_used q < rfl_desc_count q"
  shows "rfl_next_to_use q \<notin> set (refill_slots q)"
proof -
  have "rfl_next_to_clean q < rfl_desc_count q" "rfl_next_to_use q < rfl_desc_count q"
    using assms by (auto simp: refill_ok_def)
  moreover have "ring_dist (rfl_desc_count q) (rfl_next_to_clean q) (rfl_next_to_use q) = refill_used q"
    using assms by (auto simp: refill_ok_def refill_used_def ring_dist_def split: if_splits)
  ultimately show ?thesis
    using assms by (simp add: refill_slots_def in_ring_seg_iff)
qed

lemma refill_ids_post:
  assumes "refill_ok q" and "refill_used q < rfl_desc_count q"
  shows "refill_ids (idpf_post_buf_refill q i) = refill_ids q @ [ucast i]"
proof -
  have "length (rfl_ring q) = rfl_desc_count q" "rfl_next_to_use q < rfl_desc_count q"
    using assms by (auto simp: refill_ok_def)
  moreover have "refill_slots (idpf_post_buf_refill q i) = refill_slots q @ [rfl_next_to_use q]"
    using assms
    by (simp add: refill_slots_def refill_used_post ring_seg_snoc refill_next_slot)
  ultimately show ?thesis
    using refill_use_notin_slots [OF assms]
    by (auto simp: refill_ids_def nth_list_update)
qed

section \<open>Taking\<close>

lemma refill_bump_fields [simp]:
  "rfl_desc_count (refill_bump_ntc q) = rfl_desc_count q"
  "rfl_next_to_use (refill_bump_ntc q) = rfl_next_to_use q"
  "rfl_GEN_CHK (refill_bump_ntc q) = rfl_GEN_CHK q"
  "rfl_ring (refill_bump_ntc q) = rfl_ring q"
  by (simp_all add: refill_bump_ntc_def Let_def)

lemma refill_bump:
  assumes "refill_ok q" and "refill_used q \<noteq> 0"
  shows "refill_ok (refill_bump_ntc q)" "refill_used (refill_bump_ntc q) = refill_used q - 1"
    "rfl_next_to_clean (refill_bump_ntc q) = Suc (rfl_next_to_clean q) mod rfl_desc_count q"
  using assms
  by (auto simp: refill_ok_def refill_used_def refill_bump_ntc_def Let_def split: if_splits)

lemma refill_ids_bump:
  assumes "refill_ok q" and "refill_used q \<noteq> 0"
  shows "refill_ids q =
     refill_buf_id (rfl_ring q ! rfl_next_to_clean q) # refill_ids (refill_bump_ntc q)"
proof -
  obtain k where k: "refill_used q = Suc k" using assms(2) not0_implies_Suc by blast
  then have "refill_slots q = rfl_next_to_clean q # refill_slots (refill_bump_ntc q)"
    using assms refill_bump [OF assms]
    by (simp add: refill_slots_def ring_seg_Cons refill_ok_def)
  then show ?thesis by (simp add: refill_ids_def)
qed

lemma idpf_tx_get_free_buf_id_eq:
  assumes "refill_ok q"
  shows "idpf_tx_get_free_buf_id q =
    (case refill_ids q of [] \<Rightarrow> (None, q) | x # xs \<Rightarrow> (Some x, refill_bump_ntc q))"
proof (cases "refill_used q = 0")
  case True
  then show ?thesis
    using assms refill_gen_clean [OF assms] refill_ids_Nil [of q]
    by (auto simp: idpf_tx_get_free_buf_id_def Let_def)
next
  case False
  then show ?thesis
    using assms refill_gen_clean [OF assms] refill_ids_bump [OF assms False]
    by (auto simp: idpf_tx_get_free_buf_id_def Let_def)
qed

lemma idpf_tx_get_free_buf_id_Nil:
  "refill_ok q \<Longrightarrow> refill_ids q = [] \<Longrightarrow> idpf_tx_get_free_buf_id q = (None, q)"
  by (simp add: idpf_tx_get_free_buf_id_eq)

lemma idpf_tx_get_free_buf_id_Cons:
  assumes "refill_ok q" and "refill_ids q = x # xs"
  shows "idpf_tx_get_free_buf_id q = (Some x, refill_bump_ntc q)"
    "refill_ok (refill_bump_ntc q)" "refill_ids (refill_bump_ntc q) = xs"
proof -
  have "refill_used q \<noteq> 0" using assms(2) refill_ids_Nil [of q] by auto
  then show "idpf_tx_get_free_buf_id q = (Some x, refill_bump_ntc q)"
    "refill_ok (refill_bump_ntc q)" "refill_ids (refill_bump_ntc q) = xs"
    using assms refill_bump(1) [of q] refill_ids_bump [of q]
    by (auto simp: idpf_tx_get_free_buf_id_eq)
qed

interpretation refill: bounded_fifo refill_ok rfl_desc_count refill_ids ucast
  idpf_post_buf_refill idpf_tx_get_free_buf_id
proof unfold_locales
  show "refill_ok (idpf_post_buf_refill q x) \<and>
      rfl_desc_count (idpf_post_buf_refill q x) = rfl_desc_count q \<and>
      refill_ids (idpf_post_buf_refill q x) = refill_ids q @ [ucast x]"
    if "refill_ok q" "length (refill_ids q) < rfl_desc_count q" for q x
    using that by (simp add: refill_ok_post refill_ids_post)
  show "idpf_tx_get_free_buf_id q = (None, q)" if "refill_ok q" "refill_ids q = []" for q
    using that by (rule idpf_tx_get_free_buf_id_Nil)
  show "\<exists>q'. idpf_tx_get_free_buf_id q = (Some y, q') \<and> refill_ok q' \<and>
      rfl_desc_count q' = rfl_desc_count q \<and> refill_ids q' = ys"
    if "refill_ok q" "refill_ids q = y # ys" for q y ys
    using idpf_tx_get_free_buf_id_Cons [OF that] by simp
qed

section \<open>Initial states and the free count\<close>

lemma rx_refillq_init_ok: "0 < n \<Longrightarrow> refill_ok (rx_refillq_init n) \<and> refill_ids (rx_refillq_init n) = []"
  by (simp add: rx_refillq_init_def refill_ok_def refill_ids_Nil refill_used_def)

text \<open>The queue as \<open>idpf_txq_group_alloc\<close> leaves it: zeroed but for the two bits.\<close>

lemma tx_refillq_fill_ok:
  assumes "0 < n" and "n \<le> 65536"
  shows "refill_ok (tx_refillq_fill (rx_refillq_init m) n)"
    "refill_ids (tx_refillq_fill (rx_refillq_init m) n) = map of_nat [0..<n]"
proof -
  have id: "(ucast (word_of_nat i :: u16) :: u32) = word_of_nat i" if "i < n" for i
    using that assms(2) by (simp add: unsigned_of_nat take_bit_nat_eq_self)
  show "refill_ok (tx_refillq_fill (rx_refillq_init m) n)"
    using assms by (simp add: rx_refillq_init_def tx_refillq_fill_def refill_ok_def)
  show "refill_ids (tx_refillq_fill (rx_refillq_init m) n) = map of_nat [0..<n]"
    using assms id
    by (simp add: rx_refillq_init_def tx_refillq_fill_def refill_ids_def refill_slots_def
        refill_used_def ring_seg_def)
qed

text \<open>
  The count the transmit path checks is one less than the ids there are, except that an empty
  queue looks like one with all ids but one.
\<close>

lemma idpf_tx_splitq_get_free_bufs_eq:
  "refill_ok q \<Longrightarrow> idpf_tx_splitq_get_free_bufs q =
     (if refill_ids q = [] then rfl_desc_count q - 1 else length (refill_ids q) - 1)"
  by (auto simp: refill_ids_Nil idpf_tx_splitq_get_free_bufs_def refill_ok_def refill_used_def
      split: if_splits)

section \<open>Taking back\<close>

text \<open>
  When a packet cannot be sent its ids are given back by restoring the consumer's side
  (\<open>idpf_tx_splitq_pkt_err_unmap\<close>, \<open>idpf_tx_splitq_frame\<close>).
\<close>

definition refill_rollback :: "bool \<Rightarrow> nat \<Rightarrow> idpf_sw_queue \<Rightarrow> idpf_sw_queue" where
  "refill_rollback prev_refill_gen prev_refill_ntc q =
     (let q = (if prev_refill_gen \<noteq> rfl_RFL_GEN_CHK q
               then q\<lparr>rfl_RFL_GEN_CHK := \<not> rfl_RFL_GEN_CHK q\<rparr> else q)
      in q\<lparr>rfl_next_to_clean := prev_refill_ntc\<rparr>)"

lemma refill_rollback_eq:
  "refill_rollback g c q = q\<lparr>rfl_RFL_GEN_CHK := g, rfl_next_to_clean := c\<rparr>"
  by (auto simp: refill_rollback_def Let_def)

lemma refill_rollback_post:
  "refill_rollback g c (idpf_post_buf_refill q i) = idpf_post_buf_refill (refill_rollback g c q) i"
  by (simp add: refill_rollback_eq idpf_post_buf_refill_def Let_def)

lemma refill_rollback_bump: "refill_rollback g c (refill_bump_ntc q) = refill_rollback g c q"
  by (simp add: refill_rollback_eq refill_bump_ntc_def Let_def)

lemma refill_rollback_self:
  "refill_rollback (rfl_RFL_GEN_CHK q) (rfl_next_to_clean q) q = q"
  by (simp add: refill_rollback_eq)

lemma refill_rollback_count [simp]: "rfl_desc_count (refill_rollback g c q) = rfl_desc_count q"
  by (simp add: refill_rollback_eq)

end
