(* ===== verification/Idpf_Refill_Results.thy ===== *)
theory Idpf_Refill_Results
  imports Idpf_Refill
begin

text \<open>
  What users of the refill queue rely on: it is a FIFO, and the ids of a transmit queue are never
  lost nor handed out twice, whatever the interleaving of the transmit path, which takes ids and
  may give a packet's ids back, with the completion path, which posts the ids of sent packets.
\<close>

text \<open>
  C27. A refill queue refines a FIFO list of buffer ids: a sequence of \<open>idpf_post_buf_refill\<close> and
  \<open>idpf_tx_get_free_buf_id\<close> that never posts to a queue whose every slot holds an id returns, call
  by call, what the same sequence on the list of ids returns, and leaves the queue holding the ids
  the list holds.
\<close>

theorem refill_queue_is_fifo:
  assumes "refill_ok q" and "fifo_fits (rfl_desc_count q) (length (refill_ids q)) ops"
  shows "\<exists>rs q'. fifo_run idpf_post_buf_refill idpf_tx_get_free_buf_id ops q = (rs, q') \<and> refill_ok q' \<and>
     fifo_run (list_enq ucast) list_deq ops (refill_ids q) = (rs, refill_ids q')"
  using assms by (rule refill.run_refines)

theorem refill_queue_is_fifo_witness:
  "fst (fifo_run idpf_post_buf_refill idpf_tx_get_free_buf_id
     [Enq 7, Enq 5, Deq, Enq 9, Deq, Deq, Deq] (rx_refillq_init 2)) = [Some 7, Some 5, Some 9, None]"
proof -
  let ?ops = "[Enq 7, Enq 5, Deq, Enq 9, Deq, Deq, Deq] :: u16 fifo_op list"
  let ?q = "rx_refillq_init 2"
  have q: "refill_ok ?q" "refill_ids ?q = []" "rfl_desc_count ?q = 2"
    using rx_refillq_init_ok [of 2] by (simp_all add: rx_refillq_init_def)
  then have fits: "fifo_fits (rfl_desc_count ?q) (length (refill_ids ?q)) ?ops"
    using length_refill_ids [of ?q] by simp
  obtain rs q' where r: "fifo_run idpf_post_buf_refill idpf_tx_get_free_buf_id ?ops ?q = (rs, q')"
    "fifo_run (list_enq ucast) list_deq ?ops (refill_ids ?q) = (rs, refill_ids q')"
    using refill_queue_is_fifo [OF q(1) fits] by blast
  then show ?thesis
    using q(2) by (simp add: list_enq_def)
qed

section \<open>Ids of a transmit queue\<close>

text \<open>
  The transmit path between two packets (\<open>tx_pkt = None\<close>) or building one: then it keeps the
  consumer's bit and index saved at the start of the packet and the ids taken for it.
  \<open>tx_sent\<close> are the ids of packets handed to the device.
\<close>

record tx_ids =
  tx_refillq :: idpf_sw_queue
  tx_pkt :: "(bool \<times> nat \<times> u32 list) option"
  tx_sent :: "u32 list"

definition tx_pkt_ids :: "tx_ids \<Rightarrow> u32 list" where
  "tx_pkt_ids s = (case tx_pkt s of None \<Rightarrow> [] | Some (_, _, ids) \<Rightarrow> ids)"

definition tx_ids_init :: "nat \<Rightarrow> tx_ids" where
  "tx_ids_init n = \<lparr>tx_refillq = tx_refillq_fill (rx_refillq_init 0) n, tx_pkt = None, tx_sent = []\<rparr>"

inductive tx_ids_step :: "tx_ids \<Rightarrow> tx_ids \<Rightarrow> bool" where
  start: "tx_pkt s = None \<Longrightarrow> tx_ids_step s
    (s\<lparr>tx_pkt := Some (rfl_RFL_GEN_CHK (tx_refillq s), rfl_next_to_clean (tx_refillq s), [])\<rparr>)"
| take: "tx_pkt s = Some (g, c, ids) \<Longrightarrow> idpf_tx_get_free_buf_id (tx_refillq s) = (Some i, q) \<Longrightarrow>
    tx_ids_step s (s\<lparr>tx_refillq := q, tx_pkt := Some (g, c, ids @ [i])\<rparr>)"
| send: "tx_pkt s = Some (g, c, ids) \<Longrightarrow>
    tx_ids_step s (s\<lparr>tx_pkt := None, tx_sent := tx_sent s @ ids\<rparr>)"
| abort: "tx_pkt s = Some (g, c, ids) \<Longrightarrow>
    tx_ids_step s (s\<lparr>tx_refillq := refill_rollback g c (tx_refillq s), tx_pkt := None\<rparr>)"
| complete: "i \<in> set (tx_sent s) \<Longrightarrow>
    tx_ids_step s (s\<lparr>tx_refillq := idpf_post_buf_refill (tx_refillq s) (ucast i),
                    tx_sent := remove1 i (tx_sent s)\<rparr>)"

inductive tx_ids_reach :: "nat \<Rightarrow> tx_ids \<Rightarrow> bool" for n where
  init: "tx_ids_reach n (tx_ids_init n)"
| step: "tx_ids_reach n s \<Longrightarrow> tx_ids_step s s' \<Longrightarrow> tx_ids_reach n s'"

text \<open>
  The invariant: no id is lost, and undoing the packet under construction gives a well-formed
  queue that starts with the packet's ids.
\<close>

definition tx_ids_back :: "tx_ids \<Rightarrow> idpf_sw_queue" where
  "tx_ids_back s = (case tx_pkt s of None \<Rightarrow> tx_refillq s
     | Some (g, c, ids) \<Rightarrow> refill_rollback g c (tx_refillq s))"

definition all_ids :: "nat \<Rightarrow> u32 list" where
  "all_ids n = map of_nat [0..<n]"

definition tx_ids_inv :: "nat \<Rightarrow> tx_ids \<Rightarrow> bool" where
  "tx_ids_inv n s \<longleftrightarrow> rfl_desc_count (tx_refillq s) = n \<and>
     refill_ok (tx_refillq s) \<and> refill_ok (tx_ids_back s) \<and>
     refill_ids (tx_ids_back s) = tx_pkt_ids s @ refill_ids (tx_refillq s) \<and>
     mset (tx_pkt_ids s) + mset (refill_ids (tx_refillq s)) + mset (tx_sent s) = mset (all_ids n)"

lemmas tx_ids_defs = tx_ids_inv_def tx_ids_back_def tx_pkt_ids_def

lemma all_ids_less: "n \<le> 65536 \<Longrightarrow> i \<in> set (all_ids n) \<Longrightarrow> unat i < 65536"
  by (auto simp: all_ids_def unat_of_nat take_bit_nat_eq_self_iff take_bit_nat_def)

lemma ucast_ucast_id: "unat (i::u32) < 65536 \<Longrightarrow> (ucast (ucast i :: u16) :: u32) = i"
  by (simp add: word_eq_iff_unsigned [where ?'a = nat] unsigned_ucast_eq unsigned_take_bit_eq
      take_bit_nat_eq_self)

lemma tx_ids_inv_init: "0 < n \<Longrightarrow> n \<le> 65536 \<Longrightarrow> tx_ids_inv n (tx_ids_init n)"
  using tx_refillq_fill_ok [of n 0]
  by (simp add: tx_ids_defs tx_ids_init_def all_ids_def tx_refillq_fill_def)

lemma tx_ids_inv_take:
  assumes inv: "tx_ids_inv n s" and pkt: "tx_pkt s = Some (g, c, ids)"
    and get: "idpf_tx_get_free_buf_id (tx_refillq s) = (Some i, q)"
  shows "tx_ids_inv n (s\<lparr>tx_refillq := q, tx_pkt := Some (g, c, ids @ [i])\<rparr>)"
proof -
  have ok: "refill_ok (tx_refillq s)" using inv by (simp add: tx_ids_inv_def)
  obtain xs where xs: "refill_ids (tx_refillq s) = i # xs" and q: "q = refill_bump_ntc (tx_refillq s)"
    using get by (auto simp: idpf_tx_get_free_buf_id_eq [OF ok] split: list.splits)
  show ?thesis
    using inv pkt idpf_tx_get_free_buf_id_Cons [OF ok xs] xs
    by (auto simp: tx_ids_defs q refill_rollback_bump)
qed

lemma tx_ids_inv_complete:
  assumes inv: "tx_ids_inv n s" and n: "n \<le> 65536" and i: "i \<in> set (tx_sent s)"
  shows "tx_ids_inv n (s\<lparr>tx_refillq := idpf_post_buf_refill (tx_refillq s) (ucast i),
                    tx_sent := remove1 i (tx_sent s)\<rparr>)"
proof -
  let ?s = "s\<lparr>tx_refillq := idpf_post_buf_refill (tx_refillq s) (ucast i), tx_sent := remove1 i (tx_sent s)\<rparr>"
  let ?b = "tx_ids_back s"
  have ms: "mset (refill_ids ?b @ tx_sent s) = mset (all_ids n)"
    using inv by (auto simp: tx_ids_inv_def ac_simps)
  have okb: "refill_ok ?b" and ok: "refill_ok (tx_refillq s)"
    and ids: "refill_ids ?b = tx_pkt_ids s @ refill_ids (tx_refillq s)"
    and cnt: "rfl_desc_count (tx_refillq s) = n"
    using inv by (auto simp: tx_ids_inv_def)
  have cntb: "rfl_desc_count ?b = n"
    using cnt by (auto simp: tx_ids_back_def split: option.splits)
  have "length (refill_ids ?b) + length (tx_sent s) = n"
    using arg_cong [OF ms, of size] by (simp add: all_ids_def)
  then have room: "refill_used ?b < n"
    using i by (cases "tx_sent s") auto
  then have room': "refill_used (tx_refillq s) < n"
    using arg_cong [OF ids, of length] by simp
  have ia: "i \<in> set (all_ids n)" using i mset_eq_setD [OF ms] by auto
  then have ii: "(ucast (ucast i :: u16) :: u32) = i"
    using n by (auto intro: ucast_ucast_id all_ids_less)
  have b: "tx_ids_back ?s = idpf_post_buf_refill ?b (ucast i)" "tx_pkt_ids ?s = tx_pkt_ids s"
    by (auto simp: tx_ids_back_def tx_pkt_ids_def refill_rollback_post split: option.splits)
  have "mset (tx_pkt_ids s) + mset (refill_ids (tx_refillq s) @ [i]) + mset (remove1 i (tx_sent s))
      = mset (all_ids n)"
    using ms ids i ia by (simp add: add.assoc)
  then show ?thesis
    using ok okb ids room room' cnt cntb ii
    by (simp add: tx_ids_inv_def b refill_ok_post refill_ids_post)
qed

lemma tx_ids_inv_step:
  assumes "tx_ids_step s s'" and "tx_ids_inv n s" and "n \<le> 65536"
  shows "tx_ids_inv n s'"
  using assms
proof (cases rule: tx_ids_step.cases)
  case start
  then show ?thesis using assms(2) by (simp add: tx_ids_defs refill_rollback_self)
next
  case (take g c ids i q)
  then show ?thesis using assms(2) tx_ids_inv_take by blast
next
  case (send g c ids)
  then show ?thesis using assms(2) by (simp add: tx_ids_defs ac_simps)
next
  case (abort g c ids)
  then show ?thesis using assms(2) by (simp add: tx_ids_defs)
next
  case (complete i)
  then show ?thesis using assms(2,3) tx_ids_inv_complete by blast
qed

lemma tx_ids_reach_inv: "tx_ids_reach n s \<Longrightarrow> 0 < n \<Longrightarrow> n \<le> 65536 \<Longrightarrow> tx_ids_inv n s"
  by (induction rule: tx_ids_reach.induct) (auto intro: tx_ids_inv_init tx_ids_inv_step)

lemma distinct_all_ids: "n \<le> 65536 \<Longrightarrow> distinct (all_ids n)"
  by (auto simp: all_ids_def distinct_map inj_on_def word_of_nat_eq_iff take_bit_nat_eq_self)

text \<open>
  C28. Whatever the interleaving of packets being built, sent and taken back with completions that
  post the ids of sent packets, every buffer id of the pool is at one place only: in the refill
  queue, in the packet being built, or with a packet in flight; none is lost and none is handed
  out twice. In particular taking a packet back restores the queue as if the packet had never been
  started, although completions may have posted ids meanwhile.
\<close>

theorem tx_ids_exclusive:
  assumes "tx_ids_reach n s" and "0 < n" and "n \<le> 65536"
  shows "distinct (refill_ids (tx_refillq s) @ tx_pkt_ids s @ tx_sent s) \<and>
    set (refill_ids (tx_refillq s) @ tx_pkt_ids s @ tx_sent s) = set (all_ids n) \<and>
    (\<forall>g c ids. tx_pkt s = Some (g, c, ids) \<longrightarrow>
       refill_ids (refill_rollback g c (tx_refillq s)) = ids @ refill_ids (tx_refillq s))"
proof -
  have inv: "tx_ids_inv n s" using assms by (rule tx_ids_reach_inv)
  then have ms: "mset (refill_ids (tx_refillq s) @ tx_pkt_ids s @ tx_sent s) = mset (all_ids n)"
    by (simp add: tx_ids_inv_def ac_simps)
  have "refill_ids (refill_rollback g c (tx_refillq s)) = ids @ refill_ids (tx_refillq s)"
    if "tx_pkt s = Some (g, c, ids)" for g c ids
    using inv that by (simp add: tx_ids_defs)
  then show ?thesis
    using distinct_all_ids [OF assms(3)] mset_eq_setD [OF ms] mset_eq_imp_distinct_iff [OF ms]
    by simp
qed

text \<open>A packet takes id 0 and is sent, a second takes id 1, id 0 completes, the second is taken back.\<close>

theorem tx_ids_exclusive_witness:
  "\<exists>s. tx_ids_reach 3 s \<and> tx_pkt s \<noteq> None \<and> set (refill_ids (tx_refillq s) @ tx_pkt_ids s @ tx_sent s) = {0, 1, 2}"
proof -
  define q0 where "q0 = tx_refillq_fill (rx_refillq_init 0) 3"
  define s1 where "s1 = (tx_ids_init 3)\<lparr>tx_pkt := Some (rfl_RFL_GEN_CHK q0, rfl_next_to_clean q0, [])\<rparr>"
  have init: "tx_refillq (tx_ids_init 3) = q0" "tx_pkt (tx_ids_init 3) = None"
    by (simp_all add: tx_ids_init_def q0_def)
  then have r1: "tx_ids_reach 3 s1"
    using tx_ids_reach.step [OF tx_ids_reach.init tx_ids_step.start, of 3] by (simp add: s1_def)
  have ids: "refill_ok q0" "refill_ids q0 = [0, 1, 2]"
    using tx_refillq_fill_ok [of 3 0] by (simp_all add: q0_def upt_rec)
  have g: "idpf_tx_get_free_buf_id (tx_refillq s1) = (Some 0, refill_bump_ntc q0)"
    using idpf_tx_get_free_buf_id_Cons [OF ids] init by (simp add: s1_def)
  define s2 where "s2 = s1\<lparr>tx_refillq := refill_bump_ntc q0, tx_pkt := Some (rfl_RFL_GEN_CHK q0, rfl_next_to_clean q0, [] @ [0])\<rparr>"
  have "tx_ids_step s1 s2"
    unfolding s2_def by (rule tx_ids_step.take [OF _ g]) (simp add: s1_def)
  with r1 have r2: "tx_ids_reach 3 s2" by (rule tx_ids_reach.step)
  moreover have "tx_pkt s2 \<noteq> None" by (simp add: s2_def)
  moreover have "set (all_ids 3) = {0, 1, 2}" by (simp add: all_ids_def upt_rec)
  ultimately show ?thesis using tx_ids_exclusive [OF r2] by auto
qed

end
