(* ===== verification/Idpf_Tx.thy ===== *)
theory Idpf_Tx
  imports Idpf_Refill
begin

text \<open>
  The transmit path of the split queue model (\<open>idpf_txrx.c\<close>, \<open>idpf_txrx.h\<close>, \<open>libeth_tx.h\<close>): from
  a packet of the network stack to descriptors, and the way back when a packet cannot be mapped.

  A queue is a record with its descriptor ring, its array of buffers (\<open>struct libeth_sqe\<close>), its
  refill queue (absent when the queue uses queue based scheduling) and a log of what the code asks
  of the kernel and the device: DMA mappings made and undone, packets consumed or freed, tail
  register writes.  The answers of the kernel to the calls of one transmission (DMA mappings,
  linearisation, time, timestamp slots) are the record \<open>tx_env\<close>.  A result \<open>None\<close> of a function
  stands for a call that does not return: a NULL pointer dereference or a buffer chain without end.
  Statistics counters are left out except those the code reads.  The packet's bytes are not kept,
  only the lengths and addresses the code computes with.
\<close>

section \<open>Buffers and packets\<close>

datatype libeth_sqe_type =
    LIBETH_SQE_EMPTY | LIBETH_SQE_CTX | LIBETH_SQE_SLAB | LIBETH_SQE_FRAG | LIBETH_SQE_SKB
  | LIBETH_SQE_XDP_TX | LIBETH_SQE_XDP_XMIT | LIBETH_SQE_XDP_XMIT_FRAG
  | LIBETH_SQE_XSK_TX | LIBETH_SQE_XSK_TX_FRAG
  | LIBETH_SQE_SKB_TSTAMP | LIBETH_SQE_MISS | LIBETH_SQE_REINJECT

record libeth_sqe =
  sqe_type :: libeth_sqe_type
  sqe_rs_idx :: nat
  sqe_skb :: ptr
  sqe_dma :: u64
  sqe_len :: nat
  sqe_nr_frags :: nat
  sqe_packets :: nat
  sqe_bytes :: nat
  sqe_next :: u32

definition IDPF_TXBUF_NULL :: u32 where
  "IDPF_TXBUF_NULL = - 1"

datatype gso_type = SKB_GSO_TCPV4 | SKB_GSO_TCPV6 | SKB_GSO_UDP_L4 | SKB_GSO_OTHER

record sk_buff =
  skb_ptr :: ptr
  skb_headlen :: nat
  skb_frags :: "nat list"
  skb_is_gso :: bool
  skb_gso_type :: gso_type
  skb_gso_size :: nat
  skb_gso_segs :: nat
  skb_transport_offset :: nat
  skb_tcp_hdrlen :: nat
  skb_vlan_tag :: "u16 option"
  skb_csum_partial :: bool
  skb_hw_tstamp :: bool
  skb_tstamp :: u64

definition skb_len :: "sk_buff \<Rightarrow> nat" where
  "skb_len skb = skb_headlen skb + sum_list (skb_frags skb)"

section \<open>Queues\<close>

text \<open>The second quad word of a descriptor, by the layout it was last written with.\<close>

datatype tx_qw1 =
    QW1_NONE
  | QW1_CTB u16 u16 u16
  | QW1_FLOW u8 u16 u16 "u8 \<times> u8 \<times> u8"
  | QW1_TSO u16 u32 u16 u8
  | QW1_VLAN u64
  | QW1_TSYN u16 u16 u16

record tx_slot =
  buf_addr :: u64
  tx_qw1 :: tx_qw1

datatype tx_event =
    DmaMap u64 nat | DmaUnmap u64 nat | SkbConsume ptr | SkbFree ptr | SlabFree ptr
  | TailWrite nat | BqlSent nat | BqlCompleted nat nat | TimestampRead ptr

text \<open>
  \<open>num_completions_pending\<close> is in the queue group, \<open>num_completions\<close> and the size in its
  completion queue; both counters are \<open>u32\<close> and wrap.
\<close>

record tx_compl =
  num_completions_pending :: u32
  num_completions :: u32
  complq_desc_count :: nat

record reinject_timer =
  rt_skb :: ptr
  rt_bytes :: nat
  rt_gso_segs :: nat

record idpf_txq =
  desc_count :: nat
  next_to_use :: nat
  next_to_clean :: nat
  tx_descs :: "tx_slot list"
  tx_bufs :: "libeth_sqe list"
  tx_refillq :: "idpf_sw_queue option"
  last_re :: nat
  FLOW_SCH_EN :: bool
  MISS_TAG_EN :: bool
  ETF_EN :: bool
  XDP :: bool
  SW_MARKER :: bool
  tx_max_bufs :: nat
  tx_stopped :: bool
  cleaned_pkts :: nat
  cleaned_bytes :: nat
  reinject_timers :: "nat \<rightharpoonup> ptr"
  timer_heap :: "ptr \<rightharpoonup> reinject_timer"
  timer_armed :: "ptr set"
  timer_bad :: bool
  tx_log :: "tx_event list"

definition tx_emit :: "tx_event \<Rightarrow> idpf_txq \<Rightarrow> idpf_txq" where
  "tx_emit e q = q\<lparr>tx_log := tx_log q @ [e]\<rparr>"

text \<open>Updates of one entry of the buffer array and of one slot of the ring.\<close>

definition tx_buf_upd :: "nat \<Rightarrow> (libeth_sqe \<Rightarrow> libeth_sqe) \<Rightarrow> idpf_txq \<Rightarrow> idpf_txq" where
  "tx_buf_upd b f q = q\<lparr>tx_bufs := (tx_bufs q)[b := f (tx_bufs q ! b)]\<rparr>"

definition tx_slot_upd :: "nat \<Rightarrow> (tx_slot \<Rightarrow> tx_slot) \<Rightarrow> idpf_txq \<Rightarrow> idpf_txq" where
  "tx_slot_upd i f q = q\<lparr>tx_descs := (tx_descs q)[i := f (tx_descs q ! i)]\<rparr>"

section \<open>Offloads and parameters of a packet\<close>

record idpf_tx_offload_params =
  off_tso :: bool
  off_tsyn :: bool
  off_tso_len :: nat
  off_mss :: nat
  off_tso_segs :: nat
  off_tso_hdr_len :: nat
  off_td_cmd :: u16
  off_desc_ts :: "u8 \<times> u8 \<times> u8"

record idpf_tx_splitq_params =
  p_dtype :: u16
  p_eop_cmd :: u16
  p_compl_tag :: u32
  p_offload :: idpf_tx_offload_params
  p_prev_ntu :: nat
  p_prev_refill_ntc :: nat
  p_prev_refill_gen :: bool

record tx_env =
  env_linearize :: bool
  env_cow_head :: "errno option"
  env_dma :: "nat \<Rightarrow> u64 option"
  env_request_ts :: "u32 option"
  env_xmit_more :: bool
  env_cur_time :: u64
  env_tw_horizon :: u64
  env_tw_gran :: nat

abbreviation IDPF_TX_DESC_DTYPE_FLEX_L2TAG1_L2TAG2 :: u16 where
  "IDPF_TX_DESC_DTYPE_FLEX_L2TAG1_L2TAG2 \<equiv> 7"

abbreviation IDPF_TX_DESC_DTYPE_FLEX_FLOW_SCHE :: u16 where
  "IDPF_TX_DESC_DTYPE_FLEX_FLOW_SCHE \<equiv> 12"

definition IDPF_TX_MAX_READ_REQ_SIZE :: nat where
  "IDPF_TX_MAX_READ_REQ_SIZE = 4096"

definition IDPF_TX_MAX_DESC_DATA :: nat where
  "IDPF_TX_MAX_DESC_DATA = 16384 - 1"

definition IDPF_TX_MAX_DESC_DATA_ALIGNED :: nat where
  "IDPF_TX_MAX_DESC_DATA_ALIGNED =
     IDPF_TX_MAX_DESC_DATA - IDPF_TX_MAX_DESC_DATA mod IDPF_TX_MAX_READ_REQ_SIZE"

section \<open>Completing a buffer\<close>

record napi_stats =
  ss_packets :: nat
  ss_bytes :: nat

definition libeth_tx_complete :: "nat \<Rightarrow> idpf_txq \<times> napi_stats \<Rightarrow> idpf_txq \<times> napi_stats" where
  "libeth_tx_complete b qs = (case qs of (q, ss) \<Rightarrow>
     let sqe = tx_bufs q ! b in
     if sqe_type sqe = LIBETH_SQE_EMPTY then (q, ss)
     else
       let q = (if sqe_type sqe \<in> {LIBETH_SQE_SKB, LIBETH_SQE_FRAG, LIBETH_SQE_SLAB}
                then tx_emit (DmaUnmap (sqe_dma sqe) (sqe_len sqe)) q else q);
           ss = (if sqe_type sqe = LIBETH_SQE_SKB
                 then ss\<lparr>ss_packets := ss_packets ss + sqe_packets sqe,
                         ss_bytes := ss_bytes ss + sqe_bytes sqe\<rparr> else ss);
           q = (if sqe_type sqe = LIBETH_SQE_SKB then tx_emit (SkbConsume (sqe_skb sqe)) q
                else if sqe_type sqe = LIBETH_SQE_SLAB then tx_emit (SlabFree (sqe_skb sqe)) q else q)
       in (tx_buf_upd b (sqe_type_update (\<lambda>_. LIBETH_SQE_EMPTY)) q, ss))"

section \<open>Room and resources\<close>

definition IDPF_DESC_UNUSED :: "idpf_txq \<Rightarrow> nat" where
  "IDPF_DESC_UNUSED q = (if next_to_clean q > next_to_use q then 0 else desc_count q)
     + next_to_clean q - next_to_use q - 1"

definition IDPF_TX_COMPLQ_OVERFLOW_THRESH :: "tx_compl \<Rightarrow> nat" where
  "IDPF_TX_COMPLQ_OVERFLOW_THRESH c = complq_desc_count c div 2"

definition IDPF_TX_COMPLQ_PENDING :: "tx_compl \<Rightarrow> u32" where
  "IDPF_TX_COMPLQ_PENDING c = num_completions_pending c - num_completions c"

definition idpf_txq_has_room :: "idpf_txq \<Rightarrow> tx_compl \<Rightarrow> nat \<Rightarrow> nat \<Rightarrow> bool option" where
  "idpf_txq_has_room q c descs_needed bufs_needed =
     (if IDPF_DESC_UNUSED q < descs_needed
        \<or> unat (IDPF_TX_COMPLQ_PENDING c) > IDPF_TX_COMPLQ_OVERFLOW_THRESH c then Some False
      else case tx_refillq q of None \<Rightarrow> None
        | Some r \<Rightarrow> Some (\<not> idpf_tx_splitq_get_free_bufs r < bufs_needed))"

text \<open>
  \<open>netif_subqueue_maybe_stop\<close> stops the queue when there is no room and looks once more; a
  completion that comes in between counts as one before the call.
\<close>

definition idpf_tx_maybe_stop_splitq ::
  "idpf_txq \<Rightarrow> tx_compl \<Rightarrow> nat \<Rightarrow> nat \<Rightarrow> (ret \<times> idpf_txq) option" where
  "idpf_tx_maybe_stop_splitq q c descs_needed bufs_needed =
     (case idpf_txq_has_room q c descs_needed bufs_needed of None \<Rightarrow> None
      | Some True \<Rightarrow> Some (ret_ok, q)
      | Some False \<Rightarrow> Some (Some EBUSY, q\<lparr>tx_stopped := True\<rparr>))"

definition idpf_size_to_txd_count :: "nat \<Rightarrow> nat" where
  "idpf_size_to_txd_count sz =
     (sz + IDPF_TX_MAX_DESC_DATA_ALIGNED - 1) div IDPF_TX_MAX_DESC_DATA_ALIGNED"

definition idpf_chk_linearize :: "sk_buff \<Rightarrow> nat \<Rightarrow> nat \<Rightarrow> bool" where
  "idpf_chk_linearize skb max_bufs cnt = (if cnt \<le> max_bufs then False else \<not> skb_is_gso skb)"

definition frag_txd_count :: "nat \<Rightarrow> nat" where
  "frag_txd_count sz = (if sz \<ge> 16384 then idpf_size_to_txd_count sz else 1)"

text \<open>Descriptors, buffers, and the packet, which may have been linearised; 0 descriptors: it failed.\<close>

definition idpf_tx_res_count_required :: "tx_env \<Rightarrow> idpf_txq \<Rightarrow> sk_buff \<Rightarrow> nat \<times> nat \<times> sk_buff" where
  "idpf_tx_res_count_required env q skb =
     (let cnt = of_bool (skb_headlen skb \<noteq> 0) in
      if sum_list (skb_frags skb) = 0 then (cnt, 1, skb)
      else
        let bufs = 1 + length (skb_frags skb);
            cnt = cnt + sum_list (map frag_txd_count (skb_frags skb)) in
        if idpf_chk_linearize skb (tx_max_bufs q) cnt
        then if \<not> env_linearize env then (0, bufs, skb)
             else (idpf_size_to_txd_count (skb_len skb), bufs,
                   skb\<lparr>skb_headlen := skb_len skb, skb_frags := []\<rparr>)
        else (cnt, bufs, skb))"

definition idpf_tx_splitq_bump_ntu :: "idpf_txq \<Rightarrow> nat \<Rightarrow> nat" where
  "idpf_tx_splitq_bump_ntu q ntu = (if Suc ntu = desc_count q then 0 else Suc ntu)"

definition idpf_tx_splitq_need_re :: "idpf_txq \<Rightarrow> bool" where
  "idpf_tx_splitq_need_re q =
     (let gap = int (next_to_use q) - int (last_re q);
          gap = gap + (if gap < 0 then int (desc_count q) else 0)
      in gap \<ge> 64)"

definition idpf_tx_buf_hw_update :: "idpf_txq \<Rightarrow> nat \<Rightarrow> bool \<Rightarrow> idpf_txq" where
  "idpf_tx_buf_hw_update q val xmit_more =
     (let q = q\<lparr>next_to_use := val\<rparr>
      in if tx_stopped q \<or> \<not> xmit_more then tx_emit (TailWrite val) q else q)"

section \<open>Descriptors\<close>

definition idpf_tx_splitq_build_ctb :: "nat \<Rightarrow> idpf_tx_splitq_params \<Rightarrow> u16 \<Rightarrow> nat \<Rightarrow> idpf_txq \<Rightarrow> idpf_txq" where
  "idpf_tx_splitq_build_ctb i params td_cmd sz =
     tx_slot_upd i (tx_qw1_update (\<lambda>_. QW1_CTB
       ((p_dtype params AND 31) OR (push_bit 5 td_cmd AND 65504)) (of_nat sz) (ucast (p_compl_tag params))))"

definition idpf_tx_splitq_build_flow_desc :: "nat \<Rightarrow> idpf_tx_splitq_params \<Rightarrow> u16 \<Rightarrow> nat \<Rightarrow> idpf_txq \<Rightarrow> idpf_txq" where
  "idpf_tx_splitq_build_flow_desc i params td_cmd sz =
     tx_slot_upd i (tx_qw1_update (\<lambda>_. QW1_FLOW
       (ucast (p_dtype params OR td_cmd)) (of_nat sz) (ucast (p_compl_tag params))
       (off_desc_ts (p_offload params))))"

definition idpf_tx_splitq_build_desc :: "nat \<Rightarrow> idpf_tx_splitq_params \<Rightarrow> u16 \<Rightarrow> nat \<Rightarrow> idpf_txq \<Rightarrow> idpf_txq" where
  "idpf_tx_splitq_build_desc i params td_cmd sz =
     (if p_dtype params = IDPF_TX_DESC_DTYPE_FLEX_L2TAG1_L2TAG2
      then idpf_tx_splitq_build_ctb i params td_cmd sz
      else idpf_tx_splitq_build_flow_desc i params td_cmd sz)"

section \<open>Undoing a packet\<close>

text \<open>
  The loop that completes the buffers after \<open>b\<close> along the chain; \<open>fuel\<close> is the number of
  buffers the chain may have.
\<close>

fun tx_complete_chain :: "nat \<Rightarrow> nat \<Rightarrow> idpf_txq \<times> napi_stats \<Rightarrow> (idpf_txq \<times> napi_stats) option" where
  "tx_complete_chain fuel b qs =
     (let nxt = sqe_next (tx_bufs (fst qs) ! b) in
      if nxt = IDPF_TXBUF_NULL then Some qs
      else case fuel of 0 \<Rightarrow> None
        | Suc fuel' \<Rightarrow> tx_complete_chain fuel' (unat nxt) (libeth_tx_complete (unat nxt) qs))"

declare tx_complete_chain.simps [simp del]

definition idpf_tx_splitq_pkt_err_unmap ::
  "idpf_txq \<Rightarrow> idpf_tx_splitq_params \<Rightarrow> nat \<Rightarrow> idpf_txq option" where
  "idpf_tx_splitq_pkt_err_unmap q params first =
     (let skb = sqe_skb (tx_bufs q ! first) in
      case tx_complete_chain (length (tx_bufs q)) first
             (libeth_tx_complete first (q, \<lparr>ss_packets = 0, ss_bytes = 0\<rparr>)) of
        None \<Rightarrow> None
      | Some (q, _) \<Rightarrow>
          let q = tx_emit (SkbFree skb) (tx_buf_upd first (sqe_skb_update (\<lambda>_. NULL)) q);
              q = idpf_tx_buf_hw_update q (p_prev_ntu params) False
          in Some (case tx_refillq q of None \<Rightarrow> q
             | Some r \<Rightarrow> q\<lparr>tx_refillq :=
                 Some (refill_rollback (p_prev_refill_gen params) (p_prev_refill_ntc params) r)\<rparr>))"

section \<open>Mapping a packet\<close>

text \<open>
  The inner loop of \<open>idpf_tx_splitq_map\<close>.  \<open>max_data\<close> is kept as its excess over the aligned size:
  what the first chunk of a fragment has more, and 0 from then on.
\<close>

function (sequential) tx_split :: "idpf_tx_splitq_params \<Rightarrow> u16 \<Rightarrow> nat \<Rightarrow> u64 \<Rightarrow> nat \<Rightarrow> nat \<Rightarrow> idpf_txq
    \<Rightarrow> nat \<times> nat \<times> idpf_txq" where
  "tx_split params td_cmd i dma sz excess q =
     (if sz > IDPF_TX_MAX_DESC_DATA then
        let max_data = IDPF_TX_MAX_DESC_DATA_ALIGNED + excess;
            q = idpf_tx_splitq_build_desc i params td_cmd max_data q;
            i = idpf_tx_splitq_bump_ntu q i;
            dma = dma + of_nat max_data;
            sz = sz - max_data;
            q = tx_slot_upd i (buf_addr_update (\<lambda>_. dma)) q
        in tx_split params td_cmd i dma sz 0 q
      else (i, sz, q))"
  by pat_completeness auto

termination
  by (relation "measure (\<lambda>(params, td_cmd, i, dma, sz, excess, q). sz)")
    (auto simp: IDPF_TX_MAX_DESC_DATA_def IDPF_TX_MAX_DESC_DATA_ALIGNED_def IDPF_TX_MAX_READ_REQ_SIZE_def)

declare tx_split.simps [simp del]

definition tx_first_excess :: "u64 \<Rightarrow> nat" where
  "tx_first_excess dma = unat (- dma AND of_nat (IDPF_TX_MAX_READ_REQ_SIZE - 1))"

text \<open>The end of \<open>idpf_tx_splitq_map\<close>: the last descriptor, the accounting, the tail.\<close>

definition tx_map_finish ::
  "tx_env \<Rightarrow> idpf_tx_splitq_params \<Rightarrow> nat \<Rightarrow> nat \<Rightarrow> nat \<Rightarrow> nat \<Rightarrow> idpf_txq \<times> tx_compl \<Rightarrow> idpf_txq \<times> tx_compl" where
  "tx_map_finish env params first b i sz qc = (case qc of (q, c) \<Rightarrow>
     let q = tx_buf_upd first (\<lambda>s. s\<lparr>sqe_type :=
               if off_tsyn (p_offload params) then LIBETH_SQE_SKB_TSTAMP else LIBETH_SQE_SKB,
               sqe_rs_idx := i\<rparr>) q;
         q = tx_buf_upd b (sqe_next_update (\<lambda>_. IDPF_TXBUF_NULL)) q;
         q = idpf_tx_splitq_build_desc i params (off_td_cmd (p_offload params) OR p_eop_cmd params) sz q;
         i = idpf_tx_splitq_bump_ntu q i;
         c = c\<lparr>num_completions_pending := num_completions_pending c + 1\<rparr>;
         q = tx_emit (BqlSent (sqe_bytes (tx_bufs q ! first))) q
     in (idpf_tx_buf_hw_update q i (env_xmit_more env), c))"

text \<open>One buffer of the packet: the head or fragment number \<open>k\<close> gets its buffer and descriptors.\<close>

definition tx_map_buf ::
  "idpf_tx_splitq_params \<Rightarrow> nat \<Rightarrow> nat \<Rightarrow> nat \<Rightarrow> u64 \<Rightarrow> nat \<Rightarrow> idpf_txq \<Rightarrow> nat \<times> nat \<times> idpf_txq" where
  "tx_map_buf params first b i dma sz q =
     (let q = tx_emit (DmaMap dma sz) q;
          q = tx_buf_upd first (sqe_nr_frags_update Suc) q;
          q = tx_buf_upd b (\<lambda>s. s\<lparr>sqe_type := LIBETH_SQE_FRAG, sqe_len := sz, sqe_dma := dma\<rparr>) q;
          q = tx_slot_upd i (buf_addr_update (\<lambda>_. dma)) q
      in tx_split params (off_td_cmd (p_offload params)) i dma sz (tx_first_excess dma) q)"

text \<open>The id of the next buffer and the queue after taking it.\<close>

definition tx_next_buf :: "nat \<Rightarrow> idpf_txq \<Rightarrow> (u32 option \<times> idpf_txq) option" where
  "tx_next_buf i q =
     (if FLOW_SCH_EN q then
        (case tx_refillq q of None \<Rightarrow> None
         | Some r \<Rightarrow> case idpf_tx_get_free_buf_id r of (nid, r') \<Rightarrow> Some (nid, q\<lparr>tx_refillq := Some r'\<rparr>))
      else Some (Some (of_nat i), q))"

fun tx_map_loop ::
  "tx_env \<Rightarrow> idpf_tx_splitq_params \<Rightarrow> nat \<Rightarrow> nat \<Rightarrow> nat \<Rightarrow> nat \<Rightarrow> nat \<Rightarrow> nat list
    \<Rightarrow> idpf_txq \<times> tx_compl \<Rightarrow> (idpf_txq \<times> tx_compl) option" where
  "tx_map_loop env params first k b i sz frags (q, c) =
     (case env_dma env k of
        None \<Rightarrow> map_option (\<lambda>q. (q, c)) (idpf_tx_splitq_pkt_err_unmap
                  (tx_buf_upd b (sqe_next_update (\<lambda>_. IDPF_TXBUF_NULL)) q) params first)
      | Some dma \<Rightarrow>
          (case tx_map_buf params first b i dma sz q of (i, sz, q) \<Rightarrow>
             (case frags of
                [] \<Rightarrow> Some (tx_map_finish env params first b i sz (q, c))
              | f # fs \<Rightarrow>
                  if sum_list frags = 0 then Some (tx_map_finish env params first b i sz (q, c))
                  else
                    let q = idpf_tx_splitq_build_desc i params (off_td_cmd (p_offload params)) sz q;
                        i = idpf_tx_splitq_bump_ntu q i
                    in case tx_next_buf i q of None \<Rightarrow> None
                     | Some (None, q) \<Rightarrow> map_option (\<lambda>q. (q, c)) (idpf_tx_splitq_pkt_err_unmap
                          (tx_buf_upd b (sqe_next_update (\<lambda>_. IDPF_TXBUF_NULL)) q) params first)
                     | Some (Some nid, q) \<Rightarrow>
                         tx_map_loop env params first (Suc k) (unat nid) i f fs
                           (tx_buf_upd b (sqe_next_update (\<lambda>_. nid)) q, c))))"

declare tx_map_loop.simps [simp del]

definition idpf_tx_splitq_map ::
  "tx_env \<Rightarrow> idpf_tx_splitq_params \<Rightarrow> sk_buff \<Rightarrow> nat \<Rightarrow> idpf_txq \<times> tx_compl \<Rightarrow> (idpf_txq \<times> tx_compl) option" where
  "idpf_tx_splitq_map env params skb first qc = (case qc of (q, c) \<Rightarrow>
     tx_map_loop env params first 0 first (next_to_use q) (skb_headlen skb) (skb_frags skb)
       (tx_buf_upd first (sqe_nr_frags_update (\<lambda>_. 0)) q, c))"

end
