(* ===== verification/Idpf_Tx_Split.thy ===== *)
theory Idpf_Tx_Split
  imports Idpf_Tx
begin

text \<open>
  The descriptors of a packet: a reference definition of how a mapped region is cut into chunks,
  what the device requires of the chunks, and that \<open>idpf_tx_splitq_map\<close> writes exactly the chunks
  of the packet's regions into consecutive slots of the ring.
\<close>

section \<open>Chunks of a region\<close>

lemma tx_max_desc_data: "IDPF_TX_MAX_DESC_DATA = 16383" "IDPF_TX_MAX_DESC_DATA_ALIGNED = 12288"
  by (simp_all add: IDPF_TX_MAX_DESC_DATA_def IDPF_TX_MAX_DESC_DATA_ALIGNED_def
      IDPF_TX_MAX_READ_REQ_SIZE_def)

function (sequential) tx_chunks :: "u64 \<Rightarrow> nat \<Rightarrow> nat \<Rightarrow> (u64 \<times> nat) list" where
  "tx_chunks dma sz excess =
     (if sz > 16383
      then (dma, 12288 + excess) # tx_chunks (dma + of_nat (12288 + excess)) (sz - (12288 + excess)) 0
      else [(dma, sz)])"
  by pat_completeness auto

termination
  by (relation "measure (\<lambda>(dma, sz, excess). sz)") auto

declare tx_chunks.simps [simp del]

lemma tx_chunks_small: "sz \<le> 16383 \<Longrightarrow> tx_chunks dma sz ex = [(dma, sz)]"
  by (simp add: tx_chunks.simps)

lemma tx_chunks_big: "sz > 16383 \<Longrightarrow> tx_chunks dma sz ex =
    (dma, 12288 + ex) # tx_chunks (dma + of_nat (12288 + ex)) (sz - (12288 + ex)) 0"
  by (subst tx_chunks.simps) simp

lemma tx_chunks_not_Nil [simp]: "tx_chunks dma sz ex \<noteq> []"
  by (subst tx_chunks.simps) simp

lemma tx_chunks_sum: "ex \<le> 4095 \<Longrightarrow> sum_list (map snd (tx_chunks dma sz ex)) = sz"
  by (induction dma sz ex rule: tx_chunks.induct) (auto simp: tx_chunks.simps)

lemma tx_chunks_le: "ex \<le> 4095 \<Longrightarrow> x \<in> set (tx_chunks dma sz ex) \<Longrightarrow> snd x \<le> 16383"
proof (induction dma sz ex rule: tx_chunks.induct)
  case (1 dma sz excess)
  then show ?case
    by (cases "sz > 16383") (auto simp: tx_chunks_small tx_chunks_big)
qed

text \<open>Chunks follow each other in memory without a gap.\<close>

fun contiguous :: "u64 \<Rightarrow> (u64 \<times> nat) list \<Rightarrow> bool" where
  "contiguous a [] = True"
| "contiguous a ((b, s) # xs) = (b = a \<and> contiguous (a + of_nat s) xs)"

lemma tx_chunks_contiguous: "contiguous dma (tx_chunks dma sz ex)"
  by (induction dma sz ex rule: tx_chunks.induct) (subst tx_chunks.simps, auto)

lemma unat_and_4095: "unat (x AND 4095 :: u64) = unat x mod 4096"
proof -
  have "x AND 4095 = take_bit 12 x" by (simp add: take_bit_eq_mask mask_eq_decr_exp)
  then have "unat (x AND 4095) = take_bit 12 (unat x)" by (simp only: unsigned_take_bit_eq)
  then show ?thesis by (simp add: take_bit_eq_mod)
qed

lemma unat_minus_4096: "unat (- x :: u64) mod 4096 = (18446744073709551616 - unat x) mod 4096"
  using unat_sub_if' [of 0 x] by (cases "x = 0") (auto simp: unat_eq_zero)

lemma tx_first_excess_eq: "tx_first_excess dma = unat (- dma) mod 4096"
  by (simp add: tx_first_excess_def IDPF_TX_MAX_READ_REQ_SIZE_def unat_and_4095)

lemma tx_first_excess_le: "tx_first_excess dma \<le> 4095"
  by (simp add: tx_first_excess_eq)

lemma dvd_4096_add: "4096 dvd unat (a + of_nat k :: u64) \<longleftrightarrow> 4096 dvd unat a + k"
proof -
  have d: "(4096::nat) dvd 2 ^ LENGTH(64)" by simp
  have "of_nat (unat a + k) = a + (of_nat k :: u64)" by simp
  then have "unat (a + of_nat k) = (unat a + k) mod 2 ^ LENGTH(64)"
    by (metis unat_of_nat)
  then show ?thesis using d by (simp only: dvd_mod_iff)
qed

text \<open>The first chunk of a region that has several ends at a multiple of 4096.\<close>

lemma tx_first_chunk_aligned: "4096 dvd unat (dma + of_nat (12288 + tx_first_excess dma))"
proof -
  let ?m = "18446744073709551616 - unat dma"
  have "unat dma < 18446744073709551616" using unsigned_less [of dma] by simp
  then have s: "unat dma + 12288 + ?m = 4096 * 4503599627370499" by simp
  have "(unat dma + (12288 + tx_first_excess dma)) mod 4096 = (unat dma + 12288 + ?m mod 4096) mod 4096"
    by (simp only: tx_first_excess_eq unat_minus_4096 add.assoc)
  also have "\<dots> = (unat dma + 12288 + ?m) mod 4096"
    by (rule mod_add_right_eq)
  also have "\<dots> = 0" unfolding s by (rule mod_mult_self1_is_0)
  finally have "4096 dvd unat dma + (12288 + tx_first_excess dma)"
    by (simp only: dvd_eq_mod_eq_0)
  then show ?thesis by (simp only: dvd_4096_add)
qed

lemma tx_chunks_aligned:
  "4096 dvd unat dma \<Longrightarrow> x \<in> set (tx_chunks dma sz 0) \<Longrightarrow> 4096 dvd unat (fst x)"
proof (induction dma sz "0::nat" rule: tx_chunks.induct)
  case (1 dma sz)
  have "4096 dvd unat dma + 12288" using 1(2) by simp
  then show ?case
    using 1 dvd_4096_add [of dma 12288]
    by (cases "sz > 16383") (auto simp: tx_chunks_small tx_chunks_big)
qed

lemma tx_chunks_tl_aligned:
  "x \<in> set (tl (tx_chunks dma sz (tx_first_excess dma))) \<Longrightarrow> 4096 dvd unat (fst x)"
  using tx_chunks_aligned [OF tx_first_chunk_aligned, of x dma "sz - (12288 + tx_first_excess dma)"]
  by (cases "sz > 16383") (auto simp: tx_chunks_small tx_chunks_big)

text \<open>
  What the device wants, without reference to the code: a region of more than 16383 bytes is cut at
  the first multiple of 4096 that leaves at least 12288 bytes in the chunk, and so is the rest.
\<close>

definition cut_len :: "u64 \<Rightarrow> nat" where
  "cut_len a = 12288 + (4096 - unat a mod 4096) mod 4096"

function (sequential) cut_region :: "u64 \<Rightarrow> nat \<Rightarrow> (u64 \<times> nat) list" where
  "cut_region a sz =
     (if sz > 16383 then (a, cut_len a) # cut_region (a + of_nat (cut_len a)) (sz - cut_len a) else [(a, sz)])"
  by pat_completeness auto

termination
  by (relation "measure (\<lambda>(a, sz). sz)") (auto simp: cut_len_def)

declare cut_region.simps [simp del]

lemma tx_first_excess_cut: "12288 + tx_first_excess a = cut_len a"
proof -
  have u: "unat a < 18446744073709551616" using unsigned_less [of a] by simp
  then have q: "unat a div 4096 \<le> 4503599627370495" by simp
  have "4096 * (unat a div 4096) + unat a mod 4096 = unat a" "unat a mod 4096 < 4096" by simp_all
  then have "18446744073709551616 - unat a = 4096 * (4503599627370495 - unat a div 4096) + (4096 - unat a mod 4096)"
    using q by linarith
  then have "(18446744073709551616 - unat a) mod 4096 = (4096 - unat a mod 4096) mod 4096"
    by (simp only: mod_mult_self4)
  then show ?thesis by (simp add: cut_len_def tx_first_excess_eq unat_minus_4096)
qed

lemma cut_len_aligned: "4096 dvd unat (a + of_nat (cut_len a))"
  using tx_first_chunk_aligned [of a] by (simp only: tx_first_excess_cut)

lemma tx_first_excess_aligned: "4096 dvd unat a \<Longrightarrow> tx_first_excess a = 0"
  using tx_first_excess_cut [of a] by (simp add: cut_len_def)

lemma tx_chunks_cut: "tx_chunks a sz (tx_first_excess a) = cut_region a sz"
proof (induction a sz rule: cut_region.induct)
  case (1 a sz)
  show ?case
  proof (cases "sz > 16383")
    case True
    have "tx_first_excess (a + of_nat (cut_len a)) = 0" by (rule tx_first_excess_aligned [OF cut_len_aligned])
    then show ?thesis using 1 [OF True] True
      by (simp add: tx_chunks_big tx_first_excess_cut [simplified] cut_region.simps [of a sz] del: of_nat_add)
  qed (simp add: tx_chunks_small cut_region.simps)
qed

lemma cut_region_parts:
  "cut_region a sz \<noteq> []" "contiguous a (cut_region a sz)" "sum_list (map snd (cut_region a sz)) = sz"
  using tx_chunks_not_Nil [of a sz] tx_chunks_contiguous [of a sz] tx_chunks_sum [OF tx_first_excess_le [of a], of a sz]
  by (simp_all flip: tx_chunks_cut)

lemma cut_region_aligned: "x \<in> set (butlast (cut_region a sz)) \<Longrightarrow> 4096 dvd unat (fst x + of_nat (snd x))"
proof (induction a sz rule: cut_region.induct)
  case (1 a sz)
  then show ?case
    using cut_len_aligned [of a] by (cases "sz > 16383") (auto simp: cut_region.simps [of a sz] split: if_splits)
qed

lemma tx_chunks_length:
  "sz > 16383 \<Longrightarrow> ex \<le> 4095 \<Longrightarrow> 12288 * (length (tx_chunks dma sz ex) - 1) < sz"
proof (induction dma sz ex rule: tx_chunks.induct)
  case (1 dma sz ex)
  let ?r = "sz - (12288 + ex)"
  show ?case
  proof (cases "?r > 16383")
    case True
    then have "12288 * (length (tx_chunks (dma + of_nat (12288 + ex)) ?r 0) - 1) < ?r"
      using 1 by simp
    then show ?thesis
      using 1(2) by (simp add: tx_chunks_big)
  next
    case False
    then show ?thesis using 1(2) by (simp add: tx_chunks_big tx_chunks_small)
  qed
qed

lemma tx_chunks_count:
  assumes "ex \<le> 4095"
  shows "length (tx_chunks dma sz ex) \<le> frag_txd_count sz"
proof (cases "sz > 16383")
  case True
  then have "12288 * (length (tx_chunks dma sz ex) - 1) < sz"
    using assms by (rule tx_chunks_length)
  then have "12288 * length (tx_chunks dma sz ex) \<le> sz + 12287"
    by (cases "length (tx_chunks dma sz ex)") auto
  then have "length (tx_chunks dma sz ex) \<le> (sz + 12287) div 12288"
    by (metis div_le_mono nonzero_mult_div_cancel_left zero_neq_numeral)
  then show ?thesis
    using True by (simp add: frag_txd_count_def idpf_size_to_txd_count_def tx_max_desc_data)
next
  case False
  then show ?thesis by (simp add: tx_chunks_small frag_txd_count_def)
qed

section \<open>Slots written in a row\<close>

definition tx_qw1_of :: "idpf_tx_splitq_params \<Rightarrow> u16 \<Rightarrow> nat \<Rightarrow> tx_qw1" where
  "tx_qw1_of params td_cmd sz =
     (if p_dtype params = IDPF_TX_DESC_DTYPE_FLEX_L2TAG1_L2TAG2
      then QW1_CTB ((p_dtype params AND 31) OR (push_bit 5 td_cmd AND 65504)) (of_nat sz)
             (ucast (p_compl_tag params))
      else QW1_FLOW (ucast (p_dtype params OR td_cmd)) (of_nat sz) (ucast (p_compl_tag params))
             (off_desc_ts (p_offload params)))"

definition tx_slot_of :: "idpf_tx_splitq_params \<Rightarrow> u16 \<Rightarrow> u64 \<times> nat \<Rightarrow> tx_slot" where
  "tx_slot_of params td_cmd ch = \<lparr>buf_addr = fst ch, tx_qw1 = tx_qw1_of params td_cmd (snd ch)\<rparr>"

lemma idpf_tx_splitq_build_desc_eq:
  "idpf_tx_splitq_build_desc i params td_cmd sz q =
     q\<lparr>tx_descs := (tx_descs q)[i := (tx_descs q ! i)\<lparr>tx_qw1 := tx_qw1_of params td_cmd sz\<rparr>]\<rparr>"
  by (simp add: idpf_tx_splitq_build_desc_def idpf_tx_splitq_build_ctb_def
      idpf_tx_splitq_build_flow_desc_def tx_qw1_of_def tx_slot_upd_def)

definition ring_bump :: "nat \<Rightarrow> nat \<Rightarrow> nat" where
  "ring_bump n i = (if Suc i = n then 0 else Suc i)"

lemma idpf_tx_splitq_bump_ntu_eq: "idpf_tx_splitq_bump_ntu q i = ring_bump (desc_count q) i"
  by (simp add: idpf_tx_splitq_bump_ntu_def ring_bump_def)

lemma ring_bump_mod: "i < n \<Longrightarrow> ring_bump n i = Suc i mod n"
  by (auto simp: ring_bump_def)

lemma ring_bump_less [simp]: "i < n \<Longrightarrow> ring_bump n i < n"
  by (auto simp: ring_bump_def)

fun put_slots :: "nat \<Rightarrow> nat \<Rightarrow> 'a list \<Rightarrow> 'a list \<Rightarrow> 'a list" where
  "put_slots n i [] ds = ds"
| "put_slots n i (x # xs) ds = put_slots n (ring_bump n i) xs (ds[i := x])"

fun end_slot :: "nat \<Rightarrow> nat \<Rightarrow> 'a list \<Rightarrow> nat" where
  "end_slot n i [] = i"
| "end_slot n i (x # xs) = end_slot n (ring_bump n i) xs"

lemma put_slots_append: "put_slots n i (xs @ ys) ds = put_slots n (end_slot n i xs) ys (put_slots n i xs ds)"
  by (induction xs arbitrary: i ds) auto

lemma end_slot_append [simp]: "end_slot n i (xs @ ys) = end_slot n (end_slot n i xs) ys"
  by (induction xs arbitrary: i) auto

lemma end_slot_map [simp]: "end_slot n i (map f xs) = end_slot n i xs"
  by (induction xs arbitrary: i) auto

lemma end_slot_mod: "i < n \<Longrightarrow> end_slot n i xs = (i + length xs) mod n"
  by (induction xs arbitrary: i) (auto simp: ring_bump_mod mod_simps)

lemma end_slot_less: "i < n \<Longrightarrow> end_slot n i xs < n"
  by (simp add: end_slot_mod)

lemma length_put_slots [simp]: "length (put_slots n i xs ds) = length ds"
  by (induction xs arbitrary: i ds) auto

lemma put_slots_overwrite: "xs \<noteq> [] \<Longrightarrow> put_slots n i xs (ds[i := y]) = put_slots n i xs ds"
  by (cases xs) auto

lemma put_slots_other:
  assumes "i < n" and "length xs \<le> n" and "s < n" and "length xs \<le> ring_dist n i s"
  shows "put_slots n i xs ds ! s = ds ! s"
  using assms
proof (induction xs arbitrary: i ds)
  case (Cons x xs)
  have "i \<noteq> s" using Cons.prems by auto
  then have "ring_dist n i s = Suc (ring_dist n (ring_bump n i) s)"
    using Cons.prems by (simp add: ring_bump_mod ring_dist_step [of i n s])
  then show ?case
    using Cons \<open>i \<noteq> s\<close> by simp
qed simp

lemma put_slots_nth:
  assumes "i < n" and "length ds = n" and "length xs \<le> n" and "j < length xs"
  shows "put_slots n i xs ds ! ((i + j) mod n) = xs ! j"
  using assms
proof (induction xs arbitrary: i ds j)
  case (Cons x xs)
  show ?case
  proof (cases j)
    case 0
    have "ring_dist n (ring_bump n i) i = n - 1"
      using Cons.prems(1) by (auto simp: ring_bump_def ring_dist_def)
    then have "put_slots n (ring_bump n i) xs (ds[i := x]) ! i = (ds[i := x]) ! i"
      using Cons.prems by (intro put_slots_other) auto
    then show ?thesis using 0 Cons.prems by simp
  next
    case (Suc j')
    have "(ring_bump n i + j') mod n = (i + j) mod n"
      using Suc Cons.prems by (simp add: ring_bump_mod mod_simps)
    then show ?thesis
      using Cons.IH [of "ring_bump n i" "ds[i := x]" j'] Cons.prems Suc by simp
  qed
qed simp

section \<open>One region\<close>

lemma slot_full: "(x::tx_slot)\<lparr>buf_addr := a, tx_qw1 := w\<rparr> = \<lparr>buf_addr = a, tx_qw1 = w\<rparr>"
  by (cases x) simp

lemma put_slots_set_first:
  fixes ds :: "tx_slot list"
  assumes "k = end_slot n i ss" and "ss = [] \<Longrightarrow> a = a'"
  shows "(put_slots n i ss (ds[i := (ds ! i)\<lparr>buf_addr := a'\<rparr>]))
           [k := (put_slots n i ss (ds[i := (ds ! i)\<lparr>buf_addr := a'\<rparr>]) ! k)\<lparr>buf_addr := a\<rparr>] =
         (put_slots n i ss ds)[k := (put_slots n i ss ds ! k)\<lparr>buf_addr := a\<rparr>]"
proof (cases ss)
  case Nil
  then show ?thesis
    using assms by (cases "i < length ds") (simp_all add: list_update_beyond)
next
  case (Cons x xs)
  then show ?thesis by (simp add: put_slots_overwrite)
qed

lemma fst_hd_tx_chunks: "butlast (tx_chunks dma sz ex) = [] \<Longrightarrow> fst (last (tx_chunks dma sz ex)) = dma"
  by (subst (asm) tx_chunks.simps, subst tx_chunks.simps) (auto split: if_splits)

lemma tx_split_eq:
  assumes "i < desc_count q" and "length (tx_descs q) = desc_count q"
    and "buf_addr (tx_descs q ! i) = dma"
    and "cs = tx_chunks dma sz ex" and "k = end_slot (desc_count q) i (butlast cs)"
    and "d = put_slots (desc_count q) i (map (tx_slot_of params cmd) (butlast cs)) (tx_descs q)"
  shows "tx_split params cmd i dma sz ex q =
    (k, snd (last cs), q\<lparr>tx_descs := d[k := (d ! k)\<lparr>buf_addr := fst (last cs)\<rparr>]\<rparr>)"
  using assms
proof (induction dma sz ex arbitrary: i q cs k d rule: tx_chunks.induct)
  case (1 dma sz ex)
  show ?case
  proof (cases "sz > 16383")
    case False
    have "(tx_descs q)[i := (tx_descs q ! i)\<lparr>buf_addr := dma\<rparr>] = tx_descs q"
      by (simp add: "1.prems"(3) [symmetric])
    then show ?thesis
      using False "1.prems" by (simp add: tx_split.simps tx_chunks_small tx_max_desc_data)
  next
    case True
    let ?n = "desc_count q" and ?m = "12288 + ex"
    let ?cs' = "tx_chunks (dma + of_nat ?m) (sz - ?m) 0"
    let ?i = "ring_bump ?n i"
    let ?ds1 = "(tx_descs q)[i := tx_slot_of params cmd (dma, ?m)]"
    let ?q2 = "q\<lparr>tx_descs := ?ds1[?i := (?ds1 ! ?i)\<lparr>buf_addr := dma + of_nat ?m\<rparr>]\<rparr>"
    have "(tx_descs q ! i)\<lparr>tx_qw1 := tx_qw1_of params cmd ?m\<rparr> = tx_slot_of params cmd (dma, ?m)"
      using "1.prems"(3) by (simp add: tx_slot_of_def)
    then have step: "tx_split params cmd i dma sz ex q =
        tx_split params cmd ?i (dma + of_nat ?m) (sz - ?m) 0 ?q2"
      using True
      by (subst tx_split.simps)
        (simp add: tx_max_desc_data Let_def idpf_tx_splitq_build_desc_eq
          idpf_tx_splitq_bump_ntu_eq tx_slot_upd_def)
    have cs: "cs = (dma, ?m) # ?cs'" using "1.prems"(4) True by (simp add: tx_chunks_big)
    then have k: "k = end_slot ?n ?i (butlast ?cs')" using "1.prems"(5) by simp
    have ih: "tx_split params cmd ?i (dma + of_nat ?m) (sz - ?m) 0 ?q2 =
      (k, snd (last ?cs'), ?q2\<lparr>tx_descs :=
         (put_slots ?n ?i (map (tx_slot_of params cmd) (butlast ?cs')) (tx_descs ?q2))
           [k := (put_slots ?n ?i (map (tx_slot_of params cmd) (butlast ?cs')) (tx_descs ?q2) ! k)
                   \<lparr>buf_addr := fst (last ?cs')\<rparr>]\<rparr>)"
      by (rule "1.IH" [OF True]) (use "1.prems"(1,2) k in simp_all)
    have d: "d = put_slots ?n ?i (map (tx_slot_of params cmd) (butlast ?cs')) ?ds1"
      using "1.prems"(6) cs by simp
    have "(put_slots ?n ?i (map (tx_slot_of params cmd) (butlast ?cs')) (tx_descs ?q2))
           [k := (put_slots ?n ?i (map (tx_slot_of params cmd) (butlast ?cs')) (tx_descs ?q2) ! k)
                   \<lparr>buf_addr := fst (last ?cs')\<rparr>] = d[k := (d ! k)\<lparr>buf_addr := fst (last ?cs')\<rparr>]"
      using put_slots_set_first [of k ?n ?i "map (tx_slot_of params cmd) (butlast ?cs')"
          "fst (last ?cs')" "dma + of_nat ?m" ?ds1] k fst_hd_tx_chunks
      by (simp add: d)
    then show ?thesis
      unfolding step ih using cs by simp
  qed
qed

text \<open>With the descriptor of the last chunk written too, the region's slots are complete.\<close>

definition region_slots :: "idpf_tx_splitq_params \<Rightarrow> u16 \<Rightarrow> u16 \<Rightarrow> u64 \<times> nat \<Rightarrow> tx_slot list" where
  "region_slots params cmd last_cmd rg =
     (let cs = tx_chunks (fst rg) (snd rg) (tx_first_excess (fst rg))
      in map (tx_slot_of params cmd) (butlast cs) @ [tx_slot_of params last_cmd (last cs)])"

lemma length_region_slots: "length (region_slots params cmd lcmd rg) \<le> frag_txd_count (snd rg)"
  using tx_chunks_count [OF tx_first_excess_le [of "fst rg"], where dma = "fst rg" and sz = "snd rg"]
    tx_chunks_not_Nil [of "fst rg" "snd rg" "tx_first_excess (fst rg)"]
  by (simp add: region_slots_def Let_def Suc_pred)

definition tx_buf_mapped :: "nat \<Rightarrow> nat \<Rightarrow> u64 \<Rightarrow> nat \<Rightarrow> libeth_sqe list \<Rightarrow> libeth_sqe list" where
  "tx_buf_mapped first b dma sz bufs =
     (let bufs = bufs[first := sqe_nr_frags_update Suc (bufs ! first)]
      in bufs[b := (bufs ! b)\<lparr>sqe_type := LIBETH_SQE_FRAG, sqe_len := sz, sqe_dma := dma\<rparr>])"

lemma tx_map_buf_eq:
  assumes "i < desc_count q" and "length (tx_descs q) = desc_count q"
  obtains ds where "tx_map_buf params first b i dma sz q =
      (end_slot (desc_count q) i (butlast (tx_chunks dma sz (tx_first_excess dma))),
       snd (last (tx_chunks dma sz (tx_first_excess dma))),
       q\<lparr>tx_log := tx_log q @ [DmaMap dma sz], tx_bufs := tx_buf_mapped first b dma sz (tx_bufs q),
         tx_descs := ds\<rparr>)" and "length ds = desc_count q"
    and "\<And>lcmd. ds[end_slot (desc_count q) i (butlast (tx_chunks dma sz (tx_first_excess dma))) :=
        (ds ! end_slot (desc_count q) i (butlast (tx_chunks dma sz (tx_first_excess dma))))
          \<lparr>tx_qw1 := tx_qw1_of params lcmd (snd (last (tx_chunks dma sz (tx_first_excess dma))))\<rparr>] =
        put_slots (desc_count q) i (region_slots params (off_td_cmd (p_offload params)) lcmd (dma, sz)) (tx_descs q)"
proof -
  let ?cs = "tx_chunks dma sz (tx_first_excess dma)"
  let ?k = "end_slot (desc_count q) i (butlast ?cs)"
  let ?ss = "map (tx_slot_of params (off_td_cmd (p_offload params))) (butlast ?cs)"
  let ?base = "(tx_descs q)[i := (tx_descs q ! i)\<lparr>buf_addr := dma\<rparr>]"
  let ?qb = "q\<lparr>tx_log := tx_log q @ [DmaMap dma sz],
    tx_bufs := tx_buf_mapped first b dma sz (tx_bufs q), tx_descs := ?base\<rparr>"
  let ?d = "put_slots (desc_count q) i ?ss ?base"
  let ?ds = "?d[?k := (?d ! ?k)\<lparr>buf_addr := fst (last ?cs)\<rparr>]"
  have m: "tx_map_buf params first b i dma sz q =
      tx_split params (off_td_cmd (p_offload params)) i dma sz (tx_first_excess dma) ?qb"
    by (simp add: tx_map_buf_def Let_def tx_emit_def tx_buf_upd_def tx_slot_upd_def tx_buf_mapped_def)
  have "tx_split params (off_td_cmd (p_offload params)) i dma sz (tx_first_excess dma) ?qb =
      (?k, snd (last ?cs), ?qb\<lparr>tx_descs := ?ds\<rparr>)"
    by (rule tx_split_eq [where cs = ?cs]) (use assms in simp_all)
  then have e: "tx_map_buf params first b i dma sz q = (?k, snd (last ?cs),
      q\<lparr>tx_log := tx_log q @ [DmaMap dma sz], tx_bufs := tx_buf_mapped first b dma sz (tx_bufs q),
        tx_descs := ?ds\<rparr>)"
    unfolding m by simp
  have kl: "?k < length ?d" using assms by (simp add: end_slot_less)
  have ok: "?ds[?k := (?ds ! ?k)\<lparr>tx_qw1 := tx_qw1_of params lcmd (snd (last ?cs))\<rparr>] =
      put_slots (desc_count q) i (region_slots params (off_td_cmd (p_offload params)) lcmd (dma, sz)) (tx_descs q)"
    for lcmd
  proof -
    let ?r = "region_slots params (off_td_cmd (p_offload params)) lcmd (dma, sz)"
    have "?ds[?k := (?ds ! ?k)\<lparr>tx_qw1 := tx_qw1_of params lcmd (snd (last ?cs))\<rparr>] =
        ?d[?k := tx_slot_of params lcmd (last ?cs)]"
      using kl by (simp add: tx_slot_of_def slot_full)
    also have "\<dots> = put_slots (desc_count q) i ?r ?base"
      by (simp add: region_slots_def Let_def put_slots_append)
    also have "\<dots> = put_slots (desc_count q) i ?r (tx_descs q)"
      by (rule put_slots_overwrite) (simp add: region_slots_def Let_def)
    finally show ?thesis .
  qed
  show ?thesis
    by (rule that [OF e _ ok]) (use assms in simp)
qed

end
