(* ===== verification/Idpf_Tx_Map.thy ===== *)
theory Idpf_Tx_Map
  imports Idpf_Tx_Split
begin

text \<open>
  \<open>idpf_tx_splitq_map\<close> on a queue with flow based scheduling, iteration by iteration: what one
  buffer adds to the ring, the buffer array, the refill queue and the log, and from that the
  outcome for a whole packet, be it sent or undone.
\<close>

section \<open>Iterations\<close>

definition tx_buf_done :: "idpf_tx_splitq_params \<Rightarrow> nat \<Rightarrow> nat \<Rightarrow> nat \<Rightarrow> libeth_sqe list \<Rightarrow> libeth_sqe list" where
  "tx_buf_done params first b i bufs =
     (let bufs = bufs[first := (bufs ! first)\<lparr>sqe_type :=
            if off_tsyn (p_offload params) then LIBETH_SQE_SKB_TSTAMP else LIBETH_SQE_SKB, sqe_rs_idx := i\<rparr>]
      in bufs[b := (bufs ! b)\<lparr>sqe_next := IDPF_TXBUF_NULL\<rparr>])"

definition tx_buf_link :: "nat \<Rightarrow> u32 \<Rightarrow> libeth_sqe list \<Rightarrow> libeth_sqe list" where
  "tx_buf_link b nid bufs = bufs[b := (bufs ! b)\<lparr>sqe_next := nid\<rparr>]"

definition tx_ring_ok :: "idpf_txq \<Rightarrow> bool" where
  "tx_ring_ok q \<longleftrightarrow> length (tx_descs q) = desc_count q \<and> 0 < desc_count q"

definition tx_cmd :: "idpf_tx_splitq_params \<Rightarrow> u16" where
  "tx_cmd params = off_td_cmd (p_offload params)"

lemma end_slot_region: "end_slot n i (region_slots params c l (dma, sz)) =
    ring_bump n (end_slot n i (butlast (tx_chunks dma sz (tx_first_excess dma))))"
  by (simp add: region_slots_def Let_def)

lemma tx_map_buf_build:
  assumes "i < desc_count q" and "tx_ring_ok q"
  obtains j s ds where "tx_map_buf params first b i dma sz q =
      (j, s, q\<lparr>tx_log := tx_log q @ [DmaMap dma sz],
               tx_bufs := tx_buf_mapped first b dma sz (tx_bufs q), tx_descs := ds\<rparr>)"
    and "\<And>c l. ring_bump (desc_count q) j = end_slot (desc_count q) i (region_slots params c l (dma, sz))"
    and "\<And>lcmd. ds[j := (ds ! j)\<lparr>tx_qw1 := tx_qw1_of params lcmd s\<rparr>] =
      put_slots (desc_count q) i (region_slots params (tx_cmd params) lcmd (dma, sz)) (tx_descs q)"
proof -
  let ?cs = "tx_chunks dma sz (tx_first_excess dma)"
  let ?j = "end_slot (desc_count q) i (butlast ?cs)"
  have "i < desc_count q" "length (tx_descs q) = desc_count q"
    using assms by (auto simp: tx_ring_ok_def)
  then obtain ds where "tx_map_buf params first b i dma sz q = (?j, snd (last ?cs),
       q\<lparr>tx_log := tx_log q @ [DmaMap dma sz], tx_bufs := tx_buf_mapped first b dma sz (tx_bufs q),
         tx_descs := ds\<rparr>)" "length ds = desc_count q"
    and "\<And>lcmd. ds[?j := (ds ! ?j)\<lparr>tx_qw1 := tx_qw1_of params lcmd (snd (last ?cs))\<rparr>] =
        put_slots (desc_count q) i (region_slots params (off_td_cmd (p_offload params)) lcmd (dma, sz)) (tx_descs q)"
    by (rule tx_map_buf_eq [of i q params first b dma sz]) (rule that)
  then show ?thesis
    by (intro that [of ?j "snd (last ?cs)" ds]) (simp_all add: end_slot_region tx_cmd_def)
qed

lemma tx_map_loop_last:
  assumes "env_dma env k = Some dma" and "i < desc_count q" and "tx_ring_ok q"
  shows "\<exists>j. tx_map_loop env params first k b i sz [] (q, c) =
    (let slots = region_slots params (tx_cmd params) (tx_cmd params OR p_eop_cmd params) (dma, sz);
         bufs = tx_buf_done params first b j (tx_buf_mapped first b dma sz (tx_bufs q));
         ntu = end_slot (desc_count q) i slots
     in Some (q\<lparr>tx_log := tx_log q @ [DmaMap dma sz, BqlSent (sqe_bytes (bufs ! first))] @
                  (if tx_stopped q \<or> \<not> env_xmit_more env then [TailWrite ntu] else []),
                tx_bufs := bufs, tx_descs := put_slots (desc_count q) i slots (tx_descs q),
                next_to_use := ntu\<rparr>,
              c\<lparr>num_completions_pending := num_completions_pending c + 1\<rparr>))"
proof -
  obtain j s ds where m: "tx_map_buf params first b i dma sz q =
      (j, s, q\<lparr>tx_log := tx_log q @ [DmaMap dma sz],
               tx_bufs := tx_buf_mapped first b dma sz (tx_bufs q), tx_descs := ds\<rparr>)"
    and j: "\<And>c l. ring_bump (desc_count q) j = end_slot (desc_count q) i (region_slots params c l (dma, sz))"
    and ds: "\<And>lcmd. ds[j := (ds ! j)\<lparr>tx_qw1 := tx_qw1_of params lcmd s\<rparr>] =
      put_slots (desc_count q) i (region_slots params (tx_cmd params) lcmd (dma, sz)) (tx_descs q)"
    by (rule tx_map_buf_build [OF assms(2,3)]) (rule that)
  show ?thesis
    using assms(1)
    by (intro exI [of _ j], subst tx_map_loop.simps)
      (simp add: m tx_map_finish_def Let_def tx_emit_def idpf_tx_splitq_build_desc_eq tx_buf_upd_def
        idpf_tx_splitq_bump_ntu_eq idpf_tx_buf_hw_update_def tx_buf_done_def ds tx_cmd_def [symmetric]
        j [of "tx_cmd params" "tx_cmd params OR p_eop_cmd params"])
qed

text \<open>The state when the loop goes round: the region is in the ring and linked to the next buffer.\<close>

definition tx_map_next ::
  "idpf_tx_splitq_params \<Rightarrow> nat \<Rightarrow> nat \<Rightarrow> nat \<Rightarrow> u64 \<Rightarrow> nat \<Rightarrow> u32 \<Rightarrow> idpf_sw_queue \<Rightarrow> idpf_txq \<Rightarrow> idpf_txq" where
  "tx_map_next params first b i dma sz nid r q =
     q\<lparr>tx_log := tx_log q @ [DmaMap dma sz],
       tx_descs := put_slots (desc_count q) i
         (region_slots params (tx_cmd params) (tx_cmd params) (dma, sz)) (tx_descs q),
       tx_refillq := Some r,
       tx_bufs := tx_buf_link b nid (tx_buf_mapped first b dma sz (tx_bufs q))\<rparr>"

abbreviation tx_map_ntu :: "idpf_tx_splitq_params \<Rightarrow> nat \<Rightarrow> u64 \<Rightarrow> nat \<Rightarrow> nat \<Rightarrow> nat" where
  "tx_map_ntu params i dma sz n \<equiv>
     end_slot n i (region_slots params (tx_cmd params) (tx_cmd params) (dma, sz))"

lemma tx_map_loop_next:
  assumes "env_dma env k = Some dma" and "i < desc_count q" and "tx_ring_ok q" and "FLOW_SCH_EN q"
    and "tx_refillq q = Some r" and "idpf_tx_get_free_buf_id r = (Some nid, r')"
    and "sum_list (f # fs) \<noteq> 0"
  shows "tx_map_loop env params first k b i sz (f # fs) (q, c) =
    tx_map_loop env params first (Suc k) (unat nid) (tx_map_ntu params i dma sz (desc_count q)) f fs
      (tx_map_next params first b i dma sz nid r' q, c)"
proof -
  obtain j s ds where m: "tx_map_buf params first b i dma sz q =
      (j, s, q\<lparr>tx_log := tx_log q @ [DmaMap dma sz],
               tx_bufs := tx_buf_mapped first b dma sz (tx_bufs q), tx_descs := ds\<rparr>)"
    and j: "\<And>c l. ring_bump (desc_count q) j = end_slot (desc_count q) i (region_slots params c l (dma, sz))"
    and ds: "\<And>lcmd. ds[j := (ds ! j)\<lparr>tx_qw1 := tx_qw1_of params lcmd s\<rparr>] =
      put_slots (desc_count q) i (region_slots params (tx_cmd params) lcmd (dma, sz)) (tx_descs q)"
    by (rule tx_map_buf_build [OF assms(2,3)]) (rule that)
  let ?q1 = "q\<lparr>tx_log := tx_log q @ [DmaMap dma sz],
      tx_bufs := tx_buf_mapped first b dma sz (tx_bufs q),
      tx_descs := put_slots (desc_count q) i
         (region_slots params (tx_cmd params) (tx_cmd params) (dma, sz)) (tx_descs q)\<rparr>"
  have "tx_next_buf i' ?q1 = Some (Some nid, ?q1\<lparr>tx_refillq := Some r'\<rparr>)" for i'
    using assms(4-6) by (simp add: tx_next_buf_def)
  then show ?thesis
    using assms(1,7)
    by (subst tx_map_loop.simps)
      (simp add: m Let_def idpf_tx_splitq_build_desc_eq tx_buf_upd_def idpf_tx_splitq_bump_ntu_eq
        ds tx_cmd_def [symmetric] j [of "tx_cmd params" "tx_cmd params"] tx_map_next_def tx_buf_link_def
        del: sum_list_eq_0_iff sum_list.Cons)
qed

section \<open>A packet that is sent\<close>

fun tx_regions :: "tx_env \<Rightarrow> nat \<Rightarrow> nat list \<Rightarrow> (u64 \<times> nat) list" where
  "tx_regions env k [] = []"
| "tx_regions env k (s # ss) = (the (env_dma env k), s) # tx_regions env (Suc k) ss"

fun tx_all_mapped :: "tx_env \<Rightarrow> nat \<Rightarrow> nat list \<Rightarrow> bool" where
  "tx_all_mapped env k [] = True"
| "tx_all_mapped env k (s # ss) = (env_dma env k \<noteq> None \<and> tx_all_mapped env (Suc k) ss)"

lemma length_tx_regions [simp]: "length (tx_regions env k ss) = length ss"
  by (induction ss arbitrary: k) auto

lemma tx_regions_sizes [simp]: "map snd (tx_regions env k ss) = ss"
  by (induction ss arbitrary: k) auto

text \<open>All descriptors of a packet; only the very last has the end-of-packet command.\<close>

fun packet_slots :: "idpf_tx_splitq_params \<Rightarrow> (u64 \<times> nat) list \<Rightarrow> tx_slot list" where
  "packet_slots params [] = []"
| "packet_slots params [rg] = region_slots params (tx_cmd params) (tx_cmd params OR p_eop_cmd params) rg"
| "packet_slots params (rg # rg' # rgs) =
     region_slots params (tx_cmd params) (tx_cmd params) rg @ packet_slots params (rg' # rgs)"

definition tx_map_logged :: "(u64 \<times> nat) list \<Rightarrow> tx_event list" where
  "tx_map_logged = map (\<lambda>rg. DmaMap (fst rg) (snd rg))"

lemma tx_map_next_fields [simp]:
  "desc_count (tx_map_next params first b i dma sz nid r q) = desc_count q"
  "tx_refillq (tx_map_next params first b i dma sz nid r q) = Some r"
  "FLOW_SCH_EN (tx_map_next params first b i dma sz nid r q) = FLOW_SCH_EN q"
  "tx_stopped (tx_map_next params first b i dma sz nid r q) = tx_stopped q"
  "next_to_clean (tx_map_next params first b i dma sz nid r q) = next_to_clean q"
  "tx_bufs (tx_map_next params first b i dma sz nid r q) =
     tx_buf_link b nid (tx_buf_mapped first b dma sz (tx_bufs q))"
  "tx_log (tx_map_next params first b i dma sz nid r q) = tx_log q @ [DmaMap dma sz]"
  "tx_descs (tx_map_next params first b i dma sz nid r q) = put_slots (desc_count q) i
         (region_slots params (tx_cmd params) (tx_cmd params) (dma, sz)) (tx_descs q)"
  "tx_ring_ok (tx_map_next params first b i dma sz nid r q) = tx_ring_ok q"
  by (simp_all add: tx_map_next_def tx_ring_ok_def)

text \<open>What the loop leaves of the queue when every mapping succeeds and there are ids enough.\<close>

lemma tx_map_loop_sent:
  assumes "tx_all_mapped env k (sz # fs)" and "i < desc_count q" and "tx_ring_ok q"
    and "FLOW_SCH_EN q" and "tx_refillq q = Some r" and "refill_ok r"
    and "length fs \<le> length (refill_ids r)" and "\<forall>f\<in>set fs. 0 < f"
    and "slots = packet_slots params (tx_regions env k (sz # fs))"
  shows "\<exists>q' r'. tx_map_loop env params first k b i sz fs (q, c) =
      Some (q', c\<lparr>num_completions_pending := num_completions_pending c + 1\<rparr>) \<and>
    tx_descs q' = put_slots (desc_count q) i slots (tx_descs q) \<and>
    next_to_use q' = end_slot (desc_count q) i slots \<and>
    desc_count q' = desc_count q \<and> next_to_clean q' = next_to_clean q \<and>
    FLOW_SCH_EN q' = FLOW_SCH_EN q \<and>
    tx_refillq q' = Some r' \<and> refill_ok r' \<and> rfl_desc_count r' = rfl_desc_count r \<and>
    refill_ids r' = drop (length fs) (refill_ids r) \<and>
    tx_log q' = tx_log q @ tx_map_logged (tx_regions env k (sz # fs)) @ [BqlSent (sqe_bytes (tx_bufs q' ! first))] @
      (if tx_stopped q \<or> \<not> env_xmit_more env then [TailWrite (next_to_use q')] else [])"
  using assms
proof (induction fs arbitrary: k b i sz q r slots)
  case Nil
  obtain dma where dma: "env_dma env k = Some dma" using Nil.prems(1) by auto
  show ?case
    using tx_map_loop_last [OF dma Nil.prems(2,3), of params first b sz c] Nil.prems dma
    by (auto simp: Let_def tx_map_logged_def)
next
  case (Cons f fs)
  obtain dma where dma: "env_dma env k = Some dma" using Cons.prems(1) by auto
  obtain nid ids where ids: "refill_ids r = nid # ids"
    using Cons.prems(7) by (cases "refill_ids r") (auto simp del: length_refill_ids)
  note get = idpf_tx_get_free_buf_id_Cons [OF Cons.prems(6) ids]
  let ?r = "refill_bump_ntc r"
  let ?i = "tx_map_ntu params i dma sz (desc_count q)"
  let ?q = "tx_map_next params first b i dma sz nid ?r q"
  have step: "tx_map_loop env params first k b i sz (f # fs) (q, c) =
    tx_map_loop env params first (Suc k) (unat nid) ?i f fs (?q, c)"
    using Cons.prems(2-5,8) by (intro tx_map_loop_next [OF dma _ _ _ _ get(1)]) auto
  have "\<exists>q' r'. tx_map_loop env params first (Suc k) (unat nid) ?i f fs (?q, c) =
      Some (q', c\<lparr>num_completions_pending := num_completions_pending c + 1\<rparr>) \<and>
    tx_descs q' = put_slots (desc_count ?q) ?i (packet_slots params (tx_regions env (Suc k) (f # fs))) (tx_descs ?q) \<and>
    next_to_use q' = end_slot (desc_count ?q) ?i (packet_slots params (tx_regions env (Suc k) (f # fs))) \<and>
    desc_count q' = desc_count ?q \<and> next_to_clean q' = next_to_clean ?q \<and>
    FLOW_SCH_EN q' = FLOW_SCH_EN ?q \<and>
    tx_refillq q' = Some r' \<and> refill_ok r' \<and> rfl_desc_count r' = rfl_desc_count ?r \<and>
    refill_ids r' = drop (length fs) (refill_ids ?r) \<and>
    tx_log q' = tx_log ?q @ tx_map_logged (tx_regions env (Suc k) (f # fs)) @ [BqlSent (sqe_bytes (tx_bufs q' ! first))] @
      (if tx_stopped ?q \<or> \<not> env_xmit_more env then [TailWrite (next_to_use q')] else [])"
    by (rule Cons.IH) (use Cons.prems get ids end_slot_less in \<open>simp_all del: length_refill_ids\<close>)
  then show ?case
    unfolding step using Cons.prems(9) dma get(3) ids
    by (auto simp: put_slots_append tx_map_logged_def simp del: length_refill_ids)
qed

section \<open>The buffers of a packet\<close>

text \<open>\<open>bs\<close> is the list of buffers one meets from the first of them on.\<close>

fun tx_chain :: "libeth_sqe list \<Rightarrow> nat list \<Rightarrow> bool" where
  "tx_chain bufs [] = False"
| "tx_chain bufs [b] = (sqe_next (bufs ! b) = IDPF_TXBUF_NULL)"
| "tx_chain bufs (b # b' # bs) =
     (sqe_next (bufs ! b) \<noteq> IDPF_TXBUF_NULL \<and> unat (sqe_next (bufs ! b)) = b' \<and> tx_chain bufs (b' # bs))"

lemma tx_chain_cong:
  "\<forall>b\<in>set bs. sqe_next (bufs' ! b) = sqe_next (bufs ! b) \<Longrightarrow> tx_chain bufs' bs = tx_chain bufs bs"
  by (induction bufs bs rule: tx_chain.induct) auto

definition sqe_region :: "libeth_sqe \<Rightarrow> u64 \<times> nat" where
  "sqe_region s = (sqe_dma s, sqe_len s)"

text \<open>The facts about a buffer that later iterations leave as they are.\<close>

definition sqe_same :: "libeth_sqe \<Rightarrow> libeth_sqe \<Rightarrow> bool" where
  "sqe_same s s' \<longleftrightarrow> sqe_skb s' = sqe_skb s \<and> sqe_packets s' = sqe_packets s \<and> sqe_bytes s' = sqe_bytes s"

definition sqe_kept :: "libeth_sqe \<Rightarrow> libeth_sqe \<Rightarrow> bool" where
  "sqe_kept s s' \<longleftrightarrow> sqe_same s s' \<and> sqe_region s' = sqe_region s \<and> sqe_next s' = sqe_next s"

lemma length_tx_buf_mapped [simp]:
  "length (tx_buf_mapped first b dma sz bufs) = length bufs"
  "length (tx_buf_link b nid bufs) = length bufs"
  "length (tx_buf_done params first b j bufs) = length bufs"
  by (simp_all add: tx_buf_mapped_def tx_buf_link_def tx_buf_done_def Let_def)

lemma tx_buf_mapped_nth:
  assumes "b < length bufs" and "first < length bufs"
  shows "tx_buf_mapped first b dma sz bufs ! b =
      (bufs ! b)\<lparr>sqe_type := LIBETH_SQE_FRAG, sqe_len := sz, sqe_dma := dma,
        sqe_nr_frags := sqe_nr_frags (bufs ! b) + of_bool (b = first)\<rparr>"
    "x \<noteq> b \<Longrightarrow> tx_buf_mapped first b dma sz bufs ! x =
      (bufs ! x)\<lparr>sqe_nr_frags := sqe_nr_frags (bufs ! x) + of_bool (x = first)\<rparr>"
  using assms by (auto simp: tx_buf_mapped_def Let_def nth_list_update)

lemma tx_buf_link_nth:
  "b < length bufs \<Longrightarrow> tx_buf_link b nid bufs ! b = (bufs ! b)\<lparr>sqe_next := nid\<rparr>"
  "x \<noteq> b \<Longrightarrow> tx_buf_link b nid bufs ! x = bufs ! x"
  by (auto simp: tx_buf_link_def nth_list_update)

lemma tx_buf_done_nth:
  assumes "b < length bufs" and "first < length bufs"
  shows "sqe_type (tx_buf_done params first b j bufs ! x) = (if x = first then
           (if off_tsyn (p_offload params) then LIBETH_SQE_SKB_TSTAMP else LIBETH_SQE_SKB)
           else sqe_type (bufs ! x))"
    "sqe_next (tx_buf_done params first b j bufs ! x) =
       (if x = b then IDPF_TXBUF_NULL else sqe_next (bufs ! x))"
    "sqe_same (bufs ! x) (tx_buf_done params first b j bufs ! x)"
    "sqe_region (tx_buf_done params first b j bufs ! x) = sqe_region (bufs ! x)"
    "x \<noteq> b \<Longrightarrow> x \<noteq> first \<Longrightarrow> tx_buf_done params first b j bufs ! x = bufs ! x"
  using assms
  by (auto simp: tx_buf_done_def Let_def nth_list_update sqe_same_def sqe_region_def)

end
