(* ===== verification/Idpf_Tx_Compl.thy ===== *)
theory Idpf_Tx_Compl
  imports Idpf_Tx
begin

text \<open>
  The completion path of the split queue model (\<open>idpf_txrx.c\<close>): buffers of finished packets are
  unmapped, their packets consumed and their ids posted to the refill queue; packets on the
  exception path (miss, then reinject) are kept by a timer; \<open>idpf_tx_clean_complq\<close> reads the
  completion ring and updates every queue of the group.

  Timers live in a heap of their own (\<open>timer_heap\<close>); reading or freeing one that is not there any
  more sets \<open>timer_bad\<close>.  AF\_XDP queues (\<open>xsk_pool\<close> set) are not modelled.
\<close>

section \<open>Buffers of one packet\<close>

definition tx_post_id :: "nat \<Rightarrow> idpf_txq \<Rightarrow> idpf_txq option" where
  "tx_post_id buf_id q = (case tx_refillq q of None \<Rightarrow> None
     | Some r \<Rightarrow> Some (q\<lparr>tx_refillq := Some (idpf_post_buf_refill r (of_nat buf_id))\<rparr>))"

definition tx_clean_one :: "nat \<Rightarrow> idpf_txq \<times> napi_stats \<Rightarrow> (idpf_txq \<times> napi_stats) option" where
  "tx_clean_one b qs = (case libeth_tx_complete b qs of (q, ss) \<Rightarrow>
     map_option (\<lambda>q. (q, ss)) (tx_post_id b q))"

fun tx_clean_chain :: "nat \<Rightarrow> nat \<Rightarrow> idpf_txq \<times> napi_stats \<Rightarrow> (idpf_txq \<times> napi_stats) option" where
  "tx_clean_chain fuel b qs =
     (let nxt = sqe_next (tx_bufs (fst qs) ! b); b' = trunc16 (unat nxt) in
      if nxt = IDPF_TXBUF_NULL then Some qs
      else case fuel of 0 \<Rightarrow> None
        | Suc fuel' \<Rightarrow> (case tx_clean_one b' qs of None \<Rightarrow> None
            | Some qs' \<Rightarrow> tx_clean_chain fuel' b' qs'))"

text \<open>
  A packet of type \<open>LIBETH_SQE_SKB_TSTAMP\<close> carries \<open>SKBTX_IN_PROGRESS\<close>, set when its timestamp
  slot was requested; reporting a timestamp to the stack leaves the queue as it is.
\<close>

definition idpf_tx_clean_bufs :: "nat \<Rightarrow> idpf_txq \<times> napi_stats \<Rightarrow> (idpf_txq \<times> napi_stats) option" where
  "idpf_tx_clean_bufs buf_id qs = (case qs of (q, ss) \<Rightarrow>
     if buf_id \<ge> length (tx_bufs q) then None
     else
       let sqe = tx_bufs q ! buf_id;
           q = (if sqe_type sqe = LIBETH_SQE_SKB_TSTAMP
                then tx_buf_upd buf_id (sqe_type_update (\<lambda>_. LIBETH_SQE_SKB))
                       (tx_emit (TimestampRead (sqe_skb sqe)) q) else q)
       in if sqe_type sqe \<notin> {LIBETH_SQE_SKB, LIBETH_SQE_SKB_TSTAMP, LIBETH_SQE_XDP_TX} then Some (q, ss)
          else case tx_clean_one buf_id (q, ss) of None \<Rightarrow> None
             | Some qs \<Rightarrow> tx_clean_chain (length (tx_bufs q)) buf_id qs)"

section \<open>Queue based scheduling\<close>

definition tx_clean_bump :: "idpf_txq \<Rightarrow> nat \<Rightarrow> nat" where
  "tx_clean_bump q ntc = (if Suc ntc = desc_count q then 0 else Suc ntc)"

text \<open>The two loops of \<open>idpf_tx_splitq_clean\<close>; both stop at an index and get fuel for one lap.\<close>

fun tx_clean_pkt :: "nat \<Rightarrow> nat \<Rightarrow> nat \<Rightarrow> idpf_txq \<times> napi_stats \<Rightarrow> (nat \<times> idpf_txq \<times> napi_stats) option" where
  "tx_clean_pkt fuel eop_idx ntc qs =
     (if ntc = eop_idx then Some (ntc, qs)
      else case fuel of 0 \<Rightarrow> None
        | Suc fuel' \<Rightarrow> let ntc' = tx_clean_bump (fst qs) ntc
                      in tx_clean_pkt fuel' eop_idx ntc' (libeth_tx_complete ntc' qs))"

fun tx_clean_descs :: "nat \<Rightarrow> nat \<Rightarrow> nat \<Rightarrow> idpf_txq \<times> napi_stats \<Rightarrow> (nat \<times> idpf_txq \<times> napi_stats) option" where
  "tx_clean_descs fuel stop ntc qs =
     (if ntc = stop then Some (ntc, qs)
      else case fuel of 0 \<Rightarrow> None
        | Suc fuel' \<Rightarrow>
            let sqe = tx_bufs (fst qs) ! ntc in
            if sqe_type sqe = LIBETH_SQE_CTX
            then tx_clean_descs fuel' stop (tx_clean_bump (fst qs) ntc) qs
            else case tx_clean_pkt (desc_count (fst qs)) (sqe_rs_idx sqe) ntc (libeth_tx_complete ntc qs) of
                   None \<Rightarrow> None
                 | Some (ntc', qs') \<Rightarrow> tx_clean_descs fuel' stop (tx_clean_bump (fst qs') ntc') qs')"

definition idpf_tx_splitq_clean ::
  "nat \<Rightarrow> bool \<Rightarrow> idpf_txq \<times> napi_stats \<Rightarrow> (idpf_txq \<times> napi_stats) option" where
  "idpf_tx_splitq_clean stop descs_only qs = (case qs of (q, ss) \<Rightarrow>
     if descs_only then Some (q\<lparr>next_to_clean := stop\<rparr>, ss)
     else case tx_clean_descs (desc_count q) stop (next_to_clean q) qs of None \<Rightarrow> None
        | Some (ntc, q, ss) \<Rightarrow> Some (q\<lparr>next_to_clean := ntc\<rparr>, ss))"

declare tx_clean_chain.simps [simp del] tx_clean_pkt.simps [simp del] tx_clean_descs.simps [simp del]

section \<open>Exception path\<close>

definition timer_kfree :: "ptr \<Rightarrow> idpf_txq \<Rightarrow> idpf_txq" where
  "timer_kfree p q = (case timer_heap q p of None \<Rightarrow> q\<lparr>timer_bad := True\<rparr>
     | Some _ \<Rightarrow> q\<lparr>timer_heap := (timer_heap q)(p := None)\<rparr>)"

text \<open>\<open>kzalloc\<close> answers \<open>p\<close> and \<open>xa_store\<close> succeeds if \<open>xa_ok\<close>.\<close>

definition idpf_tx_start_reinject_timer ::
  "ptr \<Rightarrow> bool \<Rightarrow> nat \<Rightarrow> idpf_txq \<Rightarrow> ret \<times> idpf_txq" where
  "idpf_tx_start_reinject_timer p xa_ok compl_tag q =
     (if p = NULL \<or> timer_heap q p \<noteq> None then (Some ENOMEM, q)
      else
        let sqe = tx_bufs q ! compl_tag;
            q = q\<lparr>timer_heap := (timer_heap q)(p \<mapsto>
                    \<lparr>rt_skb = sqe_skb sqe, rt_bytes = sqe_bytes sqe, rt_gso_segs = trunc16 (sqe_packets sqe)\<rparr>),
                  timer_armed := insert p (timer_armed q)\<rparr>
        in if xa_ok then (ret_ok, q\<lparr>reinject_timers := (reinject_timers q)(compl_tag \<mapsto> p)\<rparr>)
           else (Some ENOMEM, timer_kfree p q))"

definition idpf_tx_handle_reinject_expire :: "ptr \<Rightarrow> idpf_txq \<Rightarrow> idpf_txq" where
  "idpf_tx_handle_reinject_expire p q =
     (let q = q\<lparr>timer_armed := timer_armed q - {p}\<rparr>
      in case timer_heap q p of None \<Rightarrow> q\<lparr>timer_bad := True\<rparr>
         | Some t \<Rightarrow> timer_kfree p (tx_emit (BqlCompleted (rt_gso_segs t) (rt_bytes t))
                                    (tx_emit (SkbConsume (rt_skb t)) q)))"

definition idpf_tx_handle_miss_completion ::
  "ptr \<times> bool \<Rightarrow> nat \<Rightarrow> idpf_txq \<times> napi_stats \<Rightarrow> (idpf_txq \<times> napi_stats) option" where
  "idpf_tx_handle_miss_completion kern compl_tag qs = (case qs of (q, ss) \<Rightarrow>
     if compl_tag \<ge> length (tx_bufs q) then None
     else if sqe_type (tx_bufs q ! compl_tag) = LIBETH_SQE_REINJECT
     then idpf_tx_clean_bufs compl_tag (tx_buf_upd compl_tag (sqe_type_update (\<lambda>_. LIBETH_SQE_SKB)) q, ss)
     else case idpf_tx_start_reinject_timer (fst kern) (snd kern) compl_tag q of
            (Some e, q) \<Rightarrow> idpf_tx_clean_bufs compl_tag (q, ss)
          | (None, q) \<Rightarrow> idpf_tx_clean_bufs compl_tag
                          (tx_buf_upd compl_tag (sqe_type_update (\<lambda>_. LIBETH_SQE_MISS)) q, ss))"

definition idpf_tx_handle_reinject_completion ::
  "nat \<Rightarrow> idpf_txq \<times> napi_stats \<Rightarrow> (idpf_txq \<times> napi_stats) option" where
  "idpf_tx_handle_reinject_completion compl_tag qs = (case qs of (q, ss) \<Rightarrow>
     if compl_tag \<ge> length (tx_bufs q) then None
     else
       let sqe = tx_bufs q ! compl_tag in
       if sqe_type sqe = LIBETH_SQE_MISS then
         (case reinject_timers q compl_tag of None \<Rightarrow> Some (q, ss)
          | Some p \<Rightarrow>
              let q = q\<lparr>reinject_timers := (reinject_timers q)(compl_tag := None)\<rparr>;
                  q = q\<lparr>timer_armed := timer_armed q - {p},
                        timer_bad := (timer_bad q \<or> timer_heap q p = None)\<rparr>;
                  q = timer_kfree p q
              in Some (libeth_tx_complete compl_tag
                   (tx_buf_upd compl_tag (sqe_type_update (\<lambda>_. LIBETH_SQE_REINJECT)) q, ss)))
       else if sqe_type sqe = LIBETH_SQE_SKB then
         Some ((tx_buf_upd compl_tag (sqe_type_update (\<lambda>_. LIBETH_SQE_REINJECT)) q)
                 \<lparr>next_to_clean := (let n = trunc16 (Suc (sqe_rs_idx sqe)) in if n \<ge> desc_count q then 0 else n)\<rparr>, ss)
       else Some (q, ss))"

definition IDPF_TX_SPLITQ_MISS_COMPL_TAG :: u16 where
  "IDPF_TX_SPLITQ_MISS_COMPL_TAG = push_bit 15 1"

definition idpf_tx_handle_rs_completion ::
  "ptr \<times> bool \<Rightarrow> u16 \<Rightarrow> idpf_txq \<times> napi_stats \<Rightarrow> (idpf_txq \<times> napi_stats) option" where
  "idpf_tx_handle_rs_completion kern rs_compl_val qs =
     (if \<not> FLOW_SCH_EN (fst qs) then idpf_tx_splitq_clean (unat rs_compl_val) False qs
      else if MISS_TAG_EN (fst qs) \<and> rs_compl_val AND IDPF_TX_SPLITQ_MISS_COMPL_TAG \<noteq> 0
      then idpf_tx_handle_miss_completion kern
             (unat (rs_compl_val AND NOT IDPF_TX_SPLITQ_MISS_COMPL_TAG)) qs
      else idpf_tx_clean_bufs (unat rs_compl_val) qs)"

section \<open>The completion queue\<close>

record idpf_splitq_tx_compl_desc =
  qid_comptype_gen :: u16
  q_head_compl_tag :: u16

text \<open>
  A queue group with its completion queue.  The code runs its index from \<open>-desc_count\<close> up to 0;
  here it is the slot.  \<open>other_sw_marker\<close>: some queue of the vport in another group still waits for
  its marker; \<open>sw_marker_done\<close>: \<open>IDPF_VPORT_SW_MARKER\<close> was set and the waiter woken.
\<close>

record idpf_tx_group =
  grp_txqs :: "idpf_txq list"
  grp_compl :: tx_compl
  cq_descs :: "idpf_splitq_tx_compl_desc list"
  cq_gen :: bool
  cq_next_to_clean :: nat
  other_sw_marker :: bool
  sw_marker_done :: bool

definition compl_gen :: "idpf_splitq_tx_compl_desc \<Rightarrow> bool" where
  "compl_gen d = bit (qid_comptype_gen d) 15"

definition compl_type :: "idpf_splitq_tx_compl_desc \<Rightarrow> nat" where
  "compl_type d = unat (drop_bit 11 (qid_comptype_gen d) AND 7)"

definition compl_qid :: "idpf_splitq_tx_compl_desc \<Rightarrow> nat" where
  "compl_qid d = unat (qid_comptype_gen d AND 0x3FF)"

definition idpf_tx_handle_sw_marker :: "nat \<Rightarrow> idpf_tx_group \<Rightarrow> idpf_tx_group" where
  "idpf_tx_handle_sw_marker j g =
     (let g = g\<lparr>grp_txqs := (grp_txqs g)[j := (grp_txqs g ! j)\<lparr>SW_MARKER := False\<rparr>]\<rparr>
      in if other_sw_marker g \<or> list_ex SW_MARKER (grp_txqs g) then g else g\<lparr>sw_marker_done := True\<rparr>)"

text \<open>
  One descriptor, the counters of its queue included.  The outer \<open>None\<close> is a call that does not
  return, the inner one an unknown queue or completion type, for which nothing is counted.
\<close>

definition complq_dispatch ::
  "ptr \<times> bool \<Rightarrow> idpf_splitq_tx_compl_desc \<Rightarrow> nat \<Rightarrow> idpf_tx_group \<Rightarrow> (idpf_tx_group \<times> napi_stats) option option" where
  "complq_dispatch kern d j g =
     (let q = grp_txqs g ! j; ss = \<lparr>ss_packets = 0, ss_bytes = 0\<rparr>; tag = q_head_compl_tag d;
          put = map_option (\<lambda>(q, ss). Some (g\<lparr>grp_txqs := (grp_txqs g)[j := q]\<rparr>, ss))
      in if compl_type d = 4 then put (idpf_tx_splitq_clean (unat tag) True (q, ss))
         else if compl_type d = 2 then put (idpf_tx_handle_rs_completion kern tag (q, ss))
         else if compl_type d = 5 then Some (Some (idpf_tx_handle_sw_marker j g, ss))
         else if compl_type d = 1 then put (idpf_tx_handle_miss_completion kern (unat tag) (q, ss))
         else if compl_type d = 3 then put (idpf_tx_handle_reinject_completion (unat tag) (q, ss))
         else Some None)"

definition complq_count :: "nat \<Rightarrow> napi_stats \<Rightarrow> idpf_tx_group \<Rightarrow> idpf_tx_group" where
  "complq_count j ss g =
     g\<lparr>grp_txqs := (grp_txqs g)[j := (grp_txqs g ! j)
           \<lparr>cleaned_pkts := trunc16 (cleaned_pkts (grp_txqs g ! j) + ss_packets ss),
            cleaned_bytes := trunc32 (cleaned_bytes (grp_txqs g ! j) + ss_bytes ss)\<rparr>],
       grp_compl := (grp_compl g)\<lparr>num_completions := num_completions (grp_compl g) + 1\<rparr>\<rparr>"

definition complq_desc :: "ptr \<times> bool \<Rightarrow> idpf_splitq_tx_compl_desc \<Rightarrow> idpf_tx_group \<Rightarrow> idpf_tx_group option" where
  "complq_desc kern d g =
     (if compl_qid d \<ge> length (grp_txqs g) then Some g
      else case complq_dispatch kern d (compl_qid d) g of None \<Rightarrow> None
         | Some None \<Rightarrow> Some g
         | Some (Some (g, ss)) \<Rightarrow> Some (complq_count (compl_qid d) ss g))"

definition complq_bump :: "idpf_tx_group \<Rightarrow> idpf_tx_group" where
  "complq_bump g =
     (let ntc = Suc (cq_next_to_clean g)
      in if ntc = length (cq_descs g) then g\<lparr>cq_next_to_clean := 0, cq_gen := \<not> cq_gen g\<rparr>
         else g\<lparr>cq_next_to_clean := ntc\<rparr>)"

text \<open>The loop with a budget of \<open>Suc b\<close>; it returns what is left of the budget.\<close>

primrec complq_loop :: "(nat \<Rightarrow> ptr \<times> bool) \<Rightarrow> nat \<Rightarrow> idpf_tx_group \<Rightarrow> (nat \<times> idpf_tx_group) option" where
  "complq_loop kern 0 g = Some (0, g)"
| "complq_loop kern (Suc b) g =
     (let d = cq_descs g ! cq_next_to_clean g in
      if cq_gen g \<noteq> compl_gen d then Some (Suc b, g)
      else case complq_desc (kern b) d g of None \<Rightarrow> None
         | Some g \<Rightarrow> complq_loop kern b (complq_bump g))"

text \<open>Restarting a stopped queue; \<open>carrier_ok\<close> is the state of the link, \<open>wake\<close> the threshold.\<close>

definition complq_queue_done :: "bool \<Rightarrow> bool \<Rightarrow> nat \<Rightarrow> idpf_txq \<Rightarrow> idpf_txq" where
  "complq_queue_done complq_ok carrier_ok wake q =
     (if XDP q then q\<lparr>cleaned_bytes := 0, cleaned_pkts := 0\<rparr>
      else if cleaned_bytes q = 0 then q
      else
        let q = (tx_emit (BqlCompleted (cleaned_pkts q) (cleaned_bytes q)) q)
                  \<lparr>cleaned_bytes := 0, cleaned_pkts := 0\<rparr>
        in if tx_stopped q \<and> complq_ok \<and> carrier_ok \<and> IDPF_DESC_UNUSED q \<ge> wake
           then q\<lparr>tx_stopped := False\<rparr> else q)"

definition complq_cleaned :: "idpf_txq \<Rightarrow> nat" where
  "complq_cleaned q = (if XDP q then cleaned_pkts q else if cleaned_bytes q = 0 then 0 else cleaned_pkts q)"

text \<open>\<open>IDPF_TX_WAKE_THRESH\<close> with the default \<open>MAX_SKB_FRAGS\<close> of 17.\<close>

definition IDPF_TX_WAKE_THRESH :: nat where
  "IDPF_TX_WAKE_THRESH = (17 + 6) * 2"

definition idpf_tx_clean_complq ::
  "(nat \<Rightarrow> ptr \<times> bool) \<Rightarrow> bool \<Rightarrow> nat \<Rightarrow> idpf_tx_group \<Rightarrow> (bool \<times> nat \<times> idpf_tx_group) option" where
  "idpf_tx_clean_complq kern carrier_ok complq_budget g =
     (case complq_loop kern complq_budget g of None \<Rightarrow> None
      | Some (left, g) \<Rightarrow>
          let complq_ok = (unat (IDPF_TX_COMPLQ_PENDING (grp_compl g))
                             \<le> IDPF_TX_COMPLQ_OVERFLOW_THRESH (grp_compl g))
          in Some (left \<noteq> 0, sum_list (map complq_cleaned (grp_txqs g)),
               g\<lparr>grp_txqs := map (complq_queue_done complq_ok carrier_ok IDPF_TX_WAKE_THRESH) (grp_txqs g)\<rparr>))"

end
