(* ===== verification/Idpf_Tx_Bufs.thy ===== *)
theory Idpf_Tx_Bufs
  imports Idpf_Tx_Map Idpf_Tx_Compl
begin

text \<open>
  Completing the buffers of a packet: the two loops that walk a chain of buffers, one when a packet
  is undone and one when it has been sent, as folds over the list of its buffers.
\<close>

section \<open>One buffer\<close>

definition sqe_events :: "libeth_sqe \<Rightarrow> tx_event list" where
  "sqe_events s =
     (if sqe_type s \<in> {LIBETH_SQE_SKB, LIBETH_SQE_FRAG, LIBETH_SQE_SLAB} then [DmaUnmap (sqe_dma s) (sqe_len s)] else [])
     @ (if sqe_type s = LIBETH_SQE_SKB then [SkbConsume (sqe_skb s)]
        else if sqe_type s = LIBETH_SQE_SLAB then [SlabFree (sqe_skb s)] else [])"

definition sqe_count :: "libeth_sqe \<Rightarrow> napi_stats \<Rightarrow> napi_stats" where
  "sqe_count s ss = (if sqe_type s = LIBETH_SQE_SKB
     then ss\<lparr>ss_packets := ss_packets ss + sqe_packets s, ss_bytes := ss_bytes ss + sqe_bytes s\<rparr> else ss)"

definition sqe_clear :: "nat \<Rightarrow> libeth_sqe list \<Rightarrow> libeth_sqe list" where
  "sqe_clear b bufs = bufs[b := (bufs ! b)\<lparr>sqe_type := LIBETH_SQE_EMPTY\<rparr>]"

lemma sqe_clear_id:
  assumes "sqe_type (bufs ! b) = LIBETH_SQE_EMPTY"
  shows "sqe_clear b bufs = bufs"
  unfolding sqe_clear_def assms [symmetric] by simp

lemma libeth_tx_complete_eq:
  "libeth_tx_complete b (q, ss) =
     (q\<lparr>tx_log := tx_log q @ sqe_events (tx_bufs q ! b), tx_bufs := sqe_clear b (tx_bufs q)\<rparr>,
      sqe_count (tx_bufs q ! b) ss)"
proof (cases "sqe_type (tx_bufs q ! b) = LIBETH_SQE_EMPTY")
  case True
  then show ?thesis
    by (simp add: libeth_tx_complete_def sqe_clear_id sqe_events_def sqe_count_def)
next
  case False
  then show ?thesis
    by (simp add: libeth_tx_complete_def Let_def tx_emit_def tx_buf_upd_def sqe_clear_def
        sqe_events_def sqe_count_def)
qed

lemma length_sqe_clear [simp]: "length (sqe_clear b bufs) = length bufs"
  by (simp add: sqe_clear_def)

lemma sqe_clear_nth: "x < length bufs \<Longrightarrow> sqe_clear b bufs ! x =
    (if x = b then (bufs ! x)\<lparr>sqe_type := LIBETH_SQE_EMPTY\<rparr> else bufs ! x)"
  by (auto simp: sqe_clear_def nth_list_update)

lemma sqe_clear_other: "x \<noteq> b \<Longrightarrow> sqe_clear b bufs ! x = bufs ! x"
  by (simp add: sqe_clear_def)

lemma sqe_next_clear [simp]: "sqe_next (sqe_clear b bufs ! x) = sqe_next (bufs ! x)"
  by (cases "b < length bufs"; cases "x = b") (simp_all add: sqe_clear_def list_update_beyond)

section \<open>Chains\<close>

definition sqe_clear_all :: "nat list \<Rightarrow> libeth_sqe list \<Rightarrow> libeth_sqe list" where
  "sqe_clear_all bs bufs = fold sqe_clear bs bufs"

lemma sqe_clear_all_simps [simp]:
  "sqe_clear_all [] bufs = bufs"
  "sqe_clear_all (b # bs) bufs = sqe_clear_all bs (sqe_clear b bufs)"
  by (simp_all add: sqe_clear_all_def)

lemma length_sqe_clear_all [simp]: "length (sqe_clear_all bs bufs) = length bufs"
  by (induction bs arbitrary: bufs) auto

lemma sqe_clear_all_nth: "x < length bufs \<Longrightarrow> sqe_clear_all bs bufs ! x =
    (if x \<in> set bs then (bufs ! x)\<lparr>sqe_type := LIBETH_SQE_EMPTY\<rparr> else bufs ! x)"
  by (induction bs arbitrary: bufs) (auto simp: sqe_clear_nth)

lemma map_nth_sqe_clear: "b \<notin> set bs \<Longrightarrow> map (\<lambda>x. f (sqe_clear b bufs ! x)) bs = map (\<lambda>x. f (bufs ! x)) bs"
  by (induction bs) (auto simp: sqe_clear_other)

lemma tx_chain_clear: "tx_chain (sqe_clear b bufs) bs = tx_chain bufs bs"
  by (rule tx_chain_cong) simp

text \<open>The loop of the error path completes the buffers after the first one in order.\<close>

lemma tx_complete_chain_eq:
  assumes "tx_chain (tx_bufs q) (b # bs)" and "distinct bs" and "length bs \<le> fuel"
  shows "\<exists>ss'. tx_complete_chain fuel b (q, ss) =
    Some (q\<lparr>tx_log := tx_log q @ concat (map (\<lambda>x. sqe_events (tx_bufs q ! x)) bs),
            tx_bufs := sqe_clear_all bs (tx_bufs q)\<rparr>, ss')"
  using assms
proof (induction bs arbitrary: fuel b q ss)
  case Nil
  then show ?case by (simp add: tx_complete_chain.simps Let_def)
next
  case (Cons b' bs)
  then obtain fuel' where f: "fuel = Suc fuel'" by (cases fuel) auto
  let ?q = "q\<lparr>tx_log := tx_log q @ sqe_events (tx_bufs q ! b'), tx_bufs := sqe_clear b' (tx_bufs q)\<rparr>"
  let ?ss = "sqe_count (tx_bufs q ! b') ss"
  have step: "tx_complete_chain fuel b (q, ss) = tx_complete_chain fuel' b' (?q, ?ss)"
    using Cons.prems f
    by (subst tx_complete_chain.simps) (simp add: Let_def libeth_tx_complete_eq)
  have "\<exists>ss'. tx_complete_chain fuel' b' (?q, ?ss) =
    Some (?q\<lparr>tx_log := tx_log ?q @ concat (map (\<lambda>x. sqe_events (tx_bufs ?q ! x)) bs),
            tx_bufs := sqe_clear_all bs (tx_bufs ?q)\<rparr>, ss')"
    by (rule Cons.IH) (use Cons.prems f in \<open>simp_all add: tx_chain_clear\<close>)
  then show ?case
    unfolding step using Cons.prems(2) by (simp add: map_nth_sqe_clear)
qed

section \<open>Chains whose ids are posted\<close>

definition refill_post_all :: "nat list \<Rightarrow> idpf_sw_queue \<Rightarrow> idpf_sw_queue" where
  "refill_post_all bs r = fold (\<lambda>b r. idpf_post_buf_refill r (of_nat b)) bs r"

lemma refill_post_all_simps [simp]:
  "refill_post_all [] r = r"
  "refill_post_all (b # bs) r = refill_post_all bs (idpf_post_buf_refill r (of_nat b))"
  by (simp_all add: refill_post_all_def)

lemma refill_post_all_ok:
  assumes "refill_ok r" and "length (refill_ids r) + length bs \<le> rfl_desc_count r"
    and "\<forall>b\<in>set bs. b < 65536"
  shows "refill_ok (refill_post_all bs r) \<and>
    refill_ids (refill_post_all bs r) = refill_ids r @ map of_nat bs \<and>
    rfl_desc_count (refill_post_all bs r) = rfl_desc_count r"
  using assms
proof (induction bs arbitrary: r)
  case (Cons b bs)
  let ?r = "idpf_post_buf_refill r (of_nat b)"
  have room: "refill_used r < rfl_desc_count r" using Cons.prems(2) by simp
  note p = refill_ok_post [OF Cons.prems(1) room] refill_ids_post [OF Cons.prems(1) room]
  have b: "(ucast (word_of_nat b :: u16) :: u32) = word_of_nat b"
    using Cons.prems(3) by (simp add: unsigned_of_nat take_bit_nat_eq_self)
  have len: "length (refill_ids ?r) + length bs \<le> rfl_desc_count ?r"
    using Cons.prems(2) p(2) [of "of_nat b"] by (simp del: length_refill_ids)
  from Cons.IH [OF p(1) len] Cons.prems(3) p(2) [of "of_nat b"] b
  show ?case by simp
qed simp

lemma tx_clean_one_eq:
  "tx_refillq q = Some r \<Longrightarrow> tx_clean_one b (q, ss) =
     Some (q\<lparr>tx_log := tx_log q @ sqe_events (tx_bufs q ! b), tx_bufs := sqe_clear b (tx_bufs q),
             tx_refillq := Some (idpf_post_buf_refill r (of_nat b))\<rparr>, sqe_count (tx_bufs q ! b) ss)"
  by (simp add: tx_clean_one_def libeth_tx_complete_eq tx_post_id_def)

lemma tx_clean_chain_eq:
  assumes "tx_chain (tx_bufs q) (b # bs)" and "distinct bs" and "length bs \<le> fuel"
    and "\<forall>x\<in>set bs. x < 65536" and "tx_refillq q = Some r"
  shows "tx_clean_chain fuel b (q, ss) =
    Some (q\<lparr>tx_log := tx_log q @ concat (map (\<lambda>x. sqe_events (tx_bufs q ! x)) bs),
            tx_bufs := sqe_clear_all bs (tx_bufs q), tx_refillq := Some (refill_post_all bs r)\<rparr>,
          fold (\<lambda>x. sqe_count (tx_bufs q ! x)) bs ss)"
  using assms
proof (induction bs arbitrary: fuel b q ss r)
  case Nil
  then show ?case by (simp add: tx_clean_chain.simps Let_def)
next
  case (Cons b' bs)
  then obtain fuel' where f: "fuel = Suc fuel'" by (cases fuel) auto
  let ?r = "idpf_post_buf_refill r (of_nat b')"
  let ?q = "q\<lparr>tx_log := tx_log q @ sqe_events (tx_bufs q ! b'), tx_bufs := sqe_clear b' (tx_bufs q),
              tx_refillq := Some ?r\<rparr>"
  let ?ss = "sqe_count (tx_bufs q ! b') ss"
  have step: "tx_clean_chain fuel b (q, ss) = tx_clean_chain fuel' b' (?q, ?ss)"
    using Cons.prems f
    by (subst tx_clean_chain.simps) (simp add: Let_def tx_clean_one_eq)
  have ih: "tx_clean_chain fuel' b' (?q, ?ss) =
    Some (?q\<lparr>tx_log := tx_log ?q @ concat (map (\<lambda>x. sqe_events (tx_bufs ?q ! x)) bs),
            tx_bufs := sqe_clear_all bs (tx_bufs ?q), tx_refillq := Some (refill_post_all bs ?r)\<rparr>,
          fold (\<lambda>x. sqe_count (tx_bufs ?q ! x)) bs ?ss)"
    by (rule Cons.IH) (use Cons.prems f in \<open>simp_all add: tx_chain_clear\<close>)
  have "fold (\<lambda>x. sqe_count (sqe_clear b' (tx_bufs q) ! x)) bs ?ss =
      fold (\<lambda>x. sqe_count (tx_bufs q ! x)) bs ?ss"
    by (rule fold_cong) (use Cons.prems(2) sqe_clear_other in \<open>metis distinct.simps(2)\<close>)+
  then show ?case
    unfolding step ih using Cons.prems(2) by (simp add: map_nth_sqe_clear)
qed

end
