(* ===== verification/Idpf_Tx_Frame.thy ===== *)
theory Idpf_Tx_Frame
  imports Idpf_Tx
begin

text \<open>
  Sending one packet in the split queue model: segmentation offload, launch time, context
  descriptors, and \<open>idpf_tx_splitq_frame\<close> with the entry point \<open>idpf_tx_splitq_start\<close>
  (\<open>idpf_txrx.c\<close>).  Of the header bytes that \<open>idpf_tso\<close> rewrites only the lengths it computes are
  modelled.
\<close>

section \<open>Offloads\<close>

definition tx_no_offload :: idpf_tx_offload_params where
  "tx_no_offload = \<lparr>off_tso = False, off_tsyn = False, off_tso_len = 0, off_mss = 0, off_tso_segs = 0,
     off_tso_hdr_len = 0, off_td_cmd = 0, off_desc_ts = (0, 0, 0)\<rparr>"

text \<open>\<open>Inl\<close> an error, \<open>Inr False\<close> for 0 and \<open>Inr True\<close> for 1.\<close>

definition idpf_tso ::
  "tx_env \<Rightarrow> sk_buff \<Rightarrow> idpf_tx_offload_params \<Rightarrow> (errno + bool) \<times> idpf_tx_offload_params" where
  "idpf_tso env skb off =
     (if \<not> skb_is_gso skb then (Inr False, off)
      else case env_cow_head env of Some e \<Rightarrow> (Inl e, off)
      | None \<Rightarrow>
          let l4_start = skb_transport_offset skb;
              hdr_len = (case skb_gso_type skb of
                 SKB_GSO_TCPV4 \<Rightarrow> Some (skb_tcp_hdrlen skb + l4_start)
               | SKB_GSO_TCPV6 \<Rightarrow> Some (skb_tcp_hdrlen skb + l4_start)
               | SKB_GSO_UDP_L4 \<Rightarrow> Some (8 + l4_start)
               | SKB_GSO_OTHER \<Rightarrow> None)
          in case hdr_len of None \<Rightarrow> (Inl EINVAL, off)
           | Some h \<Rightarrow> (Inr True, off\<lparr>off_tso_hdr_len := trunc16 h, off_tso_len := trunc32 (skb_len skb + 4294967296 - trunc16 h),
                off_mss := trunc16 (skb_gso_size skb), off_tso_segs := trunc16 (skb_gso_segs skb),
                off_tso := True\<rparr>))"

definition idpf_get_flow_sche_tstamp ::
  "tx_env \<Rightarrow> sk_buff \<Rightarrow> idpf_tx_offload_params \<Rightarrow> idpf_tx_offload_params" where
  "idpf_get_flow_sche_tstamp env skb off =
     (let ts_ns = skb_tstamp skb; cur_time = env_cur_time env in
      if ts_ns = 0 then (case off_desc_ts off of (a, b, c) \<Rightarrow> off\<lparr>off_desc_ts := (1, b, c)\<rparr>)
      else if ts_ns > cur_time + env_tw_horizon env
      then (case off_desc_ts off of (a, b, c) \<Rightarrow> off\<lparr>off_desc_ts := (a, b, 128)\<rparr>)
      else let ts_val = drop_bit (env_tw_gran env) (max ts_ns cur_time)
           in off\<lparr>off_desc_ts := (ucast (ts_val AND 255), ucast (drop_bit 8 ts_val AND 255),
                                 ucast (drop_bit 16 ts_val AND 127))\<rparr>)"

text \<open>
  The index of a timestamp slot, or \<open>None\<close> for -1; \<open>env_request_ts\<close> answers the capability
  check and \<open>idpf_ptp_request_ts\<close>.
\<close>

definition idpf_tx_tstamp ::
  "tx_env \<Rightarrow> sk_buff \<Rightarrow> idpf_tx_offload_params \<Rightarrow> u32 option \<times> idpf_tx_offload_params" where
  "idpf_tx_tstamp env skb off =
     (if \<not> skb_hw_tstamp skb then (None, off)
      else if off_tso off then (None, off)
      else case env_request_ts env of None \<Rightarrow> (None, off)
       | Some idx \<Rightarrow> (Some idx, off\<lparr>off_tsyn := True\<rparr>))"

section \<open>Context descriptors\<close>

text \<open>Takes the next slot of the ring for a context descriptor whose second quad word is \<open>d\<close>.\<close>

definition idpf_tx_splitq_get_ctx_desc :: "tx_qw1 \<Rightarrow> idpf_txq \<Rightarrow> idpf_txq" where
  "idpf_tx_splitq_get_ctx_desc d q =
     (let i = next_to_use q
      in (tx_slot_upd i (tx_qw1_update (\<lambda>_. d)) q)\<lparr>next_to_use := idpf_tx_splitq_bump_ntu q i\<rparr>)"

definition tx_tso_desc :: "idpf_tx_offload_params \<Rightarrow> tx_qw1" where
  "tx_tso_desc off = QW1_TSO (5 OR push_bit 5 1) (of_nat (off_tso_len off) AND 0x3FFFF)
     (of_nat (off_mss off) AND 0x3FFF) (of_nat (off_tso_hdr_len off))"

definition idpf_tx_prepare_vlan_tag :: "u16 \<Rightarrow> idpf_txq \<Rightarrow> idpf_txq" where
  "idpf_tx_prepare_vlan_tag tag =
     idpf_tx_splitq_get_ctx_desc (QW1_VLAN (4 OR push_bit 14 1 OR push_bit 16 (ucast tag)))"

definition idpf_tx_set_tstamp_desc :: "u32 \<Rightarrow> tx_qw1" where
  "idpf_tx_set_tstamp_desc idx = QW1_TSYN (push_bit 4 2 OR 1) (push_bit 14 (ucast idx)) (ucast (drop_bit 2 idx))"

section \<open>One packet\<close>

datatype netdev_tx = NETDEV_TX_OK | NETDEV_TX_BUSY

definition idpf_tx_drop_skb :: "idpf_txq \<Rightarrow> sk_buff \<Rightarrow> idpf_txq" where
  "idpf_tx_drop_skb q skb = tx_emit (SkbFree (skb_ptr skb)) (idpf_tx_buf_hw_update q (next_to_use q) False)"

text \<open>The context descriptors, in the order the device wants them.\<close>

definition tx_frame_ctx ::
  "tx_env \<Rightarrow> sk_buff \<Rightarrow> bool \<Rightarrow> idpf_tx_offload_params \<Rightarrow> idpf_txq \<Rightarrow> idpf_tx_offload_params \<times> idpf_txq" where
  "tx_frame_ctx env skb tso off q =
     (let q = (if tso then idpf_tx_splitq_get_ctx_desc (tx_tso_desc off) q else q);
          q = (case skb_vlan_tag skb of None \<Rightarrow> q | Some tag \<Rightarrow> idpf_tx_prepare_vlan_tag tag q)
      in case idpf_tx_tstamp env skb off of (idx, off) \<Rightarrow>
           (off, case idx of None \<Rightarrow> q | Some i \<Rightarrow> idpf_tx_splitq_get_ctx_desc (idpf_tx_set_tstamp_desc i) q))"

text \<open>The parameters of a packet on a queue with queue based scheduling.\<close>

definition tx_frame_qparams ::
  "sk_buff \<Rightarrow> nat \<Rightarrow> idpf_tx_offload_params \<Rightarrow> idpf_tx_splitq_params" where
  "tx_frame_qparams skb prev_ntu off =
     \<lparr>p_dtype = IDPF_TX_DESC_DTYPE_FLEX_L2TAG1_L2TAG2, p_eop_cmd = 3, p_compl_tag = 0,
      p_offload = (if skb_csum_partial skb then off\<lparr>off_td_cmd := off_td_cmd off OR 0x20\<rparr> else off),
      p_prev_ntu = prev_ntu, p_prev_refill_ntc = 0, p_prev_refill_gen = False\<rparr>"

definition tx_frame_fparams ::
  "sk_buff \<Rightarrow> nat \<Rightarrow> idpf_tx_offload_params \<Rightarrow> idpf_sw_queue \<Rightarrow> u32 \<Rightarrow> bool \<Rightarrow> idpf_tx_splitq_params" where
  "tx_frame_fparams skb prev_ntu off r buf_id re =
     \<lparr>p_dtype = IDPF_TX_DESC_DTYPE_FLEX_FLOW_SCHE, p_eop_cmd = (if re then 0x20 OR 0x80 else 0x20),
      p_compl_tag = buf_id,
      p_offload = (if skb_csum_partial skb then off\<lparr>off_td_cmd := off_td_cmd off OR 0x40\<rparr> else off),
      p_prev_ntu = prev_ntu, p_prev_refill_ntc = trunc16 (rfl_next_to_clean r),
      p_prev_refill_gen = rfl_RFL_GEN_CHK r\<rparr>"

definition tx_frame_first :: "sk_buff \<Rightarrow> bool \<Rightarrow> idpf_tx_offload_params \<Rightarrow> nat \<Rightarrow> idpf_txq \<Rightarrow> idpf_txq" where
  "tx_frame_first skb tso off b =
     tx_buf_upd b (\<lambda>s. s\<lparr>sqe_skb := skb_ptr skb,
       sqe_packets := (if tso then off_tso_segs off else 1),
       sqe_bytes := (if tso then trunc32 (skb_len skb + trunc32 (off_tso_segs off + 4294967295) * off_tso_hdr_len off)
                     else max (skb_len skb) 60)\<rparr>)"

text \<open>The body of \<open>idpf_tx_splitq_frame\<close> once there is room and the context descriptors are written.\<close>

definition tx_frame_send ::
  "tx_env \<Rightarrow> sk_buff \<Rightarrow> bool \<Rightarrow> nat \<Rightarrow> idpf_tx_offload_params \<Rightarrow> idpf_txq \<times> tx_compl
    \<Rightarrow> (netdev_tx \<times> idpf_txq \<times> tx_compl) option" where
  "tx_frame_send env skb tso prev_ntu off qc = (case qc of (q, c) \<Rightarrow>
     if FLOW_SCH_EN q then
       (case tx_refillq q of None \<Rightarrow> None
        | Some r \<Rightarrow>
            let off = (if ETF_EN q then idpf_get_flow_sche_tstamp env skb off else off)
            in case idpf_tx_get_free_buf_id r of
                 (None, r') \<Rightarrow>
                    let r' = refill_rollback (rfl_RFL_GEN_CHK r) (trunc16 (rfl_next_to_clean r)) r';
                        q = q\<lparr>tx_refillq := Some r', next_to_use := prev_ntu\<rparr>
                    in Some (NETDEV_TX_OK, idpf_tx_drop_skb q skb, c)
               | (Some buf_id, r') \<Rightarrow>
                    let re = idpf_tx_splitq_need_re q;
                        params = tx_frame_fparams skb prev_ntu off r buf_id re;
                        q = q\<lparr>tx_refillq := Some r', last_re := (if re then next_to_use q else last_re q)\<rparr>;
                        c = (if re then c\<lparr>num_completions_pending := num_completions_pending c + 1\<rparr> else c);
                        q = tx_frame_first skb tso off (unat buf_id) q
                    in map_option (Pair NETDEV_TX_OK)
                         (idpf_tx_splitq_map env params skb (unat buf_id) (q, c)))
     else
       let b = next_to_use q; q = tx_frame_first skb tso off b q
       in map_option (Pair NETDEV_TX_OK)
            (idpf_tx_splitq_map env (tx_frame_qparams skb prev_ntu off) skb b (q, c)))"

definition idpf_tx_splitq_frame ::
  "tx_env \<Rightarrow> sk_buff \<Rightarrow> idpf_txq \<times> tx_compl \<Rightarrow> (netdev_tx \<times> idpf_txq \<times> tx_compl) option" where
  "idpf_tx_splitq_frame env skb qc = (case qc of (q, c) \<Rightarrow>
     let prev_ntu = next_to_use q in
     case idpf_tx_res_count_required env q skb of (cnt, buf_count, skb) \<Rightarrow>
       if cnt = 0 then Some (NETDEV_TX_OK, idpf_tx_drop_skb q skb, c)
       else case idpf_tso env skb tx_no_offload of
         (Inl e, off) \<Rightarrow> Some (NETDEV_TX_OK, idpf_tx_drop_skb q skb, c)
       | (Inr tso, off) \<Rightarrow>
           let cnt = cnt + of_bool tso + of_bool (skb_vlan_tag skb \<noteq> None)
           in case idpf_tx_maybe_stop_splitq q c cnt buf_count of None \<Rightarrow> None
            | Some (Some e, q) \<Rightarrow> Some (NETDEV_TX_BUSY, idpf_tx_buf_hw_update q (next_to_use q) False, c)
            | Some (None, q) \<Rightarrow>
                (case tx_frame_ctx env skb tso off q of (off, q) \<Rightarrow>
                   tx_frame_send env skb tso prev_ntu off (q, c)))"

text \<open>
  \<open>skb_put_padto\<close> pads to the minimal length and frees the packet when it cannot; \<open>padded\<close> is the
  packet it leaves.
\<close>

definition idpf_tx_splitq_start ::
  "tx_env \<Rightarrow> sk_buff \<Rightarrow> nat \<Rightarrow> sk_buff option \<Rightarrow> (idpf_txq \<times> tx_compl) list
    \<Rightarrow> (netdev_tx \<times> (idpf_txq \<times> tx_compl) list \<times> ptr list) option" where
  "idpf_tx_splitq_start env skb mapping padded txqs =
     (if mapping \<ge> length txqs then Some (NETDEV_TX_OK, txqs, [skb_ptr skb])
      else case txqs ! mapping of (q, c) \<Rightarrow>
        (case padded of
           None \<Rightarrow> Some (NETDEV_TX_OK, txqs[mapping := (idpf_tx_buf_hw_update q (next_to_use q) False, c)],
                       [skb_ptr skb])
         | Some skb' \<Rightarrow>
             map_option (\<lambda>(r, qc). (r, txqs[mapping := qc], [])) (idpf_tx_splitq_frame env skb' (q, c))))"

end
