(* ===== verification/Idpf_Tx_Packet.thy ===== *)
theory Idpf_Tx_Packet
  imports Idpf_Tx_Bufs Idpf_Tx_Frame
begin

text \<open>
  The buffers of a packet while \<open>idpf_tx_splitq_map\<close> runs, what is left when it gives up, and the
  chain it leaves when it succeeds.
\<close>

section \<open>The part built so far\<close>

fun tx_links :: "libeth_sqe list \<Rightarrow> nat list \<Rightarrow> nat \<Rightarrow> bool" where
  "tx_links bufs [] b = True"
| "tx_links bufs (x # xs) b =
     (sqe_next (bufs ! x) \<noteq> IDPF_TXBUF_NULL \<and> unat (sqe_next (bufs ! x)) = hd (xs @ [b]) \<and> tx_links bufs xs b)"

lemma tx_links_snoc: "tx_links bufs (xs @ [x]) b \<longleftrightarrow>
    tx_links bufs xs x \<and> sqe_next (bufs ! x) \<noteq> IDPF_TXBUF_NULL \<and> unat (sqe_next (bufs ! x)) = b"
  by (induction xs) (auto simp: hd_append)

lemma tx_links_cong: "\<forall>x\<in>set xs. sqe_next (bufs' ! x) = sqe_next (bufs ! x) \<Longrightarrow>
    tx_links bufs' xs b = tx_links bufs xs b"
  by (induction xs) auto

lemma tx_links_chain: "tx_links bufs xs b \<Longrightarrow> sqe_next (bufs ! b) = IDPF_TXBUF_NULL \<Longrightarrow> tx_chain bufs (xs @ [b])"
proof (induction xs)
  case (Cons x xs)
  then show ?case by (cases xs) auto
qed simp

text \<open>
  The buffers \<open>bs\<close> hold the regions \<open>rgs\<close> and lead to \<open>b\<close>, the one being filled; \<open>bufs0\<close> is the
  array the packet started with.
\<close>

definition tx_built ::
  "nat \<Rightarrow> libeth_sqe list \<Rightarrow> nat list \<Rightarrow> (u64 \<times> nat) list \<Rightarrow> nat \<Rightarrow> libeth_sqe list \<Rightarrow> bool" where
  "tx_built first bufs0 bs rgs b bufs \<longleftrightarrow>
     distinct (bs @ [b]) \<and> (\<forall>x\<in>set (bs @ [b]). x < length bufs) \<and> length bufs = length bufs0 \<and>
     hd (bs @ [b]) = first \<and> tx_links bufs bs b \<and>
     map (\<lambda>x. sqe_region (bufs ! x)) bs = rgs \<and> (\<forall>x\<in>set bs. sqe_type (bufs ! x) = LIBETH_SQE_FRAG) \<and>
     sqe_same (bufs0 ! first) (bufs ! first) \<and>
     (\<forall>x<length bufs. x \<notin> set bs \<longrightarrow> sqe_type (bufs ! x) = sqe_type (bufs0 ! x))"

lemma tx_built_first: "tx_built first bufs0 bs rgs b bufs \<Longrightarrow> first < length bufs \<and> b < length bufs"
  by (cases bs) (auto simp: tx_built_def)

lemma TXBUF_NULL_big: "unat nid < 65536 \<Longrightarrow> nid \<noteq> IDPF_TXBUF_NULL"
  by (auto simp: IDPF_TXBUF_NULL_def unsigned_minus_1_eq_mask mask_eq_exp_minus_1)

lemma tx_built_mapped:
  assumes "tx_built first bufs0 bs rgs b bufs" and "bufs' = tx_buf_mapped first b dma sz bufs"
  shows "\<forall>x\<in>set bs. sqe_next (bufs' ! x) = sqe_next (bufs ! x)"
    "map (\<lambda>x. sqe_region (bufs' ! x)) (bs @ [b]) = rgs @ [(dma, sz)]"
    "\<forall>x\<in>set (bs @ [b]). sqe_type (bufs' ! x) = LIBETH_SQE_FRAG"
    "sqe_same (bufs0 ! first) (bufs' ! first)"
    "\<forall>x<length bufs. x \<notin> set (bs @ [b]) \<longrightarrow> sqe_type (bufs' ! x) = sqe_type (bufs0 ! x)"
proof -
  have lt: "b < length bufs" "first < length bufs" using tx_built_first [OF assms(1)] by auto
  note n = tx_buf_mapped_nth [OF lt, where dma = dma and sz = sz, folded assms(2)]
  have nb: "b \<notin> set bs" using assms(1) by (simp add: tx_built_def)
  then have ne: "x \<in> set bs \<Longrightarrow> x \<noteq> b" for x by auto
  show "\<forall>x\<in>set bs. sqe_next (bufs' ! x) = sqe_next (bufs ! x)" using ne by (simp add: n(2))
  have "map (\<lambda>x. sqe_region (bufs' ! x)) bs = rgs"
    using assms(1) ne by (auto simp: tx_built_def n(2) sqe_region_def)
  then show "map (\<lambda>x. sqe_region (bufs' ! x)) (bs @ [b]) = rgs @ [(dma, sz)]"
    by (simp add: n(1) sqe_region_def)
  show "\<forall>x\<in>set (bs @ [b]). sqe_type (bufs' ! x) = LIBETH_SQE_FRAG"
    using assms(1) ne by (simp add: tx_built_def n)
  show "sqe_same (bufs0 ! first) (bufs' ! first)"
    using assms(1) n by (cases "first = b") (auto simp: tx_built_def sqe_same_def)
  show "\<forall>x<length bufs. x \<notin> set (bs @ [b]) \<longrightarrow> sqe_type (bufs' ! x) = sqe_type (bufs0 ! x)"
    using assms(1) by (auto simp: tx_built_def n(2))
qed

lemma tx_built_next:
  assumes bt: "tx_built first bufs0 bs rgs b bufs"
    and nid: "unat nid < length bufs" "unat nid \<notin> set (bs @ [b])" "length bufs \<le> 65536"
  shows "tx_built first bufs0 (bs @ [b]) (rgs @ [(dma, sz)]) (unat nid)
           (tx_buf_link b nid (tx_buf_mapped first b dma sz bufs))"
proof -
  let ?m = "tx_buf_mapped first b dma sz bufs" and ?l = "tx_buf_link b nid (tx_buf_mapped first b dma sz bufs)"
  note m = tx_built_mapped [OF bt refl, of dma sz]
  have lt: "b < length ?m" and nb: "b \<notin> set bs"
    using tx_built_first [OF bt] bt by (auto simp: tx_built_def)
  have l: "sqe_type (?l ! x) = sqe_type (?m ! x)" "sqe_region (?l ! x) = sqe_region (?m ! x)"
    "sqe_same s (?l ! x) = sqe_same s (?m ! x)" for x s
    using lt by (cases "x = b"; simp add: tx_buf_link_nth sqe_region_def sqe_same_def)+
  have nx: "x \<in> set bs \<Longrightarrow> sqe_next (?l ! x) = sqe_next (bufs ! x)" for x
    using m(1) nb by (cases "x = b") (auto simp: tx_buf_link_nth)
  have "tx_links ?l (bs @ [b]) (unat nid)"
    using bt tx_links_cong [of bs ?l bufs b] nx nid lt
    by (simp add: tx_built_def tx_links_snoc tx_buf_link_nth TXBUF_NULL_big)
  moreover have "hd ((bs @ [b]) @ [unat nid]) = first"
    using bt by (cases bs) (auto simp: tx_built_def)
  ultimately show ?thesis
    using bt nid m(2-5) unfolding tx_built_def by (auto simp: l)
qed

section \<open>Undoing\<close>

definition tx_unmap_logged :: "(u64 \<times> nat) list \<Rightarrow> tx_event list" where
  "tx_unmap_logged = map (\<lambda>rg. DmaUnmap (fst rg) (snd rg))"

lemma idpf_tx_splitq_pkt_err_unmap_eq:
  assumes "tx_chain (tx_bufs q) (first # bs)" and "distinct (first # bs)" and "length bs \<le> length (tx_bufs q)"
    and "tx_refillq q = Some r"
  shows "idpf_tx_splitq_pkt_err_unmap q params first = Some
    (q\<lparr>tx_log := tx_log q @ concat (map (\<lambda>x. sqe_events (tx_bufs q ! x)) (first # bs)) @
         [SkbFree (sqe_skb (tx_bufs q ! first)), TailWrite (p_prev_ntu params)],
       tx_bufs := (sqe_clear_all (first # bs) (tx_bufs q))
         [first := (sqe_clear_all (first # bs) (tx_bufs q) ! first)\<lparr>sqe_skb := NULL\<rparr>],
       next_to_use := p_prev_ntu params,
       tx_refillq := Some (refill_rollback (p_prev_refill_gen params) (p_prev_refill_ntc params) r)\<rparr>)"
proof -
  let ?q = "q\<lparr>tx_log := tx_log q @ sqe_events (tx_bufs q ! first), tx_bufs := sqe_clear first (tx_bufs q)\<rparr>"
  have "tx_chain (tx_bufs ?q) (first # bs)" using assms(1) by (simp add: tx_chain_clear)
  from tx_complete_chain_eq [OF this, of "length (tx_bufs q)"] assms(2,3)
  obtain ss' where "tx_complete_chain (length (tx_bufs q)) first
      (?q, sqe_count (tx_bufs q ! first) \<lparr>ss_packets = 0, ss_bytes = 0\<rparr>) =
    Some (?q\<lparr>tx_log := tx_log ?q @ concat (map (\<lambda>x. sqe_events (tx_bufs q ! x)) bs),
            tx_bufs := sqe_clear_all bs (tx_bufs ?q)\<rparr>, ss')"
    by (auto simp: map_nth_sqe_clear)
  then show ?thesis
    using assms(4)
    by (simp add: idpf_tx_splitq_pkt_err_unmap_def Let_def libeth_tx_complete_eq tx_emit_def
        tx_buf_upd_def idpf_tx_buf_hw_update_def)
qed

lemma sqe_events_frag:
  "sqe_type s = LIBETH_SQE_FRAG \<Longrightarrow> sqe_events s = tx_unmap_logged [sqe_region s]"
  "sqe_type s = LIBETH_SQE_EMPTY \<Longrightarrow> sqe_events s = []"
  by (simp_all add: sqe_events_def tx_unmap_logged_def sqe_region_def)

lemma concat_sqe_events_frag:
  "\<forall>x\<in>set bs. sqe_type (bufs ! x) = LIBETH_SQE_FRAG \<Longrightarrow>
     concat (map (\<lambda>x. sqe_events (bufs ! x)) bs) = tx_unmap_logged (map (\<lambda>x. sqe_region (bufs ! x)) bs)"
  by (induction bs) (simp_all add: sqe_events_frag tx_unmap_logged_def)

text \<open>
  The error path, taken with the buffer \<open>b\<close> not filled (its mapping failed) or filled (there was no
  id for the next).
\<close>

definition tx_undone :: "idpf_tx_splitq_params \<Rightarrow> libeth_sqe list \<Rightarrow> idpf_sw_queue \<Rightarrow> ptr \<Rightarrow>
    (u64 \<times> nat) list \<Rightarrow> idpf_txq \<Rightarrow> idpf_txq \<Rightarrow> bool" where
  "tx_undone params bufs0 r skb rgs q q' \<longleftrightarrow>
     next_to_use q' = p_prev_ntu params \<and>
     tx_refillq q' = Some (refill_rollback (p_prev_refill_gen params) (p_prev_refill_ntc params) r) \<and>
     (\<forall>x<length bufs0. sqe_type (tx_bufs q' ! x) = sqe_type (bufs0 ! x)) \<and>
     length (tx_bufs q') = length bufs0 \<and>
     desc_count q' = desc_count q \<and> next_to_clean q' = next_to_clean q \<and> FLOW_SCH_EN q' = FLOW_SCH_EN q \<and>
     tx_log q' = tx_log q @ tx_unmap_logged rgs @ [SkbFree skb, TailWrite (p_prev_ntu params)]"

lemma sqe_type_forget_skb: "sqe_type (bufs[f := (bufs ! f)\<lparr>sqe_skb := p\<rparr>] ! x) = sqe_type (bufs ! x)"
  by (cases "f < length bufs"; cases "x = f") (simp_all add: list_update_beyond)

lemma tx_undo:
  assumes links: "tx_links (tx_bufs q) bs b" and d: "distinct (bs @ [b])"
    and lt: "\<forall>x\<in>set (bs @ [b]). x < length bufs0" "length (tx_bufs q) = length bufs0"
    and hd: "hd (bs @ [b]) = first" and r: "tx_refillq q = Some r"
    and skb: "sqe_skb (tx_bufs q ! first) = skb"
    and ev: "concat (map (\<lambda>x. sqe_events (tx_bufs q ! x)) (bs @ [b])) = tx_unmap_logged rgs"
    and ty: "\<forall>x<length bufs0. x \<notin> set (bs @ [b]) \<longrightarrow> sqe_type (tx_bufs q ! x) = sqe_type (bufs0 ! x)"
    and idle: "\<forall>x\<in>set (bs @ [b]). sqe_type (bufs0 ! x) = LIBETH_SQE_EMPTY"
  shows "\<exists>q'. idpf_tx_splitq_pkt_err_unmap (tx_buf_upd b (sqe_next_update (\<lambda>_. IDPF_TXBUF_NULL)) q) params first
      = Some q' \<and> tx_undone params bufs0 r skb rgs q q'"
proof -
  let ?bufs = "tx_buf_link b IDPF_TXBUF_NULL (tx_bufs q)"
  let ?q = "q\<lparr>tx_bufs := ?bufs\<rparr>"
  have b: "b < length (tx_bufs q)" and nb: "b \<notin> set bs" using lt d by auto
  have same: "sqe_type (?bufs ! x) = sqe_type (tx_bufs q ! x)" "sqe_skb (?bufs ! x) = sqe_skb (tx_bufs q ! x)"
    "sqe_events (?bufs ! x) = sqe_events (tx_bufs q ! x)" for x
    using b by (cases "x = b"; simp add: tx_buf_link_nth sqe_events_def)+
  have "x \<in> set bs \<Longrightarrow> sqe_next (?bufs ! x) = sqe_next (tx_bufs q ! x)" for x
    using nb by (cases "x = b") (auto simp: tx_buf_link_nth)
  then have "tx_links ?bufs bs b"
    using links tx_links_cong [of bs ?bufs "tx_bufs q" b] by blast
  then have chain: "tx_chain ?bufs (bs @ [b])"
    using b by (intro tx_links_chain) (simp_all add: tx_buf_link_nth)
  obtain xs where xs: "bs @ [b] = first # xs"
    using hd by (cases bs) auto
  have "set (bs @ [b]) \<subseteq> {..<length bufs0}" using lt(1) by auto
  then have "length (bs @ [b]) \<le> length bufs0"
    using distinct_card [OF d] card_mono [of "{..<length bufs0}" "set (bs @ [b])"] by simp
  then have len: "length xs \<le> length ?bufs" using arg_cong [OF xs, of length] lt(2) by simp
  have cl: "sqe_type (sqe_clear_all (first # xs) ?bufs ! x) = sqe_type (bufs0 ! x)" if "x < length bufs0" for x
  proof -
    have "x < length ?bufs" using that lt by simp
    then have "sqe_type (sqe_clear_all (bs @ [b]) ?bufs ! x) = sqe_type (bufs0 ! x)"
      using idle ty that by (simp add: sqe_clear_all_nth same)
    then show ?thesis unfolding xs .
  qed
  have "idpf_tx_splitq_pkt_err_unmap ?q params first = Some
    (?q\<lparr>tx_log := tx_log ?q @ concat (map (\<lambda>x. sqe_events (tx_bufs ?q ! x)) (first # xs)) @
         [SkbFree (sqe_skb (tx_bufs ?q ! first)), TailWrite (p_prev_ntu params)],
       tx_bufs := (sqe_clear_all (first # xs) (tx_bufs ?q))
         [first := (sqe_clear_all (first # xs) (tx_bufs ?q) ! first)\<lparr>sqe_skb := NULL\<rparr>],
       next_to_use := p_prev_ntu params,
       tx_refillq := Some (refill_rollback (p_prev_refill_gen params) (p_prev_refill_ntc params) r)\<rparr>)"
    by (rule idpf_tx_splitq_pkt_err_unmap_eq) (use chain d len r xs in simp_all)
  moreover have "concat (map (\<lambda>x. sqe_events (?bufs ! x)) (first # xs)) = tx_unmap_logged rgs"
    using ev by (simp only: same xs)
  ultimately show ?thesis
    using cl lt skb b
    by (simp add: tx_buf_upd_def tx_buf_link_def [symmetric] tx_undone_def sqe_type_forget_skb same
        del: sqe_clear_all_simps)
qed

text \<open>The mapping of \<open>b\<close> failed.\<close>

lemma tx_undo_unfilled:
  assumes bt: "tx_built first bufs0 bs rgs b (tx_bufs q)" and r: "tx_refillq q = Some r"
    and idle: "\<forall>x\<in>set (bs @ [b]). sqe_type (bufs0 ! x) = LIBETH_SQE_EMPTY"
  shows "\<exists>q'. idpf_tx_splitq_pkt_err_unmap (tx_buf_upd b (sqe_next_update (\<lambda>_. IDPF_TXBUF_NULL)) q) params first
      = Some q' \<and> tx_undone params bufs0 r (sqe_skb (bufs0 ! first)) rgs q q'"
proof (rule tx_undo [where bs = bs])
  have "sqe_events (tx_bufs q ! b) = []"
    using bt idle by (intro sqe_events_frag(2)) (auto simp: tx_built_def)
  then show "concat (map (\<lambda>x. sqe_events (tx_bufs q ! x)) (bs @ [b])) = tx_unmap_logged rgs"
    using bt concat_sqe_events_frag [of bs "tx_bufs q"] by (auto simp: tx_built_def)
qed (use bt r idle in \<open>auto simp: tx_built_def sqe_same_def\<close>)

text \<open>The buffer \<open>b\<close> is filled, but there is no id for the next one.\<close>

lemma tx_undo_filled:
  assumes bt: "tx_built first bufs0 bs rgs b bufs" and r: "tx_refillq q = Some r"
    and q: "tx_bufs q = tx_buf_mapped first b dma sz bufs"
    and idle: "\<forall>x\<in>set (bs @ [b]). sqe_type (bufs0 ! x) = LIBETH_SQE_EMPTY"
  shows "\<exists>q'. idpf_tx_splitq_pkt_err_unmap (tx_buf_upd b (sqe_next_update (\<lambda>_. IDPF_TXBUF_NULL)) q) params first
      = Some q' \<and> tx_undone params bufs0 r (sqe_skb (bufs0 ! first)) (rgs @ [(dma, sz)]) q q'"
proof (rule tx_undo [where bs = bs])
  note m = tx_built_mapped [OF bt q]
  show "concat (map (\<lambda>x. sqe_events (tx_bufs q ! x)) (bs @ [b])) = tx_unmap_logged (rgs @ [(dma, sz)])"
    using concat_sqe_events_frag [OF m(3)] m(2) by simp
  show "tx_links (tx_bufs q) bs b"
    using bt tx_links_cong [OF m(1), of b] by (simp add: tx_built_def)
  show "sqe_skb (tx_bufs q ! first) = sqe_skb (bufs0 ! first)" using m(4) by (simp add: sqe_same_def)
  show "\<forall>x<length bufs0. x \<notin> set (bs @ [b]) \<longrightarrow> sqe_type (tx_bufs q ! x) = sqe_type (bufs0 ! x)"
    using m(5) bt by (simp add: tx_built_def)
qed (use bt r idle q in \<open>auto simp: tx_built_def\<close>)

lemma tx_map_loop_no_id:
  assumes "env_dma env k = Some dma" and "i < desc_count q" and "tx_ring_ok q" and "FLOW_SCH_EN q"
    and "tx_refillq q = Some r" and "idpf_tx_get_free_buf_id r = (None, r)"
    and "sum_list (f # fs) \<noteq> 0"
  shows "tx_map_loop env params first k b i sz (f # fs) (q, c) =
    map_option (\<lambda>q. (q, c)) (idpf_tx_splitq_pkt_err_unmap
      (tx_buf_upd b (sqe_next_update (\<lambda>_. IDPF_TXBUF_NULL))
        (q\<lparr>tx_log := tx_log q @ [DmaMap dma sz], tx_bufs := tx_buf_mapped first b dma sz (tx_bufs q),
           tx_descs := put_slots (desc_count q) i
             (region_slots params (tx_cmd params) (tx_cmd params) (dma, sz)) (tx_descs q)\<rparr>)) params first)"
proof -
  obtain j s ds where m: "tx_map_buf params first b i dma sz q =
      (j, s, q\<lparr>tx_log := tx_log q @ [DmaMap dma sz],
               tx_bufs := tx_buf_mapped first b dma sz (tx_bufs q), tx_descs := ds\<rparr>)"
    and ds: "\<And>lcmd. ds[j := (ds ! j)\<lparr>tx_qw1 := tx_qw1_of params lcmd s\<rparr>] =
      put_slots (desc_count q) i (region_slots params (tx_cmd params) lcmd (dma, sz)) (tx_descs q)"
    by (rule tx_map_buf_build [OF assms(2,3)]) (rule that)
  let ?q1 = "q\<lparr>tx_log := tx_log q @ [DmaMap dma sz], tx_bufs := tx_buf_mapped first b dma sz (tx_bufs q),
           tx_descs := put_slots (desc_count q) i
             (region_slots params (tx_cmd params) (tx_cmd params) (dma, sz)) (tx_descs q)\<rparr>"
  have "?q1\<lparr>tx_refillq := Some r\<rparr> = ?q1" using assms(5) by simp
  then have "tx_next_buf i' ?q1 = Some (None, ?q1)" for i'
    using assms(4-6) by (simp add: tx_next_buf_def)
  then show ?thesis
    using assms(1,7)
    by (subst tx_map_loop.simps)
      (simp add: m Let_def idpf_tx_splitq_build_desc_eq ds tx_cmd_def [symmetric]
        del: sum_list_eq_0_iff sum_list.Cons)
qed

text \<open>The ids waiting in the refill queue name buffers that nobody uses.\<close>

definition tx_ids_idle :: "libeth_sqe list \<Rightarrow> nat list \<Rightarrow> u32 list \<Rightarrow> bool" where
  "tx_ids_idle bufs0 bs ids \<longleftrightarrow> distinct ids \<and> length bufs0 \<le> 65536 \<and>
     (\<forall>j\<in>set ids. unat j < length bufs0 \<and> unat j \<notin> set bs \<and> sqe_type (bufs0 ! unat j) = LIBETH_SQE_EMPTY)"

lemma tx_ids_idle_Cons:
  "tx_ids_idle bufs0 bs (nid # ids) \<Longrightarrow> unat nid < length bufs0 \<and> unat nid \<notin> set bs \<and>
     sqe_type (bufs0 ! unat nid) = LIBETH_SQE_EMPTY \<and> length bufs0 \<le> 65536 \<and> tx_ids_idle bufs0 (bs @ [unat nid]) ids"
  by (auto simp: tx_ids_idle_def simp flip: word_unat_eq_iff)

lemma tx_map_loop_undone:
  assumes "tx_built first bufs0 bs rgs b (tx_bufs q)" and "i < desc_count q" and "tx_ring_ok q"
    and "FLOW_SCH_EN q" and "tx_refillq q = Some r" and "refill_ok r" and "\<forall>f\<in>set fs. 0 < f"
    and "tx_ids_idle bufs0 (bs @ [b]) (refill_ids r)"
    and "\<forall>x\<in>set (bs @ [b]). sqe_type (bufs0 ! x) = LIBETH_SQE_EMPTY"
    and "\<not> (tx_all_mapped env k (sz # fs) \<and> length fs \<le> length (refill_ids r))"
  shows "\<exists>q' m. tx_map_loop env params first k b i sz fs (q, c) = Some (q', c) \<and>
    tx_undone params bufs0 r (sqe_skb (bufs0 ! first)) (rgs @ take m (tx_regions env k (sz # fs)))
      (q\<lparr>tx_log := tx_log q @ tx_map_logged (take m (tx_regions env k (sz # fs)))\<rparr>) q'"
  using assms
proof (induction fs arbitrary: k b i sz q r bs rgs)
  case Nil
  then have none: "env_dma env k = None" by auto
  obtain q' where "idpf_tx_splitq_pkt_err_unmap (tx_buf_upd b (sqe_next_update (\<lambda>_. IDPF_TXBUF_NULL)) q) params first
      = Some q'" "tx_undone params bufs0 r (sqe_skb (bufs0 ! first)) rgs q q'"
    using tx_undo_unfilled [OF Nil.prems(1,5,9)] by blast
  with none show ?case
    by (intro exI [of _ q'] exI [of _ 0]) (simp add: tx_map_loop.simps tx_map_logged_def)
next
  case (Cons f fs)
  show ?case
  proof (cases "env_dma env k")
    case None
    obtain q' where "idpf_tx_splitq_pkt_err_unmap (tx_buf_upd b (sqe_next_update (\<lambda>_. IDPF_TXBUF_NULL)) q) params first
        = Some q'" "tx_undone params bufs0 r (sqe_skb (bufs0 ! first)) rgs q q'"
      using tx_undo_unfilled [OF Cons.prems(1,5,9)] by blast
    with None show ?thesis
      by (intro exI [of _ q'] exI [of _ 0]) (simp add: tx_map_loop.simps tx_map_logged_def)
  next
    case (Some dma)
    have sum: "sum_list (f # fs) \<noteq> 0" using Cons.prems(7) by simp
    show ?thesis
    proof (cases "refill_ids r")
      case Nil
      note get = idpf_tx_get_free_buf_id_Nil [OF Cons.prems(6) Nil]
      let ?q = "q\<lparr>tx_log := tx_log q @ [DmaMap dma sz], tx_bufs := tx_buf_mapped first b dma sz (tx_bufs q),
           tx_descs := put_slots (desc_count q) i
             (region_slots params (tx_cmd params) (tx_cmd params) (dma, sz)) (tx_descs q)\<rparr>"
      have "tx_refillq ?q = Some r" "tx_bufs ?q = tx_buf_mapped first b dma sz (tx_bufs q)"
        using Cons.prems(5) by simp_all
      from tx_undo_filled [OF Cons.prems(1) this Cons.prems(9)]
      obtain q' where "idpf_tx_splitq_pkt_err_unmap (tx_buf_upd b (sqe_next_update (\<lambda>_. IDPF_TXBUF_NULL)) ?q) params first
        = Some q'" "tx_undone params bufs0 r (sqe_skb (bufs0 ! first)) (rgs @ [(dma, sz)]) ?q q'" by blast
      with tx_map_loop_no_id [OF Some Cons.prems(2-5) get sum] Some show ?thesis
        by (intro exI [of _ q'] exI [of _ 1]) (simp add: tx_map_logged_def tx_undone_def)
    next
      case (Cons nid ids)
      let ?r = "refill_bump_ntc r"
      let ?i = "tx_map_ntu params i dma sz (desc_count q)"
      let ?q = "tx_map_next params first b i dma sz nid ?r q"
      note get = idpf_tx_get_free_buf_id_Cons [OF Cons.prems(6) Cons]
      note id = tx_ids_idle_Cons [OF Cons.prems(8) [unfolded Cons]]
      have step: "tx_map_loop env params first k b i sz (f # fs) (q, c) =
        tx_map_loop env params first (Suc k) (unat nid) ?i f fs (?q, c)"
        by (rule tx_map_loop_next [OF Some Cons.prems(2-5) get(1) sum])
      have "length (tx_bufs q) = length bufs0" using Cons.prems(1) by (simp add: tx_built_def)
      then have bt: "tx_built first bufs0 (bs @ [b]) (rgs @ [(dma, sz)]) (unat nid) (tx_bufs ?q)"
        unfolding tx_map_next_fields using id by (intro tx_built_next [OF Cons.prems(1)]) simp_all
      have "\<exists>q' m. tx_map_loop env params first (Suc k) (unat nid) ?i f fs (?q, c) = Some (q', c) \<and>
        tx_undone params bufs0 ?r (sqe_skb (bufs0 ! first))
          ((rgs @ [(dma, sz)]) @ take m (tx_regions env (Suc k) (f # fs)))
          (?q\<lparr>tx_log := tx_log ?q @ tx_map_logged (take m (tx_regions env (Suc k) (f # fs)))\<rparr>) q'"
        by (rule Cons.IH [OF bt])
          (use Cons.prems get id Cons Some end_slot_less in \<open>simp_all del: length_refill_ids\<close>)
      then obtain q' m where "tx_map_loop env params first (Suc k) (unat nid) ?i f fs (?q, c) = Some (q', c)"
        "tx_undone params bufs0 ?r (sqe_skb (bufs0 ! first))
          ((rgs @ [(dma, sz)]) @ take m (tx_regions env (Suc k) (f # fs)))
          (?q\<lparr>tx_log := tx_log ?q @ tx_map_logged (take m (tx_regions env (Suc k) (f # fs)))\<rparr>) q'"
        by blast
      then show ?thesis
        unfolding step using Some
        by (intro exI [of _ q'] exI [of _ "Suc m"])
          (simp add: tx_undone_def refill_rollback_bump tx_map_logged_def)
    qed
  qed
qed

section \<open>The chain of a packet that is sent\<close>

lemma tx_built_done:
  assumes bt: "tx_built first bufs0 bs rgs b bufs"
    and bufs': "bufs' = tx_buf_done params first b j (tx_buf_mapped first b dma sz bufs)"
  shows "tx_chain bufs' (bs @ [b])" "map (\<lambda>x. sqe_region (bufs' ! x)) (bs @ [b]) = rgs @ [(dma, sz)]"
    "\<forall>x\<in>set (bs @ [b]). sqe_type (bufs' ! x) = (if x \<noteq> first then LIBETH_SQE_FRAG
        else if off_tsyn (p_offload params) then LIBETH_SQE_SKB_TSTAMP else LIBETH_SQE_SKB)"
    "sqe_same (bufs0 ! first) (bufs' ! first)"
    "\<forall>x<length bufs. x \<notin> set (bs @ [b]) \<longrightarrow> sqe_type (bufs' ! x) = sqe_type (bufs0 ! x)"
proof -
  let ?m = "tx_buf_mapped first b dma sz bufs"
  note m = tx_built_mapped [OF bt refl, of dma sz]
  have lt: "b < length ?m" "first < length ?m" and nb: "b \<notin> set bs" and hd: "first \<in> set (bs @ [b])"
    using tx_built_first [OF bt] bt by (auto simp: tx_built_def) (cases bs; auto)
  note n = tx_buf_done_nth [OF lt, where params = params and j = j, folded bufs']
  have "x \<in> set bs \<Longrightarrow> sqe_next (bufs' ! x) = sqe_next (bufs ! x)" for x
    using m(1) nb by (cases "x = b") (auto simp: n(2))
  then have "tx_links bufs' bs b"
    using bt tx_links_cong [of bs bufs' bufs b] by (simp add: tx_built_def)
  then show "tx_chain bufs' (bs @ [b])" by (rule tx_links_chain) (simp add: n(2))
  show "map (\<lambda>x. sqe_region (bufs' ! x)) (bs @ [b]) = rgs @ [(dma, sz)]"
    using m(2) by (simp add: n(4))
  show "\<forall>x\<in>set (bs @ [b]). sqe_type (bufs' ! x) = (if x \<noteq> first then LIBETH_SQE_FRAG
        else if off_tsyn (p_offload params) then LIBETH_SQE_SKB_TSTAMP else LIBETH_SQE_SKB)"
    using m(3) n(1) by auto
  show "sqe_same (bufs0 ! first) (bufs' ! first)"
    using m(4) n(3) [of first] by (auto simp: sqe_same_def)
  show "\<forall>x<length bufs. x \<notin> set (bs @ [b]) \<longrightarrow> sqe_type (bufs' ! x) = sqe_type (bufs0 ! x)"
    using m(5) hd by (auto simp: n(1))
qed

lemma tx_map_loop_chain:
  assumes "tx_all_mapped env k (sz # fs)" and "tx_built first bufs0 bs rgs b (tx_bufs q)"
    and "i < desc_count q" and "tx_ring_ok q"
    and "FLOW_SCH_EN q" and "tx_refillq q = Some r" and "refill_ok r" and "\<forall>f\<in>set fs. 0 < f"
    and "tx_ids_idle bufs0 (bs @ [b]) (refill_ids r)" and "length fs \<le> length (refill_ids r)"
    and "tx_map_loop env params first k b i sz fs (q, c) = Some (q', c')"
    and "bs' = bs @ b # map unat (take (length fs) (refill_ids r))"
  shows "tx_chain (tx_bufs q') bs' \<and> distinct bs' \<and>
    map (\<lambda>x. sqe_region (tx_bufs q' ! x)) bs' = rgs @ tx_regions env k (sz # fs) \<and>
    (\<forall>x\<in>set bs'. sqe_type (tx_bufs q' ! x) = (if x \<noteq> first then LIBETH_SQE_FRAG
        else if off_tsyn (p_offload params) then LIBETH_SQE_SKB_TSTAMP else LIBETH_SQE_SKB)) \<and>
    sqe_same (bufs0 ! first) (tx_bufs q' ! first) \<and> length (tx_bufs q') = length bufs0 \<and>
    (\<forall>x<length bufs0. x \<notin> set bs' \<longrightarrow> sqe_type (tx_bufs q' ! x) = sqe_type (bufs0 ! x))"
  using assms
proof (induction fs arbitrary: k b i sz q r bs rgs bs')
  case Nil
  obtain dma where dma: "env_dma env k = Some dma" using Nil.prems(1) by auto
  obtain j where "tx_bufs q' = tx_buf_done params first b j (tx_buf_mapped first b dma sz (tx_bufs q))"
    using tx_map_loop_last [OF dma Nil.prems(3,4), of params first b sz c] Nil.prems(11)
    by (auto simp: Let_def)
  note d = tx_built_done [OF Nil.prems(2) this]
  have "length (tx_bufs q) = length bufs0" "distinct (bs @ [b])"
    using Nil.prems(2) by (auto simp: tx_built_def)
  then show ?case
    using d Nil.prems(12) dma \<open>tx_bufs q' = _\<close> by simp
next
  case (Cons f fs)
  obtain dma where dma: "env_dma env k = Some dma" using Cons.prems(1) by auto
  obtain nid ids where ids: "refill_ids r = nid # ids"
    using Cons.prems(10) by (cases "refill_ids r") (auto simp del: length_refill_ids)
  note get = idpf_tx_get_free_buf_id_Cons [OF Cons.prems(7) ids]
  note id = tx_ids_idle_Cons [OF Cons.prems(9) [unfolded ids]]
  have sum: "sum_list (f # fs) \<noteq> 0" using Cons.prems(8) by simp
  let ?r = "refill_bump_ntc r"
  let ?i = "tx_map_ntu params i dma sz (desc_count q)"
  let ?q = "tx_map_next params first b i dma sz nid ?r q"
  have step: "tx_map_loop env params first k b i sz (f # fs) (q, c) =
    tx_map_loop env params first (Suc k) (unat nid) ?i f fs (?q, c)"
    by (rule tx_map_loop_next [OF dma Cons.prems(3-6) get(1) sum])
  have "length (tx_bufs q) = length bufs0" using Cons.prems(2) by (simp add: tx_built_def)
  then have bt: "tx_built first bufs0 (bs @ [b]) (rgs @ [(dma, sz)]) (unat nid) (tx_bufs ?q)"
    unfolding tx_map_next_fields using id by (intro tx_built_next [OF Cons.prems(2)]) simp_all
  have bs': "bs' = (bs @ [b]) @ unat nid # map unat (take (length fs) (refill_ids ?r))"
    using Cons.prems(12) ids get(3) by simp
  have m: "tx_all_mapped env (Suc k) (f # fs)" using Cons.prems(1) by simp
  have "rgs @ tx_regions env k (sz # f # fs) = (rgs @ [(dma, sz)]) @ tx_regions env (Suc k) (f # fs)"
    using dma by simp
  then show ?case
    using Cons.IH [OF m bt, of ?i ?r bs'] Cons.prems get id ids bs' step
    by (simp add: end_slot_less del: length_refill_ids)
qed

end
