(* ===== verification/Idpf_Tx_Results.thy ===== *)
theory Idpf_Tx_Results
  imports Idpf_Tx_Packet
begin

text \<open>
  The transmit path of a queue with flow based scheduling: the descriptors of a packet, the undoing
  of a packet that cannot be mapped, and the return of everything when the completion comes.
\<close>

section \<open>A queue between packets\<close>

definition tx_queue_ok :: "idpf_txq \<Rightarrow> idpf_sw_queue \<Rightarrow> bool" where
  "tx_queue_ok q r \<longleftrightarrow> tx_ring_ok q \<and> next_to_use q < desc_count q \<and> next_to_clean q < desc_count q \<and>
     FLOW_SCH_EN q \<and> tx_refillq q = Some r \<and> refill_ok r \<and> rfl_desc_count r \<le> 65536 \<and>
     tx_ids_idle (tx_bufs q) [] (refill_ids r)"

text \<open>The queue as \<open>idpf_tx_splitq_map\<close> finds it, the first id \<open>bid\<close> taken for packet \<open>skb\<close>.\<close>

definition tx_map_start :: "sk_buff \<Rightarrow> bool \<Rightarrow> idpf_tx_offload_params \<Rightarrow> u32 \<Rightarrow> idpf_sw_queue \<Rightarrow> idpf_txq \<Rightarrow> idpf_txq" where
  "tx_map_start skb tso off bid r q = tx_frame_first skb tso off (unat bid)
     (q\<lparr>tx_refillq := Some (refill_bump_ntc r),
        last_re := (if idpf_tx_splitq_need_re q then next_to_use q else last_re q)\<rparr>)"

definition tx_map_compl :: "idpf_txq \<Rightarrow> tx_compl \<Rightarrow> tx_compl" where
  "tx_map_compl q c = (if idpf_tx_splitq_need_re q
     then c\<lparr>num_completions_pending := num_completions_pending c + 1\<rparr> else c)"

lemma tx_frame_send_eq:
  assumes "FLOW_SCH_EN q" and "tx_refillq q = Some r" and "refill_ok r" and "refill_ids r = bid # ids"
    and "off' = (if ETF_EN q then idpf_get_flow_sche_tstamp env skb off else off)"
  shows "tx_frame_send env skb tso prev_ntu off (q, c) = map_option (Pair NETDEV_TX_OK)
    (idpf_tx_splitq_map env (tx_frame_fparams skb prev_ntu off' r bid (idpf_tx_splitq_need_re q)) skb (unat bid)
      (tx_map_start skb tso off' bid r q, tx_map_compl q c))"
  using assms idpf_tx_get_free_buf_id_Cons [OF assms(3,4)]
  by (simp add: tx_frame_send_def Let_def tx_map_start_def tx_map_compl_def)

lemma tx_map_start_fields [simp]:
  "tx_descs (tx_map_start skb tso off bid r q) = tx_descs q"
  "desc_count (tx_map_start skb tso off bid r q) = desc_count q"
  "next_to_use (tx_map_start skb tso off bid r q) = next_to_use q"
  "next_to_clean (tx_map_start skb tso off bid r q) = next_to_clean q"
  "FLOW_SCH_EN (tx_map_start skb tso off bid r q) = FLOW_SCH_EN q"
  "tx_refillq (tx_map_start skb tso off bid r q) = Some (refill_bump_ntc r)"
  "tx_log (tx_map_start skb tso off bid r q) = tx_log q"
  "tx_stopped (tx_map_start skb tso off bid r q) = tx_stopped q"
  "length (tx_bufs (tx_map_start skb tso off bid r q)) = length (tx_bufs q)"
  by (simp_all add: tx_map_start_def tx_frame_first_def tx_buf_upd_def)

text \<open>The buffer array when the loop starts.\<close>

definition tx_bufs_start :: "sk_buff \<Rightarrow> bool \<Rightarrow> idpf_tx_offload_params \<Rightarrow> u32 \<Rightarrow> idpf_sw_queue \<Rightarrow> idpf_txq \<Rightarrow> libeth_sqe list" where
  "tx_bufs_start skb tso off bid r q =
     tx_bufs (tx_buf_upd (unat bid) (sqe_nr_frags_update (\<lambda>_. 0)) (tx_map_start skb tso off bid r q))"

lemma tx_bufs_start_types:
  "length (tx_bufs_start skb tso off bid r q) = length (tx_bufs q)"
  "sqe_type (tx_bufs_start skb tso off bid r q ! x) = sqe_type (tx_bufs q ! x)"
  by (cases "unat bid < length (tx_bufs q)"; cases "x = unat bid";
      simp add: tx_bufs_start_def tx_buf_upd_def tx_map_start_def tx_frame_first_def list_update_beyond)+

lemma tx_bufs_start_first:
  assumes "unat bid < length (tx_bufs q)"
  shows "sqe_skb (tx_bufs_start skb tso off bid r q ! unat bid) = skb_ptr skb"
    "sqe_packets (tx_bufs_start skb tso off bid r q ! unat bid) = (if tso then off_tso_segs off else 1)"
    "sqe_bytes (tx_bufs_start skb tso off bid r q ! unat bid) =
       (if tso then trunc32 (skb_len skb + trunc32 (off_tso_segs off + 4294967295) * off_tso_hdr_len off)
        else max (skb_len skb) 60)"
  using assms by (simp_all add: tx_bufs_start_def tx_buf_upd_def tx_map_start_def tx_frame_first_def)

lemma tx_built_start:
  "unat bid < length (tx_bufs q) \<Longrightarrow> tx_built (unat bid) (tx_bufs_start skb tso off bid r q) [] [] (unat bid)
     (tx_bufs_start skb tso off bid r q)"
  by (simp add: tx_built_def tx_bufs_start_types(1) sqe_same_def)

lemma tx_ids_idle_start:
  assumes "tx_ids_idle (tx_bufs q) [] (bid # ids)"
  shows "unat bid < length (tx_bufs q)" "sqe_type (tx_bufs q ! unat bid) = LIBETH_SQE_EMPTY"
    "tx_ids_idle (tx_bufs_start skb tso off bid r q) [unat bid] ids"
  using tx_ids_idle_Cons [OF assms] by (auto simp: tx_ids_idle_def tx_bufs_start_types)

text \<open>Everything the lemmas on the loop ask for, at the start of a packet.\<close>

lemma tx_map_at_start:
  assumes "tx_queue_ok q r" and "refill_ids r = bid # ids"
    and "qs = tx_buf_upd (unat bid) (sqe_nr_frags_update (\<lambda>_. 0)) (tx_map_start skb tso off bid r q)"
  shows "idpf_tx_splitq_map env params skb (unat bid) (tx_map_start skb tso off bid r q, c) =
      tx_map_loop env params (unat bid) 0 (unat bid) (next_to_use q) (skb_headlen skb) (skb_frags skb) (qs, c)"
    and "tx_bufs qs = tx_bufs_start skb tso off bid r q"
    and "tx_built (unat bid) (tx_bufs_start skb tso off bid r q) [] [] (unat bid) (tx_bufs qs)"
    and "next_to_use q < desc_count qs" and "tx_ring_ok qs" and "FLOW_SCH_EN qs"
    and "tx_refillq qs = Some (refill_bump_ntc r)" and "refill_ok (refill_bump_ntc r)"
    and "refill_ids (refill_bump_ntc r) = ids"
    and "tx_ids_idle (tx_bufs_start skb tso off bid r q) ([] @ [unat bid]) (refill_ids (refill_bump_ntc r))"
    and "\<forall>x\<in>set ([] @ [unat bid]). sqe_type (tx_bufs_start skb tso off bid r q ! x) = LIBETH_SQE_EMPTY"
    and "tx_log qs = tx_log q" and "tx_descs qs = tx_descs q" and "desc_count qs = desc_count q"
    and "next_to_clean qs = next_to_clean q" and "tx_stopped qs = tx_stopped q"
proof -
  have q: "tx_ring_ok q" "next_to_use q < desc_count q" "FLOW_SCH_EN q" "refill_ok r"
    and idle: "tx_ids_idle (tx_bufs q) [] (bid # ids)"
    using assms(1,2) by (auto simp: tx_queue_ok_def)
  note s = tx_ids_idle_start(1,2) [OF idle]
    tx_ids_idle_start(3) [OF idle, where skb = skb and tso = tso and off = off and r = r]
  note g = idpf_tx_get_free_buf_id_Cons [OF q(4) assms(2)]
  show bufs: "tx_bufs qs = tx_bufs_start skb tso off bid r q" by (simp add: assms(3) tx_bufs_start_def)
  show "tx_built (unat bid) (tx_bufs_start skb tso off bid r q) [] [] (unat bid) (tx_bufs qs)"
    unfolding bufs using s(1) by (rule tx_built_start)
  show "tx_ids_idle (tx_bufs_start skb tso off bid r q) ([] @ [unat bid]) (refill_ids (refill_bump_ntc r))"
    using s(3) g(3) by simp
  show "\<forall>x\<in>set ([] @ [unat bid]). sqe_type (tx_bufs_start skb tso off bid r q ! x) = LIBETH_SQE_EMPTY"
    using s(2) by (simp add: tx_bufs_start_types)
  show "refill_ok (refill_bump_ntc r)" "refill_ids (refill_bump_ntc r) = ids" by (fact g)+
qed (use assms in \<open>simp_all add: tx_buf_upd_def idpf_tx_splitq_map_def tx_ring_ok_def tx_queue_ok_def\<close>)

section \<open>The descriptors of a packet\<close>

text \<open>
  All chunks of a packet in the order of its bytes.
\<close>

definition packet_chunks :: "(u64 \<times> nat) list \<Rightarrow> (u64 \<times> nat) list" where
  "packet_chunks rgs = concat (map (\<lambda>rg. cut_region (fst rg) (snd rg)) rgs)"

lemma packet_chunks_simps [simp]:
  "packet_chunks [] = []"
  "packet_chunks (rg # rgs) = tx_chunks (fst rg) (snd rg) (tx_first_excess (fst rg)) @ packet_chunks rgs"
  by (simp_all add: packet_chunks_def tx_chunks_cut)

text \<open>The chunks of one region: without a gap, complete, and cut at multiples of 4096.\<close>

definition region_cut :: "u64 \<times> nat \<Rightarrow> (u64 \<times> nat) list \<Rightarrow> bool" where
  "region_cut rg cs \<longleftrightarrow> cs \<noteq> [] \<and> contiguous (fst rg) cs \<and> sum_list (map snd cs) = snd rg \<and>
     (\<forall>x\<in>set (butlast cs). 4096 dvd unat (fst x + of_nat (snd x)))"

lemma packet_chunks_cut: "\<exists>parts. packet_chunks rgs = concat parts \<and> list_all2 region_cut rgs parts"
  by (intro exI [of _ "map (\<lambda>rg. cut_region (fst rg) (snd rg)) rgs"])
    (auto simp: packet_chunks_def list_all2_conv_all_nth region_cut_def cut_region_parts cut_region_aligned)

lemma packet_chunks_sum: "sum_list (map snd (packet_chunks rgs)) = sum_list (map snd rgs)"
  by (induction rgs) (simp_all add: tx_chunks_sum tx_first_excess_le)

lemma packet_chunks_le: "x \<in> set (packet_chunks rgs) \<Longrightarrow> snd x \<le> 16383"
  by (induction rgs) (auto intro: tx_chunks_le [OF tx_first_excess_le])

lemma packet_chunks_count: "length (packet_chunks rgs) \<le> sum_list (map (frag_txd_count \<circ> snd) rgs)"
  by (induction rgs) (auto intro!: add_mono tx_chunks_count tx_first_excess_le)

lemma packet_chunks_not_Nil: "rgs \<noteq> [] \<Longrightarrow> packet_chunks rgs \<noteq> []"
  by (cases rgs) auto

lemma map_butlast_last: "xs \<noteq> [] \<Longrightarrow> map f (butlast xs) @ [f (last xs)] = map f xs"
  by (metis append_butlast_last_id list.simps(8,9) map_append)

lemma region_slots_same: "region_slots params cmd cmd rg =
    map (tx_slot_of params cmd) (tx_chunks (fst rg) (snd rg) (tx_first_excess (fst rg)))"
  by (simp add: region_slots_def Let_def map_butlast_last)

lemma packet_slots_chunks: "rgs \<noteq> [] \<Longrightarrow> packet_slots params rgs =
    map (tx_slot_of params (tx_cmd params)) (butlast (packet_chunks rgs)) @
    [tx_slot_of params (tx_cmd params OR p_eop_cmd params) (last (packet_chunks rgs))]"
  by (induction params rgs rule: packet_slots.induct)
    (simp_all add: region_slots_same butlast_append packet_chunks_not_Nil, simp add: region_slots_def Let_def)

lemma packet_slots_nth:
  assumes "rgs \<noteq> []" and "j < length (packet_chunks rgs)"
  shows "packet_slots params rgs ! j = tx_slot_of params
    (if Suc j = length (packet_chunks rgs) then tx_cmd params OR p_eop_cmd params else tx_cmd params)
    (packet_chunks rgs ! j)"
  using assms packet_chunks_not_Nil [OF assms(1)]
  by (cases "Suc j = length (packet_chunks rgs)")
    (auto simp: packet_slots_chunks nth_append nth_butlast last_conv_nth dest!: sym [of "Suc j"])

lemma length_packet_slots: "rgs \<noteq> [] \<Longrightarrow> length (packet_slots params rgs) = length (packet_chunks rgs)"
  using packet_chunks_not_Nil [of rgs] by (simp add: packet_slots_chunks)

text \<open>The packet of the examples: a head of 100 bytes at 2600 and a fragment of 32 KiB at 2600 + 4096.\<close>

definition ex_skb :: sk_buff where
  "ex_skb = \<lparr>skb_ptr = 77, skb_headlen = 100, skb_frags = [32768], skb_is_gso = False,
     skb_gso_type = SKB_GSO_OTHER, skb_gso_size = 0, skb_gso_segs = 0, skb_transport_offset = 0,
     skb_tcp_hdrlen = 0, skb_vlan_tag = None, skb_csum_partial = False, skb_hw_tstamp = False, skb_tstamp = 0\<rparr>"

definition ex_env :: tx_env where
  "ex_env = \<lparr>env_linearize = True, env_cow_head = None, env_dma = (\<lambda>k. Some (2600 + 4096 * of_nat k)),
     env_request_ts = None, env_xmit_more = False, env_cur_time = 0, env_tw_horizon = 0, env_tw_gran = 0\<rparr>"

definition ex_sqe :: libeth_sqe where
  "ex_sqe = \<lparr>sqe_type = LIBETH_SQE_EMPTY, sqe_rs_idx = 0, sqe_skb = 0, sqe_dma = 0, sqe_len = 0,
     sqe_nr_frags = 0, sqe_packets = 0, sqe_bytes = 0, sqe_next = 0\<rparr>"

definition ex_txq :: "nat \<Rightarrow> nat \<Rightarrow> idpf_txq" where
  "ex_txq n m = \<lparr>desc_count = n, next_to_use = 0, next_to_clean = 0,
     tx_descs = replicate n \<lparr>buf_addr = 0, tx_qw1 = QW1_NONE\<rparr>, tx_bufs = replicate m ex_sqe,
     tx_refillq = Some (tx_refillq_fill (rx_refillq_init 0) m), last_re = 0,
     FLOW_SCH_EN = True, MISS_TAG_EN = False, ETF_EN = False, XDP = False, SW_MARKER = False,
     tx_max_bufs = 10, tx_stopped = False, cleaned_pkts = 0, cleaned_bytes = 0,
     reinject_timers = Map.empty, timer_heap = Map.empty, timer_armed = {}, timer_bad = False, tx_log = []\<rparr>"

definition ex_compl :: tx_compl where
  "ex_compl = \<lparr>num_completions_pending = 0, num_completions = 0, complq_desc_count = 512\<rparr>"

lemma ex_txq_ok:
  assumes "0 < n" and "0 < m" and "m \<le> 65536"
  shows "tx_queue_ok (ex_txq n m) (tx_refillq_fill (rx_refillq_init 0) m)"
proof -
  have u: "unat (word_of_nat j :: u32) = j" if "j < m" for j
    using that assms(3) by (simp add: unat_of_nat take_bit_nat_eq_self)
  have "distinct (map word_of_nat [0..<m] :: u32 list)"
    unfolding distinct_map using u by (auto intro!: inj_onI) metis
  then show ?thesis
    using assms tx_refillq_fill_ok [of m 0] u
    by (auto simp: tx_queue_ok_def ex_txq_def tx_ring_ok_def tx_ids_idle_def ex_sqe_def
        tx_refillq_fill_def)
qed

text \<open>
  C29. When every buffer of the packet can be mapped and the refill queue has an id for each,
  \<open>idpf_tx_splitq_map\<close> writes, from \<open>next_to_use\<close> on, one descriptor per chunk of the packet: slot by
  slot the address and length of the chunk and the packet's parameters, with the end-of-packet
  command in the last one only. The chunks are those of the mapped regions one after the other: the
  chunks of a region begin at its address, follow each other without a gap and cover it exactly, and
  every one but the region's last ends at a multiple of 4096. None is longer than 16383 bytes, no other
  slot is touched, \<open>next_to_use\<close> moves by their number, and their number is at most what is counted
  for the packet's regions.
\<close>

theorem idpf_tx_splitq_map_descs:
  assumes "tx_queue_ok q r" and "refill_ids r = bid # ids" and "length (skb_frags skb) \<le> length ids"
    and "tx_all_mapped env 0 (skb_headlen skb # skb_frags skb)" and "\<forall>f\<in>set (skb_frags skb). 0 < f"
    and "n = desc_count q" and "ch = packet_chunks (tx_regions env 0 (skb_headlen skb # skb_frags skb))"
    and "length ch \<le> n"
  shows "\<exists>q' c'. idpf_tx_splitq_map env params skb (unat bid) (tx_map_start skb tso off bid r q, c) = Some (q', c') \<and>
    (\<forall>j<length ch. tx_descs q' ! ((next_to_use q + j) mod n) = tx_slot_of params
       (if Suc j = length ch then tx_cmd params OR p_eop_cmd params else tx_cmd params) (ch ! j)) \<and>
    (\<forall>s<n. length ch \<le> ring_dist n (next_to_use q) s \<longrightarrow> tx_descs q' ! s = tx_descs q ! s) \<and>
    next_to_use q' = (next_to_use q + length ch) mod n \<and>
    (\<exists>parts. ch = concat parts \<and> list_all2 region_cut (tx_regions env 0 (skb_headlen skb # skb_frags skb)) parts) \<and>
    sum_list (map snd ch) = skb_len skb \<and> (\<forall>x\<in>set ch. snd x \<le> 16383) \<and>
    length ch \<le> frag_txd_count (skb_headlen skb) + sum_list (map frag_txd_count (skb_frags skb))"
proof -
  let ?rgs = "tx_regions env 0 (skb_headlen skb # skb_frags skb)"
  define qs where "qs = tx_buf_upd (unat bid) (sqe_nr_frags_update (\<lambda>_. 0)) (tx_map_start skb tso off bid r q)"
  note st = tx_map_at_start [OF assms(1,2) qs_def]
  have len: "length (skb_frags skb) \<le> length (refill_ids (refill_bump_ntc r))"
    using assms(3) st(9) by simp
  from tx_map_loop_sent [OF assms(4) st(4,5,6,7,8) len assms(5) refl, of params "unat bid" "unat bid" c]
  obtain q' where q': "tx_map_loop env params (unat bid) 0 (unat bid) (next_to_use q)
        (skb_headlen skb) (skb_frags skb) (qs, c) = Some (q', c\<lparr>num_completions_pending := num_completions_pending c + 1\<rparr>)"
    "tx_descs q' = put_slots n (next_to_use q) (packet_slots params ?rgs) (tx_descs q)"
    "next_to_use q' = end_slot n (next_to_use q) (packet_slots params ?rgs)"
    using st(13,14) assms(6) by auto
  have r: "?rgs \<noteq> []" by simp
  have ntu: "next_to_use q < n" "length (tx_descs q) = n"
    using assms(1,6) by (auto simp: tx_queue_ok_def tx_ring_ok_def)
  have ls: "length (packet_slots params ?rgs) = length ch" using length_packet_slots [OF r] assms(7) by simp
  have "tx_descs q' ! ((next_to_use q + j) mod n) = tx_slot_of params
       (if Suc j = length ch then tx_cmd params OR p_eop_cmd params else tx_cmd params) (ch ! j)"
    if "j < length ch" for j
    using put_slots_nth [OF ntu, of "packet_slots params ?rgs" j] packet_slots_nth [OF r, of j params]
      that ls assms(7,8) q'(2) by simp
  moreover have "tx_descs q' ! s = tx_descs q ! s" if "s < n" "length ch \<le> ring_dist n (next_to_use q) s" for s
    using put_slots_other [OF ntu(1), of "packet_slots params ?rgs" s] that ls assms(8) q'(2) by simp
  moreover have "sum_list (map snd ch) = skb_len skb"
    unfolding assms(7) packet_chunks_sum by (simp add: skb_len_def)
  moreover have "\<exists>parts. ch = concat parts \<and> list_all2 region_cut ?rgs parts"
    unfolding assms(7) by (rule packet_chunks_cut)
  moreover have "\<forall>x\<in>set ch. snd x \<le> 16383" using packet_chunks_le assms(7) by blast
  moreover have "length ch \<le> frag_txd_count (skb_headlen skb) + sum_list (map frag_txd_count (skb_frags skb))"
    using packet_chunks_count [of ?rgs] assms(7) by (simp flip: map_map)
  ultimately show ?thesis
    using st(1) [of env params c] q' ls ntu(1) by (auto simp: end_slot_mod)
qed

lemma ex_excess: "tx_first_excess 2600 = 1496" "tx_first_excess 6696 = 1496"
  by (simp_all add: tx_first_excess_eq unat_minus_4096)

lemma ex_chunks: "packet_chunks (tx_regions ex_env 0 [100, 32768]) =
    [(2600, 100), (6696, 13784), (20480, 12288), (32768, 6696)]"
  by (simp add: ex_env_def ex_excess tx_chunks_small tx_chunks_big)

lemma ex_ids: "refill_ids (tx_refillq_fill (rx_refillq_init 0) 4) = 0 # [1, 2, 3]"
  using tx_refillq_fill_ok(2) [of 4 0] by (simp add: upt_rec)

lemma ex_simps:
  "skb_headlen ex_skb = 100" "skb_frags ex_skb = [32768]" "skb_ptr ex_skb = 77" "skb_hw_tstamp ex_skb = False"
  "skb_is_gso ex_skb = False" "skb_vlan_tag ex_skb = None" "skb_len ex_skb = 32868"
  "env_dma ex_env k = Some (2600 + 4096 * of_nat k)" "desc_count (ex_txq n m) = n"
  "next_to_use (ex_txq n m) = 0" "next_to_clean (ex_txq n m) = 0" "tx_log (ex_txq n m) = []"
  by (simp_all add: ex_skb_def ex_env_def ex_txq_def skb_len_def)

abbreviation ex_refillq :: idpf_sw_queue where
  "ex_refillq \<equiv> tx_refillq_fill (rx_refillq_init 0) 4"

abbreviation ex_params :: idpf_tx_splitq_params where
  "ex_params \<equiv> tx_frame_fparams ex_skb 0 tx_no_offload ex_refillq 0 False"

theorem idpf_tx_splitq_map_descs_witness:
  "\<exists>q' c'. idpf_tx_splitq_map ex_env ex_params ex_skb (unat (0::u32))
     (tx_map_start ex_skb False tx_no_offload 0 ex_refillq (ex_txq 16 4), ex_compl)
       = Some (q', c') \<and> next_to_use q' = 4 \<and> buf_addr (tx_descs q' ! 2) = 20480"
proof -
  let ?ch = "packet_chunks (tx_regions ex_env 0 (skb_headlen ex_skb # skb_frags ex_skb))"
  have ch: "?ch = [(2600, 100), (6696, 13784), (20480, 12288), (32768, 6696)]"
    unfolding ex_simps by (rule ex_chunks)
  have ok: "tx_queue_ok (ex_txq 16 4) ex_refillq" by (rule ex_txq_ok) simp_all
  have "length (skb_frags ex_skb) \<le> length [1, 2, 3 :: u32]"
    "tx_all_mapped ex_env 0 (skb_headlen ex_skb # skb_frags ex_skb)" "\<forall>f\<in>set (skb_frags ex_skb). 0 < f"
    "length ?ch \<le> 16"
    unfolding ch by (simp_all add: ex_simps)
  from idpf_tx_splitq_map_descs [OF ok ex_ids this(1-3) ex_simps(9) [symmetric] refl this(4),
      of ex_params False tx_no_offload ex_compl]
  obtain q' c' where "idpf_tx_splitq_map ex_env ex_params ex_skb (unat (0::u32))
     (tx_map_start ex_skb False tx_no_offload 0 ex_refillq (ex_txq 16 4), ex_compl) = Some (q', c')"
    and d: "\<forall>j<length ?ch. tx_descs q' ! ((next_to_use (ex_txq 16 4) + j) mod 16) = tx_slot_of ex_params
       (if Suc j = length ?ch then tx_cmd ex_params OR p_eop_cmd ex_params else tx_cmd ex_params) (?ch ! j)"
    and "next_to_use q' = (next_to_use (ex_txq 16 4) + length ?ch) mod 16"
    by blast
  moreover have "buf_addr (tx_descs q' ! 2) = 20480"
    using d [unfolded ch, rule_format, of 2] by (simp add: ex_simps tx_slot_of_def numeral_2_eq_2)
  ultimately show ?thesis
    unfolding ch by (simp add: ex_simps)
qed

section \<open>A packet that cannot be sent\<close>

text \<open>Context descriptors move \<open>next_to_use\<close> and write their slots, nothing else.\<close>

lemma get_ctx_desc_keeps:
  "\<exists>ds u. idpf_tx_splitq_get_ctx_desc d q = q\<lparr>tx_descs := ds, next_to_use := u\<rparr> \<and>
     length ds = length (tx_descs q) \<and> u = idpf_tx_splitq_bump_ntu q (next_to_use q)"
  by (simp add: idpf_tx_splitq_get_ctx_desc_def Let_def tx_slot_upd_def) (metis length_list_update)

lemma get_ctx_desc_ok:
  assumes "tx_queue_ok q r"
  shows "tx_queue_ok (idpf_tx_splitq_get_ctx_desc d q) r"
    "tx_bufs (idpf_tx_splitq_get_ctx_desc d q) = tx_bufs q"
    "tx_log (idpf_tx_splitq_get_ctx_desc d q) = tx_log q"
    "ETF_EN (idpf_tx_splitq_get_ctx_desc d q) = ETF_EN q" "tx_stopped (idpf_tx_splitq_get_ctx_desc d q) = tx_stopped q"
    "next_to_clean (idpf_tx_splitq_get_ctx_desc d q) = next_to_clean q"
    "desc_count (idpf_tx_splitq_get_ctx_desc d q) = desc_count q"
    "next_to_use (idpf_tx_splitq_get_ctx_desc d q) = Suc (next_to_use q) mod desc_count q"
proof -
  obtain ds u where e: "idpf_tx_splitq_get_ctx_desc d q = q\<lparr>tx_descs := ds, next_to_use := u\<rparr>"
    "length ds = length (tx_descs q)" "u = idpf_tx_splitq_bump_ntu q (next_to_use q)"
    using get_ctx_desc_keeps by blast
  moreover have "u = Suc (next_to_use q) mod desc_count q" "u < desc_count q"
    using assms e(3) by (auto simp: idpf_tx_splitq_bump_ntu_eq ring_bump_mod tx_queue_ok_def)
  ultimately show "tx_queue_ok (idpf_tx_splitq_get_ctx_desc d q) r"
    "tx_bufs (idpf_tx_splitq_get_ctx_desc d q) = tx_bufs q"
    "tx_log (idpf_tx_splitq_get_ctx_desc d q) = tx_log q"
    "ETF_EN (idpf_tx_splitq_get_ctx_desc d q) = ETF_EN q" "tx_stopped (idpf_tx_splitq_get_ctx_desc d q) = tx_stopped q"
    "next_to_clean (idpf_tx_splitq_get_ctx_desc d q) = next_to_clean q"
    "desc_count (idpf_tx_splitq_get_ctx_desc d q) = desc_count q"
    "next_to_use (idpf_tx_splitq_get_ctx_desc d q) = Suc (next_to_use q) mod desc_count q"
    using assms by (simp_all add: tx_queue_ok_def tx_ring_ok_def)
qed

text \<open>How many context descriptors a packet gets.\<close>

definition tx_ctx_count :: "tx_env \<Rightarrow> sk_buff \<Rightarrow> bool \<Rightarrow> idpf_tx_offload_params \<Rightarrow> nat" where
  "tx_ctx_count env skb tso off = of_bool tso + of_bool (skb_vlan_tag skb \<noteq> None)
     + of_bool (fst (idpf_tx_tstamp env skb off) \<noteq> None)"

lemma tx_frame_ctx_ok:
  assumes "tx_queue_ok q r" and "tx_frame_ctx env skb tso off q = (off', q')"
  shows "tx_queue_ok q' r \<and> tx_bufs q' = tx_bufs q \<and> tx_log q' = tx_log q \<and> ETF_EN q' = ETF_EN q \<and> tx_stopped q' = tx_stopped q \<and>
    off' = snd (idpf_tx_tstamp env skb off) \<and>
    next_to_clean q' = next_to_clean q \<and> desc_count q' = desc_count q \<and>
    next_to_use q' = (next_to_use q + tx_ctx_count env skb tso off) mod desc_count q"
proof -
  define q1 where "q1 = (if tso then idpf_tx_splitq_get_ctx_desc (tx_tso_desc off) q else q)"
  define q2 where "q2 = (case skb_vlan_tag skb of None \<Rightarrow> q1 | Some tag \<Rightarrow> idpf_tx_prepare_vlan_tag tag q1)"
  have lt: "next_to_use q < desc_count q" using assms(1) by (simp add: tx_queue_ok_def)
  have 1: "tx_queue_ok q1 r \<and> tx_bufs q1 = tx_bufs q \<and> tx_log q1 = tx_log q \<and> ETF_EN q1 = ETF_EN q \<and> tx_stopped q1 = tx_stopped q \<and>
    next_to_clean q1 = next_to_clean q \<and> desc_count q1 = desc_count q \<and>
    next_to_use q1 = (next_to_use q + of_bool tso) mod desc_count q"
    using assms(1) lt get_ctx_desc_ok [OF assms(1), of "tx_tso_desc off"] by (simp add: q1_def)
  have 2: "tx_queue_ok q2 r \<and> tx_bufs q2 = tx_bufs q \<and> tx_log q2 = tx_log q \<and> ETF_EN q2 = ETF_EN q \<and> tx_stopped q2 = tx_stopped q \<and>
    next_to_clean q2 = next_to_clean q \<and> desc_count q2 = desc_count q \<and>
    next_to_use q2 = (next_to_use q + of_bool tso + of_bool (skb_vlan_tag skb \<noteq> None)) mod desc_count q"
    using 1 get_ctx_desc_ok [of q1 r]
    by (auto simp: q2_def idpf_tx_prepare_vlan_tag_def mod_simps split: option.split)
  have "q' = (case fst (idpf_tx_tstamp env skb off) of None \<Rightarrow> q2
      | Some i \<Rightarrow> idpf_tx_splitq_get_ctx_desc (idpf_tx_set_tstamp_desc i) q2)"
    using assms(2)
    by (cases "idpf_tx_tstamp env skb off")
      (auto simp: tx_frame_ctx_def Let_def q1_def [symmetric] q2_def [symmetric] split: option.split)
  moreover have "off' = snd (idpf_tx_tstamp env skb off)"
    using assms(2) by (auto simp: tx_frame_ctx_def Let_def split: prod.splits)
  ultimately show ?thesis
    using 2 get_ctx_desc_ok [of q2 r]
    by (auto simp: tx_ctx_count_def mod_simps split: option.split)
qed

lemma tx_tstamp_keeps:
  "off_tso_segs (snd (idpf_tx_tstamp env skb off)) = off_tso_segs off"
  "off_tso_hdr_len (snd (idpf_tx_tstamp env skb off)) = off_tso_hdr_len off"
  by (auto simp: idpf_tx_tstamp_def Let_def split: option.splits)

lemma flow_sche_tstamp_keeps:
  "off_tso_segs (idpf_get_flow_sche_tstamp env skb off) = off_tso_segs off"
  "off_tso_hdr_len (idpf_get_flow_sche_tstamp env skb off) = off_tso_hdr_len off"
  "off_tsyn (idpf_get_flow_sche_tstamp env skb off) = off_tsyn off"
  by (auto simp: idpf_get_flow_sche_tstamp_def Let_def split: prod.splits)

text \<open>The way of a packet through \<open>idpf_tx_splitq_frame\<close> when there is room for it.\<close>

lemma tx_frame_to_map:
  assumes ok: "tx_queue_ok q r" and ids: "refill_ids r \<noteq> []"
    and cnt: "idpf_tx_res_count_required env q skb = (cnt, nb, skb')" "cnt \<noteq> 0"
    and tso: "idpf_tso env skb' tx_no_offload = (Inr tso, off)"
    and room: "idpf_txq_has_room q c (cnt + of_bool tso + of_bool (skb_vlan_tag skb' \<noteq> None)) nb = Some True"
  obtains q1 off' params where "tx_queue_ok q1 r" "tx_bufs q1 = tx_bufs q" "tx_log q1 = tx_log q"
    "next_to_clean q1 = next_to_clean q" "desc_count q1 = desc_count q"
    "next_to_use q1 = (next_to_use q + tx_ctx_count env skb' tso off) mod desc_count q"
    "p_prev_ntu params = next_to_use q" "p_prev_refill_gen params = rfl_RFL_GEN_CHK r"
    "p_prev_refill_ntc params = rfl_next_to_clean r"
    "idpf_tx_splitq_frame env skb (q, c) = map_option (Pair NETDEV_TX_OK)
       (idpf_tx_splitq_map env params skb' (unat (hd (refill_ids r)))
         (tx_map_start skb' tso off' (hd (refill_ids r)) r q1, tx_map_compl q1 c))"
    "tx_stopped q1 = tx_stopped q" "off_tso_segs off' = off_tso_segs off" "off_tso_hdr_len off' = off_tso_hdr_len off"
    "off_tsyn (p_offload params) = off_tsyn (snd (idpf_tx_tstamp env skb' off))"
proof -
  obtain off1 q1 where ctx: "tx_frame_ctx env skb' tso off q = (off1, q1)" by fastforce
  note q1 = tx_frame_ctx_ok [OF ok ctx]
  obtain bid ids' where bid: "refill_ids r = bid # ids'" using ids by (cases "refill_ids r") auto
  define off' where "off' = (if ETF_EN q1 then idpf_get_flow_sche_tstamp env skb' off1 else off1)"
  let ?params = "tx_frame_fparams skb' (next_to_use q) off' r bid (idpf_tx_splitq_need_re q1)"
  have stop: "idpf_tx_maybe_stop_splitq q c (cnt + of_bool tso + of_bool (skb_vlan_tag skb' \<noteq> None)) nb
      = Some (None, q)"
    using room by (simp add: idpf_tx_maybe_stop_splitq_def)
  have "FLOW_SCH_EN q1" "tx_refillq q1 = Some r" "refill_ok r" using q1 by (auto simp: tx_queue_ok_def)
  from tx_frame_send_eq [OF this bid off'_def]
  have "idpf_tx_splitq_frame env skb (q, c) = map_option (Pair NETDEV_TX_OK)
       (idpf_tx_splitq_map env ?params skb' (unat bid) (tx_map_start skb' tso off' bid r q1, tx_map_compl q1 c))"
    by (simp only: idpf_tx_splitq_frame_def Let_def prod.case cnt if_False tso sum.case stop option.case ctx)
  moreover have "rfl_next_to_clean r < 65536" using ok by (auto simp: tx_queue_ok_def refill_ok_def)
  ultimately show ?thesis
    using q1 bid by (intro that [of q1 ?params off']) (simp_all add: tx_frame_fparams_def off'_def tx_tstamp_keeps flow_sche_tstamp_keeps)
qed

text \<open>
  C30. When there is room for a packet but one of its buffers cannot be mapped, \<open>idpf_tx_splitq_frame\<close>
  returns with the queue as it was: \<open>next_to_use\<close> and the refill queue are the old ones, every
  buffer is idle again, the mappings made before the failure are undone, each once and in order,
  the packet is freed once and the old tail is written.
\<close>

theorem idpf_tx_splitq_frame_undoes:
  assumes ok: "tx_queue_ok q r" and ids: "refill_ids r \<noteq> []"
    and cnt: "idpf_tx_res_count_required env q skb = (cnt, nb, skb')" "cnt \<noteq> 0"
    and tso: "idpf_tso env skb' tx_no_offload = (Inr tso, off)"
    and room: "idpf_txq_has_room q c (cnt + of_bool tso + of_bool (skb_vlan_tag skb' \<noteq> None)) nb = Some True"
    and pos: "\<forall>f\<in>set (skb_frags skb'). 0 < f"
    and fail: "\<not> tx_all_mapped env 0 (skb_headlen skb' # skb_frags skb')"
  shows "\<exists>q' c' m. idpf_tx_splitq_frame env skb (q, c) = Some (NETDEV_TX_OK, q', c') \<and>
    next_to_use q' = next_to_use q \<and> tx_refillq q' = tx_refillq q \<and>
    (\<forall>x<length (tx_bufs q). sqe_type (tx_bufs q' ! x) = sqe_type (tx_bufs q ! x)) \<and>
    (let rgs = take m (tx_regions env 0 (skb_headlen skb' # skb_frags skb')) in
       tx_log q' = tx_log q @ tx_map_logged rgs @ tx_unmap_logged rgs @
         [SkbFree (skb_ptr skb'), TailWrite (next_to_use q)])"
proof -
  obtain q1 off' params where q1: "tx_queue_ok q1 r" "tx_bufs q1 = tx_bufs q" "tx_log q1 = tx_log q"
    and p: "p_prev_ntu params = next_to_use q" "p_prev_refill_gen params = rfl_RFL_GEN_CHK r"
    "p_prev_refill_ntc params = rfl_next_to_clean r"
    and fr: "idpf_tx_splitq_frame env skb (q, c) = map_option (Pair NETDEV_TX_OK)
       (idpf_tx_splitq_map env params skb' (unat (hd (refill_ids r)))
         (tx_map_start skb' tso off' (hd (refill_ids r)) r q1, tx_map_compl q1 c))"
    by (rule tx_frame_to_map [OF ok ids cnt tso room]) (rule that)
  obtain bid ids' where bid: "refill_ids r = bid # ids'" using ids by (cases "refill_ids r") auto
  define qs where "qs = tx_buf_upd (unat bid) (sqe_nr_frags_update (\<lambda>_. 0)) (tx_map_start skb' tso off' bid r q1)"
  note st = tx_map_at_start [OF q1(1) bid qs_def]
  have fail': "\<not> (tx_all_mapped env 0 (skb_headlen skb' # skb_frags skb') \<and>
      length (skb_frags skb') \<le> length (refill_ids (refill_bump_ntc r)))" using fail by blast
  from tx_map_loop_undone [OF st(3-8) pos st(10,11) fail', of params "tx_map_compl q1 c"]
  obtain q' m where q': "tx_map_loop env params (unat bid) 0 (unat bid) (next_to_use q1)
      (skb_headlen skb') (skb_frags skb') (qs, tx_map_compl q1 c) = Some (q', tx_map_compl q1 c)"
    and u: "tx_undone params (tx_bufs_start skb' tso off' bid r q1) (refill_bump_ntc r)
      (sqe_skb (tx_bufs_start skb' tso off' bid r q1 ! unat bid))
      ([] @ take m (tx_regions env 0 (skb_headlen skb' # skb_frags skb')))
      (qs\<lparr>tx_log := tx_log qs @ tx_map_logged (take m (tx_regions env 0 (skb_headlen skb' # skb_frags skb')))\<rparr>) q'"
    by blast
  have "unat bid < length (tx_bufs q1)" using q1(1) bid by (auto simp: tx_queue_ok_def tx_ids_idle_def)
  then have "sqe_skb (tx_bufs_start skb' tso off' bid r q1 ! unat bid) = skb_ptr skb'"
    by (rule tx_bufs_start_first)
  moreover have "tx_refillq q = Some r" using ok by (simp add: tx_queue_ok_def)
  ultimately show ?thesis
    using q' u fr st(1) [of env params "tx_map_compl q1 c"] st(12) bid q1(2,3) p
    by (intro exI [of _ q'] exI [of _ "tx_map_compl q1 c"] exI [of _ m])
      (simp add: tx_undone_def tx_bufs_start_types refill_rollback_bump refill_rollback_self Let_def)
qed

text \<open>The mapping of the fragment fails after the head has been mapped.\<close>

definition ex_env_fail :: tx_env where
  "ex_env_fail = ex_env\<lparr>env_dma := (\<lambda>k. if k = 0 then Some 2600 else None)\<rparr>"

lemma ex_res_count: "idpf_tx_res_count_required env (ex_txq n m) ex_skb = (4, 2, ex_skb)"
  by (simp add: idpf_tx_res_count_required_def ex_skb_def idpf_chk_linearize_def ex_txq_def
      frag_txd_count_def idpf_size_to_txd_count_def tx_max_desc_data)

lemma ex_tso: "idpf_tso env ex_skb tx_no_offload = (Inr False, tx_no_offload)"
  by (simp add: idpf_tso_def ex_simps)

lemma ex_room: "idpf_txq_has_room (ex_txq 16 4) ex_compl 4 2 = Some True"
  using idpf_tx_splitq_get_free_bufs_eq [OF tx_refillq_fill_ok(1) [of 4 0]] ex_ids
  by (simp add: idpf_txq_has_room_def IDPF_DESC_UNUSED_def ex_simps IDPF_TX_COMPLQ_PENDING_def
      IDPF_TX_COMPLQ_OVERFLOW_THRESH_def ex_compl_def) (simp add: ex_txq_def)

theorem idpf_tx_splitq_frame_undoes_witness:
  "\<exists>q' c' m. idpf_tx_splitq_frame ex_env_fail ex_skb (ex_txq 16 4, ex_compl) = Some (NETDEV_TX_OK, q', c') \<and>
     next_to_use q' = 0 \<and> tx_log q' = tx_map_logged (take m [(2600, 100), (the None, 32768)]) @
       tx_unmap_logged (take m [(2600, 100), (the None, 32768)]) @ [SkbFree 77, TailWrite 0]"
proof -
  have ok: "tx_queue_ok (ex_txq 16 4) ex_refillq" by (rule ex_txq_ok) simp_all
  have ids: "refill_ids ex_refillq \<noteq> []" using ex_ids by simp
  have room: "idpf_txq_has_room (ex_txq 16 4) ex_compl (4 + of_bool False + of_bool (skb_vlan_tag ex_skb \<noteq> None)) 2
      = Some True" using ex_room by (simp add: ex_simps)
  have pos: "\<forall>f\<in>set (skb_frags ex_skb). 0 < f"
    and fail: "\<not> tx_all_mapped ex_env_fail 0 (skb_headlen ex_skb # skb_frags ex_skb)"
    by (simp_all add: ex_simps ex_env_fail_def)
  have rg: "tx_regions ex_env_fail 0 (skb_headlen ex_skb # skb_frags ex_skb) = [(2600, 100), (the None, 32768)]"
    by (simp add: ex_simps ex_env_fail_def)
  obtain q' c' m where "idpf_tx_splitq_frame ex_env_fail ex_skb (ex_txq 16 4, ex_compl) = Some (NETDEV_TX_OK, q', c')"
    "next_to_use q' = next_to_use (ex_txq 16 4)"
    "let rgs = take m [(2600, 100), (the None, 32768)] in
       tx_log q' = tx_log (ex_txq 16 4) @ tx_map_logged rgs @ tx_unmap_logged rgs @
         [SkbFree (skb_ptr ex_skb), TailWrite (next_to_use (ex_txq 16 4))]"
    using idpf_tx_splitq_frame_undoes [OF ok ids ex_res_count _ ex_tso room pos fail] unfolding rg by auto
  then show ?thesis
    by (intro exI [of _ q'] exI [of _ c'] exI [of _ m]) (simp add: ex_simps Let_def)
qed

section \<open>A packet that completes\<close>

lemma fold_sqe_count_frag:
  "\<forall>x\<in>set bs. sqe_type (bufs ! x) = LIBETH_SQE_FRAG \<Longrightarrow> fold (\<lambda>x. sqe_count (bufs ! x)) bs ss = ss"
  by (induction bs) (simp_all add: sqe_count_def)

lemma idpf_tx_clean_bufs_eq:
  assumes chain: "tx_chain (tx_bufs q) (b # bs)" and d: "distinct (b # bs)"
    and lt: "\<forall>x\<in>set (b # bs). x < length (tx_bufs q)" "length (tx_bufs q) \<le> 65536"
    and r: "tx_refillq q = Some r"
    and ty: "sqe_type (tx_bufs q ! b) = (if ts then LIBETH_SQE_SKB_TSTAMP else LIBETH_SQE_SKB)"
    and frag: "\<forall>x\<in>set bs. sqe_type (tx_bufs q ! x) = LIBETH_SQE_FRAG"
    and s: "s = tx_bufs q ! b"
  shows "\<exists>q'. idpf_tx_clean_bufs b (q, ss) = Some (q',
       ss\<lparr>ss_packets := ss_packets ss + sqe_packets s, ss_bytes := ss_bytes ss + sqe_bytes s\<rparr>) \<and>
    tx_log q' = tx_log q @ (if ts then [TimestampRead (sqe_skb s)] else []) @
      [DmaUnmap (sqe_dma s) (sqe_len s), SkbConsume (sqe_skb s)] @
      tx_unmap_logged (map (\<lambda>x. sqe_region (tx_bufs q ! x)) bs) \<and>
    tx_refillq q' = Some (refill_post_all (b # bs) r) \<and> length (tx_bufs q') = length (tx_bufs q) \<and>
    (\<forall>x<length (tx_bufs q). sqe_type (tx_bufs q' ! x) =
       (if x \<in> set (b # bs) then LIBETH_SQE_EMPTY else sqe_type (tx_bufs q ! x)))"
proof -
  define q1 where "q1 = (if ts then tx_buf_upd b (sqe_type_update (\<lambda>_. LIBETH_SQE_SKB))
       (tx_emit (TimestampRead (sqe_skb s)) q) else q)"
  have nb: "b \<notin> set bs" and b: "b < length (tx_bufs q)" using d lt by auto
  have q1: "tx_bufs q1 = (tx_bufs q)[b := s\<lparr>sqe_type := LIBETH_SQE_SKB\<rparr>]"
  proof (cases ts)
    case False
    then have t: "sqe_type s = LIBETH_SQE_SKB" using ty s by simp
    have "s\<lparr>sqe_type := LIBETH_SQE_SKB\<rparr> = tx_bufs q ! b" unfolding t [symmetric] s by simp
    then show ?thesis using False by (simp add: q1_def)
  qed (simp add: q1_def tx_buf_upd_def tx_emit_def s)
  have q1l: "tx_log q1 = tx_log q @ (if ts then [TimestampRead (sqe_skb s)] else [])" "tx_refillq q1 = Some r"
    using r by (simp_all add: q1_def tx_buf_upd_def tx_emit_def)
  have len1: "length (tx_bufs q1) = length (tx_bufs q)" by (simp add: q1)
  have sb: "tx_bufs q1 ! b = s\<lparr>sqe_type := LIBETH_SQE_SKB\<rparr>" using b by (simp add: q1)
  have other: "x \<in> set bs \<Longrightarrow> tx_bufs q1 ! x = tx_bufs q ! x" for x
    using nb by (cases "x = b") (simp_all add: q1)
  let ?q2 = "q1\<lparr>tx_log := tx_log q1 @ sqe_events (tx_bufs q1 ! b), tx_bufs := sqe_clear b (tx_bufs q1),
             tx_refillq := Some (idpf_post_buf_refill r (of_nat b))\<rparr>"
  let ?ss = "sqe_count (tx_bufs q1 ! b) ss"
  have one: "tx_clean_one b (q1, ss) = Some (?q2, ?ss)" using q1l(2) by (rule tx_clean_one_eq)
  have "tx_chain (tx_bufs q1) (b # bs) = tx_chain (tx_bufs q) (b # bs)"
    by (rule tx_chain_cong) (use b in \<open>auto simp: sb s dest: other\<close>)
  then have "tx_chain (tx_bufs ?q2) (b # bs)" using chain by (simp add: tx_chain_clear)
  moreover have "distinct bs" "\<forall>x\<in>set bs. x < 65536" using d lt by auto
  moreover have "length bs \<le> length (tx_bufs q1)"
  proof -
    have "set (b # bs) \<subseteq> {..<length (tx_bufs q)}" using lt(1) by auto
    then show ?thesis
      using distinct_card [OF d] card_mono [of "{..<length (tx_bufs q)}" "set (b # bs)"] len1 by simp
  qed
  ultimately have chn: "tx_clean_chain (length (tx_bufs q1)) b (?q2, ?ss) =
    Some (?q2\<lparr>tx_log := tx_log ?q2 @ concat (map (\<lambda>x. sqe_events (tx_bufs ?q2 ! x)) bs),
            tx_bufs := sqe_clear_all bs (tx_bufs ?q2),
            tx_refillq := Some (refill_post_all bs (idpf_post_buf_refill r (of_nat b)))\<rparr>,
          fold (\<lambda>x. sqe_count (tx_bufs ?q2 ! x)) bs ?ss)"
    by (intro tx_clean_chain_eq) simp_all
  have same2: "x \<in> set bs \<Longrightarrow> tx_bufs ?q2 ! x = tx_bufs q ! x" for x
    using nb other [of x] by (cases "x = b") (auto simp: sqe_clear_other)
  then have frag2: "\<forall>x\<in>set bs. sqe_type (tx_bufs ?q2 ! x) = LIBETH_SQE_FRAG" using frag by simp
  have ev: "concat (map (\<lambda>x. sqe_events (tx_bufs ?q2 ! x)) bs) =
      tx_unmap_logged (map (\<lambda>x. sqe_region (tx_bufs q ! x)) bs)"
    using concat_sqe_events_frag [OF frag2] same2 by (simp cong: map_cong)
  have evb: "sqe_events (tx_bufs q1 ! b) = [DmaUnmap (sqe_dma s) (sqe_len s), SkbConsume (sqe_skb s)]"
    "?ss = ss\<lparr>ss_packets := ss_packets ss + sqe_packets s, ss_bytes := ss_bytes ss + sqe_bytes s\<rparr>"
    by (simp_all add: sb sqe_events_def sqe_count_def)
  have call: "idpf_tx_clean_bufs b (q, ss) = tx_clean_chain (length (tx_bufs q1)) b (?q2, ?ss)"
    using b ty one unfolding idpf_tx_clean_bufs_def
    by (auto simp: Let_def q1_def s [symmetric] split: if_splits)
  let ?q3 = "?q2\<lparr>tx_log := tx_log ?q2 @ concat (map (\<lambda>x. sqe_events (tx_bufs ?q2 ! x)) bs),
            tx_bufs := sqe_clear_all bs (tx_bufs ?q2),
            tx_refillq := Some (refill_post_all bs (idpf_post_buf_refill r (of_nat b)))\<rparr>"
  have res: "idpf_tx_clean_bufs b (q, ss) = Some (?q3,
       ss\<lparr>ss_packets := ss_packets ss + sqe_packets s, ss_bytes := ss_bytes ss + sqe_bytes s\<rparr>)"
    by (simp only: call chn) (simp only: fold_sqe_count_frag [OF frag2] evb(2))
  have "sqe_type (sqe_clear_all bs (sqe_clear b (tx_bufs q1)) ! x) =
      (if x \<in> set (b # bs) then LIBETH_SQE_EMPTY else sqe_type (tx_bufs q ! x))" if "x < length (tx_bufs q)" for x
    using that by (simp add: sqe_clear_all_nth sqe_clear_nth len1) (simp add: q1)
  with ev evb(1) q1l(1) len1 show ?thesis
    by - (rule exI [of _ ?q3], intro conjI, rule res, simp_all)
qed

lemma map_of_nat_unat: "map (of_nat \<circ> unat) ids = (ids :: u32 list)"
  by (induction ids) auto

text \<open>Posting the ids of a packet behind what was left of the refill queue gives all ids back.\<close>

lemma refill_ids_returned:
  assumes "refill_ok r'" and "refill_ids r' = drop k ids" and "refill_ids r = bid # ids"
    and "rfl_desc_count r' = rfl_desc_count r \<and> length (refill_ids r) \<le> rfl_desc_count r"
    and "\<forall>x\<in>set (unat bid # map unat (take k ids)). x < 65536"
  shows "refill_ok (refill_post_all (unat bid # map unat (take k ids)) r')"
    and "mset (refill_ids (refill_post_all (unat bid # map unat (take k ids)) r')) = mset (refill_ids r)"
proof -
  let ?bs = "unat bid # map unat (take k ids)"
  have "length (refill_ids r') + length ?bs \<le> rfl_desc_count r'"
    using assms(2-4) by (auto simp: min_def simp del: length_refill_ids)
  from refill_post_all_ok [OF assms(1) this assms(5)]
  have post: "refill_ok (refill_post_all ?bs r')" "refill_ids (refill_post_all ?bs r') = drop k ids @ map of_nat ?bs"
    using assms(2) by simp_all
  have "mset (take k ids) + mset (drop k ids) = mset ids" by (metis append_take_drop_id mset_append)
  then show "refill_ok (refill_post_all ?bs r')" and "mset (refill_ids (refill_post_all ?bs r')) = mset (refill_ids r)"
    using post map_of_nat_unat [of "take k ids"] assms(3)
    by (simp_all add: ac_simps del: refill_post_all_simps)
qed

text \<open>
  C31. Sending and completing is a round trip.  \<open>idpf_tx_splitq_frame\<close>, on a queue with room and ids and
  with all mappings succeeding, does nothing to the outside but map the regions of the packet in order,
  report its bytes, and write the new tail unless more packets follow and the queue is running.  The
  completion with the packet's tag then undoes exactly these mappings, each once and in order, reads the
  timestamp if one was requested, and consumes the packet once.  It counts one packet, or the segments
  when the packet is segmented, and the bytes on the wire: at least 60, or with a header for every segment
  (in 32 bits).  Every buffer is idle again and the ids in the refill queue are those from before.
\<close>

theorem idpf_tx_send_complete:
  assumes ok: "tx_queue_ok q r" and ids: "Suc (length (skb_frags skb')) \<le> length (refill_ids r)"
    and cnt: "idpf_tx_res_count_required env q skb = (cnt, nb, skb')" "cnt \<noteq> 0"
    and tso: "idpf_tso env skb' tx_no_offload = (Inr tso, off)"
    and room: "idpf_txq_has_room q c (cnt + of_bool tso + of_bool (skb_vlan_tag skb' \<noteq> None)) nb = Some True"
    and pos: "\<forall>f\<in>set (skb_frags skb'). 0 < f"
    and mapped: "tx_all_mapped env 0 (skb_headlen skb' # skb_frags skb')"
    and rgs: "rgs = tx_regions env 0 (skb_headlen skb' # skb_frags skb')"
    and bytes: "bytes = (if tso then trunc32 (skb_len skb' + trunc32 (off_tso_segs off + 4294967295) * off_tso_hdr_len off)
        else max (skb_len skb') 60)"
  shows "\<exists>q' c' q'' ss' r''. idpf_tx_splitq_frame env skb (q, c) = Some (NETDEV_TX_OK, q', c') \<and>
    tx_log q' = tx_log q @ tx_map_logged rgs @ [BqlSent bytes] @
      (if tx_stopped q \<or> \<not> env_xmit_more env then [TailWrite (next_to_use q')] else []) \<and>
    idpf_tx_clean_bufs (unat (hd (refill_ids r))) (q', ss) = Some (q'', ss') \<and>
    tx_log q'' = tx_log q' @
      (if off_tsyn (snd (idpf_tx_tstamp env skb' off)) then [TimestampRead (skb_ptr skb')] else []) @
      [DmaUnmap (fst (hd rgs)) (snd (hd rgs)), SkbConsume (skb_ptr skb')] @ tx_unmap_logged (tl rgs) \<and>
    tx_refillq q'' = Some r'' \<and> refill_ok r'' \<and> mset (refill_ids r'') = mset (refill_ids r) \<and>
    (\<forall>x<length (tx_bufs q). sqe_type (tx_bufs q'' ! x) = sqe_type (tx_bufs q ! x)) \<and>
    ss_packets ss' = ss_packets ss + (if tso then off_tso_segs off else 1) \<and> ss_bytes ss' = ss_bytes ss + bytes"
proof -
  have "refill_ids r \<noteq> []" using ids by (cases "refill_ids r") auto
  obtain q1 off' params where q1: "tx_queue_ok q1 r" "tx_bufs q1 = tx_bufs q" "tx_log q1 = tx_log q"
    and fr: "idpf_tx_splitq_frame env skb (q, c) = map_option (Pair NETDEV_TX_OK)
       (idpf_tx_splitq_map env params skb' (unat (hd (refill_ids r)))
         (tx_map_start skb' tso off' (hd (refill_ids r)) r q1, tx_map_compl q1 c))"
    and off: "tx_stopped q1 = tx_stopped q" "off_tso_segs off' = off_tso_segs off" "off_tso_hdr_len off' = off_tso_hdr_len off"
      "off_tsyn (p_offload params) = off_tsyn (snd (idpf_tx_tstamp env skb' off))"
    by (rule tx_frame_to_map [OF ok \<open>refill_ids r \<noteq> []\<close> cnt tso room]) (rule that)
  obtain bid ids' where bid: "refill_ids r = bid # ids'" using \<open>refill_ids r \<noteq> []\<close> by (cases "refill_ids r") auto
  define qs where "qs = tx_buf_upd (unat bid) (sqe_nr_frags_update (\<lambda>_. 0)) (tx_map_start skb' tso off' bid r q1)"
  define bufs0 where "bufs0 = tx_bufs_start skb' tso off' bid r q1"
  let ?k = "length (skb_frags skb')"
  note st = tx_map_at_start [OF q1(1) bid qs_def, folded bufs0_def]
  have len: "?k \<le> length (refill_ids (refill_bump_ntc r))" using ids bid st(9) by simp
  let ?bs = "map unat (take ?k (refill_ids (refill_bump_ntc r)))"
  let ?ts = "off_tsyn (p_offload params)"
  from tx_map_loop_sent [OF mapped st(4-8) len pos refl, of params "unat bid" "unat bid" "tx_map_compl q1 c"]
  obtain q' r' c' where q': "tx_map_loop env params (unat bid) 0 (unat bid) (next_to_use q1)
        (skb_headlen skb') (skb_frags skb') (qs, tx_map_compl q1 c) = Some (q', c')"
    and r': "tx_refillq q' = Some r'" "refill_ok r'" "rfl_desc_count r' = rfl_desc_count r"
      "refill_ids r' = drop ?k ids'"
    and log: "tx_log q' = tx_log q @ tx_map_logged rgs @ [BqlSent (sqe_bytes (tx_bufs q' ! unat bid))] @
      (if tx_stopped q \<or> \<not> env_xmit_more env then [TailWrite (next_to_use q')] else [])"
    using st(9,12,16) q1(3) rgs off(1) by auto
  have ch: "tx_chain (tx_bufs q') (unat bid # ?bs)" "distinct (unat bid # ?bs)"
    "map (\<lambda>x. sqe_region (tx_bufs q' ! x)) (unat bid # ?bs) = rgs"
    "\<forall>x\<in>set (unat bid # ?bs). sqe_type (tx_bufs q' ! x) = (if x \<noteq> unat bid then LIBETH_SQE_FRAG
        else if ?ts then LIBETH_SQE_SKB_TSTAMP else LIBETH_SQE_SKB)"
    "sqe_same (bufs0 ! unat bid) (tx_bufs q' ! unat bid)" "length (tx_bufs q') = length bufs0"
    "\<forall>x<length bufs0. x \<notin> set (unat bid # ?bs) \<longrightarrow> sqe_type (tx_bufs q' ! x) = sqe_type (bufs0 ! x)"
    using tx_map_loop_chain [OF mapped st(3-8) pos st(10) len q' refl] rgs by simp_all
  have l0: "length bufs0 = length (tx_bufs q)" "\<And>x. sqe_type (bufs0 ! x) = sqe_type (tx_bufs q ! x)"
    by (simp_all add: bufs0_def tx_bufs_start_types q1(2))
  have idle: "tx_ids_idle (tx_bufs q) [] (bid # ids')" using ok bid by (simp add: tx_queue_ok_def)
  have lt: "\<forall>x\<in>set (unat bid # ?bs). x < length (tx_bufs q') \<and> sqe_type (tx_bufs q ! x) = LIBETH_SQE_EMPTY"
    and l16: "length (tx_bufs q') \<le> 65536"
    using idle ch(6) l0(1) st(9) by (auto simp: tx_ids_idle_def dest: in_set_takeD)
  have lt1: "\<forall>x\<in>set (unat bid # ?bs). x < length (tx_bufs q')" using lt by blast
  have ty: "sqe_type (tx_bufs q' ! unat bid) = (if ?ts then LIBETH_SQE_SKB_TSTAMP else LIBETH_SQE_SKB)"
    using ch(4) by simp
  have frag: "\<forall>x\<in>set ?bs. sqe_type (tx_bufs q' ! x) = LIBETH_SQE_FRAG"
  proof
    fix x assume x: "x \<in> set ?bs"
    then have "x \<noteq> unat bid" using ch(2) by (metis distinct.simps(2))
    with ch(4) x show "sqe_type (tx_bufs q' ! x) = LIBETH_SQE_FRAG" by (simp only: list.set_intros(2) simp_thms if_True)
  qed
  let ?s = "tx_bufs q' ! unat bid"
  obtain q'' where q'': "idpf_tx_clean_bufs (unat bid) (q', ss) = Some (q'',
       ss\<lparr>ss_packets := ss_packets ss + sqe_packets ?s, ss_bytes := ss_bytes ss + sqe_bytes ?s\<rparr>)"
    "tx_log q'' = tx_log q' @ (if ?ts then [TimestampRead (sqe_skb ?s)] else []) @
      [DmaUnmap (sqe_dma ?s) (sqe_len ?s), SkbConsume (sqe_skb ?s)] @
      tx_unmap_logged (map (\<lambda>x. sqe_region (tx_bufs q' ! x)) ?bs)"
    "tx_refillq q'' = Some (refill_post_all (unat bid # ?bs) r')"
    "\<forall>x<length (tx_bufs q'). sqe_type (tx_bufs q'' ! x) =
       (if x \<in> set (unat bid # ?bs) then LIBETH_SQE_EMPTY else sqe_type (tx_bufs q' ! x))"
    using idpf_tx_clean_bufs_eq [OF ch(1,2) lt1 l16 r'(1) ty frag refl, of ss] by blast
  have "unat bid < length (tx_bufs q1)" using lt ch(6) l0(1) q1(2) by simp
  then have skb: "sqe_skb ?s = skb_ptr skb'" "sqe_packets ?s = (if tso then off_tso_segs off else 1)" "sqe_bytes ?s = bytes"
    using ch(5) tx_bufs_start_first [of bid q1 skb' tso off' r] off(2,3) bytes
    by (simp_all add: sqe_same_def bufs0_def)
  have reg: "hd rgs = (sqe_dma ?s, sqe_len ?s)" "tl rgs = map (\<lambda>x. sqe_region (tx_bufs q' ! x)) ?bs"
    using ch(3) by (auto simp: sqe_region_def)
  have types: "\<forall>x<length (tx_bufs q). sqe_type (tx_bufs q'' ! x) = sqe_type (tx_bufs q ! x)"
    using q''(4) ch(6,7) l0 lt by auto
  have "rfl_desc_count r' = rfl_desc_count r \<and> length (refill_ids r) \<le> rfl_desc_count r"
    using refill_used_le [of r] ok r'(3) by (simp add: tx_queue_ok_def)
  moreover have "\<forall>x\<in>set (unat bid # ?bs). x < 65536" using lt1 l16 by fastforce
  ultimately have post: "refill_ok (refill_post_all (unat bid # ?bs) r')"
    and ms: "mset (refill_ids (refill_post_all (unat bid # ?bs) r')) = mset (refill_ids r)"
    using refill_ids_returned [OF r'(2,4) bid] st(9) by (simp_all del: length_refill_ids refill_post_all_simps)
  note tail = log [unfolded skb(3)]
  have frame: "idpf_tx_splitq_frame env skb (q, c) = Some (NETDEV_TX_OK, q', c')"
    using fr bid st(1) [of env params "tx_map_compl q1 c"] q' by simp
  have log2: "tx_log q'' = tx_log q' @ (if off_tsyn (snd (idpf_tx_tstamp env skb' off)) then [TimestampRead (skb_ptr skb')] else []) @
      [DmaUnmap (fst (hd rgs)) (snd (hd rgs)), SkbConsume (skb_ptr skb')] @ tx_unmap_logged (tl rgs)"
    using q''(2) skb reg off(4) by simp
  have clean: "idpf_tx_clean_bufs (unat (hd (refill_ids r))) (q', ss) = Some (q'',
       ss\<lparr>ss_packets := ss_packets ss + (if tso then off_tso_segs off else 1), ss_bytes := ss_bytes ss + bytes\<rparr>)"
    using q''(1) bid skb(2,3) by simp
  show ?thesis
    by (intro exI conjI) (rule frame tail clean log2 q''(3) post ms types napi_stats.select_convs | simp)+
qed

theorem idpf_tx_send_complete_witness:
  "\<exists>q' c' q'' ss' r''. idpf_tx_splitq_frame ex_env ex_skb (ex_txq 16 4, ex_compl) = Some (NETDEV_TX_OK, q', c') \<and>
     idpf_tx_clean_bufs 0 (q', \<lparr>ss_packets = 0, ss_bytes = 0\<rparr>) = Some (q'', ss') \<and>
     tx_refillq q'' = Some r'' \<and> mset (refill_ids r'') = mset [0, 1, 2, 3] \<and> ss_packets ss' = 1"
proof -
  have ok: "tx_queue_ok (ex_txq 16 4) ex_refillq" by (rule ex_txq_ok) simp_all
  have ids: "Suc (length (skb_frags ex_skb)) \<le> length (refill_ids ex_refillq)"
    unfolding ex_ids by (simp add: ex_simps)
  have room: "idpf_txq_has_room (ex_txq 16 4) ex_compl (4 + of_bool False + of_bool (skb_vlan_tag ex_skb \<noteq> None)) 2
      = Some True" using ex_room by (simp add: ex_simps)
  have pos: "\<forall>f\<in>set (skb_frags ex_skb). 0 < f"
    and mp: "tx_all_mapped ex_env 0 (skb_headlen ex_skb # skb_frags ex_skb)"
    by (simp_all add: ex_simps)
  have four: "(4::nat) \<noteq> 0" by simp
  show ?thesis
    using idpf_tx_send_complete [OF ok ids ex_res_count four ex_tso room pos mp refl refl,
        of "\<lparr>ss_packets = 0, ss_bytes = 0\<rparr>"]
    unfolding ex_ids by auto
qed

end
