(* ===== verification/Idpf_Tx_Limits.thy ===== *)
theory Idpf_Tx_Limits
  imports Idpf_Tx_Results
begin

text \<open>
  Whether the room checked for a packet is the room the packet takes: it is for packets without a
  hardware timestamp and with a head of at most 16383 bytes, on queues with flow based scheduling.
  The cases where it is not are shown by examples.
\<close>

section \<open>Room\<close>

definition txq_idx_ok :: "idpf_txq \<Rightarrow> bool" where
  "txq_idx_ok q \<longleftrightarrow> next_to_use q < desc_count q \<and> next_to_clean q < desc_count q"

interpretation txq: descriptor_ring txq_idx_ok desc_count next_to_use next_to_clean
  idpf_tx_splitq_bump_ntu IDPF_DESC_UNUSED
  by unfold_locales
    (auto simp: txq_idx_ok_def idpf_tx_splitq_bump_ntu_eq ring_bump_mod IDPF_DESC_UNUSED_def ring_dist_def)

lemma tx_queue_idx_ok: "tx_queue_ok q r \<Longrightarrow> txq_idx_ok q"
  by (simp add: tx_queue_ok_def txq_idx_ok_def)

lemma frag_txd_count_le: "0 < s \<Longrightarrow> frag_txd_count s \<le> idpf_size_to_txd_count s"
  by (auto simp: frag_txd_count_def idpf_size_to_txd_count_def tx_max_desc_data Suc_le_eq div_greater_zero_iff)

text \<open>What \<open>idpf_tx_res_count_required\<close> counts is enough for the packet it leaves.\<close>

lemma idpf_tx_res_count_enough:
  assumes "idpf_tx_res_count_required env q skb = (cnt, nb, skb')" and "cnt \<noteq> 0"
    and "0 < skb_headlen skb" and "skb_headlen skb \<le> 16383" and "\<forall>f\<in>set (skb_frags skb). 0 < f"
  shows "frag_txd_count (skb_headlen skb') + sum_list (map frag_txd_count (skb_frags skb')) \<le> cnt \<and>
    Suc (length (skb_frags skb')) \<le> nb \<and> (\<forall>f\<in>set (skb_frags skb'). 0 < f)"
proof (cases "skb_frags skb = []")
  case True
  then show ?thesis
    using assms by (auto simp: idpf_tx_res_count_required_def Let_def frag_txd_count_def)
next
  case False
  then have s: "sum_list (skb_frags skb) \<noteq> 0" using assms(5) by (cases "skb_frags skb") auto
  have h: "frag_txd_count (skb_headlen skb) = 1" using assms(4) by (simp add: frag_txd_count_def)
  have l: "0 < skb_len skb" using assms(3) by (simp add: skb_len_def)
  show ?thesis
    using assms s h frag_txd_count_le [OF l]
    by (auto simp: idpf_tx_res_count_required_def Let_def split: if_splits)
qed

text \<open>A packet that is sent, whatever it needs.\<close>

lemma tx_frame_sent:
  assumes ok: "tx_queue_ok q r" and ids: "Suc (length (skb_frags skb')) \<le> length (refill_ids r)"
    and cnt: "idpf_tx_res_count_required env q skb = (cnt, nb, skb')" "cnt \<noteq> 0"
    and tso: "idpf_tso env skb' tx_no_offload = (Inr tso, off)"
    and room: "idpf_txq_has_room q c (cnt + of_bool tso + of_bool (skb_vlan_tag skb' \<noteq> None)) nb = Some True"
    and pos: "\<forall>f\<in>set (skb_frags skb'). 0 < f"
    and mapped: "tx_all_mapped env 0 (skb_headlen skb' # skb_frags skb')"
    and used: "used = tx_ctx_count env skb' tso off +
      length (packet_chunks (tx_regions env 0 (skb_headlen skb' # skb_frags skb')))"
  shows "\<exists>q' c' r'. idpf_tx_splitq_frame env skb (q, c) = Some (NETDEV_TX_OK, q', c') \<and>
    next_to_use q' = (next_to_use q + used) mod desc_count q \<and>
    next_to_clean q' = next_to_clean q \<and> desc_count q' = desc_count q \<and>
    tx_refillq q' = Some r' \<and> refill_ok r' \<and>
    refill_ids r' = drop (Suc (length (skb_frags skb'))) (refill_ids r)"
proof -
  have "refill_ids r \<noteq> []" using ids by (cases "refill_ids r") auto
  obtain q1 off' params where q1: "tx_queue_ok q1 r"
    "next_to_clean q1 = next_to_clean q" "desc_count q1 = desc_count q"
    "next_to_use q1 = (next_to_use q + tx_ctx_count env skb' tso off) mod desc_count q"
    and fr: "idpf_tx_splitq_frame env skb (q, c) = map_option (Pair NETDEV_TX_OK)
       (idpf_tx_splitq_map env params skb' (unat (hd (refill_ids r)))
         (tx_map_start skb' tso off' (hd (refill_ids r)) r q1, tx_map_compl q1 c))"
    by (rule tx_frame_to_map [OF ok \<open>refill_ids r \<noteq> []\<close> cnt tso room]) (rule that)
  obtain bid ids' where bid: "refill_ids r = bid # ids'" using \<open>refill_ids r \<noteq> []\<close> by (cases "refill_ids r") auto
  define qs where "qs = tx_buf_upd (unat bid) (sqe_nr_frags_update (\<lambda>_. 0)) (tx_map_start skb' tso off' bid r q1)"
  note st = tx_map_at_start [OF q1(1) bid qs_def]
  have len: "length (skb_frags skb') \<le> length (refill_ids (refill_bump_ntc r))" using ids bid st(9) by simp
  let ?slots = "packet_slots params (tx_regions env 0 (skb_headlen skb' # skb_frags skb'))"
  from tx_map_loop_sent [OF mapped st(4-8) len pos refl, of params "unat bid" "unat bid" "tx_map_compl q1 c"]
  obtain q' c' r' where q': "tx_map_loop env params (unat bid) 0 (unat bid) (next_to_use q1)
        (skb_headlen skb') (skb_frags skb') (qs, tx_map_compl q1 c) = Some (q', c')"
    and f: "next_to_use q' = end_slot (desc_count q) (next_to_use q1) ?slots"
    "next_to_clean q' = next_to_clean q" "desc_count q' = desc_count q"
    "tx_refillq q' = Some r'" "refill_ok r'" "refill_ids r' = drop (length (skb_frags skb')) ids'"
    using st(9,14,15) q1(2,3) by auto
  have ls: "length ?slots = length (packet_chunks (tx_regions env 0 (skb_headlen skb' # skb_frags skb')))"
    by (rule length_packet_slots) simp
  have "next_to_use q1 < desc_count q" using q1 by (simp add: tx_queue_ok_def)
  then have "next_to_use q' = (next_to_use q + used) mod desc_count q"
    using f(1) q1(4) used ls
    by (simp add: end_slot_mod mod_simps ac_simps del: packet_slots.simps packet_chunks_simps tx_regions.simps)
  then show ?thesis
    using fr bid st(1) [of env params "tx_map_compl q1 c"] q' f(2-6) by auto
qed

text \<open>
  C32. A packet without a hardware timestamp, with a head of at most 16383 bytes, for which
  \<open>idpf_txq_has_room\<close> finds room is sent within that room: the descriptors it takes, context
  descriptors included, are at most the free ones, so the producer does not reach the consumer and
  the free count falls by exactly their number; and the refill queue, which looks full when it is
  empty, keeps at least one id.
\<close>

theorem idpf_tx_splitq_frame_fits:
  assumes ok: "tx_queue_ok q r" and ne: "refill_ids r \<noteq> []"
    and cnt: "idpf_tx_res_count_required env q skb = (cnt, nb, skb')" "cnt \<noteq> 0"
    and head: "0 < skb_headlen skb" "skb_headlen skb \<le> 16383" and pos: "\<forall>f\<in>set (skb_frags skb). 0 < f"
    and tso: "idpf_tso env skb' tx_no_offload = (Inr tso, off)"
    and nots: "\<not> skb_hw_tstamp skb'"
    and room: "idpf_txq_has_room q c (cnt + of_bool tso + of_bool (skb_vlan_tag skb' \<noteq> None)) nb = Some True"
    and mapped: "tx_all_mapped env 0 (skb_headlen skb' # skb_frags skb')"
  shows "\<exists>q' c' r' used. idpf_tx_splitq_frame env skb (q, c) = Some (NETDEV_TX_OK, q', c') \<and>
    used \<le> IDPF_DESC_UNUSED q \<and> IDPF_DESC_UNUSED q' = IDPF_DESC_UNUSED q - used \<and>
    next_to_use q' = (next_to_use q + used) mod desc_count q \<and>
    tx_refillq q' = Some r' \<and> refill_ids r' \<noteq> [] \<and>
    length (refill_ids r') = length (refill_ids r) - Suc (length (skb_frags skb'))"
proof -
  note en = idpf_tx_res_count_enough [OF cnt head pos]
  let ?rgs = "tx_regions env 0 (skb_headlen skb' # skb_frags skb')"
  let ?used = "tx_ctx_count env skb' tso off + length (packet_chunks ?rgs)"
  have r: "tx_refillq q = Some r" "refill_ok r" using ok by (auto simp: tx_queue_ok_def)
  have rm: "cnt + of_bool tso + of_bool (skb_vlan_tag skb' \<noteq> None) \<le> IDPF_DESC_UNUSED q"
    and nb: "nb \<le> length (refill_ids r) - 1"
    using room ne r(1) idpf_tx_splitq_get_free_bufs_eq [OF r(2)]
    by (auto simp: idpf_txq_has_room_def split: if_splits)
  have "length (packet_chunks ?rgs) \<le> cnt"
    using packet_chunks_count [of ?rgs] en by (simp flip: map_map)
  moreover have "tx_ctx_count env skb' tso off = of_bool tso + of_bool (skb_vlan_tag skb' \<noteq> None)"
    using nots by (simp add: tx_ctx_count_def idpf_tx_tstamp_def)
  ultimately have u: "?used \<le> IDPF_DESC_UNUSED q" using rm by linarith
  have ids: "Suc (length (skb_frags skb')) < length (refill_ids r)"
    using en nb ne by (cases "refill_ids r") (auto simp del: length_refill_ids)
  obtain q' c' r' where q': "idpf_tx_splitq_frame env skb (q, c) = Some (NETDEV_TX_OK, q', c')"
    "next_to_use q' = (next_to_use q + ?used) mod desc_count q"
    "next_to_clean q' = next_to_clean q" "desc_count q' = desc_count q" "tx_refillq q' = Some r'"
    "refill_ids r' = drop (Suc (length (skb_frags skb'))) (refill_ids r)"
    using tx_frame_sent [OF ok less_imp_le [OF ids] cnt tso room _ mapped refl] en by blast
  have idx: "txq_idx_ok q" using ok by (rule tx_queue_idx_ok)
  then have idx': "txq_idx_ok q'" using q'(2-4) by (simp add: txq_idx_ok_def)
  have "IDPF_DESC_UNUSED q' = IDPF_DESC_UNUSED q - ?used"
    using txq.produce_used [OF idx u] txq.used_plus_unused [OF idx] txq.used_plus_unused [OF idx'] q'(2-4)
    by simp
  moreover have "refill_ids r' \<noteq> []" using ids q'(6) by simp
  moreover have "length (refill_ids r') = length (refill_ids r) - Suc (length (skb_frags skb'))"
    using q'(6) by (simp del: length_refill_ids)
  ultimately show ?thesis using q' u by blast
qed

theorem idpf_tx_splitq_frame_fits_witness:
  "\<exists>q' c'. idpf_tx_splitq_frame ex_env ex_skb (ex_txq 16 4, ex_compl) = Some (NETDEV_TX_OK, q', c') \<and>
     IDPF_DESC_UNUSED q' \<le> 15"
proof -
  have ok: "tx_queue_ok (ex_txq 16 4) ex_refillq" by (rule ex_txq_ok) simp_all
  have ne: "refill_ids ex_refillq \<noteq> []" unfolding ex_ids by simp
  have room: "idpf_txq_has_room (ex_txq 16 4) ex_compl (4 + of_bool False + of_bool (skb_vlan_tag ex_skb \<noteq> None)) 2
      = Some True" using ex_room by (simp add: ex_simps)
  have "(4::nat) \<noteq> 0" "0 < skb_headlen ex_skb" "skb_headlen ex_skb \<le> 16383"
    "\<forall>f\<in>set (skb_frags ex_skb). 0 < f" "\<not> skb_hw_tstamp ex_skb"
    "tx_all_mapped ex_env 0 (skb_headlen ex_skb # skb_frags ex_skb)"
    by (simp_all add: ex_simps)
  from idpf_tx_splitq_frame_fits [OF ok ne ex_res_count this(1-4) ex_tso this(5) room this(6)]
  show ?thesis by (force simp: IDPF_DESC_UNUSED_def ex_simps)
qed

section \<open>Where the room is not enough\<close>

text \<open>The example packet with a timestamp, on a ring of 64 of which 4 slots are free.\<close>

definition ex_skb_ts :: sk_buff where
  "ex_skb_ts = ex_skb\<lparr>skb_hw_tstamp := True\<rparr>"

definition ex_env_ts :: tx_env where
  "ex_env_ts = ex_env\<lparr>env_request_ts := Some 0\<rparr>"

lemma ex_txq_refillq: "tx_refillq (ex_txq n m) = Some (tx_refillq_fill (rx_refillq_init 0) m)"
  by (simp add: ex_txq_def)

lemma idpf_tx_res_count_cong:
  "tx_max_bufs q' = tx_max_bufs q \<Longrightarrow> idpf_tx_res_count_required env q' skb = idpf_tx_res_count_required env q skb"
  by (simp only: idpf_tx_res_count_required_def)

definition ex_txq_4 :: idpf_txq where
  "ex_txq_4 = (ex_txq 64 4)\<lparr>next_to_use := 59\<rparr>"

text \<open>
  The timestamp's context descriptor is not counted: a packet with a hardware timestamp that
  needs all 4 free descriptors of a ring of 64 is accepted by \<open>idpf_txq_has_room\<close>, takes 5, and
  leaves \<open>next_to_use\<close> equal to \<open>next_to_clean\<close>, a full ring that counts as an empty one.
\<close>

theorem idpf_tx_splitq_frame_tstamp_overrun:
  "IDPF_DESC_UNUSED ex_txq_4 = 4 \<and>
   (\<exists>q' c'. idpf_tx_splitq_frame ex_env_ts ex_skb_ts (ex_txq_4, ex_compl) = Some (NETDEV_TX_OK, q', c') \<and>
      next_to_use q' = next_to_clean q' \<and> IDPF_DESC_UNUSED q' = 63)"
proof -
  have ok: "tx_queue_ok ex_txq_4 ex_refillq"
    using ex_txq_ok [of 64 4] by (simp add: tx_queue_ok_def ex_txq_4_def tx_ring_ok_def ex_simps)
  have sk: "skb_frags ex_skb_ts = [32768]" "skb_headlen ex_skb_ts = 100" "skb_is_gso ex_skb_ts = False"
    "skb_vlan_tag ex_skb_ts = None" "skb_hw_tstamp ex_skb_ts = True" "skb_len ex_skb_ts = 32868"
    by (simp_all add: ex_skb_ts_def ex_simps skb_len_def)
  have ids: "Suc (length (skb_frags ex_skb_ts)) \<le> length (refill_ids ex_refillq)"
    unfolding ex_ids by (simp add: sk)
  have cnt: "idpf_tx_res_count_required ex_env_ts ex_txq_4 ex_skb_ts = (4, 2, ex_skb_ts)"
    by (simp add: idpf_tx_res_count_required_def sk idpf_chk_linearize_def ex_txq_4_def ex_txq_def
        frag_txd_count_def idpf_size_to_txd_count_def tx_max_desc_data)
  have tso: "idpf_tso ex_env_ts ex_skb_ts tx_no_offload = (Inr False, tx_no_offload)"
    by (simp add: idpf_tso_def sk)
  have un: "IDPF_DESC_UNUSED ex_txq_4 = 4" by (simp add: IDPF_DESC_UNUSED_def ex_txq_4_def ex_simps)
  have room: "idpf_txq_has_room ex_txq_4 ex_compl (4 + of_bool False + of_bool (skb_vlan_tag ex_skb_ts \<noteq> None)) 2
      = Some True"
    using ex_room un by (simp add: idpf_txq_has_room_def sk ex_txq_4_def ex_txq_refillq split: if_splits)
  have "packet_chunks (tx_regions ex_env_ts 0 [100, 32768]) = packet_chunks (tx_regions ex_env 0 [100, 32768])"
    by (simp add: ex_env_ts_def)
  then have ch: "length (packet_chunks (tx_regions ex_env_ts 0 (skb_headlen ex_skb_ts # skb_frags ex_skb_ts))) = 4"
    unfolding sk ex_chunks by simp
  have five: "5 = tx_ctx_count ex_env_ts ex_skb_ts False tx_no_offload +
      length (packet_chunks (tx_regions ex_env_ts 0 (skb_headlen ex_skb_ts # skb_frags ex_skb_ts)))"
    unfolding ch by (simp add: tx_ctx_count_def sk idpf_tx_tstamp_def tx_no_offload_def ex_env_ts_def)
  have "(4::nat) \<noteq> 0" "\<forall>f\<in>set (skb_frags ex_skb_ts). 0 < f"
    "tx_all_mapped ex_env_ts 0 (skb_headlen ex_skb_ts # skb_frags ex_skb_ts)"
    by (simp_all add: sk ex_env_ts_def ex_simps)
  from tx_frame_sent [OF ok ids cnt this(1) tso room this(2,3) five]
  obtain q' c' where "idpf_tx_splitq_frame ex_env_ts ex_skb_ts (ex_txq_4, ex_compl) = Some (NETDEV_TX_OK, q', c')"
    and q': "next_to_use q' = 0" "next_to_clean q' = 0" "desc_count q' = 64"
    by (auto simp: ex_txq_4_def ex_simps)
  moreover have "IDPF_DESC_UNUSED q' = 63" by (simp add: q' IDPF_DESC_UNUSED_def)
  ultimately show ?thesis using un q' by auto
qed

text \<open>
  A queue with queue based scheduling has no refill queue, and \<open>idpf_txq_has_room\<close> reads it all
  the same: every packet that passes the checks before it, and so the first packet on an empty
  ring, ends in a NULL pointer dereference.
\<close>

theorem idpf_tx_qsched_null_deref:
  assumes "tx_refillq q = None" and "idpf_tx_res_count_required env q skb = (cnt, nb, skb')" and "cnt \<noteq> 0"
    and "idpf_tso env skb' tx_no_offload = (Inr tso, off)"
    and "cnt + of_bool tso + of_bool (skb_vlan_tag skb' \<noteq> None) \<le> IDPF_DESC_UNUSED q"
    and "unat (IDPF_TX_COMPLQ_PENDING c) \<le> IDPF_TX_COMPLQ_OVERFLOW_THRESH c"
  shows "idpf_tx_splitq_frame env skb (q, c) = None"
proof -
  have "idpf_tx_maybe_stop_splitq q c (cnt + of_bool tso + of_bool (skb_vlan_tag skb' \<noteq> None)) nb = None"
    using assms(1,5,6) by (simp add: idpf_tx_maybe_stop_splitq_def idpf_txq_has_room_def)
  then show ?thesis
    by (simp only: idpf_tx_splitq_frame_def Let_def prod.case assms(2-4) if_False sum.case option.case)
qed

theorem idpf_tx_qsched_null_deref_witness:
  "idpf_tx_splitq_frame ex_env ex_skb ((ex_txq 16 4)\<lparr>tx_refillq := None, FLOW_SCH_EN := False\<rparr>, ex_compl) = None"
proof (rule idpf_tx_qsched_null_deref)
  show "idpf_tx_res_count_required ex_env ((ex_txq 16 4)\<lparr>tx_refillq := None, FLOW_SCH_EN := False\<rparr>) ex_skb = (4, 2, ex_skb)"
    by (rule trans [OF idpf_tx_res_count_cong ex_res_count]) simp
  show "idpf_tso ex_env ex_skb tx_no_offload = (Inr False, tx_no_offload)" by (rule ex_tso)
qed (simp_all add: ex_simps IDPF_DESC_UNUSED_def IDPF_TX_COMPLQ_PENDING_def
      IDPF_TX_COMPLQ_OVERFLOW_THRESH_def ex_compl_def)

end
