(* ===== verification/Idpf_Tx_Exception.thy ===== *)
theory Idpf_Tx_Exception
  imports Idpf_Tx_Bufs
begin

text \<open>
  Packets on the exception path: the device reports a miss, the packet waits for its reinject
  completion under a timer, and one of the two ends it.
\<close>

lemma miss_completion_eq:
  assumes "b < length (tx_bufs q)" and "sqe_type (tx_bufs q ! b) = LIBETH_SQE_SKB"
    and "p \<noteq> NULL" and "timer_heap q p = None"
    and "t = \<lparr>rt_skb = sqe_skb (tx_bufs q ! b), rt_bytes = sqe_bytes (tx_bufs q ! b),
              rt_gso_segs = trunc16 (sqe_packets (tx_bufs q ! b))\<rparr>"
  shows "idpf_tx_handle_miss_completion (p, True) b (q, ss) =
    Some (q\<lparr>timer_heap := (timer_heap q)(p \<mapsto> t), timer_armed := insert p (timer_armed q),
            reinject_timers := (reinject_timers q)(b \<mapsto> p),
            tx_bufs := (tx_bufs q)[b := (tx_bufs q ! b)\<lparr>sqe_type := LIBETH_SQE_MISS\<rparr>]\<rparr>, ss)"
  using assms
  by (simp add: idpf_tx_handle_miss_completion_def idpf_tx_start_reinject_timer_def Let_def
      tx_buf_upd_def idpf_tx_clean_bufs_def)

text \<open>
  A packet that takes the exception path is leaked. When the miss completion arrives and its
  timer can be started, no buffer is unmapped (the type is set to \<open>LIBETH_SQE_MISS\<close> before
  \<open>idpf_tx_clean_bufs\<close>, which returns at once for it); when the reinject completion arrives, the
  packet is not consumed and not counted (\<open>libeth_tx_complete\<close> knows nothing of
  \<open>LIBETH_SQE_REINJECT\<close>) and no id goes back to the refill queue; afterwards the buffer is marked
  empty, so that a further completion does nothing either.
\<close>

theorem idpf_tx_miss_reinject_leaks:
  assumes "b < length (tx_bufs q)" and "sqe_type (tx_bufs q ! b) = LIBETH_SQE_SKB"
    and "p \<noteq> NULL" and "timer_heap q p = None"
  shows "\<exists>q1 q2. idpf_tx_handle_miss_completion (p, True) b (q, ss) = Some (q1, ss) \<and>
    idpf_tx_handle_reinject_completion b (q1, ss) = Some (q2, ss) \<and>
    tx_log q2 = tx_log q \<and> tx_refillq q2 = tx_refillq q \<and>
    sqe_type (tx_bufs q2 ! b) = LIBETH_SQE_EMPTY \<and> timer_heap q2 = timer_heap q \<and>
    idpf_tx_clean_bufs b (q2, ss) = Some (q2, ss)"
proof -
  let ?t = "\<lparr>rt_skb = sqe_skb (tx_bufs q ! b), rt_bytes = sqe_bytes (tx_bufs q ! b),
      rt_gso_segs = trunc16 (sqe_packets (tx_bufs q ! b))\<rparr>"
  let ?q1 = "q\<lparr>timer_heap := (timer_heap q)(p \<mapsto> ?t), timer_armed := insert p (timer_armed q),
      reinject_timers := (reinject_timers q)(b \<mapsto> p),
      tx_bufs := (tx_bufs q)[b := (tx_bufs q ! b)\<lparr>sqe_type := LIBETH_SQE_MISS\<rparr>]\<rparr>"
  have m: "idpf_tx_handle_miss_completion (p, True) b (q, ss) = Some (?q1, ss)"
    using assms by (rule miss_completion_eq) simp
  have h: "(timer_heap q)(p := None) = timer_heap q" using assms(4) by auto
  obtain q2 where r: "idpf_tx_handle_reinject_completion b (?q1, ss) = Some (q2, ss)"
    and q2: "tx_log q2 = tx_log q" "tx_refillq q2 = tx_refillq q" "length (tx_bufs q2) = length (tx_bufs q)"
      "sqe_type (tx_bufs q2 ! b) = LIBETH_SQE_EMPTY" "timer_heap q2 = timer_heap q"
    using assms h
    by (simp add: idpf_tx_handle_reinject_completion_def Let_def timer_kfree_def tx_buf_upd_def
        libeth_tx_complete_eq sqe_events_def sqe_count_def sqe_clear_def)
  have "idpf_tx_clean_bufs b (q2, ss) = Some (q2, ss)"
    using q2(3,4) assms(1) by (simp add: idpf_tx_clean_bufs_def)
  then show ?thesis using m r q2 by blast
qed

definition ex_pkt :: libeth_sqe where
  "ex_pkt = \<lparr>sqe_type = LIBETH_SQE_SKB, sqe_rs_idx = 0, sqe_skb = 77, sqe_dma = 2600, sqe_len = 100,
     sqe_nr_frags = 1, sqe_packets = 1, sqe_bytes = 100, sqe_next = IDPF_TXBUF_NULL\<rparr>"

text \<open>A queue with one packet in flight, its only id out of the refill queue.\<close>

definition ex_inflight :: idpf_txq where
  "ex_inflight = \<lparr>desc_count = 64, next_to_use = 1, next_to_clean = 0,
     tx_descs = replicate 64 \<lparr>buf_addr = 0, tx_qw1 = QW1_NONE\<rparr>, tx_bufs = [ex_pkt],
     tx_refillq = Some (refill_bump_ntc (tx_refillq_fill (rx_refillq_init 0) 1)), last_re = 0,
     FLOW_SCH_EN = True, MISS_TAG_EN = False, ETF_EN = False, XDP = False, SW_MARKER = False,
     tx_max_bufs = 10, tx_stopped = False, cleaned_pkts = 0, cleaned_bytes = 0,
     reinject_timers = Map.empty, timer_heap = Map.empty, timer_armed = {}, timer_bad = False,
     tx_log = [DmaMap 2600 100, BqlSent 100, TailWrite 1]\<rparr>"

theorem idpf_tx_miss_reinject_leaks_witness:
  "\<exists>q1 q2. idpf_tx_handle_miss_completion (5, True) 0 (ex_inflight, \<lparr>ss_packets = 0, ss_bytes = 0\<rparr>)
       = Some (q1, \<lparr>ss_packets = 0, ss_bytes = 0\<rparr>) \<and>
     idpf_tx_handle_reinject_completion 0 (q1, \<lparr>ss_packets = 0, ss_bytes = 0\<rparr>)
       = Some (q2, \<lparr>ss_packets = 0, ss_bytes = 0\<rparr>) \<and>
     tx_log q2 = [DmaMap 2600 100, BqlSent 100, TailWrite 1]"
  using idpf_tx_miss_reinject_leaks [of 0 ex_inflight 5 "\<lparr>ss_packets = 0, ss_bytes = 0\<rparr>"]
  by (auto simp: ex_inflight_def ex_pkt_def)

text \<open>
  The timers are used after they are freed. If the timer of a missed packet expires before the
  reinject completion comes, its handler frees it but leaves it in \<open>reinject_timers\<close>, and the
  completion deletes and frees it again; if \<open>xa_store\<close> fails, the timer is freed although it is
  already armed, and expires later.
\<close>

theorem idpf_tx_reinject_timer_use_after_free:
  assumes "b < length (tx_bufs q)" and "sqe_type (tx_bufs q ! b) = LIBETH_SQE_SKB"
    and "p \<noteq> NULL" and "timer_heap q p = None"
  shows "(\<exists>q1 q2. idpf_tx_handle_miss_completion (p, True) b (q, ss) = Some (q1, ss) \<and> p \<in> timer_armed q1 \<and>
      idpf_tx_handle_reinject_completion b (idpf_tx_handle_reinject_expire p q1, ss) = Some (q2, ss) \<and> timer_bad q2) \<and>
    (\<exists>q1. idpf_tx_start_reinject_timer p False b q = (Some ENOMEM, q1) \<and> p \<in> timer_armed q1 \<and>
      timer_bad (idpf_tx_handle_reinject_expire p q1))"
proof (rule conjI)
  let ?t = "\<lparr>rt_skb = sqe_skb (tx_bufs q ! b), rt_bytes = sqe_bytes (tx_bufs q ! b),
      rt_gso_segs = trunc16 (sqe_packets (tx_bufs q ! b))\<rparr>"
  let ?q1 = "q\<lparr>timer_heap := (timer_heap q)(p \<mapsto> ?t), timer_armed := insert p (timer_armed q),
      reinject_timers := (reinject_timers q)(b \<mapsto> p),
      tx_bufs := (tx_bufs q)[b := (tx_bufs q ! b)\<lparr>sqe_type := LIBETH_SQE_MISS\<rparr>]\<rparr>"
  have m: "idpf_tx_handle_miss_completion (p, True) b (q, ss) = Some (?q1, ss)"
    using assms by (rule miss_completion_eq) simp
  have "\<exists>q2. idpf_tx_handle_reinject_completion b (idpf_tx_handle_reinject_expire p ?q1, ss) = Some (q2, ss) \<and> timer_bad q2"
    using assms
    by (simp add: idpf_tx_handle_reinject_completion_def idpf_tx_handle_reinject_expire_def Let_def
        timer_kfree_def tx_buf_upd_def tx_emit_def libeth_tx_complete_eq sqe_count_def)
  with m show "\<exists>q1 q2. idpf_tx_handle_miss_completion (p, True) b (q, ss) = Some (q1, ss) \<and> p \<in> timer_armed q1 \<and>
      idpf_tx_handle_reinject_completion b (idpf_tx_handle_reinject_expire p q1, ss) = Some (q2, ss) \<and> timer_bad q2"
    by force
next
  show "\<exists>q1. idpf_tx_start_reinject_timer p False b q = (Some ENOMEM, q1) \<and> p \<in> timer_armed q1 \<and>
      timer_bad (idpf_tx_handle_reinject_expire p q1)"
    using assms
    by (simp add: idpf_tx_start_reinject_timer_def Let_def timer_kfree_def idpf_tx_handle_reinject_expire_def)
qed

theorem idpf_tx_reinject_timer_use_after_free_witness:
  "timer_bad (idpf_tx_handle_reinject_expire 5 (snd (idpf_tx_start_reinject_timer 5 False 0 ex_inflight)))"
  using idpf_tx_reinject_timer_use_after_free [of 0 ex_inflight 5, THEN conjunct2]
  by (auto simp: ex_inflight_def ex_pkt_def)

end
