(* ===== verification/Idpf_Rx_Page.thy ===== *)
theory Idpf_Rx_Page
  imports Idpf_Prelude "HOL-Library.Multiset"
begin

text \<open>
  The pages behind the receive buffers of the split queue model (\<open>idpf_txrx.c\<close>).  A buffer
  (\<open>struct idpf_rx_buf\<close>) has one page cut in two halves, or two pages, and the driver flips between
  them: while the network stack still reads one, the device writes into the other.  Whether a page
  may be used again is decided by comparing its reference count with the references the driver
  itself holds (\<open>pagecnt_bias\<close>).

  A \<open>page_world\<close> has the reference count of every page (0: the page is free) and, as the part of the
  world the driver does not see, the fragments the stack holds, one reference each.  The page size
  is the argument \<open>psz\<close>.  The kernel is one with bulk updates of reference counts
  (\<open>HAVE_PAGE_COUNT_BULK_UPDATE\<close>).  The member \<open>skb\<close> of a buffer is used by the single queue model
  only and left out.
\<close>

section \<open>Pages and buffers\<close>

record idpf_page_info =
  pi_dma :: u64
  pi_page :: ptr
  page_offset :: nat
  default_offset :: nat
  pagecnt_bias :: nat
  reuse_bias :: nat

record idpf_rx_buf =
  page_info :: "idpf_page_info list"
  page_indx :: nat
  buf_size :: nat

text \<open>A fragment: page, first byte, length.\<close>

type_synonym rx_frag = "ptr \<times> nat \<times> nat"

datatype page_event = DmaMapPage u64 | DmaUnmapPage u64

record page_world =
  page_count :: "ptr \<Rightarrow> nat"
  stack_frags :: "rx_frag multiset"
  page_log :: "page_event list"

definition page_ref_set :: "ptr \<Rightarrow> nat \<Rightarrow> page_world \<Rightarrow> page_world" where
  "page_ref_set p n w = w\<lparr>page_count := (page_count w)(p := n)\<rparr>"

definition page_emit :: "page_event \<Rightarrow> page_world \<Rightarrow> page_world" where
  "page_emit e w = w\<lparr>page_log := page_log w @ [e]\<rparr>"

definition IDPF_RX_BUF_2048 :: nat where
  "IDPF_RX_BUF_2048 = 2048"

definition IDPF_RX_BUF_4096 :: nat where
  "IDPF_RX_BUF_4096 = 4096"

abbreviation USHRT_MAX :: nat where
  "USHRT_MAX \<equiv> 65535"

definition rx_cur :: "idpf_rx_buf \<Rightarrow> idpf_page_info" where
  "rx_cur b = page_info b ! page_indx b"

definition rx_cur_upd :: "(idpf_page_info \<Rightarrow> idpf_page_info) \<Rightarrow> idpf_rx_buf \<Rightarrow> idpf_rx_buf" where
  "rx_cur_upd f b = b\<lparr>page_info := (page_info b)[page_indx b := f (rx_cur b)]\<rparr>"

section \<open>Allocation and release\<close>

text \<open>
  \<open>kern\<close> has the answers of \<open>alloc_page\<close> (a free page, or \<open>NULL\<close>) and of the DMA mapping
  (\<open>None\<close>: an error).  A failed mapping gives the page back but leaves both in the page info.
\<close>

type_synonym page_kern = "ptr \<times> u64 option"

definition idpf_alloc_page ::
  "page_kern \<Rightarrow> idpf_page_info \<Rightarrow> page_world \<Rightarrow> ret \<times> idpf_page_info \<times> page_world" where
  "idpf_alloc_page kern pinfo w = (case kern of (p, m) \<Rightarrow>
     if p = NULL \<or> page_count w p \<noteq> 0 then (Some ENOMEM, pinfo\<lparr>pi_page := NULL\<rparr>, w)
     else case m of
       None \<Rightarrow> (Some ENOMEM, pinfo\<lparr>pi_page := p, pi_dma := - 1\<rparr>, w)
     | Some dma \<Rightarrow> (ret_ok,
         pinfo\<lparr>pi_page := p, pi_dma := dma, page_offset := default_offset pinfo,
               pagecnt_bias := USHRT_MAX\<rparr>,
         page_emit (DmaMapPage dma) (page_ref_set p (1 + (USHRT_MAX - 1)) w)))"

text \<open>\<open>__page_frag_cache_drain\<close> drops \<open>n\<close> references at once.\<close>

definition page_drain :: "ptr \<Rightarrow> nat \<Rightarrow> page_world \<Rightarrow> page_world" where
  "page_drain p n w = page_ref_set p (page_count w p - n) w"

definition idpf_rx_page_rel :: "idpf_page_info \<Rightarrow> page_world \<Rightarrow> idpf_page_info \<times> page_world" where
  "idpf_rx_page_rel pinfo w =
     (if pi_page pinfo = NULL then (pinfo, w)
      else (pinfo\<lparr>pi_page := NULL, page_offset := 0\<rparr>,
            page_drain (pi_page pinfo) (pagecnt_bias pinfo) (page_emit (DmaUnmapPage (pi_dma pinfo)) w)))"

definition idpf_rx_buf_rel :: "nat \<Rightarrow> idpf_rx_buf \<Rightarrow> page_world \<Rightarrow> idpf_rx_buf \<times> page_world" where
  "idpf_rx_buf_rel psz b w =
     (case idpf_rx_page_rel (page_info b ! 0) w of (p0, w) \<Rightarrow>
        let b = b\<lparr>page_info := (page_info b)[0 := p0]\<rparr> in
        if psz < 8192 \<and> buf_size b > IDPF_RX_BUF_2048
        then case idpf_rx_page_rel (page_info b ! 1) w of (p1, w) \<Rightarrow>
               (b\<lparr>page_info := (page_info b)[1 := p1]\<rparr>, w)
        else (b, w))"

section \<open>Flipping and reuse\<close>

definition SKB_DATA_ALIGN :: "nat \<Rightarrow> nat" where
  "SKB_DATA_ALIGN n = (n + 63) div 64 * 64"

definition idpf_rx_frame_truesize :: "nat \<Rightarrow> idpf_rx_buf \<Rightarrow> nat \<Rightarrow> nat" where
  "idpf_rx_frame_truesize psz b sz = (if psz \<ge> 8192 then SKB_DATA_ALIGN sz else buf_size b)"

definition idpf_rx_buf_adjust_pg :: "nat \<Rightarrow> idpf_rx_buf \<Rightarrow> nat \<Rightarrow> idpf_rx_buf" where
  "idpf_rx_buf_adjust_pg psz b sz =
     (if psz < 8192 then
        if buf_size b > IDPF_RX_BUF_2048 then b\<lparr>page_indx := (if page_indx b = 0 then 1 else 0)\<rparr>
        else rx_cur_upd (\<lambda>x. x\<lparr>page_offset := page_offset x XOR sz\<rparr>) b
      else rx_cur_upd (\<lambda>x. x\<lparr>page_offset := page_offset x + sz\<rparr>) b)"

text \<open>
  \<open>reusable\<close> is \<open>dev_page_is_reusable\<close>: the page is on this NUMA node and no emergency reserve.
\<close>

definition idpf_rx_can_reuse_page ::
  "nat \<Rightarrow> (ptr \<Rightarrow> bool) \<Rightarrow> idpf_rx_buf \<Rightarrow> page_world \<Rightarrow> bool \<times> idpf_rx_buf \<times> page_world" where
  "idpf_rx_can_reuse_page psz reusable b w =
     (let pinfo = rx_cur b; p = pi_page pinfo in
      if \<not> reusable p then (False, b, w)
      else if (if psz < 8192 then page_count w p - pagecnt_bias pinfo > reuse_bias pinfo
               else page_offset pinfo > psz - buf_size b) then (False, b, w)
      else if pagecnt_bias pinfo = 1
        then (True, rx_cur_upd (pagecnt_bias_update (\<lambda>_. USHRT_MAX)) b,
              page_ref_set p (page_count w p + (USHRT_MAX - 1)) w)
        else (True, b, w))"

definition idpf_rx_splitq_recycle_buf ::
  "nat \<Rightarrow> (ptr \<Rightarrow> bool) \<Rightarrow> page_kern \<Rightarrow> idpf_rx_buf \<Rightarrow> page_world \<Rightarrow> idpf_rx_buf \<times> page_world" where
  "idpf_rx_splitq_recycle_buf psz reusable kern b w =
     (case idpf_rx_can_reuse_page psz reusable b w of
        (True, b, w) \<Rightarrow> (b, w)
      | (False, b, w) \<Rightarrow>
          let pinfo = rx_cur b;
              w = page_drain (pi_page pinfo) (pagecnt_bias pinfo) (page_emit (DmaUnmapPage (pi_dma pinfo)) w)
          in case idpf_alloc_page kern (pinfo\<lparr>pi_page := NULL\<rparr>) w of
               (_, pinfo, w) \<Rightarrow> (rx_cur_upd (\<lambda>_. pinfo) b, w))"

section \<open>Packets\<close>

text \<open>
  A packet under construction is the list of its pieces: bytes copied from a header buffer, bytes
  copied from a page, or a fragment of a page.
\<close>

datatype rx_piece = HdrCopy nat nat nat | PageCopy ptr nat nat | PageFrag ptr nat nat

definition stack_add :: "rx_frag \<Rightarrow> page_world \<Rightarrow> page_world" where
  "stack_add f w = w\<lparr>stack_frags := add_mset f (stack_frags w)\<rparr>"

text \<open>A \<open>u16\<close> counter is decremented.\<close>

definition idpf_rx_get_buf_page :: "idpf_rx_buf \<Rightarrow> idpf_rx_buf" where
  "idpf_rx_get_buf_page = rx_cur_upd (\<lambda>x. x\<lparr>pagecnt_bias := trunc16 (pagecnt_bias x + USHRT_MAX)\<rparr>)"

definition rx_put_buf_page :: "idpf_rx_buf \<Rightarrow> idpf_rx_buf" where
  "rx_put_buf_page = rx_cur_upd (\<lambda>x. x\<lparr>pagecnt_bias := trunc16 (pagecnt_bias x + 1)\<rparr>)"

definition idpf_rx_add_frag ::
  "nat \<Rightarrow> idpf_rx_buf \<Rightarrow> rx_piece list \<Rightarrow> nat \<Rightarrow> page_world \<Rightarrow> rx_piece list \<times> idpf_rx_buf \<times> page_world" where
  "idpf_rx_add_frag psz b skb sz w =
     (let pinfo = rx_cur b; p = pi_page pinfo; off = page_offset pinfo
      in (skb @ [PageFrag p off sz], idpf_rx_buf_adjust_pg psz b (idpf_rx_frame_truesize psz b sz),
          stack_add (p, off, sz) w))"

text \<open>\<open>IDPF_RX_HDR_SIZE\<close> with the default number of fragments of a packet.\<close>

definition IDPF_RX_HDR_SIZE :: nat where
  "IDPF_RX_HDR_SIZE = 256"

text \<open>\<open>headlen\<close> answers \<open>eth_get_headlen\<close>, \<open>skb_ok\<close> tells whether \<open>napi_alloc_skb\<close> succeeds.\<close>

definition idpf_rx_construct_skb ::
  "nat \<Rightarrow> bool \<Rightarrow> nat \<Rightarrow> idpf_rx_buf \<Rightarrow> nat \<Rightarrow> page_world
    \<Rightarrow> rx_piece list option \<times> idpf_rx_buf \<times> page_world" where
  "idpf_rx_construct_skb psz skb_ok headlen b sz w =
     (let pinfo = rx_cur b; p = pi_page pinfo; off = page_offset pinfo in
      if \<not> skb_ok then (None, b, w)
      else
        let hl = (if sz > IDPF_RX_HDR_SIZE then headlen else sz);
            sz = sz - hl in
        if sz = 0 then (Some [PageCopy p off hl], rx_put_buf_page b, w)
        else (Some [PageCopy p off hl, PageFrag p (off + hl) sz],
              idpf_rx_buf_adjust_pg psz b (idpf_rx_frame_truesize psz b sz),
              stack_add (p, off + hl, sz) w))"

text \<open>
  What the receive loop does with the buffer of one descriptor that carries \<open>sz > 0\<close> bytes and no
  XDP program: \<open>None\<close> stands for a packet that could not be allocated, with which the loop ends.
\<close>

record rx_answers =
  ans_skb :: bool
  ans_headlen :: nat
  ans_page :: page_kern

definition rx_use_buf ::
  "nat \<Rightarrow> (ptr \<Rightarrow> bool) \<Rightarrow> rx_answers \<Rightarrow> rx_piece list option \<Rightarrow> nat \<Rightarrow> idpf_rx_buf \<Rightarrow> page_world
    \<Rightarrow> rx_piece list option \<times> idpf_rx_buf \<times> page_world" where
  "rx_use_buf psz reusable ans skb sz b w =
     (let b = idpf_rx_get_buf_page b in
      case (case skb of Some s \<Rightarrow> (case idpf_rx_add_frag psz b s sz w of (s, b, w) \<Rightarrow> (Some s, b, w))
            | None \<Rightarrow> idpf_rx_construct_skb psz (ans_skb ans) (ans_headlen ans) b sz w) of
        (None, b, w) \<Rightarrow> (None, rx_put_buf_page b, w)
      | (Some s, b, w) \<Rightarrow>
          (case idpf_rx_splitq_recycle_buf psz reusable (ans_page ans) b w of (b, w) \<Rightarrow> (Some s, b, w)))"

section \<open>Posting to the device\<close>

record virtchnl2_splitq_rx_buf_desc =
  bd_buf_id :: u16
  pkt_addr :: u64
  hdr_addr :: u64

definition rx_pkt_addr :: "idpf_page_info \<Rightarrow> u64" where
  "rx_pkt_addr pinfo = pi_dma pinfo + of_nat (page_offset pinfo)"

text \<open>The buffer of a refill descriptor gets a page if it has none; the error leaves it as it is.\<close>

definition rx_refill_page ::
  "page_kern \<Rightarrow> idpf_rx_buf \<Rightarrow> page_world \<Rightarrow> ret \<times> idpf_rx_buf \<times> page_world" where
  "rx_refill_page kern b w =
     (if pi_page (rx_cur b) = NULL
      then case idpf_alloc_page kern (rx_cur b) w of (r, pinfo, w) \<Rightarrow> (r, rx_cur_upd (\<lambda>_. pinfo) b, w)
      else (ret_ok, b, w))"

text \<open>
  One buffer as \<open>idpf_rx_buf_alloc_all\<close> sets it up in zeroed memory; \<open>xdp\<close>: a program is loaded.
\<close>

definition rx_page_info_zero :: idpf_page_info where
  "rx_page_info_zero = \<lparr>pi_dma = 0, pi_page = NULL, page_offset = 0, default_offset = 0,
     pagecnt_bias = 0, reuse_bias = 0\<rparr>"

definition rx_buf_zero :: idpf_rx_buf where
  "rx_buf_zero = \<lparr>page_info = [rx_page_info_zero, rx_page_info_zero], page_indx = 0, buf_size = 0\<rparr>"

abbreviation XDP_PACKET_HEADROOM :: nat where
  "XDP_PACKET_HEADROOM \<equiv> 256"

definition rx_headroom :: "bool \<Rightarrow> idpf_page_info \<Rightarrow> idpf_page_info" where
  "rx_headroom xdp pinfo = (if xdp then pinfo\<lparr>default_offset := XDP_PACKET_HEADROOM\<rparr> else pinfo)"

definition rx_buf_alloc ::
  "nat \<Rightarrow> bool \<Rightarrow> nat \<Rightarrow> page_kern \<times> page_kern \<Rightarrow> idpf_rx_buf \<Rightarrow> page_world
    \<Rightarrow> ret \<times> idpf_rx_buf \<times> page_world" where
  "rx_buf_alloc psz xdp rx_buf_size kern b w =
     (case idpf_alloc_page (fst kern) (rx_headroom xdp (page_info b ! 0)) w of
        (Some e, p0, w) \<Rightarrow> (Some e, b\<lparr>page_info := (page_info b)[0 := p0]\<rparr>, w)
      | (None, p0, w) \<Rightarrow>
          let b = b\<lparr>page_info := (page_info b)[0 := p0], page_indx := 0, buf_size := trunc16 rx_buf_size\<rparr> in
          if psz \<ge> 8192 then (ret_ok, b, w)
          else if rx_buf_size > IDPF_RX_BUF_2048 then
            (case idpf_alloc_page (snd kern) (rx_headroom xdp (page_info b ! 1)) w of
               (r, p1, w) \<Rightarrow> (r, b\<lparr>page_info := (page_info b)[1 := p1]\<rparr>, w))
          else (ret_ok, b\<lparr>page_info := (page_info b)[0 := p0\<lparr>reuse_bias := 1\<rparr>]\<rparr>, w))"

text \<open>The loop over the buffers \<open>i\<close> to \<open>num_bufs - 1\<close>.\<close>

primrec rx_buf_alloc_loop ::
  "nat \<Rightarrow> bool \<Rightarrow> nat \<Rightarrow> (nat \<Rightarrow> page_kern \<times> page_kern) \<Rightarrow> nat \<Rightarrow> nat \<Rightarrow> idpf_rx_buf list \<Rightarrow> page_world
    \<Rightarrow> ret \<times> idpf_rx_buf list \<times> page_world" where
  "rx_buf_alloc_loop psz xdp rx_buf_size kern i 0 bufs w = (ret_ok, bufs, w)"
| "rx_buf_alloc_loop psz xdp rx_buf_size kern i (Suc k) bufs w =
     (case rx_buf_alloc psz xdp rx_buf_size (kern i) (bufs ! i) w of
        (Some e, b, w) \<Rightarrow> (Some e, bufs[i := b], w)
      | (None, b, w) \<Rightarrow> rx_buf_alloc_loop psz xdp rx_buf_size kern (Suc i) k (bufs[i := b]) w)"

section \<open>Runs\<close>

text \<open>
  The buffers of a buffer queue together with the stack.  \<open>P\<close> is the set of buffers the device may
  write to: a received buffer leaves it and the refill adds it again.  The stack may take and drop
  references to the fragments it has, and the rest of the kernel may use all other pages.  The mapping
  of a page for DMA may fail in any step: \<open>rs_mapped\<close> records whether all mappings so far succeeded.
\<close>

record rx_state =
  rs_bufs :: "idpf_rx_buf list"
  rs_posted :: "nat set"
  rs_world :: page_world
  rs_mapped :: bool

inductive rx_step :: "nat \<Rightarrow> (ptr \<Rightarrow> bool) \<Rightarrow> rx_state \<Rightarrow> rx_state \<Rightarrow> bool"
  for psz :: nat and reusable :: "ptr \<Rightarrow> bool" where
  receive: "i \<in> rs_posted s \<Longrightarrow> 0 < sz \<Longrightarrow> sz \<le> buf_size (rs_bufs s ! i) \<Longrightarrow>
    ans_headlen ans \<le> IDPF_RX_HDR_SIZE \<Longrightarrow>
    rx_use_buf psz reusable ans skb sz (rs_bufs s ! i) (rs_world s) = (r, b, w) \<Longrightarrow>
    rx_step psz reusable s
      \<lparr>rs_bufs = (rs_bufs s)[i := b], rs_posted = (if r = None then rs_posted s else rs_posted s - {i}), rs_world = w,
       rs_mapped = (rs_mapped s \<and> snd (ans_page ans) \<noteq> None)\<rparr>"
| refill: "i < length (rs_bufs s) \<Longrightarrow> i \<notin> rs_posted s \<Longrightarrow> buf_size (rs_bufs s ! i) \<noteq> 0 \<Longrightarrow>
    rx_refill_page kern (rs_bufs s ! i) (rs_world s) = (r, b, w) \<Longrightarrow>
    rx_step psz reusable s
      \<lparr>rs_bufs = (rs_bufs s)[i := b], rs_posted = (if r = ret_ok then insert i (rs_posted s) else rs_posted s), rs_world = w,
       rs_mapped = (rs_mapped s \<and> snd kern \<noteq> None)\<rparr>"
| stack_get: "f \<in># stack_frags (rs_world s) \<Longrightarrow>
    rx_step psz reusable s (s\<lparr>rs_world := page_ref_set (fst f) (page_count (rs_world s) (fst f) + 1) (stack_add f (rs_world s))\<rparr>)"
| stack_put: "f \<in># stack_frags (rs_world s) \<Longrightarrow>
    rx_step psz reusable s (s\<lparr>rs_world := page_ref_set (fst f) (page_count (rs_world s) (fst f) - 1)
      ((rs_world s)\<lparr>stack_frags := stack_frags (rs_world s) - {#f#}\<rparr>)\<rparr>)"
| other: "(\<And>p. page_count (rs_world s) p \<noteq> cnt p \<Longrightarrow>
        p \<notin> fst ` set_mset (stack_frags (rs_world s)) \<and>
        (\<forall>b \<in> set (rs_bufs s). \<forall>x \<in> set (page_info b). pi_page x \<noteq> p)) \<Longrightarrow>
    rx_step psz reusable s (s\<lparr>rs_world := (rs_world s)\<lparr>page_count := cnt\<rparr>\<rparr>)"

end
