(* ===== verification/Idpf_Rx_Safety.thy ===== *)
theory Idpf_Rx_Safety
  imports Idpf_Rx_Page
begin

text \<open>
  The invariant of the receive buffers: the reference count of a page is what the driver holds plus
  what the stack holds, no two buffers share a page, and nothing the stack holds lies where the
  device may write.  It is shown for one buffer at a time, relative to what the other buffers hold
  (\<open>own\<close>: their references, \<open>occ\<close>: how often they use a page).
\<close>

section \<open>Current and other page\<close>

definition rx_oth :: "idpf_rx_buf \<Rightarrow> idpf_page_info" where
  "rx_oth b = page_info b ! (1 - page_indx b)"

definition buf_shape :: "idpf_rx_buf \<Rightarrow> bool" where
  "buf_shape b \<longleftrightarrow> length (page_info b) = 2 \<and> page_indx b < 2"

lemma rx_cur_upd_simps [simp]:
  "buf_shape b \<Longrightarrow> rx_cur (rx_cur_upd f b) = f (rx_cur b)"
  "buf_shape b \<Longrightarrow> rx_oth (rx_cur_upd f b) = rx_oth b"
  "buf_size (rx_cur_upd f b) = buf_size b"
  "page_indx (rx_cur_upd f b) = page_indx b"
  "buf_shape (rx_cur_upd f b) = buf_shape b"
  by (auto simp: rx_cur_upd_def rx_cur_def rx_oth_def buf_shape_def nth_list_update) arith

definition rx_flip :: "idpf_rx_buf \<Rightarrow> idpf_rx_buf" where
  "rx_flip b = b\<lparr>page_indx := (if page_indx b = 0 then 1 else 0)\<rparr>"

lemma rx_flip_simps [simp]:
  "buf_shape b \<Longrightarrow> rx_cur (rx_flip b) = rx_oth b"
  "buf_shape b \<Longrightarrow> rx_oth (rx_flip b) = rx_cur b"
  "buf_size (rx_flip b) = buf_size b"
  "buf_shape b \<Longrightarrow> buf_shape (rx_flip b)"
  by (auto simp: rx_flip_def rx_cur_def rx_oth_def buf_shape_def less_2_cases_iff)

definition pbias :: "ptr \<Rightarrow> idpf_page_info \<Rightarrow> nat" where
  "pbias p x = (if pi_page x = p then pagecnt_bias x else 0)"

definition pocc :: "ptr \<Rightarrow> idpf_page_info \<Rightarrow> nat" where
  "pocc p x = of_bool (pi_page x = p)"

definition buf_own :: "ptr \<Rightarrow> idpf_rx_buf \<Rightarrow> nat" where
  "buf_own p b = pbias p (rx_cur b) + pbias p (rx_oth b)"

definition buf_occ :: "ptr \<Rightarrow> idpf_rx_buf \<Rightarrow> nat" where
  "buf_occ p b = pocc p (rx_cur b) + pocc p (rx_oth b)"

definition refs :: "page_world \<Rightarrow> ptr \<Rightarrow> nat" where
  "refs w p = size (filter_mset (\<lambda>f. fst f = p) (stack_frags w))"

lemma refs_0_iff: "refs w p = 0 \<longleftrightarrow> (\<forall>f \<in># stack_frags w. fst f \<noteq> p)"
  by (simp add: refs_def Ball_def)

lemma refs_simps [simp]:
  "refs (page_ref_set q n w) p = refs w p"
  "refs (page_emit e w) p = refs w p"
  "refs (stack_add f w) p = (if fst f = p then 1 else 0) + refs w p"
  "refs (page_drain q n w) p = refs w p"
  by (simp_all add: refs_def page_ref_set_def page_emit_def stack_add_def page_drain_def)

lemma frags_simps [simp]:
  "stack_frags (page_ref_set q n w) = stack_frags w"
  "stack_frags (page_emit e w) = stack_frags w"
  "stack_frags (stack_add f w) = add_mset f (stack_frags w)"
  "stack_frags (page_drain q n w) = stack_frags w"
  "page_count (page_ref_set q n w) = (page_count w)(q := n)"
  "page_count (page_emit e w) = page_count w"
  "page_count (stack_add f w) = page_count w"
  "page_count (page_drain q n w) = (page_count w)(q := page_count w q - n)"
  by (simp_all add: page_ref_set_def page_emit_def stack_add_def page_drain_def)

section \<open>One buffer\<close>

text \<open>A fragment lies in the half of a page that starts at \<open>lo\<close>.\<close>

definition in_half :: "nat \<Rightarrow> rx_frag \<Rightarrow> bool" where
  "in_half lo f \<longleftrightarrow> lo \<le> fst (snd f) \<and> fst (snd f) + snd (snd f) \<le> lo + 2048"

definition buf_safe :: "page_world \<Rightarrow> idpf_rx_buf \<Rightarrow> bool" where
  "buf_safe w b \<longleftrightarrow> (\<forall>f \<in># stack_frags w. fst f = pi_page (rx_cur b) \<longrightarrow>
     buf_size b = 2048 \<and> in_half (page_offset (rx_cur b) XOR 2048) f)"

definition narrow_ok :: "idpf_rx_buf \<Rightarrow> bool" where
  "narrow_ok b \<longleftrightarrow> buf_size b = 2048 \<and> pi_page (rx_oth b) = NULL \<and> reuse_bias (rx_cur b) = 1 \<and>
     default_offset (rx_cur b) \<in> {0, 256} \<and>
     (pi_page (rx_cur b) \<noteq> NULL \<longrightarrow> page_offset (rx_cur b) \<in> {0, 256, 2048, 2304})"

definition wide_ok :: "idpf_rx_buf \<Rightarrow> bool" where
  "wide_ok b \<longleftrightarrow> buf_size b = 4096 \<and> pi_page (rx_oth b) \<noteq> NULL \<and>
     reuse_bias (rx_cur b) = 0 \<and> reuse_bias (rx_oth b) = 0"

definition unused_ok :: "idpf_rx_buf \<Rightarrow> bool" where
  "unused_ok b \<longleftrightarrow> buf_size b = 0 \<and> pi_page (rx_cur b) = NULL \<and> pi_page (rx_oth b) = NULL"

definition pi_ok :: "nat \<Rightarrow> idpf_page_info \<Rightarrow> bool" where
  "pi_ok lo x \<longleftrightarrow> (pi_page x \<noteq> NULL \<longrightarrow> lo \<le> pagecnt_bias x \<and> pagecnt_bias x \<le> 65535)"

definition buf_ok :: "nat \<Rightarrow> idpf_rx_buf \<Rightarrow> bool" where
  "buf_ok lo b \<longleftrightarrow> buf_shape b \<and> (narrow_ok b \<or> wide_ok b \<or> unused_ok b) \<and>
     pi_ok lo (rx_cur b) \<and> pi_ok 1 (rx_oth b)"

text \<open>Counts, with the references and uses of the other buffers.\<close>

definition counts_ok :: "(ptr \<Rightarrow> nat) \<Rightarrow> (ptr \<Rightarrow> nat) \<Rightarrow> page_world \<Rightarrow> bool" where
  "counts_ok own occ w \<longleftrightarrow>
     (\<forall>p. p \<noteq> NULL \<longrightarrow> occ p \<le> 1 \<and> own p + refs w p \<le> page_count w p \<and>
        (occ p = 1 \<longrightarrow> page_count w p = own p + refs w p)) \<and>
     (\<forall>f \<in># stack_frags w. fst f \<noteq> NULL)"

definition rest_ok :: "(ptr \<Rightarrow> nat) \<Rightarrow> (ptr \<Rightarrow> nat) \<Rightarrow> bool" where
  "rest_ok own occ \<longleftrightarrow> (\<forall>p. p \<noteq> NULL \<longrightarrow> (own p = 0 \<longleftrightarrow> occ p = 0))"

definition linv :: "(ptr \<Rightarrow> nat) \<Rightarrow> (ptr \<Rightarrow> nat) \<Rightarrow> nat \<Rightarrow> idpf_rx_buf \<Rightarrow> page_world \<Rightarrow> bool" where
  "linv own occ lo b w \<longleftrightarrow> buf_ok lo b \<and> rest_ok own occ \<and>
     counts_ok (\<lambda>p. own p + buf_own p b) (\<lambda>p. occ p + buf_occ p b) w"

text \<open>What is left of the invariant when the current page is given up.\<close>

lemma linv_alloc:
  assumes "linv own occ lo b w" and "pi_page (rx_cur b) = NULL" and "lo \<le> 65535"
    and "snd kern \<noteq> None" and "buf_size b \<noteq> 0" and "idpf_alloc_page kern (rx_cur b) w = (r, x, w')"
  shows "linv own occ lo (rx_cur_upd (\<lambda>_. x) b) w' \<and> buf_safe w' (rx_cur_upd (\<lambda>_. x) b) \<and>
    stack_frags w' = stack_frags w \<and> (r = ret_ok \<longrightarrow> pi_page x \<noteq> NULL)"
proof (cases "fst kern = NULL \<or> page_count w (fst kern) \<noteq> 0")
  case True
  then have "x = rx_cur b" "w' = w" "r \<noteq> ret_ok"
    using assms by (auto simp: idpf_alloc_page_def split: prod.splits)
  then show ?thesis
    using assms
    by (auto simp: linv_def buf_ok_def buf_safe_def buf_own_def buf_occ_def counts_ok_def narrow_ok_def wide_ok_def unused_ok_def)
next
  case False
  define q where "q = fst kern"
  obtain dma where k: "kern = (q, Some dma)" using assms(4) q_def by (cases kern) auto
  have x: "x = (rx_cur b)\<lparr>pi_page := q, pi_dma := dma, page_offset := default_offset (rx_cur b), pagecnt_bias := 65535\<rparr>"
    and w': "w' = page_emit (DmaMapPage dma) (page_ref_set q 65535 w)" and r: "r = ret_ok"
    using False assms(6) by (auto simp: k idpf_alloc_page_def)
  have q: "q \<noteq> NULL" "page_count w q = 0" using False q_def by auto
  have c: "counts_ok (\<lambda>p. own p + buf_own p b) (\<lambda>p. occ p + buf_occ p b) w" and b: "buf_ok lo b" and ro: "rest_ok own occ"
    using assms(1) by (auto simp: linv_def)
  have z: "own q = 0" "buf_own q b = 0" "refs w q = 0" using c q by (auto simp: counts_ok_def)
  then have "occ q = 0" using ro q by (auto simp: rest_ok_def)
  have oq: "pi_page (rx_oth b) \<noteq> q" using z b q by (auto simp: buf_own_def pbias_def buf_ok_def pi_ok_def)
  have nf: "\<forall>f \<in># stack_frags w. fst f \<noteq> q" using z(3) by (simp add: refs_0_iff)
  have "buf_ok lo (rx_cur_upd (\<lambda>_. x) b)"
    using b assms(3,5) by (auto simp: buf_ok_def x narrow_ok_def wide_ok_def unused_ok_def pi_ok_def)
  moreover have "counts_ok (\<lambda>p. own p + buf_own p (rx_cur_upd (\<lambda>_. x) b)) (\<lambda>p. occ p + buf_occ p (rx_cur_upd (\<lambda>_. x) b)) w'"
  proof -
    have sh: "buf_shape b" using b by (simp add: buf_ok_def)
    have "buf_own p (rx_cur_upd (\<lambda>_. x) b) = (if p = q then 65535 else buf_own p b)"
      "buf_occ p (rx_cur_upd (\<lambda>_. x) b) = (if p = q then 1 else buf_occ p b)" if "p \<noteq> NULL" for p
      using that sh oq assms(2) by (auto simp: buf_own_def buf_occ_def pbias_def pocc_def x)
    then show ?thesis
      using c z \<open>occ q = 0\<close> by (auto simp: counts_ok_def w')
  qed
  moreover have "buf_safe w' (rx_cur_upd (\<lambda>_. x) b)"
    using nf b by (auto simp: buf_safe_def w' x buf_ok_def)
  ultimately show ?thesis using ro q by (auto simp: linv_def w' x)
qed

text \<open>Giving up the current page: the stack keeps what it holds of it.\<close>

lemma linv_drain:
  assumes "linv own occ lo b w" and "pi_page (rx_cur b) \<noteq> NULL"
  shows "linv own occ lo' (rx_cur_upd (pi_page_update (\<lambda>_. NULL)) b)
    (page_drain (pi_page (rx_cur b)) (pagecnt_bias (rx_cur b)) (page_emit e w))"
proof -
  let ?b = "rx_cur_upd (pi_page_update (\<lambda>_. NULL)) b" and ?p = "pi_page (rx_cur b)"
  have c: "counts_ok (\<lambda>p. own p + buf_own p b) (\<lambda>p. occ p + buf_occ p b) w" and b: "buf_ok lo b" and ro: "rest_ok own occ"
    using assms(1) by (auto simp: linv_def)
  have sh: "buf_shape b" using b by (simp add: buf_ok_def)
  have one: "occ ?p = 0" "pi_page (rx_oth b) \<noteq> ?p"
    using c assms(2) by (auto simp: counts_ok_def buf_occ_def pocc_def split: if_splits)
  have "own ?p = 0" using ro one assms(2) by (auto simp: rest_ok_def)
  have own: "buf_own p ?b = (if p = ?p then 0 else buf_own p b)" "buf_occ p ?b = (if p = ?p then 0 else buf_occ p b)"
    if "p \<noteq> NULL" for p
    using that sh one by (auto simp: buf_own_def buf_occ_def pbias_def pocc_def)
  have "page_count w ?p = pagecnt_bias (rx_cur b) + refs w ?p"
    using c assms(2) one \<open>own ?p = 0\<close> by (auto simp: counts_ok_def buf_own_def buf_occ_def pbias_def pocc_def)
  then have "counts_ok (\<lambda>p. own p + buf_own p ?b) (\<lambda>p. occ p + buf_occ p ?b)
      (page_drain ?p (pagecnt_bias (rx_cur b)) (page_emit e w))"
    using c own one \<open>own ?p = 0\<close> by (auto simp: counts_ok_def)
  moreover have "buf_ok lo' ?b"
    using b assms(2) by (auto simp: buf_ok_def narrow_ok_def wide_ok_def unused_ok_def pi_ok_def)
  ultimately show ?thesis using ro by (simp add: linv_def)
qed

lemma rx_cur_upd_twice [simp]: "rx_cur_upd f (rx_cur_upd g b) = rx_cur_upd (\<lambda>x. f (g x)) b"
  by (cases "page_indx b < length (page_info b)") (simp_all add: rx_cur_upd_def rx_cur_def list_update_beyond)

lemma rx_cur_upd_id [simp]: "buf_shape b \<Longrightarrow> rx_cur_upd (\<lambda>_. rx_cur b) b = b"
  by (simp add: rx_cur_upd_def rx_cur_def buf_shape_def)

text \<open>
  Recycling restores the invariant, provided the current page is safe when the stack holds no more
  than \<open>reuse_bias\<close> references to it.
\<close>

lemma recycle_linv:
  assumes inv: "linv own occ 1 b w" and np: "pi_page (rx_cur b) \<noteq> NULL" and psz: "psz < 8192"
    and safe: "refs w (pi_page (rx_cur b)) \<le> reuse_bias (rx_cur b) \<Longrightarrow> buf_safe w b"
    and k: "snd kern \<noteq> None" and eq: "idpf_rx_splitq_recycle_buf psz reusable kern b w = (b', w')"
  shows "linv own occ 2 b' w' \<and> buf_safe w' b' \<and> stack_frags w' = stack_frags w \<and> buf_size b' = buf_size b"
proof -
  let ?x = "rx_cur b" and ?p = "pi_page (rx_cur b)"
  have c: "counts_ok (\<lambda>p. own p + buf_own p b) (\<lambda>p. occ p + buf_occ p b) w" and b: "buf_ok 1 b" and ro: "rest_ok own occ"
    using inv by (auto simp: linv_def)
  have sh: "buf_shape b" and bs: "buf_size b \<noteq> 0"
    using b np by (auto simp: buf_ok_def narrow_ok_def wide_ok_def unused_ok_def)
  have one: "occ ?p = 0" "pi_page (rx_oth b) \<noteq> ?p"
    using c np by (auto simp: counts_ok_def buf_occ_def pocc_def split: if_splits)
  have o0: "own ?p = 0" using ro one np by (auto simp: rest_ok_def)
  have cnt: "page_count w ?p = pagecnt_bias ?x + refs w ?p"
    using c np one o0 by (auto simp: counts_ok_def buf_own_def buf_occ_def pbias_def pocc_def)
  obtain ru b1 w1 where re: "idpf_rx_can_reuse_page psz reusable b w = (ru, b1, w1)" by (metis prod_cases3)
  show ?thesis
  proof (cases ru)
    case True
    have b': "b' = b1" "w' = w1" using eq True re by (auto simp: idpf_rx_splitq_recycle_buf_def)
    have le: "refs w ?p \<le> reuse_bias ?x"
      using re True psz cnt by (auto simp: idpf_rx_can_reuse_page_def Let_def split: if_splits)
    have s: "buf_safe w b" using safe [OF le] .
    show ?thesis
    proof (cases "pagecnt_bias ?x = 1")
      case True
      have b1: "b1 = rx_cur_upd (pagecnt_bias_update (\<lambda>_. 65535)) b" and w1: "w1 = page_ref_set ?p (page_count w ?p + 65534) w"
        using re \<open>ru\<close> True by (auto simp: idpf_rx_can_reuse_page_def Let_def split: if_splits)
      have own: "buf_own p b1 = (if p = ?p then 65535 else buf_own p b)" "buf_occ p b1 = buf_occ p b" for p
        using sh one by (auto simp: buf_own_def buf_occ_def pbias_def pocc_def b1)
      have "buf_ok 2 b1"
        using b np by (auto simp: buf_ok_def b1 narrow_ok_def wide_ok_def unused_ok_def pi_ok_def)
      moreover have "counts_ok (\<lambda>p. own p + buf_own p b1) (\<lambda>p. occ p + buf_occ p b1) w1"
        using c own cnt o0 True by (auto simp: counts_ok_def w1)
      ultimately show ?thesis
        using ro s sh by (auto simp: linv_def b' w1 b1 buf_safe_def)
    next
      case False
      have "b1 = b" "w1 = w"
        using re \<open>ru\<close> False by (auto simp: idpf_rx_can_reuse_page_def Let_def split: if_splits)
      then show ?thesis using inv s False b np by (auto simp: linv_def b' buf_ok_def pi_ok_def)
    qed
  next
    case False
    have bw: "b1 = b" "w1 = w"
      using re False by (auto simp: idpf_rx_can_reuse_page_def Let_def split: if_splits)
    let ?b = "rx_cur_upd (pi_page_update (\<lambda>_. NULL)) b"
      and ?w = "page_drain ?p (pagecnt_bias ?x) (page_emit (DmaUnmapPage (pi_dma ?x)) w)"
    obtain r x w2 where al: "idpf_alloc_page kern (?x\<lparr>pi_page := NULL\<rparr>) ?w = (r, x, w2)" by (metis prod_cases3)
    then have b': "b' = rx_cur_upd (\<lambda>_. x) ?b" "w' = w2"
      using eq False re bw sh by (auto simp: idpf_rx_splitq_recycle_buf_def Let_def)
    have "linv own occ 2 ?b ?w" by (rule linv_drain [OF inv np])
    from linv_alloc [OF this, of kern r x w2] al k sh bs
    show ?thesis by (simp add: b')
  qed
qed

lemma trunc16_dec: "0 < n \<Longrightarrow> n \<le> 65535 \<Longrightarrow> trunc16 (n + 65535) = n - 1"
  by (cases n) (auto simp: trunc16_def)

lemma get_put_buf_page:
  assumes "buf_shape b" and "0 < pagecnt_bias (rx_cur b)" and "pagecnt_bias (rx_cur b) \<le> 65535"
  shows "rx_put_buf_page (idpf_rx_get_buf_page b) = b"
  using assms by (simp add: rx_put_buf_page_def idpf_rx_get_buf_page_def rx_cur_upd_def rx_cur_def buf_shape_def trunc16_dec)

lemma adjust_pg_wide: "psz < 8192 \<Longrightarrow> buf_size b = 4096 \<Longrightarrow> idpf_rx_buf_adjust_pg psz b n = rx_flip b"
  by (simp add: idpf_rx_buf_adjust_pg_def rx_flip_def IDPF_RX_BUF_2048_def)

lemma adjust_pg_narrow:
  "psz < 8192 \<Longrightarrow> buf_size b = 2048 \<Longrightarrow>
     idpf_rx_buf_adjust_pg psz b n = rx_cur_upd (\<lambda>x. x\<lparr>page_offset := page_offset x XOR n\<rparr>) b"
  by (simp add: idpf_rx_buf_adjust_pg_def IDPF_RX_BUF_2048_def)

text \<open>Handing a fragment to the stack and moving on to the other half or the other page.\<close>

lemma give_counts:
  assumes inv: "linv own occ 2 b w" and np: "pi_page (rx_cur b) \<noteq> NULL"
    and own: "\<And>p. p \<noteq> NULL \<Longrightarrow> buf_own p b2 = buf_own p b - of_bool (p = pi_page (rx_cur b))"
    and occ: "\<And>p. p \<noteq> NULL \<Longrightarrow> buf_occ p b2 = buf_occ p b"
  shows "counts_ok (\<lambda>p. own p + buf_own p b2) (\<lambda>p. occ p + buf_occ p b2) (stack_add (pi_page (rx_cur b), start, len) w)"
proof -
  have "0 < buf_own (pi_page (rx_cur b)) b"
    using inv np by (auto simp: linv_def buf_ok_def pi_ok_def buf_own_def pbias_def)
  then show ?thesis
    using inv np own occ by (auto simp: linv_def counts_ok_def)
qed

lemma give_linv:
  assumes inv: "linv own occ 2 b w" and safe: "buf_safe w b" and np: "pi_page (rx_cur b) \<noteq> NULL" and psz: "psz < 8192"
    and fr: "page_offset (rx_cur b) \<le> start" "start + len \<le> page_offset (rx_cur b) + buf_size b"
    and b2: "b2 = idpf_rx_buf_adjust_pg psz (idpf_rx_get_buf_page b) (buf_size b)"
    and w2: "w2 = stack_add (pi_page (rx_cur b), start, len) w"
  shows "linv own occ 1 b2 w2 \<and> pi_page (rx_cur b2) \<noteq> NULL \<and> buf_size b2 = buf_size b \<and>
    (refs w2 (pi_page (rx_cur b2)) \<le> reuse_bias (rx_cur b2) \<longrightarrow> buf_safe w2 b2)"
proof -
  let ?p = "pi_page (rx_cur b)"
  have b: "buf_ok 2 b" and ro: "rest_ok own occ" using inv by (auto simp: linv_def)
  have sh: "buf_shape b" and n: "2 \<le> pagecnt_bias (rx_cur b)" "pagecnt_bias (rx_cur b) \<le> 65535"
    using b np by (auto simp: buf_ok_def pi_ok_def)
  have dec: "trunc16 (pagecnt_bias (rx_cur b) + 65535) = pagecnt_bias (rx_cur b) - 1"
    using n by (intro trunc16_dec) auto
  have oth: "pi_page (rx_oth b) \<noteq> ?p"
    using inv np by (auto simp: linv_def counts_ok_def buf_occ_def pocc_def split: if_splits)
  consider (n) "narrow_ok b" | (w) "wide_ok b" using b np by (auto simp: buf_ok_def unused_ok_def)
  then show ?thesis
  proof cases
    case n
    then have sz: "buf_size b = 2048" by (simp add: narrow_ok_def)
    have e: "b2 = rx_cur_upd (\<lambda>x. x\<lparr>pagecnt_bias := pagecnt_bias x - 1, page_offset := page_offset x XOR 2048\<rparr>) b"
      using sh dec psz sz by (simp add: b2 adjust_pg_narrow idpf_rx_get_buf_page_def) (simp add: rx_cur_upd_def)
    have "counts_ok (\<lambda>p. own p + buf_own p b2) (\<lambda>p. occ p + buf_occ p b2) w2"
      unfolding w2 using inv np
      by (rule give_counts) (use sh oth in \<open>auto simp: e buf_own_def buf_occ_def pbias_def pocc_def\<close>)
    moreover have "buf_ok 1 b2"
      using b n np \<open>2 \<le> pagecnt_bias (rx_cur b)\<close> by (auto simp: buf_ok_def e narrow_ok_def wide_ok_def unused_ok_def pi_ok_def)
    moreover have "buf_safe w2 b2" if "refs w2 (pi_page (rx_cur b2)) \<le> reuse_bias (rx_cur b2)"
    proof -
      have "refs w ?p = 0" using that n sh by (simp add: w2 e narrow_ok_def)
      then have "\<forall>f \<in># stack_frags w. fst f \<noteq> ?p" by (simp add: refs_0_iff)
      then show ?thesis using fr sh sz by (auto simp: buf_safe_def w2 e in_half_def xor.assoc)
    qed
    ultimately show ?thesis using ro np sh by (auto simp: linv_def e)
  next
    case w
    then have sz: "buf_size b = 4096" by (simp add: wide_ok_def)
    have e: "b2 = rx_flip (rx_cur_upd (\<lambda>x. x\<lparr>pagecnt_bias := pagecnt_bias x - 1\<rparr>) b)"
      using sh dec psz sz by (simp add: b2 adjust_pg_wide idpf_rx_get_buf_page_def) (simp add: rx_cur_upd_def)
    have "counts_ok (\<lambda>p. own p + buf_own p b2) (\<lambda>p. occ p + buf_occ p b2) w2"
      unfolding w2 using inv np
      by (rule give_counts) (use sh oth in \<open>auto simp: e buf_own_def buf_occ_def pbias_def pocc_def\<close>)
    moreover have "buf_ok 1 b2"
      using b w np \<open>2 \<le> pagecnt_bias (rx_cur b)\<close> by (auto simp: buf_ok_def e narrow_ok_def wide_ok_def unused_ok_def pi_ok_def)
    moreover have "buf_safe w2 b2" if "refs w2 (pi_page (rx_cur b2)) \<le> reuse_bias (rx_cur b2)"
    proof -
      have "refs w2 (pi_page (rx_oth b)) = 0" using that w sh by (simp add: e wide_ok_def)
      then have "\<forall>f \<in># stack_frags w2. fst f \<noteq> pi_page (rx_oth b)" unfolding refs_0_iff .
      then show ?thesis using sh by (auto simp: buf_safe_def e)
    qed
    ultimately show ?thesis using ro w sh by (auto simp: linv_def e wide_ok_def)
  qed
qed

text \<open>The packet under construction and the answers of the kernel, on the three ways through the code.\<close>

lemma rx_use_buf_cases:
  assumes "buf_shape b" "0 < pagecnt_bias (rx_cur b)" "pagecnt_bias (rx_cur b) \<le> 65535" and psz: "psz < 8192"
    and sz: "0 < sz" "sz \<le> buf_size b" and hl: "ans_headlen ans \<le> IDPF_RX_HDR_SIZE"
    and eq: "rx_use_buf psz reusable ans skb sz b w = (r, b', w')"
  obtains (fail) "r = None" "b' = b" "w' = w"
    | (copy) "r \<noteq> None" "idpf_rx_splitq_recycle_buf psz reusable (ans_page ans) b w = (b', w')"
    | (give) start len where "r \<noteq> None" "page_offset (rx_cur b) \<le> start" "start + len \<le> page_offset (rx_cur b) + buf_size b"
        "idpf_rx_splitq_recycle_buf psz reusable (ans_page ans)
          (idpf_rx_buf_adjust_pg psz (idpf_rx_get_buf_page b) (buf_size b))
          (stack_add (pi_page (rx_cur b), start, len) w) = (b', w')"
proof (cases skb)
  case None
  have pg: "rx_put_buf_page (idpf_rx_get_buf_page b) = b" using assms(1-3) by (rule get_put_buf_page)
  let ?hl = "if sz > IDPF_RX_HDR_SIZE then ans_headlen ans else sz"
  consider "\<not> ans_skb ans" | "ans_skb ans" "sz \<le> ?hl" | "ans_skb ans" "?hl < sz" by linarith
  then show thesis
  proof cases
    case 1
    then show thesis using None eq pg fail by (simp add: rx_use_buf_def idpf_rx_construct_skb_def Let_def)
  next
    case 2
    then show thesis using None eq pg copy
      by (auto simp: rx_use_buf_def idpf_rx_construct_skb_def Let_def split: if_splits prod.splits)
  next
    case 3
    then have "idpf_rx_splitq_recycle_buf psz reusable (ans_page ans)
          (idpf_rx_buf_adjust_pg psz (idpf_rx_get_buf_page b) (buf_size b))
          (stack_add (pi_page (rx_cur b), page_offset (rx_cur b) + ?hl, sz - ?hl) w) = (b', w')" "r \<noteq> None"
      using None eq assms(1) psz
      by (auto simp: rx_use_buf_def idpf_rx_construct_skb_def Let_def idpf_rx_frame_truesize_def idpf_rx_get_buf_page_def
          split: if_splits prod.splits)
    then show thesis using 3 sz by (intro give [of "page_offset (rx_cur b) + ?hl" "sz - ?hl"]) auto
  qed
next
  case (Some s)
  have "idpf_rx_splitq_recycle_buf psz reusable (ans_page ans)
          (idpf_rx_buf_adjust_pg psz (idpf_rx_get_buf_page b) (buf_size b))
          (stack_add (pi_page (rx_cur b), page_offset (rx_cur b), sz) w) = (b', w')" "r \<noteq> None"
    using Some eq assms(1) psz
    by (auto simp: rx_use_buf_def idpf_rx_add_frag_def Let_def idpf_rx_frame_truesize_def idpf_rx_get_buf_page_def
        split: prod.splits)
  then show thesis using sz by (intro give [of "page_offset (rx_cur b)" sz]) auto
qed

lemma rx_use_linv:
  assumes inv: "linv own occ 2 b w" and safe: "buf_safe w b" and np: "pi_page (rx_cur b) \<noteq> NULL" and psz: "psz < 8192"
    and sz: "0 < sz" "sz \<le> buf_size b" and hl: "ans_headlen ans \<le> IDPF_RX_HDR_SIZE" and k: "snd (ans_page ans) \<noteq> None"
    and eq: "rx_use_buf psz reusable ans skb sz b w = (r, b', w')"
  shows "linv own occ 2 b' w' \<and> buf_safe w' b' \<and> buf_size b' = buf_size b \<and>
    (\<forall>f \<in># stack_frags w'. f \<in># stack_frags w \<or> fst f = pi_page (rx_cur b)) \<and>
    (r = None \<longrightarrow> pi_page (rx_cur b') \<noteq> NULL)"
proof -
  have "buf_shape b" "2 \<le> pagecnt_bias (rx_cur b)" "pagecnt_bias (rx_cur b) \<le> 65535"
    using inv np by (auto simp: linv_def buf_ok_def pi_ok_def)
  then have pre: "buf_shape b" "0 < pagecnt_bias (rx_cur b)" "pagecnt_bias (rx_cur b) \<le> 65535" by auto
  from pre psz sz hl eq show ?thesis
  proof (cases rule: rx_use_buf_cases)
    case fail
    then show ?thesis using inv safe np by simp
  next
    case copy
    have "linv own occ 1 b w" using inv by (auto simp: linv_def buf_ok_def pi_ok_def)
    from recycle_linv [OF this np psz safe k copy(2)] copy(1) show ?thesis by auto
  next
    case (give start len)
    let ?b2 = "idpf_rx_buf_adjust_pg psz (idpf_rx_get_buf_page b) (buf_size b)"
      and ?w2 = "stack_add (pi_page (rx_cur b), start, len) w"
    have g: "linv own occ 1 ?b2 ?w2" "pi_page (rx_cur ?b2) \<noteq> NULL" "buf_size ?b2 = buf_size b"
      "refs ?w2 (pi_page (rx_cur ?b2)) \<le> reuse_bias (rx_cur ?b2) \<longrightarrow> buf_safe ?w2 ?b2"
      using give_linv [OF inv safe np psz give(2,3) refl refl] by blast+
    from recycle_linv [OF g(1,2) psz _ k give(4)] g(3,4) give(1) show ?thesis by auto
  qed
qed

section \<open>All buffers\<close>

definition bufs_own :: "idpf_rx_buf list \<Rightarrow> ptr \<Rightarrow> nat" where
  "bufs_own bs p = sum_list (map (buf_own p) bs)"

definition bufs_occ :: "idpf_rx_buf list \<Rightarrow> ptr \<Rightarrow> nat" where
  "bufs_occ bs p = sum_list (map (buf_occ p) bs)"

text \<open>The buffers other than number \<open>i\<close>.\<close>

definition rest :: "nat \<Rightarrow> 'a list \<Rightarrow> 'a list" where
  "rest i xs = take i xs @ drop (Suc i) xs"

lemma sum_list_map_update:
  fixes g :: "'a \<Rightarrow> nat"
  shows "i < length xs \<Longrightarrow> sum_list (map g (xs[i := y])) = sum_list (map g (rest i xs)) + g y"
  by (simp add: rest_def upd_conv_take_nth_drop)

lemma sum_list_map_rest:
  fixes g :: "'a \<Rightarrow> nat"
  shows "i < length xs \<Longrightarrow> sum_list (map g xs) = sum_list (map g (rest i xs)) + g (xs ! i)"
  using sum_list_map_update [of i xs g "xs ! i"] by simp

lemma set_update_rest: "i < length xs \<Longrightarrow> set (xs[i := y]) = insert y (set (rest i xs))"
  by (auto simp: rest_def upd_conv_take_nth_drop)

lemma set_rest_subset: "set (rest i xs) \<subseteq> set xs"
  by (auto simp: rest_def dest: in_set_takeD in_set_dropD)

lemma buf_own_occ: "buf_ok lo b \<Longrightarrow> 0 < lo \<Longrightarrow> p \<noteq> NULL \<Longrightarrow> buf_own p b = 0 \<longleftrightarrow> buf_occ p b = 0"
  by (auto simp: buf_ok_def pi_ok_def buf_own_def buf_occ_def pbias_def pocc_def)

lemma rest_ok_bufs:
  "\<forall>b \<in> set bs. buf_ok 2 b \<Longrightarrow> rest_ok (bufs_own bs) (bufs_occ bs)"
  unfolding rest_ok_def bufs_own_def bufs_occ_def
  by (auto simp: sum_list_eq_0_iff buf_own_occ [where lo = 2])

definition rx_inv :: "rx_state \<Rightarrow> bool" where
  "rx_inv s \<longleftrightarrow> counts_ok (bufs_own (rs_bufs s)) (bufs_occ (rs_bufs s)) (rs_world s) \<and>
     (\<forall>b \<in> set (rs_bufs s). buf_ok 2 b \<and> buf_safe (rs_world s) b) \<and>
     (\<forall>i \<in> rs_posted s. i < length (rs_bufs s) \<and> pi_page (rx_cur (rs_bufs s ! i)) \<noteq> NULL)"

lemma rx_inv_linv:
  assumes "rx_inv s" and "i < length (rs_bufs s)"
  shows "linv (bufs_own (rest i (rs_bufs s))) (bufs_occ (rest i (rs_bufs s))) 2 (rs_bufs s ! i) (rs_world s)"
    "buf_safe (rs_world s) (rs_bufs s ! i)"
proof -
  have "rest_ok (bufs_own (rest i (rs_bufs s))) (bufs_occ (rest i (rs_bufs s)))"
    using assms(1) set_rest_subset [of i "rs_bufs s"] by (intro rest_ok_bufs) (auto simp: rx_inv_def)
  then show "linv (bufs_own (rest i (rs_bufs s))) (bufs_occ (rest i (rs_bufs s))) 2 (rs_bufs s ! i) (rs_world s)"
    using assms sum_list_map_rest [OF assms(2)]
    by (auto simp: linv_def rx_inv_def counts_ok_def bufs_own_def bufs_occ_def)
  show "buf_safe (rs_world s) (rs_bufs s ! i)" using assms by (simp add: rx_inv_def)
qed

text \<open>A change of one buffer that gives the stack fragments of its own page only.\<close>

lemma rx_inv_update:
  assumes inv: "rx_inv s" and i: "i < length (rs_bufs s)"
    and l: "linv (bufs_own (rest i (rs_bufs s))) (bufs_occ (rest i (rs_bufs s))) 2 b w" and safe: "buf_safe w b"
    and fr: "\<forall>f \<in># stack_frags w. f \<in># stack_frags (rs_world s) \<or> fst f = pi_page (rx_cur (rs_bufs s ! i))"
    and P: "P \<subseteq> insert i (rs_posted s)" "i \<in> P \<longrightarrow> pi_page (rx_cur b) \<noteq> NULL"
  shows "rx_inv \<lparr>rs_bufs = (rs_bufs s)[i := b], rs_posted = P, rs_world = w, rs_mapped = m\<rparr>"
proof -
  let ?bs = "rs_bufs s" and ?b = "rs_bufs s ! i"
  have c: "counts_ok (bufs_own (?bs[i := b])) (bufs_occ (?bs[i := b])) w"
    using l i by (simp add: linv_def counts_ok_def bufs_own_def bufs_occ_def sum_list_map_update)
  have "buf_safe w c" if c: "c \<in> set (rest i ?bs)" for c
    unfolding buf_safe_def
  proof (intro ballI impI)
    fix f assume f: "f \<in># stack_frags w" "fst f = pi_page (rx_cur c)"
    have "fst f \<noteq> NULL" using f l by (auto simp: linv_def counts_ok_def)
    have "f \<in># stack_frags (rs_world s)"
    proof (rule ccontr)
      assume "f \<notin># stack_frags (rs_world s)"
      then have "pi_page (rx_cur c) = pi_page (rx_cur ?b)" using fr f by auto
      then have "1 \<le> buf_occ (fst f) c" "1 \<le> buf_occ (fst f) ?b" using f by (auto simp: buf_occ_def pocc_def)
      moreover have "buf_occ (fst f) c \<le> sum_list (map (buf_occ (fst f)) (rest i ?bs))"
        using c by (intro member_le_sum_list) auto
      ultimately have "2 \<le> bufs_occ ?bs (fst f)"
        using sum_list_map_rest [OF i, of "buf_occ (fst f)"] by (simp add: bufs_occ_def)
      then show False using inv \<open>fst f \<noteq> NULL\<close> by (force simp: rx_inv_def counts_ok_def)
    qed
    moreover have "buf_safe (rs_world s) c" using inv c set_rest_subset [of i ?bs] by (auto simp: rx_inv_def)
    ultimately show "buf_size c = 2048 \<and> in_half (page_offset (rx_cur c) XOR 2048) f"
      using f by (auto simp: buf_safe_def)
  qed
  then have "\<forall>c \<in> set (?bs[i := b]). buf_ok 2 c \<and> buf_safe w c"
    using inv i safe l set_rest_subset [of i ?bs] by (auto simp: set_update_rest rx_inv_def linv_def)
  moreover have "\<forall>j \<in> P. j < length ?bs \<and> pi_page (rx_cur (?bs[i := b] ! j)) \<noteq> NULL"
    using P inv i by (auto simp: rx_inv_def nth_list_update)
  ultimately show ?thesis using c by (simp add: rx_inv_def)
qed

lemma refill_linv:
  assumes l: "linv own occ 2 b w" "buf_safe w b" and "snd kern \<noteq> None" "buf_size b \<noteq> 0"
    and eq: "rx_refill_page kern b w = (r, b', w')"
  shows "linv own occ 2 b' w' \<and> buf_safe w' b' \<and> stack_frags w' = stack_frags w \<and>
    (r = ret_ok \<longrightarrow> pi_page (rx_cur b') \<noteq> NULL)"
proof (cases "pi_page (rx_cur b) = NULL")
  case True
  obtain x where x: "idpf_alloc_page kern (rx_cur b) w = (r, x, w')" "b' = rx_cur_upd (\<lambda>_. x) b"
    using eq True by (auto simp: rx_refill_page_def split: prod.splits)
  moreover have "buf_shape b" using l by (simp add: linv_def buf_ok_def)
  ultimately show ?thesis
    using linv_alloc [OF l(1) True _ assms(3,4) x(1)] by simp
next
  case False
  then show ?thesis using eq l by (auto simp: rx_refill_page_def)
qed

lemma bufs_occ_0:
  assumes "\<forall>b \<in> set bs. buf_shape b \<and> (\<forall>x \<in> set (page_info b). pi_page x \<noteq> p)"
  shows "bufs_occ bs p = 0"
proof -
  have "buf_occ p b = 0" if "b \<in> set bs" for b
  proof -
    have "rx_cur b \<in> set (page_info b)" "rx_oth b \<in> set (page_info b)"
      using assms that by (auto simp: rx_cur_def rx_oth_def buf_shape_def)
    then show ?thesis using assms that by (auto simp: buf_occ_def pocc_def)
  qed
  then show ?thesis by (simp add: bufs_occ_def sum_list_eq_0_iff)
qed

lemma rx_inv_other:
  assumes inv: "rx_inv s" and o: "\<And>p. page_count (rs_world s) p \<noteq> cnt p \<Longrightarrow>
        p \<notin> fst ` set_mset (stack_frags (rs_world s)) \<and> (\<forall>b \<in> set (rs_bufs s). \<forall>x \<in> set (page_info b). pi_page x \<noteq> p)"
  shows "rx_inv (s\<lparr>rs_world := (rs_world s)\<lparr>page_count := cnt\<rparr>\<rparr>)"
proof -
  let ?w = "rs_world s" and ?w' = "(rs_world s)\<lparr>page_count := cnt\<rparr>"
  have same: "refs ?w' p = refs ?w p" for p by (simp add: refs_def)
  have "bufs_own (rs_bufs s) p + refs ?w p \<le> cnt p \<and> (bufs_occ (rs_bufs s) p = 1 \<longrightarrow> cnt p = bufs_own (rs_bufs s) p + refs ?w p)"
    if p: "p \<noteq> NULL" for p
  proof (cases "page_count ?w p = cnt p")
    case True
    then show ?thesis using inv p by (auto simp: rx_inv_def counts_ok_def)
  next
    case False
    have "refs ?w p = 0" using o [OF False] by (auto simp: refs_0_iff image_iff)
    moreover have occ: "bufs_occ (rs_bufs s) p = 0"
      using o [OF False] inv by (intro bufs_occ_0) (auto simp: rx_inv_def buf_ok_def)
    moreover have "bufs_own (rs_bufs s) p = 0"
      using rest_ok_bufs [of "rs_bufs s"] inv occ p by (auto simp: rx_inv_def rest_ok_def)
    ultimately show ?thesis by simp
  qed
  then show ?thesis using inv by (auto simp: rx_inv_def counts_ok_def same buf_safe_def)
qed

lemma refs_pos: "f \<in># stack_frags w \<Longrightarrow> 0 < refs w (fst f)"
  using refs_0_iff [of w "fst f"] by auto

text \<open>The stack takes or drops a reference: counts move with it, and there is no new fragment.\<close>

lemma rx_inv_stack:
  assumes inv: "rx_inv s" and sub: "set_mset (stack_frags w) \<subseteq> set_mset (stack_frags (rs_world s))"
    and cnt: "\<And>p. page_count w p + refs (rs_world s) p = page_count (rs_world s) p + refs w p"
  shows "rx_inv (s\<lparr>rs_world := w\<rparr>)"
proof -
  have "bufs_own (rs_bufs s) p + refs w p \<le> page_count w p \<and>
      (bufs_occ (rs_bufs s) p = 1 \<longrightarrow> page_count w p = bufs_own (rs_bufs s) p + refs w p)" if "p \<noteq> NULL" for p
    using inv that cnt [of p] by (fastforce simp: rx_inv_def counts_ok_def)
  then show ?thesis
    using inv sub by (auto simp: rx_inv_def counts_ok_def buf_safe_def)
qed

lemma rx_inv_stack_get:
  "rx_inv s \<Longrightarrow> f \<in># stack_frags (rs_world s) \<Longrightarrow>
     rx_inv (s\<lparr>rs_world := page_ref_set (fst f) (page_count (rs_world s) (fst f) + 1) (stack_add f (rs_world s))\<rparr>)"
  by (rule rx_inv_stack) auto

lemma rx_inv_stack_put:
  assumes "rx_inv s" and f: "f \<in># stack_frags (rs_world s)"
  shows "rx_inv (s\<lparr>rs_world := page_ref_set (fst f) (page_count (rs_world s) (fst f) - 1)
      ((rs_world s)\<lparr>stack_frags := stack_frags (rs_world s) - {#f#}\<rparr>)\<rparr>)"
proof (rule rx_inv_stack [OF assms(1)])
  let ?w = "(rs_world s)\<lparr>stack_frags := stack_frags (rs_world s) - {#f#}\<rparr>"
  obtain M where M: "stack_frags (rs_world s) = add_mset f M" using f by (metis multi_member_split)
  have r: "refs (rs_world s) p = of_bool (fst f = p) + refs ?w p" for p
    by (simp add: refs_def M)
  have "fst f \<noteq> NULL" using assms by (auto simp: rx_inv_def counts_ok_def)
  then have "refs (rs_world s) (fst f) \<le> page_count (rs_world s) (fst f)"
    using assms(1) by (auto simp: rx_inv_def counts_ok_def intro: le_trans)
  then show "page_count (page_ref_set (fst f) (page_count (rs_world s) (fst f) - 1) ?w) p + refs (rs_world s) p =
      page_count (rs_world s) p + refs (page_ref_set (fst f) (page_count (rs_world s) (fst f) - 1) ?w) p" for p
    using r [of p] refs_pos [OF f] by auto
qed (auto dest: in_diffD)

lemma rx_step_mapped: "rx_step psz reusable s s' \<Longrightarrow> rs_mapped s' \<Longrightarrow> rs_mapped s"
  by (induction rule: rx_step.induct) simp_all

lemma rx_step_inv: "rx_step psz reusable s s' \<Longrightarrow> psz < 8192 \<Longrightarrow> rs_mapped s' \<Longrightarrow> rx_inv s \<Longrightarrow> rx_inv s'"
proof (induction rule: rx_step.induct)
  case (receive i s sz ans skb r b w)
  have i: "i < length (rs_bufs s)" "pi_page (rx_cur (rs_bufs s ! i)) \<noteq> NULL" and m: "snd (ans_page ans) \<noteq> None"
    using receive by (auto simp: rx_inv_def)
  note u = rx_use_linv [OF rx_inv_linv [OF receive.prems(3) i(1)] i(2) receive.prems(1) receive.hyps(2-4) m receive.hyps(5)]
  show ?case
    using u receive.hyps(1) i by (intro rx_inv_update [OF receive.prems(3)]) auto
next
  case (refill i s kern r b w)
  have m: "snd kern \<noteq> None" using refill.prems(2) by simp
  note u = refill_linv [OF rx_inv_linv [OF refill.prems(3) refill.hyps(1)] m refill.hyps(3,4)]
  show ?case
    using u refill.hyps(1,2) by (intro rx_inv_update [OF refill.prems(3)]) auto
next
  case (stack_get f s)
  then show ?case by (intro rx_inv_stack_get)
next
  case (stack_put f s)
  then show ?case by (intro rx_inv_stack_put)
next
  case (other s cnt)
  then show ?case by (intro rx_inv_other)
qed

section \<open>Initial state\<close>

lemma idpf_alloc_page_ok:
  assumes "idpf_alloc_page kern x w = (None, y, w')"
  obtains q dma where "kern = (q, Some dma)" "q \<noteq> NULL" "page_count w q = 0"
    "y = x\<lparr>pi_page := q, pi_dma := dma, page_offset := default_offset x, pagecnt_bias := 65535\<rparr>"
    "w' = page_emit (DmaMapPage dma) (page_ref_set q 65535 w)"
  using assms by (auto simp: idpf_alloc_page_def split: prod.splits if_splits option.splits)

lemma rx_buf_zero_fields [simp]:
  "rx_cur rx_buf_zero = rx_page_info_zero" "rx_oth rx_buf_zero = rx_page_info_zero"
  "page_info rx_buf_zero = [rx_page_info_zero, rx_page_info_zero]"
  by (simp_all add: rx_buf_zero_def rx_cur_def rx_oth_def)

lemma rx_buf_zero_ok: "buf_ok lo rx_buf_zero" "p \<noteq> NULL \<Longrightarrow> buf_own p rx_buf_zero = 0" "p \<noteq> NULL \<Longrightarrow> buf_occ p rx_buf_zero = 0"
  by (auto simp: buf_ok_def buf_shape_def unused_ok_def pi_ok_def buf_own_def buf_occ_def pbias_def pocc_def
      rx_page_info_zero_def) (auto simp: rx_buf_zero_def)

text \<open>A buffer whose pages were free.\<close>

lemma linv_fresh:
  assumes l: "linv own occ 2 rx_buf_zero w" and b: "buf_ok 2 b" and S: "\<And>p. p \<in> S \<Longrightarrow> p \<noteq> NULL \<and> page_count w p = 0"
    and own: "\<And>p. p \<noteq> NULL \<Longrightarrow> buf_own p b = (if p \<in> S then 65535 else 0)"
    and occ: "\<And>p. p \<noteq> NULL \<Longrightarrow> buf_occ p b = of_bool (p \<in> S)"
    and w: "stack_frags w' = stack_frags w" "\<And>p. page_count w' p = (if p \<in> S then 65535 else page_count w p)"
    and cur: "pi_page (rx_cur b) \<in> S"
  shows "linv own occ 2 b w' \<and> buf_safe w' b"
proof -
  have rf: "refs w' p = refs w p" for p using w by (simp add: refs_def)
  have c: "p \<noteq> NULL \<longrightarrow> occ p \<le> 1 \<and> own p + refs w p \<le> page_count w p \<and> (occ p = 1 \<longrightarrow> page_count w p = own p + refs w p)" for p
    using l by (auto simp: linv_def counts_ok_def rx_buf_zero_ok)
  have z: "own p = 0 \<and> refs w p = 0 \<and> occ p = 0" if "p \<in> S" for p
    using S [OF that] c [of p] l by (auto simp: linv_def rest_ok_def)
  have "counts_ok (\<lambda>p. own p + buf_own p b) (\<lambda>p. occ p + buf_occ p b) w'"
    using c z l by (auto simp: counts_ok_def own occ w rf linv_def)
  moreover have "buf_safe w' b"
    using z [OF cur] w by (auto simp: buf_safe_def refs_0_iff)
  ultimately show ?thesis using b l by (simp add: linv_def)
qed

lemma rx_buf_alloc_linv:
  assumes l: "linv own occ 2 rx_buf_zero w" and psz: "psz < 8192" and sz: "rx_buf_size \<in> {2048, 4096}"
    and eq: "rx_buf_alloc psz xdp rx_buf_size kern rx_buf_zero w = (None, b, w')"
  shows "linv own occ 2 b w' \<and> buf_safe w' b \<and> stack_frags w' = stack_frags w \<and> pi_page (rx_cur b) \<noteq> NULL"
proof -
  let ?x = "rx_headroom xdp rx_page_info_zero"
  obtain y0 w1 where a0: "idpf_alloc_page (fst kern) ?x w = (None, y0, w1)"
    using eq by (auto simp: rx_buf_alloc_def split: prod.splits option.splits)
  then obtain q0 d0 where q0: "q0 \<noteq> NULL" "page_count w q0 = 0"
    "y0 = ?x\<lparr>pi_page := q0, pi_dma := d0, page_offset := default_offset ?x, pagecnt_bias := 65535\<rparr>"
    "w1 = page_emit (DmaMapPage d0) (page_ref_set q0 65535 w)"
    by (rule idpf_alloc_page_ok)
  have x: "reuse_bias ?x = 0" "default_offset ?x \<in> {0, 256}" "pi_page rx_page_info_zero = NULL"
    by (auto simp: rx_headroom_def rx_page_info_zero_def)
  consider "rx_buf_size = 2048" | "rx_buf_size = 4096" using sz by auto
  then show ?thesis
  proof cases
    case 1
    have b: "b = \<lparr>page_info = [y0\<lparr>reuse_bias := 1\<rparr>, rx_page_info_zero], page_indx = 0, buf_size = 2048\<rparr>" and w': "w' = w1"
      using eq a0 psz 1 by (auto simp: rx_buf_alloc_def Let_def IDPF_RX_BUF_2048_def rx_buf_zero_def)
    have cur: "rx_cur b = y0\<lparr>reuse_bias := 1\<rparr>" "rx_oth b = rx_page_info_zero" by (simp_all add: b rx_cur_def rx_oth_def)
    have "buf_ok 2 b"
      using x q0 by (auto simp: buf_ok_def narrow_ok_def cur pi_ok_def) (auto simp: b buf_shape_def)
    then have "linv own occ 2 b w' \<and> buf_safe w' b"
      using q0 x by (intro linv_fresh [OF l, of b "{q0}"]) (auto simp: buf_own_def buf_occ_def pbias_def pocc_def cur w')
    then show ?thesis using q0 by (simp add: w' cur)
  next
    case 2
    obtain y1 where a1: "idpf_alloc_page (snd kern) ?x w1 = (None, y1, w')"
      and b: "b = \<lparr>page_info = [y0, y1], page_indx = 0, buf_size = 4096\<rparr>"
      using eq a0 psz 2 by (auto simp: rx_buf_alloc_def Let_def IDPF_RX_BUF_2048_def rx_buf_zero_def split: prod.splits)
    from a1 obtain q1 d1 where q1: "q1 \<noteq> NULL" "page_count w1 q1 = 0"
      "y1 = ?x\<lparr>pi_page := q1, pi_dma := d1, page_offset := default_offset ?x, pagecnt_bias := 65535\<rparr>"
      "w' = page_emit (DmaMapPage d1) (page_ref_set q1 65535 w1)"
      by (rule idpf_alloc_page_ok)
    have ne: "q1 \<noteq> q0" "page_count w q1 = 0" using q1(2) by (auto simp: q0(4) split: if_splits)
    have cur: "rx_cur b = y0" "rx_oth b = y1" by (simp_all add: b rx_cur_def rx_oth_def)
    have "buf_ok 2 b"
      using x q0 q1 by (auto simp: buf_ok_def wide_ok_def cur pi_ok_def) (auto simp: b buf_shape_def)
    then have "linv own occ 2 b w' \<and> buf_safe w' b"
      using q0 q1 ne by (intro linv_fresh [OF l, of b "{q0, q1}"]) (auto simp: buf_own_def buf_occ_def pbias_def pocc_def cur)
    then show ?thesis using q0 by (simp add: q1 cur)
  qed
qed

lemma rx_buf_alloc_loop_inv:
  assumes "rx_buf_alloc_loop psz xdp rx_buf_size kern i k bufs w = (None, bufs', w')"
    and "rx_inv \<lparr>rs_bufs = bufs, rs_posted = {..<i}, rs_world = w, rs_mapped = m\<rparr>" and "i + k \<le> length bufs"
    and "\<And>j. i \<le> j \<Longrightarrow> j < length bufs \<Longrightarrow> bufs ! j = rx_buf_zero"
    and "psz < 8192" and "rx_buf_size \<in> {2048, 4096}"
  shows "rx_inv \<lparr>rs_bufs = bufs', rs_posted = {..<i + k}, rs_world = w', rs_mapped = m\<rparr>"
  using assms(1-4)
proof (induction k arbitrary: i bufs w)
  case 0
  then show ?case by simp
next
  case (Suc k)
  obtain b w1 where a: "rx_buf_alloc psz xdp rx_buf_size (kern i) rx_buf_zero w = (None, b, w1)"
    and l: "rx_buf_alloc_loop psz xdp rx_buf_size kern (Suc i) k (bufs[i := b]) w1 = (None, bufs', w')"
    using Suc.prems(1,3,4) by (auto split: prod.splits option.splits)
  let ?s = "\<lparr>rs_bufs = bufs, rs_posted = {..<i}, rs_world = w, rs_mapped = m\<rparr>"
  have "i < length (rs_bufs ?s)" "bufs ! i = rx_buf_zero" using Suc.prems(3,4) by auto
  note u = rx_buf_alloc_linv [OF rx_inv_linv(1) [OF Suc.prems(2) this(1), simplified this(2) rx_state.simps] assms(5,6) a]
  have "rx_inv \<lparr>rs_bufs = (rs_bufs ?s)[i := b], rs_posted = {..<Suc i}, rs_world = w1, rs_mapped = m\<rparr>"
    using u \<open>i < length (rs_bufs ?s)\<close> by (intro rx_inv_update [OF Suc.prems(2)]) auto
  from Suc.IH [OF l] this Suc.prems(3,4) show ?case by simp
qed

lemma rx_bufs_alloc_inv:
  assumes "rx_buf_alloc_loop psz xdp rx_buf_size kern 0 (n - 1) (replicate n rx_buf_zero) w = (None, bufs, w')" and "stack_frags w = {#}"
    and "psz < 8192" and "rx_buf_size \<in> {2048, 4096}"
  shows "rx_inv \<lparr>rs_bufs = bufs, rs_posted = {..<n - 1}, rs_world = w', rs_mapped = m\<rparr>"
proof -
  have "bufs_own (replicate n rx_buf_zero) p = 0" "bufs_occ (replicate n rx_buf_zero) p = 0" if "p \<noteq> NULL" for p
    using that by (auto simp: bufs_own_def bufs_occ_def sum_list_eq_0_iff rx_buf_zero_ok)
  then have "rx_inv \<lparr>rs_bufs = replicate n rx_buf_zero, rs_posted = {..<0}, rs_world = w, rs_mapped = m\<rparr>"
    using assms(2) by (auto simp: rx_inv_def counts_ok_def rx_buf_zero_ok buf_safe_def refs_def)
  from rx_buf_alloc_loop_inv [OF assms(1) this _ _ assms(3,4)]
  show ?thesis by simp
qed

end
