(* ===== verification/Idpf_Rx_Bufq.thy ===== *)
theory Idpf_Rx_Bufq
  imports Idpf_Rx_Page Idpf_Refill
begin

text \<open>
  Buffer queues of the split queue model (\<open>idpf_txrx.c\<close>): the ring on which the driver offers
  buffers to the device.  At the start all buffers are posted; after that a buffer comes back
  through the refill queue of the receive queue that used it (\<open>idpf_rx_clean_refillq\<close>).

  A queue has its ring of descriptors, its buffers and a log of the writes to its tail register,
  which may be missing (\<open>has_tail\<close>).  AF\_XDP pools are not modelled.
\<close>

section \<open>Model\<close>

record idpf_bufq =
  bq_desc_count :: nat
  bq_next_to_use :: nat
  bq_next_to_alloc :: nat
  bq_descs :: "virtchnl2_splitq_rx_buf_desc list"
  bq_bufs :: "idpf_rx_buf list"
  bq_rx_buf_size :: nat
  bq_rx_buf_stride :: nat
  bq_rx_hsplit_en :: bool
  bq_hdr_buf_pa :: u64
  bq_has_tail :: bool
  bq_tail_log :: "nat list"

definition ALIGN_DOWN :: "nat \<Rightarrow> nat \<Rightarrow> nat" where
  "ALIGN_DOWN x a = x div a * a"

definition IDPF_HDR_BUF_SIZE :: nat where
  "IDPF_HDR_BUF_SIZE = 256"

definition IDPF_RX_BUF_POST_STRIDE :: nat where
  "IDPF_RX_BUF_POST_STRIDE = 16"

definition IDPF_RX_BUFQ_WORKING_SET :: "idpf_bufq \<Rightarrow> nat" where
  "IDPF_RX_BUFQ_WORKING_SET q = bq_desc_count q - 1"

definition idpf_rx_buf_hw_update :: "idpf_bufq \<Rightarrow> nat \<Rightarrow> idpf_bufq" where
  "idpf_rx_buf_hw_update q val =
     (let q = q\<lparr>bq_next_to_use := trunc16 val\<rparr>
      in if \<not> bq_has_tail q then q else q\<lparr>bq_tail_log := bq_tail_log q @ [val]\<rparr>)"

text \<open>Writes the descriptor in slot \<open>i\<close> for buffer \<open>buf_id\<close>.\<close>

definition bufq_write_desc :: "idpf_bufq \<Rightarrow> nat \<Rightarrow> nat \<Rightarrow> idpf_bufq" where
  "bufq_write_desc q i buf_id =
     (let d = (bq_descs q ! i)\<lparr>pkt_addr := rx_pkt_addr (rx_cur (bq_bufs q ! buf_id)), bd_buf_id := of_nat buf_id\<rparr>;
          d = (if bq_rx_hsplit_en q
               then d\<lparr>hdr_addr := bq_hdr_buf_pa q + of_nat buf_id * of_nat IDPF_HDR_BUF_SIZE\<rparr> else d)
      in q\<lparr>bq_descs := (bq_descs q)[i := d]\<rparr>)"

definition bufq_bump :: "idpf_bufq \<Rightarrow> nat \<Rightarrow> nat" where
  "bufq_bump q nta = (if Suc nta = bq_desc_count q then 0 else Suc nta)"

definition idpf_rx_post_buf_desc :: "idpf_bufq \<Rightarrow> nat \<Rightarrow> idpf_bufq" where
  "idpf_rx_post_buf_desc q buf_id =
     (let nta = bq_next_to_alloc q
      in (bufq_write_desc q nta buf_id)\<lparr>bq_next_to_alloc := bufq_bump q nta\<rparr>)"

definition idpf_rx_post_init_bufs :: "idpf_bufq \<Rightarrow> nat \<Rightarrow> idpf_bufq" where
  "idpf_rx_post_init_bufs q working_set =
     (let q = foldl idpf_rx_post_buf_desc q [0..<working_set]
      in idpf_rx_buf_hw_update q (ALIGN_DOWN (bq_next_to_alloc q) (bq_rx_buf_stride q)))"

definition idpf_rx_buf_alloc_all ::
  "nat \<Rightarrow> bool \<Rightarrow> (nat \<Rightarrow> page_kern \<times> page_kern) \<Rightarrow> idpf_bufq \<Rightarrow> page_world \<Rightarrow> ret \<times> idpf_bufq \<times> page_world" where
  "idpf_rx_buf_alloc_all psz xdp kern q w =
     (case rx_buf_alloc_loop psz xdp (bq_rx_buf_size q) kern 0 (bq_desc_count q - 1) (bq_bufs q) w of
        (Some e, bufs, w) \<Rightarrow> (Some e, q\<lparr>bq_bufs := bufs\<rparr>, w)
      | (None, bufs, w) \<Rightarrow> (ret_ok, idpf_rx_post_init_bufs (q\<lparr>bq_bufs := bufs\<rparr>) (IDPF_RX_BUFQ_WORKING_SET q), w))"

text \<open>\<open>arr_ok\<close> answers \<open>kcalloc\<close>, \<open>hdr\<close> the allocation of the header buffers.\<close>

definition idpf_rx_bufs_init ::
  "nat \<Rightarrow> bool \<Rightarrow> bool \<Rightarrow> u64 option \<Rightarrow> (nat \<Rightarrow> page_kern \<times> page_kern) \<Rightarrow> idpf_bufq \<Rightarrow> page_world
    \<Rightarrow> ret \<times> idpf_bufq \<times> page_world" where
  "idpf_rx_bufs_init psz xdp arr_ok hdr kern q w =
     (if \<not> arr_ok then (Some ENOMEM, q\<lparr>bq_bufs := []\<rparr>, w)
      else
        let q = q\<lparr>bq_bufs := replicate (bq_desc_count q) rx_buf_zero\<rparr> in
        if bq_rx_hsplit_en q
        then case hdr of None \<Rightarrow> (Some ENOMEM, q, w)
          | Some pa \<Rightarrow> idpf_rx_buf_alloc_all psz xdp kern (q\<lparr>bq_hdr_buf_pa := pa\<rparr>) w
        else idpf_rx_buf_alloc_all psz xdp kern q w)"

section \<open>Refill\<close>

definition idpf_rx_update_bufq_desc ::
  "page_kern \<Rightarrow> u32 \<Rightarrow> nat \<Rightarrow> idpf_bufq \<Rightarrow> page_world \<Rightarrow> ret \<times> idpf_bufq \<times> page_world" where
  "idpf_rx_update_bufq_desc kern rd i q w =
     (let buf_id = unat (refill_buf_id rd) in
      case rx_refill_page kern (bq_bufs q ! buf_id) w of
        (Some e, b, w) \<Rightarrow> (Some ENOMEM, q\<lparr>bq_bufs := (bq_bufs q)[buf_id := b]\<rparr>, w)
      | (None, b, w) \<Rightarrow> (ret_ok, bufq_write_desc (q\<lparr>bq_bufs := (bq_bufs q)[buf_id := b]\<rparr>) i buf_id, w))"

text \<open>
  The loop of \<open>idpf_rx_clean_refillq\<close> with what is left of its bound; \<open>nta\<close> is the local index and
  \<open>cleaned\<close> the number of buffers so far.  The index of the refill queue is written back at the end
  in the code, which nobody else reads meanwhile.
\<close>

primrec clean_refillq_loop ::
  "(nat \<Rightarrow> page_kern) \<Rightarrow> nat \<Rightarrow> nat \<Rightarrow> nat \<Rightarrow> idpf_bufq \<Rightarrow> idpf_sw_queue \<Rightarrow> page_world
    \<Rightarrow> nat \<times> nat \<times> idpf_bufq \<times> idpf_sw_queue \<times> page_world" where
  "clean_refillq_loop kern 0 cleaned nta q r w = (cleaned, nta, q, r, w)"
| "clean_refillq_loop kern (Suc n) cleaned nta q r w =
     (let d = rfl_ring r ! rfl_next_to_clean r in
      if rfl_RFL_GEN_CHK r \<noteq> refill_gen d then (cleaned, nta, q, r, w)
      else case idpf_rx_update_bufq_desc (kern cleaned) d nta q w of
        (Some e, q, w) \<Rightarrow> (cleaned, nta, q, r, w)
      | (None, q, w) \<Rightarrow>
          clean_refillq_loop kern n (Suc cleaned) (bufq_bump q nta) q (refill_bump_ntc r) w)"

definition bufq_lag :: "idpf_bufq \<Rightarrow> nat \<Rightarrow> nat" where
  "bufq_lag q nta = (if bq_next_to_use q \<le> nta then 0 else bq_desc_count q) + nta - bq_next_to_use q"

definition idpf_rx_clean_refillq ::
  "(nat \<Rightarrow> page_kern) \<Rightarrow> idpf_bufq \<Rightarrow> idpf_sw_queue \<Rightarrow> page_world \<Rightarrow> idpf_bufq \<times> idpf_sw_queue \<times> page_world" where
  "idpf_rx_clean_refillq kern q r w =
     (case clean_refillq_loop kern (rfl_desc_count r) 0 (bq_next_to_alloc q) q r w of
        (cleaned, nta, q, r, w) \<Rightarrow>
          if cleaned = 0 then (q, r, w)
          else
            let q = (if bufq_lag q nta \<ge> IDPF_RX_BUF_POST_STRIDE
                     then idpf_rx_buf_hw_update q (ALIGN_DOWN nta IDPF_RX_BUF_POST_STRIDE) else q)
            in (q\<lparr>bq_next_to_alloc := nta\<rparr>, r, w))"

text \<open>The refill queues of a buffer queue one after the other; \<open>kern i\<close> answers for queue \<open>i\<close>.\<close>

primrec clean_refillq_list ::
  "(nat \<Rightarrow> nat \<Rightarrow> page_kern) \<Rightarrow> nat \<Rightarrow> idpf_sw_queue list \<Rightarrow> idpf_bufq \<Rightarrow> page_world
    \<Rightarrow> idpf_bufq \<times> idpf_sw_queue list \<times> page_world" where
  "clean_refillq_list kern i [] q w = (q, [], w)"
| "clean_refillq_list kern i (r # rs) q w =
     (case idpf_rx_clean_refillq (kern i) q r w of (q, r', w) \<Rightarrow>
      case clean_refillq_list kern (Suc i) rs q w of (q, rs', w) \<Rightarrow> (q, r' # rs', w))"

definition idpf_rx_clean_refillq_all ::
  "(nat \<Rightarrow> nat \<Rightarrow> page_kern) \<Rightarrow> idpf_bufq \<Rightarrow> idpf_sw_queue list \<Rightarrow> page_world
    \<Rightarrow> idpf_bufq \<times> idpf_sw_queue list \<times> page_world" where
  "idpf_rx_clean_refillq_all kern q rs w = clean_refillq_list kern 0 rs q w"

end
