(* ===== verification/Idpf_Rx_Refill.thy ===== *)
theory Idpf_Rx_Refill
  imports Idpf_Rx_Bufq
begin

text \<open>
  Draining a refill queue into a buffer queue: the ids that were waiting are posted in order, one
  slot each, up to the first buffer for which there is no page; the rest stays in the refill queue.
\<close>

section \<open>One buffer\<close>

lemma bufq_write_desc_fields [simp]:
  "bq_desc_count (bufq_write_desc q i b) = bq_desc_count q"
  "bq_next_to_use (bufq_write_desc q i b) = bq_next_to_use q"
  "bq_next_to_alloc (bufq_write_desc q i b) = bq_next_to_alloc q"
  "bq_bufs (bufq_write_desc q i b) = bq_bufs q"
  "length (bq_descs (bufq_write_desc q i b)) = length (bq_descs q)"
  "bq_has_tail (bufq_write_desc q i b) = bq_has_tail q"
  "bq_tail_log (bufq_write_desc q i b) = bq_tail_log q"
  by (simp_all add: bufq_write_desc_def Let_def)

lemma bufq_write_desc_nth:
  "i < length (bq_descs q) \<Longrightarrow> bd_buf_id (bq_descs (bufq_write_desc q i b) ! i) = of_nat b"
  "i < length (bq_descs q) \<Longrightarrow> pkt_addr (bq_descs (bufq_write_desc q i b) ! i) = rx_pkt_addr (rx_cur (bq_bufs q ! b))"
  "j \<noteq> i \<Longrightarrow> bq_descs (bufq_write_desc q i b) ! j = bq_descs q ! j"
  by (simp_all add: bufq_write_desc_def Let_def)

text \<open>What a slot offers to the device: an id and the address of that buffer, which has a page.\<close>

definition posted_at :: "idpf_bufq \<Rightarrow> nat \<Rightarrow> nat \<Rightarrow> bool" where
  "posted_at q i b \<longleftrightarrow> bd_buf_id (bq_descs q ! i) = of_nat b \<and>
     pkt_addr (bq_descs q ! i) = rx_pkt_addr (rx_cur (bq_bufs q ! b)) \<and>
     pi_page (rx_cur (bq_bufs q ! b)) \<noteq> NULL"

definition bufs_shaped :: "idpf_rx_buf list \<Rightarrow> bool" where
  "bufs_shaped bs \<longleftrightarrow> (\<forall>b \<in> set bs. page_indx b < length (page_info b))"

lemma rx_refill_page_cases:
  assumes "rx_refill_page kern b w = (r, b', w')" and "page_indx b < length (page_info b)"
  shows "page_indx b' < length (page_info b') \<and> (pi_page (rx_cur b) \<noteq> NULL \<longrightarrow> b' = b \<and> r = ret_ok) \<and>
    (r = ret_ok \<longrightarrow> pi_page (rx_cur b') \<noteq> NULL) \<and>
    (r \<noteq> ret_ok \<longrightarrow> pi_page (rx_cur b') = NULL \<or> snd kern = None)"
  using assms
  by (auto simp: rx_refill_page_def idpf_alloc_page_def rx_cur_upd_def rx_cur_def split: if_splits prod.splits option.splits)

text \<open>One step of the loop, whatever the outcome; \<open>Q\<close> are the descriptors and buffers before it.\<close>

lemma update_bufq_desc_step:
  assumes eq: "idpf_rx_update_bufq_desc kern d i q w = (r, q', w')" and i: "i < length (bq_descs q)"
    and sh: "bufs_shaped (bq_bufs q)" and id: "unat (refill_buf_id d) < length (bq_bufs q)"
  shows "bq_desc_count q' = bq_desc_count q \<and> bq_next_to_use q' = bq_next_to_use q \<and> bq_next_to_alloc q' = bq_next_to_alloc q \<and>
    bq_has_tail q' = bq_has_tail q \<and> bq_tail_log q' = bq_tail_log q \<and>
    length (bq_descs q') = length (bq_descs q) \<and> length (bq_bufs q') = length (bq_bufs q) \<and> bufs_shaped (bq_bufs q') \<and>
    (\<forall>j. j \<noteq> i \<longrightarrow> bq_descs q' ! j = bq_descs q ! j) \<and>
    (\<forall>j b. j \<noteq> i \<or> r \<noteq> ret_ok \<longrightarrow> b < length (bq_bufs q) \<longrightarrow> posted_at q j b \<longrightarrow> posted_at q' j b) \<and>
    (r = ret_ok \<longrightarrow> posted_at q' i (unat (refill_buf_id d))) \<and>
    (r \<noteq> ret_ok \<longrightarrow> bq_descs q' = bq_descs q \<and>
       (pi_page (rx_cur (bq_bufs q' ! unat (refill_buf_id d))) = NULL \<or> snd kern = None))"
proof -
  let ?id = "unat (refill_buf_id d)"
  obtain r1 b' w1 where p: "rx_refill_page kern (bq_bufs q ! ?id) w = (r1, b', w1)" by (metis prod_cases3)
  have sh1: "page_indx (bq_bufs q ! ?id) < length (page_info (bq_bufs q ! ?id))"
    using sh id by (simp add: bufs_shaped_def)
  note c = rx_refill_page_cases [OF p sh1]
  let ?q = "q\<lparr>bq_bufs := (bq_bufs q)[?id := b']\<rparr>"
  have q': "q' = (if r = ret_ok then bufq_write_desc ?q i ?id else ?q)" and r: "r = ret_ok \<longleftrightarrow> r1 = ret_ok"
    using eq p by (auto simp: idpf_rx_update_bufq_desc_def Let_def split: option.splits)
  have bufs: "bq_bufs q' = (bq_bufs q)[?id := b']" by (simp add: q')
  have "bufs_shaped (bq_bufs q')"
    using sh c unfolding bufs bufs_shaped_def by (auto dest!: set_update_subset_insert [THEN subsetD])
  moreover have "posted_at q' j b" if "j \<noteq> i \<or> r \<noteq> ret_ok" "b < length (bq_bufs q)" "posted_at q j b" for j b
  proof -
    have "bq_bufs q' ! b = bq_bufs q ! b"
      using that c by (cases "b = ?id") (auto simp: bufs posted_at_def)
    then show ?thesis using that by (auto simp: posted_at_def q' bufq_write_desc_nth)
  qed
  moreover have "posted_at q' i ?id" if "r = ret_ok"
    using that r c i id by (simp add: posted_at_def q' bufq_write_desc_nth)
  ultimately show ?thesis
    using c r id by (auto simp: q' bufq_write_desc_nth)
qed

section \<open>The loop\<close>

lemma bufq_bump_mod: "i < bq_desc_count q \<Longrightarrow> bufq_bump q i = Suc i mod bq_desc_count q"
  by (auto simp: bufq_bump_def)

text \<open>
  The first \<open>k\<close> ids went to the \<open>k\<close> slots from \<open>nta\<close> on; the others wait, the first of them because
  there was no page for it.
\<close>

definition drained :: "(nat \<Rightarrow> page_kern) \<Rightarrow> nat \<Rightarrow> nat \<Rightarrow> nat \<Rightarrow> idpf_bufq \<Rightarrow> idpf_sw_queue \<Rightarrow> idpf_bufq \<Rightarrow> idpf_sw_queue \<Rightarrow> bool" where
  "drained kern c0 nta k q r q' r' \<longleftrightarrow>
     refill_ok r' \<and> rfl_desc_count r' = rfl_desc_count r \<and> refill_ids r' = drop k (refill_ids r) \<and>
     bq_desc_count q' = bq_desc_count q \<and> bq_next_to_use q' = bq_next_to_use q \<and> bq_next_to_alloc q' = bq_next_to_alloc q \<and>
     bq_has_tail q' = bq_has_tail q \<and> bq_tail_log q' = bq_tail_log q \<and>
     length (bq_descs q') = length (bq_descs q) \<and> length (bq_bufs q') = length (bq_bufs q) \<and>
     (\<forall>j < k. posted_at q' ((nta + j) mod bq_desc_count q) (unat (refill_ids r ! j))) \<and>
     (\<forall>i. i \<notin> set (ring_seg (bq_desc_count q) nta k) \<longrightarrow> bq_descs q' ! i = bq_descs q ! i) \<and>
     (\<forall>i b. i \<notin> set (ring_seg (bq_desc_count q) nta k) \<longrightarrow> b < length (bq_bufs q) \<longrightarrow> posted_at q i b \<longrightarrow> posted_at q' i b) \<and>
     (k < length (refill_ids r) \<longrightarrow>
        pi_page (rx_cur (bq_bufs q' ! unat (refill_ids r ! k))) = NULL \<or> snd (kern (c0 + k)) = None)"

lemma clean_refillq_loop_drained:
  assumes "clean_refillq_loop kern n c0 nta q r w = (c, nta', q', r', w')"
    and "refill_ok r" and "length (refill_ids r) \<le> n" and "n \<le> bq_desc_count q"
    and "length (bq_descs q) = bq_desc_count q" and "nta < bq_desc_count q"
    and "bufs_shaped (bq_bufs q)" and "\<forall>x \<in> set (refill_ids r). unat x < length (bq_bufs q)"
  shows "\<exists>k \<le> length (refill_ids r). c = c0 + k \<and> nta' = (nta + k) mod bq_desc_count q \<and> drained kern c0 nta k q r q' r'"
  using assms
proof (induction n arbitrary: c0 nta q r w)
  case 0
  then show ?case by (auto simp: drained_def ring_seg_def refill_ids_Nil)
next
  case (Suc n)
  let ?d = "rfl_ring r ! rfl_next_to_clean r" and ?N = "bq_desc_count q"
  show ?case
  proof (cases "refill_ids r")
    case Nil
    then have "rfl_RFL_GEN_CHK r \<noteq> refill_gen ?d"
      using Suc.prems(2) refill_gen_clean [of r] refill_ids_Nil [of r] by auto
    then show ?thesis using Suc.prems Nil by (intro exI [of _ 0]) (auto simp: drained_def ring_seg_def)
  next
    case (Cons x xs)
    have used: "refill_used r \<noteq> 0" using Cons refill_ids_Nil [of r] by auto
    have gen: "rfl_RFL_GEN_CHK r = refill_gen ?d" and x: "x = refill_buf_id ?d"
      and r1: "refill_ok (refill_bump_ntc r)" "refill_ids (refill_bump_ntc r) = xs"
      using Suc.prems(2) used Cons refill_gen_clean [of r] refill_ids_bump [of r] refill_bump(1) [of r] by auto
    obtain e q1 w1 where u: "idpf_rx_update_bufq_desc (kern c0) ?d nta q w = (e, q1, w1)" by (metis prod_cases3)
    have id: "unat (refill_buf_id ?d) < length (bq_bufs q)" using Suc.prems(8) Cons x by auto
    have nta: "nta < length (bq_descs q)" using Suc.prems(5,6) by simp
    note s = update_bufq_desc_step [OF u nta Suc.prems(7) id]
    show ?thesis
    proof (cases e)
      case (Some err)
      then have "c = c0" "nta' = nta" "q' = q1" "r' = r"
        using Suc.prems(1) gen u by auto
      then show ?thesis
        using s Some Suc.prems(2,6) Cons x by (intro exI [of _ 0]) (auto simp: drained_def ring_seg_def)
    next
      case None
      have l: "clean_refillq_loop kern n (Suc c0) (Suc nta mod ?N) q1 (refill_bump_ntc r) w1 = (c, nta', q', r', w')"
        using Suc.prems(1,6) gen u None s by (simp add: bufq_bump_mod)
      have "\<exists>k \<le> length xs. c = Suc c0 + k \<and> nta' = (Suc nta mod ?N + k) mod ?N \<and>
          drained kern (Suc c0) (Suc nta mod ?N) k q1 (refill_bump_ntc r) q' r'"
        using Suc.IH [OF l r1(1)] r1(2) s Suc.prems(3-6,8) Cons by auto
      then obtain k where k: "k \<le> length xs" "c = Suc c0 + k" "nta' = (Suc nta mod ?N + k) mod ?N"
        "drained kern (Suc c0) (Suc nta mod ?N) k q1 (refill_bump_ntc r) q' r'" by blast
      have N: "bq_desc_count q1 = ?N" using s by simp
      have seg: "ring_seg ?N nta (Suc k) = nta # ring_seg ?N (Suc nta mod ?N) k"
        using Suc.prems(6) by (simp add: ring_seg_Cons)
      have "k < ?N" using k(1) Suc.prems(3,4) Cons by simp
      then have out: "nta \<notin> set (ring_seg ?N (Suc nta mod ?N) k)"
        using Suc.prems(6) distinct_ring_seg [of nta ?N "Suc k"] by (simp add: seg)
      have "drained kern c0 nta (Suc k) q r q' r'"
        unfolding drained_def
      proof (intro conjI allI impI)
        fix j assume "j < Suc k"
        then show "posted_at q' ((nta + j) mod ?N) (unat (refill_ids r ! j))"
          using k(4) s None out Suc.prems(6) id x Cons r1(2)
          by (cases j) (auto simp: drained_def N mod_simps)
      qed (use k(4) s None r1(2) Cons out in \<open>auto simp: drained_def N seg\<close>)
      then show ?thesis
        using k Cons by (intro exI [of _ "Suc k"]) (simp add: mod_simps)
    qed
  qed
qed

section \<open>The tail register\<close>

text \<open>The device is told of all buffers but the last few: fewer than the stride wait for the next write.\<close>

lemma bufq_lag_dist: "bq_next_to_use q < bq_desc_count q \<Longrightarrow> nta < bq_desc_count q \<Longrightarrow>
    bufq_lag q nta = ring_dist (bq_desc_count q) (bq_next_to_use q) nta"
  by (auto simp: bufq_lag_def ring_dist_def)

lemma hw_update_fields [simp]:
  "bq_descs (idpf_rx_buf_hw_update q v) = bq_descs q" "bq_bufs (idpf_rx_buf_hw_update q v) = bq_bufs q"
  "bq_desc_count (idpf_rx_buf_hw_update q v) = bq_desc_count q"
  "bq_next_to_use (idpf_rx_buf_hw_update q v) = trunc16 v"
  by (simp_all add: idpf_rx_buf_hw_update_def Let_def)

lemma posted_at_hw_update [simp]: "posted_at (idpf_rx_buf_hw_update q v) i b = posted_at q i b"
  by (simp add: posted_at_def)

lemma posted_at_nta [simp]: "posted_at (q\<lparr>bq_next_to_alloc := n\<rparr>) i b = posted_at q i b"
  by (simp add: posted_at_def)

definition bufq_ok :: "idpf_bufq \<Rightarrow> bool" where
  "bufq_ok q \<longleftrightarrow> bq_desc_count q \<le> 65536 \<and> length (bq_descs q) = bq_desc_count q \<and>
     bq_next_to_alloc q < bq_desc_count q \<and> bq_next_to_use q < bq_desc_count q \<and> bufs_shaped (bq_bufs q)"

lemma tail_lag:
  assumes "bq_desc_count q \<le> 65536" "bq_next_to_use q < bq_desc_count q" "nta < bq_desc_count q"
    and q': "q' = (if bufq_lag q nta \<ge> 16 then idpf_rx_buf_hw_update q (ALIGN_DOWN nta 16) else q)"
  shows "bq_next_to_use q' < bq_desc_count q \<and> ring_dist (bq_desc_count q) (bq_next_to_use q') nta < 16"
proof (cases "bufq_lag q nta \<ge> 16")
  case True
  have "ALIGN_DOWN nta 16 \<le> nta" "nta - ALIGN_DOWN nta 16 < 16"
    by (simp_all add: ALIGN_DOWN_def minus_div_mult_eq_mod)
  moreover have "trunc16 (ALIGN_DOWN nta 16) = ALIGN_DOWN nta 16"
    using assms(1,3) calculation(1) by (intro trunc16_id) auto
  ultimately show ?thesis using assms(3) True by (simp add: q' ring_dist_def)
next
  case False
  then show ?thesis using assms bufq_lag_dist [of q nta] by auto
qed

lemma idpf_rx_clean_refillq_spec:
  assumes eq: "idpf_rx_clean_refillq kern q r w = (q', r', w')" and q: "bufq_ok q" and r: "refill_ok r"
    and n: "rfl_desc_count r \<le> bq_desc_count q" and ids: "\<forall>x \<in> set (refill_ids r). unat x < length (bq_bufs q)"
  shows "\<exists>k \<le> length (refill_ids r). refill_ok r' \<and> refill_ids r' = drop k (refill_ids r) \<and>
    bq_next_to_alloc q' = (bq_next_to_alloc q + k) mod bq_desc_count q \<and>
    (\<forall>j < k. posted_at q' ((bq_next_to_alloc q + j) mod bq_desc_count q) (unat (refill_ids r ! j))) \<and>
    (\<forall>i. i \<notin> set (ring_seg (bq_desc_count q) (bq_next_to_alloc q) k) \<longrightarrow> bq_descs q' ! i = bq_descs q ! i) \<and>
    (k < length (refill_ids r) \<longrightarrow>
       pi_page (rx_cur (bq_bufs q' ! unat (refill_ids r ! k))) = NULL \<or> snd (kern k) = None) \<and>
    (k \<noteq> 0 \<longrightarrow> ring_dist (bq_desc_count q) (bq_next_to_use q') (bq_next_to_alloc q') < IDPF_RX_BUF_POST_STRIDE)"
proof -
  obtain c nta q1 r1 w1 where l: "clean_refillq_loop kern (rfl_desc_count r) 0 (bq_next_to_alloc q) q r w = (c, nta, q1, r1, w1)"
    by (metis prod_cases5)
  have "length (refill_ids r) \<le> rfl_desc_count r" using refill_used_le [OF r] by simp
  from clean_refillq_loop_drained [OF l r this n _ _ _ ids] q
  obtain k where k: "k \<le> length (refill_ids r)" "c = k" "nta = (bq_next_to_alloc q + k) mod bq_desc_count q"
    and d: "drained kern 0 (bq_next_to_alloc q) k q r q1 r1" by (auto simp: bufq_ok_def)
  have nta: "nta < bq_desc_count q" using k(3) q by (auto simp: bufq_ok_def)
  have r': "r' = r1" using eq l by (auto simp: idpf_rx_clean_refillq_def Let_def split: if_splits)
  show ?thesis
  proof (cases "k = 0")
    case True
    then have "q' = q1" using eq l k by (auto simp: idpf_rx_clean_refillq_def)
    then show ?thesis
      using d k True r' q eq l by (intro exI [of _ k]) (auto simp: drained_def idpf_rx_clean_refillq_def bufq_ok_def)
  next
    case False
    let ?q2 = "if bufq_lag q1 nta \<ge> 16 then idpf_rx_buf_hw_update q1 (ALIGN_DOWN nta 16) else q1"
    have q': "q' = ?q2\<lparr>bq_next_to_alloc := nta\<rparr>"
      using eq l k False by (auto simp: idpf_rx_clean_refillq_def Let_def IDPF_RX_BUF_POST_STRIDE_def)
    have "ring_dist (bq_desc_count q) (bq_next_to_use q') nta < 16"
      using tail_lag [of q1 nta ?q2] d q nta by (auto simp: drained_def bufq_ok_def q')
    then show ?thesis
      using d k r' by (intro exI [of _ k]) (auto simp: drained_def q' IDPF_RX_BUF_POST_STRIDE_def)
  qed
qed

end
