(* ===== verification/Idpf_Rx.thy ===== *)
theory Idpf_Rx
  imports Idpf_Rx_Page Idpf_Refill
begin

text \<open>
  The receive loop of the split queue model (\<open>idpf_rx_splitq_clean\<close>, \<open>idpf_txrx.c\<close>): from the
  descriptors the device writes back to packets for the network stack.  Each descriptor names a
  buffer queue and a buffer; the buffer becomes part of the packet, is recycled, and its id goes to
  the refill queue of that buffer queue.

  Modelled without an XDP program (\<open>xdpq\<close> is \<open>NULL\<close>) and without AF\_XDP.  A delivered packet
  carries the pieces it is made of and what the code stores in it from the descriptor: hash,
  checksum status, coalescing, timestamp, VLAN tag.  \<open>None\<close> as a result is a call that does not
  return: a refill queue that does not exist or a buffer id beyond the array.
\<close>

section \<open>Descriptors\<close>

record virtchnl2_rx_flex_desc_adv_nic_3 =
  rxdid_ucast :: u8
  status_err0_qw0 :: u8
  ptype_err_fflags0 :: u16
  pktlen_gen_bufq_id :: u16
  hdrlen_flags :: u16
  status_err0_qw1 :: u8
  ts_low :: u8
  rx_buf_id :: u16
  rx_misc :: u16
  hash1 :: u16
  hash2 :: u8
  hash3 :: u8
  l2tag1 :: u16
  ts_high :: u32

type_synonym rx_desc = virtchnl2_rx_flex_desc_adv_nic_3

definition rxd_gen :: "rx_desc \<Rightarrow> bool" where
  "rxd_gen d = bit (pktlen_gen_bufq_id d) 14"

definition rxd_bufq_id :: "rx_desc \<Rightarrow> nat" where
  "rxd_bufq_id d = of_bool (bit (pktlen_gen_bufq_id d) 15)"

definition rxd_pkt_len :: "rx_desc \<Rightarrow> nat" where
  "rxd_pkt_len d = unat (pktlen_gen_bufq_id d AND mask 14)"

definition rxd_rxdid :: "rx_desc \<Rightarrow> nat" where
  "rxd_rxdid d = unat (rxdid_ucast d AND mask 4)"

definition rxd_hbo :: "rx_desc \<Rightarrow> bool" where
  "rxd_hbo d = bit (status_err0_qw1 d) 2"

definition rxd_hdr_len :: "rx_desc \<Rightarrow> nat" where
  "rxd_hdr_len d = (if rxd_hbo d then 0 else unat (hdrlen_flags d AND mask 10))"

definition idpf_rx_splitq_is_eop :: "rx_desc \<Rightarrow> bool" where
  "idpf_rx_splitq_is_eop d = bit (status_err0_qw1 d) 1"

definition idpf_get_vlan_tci :: "rx_desc \<Rightarrow> u16" where
  "idpf_get_vlan_tci d = (if bit (status_err0_qw0 d) 5 then l2tag1 d else 0)"

section \<open>What the descriptor says about the packet\<close>

record idpf_rx_ptype_decoded =
  dec_known :: bool
  dec_outer_ip :: nat
  dec_outer_ip_ver :: nat
  dec_inner_prot :: nat
  dec_payload_layer :: nat

datatype pkt_hash_types = PKT_HASH_TYPE_NONE | PKT_HASH_TYPE_L2 | PKT_HASH_TYPE_L3 | PKT_HASH_TYPE_L4

definition idpf_ptype_to_htype :: "idpf_rx_ptype_decoded \<Rightarrow> pkt_hash_types" where
  "idpf_ptype_to_htype dec =
     (if \<not> dec_known dec then PKT_HASH_TYPE_NONE
      else if dec_payload_layer dec = 1 \<and> dec_inner_prot dec \<noteq> 0 then PKT_HASH_TYPE_L4
      else if dec_payload_layer dec = 1 \<and> dec_outer_ip dec \<noteq> 0 then PKT_HASH_TYPE_L3
      else if dec_outer_ip dec = 0 then PKT_HASH_TYPE_L2
      else PKT_HASH_TYPE_NONE)"

definition IDPF_RX_PTYPE_TO_IPV :: "idpf_rx_ptype_decoded \<Rightarrow> nat \<Rightarrow> bool" where
  "IDPF_RX_PTYPE_TO_IPV dec ipv \<longleftrightarrow> dec_outer_ip dec = 1 \<and> dec_outer_ip_ver dec = ipv"

record idpf_rx_csum_decoded =
  cs_l3l4p :: bool
  cs_ipe :: bool
  cs_eipe :: bool
  cs_ipv6exadd :: bool
  cs_l4e :: bool
  cs_raw_csum_inv :: bool
  cs_raw_csum :: u16

definition idpf_rx_splitq_extract_csum_bits :: "rx_desc \<Rightarrow> idpf_rx_csum_decoded" where
  "idpf_rx_splitq_extract_csum_bits d =
     \<lparr>cs_l3l4p = bit (status_err0_qw1 d) 3, cs_ipe = bit (status_err0_qw1 d) 4,
      cs_eipe = bit (status_err0_qw1 d) 6, cs_ipv6exadd = bit (status_err0_qw0 d) 1,
      cs_l4e = bit (status_err0_qw1 d) 5, cs_raw_csum_inv = bit (ptype_err_fflags0 d) 12,
      cs_raw_csum = rx_misc d\<rparr>"

text \<open>\<open>CHECKSUM_COMPLETE\<close> carries the sum; \<open>csum_err\<close> counts a checksum error of the device.\<close>

datatype rx_csum = CSUM_NONE | CSUM_UNNECESSARY | CSUM_COMPLETE u16 | CSUM_ERR

definition swab16 :: "u16 \<Rightarrow> u16" where
  "swab16 x = push_bit 8 x OR drop_bit 8 x"

text \<open>
  \<open>rxcsum\<close>: the feature is on; \<open>simics\<close>: the simulated device, for which a raw checksum counts as
  \<open>CHECKSUM_UNNECESSARY\<close>; \<open>vlan\<close>: the packet has a VLAN header (\<open>eth_type_vlan\<close>).
\<close>

definition idpf_rx_csum ::
  "bool \<Rightarrow> bool \<Rightarrow> bool \<Rightarrow> idpf_rx_csum_decoded \<Rightarrow> idpf_rx_ptype_decoded \<Rightarrow> rx_csum" where
  "idpf_rx_csum rxcsum simics vlan cs dec =
     (if \<not> rxcsum then CSUM_NONE
      else if \<not> cs_l3l4p cs then CSUM_NONE
      else if IDPF_RX_PTYPE_TO_IPV dec 1 \<and> (cs_ipe cs \<or> cs_eipe cs) then CSUM_ERR
      else if IDPF_RX_PTYPE_TO_IPV dec 2 \<and> cs_ipv6exadd cs then CSUM_NONE
      else if vlan then CSUM_NONE
      else if cs_l4e cs then CSUM_ERR
      else if dec_inner_prot dec \<in> {4, 2, 1} then
        if \<not> cs_raw_csum_inv cs
        then if simics then CSUM_UNNECESSARY else CSUM_COMPLETE (NOT (swab16 (cs_raw_csum cs)))
        else CSUM_UNNECESSARY
      else if dec_inner_prot dec = 3 then CSUM_UNNECESSARY
      else CSUM_NONE)"

text \<open>Segments and segment length of a coalesced packet, or \<open>None\<close> for a packet of one segment.\<close>

definition pieces_data_len :: "rx_piece list \<Rightarrow> nat" where
  "pieces_data_len s = sum_list (map (\<lambda>x. case x of PageFrag p off n \<Rightarrow> n | _ \<Rightarrow> 0) s)"

definition idpf_rx_rsc ::
  "rx_desc \<Rightarrow> idpf_rx_ptype_decoded \<Rightarrow> rx_piece list \<Rightarrow> errno + (nat \<times> nat) option" where
  "idpf_rx_rsc d dec skb =
     (let rsc_seg_len = unat (rx_misc d) in
      if dec_outer_ip dec = 0 then Inl EINVAL
      else if rsc_seg_len = 0 then Inl EINVAL
      else if IDPF_RX_PTYPE_TO_IPV dec 1 = IDPF_RX_PTYPE_TO_IPV dec 2 then Inl EINVAL
      else let segs = trunc16 ((pieces_data_len skb + rsc_seg_len - 1) div rsc_seg_len)
           in if segs = 1 then Inr None else Inr (Some (segs, rsc_seg_len)))"

text \<open>A 32 bit time of the device extended by the cached clock (\<open>idpf_ptp.h\<close>).\<close>

definition idpf_ptp_tstamp_extend_32b_to_64b :: "u64 \<Rightarrow> u32 \<Rightarrow> u64" where
  "idpf_ptp_tstamp_extend_32b_to_64b cached_phc_time in_timestamp =
     (let phc_time_lo = ucast cached_phc_time :: u32; delta = in_timestamp - phc_time_lo in
      if delta > 2147483647 then cached_phc_time - ucast (phc_time_lo - in_timestamp)
      else cached_phc_time + ucast delta)"

record rx_meta =
  meta_hash :: "(u32 \<times> pkt_hash_types) option"
  meta_tstamp :: "u64 option"
  meta_rsc :: "(nat \<times> nat) option"
  meta_csum :: rx_csum

definition rx_no_meta :: rx_meta where
  "rx_no_meta = \<lparr>meta_hash = None, meta_tstamp = None, meta_rsc = None, meta_csum = CSUM_NONE\<rparr>"

record rx_features =
  rf_rxhash :: bool
  rf_rxcsum :: bool
  rf_simics :: bool
  rf_tstmp_en :: bool
  rf_cached_phc_time :: u64
  rf_ptype_lkup :: "nat \<Rightarrow> idpf_rx_ptype_decoded"

definition idpf_rx_hash :: "rx_features \<Rightarrow> rx_desc \<Rightarrow> idpf_rx_ptype_decoded \<Rightarrow> (u32 \<times> pkt_hash_types) option" where
  "idpf_rx_hash rf d dec =
     (if \<not> rf_rxhash rf then None
      else Some (ucast (hash1 d) OR push_bit 16 (ucast (hash2 d)) OR push_bit 24 (ucast (hash3 d)),
                 idpf_ptype_to_htype dec))"

definition idpf_rx_hwtstamp :: "rx_features \<Rightarrow> rx_desc \<Rightarrow> u64 option" where
  "idpf_rx_hwtstamp rf d =
     (if \<not> bit (ts_low d) 0 then None
      else Some (idpf_ptp_tstamp_extend_32b_to_64b (rf_cached_phc_time rf) (ts_high d)))"

definition idpf_rx_process_skb_fields ::
  "rx_features \<Rightarrow> bool \<Rightarrow> rx_desc \<Rightarrow> rx_piece list \<Rightarrow> errno + rx_meta" where
  "idpf_rx_process_skb_fields rf vlan d skb =
     (let dec = rf_ptype_lkup rf (unat (ptype_err_fflags0 d AND mask 10)) in
      if \<not> dec_known dec then Inr rx_no_meta
      else
        let m = rx_no_meta\<lparr>meta_hash := idpf_rx_hash rf d dec,
                           meta_tstamp := (if rf_tstmp_en rf then idpf_rx_hwtstamp rf d else None)\<rparr> in
        if bit (hdrlen_flags d) 10 then
          (case idpf_rx_rsc d dec skb of Inl e \<Rightarrow> Inl e | Inr r \<Rightarrow> Inr (m\<lparr>meta_rsc := r\<rparr>))
        else Inr (m\<lparr>meta_csum := idpf_rx_csum (rf_rxcsum rf) (rf_simics rf) vlan
                      (idpf_rx_splitq_extract_csum_bits d) dec\<rparr>))"

section \<open>The loop\<close>

record rx_pkt =
  pkt_pieces :: "rx_piece list"
  pkt_meta :: rx_meta
  pkt_vlan :: "u16 option"

record idpf_rxq =
  rq_descs :: "rx_desc list"
  rq_next_to_clean :: nat
  rq_GEN_CHK :: bool
  rq_skb :: "rx_piece list option"
  rq_refillqs :: "idpf_sw_queue option list"
  rq_bufs :: "idpf_rx_buf list list"
  rq_delivered :: "rx_pkt list"
  rq_features :: rx_features

definition idpf_rx_bump_ntc :: "idpf_rxq \<Rightarrow> idpf_rxq" where
  "idpf_rx_bump_ntc q =
     (let ntc = Suc (rq_next_to_clean q)
      in if ntc = length (rq_descs q) then q\<lparr>rq_next_to_clean := 0, rq_GEN_CHK := \<not> rq_GEN_CHK q\<rparr>
         else q\<lparr>rq_next_to_clean := ntc\<rparr>)"

text \<open>The stack's copy of a packet that is thrown away: its fragments are released.\<close>

definition rx_put_piece :: "page_world \<Rightarrow> rx_piece \<Rightarrow> page_world" where
  "rx_put_piece w x = (case x of
     PageFrag p off n \<Rightarrow> page_ref_set p (page_count w p - 1) (w\<lparr>stack_frags := stack_frags w - {#(p, off, n)#}\<rparr>)
   | _ \<Rightarrow> w)"

definition idpf_receive_skb :: "rx_piece list \<Rightarrow> rx_meta \<Rightarrow> u16 \<Rightarrow> idpf_rxq \<Rightarrow> idpf_rxq" where
  "idpf_receive_skb skb m vlan_tci q =
     q\<lparr>rq_delivered := rq_delivered q @
        [\<lparr>pkt_pieces = skb, pkt_meta = m, pkt_vlan = (if vlan_tci AND 0xFFF \<noteq> 0 then Some vlan_tci else None)\<rparr>]\<rparr>"

text \<open>
  The answers of the kernel for one descriptor: allocation of a packet from a header buffer and
  those of \<open>rx_use_buf\<close>, and whether the packet has a VLAN header.
\<close>

record rx_env = rx_answers +
  env_hdr_skb :: bool
  env_vlan :: bool

definition idpf_rx_hdr_construct_skb :: "bool \<Rightarrow> nat \<Rightarrow> nat \<Rightarrow> nat \<Rightarrow> rx_piece list option" where
  "idpf_rx_hdr_construct_skb ok bufq_id buf_id sz = (if ok then Some [HdrCopy bufq_id buf_id sz] else None)"

text \<open>The end of a packet: 1 if it was delivered, 0 if it was dropped.\<close>

definition rx_finish_pkt :: "rx_env \<Rightarrow> rx_desc \<Rightarrow> rx_piece list \<Rightarrow> idpf_rxq \<Rightarrow> page_world \<Rightarrow> nat \<times> idpf_rxq \<times> page_world" where
  "rx_finish_pkt env d skb q w =
     (case idpf_rx_process_skb_fields (rq_features q) (env_vlan env) d skb of
        Inl e \<Rightarrow> (0, q\<lparr>rq_skb := None\<rparr>, foldl rx_put_piece w skb)
      | Inr m \<Rightarrow> (1, idpf_receive_skb skb m (idpf_get_vlan_tci d) (q\<lparr>rq_skb := None\<rparr>), w))"

text \<open>The data buffer of a descriptor, looked at only if the descriptor has data.\<close>

definition rx_take_data ::
  "nat \<Rightarrow> (ptr \<Rightarrow> bool) \<Rightarrow> rx_answers \<Rightarrow> rx_piece list option \<Rightarrow> nat \<Rightarrow> idpf_rx_buf \<Rightarrow> page_world
    \<Rightarrow> rx_piece list option \<times> idpf_rx_buf \<times> page_world" where
  "rx_take_data psz reusable ans skb pkt_len b w =
     (if pkt_len \<noteq> 0 then rx_use_buf psz reusable ans skb pkt_len b w else (skb, b, w))"

text \<open>
  One descriptor of the split queue format.  \<open>Inl\<close>: the loop ends because there is no packet to put
  the data into; \<open>Inr n\<close>: it goes on, \<open>n\<close> packets more.
\<close>

definition rx_clean_desc ::
  "nat \<Rightarrow> (ptr \<Rightarrow> bool) \<Rightarrow> rx_env \<Rightarrow> rx_desc \<Rightarrow> idpf_rxq \<Rightarrow> page_world
    \<Rightarrow> ((unit + nat) \<times> idpf_rxq \<times> page_world) option" where
  "rx_clean_desc psz reusable env d q w =
     (let pkt_len = rxd_pkt_len d; bufq_id = rxd_bufq_id d; hdr_len = rxd_hdr_len d; buf_id = unat (rx_buf_id d) in
      if bufq_id \<ge> length (rq_refillqs q) \<or> bufq_id \<ge> length (rq_bufs q) then None
      else case rq_refillqs q ! bufq_id of
        None \<Rightarrow> None
      | Some r \<Rightarrow>
          if buf_id \<ge> length (rq_bufs q ! bufq_id) then None
          else
            let skb = (if hdr_len \<noteq> 0 then idpf_rx_hdr_construct_skb (env_hdr_skb env) bufq_id buf_id hdr_len
                       else rq_skb q) in
            case rx_take_data psz reusable (rx_answers.truncate env) skb pkt_len (rq_bufs q ! bufq_id ! buf_id) w of
              (skb, b, w) \<Rightarrow>
                let q = q\<lparr>rq_bufs := (rq_bufs q)[bufq_id := (rq_bufs q ! bufq_id)[buf_id := b]]\<rparr> in
                case skb of None \<Rightarrow> Some (Inl (), q\<lparr>rq_skb := None\<rparr>, w)
                | Some s \<Rightarrow>
                    let q = q\<lparr>rq_refillqs := (rq_refillqs q)[bufq_id := Some (idpf_post_buf_refill r (rx_buf_id d))]\<rparr>;
                        q = idpf_rx_bump_ntc q
                    in if \<not> idpf_rx_splitq_is_eop d then Some (Inr 0, q\<lparr>rq_skb := Some s\<rparr>, w)
                       else case rx_finish_pkt env d s q w of (n, q, w) \<Rightarrow> Some (Inr n, q, w))"

text \<open>
  The loop; the descriptors do not change during the call, so one lap is enough fuel.  \<open>env k\<close>
  answers for the descriptor taken with \<open>k\<close> laps left.
\<close>

primrec rx_clean_loop ::
  "nat \<Rightarrow> (ptr \<Rightarrow> bool) \<Rightarrow> (nat \<Rightarrow> rx_env) \<Rightarrow> nat \<Rightarrow> nat \<Rightarrow> nat \<Rightarrow> idpf_rxq \<Rightarrow> page_world
    \<Rightarrow> (nat \<times> idpf_rxq \<times> page_world) option" where
  "rx_clean_loop psz reusable env 0 budget pkts q w =
     (if pkts < budget \<and> rq_GEN_CHK q = rxd_gen (rq_descs q ! rq_next_to_clean q) then None
      else Some (pkts, q, w))"
| "rx_clean_loop psz reusable env (Suc k) budget pkts q w =
     (let d = rq_descs q ! rq_next_to_clean q in
      if \<not> pkts < budget then Some (pkts, q, w)
      else if rq_GEN_CHK q \<noteq> rxd_gen d then Some (pkts, q, w)
      else if rxd_rxdid d \<noteq> 2 then rx_clean_loop psz reusable env k budget pkts (idpf_rx_bump_ntc q) w
      else case rx_clean_desc psz reusable (env k) d q w of
        None \<Rightarrow> None
      | Some (Inl _, q, w) \<Rightarrow> Some (pkts, q, w)
      | Some (Inr n, q, w) \<Rightarrow> rx_clean_loop psz reusable env k budget (pkts + n) q w)"

definition idpf_rx_splitq_clean ::
  "nat \<Rightarrow> (ptr \<Rightarrow> bool) \<Rightarrow> (nat \<Rightarrow> rx_env) \<Rightarrow> nat \<Rightarrow> idpf_rxq \<Rightarrow> page_world
    \<Rightarrow> (nat \<times> idpf_rxq \<times> page_world) option" where
  "idpf_rx_splitq_clean psz reusable env budget q w =
     rx_clean_loop psz reusable env (length (rq_descs q)) budget 0 q w"

end
