(* ===== verification/Idpf_Rx_Loop.thy ===== *)
theory Idpf_Rx_Loop
  imports Idpf_Rx
begin

text \<open>
  The receive loop ends, takes a prefix of the descriptors the device has finished, and gives the
  buffer of each of them back to the refill queue it belongs to.
\<close>

section \<open>Positions in the ring\<close>

text \<open>The descriptors ready from the current position on, at most \<open>k\<close> of them.\<close>

primrec rx_ready :: "nat \<Rightarrow> idpf_rxq \<Rightarrow> rx_desc list" where
  "rx_ready 0 q = []"
| "rx_ready (Suc k) q =
     (let d = rq_descs q ! rq_next_to_clean q
      in if rq_GEN_CHK q \<noteq> rxd_gen d then [] else d # rx_ready k (idpf_rx_bump_ntc q))"

definition rx_pos :: "idpf_rxq \<Rightarrow> rx_desc list \<times> nat \<times> bool" where
  "rx_pos q = (rq_descs q, rq_next_to_clean q, rq_GEN_CHK q)"

definition rx_adv :: "nat \<Rightarrow> idpf_rxq \<Rightarrow> idpf_rxq" where
  "rx_adv k q = (idpf_rx_bump_ntc ^^ k) q"

lemma rx_pos_eqD: "rx_pos q = rx_pos q' \<Longrightarrow>
    rq_descs q = rq_descs q' \<and> rq_next_to_clean q = rq_next_to_clean q' \<and> rq_GEN_CHK q = rq_GEN_CHK q'"
  by (simp add: rx_pos_def)

lemma rx_pos_bump_cong: "rx_pos q = rx_pos q' \<Longrightarrow> rx_pos (idpf_rx_bump_ntc q) = rx_pos (idpf_rx_bump_ntc q')"
  by (auto simp: rx_pos_def idpf_rx_bump_ntc_def Let_def)

lemma rx_adv_Suc: "rx_adv (Suc k) q = rx_adv k (idpf_rx_bump_ntc q)"
  by (simp add: rx_adv_def funpow_swap1)

lemma rx_adv_0 [simp]: "rx_adv 0 q = q"
  by (simp add: rx_adv_def)

lemma rx_adv_cong: "rx_pos q = rx_pos q' \<Longrightarrow> rx_pos (rx_adv k q) = rx_pos (rx_adv k q')"
proof (induction k arbitrary: q q')
  case (Suc k)
  show ?case unfolding rx_adv_Suc by (rule Suc.IH [OF rx_pos_bump_cong [OF Suc.prems]])
qed simp

lemma rx_ready_cong: "rx_pos q = rx_pos q' \<Longrightarrow> rx_ready k q = rx_ready k q'"
proof (induction k arbitrary: q q')
  case (Suc k)
  have "rx_ready k (idpf_rx_bump_ntc q) = rx_ready k (idpf_rx_bump_ntc q')"
    by (rule Suc.IH [OF rx_pos_bump_cong [OF Suc.prems]])
  with rx_pos_eqD [OF Suc.prems] show ?case by (simp add: Let_def)
qed simp

text \<open>After \<open>k\<close> steps, at most one lap, the generation has changed if the index wrapped.\<close>

lemma rx_adv_pos:
  assumes "rq_next_to_clean q < length (rq_descs q)" and "k \<le> length (rq_descs q)"
  shows "rq_descs (rx_adv k q) = rq_descs q \<and>
    rq_next_to_clean (rx_adv k q) = (rq_next_to_clean q + k) mod length (rq_descs q) \<and>
    rq_GEN_CHK (rx_adv k q) = (rq_GEN_CHK q \<noteq> (length (rq_descs q) \<le> rq_next_to_clean q + k))"
  using assms(2)
proof (induction k)
  case 0
  then show ?case using assms(1) by (simp add: rx_adv_def)
next
  case (Suc k)
  have s: "rx_adv (Suc k) q = idpf_rx_bump_ntc (rx_adv k q)" by (simp add: rx_adv_def)
  have "k \<le> length (rq_descs q)" using Suc.prems by simp
  with Suc.IH assms(1) Suc.prems show ?case
    unfolding s by (auto simp: idpf_rx_bump_ntc_def Let_def mod_ring le_mod_geq Suc_diff_le split: if_splits)
qed

lemma rx_lap_ends:
  assumes "rq_next_to_clean q < length (rq_descs q)" and "rq_GEN_CHK q = rxd_gen (rq_descs q ! rq_next_to_clean q)"
  shows "rq_GEN_CHK (rx_adv (length (rq_descs q)) q) \<noteq>
    rxd_gen (rq_descs (rx_adv (length (rq_descs q)) q) ! rq_next_to_clean (rx_adv (length (rq_descs q)) q))"
  using rx_adv_pos [OF assms(1), of "length (rq_descs q)"] assms by simp

section \<open>One descriptor\<close>

definition rxd_good :: "rx_desc \<Rightarrow> bool" where
  "rxd_good d \<longleftrightarrow> rxd_rxdid d = 2"

definition uses :: "nat \<Rightarrow> rx_desc \<Rightarrow> bool" where
  "uses j d \<longleftrightarrow> rxd_good d \<and> rxd_bufq_id d = j"

text \<open>The device names existing buffers only, and the refill queues are well formed.\<close>

definition rxq_valid :: "idpf_rxq \<Rightarrow> bool" where
  "rxq_valid q \<longleftrightarrow> rq_next_to_clean q < length (rq_descs q) \<and>
     (\<forall>d \<in> set (rq_descs q). rxd_good d \<longrightarrow>
        rxd_bufq_id d < length (rq_refillqs q) \<and> rxd_bufq_id d < length (rq_bufs q) \<and>
        rq_refillqs q ! rxd_bufq_id d \<noteq> None \<and> unat (rx_buf_id d) < length (rq_bufs q ! rxd_bufq_id d)) \<and>
     (\<forall>r. Some r \<in> set (rq_refillqs q) \<longrightarrow> refill_ok r)"

text \<open>The ids that the descriptors \<open>ds\<close> return to the refill queues.\<close>

definition posted :: "rx_desc list \<Rightarrow> idpf_sw_queue option list \<Rightarrow> idpf_sw_queue option list \<Rightarrow> bool" where
  "posted ds rs rs' \<longleftrightarrow> length rs' = length rs \<and> (\<forall>j < length rs. case rs ! j of None \<Rightarrow> rs' ! j = None
     | Some r \<Rightarrow> \<exists>r'. rs' ! j = Some r' \<and> refill_ok r' \<and> rfl_desc_count r' = rfl_desc_count r \<and>
         refill_ids r' = refill_ids r @ map (\<lambda>d. ucast (rx_buf_id d)) (filter (uses j) ds))"

definition room :: "rx_desc list \<Rightarrow> idpf_sw_queue option list \<Rightarrow> bool" where
  "room ds rs \<longleftrightarrow> (\<forall>j < length rs. \<forall>r. rs ! j = Some r \<longrightarrow>
     length (refill_ids r) + length (filter (uses j) ds) \<le> rfl_desc_count r)"

lemma posted_Nil: "\<forall>r. Some r \<in> set rs \<longrightarrow> refill_ok r \<Longrightarrow> posted [] rs rs"
  by (auto simp: posted_def split: option.splits) (metis nth_mem)

lemma posted_trans: "posted ds rs rs1 \<Longrightarrow> posted es rs1 rs2 \<Longrightarrow> posted (ds @ es) rs rs2"
  by (fastforce simp: posted_def split: option.splits)

lemma posted_ok: "posted ds rs rs' \<Longrightarrow> Some r \<in> set rs' \<Longrightarrow> refill_ok r"
  by (auto simp: posted_def in_set_conv_nth split: option.splits)

lemma refill_ok_nth: "\<forall>r. Some r \<in> set rs \<longrightarrow> refill_ok r \<Longrightarrow> j < length rs \<Longrightarrow> rs ! j = Some r \<Longrightarrow> refill_ok r"
  by (metis nth_mem)

lemma posted_one:
  assumes "\<forall>r. Some r \<in> set rs \<longrightarrow> refill_ok r" and "rxd_good d" and "rxd_bufq_id d < length rs"
    and "rs ! rxd_bufq_id d = Some r" and "room [d] rs"
  shows "posted [d] rs (rs[rxd_bufq_id d := Some (idpf_post_buf_refill r (rx_buf_id d))])"
proof -
  let ?j = "rxd_bufq_id d"
  have r: "refill_ok r" using assms(1,3,4) nth_mem by metis
  have "length (refill_ids r) + 1 \<le> rfl_desc_count r"
    using assms(2-5) by (fastforce simp: room_def uses_def)
  then have p: "refill_ok (idpf_post_buf_refill r (rx_buf_id d))"
    "refill_ids (idpf_post_buf_refill r (rx_buf_id d)) = refill_ids r @ [ucast (rx_buf_id d)]"
    using r by (simp_all add: refill_ok_post refill_ids_post)
  have "case rs ! j of None \<Rightarrow> rs[?j := Some (idpf_post_buf_refill r (rx_buf_id d))] ! j = None
     | Some s \<Rightarrow> \<exists>r'. rs[?j := Some (idpf_post_buf_refill r (rx_buf_id d))] ! j = Some r' \<and> refill_ok r' \<and>
         rfl_desc_count r' = rfl_desc_count s \<and>
         refill_ids r' = refill_ids s @ map (\<lambda>d. ucast (rx_buf_id d)) (filter (uses j) [d])" if "j < length rs" for j
    using that assms(2-4) p refill_ok_nth [OF assms(1) that]
    by (cases "j = ?j") (auto simp: uses_def split: option.splits)
  then show ?thesis by (simp add: posted_def)
qed

definition has_data :: "rx_desc \<Rightarrow> bool" where
  "has_data d \<longleftrightarrow> rxd_pkt_len d \<noteq> 0 \<or> rxd_hdr_len d \<noteq> 0"

lemma rx_use_buf_Some: "skb \<noteq> None \<or> ans_skb ans \<Longrightarrow> fst (rx_use_buf psz reusable ans skb sz b w) \<noteq> None"
  by (auto simp: rx_use_buf_def idpf_rx_construct_skb_def Let_def split: prod.splits option.splits)

lemma rx_finish_pkt_keeps:
  assumes "rx_finish_pkt env d s q w = (n, q', w')"
  shows "rx_pos q' = rx_pos q \<and> rq_refillqs q' = rq_refillqs q \<and> rq_bufs q' = rq_bufs q \<and> n \<le> 1 \<and>
    length (rq_delivered q') = length (rq_delivered q) + n"
  using assms by (auto simp: rx_finish_pkt_def idpf_receive_skb_def rx_pos_def split: sum.splits)

lemma bump_keeps [simp]:
  "rq_refillqs (idpf_rx_bump_ntc q) = rq_refillqs q" "rq_bufs (idpf_rx_bump_ntc q) = rq_bufs q"
  "rq_descs (idpf_rx_bump_ntc q) = rq_descs q" "rq_delivered (idpf_rx_bump_ntc q) = rq_delivered q"
  by (simp_all add: idpf_rx_bump_ntc_def Let_def)

lemma rx_clean_desc_step:
  assumes v: "rxq_valid q" and d: "d \<in> set (rq_descs q)" "rxd_good d" and rm: "room [d] (rq_refillqs q)"
  shows "\<exists>x q' w'. rx_clean_desc psz reusable env d q w = Some (x, q', w') \<and>
    map length (rq_bufs q') = map length (rq_bufs q) \<and>
    (case x of Inl _ \<Rightarrow> rx_pos q' = rx_pos q \<and> rq_refillqs q' = rq_refillqs q \<and> rq_delivered q' = rq_delivered q \<and>
                 \<not> (has_data d \<and> ans_skb env \<and> env_hdr_skb env)
     | Inr n \<Rightarrow> rx_pos q' = rx_pos (idpf_rx_bump_ntc q) \<and> n \<le> 1 \<and> posted [d] (rq_refillqs q) (rq_refillqs q') \<and>
         length (rq_delivered q') = length (rq_delivered q) + n)"
proof -
  let ?j = "rxd_bufq_id d" and ?i = "unat (rx_buf_id d)" and ?ans = "rx_answers.truncate env"
  have j: "?j < length (rq_refillqs q)" "?j < length (rq_bufs q)" "?i < length (rq_bufs q ! ?j)"
    using v d by (auto simp: rxq_valid_def)
  obtain r where r: "rq_refillqs q ! ?j = Some r" using v d by (auto simp: rxq_valid_def)
  let ?skb = "if rxd_hdr_len d \<noteq> 0 then idpf_rx_hdr_construct_skb (env_hdr_skb env) ?j ?i (rxd_hdr_len d) else rq_skb q"
  obtain skb b w1 where u: "rx_take_data psz reusable ?ans ?skb (rxd_pkt_len d) (rq_bufs q ! ?j ! ?i) w = (skb, b, w1)"
    by (metis prod_cases3)
  let ?q = "q\<lparr>rq_bufs := (rq_bufs q)[?j := (rq_bufs q ! ?j)[?i := b]]\<rparr>"
  have len: "map length (rq_bufs ?q) = map length (rq_bufs q)"
    using j(2) by (simp add: map_update) (metis length_map list_update_id nth_map)
  have eq: "rx_clean_desc psz reusable env d q w =
      (case skb of None \<Rightarrow> Some (Inl (), ?q\<lparr>rq_skb := None\<rparr>, w1)
       | Some s \<Rightarrow>
           let q2 = idpf_rx_bump_ntc (?q\<lparr>rq_refillqs := (rq_refillqs q)[?j := Some (idpf_post_buf_refill r (rx_buf_id d))]\<rparr>)
           in if \<not> idpf_rx_splitq_is_eop d then Some (Inr 0, q2\<lparr>rq_skb := Some s\<rparr>, w1)
              else case rx_finish_pkt env d s q2 w1 of (n, q, w) \<Rightarrow> Some (Inr n, q, w))"
    using j r u by (cases skb) (simp_all add: rx_clean_desc_def Let_def)
  show ?thesis
  proof (cases skb)
    case None
    have "\<not> (has_data d \<and> ans_skb env \<and> env_hdr_skb env)"
    proof
      assume a: "has_data d \<and> ans_skb env \<and> env_hdr_skb env"
      then have "ans_skb ?ans" by (simp add: rx_answers.defs)
      then show False
        using a u None rx_use_buf_Some [of ?skb ?ans psz reusable "rxd_pkt_len d" "rq_bufs q ! ?j ! ?i" w]
        by (auto simp: rx_take_data_def has_data_def idpf_rx_hdr_construct_skb_def split: if_splits)
    qed
    then show ?thesis using None len by (auto simp: eq rx_pos_def)
  next
    case (Some s)
    let ?q2 = "idpf_rx_bump_ntc (?q\<lparr>rq_refillqs := (rq_refillqs q)[?j := Some (idpf_post_buf_refill r (rx_buf_id d))]\<rparr>)"
    have p: "posted [d] (rq_refillqs q) (rq_refillqs ?q2)"
      using posted_one [OF _ d(2) j(1) r rm] v by (simp add: rxq_valid_def)
    have pos: "rx_pos ?q2 = rx_pos (idpf_rx_bump_ntc q)"
      by (intro rx_pos_bump_cong) (simp add: rx_pos_def)
    obtain n q3 w3 where f: "rx_finish_pkt env d s ?q2 w1 = (n, q3, w3)" by (metis prod_cases3)
    note k = rx_finish_pkt_keeps [OF f]
    show ?thesis
      using Some p pos len k f by (cases "idpf_rx_splitq_is_eop d") (auto simp: eq Let_def rx_pos_def)
  qed
qed

section \<open>The loop\<close>

lemma room_Cons: "room (d # ds) rs \<Longrightarrow> room [d] rs"
  by (fastforce simp: room_def split: if_splits)

lemma room_posted:
  assumes "room (d # ds) rs" and "posted [d] rs rs'"
  shows "room ds rs'"
  unfolding room_def
proof (intro allI impI)
  fix j r' assume j: "j < length rs'" "rs' ! j = Some r'"
  then have "j < length rs" using assms(2) by (simp add: posted_def)
  with j assms(2) obtain r where "rs ! j = Some r" "rfl_desc_count r' = rfl_desc_count r"
      "refill_ids r' = refill_ids r @ map (\<lambda>d. ucast (rx_buf_id d)) (filter (uses j) [d])"
    by (fastforce simp: posted_def split: option.splits)
  then show "length (refill_ids r') + length (filter (uses j) ds) \<le> rfl_desc_count r'"
    using assms(1) \<open>j < length rs\<close> by (fastforce simp: room_def split: if_splits)
qed

lemma room_bad: "room (d # ds) rs \<Longrightarrow> \<not> rxd_good d \<Longrightarrow> room ds rs"
  by (simp add: room_def uses_def)

lemma posted_bad: "\<forall>r. Some r \<in> set rs \<longrightarrow> refill_ok r \<Longrightarrow> \<not> rxd_good d \<Longrightarrow> posted [d] rs rs"
  using posted_Nil [of rs] by (simp add: posted_def uses_def cong: option.case_cong)

lemma bump_in_range: "rq_next_to_clean q < length (rq_descs q) \<Longrightarrow>
    rq_next_to_clean (idpf_rx_bump_ntc q) < length (rq_descs q)"
  by (auto simp: idpf_rx_bump_ntc_def Let_def)

lemma rxq_valid_step:
  assumes v: "rxq_valid q" and pos: "rx_pos q' = rx_pos (idpf_rx_bump_ntc q)"
    and len: "map length (rq_bufs q') = map length (rq_bufs q)" and p: "posted ds (rq_refillqs q) (rq_refillqs q')"
  shows "rxq_valid q'"
proof -
  have e: "rq_descs q' = rq_descs q" "rq_next_to_clean q' = rq_next_to_clean (idpf_rx_bump_ntc q)"
    using rx_pos_eqD [OF pos] by simp_all
  have b: "length (rq_bufs q') = length (rq_bufs q)" using len map_eq_imp_length_eq by blast
  have l: "length (rq_bufs q' ! j) = length (rq_bufs q ! j)" if "j < length (rq_bufs q)" for j
    using that b len by (metis nth_map)
  have n: "rq_refillqs q' ! j \<noteq> None" if "j < length (rq_refillqs q)" "rq_refillqs q ! j \<noteq> None" for j
    using that p by (fastforce simp: posted_def split: option.splits)
  have "length (rq_refillqs q') = length (rq_refillqs q)" using p by (simp add: posted_def)
  then show ?thesis
    using v b l n e bump_in_range [of q] posted_ok [OF p] unfolding rxq_valid_def by auto
qed

lemma bump_valid: "rxq_valid q \<Longrightarrow> rxq_valid (idpf_rx_bump_ntc q)"
  by (simp add: rxq_valid_def bump_in_range)

definition rx_stuck :: "idpf_rxq \<Rightarrow> bool" where
  "rx_stuck q \<longleftrightarrow> rq_GEN_CHK q \<noteq> rxd_gen (rq_descs q ! rq_next_to_clean q)"

lemma rx_stuck_cong: "rx_pos q = rx_pos q' \<Longrightarrow> rx_stuck q = rx_stuck q'"
  by (simp add: rx_stuck_def rx_pos_def)

definition rx_plenty :: "(nat \<Rightarrow> rx_env) \<Rightarrow> rx_desc list \<Rightarrow> bool" where
  "rx_plenty env ds \<longleftrightarrow> (\<forall>d \<in> set ds. rxd_good d \<longrightarrow> has_data d) \<and> (\<forall>i. ans_skb (env i) \<and> env_hdr_skb (env i))"

definition rx_loop_ok :: "(nat \<Rightarrow> rx_env) \<Rightarrow> nat \<Rightarrow> nat \<Rightarrow> idpf_rxq \<Rightarrow> rx_desc list \<Rightarrow> nat \<Rightarrow> nat \<Rightarrow> idpf_rxq \<Rightarrow> bool" where
  "rx_loop_ok env budget pkts q ds c pkts' q' \<longleftrightarrow> pkts \<le> pkts' \<and> pkts' \<le> max pkts budget \<and>
     c \<le> length ds \<and> rx_pos q' = rx_pos (rx_adv c q) \<and>
     posted (take c ds) (rq_refillqs q) (rq_refillqs q') \<and>
     length (rq_delivered q') = length (rq_delivered q) + (pkts' - pkts) \<and>
     (rx_plenty env ds \<longrightarrow> budget \<le> pkts' \<or> c = length ds)"

lemma rx_loop_ok_0:
  assumes "rxq_valid q" and "ds = [] \<or> budget \<le> pkts \<or> \<not> rx_plenty env ds"
    and "rx_pos q' = rx_pos q" "rq_refillqs q' = rq_refillqs q" "rq_delivered q' = rq_delivered q"
  shows "rx_loop_ok env budget pkts q ds 0 pkts q'"
  using assms posted_Nil [of "rq_refillqs q"] by (auto simp: rx_loop_ok_def rxq_valid_def)

lemma rx_loop_ok_Suc:
  assumes "rx_loop_ok env budget (pkts + n) q1 ds c pkts' q'" and "rx_pos q1 = rx_pos (idpf_rx_bump_ntc q)"
    and "posted [d] (rq_refillqs q) (rq_refillqs q1)" and "pkts < budget" "n \<le> 1"
    and "length (rq_delivered q1) = length (rq_delivered q) + n"
  shows "rx_loop_ok env budget pkts q (d # ds) (Suc c) pkts' q'"
  using assms posted_trans [OF assms(3), of "take c ds" "rq_refillqs q'"] rx_adv_cong [OF assms(2), of c]
  by (auto simp: rx_loop_ok_def rx_adv_Suc rx_plenty_def)

lemma rx_clean_loop_spec:
  assumes "rxq_valid q" and "room (rx_ready k q) (rq_refillqs q)"
    and "length (rx_ready k q) = k \<longrightarrow> rx_stuck (rx_adv k q)"
  shows "\<exists>c pkts' q' w'. rx_clean_loop psz reusable env k budget pkts q w = Some (pkts', q', w') \<and>
    rx_loop_ok env budget pkts q (rx_ready k q) c pkts' q'"
  using assms
proof (induction k arbitrary: pkts q w)
  case 0
  then have "rx_loop_ok env budget pkts q [] 0 pkts q" by (intro rx_loop_ok_0) simp_all
  then show ?case using 0 by (auto simp: rx_stuck_def)
next
  case (Suc k)
  let ?d = "rq_descs q ! rq_next_to_clean q" and ?ds = "rx_ready k (idpf_rx_bump_ntc q)"
  have mem: "?d \<in> set (rq_descs q)" using Suc.prems(1) by (simp add: rxq_valid_def)
  consider (done_) "budget \<le> pkts \<or> rx_stuck q" | (bad) "pkts < budget" "\<not> rx_stuck q" "\<not> rxd_good ?d"
    | (good) "pkts < budget" "\<not> rx_stuck q" "rxd_good ?d" by linarith
  then show ?case
  proof cases
    case done_
    then have "rx_loop_ok env budget pkts q (rx_ready (Suc k) q) 0 pkts q"
      using Suc.prems(1) by (intro rx_loop_ok_0) (auto simp: rx_stuck_def Let_def)
    then show ?thesis using done_ by (auto simp: rx_stuck_def Let_def)
  next
    case bad
    then have r: "rx_ready (Suc k) q = ?d # ?ds" by (simp add: rx_stuck_def Let_def)
    have "\<exists>c pkts' q' w'. rx_clean_loop psz reusable env k budget pkts (idpf_rx_bump_ntc q) w = Some (pkts', q', w') \<and>
        rx_loop_ok env budget pkts (idpf_rx_bump_ntc q) ?ds c pkts' q'"
      using Suc.prems r bad room_bad [of ?d ?ds]
      by (intro Suc.IH) (auto simp: bump_valid rx_adv_Suc)
    then obtain c pkts' q' w' where l: "rx_clean_loop psz reusable env k budget pkts (idpf_rx_bump_ntc q) w = Some (pkts', q', w')"
      and o: "rx_loop_ok env budget (pkts + 0) (idpf_rx_bump_ntc q) ?ds c pkts' q'" by auto
    have "rx_loop_ok env budget pkts q (?d # ?ds) (Suc c) pkts' q'"
      using bad Suc.prems(1) posted_bad [of "rq_refillqs q" ?d]
      by (intro rx_loop_ok_Suc [OF o]) (auto simp: rxq_valid_def)
    then show ?thesis using l bad unfolding r by (auto simp: rx_stuck_def rxd_good_def Let_def)
  next
    case good
    then have r: "rx_ready (Suc k) q = ?d # ?ds" by (simp add: rx_stuck_def Let_def)
    have rm: "room (?d # ?ds) (rq_refillqs q)" using Suc.prems(2) unfolding r .
    obtain x q1 w1 where cd: "rx_clean_desc psz reusable (env k) ?d q w = Some (x, q1, w1)"
      and len: "map length (rq_bufs q1) = map length (rq_bufs q)"
      and x: "case x of Inl _ \<Rightarrow> rx_pos q1 = rx_pos q \<and> rq_refillqs q1 = rq_refillqs q \<and> rq_delivered q1 = rq_delivered q \<and>
                 \<not> (has_data ?d \<and> ans_skb (env k) \<and> env_hdr_skb (env k))
       | Inr n \<Rightarrow> rx_pos q1 = rx_pos (idpf_rx_bump_ntc q) \<and> n \<le> 1 \<and> posted [?d] (rq_refillqs q) (rq_refillqs q1) \<and>
         length (rq_delivered q1) = length (rq_delivered q) + n"
      using rx_clean_desc_step [OF Suc.prems(1) mem good(3) room_Cons [OF rm], of psz reusable "env k" w] by blast
    have eq: "rx_clean_loop psz reusable env (Suc k) budget pkts q w = (case x of Inl _ \<Rightarrow> Some (pkts, q1, w1)
        | Inr n \<Rightarrow> rx_clean_loop psz reusable env k budget (pkts + n) q1 w1)"
      using good cd by (cases x) (simp_all add: rx_stuck_def rxd_good_def Let_def)
    show ?thesis
    proof (cases x)
      case (Inl u)
      then have "rx_loop_ok env budget pkts q (rx_ready (Suc k) q) 0 pkts q1"
        using Suc.prems(1) x good unfolding r by (intro rx_loop_ok_0) (auto simp: rx_plenty_def)
      then show ?thesis using Inl unfolding eq by auto
    next
      case (Inr n)
      have pos: "rx_pos q1 = rx_pos (idpf_rx_bump_ntc q)" and p: "posted [?d] (rq_refillqs q) (rq_refillqs q1)"
        using x Inr by simp_all
      have rd: "rx_ready k q1 = ?ds" by (rule rx_ready_cong [OF pos])
      have st: "rx_stuck (rx_adv k q1) = rx_stuck (rx_adv (Suc k) q)"
        unfolding rx_adv_Suc by (rule rx_stuck_cong [OF rx_adv_cong [OF pos]])
      have "\<exists>c pkts' q' w'. rx_clean_loop psz reusable env k budget (pkts + n) q1 w1 = Some (pkts', q', w') \<and>
          rx_loop_ok env budget (pkts + n) q1 (rx_ready k q1) c pkts' q'"
      proof (rule Suc.IH)
        show "rxq_valid q1" by (rule rxq_valid_step [OF Suc.prems(1) pos len p])
        show "room (rx_ready k q1) (rq_refillqs q1)" unfolding rd by (rule room_posted [OF rm p])
        show "length (rx_ready k q1) = k \<longrightarrow> rx_stuck (rx_adv k q1)" using Suc.prems(3) unfolding st rd r by simp
      qed
      then obtain c pkts' q' w' where l: "rx_clean_loop psz reusable env k budget (pkts + n) q1 w1 = Some (pkts', q', w')"
        and o: "rx_loop_ok env budget (pkts + n) q1 ?ds c pkts' q'" unfolding rd by blast
      have "rx_loop_ok env budget pkts q (rx_ready (Suc k) q) (Suc c) pkts' q'"
        unfolding r using x Inr good by (intro rx_loop_ok_Suc [OF o pos p]) simp_all
      then show ?thesis using Inr l unfolding eq by auto
    qed
  qed
qed

text \<open>One lap is enough: after it the generation bit of the first descriptor does not match any more.\<close>

lemma rx_ready_lap:
  assumes "rxq_valid q" and "length (rx_ready (length (rq_descs q)) q) = length (rq_descs q)"
  shows "rx_stuck (rx_adv (length (rq_descs q)) q)"
proof -
  obtain n where n: "length (rq_descs q) = Suc n" using assms(1) by (cases "length (rq_descs q)") (auto simp: rxq_valid_def)
  have "rq_GEN_CHK q = rxd_gen (rq_descs q ! rq_next_to_clean q)"
    using assms(2) by (auto simp: n Let_def split: if_splits)
  then show ?thesis using rx_lap_ends [of q] assms(1) by (simp add: rx_stuck_def rxq_valid_def)
qed

lemma idpf_rx_splitq_clean_spec:
  assumes "rxq_valid q" and "room (rx_ready (length (rq_descs q)) q) (rq_refillqs q)"
  shows "\<exists>c pkts' q' w'. idpf_rx_splitq_clean psz reusable env budget q w = Some (pkts', q', w') \<and>
    rx_loop_ok env budget 0 q (rx_ready (length (rq_descs q)) q) c pkts' q'"
  unfolding idpf_rx_splitq_clean_def
  using assms rx_ready_lap [OF assms(1)] by (intro rx_clean_loop_spec) auto

end
