(* ===== verification/Idpf_Rx_Results.thy ===== *)
theory Idpf_Rx_Results
  imports Idpf_Rx_Safety Idpf_Rx_Refill Idpf_Rx_Loop
begin

text \<open>
  What the receive path of the split queue model guarantees: the device never writes where the
  network stack reads, buffers that come back are posted again, the receive loop returns and loses
  no buffer, and timestamps are extended correctly.  The last section has what goes wrong: pages of
  8 KB and more, failing DMA mappings, descriptors of another format and packets whose header cannot
  be allocated.
\<close>

section \<open>Memory the device writes to\<close>

definition rx_region :: "idpf_rx_buf \<Rightarrow> nat set" where
  "rx_region b = {page_offset (rx_cur b) ..< page_offset (rx_cur b) + buf_size b}"

text \<open>
  The buffers in \<open>P\<close> may be written: their pages are alive and different, and no fragment of the
  stack, all of whose pages are alive, is in the way.
\<close>

definition rx_pages_ok :: "rx_state \<Rightarrow> bool" where
  "rx_pages_ok s \<longleftrightarrow>
     (\<forall>i \<in> rs_posted s. 0 < page_count (rs_world s) (pi_page (rx_cur (rs_bufs s ! i))) \<and>
        (\<forall>j \<in> rs_posted s. i \<noteq> j \<longrightarrow> pi_page (rx_cur (rs_bufs s ! i)) \<noteq> pi_page (rx_cur (rs_bufs s ! j))) \<and>
        (\<forall>f \<in># stack_frags (rs_world s). fst f = pi_page (rx_cur (rs_bufs s ! i)) \<longrightarrow>
           rx_region (rs_bufs s ! i) \<inter> {fst (snd f) ..< fst (snd f) + snd (snd f)} = {})) \<and>
     (\<forall>f \<in># stack_frags (rs_world s). 0 < page_count (rs_world s) (fst f))"

lemma rx_inv_pages_differ:
  assumes inv: "rx_inv s" and ij: "i \<in> rs_posted s" "j \<in> rs_posted s" "i \<noteq> j"
  shows "pi_page (rx_cur (rs_bufs s ! i)) \<noteq> pi_page (rx_cur (rs_bufs s ! j))"
proof
  let ?p = "pi_page (rx_cur (rs_bufs s ! i))"
  assume same: "?p = pi_page (rx_cur (rs_bufs s ! j))"
  have l: "i < length (rs_bufs s)" "j < length (rs_bufs s)" and p: "?p \<noteq> NULL" using inv ij by (auto simp: rx_inv_def)
  have "rs_bufs s ! j \<in> set (rest i (rs_bufs s))"
  proof (cases "j < i")
    case True
    then show ?thesis using l by (auto simp: rest_def in_set_conv_nth)
  next
    case False
    then have "drop (Suc i) (rs_bufs s) ! (j - Suc i) = rs_bufs s ! j" "j - Suc i < length (rs_bufs s) - Suc i"
      using ij(3) l by auto
    then show ?thesis by (metis rest_def Un_iff length_drop nth_mem set_append)
  qed
  then have "buf_occ ?p (rs_bufs s ! j) \<le> sum_list (map (buf_occ ?p) (rest i (rs_bufs s)))"
    by (intro member_le_sum_list) auto
  moreover have "1 \<le> buf_occ ?p (rs_bufs s ! i)" "1 \<le> buf_occ ?p (rs_bufs s ! j)"
    using same by (auto simp: buf_occ_def pocc_def)
  ultimately have "2 \<le> bufs_occ (rs_bufs s) ?p"
    using sum_list_map_rest [OF l(1), of "buf_occ ?p"] by (simp add: bufs_occ_def)
  then show False using inv p by (force simp: rx_inv_def counts_ok_def)
qed

lemma rx_inv_page_alive:
  assumes inv: "rx_inv s" and i: "i \<in> rs_posted s"
  shows "0 < page_count (rs_world s) (pi_page (rx_cur (rs_bufs s ! i)))"
proof -
  let ?p = "pi_page (rx_cur (rs_bufs s ! i))"
  have l: "i < length (rs_bufs s)" and p: "?p \<noteq> NULL" using inv i by (auto simp: rx_inv_def)
  then have "buf_ok 2 (rs_bufs s ! i)" using inv by (simp add: rx_inv_def)
  then have "2 \<le> buf_own ?p (rs_bufs s ! i)" using p by (simp add: buf_ok_def pi_ok_def buf_own_def pbias_def)
  then have "2 \<le> bufs_own (rs_bufs s) ?p" using sum_list_map_rest [OF l, of "buf_own ?p"] by (simp add: bufs_own_def)
  moreover have "bufs_own (rs_bufs s) ?p + refs (rs_world s) ?p \<le> page_count (rs_world s) ?p"
    using inv p by (auto simp: rx_inv_def counts_ok_def)
  ultimately show ?thesis by linarith
qed

lemma xor_2048:
  "x \<in> {0, 256, 2048, 2304 :: nat} \<Longrightarrow> x XOR 2048 = (if x < 2048 then x + 2048 else x - 2048)"
  by auto

lemma rx_inv_region_free:
  assumes inv: "rx_inv s" and i: "i \<in> rs_posted s" and f: "f \<in># stack_frags (rs_world s)"
    and p: "fst f = pi_page (rx_cur (rs_bufs s ! i))"
  shows "rx_region (rs_bufs s ! i) \<inter> {fst (snd f) ..< fst (snd f) + snd (snd f)} = {}"
proof -
  let ?b = "rs_bufs s ! i"
  have l: "i < length (rs_bufs s)" and nn: "pi_page (rx_cur ?b) \<noteq> NULL" using inv i by (auto simp: rx_inv_def)
  then have b: "buf_ok 2 ?b" "buf_safe (rs_world s) ?b" using inv by (simp_all add: rx_inv_def)
  then have h: "buf_size ?b = 2048" "in_half (page_offset (rx_cur ?b) XOR 2048) f" using f p by (auto simp: buf_safe_def)
  then have "narrow_ok ?b" using b(1) by (auto simp: buf_ok_def wide_ok_def unused_ok_def)
  then have o: "page_offset (rx_cur ?b) \<in> {0, 256, 2048, 2304}" using nn by (simp add: narrow_ok_def)
  show ?thesis using h unfolding rx_region_def in_half_def xor_2048 [OF o] by (auto split: if_splits)
qed

lemma rx_inv_frag_alive: "rx_inv s \<Longrightarrow> f \<in># stack_frags (rs_world s) \<Longrightarrow> 0 < page_count (rs_world s) (fst f)"
  using refs_pos [of f "rs_world s"] by (fastforce simp: rx_inv_def counts_ok_def)

lemma rx_inv_ok: "rx_inv s \<Longrightarrow> rx_pages_ok s"
  unfolding rx_pages_ok_def
  by (intro conjI ballI impI rx_inv_page_alive rx_inv_pages_differ rx_inv_region_free rx_inv_frag_alive)

lemma rx_steps_inv: "(rx_step psz reusable)\<^sup>*\<^sup>* s s' \<Longrightarrow> psz < 8192 \<Longrightarrow> rs_mapped s' \<Longrightarrow> rx_inv s \<Longrightarrow> rx_inv s'"
  by (induction rule: rtranclp_induct) (auto intro: rx_step_inv dest: rx_step_mapped)

lemma post_init_bufs_keeps: "bq_bufs (idpf_rx_post_init_bufs q n) = bq_bufs q"
proof -
  have "bq_bufs (foldl idpf_rx_post_buf_desc q is) = bq_bufs q" for "is" q
    by (induction "is" arbitrary: q) (simp_all add: idpf_rx_post_buf_desc_def Let_def)
  then show ?thesis by (simp add: idpf_rx_post_init_bufs_def idpf_rx_buf_hw_update_def Let_def)
qed

lemma bufs_init_inv:
  assumes "idpf_rx_bufs_init psz xdp arr_ok hdr kern q w = (None, q1, w1)"
    and "stack_frags w = {#}" "psz < 8192" "bq_rx_buf_size q \<in> {2048, 4096}"
  shows "rx_inv \<lparr>rs_bufs = bq_bufs q1, rs_posted = {..<bq_desc_count q - 1}, rs_world = w1, rs_mapped = True\<rparr>"
proof -
  let ?n = "bq_desc_count q"
  obtain bufs where "rx_buf_alloc_loop psz xdp (bq_rx_buf_size q) kern 0 (?n - 1) (replicate ?n rx_buf_zero) w = (None, bufs, w1)"
    and "bq_bufs q1 = bufs"
    using assms(1)
    by (auto simp: idpf_rx_bufs_init_def idpf_rx_buf_alloc_all_def Let_def post_init_bufs_keeps
        split: if_splits option.splits prod.splits)
  then show ?thesis using rx_bufs_alloc_inv assms(2-4) by blast
qed

text \<open>
  C37. From \<open>idpf_rx_bufs_init\<close> on, whatever sequence of packets arrives, of refills is made and of
  references the network stack takes and drops, and whatever pages the kernel gives, as long as no mapping
  of a page for DMA has failed (after a failed mapping \<open>idpf_alloc_page\<close> leaves the page it gave back in the
  buffer, \<open>failed_mapping_is_posted\<close>): on pages smaller than
  8 KB the buffers that the device may write to are on different pages, each of them with a reference,
  every fragment the stack holds is on a page with a reference, and none of them overlaps the
  region in which the device may write.  So the reference count comparison of \<open>idpf_rx_can_reuse_page\<close>
  and the flipping of halves are right, including the bulk updates of the counts.
\<close>

theorem rx_pages_safe:
  assumes "psz < 8192" and "bq_rx_buf_size q \<in> {2048, 4096}" and "stack_frags w = {#}"
    and "idpf_rx_bufs_init psz xdp arr_ok hdr kern q w = (None, q1, w1)"
    and "(rx_step psz reusable)\<^sup>*\<^sup>* \<lparr>rs_bufs = bq_bufs q1, rs_posted = {..<bq_desc_count q - 1}, rs_world = w1, rs_mapped = True\<rparr> s"
    and "rs_mapped s"
  shows "rx_pages_ok s"
  by (rule rx_inv_ok [OF rx_steps_inv [OF assms(5,1,6) bufs_init_inv [OF assms(4,3,1,2)]]])

text \<open>A queue of two slots: one buffer, which is received into and posted again with its other half.\<close>

definition rx_ex_bufq :: idpf_bufq where
  "rx_ex_bufq = \<lparr>bq_desc_count = 2, bq_next_to_use = 0, bq_next_to_alloc = 0,
     bq_descs = replicate 2 \<lparr>bd_buf_id = 0, pkt_addr = 0, hdr_addr = 0\<rparr>, bq_bufs = [], bq_rx_buf_size = 2048,
     bq_rx_buf_stride = 16, bq_rx_hsplit_en = False, bq_hdr_buf_pa = 0, bq_has_tail = True, bq_tail_log = []\<rparr>"

definition rx_ex_world :: page_world where
  "rx_ex_world = \<lparr>page_count = (\<lambda>_. 0), stack_frags = {#}, page_log = []\<rparr>"

definition rx_ex_buf :: "nat \<Rightarrow> nat \<Rightarrow> idpf_rx_buf" where
  "rx_ex_buf off bias = \<lparr>page_info = [\<lparr>pi_dma = 4096, pi_page = 7, page_offset = off, default_offset = 0,
     pagecnt_bias = bias, reuse_bias = 1\<rparr>, rx_page_info_zero], page_indx = 0, buf_size = 2048\<rparr>"

definition rx_ex_state :: "nat \<Rightarrow> nat \<Rightarrow> nat set \<Rightarrow> rx_frag multiset \<Rightarrow> rx_state" where
  "rx_ex_state off bias P F = \<lparr>rs_bufs = [rx_ex_buf off bias, rx_buf_zero], rs_posted = P,
     rs_world = \<lparr>page_count = (\<lambda>_. 0)(7 := 65535), stack_frags = F, page_log = [DmaMapPage 4096]\<rparr>, rs_mapped = True\<rparr>"

lemma replicate_2: "replicate 2 x = [x, x]"
  by (simp add: numeral_2_eq_2)

lemma rx_ex_init:
  "\<exists>q1. idpf_rx_bufs_init 4096 False True None (\<lambda>_. ((7, Some 4096), (0, None))) rx_ex_bufq rx_ex_world =
     (None, q1, rs_world (rx_ex_state 0 65535 {} {#})) \<and> bq_bufs q1 = rs_bufs (rx_ex_state 0 65535 {} {#})"
  by (simp add: idpf_rx_bufs_init_def idpf_rx_buf_alloc_all_def rx_ex_bufq_def replicate_2 Let_def
      rx_buf_alloc_def idpf_alloc_page_def rx_ex_world_def rx_ex_state_def rx_ex_buf_def rx_buf_zero_def
      rx_headroom_def rx_page_info_zero_def page_emit_def page_ref_set_def post_init_bufs_keeps IDPF_RX_BUF_2048_def)

lemma rx_ex_receive:
  "rx_step 4096 (\<lambda>_. True) (rx_ex_state 0 65535 {0} {#}) (rx_ex_state 2048 65534 {} {#(7, 64, 1436)#})"
proof -
  have "rx_use_buf 4096 (\<lambda>_. True) \<lparr>ans_skb = True, ans_headlen = 64, ans_page = (0, Some 0)\<rparr> None 1500
      (rx_ex_buf 0 65535) (rs_world (rx_ex_state 0 65535 {0} {#})) =
    (Some [PageCopy 7 0 64, PageFrag 7 64 1436], rx_ex_buf 2048 65534, rs_world (rx_ex_state 2048 65534 {} {#(7, 64, 1436)#}))"
    by (simp add: rx_use_buf_def idpf_rx_get_buf_page_def idpf_rx_construct_skb_def IDPF_RX_HDR_SIZE_def rx_cur_upd_def
        rx_cur_def rx_ex_buf_def idpf_rx_buf_adjust_pg_def idpf_rx_frame_truesize_def IDPF_RX_BUF_2048_def stack_add_def
        idpf_rx_splitq_recycle_buf_def idpf_rx_can_reuse_page_def rx_ex_state_def Let_def trunc16_def)
  then show ?thesis
    using rx_step.receive [of 0 "rx_ex_state 0 65535 {0} {#}" 1500
        "\<lparr>ans_skb = True, ans_headlen = 64, ans_page = (0, Some 0)\<rparr>" 4096 "\<lambda>_. True" None]
    by (simp add: rx_ex_state_def rx_ex_buf_def IDPF_RX_HDR_SIZE_def)
qed

lemma rx_ex_refill:
  "rx_step 4096 (\<lambda>_. True) (rx_ex_state 2048 65534 {} F) (rx_ex_state 2048 65534 {0} F)"
proof -
  let ?s = "rx_ex_state 2048 65534 {} F"
  have "rx_refill_page (0, Some 0) (rs_bufs ?s ! 0) (rs_world ?s) = (ret_ok, rs_bufs ?s ! 0, rs_world ?s)"
    by (simp add: rx_ex_state_def rx_ex_buf_def rx_refill_page_def rx_cur_def)
  from rx_step.refill [of 0 ?s "(0, Some 0)", OF _ _ _ this, of 4096 "\<lambda>_. True"]
  show ?thesis by (simp add: rx_ex_state_def rx_ex_buf_def)
qed

theorem rx_pages_safe_witness:
  "rx_pages_ok (rx_ex_state 2048 65534 {0} {#(7, 64, 1436)#})"
proof -
  obtain q1 where q1: "idpf_rx_bufs_init 4096 False True None (\<lambda>_. ((7, Some 4096), (0, None))) rx_ex_bufq rx_ex_world =
      (None, q1, rs_world (rx_ex_state 0 65535 {} {#}))" "bq_bufs q1 = rs_bufs (rx_ex_state 0 65535 {} {#})"
    using rx_ex_init by blast
  have "\<lparr>rs_bufs = bq_bufs q1, rs_posted = {..<bq_desc_count rx_ex_bufq - 1}, rs_world = rs_world (rx_ex_state 0 65535 {} {#}), rs_mapped = True\<rparr> =
      rx_ex_state 0 65535 {0} {#}"
    by (auto simp: q1(2) rx_ex_state_def rx_ex_bufq_def)
  then have "(rx_step 4096 (\<lambda>_. True))\<^sup>*\<^sup>* \<lparr>rs_bufs = bq_bufs q1, rs_posted = {..<bq_desc_count rx_ex_bufq - 1},
      rs_world = rs_world (rx_ex_state 0 65535 {} {#}), rs_mapped = True\<rparr> (rx_ex_state 2048 65534 {0} {#(7, 64, 1436)#})"
    using rtranclp.rtrancl_into_rtrancl [OF r_into_rtranclp [of "rx_step 4096 (\<lambda>_. True)", OF rx_ex_receive] rx_ex_refill] by (simp only:)
  then show ?thesis
    by (intro rx_pages_safe [OF _ _ _ q1(1)]) (simp_all add: rx_ex_bufq_def rx_ex_world_def rx_ex_state_def)
qed

section \<open>Buffers that come back\<close>

text \<open>
  C38. \<open>idpf_rx_clean_refillq\<close> posts the waiting buffers in their order: for some \<open>k\<close>, the first
  \<open>k\<close> ids of the refill queue are offered to the device in the \<open>k\<close> slots from \<open>next_to_alloc\<close> on, each with
  the address of its own page, which exists; no other slot changes; the other ids stay in the
  refill queue in their order, and there are some only if a page could not be allocated or mapped for the next
  one.  If anything was posted, fewer than 16 descriptors are withheld from the device.
\<close>

theorem refill_posts_in_order:
  assumes "bufq_ok q" and "refill_ok r" and "rfl_desc_count r \<le> bq_desc_count q"
    and "\<forall>x \<in> set (refill_ids r). unat x < length (bq_bufs q)"
    and "idpf_rx_clean_refillq kern q r w = (q', r', w')"
  shows "\<exists>k \<le> length (refill_ids r). refill_ok r' \<and> refill_ids r' = drop k (refill_ids r) \<and>
    bq_next_to_alloc q' = (bq_next_to_alloc q + k) mod bq_desc_count q \<and>
    (\<forall>j < k. posted_at q' ((bq_next_to_alloc q + j) mod bq_desc_count q) (unat (refill_ids r ! j))) \<and>
    (\<forall>i. i \<notin> set (ring_seg (bq_desc_count q) (bq_next_to_alloc q) k) \<longrightarrow> bq_descs q' ! i = bq_descs q ! i) \<and>
    (k < length (refill_ids r) \<longrightarrow>
       pi_page (rx_cur (bq_bufs q' ! unat (refill_ids r ! k))) = NULL \<or> snd (kern k) = None) \<and>
    (k \<noteq> 0 \<longrightarrow> ring_dist (bq_desc_count q) (bq_next_to_use q') (bq_next_to_alloc q') < IDPF_RX_BUF_POST_STRIDE)"
  by (rule idpf_rx_clean_refillq_spec [OF assms(5,1-4)])

definition rx_ex_refillq :: idpf_sw_queue where
  "rx_ex_refillq = idpf_post_buf_refill (rx_refillq_init 2) 0"

definition rx_ex_posted :: idpf_bufq where
  "rx_ex_posted = rx_ex_bufq\<lparr>bq_bufs := [rx_ex_buf 2048 65534, rx_buf_zero], bq_next_to_alloc := 1\<rparr>"

lemma clean_refillq_loop_2:
  "clean_refillq_loop kern 2 cleaned nta q r w = clean_refillq_loop kern (Suc (Suc 0)) cleaned nta q r w"
  by (simp add: numeral_2_eq_2)

theorem refill_posts_in_order_witness:
  "posted_at (fst (idpf_rx_clean_refillq (\<lambda>_. (0, Some 0)) rx_ex_posted rx_ex_refillq rx_ex_world)) 1 0"
proof -
  have r: "refill_ok (rx_refillq_init 2)" "refill_ids (rx_refillq_init 2) = []" "rfl_desc_count (rx_refillq_init 2) = 2"
    using rx_refillq_init_ok [of 2] by (simp_all add: rx_refillq_init_def)
  then have e: "refill_ok rx_ex_refillq" "refill_ids rx_ex_refillq = [0]"
    using length_refill_ids [of "rx_refillq_init 2"] by (simp_all add: rx_ex_refillq_def refill_ok_post refill_ids_post)
  have n: "rfl_desc_count rx_ex_refillq = 2"
    using r(3) by (simp add: rx_ex_refillq_def idpf_post_buf_refill_def Let_def)
  have q: "bufq_ok rx_ex_posted" "bq_desc_count rx_ex_posted = 2" "bq_next_to_alloc rx_ex_posted = 1" "length (bq_bufs rx_ex_posted) = 2"
    by (simp_all add: bufq_ok_def rx_ex_posted_def rx_ex_bufq_def bufs_shaped_def rx_ex_buf_def rx_buf_zero_def)
  have ex: "rx_ex_refillq = \<lparr>rfl_ring = [refill_desc 0 True, 0], rfl_GEN_CHK = True, rfl_RFL_GEN_CHK = True,
      rfl_desc_count = 2, rfl_next_to_use = 1, rfl_next_to_clean = 0\<rparr>"
    by (simp add: rx_ex_refillq_def idpf_post_buf_refill_def rx_refillq_init_def replicate_2 Let_def)
  have clean2: "clean_refillq_loop (\<lambda>_. (0, Some 0)) 2 0 1 rx_ex_posted rx_ex_refillq rx_ex_world =
      (1, 0, bufq_write_desc rx_ex_posted 1 0, refill_bump_ntc rx_ex_refillq, rx_ex_world)"
    by (simp add: ex clean_refillq_loop_2 idpf_rx_update_bufq_desc_def rx_refill_page_def rx_ex_posted_def rx_ex_buf_def
        rx_cur_def bufq_bump_def rx_ex_bufq_def Let_def refill_bump_ntc_def)
  obtain q' r' w' where c: "idpf_rx_clean_refillq (\<lambda>_. (0, Some 0)) rx_ex_posted rx_ex_refillq rx_ex_world = (q', r', w')"
    by (metis prod_cases3)
  have nta: "bq_next_to_alloc (fst (idpf_rx_clean_refillq (\<lambda>_. (0, Some 0)) rx_ex_posted rx_ex_refillq rx_ex_world)) = 0"
    using clean2 by (simp add: idpf_rx_clean_refillq_def n q Let_def)
  have fits: "rfl_desc_count rx_ex_refillq \<le> bq_desc_count rx_ex_posted"
    "\<forall>x \<in> set (refill_ids rx_ex_refillq). unat x < length (bq_bufs rx_ex_posted)" by (simp_all add: e n q)
  from refill_posts_in_order [OF q(1) e(1) fits c] obtain k where "k \<le> length (refill_ids rx_ex_refillq)"
      "bq_next_to_alloc q' = (bq_next_to_alloc rx_ex_posted + k) mod bq_desc_count rx_ex_posted"
      "\<forall>j < k. posted_at q' ((bq_next_to_alloc rx_ex_posted + j) mod bq_desc_count rx_ex_posted) (unat (refill_ids rx_ex_refillq ! j))"
    by blast
  then show ?thesis using nta unfolding e q by (cases "k = 0") (auto simp: c)
qed

section \<open>The receive loop\<close>

text \<open>
  C39. \<open>idpf_rx_splitq_clean\<close> always returns: whatever the kernel answers and however many of the
  descriptors the device has finished, one lap is enough.  It delivers as many packets as it reports,
  at most the budget, and it consumes a prefix of the finished descriptors in ring order and
  gives the buffer of each of them (of the split queue format) back, once and in order, to the refill queue the
  descriptor names.  It leaves finished descriptors behind only when the budget is used up, the
  kernel has no memory for a packet, or a descriptor has neither a header nor data.
\<close>

theorem rx_clean_returns:
  assumes "rxq_valid q" and "room (rx_ready (length (rq_descs q)) q) (rq_refillqs q)"
  shows "\<exists>pkts q' w' c. idpf_rx_splitq_clean psz reusable env budget q w = Some (pkts, q', w') \<and> pkts \<le> budget \<and>
    length (rq_delivered q') = length (rq_delivered q) + pkts \<and>
    c \<le> length (rx_ready (length (rq_descs q)) q) \<and> rx_pos q' = rx_pos (rx_adv c q) \<and>
    posted (take c (rx_ready (length (rq_descs q)) q)) (rq_refillqs q) (rq_refillqs q') \<and>
    (rx_plenty env (rx_ready (length (rq_descs q)) q) \<longrightarrow>
       pkts = budget \<or> c = length (rx_ready (length (rq_descs q)) q))"
  using idpf_rx_splitq_clean_spec [OF assms, of psz reusable env budget w] by (fastforce simp: rx_loop_ok_def)

definition rx_ex_desc :: rx_desc where
  "rx_ex_desc = \<lparr>rxdid_ucast = 2, status_err0_qw0 = 0, ptype_err_fflags0 = 0, pktlen_gen_bufq_id = 0x4064,
     hdrlen_flags = 0, status_err0_qw1 = 2, ts_low = 0, rx_buf_id = 0, rx_misc = 0, hash1 = 0, hash2 = 0, hash3 = 0,
     l2tag1 = 0, ts_high = 0\<rparr>"

definition rx_ex_rxq :: idpf_rxq where
  "rx_ex_rxq = \<lparr>rq_descs = [rx_ex_desc, rx_ex_desc\<lparr>pktlen_gen_bufq_id := 0\<rparr>], rq_next_to_clean = 0, rq_GEN_CHK = True,
     rq_skb = None, rq_refillqs = [Some (rx_refillq_init 2)], rq_bufs = [[rx_ex_buf 0 65535]], rq_delivered = [],
     rq_features = \<lparr>rf_rxhash = False, rf_rxcsum = False, rf_simics = False, rf_tstmp_en = False, rf_cached_phc_time = 0,
       rf_ptype_lkup = (\<lambda>_. \<lparr>dec_known = False, dec_outer_ip = 0, dec_outer_ip_ver = 0, dec_inner_prot = 0,
         dec_payload_layer = 0\<rparr>)\<rparr>\<rparr>"

definition rx_ex_env :: rx_env where
  "rx_ex_env = \<lparr>ans_skb = True, ans_headlen = 0, ans_page = (0, None), env_hdr_skb = True, env_vlan = False\<rparr>"

text \<open>One packet of 100 bytes is ready.\<close>

theorem rx_clean_returns_witness:
  "\<exists>pkts q' w' c. idpf_rx_splitq_clean 4096 (\<lambda>_. True) (\<lambda>_. rx_ex_env) 64 rx_ex_rxq rx_ex_world = Some (pkts, q', w') \<and>
     pkts \<le> 64 \<and> length (rq_delivered q') = pkts \<and> c \<le> 1 \<and> rx_pos q' = rx_pos (rx_adv c rx_ex_rxq) \<and>
     posted (take c [rx_ex_desc]) (rq_refillqs rx_ex_rxq) (rq_refillqs q') \<and> (pkts = 64 \<or> c = 1)"
proof -
  have gen: "rxd_gen rx_ex_desc" "\<not> rxd_gen (rx_ex_desc\<lparr>pktlen_gen_bufq_id := 0\<rparr>)"
    by (simp_all add: rxd_gen_def rx_ex_desc_def bit_numeral_rec)
  have rd: "rx_ready (length (rq_descs rx_ex_rxq)) rx_ex_rxq = [rx_ex_desc]"
    by (simp add: rx_ex_rxq_def idpf_rx_bump_ntc_def gen Let_def)
  have v: "rxq_valid rx_ex_rxq"
    using rx_refillq_init_ok [of 2]
    by (auto simp: rxq_valid_def rx_ex_rxq_def rx_ex_desc_def rxd_good_def rxd_rxdid_def rxd_bufq_id_def)
  have rm: "room [rx_ex_desc] (rq_refillqs rx_ex_rxq)"
    by (auto simp: room_def rx_ex_rxq_def rx_refillq_init_def refill_used_def)
  have pl: "rx_plenty (\<lambda>_. rx_ex_env) [rx_ex_desc]"
    by (simp add: rx_plenty_def rx_ex_env_def has_data_def rxd_pkt_len_def rx_ex_desc_def mask_numeral)
  have dl: "rq_delivered rx_ex_rxq = []" by (simp add: rx_ex_rxq_def)
  show ?thesis
    using rx_clean_returns [OF v, of 4096 "\<lambda>_. True" "\<lambda>_. rx_ex_env" 64 rx_ex_world, unfolded rd, OF rm] pl dl
    by (simp add: One_nat_def)
qed

section \<open>Timestamps\<close>

lemma take_bit_32_64:
  fixes a b :: int
  shows "take_bit 32 (take_bit 64 a + b) = take_bit 32 (a + b)" "take_bit 32 (take_bit 64 a - b) = take_bit 32 (a - b)"
proof -
  have t: "take_bit 32 (take_bit 64 a) = take_bit 32 a" by simp
  show "take_bit 32 (take_bit 64 a + b) = take_bit 32 (a + b)" by (metis t take_bit_add)
  show "take_bit 32 (take_bit 64 a - b) = take_bit 32 (a - b)" by (metis t take_bit_diff)
qed

lemma ucast_add_of_nat: "(ucast (a + of_nat k :: u64) :: u32) = ucast a + of_nat k"
  by transfer (simp add: take_bit_32_64)

lemma ucast_diff_of_nat: "(ucast (a - of_nat k :: u64) :: u32) = ucast a - of_nat k"
  by transfer (simp add: take_bit_32_64)

lemma ucast_of_nat_32: "k < 2 ^ 32 \<Longrightarrow> (ucast (of_nat k :: u32) :: u64) = of_nat k"
  by transfer (simp add: take_bit_int_eq_self)

lemma of_nat_less_32: "k < 2 ^ 32 \<Longrightarrow> n < 2 ^ 32 \<Longrightarrow> (of_nat k :: u32) < of_nat n \<longleftrightarrow> k < n"
  by (simp add: word_less_nat_alt unat_of_nat)

lemma neg_of_nat_32:
  assumes "0 < k" and "k \<le> 2 ^ 31"
  shows "(- of_nat k :: u32) > 2147483647"
proof -
  have "(of_nat (2 ^ 32 - k) :: u32) = of_nat (2 ^ 32) - of_nat k" using assms by (intro of_nat_diff) simp
  moreover have "(of_nat (2 ^ 32) :: u32) = 0" by (subst word_of_nat_eq_0_iff) simp
  ultimately have eq: "(- of_nat k :: u32) = of_nat (2 ^ 32 - k)" by simp
  have "(of_nat 2147483647 :: u32) < of_nat (2 ^ 32 - k)" using assms by (subst of_nat_less_32) auto
  then show ?thesis unfolding eq by simp
qed

text \<open>
  Extending a timestamp inverts cutting it off: if the cached time of the device clock is less
  than \<open>2\<^sup>3\<^sup>1\<close> ns behind the packet or at most \<open>2\<^sup>3\<^sup>1\<close> ns ahead of it, the 64 bit time computed from
  the low 32 bits in the descriptor is the time of the packet, also across a wrap of the 32 or the 64 bits.
\<close>

theorem tstamp_extend_inverts:
  assumes "k < 2 ^ 31 \<and> t = cached + of_nat k \<or> k \<le> 2 ^ 31 \<and> t = cached - of_nat k"
  shows "idpf_ptp_tstamp_extend_32b_to_64b cached (ucast t) = t"
  using assms
proof
  assume "k < 2 ^ 31 \<and> t = cached + of_nat k"
  then show ?thesis
    using of_nat_less_32 [of 2147483647 k] ucast_of_nat_32 [of k]
    by (simp add: idpf_ptp_tstamp_extend_32b_to_64b_def Let_def ucast_add_of_nat)
next
  assume "k \<le> 2 ^ 31 \<and> t = cached - of_nat k"
  then show ?thesis
    using neg_of_nat_32 [of k] ucast_of_nat_32 [of k]
    by (cases "k = 0") (simp_all add: idpf_ptp_tstamp_extend_32b_to_64b_def Let_def ucast_diff_of_nat)
qed

theorem tstamp_extend_inverts_witness:
  "idpf_ptp_tstamp_extend_32b_to_64b 0x1FFFFFFF0 (ucast (0x200000010 :: u64)) = 0x200000010"
  using tstamp_extend_inverts [of 32 "0x200000010" "0x1FFFFFFF0"] by simp

section \<open>What goes wrong\<close>

text \<open>
  On pages of 8 KB and more \<open>idpf_rx_construct_skb\<close> moves the offset by the length of the fragment,
  rounded up, although the fragment begins behind the header: with a header of 128 bytes and 1408 bytes
  in all, the next packet is written over the last 128 bytes of the fragment the stack still has.
\<close>

theorem large_page_overlap:
  assumes "psz \<ge> 8192" and "page_indx b < length (page_info b)" and "0 < hl" "hl < sz" "sz > IDPF_RX_HDR_SIZE"
    and "SKB_DATA_ALIGN (sz - hl) < sz"
  shows "\<exists>b'. idpf_rx_construct_skb psz True hl b sz w =
      (Some [PageCopy (pi_page (rx_cur b)) (page_offset (rx_cur b)) hl,
             PageFrag (pi_page (rx_cur b)) (page_offset (rx_cur b) + hl) (sz - hl)], b',
       stack_add (pi_page (rx_cur b), page_offset (rx_cur b) + hl, sz - hl) w) \<and>
    pi_page (rx_cur b') = pi_page (rx_cur b) \<and>
    page_offset (rx_cur b') < page_offset (rx_cur b) + hl + (sz - hl)"
  using assms
  by (auto simp: idpf_rx_construct_skb_def Let_def idpf_rx_buf_adjust_pg_def idpf_rx_frame_truesize_def rx_cur_upd_def rx_cur_def)

text \<open>
  When the DMA mapping of a new page fails, \<open>idpf_alloc_page\<close> gives the page back but keeps it in the
  page info, so the next refill takes the buffer to have a page and offers the device the failed mapping's address.
\<close>

theorem failed_mapping_is_posted:
  assumes "pi_page (rx_cur b) = NULL" and "page_indx b < length (page_info b)" and "p \<noteq> NULL" and "page_count w p = 0"
  shows "\<exists>b1. rx_refill_page (p, None) b w = (Some ENOMEM, b1, w) \<and>
    (\<forall>kern. rx_refill_page kern b1 w = (ret_ok, b1, w)) \<and> pi_dma (rx_cur b1) = - 1 \<and>
    pi_page (rx_cur b1) = p \<and> page_count w p = 0"
  using assms by (auto simp: rx_refill_page_def idpf_alloc_page_def rx_cur_upd_def rx_cur_def)

text \<open>
  A descriptor of another format is skipped and its buffer is not given back to any refill queue.
\<close>

theorem other_format_loses_buffer:
  assumes "length (rq_descs q) = Suc n" and "0 < budget" and "\<not> rx_stuck q"
    and "\<not> rxd_good (rq_descs q ! rq_next_to_clean q)" and "rx_stuck (idpf_rx_bump_ntc q)"
  shows "idpf_rx_splitq_clean psz reusable env budget q w = Some (0, idpf_rx_bump_ntc q, w) \<and>
    rq_refillqs (idpf_rx_bump_ntc q) = rq_refillqs q"
proof -
  have "rx_clean_loop psz reusable env n budget 0 (idpf_rx_bump_ntc q) w = Some (0, idpf_rx_bump_ntc q, w)"
    using assms(5) by (cases n) (auto simp: rx_stuck_def Let_def)
  then show ?thesis
    using assms by (simp add: idpf_rx_splitq_clean_def rx_stuck_def rxd_good_def Let_def)
qed

text \<open>
  A descriptor with neither header nor data ends the loop without being consumed, and so it does in
  every later call: the queue is stuck.
\<close>

theorem empty_descriptor_blocks:
  assumes "rxq_valid q" and "0 < budget" and "\<not> rx_stuck q" and "rxd_good (rq_descs q ! rq_next_to_clean q)"
    and "\<not> has_data (rq_descs q ! rq_next_to_clean q)" and "rq_skb q = None"
  shows "idpf_rx_splitq_clean psz reusable env budget q w = Some (0, q, w)"
proof -
  let ?d = "rq_descs q ! rq_next_to_clean q"
  have m: "?d \<in> set (rq_descs q)" and n: "0 < length (rq_descs q)" using assms(1) by (auto simp: rxq_valid_def)
  have "rx_clean_desc psz reusable (env k) ?d q w = Some (Inl (), q, w)" for k
    using assms m by (auto simp: rxq_valid_def rx_clean_desc_def Let_def rx_take_data_def has_data_def)
  with n show ?thesis
    using assms(2-4) by (cases "length (rq_descs q)")
      (simp_all add: idpf_rx_splitq_clean_def rx_stuck_def rxd_good_def Let_def)
qed

lemma rx_use_buf_copy:
  assumes "ans_skb ans" and "sz \<le> IDPF_RX_HDR_SIZE" and "page_indx b < length (page_info b)"
  shows "\<exists>b' w'. rx_use_buf psz reusable ans None sz b w =
    (Some [PageCopy (pi_page (rx_cur b)) (page_offset (rx_cur b)) sz], b', w')"
  using assms
  by (auto simp: rx_use_buf_def idpf_rx_construct_skb_def Let_def idpf_rx_get_buf_page_def rx_cur_upd_def rx_cur_def
      split: prod.splits)

text \<open>
  When the packet for a split header cannot be allocated but the one for the data can, the packet
  delivered begins with the payload: the header is lost without an error.
\<close>

theorem header_lost:
  assumes "rxd_hdr_len d \<noteq> 0" and "0 < rxd_pkt_len d" "rxd_pkt_len d \<le> IDPF_RX_HDR_SIZE"
    and "\<not> env_hdr_skb env" and "ans_skb env" and "idpf_rx_splitq_is_eop d" and "rq_skb q = None"
    and "rxd_bufq_id d < length (rq_refillqs q)" "rxd_bufq_id d < length (rq_bufs q)"
    and "rq_refillqs q ! rxd_bufq_id d = Some r" "unat (rx_buf_id d) < length (rq_bufs q ! rxd_bufq_id d)"
    and "b = rq_bufs q ! rxd_bufq_id d ! unat (rx_buf_id d)" "page_indx b < length (page_info b)"
    and "\<not> dec_known (rf_ptype_lkup (rq_features q) (unat (ptype_err_fflags0 d AND mask 10)))"
  shows "\<exists>q' w'. rx_clean_desc psz reusable env d q w = Some (Inr 1, q', w') \<and>
    map pkt_pieces (rq_delivered q') = map pkt_pieces (rq_delivered q) @
      [[PageCopy (pi_page (rx_cur b)) (page_offset (rx_cur b)) (rxd_pkt_len d)]]"
proof -
  have a: "ans_skb (rx_answers.truncate env)" using assms(5) by (simp add: rx_answers.defs)
  obtain b' w' where u: "rx_take_data psz reusable (rx_answers.truncate env) None (rxd_pkt_len d) b w =
      (Some [PageCopy (pi_page (rx_cur b)) (page_offset (rx_cur b)) (rxd_pkt_len d)], b', w')"
    using rx_use_buf_copy [OF a assms(3,13), of psz reusable w] assms(2) by (auto simp: rx_take_data_def)
  have "rq_features (idpf_rx_bump_ntc x) = rq_features x" for x by (simp add: idpf_rx_bump_ntc_def Let_def)
  then show ?thesis
    using assms(1,4,6-12,14) u
    by (simp add: rx_clean_desc_def Let_def idpf_rx_hdr_construct_skb_def rx_finish_pkt_def
        idpf_rx_process_skb_fields_def idpf_receive_skb_def)
qed

end
