(* ===== verification/Idpf_Mac.thy ===== *)
theory Idpf_Mac
  imports Idpf_Controlq_Setup
begin

text \<open>
  MAC filters and promiscuous mode (\<open>idpf_lib.c\<close>, \<open>idpf_virtchnl.c\<close>).  The driver keeps a list of
  the addresses a vport receives; a filter that the device does not know yet is marked \<open>add\<close>, one
  that is to be removed \<open>remove\<close>, and \<open>idpf_add_del_mac_filters\<close> sends the marked ones in messages of
  at most 20.

  The state has what the functions reach: the list with the address of each filter object, the
  vport's and the net device's own address, flags, the allocator (\<open>idpf_world\<close>) and a log of the
  messages.  \<open>xn_reply k\<close> is the result of \<open>idpf_vc_xn_exec\<close> for message number \<open>k\<close>; for an
  asynchronous message it only says whether it was sent.  An address is a list of six bytes.
\<close>

section \<open>State\<close>

type_synonym mac = "u8 list"

record idpf_mac_filter =
  macaddr :: mac
  mf_remove :: bool
  mf_add :: bool

datatype mac_addr_type = VIRTCHNL2_MAC_ADDR_PRIMARY | VIRTCHNL2_MAC_ADDR_EXTRA

text \<open>A list of addresses to add (\<open>True\<close>) or delete, asynchronous or not, or a promiscuous mode.\<close>

datatype mac_msg =
    MacAddrList bool bool u32 "(mac \<times> mac_addr_type) list"
  | PromiscInfo u32 u16

record idpf_vport_mac =
  mac_filter_list :: "(ptr \<times> idpf_mac_filter) list"
  default_mac_addr :: mac
  dev_addr :: mac
  mv_vport_id :: u32
  IDPF_VPORT_UP :: bool
  PROMISC_UC :: bool
  PROMISC_MC :: bool
  adapter_PROMISC_MC :: bool
  CAP_MACFILTER :: bool
  CAP_PROMISC :: bool
  mv_world :: idpf_world
  mv_sent :: "mac_msg list"
  xn_reply :: "nat \<Rightarrow> ret"

definition IDPF_NUM_FILTERS_PER_MSG :: nat where
  "IDPF_NUM_FILTERS_PER_MSG = 20"

text \<open>Neither a multicast address nor all zero.\<close>

definition is_valid_ether_addr :: "mac \<Rightarrow> bool" where
  "is_valid_ether_addr a \<longleftrightarrow> \<not> bit (a ! 0) 0 \<and> (\<exists>x \<in> set a. x \<noteq> 0)"

text \<open>\<open>idpf_vc_xn_exec\<close> as the functions of this theory see it.\<close>

definition mac_xn_exec :: "mac_msg \<Rightarrow> idpf_vport_mac \<Rightarrow> ret \<times> idpf_vport_mac" where
  "mac_xn_exec msg s = (xn_reply s (length (mv_sent s)), s\<lparr>mv_sent := mv_sent s @ [msg]\<rparr>)"

section \<open>Sending filters\<close>

definition idpf_set_mac_type :: "mac \<Rightarrow> mac \<Rightarrow> mac_addr_type" where
  "idpf_set_mac_type dflt a = (if dflt = a then VIRTCHNL2_MAC_ADDR_PRIMARY else VIRTCHNL2_MAC_ADDR_EXTRA)"

definition mac_marked :: "bool \<Rightarrow> idpf_mac_filter \<Rightarrow> bool" where
  "mac_marked add f = (if add then mf_add f else mf_remove f)"

definition mac_unmark :: "bool \<Rightarrow> idpf_mac_filter \<Rightarrow> idpf_mac_filter" where
  "mac_unmark add f = (if add then f\<lparr>mf_add := False\<rparr> else f\<lparr>mf_remove := False\<rparr>)"

text \<open>The loop that copies \<open>tot\<close> marked filters to the array, of which \<open>i\<close> have been copied.\<close>

fun mac_collect ::
  "bool \<Rightarrow> mac \<Rightarrow> nat \<Rightarrow> nat \<Rightarrow> (ptr \<times> idpf_mac_filter) list
    \<Rightarrow> (mac \<times> mac_addr_type) list \<times> (ptr \<times> idpf_mac_filter) list" where
  "mac_collect add dflt tot i [] = ([], [])"
| "mac_collect add dflt tot i ((p, f) # fs) =
     (if mac_marked add f then
        let e = (macaddr f, idpf_set_mac_type dflt (macaddr f)) in
        if Suc i = tot then ([e], (p, mac_unmark add f) # fs)
        else case mac_collect add dflt tot (Suc i) fs of (es, fs) \<Rightarrow> (e # es, (p, mac_unmark add f) # fs)
      else case mac_collect add dflt tot i fs of (es, fs) \<Rightarrow> (es, (p, f) # fs))"

text \<open>
  The loop over the messages with \<open>n\<close> left; \<open>es\<close> are the entries from \<open>&mac_addr[k]\<close> on and \<open>ma\<close> the
  message buffer, which is used again while messages are full.  The label \<open>list_prep_error\<close> skips
  \<open>kfree(ma_list)\<close>, which is \<open>NULL\<close> there.
\<close>

primrec mac_send_loop ::
  "bool \<Rightarrow> bool \<Rightarrow> nat \<Rightarrow> ptr \<Rightarrow> (mac \<times> mac_addr_type) list \<Rightarrow> idpf_vport_mac
    \<Rightarrow> ret \<times> ptr \<times> idpf_vport_mac" where
  "mac_send_loop add async 0 ma es s = (ret_ok, ma, s)"
| "mac_send_loop add async (Suc n) ma es s =
     (let num_entries = min (length es) IDPF_NUM_FILTERS_PER_MSG;
          (ma, w) = (if ma = NULL \<or> num_entries \<noteq> IDPF_NUM_FILTERS_PER_MSG
                     then kcalloc (kfree ma (mv_world s)) else (ma, mv_world s));
          s = s\<lparr>mv_world := w\<rparr>
      in if ma = NULL then (Some ENOMEM, NULL, s)
         else case mac_xn_exec (MacAddrList add async (mv_vport_id s) (take num_entries es)) s of
           (Some e, s) \<Rightarrow> (Some e, ma, s)
         | (None, s) \<Rightarrow> mac_send_loop add async n ma (drop num_entries es) s)"

definition idpf_add_del_mac_filters :: "bool \<Rightarrow> bool \<Rightarrow> idpf_vport_mac \<Rightarrow> ret \<times> idpf_vport_mac" where
  "idpf_add_del_mac_filters add async s =
     (let total_filters = length (filter (\<lambda>x. mac_marked add (snd x)) (mac_filter_list s)) in
      if total_filters = 0 then (ret_ok, s)
      else case kcalloc (mv_world s) of (mac_addr, w) \<Rightarrow>
        let s = s\<lparr>mv_world := w\<rparr> in
        if mac_addr = NULL then (Some ENOMEM, s)
        else case mac_collect add (default_mac_addr s) total_filters 0 (mac_filter_list s) of (es, fs) \<Rightarrow>
          let num_msgs = (total_filters + IDPF_NUM_FILTERS_PER_MSG - 1) div IDPF_NUM_FILTERS_PER_MSG in
          case mac_send_loop add async num_msgs NULL es (s\<lparr>mac_filter_list := fs\<rparr>) of
            (err, ma, s) \<Rightarrow> (err, s\<lparr>mv_world := kfree mac_addr (kfree ma (mv_world s))\<rparr>))"

section \<open>The list of filters\<close>

definition idpf_find_mac_filter :: "idpf_vport_mac \<Rightarrow> mac \<Rightarrow> (ptr \<times> idpf_mac_filter) option" where
  "idpf_find_mac_filter s a = List.find (\<lambda>x. macaddr (snd x) = a) (mac_filter_list s)"

definition mac_list_del :: "ptr \<Rightarrow> idpf_vport_mac \<Rightarrow> idpf_vport_mac" where
  "mac_list_del p s = s\<lparr>mac_filter_list := filter (\<lambda>x. fst x \<noteq> p) (mac_filter_list s)\<rparr>"

definition mac_list_set :: "ptr \<Rightarrow> (idpf_mac_filter \<Rightarrow> idpf_mac_filter) \<Rightarrow> idpf_vport_mac \<Rightarrow> idpf_vport_mac" where
  "mac_list_set p g s =
     s\<lparr>mac_filter_list := map (\<lambda>x. if fst x = p then (p, g (snd x)) else x) (mac_filter_list s)\<rparr>"

text \<open>\<open>list_del\<close> and \<open>kfree\<close> of one filter.\<close>

definition mac_free_filter :: "ptr \<Rightarrow> idpf_vport_mac \<Rightarrow> idpf_vport_mac" where
  "mac_free_filter p s = (mac_list_del p s)\<lparr>mv_world := kfree p (mv_world s)\<rparr>"

text \<open>\<open>__idpf_del_mac_filter\<close>, which returns 0, and \<open>__idpf_add_mac_filter\<close>.\<close>

definition del_mac_filter_locked :: "mac \<Rightarrow> idpf_vport_mac \<Rightarrow> idpf_vport_mac" where
  "del_mac_filter_locked a s = (case idpf_find_mac_filter s a of None \<Rightarrow> s | Some (p, f) \<Rightarrow> mac_free_filter p s)"

definition add_mac_filter_locked :: "mac \<Rightarrow> idpf_vport_mac \<Rightarrow> ret \<times> idpf_vport_mac" where
  "add_mac_filter_locked a s = (case idpf_find_mac_filter s a of
     Some (p, f) \<Rightarrow> (ret_ok, mac_list_set p (\<lambda>f. f\<lparr>mf_remove := False\<rparr>) s)
   | None \<Rightarrow> (case kcalloc (mv_world s) of (p, w) \<Rightarrow>
       if p = NULL then (Some ENOMEM, s\<lparr>mv_world := w\<rparr>)
       else (ret_ok, s\<lparr>mv_world := w,
              mac_filter_list := mac_filter_list s @ [(p, \<lparr>macaddr = a, mf_remove = False, mf_add = True\<rparr>)]\<rparr>)))"

definition idpf_del_mac_filter :: "bool \<Rightarrow> mac \<Rightarrow> idpf_vport_mac \<Rightarrow> ret \<times> idpf_vport_mac" where
  "idpf_del_mac_filter async a s = (case idpf_find_mac_filter s a of
     None \<Rightarrow> (Some EINVAL, s)
   | Some (p, f) \<Rightarrow>
       let s = mac_list_set p (\<lambda>f. f\<lparr>mf_remove := True\<rparr>) s in
       if IDPF_VPORT_UP s then
         case idpf_add_del_mac_filters False async s of
           (Some e, s) \<Rightarrow> (Some e, s)
         | (None, s) \<Rightarrow> (ret_ok, del_mac_filter_locked a s)
       else (ret_ok, del_mac_filter_locked a s))"

definition idpf_add_mac_filter :: "bool \<Rightarrow> mac \<Rightarrow> idpf_vport_mac \<Rightarrow> ret \<times> idpf_vport_mac" where
  "idpf_add_mac_filter async a s = (case add_mac_filter_locked a s of
     (Some e, s) \<Rightarrow> (Some e, s)
   | (None, s) \<Rightarrow> if IDPF_VPORT_UP s then idpf_add_del_mac_filters True async s else (ret_ok, s))"

primrec mac_free_list :: "ptr list \<Rightarrow> idpf_vport_mac \<Rightarrow> idpf_vport_mac" where
  "mac_free_list [] s = s"
| "mac_free_list (p # ps) s = mac_free_list ps (mac_free_filter p s)"

definition idpf_del_all_mac_filters :: "idpf_vport_mac \<Rightarrow> idpf_vport_mac" where
  "idpf_del_all_mac_filters s = mac_free_list (map fst (mac_filter_list s)) s"

definition idpf_restore_mac_filters :: "idpf_vport_mac \<Rightarrow> idpf_vport_mac" where
  "idpf_restore_mac_filters s =
     snd (idpf_add_del_mac_filters True False
       (s\<lparr>mac_filter_list := map (\<lambda>x. (fst x, (snd x)\<lparr>mf_add := True\<rparr>)) (mac_filter_list s)\<rparr>))"

definition idpf_remove_mac_filters :: "idpf_vport_mac \<Rightarrow> idpf_vport_mac" where
  "idpf_remove_mac_filters s =
     snd (idpf_add_del_mac_filters False False
       (s\<lparr>mac_filter_list := map (\<lambda>x. (fst x, (snd x)\<lparr>mf_remove := True\<rparr>)) (mac_filter_list s)\<rparr>))"

section \<open>The address of the vport\<close>

definition idpf_deinit_mac_addr :: "idpf_vport_mac \<Rightarrow> idpf_vport_mac" where
  "idpf_deinit_mac_addr s = del_mac_filter_locked (default_mac_addr s) s"

text \<open>\<open>rnd\<close> is the address \<open>eth_hw_addr_random\<close> chooses.\<close>

definition idpf_init_mac_addr :: "mac \<Rightarrow> idpf_vport_mac \<Rightarrow> ret \<times> idpf_vport_mac" where
  "idpf_init_mac_addr rnd s =
     (if is_valid_ether_addr (default_mac_addr s)
      then idpf_add_mac_filter False (default_mac_addr s) (s\<lparr>dev_addr := default_mac_addr s\<rparr>)
      else if \<not> CAP_MACFILTER s then (Some EINVAL, s)
      else
        let s = s\<lparr>dev_addr := rnd\<rparr> in
        case idpf_add_mac_filter False (dev_addr s) s of
          (Some e, s) \<Rightarrow> (Some e, s)
        | (None, s) \<Rightarrow> (ret_ok, s\<lparr>default_mac_addr := dev_addr s\<rparr>))"

text \<open>The result is \<open>Inr\<close> for \<open>-EADDRNOTAVAIL\<close>, which no other function returns.\<close>

definition idpf_set_mac :: "mac \<Rightarrow> idpf_vport_mac \<Rightarrow> (ret + unit) \<times> idpf_vport_mac" where
  "idpf_set_mac a s =
     (if \<not> CAP_MACFILTER s then (Inl (Some EOPNOTSUPP), s)
      else if \<not> is_valid_ether_addr a then (Inr (), s)
      else if dev_addr s = a then (Inl ret_ok, s)
      else
        let old_mac_addr = default_mac_addr s; s = s\<lparr>default_mac_addr := a\<rparr> in
        case idpf_add_mac_filter False a s of
          (Some e, s) \<Rightarrow> (Inl (Some e), (del_mac_filter_locked a s)\<lparr>default_mac_addr := dev_addr s\<rparr>)
        | (None, s) \<Rightarrow>
            (Inl ret_ok,
             (if is_valid_ether_addr old_mac_addr then del_mac_filter_locked old_mac_addr s else s)\<lparr>dev_addr := a\<rparr>))"

section \<open>The stack's requests\<close>

definition idpf_addr_sync :: "mac \<Rightarrow> idpf_vport_mac \<Rightarrow> ret \<times> idpf_vport_mac" where
  "idpf_addr_sync a s = idpf_add_mac_filter True a s"

definition idpf_addr_unsync :: "mac \<Rightarrow> idpf_vport_mac \<Rightarrow> ret \<times> idpf_vport_mac" where
  "idpf_addr_unsync a s =
     (if a = dev_addr s then (ret_ok, s) else (ret_ok, snd (idpf_del_mac_filter True a s)))"

definition idpf_set_promiscuous :: "idpf_vport_mac \<Rightarrow> ret \<times> idpf_vport_mac" where
  "idpf_set_promiscuous s =
     mac_xn_exec (PromiscInfo (mv_vport_id s) ((if PROMISC_UC s then 1 else 0) OR (if PROMISC_MC s then 2 else 0))) s"

text \<open>
  \<open>__dev_uc_sync\<close> and \<open>__dev_mc_sync\<close> call the two callbacks for the addresses that are new and
  gone: \<open>acts\<close> has these calls in order.
\<close>

datatype addr_call = AddrSync mac | AddrUnsync mac

primrec mac_addr_call :: "addr_call \<Rightarrow> idpf_vport_mac \<Rightarrow> idpf_vport_mac" where
  "mac_addr_call (AddrSync a) s = snd (idpf_addr_sync a s)"
| "mac_addr_call (AddrUnsync a) s = snd (idpf_addr_unsync a s)"

definition promisc_flags :: "bool \<Rightarrow> bool \<Rightarrow> idpf_vport_mac \<Rightarrow> bool \<times> idpf_vport_mac" where
  "promisc_flags iff_promisc iff_allmulti s =
     (let c1 = (iff_promisc \<and> \<not> PROMISC_UC s);
          s = (if c1 then s\<lparr>PROMISC_UC := True, adapter_PROMISC_MC := True\<rparr> else s);
          c2 = (\<not> iff_promisc \<and> PROMISC_UC s);
          s = (if c2 then s\<lparr>PROMISC_UC := False\<rparr> else s);
          c3 = (iff_allmulti \<and> \<not> PROMISC_MC s);
          s = (if c3 then s\<lparr>PROMISC_MC := True\<rparr> else s);
          c4 = (\<not> (iff_allmulti \<or> iff_promisc) \<and> PROMISC_MC s);
          s = (if c4 then s\<lparr>PROMISC_MC := False\<rparr> else s)
      in (c1 \<or> c2 \<or> c3 \<or> c4, s))"

definition idpf_set_rx_mode :: "addr_call list \<Rightarrow> bool \<Rightarrow> bool \<Rightarrow> idpf_vport_mac \<Rightarrow> idpf_vport_mac" where
  "idpf_set_rx_mode acts iff_promisc iff_allmulti s =
     (let s = (if CAP_MACFILTER s then foldl (\<lambda>s c. mac_addr_call c s) s acts else s) in
      if \<not> CAP_PROMISC s then s
      else case promisc_flags iff_promisc iff_allmulti s of
        (changed, s) \<Rightarrow> if changed then snd (idpf_set_promiscuous s) else s)"

section \<open>Errors of asynchronous requests\<close>

text \<open>
  \<open>idpf_mac_filter_async_handler\<close> for a reply that reports an error and whose payload is complete:
  the filters it names are unlinked.  A second \<open>list_del\<close> of the same filter (the reply names it
  twice) follows poisoned pointers: \<open>None\<close>.
\<close>

fun mac_unlink :: "mac list \<Rightarrow> (ptr \<times> idpf_mac_filter) list \<Rightarrow> (ptr \<times> idpf_mac_filter) list option" where
  "mac_unlink names [] = Some []"
| "mac_unlink names ((p, f) # fs) =
     (let n = length (filter (\<lambda>a. a = macaddr f) names) in
      if n > 1 then None
      else map_option (\<lambda>fs. if n = 1 then fs else (p, f) # fs) (mac_unlink names fs))"

definition idpf_mac_filter_async_handler ::
  "bool \<Rightarrow> nat \<Rightarrow> nat \<Rightarrow> bool \<Rightarrow> mac list \<Rightarrow> idpf_vport_mac \<Rightarrow> (ret \<times> idpf_vport_mac) option" where
  "idpf_mac_filter_async_handler retval_ok reply_sz num_entries vport_known names s =
     (if retval_ok then Some (ret_ok, s)
      else if reply_sz < 8 then Some (Some EINVAL, s)
      else if reply_sz < 8 + 8 * num_entries then Some (Some EINVAL, s)
      else if \<not> vport_known then Some (Some EINVAL, s)
      else map_option (\<lambda>fs. (ret_ok, s\<lparr>mac_filter_list := fs\<rparr>)) (mac_unlink (take num_entries names) (mac_filter_list s)))"

end
