(* ===== verification/Idpf_Mac_Results.thy ===== *)
theory Idpf_Mac_Results
  imports Idpf_Mac
begin

text \<open>
  MAC filters: the messages sent are the marked filters, whatever fails; the list and its objects
  stay consistent under every sequence of calls; and while no call fails the filters of the device
  are the addresses of the list.  The last section has the exceptions: a failed addition is
  forgotten, a changed address leaves the old one in the device, promiscuous mode
  does not ask for multicast packets, and a rejected asynchronous filter is leaked.
\<close>

section \<open>Allocation\<close>

lemma kcalloc_live:
  assumes "kcalloc w = (p, w')"
  shows "bad_free w' = bad_free w \<and> (p = NULL \<and> live w' = live w \<or> p \<noteq> NULL \<and> p \<notin> live w \<and> live w' = insert p (live w))"
  using assms by (auto simp: kcalloc_def split: list.splits if_splits)

text \<open>\<open>own L p w\<close>: besides \<open>L\<close> the object \<open>p\<close> is live, unless it is \<open>NULL\<close>.\<close>

definition own :: "ptr set \<Rightarrow> ptr \<Rightarrow> idpf_world \<Rightarrow> bool" where
  "own L p w \<longleftrightarrow> (if p = NULL then live w = L else p \<notin> L \<and> live w = insert p L)"

lemma own_kfree: "own L p w \<Longrightarrow> live (kfree p w) = L \<and> bad_free (kfree p w) = bad_free w"
  by (auto simp: own_def kfree_def split: if_splits)

lemma own_kcalloc: "kcalloc w = (p, w') \<Longrightarrow> live w = L \<Longrightarrow> own L p w' \<and> bad_free w' = bad_free w"
  using kcalloc_live [of w p w'] by (auto simp: own_def)

section \<open>Messages\<close>

lemma mac_collect_eq:
  assumes "tot = i + length (filter (\<lambda>x. mac_marked add (snd x)) fs)"
  shows "mac_collect add dflt tot i fs =
    (map (\<lambda>x. (macaddr (snd x), idpf_set_mac_type dflt (macaddr (snd x)))) (filter (\<lambda>x. mac_marked add (snd x)) fs),
     map (\<lambda>x. (fst x, mac_unmark add (snd x))) fs)"
  using assms
proof (induction add dflt tot i fs rule: mac_collect.induct)
  case (2 add dflt tot i p f fs)
  have id: "mac_unmark add f = f" if "\<not> mac_marked add f" for f
    using that by (auto simp: mac_unmark_def mac_marked_def)
  have "map (\<lambda>x. (fst x, mac_unmark add (snd x))) fs = fs" if "filter (\<lambda>x. mac_marked add (snd x)) fs = []"
    using that id by (intro map_idI) (auto simp: filter_empty_conv)
  with 2 id show ?case by (auto simp: Let_def)
qed simp

definition mac_entries :: "bool \<Rightarrow> idpf_vport_mac \<Rightarrow> (mac \<times> mac_addr_type) list" where
  "mac_entries add s = map (\<lambda>x. (macaddr (snd x), idpf_set_mac_type (default_mac_addr s) (macaddr (snd x))))
     (filter (\<lambda>x. mac_marked add (snd x)) (mac_filter_list s))"

text \<open>
  The messages \<open>ms\<close> of a call with result \<open>err\<close> for the entries \<open>es\<close>: not empty, of at most 20
  entries, in order, all accepted before the last; all entries if the call succeeds.
\<close>

definition mac_msgs_ok :: "(nat \<Rightarrow> ret) \<Rightarrow> nat \<Rightarrow> (mac \<times> mac_addr_type) list \<Rightarrow> ret \<Rightarrow> (mac \<times> mac_addr_type) list list \<Rightarrow> bool" where
  "mac_msgs_ok reply n es err ms \<longleftrightarrow>
     (\<forall>m \<in> set ms. m \<noteq> [] \<and> length m \<le> IDPF_NUM_FILTERS_PER_MSG) \<and> (\<exists>rest. es = concat ms @ rest) \<and>
     (err = ret_ok \<longrightarrow> concat ms = es \<and> (\<forall>j < length ms. reply (n + j) = ret_ok)) \<and>
     (\<forall>j. Suc j < length ms \<longrightarrow> reply (n + j) = ret_ok) \<and>
     (err \<noteq> ret_ok \<longrightarrow> err = Some ENOMEM \<or> ms \<noteq> [] \<and> err = reply (n + length ms - 1))"

lemma mac_msgs_ok_Nil: "es = [] \<or> err = Some ENOMEM \<Longrightarrow> err = ret_ok \<or> err = Some ENOMEM \<Longrightarrow> mac_msgs_ok reply n es err []"
  by (auto simp: mac_msgs_ok_def)

lemma mac_msgs_ok_Cons:
  assumes "mac_msgs_ok reply (Suc n) (drop 20 es) err ms" and "reply n = ret_ok" and "es \<noteq> []"
  shows "mac_msgs_ok reply n es err (take 20 es # ms)"
proof -
  obtain rest where rest: "drop 20 es = concat ms @ rest" using assms(1) by (auto simp: mac_msgs_ok_def)
  have r: "reply (n + j) = ret_ok" if "\<And>i. i < k \<Longrightarrow> reply (Suc n + i) = ret_ok" "j \<le> k" for j k
    using that assms(2) by (cases j) auto
  have "\<forall>m \<in> set (take 20 es # ms). m \<noteq> [] \<and> length m \<le> IDPF_NUM_FILTERS_PER_MSG"
    using assms by (auto simp: mac_msgs_ok_def IDPF_NUM_FILTERS_PER_MSG_def)
  moreover have "es = concat (take 20 es # ms) @ rest" using append_take_drop_id [of 20 es] unfolding rest by simp
  moreover have "err = ret_ok \<longrightarrow> concat (take 20 es # ms) = es \<and> (\<forall>j < length (take 20 es # ms). reply (n + j) = ret_ok)"
    using assms(1) r [of "length ms"] by (auto simp: mac_msgs_ok_def less_Suc_eq_le)
  moreover have "\<forall>j. Suc j < length (take 20 es # ms) \<longrightarrow> reply (n + j) = ret_ok"
    using assms(1) r [of "length ms - 1"] by (auto simp: mac_msgs_ok_def)
  moreover have "err \<noteq> ret_ok \<longrightarrow> err = Some ENOMEM \<or> take 20 es # ms \<noteq> [] \<and> err = reply (n + length (take 20 es # ms) - 1)"
    using assms(1) by (auto simp: mac_msgs_ok_def)
  ultimately show ?thesis unfolding mac_msgs_ok_def by blast
qed

text \<open>Everything but the list, the log and the allocator is left alone.\<close>

definition mac_frame :: "idpf_vport_mac \<Rightarrow> idpf_vport_mac \<Rightarrow> bool" where
  "mac_frame s s' \<longleftrightarrow> default_mac_addr s' = default_mac_addr s \<and> dev_addr s' = dev_addr s \<and> mv_vport_id s' = mv_vport_id s \<and>
     IDPF_VPORT_UP s' = IDPF_VPORT_UP s \<and> xn_reply s' = xn_reply s \<and> bad_free (mv_world s') = bad_free (mv_world s)"

lemma div20_drop: "es \<noteq> [] \<Longrightarrow> (length es + 19) div 20 = Suc ((length (drop 20 es) + 19) div 20)"
proof (cases es)
  case (Cons a xs)
  then show ?thesis by (cases "19 \<le> length xs") simp_all
qed simp

lemma mac_send_loop_spec:
  assumes "mac_send_loop add async n ma es s = (err, ma', s')" and "n = (length es + 19) div 20"
    and "own L ma (mv_world s)"
  shows "own L ma' (mv_world s') \<and> mac_frame s s' \<and> mac_filter_list s' = mac_filter_list s \<and>
    (\<exists>ms. mv_sent s' = mv_sent s @ map (MacAddrList add async (mv_vport_id s)) ms \<and>
       mac_msgs_ok (xn_reply s) (length (mv_sent s)) es err ms)"
  using assms
proof (induction n arbitrary: ma es s)
  case 0
  then have "es = []" by (cases es) auto
  with 0 show ?case by (auto simp: mac_frame_def intro!: exI [of _ "[]"] mac_msgs_ok_Nil)
next
  case (Suc n)
  let ?new = "ma = NULL \<or> min (length es) 20 \<noteq> 20"
  have es: "es \<noteq> []" using Suc.prems(2) by auto
  obtain ma1 w where a: "(if ?new then kcalloc (kfree ma (mv_world s)) else (ma, mv_world s)) = (ma1, w)" by fastforce
  have o: "own L ma1 w" and b: "bad_free w = bad_free (mv_world s)"
    using a own_kfree [OF Suc.prems(3)] own_kcalloc [of "kfree ma (mv_world s)" ma1 w L] Suc.prems(3)
    by (auto split: if_splits)
  let ?s = "s\<lparr>mv_world := w\<rparr>" and ?r = "xn_reply s (length (mv_sent s))" and ?m = "take (min (length es) 20) es"
  let ?s1 = "?s\<lparr>mv_sent := mv_sent s @ [MacAddrList add async (mv_vport_id s) ?m]\<rparr>"
  have m: "?m = take 20 es" by (simp add: min_def)
  have eq: "mac_send_loop add async (Suc n) ma es s =
      (if ma1 = NULL then (Some ENOMEM, NULL, ?s) else if ?r \<noteq> ret_ok then (?r, ma1, ?s1)
       else mac_send_loop add async n ma1 (drop (min (length es) 20) es) ?s1)"
    using a by (auto simp: IDPF_NUM_FILTERS_PER_MSG_def mac_xn_exec_def Let_def split: prod.splits option.splits)
  consider (nomem) "ma1 = NULL" | (fail) "ma1 \<noteq> NULL" "?r \<noteq> ret_ok" | (next_) "ma1 \<noteq> NULL" "?r = ret_ok" by blast
  then show ?case
  proof cases
    case nomem
    with Suc.prems(1) o b show ?thesis
      unfolding eq by (auto simp: mac_frame_def own_def intro!: exI [of _ "[]"] mac_msgs_ok_Nil)
  next
    case fail
    have "mac_msgs_ok (xn_reply s) (length (mv_sent s)) es ?r [?m]"
      using fail es m by (auto simp: mac_msgs_ok_def IDPF_NUM_FILTERS_PER_MSG_def) (metis append_take_drop_id)
    with fail Suc.prems(1) o b show ?thesis
      unfolding eq by (auto simp: mac_frame_def intro!: exI [of _ "[?m]"])
  next
    case next_
    have d: "drop (min (length es) 20) es = drop 20 es" by (simp add: min_def)
    have "n = (length (drop 20 es) + 19) div 20" using Suc.prems(2) div20_drop [OF es] by simp
    with Suc.IH [of ma1 "drop 20 es" ?s1] Suc.prems(1) next_ o
    obtain ms where ms: "own L ma' (mv_world s')" "mac_frame ?s1 s'" "mac_filter_list s' = mac_filter_list s"
        "mv_sent s' = mv_sent ?s1 @ map (MacAddrList add async (mv_vport_id s)) ms"
        "mac_msgs_ok (xn_reply s) (Suc (length (mv_sent s))) (drop 20 es) err ms"
      unfolding eq d by auto
    then have "mac_msgs_ok (xn_reply s) (length (mv_sent s)) es err (?m # ms)"
      unfolding m using next_ es by (intro mac_msgs_ok_Cons)
    with ms b show ?thesis by (auto simp: mac_frame_def intro!: exI [of _ "?m # ms"])
  qed
qed

lemma idpf_add_del_spec:
  assumes "idpf_add_del_mac_filters add async s = (err, s')"
  shows "live (mv_world s') = live (mv_world s) \<and> mac_frame s s' \<and>
    (if mac_entries add s \<noteq> [] \<and> fst (kcalloc (mv_world s)) = NULL
     then mac_filter_list s' = mac_filter_list s \<and> mv_sent s' = mv_sent s \<and> err = Some ENOMEM
     else mac_filter_list s' = map (\<lambda>x. (fst x, mac_unmark add (snd x))) (mac_filter_list s)) \<and>
    (\<exists>ms. mv_sent s' = mv_sent s @ map (MacAddrList add async (mv_vport_id s)) ms \<and>
       mac_msgs_ok (xn_reply s) (length (mv_sent s)) (mac_entries add s) err ms)"
proof -
  let ?fs = "mac_filter_list s" and ?tot = "length (filter (\<lambda>x. mac_marked add (snd x)) (mac_filter_list s))"
  obtain arr w where a: "kcalloc (mv_world s) = (arr, w)" by fastforce
  have o: "own (live (mv_world s)) arr w" "bad_free w = bad_free (mv_world s)" using own_kcalloc [OF a] by auto
  consider (none) "?tot = 0" | (nomem) "?tot \<noteq> 0" "arr = NULL" | (send) "?tot \<noteq> 0" "arr \<noteq> NULL" by blast
  then show ?thesis
  proof cases
    case none
    then have "map (\<lambda>x. (fst x, mac_unmark add (snd x))) ?fs = ?fs"
      by (intro map_idI) (auto simp: filter_empty_conv mac_unmark_def mac_marked_def)
    moreover have "s' = s" "err = ret_ok" "mac_entries add s = []"
      using none assms by (simp_all add: idpf_add_del_mac_filters_def mac_entries_def)
    moreover have "mac_msgs_ok (xn_reply s) (length (mv_sent s)) [] ret_ok []" by (rule mac_msgs_ok_Nil) simp_all
    ultimately show ?thesis by (simp add: mac_frame_def)
  next
    case nomem
    then have "s' = s\<lparr>mv_world := w\<rparr>" "err = Some ENOMEM" using assms a by (simp_all add: idpf_add_del_mac_filters_def)
    moreover have "mac_msgs_ok (xn_reply s) (length (mv_sent s)) (mac_entries add s) (Some ENOMEM) []"
      by (rule mac_msgs_ok_Nil) simp_all
    moreover have "mac_entries add s \<noteq> []" using nomem(1) by (auto simp: mac_entries_def)
    ultimately show ?thesis using o nomem a by (simp add: mac_frame_def own_def)
  next
    case send
    let ?s = "s\<lparr>mv_world := w, mac_filter_list := map (\<lambda>x. (fst x, mac_unmark add (snd x))) ?fs\<rparr>"
    obtain err' ma s1 where l: "mac_send_loop add async ((?tot + 19) div 20) NULL (mac_entries add s) ?s = (err', ma, s1)"
      by (rule prod_cases3)
    have c: "mac_collect add (default_mac_addr s) ?tot 0 ?fs = (mac_entries add s, mac_filter_list ?s)"
      using mac_collect_eq [of ?tot 0 add ?fs "default_mac_addr s"] by (simp add: mac_entries_def)
    have "idpf_add_del_mac_filters add async s = (err', s1\<lparr>mv_world := kfree arr (kfree ma (mv_world s1))\<rparr>)"
      using send a l c by (simp add: idpf_add_del_mac_filters_def Let_def IDPF_NUM_FILTERS_PER_MSG_def add.commute)
    then have r: "err = err'" "s' = s1\<lparr>mv_world := kfree arr (kfree ma (mv_world s1))\<rparr>" using assms by simp_all
    have "own (insert arr (live (mv_world s))) NULL (mv_world ?s)" using o send by (auto simp: own_def)
    from mac_send_loop_spec [OF l _ this] have k: "own (insert arr (live (mv_world s))) ma (mv_world s1)" "mac_frame ?s s1"
        "mac_filter_list s1 = mac_filter_list ?s" and
      ms: "\<exists>ms. mv_sent s1 = mv_sent s @ map (MacAddrList add async (mv_vport_id s)) ms \<and>
       mac_msgs_ok (xn_reply s) (length (mv_sent s)) (mac_entries add s) err ms"
      by (auto simp: mac_entries_def r)
    have "own (live (mv_world s)) arr (kfree ma (mv_world s1))"
      using own_kfree [OF k(1)] o send by (auto simp: own_def)
    from own_kfree [OF this] own_kfree [OF k(1)] k ms o show ?thesis using a send(2) by (auto simp: r mac_frame_def)
  qed
qed

section \<open>The list and its objects\<close>

abbreviation macs :: "idpf_vport_mac \<Rightarrow> mac list" where
  "macs s \<equiv> map (\<lambda>x. macaddr (snd x)) (mac_filter_list s)"

abbreviation mac_ptrs :: "idpf_vport_mac \<Rightarrow> ptr list" where
  "mac_ptrs s \<equiv> map fst (mac_filter_list s)"

text \<open>
  No address occurs twice, and the live objects are those in \<open>L\<close> and, apart from them, one for each
  filter of the list.
\<close>

definition mac_wf :: "ptr set \<Rightarrow> idpf_vport_mac \<Rightarrow> bool" where
  "mac_wf L s \<longleftrightarrow> distinct (macs s) \<and> distinct (mac_ptrs s) \<and> NULL \<notin> set (mac_ptrs s) \<and>
     set (mac_ptrs s) \<inter> L = {} \<and> live (mv_world s) = L \<union> set (mac_ptrs s) \<and> \<not> bad_free (mv_world s)"

lemma mac_wf_flags:
  assumes "mac_wf L s" and "macs s' = macs s" "mac_ptrs s' = mac_ptrs s"
    and "live (mv_world s') = live (mv_world s)" "bad_free (mv_world s') = bad_free (mv_world s)"
  shows "mac_wf L s'"
  using assms unfolding mac_wf_def by simp

lemma unmark_keeps: "macaddr (mac_unmark add f) = macaddr f"
  by (simp add: mac_unmark_def)

lemma idpf_add_del_wf:
  assumes "mac_wf L s" and "idpf_add_del_mac_filters add async s = (err, s')"
  shows "mac_wf L s' \<and> macs s' = macs s \<and> mac_ptrs s' = mac_ptrs s \<and> mac_frame s s'"
proof -
  have "macs s' = macs s" "mac_ptrs s' = mac_ptrs s"
    using idpf_add_del_spec [OF assms(2)] by (auto simp: unmark_keeps o_def split: if_splits)
  with idpf_add_del_spec [OF assms(2)] show ?thesis
    by (auto simp: mac_frame_def intro!: mac_wf_flags [OF assms(1)])
qed

lemma mac_list_set_keeps:
  assumes "\<And>f. macaddr (g f) = macaddr f"
  shows "macs (mac_list_set p g s) = macs s" "mac_ptrs (mac_list_set p g s) = mac_ptrs s"
    "mv_world (mac_list_set p g s) = mv_world s" "mac_frame s (mac_list_set p g s)"
  using assms by (auto simp: mac_list_set_def mac_frame_def)

lemma find_mac_Some: "idpf_find_mac_filter s a = Some (p, f) \<Longrightarrow> (p, f) \<in> set (mac_filter_list s) \<and> macaddr f = a"
  unfolding idpf_find_mac_filter_def find_Some_iff by (metis nth_mem snd_conv)

lemma find_mac_None: "idpf_find_mac_filter s a = None \<longleftrightarrow> a \<notin> set (macs s)"
  unfolding idpf_find_mac_filter_def find_None_iff by (simp add: image_iff Ball_def) blast

text \<open>Address and object determine each other.\<close>

lemma mac_wf_same:
  assumes "mac_wf L s" and "x \<in> set (mac_filter_list s)" "y \<in> set (mac_filter_list s)"
  shows "fst x = fst y \<longleftrightarrow> macaddr (snd x) = macaddr (snd y)"
proof -
  have "inj_on fst (set (mac_filter_list s))" "inj_on (\<lambda>x. macaddr (snd x)) (set (mac_filter_list s))"
    using assms(1) by (simp_all add: mac_wf_def distinct_map)
  then show ?thesis using assms(2,3) by (auto dest: inj_onD)
qed

lemma mac_free_filter_wf:
  assumes "mac_wf L s" and "p \<in> set (mac_ptrs s)"
  shows "mac_wf L (mac_free_filter p s)"
proof -
  have "map fst (filter (\<lambda>x. fst x \<noteq> p) (mac_filter_list s)) = filter (\<lambda>q. q \<noteq> p) (mac_ptrs s)"
    by (simp add: filter_map o_def)
  moreover have "distinct (map (\<lambda>x. macaddr (snd x)) (filter (\<lambda>x. fst x \<noteq> p) (mac_filter_list s)))"
    using assms(1) by (simp add: mac_wf_def distinct_map_filter)
  ultimately show ?thesis
    using assms by (auto simp: mac_wf_def mac_free_filter_def mac_list_del_def kfree_def)
qed

lemma del_mac_filter_locked_wf:
  assumes "mac_wf L s"
  shows "mac_wf L (del_mac_filter_locked a s) \<and> mac_frame s (del_mac_filter_locked a s) \<and>
    set (macs (del_mac_filter_locked a s)) = set (macs s) - {a}"
proof (cases "idpf_find_mac_filter s a")
  case None
  then show ?thesis using assms find_mac_None [of s a] by (auto simp: del_mac_filter_locked_def mac_frame_def)
next
  case (Some x)
  obtain p f where x: "x = (p, f)" by fastforce
  with Some have f: "(p, f) \<in> set (mac_filter_list s)" "macaddr f = a" using find_mac_Some by auto
  then have p: "p \<in> set (mac_ptrs s)" by force
  have "fst x = p \<longleftrightarrow> macaddr (snd x) = a" if "x \<in> set (mac_filter_list s)" for x
    using mac_wf_same [OF assms that f(1)] f(2) by simp
  then have "set (map (\<lambda>x. macaddr (snd x)) (filter (\<lambda>x. fst x \<noteq> p) (mac_filter_list s))) = set (macs s) - {a}"
    by auto
  moreover have "kfree p (mv_world s) = (mv_world s)\<lparr>live := live (mv_world s) - {p}\<rparr>"
    using assms p by (auto simp: mac_wf_def kfree_def)
  ultimately show ?thesis
    using mac_free_filter_wf [OF assms p] Some
    by (auto simp: x del_mac_filter_locked_def mac_frame_def mac_free_filter_def mac_list_del_def)
qed

lemma mac_wf_cong:
  "mac_filter_list s' = mac_filter_list s \<Longrightarrow> mv_world s' = mv_world s \<Longrightarrow> mac_wf L s' = mac_wf L s"
  by (simp add: mac_wf_def)

lemma mac_list_set_wf:
  assumes "mac_wf L s" and g: "\<And>f. macaddr (g f) = macaddr f"
  shows "mac_wf L (mac_list_set p g s)"
proof (rule mac_wf_flags [OF assms(1)])
  show "macs (mac_list_set p g s) = macs s" by (rule mac_list_set_keeps(1) [OF g])
  show "mac_ptrs (mac_list_set p g s) = mac_ptrs s" by (rule mac_list_set_keeps(2) [OF g])
qed (simp_all only: mac_list_set_keeps(3) [OF g])

lemma add_mac_filter_locked_wf:
  assumes "mac_wf L s" and "add_mac_filter_locked a s = (err, s')"
  shows "mac_wf L s' \<and> mac_frame s s' \<and> set (macs s') = (if err = ret_ok then insert a (set (macs s)) else set (macs s))"
proof (cases "idpf_find_mac_filter s a")
  case None
  obtain p w where k: "kcalloc (mv_world s) = (p, w)" by fastforce
  note kc = kcalloc_live [OF k]
  show ?thesis
  proof (cases "p = NULL")
    case True
    then have s': "s' = s\<lparr>mv_world := w\<rparr>" "err = Some ENOMEM"
      using None k assms(2) by (simp_all add: add_mac_filter_locked_def)
    have "mac_wf L s'" by (rule mac_wf_flags [OF assms(1)]) (use kc True in \<open>simp_all add: s'\<close>)
    then show ?thesis using kc by (simp add: s' mac_frame_def)
  next
    case False
    let ?f = "\<lparr>macaddr = a, mf_remove = False, mf_add = True\<rparr>"
    have s': "err = ret_ok" "mac_filter_list s' = mac_filter_list s @ [(p, ?f)]" "mv_world s' = w" "mac_frame s s'"
      using None k kc assms(2) False by (auto simp: add_mac_filter_locked_def mac_frame_def)
    have "a \<notin> set (macs s)" using None find_mac_None by simp
    moreover have "p \<notin> live (mv_world s)" "live w = insert p (live (mv_world s))" "bad_free w = bad_free (mv_world s)"
      using kc False by simp_all
    ultimately have "mac_wf L s'" using assms(1) False unfolding mac_wf_def s' by auto
    then show ?thesis using s' by simp
  qed
next
  case (Some x)
  obtain p f where x: "x = (p, f)" by fastforce
  have s': "err = ret_ok" "s' = mac_list_set p (\<lambda>f. f\<lparr>mf_remove := False\<rparr>) s"
    using assms(2) Some by (simp_all add: add_mac_filter_locked_def x)
  have "a \<in> set (macs s)" using Some find_mac_None [of s a] by auto
  moreover have "macs s' = macs s" "mac_frame s s'"
    unfolding s' by (rule mac_list_set_keeps; simp)+
  moreover have "mac_wf L s'" unfolding s' by (rule mac_list_set_wf [OF assms(1)]) simp
  ultimately show ?thesis using s'(1) by (simp only: simp_thms if_True insert_absorb)
qed

lemma mac_frame_trans: "mac_frame s s1 \<Longrightarrow> mac_frame s1 s2 \<Longrightarrow> mac_frame s s2"
  by (simp add: mac_frame_def)

lemma idpf_add_mac_filter_wf:
  assumes "mac_wf L s" and "idpf_add_mac_filter async a s = (err, s')"
  shows "mac_wf L s' \<and> mac_frame s s'"
proof -
  obtain e s1 where a: "add_mac_filter_locked a s = (e, s1)" by fastforce
  note w = add_mac_filter_locked_wf [OF assms(1) a]
  from assms(2) show ?thesis
    using w idpf_add_del_wf [of L s1 True async err s'] mac_frame_trans [of s s1 s']
    by (auto simp: idpf_add_mac_filter_def a split: option.splits if_splits)
qed

lemma idpf_del_mac_filter_wf:
  assumes "mac_wf L s" and "idpf_del_mac_filter async a s = (err, s')"
  shows "mac_wf L s' \<and> mac_frame s s'"
proof (cases "idpf_find_mac_filter s a")
  case None
  with assms show ?thesis by (auto simp: idpf_del_mac_filter_def mac_frame_def)
next
  case (Some x)
  obtain p f where x: "x = (p, f)" by fastforce
  let ?s = "mac_list_set p (\<lambda>f. f\<lparr>mf_remove := True\<rparr>) s"
  have s: "mac_wf L ?s" "mac_frame s ?s"
    using mac_list_set_wf [OF assms(1)] mac_list_set_keeps [where g = "\<lambda>f. f\<lparr>mf_remove := True\<rparr>" and p = p and s = s] by simp_all
  obtain e s1 where l: "idpf_add_del_mac_filters False async ?s = (e, s1)" by fastforce
  note w = idpf_add_del_wf [OF s(1) l]
  from assms(2) Some show ?thesis
    using s w del_mac_filter_locked_wf [of L s1 a] del_mac_filter_locked_wf [OF s(1), of a]
      mac_frame_trans [OF s(2)] mac_frame_trans [of s s1]
    by (auto simp: idpf_del_mac_filter_def x Let_def l split: option.splits if_splits)
qed

lemma mark_all_wf:
  "mac_wf L s \<Longrightarrow> (\<And>f. macaddr (g f) = macaddr f) \<Longrightarrow>
    mac_wf L (s\<lparr>mac_filter_list := map (\<lambda>x. (fst x, g (snd x))) (mac_filter_list s)\<rparr>)"
  by (rule mac_wf_flags) (auto simp: o_def)

lemma mac_free_list_wf: "mac_wf L s \<Longrightarrow> ps = mac_ptrs s \<Longrightarrow> mac_wf L (mac_free_list ps s) \<and> mac_filter_list (mac_free_list ps s) = []"
proof (induction ps arbitrary: s)
  case (Cons p ps)
  have "p \<notin> set ps" using Cons.prems unfolding mac_wf_def by (metis distinct.simps(2))
  obtain f fs where fs: "mac_filter_list s = (p, f) # fs" "ps = map fst fs"
    using Cons.prems(2) by (cases "mac_filter_list s") auto
  have "filter (\<lambda>x. fst x \<noteq> p) fs = fs"
    using \<open>p \<notin> set ps\<close> unfolding fs(2) by (intro filter_True) (metis imageI list.set_map)
  then have "ps = mac_ptrs (mac_free_filter p s)" by (simp add: mac_free_filter_def mac_list_del_def fs)
  moreover have "mac_wf L (mac_free_filter p s)" using Cons.prems by (intro mac_free_filter_wf) (auto simp flip: Cons.prems(2))
  ultimately show ?case using Cons.IH by simp
qed auto

section \<open>All calls\<close>

text \<open>
  The calls on the filter list, one after the other, and the handler for the replies to asynchronous
  messages between them.  \<open>None\<close> is a handler that unlinks a filter twice.
\<close>

datatype mac_call =
    CallAdd bool mac | CallDel bool mac | CallRestore | CallRemove | CallDelAll
  | CallInit mac | CallDeinit | CallSetMac mac | CallRxMode "addr_call list" bool bool
  | CallAsyncReply bool nat nat bool "mac list"

primrec mac_do :: "mac_call \<Rightarrow> idpf_vport_mac \<Rightarrow> idpf_vport_mac option" where
  "mac_do (CallAdd async a) s = Some (snd (idpf_add_mac_filter async a s))"
| "mac_do (CallDel async a) s = Some (snd (idpf_del_mac_filter async a s))"
| "mac_do CallRestore s = Some (idpf_restore_mac_filters s)"
| "mac_do CallRemove s = Some (idpf_remove_mac_filters s)"
| "mac_do CallDelAll s = Some (idpf_del_all_mac_filters s)"
| "mac_do (CallInit rnd) s = Some (snd (idpf_init_mac_addr rnd s))"
| "mac_do CallDeinit s = Some (idpf_deinit_mac_addr s)"
| "mac_do (CallSetMac a) s = Some (snd (idpf_set_mac a s))"
| "mac_do (CallRxMode acts p m) s = Some (idpf_set_rx_mode acts p m s)"
| "mac_do (CallAsyncReply retval_ok reply_sz num_entries vport_known names) s =
     map_option snd (idpf_mac_filter_async_handler retval_ok reply_sz num_entries vport_known names s)"

text \<open>The filters that a reply takes out of the list.\<close>

fun mac_unlinked :: "mac_call \<Rightarrow> idpf_vport_mac \<Rightarrow> idpf_vport_mac \<Rightarrow> ptr set" where
  "mac_unlinked (CallAsyncReply retval_ok reply_sz num_entries vport_known names) s s' = set (mac_ptrs s) - set (mac_ptrs s')"
| "mac_unlinked _ s s' = {}"

fun mac_calls :: "mac_call list \<Rightarrow> idpf_vport_mac \<Rightarrow> (ptr set \<times> idpf_vport_mac) option" where
  "mac_calls [] s = Some ({}, s)"
| "mac_calls (c # cs) s = (case mac_do c s of None \<Rightarrow> None
     | Some s1 \<Rightarrow> map_option (map_prod ((\<union>) (mac_unlinked c s s1)) id) (mac_calls cs s1))"

text \<open>A reply that names an address twice.\<close>

fun names_twice :: "mac_call \<Rightarrow> bool" where
  "names_twice (CallAsyncReply retval_ok reply_sz num_entries vport_known names) \<longleftrightarrow> \<not> distinct (take num_entries names)"
| "names_twice _ \<longleftrightarrow> False"

lemma add_wf: "mac_wf L s \<Longrightarrow> mac_wf L (snd (idpf_add_mac_filter async a s))"
  using idpf_add_mac_filter_wf [of L s async a] by (metis prod.collapse)

lemma del_wf: "mac_wf L s \<Longrightarrow> mac_wf L (snd (idpf_del_mac_filter async a s))"
  using idpf_del_mac_filter_wf [of L s async a] by (metis prod.collapse)

lemma add_del_wf: "mac_wf L s \<Longrightarrow> mac_wf L (snd (idpf_add_del_mac_filters add async s))"
  using idpf_add_del_wf [of L s add async] by (metis prod.collapse)

lemma mac_addr_calls_wf: "mac_wf L s \<Longrightarrow> mac_wf L (foldl (\<lambda>s c. mac_addr_call c s) s acts)"
proof (induction acts arbitrary: s)
  case (Cons c acts)
  have "mac_wf L (mac_addr_call c s)"
    using Cons.prems by (cases c) (auto simp: idpf_addr_sync_def idpf_addr_unsync_def add_wf del_wf)
  then show ?case using Cons.IH by simp
qed simp

lemma set_mac_wf:
  assumes "mac_wf L s"
  shows "mac_wf L (snd (idpf_set_mac a s))"
proof -
  let ?s = "s\<lparr>default_mac_addr := a\<rparr>"
  obtain e s1 where a: "idpf_add_mac_filter False a ?s = (e, s1)" by fastforce
  have d: "mac_wf L (s\<lparr>default_mac_addr := b\<rparr>)" if "mac_wf L s" for b s using that by (simp add: mac_wf_def)
  have "mac_wf L s1" using idpf_add_mac_filter_wf [OF d [OF assms] a] by simp
  moreover note d
  moreover have "mac_wf L (s\<lparr>dev_addr := b\<rparr>)" if "mac_wf L s" for b s using that by (simp add: mac_wf_def)
  ultimately show ?thesis
    using assms del_mac_filter_locked_wf [of L s1]
    by (auto simp: idpf_set_mac_def Let_def a split: option.splits)
qed

lemma init_mac_wf:
  assumes "mac_wf L s"
  shows "mac_wf L (snd (idpf_init_mac_addr rnd s))"
proof -
  have d: "mac_wf L (s\<lparr>dev_addr := b\<rparr>)" for b using assms by (simp add: mac_wf_def)
  obtain e s1 where a: "idpf_add_mac_filter False rnd (s\<lparr>dev_addr := rnd\<rparr>) = (e, s1)" by fastforce
  have "mac_wf L s1" using idpf_add_mac_filter_wf [OF d a] by simp
  moreover from this have "mac_wf L (s1\<lparr>default_mac_addr := b\<rparr>)" for b by (simp add: mac_wf_def)
  ultimately show ?thesis
    using assms d by (auto simp: idpf_init_mac_addr_def Let_def a add_wf split: option.splits)
qed

lemma rx_mode_wf:
  assumes "mac_wf L s"
  shows "mac_wf L (idpf_set_rx_mode acts p m s)"
proof -
  have "mac_wf L (snd (promisc_flags p m s))" if "mac_wf L s" for s
    using that by (simp add: promisc_flags_def Let_def mac_wf_def)
  moreover have "mac_wf L (snd (idpf_set_promiscuous s))" if "mac_wf L s" for s
    using that by (simp add: idpf_set_promiscuous_def mac_xn_exec_def mac_wf_def)
  ultimately show ?thesis
    using mac_addr_calls_wf [OF assms, of acts] assms
    by (simp add: idpf_set_rx_mode_def Let_def case_prod_beta)
qed

lemma mac_unlink_filter:
  "mac_unlink names fs = Some fs' \<Longrightarrow> fs' = filter (\<lambda>x. length (filter (\<lambda>a. a = macaddr (snd x)) names) \<noteq> 1) fs"
  by (induction names fs arbitrary: fs' rule: mac_unlink.induct) (auto simp: Let_def split: if_splits)

lemma mac_unlink_None: "mac_unlink names fs = None \<Longrightarrow> \<not> distinct names"
proof (induction names fs rule: mac_unlink.induct)
  case (2 names p f fs)
  have "length (filter (\<lambda>a. a = macaddr f) names) \<le> 1" if "distinct names"
    using that distinct_filter [OF that] distinct_card [of "filter (\<lambda>a. a = macaddr f) names"]
      card_mono [of "{macaddr f}" "set (filter (\<lambda>a. a = macaddr f) names)"] by auto
  then show ?case using 2 by (auto simp: Let_def split: if_splits)
qed simp

lemma async_handler_wf:
  assumes "mac_wf L s" and "idpf_mac_filter_async_handler retval_ok reply_sz n known names s = Some (err, s')"
  shows "mac_wf (L \<union> (set (mac_ptrs s) - set (mac_ptrs s'))) s'"
proof -
  obtain P where P: "mac_filter_list s' = filter P (mac_filter_list s)" "mv_world s' = mv_world s"
  proof (cases "mac_filter_list s' = mac_filter_list s \<and> mv_world s' = mv_world s")
    case True
    then show ?thesis by (intro that [of "\<lambda>_. True"]) simp_all
  next
    case False
    then show ?thesis using assms(2) by (auto intro!: that dest!: mac_unlink_filter simp: idpf_mac_filter_async_handler_def split: if_splits)
  qed
  have "set (mac_ptrs s') \<subseteq> set (mac_ptrs s)" "distinct (macs s')" "distinct (mac_ptrs s')"
    using assms(1) by (auto simp: P mac_wf_def distinct_map_filter)
  then show ?thesis using assms(1) P(2) by (auto simp: mac_wf_def)
qed

lemma mac_call_wf:
  assumes "mac_wf L s"
  shows "case mac_do c s of None \<Rightarrow> names_twice c | Some s1 \<Rightarrow> mac_wf (L \<union> mac_unlinked c s s1) s1"
proof (cases "\<exists>retval_ok reply_sz n known names. c = CallAsyncReply retval_ok reply_sz n known names")
  case True
  then obtain retval_ok reply_sz n known names where c: "c = CallAsyncReply retval_ok reply_sz n known names" by blast
  show ?thesis
  proof (cases "idpf_mac_filter_async_handler retval_ok reply_sz n known names s")
    case None
    then show ?thesis using mac_unlink_None [of "take n names"]
      by (auto simp: c idpf_mac_filter_async_handler_def split: if_splits)
  next
    case (Some x)
    then show ?thesis using async_handler_wf [OF assms, of retval_ok reply_sz n known names "fst x" "snd x"] by (simp add: c)
  qed
next
  case False
  then show ?thesis
    using assms mark_all_wf [of L s "\<lambda>f. f\<lparr>mf_add := True\<rparr>"] mark_all_wf [of L s "\<lambda>f. f\<lparr>mf_remove := True\<rparr>"]
    by (cases c) (auto simp: add_wf del_wf set_mac_wf init_mac_wf rx_mode_wf idpf_restore_mac_filters_def
        idpf_remove_mac_filters_def add_del_wf idpf_del_all_mac_filters_def mac_free_list_wf idpf_deinit_mac_addr_def
        del_mac_filter_locked_wf)
qed

lemma mac_calls_wf:
  assumes "mac_wf L s"
  shows "case mac_calls calls s of None \<Rightarrow> \<exists>c \<in> set calls. names_twice c | Some (U, s') \<Rightarrow> mac_wf (L \<union> U) s'"
  using assms
proof (induction calls arbitrary: L s)
  case (Cons c cs)
  show ?case
  proof (cases "mac_do c s")
    case None
    then show ?thesis using mac_call_wf [OF Cons.prems, of c] by simp
  next
    case (Some s1)
    then have "mac_wf (L \<union> mac_unlinked c s s1) s1" using mac_call_wf [OF Cons.prems, of c] by simp
    from Cons.IH [OF this] show ?thesis using Some by (auto simp: Un_assoc split: option.splits)
  qed
qed simp

section \<open>The filters of the device\<close>

text \<open>
  The device applies the messages whose result is 0: that it accepted, or, for an asynchronous message,
  that was sent.  So an asynchronous message counts as applied, and a device that rejects it later is
  outside of what is said with \<open>mac_hw\<close>.
\<close>

fun dev_apply :: "mac_msg \<Rightarrow> mac set \<Rightarrow> mac set" where
  "dev_apply (MacAddrList True async vid es) S = S \<union> set (map fst es)"
| "dev_apply (MacAddrList False async vid es) S = S - set (map fst es)"
| "dev_apply (PromiscInfo vid flags) S = S"

definition dev_step :: "(nat \<Rightarrow> ret) \<Rightarrow> mac set \<Rightarrow> nat \<times> mac_msg \<Rightarrow> mac set" where
  "dev_step reply S x = (if reply (fst x) = ret_ok then dev_apply (snd x) S else S)"

definition mac_hw :: "idpf_vport_mac \<Rightarrow> mac set" where
  "mac_hw s = foldl (dev_step (xn_reply s)) {} (zip [0..<length (mv_sent s)] (mv_sent s))"

lemma dev_steps:
  "\<forall>j < length ms. reply (n + j) = ret_ok \<Longrightarrow>
    foldl (dev_step reply) S (zip [n..<n + length ms] (map (MacAddrList add async vid) ms)) =
      (if add then S \<union> fst ` set (concat ms) else S - fst ` set (concat ms))"
proof (induction ms arbitrary: n S)
  case (Cons m ms)
  have "[n..<n + length (m # ms)] = n # [Suc n..<Suc n + length ms]" by (simp add: upt_rec)
  moreover have "reply n = ret_ok" using Cons.prems by force
  moreover have "\<forall>j < length ms. reply (Suc n + j) = ret_ok" using Cons.prems by force
  ultimately show ?case
    using Cons.IH [of "Suc n" "dev_apply (MacAddrList add async vid m) S"] by (cases add) (auto simp: dev_step_def)
qed simp

lemma mac_hw_append:
  assumes "mv_sent s' = mv_sent s @ map (MacAddrList add async vid) ms" and "xn_reply s' = xn_reply s"
    and "\<forall>j < length ms. xn_reply s (length (mv_sent s) + j) = ret_ok"
  shows "mac_hw s' = (if add then mac_hw s \<union> fst ` set (concat ms) else mac_hw s - fst ` set (concat ms))"
proof -
  let ?n = "length (mv_sent s)"
  have "zip [0..<length (mv_sent s')] (mv_sent s') =
      zip [0..<?n] (mv_sent s) @ zip [?n..<?n + length ms] (map (MacAddrList add async vid) ms)"
    using upt_add_eq_append [of 0 ?n "length ms"] by (simp add: assms(1))
  then show ?thesis
    using dev_steps [OF assms(3), of "mac_hw s" add async vid] by (simp add: mac_hw_def assms(2))
qed

lemma add_del_sync:
  assumes "idpf_add_del_mac_filters add async s = (ret_ok, s')"
  shows "mac_filter_list s' = map (\<lambda>x. (fst x, mac_unmark add (snd x))) (mac_filter_list s) \<and>
    mac_hw s' = (if add then mac_hw s \<union> fst ` set (mac_entries add s) else mac_hw s - fst ` set (mac_entries add s))"
proof -
  from idpf_add_del_spec [OF assms] obtain ms where ms: "mac_filter_list s' = map (\<lambda>x. (fst x, mac_unmark add (snd x))) (mac_filter_list s)" "mac_frame s s'"
      "mv_sent s' = mv_sent s @ map (MacAddrList add async (mv_vport_id s)) ms"
      "mac_msgs_ok (xn_reply s) (length (mv_sent s)) (mac_entries add s) ret_ok ms" by (fastforce split: if_splits)
  then have "concat ms = mac_entries add s" "\<forall>j < length ms. xn_reply s (length (mv_sent s) + j) = ret_ok"
    by (simp_all add: mac_msgs_ok_def)
  with mac_hw_append [OF ms(3)] ms show ?thesis by (simp add: mac_frame_def)
qed

text \<open>The vport is up, no filter is marked, and the device has the addresses of the list.\<close>

definition mac_synced :: "idpf_vport_mac \<Rightarrow> bool" where
  "mac_synced s \<longleftrightarrow> IDPF_VPORT_UP s \<and> (\<forall>x \<in> set (mac_filter_list s). \<not> mf_add (snd x) \<and> \<not> mf_remove (snd x)) \<and>
     mac_hw s = set (macs s)"

lemma mac_hw_cong: "mv_sent s' = mv_sent s \<Longrightarrow> xn_reply s' = xn_reply s \<Longrightarrow> mac_hw s' = mac_hw s"
  by (simp add: mac_hw_def)

lemma add_synced:
  assumes wf: "mac_wf L s" and sy: "mac_synced s" and eq: "idpf_add_mac_filter async a s = (ret_ok, s')"
  shows "mac_synced s' \<and> set (macs s') = insert a (set (macs s))"
proof (cases "idpf_find_mac_filter s a")
  case None
  let ?f = "\<lparr>macaddr = a, mf_remove = False, mf_add = True\<rparr>"
  obtain p w where k: "kcalloc (mv_world s) = (p, w)" by fastforce
  let ?s = "s\<lparr>mv_world := w, mac_filter_list := mac_filter_list s @ [(p, ?f)]\<rparr>"
  have l: "idpf_add_del_mac_filters True async ?s = (ret_ok, s')"
    using eq None k sy by (auto simp: idpf_add_mac_filter_def add_mac_filter_locked_def mac_synced_def split: if_splits)
  have e: "fst ` set (mac_entries True ?s) = {a}"
    using sy by (auto simp: mac_entries_def mac_marked_def mac_synced_def)
  have "mac_hw ?s = mac_hw s" by (rule mac_hw_cong) simp_all
  moreover have "mac_frame ?s s'" using idpf_add_del_spec [OF l] by simp
  ultimately show ?thesis
    using add_del_sync [OF l] sy e by (auto simp: mac_synced_def mac_unmark_def mac_frame_def image_image)
next
  case (Some x)
  obtain p f where x: "x = (p, f)" by fastforce
  let ?s = "mac_list_set p (\<lambda>f. f\<lparr>mf_remove := False\<rparr>) s"
  have s1: "?s = s"
  proof -
    have "map (\<lambda>x. if fst x = p then (p, (snd x)\<lparr>mf_remove := False\<rparr>) else x) (mac_filter_list s) = mac_filter_list s"
      using sy by (intro map_idI) (auto simp: mac_synced_def)
    then show ?thesis by (simp add: mac_list_set_def)
  qed
  have "idpf_add_del_mac_filters True async s = (ret_ok, s')"
    using eq Some sy by (simp add: idpf_add_mac_filter_def add_mac_filter_locked_def x s1 mac_synced_def)
  moreover have "filter (\<lambda>x. mac_marked True (snd x)) (mac_filter_list s) = []"
    using sy by (auto simp: mac_synced_def mac_marked_def filter_empty_conv)
  ultimately have "s' = s" by (simp add: idpf_add_del_mac_filters_def)
  moreover have "a \<in> set (macs s)" using Some find_mac_None [of s a] by auto
  ultimately show ?thesis using sy by (simp only: simp_thms insert_absorb)
qed

lemma del_synced:
  assumes wf: "mac_wf L s" and sy: "mac_synced s" and eq: "idpf_del_mac_filter async a s = (ret_ok, s')"
  shows "mac_synced s' \<and> set (macs s') = set (macs s) - {a}"
proof (cases "idpf_find_mac_filter s a")
  case None
  then show ?thesis using eq by (simp add: idpf_del_mac_filter_def)
next
  case (Some x)
  obtain p f where x: "x = (p, f)" by fastforce
  let ?g = "\<lambda>f. f\<lparr>mf_remove := True\<rparr>" and ?s = "mac_list_set p (\<lambda>f. f\<lparr>mf_remove := True\<rparr>) s"
  have f: "(p, f) \<in> set (mac_filter_list s)" "macaddr f = a" using Some find_mac_Some by (auto simp: x)
  have s1: "mac_wf L ?s" "mac_frame s ?s" "macs ?s = macs s"
    by (rule mac_list_set_wf [OF wf], simp) (rule mac_list_set_keeps; simp)+
  have up: "IDPF_VPORT_UP ?s" using sy s1(2) by (simp add: mac_synced_def mac_frame_def)
  obtain e s2 where l: "idpf_add_del_mac_filters False async ?s = (e, s2)" by fastforce
  with eq Some up have l: "idpf_add_del_mac_filters False async ?s = (ret_ok, s2)" and s': "s' = del_mac_filter_locked a s2"
    by (auto simp: idpf_del_mac_filter_def x Let_def split: option.splits)
  have marked: "mac_marked False (snd y) \<longleftrightarrow> fst y = p" if "y \<in> set (mac_filter_list ?s)" for y
    using that sy by (auto simp: mac_list_set_def mac_marked_def mac_synced_def split: if_splits)
  have "macaddr (snd y) = a" if y: "y \<in> set (mac_filter_list ?s)" "fst y = p" for y
  proof -
    have "y \<in> (\<lambda>z. if fst z = p then (p, ?g (snd z)) else z) ` set (mac_filter_list s)"
      using y(1) by (simp add: mac_list_set_def)
    then obtain z where z: "z \<in> set (mac_filter_list s)" "y = (if fst z = p then (p, ?g (snd z)) else z)" by blast
    then have "fst z = p" using y(2) by (auto split: if_splits)
    then show ?thesis using z mac_wf_same [OF wf z(1) f(1)] f(2) by simp
  qed
  moreover have "(p, ?g f) \<in> set (mac_filter_list ?s)" using f by (force simp: mac_list_set_def)
  ultimately have e: "fst ` set (mac_entries False ?s) = {a}"
    using marked f(2) by (force simp: mac_entries_def)
  have s2: "mac_wf L s2" "macs s2 = macs s" "mac_frame ?s s2" using idpf_add_del_wf [OF s1(1) l] s1(3) by simp_all
  note d = del_mac_filter_locked_wf [OF s2(1), of a]
  have sub: "set (mac_filter_list s') \<subseteq> set (mac_filter_list s2)" "mv_sent s' = mv_sent s2"
    by (auto simp: s' del_mac_filter_locked_def mac_free_filter_def mac_list_del_def split: option.splits)
  have flags: "\<forall>x \<in> set (mac_filter_list s2). \<not> mf_add (snd x) \<and> \<not> mf_remove (snd x)"
    using add_del_sync [OF l] sy by (auto simp: mac_unmark_def mac_list_set_def mac_synced_def split: if_splits)
  have "mac_hw s' = mac_hw s2" using sub(2) d by (intro mac_hw_cong) (simp_all add: s' mac_frame_def)
  also have "\<dots> = mac_hw ?s - {a}" using add_del_sync [OF l] e by simp
  also have "mac_hw ?s = mac_hw s" by (rule mac_hw_cong) (simp_all add: mac_list_set_def)
  finally have hw: "mac_hw s' = set (macs s) - {a}" using sy by (simp add: mac_synced_def)
  have "IDPF_VPORT_UP s'" using d s2(3) up by (simp add: s' mac_frame_def)
  moreover have "set (macs s') = set (macs s) - {a}" using d unfolding s' s2(2) by blast
  ultimately show ?thesis using hw flags sub(1) unfolding mac_synced_def by blast
qed

section \<open>Properties\<close>


text \<open>A vport that is up, with the allocator's coming answers and the device's replies.\<close>

definition mac_ex_world :: "ptr list \<Rightarrow> idpf_world" where
  "mac_ex_world ps = \<lparr>live = {}, dma_live = {}, kscript = ps, dscript = [], bad_free = False, dmas = (\<lambda>_. zero_dma),
     cqs = (\<lambda>_. undefined), hw = undefined\<rparr>"

definition mac_ex :: "ptr list \<Rightarrow> (nat \<Rightarrow> ret) \<Rightarrow> idpf_vport_mac" where
  "mac_ex ps reply = \<lparr>mac_filter_list = [], default_mac_addr = [2, 0, 0, 0, 0, 1], dev_addr = [2, 0, 0, 0, 0, 1],
     mv_vport_id = 5, IDPF_VPORT_UP = True, PROMISC_UC = False, PROMISC_MC = False, adapter_PROMISC_MC = False,
     CAP_MACFILTER = True, CAP_PROMISC = True, mv_world = mac_ex_world ps, mv_sent = [], xn_reply = reply\<rparr>"




text \<open>Adding and deleting addresses on a vport that is up, as long as the calls return 0.\<close>

datatype mac_op = OpAdd bool mac | OpDel bool mac

primrec mac_run :: "mac_op list \<Rightarrow> idpf_vport_mac \<Rightarrow> idpf_vport_mac option" where
  "mac_run [] s = Some s"
| "mac_run (c # cs) s =
     (case (case c of OpAdd async a \<Rightarrow> idpf_add_mac_filter async a s | OpDel async a \<Rightarrow> idpf_del_mac_filter async a s) of
        (None, s) \<Rightarrow> mac_run cs s
      | (Some e, s) \<Rightarrow> None)"

primrec mac_abs :: "mac set \<Rightarrow> mac_op \<Rightarrow> mac set" where
  "mac_abs S (OpAdd async a) = insert a S"
| "mac_abs S (OpDel async a) = S - {a}"

text \<open>
  C35. The device and the driver agree: on a vport that is up, any sequence of \<open>idpf_add_mac_filter\<close> and
  \<open>idpf_del_mac_filter\<close> that all return 0 leaves the device with exactly the addresses of the driver's list,
  which is the set that results from inserting and deleting the addresses.  This is the refinement of a set
  of addresses by the list with its marks and by the messages; the device is taken to apply every message
  that it accepts and every asynchronous message that was sent.
\<close>

theorem mac_filters_refine_set:
  assumes "mac_wf L s" and "mac_synced s" and "mac_run ops s = Some s'"
  shows "mac_hw s' = foldl mac_abs (mac_hw s) ops \<and> set (macs s') = foldl mac_abs (set (macs s)) ops \<and>
    mac_synced s' \<and> mac_wf L s'"
  using assms
proof (induction ops arbitrary: s)
  case (Cons c cs)
  obtain s1 where s1: "mac_run cs s1 = Some s'"
    "(case c of OpAdd async a \<Rightarrow> idpf_add_mac_filter async a s | OpDel async a \<Rightarrow> idpf_del_mac_filter async a s) = (ret_ok, s1)"
    using Cons.prems(3) by (auto split: prod.splits option.splits)
  have "mac_synced s1 \<and> set (macs s1) = mac_abs (set (macs s)) c \<and> mac_wf L s1"
  proof (cases c)
    case (OpAdd async a)
    then show ?thesis
      using s1(2) add_synced [OF Cons.prems(1,2)] idpf_add_mac_filter_wf [OF Cons.prems(1)] by (simp only: mac_op.case mac_abs.simps)
  next
    case (OpDel async a)
    then show ?thesis
      using s1(2) del_synced [OF Cons.prems(1,2)] idpf_del_mac_filter_wf [OF Cons.prems(1)] by (simp only: mac_op.case mac_abs.simps)
  qed
  moreover from this Cons.prems(2) have "mac_hw s1 = mac_abs (mac_hw s) c" by (simp add: mac_synced_def)
  ultimately show ?case using Cons.IH [OF _ _ s1(1)] by simp
qed simp

lemmas mac_eval = idpf_add_mac_filter_def add_mac_filter_locked_def idpf_find_mac_filter_def idpf_add_del_mac_filters_def
  mac_marked_def mac_unmark_def mac_xn_exec_def kcalloc_def kfree_def idpf_del_mac_filter_def del_mac_filter_locked_def
  mac_free_filter_def mac_list_del_def mac_list_set_def Let_def IDPF_NUM_FILTERS_PER_MSG_def mac_ex_def mac_ex_world_def

theorem mac_filters_refine_set_witness:
  "\<exists>s'. mac_run [OpAdd False [2, 0, 0, 0, 0, 1], OpAdd True [2, 0, 0, 0, 0, 2], OpDel False [2, 0, 0, 0, 0, 1]]
      (mac_ex [16, 32, 48, 64, 80, 96, 112, 128] (\<lambda>_. ret_ok)) = Some s' \<and> mac_hw s' = {[2, 0, 0, 0, 0, 2]}"
proof -
  let ?s = "mac_ex [16, 32, 48, 64, 80, 96, 112, 128] (\<lambda>_. ret_ok)"
  let ?ops = "[OpAdd False [2, 0, 0, 0, 0, 1], OpAdd True [2, 0, 0, 0, 0, 2], OpDel False [2, 0, 0, 0, 0, 1]]"
  have "mac_run ?ops ?s \<noteq> None" by (simp add: mac_eval)
  then obtain s' where r: "mac_run ?ops ?s = Some s'" by blast
  have "mac_wf {} ?s" "mac_synced ?s" "mac_hw ?s = {}"
    by (simp_all add: mac_wf_def mac_synced_def mac_hw_def mac_ex_def mac_ex_world_def)
  then have "mac_hw s' = {[2, 0, 0, 0, 0, 2]}" using mac_filters_refine_set [OF _ _ r, of "{}"] by (simp add: insert_Diff_if)
  with r show ?thesis by blast
qed

section \<open>Where driver and device differ\<close>

text \<open>
  A failed addition is forgotten: the filter stays in the list unmarked, so the second attempt finds it
  and returns 0 without sending anything.
\<close>

theorem failed_add_is_forgotten:
  assumes "mac_wf L s" "mac_synced s" "a \<notin> set (macs s)" and "idpf_add_mac_filter async a s = (Some e, s1)"
    and "a \<in> set (macs s1)" and "e \<noteq> ENOMEM"
  shows "idpf_add_mac_filter async a s1 = (ret_ok, s1) \<and> a \<notin> mac_hw s"
proof -
  obtain e1 s0 where l: "add_mac_filter_locked a s = (e1, s0)" by fastforce
  have up: "IDPF_VPORT_UP s" "a \<notin> mac_hw s" using assms(2,3) by (simp_all add: mac_synced_def)
  have w: "mac_wf L s0" "mac_frame s s0" using add_mac_filter_locked_wf [OF assms(1) l] by simp_all
  have e1: "e1 = ret_ok"
  proof (rule ccontr)
    assume "e1 \<noteq> ret_ok"
    then have "s1 = s0" "set (macs s0) = set (macs s)"
      using assms(4) l add_mac_filter_locked_wf [OF assms(1) l] by (auto simp: idpf_add_mac_filter_def)
    then show False using assms(3,5) by blast
  qed
  then have d: "idpf_add_del_mac_filters True async s0 = (Some e, s1)"
    using assms(4) l up w by (simp add: idpf_add_mac_filter_def mac_frame_def)
  have rem: "\<forall>x \<in> set (mac_filter_list s0). \<not> mf_remove (snd x)"
    using l e1 assms(2,3) find_mac_None [of s a]
    by (auto simp: add_mac_filter_locked_def mac_synced_def mac_list_set_def split: option.splits prod.splits if_splits)
  have fs: "mac_filter_list s1 = map (\<lambda>x. (fst x, mac_unmark True (snd x))) (mac_filter_list s0)"
    using idpf_add_del_spec [OF d] assms(6) by (auto split: if_splits)
  then have flags: "\<forall>x \<in> set (mac_filter_list s1). \<not> mf_add (snd x) \<and> \<not> mf_remove (snd x)"
    using rem by (auto simp: mac_unmark_def)
  obtain p f where f: "idpf_find_mac_filter s1 a = Some (p, f)" using assms(5) find_mac_None [of s1 a] by auto
  have "map (\<lambda>x. if fst x = p then (p, (snd x)\<lparr>mf_remove := False\<rparr>) else x) (mac_filter_list s1) = mac_filter_list s1"
    using flags by (intro map_idI) auto
  then have "mac_list_set p (\<lambda>f. f\<lparr>mf_remove := False\<rparr>) s1 = s1" by (simp add: mac_list_set_def)
  moreover have "filter (\<lambda>x. mac_marked True (snd x)) (mac_filter_list s1) = []"
    using flags by (auto simp: mac_marked_def filter_empty_conv)
  ultimately show ?thesis
    using f up by (simp add: idpf_add_mac_filter_def add_mac_filter_locked_def idpf_add_del_mac_filters_def)
qed

text \<open>
  \<open>idpf_set_mac\<close> takes the old address out of the driver's list but does not tell the device.
\<close>

theorem set_mac_keeps_old_address:
  assumes "mac_wf L s" "mac_synced s" and "default_mac_addr s \<in> set (macs s)" "is_valid_ether_addr (default_mac_addr s)"
    and "a \<noteq> default_mac_addr s" "a \<noteq> dev_addr s" and "idpf_set_mac a s = (Inl ret_ok, s')"
  shows "default_mac_addr s \<in> mac_hw s' \<and> default_mac_addr s \<notin> set (macs s')"
proof -
  let ?s = "s\<lparr>default_mac_addr := a\<rparr>"
  have s: "mac_wf L ?s" "mac_synced ?s" using assms(1,2) by (simp_all add: mac_wf_def mac_synced_def mac_hw_def)
  obtain e s1 where l: "idpf_add_mac_filter False a ?s = (e, s1)" by fastforce
  then have l: "idpf_add_mac_filter False a ?s = (ret_ok, s1)"
    and s': "s' = (del_mac_filter_locked (default_mac_addr s) s1)\<lparr>dev_addr := a\<rparr>"
    using assms(4,6,7) by (auto simp: idpf_set_mac_def Let_def split: if_splits option.splits)
  have s1: "mac_synced s1" "set (macs s1) = insert a (set (macs ?s))" "mac_wf L s1"
    using add_synced [OF s l] idpf_add_mac_filter_wf [OF s(1) l] by blast+
  have "mv_sent s' = mv_sent s1" "xn_reply s' = xn_reply s1"
    by (simp_all add: s' del_mac_filter_locked_def mac_free_filter_def mac_list_del_def split: option.splits)
  then have "mac_hw s' = mac_hw s1" by (rule mac_hw_cong)
  moreover have "set (macs s') = set (macs s1) - {default_mac_addr s}"
    using del_mac_filter_locked_wf [OF s1(3), of "default_mac_addr s"] by (simp add: s')
  ultimately show ?thesis using s1(1,2) assms(3) by (auto simp: mac_synced_def)
qed

text \<open>Entering promiscuous mode asks the device for unicast packets only; the comment promises both.\<close>

theorem promisc_without_multicast:
  assumes "CAP_PROMISC s" "\<not> CAP_MACFILTER s" "\<not> PROMISC_UC s" "\<not> PROMISC_MC s"
  shows "mv_sent (idpf_set_rx_mode acts True False s) = mv_sent s @ [PromiscInfo (mv_vport_id s) 1]"
  using assms by (simp add: idpf_set_rx_mode_def promisc_flags_def idpf_set_promiscuous_def mac_xn_exec_def Let_def)

text \<open>A filter that the device rejects asynchronously is unlinked but not freed.\<close>

theorem rejected_filter_leaks:
  assumes "mac_wf L s" "mac_filter_list s = (p, f) # fs" "16 \<le> reply_sz"
  shows "idpf_mac_filter_async_handler False reply_sz 1 True [macaddr f] s = Some (ret_ok, s\<lparr>mac_filter_list := fs\<rparr>) \<and>
    p \<in> live (mv_world s) \<and> p \<notin> fst ` set fs"
proof -
  have "macaddr f \<notin> (\<lambda>x. macaddr (snd x)) ` set fs" "p \<notin> fst ` set fs" "p \<in> live (mv_world s)"
    using assms(1,2) by (simp_all add: mac_wf_def)
  then have "\<forall>x \<in> set fs. macaddr (snd x) \<noteq> macaddr f" by (metis imageI)
  then have "mac_unlink [macaddr f] fs = Some fs"
    by (induction fs) (auto simp: Let_def)
  then show ?thesis
    using \<open>p \<notin> fst ` set fs\<close> \<open>p \<in> live (mv_world s)\<close> assms(2,3) by (simp add: idpf_mac_filter_async_handler_def Let_def)
qed

end
