(* ===== verification/Idpf_Singleq_Tx.thy ===== *)
theory Idpf_Singleq_Tx
  imports Idpf_Tx_Frame Idpf_Tx_Compl
begin

text \<open>
  The transmit path of the single queue model (\<open>idpf_singleq_txrx.c\<close>): base descriptors of two
  quad words, a buffer array that runs parallel to the ring, and completions that the device writes
  into the descriptors themselves.

  A queue is an \<open>idpf_txq\<close> (indices, buffers, log; its split queue ring is not used) with a ring of
  base descriptors.  What the code reads from the headers of a packet is the record \<open>sq_hdrs\<close>.
  \<open>None\<close> as a result is a loop that does not end.  XDP queues are not modelled.
\<close>

section \<open>Queues\<close>

record idpf_base_tx_desc =
  bd_buf_addr :: u64
  bd_qw1 :: u64

record sq_txq =
  sq_q :: idpf_txq
  sq_descs :: "idpf_base_tx_desc list"
  sq_crc_enable :: bool
  sq_clean_budget :: nat
  sq_carrier :: bool

definition idpf_singleq_bump_desc_idx :: "nat \<Rightarrow> nat \<Rightarrow> nat" where
  "idpf_singleq_bump_desc_idx cnt idx = (if Suc idx = cnt then 0 else Suc idx)"

definition sq_bump :: "sq_txq \<Rightarrow> nat \<Rightarrow> nat" where
  "sq_bump q = idpf_singleq_bump_desc_idx (desc_count (sq_q q))"

text \<open>Changes of a buffer, of a descriptor, and an entry of the log.\<close>

definition sq_buf_upd :: "nat \<Rightarrow> (libeth_sqe \<Rightarrow> libeth_sqe) \<Rightarrow> sq_txq \<Rightarrow> sq_txq" where
  "sq_buf_upd b f q = q\<lparr>sq_q := tx_buf_upd b f (sq_q q)\<rparr>"

definition sq_emit :: "tx_event \<Rightarrow> sq_txq \<Rightarrow> sq_txq" where
  "sq_emit e q = q\<lparr>sq_q := tx_emit e (sq_q q)\<rparr>"

definition sq_set_addr :: "nat \<Rightarrow> u64 \<Rightarrow> sq_txq \<Rightarrow> sq_txq" where
  "sq_set_addr i a q = q\<lparr>sq_descs := (sq_descs q)[i := (sq_descs q ! i)\<lparr>bd_buf_addr := a\<rparr>]\<rparr>"

definition sq_set_qw1 :: "nat \<Rightarrow> u64 \<Rightarrow> sq_txq \<Rightarrow> sq_txq" where
  "sq_set_qw1 i v q = q\<lparr>sq_descs := (sq_descs q)[i := (sq_descs q ! i)\<lparr>bd_qw1 := v\<rparr>]\<rparr>"

definition sq_hw_update :: "nat \<Rightarrow> bool \<Rightarrow> sq_txq \<Rightarrow> sq_txq" where
  "sq_hw_update i xmit_more q = q\<lparr>sq_q := idpf_tx_buf_hw_update (sq_q q) i xmit_more\<rparr>"

definition idpf_tx_singleq_build_ctob :: "u64 \<Rightarrow> u64 \<Rightarrow> nat \<Rightarrow> u64 \<Rightarrow> u64" where
  "idpf_tx_singleq_build_ctob td_cmd td_offset sz td_tag =
     push_bit 4 td_cmd OR push_bit 16 td_offset OR push_bit 34 (of_nat sz) OR push_bit 48 td_tag"

section \<open>Checksum offload\<close>

datatype l3_proto = L3_IPV4 | L3_IPV6 | L3_OTHER

text \<open>
  Lengths are those the code computes from the header pointers; \<open>h_l4_proto\<close> is the protocol behind
  IPv6 extension headers and \<open>h_doff\<close> the data offset of a TCP header.
\<close>

record sq_hdrs =
  h_l3 :: l3_proto
  h_l2_len :: nat
  h_l3_len :: nat
  h_l4_proto :: nat
  h_doff :: nat

text \<open>\<open>Inl\<close>: -1; \<open>Inr False\<close>: 0; \<open>Inr True\<close>: 1; then the command bits and header offsets to add.\<close>

definition idpf_tx_singleq_csum :: "sk_buff \<Rightarrow> sq_hdrs \<Rightarrow> bool \<Rightarrow> (unit + bool) \<times> u64 \<times> u32" where
  "idpf_tx_singleq_csum skb h is_tso =
     (if \<not> skb_csum_partial skb then (Inr False, 0, 0)
      else
        let off = of_nat (h_l2_len h div 2) AND 0x3F :: u32;
            l3cmd = (case h_l3 h of L3_IPV4 \<Rightarrow> Some (if is_tso then 0x60 else 0x40 :: u64)
                     | L3_IPV6 \<Rightarrow> Some 0x20 | L3_OTHER \<Rightarrow> None)
        in case l3cmd of
             None \<Rightarrow> (Inl (), 0, 0)
           | Some cmd \<Rightarrow>
               let off = off OR push_bit 7 (of_nat (h_l3_len h div 4));
                   l4 = (if h_l4_proto h = 6 then Some (0x100, h_doff h)
                         else if h_l4_proto h = 17 then Some (0x300, 2)
                         else if h_l4_proto h = 132 then Some (0x200, 3) else None)
               in case l4 of
                    None \<Rightarrow> if is_tso then (Inl (), 0, 0) else (Inr False, 0, 0)
                  | Some (l4cmd, l4_len) \<Rightarrow> (Inr True, cmd OR l4cmd, off OR push_bit 14 (of_nat l4_len)))"

section \<open>Undoing a packet\<close>

text \<open>The loop from \<open>idx\<close> back to \<open>first\<close>.\<close>

fun sq_unmap_back :: "nat \<Rightarrow> nat \<Rightarrow> nat \<Rightarrow> sq_txq \<Rightarrow> sq_txq option" where
  "sq_unmap_back fuel idx first q =
     (let q = q\<lparr>sq_q := fst (libeth_tx_complete idx (sq_q q, \<lparr>ss_packets = 0, ss_bytes = 0\<rparr>))\<rparr> in
      if idx = first then Some q
      else case fuel of 0 \<Rightarrow> None
        | Suc fuel' \<Rightarrow> sq_unmap_back fuel' ((if idx = 0 then desc_count (sq_q q) else idx) - 1) first q)"

declare sq_unmap_back.simps [simp del]

definition idpf_tx_singleq_dma_map_error :: "sk_buff \<Rightarrow> nat \<Rightarrow> nat \<Rightarrow> sq_txq \<Rightarrow> sq_txq option" where
  "idpf_tx_singleq_dma_map_error skb first idx q =
     (case sq_unmap_back (desc_count (sq_q q)) idx first q of None \<Rightarrow> None
      | Some q \<Rightarrow>
          let idx = first;
              q = (if skb_is_gso skb then q\<lparr>sq_descs := (sq_descs q)[idx := \<lparr>bd_buf_addr = 0, bd_qw1 = 0\<rparr>]\<rparr> else q);
              idx = (if skb_is_gso skb then (if idx = 0 then desc_count (sq_q q) else idx) - 1 else idx);
              q = sq_emit (SkbFree (skb_ptr skb)) (sq_buf_upd first (\<lambda>b. b\<lparr>sqe_skb := NULL\<rparr>) q)
          in Some (sq_hw_update idx False q))"

section \<open>Mapping a packet\<close>

text \<open>
  The inner loop for data larger than a descriptor can take; \<open>excess\<close> as in \<open>tx_split\<close>.
\<close>

function (sequential) sq_split :: "u64 \<Rightarrow> u32 \<Rightarrow> nat \<Rightarrow> u64 \<Rightarrow> nat \<Rightarrow> nat \<Rightarrow> sq_txq \<Rightarrow> nat \<times> nat \<times> sq_txq" where
  "sq_split td_cmd offsets i dma sz excess q =
     (if sz > IDPF_TX_MAX_DESC_DATA then
        let max_data = IDPF_TX_MAX_DESC_DATA_ALIGNED + excess;
            q = sq_set_qw1 i (idpf_tx_singleq_build_ctob td_cmd (ucast offsets) max_data 0) q;
            i = sq_bump q i;
            q = sq_buf_upd i (\<lambda>b. b\<lparr>sqe_type := LIBETH_SQE_EMPTY\<rparr>) q;
            dma = dma + of_nat max_data;
            sz = sz - max_data;
            q = sq_set_addr i dma q
        in sq_split td_cmd offsets i dma sz 0 q
      else (i, sz, q))"
  by pat_completeness auto

termination
  by (relation "measure (\<lambda>(td_cmd, offsets, i, dma, sz, excess, q). sz)")
    (auto simp: IDPF_TX_MAX_DESC_DATA_def IDPF_TX_MAX_DESC_DATA_ALIGNED_def IDPF_TX_MAX_READ_REQ_SIZE_def)

declare sq_split.simps [simp del]

definition sq_map_finish :: "tx_env \<Rightarrow> u64 \<Rightarrow> u32 \<Rightarrow> nat \<Rightarrow> nat \<Rightarrow> nat \<Rightarrow> sq_txq \<Rightarrow> sq_txq" where
  "sq_map_finish env td_cmd offsets first i sz q =
     (let q = sq_set_qw1 i (idpf_tx_singleq_build_ctob (td_cmd OR 3) (ucast offsets) sz 0) q;
          q = sq_buf_upd first (\<lambda>b. b\<lparr>sqe_type := LIBETH_SQE_SKB, sqe_rs_idx := i\<rparr>) q;
          q = sq_emit (BqlSent (sqe_bytes (tx_bufs (sq_q q) ! first))) q
      in sq_hw_update (sq_bump q i) (env_xmit_more env) q)"

definition sq_map_buf :: "u64 \<Rightarrow> u32 \<Rightarrow> nat \<Rightarrow> u64 \<Rightarrow> nat \<Rightarrow> sq_txq \<Rightarrow> nat \<times> nat \<times> sq_txq" where
  "sq_map_buf td_cmd offsets i dma sz q =
     (let q = sq_emit (DmaMap dma sz) q;
          q = sq_buf_upd i (\<lambda>b. b\<lparr>sqe_type := LIBETH_SQE_FRAG, sqe_len := sz, sqe_dma := dma\<rparr>) q
      in sq_split td_cmd offsets i dma sz (tx_first_excess dma) (sq_set_addr i dma q))"

fun sq_map_loop ::
  "tx_env \<Rightarrow> sk_buff \<Rightarrow> u64 \<Rightarrow> u32 \<Rightarrow> nat \<Rightarrow> nat \<Rightarrow> nat \<Rightarrow> nat \<Rightarrow> nat list \<Rightarrow> sq_txq \<Rightarrow> sq_txq option" where
  "sq_map_loop env skb td_cmd offsets first k i sz frags q =
     (case env_dma env k of
        None \<Rightarrow> idpf_tx_singleq_dma_map_error skb first i q
      | Some dma \<Rightarrow>
          (case sq_map_buf td_cmd offsets i dma sz q of (i, sz, q) \<Rightarrow>
             (case frags of
                [] \<Rightarrow> Some (sq_map_finish env td_cmd offsets first i sz q)
              | f # fs \<Rightarrow>
                  if sum_list frags = 0 then Some (sq_map_finish env td_cmd offsets first i sz q)
                  else
                    let q = sq_set_qw1 i (idpf_tx_singleq_build_ctob td_cmd (ucast offsets) sz 0) q
                    in sq_map_loop env skb td_cmd offsets first (Suc k) (sq_bump q i) f fs q)))"

declare sq_map_loop.simps [simp del]

definition idpf_tx_singleq_map :: "tx_env \<Rightarrow> sk_buff \<Rightarrow> u64 \<Rightarrow> u32 \<Rightarrow> nat \<Rightarrow> sq_txq \<Rightarrow> sq_txq option" where
  "idpf_tx_singleq_map env skb td_cmd offsets first q =
     sq_map_loop env skb (if sq_crc_enable q then td_cmd OR 4 else td_cmd) offsets first 0
       (next_to_use (sq_q q)) (skb_headlen skb) (skb_frags skb) q"

section \<open>One packet\<close>

text \<open>The first quad word of a context descriptor (tunnelling, second tag) is 0 here.\<close>

definition idpf_tx_singleq_get_ctx_desc :: "u64 \<Rightarrow> sq_txq \<Rightarrow> sq_txq" where
  "idpf_tx_singleq_get_ctx_desc qw1 q =
     (let ntu = next_to_use (sq_q q);
          q = sq_buf_upd ntu (\<lambda>b. b\<lparr>sqe_type := LIBETH_SQE_CTX\<rparr>) q;
          q = q\<lparr>sq_descs := (sq_descs q)[ntu := \<lparr>bd_buf_addr = 0, bd_qw1 = qw1\<rparr>]\<rparr>
      in q\<lparr>sq_q := (sq_q q)\<lparr>next_to_use := sq_bump q ntu\<rparr>\<rparr>)"

definition idpf_tx_singleq_build_ctx_desc :: "idpf_tx_offload_params \<Rightarrow> sq_txq \<Rightarrow> sq_txq" where
  "idpf_tx_singleq_build_ctx_desc off q =
     (let qw1 = 1 :: u64;
          qw1 = (if off_tso_segs off \<noteq> 0
                 then qw1 OR push_bit 4 1 OR push_bit 30 (of_nat (off_tso_len off) AND 0x3FFFF) OR push_bit 50 (of_nat (off_mss off) AND 0x3FFF)
                 else qw1)
      in idpf_tx_singleq_get_ctx_desc qw1 q)"

definition sq_drop_skb :: "sk_buff \<Rightarrow> sq_txq \<Rightarrow> sq_txq" where
  "sq_drop_skb skb q = q\<lparr>sq_q := idpf_tx_drop_skb (sq_q q) skb\<rparr>"

definition sq_first :: "sk_buff \<Rightarrow> bool \<Rightarrow> idpf_tx_offload_params \<Rightarrow> nat \<Rightarrow> sq_txq \<Rightarrow> sq_txq" where
  "sq_first skb tso off b q = q\<lparr>sq_q := tx_frame_first skb tso off b (sq_q q)\<rparr>"

definition idpf_tx_singleq_frame ::
  "tx_env \<Rightarrow> sq_hdrs \<Rightarrow> sk_buff \<Rightarrow> sq_txq \<Rightarrow> (netdev_tx \<times> sq_txq) option" where
  "idpf_tx_singleq_frame env h skb q =
     (case idpf_tx_res_count_required env (sq_q q) skb of (cnt, bufs, skb) \<Rightarrow>
        if cnt = 0 then Some (NETDEV_TX_OK, sq_drop_skb skb q)
        else if IDPF_DESC_UNUSED (sq_q q) < cnt + 4 + 1
        then Some (NETDEV_TX_BUSY, sq_hw_update (next_to_use (sq_q q)) False (q\<lparr>sq_q := (sq_q q)\<lparr>tx_stopped := True\<rparr>\<rparr>))
        else case idpf_tso env skb tx_no_offload of
          (Inl e, off) \<Rightarrow> Some (NETDEV_TX_OK, sq_drop_skb skb q)
        | (Inr tso, off) \<Rightarrow>
            (case idpf_tx_singleq_csum skb h (off_tso off) of
               (Inl _, cmd, offsets) \<Rightarrow> Some (NETDEV_TX_OK, sq_drop_skb skb q)
             | (Inr csum, cmd, offsets) \<Rightarrow>
                 let q = (if tso then idpf_tx_singleq_build_ctx_desc off q else q);
                     first = next_to_use (sq_q q);
                     q = sq_first skb tso off first q
                 in map_option (Pair NETDEV_TX_OK) (idpf_tx_singleq_map env skb cmd offsets first q)))"

definition idpf_tx_singleq_start ::
  "tx_env \<Rightarrow> sq_hdrs \<Rightarrow> sk_buff option \<Rightarrow> sq_txq \<Rightarrow> (netdev_tx \<times> sq_txq) option" where
  "idpf_tx_singleq_start env h padded q =
     (case padded of None \<Rightarrow> Some (NETDEV_TX_OK, sq_hw_update (next_to_use (sq_q q)) False q)
      | Some skb \<Rightarrow> idpf_tx_singleq_frame env h skb q)"

section \<open>Completions\<close>

definition sq_done :: "sq_txq \<Rightarrow> nat \<Rightarrow> bool" where
  "sq_done q i \<longleftrightarrow> bd_qw1 (sq_descs q ! i) AND 15 \<noteq> 0"

text \<open>The remaining buffers of a packet, up to the one with the last descriptor.\<close>

fun sq_unmap_rest :: "nat \<Rightarrow> nat \<Rightarrow> nat \<Rightarrow> sq_txq \<Rightarrow> (nat \<times> sq_txq) option" where
  "sq_unmap_rest fuel eop ntc q =
     (if ntc = eop then Some (ntc, q)
      else case fuel of 0 \<Rightarrow> None
        | Suc fuel' \<Rightarrow>
            let ntc = sq_bump q ntc; b = tx_bufs (sq_q q) ! ntc;
                q = (if sqe_len b \<noteq> 0
                     then sq_buf_upd ntc (\<lambda>b. b\<lparr>sqe_len := 0\<rparr>) (sq_emit (DmaUnmap (sqe_dma b) (sqe_len b)) q) else q);
                q = sq_buf_upd ntc (\<lambda>b. b\<lparr>sqe_type := LIBETH_SQE_EMPTY\<rparr>) q
            in sq_unmap_rest fuel' eop ntc q)"

declare sq_unmap_rest.simps [simp del]

definition sq_clean_pkt :: "nat \<Rightarrow> sq_txq \<Rightarrow> (nat \<times> sq_txq) option" where
  "sq_clean_pkt ntc q =
     (let b = tx_bufs (sq_q q) ! ntc;
          q = sq_emit (SkbConsume (sqe_skb b)) q;
          q = sq_emit (DmaUnmap (sqe_dma b) (sqe_len b)) q;
          q = sq_buf_upd ntc (\<lambda>b. b\<lparr>sqe_type := LIBETH_SQE_EMPTY, sqe_nr_frags := 0\<rparr>) q
      in sq_unmap_rest (desc_count (sq_q q)) (sqe_rs_idx b) ntc q)"

text \<open>\<open>budget--\<close> of an unsigned integer.\<close>

definition dec32 :: "nat \<Rightarrow> nat" where
  "dec32 n = (if n = 0 then 2 ^ 32 - 1 else n - 1)"

text \<open>The loop of \<open>idpf_tx_singleq_clean\<close>: what is left of the budget, the index, packets and bytes.\<close>

fun sq_clean_loop :: "nat \<Rightarrow> nat \<Rightarrow> nat \<Rightarrow> nat \<Rightarrow> nat \<Rightarrow> sq_txq \<Rightarrow> (nat \<times> nat \<times> nat \<times> nat \<times> sq_txq) option" where
  "sq_clean_loop fuel budget ntc pkts bytes q =
     (let b = tx_bufs (sq_q q) ! ntc in
      if sqe_type b = LIBETH_SQE_CTX then
        let q = sq_buf_upd ntc (\<lambda>b. b\<lparr>sqe_type := LIBETH_SQE_EMPTY\<rparr>) q; ntc = sq_bump q ntc in
        if budget = 0 then Some (budget, ntc, pkts, bytes, q)
        else case fuel of 0 \<Rightarrow> None | Suc fuel' \<Rightarrow> sq_clean_loop fuel' budget ntc pkts bytes q
      else if sqe_type b \<noteq> LIBETH_SQE_SKB then Some (budget, ntc, pkts, bytes, q)
      else if \<not> sq_done q (sqe_rs_idx b) then Some (budget, ntc, pkts, bytes, q)
      else case sq_clean_pkt ntc q of None \<Rightarrow> None
        | Some (ntc, q) \<Rightarrow>
            let budget = dec32 budget; ntc = sq_bump q ntc;
                pkts = pkts + sqe_packets b; bytes = bytes + sqe_bytes b in
            if budget = 0 then Some (budget, ntc, pkts, bytes, q)
            else case fuel of 0 \<Rightarrow> None | Suc fuel' \<Rightarrow> sq_clean_loop fuel' budget ntc pkts bytes q)"

declare sq_clean_loop.simps [simp del]

definition idpf_tx_singleq_clean :: "sq_txq \<Rightarrow> (bool \<times> nat \<times> sq_txq) option" where
  "idpf_tx_singleq_clean q =
     (case sq_clean_loop (desc_count (sq_q q)) (sq_clean_budget q) (next_to_clean (sq_q q)) 0 0 q of
        None \<Rightarrow> None
      | Some (budget, ntc, pkts, bytes, q) \<Rightarrow>
          let q = q\<lparr>sq_q := (sq_q q)\<lparr>next_to_clean := ntc\<rparr>\<rparr>;
              q = sq_emit (BqlCompleted pkts bytes) q;
              q = (if pkts \<noteq> 0 \<and> sq_carrier q \<and> IDPF_DESC_UNUSED (sq_q q) \<ge> IDPF_TX_WAKE_THRESH
                   then q\<lparr>sq_q := (sq_q q)\<lparr>tx_stopped := False\<rparr>\<rparr> else q)
          in Some (budget \<noteq> 0, pkts, q))"

end
