(* ===== verification/Idpf_Singleq_Tx_Results.thy ===== *)
theory Idpf_Singleq_Tx_Results
  imports Idpf_Singleq_Tx
begin

text \<open>
  Cleaning a transmit queue of the single queue model ends, consumes each finished packet once and
  stops for a reason; and the first buffer of a packet keeps a stale length, so a later packet
  is unmapped together with memory that is not mapped any more.
\<close>

section \<open>Slots only become empty\<close>

abbreviation sq_type :: "sq_txq \<Rightarrow> nat \<Rightarrow> libeth_sqe_type" where
  "sq_type q i \<equiv> sqe_type (tx_bufs (sq_q q) ! i)"

definition sq_later :: "sq_txq \<Rightarrow> sq_txq \<Rightarrow> bool" where
  "sq_later q q' \<longleftrightarrow> sq_descs q' = sq_descs q \<and> desc_count (sq_q q') = desc_count (sq_q q) \<and>
     length (tx_bufs (sq_q q')) = length (tx_bufs (sq_q q)) \<and>
     (\<forall>i. sqe_rs_idx (tx_bufs (sq_q q') ! i) = sqe_rs_idx (tx_bufs (sq_q q) ! i) \<and>
        sqe_skb (tx_bufs (sq_q q') ! i) = sqe_skb (tx_bufs (sq_q q) ! i) \<and>
        (sq_type q' i = sq_type q i \<or> sq_type q' i = LIBETH_SQE_EMPTY)) \<and>
     sq_clean_budget q' = sq_clean_budget q \<and> sq_carrier q' = sq_carrier q"

lemma sq_later_refl [simp]: "sq_later q q"
  by (simp add: sq_later_def)

lemma sq_later_trans: "sq_later q q1 \<Longrightarrow> sq_later q1 q2 \<Longrightarrow> sq_later q q2"
  unfolding sq_later_def by metis

lemma sq_emit_fields [simp]:
  "tx_bufs (sq_q (sq_emit e q)) = tx_bufs (sq_q q)" "sq_descs (sq_emit e q) = sq_descs q"
  "desc_count (sq_q (sq_emit e q)) = desc_count (sq_q q)" "tx_log (sq_q (sq_emit e q)) = tx_log (sq_q q) @ [e]"
  "sq_later q (sq_emit e q)"
  by (simp_all add: sq_emit_def tx_emit_def sq_later_def)

lemma sq_buf_upd_fields [simp]:
  "sq_descs (sq_buf_upd i f q) = sq_descs q" "desc_count (sq_q (sq_buf_upd i f q)) = desc_count (sq_q q)"
  "tx_log (sq_q (sq_buf_upd i f q)) = tx_log (sq_q q)"
  "tx_bufs (sq_q (sq_buf_upd i f q)) = (tx_bufs (sq_q q))[i := f (tx_bufs (sq_q q) ! i)]"
  by (simp_all add: sq_buf_upd_def tx_buf_upd_def)

lemma sq_later_buf_upd:
  assumes "\<And>b. sqe_rs_idx (f b) = sqe_rs_idx b \<and> sqe_skb (f b) = sqe_skb b \<and> (sqe_type (f b) = sqe_type b \<or> sqe_type (f b) = LIBETH_SQE_EMPTY)"
  shows "sq_later q (sq_buf_upd i f q)"
proof -
  have "sqe_rs_idx ((tx_bufs (sq_q q))[i := f (tx_bufs (sq_q q) ! i)] ! j) = sqe_rs_idx (tx_bufs (sq_q q) ! j) \<and>
      sqe_skb ((tx_bufs (sq_q q))[i := f (tx_bufs (sq_q q) ! i)] ! j) = sqe_skb (tx_bufs (sq_q q) ! j) \<and>
      (sqe_type ((tx_bufs (sq_q q))[i := f (tx_bufs (sq_q q) ! i)] ! j) = sqe_type (tx_bufs (sq_q q) ! j) \<or>
       sqe_type ((tx_bufs (sq_q q))[i := f (tx_bufs (sq_q q) ! i)] ! j) = LIBETH_SQE_EMPTY)" for j
    using assms by (cases "i < length (tx_bufs (sq_q q))") (auto simp: nth_list_update list_update_beyond)
  then show ?thesis by (simp add: sq_later_def sq_buf_upd_def tx_buf_upd_def)
qed

section \<open>One packet\<close>

definition sq_ok :: "sq_txq \<Rightarrow> bool" where
  "sq_ok q \<longleftrightarrow> length (tx_bufs (sq_q q)) = desc_count (sq_q q) \<and> 0 < desc_count (sq_q q) \<and>
     (\<forall>i < desc_count (sq_q q). sqe_rs_idx (tx_bufs (sq_q q) ! i) < desc_count (sq_q q))"

lemma sq_ok_later: "sq_ok q \<Longrightarrow> sq_later q q' \<Longrightarrow> sq_ok q'"
  by (simp add: sq_ok_def sq_later_def)

lemma sq_bump_eq: "i < desc_count (sq_q q) \<Longrightarrow> sq_bump q i = Suc i mod desc_count (sq_q q)"
  by (auto simp: sq_bump_def idpf_singleq_bump_desc_idx_def Suc_mod_ring)

definition is_unmap :: "tx_event \<Rightarrow> bool" where
  "is_unmap e \<longleftrightarrow> (\<exists>a n. e = DmaUnmap a n)"

lemma sq_unmap_rest_returns:
  assumes "ntc < desc_count (sq_q q)" and "eop < desc_count (sq_q q)" and "ring_dist (desc_count (sq_q q)) ntc eop \<le> fuel"
  shows "\<exists>q' evs. sq_unmap_rest fuel eop ntc q = Some (eop, q') \<and> sq_later q q' \<and>
    tx_log (sq_q q') = tx_log (sq_q q) @ evs \<and> (\<forall>e \<in> set evs. is_unmap e)"
  using assms
proof (induction fuel arbitrary: ntc q)
  case 0
  then have "ntc = eop" by simp
  then show ?case by (auto simp: sq_unmap_rest.simps)
next
  case (Suc fuel)
  let ?n = "desc_count (sq_q q)"
  show ?case
  proof (cases "ntc = eop")
    case True
    then show ?thesis by (auto simp: sq_unmap_rest.simps)
  next
    case False
    let ?i = "sq_bump q ntc"
    let ?b = "tx_bufs (sq_q q) ! ?i"
    let ?q1 = "if sqe_len ?b \<noteq> 0 then sq_buf_upd ?i (\<lambda>b. b\<lparr>sqe_len := 0\<rparr>) (sq_emit (DmaUnmap (sqe_dma ?b) (sqe_len ?b)) q) else q"
    let ?q2 = "sq_buf_upd ?i (\<lambda>b. b\<lparr>sqe_type := LIBETH_SQE_EMPTY\<rparr>) ?q1"
    have i: "?i = Suc ntc mod ?n" using Suc.prems(1) by (rule sq_bump_eq)
    have l1: "sq_later q ?q1"
      using sq_later_trans [OF sq_emit_fields(5) sq_later_buf_upd] by (simp add: sq_emit_def)
    have l2: "sq_later q ?q2" by (rule sq_later_trans [OF l1 sq_later_buf_upd]) simp
    have n: "desc_count (sq_q ?q2) = ?n" using l2 by (simp add: sq_later_def)
    have "ring_dist ?n ?i eop \<le> fuel"
      using ring_dist_step [OF Suc.prems(1,2) False] Suc.prems(3) i by simp
    with Suc.IH [of ?i ?q2] Suc.prems(1,2) n i
    obtain q' evs where r: "sq_unmap_rest fuel eop ?i ?q2 = Some (eop, q')" "sq_later ?q2 q'"
        "tx_log (sq_q q') = tx_log (sq_q ?q2) @ evs" "\<forall>e \<in> set evs. is_unmap e" by auto
    have e: "sq_unmap_rest (Suc fuel) eop ntc q = sq_unmap_rest fuel eop ?i ?q2"
      using False by (subst sq_unmap_rest.simps) (simp add: Let_def)
    have "\<exists>ev. tx_log (sq_q ?q2) = tx_log (sq_q q) @ ev \<and> (\<forall>e \<in> set ev. is_unmap e)"
      by (cases "sqe_len ?b = 0") (auto simp: is_unmap_def)
    then obtain ev where "tx_log (sq_q ?q2) = tx_log (sq_q q) @ ev" "\<forall>e \<in> set ev. is_unmap e" by blast
    with r e sq_later_trans [OF l2 r(2)] show ?thesis by (auto intro!: exI [of _ "ev @ evs"])
  qed
qed

lemma sq_clean_pkt_returns:
  assumes "sq_ok q" and "ntc < desc_count (sq_q q)"
  shows "\<exists>ntc' q' evs. sq_clean_pkt ntc q = Some (ntc', q') \<and> ntc' < desc_count (sq_q q) \<and> sq_later q q' \<and>
    sq_type q' ntc = LIBETH_SQE_EMPTY \<and> (\<forall>e \<in> set evs. is_unmap e) \<and>
    tx_log (sq_q q') = tx_log (sq_q q) @ SkbConsume (sqe_skb (tx_bufs (sq_q q) ! ntc)) # evs"
proof -
  let ?b = "tx_bufs (sq_q q) ! ntc"
  let ?q1 = "sq_emit (DmaUnmap (sqe_dma ?b) (sqe_len ?b)) (sq_emit (SkbConsume (sqe_skb ?b)) q)"
  let ?q2 = "sq_buf_upd ntc (\<lambda>b. b\<lparr>sqe_type := LIBETH_SQE_EMPTY, sqe_nr_frags := 0\<rparr>) ?q1"
  have l: "sq_later q ?q2"
    by (rule sq_later_trans [OF sq_later_trans [OF sq_emit_fields(5) sq_emit_fields(5)] sq_later_buf_upd]) simp
  have rs: "sqe_rs_idx ?b < desc_count (sq_q q)" using assms by (simp add: sq_ok_def)
  then have d: "ring_dist (desc_count (sq_q q)) ntc (sqe_rs_idx ?b) \<le> desc_count (sq_q q)"
    using assms(2) ring_dist_less less_imp_le by blast
  have n: "desc_count (sq_q ?q2) = desc_count (sq_q q)" by simp
  obtain q' evs where r: "sq_unmap_rest (desc_count (sq_q ?q2)) (sqe_rs_idx ?b) ntc ?q2 = Some (sqe_rs_idx ?b, q')"
      "sq_later ?q2 q'" "tx_log (sq_q q') = tx_log (sq_q ?q2) @ evs" "\<forall>e \<in> set evs. is_unmap e"
    using sq_unmap_rest_returns [of ntc ?q2 "sqe_rs_idx ?b" "desc_count (sq_q ?q2)"] assms(2) rs d unfolding n by blast
  have "sq_type ?q2 ntc = LIBETH_SQE_EMPTY" using assms by (simp add: sq_ok_def)
  then have "sq_type q' ntc = LIBETH_SQE_EMPTY" using r(2) unfolding sq_later_def by metis
  moreover have "sq_clean_pkt ntc q = Some (sqe_rs_idx ?b, q')" using r(1) by (simp add: sq_clean_pkt_def Let_def)
  ultimately show ?thesis
    using r(3,4) rs sq_later_trans [OF l r(2)]
    by (intro exI [of _ "sqe_rs_idx ?b"] exI [of _ q'] exI [of _ "DmaUnmap (sqe_dma ?b) (sqe_len ?b) # evs"]) (auto simp: is_unmap_def)
qed

section \<open>The loop\<close>

definition sq_busy :: "sq_txq \<Rightarrow> nat" where
  "sq_busy q = card {i. i < desc_count (sq_q q) \<and> sq_type q i \<noteq> LIBETH_SQE_EMPTY}"

lemma sq_busy_less:
  assumes "sq_later q q'" and "i < desc_count (sq_q q)" "sq_type q i \<noteq> LIBETH_SQE_EMPTY" "sq_type q' i = LIBETH_SQE_EMPTY"
  shows "sq_busy q' < sq_busy q"
proof -
  have "{i. i < desc_count (sq_q q') \<and> sq_type q' i \<noteq> LIBETH_SQE_EMPTY} \<subset> {i. i < desc_count (sq_q q) \<and> sq_type q i \<noteq> LIBETH_SQE_EMPTY}"
    using assms unfolding sq_later_def by (intro psubsetI) force+
  then show ?thesis unfolding sq_busy_def by (intro psubset_card_mono) auto
qed

text \<open>A packet of \<open>q\<close> that the device has finished.\<close>

definition sq_finished :: "sq_txq \<Rightarrow> nat \<Rightarrow> bool" where
  "sq_finished q i \<longleftrightarrow> i < desc_count (sq_q q) \<and> sq_type q i = LIBETH_SQE_SKB \<and> sq_done q (sqe_rs_idx (tx_bufs (sq_q q) ! i))"

lemma sq_finished_later: "sq_later q q' \<Longrightarrow> sq_finished q' i \<Longrightarrow> sq_finished q i"
  unfolding sq_later_def sq_finished_def sq_done_def by (metis libeth_sqe_type.distinct(7))

text \<open>Nothing to do at the index: no packet begins there, or it is not finished.\<close>

definition sq_idle :: "sq_txq \<Rightarrow> nat \<Rightarrow> bool" where
  "sq_idle q i \<longleftrightarrow> sq_type q i \<noteq> LIBETH_SQE_CTX \<and> \<not> sq_finished q i"

definition consumed :: "sq_txq \<Rightarrow> nat list \<Rightarrow> tx_event list" where
  "consumed q is = map (\<lambda>i. SkbConsume (sqe_skb (tx_bufs (sq_q q) ! i))) is"

definition sq_cleaned :: "sq_txq \<Rightarrow> nat list \<Rightarrow> sq_txq \<Rightarrow> bool" where
  "sq_cleaned q is q' \<longleftrightarrow> sq_later q q' \<and> distinct is \<and> (\<forall>i \<in> set is. sq_finished q i \<and> sq_type q' i = LIBETH_SQE_EMPTY) \<and>
     (\<exists>evs. tx_log (sq_q q') = tx_log (sq_q q) @ evs \<and> filter (\<lambda>e. \<not> is_unmap e) evs = consumed q is)"

lemma sq_cleaned_Nil: "sq_later q q' \<Longrightarrow> tx_log (sq_q q') = tx_log (sq_q q) \<Longrightarrow> sq_cleaned q [] q'"
  by (simp add: sq_cleaned_def consumed_def)

lemma sq_cleaned_step:
  assumes "sq_later q q1" and "tx_log (sq_q q1) = tx_log (sq_q q) @ evs" "filter (\<lambda>e. \<not> is_unmap e) evs = consumed q js"
    and "distinct js" and "\<forall>i \<in> set js. sq_finished q i \<and> sq_type q1 i = LIBETH_SQE_EMPTY" and "sq_cleaned q1 is q'"
  shows "sq_cleaned q (js @ is) q'"
proof -
  obtain ev where ev: "sq_later q1 q'" "distinct is" "\<forall>i \<in> set is. sq_finished q1 i \<and> sq_type q' i = LIBETH_SQE_EMPTY"
      "tx_log (sq_q q') = tx_log (sq_q q1) @ ev" "filter (\<lambda>e. \<not> is_unmap e) ev = consumed q1 is"
    using assms(6) by (auto simp: sq_cleaned_def)
  have "set js \<inter> set is = {}" using assms(5) ev(3) by (force simp: sq_finished_def)
  moreover have "\<forall>i \<in> set js. sq_type q' i = LIBETH_SQE_EMPTY" using assms(5) ev(1) unfolding sq_later_def by metis
  moreover have "\<forall>i \<in> set is. sq_finished q i" using ev(3) sq_finished_later [OF assms(1)] by blast
  moreover have "consumed q1 is = consumed q is" using assms(1) by (simp add: consumed_def sq_later_def)
  ultimately show ?thesis
    using assms(1-5) ev sq_later_trans [OF assms(1) ev(1)] unfolding sq_cleaned_def consumed_def
    by (auto intro!: exI [of _ "evs @ ev"])
qed

lemma dec32_pos: "0 < n \<Longrightarrow> dec32 n = n - 1"
  by (simp add: dec32_def)

lemma sq_clean_loop_returns:
  assumes "sq_ok q" and "ntc < desc_count (sq_q q)" and "sq_busy q \<le> fuel" and "0 < budget"
  shows "\<exists>left ntc' pkts' bytes' q' is. sq_clean_loop fuel budget ntc pkts bytes q = Some (left, ntc', pkts', bytes', q') \<and>
    ntc' < desc_count (sq_q q) \<and> sq_cleaned q is q' \<and> budget = left + length is \<and> (left \<noteq> 0 \<longrightarrow> sq_idle q' ntc')"
  using assms
proof (induction fuel arbitrary: budget ntc pkts bytes q)
  case 0
  then have "sq_type q ntc = LIBETH_SQE_EMPTY" by (auto simp: sq_busy_def)
  then show ?case
    using 0 by (subst sq_clean_loop.simps) (auto simp: Let_def sq_idle_def sq_finished_def intro!: exI [of _ "[]"] sq_cleaned_Nil)
next
  case (Suc fuel)
  let ?n = "desc_count (sq_q q)" and ?b = "tx_bufs (sq_q q) ! ntc"
  have bump: "sq_bump q' i < ?n" if "i < ?n" "desc_count (sq_q q') = ?n" for i q'
    using that by (simp add: sq_bump_eq)
  consider (ctx) "sq_type q ntc = LIBETH_SQE_CTX" | (fin) "sq_finished q ntc"
    | (idle) "sq_idle q ntc" by (auto simp: sq_idle_def)
  then show ?case
  proof cases
    case idle
    then have "sq_clean_loop (Suc fuel) budget ntc pkts bytes q = Some (budget, ntc, pkts, bytes, q)"
      using Suc.prems(2) by (subst sq_clean_loop.simps) (auto simp: Let_def sq_idle_def sq_finished_def)
    then show ?thesis using idle Suc.prems by (auto intro!: exI [of _ "[]"] sq_cleaned_Nil)
  next
    case ctx
    let ?q1 = "sq_buf_upd ntc (\<lambda>b. b\<lparr>sqe_type := LIBETH_SQE_EMPTY\<rparr>) q"
    have l: "sq_later q ?q1" by (rule sq_later_buf_upd) simp
    have "sq_type ?q1 ntc = LIBETH_SQE_EMPTY" using Suc.prems(1,2) by (simp add: sq_ok_def)
    then have b: "sq_busy ?q1 < sq_busy q" using ctx by (intro sq_busy_less [OF l Suc.prems(2)]) simp_all
    have e: "sq_clean_loop (Suc fuel) budget ntc pkts bytes q = sq_clean_loop fuel budget (sq_bump ?q1 ntc) pkts bytes ?q1"
      using ctx Suc.prems(4) by (subst sq_clean_loop.simps) (simp add: Let_def)
    have n: "desc_count (sq_q ?q1) = ?n" by simp
    have bn: "sq_bump ?q1 ntc < desc_count (sq_q ?q1)" unfolding n by (rule bump [OF Suc.prems(2) n])
    have bb: "sq_busy ?q1 \<le> fuel" using b Suc.prems(3) by linarith
    obtain left ntc' pkts' bytes' q' "is" where r:
        "sq_clean_loop fuel budget (sq_bump ?q1 ntc) pkts bytes ?q1 = Some (left, ntc', pkts', bytes', q')"
        "ntc' < ?n" "sq_cleaned ?q1 is q'" "budget = left + length is" "left \<noteq> 0 \<longrightarrow> sq_idle q' ntc'"
      using Suc.IH [OF sq_ok_later [OF Suc.prems(1) l] bn bb Suc.prems(4), of pkts bytes] unfolding n by blast
    have "sq_cleaned q ([] @ is) q'" by (rule sq_cleaned_step [OF l _ _ _ _ r(3), of "[]"]) (simp_all add: consumed_def)
    then show ?thesis using r e by auto
  next
    case fin
    obtain ntc1 q1 evs where c: "sq_clean_pkt ntc q = Some (ntc1, q1)" "ntc1 < ?n" "sq_later q q1"
        "sq_type q1 ntc = LIBETH_SQE_EMPTY" "\<forall>e \<in> set evs. is_unmap e"
        "tx_log (sq_q q1) = tx_log (sq_q q) @ SkbConsume (sqe_skb ?b) # evs"
      using sq_clean_pkt_returns [OF Suc.prems(1,2)] by blast
    have n: "desc_count (sq_q q1) = ?n" using c(3) by (simp add: sq_later_def)
    have b: "sq_busy q1 < sq_busy q" using fin c(4) by (intro sq_busy_less [OF c(3) Suc.prems(2)]) (simp_all add: sq_finished_def)
    have step: "sq_cleaned q1 is q' \<Longrightarrow> sq_cleaned q ([ntc] @ is) q'" for "is" q'
      using c fin by (intro sq_cleaned_step [OF c(3,6)]) (auto simp: consumed_def is_unmap_def filter_empty_conv)
    have e: "sq_clean_loop (Suc fuel) budget ntc pkts bytes q =
        (if budget = 1 then Some (0, sq_bump q1 ntc1, pkts + sqe_packets ?b, bytes + sqe_bytes ?b, q1)
         else sq_clean_loop fuel (budget - 1) (sq_bump q1 ntc1) (pkts + sqe_packets ?b) (bytes + sqe_bytes ?b) q1)"
      using fin c(1) Suc.prems(4) by (subst sq_clean_loop.simps) (auto simp: Let_def sq_finished_def dec32_pos)
    show ?thesis
    proof (cases "budget = 1")
      case True
      have "sq_cleaned q ([ntc] @ []) q1" by (rule step [OF sq_cleaned_Nil]) simp_all
      then show ?thesis using True e bump [OF c(2) n] by (auto intro!: exI [of _ "[ntc]"])
    next
      case False
      have bn: "sq_bump q1 ntc1 < desc_count (sq_q q1)" unfolding n by (rule bump [OF c(2) n])
      have bb: "sq_busy q1 \<le> fuel" using b Suc.prems(3) by linarith
      have bg: "0 < budget - 1" using False Suc.prems(4) by simp
      obtain left ntc' pkts' bytes' q' "is" where r:
          "sq_clean_loop fuel (budget - 1) (sq_bump q1 ntc1) (pkts + sqe_packets ?b) (bytes + sqe_bytes ?b) q1 = Some (left, ntc', pkts', bytes', q')"
          "ntc' < ?n" "sq_cleaned q1 is q'" "budget - 1 = left + length is" "left \<noteq> 0 \<longrightarrow> sq_idle q' ntc'"
        using Suc.IH [OF sq_ok_later [OF Suc.prems(1) c(3)] bn bb bg, of "pkts + sqe_packets ?b" "bytes + sqe_bytes ?b"]
        unfolding n by blast
      then show ?thesis using e step [OF r(3)] False Suc.prems(4) by (auto intro!: exI [of _ "ntc # is"])
    qed
  qed
qed

lemma sq_busy_le: "sq_busy q \<le> desc_count (sq_q q)"
  unfolding sq_busy_def using card_mono [of "{..<desc_count (sq_q q)}"] by (metis (no_types, lifting) card_lessThan finite_lessThan lessThan_iff mem_Collect_eq subsetI)

section \<open>Properties\<close>

text \<open>
  C36. \<open>idpf_tx_singleq_clean\<close> returns for every content of a ring whose end indices are in range, with one lap
  as its bound.  It consumes the packets of distinct slots, all of which the device had finished, once each and
  no more than the budget; their slots are empty afterwards.  It reports that it is done exactly if
  budget is left, and then the next slot to clean has no finished packet and no context descriptor.
\<close>

theorem sq_clean_returns:
  assumes "sq_ok q" and "next_to_clean (sq_q q) < desc_count (sq_q q)" and "0 < sq_clean_budget q"
  shows "\<exists>clean pkts q' is evs. idpf_tx_singleq_clean q = Some (clean, pkts, q') \<and>
    next_to_clean (sq_q q') < desc_count (sq_q q) \<and>
    distinct is \<and> (\<forall>i \<in> set is. sq_finished q i \<and> sq_type q' i = LIBETH_SQE_EMPTY) \<and>
    tx_log (sq_q q') = tx_log (sq_q q) @ evs \<and>
    filter (\<lambda>e. \<exists>p. e = SkbConsume p) evs = consumed q is \<and>
    length is \<le> sq_clean_budget q \<and> (clean \<longleftrightarrow> length is < sq_clean_budget q) \<and>
    (clean \<longrightarrow> sq_idle q' (next_to_clean (sq_q q')))"
proof -
  obtain left ntc' pkts bytes q1 "is" where r:
      "sq_clean_loop (desc_count (sq_q q)) (sq_clean_budget q) (next_to_clean (sq_q q)) 0 0 q = Some (left, ntc', pkts, bytes, q1)"
      "ntc' < desc_count (sq_q q)" "sq_cleaned q is q1" "sq_clean_budget q = left + length is" "left \<noteq> 0 \<longrightarrow> sq_idle q1 ntc'"
    using sq_clean_loop_returns [OF assms(1,2) sq_busy_le assms(3), of 0 0] by blast
  obtain evs where ev: "tx_log (sq_q q1) = tx_log (sq_q q) @ evs" "filter (\<lambda>e. \<not> is_unmap e) evs = consumed q is"
    using r(3) by (auto simp: sq_cleaned_def)
  define q' where "q' = (let q = sq_emit (BqlCompleted pkts bytes) (q1\<lparr>sq_q := (sq_q q1)\<lparr>next_to_clean := ntc'\<rparr>\<rparr>) in
     if pkts \<noteq> 0 \<and> sq_carrier q \<and> IDPF_DESC_UNUSED (sq_q q) \<ge> IDPF_TX_WAKE_THRESH
     then q\<lparr>sq_q := (sq_q q)\<lparr>tx_stopped := False\<rparr>\<rparr> else q)"
  have c: "idpf_tx_singleq_clean q = Some (left \<noteq> 0, pkts, q')"
    using r(1) by (simp add: idpf_tx_singleq_clean_def q'_def Let_def)
  have q': "next_to_clean (sq_q q') = ntc'" "tx_bufs (sq_q q') = tx_bufs (sq_q q1)" "sq_descs q' = sq_descs q1"
      "desc_count (sq_q q') = desc_count (sq_q q1)" "tx_log (sq_q q') = tx_log (sq_q q) @ evs @ [BqlCompleted pkts bytes]"
    using ev(1) by (simp_all add: q'_def Let_def sq_emit_def tx_emit_def)
  have "filter (\<lambda>e. \<exists>p. e = SkbConsume p) evs = filter (\<lambda>e. \<exists>p. e = SkbConsume p) (filter (\<lambda>e. \<not> is_unmap e) evs)"
    unfolding filter_filter by (rule filter_cong) (auto simp: is_unmap_def)
  also have "\<dots> = consumed q is" unfolding ev(2) by (simp add: consumed_def filter_True)
  finally have "filter (\<lambda>e. \<exists>p. e = SkbConsume p) (evs @ [BqlCompleted pkts bytes]) = consumed q is" by simp
  moreover have "left \<noteq> 0 \<longrightarrow> sq_idle q' ntc'" using r(5) q' by (simp add: sq_idle_def sq_finished_def sq_done_def)
  ultimately show ?thesis
    using c q' r(2-4) by (intro exI [of _ "left \<noteq> 0"] exI [of _ pkts] exI [of _ q'] exI [of _ "is"] exI [of _ "evs @ [BqlCompleted pkts bytes]"])
      (auto simp: sq_cleaned_def)
qed

definition sq_ex :: sq_txq where
  "sq_ex = \<lparr>sq_q = \<lparr>desc_count = 2, next_to_use = 1, next_to_clean = 0, tx_descs = [],
      tx_bufs = [\<lparr>sqe_type = LIBETH_SQE_SKB, sqe_rs_idx = 0, sqe_skb = 64, sqe_dma = 4096, sqe_len = 100, sqe_nr_frags = 0,
           sqe_packets = 1, sqe_bytes = 100, sqe_next = 0\<rparr>,
         \<lparr>sqe_type = LIBETH_SQE_EMPTY, sqe_rs_idx = 0, sqe_skb = 0, sqe_dma = 0, sqe_len = 0, sqe_nr_frags = 0,
           sqe_packets = 0, sqe_bytes = 0, sqe_next = 0\<rparr>],
      tx_refillq = None, last_re = 0, FLOW_SCH_EN = False, MISS_TAG_EN = False, ETF_EN = False, XDP = False, SW_MARKER = False,
      tx_max_bufs = 8, tx_stopped = False, cleaned_pkts = 0, cleaned_bytes = 0, reinject_timers = (\<lambda>_. None),
      timer_heap = (\<lambda>_. None), timer_armed = {}, timer_bad = False, tx_log = []\<rparr>,
    sq_descs = [\<lparr>bd_buf_addr = 4096, bd_qw1 = 15\<rparr>, \<lparr>bd_buf_addr = 0, bd_qw1 = 0\<rparr>],
    sq_crc_enable = False, sq_clean_budget = 4, sq_carrier = True\<rparr>"

theorem sq_clean_returns_witness:
  "\<exists>clean pkts q' is evs. idpf_tx_singleq_clean sq_ex = Some (clean, pkts, q') \<and> next_to_clean (sq_q q') < 2 \<and>
     tx_log (sq_q q') = evs \<and> filter (\<lambda>e. \<exists>p. e = SkbConsume p) evs = consumed sq_ex is \<and> length is \<le> 4 \<and>
     (clean \<longrightarrow> sq_idle q' (next_to_clean (sq_q q')))"
proof -
  have ok: "sq_ok sq_ex" by (simp add: sq_ok_def sq_ex_def all_less_2)
  have f: "next_to_clean (sq_q sq_ex) < desc_count (sq_q sq_ex)" "0 < sq_clean_budget sq_ex"
    "desc_count (sq_q sq_ex) = 2" "tx_log (sq_q sq_ex) = []" "sq_clean_budget sq_ex = 4" by (simp_all add: sq_ex_def)
  show ?thesis using sq_clean_returns [OF ok f(1,2)] unfolding f(3-5) append_Nil by blast
qed

section \<open>A stale length\<close>

text \<open>Cleaning a packet of one descriptor leaves its length in the slot.\<close>

theorem cleaned_slot_keeps_length:
  assumes "sq_ok q" "i < desc_count (sq_q q)" "sqe_rs_idx (tx_bufs (sq_q q) ! i) = i"
  shows "\<exists>q'. sq_clean_pkt i q = Some (i, q') \<and> sq_type q' i = LIBETH_SQE_EMPTY \<and>
    sqe_len (tx_bufs (sq_q q') ! i) = sqe_len (tx_bufs (sq_q q) ! i) \<and> sqe_dma (tx_bufs (sq_q q') ! i) = sqe_dma (tx_bufs (sq_q q) ! i)"
  using assms by (subst sq_clean_pkt_def, subst sq_unmap_rest.simps) (simp add: Let_def sq_ok_def)

text \<open>
  When the slot is then used for the rest of a buffer that is too large for one descriptor, the stale
  length stays, and the completion of that packet unmaps the old address a second time.
\<close>

theorem stale_length_unmapped_again:
  assumes "i < length (tx_bufs (sq_q q))" "sq_bump q i < length (tx_bufs (sq_q q))" "sq_bump q i \<noteq> i"
    and "sqe_len (tx_bufs (sq_q q) ! sq_bump q i) = n" "0 < n" "sqe_dma (tx_bufs (sq_q q) ! sq_bump q i) = a"
    and "IDPF_TX_MAX_DESC_DATA < sz" "sz - (IDPF_TX_MAX_DESC_DATA_ALIGNED + tx_first_excess dma) \<le> IDPF_TX_MAX_DESC_DATA"
  shows "\<exists>sz' q1 q2. sq_map_buf cmd offsets i dma sz q = (sq_bump q i, sz', q1) \<and>
    sq_unmap_rest 1 (sq_bump q i) i q1 = Some (sq_bump q i, q2) \<and> tx_log (sq_q q2) = tx_log (sq_q q1) @ [DmaUnmap a n]"
proof -
  have set_keeps: "sq_bump (sq_set_qw1 j v x) k = sq_bump x k" "sq_bump (sq_set_addr j d x) k = sq_bump x k"
    "sq_bump (sq_buf_upd j f x) k = sq_bump x k" "sq_bump (sq_emit e x) k = sq_bump x k"
    "tx_bufs (sq_q (sq_set_qw1 j v x)) = tx_bufs (sq_q x)" "tx_bufs (sq_q (sq_set_addr j d x)) = tx_bufs (sq_q x)" for j v x k d f e
    by (simp_all add: sq_bump_def sq_set_qw1_def sq_set_addr_def)
  show ?thesis
    using assms
    by (simp add: sq_map_buf_def Let_def sq_split.simps [of cmd offsets _ _ _ "tx_first_excess dma"]
        sq_split.simps [of cmd offsets _ _ _ 0] sq_unmap_rest.simps [of "Suc 0"] sq_unmap_rest.simps [of 0] set_keeps)
qed

end
