(* ===== verification/Idpf_Singleq_Rx.thy ===== *)
theory Idpf_Singleq_Rx
  imports Idpf_Rx Idpf_Singleq_Tx
begin

text \<open>
  The receive path of the single queue model (\<open>idpf_singleq_txrx.c\<close>).  One ring serves both ways:
  the driver writes the address of a buffer into a descriptor, the device writes the packet's
  description over it and sets the bit DD.  The buffers run parallel to the ring; a page that can be
  used again moves to the buffer at \<open>next_to_use\<close>.

  A descriptor is its four quad words, which the formats of the driver and the device share.  A
  buffer is an \<open>idpf_rx_buf\<close> with the packet it continues.  As a result \<open>None\<close> is a call that does
  not return: the page of a buffer is \<open>NULL\<close>, or the loop runs over the same descriptors again and
  again.  XDP and AF\_XDP are not modelled.
\<close>

section \<open>Descriptors\<close>

record sr_desc =
  sd_qw0 :: u64
  sd_qw1 :: u64
  sd_qw2 :: u64
  sd_qw3 :: u64

definition idpf_rx_singleq_test_staterr :: "sr_desc \<Rightarrow> u64 \<Rightarrow> bool" where
  "idpf_rx_singleq_test_staterr d stat_err_bits \<longleftrightarrow> sd_qw1 d AND stat_err_bits \<noteq> 0"

definition IDPF_RXD_DD :: u64 where
  "IDPF_RXD_DD = 1"

definition IDPF_RXD_EOF_SINGLEQ :: u64 where
  "IDPF_RXD_EOF_SINGLEQ = 2"

definition IDPF_RXD_ERR_S :: u64 where
  "IDPF_RXD_ERR_S = push_bit 19 1"

text \<open>The bits \<open>lo\<close> to \<open>lo + n - 1\<close> of a quad word: a member of a format, or a field of it.\<close>

definition qw_field :: "nat \<Rightarrow> nat \<Rightarrow> u64 \<Rightarrow> u64" where
  "qw_field lo n q = drop_bit lo q AND mask n"

record idpf_rx_extracted =
  ext_size :: nat
  ext_rx_ptype :: nat

definition idpf_rx_singleq_extract_base_fields :: "sr_desc \<Rightarrow> idpf_rx_extracted" where
  "idpf_rx_singleq_extract_base_fields d =
     \<lparr>ext_size = unat (qw_field 38 14 (sd_qw1 d)), ext_rx_ptype = unat (qw_field 30 8 (sd_qw1 d))\<rparr>"

definition idpf_rx_singleq_extract_flex_fields :: "sr_desc \<Rightarrow> idpf_rx_extracted" where
  "idpf_rx_singleq_extract_flex_fields d =
     \<lparr>ext_size = unat (qw_field 32 14 (sd_qw0 d)), ext_rx_ptype = unat (qw_field 16 10 (sd_qw0 d))\<rparr>"

definition idpf_rx_singleq_extract_fields :: "bool \<Rightarrow> sr_desc \<Rightarrow> idpf_rx_extracted" where
  "idpf_rx_singleq_extract_fields base d =
     (if base then idpf_rx_singleq_extract_base_fields d else idpf_rx_singleq_extract_flex_fields d)"

section \<open>What the descriptor says about the packet\<close>

record sr_csum_bits =
  sc_l3l4p :: bool
  sc_ipe :: bool
  sc_eipe :: bool
  sc_eudpe :: bool
  sc_ipv6exadd :: bool
  sc_l4e :: bool
  sc_pprs :: bool
  sc_nat :: bool

record sr_features =
  sf_rxhash :: bool
  sf_rxcsum :: bool
  sf_ptype_lkup :: "nat \<Rightarrow> idpf_rx_ptype_decoded"
  sf_tunnel_type :: "nat \<Rightarrow> nat"

text \<open>The checksum status and whether \<open>csum_level\<close> is set.\<close>

definition idpf_rx_singleq_csum :: "sr_features \<Rightarrow> sr_csum_bits \<Rightarrow> nat \<Rightarrow> rx_csum \<times> bool" where
  "idpf_rx_singleq_csum sf cs ptype =
     (let dec = sf_ptype_lkup sf ptype;
          ipv4 = IDPF_RX_PTYPE_TO_IPV dec 1; ipv6 = IDPF_RX_PTYPE_TO_IPV dec 2 in
      if \<not> sf_rxcsum sf then (CSUM_NONE, False)
      else if \<not> sc_l3l4p cs then (CSUM_NONE, False)
      else if \<not> (dec_known dec \<and> dec_outer_ip dec \<noteq> 0) then (CSUM_NONE, False)
      else if ipv4 \<and> (sc_ipe cs \<or> sc_eipe cs) then (CSUM_ERR, False)
      else if ipv6 \<and> sc_ipv6exadd cs then (CSUM_NONE, False)
      else if sc_l4e cs then (CSUM_ERR, False)
      else if sc_nat cs \<and> sc_eudpe cs then (CSUM_ERR, False)
      else if sc_pprs cs then (CSUM_NONE, False)
      else
        let level = (sf_tunnel_type sf ptype \<ge> 2)
        in if dec_inner_prot dec \<in> {4, 2, 1, 3} then (CSUM_UNNECESSARY, level) else (CSUM_NONE, level))"

definition idpf_rx_singleq_base_csum :: "sr_features \<Rightarrow> sr_desc \<Rightarrow> nat \<Rightarrow> rx_csum \<times> bool" where
  "idpf_rx_singleq_base_csum sf d ptype =
     (let rx_status = qw_field 0 19 (sd_qw1 d); rx_error = qw_field 19 8 (sd_qw1 d) in
      idpf_rx_singleq_csum sf
        \<lparr>sc_l3l4p = bit rx_status 3, sc_ipe = bit rx_error 3, sc_eipe = bit rx_error 5, sc_eudpe = False,
         sc_ipv6exadd = bit rx_status 15, sc_l4e = bit rx_error 4, sc_pprs = bit rx_error 7, sc_nat = False\<rparr> ptype)"

definition idpf_rx_singleq_flex_csum :: "sr_features \<Rightarrow> sr_desc \<Rightarrow> nat \<Rightarrow> rx_csum \<times> bool" where
  "idpf_rx_singleq_flex_csum sf d ptype =
     (let rx_status0 = qw_field 0 16 (sd_qw1 d); rx_status1 = qw_field 0 16 (sd_qw2 d) in
      idpf_rx_singleq_csum sf
        \<lparr>sc_l3l4p = bit rx_status0 3, sc_ipe = bit rx_status0 4, sc_eipe = bit rx_status0 6, sc_eudpe = bit rx_status0 7,
         sc_ipv6exadd = bit rx_status0 9, sc_l4e = bit rx_status0 5, sc_pprs = False, sc_nat = bit rx_status1 4\<rparr> ptype)"

text \<open>The value of the field is compared with the mask of the field, as in the code.\<close>

definition idpf_rx_singleq_base_hash ::
  "sr_features \<Rightarrow> sr_desc \<Rightarrow> idpf_rx_ptype_decoded \<Rightarrow> (u32 \<times> pkt_hash_types) option" where
  "idpf_rx_singleq_base_hash sf d dec =
     (if \<not> sf_rxhash sf then None
      else if drop_bit 12 (sd_qw1 d AND 0x3000) = 0x3000
        then Some (ucast (qw_field 32 32 (sd_qw0 d)), idpf_ptype_to_htype dec)
      else None)"

definition idpf_rx_singleq_flex_hash ::
  "sr_features \<Rightarrow> sr_desc \<Rightarrow> idpf_rx_ptype_decoded \<Rightarrow> (u32 \<times> pkt_hash_types) option" where
  "idpf_rx_singleq_flex_hash sf d dec =
     (if \<not> sf_rxhash sf then None
      else if bit (qw_field 0 16 (sd_qw1 d)) 12
        then Some (ucast (qw_field 32 32 (sd_qw1 d)), idpf_ptype_to_htype dec)
      else None)"

record sr_meta =
  sm_hash :: "(u32 \<times> pkt_hash_types) option"
  sm_csum :: "rx_csum \<times> bool"

definition idpf_rx_singleq_process_skb_fields :: "bool \<Rightarrow> sr_features \<Rightarrow> sr_desc \<Rightarrow> nat \<Rightarrow> sr_meta" where
  "idpf_rx_singleq_process_skb_fields base sf d ptype =
     (let dec = sf_ptype_lkup sf ptype in
      if base then \<lparr>sm_hash = idpf_rx_singleq_base_hash sf d dec, sm_csum = idpf_rx_singleq_base_csum sf d ptype\<rparr>
      else \<lparr>sm_hash = idpf_rx_singleq_flex_hash sf d dec, sm_csum = idpf_rx_singleq_flex_csum sf d ptype\<rparr>)"

section \<open>Buffers\<close>

record sr_buf =
  sb_buf :: idpf_rx_buf
  sb_skb :: "rx_piece list option"

record sr_rxq =
  sr_descs :: "sr_desc list"
  sr_bufs :: "sr_buf list"
  sr_next_to_use :: nat
  sr_next_to_clean :: nat
  sr_next_to_alloc :: nat
  sr_has_tail :: bool
  sr_tail_log :: "nat list"
  sr_base :: bool
  sr_features :: sr_features
  sr_delivered :: "(rx_piece list \<times> sr_meta) list"

definition sr_bump :: "sr_rxq \<Rightarrow> nat \<Rightarrow> nat" where
  "sr_bump q = idpf_singleq_bump_desc_idx (length (sr_descs q))"

definition sr_page :: "sr_rxq \<Rightarrow> nat \<Rightarrow> idpf_page_info" where
  "sr_page q i = rx_cur (sb_buf (sr_bufs q ! i))"

definition sr_buf_upd :: "nat \<Rightarrow> (idpf_rx_buf \<Rightarrow> idpf_rx_buf) \<Rightarrow> sr_rxq \<Rightarrow> sr_rxq" where
  "sr_buf_upd i f q = q\<lparr>sr_bufs := (sr_bufs q)[i := (sr_bufs q ! i)\<lparr>sb_buf := f (sb_buf (sr_bufs q ! i))\<rparr>]\<rparr>"

definition sr_set_skb :: "nat \<Rightarrow> rx_piece list option \<Rightarrow> sr_rxq \<Rightarrow> sr_rxq" where
  "sr_set_skb i s q = q\<lparr>sr_bufs := (sr_bufs q)[i := (sr_bufs q ! i)\<lparr>sb_skb := s\<rparr>]\<rparr>"

text \<open>\<open>idpf_rx_buf_hw_update\<close> on this record.\<close>

definition sr_hw_update :: "sr_rxq \<Rightarrow> nat \<Rightarrow> sr_rxq" where
  "sr_hw_update q val =
     (let q = q\<lparr>sr_next_to_use := trunc16 val\<rparr>
      in if \<not> sr_has_tail q then q else q\<lparr>sr_tail_log := sr_tail_log q @ [val]\<rparr>)"

text \<open>The buffer in slot \<open>i\<close> gets a page if it has none.\<close>

definition sr_fill :: "page_kern \<Rightarrow> nat \<Rightarrow> sr_rxq \<Rightarrow> page_world \<Rightarrow> ret \<times> sr_rxq \<times> page_world" where
  "sr_fill kern i q w =
     (if pi_page (sr_page q i) \<noteq> NULL then (ret_ok, q, w)
      else case idpf_alloc_page kern (sr_page q i) w of
        (Some e, x, w) \<Rightarrow> (Some e, sr_buf_upd i (rx_cur_upd (\<lambda>_. x)) q, w)
      | (None, x, w) \<Rightarrow> (ret_ok, sr_buf_upd i (rx_cur_upd (\<lambda>_. x\<lparr>reuse_bias := 1\<rparr>)) q, w))"

text \<open>The loop with \<open>cleaned_count\<close>; what is left of it is the first result.\<close>

primrec sr_alloc_loop ::
  "(nat \<Rightarrow> page_kern) \<Rightarrow> nat \<Rightarrow> nat \<Rightarrow> sr_rxq \<Rightarrow> page_world \<Rightarrow> nat \<times> nat \<times> sr_rxq \<times> page_world" where
  "sr_alloc_loop kern 0 nta q w = (0, nta, q, w)"
| "sr_alloc_loop kern (Suc n) nta q w =
     (case sr_fill (kern n) nta q w of
        (Some e, q, w) \<Rightarrow> (Suc n, nta, q, w)
      | (None, q, w) \<Rightarrow>
          let d = (sr_descs q ! nta)\<lparr>sd_qw0 := rx_pkt_addr (sr_page q nta), sd_qw1 := 0\<rparr>;
              q = q\<lparr>sr_descs := (sr_descs q)[nta := d]\<rparr>
          in sr_alloc_loop kern n (sr_bump q nta) q w)"

definition idpf_rx_singleq_buf_hw_alloc_all ::
  "(nat \<Rightarrow> page_kern) \<Rightarrow> nat \<Rightarrow> sr_rxq \<Rightarrow> page_world \<Rightarrow> bool \<times> sr_rxq \<times> page_world" where
  "idpf_rx_singleq_buf_hw_alloc_all kern cleaned_count q w =
     (if cleaned_count = 0 then (False, q, w)
      else case sr_alloc_loop kern cleaned_count (sr_next_to_alloc q) q w of
        (left, nta, q, w) \<Rightarrow>
          let q = (if sr_next_to_alloc q \<noteq> nta then (sr_hw_update q nta)\<lparr>sr_next_to_alloc := nta\<rparr> else q)
          in (left \<noteq> 0, q, w))"

text \<open>The fragments of a packet that is thrown away are released; \<open>idpf_rx_buf_rel\<close> with the packet.\<close>

definition sr_buf_rel :: "nat \<Rightarrow> sr_buf \<Rightarrow> page_world \<Rightarrow> sr_buf \<times> page_world" where
  "sr_buf_rel psz b w =
     (case idpf_rx_buf_rel psz (sb_buf b) w of (x, w) \<Rightarrow>
        (\<lparr>sb_buf = x, sb_skb = None\<rparr>, case sb_skb b of None \<Rightarrow> w | Some s \<Rightarrow> foldl rx_put_piece w s))"

primrec sr_rel_list :: "nat \<Rightarrow> sr_buf list \<Rightarrow> page_world \<Rightarrow> page_world" where
  "sr_rel_list psz [] w = w"
| "sr_rel_list psz (b # bs) w = sr_rel_list psz bs (snd (sr_buf_rel psz b w))"

definition idpf_rx_buf_rel_all :: "nat \<Rightarrow> sr_rxq \<Rightarrow> page_world \<Rightarrow> sr_rxq \<times> page_world" where
  "idpf_rx_buf_rel_all psz q w = (q\<lparr>sr_bufs := []\<rparr>, sr_rel_list psz (sr_bufs q) w)"

definition idpf_rx_buf_alloc_singleq ::
  "nat \<Rightarrow> (nat \<Rightarrow> page_kern) \<Rightarrow> sr_rxq \<Rightarrow> page_world \<Rightarrow> ret \<times> sr_rxq \<times> page_world" where
  "idpf_rx_buf_alloc_singleq psz kern q w =
     (case idpf_rx_singleq_buf_hw_alloc_all kern (length (sr_descs q) - 1) q w of
        (True, q, w) \<Rightarrow> (case idpf_rx_buf_rel_all psz q w of (q, w) \<Rightarrow> (Some ENOMEM, q, w))
      | (False, q, w) \<Rightarrow> (ret_ok, q, w))"

definition idpf_rx_bufs_init_singleq ::
  "nat \<Rightarrow> bool \<Rightarrow> (nat \<Rightarrow> page_kern) \<Rightarrow> sr_rxq \<Rightarrow> page_world \<Rightarrow> ret \<times> sr_rxq \<times> page_world" where
  "idpf_rx_bufs_init_singleq psz arr_ok kern q w =
     (if \<not> arr_ok then (Some ENOMEM, q\<lparr>sr_bufs := []\<rparr>, w)
      else idpf_rx_buf_alloc_singleq psz kern
        (q\<lparr>sr_bufs := replicate (length (sr_descs q)) \<lparr>sb_buf = rx_buf_zero, sb_skb = None\<rparr>\<rparr>) w)"

section \<open>Recycling\<close>

definition idpf_rx_reuse_page :: "nat \<Rightarrow> sr_rxq \<Rightarrow> sr_rxq" where
  "idpf_rx_reuse_page i q =
     (let ntu = sr_next_to_use q; x = sr_page q i;
          q = sr_buf_upd ntu (rx_cur_upd (\<lambda>y. y\<lparr>pi_dma := pi_dma x, pi_page := pi_page x,
                page_offset := page_offset x, pagecnt_bias := pagecnt_bias x\<rparr>)) q
      in q\<lparr>sr_next_to_use := sr_bump q ntu\<rparr>)"

definition idpf_rx_singleq_recycle_buf ::
  "nat \<Rightarrow> (ptr \<Rightarrow> bool) \<Rightarrow> nat \<Rightarrow> sr_rxq \<Rightarrow> page_world \<Rightarrow> bool \<times> sr_rxq \<times> page_world" where
  "idpf_rx_singleq_recycle_buf psz reusable i q w =
     (case idpf_rx_can_reuse_page psz reusable (sb_buf (sr_bufs q ! i)) w of (reuse, b, w) \<Rightarrow>
        let q = sr_buf_upd i (\<lambda>_. b) q; x = sr_page q i;
            q = (if reuse then idpf_rx_reuse_page i q else q);
            w = (if reuse then w else page_drain (pi_page x) (pagecnt_bias x) (page_emit (DmaUnmapPage (pi_dma x)) w));
            q = sr_buf_upd i (rx_cur_upd (\<lambda>x. x\<lparr>pi_page := NULL\<rparr>)) q
        in (reuse, sr_set_skb i None q, w))"

definition idpf_rx_singleq_is_non_eop :: "sr_desc \<Rightarrow> nat \<Rightarrow> rx_piece list \<Rightarrow> sr_rxq \<Rightarrow> bool \<times> sr_rxq" where
  "idpf_rx_singleq_is_non_eop d ntc skb q =
     (if idpf_rx_singleq_test_staterr d IDPF_RXD_EOF_SINGLEQ then (False, q)
      else (True, sr_set_skb ntc (Some skb) q))"

section \<open>The loop\<close>

text \<open>The packet that the data in slot \<open>i\<close> belongs to: the one it continues, or a new one.\<close>

definition sr_take :: "nat \<Rightarrow> rx_answers \<Rightarrow> nat \<Rightarrow> nat \<Rightarrow> sr_rxq \<Rightarrow> page_world \<Rightarrow> rx_piece list option \<times> sr_rxq \<times> page_world" where
  "sr_take psz ans i sz q w =
     (let q = sr_buf_upd i idpf_rx_get_buf_page q; b = sb_buf (sr_bufs q ! i) in
      case (case sb_skb (sr_bufs q ! i) of
              Some s \<Rightarrow> (case idpf_rx_add_frag psz b s sz w of (s, b, w) \<Rightarrow> (Some s, b, w))
            | None \<Rightarrow> idpf_rx_construct_skb psz (ans_skb ans) (ans_headlen ans) b sz w) of
        (None, b, w) \<Rightarrow> (None, sr_buf_upd i (\<lambda>_. rx_put_buf_page b) q, w)
      | (Some s, b, w) \<Rightarrow> (Some s, sr_buf_upd i (\<lambda>_. b) q, w))"

text \<open>The end of a packet: dropped with an error, or delivered.\<close>

definition sr_finish :: "sr_desc \<Rightarrow> nat \<Rightarrow> rx_piece list \<Rightarrow> sr_rxq \<Rightarrow> page_world \<Rightarrow> nat \<times> sr_rxq \<times> page_world" where
  "sr_finish d ptype skb q w =
     (if idpf_rx_singleq_test_staterr d IDPF_RXD_ERR_S then (0, q, foldl rx_put_piece w skb)
      else (1, q\<lparr>sr_delivered := sr_delivered q @
              [(skb, idpf_rx_singleq_process_skb_fields (sr_base q) (sr_features q) d ptype)]\<rparr>, w))"

partial_function (option) sr_clean_loop ::
  "nat \<Rightarrow> (ptr \<Rightarrow> bool) \<Rightarrow> (nat \<Rightarrow> rx_answers) \<Rightarrow> nat \<Rightarrow> nat \<Rightarrow> nat \<Rightarrow> nat \<Rightarrow> sr_rxq \<Rightarrow> page_world
    \<Rightarrow> (nat \<times> nat \<times> nat \<times> sr_rxq \<times> page_world) option" where
  "sr_clean_loop psz reusable ans budget pkts cleaned ntc q w =
     (let d = sr_descs q ! ntc; fields = idpf_rx_singleq_extract_fields (sr_base q) d in
      if \<not> pkts < budget then Some (pkts, cleaned, ntc, q, w)
      else if \<not> idpf_rx_singleq_test_staterr d IDPF_RXD_DD then Some (pkts, cleaned, ntc, q, w)
      else if ext_size fields = 0 then Some (pkts, cleaned, ntc, q, w)
      else if pi_page (sr_page q ntc) = NULL then None
      else case sr_take psz (ans cleaned) ntc (ext_size fields) q w of
        (None, q, w) \<Rightarrow> Some (pkts, cleaned, ntc, q, w)
      | (Some skb, q, w) \<Rightarrow>
          (case idpf_rx_singleq_recycle_buf psz reusable ntc q w of (_, q, w) \<Rightarrow>
             let ntc = sr_bump q ntc in
             case idpf_rx_singleq_is_non_eop d ntc skb q of (non_eop, q) \<Rightarrow>
               if non_eop then sr_clean_loop psz reusable ans budget pkts (Suc cleaned) ntc q w
               else (case sr_finish d (ext_rx_ptype fields) skb q w of (n, q, w) \<Rightarrow>
                       sr_clean_loop psz reusable ans budget (pkts + n) (Suc cleaned) ntc q w)))"

text \<open>
  The result is the number of packets, or the budget if buffers could not be replaced.
\<close>

definition idpf_rx_singleq_clean ::
  "nat \<Rightarrow> (ptr \<Rightarrow> bool) \<Rightarrow> (nat \<Rightarrow> rx_answers) \<Rightarrow> (nat \<Rightarrow> page_kern) \<Rightarrow> nat \<Rightarrow> sr_rxq \<Rightarrow> page_world
    \<Rightarrow> (nat \<times> sr_rxq \<times> page_world) option" where
  "idpf_rx_singleq_clean psz reusable ans kern budget q w =
     (case sr_clean_loop psz reusable ans budget 0 0 (sr_next_to_clean q) q w of
        None \<Rightarrow> None
      | Some (pkts, cleaned, ntc, q, w) \<Rightarrow>
          (case idpf_rx_singleq_buf_hw_alloc_all kern cleaned (q\<lparr>sr_next_to_clean := ntc\<rparr>) w of
             (failure, q, w) \<Rightarrow> Some (if failure then budget else pkts, q, w)))"

section \<open>Polling\<close>

definition budget_per_q :: "nat \<Rightarrow> nat \<Rightarrow> nat" where
  "budget_per_q budget n = (if n = 0 then 0 else max (budget div n) 1)"

text \<open>All queues of a vector; \<open>env i\<close> has the answers for queue \<open>i\<close>.\<close>

type_synonym sr_env = "(nat \<Rightarrow> rx_answers) \<times> (nat \<Rightarrow> page_kern)"

primrec rx_singleq_clean_list ::
  "nat \<Rightarrow> (ptr \<Rightarrow> bool) \<Rightarrow> (nat \<Rightarrow> sr_env) \<Rightarrow> nat \<Rightarrow> nat \<Rightarrow> sr_rxq list \<Rightarrow> page_world
    \<Rightarrow> (bool \<times> nat \<times> sr_rxq list \<times> page_world) option" where
  "rx_singleq_clean_list psz reusable env b i [] w = Some (True, 0, [], w)"
| "rx_singleq_clean_list psz reusable env b i (q # qs) w =
     (case idpf_rx_singleq_clean psz reusable (fst (env i)) (snd (env i)) b q w of None \<Rightarrow> None
      | Some (pkts, q, w) \<Rightarrow>
          (case rx_singleq_clean_list psz reusable env b (Suc i) qs w of None \<Rightarrow> None
           | Some (complete, cleaned, qs, w) \<Rightarrow> Some (complete \<and> pkts < b, pkts + cleaned, q # qs, w)))"

definition idpf_rx_singleq_clean_all ::
  "nat \<Rightarrow> (ptr \<Rightarrow> bool) \<Rightarrow> (nat \<Rightarrow> sr_env) \<Rightarrow> nat \<Rightarrow> sr_rxq list \<Rightarrow> page_world
    \<Rightarrow> (bool \<times> nat \<times> sr_rxq list \<times> page_world) option" where
  "idpf_rx_singleq_clean_all psz reusable env budget qs w =
     rx_singleq_clean_list psz reusable env (budget_per_q budget (length qs)) 0 qs w"

text \<open>The budget is only passed on to free packets in the right context.\<close>

primrec idpf_tx_singleq_clean_all :: "sq_txq list \<Rightarrow> (bool \<times> nat \<times> sq_txq list) option" where
  "idpf_tx_singleq_clean_all [] = Some (True, 0, [])"
| "idpf_tx_singleq_clean_all (q # qs) =
     (case idpf_tx_singleq_clean q of None \<Rightarrow> None
      | Some (complete, pkts, q) \<Rightarrow>
          (case idpf_tx_singleq_clean_all qs of None \<Rightarrow> None
           | Some (complete', cleaned, qs) \<Rightarrow> Some (complete \<and> complete', pkts + cleaned, q # qs)))"

record sr_qvec =
  qv_rx :: "sr_rxq list"
  qv_tx :: "sq_txq list"
  qv_world :: page_world

text \<open>What happens to the interrupt: nothing, it stays off and write-backs go on, or it is enabled.\<close>

datatype itr_action = ITR_NONE | SET_WB_ON_ITR | UPDATE_ITR_ENA_IRQ

text \<open>\<open>complete_ok\<close> answers \<open>napi_complete_done\<close>; the third result tells whether it was called.\<close>

definition idpf_vport_singleq_napi_poll ::
  "nat \<Rightarrow> (ptr \<Rightarrow> bool) \<Rightarrow> (nat \<Rightarrow> sr_env) \<Rightarrow> bool \<Rightarrow> int \<Rightarrow> sr_qvec \<Rightarrow> (int \<times> itr_action \<times> bool \<times> sr_qvec) option" where
  "idpf_vport_singleq_napi_poll psz reusable env complete_ok budget v =
     (if budget \<le> 0 then
        (case idpf_tx_singleq_clean_all (qv_tx v) of None \<Rightarrow> None
         | Some (_, _, txs) \<Rightarrow> Some (budget, ITR_NONE, False, v\<lparr>qv_tx := txs\<rparr>))
      else
        case idpf_rx_singleq_clean_all psz reusable env (nat budget) (qv_rx v) (qv_world v) of None \<Rightarrow> None
        | Some (rx_complete, rx_done, rxs, w) \<Rightarrow>
            (case idpf_tx_singleq_clean_all (qv_tx v) of None \<Rightarrow> None
             | Some (tx_complete, tx_done, txs) \<Rightarrow>
                 let v = v\<lparr>qv_rx := rxs, qv_tx := txs, qv_world := w\<rparr> in
                 if \<not> (rx_complete \<and> tx_complete) then Some (budget, SET_WB_ON_ITR, False, v)
                 else
                   let work_done = min (int (rx_done + tx_done)) (budget - 1)
                   in Some (work_done, if complete_ok then UPDATE_ITR_ENA_IRQ else SET_WB_ON_ITR, True, v)))"

end
