(* ===== verification/Idpf_Singleq_Rx_Results.thy ===== *)
theory Idpf_Singleq_Rx_Results
  imports Idpf_Singleq_Rx Idpf_Rx_Safety
begin

text \<open>
  Receiving in the single queue model.  The buffers without a page are those between \<open>next_to_use\<close>
  and \<open>next_to_clean\<close> (the gap); the loop moves its end, recycling and allocation its start.  While
  one posted descriptor is not finished a call returns, keeps this invariant and posts buffers anew
  with the addresses of their pages.  The last section shows what goes wrong otherwise.
\<close>

section \<open>Gaps in a ring\<close>

definition ring_gap :: "nat \<Rightarrow> nat \<Rightarrow> nat \<Rightarrow> nat \<Rightarrow> bool" where
  "ring_gap n a b i \<longleftrightarrow> ring_dist n a i < ring_dist n a b"

lemma ring_gap_grow:
  assumes "a < n" "b < n" "i < n" and "Suc b mod n \<noteq> a"
  shows "ring_gap n a (Suc b mod n) i \<longleftrightarrow> ring_gap n a b i \<or> i = b"
  using assms by (auto simp: ring_gap_def ring_dist_def Suc_mod_ring split: if_splits)

lemma ring_gap_slide:
  assumes "a < n" "b < n" "i < n" "a \<noteq> b"
  shows "ring_gap n (Suc a mod n) (Suc b mod n) i \<longleftrightarrow> i \<noteq> a \<and> (ring_gap n a b i \<or> i = b)"
  using assms by (auto simp: ring_gap_def ring_dist_def Suc_mod_ring split: if_splits)

lemma ring_dist_shift:
  assumes "a < n" "x < n" "j < n"
  shows "ring_dist n ((a + j) mod n) x = (if j \<le> ring_dist n a x then ring_dist n a x - j else n + ring_dist n a x - j)"
  using assms by (auto simp: ring_dist_def mod_ring split: if_splits)

lemma ring_gap_shift:
  assumes "a < n" "b < n" "i < n" and "j \<le> ring_dist n a b"
  shows "ring_gap n ((a + j) mod n) b i \<longleftrightarrow> j \<le> ring_dist n a i \<and> ring_gap n a b i"
proof -
  have "j < n" using assms ring_dist_less [OF assms(1,2)] by linarith
  then have s: "ring_dist n ((a + j) mod n) b = ring_dist n a b - j"
      "ring_dist n ((a + j) mod n) i = (if j \<le> ring_dist n a i then ring_dist n a i - j else n + ring_dist n a i - j)"
    using assms by (simp_all add: ring_dist_shift)
  then show ?thesis
    using assms(4) ring_dist_less [OF assms(1,2)] unfolding ring_gap_def s by (cases "j \<le> ring_dist n a i") auto
qed

lemma ring_gap_last: "a < n \<Longrightarrow> b < n \<Longrightarrow> s < n \<Longrightarrow> s \<noteq> b \<Longrightarrow> \<not> ring_gap n a b s \<Longrightarrow> Suc b mod n \<noteq> a"
  by (auto simp: ring_gap_def ring_dist_def Suc_mod_ring split: if_splits)

section \<open>The invariant\<close>

definition sr_shape :: "sr_buf \<Rightarrow> bool" where
  "sr_shape b \<longleftrightarrow> buf_shape (sb_buf b) \<and> buf_size (sb_buf b) = 0"

definition sr_pages :: "sr_rxq \<Rightarrow> nat \<Rightarrow> bool" where
  "sr_pages q ntc \<longleftrightarrow> length (sr_bufs q) = length (sr_descs q) \<and> length (sr_descs q) \<le> 65535 \<and>
     sr_next_to_use q < length (sr_descs q) \<and> ntc < length (sr_descs q) \<and> sr_next_to_use q \<noteq> ntc \<and>
     (\<forall>i < length (sr_descs q). sr_shape (sr_bufs q ! i) \<and>
        (pi_page (sr_page q i) = NULL \<longleftrightarrow> ring_gap (length (sr_descs q)) (sr_next_to_use q) ntc i))"

definition sr_ok :: "sr_rxq \<Rightarrow> bool" where
  "sr_ok q \<longleftrightarrow> sr_pages q (sr_next_to_clean q) \<and> sr_next_to_use q = sr_next_to_alloc q"

text \<open>What a step of the loop leaves alone.\<close>

definition sr_same :: "sr_rxq \<Rightarrow> sr_rxq \<Rightarrow> bool" where
  "sr_same q q' \<longleftrightarrow> sr_descs q' = sr_descs q \<and> sr_next_to_alloc q' = sr_next_to_alloc q \<and>
     sr_next_to_clean q' = sr_next_to_clean q \<and> sr_base q' = sr_base q \<and> length (sr_bufs q') = length (sr_bufs q)"

lemma sr_same_refl [simp]: "sr_same q q"
  by (simp add: sr_same_def)

lemma sr_same_trans: "sr_same q1 q2 \<Longrightarrow> sr_same q2 q3 \<Longrightarrow> sr_same q1 q3"
  by (simp add: sr_same_def)

lemma sr_buf_upd_fields [simp]:
  "sr_descs (sr_buf_upd i f q) = sr_descs q" "sr_next_to_use (sr_buf_upd i f q) = sr_next_to_use q"
  "sr_delivered (sr_buf_upd i f q) = sr_delivered q" "length (sr_bufs (sr_buf_upd i f q)) = length (sr_bufs q)"
  "sr_next_to_alloc (sr_buf_upd i f q) = sr_next_to_alloc q" "sr_same q (sr_buf_upd i f q)"
  "sr_next_to_clean (sr_buf_upd i f q) = sr_next_to_clean q"
  by (simp_all add: sr_buf_upd_def sr_same_def)

lemma sr_set_skb_buf [simp]: "sb_buf (sr_bufs (sr_set_skb i s q) ! j) = sb_buf (sr_bufs q ! j)"
  by (cases "i < length (sr_bufs q)"; cases "i = j") (simp_all add: sr_set_skb_def list_update_beyond)

lemma sr_set_skb_fields [simp]:
  "sr_descs (sr_set_skb i s q) = sr_descs q" "sr_next_to_use (sr_set_skb i s q) = sr_next_to_use q"
  "sr_delivered (sr_set_skb i s q) = sr_delivered q" "sr_same q (sr_set_skb i s q)"
  "length (sr_bufs (sr_set_skb i s q)) = length (sr_bufs q)"
  "sr_page (sr_set_skb i s q) j = sr_page q j"
  by (simp_all add: sr_page_def) (simp_all add: sr_set_skb_def sr_same_def)

lemma sr_page_buf_upd:
  "i < length (sr_bufs q) \<Longrightarrow> sr_page (sr_buf_upd i f q) j = (if j = i then rx_cur (f (sb_buf (sr_bufs q ! i))) else sr_page q j)"
  by (simp add: sr_page_def sr_buf_upd_def)

lemma sr_shape_buf_upd:
  "i < length (sr_bufs q) \<Longrightarrow> j < length (sr_bufs q) \<Longrightarrow> sr_shape (sr_bufs q ! j) \<Longrightarrow>
     (sr_shape (sr_bufs q ! i) \<Longrightarrow> buf_shape (f (sb_buf (sr_bufs q ! i))) \<and> buf_size (f (sb_buf (sr_bufs q ! i))) = 0) \<Longrightarrow>
     sr_shape (sr_bufs (sr_buf_upd i f q) ! j)"
  by (auto simp: sr_buf_upd_def sr_shape_def nth_list_update)

lemma sr_shape_set_skb: "sr_shape (sr_bufs (sr_set_skb i s q) ! j) = sr_shape (sr_bufs q ! j)"
  by (simp add: sr_shape_def)

lemma sr_pages_set_skb [simp]: "sr_pages (sr_set_skb i s q) ntc = sr_pages q ntc"
  by (simp add: sr_pages_def sr_shape_set_skb)

lemma sr_bump_eq: "i < length (sr_descs q) \<Longrightarrow> sr_bump q i = Suc i mod length (sr_descs q)"
  by (auto simp: sr_bump_def idpf_singleq_bump_desc_idx_def Suc_mod_ring)

text \<open>Changes of a buffer that keep its page.\<close>

lemma sr_pages_buf_upd:
  assumes "sr_pages q ntc" and "i < length (sr_descs q)"
    and "\<And>b. sr_shape (sr_bufs q ! i) \<Longrightarrow> b = sb_buf (sr_bufs q ! i) \<Longrightarrow>
      buf_shape (f b) \<and> buf_size (f b) = 0 \<and> pi_page (rx_cur (f b)) = pi_page (rx_cur b)"
  shows "sr_pages (sr_buf_upd i f q) ntc"
proof -
  have i: "i < length (sr_bufs q)" and sh: "sr_shape (sr_bufs q ! i)" using assms(1,2) by (simp_all add: sr_pages_def)
  note f = assms(3) [OF sh refl]
  have p: "pi_page (sr_page (sr_buf_upd i f q) j) = pi_page (sr_page q j)" for j
    using f by (simp add: sr_page_buf_upd [OF i]) (simp add: sr_page_def)
  show ?thesis
    using assms(1) f unfolding sr_pages_def by (simp add: p sr_shape_buf_upd [OF i])
qed

section \<open>One descriptor\<close>

lemma rx_get_put_fields:
  assumes "buf_shape b"
  shows "pi_page (rx_cur (idpf_rx_get_buf_page b)) = pi_page (rx_cur b)" "buf_shape (idpf_rx_get_buf_page b)"
    "buf_size (idpf_rx_get_buf_page b) = buf_size b"
    "pi_page (rx_cur (rx_put_buf_page b)) = pi_page (rx_cur b)" "buf_shape (rx_put_buf_page b)"
    "buf_size (rx_put_buf_page b) = buf_size b"
  using assms by (simp_all add: idpf_rx_get_buf_page_def rx_put_buf_page_def)

lemma adjust_pg_fields:
  assumes "buf_shape b" "buf_size b = 0"
  shows "pi_page (rx_cur (idpf_rx_buf_adjust_pg psz b n)) = pi_page (rx_cur b)" "buf_shape (idpf_rx_buf_adjust_pg psz b n)"
    "buf_size (idpf_rx_buf_adjust_pg psz b n) = 0"
  using assms by (simp_all add: idpf_rx_buf_adjust_pg_def IDPF_RX_BUF_2048_def)

lemma construct_fields:
  assumes "idpf_rx_construct_skb psz ok hl b sz w = (s, b', w')" and "buf_shape b" "buf_size b = 0"
  shows "pi_page (rx_cur b') = pi_page (rx_cur b) \<and> buf_shape b' \<and> buf_size b' = 0"
  using assms by (auto simp: idpf_rx_construct_skb_def Let_def rx_get_put_fields adjust_pg_fields split: if_splits)

lemma add_frag_fields:
  assumes "idpf_rx_add_frag psz b s sz w = (s', b', w')" and "buf_shape b" "buf_size b = 0"
  shows "pi_page (rx_cur b') = pi_page (rx_cur b) \<and> buf_shape b' \<and> buf_size b' = 0"
  using assms by (auto simp: idpf_rx_add_frag_def Let_def adjust_pg_fields)

lemma sr_take_keeps:
  assumes "sr_take psz ans i sz q w = (s, q', w')" and "sr_pages q ntc" and "i < length (sr_descs q)"
  shows "sr_pages q' ntc \<and> sr_same q q' \<and> sr_next_to_use q' = sr_next_to_use q \<and> sr_delivered q' = sr_delivered q \<and>
    pi_page (sr_page q' j) = pi_page (sr_page q j)"
proof -
  have i: "i < length (sr_bufs q)" and sh: "buf_shape (sb_buf (sr_bufs q ! i))" "buf_size (sb_buf (sr_bufs q ! i)) = 0"
    using assms(2,3) by (simp_all add: sr_pages_def sr_shape_def)
  let ?q = "sr_buf_upd i idpf_rx_get_buf_page q"
  let ?b = "idpf_rx_get_buf_page (sb_buf (sr_bufs q ! i))"
  have b: "sb_buf (sr_bufs ?q ! i) = ?b" using i by (simp add: sr_buf_upd_def)
  have bs: "buf_shape ?b" "buf_size ?b = 0" "pi_page (rx_cur ?b) = pi_page (sr_page q i)"
    using sh by (simp_all add: rx_get_put_fields sr_page_def)
  obtain f where q': "q' = sr_buf_upd i f ?q" and f: "buf_shape (f ?b) \<and> buf_size (f ?b) = 0 \<and> pi_page (rx_cur (f ?b)) = pi_page (rx_cur ?b)"
  proof (cases "sb_skb (sr_bufs ?q ! i)")
    case None
    obtain s1 b1 w1 where c: "idpf_rx_construct_skb psz (ans_skb ans) (ans_headlen ans) ?b sz w = (s1, b1, w1)" by (rule prod_cases3)
    show thesis
      using assms(1) None c construct_fields [OF c bs(1,2)] that [of "\<lambda>_. rx_put_buf_page b1"] that [of "\<lambda>_. b1"]
      by (cases s1) (auto simp: sr_take_def Let_def b rx_get_put_fields)
  next
    case (Some s0)
    obtain s1 b1 w1 where c: "idpf_rx_add_frag psz ?b s0 sz w = (s1, b1, w1)" by (rule prod_cases3)
    show thesis
      using assms(1) Some c add_frag_fields [OF c bs(1,2)] that [of "\<lambda>_. b1"] by (auto simp: sr_take_def Let_def b)
  qed
  have p1: "sr_pages ?q ntc" using assms(2,3) sh by (intro sr_pages_buf_upd) (simp_all add: rx_get_put_fields)
  have "sr_pages q' ntc" unfolding q' using assms(3) f b by (intro sr_pages_buf_upd [OF p1]) auto
  moreover have "pi_page (sr_page q' j) = pi_page (sr_page q j)"
    using i f bs(3) by (simp add: q' sr_page_buf_upd b)
  ultimately show ?thesis unfolding q' using sr_same_trans [OF sr_buf_upd_fields(6) sr_buf_upd_fields(6)] by simp
qed

text \<open>The page of slot \<open>i = next_to_clean\<close> is given up or moves to the slot at \<open>next_to_use\<close>.\<close>

lemma sr_recycle_step:
  assumes "idpf_rx_singleq_recycle_buf psz reusable ntc q w = (r, q', w')" and ok: "sr_pages q ntc"
    and np: "pi_page (sr_page q ntc) \<noteq> NULL" and last: "Suc ntc mod length (sr_descs q) \<noteq> sr_next_to_use q"
  shows "sr_pages q' (Suc ntc mod length (sr_descs q)) \<and> sr_same q q' \<and> sr_delivered q' = sr_delivered q \<and>
    sr_next_to_use q' = (sr_next_to_use q + of_bool r) mod length (sr_descs q)"
proof -
  let ?n = "length (sr_descs q)" and ?u = "sr_next_to_use q"
  have n: "length (sr_bufs q) = ?n" "?n \<le> 65535" "?u < ?n" "ntc < ?n" "?u \<noteq> ntc" using ok by (simp_all add: sr_pages_def)
  have sh: "buf_shape (sb_buf (sr_bufs q ! i))" "buf_size (sb_buf (sr_bufs q ! i)) = 0" if "i < ?n" for i
    using ok that by (simp_all add: sr_pages_def sr_shape_def)
  obtain b w1 where c: "idpf_rx_can_reuse_page psz reusable (sb_buf (sr_bufs q ! ntc)) w = (r, b, w1)"
    using assms(1) by (auto simp: idpf_rx_singleq_recycle_buf_def Let_def split: prod.splits)
  have b: "buf_shape b" "buf_size b = 0" "pi_page (rx_cur b) = pi_page (sr_page q ntc)"
    using c sh [OF n(4)] by (auto simp: idpf_rx_can_reuse_page_def Let_def sr_page_def split: if_splits)
  let ?q1 = "sr_buf_upd ntc (\<lambda>_. b) q"
  let ?q2 = "if r then idpf_rx_reuse_page ntc ?q1 else ?q1"
  let ?f = "rx_cur_upd (\<lambda>x. x\<lparr>pi_page := NULL\<rparr>)"
  have q': "q' = sr_set_skb ntc None (sr_buf_upd ntc ?f ?q2)"
    using assms(1) c by (auto simp: idpf_rx_singleq_recycle_buf_def Let_def)
  have q2: "sr_same q ?q2" "sr_delivered ?q2 = sr_delivered q" "sr_next_to_use ?q2 = (?u + of_bool r) mod ?n"
    "length (sr_bufs ?q2) = ?n" "sr_descs ?q2 = sr_descs q"
    using n by (auto simp: idpf_rx_reuse_page_def Let_def sr_bump_eq sr_same_def sr_buf_upd_def)
  have sh1: "sr_shape (sr_bufs ?q1 ! i)" if "i < ?n" for i
    using that n sh b by (intro sr_shape_buf_upd) (auto simp: sr_shape_def)
  have sh2: "sr_shape (sr_bufs ?q2 ! i)" if "i < ?n" for i
    using that n sh1 sr_shape_buf_upd [of ?u ?q1 i]
    by (cases r) (auto simp: idpf_rx_reuse_page_def Let_def sr_shape_def)
  have sh': "sr_shape (sr_bufs q' ! i)" if "i < ?n" for i
    unfolding q' sr_shape_set_skb using that sh2 q2(4) n(4) by (intro sr_shape_buf_upd) (auto simp: sr_shape_def)
  have pg1: "pi_page (sr_page ?q1 i) = pi_page (sr_page q i)" for i using b(3) n by (simp add: sr_page_buf_upd)
  have pg2: "pi_page (sr_page ?q2 i) = (if r \<and> i = ?u then pi_page (sr_page q ntc) else pi_page (sr_page q i))" for i
    using pg1 n b(3) sh1 [of ?u] by (cases r) (auto simp: idpf_rx_reuse_page_def Let_def sr_page_buf_upd sr_shape_def sr_page_def [of "_\<lparr>sr_next_to_use := _\<rparr>"] sr_page_def [symmetric])
  have pg: "pi_page (sr_page q' i) = (if i = ntc then NULL else if r \<and> i = ?u then pi_page (sr_page q ntc) else pi_page (sr_page q i))" for i
    using pg2 sh2 [OF n(4)] q2(4) n(4) by (simp add: q' sr_page_buf_upd sr_shape_def)
  have same: "sr_same q q'" "sr_delivered q' = sr_delivered q" "sr_next_to_use q' = (?u + of_bool r) mod ?n"
    using q2 sr_same_trans [OF q2(1) sr_same_trans [OF sr_buf_upd_fields(6) sr_set_skb_fields(4)]] unfolding q' by simp_all
  have null: "pi_page (sr_page q i) = NULL \<longleftrightarrow> ring_gap ?n ?u ntc i" if "i < ?n" for i
    using ok that by (simp add: sr_pages_def)
  have gap: "pi_page (sr_page q' i) = NULL \<longleftrightarrow> ring_gap ?n (sr_next_to_use q') (Suc ntc mod ?n) i" if "i < ?n" for i
    using n null [OF that] that np last ring_gap_grow [OF n(3,4) that last] ring_gap_slide [OF n(3,4) that n(5)]
    by (cases r) (auto simp: pg same(3))
  have "sr_next_to_use q' \<noteq> Suc ntc mod ?n"
    using n last by (cases r) (auto simp: same(3) Suc_mod_ring split: if_splits)
  moreover have "Suc ntc mod ?n < ?n" "(?u + of_bool r) mod ?n < ?n" using n(4) by (auto intro: mod_less_divisor)
  ultimately have "sr_pages q' (Suc ntc mod ?n)"
    using n same(1) gap sh' by (auto simp: sr_pages_def sr_same_def same(3))
  with same show ?thesis by simp
qed

section \<open>The loop\<close>

definition sr_dd :: "sr_rxq \<Rightarrow> nat \<Rightarrow> bool" where
  "sr_dd q i = idpf_rx_singleq_test_staterr (sr_descs q ! i) IDPF_RXD_DD"

text \<open>From \<open>ntc\<close> the loop consumed \<open>c\<close> finished descriptors and reused \<open>r\<close> of their pages.\<close>

definition sr_loop_ok :: "sr_rxq \<Rightarrow> nat \<Rightarrow> nat \<Rightarrow> nat \<Rightarrow> sr_rxq \<Rightarrow> nat \<Rightarrow> bool" where
  "sr_loop_ok q ntc c r q' ntc' \<longleftrightarrow> sr_pages q' ntc' \<and> sr_same q q' \<and> r \<le> c \<and>
     ntc' = (ntc + c) mod length (sr_descs q) \<and> sr_next_to_use q' = (sr_next_to_use q + r) mod length (sr_descs q) \<and>
     (\<forall>j < c. sr_dd q ((ntc + j) mod length (sr_descs q)))"

lemma sr_loop_ok_0: "sr_pages q' ntc \<Longrightarrow> sr_same q q' \<Longrightarrow> sr_next_to_use q' = sr_next_to_use q \<Longrightarrow> sr_loop_ok q ntc 0 0 q' ntc"
  by (auto simp: sr_loop_ok_def sr_pages_def sr_same_def)

lemma sr_loop_ok_Suc:
  assumes "sr_loop_ok q1 (Suc ntc mod length (sr_descs q)) c r q' ntc'" and "sr_same q q1" and "sr_dd q ntc"
    and "ntc < length (sr_descs q)" and "sr_next_to_use q1 = (sr_next_to_use q + of_bool b) mod length (sr_descs q)"
  shows "sr_loop_ok q ntc (Suc c) (r + of_bool b) q' ntc'"
proof -
  let ?n = "length (sr_descs q)"
  have d: "sr_descs q1 = sr_descs q" using assms(2) by (simp add: sr_same_def)
  have "sr_dd q ((ntc + j) mod ?n)" if "j < Suc c" for j
  proof (cases j)
    case (Suc k)
    with that assms(1) have "sr_dd q1 ((Suc ntc mod ?n + k) mod ?n)" by (simp add: sr_loop_ok_def d)
    then show ?thesis using Suc by (simp add: mod_simps sr_dd_def d)
  qed (use assms(3,4) in simp)
  moreover have "(sr_next_to_use q + (r + of_bool b)) mod ?n = ((sr_next_to_use q + of_bool b) mod ?n + r) mod ?n"
    by (simp add: mod_simps ac_simps)
  ultimately show ?thesis
    using assms(1,2,5) sr_same_trans [OF assms(2)] by (auto simp: sr_loop_ok_def d mod_simps)
qed

lemma sr_finish_keeps:
  assumes "sr_finish d pt s q w = (k, q', w')"
  shows "sr_same q q' \<and> sr_next_to_use q' = sr_next_to_use q \<and> sr_pages q' ntc = sr_pages q ntc \<and> k \<le> 1 \<and>
    length (sr_delivered q') = length (sr_delivered q) + k \<and> sr_page q' j = sr_page q j"
  using assms by (auto simp: sr_finish_def sr_same_def sr_pages_def sr_page_def split: if_splits)

text \<open>What the loop does with a finished descriptor.\<close>

lemma sr_loop_step:
  assumes ok: "sr_pages q ntc" and s: "s < length (sr_descs q)" "s \<noteq> ntc" "pi_page (sr_page q s) \<noteq> NULL"
    and dd: "pkts < budget" "sr_dd q ntc" and np: "pi_page (sr_page q ntc) \<noteq> NULL"
    and sz: "ext_size (idpf_rx_singleq_extract_fields (sr_base q) (sr_descs q ! ntc)) \<noteq> 0"
  obtains (stop) q1 w1 where "sr_clean_loop psz reusable ans budget pkts cleaned ntc q w = Some (pkts, cleaned, ntc, q1, w1)"
      "sr_pages q1 ntc" "sr_same q q1" "sr_next_to_use q1 = sr_next_to_use q" "sr_delivered q1 = sr_delivered q"
  | (go) k r q1 w1 where "sr_clean_loop psz reusable ans budget pkts cleaned ntc q w =
        sr_clean_loop psz reusable ans budget (pkts + k) (Suc cleaned) (Suc ntc mod length (sr_descs q)) q1 w1"
      "sr_pages q1 (Suc ntc mod length (sr_descs q))" "sr_same q q1" "k \<le> 1"
      "sr_next_to_use q1 = (sr_next_to_use q + of_bool r) mod length (sr_descs q)"
      "length (sr_delivered q1) = length (sr_delivered q) + k" "pi_page (sr_page q1 s) \<noteq> NULL"
proof -
  let ?n = "length (sr_descs q)" and ?f = "idpf_rx_singleq_extract_fields (sr_base q) (sr_descs q ! ntc)"
  have n: "ntc < ?n" "sr_next_to_use q < ?n" using ok by (simp_all add: sr_pages_def)
  obtain sk q0 w0 where t: "sr_take psz (ans cleaned) ntc (ext_size ?f) q w = (sk, q0, w0)" by (rule prod_cases3)
  note tk = sr_take_keeps [OF t ok n(1)]
  have q0: "sr_pages q0 ntc" "sr_same q q0" "sr_next_to_use q0 = sr_next_to_use q" "sr_delivered q0 = sr_delivered q"
      "pi_page (sr_page q0 ntc) \<noteq> NULL" "pi_page (sr_page q0 s) \<noteq> NULL" "sr_descs q0 = sr_descs q"
    using tk [of ntc] tk [of s] np s(3) by (simp_all add: sr_same_def)
  note simps = sr_clean_loop.simps [of psz reusable ans budget pkts cleaned ntc q w]
  show thesis
  proof (cases sk)
    case None
    then show thesis using stop [OF _ q0(1-4)] dd np sz t by (simp add: simps Let_def sr_dd_def)
  next
    case (Some skb)
    have gap: "\<not> ring_gap ?n (sr_next_to_use q) ntc s" using ok s by (simp add: sr_pages_def)
    have last: "Suc ntc mod length (sr_descs q0) \<noteq> sr_next_to_use q0"
      using ring_gap_last [OF n(2,1) s(1,2) gap] q0 by simp
    obtain r q1 w1 where rc: "idpf_rx_singleq_recycle_buf psz reusable ntc q0 w0 = (r, q1, w1)" by (rule prod_cases3)
    note st = sr_recycle_step [OF rc q0(1,5) last]
    have q1: "sr_pages q1 (Suc ntc mod ?n)" "sr_same q q1" "sr_delivered q1 = sr_delivered q"
        "sr_next_to_use q1 = (sr_next_to_use q + of_bool r) mod ?n" "sr_descs q1 = sr_descs q"
      using st q0 sr_same_trans [OF q0(2)] by (auto simp: sr_same_def)
    have sn: "pi_page (sr_page q1 s) \<noteq> NULL"
    proof -
      have "\<not> ring_gap ?n (sr_next_to_use q1) (Suc ntc mod ?n) s"
        using gap s ring_gap_grow [OF n(2,1) s(1)] ring_gap_slide [OF n(2,1) s(1)] last q0 q1(4) ok
        by (cases r) (auto simp: sr_pages_def)
      then show ?thesis using q1(1,5) s(1) by (simp add: sr_pages_def)
    qed
    let ?ntc = "Suc ntc mod ?n"
    have bump: "sr_bump q1 ntc = ?ntc" using n q1(5) by (simp add: sr_bump_eq)
    obtain more q2 where ne: "idpf_rx_singleq_is_non_eop (sr_descs q ! ntc) ?ntc skb q1 = (more, q2)" by fastforce
    have q2: "sr_pages q2 ?ntc" "sr_same q1 q2" "sr_next_to_use q2 = sr_next_to_use q1" "sr_delivered q2 = sr_delivered q1"
        "sr_page q2 s = sr_page q1 s"
      using ne q1(1) by (auto simp: idpf_rx_singleq_is_non_eop_def split: if_splits)
    obtain k q3 w3 where fi: "sr_finish (sr_descs q ! ntc) (ext_rx_ptype ?f) skb q2 w1 = (k, q3, w3)" by (rule prod_cases3)
    note f3 = sr_finish_keeps [OF fi]
    have q3: "sr_pages q3 ?ntc" "sr_same q2 q3" "sr_next_to_use q3 = sr_next_to_use q2" "k \<le> 1"
        "length (sr_delivered q3) = length (sr_delivered q2) + k" "sr_page q3 s = sr_page q2 s"
      using f3 q2(1) by auto
    have eq: "sr_clean_loop psz reusable ans budget pkts cleaned ntc q w =
        (if more then sr_clean_loop psz reusable ans budget pkts (Suc cleaned) ?ntc q2 w1
         else sr_clean_loop psz reusable ans budget (pkts + k) (Suc cleaned) ?ntc q3 w3)"
      using dd np sz t Some rc ne fi by (simp add: simps Let_def sr_dd_def bump)
    show thesis
    proof (cases more)
      case True
      show thesis
        using eq True q2 q1 sn sr_same_trans [OF q1(2) q2(2)]
        by (intro go [of 0 q2 w1 r]) simp_all
    next
      case False
      show thesis
        using eq False q3 q2 q1 sn sr_same_trans [OF sr_same_trans [OF q1(2) q2(2)] q3(2)]
        by (intro go [of k q3 w3 r]) simp_all
    qed
  qed
qed

lemma sr_clean_loop_returns:
  assumes "sr_pages q ntc" and "s < length (sr_descs q)" "\<not> sr_dd q s" "pi_page (sr_page q s) \<noteq> NULL" and "pkts \<le> budget"
    and "ring_dist (length (sr_descs q)) ntc s = m"
  shows "\<exists>c r k ntc' q' w'. sr_clean_loop psz reusable ans budget pkts cleaned ntc q w = Some (pkts + k, cleaned + c, ntc', q', w') \<and>
    c \<le> m \<and> sr_loop_ok q ntc c r q' ntc' \<and> pkts + k \<le> budget \<and> length (sr_delivered q') = length (sr_delivered q) + k"
  using assms
proof (induction m arbitrary: ntc q pkts cleaned w)
  case 0
  then have "s = ntc" by (simp add: sr_pages_def)
  then have "sr_clean_loop psz reusable ans budget pkts cleaned ntc q w = Some (pkts + 0, cleaned + 0, ntc, q, w)"
    using 0 by (simp add: sr_clean_loop.simps [of psz reusable ans budget pkts] Let_def sr_dd_def)
  then show ?case using 0 by (intro exI conjI) (auto intro: sr_loop_ok_0)
next
  case (Suc m)
  let ?f = "idpf_rx_singleq_extract_fields (sr_base q) (sr_descs q ! ntc)"
  have n: "ntc < length (sr_descs q)" using Suc.prems(1) by (simp add: sr_pages_def)
  have ne: "s \<noteq> ntc" using Suc.prems(6) by auto
  have np: "pi_page (sr_page q ntc) \<noteq> NULL" using Suc.prems(1) n by (simp add: sr_pages_def ring_gap_def)
  show ?case
  proof (cases "pkts < budget \<and> sr_dd q ntc \<and> ext_size ?f \<noteq> 0")
    case False
    then have "sr_clean_loop psz reusable ans budget pkts cleaned ntc q w = Some (pkts + 0, cleaned + 0, ntc, q, w)"
      by (auto simp: sr_clean_loop.simps [of psz reusable ans budget pkts] Let_def sr_dd_def)
    then show ?thesis using Suc.prems by (intro exI conjI) (auto intro: sr_loop_ok_0)
  next
    case True
    from True have t: "pkts < budget" "sr_dd q ntc" "ext_size ?f \<noteq> 0" by simp_all
    show ?thesis
    proof (rule sr_loop_step [OF Suc.prems(1,2) ne Suc.prems(4) t(1,2) np t(3), where psz = psz and reusable = reusable and ans = ans and cleaned = cleaned and w = w])
      fix q1 w1
      assume a: "sr_clean_loop psz reusable ans budget pkts cleaned ntc q w = Some (pkts, cleaned, ntc, q1, w1)"
        "sr_pages q1 ntc" "sr_same q q1" "sr_next_to_use q1 = sr_next_to_use q" "sr_delivered q1 = sr_delivered q"
      then show ?thesis using Suc.prems(5) sr_loop_ok_0 [OF a(2-4)]
        by (intro exI [of _ 0] exI [of _ ntc] exI [of _ q1] exI [of _ w1]) simp
    next
      fix k r q1 w1
      assume a: "sr_clean_loop psz reusable ans budget pkts cleaned ntc q w =
          sr_clean_loop psz reusable ans budget (pkts + k) (Suc cleaned) (Suc ntc mod length (sr_descs q)) q1 w1"
        "sr_pages q1 (Suc ntc mod length (sr_descs q))" "sr_same q q1" "k \<le> 1"
        "sr_next_to_use q1 = (sr_next_to_use q + of_bool r) mod length (sr_descs q)"
        "length (sr_delivered q1) = length (sr_delivered q) + k" "pi_page (sr_page q1 s) \<noteq> NULL"
      have d: "sr_descs q1 = sr_descs q" using a(3) by (simp add: sr_same_def)
      have dist: "ring_dist (length (sr_descs q1)) (Suc ntc mod length (sr_descs q)) s = m"
        using ring_dist_step [OF n Suc.prems(2)] ne Suc.prems(6) d by simp
      have "s < length (sr_descs q1)" "\<not> sr_dd q1 s" "pkts + k \<le> budget"
        using Suc.prems(2,3) t(1) a(4) by (simp_all add: d sr_dd_def)
      from Suc.IH [OF a(2) this(1,2) a(7) this(3) dist, of "Suc cleaned" w1]
      obtain c r' k' ntc' q' w' where r: "sr_clean_loop psz reusable ans budget (pkts + k) (Suc cleaned) (Suc ntc mod length (sr_descs q)) q1 w1 =
            Some (pkts + k + k', Suc cleaned + c, ntc', q', w')" "c \<le> m" "sr_loop_ok q1 (Suc ntc mod length (sr_descs q)) c r' q' ntc'"
          "pkts + k + k' \<le> budget" "length (sr_delivered q') = length (sr_delivered q1) + k'" by blast
      show ?thesis
        using r a(1,6) sr_loop_ok_Suc [OF r(3) a(3) t(2) n a(5)]
        by (intro exI [of _ "Suc c"] exI [of _ "r' + of_bool r"] exI [of _ "k + k'"] exI [of _ ntc'] exI [of _ q'] exI [of _ w']) (simp add: ac_simps)
    qed
  qed
qed

section \<open>Posting\<close>

definition sr_fresh :: "sr_rxq \<Rightarrow> nat \<Rightarrow> bool" where
  "sr_fresh q i \<longleftrightarrow> pi_page (sr_page q i) \<noteq> NULL \<and> sd_qw0 (sr_descs q ! i) = rx_pkt_addr (sr_page q i) \<and> sd_qw1 (sr_descs q ! i) = 0"

definition sr_frame :: "sr_rxq \<Rightarrow> sr_rxq \<Rightarrow> bool" where
  "sr_frame q q' \<longleftrightarrow> length (sr_descs q') = length (sr_descs q) \<and> length (sr_bufs q') = length (sr_bufs q) \<and>
     sr_next_to_use q' = sr_next_to_use q \<and> sr_next_to_alloc q' = sr_next_to_alloc q \<and>
     sr_next_to_clean q' = sr_next_to_clean q \<and> sr_delivered q' = sr_delivered q \<and> (\<forall>i < length (sr_bufs q). sr_shape (sr_bufs q ! i) \<longrightarrow> sr_shape (sr_bufs q' ! i))"

text \<open>Slot \<open>i\<close> keeps its page, or still has none.\<close>

definition sr_kept :: "sr_rxq \<Rightarrow> sr_rxq \<Rightarrow> nat \<Rightarrow> bool" where
  "sr_kept q q' i \<longleftrightarrow> sr_descs q' ! i = sr_descs q ! i \<and>
     (if pi_page (sr_page q i) = NULL then pi_page (sr_page q' i) = NULL else sr_page q' i = sr_page q i)"

lemma sr_kept_trans: "sr_kept q1 q2 i \<Longrightarrow> sr_kept q2 q3 i \<Longrightarrow> sr_kept q1 q3 i"
  by (auto simp: sr_kept_def split: if_splits)

text \<open>The kernel has no page to give: none at all, or only one that is in use.\<close>

definition kern_no_page :: "page_kern \<Rightarrow> page_world \<Rightarrow> bool" where
  "kern_no_page kern w \<longleftrightarrow> fst kern = NULL \<or> page_count w (fst kern) \<noteq> 0"

lemma sr_fill_spec:
  assumes "sr_fill kern p q w = (r, q', w')" and "snd kern \<noteq> None" and "p < length (sr_bufs q)" "sr_shape (sr_bufs q ! p)"
  shows "sr_frame q q' \<and> sr_descs q' = sr_descs q \<and> (\<forall>i. i \<noteq> p \<longrightarrow> sr_page q' i = sr_page q i) \<and>
    (pi_page (sr_page q' p) = NULL \<longleftrightarrow> r \<noteq> ret_ok) \<and> (r \<noteq> ret_ok \<longrightarrow> pi_page (sr_page q p) = NULL \<and> kern_no_page kern w')"
proof (cases "pi_page (sr_page q p) = NULL")
  case False
  then show ?thesis using assms(1) by (simp add: sr_fill_def sr_frame_def)
next
  case True
  obtain e x w1 where a: "idpf_alloc_page kern (sr_page q p) w = (e, x, w1)" by (rule prod_cases3)
  let ?x = "if e = ret_ok then x\<lparr>reuse_bias := 1\<rparr> else x"
  have q': "q' = sr_buf_upd p (rx_cur_upd (\<lambda>_. ?x)) q" "r = e" "w' = w1"
    using assms(1) True a by (auto simp: sr_fill_def split: option.splits)
  have x: "pi_page ?x = NULL \<longleftrightarrow> e \<noteq> ret_ok" "e \<noteq> ret_ok \<longrightarrow> kern_no_page kern w1"
    using a assms(2) True by (auto simp: idpf_alloc_page_def kern_no_page_def split: prod.splits if_splits option.splits)
  have s: "buf_shape (sb_buf (sr_bufs q ! p))" "buf_size (sb_buf (sr_bufs q ! p)) = 0" using assms(4) by (simp_all add: sr_shape_def)
  have "sr_shape (sr_bufs q' ! i)" if "i < length (sr_bufs q)" "sr_shape (sr_bufs q ! i)" for i
    unfolding q' using assms(3) s that by (intro sr_shape_buf_upd) simp_all
  then have "sr_frame q q'" by (simp add: sr_frame_def q')
  then show ?thesis using x s True assms(3) by (simp add: q' sr_page_buf_upd)
qed

lemma sr_page_descs [simp]: "sr_page (q\<lparr>sr_descs := ds\<rparr>) i = sr_page q i" "sr_page (q\<lparr>sr_next_to_clean := x\<rparr>) i = sr_page q i"
  by (simp_all add: sr_page_def)

lemma sr_frame_trans: "sr_frame q1 q2 \<Longrightarrow> sr_frame q2 q3 \<Longrightarrow> sr_frame q1 q3"
  by (simp add: sr_frame_def)

lemma ring_dist_first: "a < n \<Longrightarrow> i < n \<Longrightarrow> ring_dist n a i < Suc j \<longleftrightarrow> i = a \<or> i \<noteq> a \<and> ring_dist n (Suc a mod n) i < j"
  using ring_dist_step [of a n i] by auto

lemma sr_alloc_loop_spec:
  assumes "sr_alloc_loop kern m p q w = (left, p', q', w')" and "\<forall>k. snd (kern k) \<noteq> None" and "p < length (sr_descs q)"
    and "length (sr_bufs q) = length (sr_descs q)" "\<forall>i < length (sr_bufs q). sr_shape (sr_bufs q ! i)" and "m < length (sr_descs q)"
  shows "\<exists>j. j \<le> m \<and> left = m - j \<and> p' = (p + j) mod length (sr_descs q) \<and> sr_frame q q' \<and>
    (\<forall>i < length (sr_descs q). if ring_dist (length (sr_descs q)) p i < j then sr_fresh q' i else sr_kept q q' i) \<and>
    (left \<noteq> 0 \<longrightarrow> pi_page (sr_page q' p') = NULL \<and> kern_no_page (kern (left - 1)) w')"
  using assms
proof (induction m arbitrary: p q w)
  case 0
  then show ?case by (auto simp: sr_frame_def sr_kept_def)
next
  case (Suc m)
  let ?n = "length (sr_descs q)"
  obtain r q1 w1 where f: "sr_fill (kern m) p q w = (r, q1, w1)" by (rule prod_cases3)
  have p: "p < length (sr_bufs q)" "sr_shape (sr_bufs q ! p)" "snd (kern m) \<noteq> None" using Suc.prems by simp_all
  note fs = sr_fill_spec [OF f p(3,1,2)]
  show ?case
  proof (cases r)
    case (Some e)
    then have "left = Suc m" "p' = p" "q' = q1" "w' = w1" using Suc.prems(1) f by simp_all
    moreover have "sr_kept q q1 i" for i using fs Some by (cases "i = p") (auto simp: sr_kept_def)
    ultimately show ?thesis using fs Some Suc.prems(3) by (intro exI [of _ 0]) simp
  next
    case None
    let ?d = "(sr_descs q1 ! p)\<lparr>sd_qw0 := rx_pkt_addr (sr_page q1 p), sd_qw1 := 0\<rparr>"
    let ?q2 = "q1\<lparr>sr_descs := (sr_descs q1)[p := ?d]\<rparr>"
    have d1: "sr_descs q1 = sr_descs q" using fs by simp
    have fr2: "sr_frame q ?q2" using fs by (auto simp: sr_frame_def d1)
    have l2: "length (sr_descs ?q2) = ?n" by (simp add: d1)
    have bump: "sr_bump ?q2 p = Suc p mod ?n" using Suc.prems(3) by (subst sr_bump_eq) (simp_all add: d1)
    have rec: "sr_alloc_loop kern m (Suc p mod ?n) ?q2 w1 = (left, p', q', w')"
      using Suc.prems(1) f None bump by (simp add: Let_def)
    have "Suc p mod ?n < ?n" using Suc.prems(3) by (intro mod_less_divisor) auto
    then obtain j where j: "j \<le> m" "left = m - j" "p' = (Suc p mod ?n + j) mod ?n" "sr_frame ?q2 q'"
        "\<And>i. i < ?n \<Longrightarrow> if ring_dist ?n (Suc p mod ?n) i < j then sr_fresh q' i else sr_kept ?q2 q' i"
        "left \<noteq> 0 \<longrightarrow> pi_page (sr_page q' p') = NULL \<and> kern_no_page (kern (left - 1)) w'"
      using Suc.IH [OF rec Suc.prems(2)] Suc.prems fr2 unfolding l2 sr_frame_def by auto
    have other: "sr_kept q ?q2 i" if "i \<noteq> p" for i using fs that by (simp add: sr_kept_def d1)
    have "sr_fresh ?q2 p" using fs None Suc.prems(3) by (simp add: sr_fresh_def d1)
    moreover have "\<not> ring_dist ?n (Suc p mod ?n) p < j"
      using Suc.prems(3,6) j(1) by (auto simp: ring_dist_def Suc_mod_ring split: if_splits)
    ultimately have fresh: "sr_fresh q' p" using j(5) [OF Suc.prems(3)] by (auto simp: sr_kept_def sr_fresh_def)
    have "if ring_dist ?n p i < Suc j then sr_fresh q' i else sr_kept q q' i" if i: "i < ?n" for i
      using fresh j(5) [OF i] sr_kept_trans [OF other] ring_dist_first [OF Suc.prems(3) i, of j] Suc.prems(3)
      by (cases "i = p") (auto split: if_splits)
    then show ?thesis
      using j sr_frame_trans [OF fr2 j(4)] by (intro exI [of _ "Suc j"]) (auto simp: mod_simps)
  qed
qed

lemma ring_dist_forward:
  assumes "a < n" "b < n" and "ring_dist n a b + c < n"
  shows "ring_dist n a ((b + c) mod n) = ring_dist n a b + c"
  using assms by (auto simp: ring_dist_def mod_ring split: if_splits)

lemma ring_gap_outside:
  assumes "a < n" "b < n" "s < n" and "\<not> ring_gap n a b s"
  shows "ring_dist n a b + ring_dist n b s < n"
  using assms by (auto simp: ring_gap_def ring_dist_def split: if_splits)

text \<open>The end of a call: \<open>c\<close> descriptors were consumed and \<open>r\<close> pages reused.\<close>

lemma sr_alloc_all_spec:
  assumes "idpf_rx_singleq_buf_hw_alloc_all kern c q w = (failure, q', w')" and "\<forall>k. snd (kern k) \<noteq> None"
    and pg: "sr_pages q (sr_next_to_clean q)" and n: "n = length (sr_descs q)" and a: "a = sr_next_to_alloc q" "a < n"
    and r: "sr_next_to_use q = (a + r) mod n" "r \<le> c" and c: "c < ring_dist n a (sr_next_to_clean q)"
  shows "\<exists>j. j \<le> c \<and> (failure \<longleftrightarrow> j < c) \<and> sr_ok q' \<and> sr_next_to_alloc q' = (a + j) mod n \<and>
    sr_next_to_clean q' = sr_next_to_clean q \<and> sr_delivered q' = sr_delivered q \<and> length (sr_descs q') = n \<and>
    (\<forall>i < n. if ring_dist n a i < j then sr_fresh q' i else sr_descs q' ! i = sr_descs q ! i) \<and>
    (j < c \<longrightarrow> kern_no_page (kern (c - j - 1)) w') \<and> fst (sr_alloc_loop kern c a q w) = c - j"
proof (cases "c = 0")
  case True
  then show ?thesis using assms by (intro exI [of _ 0]) (simp add: idpf_rx_singleq_buf_hw_alloc_all_def sr_ok_def)
next
  case False
  let ?b = "sr_next_to_clean q"
  have b: "?b < n" "length (sr_bufs q) = n" "n \<le> 65535" using pg n by (simp_all add: sr_pages_def)
  have cn: "c < n" using c ring_dist_less [OF a(2) b(1)] by simp
  obtain left p q1 w1 where l: "sr_alloc_loop kern c a q w = (left, p, q1, w1)" by (rule prod_cases4)
  have sh: "\<forall>i < length (sr_bufs q). sr_shape (sr_bufs q ! i)" using pg by (simp add: sr_pages_def)
  obtain j where j: "j \<le> c" "left = c - j" "p = (a + j) mod n" "sr_frame q q1"
      "\<And>i. i < n \<Longrightarrow> if ring_dist n a i < j then sr_fresh q1 i else sr_kept q q1 i"
      "left \<noteq> 0 \<longrightarrow> pi_page (sr_page q1 p) = NULL \<and> kern_no_page (kern (left - 1)) w1"
    using sr_alloc_loop_spec [OF l assms(2)] a b sh cn unfolding n by auto
  have pn: "p < n" using j(3) a(2) by (auto intro: mod_less_divisor)
  define q2 where "q2 = (if sr_next_to_alloc q1 \<noteq> p then (sr_hw_update q1 p)\<lparr>sr_next_to_alloc := p\<rparr> else q1)"
  have q': "q' = q2" "failure \<longleftrightarrow> left \<noteq> 0" "w' = w1"
    using assms(1) False l by (simp_all add: idpf_rx_singleq_buf_hw_alloc_all_def Let_def a(1) q2_def)
  have gap: "pi_page (sr_page q i) = NULL \<longleftrightarrow> r \<le> ring_dist n a i \<and> ring_gap n a ?b i" if "i < n" for i
    using pg that ring_gap_shift [OF a(2) b(1) that, of r] r c by (simp add: sr_pages_def n)
  have rj: "r \<le> j"
  proof (cases "j = c")
    case False
    then have "pi_page (sr_page q1 p) = NULL" using j by simp
    moreover have dp: "ring_dist n a p = j" using j(1,3) a(2) cn by (simp add: ring_dist_add)
    ultimately have "pi_page (sr_page q p) = NULL" using j(5) [OF pn] by (auto simp: sr_kept_def split: if_splits)
    then show ?thesis using gap [OF pn] dp by simp
  qed (use r(2) in simp)
  have same: "sr_next_to_alloc q1 = a" "length (sr_descs q1) = n" "length (sr_bufs q1) = n" "sr_next_to_clean q1 = ?b"
      "sr_delivered q1 = sr_delivered q" "\<forall>i < n. sr_shape (sr_bufs q1 ! i)" "sr_next_to_use q1 = (a + r) mod n"
    using j(4) a b sh r n by (simp_all add: sr_frame_def)
  have pa: "p = a \<longleftrightarrow> j = 0" using j(1,3) a(2) cn ring_add_neq [OF a(2), of j] by (cases "j = 0") auto
  have tp: "trunc16 p = p" and pu: "p = a \<Longrightarrow> (a + r) mod n = p" using pn b(3) pa rj j(3) by simp_all
  have f: "sr_descs q2 = sr_descs q1" "sr_bufs q2 = sr_bufs q1" "sr_next_to_clean q2 = ?b" "sr_delivered q2 = sr_delivered q"
      "sr_next_to_alloc q2 = p" "sr_next_to_use q2 = p"
    using same b tp pu by (auto simp: q2_def sr_hw_update_def Let_def)
  have pgq: "sr_page q2 i = sr_page q1 i" for i by (simp add: sr_page_def f(2))
  have "pi_page (sr_page q1 i) = NULL \<longleftrightarrow> j \<le> ring_dist n a i \<and> ring_gap n a ?b i" if "i < n" for i
    using j(5) [OF that] gap [OF that] rj by (auto simp: sr_fresh_def sr_kept_def split: if_splits)
  then have gap': "pi_page (sr_page q2 i) = NULL \<longleftrightarrow> ring_gap n p ?b i" if "i < n" for i
    using ring_gap_shift [OF a(2) b(1) that, of j] j(1) c that unfolding pgq j(3) by simp
  have "p \<noteq> ?b" using ring_dist_add [OF a(2), of j] j c cn by auto
  then have "sr_ok q2" using gap' same b pn unfolding sr_ok_def sr_pages_def f by simp
  moreover have "if ring_dist n a i < j then sr_fresh q2 i else sr_descs q2 ! i = sr_descs q ! i" if "i < n" for i
    using j(5) [OF that] by (auto simp: sr_fresh_def sr_kept_def pgq f(1) split: if_splits)
  moreover have "length (sr_descs q2) = n" "failure \<longleftrightarrow> j < c" using q'(2) j(1,2) same(2) f(1) by auto
  moreover have "j < c \<longrightarrow> kern_no_page (kern (c - j - 1)) w1" "fst (sr_alloc_loop kern c a q w) = c - j"
    using j(2,6) l by auto
  ultimately show ?thesis using j(1,3) f(3-5) unfolding q'(1,3) by blast
qed

subsection \<open>Mappings that fail\<close>

text \<open>
  When a page cannot be mapped, \<open>idpf_alloc_page\<close> gives it back to the kernel but leaves it in the
  buffer.  Up to that one stale page the call goes as if there had been no page.
\<close>

definition kern_map_failed :: "page_kern \<Rightarrow> page_world \<Rightarrow> bool" where
  "kern_map_failed kern w \<longleftrightarrow> \<not> kern_no_page kern w \<and> snd kern = None"

definition kern_mapped :: "page_kern \<Rightarrow> page_kern" where
  "kern_mapped kern = (if snd kern = None then (NULL, Some 0) else kern)"

definition sr_no_page :: "nat \<Rightarrow> sr_rxq \<Rightarrow> sr_rxq" where
  "sr_no_page i = sr_buf_upd i (rx_cur_upd (\<lambda>x. x\<lparr>pi_page := NULL\<rparr>))"

text \<open>\<open>q2\<close> is \<open>q\<close> without the page in slot \<open>i\<close>, whatever its address.\<close>

definition sr_unpaged :: "nat \<Rightarrow> sr_rxq \<Rightarrow> sr_rxq \<Rightarrow> bool" where
  "sr_unpaged i q q2 \<longleftrightarrow> (\<exists>d. q2 = sr_buf_upd i (rx_cur_upd (\<lambda>x. x\<lparr>pi_page := NULL, pi_dma := d\<rparr>)) q)"

lemma sr_no_page_ok:
  assumes "sr_unpaged i q q2" and "sr_ok q2" and "i < length (sr_descs q)"
  shows "sr_ok (sr_no_page i q)"
proof -
  obtain d where q2: "q2 = sr_buf_upd i (rx_cur_upd (\<lambda>x. x\<lparr>pi_page := NULL, pi_dma := d\<rparr>)) q"
    using assms(1) by (auto simp: sr_unpaged_def)
  have l: "i < length (sr_bufs q)" using assms by (simp add: sr_ok_def sr_pages_def q2)
  have s: "sr_shape (sr_bufs (sr_no_page i q) ! j) = sr_shape (sr_bufs q2 ! j)" for j
    using l by (cases "j = i") (simp_all add: q2 sr_no_page_def sr_buf_upd_def sr_shape_def buf_shape_def rx_cur_upd_def)
  have "page_indx (sb_buf (sr_bufs q ! i)) < length (page_info (sb_buf (sr_bufs q ! i)))"
    using assms(2,3) l by (auto simp: sr_ok_def sr_pages_def sr_shape_def buf_shape_def q2 sr_buf_upd_def rx_cur_upd_def dest!: spec [of _ i])
  then have "pi_page (sr_page (sr_no_page i q) j) = pi_page (sr_page q2 j)" for j
    using l by (cases "j = i") (simp_all add: q2 sr_no_page_def sr_page_buf_upd rx_cur_upd_def rx_cur_def)
  then show ?thesis using assms(2) s by (simp add: sr_ok_def sr_pages_def sr_no_page_def q2)
qed

lemma sr_buf_upd_twice: "sr_buf_upd i f (sr_buf_upd i g q) = sr_buf_upd i (\<lambda>b. f (g b)) q"
  by (cases "i < length (sr_bufs q)") (simp_all add: sr_buf_upd_def list_update_beyond)

lemma sr_fill_mapped:
  assumes "sr_fill kern p q w = (r, q', w')"
  shows "\<exists>q2. sr_fill (kern_mapped kern) p q w = (r, q2, w') \<and>
    (if r \<noteq> ret_ok \<and> kern_map_failed kern w' then sr_unpaged p q' q2 else q2 = q')"
proof (cases "pi_page (sr_page q p) = NULL \<and> kern_map_failed kern w")
  case True
  let ?x = "sr_page q p"
  have r: "r = Some ENOMEM" "w' = w" "q' = sr_buf_upd p (rx_cur_upd (\<lambda>_. ?x\<lparr>pi_page := fst kern, pi_dma := - 1\<rparr>)) q"
    using assms True by (auto simp: sr_fill_def idpf_alloc_page_def kern_map_failed_def kern_no_page_def split: prod.splits)
  have "sr_fill (kern_mapped kern) p q w = (r, sr_buf_upd p (rx_cur_upd (\<lambda>_. ?x\<lparr>pi_page := NULL\<rparr>)) q, w)"
    using True r(1) by (simp add: sr_fill_def idpf_alloc_page_def kern_map_failed_def kern_mapped_def)
  moreover have "sr_unpaged p q' (sr_buf_upd p (rx_cur_upd (\<lambda>_. ?x\<lparr>pi_page := NULL\<rparr>)) q)"
    unfolding sr_unpaged_def r(3) sr_buf_upd_twice rx_cur_upd_twice by (intro exI [of _ "pi_dma ?x"]) simp
  ultimately show ?thesis using True r by simp
next
  case False
  then have "sr_fill (kern_mapped kern) p q w = (r, q', w')"
    using assms by (cases kern) (auto simp: sr_fill_def idpf_alloc_page_def kern_map_failed_def kern_no_page_def kern_mapped_def)
  moreover have "\<not> (r \<noteq> ret_ok \<and> kern_map_failed kern w')"
    using assms False by (cases kern) (auto simp: sr_fill_def idpf_alloc_page_def kern_map_failed_def kern_no_page_def split: if_splits option.splits)
  ultimately show ?thesis by auto
qed

lemma sr_alloc_loop_mapped:
  assumes "sr_alloc_loop kern m p q w = (left, p', q', w')"
  shows "\<exists>q2. sr_alloc_loop (kern_mapped \<circ> kern) m p q w = (left, p', q2, w') \<and>
    (if left \<noteq> 0 \<and> kern_map_failed (kern (left - 1)) w' then sr_unpaged p' q' q2 else q2 = q')"
  using assms
proof (induction m arbitrary: p q w)
  case (Suc m)
  obtain r q1 w1 where f: "sr_fill (kern m) p q w = (r, q1, w1)" by (rule prod_cases3)
  from sr_fill_mapped [OF f] show ?case
    using Suc.prems Suc.IH by (cases r) (auto simp: f Let_def)
qed simp


lemma sr_alloc_all_mapped:
  assumes "idpf_rx_singleq_buf_hw_alloc_all kern c q w = (failure, q', w')" and "left = fst (sr_alloc_loop kern c (sr_next_to_alloc q) q w)"
  shows "\<exists>q2. idpf_rx_singleq_buf_hw_alloc_all (kern_mapped \<circ> kern) c q w = (failure, q2, w') \<and>
    left = fst (sr_alloc_loop (kern_mapped \<circ> kern) c (sr_next_to_alloc q) q w) \<and>
    (if left \<noteq> 0 \<and> kern_map_failed (kern (left - 1)) w' then sr_unpaged (sr_next_to_alloc q') q' q2 else q2 = q')"
proof (cases "c = 0")
  case False
  obtain p q1 w1 where l: "sr_alloc_loop kern c (sr_next_to_alloc q) q w = (left, p, q1, w1)"
    using assms(2) by (cases "sr_alloc_loop kern c (sr_next_to_alloc q) q w") auto
  obtain q3 where l3: "sr_alloc_loop (kern_mapped \<circ> kern) c (sr_next_to_alloc q) q w = (left, p, q3, w1)"
      "if left \<noteq> 0 \<and> kern_map_failed (kern (left - 1)) w1 then sr_unpaged p q1 q3 else q3 = q1"
    using sr_alloc_loop_mapped [OF l] by blast
  have "sr_unpaged p q1 q3 \<Longrightarrow> sr_unpaged p (if sr_next_to_alloc q1 \<noteq> p then (sr_hw_update q1 p)\<lparr>sr_next_to_alloc := p\<rparr> else q1)
     (if sr_next_to_alloc q3 \<noteq> p then (sr_hw_update q3 p)\<lparr>sr_next_to_alloc := p\<rparr> else q3)"
    unfolding sr_unpaged_def by (elim exE, rule_tac x = d in exI) (simp add: sr_buf_upd_def sr_hw_update_def Let_def)
  then show ?thesis
    using assms(1) False l l3 by (auto simp: idpf_rx_singleq_buf_hw_alloc_all_def Let_def split: if_splits)
qed (use assms in \<open>simp add: idpf_rx_singleq_buf_hw_alloc_all_def\<close>)

lemma sr_alloc_all_any:
  assumes "idpf_rx_singleq_buf_hw_alloc_all kern c q w = (failure, q', w')"
    and pg: "sr_pages q (sr_next_to_clean q)" and n: "n = length (sr_descs q)" and a: "a = sr_next_to_alloc q" "a < n"
    and r: "sr_next_to_use q = (a + r) mod n" "r \<le> c" and c: "c < ring_dist n a (sr_next_to_clean q)"
  shows "\<exists>j. j \<le> c \<and> (failure \<longleftrightarrow> j < c) \<and> sr_next_to_alloc q' = (a + j) mod n \<and>
    sr_next_to_clean q' = sr_next_to_clean q \<and> sr_delivered q' = sr_delivered q \<and> length (sr_descs q') = n \<and>
    (\<forall>i < n. if ring_dist n a i < j then sr_fresh q' i else sr_descs q' ! i = sr_descs q ! i) \<and>
    (j < c \<longrightarrow> kern_no_page (kern (c - j - 1)) w' \<or> snd (kern (c - j - 1)) = None) \<and>
    sr_ok (if j < c \<and> kern_map_failed (kern (c - j - 1)) w' then sr_no_page (sr_next_to_alloc q') q' else q')"
proof -
  let ?kern = "kern_mapped \<circ> kern"
  obtain q2 left where q2: "idpf_rx_singleq_buf_hw_alloc_all ?kern c q w = (failure, q2, w')" "left = fst (sr_alloc_loop ?kern c a q w)"
      "if left \<noteq> 0 \<and> kern_map_failed (kern (left - 1)) w' then sr_unpaged (sr_next_to_alloc q') q' q2 else q2 = q'"
    using sr_alloc_all_mapped [OF assms(1) refl] a(1) by auto
  have "\<forall>k. snd (?kern k) \<noteq> None" by (simp add: kern_mapped_def)
  from sr_alloc_all_spec [OF q2(1) this pg n a r c] obtain j where
    j: "j \<le> c" "failure \<longleftrightarrow> j < c" "sr_ok q2" "sr_next_to_alloc q2 = (a + j) mod n" "sr_next_to_clean q2 = sr_next_to_clean q"
      "sr_delivered q2 = sr_delivered q" "length (sr_descs q2) = n"
      "\<forall>i < n. if ring_dist n a i < j then sr_fresh q2 i else sr_descs q2 ! i = sr_descs q ! i"
      "j < c \<longrightarrow> kern_no_page (?kern (c - j - 1)) w'" "left = c - j"
    unfolding q2(2) by blast
  have k: "j < c \<longrightarrow> kern_no_page (kern (c - j - 1)) w' \<or> snd (kern (c - j - 1)) = None"
    using j(9) by (auto simp: kern_mapped_def split: if_splits)
  show ?thesis
  proof (cases "j < c \<and> kern_map_failed (kern (c - j - 1)) w'")
    case True
    let ?p = "sr_next_to_alloc q'"
    have u: "sr_unpaged ?p q' q2" using q2(3) j(10) True by simp
    then have f: "sr_next_to_alloc q' = (a + j) mod n" "sr_next_to_clean q' = sr_next_to_clean q2" "sr_delivered q' = sr_delivered q2"
        "sr_descs q' = sr_descs q2" "length (sr_bufs q') = length (sr_bufs q2)"
      using j(4) by (auto simp: sr_unpaged_def)
    have pn: "?p < n" using f(1) a(2) by (auto intro: mod_less_divisor)
    have "ring_dist n a ?p = j"
      using ring_dist_add [OF a(2), of j] f(1) True c ring_dist_less [OF a(2), of "sr_next_to_clean q"] pg n by (simp add: sr_pages_def)
    then have "sr_page q2 i = sr_page q' i" if "ring_dist n a i < j" for i
      using u that by (cases "i = ?p") (auto simp: sr_unpaged_def sr_page_def sr_buf_upd_def)
    then have "\<forall>i < n. if ring_dist n a i < j then sr_fresh q' i else sr_descs q' ! i = sr_descs q ! i"
      using j(8) by (auto simp: sr_fresh_def f(4))
    moreover have "sr_ok (sr_no_page ?p q')" using sr_no_page_ok [OF u j(3)] pn f(4) j(7) by simp
    ultimately show ?thesis using True j k f by auto
  next
    case False
    then have "q2 = q'" using q2(3) j(10) by auto
    then show ?thesis using False j k by auto
  qed
qed

section \<open>A call\<close>

lemma sr_clean_spec:
  assumes "sr_ok q" and n: "n = length (sr_descs q)" and s: "s < n" "\<not> ring_gap n (sr_next_to_use q) (sr_next_to_clean q) s" "\<not> sr_dd q s"
  shows "\<exists>res q' w' c j. idpf_rx_singleq_clean psz reusable ans kern budget q w = Some (res, q', w') \<and> j \<le> c \<and>
    sr_next_to_clean q' = (sr_next_to_clean q + c) mod n \<and> sr_next_to_alloc q' = (sr_next_to_alloc q + j) mod n \<and>
    (\<forall>i < c. sr_dd q ((sr_next_to_clean q + i) mod n)) \<and>
    (\<forall>i < n. if ring_dist n (sr_next_to_alloc q) i < j then sr_fresh q' i else sr_descs q' ! i = sr_descs q ! i) \<and>
    length (sr_delivered q') \<le> length (sr_delivered q) + budget \<and>
    res = (if j < c then budget else length (sr_delivered q') - length (sr_delivered q)) \<and>
    c + ring_dist n (sr_next_to_alloc q) (sr_next_to_clean q) < n \<and> length (sr_descs q') = n \<and>
    (j < c \<longrightarrow> kern_no_page (kern (c - j - 1)) w' \<or> snd (kern (c - j - 1)) = None) \<and>
    sr_ok (if j < c \<and> kern_map_failed (kern (c - j - 1)) w' then sr_no_page (sr_next_to_alloc q') q' else q')"
proof -
  let ?a = "sr_next_to_alloc q" and ?b = "sr_next_to_clean q"
  have pg: "sr_pages q ?b" and a: "sr_next_to_use q = ?a" using assms(1) by (simp_all add: sr_ok_def)
  have ab: "?a < n" "?b < n" "?a \<noteq> ?b" using pg a n by (simp_all add: sr_pages_def)
  have sp: "pi_page (sr_page q s) \<noteq> NULL" using pg s n by (simp add: sr_pages_def)
  obtain c r k1 ntc' q1 w1 where l: "sr_clean_loop psz reusable ans budget 0 0 ?b q w = Some (k1, c, ntc', q1, w1)"
      "c \<le> ring_dist n ?b s" "sr_loop_ok q ?b c r q1 ntc'" "k1 \<le> budget" "length (sr_delivered q1) = length (sr_delivered q) + k1"
    using sr_clean_loop_returns [OF pg _ s(3) sp _ refl, of 0 budget psz reusable ans 0 w] s(1) unfolding n by auto
  have lo: "sr_pages q1 ntc'" "sr_same q q1" "r \<le> c" "ntc' = (?b + c) mod n" "sr_next_to_use q1 = (?a + r) mod n"
      "\<forall>i < c. sr_dd q ((?b + i) mod n)"
    using l(3) by (auto simp: sr_loop_ok_def n a)
  have d: "sr_descs q1 = sr_descs q" using lo(2) by (simp add: sr_same_def)
  have out: "ring_dist n ?a ?b + c < n" using ring_gap_outside [OF ab(1,2) s(1)] s(2) a l(2) by simp
  let ?q = "q1\<lparr>sr_next_to_clean := ntc'\<rparr>"
  have "0 < ring_dist n ?a ?b" using ab by (simp add: zero_less_iff_neq_zero)
  then have D: "c < ring_dist n ?a (sr_next_to_clean ?q)" using ring_dist_forward [OF ab(1,2) out] lo(4) by simp
  obtain failure q' w' where al: "idpf_rx_singleq_buf_hw_alloc_all kern c ?q w1 = (failure, q', w')" by (rule prod_cases3)
  have pq: "sr_pages ?q (sr_next_to_clean ?q)" using lo(1) by (simp add: sr_pages_def)
  have "n = length (sr_descs ?q)" "?a = sr_next_to_alloc ?q" "sr_next_to_use ?q = (?a + r) mod n"
    using n d lo(2,5) by (simp_all add: sr_same_def)
  from sr_alloc_all_any [OF al pq this(1,2) ab(1) this(3) lo(3) D]
  obtain j where j: "j \<le> c" "failure \<longleftrightarrow> j < c" "sr_next_to_alloc q' = (?a + j) mod n" "sr_next_to_clean q' = sr_next_to_clean ?q"
      "sr_delivered q' = sr_delivered ?q" "length (sr_descs q') = n"
      "\<forall>i < n. if ring_dist n ?a i < j then sr_fresh q' i else sr_descs q' ! i = sr_descs ?q ! i"
      "j < c \<longrightarrow> kern_no_page (kern (c - j - 1)) w' \<or> snd (kern (c - j - 1)) = None"
      "sr_ok (if j < c \<and> kern_map_failed (kern (c - j - 1)) w' then sr_no_page (sr_next_to_alloc q') q' else q')" by blast
  have descs: "\<forall>i < n. if ring_dist n ?a i < j then sr_fresh q' i else sr_descs q' ! i = sr_descs q ! i" using j(7) d by simp
  have "idpf_rx_singleq_clean psz reusable ans kern budget q w = Some (if failure then budget else k1, q', w')"
    using l(1) al by (simp add: idpf_rx_singleq_clean_def)
  moreover have "(if failure then budget else k1) = (if j < c then budget else length (sr_delivered q') - length (sr_delivered q))"
      "length (sr_delivered q') \<le> length (sr_delivered q) + budget"
    using j(2,5) l(4,5) by simp_all
  moreover have "c + ring_dist n ?a ?b < n" "sr_next_to_clean q' = (?b + c) mod n" using out j(4) lo(4) by simp_all
  ultimately show ?thesis using j(1,3,6,8,9) descs lo(6) by blast
qed

section \<open>Properties\<close>

text \<open>
  C26. A call of \<open>idpf_rx_singleq_clean\<close> with at least one posted descriptor that the device has not finished
  returns, whatever pages the kernel has and whatever mappings fail.  It consumes \<open>c\<close> finished descriptors,
  delivers at most the budget, and posts \<open>j\<close> buffers again.  \<open>j < c\<close> only if the kernel had no page for
  the next one or could not map it; then it returns the budget to be called again.  The \<open>j\<close> descriptors
  from \<open>next_to_alloc\<close> on have the address of the page in their buffer and no status, all others are as
  before.  Afterwards, as before, exactly the buffers between \<open>next_to_use\<close> and \<open>next_to_clean\<close> have no
  page; only if a mapping failed, the buffer at \<open>next_to_alloc\<close> is left with the page that was given back,
  and the statement holds when that page is not counted.
\<close>

theorem sr_clean_posts:
  assumes "sr_ok q" and "s < length (sr_descs q)" and "\<not> ring_gap (length (sr_descs q)) (sr_next_to_use q) (sr_next_to_clean q) s"
    and "\<not> sr_dd q s"
  shows "\<exists>res q' w' c j. idpf_rx_singleq_clean psz reusable ans kern budget q w = Some (res, q', w') \<and> j \<le> c \<and>
    sr_next_to_clean q' = (sr_next_to_clean q + c) mod length (sr_descs q) \<and>
    sr_next_to_alloc q' = (sr_next_to_alloc q + j) mod length (sr_descs q) \<and>
    (\<forall>i < c. sr_dd q ((sr_next_to_clean q + i) mod length (sr_descs q))) \<and>
    (\<forall>i < length (sr_descs q). if ring_dist (length (sr_descs q)) (sr_next_to_alloc q) i < j then sr_fresh q' i
       else sr_descs q' ! i = sr_descs q ! i) \<and>
    length (sr_delivered q') \<le> length (sr_delivered q) + budget \<and>
    res = (if j < c then budget else length (sr_delivered q') - length (sr_delivered q)) \<and>
    (j < c \<longrightarrow> kern_no_page (kern (c - j - 1)) w' \<or> snd (kern (c - j - 1)) = None) \<and>
    sr_ok (if j < c \<and> kern_map_failed (kern (c - j - 1)) w' then sr_no_page (sr_next_to_alloc q') q' else q')"
  using sr_clean_spec [OF assms(1) refl assms(2-4), of psz reusable ans kern budget w] by blast

text \<open>A ring of three: a finished packet of 100 bytes, a posted buffer, an empty slot.\<close>

definition sr_ex_buf :: "ptr \<Rightarrow> sr_buf" where
  "sr_ex_buf p = \<lparr>sb_buf = rx_buf_zero\<lparr>page_info := [rx_page_info_zero\<lparr>pi_page := p, pagecnt_bias := 65535, reuse_bias := 1\<rparr>, rx_page_info_zero]\<rparr>, sb_skb = None\<rparr>"

definition sr_ex :: sr_rxq where
  "sr_ex = \<lparr>sr_descs = [\<lparr>sd_qw0 = 0, sd_qw1 = push_bit 38 100 OR 3, sd_qw2 = 0, sd_qw3 = 0\<rparr>,
       \<lparr>sd_qw0 = 8192, sd_qw1 = 0, sd_qw2 = 0, sd_qw3 = 0\<rparr>, \<lparr>sd_qw0 = 0, sd_qw1 = 3, sd_qw2 = 0, sd_qw3 = 0\<rparr>],
     sr_bufs = [sr_ex_buf 4096, sr_ex_buf 8192, sr_ex_buf NULL], sr_next_to_use = 2, sr_next_to_clean = 0, sr_next_to_alloc = 2,
     sr_has_tail = True, sr_tail_log = [], sr_base = True,
     sr_features = \<lparr>sf_rxhash = True, sf_rxcsum = True, sf_ptype_lkup = undefined, sf_tunnel_type = undefined\<rparr>, sr_delivered = []\<rparr>"

theorem sr_clean_posts_witness:
  "\<exists>res q' w'. idpf_rx_singleq_clean 4096 (\<lambda>_. True) (\<lambda>_. \<lparr>ans_skb = True, ans_headlen = 0, ans_page = (0, None)\<rparr>)
      (\<lambda>_. (12288, Some 12288)) 8 sr_ex \<lparr>page_count = (\<lambda>p. if p = 4096 \<or> p = 8192 then 65535 else 0), stack_frags = {#}, page_log = []\<rparr>
    = Some (res, q', w') \<and> sr_ok q' \<and> length (sr_delivered q') \<le> 8"
proof -
  have ok: "sr_ok sr_ex"
    by (simp add: sr_ok_def sr_pages_def sr_ex_def sr_ex_buf_def All_less_Suc sr_shape_def buf_shape_def sr_page_def rx_cur_def
        ring_gap_def ring_dist_def rx_buf_zero_def rx_page_info_zero_def)
  have f: "1 < length (sr_descs sr_ex)" "\<not> ring_gap (length (sr_descs sr_ex)) (sr_next_to_use sr_ex) (sr_next_to_clean sr_ex) 1" "\<not> sr_dd sr_ex 1"
      "length (sr_delivered sr_ex) = 0"
    by (simp_all add: sr_ex_def ring_gap_def ring_dist_def sr_dd_def idpf_rx_singleq_test_staterr_def)
  show ?thesis
    using sr_clean_posts [OF ok f(1-3), of 4096 "\<lambda>_. True" "\<lambda>_. \<lparr>ans_skb = True, ans_headlen = 0, ans_page = (0, None)\<rparr>"
        "\<lambda>_. (12288, Some 12288)" 8
        "\<lparr>page_count = (\<lambda>p. if p = 4096 \<or> p = 8192 then 65535 else 0), stack_frags = {#}, page_log = []\<rparr>"] f(4)
    by (auto simp: kern_map_failed_def)
qed

text \<open>
  Polling keeps the contract of NAPI: with a positive budget the result is at most the budget, and below
  it exactly if polling was ended with \<open>napi_complete_done\<close>; the interrupt is enabled only then.
\<close>

theorem singleq_napi_contract:
  assumes "idpf_vport_singleq_napi_poll psz reusable env complete_ok budget v = Some (r, act, completed, v')" and "0 < budget"
  shows "r \<le> budget \<and> (r < budget \<longleftrightarrow> completed) \<and> (act = UPDATE_ITR_ENA_IRQ \<longleftrightarrow> completed \<and> complete_ok) \<and> act \<noteq> ITR_NONE"
  using assms by (auto simp: idpf_vport_singleq_napi_poll_def Let_def split: option.splits prod.splits if_splits)

section \<open>What goes wrong\<close>

text \<open>The hash of a packet in the base format is never used.\<close>

theorem base_hash_never_set: "idpf_rx_singleq_base_hash sf d dec = None"
proof -
  have "\<not> bit (drop_bit 12 (sd_qw1 d AND 0x3000)) 12" by (simp add: bit_simps)
  moreover have "bit (0x3000 :: u64) 12" by simp
  ultimately have "drop_bit 12 (sd_qw1 d AND 0x3000) \<noteq> (0x3000 :: u64)" by metis
  then show ?thesis by (simp add: idpf_rx_singleq_base_hash_def)
qed

text \<open>
  A consumed descriptor keeps its bit DD until it is posted again; so after a call that consumed
  something and found memory for all, the free descriptor in front of \<open>next_to_clean\<close> counts as finished.
\<close>

theorem stale_descriptor_after_clean:
  assumes "sr_ok q" and "s < length (sr_descs q)" and "\<not> ring_gap (length (sr_descs q)) (sr_next_to_use q) (sr_next_to_clean q) s"
    and "\<not> sr_dd q s" and "Suc (sr_next_to_alloc q) mod length (sr_descs q) = sr_next_to_clean q"
    and "idpf_rx_singleq_clean psz reusable ans kern budget q w = Some (res, q', w')" and "res < budget"
    and "sr_next_to_clean q' \<noteq> sr_next_to_clean q"
  shows "sr_dd q' (sr_next_to_alloc q')"
proof -
  let ?n = "length (sr_descs q)" and ?a = "sr_next_to_alloc q"
  obtain c j where c: "j \<le> c" "sr_next_to_clean q' = (sr_next_to_clean q + c) mod ?n" "sr_next_to_alloc q' = (?a + j) mod ?n"
      "\<forall>i < c. sr_dd q ((sr_next_to_clean q + i) mod ?n)"
      "\<forall>i < ?n. if ring_dist ?n ?a i < j then sr_fresh q' i else sr_descs q' ! i = sr_descs q ! i"
      "res = (if j < c then budget else length (sr_delivered q') - length (sr_delivered q))"
      "c + ring_dist ?n ?a (sr_next_to_clean q) < ?n"
    using sr_clean_spec [OF assms(1) refl assms(2-4), of psz reusable ans kern budget w] unfolding assms(6) option.inject prod.inject
    by (elim exE conjE) (hypsubst, blast)
  have a: "?a < ?n" "sr_next_to_clean q < ?n" using assms(1) by (simp_all add: sr_ok_def sr_pages_def)
  have j: "j = c" using c(1,6) assms(7) by (cases "j < c") simp_all
  have c0: "0 < c" using assms(8) c(2) a(2) by (cases c) auto
  have "(?a + c) mod ?n = (sr_next_to_clean q + (c - 1)) mod ?n"
    unfolding assms(5) [symmetric] using c0 by (cases c) (simp_all add: mod_simps)
  then have "sr_dd q ((?a + c) mod ?n)" using spec [OF c(4), of "c - 1"] c0 by simp
  moreover have "ring_dist ?n ?a ((?a + c) mod ?n) = c" using ring_dist_add [OF a(1), of c] c(7) by simp
  ultimately show ?thesis using c(5) a(1) c(3) unfolding j sr_dd_def by (auto dest!: spec [of _ "(?a + c) mod ?n"] intro: mod_less_divisor)
qed

text \<open>
  With nothing but finished descriptors the loop does not stop at the end of what the device wrote.  If
  all of them are packets with errors, which do not count, it never ends.
\<close>

definition sr_err_desc :: "bool \<Rightarrow> sr_desc \<Rightarrow> bool" where
  "sr_err_desc base d \<longleftrightarrow> idpf_rx_singleq_test_staterr d IDPF_RXD_DD \<and> idpf_rx_singleq_test_staterr d IDPF_RXD_EOF_SINGLEQ \<and>
     idpf_rx_singleq_test_staterr d IDPF_RXD_ERR_S \<and> ext_size (idpf_rx_singleq_extract_fields base d) \<noteq> 0"

lemma sr_take_some:
  assumes "ans_skb ans"
  obtains s q1 w1 where "sr_take psz ans i sz q w = (Some s, q1, w1)" "sr_descs q1 = sr_descs q" "sr_base q1 = sr_base q"
proof -
  have "\<exists>s b' w'. idpf_rx_construct_skb psz (ans_skb ans) (ans_headlen ans) b sz w = (Some s, b', w')" for b
    using assms by (simp add: idpf_rx_construct_skb_def Let_def)
  then obtain s1 b1 w1 where "idpf_rx_construct_skb psz (ans_skb ans) (ans_headlen ans)
      (sb_buf (sr_bufs (sr_buf_upd i idpf_rx_get_buf_page q) ! i)) sz w = (Some s1, b1, w1)" by blast
  then show thesis
    using that by (cases "sb_skb (sr_bufs (sr_buf_upd i idpf_rx_get_buf_page q) ! i)")
      (auto simp: sr_take_def Let_def idpf_rx_add_frag_def sr_buf_upd_def)
qed

lemma recycle_descs:
  assumes "idpf_rx_singleq_recycle_buf psz reusable i q w = (r, q', w')"
  shows "sr_descs q' = sr_descs q" "sr_base q' = sr_base q"
  using assms by (auto simp: idpf_rx_singleq_recycle_buf_def idpf_rx_reuse_page_def Let_def sr_buf_upd_def sr_set_skb_def split: prod.splits if_splits)

theorem error_ring_never_ends:
  assumes "\<forall>i < length (sr_descs q). sr_err_desc (sr_base q) (sr_descs q ! i)" and "ntc < length (sr_descs q)" and "pkts < budget"
    and "\<forall>k. ans_skb (ans k)"
  shows "sr_clean_loop psz reusable ans budget pkts cleaned ntc q w = None"
proof -
  have "\<not> ((\<forall>i < length (sr_descs q). sr_err_desc (sr_base q) (sr_descs q ! i)) \<and> ntc < length (sr_descs q) \<and> pkts < budget \<and> (\<forall>k. ans_skb (ans k)))"
    if "sr_clean_loop psz reusable ans budget pkts cleaned ntc q w = Some y" for y
  proof (rule sr_clean_loop.raw_induct [OF _ that], rule notI, elim conjE)
    fix f psz reusable ans budget pkts cleaned ntc q w y
    assume IH: "\<And>psz reusable ans budget pkts cleaned ntc q w y. f psz reusable ans budget pkts cleaned ntc q w = Some y \<Longrightarrow>
        \<not> ((\<forall>i < length (sr_descs q). sr_err_desc (sr_base q) (sr_descs q ! i)) \<and> ntc < length (sr_descs q) \<and> pkts < budget \<and> (\<forall>k. ans_skb (ans k)))"
      and all: "\<forall>i < length (sr_descs q). sr_err_desc (sr_base q) (sr_descs q ! i)" and n: "ntc < length (sr_descs q)" "pkts < budget"
      and sk: "\<forall>k. ans_skb (ans k)"
      and y: "(let d = sr_descs q ! ntc; fields = idpf_rx_singleq_extract_fields (sr_base q) d in
        if \<not> pkts < budget then Some (pkts, cleaned, ntc, q, w)
        else if \<not> idpf_rx_singleq_test_staterr d IDPF_RXD_DD then Some (pkts, cleaned, ntc, q, w)
        else if ext_size fields = 0 then Some (pkts, cleaned, ntc, q, w)
        else if pi_page (sr_page q ntc) = NULL then None
        else case sr_take psz (ans cleaned) ntc (ext_size fields) q w of
          (None, q, w) \<Rightarrow> Some (pkts, cleaned, ntc, q, w)
        | (Some skb, q, w) \<Rightarrow>
            (case idpf_rx_singleq_recycle_buf psz reusable ntc q w of (_, q, w) \<Rightarrow>
               let ntc = sr_bump q ntc in
               case idpf_rx_singleq_is_non_eop d ntc skb q of (non_eop, q) \<Rightarrow>
                 if non_eop then f psz reusable ans budget pkts (Suc cleaned) ntc q w
                 else (case sr_finish d (ext_rx_ptype fields) skb q w of (n, q, w) \<Rightarrow>
                         f psz reusable ans budget (pkts + n) (Suc cleaned) ntc q w))) = Some y"
    let ?d = "sr_descs q ! ntc"
    let ?f = "idpf_rx_singleq_extract_fields (sr_base q) ?d"
    have d: "sr_err_desc (sr_base q) ?d" using all n by blast
    obtain s q1 w1 where t: "sr_take psz (ans cleaned) ntc (ext_size ?f) q w = (Some s, q1, w1)" "sr_descs q1 = sr_descs q" "sr_base q1 = sr_base q"
      using sr_take_some [of "ans cleaned"] sk by metis
    obtain r q2 w2 where rc: "idpf_rx_singleq_recycle_buf psz reusable ntc q1 w1 = (r, q2, w2)" by (rule prod_cases3)
    note q2 = recycle_descs [OF rc]
    have b: "sr_bump q2 ntc = Suc ntc mod length (sr_descs q)" using n t q2 by (simp add: sr_bump_eq)
    have "f psz reusable ans budget pkts (Suc cleaned) (Suc ntc mod length (sr_descs q)) q2 (foldl rx_put_piece w2 s) = Some y"
      using y n d t rc b
      by (auto simp: Let_def sr_err_desc_def idpf_rx_singleq_is_non_eop_def sr_finish_def split: if_splits)
    from IH [OF this] show False using all n sk t q2 by (auto intro: mod_less_divisor)
  qed
  then show ?thesis using assms by (cases "sr_clean_loop psz reusable ans budget pkts cleaned ntc q w") auto
qed

text \<open>
  \<open>buf_size\<close> of a buffer is never set, so the offset does not move to the other half of the page: the
  page of a received packet is posted again at the same place while the stack still reads the packet.
\<close>

theorem received_page_posted_again:
  assumes "sr_pages q ntc" "pi_page (sr_page q ntc) = p" "p \<noteq> NULL" "reusable p" "psz < 8192"
    and "sb_skb (sr_bufs q ! ntc) = None" "ans_skb ans" "256 < sz" "ans_headlen ans = hl" "hl < sz"
    and "1 < pagecnt_bias (sr_page q ntc)" "pagecnt_bias (sr_page q ntc) \<le> 65535"
    and "page_count w p = pagecnt_bias (sr_page q ntc)" "reuse_bias (sr_page q ntc) = 1"
  shows "\<exists>s q1 w1 q2 w2. sr_take psz ans ntc sz q w = (Some s, q1, w1) \<and>
    idpf_rx_singleq_recycle_buf psz reusable ntc q1 w1 = (True, q2, w2) \<and>
    pi_page (sr_page q2 (sr_next_to_use q)) = p \<and> page_offset (sr_page q2 (sr_next_to_use q)) = page_offset (sr_page q ntc) \<and>
    (p, page_offset (sr_page q ntc) + hl, sz - hl) \<in># stack_frags w2"
proof -
  let ?b = "sb_buf (sr_bufs q ! ntc)"
  have sh: "buf_shape ?b" "buf_size ?b = 0" "ntc < length (sr_bufs q)" "sr_next_to_use q < length (sr_bufs q)" "sr_next_to_use q \<noteq> ntc"
      "buf_shape (sb_buf (sr_bufs q ! sr_next_to_use q))"
    using assms(1) by (simp_all add: sr_pages_def sr_shape_def)
  let ?x = "sr_page q ntc"
  let ?y = "?x\<lparr>pagecnt_bias := pagecnt_bias ?x - 1\<rparr>"
  let ?b1 = "rx_cur_upd (\<lambda>_. ?y) ?b"
  have g: "idpf_rx_get_buf_page ?b = ?b1"
    using assms(11,12) sh(1) by (simp add: idpf_rx_get_buf_page_def trunc16_dec rx_cur_upd_def sr_page_def)
  have c1: "rx_cur ?b1 = ?y" using sh(1) by simp
  have adj: "idpf_rx_buf_adjust_pg psz ?b1 (idpf_rx_frame_truesize psz ?b1 (sz - hl)) = ?b1"
    using assms(5) sh by (simp add: idpf_rx_buf_adjust_pg_def idpf_rx_frame_truesize_def IDPF_RX_BUF_2048_def)
  let ?q1 = "sr_buf_upd ntc (\<lambda>_. ?b1) (sr_buf_upd ntc idpf_rx_get_buf_page q)"
  let ?w1 = "stack_add (p, page_offset ?x + hl, sz - hl) w"
  have t: "sr_take psz ans ntc sz q w = (Some [PageCopy p (page_offset ?x) hl, PageFrag p (page_offset ?x + hl) (sz - hl)], ?q1, ?w1)"
    using assms(2,6-10) sh adj
    by (simp add: sr_take_def Let_def sr_buf_upd_def g idpf_rx_construct_skb_def IDPF_RX_HDR_SIZE_def c1)
  have b: "sb_buf (sr_bufs ?q1 ! ntc) = ?b1" using sh by (simp add: sr_buf_upd_def)
  have cnt: "page_count ?w1 p = pagecnt_bias ?x" using assms(13) by (simp add: stack_add_def)
  have "\<exists>b2 w2. idpf_rx_can_reuse_page psz reusable ?b1 ?w1 = (True, b2, w2) \<and> pi_page (rx_cur b2) = p \<and> page_offset (rx_cur b2) = page_offset ?x \<and>
      stack_frags w2 = stack_frags ?w1"
    using assms(2,4,5,11,14) cnt sh(1) c1 by (cases "pagecnt_bias ?x - 1 = 1") (simp_all add: idpf_rx_can_reuse_page_def Let_def)
  then obtain b2 w2 where r: "idpf_rx_can_reuse_page psz reusable ?b1 ?w1 = (True, b2, w2)" "pi_page (rx_cur b2) = p" "page_offset (rx_cur b2) = page_offset ?x"
      "stack_frags w2 = stack_frags ?w1" by blast
  obtain q2 where q2: "idpf_rx_singleq_recycle_buf psz reusable ntc ?q1 ?w1 = (True, q2, w2)"
      "q2 = sr_set_skb ntc None (sr_buf_upd ntc (rx_cur_upd (\<lambda>x. x\<lparr>pi_page := NULL\<rparr>)) (idpf_rx_reuse_page ntc (sr_buf_upd ntc (\<lambda>_. b2) ?q1)))"
    using r(1) b by (simp add: idpf_rx_singleq_recycle_buf_def Let_def)
  have "pi_page (sr_page q2 (sr_next_to_use q)) = p \<and> page_offset (sr_page q2 (sr_next_to_use q)) = page_offset ?x"
    using sh r(2,3) by (simp add: q2(2) idpf_rx_reuse_page_def Let_def sr_page_def sr_buf_upd_def)
  with t q2(1) r(4) show ?thesis by auto
qed

text \<open>
  A call that could not replace all buffers returns the budget to be called again; but the next call
  replaces only what it consumes itself.  With no new packet it changes nothing, however many
  buffers are missing.
\<close>

theorem missing_buffers_stay_missing:
  assumes "\<not> sr_dd q (sr_next_to_clean q)"
  shows "idpf_rx_singleq_clean psz reusable ans kern budget q w = Some (0, q, w)"
  using assms
  by (simp add: idpf_rx_singleq_clean_def sr_clean_loop.simps [of psz reusable ans budget 0] Let_def sr_dd_def
      idpf_rx_singleq_buf_hw_alloc_all_def)

end
