(* ===== verification/Idpf_Vport_Msgs.thy ===== *)
theory Idpf_Vport_Msgs
  imports Idpf_Controlq_Setup Idpf_Queues
begin

text \<open>
  The virtchnl messages that configure a vport (\<open>idpf_virtchnl.c\<close>): creating and enabling it,
  configuring its queues, mapping them to vectors, enabling, disabling and deleting them, and asking for
  queues and vectors.  Messages about queues are cut into pieces that fit a buffer of the control queue.

  The state is the allocator and a log of the messages; \<open>vs_reply k\<close> is the result of
  \<open>idpf_vc_xn_exec\<close> for message number \<open>k\<close>: an error or the size of the reply.  Where the code reads the
  reply, its contents are an argument.  As a result \<open>None\<close> stands for a division by zero, a store beyond
  the end of an array or an access to an empty allocation.
\<close>

section \<open>Queues and their descriptions\<close>

record vc_queue =
  vq_id :: u32
  vq_type :: u32
  vq_desc_count :: nat
  vq_dma :: u64
  vq_flow_sch :: bool
  vq_rel_qid :: u16
  vq_max_pkt_size :: u32
  vq_buf_size :: u32
  vq_hsplit_en :: bool
  vq_hbuf_size :: u16
  vq_low_watermark :: u16
  vq_rsc_en :: bool
  vq_rxdids :: u64
  vq_buf_stride :: u8
  vq_v_idx :: u16
  vq_itr_idx :: u32

record vc_txq_group =
  vg_txqs :: "vc_queue list"
  vg_complq :: vc_queue

record vc_rxq_group =
  vg_rxqs :: "vc_queue list"
  vg_bufqs :: "vc_queue list"

record vc_rsrc =
  vr_txq_grps :: "vc_txq_group list"
  vr_rxq_grps :: "vc_rxq_group list"
  vr_num_txq :: nat
  vr_num_complq :: nat
  vr_num_rxq :: nat
  vr_num_bufq :: nat
  vr_num_bufqs_per_qgrp :: nat
  vr_txq_model :: nat
  vr_rxq_model :: nat

record virtchnl2_txq_info =
  ti_dma_ring_addr :: u64
  ti_type :: u32
  ti_queue_id :: u32
  ti_relative_queue_id :: u16
  ti_model :: u16
  ti_sched_mode :: u16
  ti_qflags :: u16
  ti_ring_len :: u16
  ti_tx_compl_queue_id :: u16

record virtchnl2_rxq_info =
  ri_desc_ids :: u64
  ri_dma_ring_addr :: u64
  ri_type :: u32
  ri_queue_id :: u32
  ri_model :: u16
  ri_hdr_buffer_size :: u16
  ri_data_buffer_size :: u32
  ri_max_pkt_size :: u32
  ri_ring_len :: u16
  ri_buffer_notif_stride :: u8
  ri_qflags :: u16
  ri_rx_buffer_low_watermark :: u16
  ri_rx_bufq1_id :: u16
  ri_rx_bufq2_id :: u16
  ri_bufq2_ena :: bool

record virtchnl2_queue_vector =
  qv_queue_id :: u32
  qv_vector_id :: u16
  qv_itr_idx :: u32
  qv_queue_type :: u32

record virtchnl2_queue_chunk =
  qc_type :: u32
  qc_start_queue_id :: u32
  qc_num_queues :: u32

definition txq_info_zero :: virtchnl2_txq_info where
  "txq_info_zero = \<lparr>ti_dma_ring_addr = 0, ti_type = 0, ti_queue_id = 0, ti_relative_queue_id = 0, ti_model = 0,
     ti_sched_mode = 0, ti_qflags = 0, ti_ring_len = 0, ti_tx_compl_queue_id = 0\<rparr>"

definition rxq_info_zero :: virtchnl2_rxq_info where
  "rxq_info_zero = \<lparr>ri_desc_ids = 0, ri_dma_ring_addr = 0, ri_type = 0, ri_queue_id = 0, ri_model = 0, ri_hdr_buffer_size = 0,
     ri_data_buffer_size = 0, ri_max_pkt_size = 0, ri_ring_len = 0, ri_buffer_notif_stride = 0, ri_qflags = 0,
     ri_rx_buffer_low_watermark = 0, ri_rx_bufq1_id = 0, ri_rx_bufq2_id = 0, ri_bufq2_ena = False\<rparr>"

definition queue_vector_zero :: virtchnl2_queue_vector where
  "queue_vector_zero = \<lparr>qv_queue_id = 0, qv_vector_id = 0, qv_itr_idx = 0, qv_queue_type = 0\<rparr>"

section \<open>Messages\<close>

datatype vport_op = VIRTCHNL2_OP_ENABLE_VPORT | VIRTCHNL2_OP_DISABLE_VPORT | VIRTCHNL2_OP_DESTROY_VPORT

datatype queues_op = VIRTCHNL2_OP_ENABLE_QUEUES | VIRTCHNL2_OP_DISABLE_QUEUES | VIRTCHNL2_OP_DEL_QUEUES

datatype vc_msg =
    ConfigTxQueues u32 "virtchnl2_txq_info list"
  | ConfigRxQueues u32 "virtchnl2_rxq_info list"
  | QueueVectorMaps bool u32 "virtchnl2_queue_vector list"
  | DelEnaDisQueues queues_op u32 "virtchnl2_queue_chunk list"
  | VportMsg vport_op u32
  | CreateVport nat virtchnl2_create_vport
  | AddQueues u32 nat nat nat nat
  | AllocVectors nat
  | DeallocVectors nat
  | RssHash bool u32 u64
  | RssKey bool u32 "u8 list"
  | RssLut bool u32 "u32 list"
  | Loopback u32 bool

text \<open>The length of a message in bytes: the struct and its flexible array.\<close>

primrec vc_msg_len :: "vc_msg \<Rightarrow> nat" where
  "vc_msg_len (ConfigTxQueues v qi) = 16 + 56 * length qi"
| "vc_msg_len (ConfigRxQueues v qi) = 24 + 88 * length qi"
| "vc_msg_len (QueueVectorMaps m v qv) = 16 + 24 * length qv"
| "vc_msg_len (DelEnaDisQueues op v cs) = 16 + 16 * length cs"
| "vc_msg_len (VportMsg op v) = 8"
| "vc_msg_len (CreateVport i m) = 160"
| "vc_msg_len (AddQueues v t c r b) = 24"
| "vc_msg_len (AllocVectors n) = 32"
| "vc_msg_len (DeallocVectors n) = 16 + 32 * n"
| "vc_msg_len (RssHash g v h) = 16"
| "vc_msg_len (RssKey g v k) = 7 + length k"
| "vc_msg_len (RssLut g v l) = 12 + 4 * length l"
| "vc_msg_len (Loopback v b) = 8"

definition IDPF_NUM_CHUNKS_PER_MSG :: "nat \<Rightarrow> nat \<Rightarrow> nat" where
  "IDPF_NUM_CHUNKS_PER_MSG struct_sz chunk_sz = (4096 - struct_sz) div chunk_sz"

record vc_st =
  vs_world :: idpf_world
  vs_sent :: "vc_msg list"
  vs_reply :: "nat \<Rightarrow> errno + nat"

definition vc_xn :: "vc_msg \<Rightarrow> vc_st \<Rightarrow> (errno + nat) \<times> vc_st" where
  "vc_xn msg s = (vs_reply s (length (vs_sent s)), s\<lparr>vs_sent := vs_sent s @ [msg]\<rparr>)"

text \<open>The return code of a message whose reply is not read.\<close>

definition vc_ret :: "errno + nat \<Rightarrow> ret" where
  "vc_ret reply_sz = (case reply_sz of Inl e \<Rightarrow> Some e | Inr _ \<Rightarrow> ret_ok)"

definition vc_exec :: "vc_msg \<Rightarrow> vc_st \<Rightarrow> ret \<times> vc_st" where
  "vc_exec msg s = (case vc_xn msg s of (reply_sz, s) \<Rightarrow> (vc_ret reply_sz, s))"

section \<open>Messages in pieces\<close>

text \<open>
  The loop of the three functions that send an array in pieces: \<open>n\<close> messages to go, \<open>num_chunks\<close>
  elements in the next, \<open>qi\<close> what is left of the array.
\<close>

primrec vc_chunk_loop :: "('a list \<Rightarrow> vc_msg) \<Rightarrow> nat \<Rightarrow> nat \<Rightarrow> 'a list \<Rightarrow> vc_st \<Rightarrow> ret \<times> vc_st" where
  "vc_chunk_loop mk 0 num_chunks qi s = (ret_ok, s)"
| "vc_chunk_loop mk (Suc n) num_chunks qi s =
     (case vc_exec (mk (take num_chunks qi)) s of
        (Some e, s) \<Rightarrow> (Some e, s)
      | (None, s) \<Rightarrow>
          let qi = drop num_chunks qi
          in vc_chunk_loop mk n (min num_chunks (length qi)) qi s)"

definition vc_send_chunks :: "('a list \<Rightarrow> vc_msg) \<Rightarrow> nat \<Rightarrow> 'a list \<Rightarrow> vc_st \<Rightarrow> (ret \<times> vc_st) option" where
  "vc_send_chunks mk per_msg qi s =
     (let totqs = length qi; num_chunks = min per_msg totqs in
      if num_chunks = 0 then None
      else
        let num_msgs = (totqs + num_chunks - 1) div num_chunks in
        case kcalloc (vs_world s) of (buf, w) \<Rightarrow>
          let s = s\<lparr>vs_world := w\<rparr> in
          if buf = NULL then Some (Some ENOMEM, s)
          else case vc_chunk_loop mk num_msgs num_chunks qi s of
            (err, s) \<Rightarrow> Some (err, s\<lparr>vs_world := kfree buf (vs_world s)\<rparr>))"

text \<open>
  An array of \<open>tot\<close> zeroed elements is filled from the start with \<open>xs\<close>, sent in pieces and freed.
\<close>

definition vc_send_array :: "('a list \<Rightarrow> vc_msg) \<Rightarrow> nat \<Rightarrow> nat \<Rightarrow> 'a \<Rightarrow> 'a list \<Rightarrow> vc_st \<Rightarrow> (ret \<times> vc_st) option" where
  "vc_send_array mk per_msg tot zero xs s =
     (case kcalloc (vs_world s) of (qi, w) \<Rightarrow>
        let s = s\<lparr>vs_world := w\<rparr> in
        if qi = NULL then Some (Some ENOMEM, s)
        else if length xs > tot then None
        else case vc_send_chunks mk per_msg (xs @ replicate (tot - length xs) zero) s of
          None \<Rightarrow> None
        | Some (err, s) \<Rightarrow> Some (err, s\<lparr>vs_world := kfree qi (vs_world s)\<rparr>))"

section \<open>Configuring transmit queues\<close>

definition set_txq_info_common :: "vc_queue \<Rightarrow> nat \<Rightarrow> virtchnl2_txq_info \<Rightarrow> virtchnl2_txq_info" where
  "set_txq_info_common q model qi =
     qi\<lparr>ti_queue_id := vq_id q, ti_model := of_nat model, ti_type := vq_type q, ti_ring_len := of_nat (vq_desc_count q),
        ti_dma_ring_addr := vq_dma q,
        ti_sched_mode := (if vq_flow_sch q \<and> idpf_is_queue_model_split model then 1 else 0)\<rparr>"

definition idpf_set_txq_info :: "vc_txq_group \<Rightarrow> vc_queue \<Rightarrow> nat \<Rightarrow> virtchnl2_txq_info \<Rightarrow> virtchnl2_txq_info" where
  "idpf_set_txq_info g q model qi =
     (let qi = set_txq_info_common q model qi in
      if \<not> idpf_is_queue_model_split model then qi
      else qi\<lparr>ti_tx_compl_queue_id := ucast (vq_id (vg_complq g)), ti_relative_queue_id := vq_rel_qid q\<rparr>)"

text \<open>The descriptions of a group: its queues, then its completion queue.\<close>

definition txq_group_infos :: "nat \<Rightarrow> vc_txq_group \<Rightarrow> virtchnl2_txq_info list" where
  "txq_group_infos model g =
     map (\<lambda>q. idpf_set_txq_info g q model txq_info_zero) (vg_txqs g) @
     (if idpf_is_queue_model_split model
      then [set_txq_info_common (vg_complq g) model (txq_info_zero\<lparr>ti_qflags := 1\<rparr>)] else [])"

definition idpf_send_config_tx_queues_msg :: "vc_rsrc \<Rightarrow> u32 \<Rightarrow> vc_st \<Rightarrow> (ret \<times> vc_st) option" where
  "idpf_send_config_tx_queues_msg rsrc vport_id =
     vc_send_array (ConfigTxQueues vport_id) (IDPF_NUM_CHUNKS_PER_MSG 16 56) (vr_num_txq rsrc + vr_num_complq rsrc)
       txq_info_zero (concat (map (txq_group_infos (vr_txq_model rsrc)) (vr_txq_grps rsrc)))"

section \<open>Configuring receive queues\<close>

definition set_rxq_info_common :: "vc_queue \<Rightarrow> nat \<Rightarrow> virtchnl2_rxq_info \<Rightarrow> virtchnl2_rxq_info" where
  "set_rxq_info_common q model qi =
     (let qi = qi\<lparr>ri_queue_id := vq_id q, ri_model := of_nat model, ri_type := vq_type q, ri_ring_len := of_nat (vq_desc_count q),
                 ri_dma_ring_addr := vq_dma q, ri_max_pkt_size := vq_max_pkt_size q, ri_data_buffer_size := vq_buf_size q\<rparr>;
          qi = (if vq_hsplit_en q then qi\<lparr>ri_qflags := ri_qflags qi OR 2, ri_hdr_buffer_size := vq_hbuf_size q\<rparr> else qi)
      in if \<not> idpf_is_queue_model_split model then qi
         else
           let qi = qi\<lparr>ri_rx_buffer_low_watermark := vq_low_watermark q\<rparr>
           in if vq_rsc_en q then qi\<lparr>ri_qflags := ri_qflags qi OR 1\<rparr> else qi)"

definition idpf_set_rxq_info :: "vc_rxq_group \<Rightarrow> vc_queue \<Rightarrow> nat \<Rightarrow> nat \<Rightarrow> virtchnl2_rxq_info \<Rightarrow> virtchnl2_rxq_info" where
  "idpf_set_rxq_info g q bufq_per_rxq model qi =
     (let qi = set_rxq_info_common q model qi;
          qi = qi\<lparr>ri_qflags := ri_qflags qi OR 16, ri_desc_ids := vq_rxdids q\<rparr>
      in if \<not> idpf_is_queue_model_split model then qi
         else
           let qi = qi\<lparr>ri_rx_bufq1_id := ucast (vq_id (vg_bufqs g ! 0))\<rparr>
           in if bufq_per_rxq > IDPF_SINGLE_BUFQ_PER_RXQ_GRP
              then qi\<lparr>ri_bufq2_ena := True, ri_rx_bufq2_id := ucast (vq_id (vg_bufqs g ! 1))\<rparr> else qi)"

definition idpf_set_bufq_info :: "vc_queue \<Rightarrow> nat \<Rightarrow> virtchnl2_rxq_info \<Rightarrow> virtchnl2_rxq_info" where
  "idpf_set_bufq_info q model qi =
     (set_rxq_info_common q model qi)\<lparr>ri_desc_ids := 4, ri_buffer_notif_stride := vq_buf_stride q\<rparr>"

text \<open>The descriptions of a group: its buffer queues first.\<close>

definition rxq_group_infos :: "nat \<Rightarrow> nat \<Rightarrow> vc_rxq_group \<Rightarrow> virtchnl2_rxq_info list" where
  "rxq_group_infos model nbufqs g =
     (if idpf_is_queue_model_split model
      then map (\<lambda>q. idpf_set_bufq_info q model rxq_info_zero) (take nbufqs (vg_bufqs g)) else []) @
     map (\<lambda>q. idpf_set_rxq_info g q nbufqs model rxq_info_zero) (vg_rxqs g)"

definition idpf_send_config_rx_queues_msg :: "vc_rsrc \<Rightarrow> u32 \<Rightarrow> vc_st \<Rightarrow> (ret \<times> vc_st) option" where
  "idpf_send_config_rx_queues_msg rsrc vport_id =
     vc_send_array (ConfigRxQueues vport_id) (IDPF_NUM_CHUNKS_PER_MSG 24 88) (vr_num_rxq rsrc + vr_num_bufq rsrc)
       rxq_info_zero (concat (map (rxq_group_infos (vr_rxq_model rsrc) (vr_num_bufqs_per_qgrp rsrc)) (vr_rxq_grps rsrc)))"

definition idpf_send_config_queues_msg :: "vc_rsrc \<Rightarrow> u32 \<Rightarrow> vc_st \<Rightarrow> (ret \<times> vc_st) option" where
  "idpf_send_config_queues_msg rsrc vport_id s =
     (case idpf_send_config_tx_queues_msg rsrc vport_id s of
        None \<Rightarrow> None
      | Some (Some e, s) \<Rightarrow> Some (Some e, s)
      | Some (None, s) \<Rightarrow> idpf_send_config_rx_queues_msg rsrc vport_id s)"

section \<open>Mapping queues to vectors\<close>

text \<open>
  \<open>vq_v_idx\<close> and \<open>vq_itr_idx\<close> of a queue are \<open>v_idx\<close> and the interrupt index of its vector.
\<close>

definition txq_vector :: "nat \<Rightarrow> vc_txq_group \<Rightarrow> vc_queue \<Rightarrow> virtchnl2_queue_vector" where
  "txq_vector model g q =
     (let vec = (if idpf_is_queue_model_split model then vg_complq g else q)
      in \<lparr>qv_queue_id = vq_id q, qv_vector_id = vq_v_idx vec, qv_itr_idx = vq_itr_idx vec, qv_queue_type = vq_type q\<rparr>)"

definition rxq_vector :: "vc_queue \<Rightarrow> virtchnl2_queue_vector" where
  "rxq_vector q = \<lparr>qv_queue_id = vq_id q, qv_vector_id = vq_v_idx q, qv_itr_idx = vq_itr_idx q, qv_queue_type = vq_type q\<rparr>"

definition queue_vectors :: "vc_rsrc \<Rightarrow> virtchnl2_queue_vector list" where
  "queue_vectors rsrc =
     concat (map (\<lambda>g. map (txq_vector (vr_txq_model rsrc) g) (vg_txqs g)) (vr_txq_grps rsrc)) @
     concat (map (\<lambda>g. map rxq_vector (vg_rxqs g)) (vr_rxq_grps rsrc))"

definition idpf_send_map_unmap_queue_vector_msg :: "vc_rsrc \<Rightarrow> u32 \<Rightarrow> bool \<Rightarrow> vc_st \<Rightarrow> (ret \<times> vc_st) option" where
  "idpf_send_map_unmap_queue_vector_msg rsrc vport_id map_q =
     vc_send_array (QueueVectorMaps map_q vport_id) (IDPF_NUM_CHUNKS_PER_MSG 16 24) (vr_num_txq rsrc + vr_num_rxq rsrc)
       queue_vector_zero (queue_vectors rsrc)"

section \<open>Enabling, disabling and deleting queues\<close>

definition idpf_convert_reg_to_queue_chunks :: "idpf_queue_id_reg_chunk list \<Rightarrow> virtchnl2_queue_chunk list" where
  "idpf_convert_reg_to_queue_chunks =
     map (\<lambda>c. \<lparr>qc_type = chunk_type c, qc_start_queue_id = start_queue_id c, qc_num_queues = chunk_num_queues c\<rparr>)"

definition vc_send_queue_chunks :: "queues_op \<Rightarrow> idpf_queue_id_reg_chunk list \<Rightarrow> u32 \<Rightarrow> vc_st \<Rightarrow> ret \<times> vc_st" where
  "vc_send_queue_chunks op chunks vport_id s =
     (case kcalloc (vs_world s) of (eq, w) \<Rightarrow>
        let s = s\<lparr>vs_world := w\<rparr> in
        if eq = NULL then (Some ENOMEM, s)
        else case vc_exec (DelEnaDisQueues op vport_id (idpf_convert_reg_to_queue_chunks chunks)) s of
          (err, s) \<Rightarrow> (err, s\<lparr>vs_world := kfree eq (vs_world s)\<rparr>))"

text \<open>
  Enabling and disabling allocate \<open>num_chunks\<close> times the size of the message: without chunks there is no
  memory for the header that is written.
\<close>

definition idpf_send_ena_dis_queues_msg ::
  "idpf_queue_id_reg_chunk list \<Rightarrow> u32 \<Rightarrow> bool \<Rightarrow> vc_st \<Rightarrow> (ret \<times> vc_st) option" where
  "idpf_send_ena_dis_queues_msg chunks vport_id ena s =
     (if chunks = [] then None
      else Some (vc_send_queue_chunks (if ena then VIRTCHNL2_OP_ENABLE_QUEUES else VIRTCHNL2_OP_DISABLE_QUEUES) chunks vport_id s))"

definition idpf_send_enable_queues_msg :: "u32 \<Rightarrow> idpf_queue_id_reg_chunk list \<Rightarrow> vc_st \<Rightarrow> (ret \<times> vc_st) option" where
  "idpf_send_enable_queues_msg vport_id chunks = idpf_send_ena_dis_queues_msg chunks vport_id True"

definition idpf_send_delete_queues_msg :: "idpf_queue_id_reg_chunk list \<Rightarrow> u32 \<Rightarrow> vc_st \<Rightarrow> ret \<times> vc_st" where
  "idpf_send_delete_queues_msg = vc_send_queue_chunks VIRTCHNL2_OP_DEL_QUEUES"

section \<open>Markers\<close>

text \<open>
  After a disable message the device writes a marker completion for every transmit queue.  The flags of
  the queues tell which markers are outstanding; \<open>IDPF_VPORT_SW_MARKER\<close> of the vport that all arrived.
\<close>

record txq_flags =
  tf_POLL_MODE :: bool
  tf_SW_MARKER :: bool

record marker_st =
  mk_txqs :: "txq_flags list"
  mk_vport :: bool

definition mk_all :: "(txq_flags \<Rightarrow> txq_flags) \<Rightarrow> marker_st \<Rightarrow> marker_st" where
  "mk_all f m = m\<lparr>mk_txqs := map f (mk_txqs m)\<rparr>"

text \<open>\<open>idpf_tx_handle_sw_marker\<close> for queue \<open>j\<close>, with all queues of the vport in view.\<close>

definition vport_sw_marker :: "nat \<Rightarrow> marker_st \<Rightarrow> marker_st" where
  "vport_sw_marker j m =
     (let m = m\<lparr>mk_txqs := (mk_txqs m)[j := (mk_txqs m ! j)\<lparr>tf_SW_MARKER := False\<rparr>]\<rparr>
      in if list_ex tf_SW_MARKER (mk_txqs m) then m else m\<lparr>mk_vport := True\<rparr>)"

text \<open>
  \<open>wait_event_timeout\<close>: the queues whose markers are handled until the time is over, in order.  It returns
  as soon as the flag of the vport is set, and clears it.
\<close>

primrec marker_wait :: "nat list \<Rightarrow> marker_st \<Rightarrow> bool \<times> marker_st" where
  "marker_wait [] m = (mk_vport m, m\<lparr>mk_vport := False\<rparr>)"
| "marker_wait (j # js) m =
     (if mk_vport m then (True, m\<lparr>mk_vport := False\<rparr>) else marker_wait js (vport_sw_marker j m))"

definition idpf_wait_for_marker_event :: "nat list \<Rightarrow> marker_st \<Rightarrow> ret \<times> marker_st" where
  "idpf_wait_for_marker_event js m =
     (case marker_wait js (mk_all (\<lambda>q. q\<lparr>tf_SW_MARKER := True\<rparr>) m) of
        (event, m) \<Rightarrow> (if event then ret_ok else Some ETIMEDOUT, mk_all (\<lambda>q. q\<lparr>tf_POLL_MODE := False\<rparr>) m))"

text \<open>\<open>early\<close>: the markers that the polling functions handle as soon as they are scheduled, before the wait.\<close>

definition idpf_send_disable_queues_msg ::
  "nat list \<Rightarrow> nat list \<Rightarrow> u32 \<Rightarrow> idpf_queue_id_reg_chunk list \<Rightarrow> marker_st \<Rightarrow> vc_st \<Rightarrow> (ret \<times> marker_st \<times> vc_st) option" where
  "idpf_send_disable_queues_msg early js vport_id chunks m s =
     (case idpf_send_ena_dis_queues_msg chunks vport_id False s of
        None \<Rightarrow> None
      | Some (Some e, s) \<Rightarrow> Some (Some e, m, s)
      | Some (None, s) \<Rightarrow>
          (case idpf_wait_for_marker_event js (fold vport_sw_marker early (mk_all (\<lambda>q. q\<lparr>tf_POLL_MODE := True\<rparr>) m)) of
             (err, m) \<Rightarrow> Some (err, m, s)))"

section \<open>The vport\<close>

definition idpf_send_enable_vport_msg :: "u32 \<Rightarrow> vc_st \<Rightarrow> ret \<times> vc_st" where
  "idpf_send_enable_vport_msg vport_id = vc_exec (VportMsg VIRTCHNL2_OP_ENABLE_VPORT vport_id)"

definition idpf_send_disable_vport_msg :: "u32 \<Rightarrow> vc_st \<Rightarrow> ret \<times> vc_st" where
  "idpf_send_disable_vport_msg vport_id = vc_exec (VportMsg VIRTCHNL2_OP_DISABLE_VPORT vport_id)"

definition idpf_send_destroy_vport_msg :: "u32 \<Rightarrow> vc_st \<Rightarrow> ret \<times> vc_st" where
  "idpf_send_destroy_vport_msg vport_id = vc_exec (VportMsg VIRTCHNL2_OP_DESTROY_VPORT vport_id)"

text \<open>
  The second result is the buffer with the answer, \<open>vport_params_recvd[idx]\<close>.  The counts of queues in the
  message are those of \<open>idpf_vport_calc_total_qs\<close>.
\<close>

definition create_vport_req :: "bool \<Rightarrow> bool \<Rightarrow> idpf_user_config option \<Rightarrow> idpf_vport_max_q \<Rightarrow> nat \<Rightarrow> virtchnl2_create_vport" where
  "create_vport_req tx_splitq rx_splitq cfgo max_q num_cpus =
     idpf_vport_calc_total_qs cfgo max_q num_cpus
       \<lparr>vm_txq_model = (if tx_splitq then 1 else 0), vm_rxq_model = (if rx_splitq then 1 else 0), vm_num_tx_q = 0,
        vm_num_tx_complq = 0, vm_num_rx_q = 0, vm_num_rx_bufq = 0\<rparr>"

definition idpf_send_create_vport_msg ::
  "nat \<Rightarrow> bool \<Rightarrow> bool \<Rightarrow> idpf_user_config option \<Rightarrow> idpf_vport_max_q \<Rightarrow> nat \<Rightarrow> vc_st \<Rightarrow> ret \<times> ptr \<times> vc_st" where
  "idpf_send_create_vport_msg idx tx_splitq rx_splitq cfgo max_q num_cpus s =
     (case kcalloc (vs_world s) of (vport_msg, w) \<Rightarrow>
        let s = s\<lparr>vs_world := w\<rparr> in
        if vport_msg = NULL then (Some ENOMEM, NULL, s)
        else case kcalloc (vs_world s) of (recvd, w) \<Rightarrow>
          let s = s\<lparr>vs_world := w\<rparr> in
          if recvd = NULL then (Some ENOMEM, NULL, s\<lparr>vs_world := kfree vport_msg (vs_world s)\<rparr>)
          else case vc_exec (CreateVport idx (create_vport_req tx_splitq rx_splitq cfgo max_q num_cpus)) s of
            (Some e, s) \<Rightarrow> (Some e, NULL, s\<lparr>vs_world := kfree vport_msg (kfree recvd (vs_world s))\<rparr>)
          | (None, s) \<Rightarrow> (ret_ok, recvd, s\<lparr>vs_world := kfree vport_msg (vs_world s)\<rparr>))"

text \<open>Descriptor formats that the device does not offer are assumed all the same.\<close>

definition MIN_SUPPORT_TXDID :: u64 where
  "MIN_SUPPORT_TXDID = 0x1020"

definition idpf_check_supported_desc_ids :: "nat \<Rightarrow> nat \<Rightarrow> u64 \<times> u64 \<Rightarrow> (u64 \<times> u64) \<times> bool" where
  "idpf_check_supported_desc_ids rx_model tx_model ids =
     (case ids of (rx_desc_ids, tx_desc_ids) \<Rightarrow>
        let split_rx = (rx_model = 1);
            base_rxd = (\<not> split_rx \<and> rx_desc_ids AND 4 = 0);
            rx = (if split_rx \<and> rx_desc_ids AND 4 = 0 then 4 else rx_desc_ids);
            tx = (if tx_model = 1 \<and> tx_desc_ids AND MIN_SUPPORT_TXDID \<noteq> MIN_SUPPORT_TXDID then MIN_SUPPORT_TXDID else tx_desc_ids)
        in ((rx, tx), base_rxd))"

section \<open>Asking for queues and vectors\<close>

record add_queues_reply =
  aq_num_tx_q :: nat
  aq_num_tx_complq :: nat
  aq_num_rx_q :: nat
  aq_num_rx_bufq :: nat
  aq_num_chunks :: nat
  aq_chunks :: "idpf_queue_id_reg_chunk list"

text \<open>
  \<open>m\<close> is the contents of the reply buffer.  The chunks of the vport are replaced only if the answer is as
  asked for and complete.
\<close>

definition idpf_send_add_queues_msg ::
  "add_queues_reply \<Rightarrow> bool \<Rightarrow> vc_rsrc \<Rightarrow> u32 \<Rightarrow> idpf_queue_id_reg_chunk list \<Rightarrow> vc_st
    \<Rightarrow> ret \<times> idpf_queue_id_reg_chunk list \<times> vc_st" where
  "idpf_send_add_queues_msg m got_mem rsrc vport_id old s =
     (case kcalloc (vs_world s) of (buf, w) \<Rightarrow>
        let s = s\<lparr>vs_world := w\<rparr>; rel = (\<lambda>s. s\<lparr>vs_world := kfree buf (vs_world s)\<rparr>) in
        if buf = NULL then (Some ENOMEM, old, s)
        else case vc_xn (AddQueues vport_id (vr_num_txq rsrc) (vr_num_complq rsrc) (vr_num_rxq rsrc) (vr_num_bufq rsrc)) s of
          (Inl e, s) \<Rightarrow> (Some e, old, rel s)
        | (Inr reply_sz, s) \<Rightarrow>
            if aq_num_tx_q m \<noteq> vr_num_txq rsrc \<or> aq_num_rx_q m \<noteq> vr_num_rxq rsrc \<or>
               aq_num_tx_complq m \<noteq> vr_num_complq rsrc \<or> aq_num_rx_bufq m \<noteq> vr_num_bufq rsrc
            then (Some EINVAL, old, rel s)
            else if reply_sz < 24 + 32 * aq_num_chunks m then (Some EIO, old, rel s)
            else case idpf_vport_init_queue_reg_chunks got_mem (take (aq_num_chunks m) (aq_chunks m)) of
              (err, chunks) \<Rightarrow> (err, chunks, rel s))"

record alloc_vectors_reply =
  av_num_vectors :: nat
  av_num_vchunks :: nat

text \<open>\<open>req\<close>: the object \<open>adapter->req_vec_chunks\<close> with its contents, if there is one.\<close>

type_synonym req_vec_chunks = "(ptr \<times> alloc_vectors_reply) option"

definition req_ptr :: "req_vec_chunks \<Rightarrow> ptr" where
  "req_ptr req = (case req of None \<Rightarrow> NULL | Some (p, _) \<Rightarrow> p)"

definition idpf_send_alloc_vectors_msg ::
  "alloc_vectors_reply \<Rightarrow> nat \<Rightarrow> req_vec_chunks \<Rightarrow> vc_st \<Rightarrow> ret \<times> req_vec_chunks \<times> vc_st" where
  "idpf_send_alloc_vectors_msg m num_vectors req s =
     (case kcalloc (vs_world s) of (rcvd_vec, w) \<Rightarrow>
        let s = s\<lparr>vs_world := w\<rparr>; rel = (\<lambda>s. s\<lparr>vs_world := kfree rcvd_vec (vs_world s)\<rparr>) in
        if rcvd_vec = NULL then (Some ENOMEM, req, s)
        else case vc_xn (AllocVectors num_vectors) s of
          (Inl e, s) \<Rightarrow> (Some e, req, rel s)
        | (Inr reply_sz, s) \<Rightarrow>
            let sz = 32 + 32 * av_num_vchunks m in
            if reply_sz < sz then (Some EIO, req, rel s)
            else if sz > 4096 then (Some EINVAL, req, rel s)
            else case kcalloc (kfree (req_ptr req) (vs_world s)) of (p, w) \<Rightarrow>
              let s = s\<lparr>vs_world := w\<rparr> in
              if p = NULL then (Some ENOMEM, None, rel s)
              else if av_num_vectors m < num_vectors then (Some EINVAL, None, rel (s\<lparr>vs_world := kfree p (vs_world s)\<rparr>))
              else (ret_ok, Some (p, m), rel s))"

definition idpf_send_dealloc_vectors_msg :: "req_vec_chunks \<Rightarrow> vc_st \<Rightarrow> (ret \<times> req_vec_chunks \<times> vc_st) option" where
  "idpf_send_dealloc_vectors_msg req s =
     (case req of None \<Rightarrow> None
      | Some (p, m) \<Rightarrow>
          (case vc_exec (DeallocVectors (av_num_vchunks m)) s of
             (Some e, s) \<Rightarrow> Some (Some e, req, s)
           | (None, s) \<Rightarrow> Some (ret_ok, None, s\<lparr>vs_world := kfree p (vs_world s)\<rparr>)))"

end
