(* ===== verification/Idpf_Vport_Msgs_Results.thy ===== *)
theory Idpf_Vport_Msgs_Results
  imports Idpf_Vport_Msgs Idpf_Controlq_Leak "HOL-Library.Sublist"
begin

text \<open>
  The messages of a vport: an array is sent in parts that fit a control queue buffer, nothing twice and
  nothing left out, up to the first part that fails; memory is given back on every path.  The locale
  \<open>chunked_msg\<close> has the argument for the three messages of this form.
\<close>

section \<open>What sending an array means\<close>

text \<open>
  \<open>vc_sends mk es err s s'\<close>: parts of \<open>es\<close> were sent in order, each in a message of its own that is not
  empty and fits a buffer.  All parts but the last were accepted.  Without an error the parts are all of
  \<open>es\<close>; otherwise the error is that of the last message, or no memory and nothing was sent.
\<close>

definition vc_accepts :: "vc_st \<Rightarrow> nat \<Rightarrow> bool" where
  "vc_accepts s i \<longleftrightarrow> vc_ret (vs_reply s (length (vs_sent s) + i)) = ret_ok"

definition vc_outcome :: "vc_st \<Rightarrow> nat \<Rightarrow> bool \<Rightarrow> ret \<Rightarrow> bool" where
  "vc_outcome s n complete err \<longleftrightarrow>
     (\<forall>i. Suc i < n \<longrightarrow> vc_accepts s i) \<and>
     (case err of None \<Rightarrow> complete \<and> (\<forall>i < n. vc_accepts s i)
      | Some e \<Rightarrow> n = 0 \<and> e = ENOMEM \<or> n \<noteq> 0 \<and> vs_reply s (length (vs_sent s) + n - 1) = Inl e)"

definition vc_sends :: "('a list \<Rightarrow> vc_msg) \<Rightarrow> 'a list \<Rightarrow> ret \<Rightarrow> vc_st \<Rightarrow> vc_st \<Rightarrow> bool" where
  "vc_sends mk es err s s' \<longleftrightarrow>
     vs_reply s' = vs_reply s \<and> owns (vs_world s) {} {} (vs_world s') \<and>
     (\<exists>ps. vs_sent s' = vs_sent s @ map mk ps \<and> prefix (concat ps) es \<and>
           (\<forall>p \<in> set ps. p \<noteq> [] \<and> vc_msg_len (mk p) \<le> 4096) \<and> vc_outcome s (length ps) (concat ps = es) err)"

lemma vc_exec_cases:
  assumes "vc_exec msg s = (err, s')"
  shows "s' = s\<lparr>vs_sent := vs_sent s @ [msg]\<rparr>" "err = vc_ret (vs_reply s (length (vs_sent s)))"
  using assms by (simp_all add: vc_exec_def vc_xn_def)

lemma vc_ret_Some: "vc_ret r = Some e \<longleftrightarrow> r = Inl e"
  by (cases r) (auto simp: vc_ret_def)

lemma vc_outcome_world [simp]: "vc_outcome (s\<lparr>vs_world := w\<rparr>) n complete err = vc_outcome s n complete err"
  by (cases err) (simp_all add: vc_outcome_def vc_accepts_def)

lemma ceil_step: "0 < c \<Longrightarrow> 0 < n \<Longrightarrow> (n + c - 1) div c = Suc ((n - min c n + c - 1) div c)" for c n :: nat
  by (cases "c \<le> n") (auto simp: min_def div_eq_0_iff le_div_geq)

locale chunked_msg =
  fixes mk :: "'a list \<Rightarrow> vc_msg" and hdr sz :: nat
  assumes len: "vc_msg_len (mk xs) = hdr + sz * length xs"
    and sizes: "0 < sz" "hdr + sz \<le> 4096"
begin

lemma fits: "length xs \<le> IDPF_NUM_CHUNKS_PER_MSG hdr sz \<Longrightarrow> vc_msg_len (mk xs) \<le> 4096"
proof -
  assume "length xs \<le> IDPF_NUM_CHUNKS_PER_MSG hdr sz"
  then have "sz * length xs \<le> sz * ((4096 - hdr) div sz)" by (simp add: IDPF_NUM_CHUNKS_PER_MSG_def)
  also have "\<dots> \<le> 4096 - hdr" by (rule times_div_less_eq_dividend)
  finally have "sz * length xs \<le> 4096 - hdr" .
  then show ?thesis using sizes by (simp add: len)
qed

lemma chunk_loop:
  assumes "0 < c" and "n = (length qi + c - 1) div c" and "vc_chunk_loop mk n (min c (length qi)) qi s = (err, s')"
  shows "\<exists>ps. s' = s\<lparr>vs_sent := vs_sent s @ map mk ps\<rparr> \<and> prefix (concat ps) qi \<and> (\<forall>p \<in> set ps. p \<noteq> [] \<and> length p \<le> c) \<and>
    vc_outcome s (length ps) (concat ps = qi) err \<and> (err \<noteq> ret_ok \<longrightarrow> ps \<noteq> [])"
  using assms
proof (induction n arbitrary: qi s)
  case 0
  then have "qi = []" by (cases qi) (auto simp: div_eq_0_iff)
  with 0 show ?case by (auto simp: vc_outcome_def intro!: exI [of _ "[]"])
next
  case (Suc n)
  let ?m = "mk (take (min c (length qi)) qi)" and ?p = "take (min c (length qi)) qi" and ?r = "drop (min c (length qi)) qi"
  have ne: "qi \<noteq> []" using Suc.prems by auto
  have n: "n = (length ?r + c - 1) div c" using Suc.prems ne ceil_step [of c "length qi"] by simp
  have p: "?p \<noteq> []" "length ?p \<le> c" using ne Suc.prems(1) by auto
  obtain e1 s1 where x: "vc_exec ?m s = (e1, s1)" by fastforce
  note s1 = vc_exec_cases [OF x]
  show ?case
  proof (cases e1)
    case (Some e)
    then have "err = Some e" "s' = s1" using Suc.prems(3) x by auto
    moreover have "vs_reply s (length (vs_sent s)) = Inl e" using s1(2) Some vc_ret_Some by metis
    then have "vc_outcome s (length [?p]) (concat [?p] = qi) (Some e)" by (simp add: vc_outcome_def)
    moreover have "prefix ?p qi" by (rule take_is_prefix)
    ultimately show ?thesis using s1 p by (intro exI [of _ "[?p]"]) auto
  next
    case None
    have "min (min c (length qi)) (length ?r) = min c (length ?r)" by auto
    then have l: "vc_chunk_loop mk n (min c (length ?r)) ?r s1 = (err, s')"
      using Suc.prems(3) x None by (simp add: Let_def)
    obtain ps where ps: "s' = s1\<lparr>vs_sent := vs_sent s1 @ map mk ps\<rparr>" "prefix (concat ps) ?r" "\<forall>p \<in> set ps. p \<noteq> [] \<and> length p \<le> c"
        "vc_outcome s1 (length ps) (concat ps = ?r) err" "err \<noteq> ret_ok \<longrightarrow> ps \<noteq> []"
      using Suc.IH [OF Suc.prems(1) n l] by blast
    have ok: "vc_accepts s 0" using s1(2) None by (simp add: vc_accepts_def)
    have sh: "vc_accepts s (Suc i) = vc_accepts s1 i" for i using s1(1) by (simp add: vc_accepts_def)
    have "vc_outcome s (length (?p # ps)) (concat (?p # ps) = qi) err"
    proof -
      have "Suc i < length (?p # ps) \<Longrightarrow> vc_accepts s i" for i using ps(4) ok sh by (cases i) (auto simp: vc_outcome_def)
      moreover have "err = None \<Longrightarrow> i < length (?p # ps) \<Longrightarrow> vc_accepts s i" for i using ps(4) ok sh by (cases i) (auto simp: vc_outcome_def)
      moreover have "concat ps = ?r \<Longrightarrow> concat (?p # ps) = qi" by (metis append_take_drop_id concat.simps(2))
      ultimately show ?thesis using ps(4,5) s1(1) by (auto simp: vc_outcome_def split: option.splits)
    qed
    moreover have "prefix (concat (?p # ps)) qi" using ps(2) by (metis append_take_drop_id concat.simps(2) same_prefix_prefix)
    ultimately show ?thesis using ps(1,3) s1(1) p by (intro exI [of _ "?p # ps"]) auto
  qed
qed

lemma send_chunks:
  assumes ne: "qi \<noteq> []"
  shows "\<exists>err s'. vc_send_chunks mk (IDPF_NUM_CHUNKS_PER_MSG hdr sz) qi s = Some (err, s') \<and> vc_sends mk qi err s s'"
proof -
  define c where "c = min (IDPF_NUM_CHUNKS_PER_MSG hdr sz) (length qi)"
  have per: "0 < IDPF_NUM_CHUNKS_PER_MSG hdr sz"
    using sizes by (simp add: IDPF_NUM_CHUNKS_PER_MSG_def div_greater_zero_iff)
  then have c: "0 < c" "c \<le> IDPF_NUM_CHUNKS_PER_MSG hdr sz" "min c (length qi) = c" using ne by (auto simp: c_def)
  obtain buf w where k: "kcalloc (vs_world s) = (buf, w)" by fastforce
  let ?s = "s\<lparr>vs_world := w\<rparr>"
  show ?thesis
  proof (cases rule: kcallocE [OF k])
    case 1
    then have "vc_sends mk qi (Some ENOMEM) s ?s"
      by (auto simp: vc_sends_def vc_outcome_def intro!: exI [of _ "[]"])
    then show ?thesis using 1 k c by (simp add: vc_send_chunks_def Let_def c_def [symmetric])
  next
    case 2
    obtain err s1 where l: "vc_chunk_loop mk ((length qi + c - 1) div c) c qi ?s = (err, s1)" by fastforce
    obtain ps where ps: "s1 = ?s\<lparr>vs_sent := vs_sent s @ map mk ps\<rparr>" "prefix (concat ps) qi" "\<forall>p \<in> set ps. p \<noteq> [] \<and> length p \<le> c"
        "vc_outcome ?s (length ps) (concat ps = qi) err"
      using chunk_loop [OF c(1) refl, of qi ?s err s1] l c(3) by auto
    have o: "owns (vs_world s) {} {} (kfree buf w)" using kfree_owns [of "vs_world s" buf "{}" "{}" w] 2 by simp
    have "\<forall>p \<in> set ps. p \<noteq> [] \<and> vc_msg_len (mk p) \<le> 4096" using ps(3) c(2) fits by (meson le_trans)
    then have "vc_sends mk qi err s (s1\<lparr>vs_world := kfree buf (vs_world s1)\<rparr>)"
      using ps(1,2,4) o by (auto simp: vc_sends_def)
    then show ?thesis using 2 k c l by (simp add: vc_send_chunks_def Let_def c_def [symmetric])
  qed
qed

lemma send_array:
  assumes "length es = n" and "0 < n"
  shows "\<exists>err s'. vc_send_array mk (IDPF_NUM_CHUNKS_PER_MSG hdr sz) n z es s = Some (err, s') \<and> vc_sends mk es err s s'"
proof -
  obtain qi w where k: "kcalloc (vs_world s) = (qi, w)" by fastforce
  let ?s = "s\<lparr>vs_world := w\<rparr>"
  show ?thesis
  proof (cases rule: kcallocE [OF k])
    case 1
    then have "vc_sends mk es (Some ENOMEM) s ?s"
      by (auto simp: vc_sends_def vc_outcome_def intro!: exI [of _ "[]"])
    then show ?thesis using 1 k by (simp add: vc_send_array_def Let_def)
  next
    case 2
    obtain err s1 where x: "vc_send_chunks mk (IDPF_NUM_CHUNKS_PER_MSG hdr sz) es ?s = Some (err, s1)" "vc_sends mk es err ?s s1"
      using send_chunks [of es ?s] assms by auto
    have "owns (vs_world s) {qi} {} (vs_world s1)"
      using owns_trans(1) [OF 2(2), of "{}" "{}" "vs_world s1"] x(2) by (simp add: vc_sends_def)
    then have "owns (vs_world s) {} {} (kfree qi (vs_world s1))" using kfree_owns [of "vs_world s" qi "{}" "{}"] 2(1) by simp
    then have "vc_sends mk es err s (s1\<lparr>vs_world := kfree qi (vs_world s1)\<rparr>)"
      using x(2) by (simp add: vc_sends_def)
    then show ?thesis using 2 k x(1) assms by (simp add: vc_send_array_def Let_def)
  qed
qed

end

interpretation ctq: chunked_msg "ConfigTxQueues v" 16 56 for v
  by unfold_locales simp_all

interpretation crq: chunked_msg "ConfigRxQueues v" 24 88 for v
  by unfold_locales simp_all

interpretation vqvm: chunked_msg "QueueVectorMaps m v" 16 24 for m v
  by unfold_locales simp_all

section \<open>Configuring a vport\<close>

text \<open>The descriptions of all queues, and that the groups have as many queues as are counted.\<close>

definition tx_infos :: "vc_rsrc \<Rightarrow> virtchnl2_txq_info list" where
  "tx_infos rsrc = concat (map (txq_group_infos (vr_txq_model rsrc)) (vr_txq_grps rsrc))"

definition rx_infos :: "vc_rsrc \<Rightarrow> virtchnl2_rxq_info list" where
  "rx_infos rsrc = concat (map (rxq_group_infos (vr_rxq_model rsrc) (vr_num_bufqs_per_qgrp rsrc)) (vr_rxq_grps rsrc))"

definition vc_counts :: "vc_rsrc \<Rightarrow> bool" where
  "vc_counts rsrc \<longleftrightarrow>
     sum_list (map (length \<circ> vg_txqs) (vr_txq_grps rsrc)) = vr_num_txq rsrc \<and>
     sum_list (map (length \<circ> vg_rxqs) (vr_rxq_grps rsrc)) = vr_num_rxq rsrc \<and>
     vr_num_complq rsrc = (if idpf_is_queue_model_split (vr_txq_model rsrc) then length (vr_txq_grps rsrc) else 0) \<and>
     vr_num_bufq rsrc = (if idpf_is_queue_model_split (vr_rxq_model rsrc) then vr_num_bufqs_per_qgrp rsrc * length (vr_rxq_grps rsrc) else 0) \<and>
     (\<forall>g \<in> set (vr_rxq_grps rsrc). vr_num_bufqs_per_qgrp rsrc \<le> length (vg_bufqs g))"

lemma length_txq_group_infos: "length (txq_group_infos md g) = length (vg_txqs g) + (if idpf_is_queue_model_split md then 1 else 0)"
  by (simp add: txq_group_infos_def)

lemma length_rxq_group_infos:
  "n \<le> length (vg_bufqs g) \<Longrightarrow> length (rxq_group_infos md n g) = (if idpf_is_queue_model_split md then n else 0) + length (vg_rxqs g)"
  by (simp add: rxq_group_infos_def)

lemma sum_list_plus_const: "sum_list (map (\<lambda>x. f x + c) xs) = sum_list (map f xs) + c * length xs" for c :: nat
  by (induction xs) auto

lemma length_tx_infos: "vc_counts rsrc \<Longrightarrow> length (tx_infos rsrc) = vr_num_txq rsrc + vr_num_complq rsrc"
  by (auto simp: tx_infos_def vc_counts_def length_concat comp_def length_txq_group_infos sum_list_plus_const)

lemma length_rx_infos: "vc_counts rsrc \<Longrightarrow> length (rx_infos rsrc) = vr_num_rxq rsrc + vr_num_bufq rsrc"
proof -
  assume c: "vc_counts rsrc"
  let ?n = "vr_num_bufqs_per_qgrp rsrc" and ?k = "if idpf_is_queue_model_split (vr_rxq_model rsrc) then vr_num_bufqs_per_qgrp rsrc else 0"
  have "length (rx_infos rsrc) = sum_list (map (length \<circ> rxq_group_infos (vr_rxq_model rsrc) ?n) (vr_rxq_grps rsrc))"
    by (simp add: rx_infos_def length_concat comp_def)
  also have "map (length \<circ> rxq_group_infos (vr_rxq_model rsrc) ?n) (vr_rxq_grps rsrc) = map (\<lambda>g. length (vg_rxqs g) + ?k) (vr_rxq_grps rsrc)"
    using c by (auto simp: vc_counts_def length_rxq_group_infos)
  finally show ?thesis using c by (simp add: sum_list_plus_const vc_counts_def comp_def)
qed

lemma length_queue_vectors: "vc_counts rsrc \<Longrightarrow> length (queue_vectors rsrc) = vr_num_txq rsrc + vr_num_rxq rsrc"
  by (simp add: queue_vectors_def vc_counts_def length_concat comp_def)

lemma config_tx:
  assumes "vc_counts rsrc" and "0 < vr_num_txq rsrc"
  shows "\<exists>err s'. idpf_send_config_tx_queues_msg rsrc v s = Some (err, s') \<and> vc_sends (ConfigTxQueues v) (tx_infos rsrc) err s s'"
  using ctq.send_array [OF length_tx_infos [OF assms(1)], of v txq_info_zero s] assms(2)
  by (simp add: idpf_send_config_tx_queues_msg_def tx_infos_def)

lemma config_rx:
  assumes "vc_counts rsrc" and "0 < vr_num_rxq rsrc"
  shows "\<exists>err s'. idpf_send_config_rx_queues_msg rsrc v s = Some (err, s') \<and> vc_sends (ConfigRxQueues v) (rx_infos rsrc) err s s'"
  using crq.send_array [OF length_rx_infos [OF assms(1)], of v rxq_info_zero s] assms(2)
  by (simp add: idpf_send_config_rx_queues_msg_def rx_infos_def)

text \<open>
  C13. Configuring the queues of a vport: the call returns.  It sends the descriptions of all transmit and
  completion queues in order in messages that fit a control queue buffer and stops at the first message
  that fails, with its error; then, if all were accepted, it does the same with the receive and buffer
  queues.  No memory is lost or freed twice on any path.
\<close>

theorem config_queues_sends:
  assumes "vc_counts rsrc" and "0 < vr_num_txq rsrc" and "0 < vr_num_rxq rsrc"
  shows "\<exists>err s' err1 s1. idpf_send_config_queues_msg rsrc v s = Some (err, s') \<and>
    vc_sends (ConfigTxQueues v) (tx_infos rsrc) err1 s s1 \<and>
    (if err1 = ret_ok then vc_sends (ConfigRxQueues v) (rx_infos rsrc) err s1 s' else err = err1 \<and> s' = s1)"
proof -
  obtain e1 s1 where 1: "idpf_send_config_tx_queues_msg rsrc v s = Some (e1, s1)" "vc_sends (ConfigTxQueues v) (tx_infos rsrc) e1 s s1"
    using config_tx [OF assms(1,2)] by blast
  obtain e2 s2 where 2: "idpf_send_config_rx_queues_msg rsrc v s1 = Some (e2, s2)" "vc_sends (ConfigRxQueues v) (rx_infos rsrc) e2 s1 s2"
    using config_rx [OF assms(1,3)] by blast
  show ?thesis using 1 2 by (cases e1) (fastforce simp: idpf_send_config_queues_msg_def)+
qed

text \<open>A vport with one group, a descriptor ring of 512, and one message of each kind accepted.\<close>

definition demo_queue :: "u32 \<Rightarrow> vc_queue" where
  "demo_queue i = \<lparr>vq_id = i, vq_type = 0, vq_desc_count = 512, vq_dma = 4096, vq_flow_sch = True, vq_rel_qid = 0, vq_max_pkt_size = 1522,
     vq_buf_size = 2048, vq_hsplit_en = False, vq_hbuf_size = 0, vq_low_watermark = 64, vq_rsc_en = False, vq_rxdids = 4, vq_buf_stride = 32,
     vq_v_idx = 1, vq_itr_idx = 0\<rparr>"

definition demo_vc_rsrc :: vc_rsrc where
  "demo_vc_rsrc = \<lparr>vr_txq_grps = [\<lparr>vg_txqs = [demo_queue 0], vg_complq = demo_queue 1\<rparr>],
     vr_rxq_grps = [\<lparr>vg_rxqs = [demo_queue 2], vg_bufqs = [demo_queue 3, demo_queue 4]\<rparr>],
     vr_num_txq = 1, vr_num_complq = 1, vr_num_rxq = 1, vr_num_bufq = 2, vr_num_bufqs_per_qgrp = 2, vr_txq_model = 1, vr_rxq_model = 1\<rparr>"

definition demo_vc_st :: vc_st where
  "demo_vc_st = \<lparr>vs_world = \<lparr>live = {}, dma_live = {}, kscript = [1, 2, 3, 4], dscript = [], bad_free = False, dmas = undefined, cqs = undefined,
     hw = undefined\<rparr>, vs_sent = [], vs_reply = (\<lambda>_. Inr 0)\<rparr>"

theorem config_queues_sends_witness:
  "\<exists>err s'. idpf_send_config_queues_msg demo_vc_rsrc 7 demo_vc_st = Some (err, s')"
proof -
  have "vc_counts demo_vc_rsrc" "0 < vr_num_txq demo_vc_rsrc" "0 < vr_num_rxq demo_vc_rsrc"
    by (simp_all add: vc_counts_def demo_vc_rsrc_def idpf_is_queue_model_split_def)
  from config_queues_sends [OF this, of 7 demo_vc_st] show ?thesis by blast
qed

text \<open>In every group the buffer queues come before the receive queues, as the device wants it.\<close>

lemma bufqs_first:
  assumes "idpf_is_queue_model_split md" and "n \<le> length (vg_bufqs g)"
  shows "map ri_queue_id (rxq_group_infos md n g) = map vq_id (take n (vg_bufqs g)) @ map vq_id (vg_rxqs g)"
  using assms by (simp add: rxq_group_infos_def idpf_set_bufq_info_def idpf_set_rxq_info_def set_rxq_info_common_def Let_def comp_def if_distrib cong: if_cong)

theorem map_queue_vectors_sends:
  assumes "vc_counts rsrc" and "0 < vr_num_txq rsrc + vr_num_rxq rsrc"
  shows "\<exists>err s'. idpf_send_map_unmap_queue_vector_msg rsrc v b s = Some (err, s') \<and>
    vc_sends (QueueVectorMaps b v) (queue_vectors rsrc) err s s'"
  using vqvm.send_array [OF length_queue_vectors [OF assms(1)], of b v queue_vector_zero s] assms(2)
  by (simp add: idpf_send_map_unmap_queue_vector_msg_def)

text \<open>A vport without queues makes the driver divide by zero.\<close>

theorem no_queues_no_return:
  assumes "vr_num_txq rsrc + vr_num_complq rsrc = 0" and "tx_infos rsrc = []" and "kcalloc (vs_world s) = (p, w)" and "p \<noteq> NULL"
  shows "idpf_send_config_tx_queues_msg rsrc v s = None"
  using assms by (simp add: idpf_send_config_tx_queues_msg_def vc_send_array_def vc_send_chunks_def tx_infos_def Let_def)

section \<open>Disabling the queues\<close>

definition pending :: "marker_st \<Rightarrow> nat set" where
  "pending m = {i. i < length (mk_txqs m) \<and> tf_SW_MARKER (mk_txqs m ! i)}"

lemma pending_empty: "pending m = {} \<longleftrightarrow> \<not> list_ex tf_SW_MARKER (mk_txqs m)"
  by (auto simp: pending_def list_ex_length)

lemma sw_marker_pending:
  assumes "j < length (mk_txqs m)"
  shows "pending (vport_sw_marker j m) = pending m - {j}"
    "mk_vport (vport_sw_marker j m) = (mk_vport m \<or> pending m - {j} = {})"
    "length (mk_txqs (vport_sw_marker j m)) = length (mk_txqs m)"
proof -
  let ?m = "m\<lparr>mk_txqs := (mk_txqs m)[j := (mk_txqs m ! j)\<lparr>tf_SW_MARKER := False\<rparr>]\<rparr>"
  have p: "pending ?m = pending m - {j}" using assms by (auto simp: pending_def nth_list_update)
  have e: "vport_sw_marker j m = (if pending ?m = {} then ?m\<lparr>mk_vport := True\<rparr> else ?m)"
    by (simp add: vport_sw_marker_def Let_def pending_empty)
  have "pending (?m\<lparr>mk_vport := True\<rparr>) = pending ?m" by (simp add: pending_def)
  then show "pending (vport_sw_marker j m) = pending m - {j}"
    "mk_vport (vport_sw_marker j m) = (mk_vport m \<or> pending m - {j} = {})"
    "length (mk_txqs (vport_sw_marker j m)) = length (mk_txqs m)"
    using p by (simp_all add: e)
qed

lemma marker_wait_set: "mk_vport m \<Longrightarrow> marker_wait js m = (True, m\<lparr>mk_vport := False\<rparr>)"
  by (cases js) simp_all

lemma marker_wait_event:
  assumes "\<not> mk_vport m" and "pending m \<noteq> {}" and "\<forall>j \<in> set js. j < length (mk_txqs m)"
  shows "fst (marker_wait js m) = (pending m \<subseteq> set js)"
  using assms
proof (induction js arbitrary: m)
  case (Cons j js)
  note sw = sw_marker_pending [of j m]
  show ?case
  proof (cases "pending m - {j} = {}")
    case True
    then show ?thesis using Cons.prems sw by (auto simp: marker_wait_set)
  next
    case False
    then have "fst (marker_wait js (vport_sw_marker j m)) = (pending m - {j} \<subseteq> set js)"
      using Cons.IH [of "vport_sw_marker j m"] Cons.prems sw by simp
    then show ?thesis using Cons.prems by auto
  qed
qed simp

lemma marker_wait_clears: "\<not> mk_vport (snd (marker_wait js m))"
  by (induction js arbitrary: m) simp_all

lemma fold_sw_marker:
  assumes "\<forall>j \<in> set js. j < length (mk_txqs m)"
  shows "pending (fold vport_sw_marker js m) = pending m - set js"
    "mk_vport (fold vport_sw_marker js m) = (mk_vport m \<or> js \<noteq> [] \<and> pending m \<subseteq> set js)"
    "length (mk_txqs (fold vport_sw_marker js m)) = length (mk_txqs m)"
  using assms by (induction js arbitrary: m) (auto simp: sw_marker_pending)

text \<open>
  C17. Disabling the queues of a vport, whatever markers are handled and when.  If the message fails its
  error is returned and nothing changes.  Otherwise \<open>early\<close> are the queues whose markers the polling
  functions handle before the flags are set, \<open>js\<close> those whose markers arrive during the wait.  The call
  succeeds exactly if the markers of all queues arrive during the wait, or if the flag of the vport is
  already set when it starts to wait: because it was set before the call, or because an early marker found
  no other queue pending.  Otherwise it times out.  Polling mode is off afterwards and the flag is clear.
\<close>

theorem disable_queues_waits:
  assumes "chunks \<noteq> []" and "mk_txqs m \<noteq> []" and "\<forall>j \<in> set early \<union> set js. j < length (mk_txqs m)"
  shows "\<exists>err m' s' e. idpf_send_disable_queues_msg early js v chunks m s = Some (err, m', s') \<and>
    vc_send_queue_chunks VIRTCHNL2_OP_DISABLE_QUEUES chunks v s = (e, s') \<and>
    (if e \<noteq> ret_ok then err = e \<and> m' = m
     else err = (if {..<length (mk_txqs m)} \<subseteq> set js \<or> mk_vport m \<or> early \<noteq> [] \<and> pending m \<subseteq> set early
                 then ret_ok else Some ETIMEDOUT) \<and>
       \<not> mk_vport m' \<and> (\<forall>q \<in> set (mk_txqs m'). \<not> tf_POLL_MODE q))"
proof -
  obtain e s' where x: "vc_send_queue_chunks VIRTCHNL2_OP_DISABLE_QUEUES chunks v s = (e, s')" by fastforce
  let ?p = "mk_all (\<lambda>q. q\<lparr>tf_POLL_MODE := True\<rparr>) m"
  let ?f = "fold vport_sw_marker early ?p"
  let ?m = "mk_all (\<lambda>q. q\<lparr>tf_SW_MARKER := True\<rparr>) ?f"
  have "pending ?p = pending m" "mk_vport ?p = mk_vport m" "length (mk_txqs ?p) = length (mk_txqs m)"
    by (auto simp: pending_def mk_all_def)
  then have f: "mk_vport ?f = (mk_vport m \<or> early \<noteq> [] \<and> pending m \<subseteq> set early)" "length (mk_txqs ?f) = length (mk_txqs m)"
    using fold_sw_marker [of early ?p] assms(3) by simp_all
  have p: "pending ?m = {..<length (mk_txqs m)}" "mk_vport ?m = mk_vport ?f" "length (mk_txqs ?m) = length (mk_txqs m)"
    using f(2) by (auto simp: pending_def mk_all_def)
  have w: "fst (marker_wait js ?m) = ({..<length (mk_txqs m)} \<subseteq> set js \<or> mk_vport ?f)"
  proof (cases "mk_vport ?f")
    case True
    then show ?thesis using p(2) by (simp add: marker_wait_set)
  next
    case False
    then show ?thesis using marker_wait_event [of ?m js] p assms(2,3) by auto
  qed
  show ?thesis
  proof (cases e)
    case (Some a)
    then show ?thesis using x assms(1) by (simp add: idpf_send_disable_queues_msg_def idpf_send_ena_dis_queues_msg_def)
  next
    case None
    then show ?thesis using x assms(1) w f(1) marker_wait_clears [of js ?m]
      by (cases "marker_wait js ?m") (auto simp: idpf_send_disable_queues_msg_def idpf_send_ena_dis_queues_msg_def
          idpf_wait_for_marker_event_def mk_all_def)
  qed
qed

theorem disable_queues_waits_witness:
  "\<exists>m' s'. idpf_send_disable_queues_msg [] [1, 0] 7 [\<lparr>qtail_reg_start = 0, qtail_reg_spacing = 4, chunk_type = 0, start_queue_id = 0, chunk_num_queues = 2\<rparr>]
      \<lparr>mk_txqs = replicate 2 \<lparr>tf_POLL_MODE = False, tf_SW_MARKER = False\<rparr>, mk_vport = False\<rparr> demo_vc_st = Some (ret_ok, m', s')"
proof -
  let ?c = "[\<lparr>qtail_reg_start = 0, qtail_reg_spacing = 4, chunk_type = 0, start_queue_id = 0, chunk_num_queues = 2\<rparr> :: idpf_queue_id_reg_chunk]"
  let ?m = "\<lparr>mk_txqs = replicate 2 \<lparr>tf_POLL_MODE = False, tf_SW_MARKER = False\<rparr>, mk_vport = False\<rparr>"
  have "fst (vc_send_queue_chunks VIRTCHNL2_OP_DISABLE_QUEUES ?c 7 demo_vc_st) = ret_ok"
    by (simp add: vc_send_queue_chunks_def demo_vc_st_def kcalloc_def vc_exec_def vc_xn_def vc_ret_def)
  moreover have "{..<2} \<subseteq> set [1, 0 :: nat]" by auto
  ultimately show ?thesis
    using disable_queues_waits [of ?c ?m "[]" "[1, 0]" 7 demo_vc_st] by fastforce
qed

text \<open>
  The polling functions are scheduled before the flags of the queues are set.  If the marker of one queue
  is handled in between, no flag is set, which looks as if all had arrived: the call succeeds at once
  while the markers of all other queues are outstanding.
\<close>

theorem early_marker_ends_wait:
  assumes "chunks \<noteq> []" and "pending m = {}" and "j < length (mk_txqs m)"
    and "vc_send_queue_chunks VIRTCHNL2_OP_DISABLE_QUEUES chunks v s = (ret_ok, s')"
  shows "\<exists>m'. idpf_send_disable_queues_msg [j] [] v chunks m s = Some (ret_ok, m', s') \<and> pending m' = {..<length (mk_txqs m)}"
proof -
  let ?p = "mk_all (\<lambda>q. q\<lparr>tf_POLL_MODE := True\<rparr>) m"
  let ?m = "vport_sw_marker j ?p"
  have "pending ?p = {}" "j < length (mk_txqs ?p)" "length (mk_txqs ?p) = length (mk_txqs m)" using assms(2,3) by (auto simp: pending_def mk_all_def)
  then have "mk_vport ?m" "length (mk_txqs ?m) = length (mk_txqs m)" using sw_marker_pending [of j ?p] by auto
  then show ?thesis using assms(1,4)
    by (auto simp: idpf_send_disable_queues_msg_def idpf_send_ena_dis_queues_msg_def idpf_wait_for_marker_event_def mk_all_def pending_def)
qed

section \<open>Memory\<close>

theorem create_vport_owns:
  assumes "idpf_send_create_vport_msg idx t r cfgo mq n s = (err, recvd, s')"
  shows "if err = ret_ok then recvd \<noteq> NULL \<and> owns (vs_world s) {recvd} {} (vs_world s')
    else recvd = NULL \<and> owns (vs_world s) {} {} (vs_world s')"
proof -
  obtain p w where k: "kcalloc (vs_world s) = (p, w)" by fastforce
  obtain p2 w2 where k2: "kcalloc w = (p2, w2)" by fastforce
  obtain e s2 where x: "vc_exec (CreateVport idx (create_vport_req t r cfgo mq n)) (s\<lparr>vs_world := w2\<rparr>) = (e, s2)" by fastforce
  have w2: "vs_world s2 = w2" using vc_exec_cases(1) [OF x] by simp
  show ?thesis
  proof (cases rule: kcallocE [OF k])
    case 1
    then show ?thesis using assms k by (auto simp: idpf_send_create_vport_msg_def)
  next
    case p: 2
    show ?thesis
    proof (cases rule: kcallocE [OF k2])
      case 1
      have "owns (vs_world s) {p} {} w2" using owns_trans(1) [OF p(2) 1(2)] by simp
      then have "owns (vs_world s) {} {} (kfree p w2)" using kfree_owns [of "vs_world s" p "{}" "{}" w2] p(1) by simp
      then show ?thesis using assms k k2 p(1) 1(1) by (auto simp: idpf_send_create_vport_msg_def)
    next
      case 2
      have o: "owns (vs_world s) {p, p2} {} w2" "p \<noteq> p2" using owns_trans [OF p(2) 2(2)] by (auto simp: insert_commute)
      then have "owns (vs_world s) {p2} {} (kfree p w2)" using kfree_owns [of "vs_world s" p "{p2}" "{}" w2] p(1) by simp
      moreover have "owns (vs_world s) {p} {} (kfree p2 w2)" using o kfree_owns [of "vs_world s" p2 "{p}" "{}" w2] 2(1) by (simp add: insert_commute)
      then have "owns (vs_world s) {} {} (kfree p (kfree p2 w2))" using kfree_owns [of "vs_world s" p "{}" "{}" "kfree p2 w2"] p(1) by simp
      ultimately show ?thesis using assms k k2 p(1) 2(1) x w2
        by (cases e) (auto simp: idpf_send_create_vport_msg_def)
    qed
  qed
qed

theorem add_queues_checked:
  assumes "idpf_send_add_queues_msg m g rsrc v old s = (ret_ok, chunks, s')"
  shows "aq_num_tx_q m = vr_num_txq rsrc \<and> aq_num_rx_q m = vr_num_rxq rsrc \<and> aq_num_tx_complq m = vr_num_complq rsrc \<and>
    aq_num_rx_bufq m = vr_num_bufq rsrc \<and> chunks = take (aq_num_chunks m) (aq_chunks m) \<and>
    (\<exists>sz. vs_reply s (length (vs_sent s)) = Inr sz \<and> 24 + 32 * aq_num_chunks m \<le> sz)"
  using assms
  by (auto simp: idpf_send_add_queues_msg_def vc_xn_def Let_def idpf_vport_init_queue_reg_chunks_def map_idI
      split: prod.splits if_splits sum.splits)

text \<open>The object with the vectors of the adapter: it is replaced, kept or lost, but never leaked.\<close>

definition req_objs :: "req_vec_chunks \<Rightarrow> ptr set" where
  "req_objs req = (case req of None \<Rightarrow> {} | Some (p, _) \<Rightarrow> {p})"

theorem alloc_vectors_owns:
  assumes "idpf_send_alloc_vectors_msg m n req s = (err, req', s')" and "owns w0 (req_objs req) {} (vs_world s)" and "NULL \<notin> req_objs req"
  shows "owns w0 (req_objs req') {} (vs_world s') \<and> NULL \<notin> req_objs req' \<and>
    (err = ret_ok \<longrightarrow> (\<exists>p. req' = Some (p, m)) \<and> n \<le> av_num_vectors m \<and> 32 + 32 * av_num_vchunks m \<le> 4096) \<and>
    (err \<noteq> ret_ok \<longrightarrow> req' = req \<or> req' = None)"
proof -
  obtain b w where k: "kcalloc (vs_world s) = (b, w)" by fastforce
  have f: "owns w0 {} {} (kfree (req_ptr req) w1)" if "owns w0 (req_objs req) {} w1" for w1
    using that assms(3) kfree_owns [of w0 "req_ptr req" "{}" "{}" w1] by (auto simp: req_ptr_def req_objs_def split: option.splits)
  show ?thesis
  proof (cases rule: kcallocE [OF k])
    case 1
    have "owns w0 (req_objs req) {} w" using owns_trans(1) [OF assms(2) 1(2)] by simp
    then show ?thesis using assms(1,3) k 1(1) by (auto simp: idpf_send_alloc_vectors_msg_def)
  next
    case 2
    have o: "owns w0 (insert b (req_objs req)) {} w" "b \<notin> req_objs req" using owns_trans [OF assms(2) 2(2)] by auto
    have keep: "owns w0 (req_objs req) {} (kfree b w)" using kfree_owns [OF o] 2(1) by simp
    obtain p w2 where k2: "kcalloc (kfree (req_ptr req) w) = (p, w2)" by fastforce
    have o1: "owns w0 {b} {} (kfree (req_ptr req) w)"
    proof (cases req)
      case None
      then show ?thesis using o by (simp add: req_ptr_def req_objs_def)
    next
      case (Some x)
      then show ?thesis using o assms(3) kfree_owns [of w0 "fst x" "{b}" "{}" w] by (auto simp: req_ptr_def req_objs_def insert_commute split: prod.splits)
    qed
    have p: "owns w0 (if p = NULL then {b} else {b, p}) {} w2 \<and> (p \<noteq> NULL \<longrightarrow> b \<noteq> p)"
      by (cases rule: kcallocE [OF k2]) (use owns_trans [OF o1] in fastforce)+
    have d: "owns w0 (if p = NULL then {} else {p}) {} (kfree b w2)"
      using p kfree_owns [of w0 b "if p = NULL then {} else {p}" "{}" w2] 2(1) by (auto split: if_splits)
    have d2: "owns w0 {} {} (kfree b (kfree p w2))" if "p \<noteq> NULL"
      using p that kfree_owns [of w0 p "{b}" "{}" w2] kfree_owns [of w0 b "{}" "{}" "kfree p w2"] 2(1) by (auto simp: insert_commute)
    show ?thesis using assms(1,3) k k2 2(1) keep d d2
      by (auto simp: idpf_send_alloc_vectors_msg_def vc_xn_def Let_def req_objs_def split: sum.splits if_splits)
  qed
qed

end
