(* ===== verification/Idpf_Ptype.thy ===== *)
theory Idpf_Ptype
  imports Idpf_Rx Idpf_Vport_Msgs
begin

text \<open>
  The packet types of the device (\<open>idpf_virtchnl.c\<close>): the driver asks for them in rounds; a reply lists
  packet types with their stack of protocol headers, one after the other in the buffer.  They are decoded
  into two tables, for the split and the single queue model.

  The reply buffer is a list of \<open>IDPF_CTLQ_MAX_BUF_LEN\<close> bytes; a reply overwrites its beginning.  As a
  result \<open>None\<close> stands for a read beyond the end of the buffer.
\<close>

section \<open>Decoding a stack of protocols\<close>

record rx_ptype =
  pt_known :: bool
  pt_outer_ip :: nat
  pt_outer_ip_ver :: nat
  pt_outer_frag :: bool
  pt_tunnel_type :: nat
  pt_tunnel_end_prot :: nat
  pt_tunnel_end_frag :: bool
  pt_inner_prot :: nat
  pt_payload_layer :: nat

definition rx_ptype_zero :: rx_ptype where
  "rx_ptype_zero = \<lparr>pt_known = False, pt_outer_ip = 0, pt_outer_ip_ver = 0, pt_outer_frag = False, pt_tunnel_type = 0,
     pt_tunnel_end_prot = 0, pt_tunnel_end_frag = False, pt_inner_prot = 0, pt_payload_layer = 0\<rparr>"

record idpf_ptype_state =
  ps_outer_ip :: bool
  ps_outer_frag :: bool
  ps_tunnel_state :: u8

definition ptype_state_zero :: idpf_ptype_state where
  "ptype_state_zero = \<lparr>ps_outer_ip = False, ps_outer_frag = False, ps_tunnel_state = 0\<rparr>"

definition IDPF_PTYPE_TUNNEL_IP :: u8 where "IDPF_PTYPE_TUNNEL_IP = 1"
definition IDPF_PTYPE_TUNNEL_IP_GRENAT :: u8 where "IDPF_PTYPE_TUNNEL_IP_GRENAT = 2"
definition IDPF_PTYPE_TUNNEL_IP_GRENAT_MAC :: u8 where "IDPF_PTYPE_TUNNEL_IP_GRENAT_MAC = 4"
definition IDPF_TUN_IP_GRE :: u8 where "IDPF_TUN_IP_GRE = IDPF_PTYPE_TUNNEL_IP OR IDPF_PTYPE_TUNNEL_IP_GRENAT"

definition VIRTCHNL2_PROTO_HDR_MAC :: nat where "VIRTCHNL2_PROTO_HDR_MAC = 2"
definition VIRTCHNL2_PROTO_HDR_IPV4 :: nat where "VIRTCHNL2_PROTO_HDR_IPV4 = 19"
definition VIRTCHNL2_PROTO_HDR_IPV4_FRAG :: nat where "VIRTCHNL2_PROTO_HDR_IPV4_FRAG = 20"
definition VIRTCHNL2_PROTO_HDR_IPV6 :: nat where "VIRTCHNL2_PROTO_HDR_IPV6 = 21"
definition VIRTCHNL2_PROTO_HDR_IPV6_FRAG :: nat where "VIRTCHNL2_PROTO_HDR_IPV6_FRAG = 22"
definition VIRTCHNL2_PROTO_HDR_UDP :: nat where "VIRTCHNL2_PROTO_HDR_UDP = 24"
definition VIRTCHNL2_PROTO_HDR_TCP :: nat where "VIRTCHNL2_PROTO_HDR_TCP = 25"
definition VIRTCHNL2_PROTO_HDR_SCTP :: nat where "VIRTCHNL2_PROTO_HDR_SCTP = 26"
definition VIRTCHNL2_PROTO_HDR_ICMP :: nat where "VIRTCHNL2_PROTO_HDR_ICMP = 27"
definition VIRTCHNL2_PROTO_HDR_PAY :: nat where "VIRTCHNL2_PROTO_HDR_PAY = 34"
definition VIRTCHNL2_PROTO_HDR_GRE :: nat where "VIRTCHNL2_PROTO_HDR_GRE = 49"

lemmas proto_ids = VIRTCHNL2_PROTO_HDR_MAC_def VIRTCHNL2_PROTO_HDR_IPV4_def VIRTCHNL2_PROTO_HDR_IPV4_FRAG_def
  VIRTCHNL2_PROTO_HDR_IPV6_def VIRTCHNL2_PROTO_HDR_IPV6_FRAG_def VIRTCHNL2_PROTO_HDR_UDP_def VIRTCHNL2_PROTO_HDR_TCP_def
  VIRTCHNL2_PROTO_HDR_SCTP_def VIRTCHNL2_PROTO_HDR_ICMP_def VIRTCHNL2_PROTO_HDR_PAY_def VIRTCHNL2_PROTO_HDR_GRE_def

lemmas tunnel_bits = IDPF_PTYPE_TUNNEL_IP_def IDPF_PTYPE_TUNNEL_IP_GRENAT_def IDPF_PTYPE_TUNNEL_IP_GRENAT_MAC_def IDPF_TUN_IP_GRE_def

definition idpf_fill_ptype_lookup :: "bool \<Rightarrow> bool \<Rightarrow> rx_ptype \<times> idpf_ptype_state \<Rightarrow> rx_ptype \<times> idpf_ptype_state" where
  "idpf_fill_ptype_lookup ipv4 frag x =
     (case x of (ptype, pstate) \<Rightarrow>
        let ver = (if ipv4 then 1 else 2) in
        if \<not> ps_outer_ip pstate \<or> \<not> ps_outer_frag pstate then
          (let ptype = ptype\<lparr>pt_outer_ip := 1, pt_outer_ip_ver := ver\<rparr>; pstate = pstate\<lparr>ps_outer_ip := True\<rparr>
           in if frag then (ptype\<lparr>pt_outer_frag := True\<rparr>, pstate\<lparr>ps_outer_frag := True\<rparr>) else (ptype, pstate))
        else
          (let ptype = ptype\<lparr>pt_tunnel_type := 1, pt_tunnel_end_prot := ver\<rparr>;
               pstate = pstate\<lparr>ps_tunnel_state := IDPF_PTYPE_TUNNEL_IP\<rparr>
           in (if frag then ptype\<lparr>pt_tunnel_end_frag := True\<rparr> else ptype, pstate)))"

definition parse_protocol_id :: "nat \<Rightarrow> rx_ptype \<times> idpf_ptype_state \<Rightarrow> rx_ptype \<times> idpf_ptype_state" where
  "parse_protocol_id pid x =
     (case x of (rx_pt, pstate) \<Rightarrow>
        if pid = VIRTCHNL2_PROTO_HDR_GRE then
          if ps_tunnel_state pstate = IDPF_PTYPE_TUNNEL_IP
          then (rx_pt\<lparr>pt_tunnel_type := 2\<rparr>, pstate\<lparr>ps_tunnel_state := ps_tunnel_state pstate OR IDPF_PTYPE_TUNNEL_IP_GRENAT\<rparr>)
          else x
        else if pid = VIRTCHNL2_PROTO_HDR_MAC then
          (let rx_pt = rx_pt\<lparr>pt_outer_ip := 0\<rparr>
           in if ps_tunnel_state pstate = IDPF_TUN_IP_GRE
              then (rx_pt\<lparr>pt_tunnel_type := 3\<rparr>, pstate\<lparr>ps_tunnel_state := ps_tunnel_state pstate OR IDPF_PTYPE_TUNNEL_IP_GRENAT_MAC\<rparr>)
              else (rx_pt, pstate))
        else if pid = VIRTCHNL2_PROTO_HDR_IPV4 then idpf_fill_ptype_lookup True False x
        else if pid = VIRTCHNL2_PROTO_HDR_IPV6 then idpf_fill_ptype_lookup False False x
        else if pid = VIRTCHNL2_PROTO_HDR_IPV4_FRAG then idpf_fill_ptype_lookup True True x
        else if pid = VIRTCHNL2_PROTO_HDR_IPV6_FRAG then idpf_fill_ptype_lookup False True x
        else if pid = VIRTCHNL2_PROTO_HDR_UDP then (rx_pt\<lparr>pt_inner_prot := 1\<rparr>, pstate)
        else if pid = VIRTCHNL2_PROTO_HDR_TCP then (rx_pt\<lparr>pt_inner_prot := 2\<rparr>, pstate)
        else if pid = VIRTCHNL2_PROTO_HDR_SCTP then (rx_pt\<lparr>pt_inner_prot := 3\<rparr>, pstate)
        else if pid = VIRTCHNL2_PROTO_HDR_ICMP then (rx_pt\<lparr>pt_inner_prot := 4\<rparr>, pstate)
        else if pid = VIRTCHNL2_PROTO_HDR_PAY then (rx_pt\<lparr>pt_payload_layer := 1\<rparr>, pstate)
        else x)"

definition idpf_parse_protocol_ids :: "nat list \<Rightarrow> rx_ptype \<Rightarrow> rx_ptype" where
  "idpf_parse_protocol_ids ids rx_pt = fst (fold parse_protocol_id ids (rx_pt, ptype_state_zero))"

text \<open>The part of an entry that the receive path reads.\<close>

definition rx_ptype_view :: "rx_ptype \<Rightarrow> idpf_rx_ptype_decoded" where
  "rx_ptype_view p = \<lparr>dec_known = pt_known p, dec_outer_ip = pt_outer_ip p, dec_outer_ip_ver = pt_outer_ip_ver p,
     dec_inner_prot = pt_inner_prot p, dec_payload_layer = pt_payload_layer p\<rparr>"

section \<open>Reading a reply\<close>

definition IDPF_RX_MAX_PTYPE :: nat where "IDPF_RX_MAX_PTYPE = 1024"
definition IDPF_RX_MAX_BASE_PTYPE :: nat where "IDPF_RX_MAX_BASE_PTYPE = 256"
definition IDPF_INVALID_PTYPE_ID :: nat where "IDPF_INVALID_PTYPE_ID = 65535"
definition IDPF_RX_PTYPE_HDR_SZ :: nat where "IDPF_RX_PTYPE_HDR_SZ = 8"
definition IDPF_RX_MAX_PTYPE_SZ :: nat where "IDPF_RX_MAX_PTYPE_SZ = 6 + 2 * (32 - 1)"
definition IDPF_RX_MAX_PTYPES_PER_BUF :: nat where
  "IDPF_RX_MAX_PTYPES_PER_BUF = (4096 - IDPF_RX_PTYPE_HDR_SZ) div IDPF_RX_MAX_PTYPE_SZ"

definition IDPF_GET_PTYPE_SIZE :: "nat \<Rightarrow> nat" where
  "IDPF_GET_PTYPE_SIZE proto_id_count = 6 + 2 * proto_id_count"

definition rd8 :: "u8 list \<Rightarrow> nat \<Rightarrow> nat option" where
  "rd8 buf i = (if i < length buf then Some (unat (buf ! i)) else None)"

definition le16_at :: "u8 list \<Rightarrow> nat \<Rightarrow> nat option" where
  "le16_at buf i =
     (case (rd8 buf i, rd8 buf (i + 1)) of (Some lo, Some hi) \<Rightarrow> Some (lo + 256 * hi) | _ \<Rightarrow> None)"

text \<open>The \<open>n\<close> protocol ids from offset \<open>i\<close> on.\<close>

primrec le16s_at :: "u8 list \<Rightarrow> nat \<Rightarrow> nat \<Rightarrow> nat list option" where
  "le16s_at buf 0 i = Some []"
| "le16s_at buf (Suc n) i =
     (case (le16_at buf i, le16s_at buf n (i + 2)) of (Some x, Some xs) \<Rightarrow> Some (x # xs) | _ \<Rightarrow> None)"

record pt_tables =
  splitq_pt :: "rx_ptype list"
  singleq_pt :: "rx_ptype list"

definition pt_tables_zero :: pt_tables where
  "pt_tables_zero = \<lparr>splitq_pt = replicate IDPF_RX_MAX_PTYPE rx_ptype_zero, singleq_pt = replicate IDPF_RX_MAX_BASE_PTYPE rx_ptype_zero\<rparr>"

text \<open>Repeated types are skipped in the table of the single queue model.\<close>

definition pt_install :: "nat \<Rightarrow> nat \<Rightarrow> nat list \<Rightarrow> pt_tables \<Rightarrow> pt_tables" where
  "pt_install pt_10 pt_8 ids t =
     (let rx_pt = idpf_parse_protocol_ids ids (rx_ptype_zero\<lparr>pt_known := (ids \<noteq> [])\<rparr>);
          t = t\<lparr>splitq_pt := (splitq_pt t)[pt_10 := rx_pt]\<rparr>
      in if pt_8 < IDPF_RX_MAX_BASE_PTYPE \<and> \<not> pt_known (singleq_pt t ! pt_8)
         then t\<lparr>singleq_pt := (singleq_pt t)[pt_8 := rx_pt]\<rparr> else t)"

text \<open>How the loop over the entries of a reply ends: the next round, the end of all types, or an error.\<close>

datatype pt_result = PtNext pt_tables | PtOut pt_tables | PtErr errno

primrec ptype_entries :: "u8 list \<Rightarrow> nat \<Rightarrow> nat \<Rightarrow> pt_tables \<Rightarrow> pt_result option" where
  "ptype_entries buf 0 ofs t = Some (PtNext t)"
| "ptype_entries buf (Suc n) ofs t =
     (case (le16_at buf ofs, rd8 buf (ofs + 2), rd8 buf (ofs + 3)) of
        (Some pt_10, Some pt_8, Some proto_id_count) \<Rightarrow>
          let ofs' = ofs + IDPF_GET_PTYPE_SIZE proto_id_count in
          if ofs' > 4096 then Some (PtErr EINVAL)
          else if pt_10 = IDPF_INVALID_PTYPE_ID then Some (PtOut t)
          else if pt_10 \<ge> IDPF_RX_MAX_PTYPE then Some (PtErr EINVAL)
          else (case le16s_at buf proto_id_count (ofs + 6) of
                  None \<Rightarrow> None
                | Some ids \<Rightarrow> ptype_entries buf n ofs' (pt_install pt_10 pt_8 ids t))
      | _ \<Rightarrow> None)"

section \<open>Asking for the types\<close>

definition pt_num :: "nat \<Rightarrow> nat" where
  "pt_num next_ptype_id =
     (if next_ptype_id + IDPF_RX_MAX_PTYPES_PER_BUF > IDPF_RX_MAX_PTYPE then IDPF_RX_MAX_PTYPE - next_ptype_id
      else IDPF_RX_MAX_PTYPES_PER_BUF)"

lemma pt_num_pos: "n < IDPF_RX_MAX_PTYPE \<Longrightarrow> 0 < pt_num n"
  by (auto simp: pt_num_def IDPF_RX_MAX_PTYPES_PER_BUF_def IDPF_RX_PTYPE_HDR_SZ_def IDPF_RX_MAX_PTYPE_SZ_def)

text \<open>
  The rounds: \<open>reply k\<close> is the answer in round \<open>k\<close>, at most as long as the buffer; the messages sent are
  the starts and numbers of types.  Whatever the error of a message, \<open>-EINVAL\<close> is returned.
\<close>

function ptype_rounds ::
  "(nat \<Rightarrow> errno + u8 list) \<Rightarrow> nat \<Rightarrow> nat \<Rightarrow> nat \<Rightarrow> u8 list \<Rightarrow> pt_tables \<Rightarrow> (pt_result \<times> (nat \<times> nat) list) option" where
  "ptype_rounds reply k next_ptype_id ptypes_recvd buf t =
     (if \<not> next_ptype_id < IDPF_RX_MAX_PTYPE then Some (PtNext t, [])
      else
        let msg = (next_ptype_id, pt_num next_ptype_id) in
        case reply k of
          Inl e \<Rightarrow> Some (PtErr EINVAL, [msg])
        | Inr bytes \<Rightarrow>
            let buf = take 4096 bytes @ drop (length bytes) buf in
            (case le16_at buf 2 of
               None \<Rightarrow> None
             | Some num_ptypes \<Rightarrow>
                 if ptypes_recvd + num_ptypes > IDPF_RX_MAX_PTYPE then Some (PtErr EINVAL, [msg])
                 else (case ptype_entries buf num_ptypes IDPF_RX_PTYPE_HDR_SZ t of
                         None \<Rightarrow> None
                       | Some (PtNext t) \<Rightarrow>
                           map_option (\<lambda>(r, msgs). (r, msg # msgs))
                             (ptype_rounds reply (Suc k) (next_ptype_id + pt_num next_ptype_id) (ptypes_recvd + num_ptypes) buf t)
                       | Some r \<Rightarrow> Some (r, [msg]))))"
  by pat_completeness auto

termination
  by (relation "measure (\<lambda>(reply, k, n, c, buf, t). IDPF_RX_MAX_PTYPE - n)") (simp_all add: pt_num_pos diff_less_mono2)

text \<open>
  The whole function; the second result has the tables that the adapter keeps and their objects, in the
  order split queue, single queue.
\<close>

definition idpf_send_get_rx_ptype_msg ::
  "(nat \<Rightarrow> errno + u8 list) \<Rightarrow> idpf_world \<Rightarrow> (ret \<times> (ptr \<times> ptr \<times> pt_tables) option \<times> idpf_world) option" where
  "idpf_send_get_rx_ptype_msg reply w =
     (case kcalloc w of (singleq, w) \<Rightarrow>
        if singleq = NULL then Some (Some ENOMEM, None, w)
        else case kcalloc w of (splitq, w) \<Rightarrow>
          if splitq = NULL then Some (Some ENOMEM, None, kfree singleq w)
          else case kcalloc w of (get_ptype_info, w) \<Rightarrow>
            if get_ptype_info = NULL then Some (Some ENOMEM, None, kfree singleq (kfree splitq w))
            else case kcalloc w of (ptype_info, w) \<Rightarrow>
              if ptype_info = NULL then Some (Some ENOMEM, None, kfree singleq (kfree splitq (kfree get_ptype_info w)))
              else case ptype_rounds reply 0 0 0 (replicate 4096 0) pt_tables_zero of
                None \<Rightarrow> None
              | Some (PtErr e, _) \<Rightarrow>
                  Some (Some e, None, kfree singleq (kfree splitq (kfree get_ptype_info (kfree ptype_info w))))
              | Some (PtNext t, _) \<Rightarrow> Some (ret_ok, Some (splitq, singleq, t), kfree get_ptype_info (kfree ptype_info w))
              | Some (PtOut t, _) \<Rightarrow> Some (ret_ok, Some (splitq, singleq, t), kfree get_ptype_info (kfree ptype_info w)))"

end
