(* ===== verification/Idpf_Ptype_Results.thy ===== *)
theory Idpf_Ptype_Results
  imports Idpf_Ptype Idpf_Controlq_Leak
begin

text \<open>
  What the driver decodes is what the device encoded.  The encoding of the replies is the specification of
  the message in \<open>virtchnl2.h\<close>; the tables are described by installing the types one after the other.
\<close>

section \<open>The encoding of a reply\<close>

record ptype_desc =
  pd_id_10 :: nat
  pd_id_8 :: nat
  pd_protos :: "nat list"

definition enc16 :: "nat \<Rightarrow> u8 list" where
  "enc16 n = [of_nat (n mod 256), of_nat (n div 256)]"

definition enc_ptype :: "ptype_desc \<Rightarrow> u8 list" where
  "enc_ptype d = enc16 (pd_id_10 d) @ [of_nat (pd_id_8 d), of_nat (length (pd_protos d)), 0, 0] @ concat (map enc16 (pd_protos d))"

definition enc_reply :: "nat \<Rightarrow> ptype_desc list \<Rightarrow> u8 list" where
  "enc_reply start ds = enc16 start @ enc16 (length ds) @ [0, 0, 0, 0] @ concat (map enc_ptype ds)"

definition wf_ptype :: "ptype_desc \<Rightarrow> bool" where
  "wf_ptype d \<longleftrightarrow> pd_id_10 d < 65536 \<and> pd_id_8 d < 256 \<and> length (pd_protos d) < 256 \<and> (\<forall>p \<in> set (pd_protos d). p < 65536)"

lemma length_enc16 [simp]: "length (enc16 n) = 2"
  by (simp add: enc16_def)

lemma length_enc_ptype: "length (enc_ptype d) = 6 + 2 * length (pd_protos d)"
  by (simp add: enc_ptype_def length_concat comp_def sum_list_triv)

lemma rd8_append:
  "i < length xs \<Longrightarrow> rd8 (xs @ ys) i = rd8 xs i"
  "length xs \<le> i \<Longrightarrow> rd8 (xs @ ys) i = rd8 ys (i - length xs)"
  by (auto simp: rd8_def nth_append)

lemma le16_at_skip: "length xs \<le> i \<Longrightarrow> le16_at (xs @ ys) i = le16_at ys (i - length xs)"
  by (simp add: le16_at_def rd8_append Suc_diff_le)

lemma unat_u8: "unat (of_nat n :: u8) = n mod 256"
  by (simp add: unat_of_nat)

lemma le16_at_enc: "n < 65536 \<Longrightarrow> le16_at (enc16 n @ ys) 0 = Some n"
  by (simp add: le16_at_def rd8_def enc16_def unat_u8 nth_append)

lemma le16s_at_enc:
  "\<forall>n \<in> set ns. n < 65536 \<Longrightarrow> le16s_at (xs @ concat (map enc16 ns) @ ys) (length ns) (length xs) = Some ns"
proof (induction ns arbitrary: xs)
  case (Cons n ns)
  have "le16s_at ((xs @ enc16 n) @ concat (map enc16 ns) @ ys) (length ns) (length (xs @ enc16 n)) = Some ns"
    using Cons.IH [of "xs @ enc16 n"] Cons.prems by simp
  moreover have "le16_at (xs @ enc16 n @ concat (map enc16 ns) @ ys) (length xs) = Some n"
    using le16_at_skip [of xs "length xs"] le16_at_enc [of n] Cons.prems by simp
  ultimately show ?case by simp
qed simp

text \<open>The fields of an entry that starts behind \<open>xs\<close>.\<close>

lemma entry_fields:
  assumes "wf_ptype d" and "buf = xs @ enc_ptype d @ ys"
  shows "le16_at buf (length xs) = Some (pd_id_10 d)" "rd8 buf (length xs + 2) = Some (pd_id_8 d)"
    "rd8 buf (length xs + 3) = Some (length (pd_protos d))"
    "le16s_at buf (length (pd_protos d)) (length xs + 6) = Some (pd_protos d)"
proof -
  show "le16_at buf (length xs) = Some (pd_id_10 d)"
    using assms le16_at_skip [of xs "length xs"] le16_at_enc [of "pd_id_10 d"] by (simp add: wf_ptype_def enc_ptype_def)
  show "rd8 buf (length xs + 2) = Some (pd_id_8 d)" "rd8 buf (length xs + 3) = Some (length (pd_protos d))"
    using assms by (auto simp: rd8_append enc_ptype_def enc16_def wf_ptype_def unat_u8 rd8_def nth_append)
  show "le16s_at buf (length (pd_protos d)) (length xs + 6) = Some (pd_protos d)"
    using assms le16s_at_enc [of "pd_protos d" "xs @ enc16 (pd_id_10 d) @ [of_nat (pd_id_8 d), of_nat (length (pd_protos d)), 0, 0]" ys]
    by (simp add: wf_ptype_def enc_ptype_def)
qed

section \<open>Decoding\<close>

primrec pt_spec :: "ptype_desc list \<Rightarrow> pt_tables \<Rightarrow> pt_result" where
  "pt_spec [] t = PtNext t"
| "pt_spec (d # ds) t =
     (if pd_id_10 d = IDPF_INVALID_PTYPE_ID then PtOut t
      else if IDPF_RX_MAX_PTYPE \<le> pd_id_10 d then PtErr EINVAL
      else pt_spec ds (pt_install (pd_id_10 d) (pd_id_8 d) (pd_protos d) t))"

lemma pt_spec_append: "pt_spec (xs @ ys) t = (case pt_spec xs t of PtNext t \<Rightarrow> pt_spec ys t | r \<Rightarrow> r)"
  by (induction xs arbitrary: t) auto

lemma entries_decode:
  assumes "\<forall>d \<in> set ds. wf_ptype d" and "length (xs @ concat (map enc_ptype ds)) \<le> 4096"
  shows "ptype_entries (xs @ concat (map enc_ptype ds) @ ys) (length ds) (length xs) t = Some (pt_spec ds t)"
  using assms
proof (induction ds arbitrary: xs t)
  case (Cons d ds)
  have wf: "wf_ptype d" using Cons.prems(1) by simp
  note f = entry_fields [OF wf refl, of xs "concat (map enc_ptype ds) @ ys"]
  have sz: "length xs + IDPF_GET_PTYPE_SIZE (length (pd_protos d)) = length (xs @ enc_ptype d)"
    by (simp add: IDPF_GET_PTYPE_SIZE_def length_enc_ptype)
  have le: "\<not> 4096 < length (xs @ enc_ptype d)" using Cons.prems(2) by simp
  have "ptype_entries ((xs @ enc_ptype d) @ concat (map enc_ptype ds) @ ys) (length ds) (length (xs @ enc_ptype d)) t' = Some (pt_spec ds t')" for t'
    using Cons.IH [of "xs @ enc_ptype d"] Cons.prems by simp
  then show ?case using f sz le by (simp add: Let_def)
qed simp

lemma reply_header:
  assumes "length ds < 65536"
  shows "le16_at (enc_reply start ds @ ys) 2 = Some (length ds)"
  using le16_at_skip [of "enc16 start" 2] le16_at_enc [OF assms] by (simp add: enc_reply_def)

lemma reply_decodes:
  assumes "\<forall>d \<in> set ds. wf_ptype d" and "length (enc_reply start ds) \<le> 4096"
  shows "ptype_entries (enc_reply start ds @ ys) (length ds) IDPF_RX_PTYPE_HDR_SZ t = Some (pt_spec ds t)"
  using entries_decode [of ds "enc16 start @ enc16 (length ds) @ [0, 0, 0, 0]" ys t] assms
  by (simp add: enc_reply_def IDPF_RX_PTYPE_HDR_SZ_def)

text \<open>The number of rounds from \<open>n\<close> on.\<close>

definition pt_rounds :: "nat \<Rightarrow> nat" where
  "pt_rounds n = (IDPF_RX_MAX_PTYPE - n + 59) div 60"

lemma pt_rounds_step:
  assumes "n < IDPF_RX_MAX_PTYPE"
  shows "pt_rounds n = Suc (pt_rounds (n + pt_num n))"
proof -
  have b: "IDPF_RX_MAX_PTYPES_PER_BUF = 60"
    by (simp add: IDPF_RX_MAX_PTYPES_PER_BUF_def IDPF_RX_PTYPE_HDR_SZ_def IDPF_RX_MAX_PTYPE_SZ_def)
  show ?thesis
  proof (cases "n + 60 > IDPF_RX_MAX_PTYPE")
    case True
    then show ?thesis using assms b by (simp add: pt_num_def pt_rounds_def div_eq_0_iff) (simp add: div_nat_eqI)
  next
    case False
    then have e: "IDPF_RX_MAX_PTYPE - n + 59 = 60 + (IDPF_RX_MAX_PTYPE - (n + 60) + 59)" by simp
    have "pt_rounds n = Suc (pt_rounds (n + 60))" unfolding pt_rounds_def e by simp
    then show ?thesis using False b by (simp add: pt_num_def)
  qed
qed

text \<open>
  What the replies number \<open>k\<close> to \<open>k + n - 1\<close> amount to, with \<open>c\<close> types before them: \<open>E\<close> has the messages
  that fail, \<open>D\<close> the types of the others.
\<close>

primrec pt_replies :: "(nat \<Rightarrow> errno option) \<Rightarrow> (nat \<Rightarrow> ptype_desc list) \<Rightarrow> nat \<Rightarrow> nat \<Rightarrow> nat \<Rightarrow> pt_tables \<Rightarrow> pt_result" where
  "pt_replies E D 0 k c t = PtNext t"
| "pt_replies E D (Suc n) k c t =
     (if E k \<noteq> None \<or> c + length (D k) > IDPF_RX_MAX_PTYPE then PtErr EINVAL
      else case pt_spec (D k) t of
        PtNext t \<Rightarrow> pt_replies E D n (Suc k) (c + length (D k)) t
      | r \<Rightarrow> r)"

lemma pt_spec_err: "pt_spec ds t = PtErr e \<Longrightarrow> e = EINVAL"
  by (induction ds arbitrary: t) (auto split: if_splits)

lemma pt_replies_err: "pt_replies E D n k c t = PtErr e \<Longrightarrow> e = EINVAL"
  by (induction n arbitrary: k c t) (auto dest: pt_spec_err split: if_splits pt_result.splits)

lemma enc_reply_length: "length ds \<le> length (enc_reply s ds)"
proof -
  have "length ds \<le> length (concat (map enc_ptype ds))" by (induction ds) (auto simp: length_enc_ptype)
  then show ?thesis by (simp add: enc_reply_def)
qed

lemma pt_replies_all:
  assumes "\<forall>i < n. E (k + i) = None" and "c + length (concat (map D [k..<k + n])) \<le> IDPF_RX_MAX_PTYPE"
  shows "pt_replies E D n k c t = pt_spec (concat (map D [k..<k + n])) t"
  using assms
proof (induction n arbitrary: k c t)
  case (Suc n)
  have ds: "concat (map D [k..<k + Suc n]) = D k @ concat (map D [Suc k..<Suc k + n])"
    using upt_conv_Cons [of k "k + Suc n"] by (simp del: upt_Suc)
  have "\<forall>i < n. E (Suc k + i) = None" "E k = None"
    using Suc.prems(1) by (metis Suc_less_eq add_Suc_shift, metis add_0_right zero_less_Suc)
  then show ?case
    using Suc.IH [of "Suc k" "c + length (D k)"] Suc.prems(2) unfolding ds
    by (auto simp: pt_spec_append add.assoc split: pt_result.split)
qed simp

lemma rounds_decode:
  assumes "\<forall>k. (\<forall>d \<in> set (D k). wf_ptype d) \<and> length (enc_reply (S k) (D k)) \<le> 4096"
    and "reply = (\<lambda>k. case E k of Some e \<Rightarrow> Inl e | None \<Rightarrow> Inr (enc_reply (S k) (D k)))" and "length buf = 4096"
  shows "\<exists>msgs. ptype_rounds reply k n c buf t = Some (pt_replies E D (pt_rounds n) k c t, msgs)"
  using assms(2-)
proof (induction reply k n c buf t rule: ptype_rounds.induct)
  case (1 reply k n c buf t)
  show ?case
  proof (cases "n < IDPF_RX_MAX_PTYPE \<and> E k = None")
    case False
    then show ?thesis using pt_rounds_step [of n] "1.prems"(1) by (cases "n < IDPF_RX_MAX_PTYPE") (auto simp: pt_rounds_def [of n])
  next
    case True
    let ?r = "enc_reply (S k) (D k)" and ?b = "take 4096 (enc_reply (S k) (D k)) @ drop (length (enc_reply (S k) (D k))) buf"
    have b: "?b = ?r @ drop (length ?r) buf" "length ?b = 4096" using assms(1) "1.prems"(2) by auto
    have rk: "reply k = Inr ?r" using True "1.prems"(1) by simp
    have "length ?r \<le> 4096" using assms(1) by blast
    then have "length (D k) < 65536" using enc_reply_length [of "D k" "S k"] by simp
    then have h: "le16_at ?b 2 = Some (length (D k))" using reply_header b(1) by simp
    have e: "ptype_entries ?b (length (D k)) IDPF_RX_PTYPE_HDR_SZ t = Some (pt_spec (D k) t)"
      using reply_decodes [of "D k" "S k"] assms(1) b(1) by simp
    note step = pt_rounds_step [OF conjunct1 [OF True]]
    show ?thesis
    proof (cases "c + length (D k) > IDPF_RX_MAX_PTYPE")
      case False
      then have len: "c + length (D k) \<le> IDPF_RX_MAX_PTYPE" by simp
      show ?thesis
      proof (cases "pt_spec (D k) t")
        case (PtNext t')
        have "\<exists>msgs. ptype_rounds reply (Suc k) (n + pt_num n) (c + length (D k)) ?b t' =
            Some (pt_replies E D (pt_rounds (n + pt_num n)) (Suc k) (c + length (D k)) t', msgs)"
          using "1.IH" [OF _ refl, of ?r ?b "length (D k)" "PtNext t'" t'] True rk "1.prems"(1) h e PtNext len b(2) by simp
        then show ?thesis using True rk h e PtNext len step by (auto simp: Let_def)
      qed (use True rk h e len step in \<open>auto simp: Let_def\<close>)
    qed (use True rk h step in \<open>auto simp: Let_def\<close>)
  qed
qed

section \<open>Properties\<close>

text \<open>Four allocations in a row, and what is left of them.\<close>

lemma kcalloc_owns: "kcalloc w = (p, w') \<Longrightarrow> p \<noteq> NULL \<Longrightarrow> owns w0 K {} w \<Longrightarrow> owns w0 (insert p K) {} w' \<and> p \<notin> K"
  by (erule kcallocE) (auto dest: owns_trans)

lemma kcalloc_fails: "kcalloc w = (NULL, w') \<Longrightarrow> owns w0 K {} w \<Longrightarrow> owns w0 K {} w'"
  by (erule kcallocE) (auto dest: owns_trans(1))

lemma kfree_drops: "owns w0 K {} w \<Longrightarrow> p \<in> K \<Longrightarrow> p \<noteq> NULL \<Longrightarrow> owns w0 (K - {p}) {} (kfree p w)"
  using kfree_owns [of w0 p "K - {p}" "{}" w] by (simp add: insert_absorb)

primrec kcallocs_fail :: "nat \<Rightarrow> idpf_world \<Rightarrow> bool" where
  "kcallocs_fail 0 w = False"
| "kcallocs_fail (Suc n) w = (case kcalloc w of (p, w') \<Rightarrow> p = NULL \<or> kcallocs_fail n w')"

lemma ptype_no_memory:
  assumes 1: "kcalloc w = (a, w1)" and 2: "kcalloc w1 = (b, w2)" and 3: "kcalloc w2 = (c, w3)" and 4: "kcalloc w3 = (d, w4)"
    and "a = NULL \<or> b = NULL \<or> c = NULL \<or> d = NULL"
  shows "\<exists>w'. idpf_send_get_rx_ptype_msg reply w = Some (Some ENOMEM, None, w') \<and> owns w {} {} w'"
proof -
  note unfold = idpf_send_get_rx_ptype_msg_def 1 2 3 4
  consider (a) "a = NULL" | (b) "a \<noteq> NULL" "b = NULL" | (c) "a \<noteq> NULL" "b \<noteq> NULL" "c = NULL"
    | (d) "a \<noteq> NULL" "b \<noteq> NULL" "c \<noteq> NULL" "d = NULL" using assms(5) by blast
  then show ?thesis
  proof cases
    case a
    then show ?thesis using kcalloc_fails [of w w1 w "{}"] 1 by (simp add: unfold)
  next
    case b
    have "owns w {a} {} w2" using b kcalloc_owns [OF 1, of w "{}"] kcalloc_fails [of w1 w2 w "{a}"] 2 by simp
    then show ?thesis using b kfree_drops [of w "{a}" w2 a] by (simp add: unfold)
  next
    case c
    have o: "owns w {b, a} {} w3" "a \<noteq> b"
      using c kcalloc_owns [OF 1, of w "{}"] kcalloc_owns [OF 2, of w "{a}"] kcalloc_fails [of w2 w3 w "{b, a}"] 3 by auto
    then have "owns w {} {} (kfree a (kfree b w3))"
      using c kfree_drops [OF o(1), of b] kfree_drops [of w "{a}" "kfree b w3" a] by (auto simp: insert_Diff_if)
    then show ?thesis using c by (simp add: unfold)
  next
    case d
    have o: "owns w {c, b, a} {} w4" "distinct [a, b, c]"
      using d kcalloc_owns [OF 1, of w "{}"] kcalloc_owns [OF 2, of w "{a}"] kcalloc_owns [OF 3, of w "{b, a}"] kcalloc_fails [of w3 w4 w "{c, b, a}"] 4 by auto
    then have "owns w {} {} (kfree a (kfree b (kfree c w4)))"
      using d kfree_drops [OF o(1), of c] kfree_drops [of w "{b, a}" "kfree c w4" b] kfree_drops [of w "{a}" "kfree b (kfree c w4)" a]
      by (auto simp: insert_Diff_if)
    then show ?thesis using d by (simp add: unfold)
  qed
qed

text \<open>Whatever the rounds end with, if they end.\<close>

lemma ptype_balanced:
  "case idpf_send_get_rx_ptype_msg reply w of
     None \<Rightarrow> ptype_rounds reply 0 0 0 (replicate 4096 0) pt_tables_zero = None
   | Some (err, None, w') \<Rightarrow> owns w {} {} w' \<and> (if kcallocs_fail 4 w then err = Some ENOMEM
       else (\<exists>e msgs. err = Some e \<and> ptype_rounds reply 0 0 0 (replicate 4096 0) pt_tables_zero = Some (PtErr e, msgs)))
   | Some (err, Some (sp, sg, t), w') \<Rightarrow> \<not> kcallocs_fail 4 w \<and> err = ret_ok \<and> sp \<noteq> sg \<and> owns w {sp, sg} {} w' \<and>
       (\<exists>msgs r. ptype_rounds reply 0 0 0 (replicate 4096 0) pt_tables_zero = Some (r, msgs) \<and> r \<in> {PtNext t, PtOut t})"
proof -
  obtain a w1 where 1: "kcalloc w = (a, w1)" by fastforce
  obtain b w2 where 2: "kcalloc w1 = (b, w2)" by fastforce
  obtain c w3 where 3: "kcalloc w2 = (c, w3)" by fastforce
  obtain d w4 where 4: "kcalloc w3 = (d, w4)" by fastforce
  note unfold = idpf_send_get_rx_ptype_msg_def 1 2 3 4
  have m: "kcallocs_fail 4 w = (a = NULL \<or> b = NULL \<or> c = NULL \<or> d = NULL)" by (simp add: eval_nat_numeral 1 2 3 4)
  show ?thesis
  proof (cases "a = NULL \<or> b = NULL \<or> c = NULL \<or> d = NULL")
    case True
    then show ?thesis using ptype_no_memory [OF 1 2 3 4, of reply] m by auto
  next
    case False
    have o: "owns w {d, c, b, a} {} w4" "distinct [a, b, c, d]"
      using False kcalloc_owns [OF 1, of w "{}"] kcalloc_owns [OF 2, of w "{a}"] kcalloc_owns [OF 3, of w "{b, a}"] kcalloc_owns [OF 4, of w "{c, b, a}"] by auto
    have k: "owns w {b, a} {} (kfree c (kfree d w4))"
      using kfree_drops [OF o(1), of d] kfree_drops [of w "{c, b, a}" "kfree d w4" c] o(2) False by (auto simp: insert_Diff_if)
    then have n: "owns w {} {} (kfree a (kfree b (kfree c (kfree d w4))))"
      using kfree_drops [OF k, of b] kfree_drops [of w "{a}" _ a] o(2) False by (auto simp: insert_Diff_if)
    show ?thesis using False k n o(2) m
      by (cases "ptype_rounds reply 0 0 0 (replicate 4096 0) pt_tables_zero") (auto simp: unfold split: pt_result.split prod.split)
  qed
qed


definition demo_ptypes :: "nat \<Rightarrow> ptype_desc list" where
  "demo_ptypes k = (if k = 0 then [\<lparr>pd_id_10 = 5, pd_id_8 = 3, pd_protos = [2, 19, 25]\<rparr>, \<lparr>pd_id_10 = 65535, pd_id_8 = 0, pd_protos = []\<rparr>] else [])"

definition demo_pt_world :: idpf_world where
  "demo_pt_world = \<lparr>live = {}, dma_live = {}, kscript = [1, 2, 3, 4], dscript = [], bad_free = False, dmas = undefined, cqs = undefined, hw = undefined\<rparr>"


text \<open>
  A tunnel is only recognised behind a fragment: the first header that is not a fragment leaves
  \<open>outer_frag\<close> clear, so that every later IP header is taken for the outer one again.
\<close>

lemma no_frag_step:
  assumes "pid \<noteq> VIRTCHNL2_PROTO_HDR_IPV4_FRAG" and "pid \<noteq> VIRTCHNL2_PROTO_HDR_IPV6_FRAG"
    and "\<not> ps_outer_frag (snd x)" and "ps_tunnel_state (snd x) = 0" and "parse_protocol_id pid x = y"
  shows "\<not> ps_outer_frag (snd y) \<and> ps_tunnel_state (snd y) = 0 \<and> pt_tunnel_type (fst y) = pt_tunnel_type (fst x)"
  using assms by (auto simp: parse_protocol_id_def idpf_fill_ptype_lookup_def proto_ids tunnel_bits Let_def split: prod.splits if_splits)

lemma no_frag_fold:
  assumes "VIRTCHNL2_PROTO_HDR_IPV4_FRAG \<notin> set ids" and "VIRTCHNL2_PROTO_HDR_IPV6_FRAG \<notin> set ids"
    and "\<not> ps_outer_frag (snd x)" and "ps_tunnel_state (snd x) = 0"
  shows "pt_tunnel_type (fst (fold parse_protocol_id ids x)) = pt_tunnel_type (fst x)"
  using assms
proof (induction ids arbitrary: x)
  case (Cons i ids)
  then show ?case using no_frag_step [of i x "parse_protocol_id i x"] by auto
qed simp

theorem no_tunnel_without_fragment:
  assumes "VIRTCHNL2_PROTO_HDR_IPV4_FRAG \<notin> set ids" and "VIRTCHNL2_PROTO_HDR_IPV6_FRAG \<notin> set ids"
  shows "pt_tunnel_type (idpf_parse_protocol_ids ids (rx_ptype_zero\<lparr>pt_known := b\<rparr>)) = 0"
  using no_frag_fold [OF assms, of "(rx_ptype_zero\<lparr>pt_known := b\<rparr>, ptype_state_zero)"]
  by (simp add: idpf_parse_protocol_ids_def ptype_state_zero_def rx_ptype_zero_def)

text \<open>An IPv6 packet in an IPv4 tunnel through GRE is taken for a plain IPv6 packet.\<close>

theorem gre_tunnel_not_recognised:
  "idpf_parse_protocol_ids [2, 19, 49, 21, 25, 34] (rx_ptype_zero\<lparr>pt_known := True\<rparr>) =
     rx_ptype_zero\<lparr>pt_known := True, pt_outer_ip := 1, pt_outer_ip_ver := 2, pt_inner_prot := 2, pt_payload_layer := 1\<rparr>"
  by (simp add: idpf_parse_protocol_ids_def parse_protocol_id_def idpf_fill_ptype_lookup_def proto_ids tunnel_bits ptype_state_zero_def rx_ptype_zero_def)

text \<open>
  The entry is read before the offset is checked: a reply that fills the buffer exactly and claims one more
  entry makes the driver read behind the buffer.
\<close>

theorem full_reply_read_beyond:
  assumes "\<forall>d \<in> set ds. wf_ptype d \<and> pd_id_10 d < IDPF_RX_MAX_PTYPE" and "length xs + length (concat (map enc_ptype ds)) = 4096"
  shows "ptype_entries (xs @ concat (map enc_ptype ds)) (Suc (length ds)) (length xs) t = None"
  using assms
proof (induction ds arbitrary: xs t)
  case Nil
  then show ?case by (simp add: le16_at_def rd8_def)
next
  case (Cons d ds)
  have wf: "wf_ptype d" using Cons.prems(1) by simp
  note f = entry_fields [OF wf refl, of xs "concat (map enc_ptype ds)"]
  have sz: "length xs + IDPF_GET_PTYPE_SIZE (length (pd_protos d)) = length (xs @ enc_ptype d)"
    by (simp add: IDPF_GET_PTYPE_SIZE_def length_enc_ptype)
  have le: "\<not> 4096 < length (xs @ enc_ptype d)" using Cons.prems(2) by simp
  have "ptype_entries ((xs @ enc_ptype d) @ concat (map enc_ptype ds)) (Suc (length ds)) (length (xs @ enc_ptype d)) t' = None" for t'
    using Cons.IH [of "xs @ enc_ptype d"] Cons.prems by simp
  moreover have "pd_id_10 d \<noteq> IDPF_INVALID_PTYPE_ID" "\<not> IDPF_RX_MAX_PTYPE \<le> pd_id_10 d"
    using Cons.prems(1) by (auto simp: IDPF_RX_MAX_PTYPE_def IDPF_INVALID_PTYPE_ID_def)
  ultimately show ?case using f sz le by (simp add: Let_def del: ptype_entries.simps(1))
qed

end
