(* ===== verification/Idpf_Rss.thy ===== *)
theory Idpf_Rss
  imports Idpf_Vport_Msgs
begin

text \<open>
  Receive side scaling: the hash key and the table that spreads packets over receive queues
  (\<open>idpf_virtchnl.c\<close>, \<open>idpf_txrx.c\<close>, \<open>idpf_lib.c\<close> and the ethtool operations).

  The three arrays of \<open>idpf_rss_data\<close> are pairs of an object and its contents, which count only while the
  object is not \<open>NULL\<close>.  As a result \<open>None\<close> stands for an access through \<open>NULL\<close>, beyond the end of an
  array, or a division by zero.
\<close>

section \<open>Data\<close>

record idpf_rss_data =
  rss_hash :: u64
  rss_key_size :: nat
  rss_key :: "ptr \<times> u8 list"
  rss_lut_size :: nat
  rss_lut :: "ptr \<times> u32 list"
  cached_lut :: "ptr \<times> u32 list"

text \<open>The first \<open>n\<close> elements of an array.\<close>

definition arr_take :: "nat \<Rightarrow> ptr \<times> 'a list \<Rightarrow> 'a list option" where
  "arr_take n a = (if n = 0 then Some [] else if fst a = NULL \<or> length (snd a) < n then None else Some (take n (snd a)))"

text \<open>The array after the first elements were overwritten by \<open>xs\<close>.\<close>

definition arr_put :: "'a list \<Rightarrow> ptr \<times> 'a list \<Rightarrow> (ptr \<times> 'a list) option" where
  "arr_put xs a = (if xs = [] then Some a else if fst a = NULL \<or> length (snd a) < length xs then None
     else Some (fst a, xs @ drop (length xs) (snd a)))"

section \<open>Messages\<close>

text \<open>\<open>got\<close> is \<open>ptype_groups\<close> of the reply.\<close>

definition idpf_send_get_set_rss_hash_msg ::
  "u64 \<Rightarrow> u32 \<Rightarrow> bool \<Rightarrow> idpf_rss_data \<Rightarrow> vc_st \<Rightarrow> ret \<times> idpf_rss_data \<times> vc_st" where
  "idpf_send_get_set_rss_hash_msg got vport_id is_get rd s =
     (case vc_xn (RssHash is_get vport_id (rss_hash rd)) s of
        (Inl e, s) \<Rightarrow> (Some e, rd, s)
      | (Inr reply_sz, s) \<Rightarrow>
          if \<not> is_get then (ret_ok, rd, s)
          else if reply_sz < 16 then (Some EIO, rd, s)
          else (ret_ok, rd\<lparr>rss_hash := got\<rparr>, s))"

text \<open>
  \<open>memcpy\<close> of \<open>n\<close> bytes between arrays of little endian 32 bit words: whole words, then part of one.
\<close>

definition memcpy_u32 :: "nat \<Rightarrow> (nat \<Rightarrow> u32) \<Rightarrow> u32 list \<Rightarrow> u32 list" where
  "memcpy_u32 n src dst =
     map (\<lambda>i. if 4 * (i + 1) \<le> n then src i else if n \<le> 4 * i then dst ! i
              else (src i AND mask (8 * (n - 4 * i))) OR (dst ! i AND NOT (mask (8 * (n - 4 * i))))) [0..<length dst]"

record rss_lut_reply =
  lr_lut_entries :: nat
  lr_lut :: "nat \<Rightarrow> u32"

text \<open>
  \<open>rxhash\<close> is the feature of the vport with this id, if there is one.  A reply too short leaves without
  freeing the reply buffer; the copy has as many bytes as the table has entries.
\<close>

definition idpf_send_get_set_rss_lut_msg ::
  "rss_lut_reply \<Rightarrow> bool option \<Rightarrow> u32 \<Rightarrow> bool \<Rightarrow> idpf_rss_data \<Rightarrow> vc_st \<Rightarrow> (ret \<times> idpf_rss_data \<times> vc_st) option" where
  "idpf_send_get_set_rss_lut_msg m rxhash vport_id is_get rd s =
     (case rxhash of None \<Rightarrow> Some (Some EINVAL, rd, s)
      | Some rxhash_ena \<Rightarrow>
        (case kcalloc (vs_world s) of (rl, w) \<Rightarrow>
           let s = s\<lparr>vs_world := w\<rparr> in
           if rl = NULL then Some (Some ENOMEM, rd, s)
           else if \<not> is_get then
             (case arr_take (rss_lut_size rd) (rss_lut rd) of None \<Rightarrow> None
              | Some lut \<Rightarrow>
                  (case vc_exec (RssLut False vport_id (if rxhash_ena then lut else map (\<lambda>_. 0) lut)) s of
                     (err, s) \<Rightarrow> Some (err, rd, s\<lparr>vs_world := kfree rl (vs_world s)\<rparr>)))
           else case kcalloc (vs_world s) of (recv_rl, w) \<Rightarrow>
             let s = s\<lparr>vs_world := w\<rparr> in
             if recv_rl = NULL then Some (Some ENOMEM, rd, s\<lparr>vs_world := kfree rl (vs_world s)\<rparr>)
             else (case vc_xn (RssLut True vport_id (replicate (rss_lut_size rd) 0)) s of (reply_sz, s) \<Rightarrow>
               let s = s\<lparr>vs_world := kfree rl (vs_world s)\<rparr>; rel = (\<lambda>s. s\<lparr>vs_world := kfree recv_rl (vs_world s)\<rparr>) in
               case reply_sz of Inl e \<Rightarrow> Some (Some e, rd, s)
               | Inr reply_sz \<Rightarrow>
                   if reply_sz < 12 then Some (Some EIO, rd, s)
                   else if reply_sz < 4 * lr_lut_entries m then Some (Some EIO, rd, s)
                   else if rss_lut_size rd = lr_lut_entries m then
                     if fst (rss_lut rd) = NULL \<and> rss_lut_size rd \<noteq> 0 then None
                     else Some (ret_ok, rd\<lparr>rss_lut := apsnd (memcpy_u32 (rss_lut_size rd) (lr_lut m)) (rss_lut rd)\<rparr>, rel s)
                   else (case kcalloc (kfree (fst (rss_lut rd)) (vs_world s)) of (p, w) \<Rightarrow>
                     let s = s\<lparr>vs_world := w\<rparr> in
                     if p = NULL then Some (Some ENOMEM, rd\<lparr>rss_lut_size := 0, rss_lut := (NULL, [])\<rparr>, rel s)
                     else Some (ret_ok, rd\<lparr>rss_lut_size := lr_lut_entries m,
                            rss_lut := (p, memcpy_u32 (lr_lut_entries m) (lr_lut m) (replicate (lr_lut_entries m) 0))\<rparr>, rel s)))))"

definition NETDEV_RSS_KEY_LEN :: nat where "NETDEV_RSS_KEY_LEN = 52"

record rss_key_reply =
  kr_key_len :: nat
  kr_key :: "nat \<Rightarrow> u8"

definition idpf_send_get_set_rss_key_msg ::
  "rss_key_reply \<Rightarrow> u32 \<Rightarrow> bool \<Rightarrow> idpf_rss_data \<Rightarrow> vc_st \<Rightarrow> (ret \<times> idpf_rss_data \<times> vc_st) option" where
  "idpf_send_get_set_rss_key_msg m vport_id is_get rd s =
     (case kcalloc (vs_world s) of (rk, w) \<Rightarrow>
        let s = s\<lparr>vs_world := w\<rparr> in
        if rk = NULL then Some (Some ENOMEM, rd, s)
        else if \<not> is_get then
          (case arr_take (rss_key_size rd) (rss_key rd) of None \<Rightarrow> None
           | Some key \<Rightarrow>
               (case vc_exec (RssKey False vport_id key) s of
                  (err, s) \<Rightarrow> Some (err, rd, s\<lparr>vs_world := kfree rk (vs_world s)\<rparr>)))
        else case kcalloc (vs_world s) of (recv_rk, w) \<Rightarrow>
          let s = s\<lparr>vs_world := w\<rparr> in
          if recv_rk = NULL then Some (Some ENOMEM, rd, s\<lparr>vs_world := kfree rk (vs_world s)\<rparr>)
          else (case vc_xn (RssKey True vport_id (replicate (rss_key_size rd) 0)) s of (reply_sz, s) \<Rightarrow>
            let s = s\<lparr>vs_world := kfree rk (vs_world s)\<rparr>; rel = (\<lambda>s. s\<lparr>vs_world := kfree recv_rk (vs_world s)\<rparr>);
                key_size = min NETDEV_RSS_KEY_LEN (kr_key_len m); key = map (kr_key m) [0..<key_size] in
            case reply_sz of Inl e \<Rightarrow> Some (Some e, rd, rel s)
            | Inr reply_sz \<Rightarrow>
                if reply_sz < 7 then Some (Some EIO, rd, rel s)
                else if reply_sz < 7 + key_size then Some (Some EIO, rd, rel s)
                else if rss_key_size rd = key_size then
                  (case arr_put key (rss_key rd) of None \<Rightarrow> None | Some k \<Rightarrow> Some (ret_ok, rd\<lparr>rss_key := k\<rparr>, rel s))
                else (case kcalloc (kfree (fst (rss_key rd)) (vs_world s)) of (p, w) \<Rightarrow>
                  let s = s\<lparr>vs_world := w\<rparr> in
                  if p = NULL then Some (Some ENOMEM, rd\<lparr>rss_key_size := 0, rss_key := (NULL, [])\<rparr>, rel s)
                  else Some (ret_ok, rd\<lparr>rss_key_size := key_size, rss_key := (p, key)\<rparr>, rel s))))"

section \<open>Configuration\<close>

definition rss_lut_reply_none :: rss_lut_reply where "rss_lut_reply_none = \<lparr>lr_lut_entries = 0, lr_lut = (\<lambda>_. 0)\<rparr>"
definition rss_key_reply_none :: rss_key_reply where "rss_key_reply_none = \<lparr>kr_key_len = 0, kr_key = (\<lambda>_. 0)\<rparr>"

text \<open>Setting reads no reply, so that the reply arguments do not matter.\<close>

definition idpf_config_rss :: "bool option \<Rightarrow> u32 \<Rightarrow> idpf_rss_data \<Rightarrow> vc_st \<Rightarrow> (ret \<times> idpf_rss_data \<times> vc_st) option" where
  "idpf_config_rss rxhash vport_id rd s =
     (case idpf_send_get_set_rss_key_msg rss_key_reply_none vport_id False rd s of
        None \<Rightarrow> None
      | Some (Some e, rd, s) \<Rightarrow> Some (Some e, rd, s)
      | Some (None, rd, s) \<Rightarrow> idpf_send_get_set_rss_lut_msg rss_lut_reply_none rxhash vport_id False rd s)"

definition idpf_fill_dflt_rss_lut :: "bool \<Rightarrow> nat \<Rightarrow> nat \<Rightarrow> idpf_rss_data \<Rightarrow> idpf_rss_data option" where
  "idpf_fill_dflt_rss_lut xdp_ena n_rxq n_xdp_rxq rd =
     (let num_active_rxq = (if xdp_ena then trunc16 (n_rxq + (65536 - trunc16 n_xdp_rxq)) else n_rxq);
          n = rss_lut_size rd; lut = map (\<lambda>i. of_nat (i mod num_active_rxq)) [0..<n] in
      if n \<noteq> 0 \<and> num_active_rxq = 0 then None
      else case (arr_put lut (rss_lut rd), arr_put lut (cached_lut rd)) of
        (Some a, Some c) \<Rightarrow> Some (rd\<lparr>rss_lut := a, cached_lut := c\<rparr>)
      | _ \<Rightarrow> None)"

text \<open>The table is cleared before the default values if its size is no multiple of the number of queues.\<close>

definition idpf_init_rss ::
  "bool option \<Rightarrow> u32 \<Rightarrow> bool \<Rightarrow> nat \<Rightarrow> nat \<Rightarrow> idpf_rss_data \<Rightarrow> vc_st \<Rightarrow> (ret \<times> idpf_rss_data \<times> vc_st) option" where
  "idpf_init_rss rxhash vport_id xdp_ena n_rxq n_xdp_rxq rd s =
     (case kcalloc (vs_world s) of (p, w) \<Rightarrow>
        let s = s\<lparr>vs_world := w\<rparr>; n = rss_lut_size rd; rd = rd\<lparr>rss_lut := (p, replicate n 0)\<rparr> in
        if p = NULL then Some (Some ENOMEM, rd, s)
        else case kcalloc (vs_world s) of (c, w) \<Rightarrow>
          let s = s\<lparr>vs_world := w\<rparr>; rd = rd\<lparr>cached_lut := (c, replicate n 0)\<rparr> in
          if c = NULL then Some (Some ENOMEM, rd\<lparr>rss_lut := (NULL, [])\<rparr>, s\<lparr>vs_world := kfree p (vs_world s)\<rparr>)
          else if n_rxq = 0 then None
          else
            let rd = (if n mod n_rxq = 0 then rd else rd\<lparr>rss_lut := (p, replicate n 0)\<rparr>) in
            case idpf_fill_dflt_rss_lut xdp_ena n_rxq n_xdp_rxq rd of
              None \<Rightarrow> None
            | Some rd \<Rightarrow> idpf_config_rss rxhash vport_id rd s)"

definition idpf_deinit_rss :: "idpf_rss_data \<Rightarrow> vc_st \<Rightarrow> idpf_rss_data \<times> vc_st" where
  "idpf_deinit_rss rd s =
     (rd\<lparr>cached_lut := (NULL, []), rss_lut := (NULL, [])\<rparr>,
      s\<lparr>vs_world := kfree (fst (rss_lut rd)) (kfree (fst (cached_lut rd)) (vs_world s))\<rparr>)"

text \<open>\<open>ena\<close> is the new setting of the feature, which the vport already has.\<close>

definition idpf_vport_manage_rss_lut :: "bool \<Rightarrow> u32 \<Rightarrow> idpf_rss_data \<Rightarrow> vc_st \<Rightarrow> (ret \<times> idpf_rss_data \<times> vc_st) option" where
  "idpf_vport_manage_rss_lut ena vport_id rd s =
     (if fst (rss_lut rd) = NULL \<or> fst (cached_lut rd) = NULL then Some (ret_ok, rd, s)
      else
        let n = rss_lut_size rd in
        if ena then
          (case arr_take n (cached_lut rd) of None \<Rightarrow> None
           | Some xs \<Rightarrow>
               (case arr_put xs (rss_lut rd) of None \<Rightarrow> None
                | Some a \<Rightarrow> idpf_config_rss (Some ena) vport_id (rd\<lparr>rss_lut := a\<rparr>) s))
        else
          (case arr_take n (rss_lut rd) of None \<Rightarrow> None
           | Some xs \<Rightarrow>
               (case (arr_put xs (cached_lut rd), arr_put (replicate n 0) (rss_lut rd)) of
                  (Some c, Some a) \<Rightarrow> idpf_config_rss (Some ena) vport_id (rd\<lparr>cached_lut := c, rss_lut := a\<rparr>) s
                | _ \<Rightarrow> None)))"

section \<open>Ethtool\<close>

text \<open>\<open>want_key\<close> and \<open>want_indir\<close>: whether the caller passes an array; the results are what is stored there.\<close>

definition idpf_get_rxfh ::
  "bool \<Rightarrow> bool \<Rightarrow> bool \<Rightarrow> bool \<Rightarrow> idpf_rss_data \<Rightarrow> (ret \<times> u8 list option \<times> u32 list option) option" where
  "idpf_get_rxfh cap rxhash_ena want_key want_indir rd =
     (if \<not> cap then Some (Some EOPNOTSUPP, None, None)
      else
        let n = rss_lut_size rd;
            key = (if want_key then map_option Some (arr_take (rss_key_size rd) (rss_key rd)) else Some None);
            indir = (if \<not> want_indir then Some None
                     else if rxhash_ena \<and> fst (rss_lut rd) \<noteq> NULL then map_option Some (arr_take n (rss_lut rd))
                     else Some (Some (replicate n 0)))
        in case (key, indir) of (Some k, Some i) \<Rightarrow> Some (ret_ok, k, i) | _ \<Rightarrow> None)"

text \<open>The arrays of the caller have the sizes that the driver reports.\<close>

definition idpf_set_rxfh ::
  "bool \<Rightarrow> bool \<Rightarrow> bool \<Rightarrow> bool \<Rightarrow> u32 \<Rightarrow> u8 list option \<Rightarrow> u32 list option \<Rightarrow> idpf_rss_data \<Rightarrow> vc_st
    \<Rightarrow> (ret \<times> idpf_rss_data \<times> vc_st) option" where
  "idpf_set_rxfh cap hfunc_ok up rxhash_ena vport_id key indir rd s =
     (if \<not> cap then Some (Some EOPNOTSUPP, rd, s)
      else if \<not> hfunc_ok then Some (Some EOPNOTSUPP, rd, s)
      else case (case key of None \<Rightarrow> Some (rss_key rd) | Some k \<Rightarrow> arr_put (take (rss_key_size rd) k) (rss_key rd)) of
        None \<Rightarrow> None
      | Some k \<Rightarrow>
          let rd = rd\<lparr>rss_key := k\<rparr> in
          if indir \<noteq> None \<and> fst (rss_lut rd) = NULL then Some (Some EOPNOTSUPP, rd, s)
          else case (case indir of None \<Rightarrow> Some (rss_lut rd) | Some l \<Rightarrow> arr_put (take (rss_lut_size rd) l) (rss_lut rd)) of
            None \<Rightarrow> None
          | Some l \<Rightarrow>
              let rd = rd\<lparr>rss_lut := l\<rparr>
              in if up then idpf_config_rss (Some rxhash_ena) vport_id rd s else Some (ret_ok, rd, s))"

definition idpf_send_ena_dis_loopback_msg :: "u32 \<Rightarrow> bool \<Rightarrow> vc_st \<Rightarrow> ret \<times> vc_st" where
  "idpf_send_ena_dis_loopback_msg vport_id loopback_ena = vc_exec (Loopback vport_id loopback_ena)"

end
