(* ===== verification/Idpf_Rss_Results.thy ===== *)
theory Idpf_Rss_Results
  imports Idpf_Rss Idpf_Ptype_Results
begin

text \<open>
  The tables of receive side scaling stay well formed through every sequence of operations, the defaults
  name only existing queues, and switching the feature off and on restores the table.
\<close>

section \<open>Well-formedness\<close>

definition rss_objs :: "idpf_rss_data \<Rightarrow> ptr set" where
  "rss_objs rd = {fst (rss_key rd), fst (rss_lut rd), fst (cached_lut rd)} - {NULL}"

definition rss_wf :: "idpf_rss_data \<Rightarrow> bool" where
  "rss_wf rd \<longleftrightarrow> fst (rss_key rd) \<noteq> NULL \<and> length (snd (rss_key rd)) = rss_key_size rd \<and>
     (if fst (rss_lut rd) = NULL then fst (cached_lut rd) = NULL
      else fst (cached_lut rd) \<noteq> NULL \<and> length (snd (rss_lut rd)) = rss_lut_size rd \<and> length (snd (cached_lut rd)) = rss_lut_size rd \<and>
        distinct [fst (rss_key rd), fst (rss_lut rd), fst (cached_lut rd)])"

definition rss_inv :: "idpf_world \<Rightarrow> idpf_rss_data \<Rightarrow> vc_st \<Rightarrow> bool" where
  "rss_inv w0 rd s \<longleftrightarrow> rss_wf rd \<and> owns w0 (rss_objs rd) {} (vs_world s)"

lemma arr_take_all: "fst a \<noteq> NULL \<Longrightarrow> length (snd a) = n \<Longrightarrow> arr_take n a = Some (snd a)"
  by (auto simp: arr_take_def)

lemma arr_put_le: "fst a \<noteq> NULL \<Longrightarrow> length xs \<le> length (snd a) \<Longrightarrow> arr_put xs a = Some (fst a, xs @ drop (length xs) (snd a))"
  by (cases a) (auto simp: arr_put_def)

section \<open>Messages that set\<close>

lemma set_key_sends:
  assumes "rss_wf rd"
  shows "\<exists>err s'. idpf_send_get_set_rss_key_msg m v False rd s = Some (err, rd, s') \<and> owns (vs_world s) {} {} (vs_world s') \<and>
    (err = ret_ok \<longrightarrow> vs_sent s' = vs_sent s @ [RssKey False v (snd (rss_key rd))])"
proof -
  obtain p w where k: "kcalloc (vs_world s) = (p, w)" by fastforce
  have t: "arr_take (rss_key_size rd) (rss_key rd) = Some (snd (rss_key rd))" using assms by (auto simp: rss_wf_def intro: arr_take_all)
  show ?thesis
  proof (cases rule: kcallocE [OF k])
    case 1
    then show ?thesis using k by (simp add: idpf_send_get_set_rss_key_msg_def)
  next
    case 2
    then have "owns (vs_world s) {} {} (kfree p w)" using kfree_owns [of "vs_world s" p "{}" "{}" w] by simp
    then show ?thesis using 2 k t by (simp add: idpf_send_get_set_rss_key_msg_def vc_exec_def vc_xn_def)
  qed
qed

lemma set_lut_sends:
  assumes "fst (rss_lut rd) \<noteq> NULL" and "length (snd (rss_lut rd)) = rss_lut_size rd"
  shows "\<exists>err s'. idpf_send_get_set_rss_lut_msg m (Some ena) v False rd s = Some (err, rd, s') \<and> owns (vs_world s) {} {} (vs_world s') \<and>
    (err = ret_ok \<longrightarrow> vs_sent s' = vs_sent s @ [RssLut False v (if ena then snd (rss_lut rd) else map (\<lambda>_. 0) (snd (rss_lut rd)))])"
proof -
  obtain p w where k: "kcalloc (vs_world s) = (p, w)" by fastforce
  note t = arr_take_all [OF assms]
  show ?thesis
  proof (cases rule: kcallocE [OF k])
    case 1
    then show ?thesis using k by (simp add: idpf_send_get_set_rss_lut_msg_def)
  next
    case 2
    then have "owns (vs_world s) {} {} (kfree p w)" using kfree_owns [of "vs_world s" p "{}" "{}" w] by simp
    then show ?thesis using 2 k t by (simp add: idpf_send_get_set_rss_lut_msg_def vc_exec_def vc_xn_def Let_def)
  qed
qed

lemma config_rss_sends:
  assumes "rss_wf rd" and "fst (rss_lut rd) \<noteq> NULL"
  shows "\<exists>err s'. idpf_config_rss (Some ena) v rd s = Some (err, rd, s') \<and> owns (vs_world s) {} {} (vs_world s') \<and>
    (err = ret_ok \<longrightarrow> vs_sent s' = vs_sent s @ [RssKey False v (snd (rss_key rd)),
       RssLut False v (if ena then snd (rss_lut rd) else map (\<lambda>_. 0) (snd (rss_lut rd)))])"
proof -
  obtain e1 s1 where 1: "idpf_send_get_set_rss_key_msg rss_key_reply_none v False rd s = Some (e1, rd, s1)"
      "owns (vs_world s) {} {} (vs_world s1)" "e1 = ret_ok \<longrightarrow> vs_sent s1 = vs_sent s @ [RssKey False v (snd (rss_key rd))]"
    using set_key_sends [OF assms(1)] by blast
  obtain e2 s2 where 2: "idpf_send_get_set_rss_lut_msg rss_lut_reply_none (Some ena) v False rd s1 = Some (e2, rd, s2)"
      "owns (vs_world s1) {} {} (vs_world s2)"
      "e2 = ret_ok \<longrightarrow> vs_sent s2 = vs_sent s1 @ [RssLut False v (if ena then snd (rss_lut rd) else map (\<lambda>_. 0) (snd (rss_lut rd)))]"
    using set_lut_sends [of rd rss_lut_reply_none ena v s1] assms by (auto simp: rss_wf_def)
  show ?thesis using 1 2 owns_trans(1) [OF 1(2) 2(2)] by (cases e1) (auto simp: idpf_config_rss_def)
qed

lemma rss_inv_owns: "rss_inv w0 rd s \<Longrightarrow> owns (vs_world s) {} {} (vs_world s') \<Longrightarrow> rss_inv w0 rd s'"
  using owns_trans(1) [of w0 "rss_objs rd" "{}" "vs_world s" "{}" "{}" "vs_world s'"] by (simp add: rss_inv_def)

lemma config_rss_inv:
  assumes "rss_inv w0 rd s" and "fst (rss_lut rd) \<noteq> NULL"
  shows "\<exists>err s'. idpf_config_rss (Some ena) v rd s = Some (err, rd, s') \<and> rss_inv w0 rd s'"
  using config_rss_sends [of rd ena v s] rss_inv_owns [OF assms(1)] assms by (auto simp: rss_inv_def)

section \<open>Operations\<close>

text \<open>The default table.\<close>

definition dflt_lut :: "nat \<Rightarrow> nat \<Rightarrow> u32 list" where
  "dflt_lut n_rxq n = map (\<lambda>i. of_nat (i mod n_rxq)) [0..<n]"

lemma fill_dflt:
  assumes "0 < n_rxq" and "n_rxq < 65536" and "fst (rss_lut rd) \<noteq> NULL" and "fst (cached_lut rd) \<noteq> NULL"
    and "length (snd (rss_lut rd)) = rss_lut_size rd" and "length (snd (cached_lut rd)) = rss_lut_size rd"
  shows "idpf_fill_dflt_rss_lut xdp n_rxq 0 rd =
    Some (rd\<lparr>rss_lut := (fst (rss_lut rd), dflt_lut n_rxq (rss_lut_size rd)), cached_lut := (fst (cached_lut rd), dflt_lut n_rxq (rss_lut_size rd))\<rparr>)"
  using assms by (simp add: idpf_fill_dflt_rss_lut_def dflt_lut_def Let_def arr_put_le trunc16_def)

lemma init_rss_inv:
  assumes inv: "rss_inv w0 rd s" and null: "fst (rss_lut rd) = NULL" and n: "0 < n_rxq" "n_rxq < 65536"
  shows "\<exists>err rd' s'. idpf_init_rss (Some ena) v xdp n_rxq 0 rd s = Some (err, rd', s') \<and> rss_inv w0 rd' s' \<and>
    rss_lut_size rd' = rss_lut_size rd \<and> rss_key_size rd' = rss_key_size rd \<and>
    (err = ret_ok \<longrightarrow> fst (rss_lut rd') \<noteq> NULL \<and> snd (rss_lut rd') = dflt_lut n_rxq (rss_lut_size rd) \<and>
       vs_sent s' = vs_sent s @ [RssKey False v (snd (rss_key rd)),
         RssLut False v (if ena then dflt_lut n_rxq (rss_lut_size rd) else map (\<lambda>_. 0) (dflt_lut n_rxq (rss_lut_size rd)))])"
proof -
  have key: "fst (rss_key rd) \<noteq> NULL" "fst (cached_lut rd) = NULL" "length (snd (rss_key rd)) = rss_key_size rd"
    using inv null by (auto simp: rss_inv_def rss_wf_def)
  then have o: "owns w0 {fst (rss_key rd)} {} (vs_world s)" using inv null by (auto simp: rss_inv_def rss_objs_def insert_Diff_if)
  obtain p w1 where 1: "kcalloc (vs_world s) = (p, w1)" by fastforce
  obtain c w2 where 2: "kcalloc w1 = (c, w2)" by fastforce
  note unfold = idpf_init_rss_def 1 2 Let_def
  consider (p) "p = NULL" | (c) "p \<noteq> NULL" "c = NULL" | (ok) "p \<noteq> NULL" "c \<noteq> NULL" by blast
  then show ?thesis
  proof cases
    case p
    then show ?thesis using kcalloc_fails [of "vs_world s" w1 w0 "{fst (rss_key rd)}"] 1 o key null
      by (auto simp: unfold rss_inv_def rss_wf_def rss_objs_def insert_Diff_if)
  next
    case c
    have "owns w0 {p, fst (rss_key rd)} {} w2" "p \<noteq> fst (rss_key rd)"
      using kcalloc_owns [OF 1 c(1) o] kcalloc_fails [of w1 w2 w0 "{p, fst (rss_key rd)}"] 2 c(2) by auto
    then have "owns w0 {fst (rss_key rd)} {} (kfree p w2)" using kfree_drops [of w0 "{p, fst (rss_key rd)}" w2 p] c(1) by (auto simp: insert_Diff_if)
    then show ?thesis using c key by (auto simp: unfold rss_inv_def rss_wf_def rss_objs_def insert_Diff_if)
  next
    case ok
    have o2: "owns w0 {c, p, fst (rss_key rd)} {} w2" "distinct [fst (rss_key rd), p, c]"
      using kcalloc_owns [OF 1 ok(1) o] kcalloc_owns [OF 2 ok(2), of w0 "{p, fst (rss_key rd)}"] by auto
    let ?rd = "rd\<lparr>rss_lut := (p, dflt_lut n_rxq (rss_lut_size rd)), cached_lut := (c, dflt_lut n_rxq (rss_lut_size rd))\<rparr>"
    have i: "rss_inv w0 ?rd (s\<lparr>vs_world := w2\<rparr>)"
      using o2 ok key by (auto simp: rss_inv_def rss_wf_def rss_objs_def dflt_lut_def insert_commute)
    have f: "idpf_fill_dflt_rss_lut xdp n_rxq 0 (rd\<lparr>rss_lut := (p, replicate (rss_lut_size rd) 0), cached_lut := (c, replicate (rss_lut_size rd) 0)\<rparr>) = Some ?rd"
        "idpf_fill_dflt_rss_lut xdp n_rxq 0 (rd\<lparr>cached_lut := (c, replicate (rss_lut_size rd) 0), rss_lut := (p, replicate (rss_lut_size rd) 0)\<rparr>) = Some ?rd"
      using fill_dflt [OF n] ok by simp_all
    obtain err s' where x: "idpf_config_rss (Some ena) v ?rd (s\<lparr>vs_world := w2\<rparr>) = Some (err, ?rd, s')"
        "owns w2 {} {} (vs_world s')"
        "err = ret_ok \<longrightarrow> vs_sent s' = vs_sent s @ [RssKey False v (snd (rss_key rd)),
          RssLut False v (if ena then dflt_lut n_rxq (rss_lut_size rd) else map (\<lambda>_. 0) (dflt_lut n_rxq (rss_lut_size rd)))]"
      using config_rss_sends [of ?rd ena v "s\<lparr>vs_world := w2\<rparr>"] i ok by (auto simp: rss_inv_def)
    show ?thesis using x rss_inv_owns [OF i, of s'] ok n f by (auto simp: unfold)
  qed
qed

lemma deinit_rss_inv:
  assumes inv: "rss_inv w0 rd s" and d: "idpf_deinit_rss rd s = (rd', s')"
  shows "rss_inv w0 rd' s' \<and> fst (rss_lut rd') = NULL"
proof (cases "fst (rss_lut rd) = NULL")
  case True
  then have "fst (cached_lut rd) = NULL" using inv by (simp add: rss_inv_def rss_wf_def)
  then show ?thesis using True inv d by (auto simp: idpf_deinit_rss_def rss_inv_def rss_wf_def rss_objs_def)
next
  case False
  let ?k = "fst (rss_key rd)" and ?l = "fst (rss_lut rd)" and ?c = "fst (cached_lut rd)"
  have f: "?k \<noteq> NULL" "?c \<noteq> NULL" "distinct [?k, ?l, ?c]" using False inv by (auto simp: rss_inv_def rss_wf_def)
  have "owns w0 {?k, ?l, ?c} {} (vs_world s)" using False f inv by (simp add: rss_inv_def rss_objs_def insert_Diff_if)
  then have "owns w0 {?k, ?l} {} (kfree ?c (vs_world s))" using kfree_drops [of w0 "{?k, ?l, ?c}" _ ?c] f by (auto simp: insert_Diff_if)
  then have "owns w0 {?k} {} (kfree ?l (kfree ?c (vs_world s)))" using kfree_drops [of w0 "{?k, ?l}" _ ?l] f False by (auto simp: insert_Diff_if)
  then show ?thesis using d f inv by (auto simp: idpf_deinit_rss_def rss_inv_def rss_wf_def rss_objs_def insert_Diff_if)
qed

lemma rss_inv_contents:
  assumes "rss_inv w0 rd s" and "length k = rss_key_size rd" and "fst (rss_lut rd) = NULL \<or> length l = rss_lut_size rd \<and> length c = rss_lut_size rd"
  shows "rss_inv w0 (rd\<lparr>rss_key := (fst (rss_key rd), k), rss_lut := (fst (rss_lut rd), l), cached_lut := (fst (cached_lut rd), c)\<rparr>) s"
  using assms by (auto simp: rss_inv_def rss_wf_def rss_objs_def)

text \<open>Switching off keeps the table in the cache, switching on takes it from there.\<close>

definition rss_toggled :: "bool \<Rightarrow> idpf_rss_data \<Rightarrow> idpf_rss_data" where
  "rss_toggled ena rd =
     (if ena then rd\<lparr>rss_lut := (fst (rss_lut rd), snd (cached_lut rd))\<rparr>
      else rd\<lparr>cached_lut := (fst (cached_lut rd), snd (rss_lut rd)), rss_lut := (fst (rss_lut rd), replicate (rss_lut_size rd) 0)\<rparr>)"

lemma toggled_inv: "rss_inv w0 rd s \<Longrightarrow> fst (rss_lut rd) \<noteq> NULL \<Longrightarrow> rss_inv w0 (rss_toggled ena rd) s \<and> fst (rss_lut (rss_toggled ena rd)) \<noteq> NULL"
  by (auto simp: rss_inv_def rss_wf_def rss_objs_def rss_toggled_def)

lemma manage_rss_inv:
  assumes inv: "rss_inv w0 rd s"
  shows "\<exists>err rd' s'. idpf_vport_manage_rss_lut ena v rd s = Some (err, rd', s') \<and> rss_inv w0 rd' s' \<and>
    rd' = (if fst (rss_lut rd) = NULL then rd else rss_toggled ena rd)"
proof (cases "fst (rss_lut rd) = NULL")
  case False
  have f: "fst (cached_lut rd) \<noteq> NULL" "length (snd (rss_lut rd)) = rss_lut_size rd" "length (snd (cached_lut rd)) = rss_lut_size rd"
    using False inv by (auto simp: rss_inv_def rss_wf_def)
  have "idpf_vport_manage_rss_lut ena v rd s = idpf_config_rss (Some ena) v (rss_toggled ena rd) s"
    using False f by (simp add: idpf_vport_manage_rss_lut_def rss_toggled_def Let_def arr_take_all arr_put_le)
  then show ?thesis using False config_rss_inv [of w0 "rss_toggled ena rd" s ena v] toggled_inv [OF inv False, of ena] by auto
qed (use inv in \<open>simp add: idpf_vport_manage_rss_lut_def\<close>)

text \<open>What the caller of \<open>set_rxfh\<close> passes replaces the key and the table.\<close>

definition rss_replaced :: "u8 list option \<Rightarrow> u32 list option \<Rightarrow> idpf_rss_data \<Rightarrow> idpf_rss_data" where
  "rss_replaced key indir rd =
     rd\<lparr>rss_key := (case key of None \<Rightarrow> rss_key rd | Some k \<Rightarrow> (fst (rss_key rd), k)),
        rss_lut := (case indir of None \<Rightarrow> rss_lut rd | Some l \<Rightarrow> (fst (rss_lut rd), l))\<rparr>"

definition rxfh_args :: "idpf_rss_data \<Rightarrow> u8 list option \<Rightarrow> u32 list option \<Rightarrow> bool" where
  "rxfh_args rd key indir \<longleftrightarrow> (\<forall>k. key = Some k \<longrightarrow> length k = rss_key_size rd) \<and> (\<forall>l. indir = Some l \<longrightarrow> length l = rss_lut_size rd)"

lemma replaced_inv:
  assumes "rss_inv w0 rd s" and "rxfh_args rd key indir" and "indir \<noteq> None \<longrightarrow> fst (rss_lut rd) \<noteq> NULL"
  shows "rss_inv w0 (rss_replaced key indir rd) s"
  using assms by (auto simp: rss_inv_def rss_wf_def rss_objs_def rss_replaced_def rxfh_args_def split: option.splits)

lemma set_rxfh_inv:
  assumes inv: "rss_inv w0 rd s" and a: "rxfh_args rd key indir" and up: "up \<longrightarrow> fst (rss_lut rd) \<noteq> NULL"
  shows "\<exists>err rd' s'. idpf_set_rxfh cap hf up ena v key indir rd s = Some (err, rd', s') \<and> rss_inv w0 rd' s' \<and>
    rd' = (if \<not> cap \<or> \<not> hf then rd else rss_replaced key (if fst (rss_lut rd) = NULL then None else indir) rd)"
proof (cases "cap \<and> hf")
  case True
  let ?rd = "rss_replaced key (if fst (rss_lut rd) = NULL then None else indir) rd"
  have k: "(case key of None \<Rightarrow> Some (rss_key rd) | Some k \<Rightarrow> arr_put (take (rss_key_size rd) k) (rss_key rd)) =
      Some (case key of None \<Rightarrow> rss_key rd | Some k \<Rightarrow> (fst (rss_key rd), k))"
    using inv a by (auto simp: rss_inv_def rss_wf_def rxfh_args_def arr_put_le split: option.splits)
  have l: "(case indir of None \<Rightarrow> Some (rss_lut rd) | Some l \<Rightarrow> arr_put (take (rss_lut_size rd) l) (rss_lut rd)) =
      Some (case indir of None \<Rightarrow> rss_lut rd | Some l \<Rightarrow> (fst (rss_lut rd), l))" if "fst (rss_lut rd) \<noteq> NULL"
    using inv a that by (auto simp: rss_inv_def rss_wf_def rxfh_args_def arr_put_le split: option.splits)
  have i: "rss_inv w0 ?rd s" using replaced_inv [OF inv] a by (simp add: rxfh_args_def)
  show ?thesis
  proof (cases "fst (rss_lut rd) = NULL")
    case null: True
    then have "\<not> up" using up by simp
    then show ?thesis using True null k i by (cases indir) (auto simp: idpf_set_rxfh_def rss_replaced_def Let_def)
  next
    case False
    have e: "idpf_set_rxfh cap hf up ena v key indir rd s = (if up then idpf_config_rss (Some ena) v ?rd s else Some (ret_ok, ?rd, s))"
      using True False k l [OF False] by (cases indir) (simp_all add: idpf_set_rxfh_def rss_replaced_def Let_def)
    have "fst (rss_lut ?rd) \<noteq> NULL" using False by (auto simp: rss_replaced_def split: option.splits)
    then show ?thesis using True False e i config_rss_inv [OF i, of ena v] by (cases up) auto
  qed
qed (use inv in \<open>auto simp: idpf_set_rxfh_def\<close>)

lemma init_rss_alloc:
  assumes "rss_inv w0 rd s" and "fst (rss_lut rd) = NULL" and "0 < n_rxq" "n_rxq < 65536"
  shows "\<exists>err rd' s'. idpf_init_rss (Some ena) v xdp n_rxq 0 rd s = Some (err, rd', s') \<and> rss_inv w0 rd' s' \<and>
    rss_lut_size rd' = rss_lut_size rd \<and> rss_key_size rd' = rss_key_size rd \<and>
    (err = ret_ok \<longrightarrow> snd (rss_lut rd') = dflt_lut n_rxq (rss_lut_size rd) \<and> fst (rss_lut rd') \<noteq> NULL)"
  using init_rss_inv [OF assms, of ena v xdp] by blast

section \<open>Properties\<close>

text \<open>
  The operations as the driver calls them: opening a vport configures an existing table or creates one,
  stopping keeps it, a reset releases it; the feature and the table may change at any time.  The flag tells
  whether the vport is up.
\<close>

datatype rss_op =
    RssOpen bool bool nat
  | RssStop
  | RssDeinit
  | RssFeature bool
  | RssSet bool bool bool "u8 list option" "u32 list option"

primrec rss_step :: "u32 \<Rightarrow> rss_op \<Rightarrow> bool \<times> idpf_rss_data \<times> vc_st \<Rightarrow> (bool \<times> idpf_rss_data \<times> vc_st) option" where
  "rss_step v (RssOpen ena xdp n_rxq) st =
     (case st of (up, rd, s) \<Rightarrow>
        if up then Some st
        else map_option (\<lambda>(err, x). (err = ret_ok, x))
          (if fst (rss_lut rd) \<noteq> NULL then idpf_config_rss (Some ena) v rd s else idpf_init_rss (Some ena) v xdp n_rxq 0 rd s))"
| "rss_step v RssStop st = Some (False, snd st)"
| "rss_step v RssDeinit st = (case st of (up, rd, s) \<Rightarrow> Some (False, idpf_deinit_rss rd s))"
| "rss_step v (RssFeature ena) st =
     (case st of (up, rd, s) \<Rightarrow> map_option (\<lambda>(err, x). (up, x)) (idpf_vport_manage_rss_lut ena v rd s))"
| "rss_step v (RssSet cap hf ena key indir) st =
     (case st of (up, rd, s) \<Rightarrow> map_option (\<lambda>(err, x). (up, x)) (idpf_set_rxfh cap hf up ena v key indir rd s))"

primrec rss_run :: "u32 \<Rightarrow> rss_op list \<Rightarrow> bool \<times> idpf_rss_data \<times> vc_st \<Rightarrow> (bool \<times> idpf_rss_data \<times> vc_st) option" where
  "rss_run v [] st = Some st"
| "rss_run v (x # xs) st = (case rss_step v x st of None \<Rightarrow> None | Some st \<Rightarrow> rss_run v xs st)"

text \<open>A vport has a queue, and ethtool passes arrays of the sizes the driver reports.\<close>

primrec rss_op_ok :: "nat \<Rightarrow> nat \<Rightarrow> rss_op \<Rightarrow> bool" where
  "rss_op_ok ks ls (RssOpen ena xdp n_rxq) \<longleftrightarrow> 0 < n_rxq \<and> n_rxq < 65536"
| "rss_op_ok ks ls RssStop \<longleftrightarrow> True"
| "rss_op_ok ks ls RssDeinit \<longleftrightarrow> True"
| "rss_op_ok ks ls (RssFeature ena) \<longleftrightarrow> True"
| "rss_op_ok ks ls (RssSet cap hf ena key indir) \<longleftrightarrow> (\<forall>k. key = Some k \<longrightarrow> length k = ks) \<and> (\<forall>l. indir = Some l \<longrightarrow> length l = ls)"

definition rss_state :: "idpf_world \<Rightarrow> nat \<Rightarrow> nat \<Rightarrow> bool \<times> idpf_rss_data \<times> vc_st \<Rightarrow> bool" where
  "rss_state w0 ks ls st \<longleftrightarrow> (case st of (up, rd, s) \<Rightarrow>
     rss_inv w0 rd s \<and> rss_key_size rd = ks \<and> rss_lut_size rd = ls \<and> (up \<longrightarrow> fst (rss_lut rd) \<noteq> NULL))"

lemma rss_sizes [simp]:
  "rss_key_size (rss_toggled ena rd) = rss_key_size rd" "rss_lut_size (rss_toggled ena rd) = rss_lut_size rd"
  "fst (rss_lut (rss_toggled ena rd)) = fst (rss_lut rd)"
  "rss_key_size (rss_replaced k l rd) = rss_key_size rd" "rss_lut_size (rss_replaced k l rd) = rss_lut_size rd"
  "fst (rss_lut (rss_replaced k l rd)) = fst (rss_lut rd)"
  by (simp_all add: rss_toggled_def rss_replaced_def split: option.splits)

lemma rss_step_ok:
  assumes "rss_state w0 ks ls st" and "rss_op_ok ks ls x"
  shows "\<exists>st'. rss_step v x st = Some st' \<and> rss_state w0 ks ls st'"
proof -
  obtain up rd s where st: "st = (up, rd, s)" by (cases st)
  have inv: "rss_inv w0 rd s" "rss_key_size rd = ks" "rss_lut_size rd = ls" "up \<longrightarrow> fst (rss_lut rd) \<noteq> NULL"
    using assms(1) by (auto simp: st rss_state_def)
  show ?thesis
  proof (cases x)
    case (RssOpen ena xdp n)
    show ?thesis
    proof (cases "fst (rss_lut rd) = NULL")
      case True
      obtain err rd' s' where "idpf_init_rss (Some ena) v xdp n 0 rd s = Some (err, rd', s')" "rss_inv w0 rd' s'"
          "rss_lut_size rd' = ls" "rss_key_size rd' = ks" "err = ret_ok \<longrightarrow> snd (rss_lut rd') = dflt_lut n ls"
          "err = ret_ok \<longrightarrow> fst (rss_lut rd') \<noteq> NULL"
        using init_rss_alloc [OF inv(1) True, of n ena v xdp] assms(2) RssOpen inv by auto
      then show ?thesis using True inv RssOpen by (auto simp: st rss_state_def)
    next
      case False
      then show ?thesis using inv RssOpen config_rss_inv [OF inv(1) False, of ena v] by (auto simp: st rss_state_def)
    qed
  next
    case RssDeinit
    obtain rd' s' where d: "idpf_deinit_rss rd s = (rd', s')" by fastforce
    have "rss_key_size rd' = ks" "rss_lut_size rd' = ls" using d inv(2,3) by (auto simp: idpf_deinit_rss_def)
    then show ?thesis using RssDeinit deinit_rss_inv [OF inv(1) d] d by (simp add: st rss_state_def)
  next
    case (RssFeature ena)
    then show ?thesis using inv manage_rss_inv [OF inv(1), of ena v] by (auto simp: st rss_state_def)
  next
    case (RssSet cap hf ena key indir)
    have "rxfh_args rd key indir" using assms(2) RssSet inv by (simp add: rxfh_args_def)
    from set_rxfh_inv [OF inv(1) this inv(4), of cap hf ena v] show ?thesis using inv RssSet by (auto simp: st rss_state_def)
  qed (use assms in \<open>auto simp: st rss_state_def\<close>)
qed

text \<open>
  C24. From a vport with its key and no table on, through every sequence of opening, stopping, resetting,
  switching the hash feature and setting key or table, whatever messages and allocations fail: no operation
  reads or writes outside the arrays, key and tables keep their sizes, a vport that is up has a table, and
  the allocated memory is exactly the key and the two tables.
\<close>

theorem rss_tables_safe:
  assumes "rss_wf rd" and "fst (rss_lut rd) = NULL" and "owns w0 {fst (rss_key rd)} {} (vs_world s)"
    and "\<forall>x \<in> set xs. rss_op_ok (rss_key_size rd) (rss_lut_size rd) x"
  shows "\<exists>up rd' s'. rss_run v xs (False, rd, s) = Some (up, rd', s') \<and> rss_wf rd' \<and> owns w0 (rss_objs rd') {} (vs_world s') \<and>
    rss_key_size rd' = rss_key_size rd \<and> rss_lut_size rd' = rss_lut_size rd \<and> (up \<longrightarrow> fst (rss_lut rd') \<noteq> NULL)"
proof -
  have run: "\<exists>st'. rss_run v xs st = Some st' \<and> rss_state w0 ks ls st'" if "rss_state w0 ks ls st" "\<forall>x \<in> set xs. rss_op_ok ks ls x" for ks ls st
    using that
  proof (induction xs arbitrary: st)
    case (Cons x xs)
    obtain st1 where "rss_step v x st = Some st1" "rss_state w0 ks ls st1" using rss_step_ok [of w0 ks ls st x v] Cons.prems by auto
    then show ?case using Cons.IH [of st1] Cons.prems by simp
  qed simp
  have "rss_state w0 (rss_key_size rd) (rss_lut_size rd) (False, rd, s)"
    using assms(1-3) by (auto simp: rss_state_def rss_inv_def rss_wf_def rss_objs_def insert_Diff_if)
  from run [OF this assms(4)] obtain st' where "rss_run v xs (False, rd, s) = Some st'" "rss_state w0 (rss_key_size rd) (rss_lut_size rd) st'" by blast
  then show ?thesis by (cases st') (auto simp: rss_state_def rss_inv_def)
qed

definition demo_rss :: idpf_rss_data where
  "demo_rss = \<lparr>rss_hash = 0, rss_key_size = 2, rss_key = (16, [1, 2]), rss_lut_size = 4, rss_lut = (NULL, []), cached_lut = (NULL, [])\<rparr>"

definition demo_rss_st :: vc_st where
  "demo_rss_st = \<lparr>vs_world = \<lparr>live = {16}, dma_live = {}, kscript = [1, 2, 3, 4, 5, 6], dscript = [], bad_free = False, dmas = undefined,
     cqs = undefined, hw = undefined\<rparr>, vs_sent = [], vs_reply = (\<lambda>_. Inr 0)\<rparr>"

theorem rss_tables_safe_witness:
  "\<exists>up rd' s'. rss_run 7 [RssOpen True False 3, RssFeature False, RssSet True True False None (Some [0, 1, 0, 1]), RssStop] (False, demo_rss, demo_rss_st) =
    Some (up, rd', s') \<and> rss_wf rd'"
proof -
  have "rss_wf demo_rss" "fst (rss_lut demo_rss) = NULL" by (simp_all add: rss_wf_def demo_rss_def)
  moreover have "owns ((vs_world demo_rss_st)\<lparr>live := {}\<rparr>) {fst (rss_key demo_rss)} {} (vs_world demo_rss_st)"
    by (simp add: owns_def demo_rss_st_def demo_rss_def)
  ultimately show ?thesis
    using rss_tables_safe [of demo_rss _ demo_rss_st "[RssOpen True False 3, RssFeature False, RssSet True True False None (Some [0, 1, 0, 1]), RssStop]" 7]
    by (fastforce simp: demo_rss_def)
qed

text \<open>The default table names only existing queues and uses all of them if it is large enough.\<close>

lemma dflt_lut_range:
  assumes "0 < n" and "n < 65536"
  shows "\<forall>x \<in> set (dflt_lut n m). unat x < n" "n \<le> m \<Longrightarrow> unat ` set (dflt_lut n m) = {..<n}"
proof -
  have u: "unat (of_nat (i mod n) :: u32) = i mod n" for i
  proof -
    have "i mod n < 4294967296" using assms mod_less_divisor [of n i] by linarith
    then show ?thesis by (simp add: unat_of_nat)
  qed
  show "\<forall>x \<in> set (dflt_lut n m). unat x < n" using assms u by (auto simp: dflt_lut_def)
  assume "n \<le> m"
  then have "x \<in> (\<lambda>i. i mod n) ` {..<m}" if "x < n" for x using that by (intro image_eqI [of _ _ x]) auto
  then have "{..<n} \<subseteq> (\<lambda>i. i mod n) ` {..<m}" by blast
  then show "unat ` set (dflt_lut n m) = {..<n}" using assms u by (auto simp: dflt_lut_def image_image)
qed

theorem toggle_restores:
  assumes "rss_inv w0 rd s" and "fst (rss_lut rd) \<noteq> NULL"
  shows "\<exists>e1 rd1 s1 e2 rd2 s2. idpf_vport_manage_rss_lut False v rd s = Some (e1, rd1, s1) \<and>
    idpf_vport_manage_rss_lut True v rd1 s1 = Some (e2, rd2, s2) \<and> rss_lut rd2 = rss_lut rd \<and> snd (rss_lut rd1) = replicate (rss_lut_size rd) 0"
proof -
  obtain e1 s1 where 1: "idpf_vport_manage_rss_lut False v rd s = Some (e1, rss_toggled False rd, s1)" "rss_inv w0 (rss_toggled False rd) s1"
    using manage_rss_inv [OF assms(1), of False v] assms(2) by auto
  from manage_rss_inv [OF this(2), of True v] 1 assms(2) show ?thesis by (auto simp: rss_toggled_def)
qed

text \<open>
  A table set while the feature is off goes to \<open>rss_lut\<close> only; switching the feature on overwrites it with
  the cached one, against the comment there.
\<close>

theorem set_while_off_is_lost:
  assumes "rss_inv w0 rd s" and "fst (rss_lut rd) \<noteq> NULL" and "length l = rss_lut_size rd"
  shows "\<exists>e1 rd1 s1 e2 rd2 s2. idpf_set_rxfh True True True False v None (Some l) rd s = Some (e1, rd1, s1) \<and> snd (rss_lut rd1) = l \<and>
    idpf_vport_manage_rss_lut True v rd1 s1 = Some (e2, rd2, s2) \<and> snd (rss_lut rd2) = snd (cached_lut rd)"
proof -
  have "rxfh_args rd None (Some l)" using assms(3) by (simp add: rxfh_args_def)
  from set_rxfh_inv [OF assms(1) this, of True True True False v] assms(2)
  obtain e1 s1 where 1: "idpf_set_rxfh True True True False v None (Some l) rd s = Some (e1, rss_replaced None (Some l) rd, s1)"
      "rss_inv w0 (rss_replaced None (Some l) rd) s1" by auto
  from manage_rss_inv [OF this(2), of True v] 1 assms(2) show ?thesis by (auto simp: rss_toggled_def rss_replaced_def)
qed

text \<open>The comment of \<open>idpf_set_rxfh\<close> promises an error for an invalid queue id; any value is stored.\<close>

theorem invalid_queue_id_accepted:
  assumes "rss_inv w0 rd s" and "fst (rss_lut rd) \<noteq> NULL"
  shows "\<exists>rd'. idpf_set_rxfh True True False ena v None (Some (replicate (rss_lut_size rd) 65535)) rd s = Some (ret_ok, rd', s) \<and>
    snd (rss_lut rd') = replicate (rss_lut_size rd) 65535"
  using assms by (auto simp: idpf_set_rxfh_def Let_def arr_put_le rss_inv_def rss_wf_def)

text \<open>
  Reading the table from the device copies as many bytes as it has entries: only a quarter of the table
  arrives.  A reply that is too short leaks the reply buffer.
\<close>

theorem get_lut_copies_quarter:
  assumes "n = lr_lut_entries m" and "n \<noteq> rss_lut_size rd" and "4 * n \<le> sz" and "12 \<le> sz" and "vs_reply s (length (vs_sent s)) = Inr sz"
    and "idpf_send_get_set_rss_lut_msg m (Some ena) v True rd s = Some (ret_ok, rd', s')"
  shows "\<forall>i < n. n \<le> 4 * i \<longrightarrow> snd (rss_lut rd') ! i = 0"
  using assms(1-4,6) unfolding idpf_send_get_set_rss_lut_msg_def vc_xn_def Let_def
  by (auto simp: assms(5) memcpy_u32_def split: prod.splits if_splits)

theorem short_lut_reply_leaks:
  assumes "kcalloc (vs_world s) = (p, w1)" and "kcalloc w1 = (q, w2)" and "p \<noteq> NULL" and "q \<noteq> NULL" and "vs_reply s (length (vs_sent s)) = Inr 0"
  shows "\<exists>s'. idpf_send_get_set_rss_lut_msg m (Some ena) v True rd s = Some (Some EIO, rd, s') \<and> owns (vs_world s) {q} {} (vs_world s')"
proof -
  have "owns (vs_world s) {q, p} {} w2" "p \<noteq> q" using kcalloc_owns [OF assms(1,3), of "vs_world s" "{}"] kcalloc_owns [OF assms(2,4), of "vs_world s" "{p}"] by auto
  then have "owns (vs_world s) {q} {} (kfree p w2)" using kfree_drops [of "vs_world s" "{q, p}" w2 p] assms(3) by (auto simp: insert_Diff_if)
  then show ?thesis using assms by (simp add: idpf_send_get_set_rss_lut_msg_def vc_xn_def Let_def)
qed

end
