(* ===== verification/Idpf_Account.thy ===== *)
theory Idpf_Account
  imports Idpf_Controlq_Leak "HOL-Library.Multiset"
begin

text \<open>
  Accounts of memory: the pointers a data structure holds, with \<open>NULL\<close> wherever there is nothing, against
  the heap.  An operation keeps its account if the pointers in the structure afterwards are again exactly
  what was taken from the heap.  Rules for allocating and freeing serve all structures of the driver.
\<close>

definition dma_alloc :: "idpf_world \<Rightarrow> ptr \<times> idpf_world" where
  "dma_alloc w = (case dma_alloc_attrs w of ((va, pa), w) \<Rightarrow> (va, w))"

text \<open>What a slot counts for: nothing if it is \<open>NULL\<close>.\<close>

definition slot :: "ptr \<Rightarrow> ptr multiset" where
  "slot p = (if p = NULL then {#} else {#p#})"

lemma slot_NULL [simp]: "slot NULL = {#}"
  by (simp add: slot_def)

definition holds :: "idpf_world \<Rightarrow> ptr multiset \<Rightarrow> ptr multiset \<Rightarrow> idpf_world \<Rightarrow> bool" where
  "holds w0 P D w \<longleftrightarrow> owns w0 (set_mset P) (set_mset D) w \<and> (\<forall>p. count P p \<le> 1 \<and> count D p \<le> 1)"

lemma holds_refl: "holds w {#} {#} w"
  by (simp add: holds_def)

lemma holds_empty: "holds w0 {#} {#} w \<longleftrightarrow> owns w0 {} {} w"
  by (simp add: holds_def)

lemma count_add_fresh: "p \<notin># P \<Longrightarrow> \<forall>x. count P x \<le> 1 \<Longrightarrow> \<forall>x. count (add_mset p P) x \<le> 1"
  by (auto simp: not_in_iff)

lemma count_add_once: "\<forall>x. count (add_mset p P) x \<le> 1 \<Longrightarrow> p \<notin># P \<and> (\<forall>x. count P x \<le> 1)"
proof (intro conjI allI)
  assume a: "\<forall>x. count (add_mset p P) x \<le> 1"
  show "p \<notin># P" using a [rule_format, of p] by (simp add: not_in_iff)
  show "count P x \<le> 1" for x using a [rule_format, of x] by (simp split: if_splits)
qed

lemma holds_kcalloc:
  assumes "kcalloc w = (p, w')" and "holds w0 P D w"
  shows "holds w0 (slot p + P) D w'"
proof (cases rule: kcallocE [OF assms(1)])
  case 1
  then show ?thesis using assms(2) owns_trans(1) [of w0 "set_mset P" "set_mset D" w "{}" "{}" w']
    by (auto simp: holds_def)
next
  case 2
  note t = owns_trans [of w0 "set_mset P" "set_mset D" w "{p}" "{}" w']
  have "p \<notin># P" using t(2) 2 assms(2) by (auto simp: holds_def)
  then show ?thesis using t(1) 2 assms(2) count_add_fresh [of p P] by (auto simp: holds_def slot_def)
qed

lemma holds_kfree:
  assumes "holds w0 (slot p + P) D w"
  shows "holds w0 P D (kfree p w)"
proof (cases "p = NULL")
  case True
  then show ?thesis using assms by (simp add: kfree_def)
next
  case False
  then have "owns w0 (insert p (set_mset P)) (set_mset D) w" "p \<notin># P" "\<forall>x. count P x \<le> 1" "\<forall>x. count D x \<le> 1"
    using assms count_add_once [of p P] by (simp_all add: holds_def slot_def)
  then show ?thesis using False by (simp add: holds_def kfree_owns)
qed

lemma holds_dma_alloc:
  assumes "dma_alloc w = (p, w')" and "holds w0 P D w"
  shows "holds w0 P (slot p + D) w'"
proof -
  have "p = NULL \<and> owns w {} {} w' \<or> p \<noteq> NULL \<and> owns w {} {p} w'"
    using assms(1) by (auto simp: dma_alloc_def dma_alloc_attrs_def owns_def split: list.splits prod.splits if_splits)
  then consider "p = NULL" "owns w {} {} w'" | "p \<noteq> NULL" "owns w {} {p} w'" by blast
  then show ?thesis
  proof cases
    case 1
    then show ?thesis using assms(2) owns_trans(1) [of w0 "set_mset P" "set_mset D" w "{}" "{}" w'] by (auto simp: holds_def)
  next
    case 2
    note t = owns_trans [of w0 "set_mset P" "set_mset D" w "{}" "{p}" w']
    have "p \<notin># D" using t(3) 2 assms(2) by (auto simp: holds_def)
    then show ?thesis using t(1) 2 assms(2) count_add_fresh [of p D] by (auto simp: holds_def slot_def)
  qed
qed

lemma holds_dma_free:
  assumes "holds w0 P (slot p + D) w"
  shows "holds w0 P D (dma_free_attrs p w)"
proof (cases "p = NULL")
  case True
  then show ?thesis using assms by (simp add: dma_free_attrs_def)
next
  case False
  then have "owns w0 (set_mset P) (insert p (set_mset D)) w" "p \<notin># D" "\<forall>x. count D x \<le> 1" "\<forall>x. count P x \<le> 1"
    using assms count_add_once [of p D] by (simp_all add: holds_def slot_def)
  then show ?thesis using False by (simp add: holds_def dma_free_owns)
qed

text \<open>The accounts of the elements of a list.\<close>

definition slots_of :: "('a \<Rightarrow> ptr multiset) \<Rightarrow> 'a list \<Rightarrow> ptr multiset" where
  "slots_of f xs = \<Sum>\<^sub># (mset (map f xs))"

lemma slots_of_simps [simp]:
  "slots_of f [] = {#}" "slots_of f (x # xs) = f x + slots_of f xs" "slots_of f (xs @ ys) = slots_of f xs + slots_of f ys"
  by (simp_all add: slots_of_def)

lemma slots_of_empty: "\<forall>x \<in> set xs. f x = {#} \<Longrightarrow> slots_of f xs = {#}"
  by (induction xs) auto

text \<open>Freeing a list of slots.\<close>

definition kfree_list :: "ptr list \<Rightarrow> idpf_world \<Rightarrow> idpf_world" where
  "kfree_list ps w = fold kfree ps w"

lemma holds_kfree_list: "holds w0 (slots_of slot ps + P) D w \<Longrightarrow> holds w0 P D (kfree_list ps w)"
  by (induction ps arbitrary: w) (simp_all add: kfree_list_def add.assoc holds_kfree)

section \<open>Loops that keep an account\<close>

text \<open>
  The driver builds, fills, empties and frees its structures in loops of four shapes.  What one step does to
  the account of an element, the loop does to the account of the list; \<open>S\<close> and \<open>M\<close> are the heap and the
  DMA pointers of an element.
\<close>

text \<open>Building a list of elements until a step fails; the elements after it stay zero.\<close>

locale build_loop =
  fixes step :: "idpf_world \<Rightarrow> bool \<times> 'a \<times> idpf_world"
    and loop :: "nat \<Rightarrow> idpf_world \<Rightarrow> bool \<times> 'a list \<times> idpf_world"
    and zero :: 'a and S M :: "'a \<Rightarrow> ptr multiset" and part full :: "'a \<Rightarrow> bool"
  assumes loop_0: "loop 0 w = (True, [], w)"
    and loop_Suc: "loop (Suc n) w =
      (case step w of (ok, x, w) \<Rightarrow> if \<not> ok then (False, x # replicate n zero, w)
         else case loop n w of (ok, xs, w) \<Rightarrow> (ok, x # xs, w))"
    and step_holds: "step w = (ok, x, w') \<Longrightarrow> holds w0 P D w \<Longrightarrow>
      holds w0 (S x + P) (M x + D) w' \<and> part x \<and> (ok \<longrightarrow> full x)"
    and zero_part: "part zero" and zero_S: "S zero = {#}" and zero_M: "M zero = {#}"
begin

lemma loop_holds:
  "loop n w = (ok, xs, w') \<Longrightarrow> holds w0 P D w \<Longrightarrow>
     holds w0 (slots_of S xs + P) (slots_of M xs + D) w' \<and> (\<forall>x \<in> set xs. part x) \<and> (ok \<longrightarrow> (\<forall>x \<in> set xs. full x)) \<and> length xs = n"
proof (induction n arbitrary: w w' ok xs P D)
  case (Suc n)
  obtain ok1 x w1 where s: "step w = (ok1, x, w1)" by (metis prod_cases3)
  note h = step_holds [OF s Suc.prems(2)]
  show ?case
  proof (cases ok1)
    case False
    then have "xs = x # replicate n zero" "w' = w1" "\<not> ok" using Suc.prems(1) by (auto simp: loop_Suc s)
    moreover have "slots_of S (replicate n zero) = {#}" "slots_of M (replicate n zero) = {#}"
      using zero_S zero_M by (simp_all add: slots_of_empty)
    ultimately show ?thesis using h zero_part by (auto simp: ac_simps)
  next
    case True
    obtain ok2 ys w2 where l: "loop n w1 = (ok2, ys, w2)" by (metis prod_cases3)
    then have "xs = x # ys" "w' = w2" "ok2 = ok" using Suc.prems(1) True by (auto simp: loop_Suc s)
    then show ?thesis using Suc.IH [OF l, of "S x + P" "M x + D"] h True by (auto simp: ac_simps)
  qed
qed (simp add: loop_0)

end

text \<open>Filling the elements of a list until a step fails.\<close>

locale fill_loop =
  fixes step :: "'a \<Rightarrow> idpf_world \<Rightarrow> ret \<times> 'a \<times> idpf_world"
    and loop :: "'a list \<Rightarrow> idpf_world \<Rightarrow> ret \<times> 'a list \<times> idpf_world"
    and S M :: "'a \<Rightarrow> ptr multiset" and pre post :: "'a \<Rightarrow> bool"
  assumes loop_Nil: "loop [] w = (ret_ok, [], w)"
    and loop_Cons: "loop (x # xs) w =
      (case step x w of (Some e, x, w) \<Rightarrow> (Some e, x # xs, w)
       | (None, x, w) \<Rightarrow> (case loop xs w of (err, xs, w) \<Rightarrow> (err, x # xs, w)))"
    and step_holds: "pre x \<Longrightarrow> step x w = (err, y, w') \<Longrightarrow> holds w0 (S x + P) (M x + D) w \<Longrightarrow>
      holds w0 (S y + P) (M y + D) w' \<and> post y"
    and pre_post: "pre x \<Longrightarrow> post x"
begin

lemma loop_holds:
  "\<forall>x \<in> set xs. pre x \<Longrightarrow> loop xs w = (err, ys, w') \<Longrightarrow> holds w0 (slots_of S xs + P) (slots_of M xs + D) w \<Longrightarrow>
     holds w0 (slots_of S ys + P) (slots_of M ys + D) w' \<and> (\<forall>y \<in> set ys. post y)"
proof (induction xs arbitrary: w w' err ys P D)
  case (Cons x xs)
  obtain e1 y w1 where s: "step x w = (e1, y, w1)" by (metis prod_cases3)
  note h = step_holds [OF _ s, of w0 "slots_of S xs + P" "slots_of M xs + D"]
  show ?case
  proof (cases e1)
    case (Some e)
    then have "ys = y # xs" "w' = w1" using Cons.prems(2) by (auto simp: loop_Cons s)
    then show ?thesis using h Cons.prems pre_post by (auto simp: ac_simps)
  next
    case None
    obtain e2 zs w2 where l: "loop xs w1 = (e2, zs, w2)" by (metis prod_cases3)
    then have "ys = y # zs" "w' = w2" using Cons.prems(2) None by (auto simp: loop_Cons s)
    then show ?thesis using Cons.IH [OF _ l, of "S y + P" "M y + D"] h Cons.prems by (auto simp: ac_simps)
  qed
qed (simp add: loop_Nil)

end

text \<open>Emptying all elements of a list.\<close>

locale drain_loop =
  fixes step :: "'a \<Rightarrow> idpf_world \<Rightarrow> 'a \<times> idpf_world"
    and loop :: "'a list \<Rightarrow> idpf_world \<Rightarrow> 'a list \<times> idpf_world"
    and S M :: "'a \<Rightarrow> ptr multiset" and pre post :: "'a \<Rightarrow> bool"
  assumes loop_Nil: "loop [] w = ([], w)"
    and loop_Cons: "loop (x # xs) w = (case step x w of (x, w) \<Rightarrow> case loop xs w of (xs, w) \<Rightarrow> (x # xs, w))"
    and step_holds: "pre x \<Longrightarrow> step x w = (y, w') \<Longrightarrow> holds w0 (S x + P) (M x + D) w \<Longrightarrow>
      holds w0 (S y + P) (M y + D) w' \<and> post y"
begin

lemma loop_holds:
  "\<forall>x \<in> set xs. pre x \<Longrightarrow> loop xs w = (ys, w') \<Longrightarrow> holds w0 (slots_of S xs + P) (slots_of M xs + D) w \<Longrightarrow>
     holds w0 (slots_of S ys + P) (slots_of M ys + D) w' \<and> (\<forall>y \<in> set ys. post y)"
proof (induction xs arbitrary: w w' ys P D)
  case (Cons x xs)
  obtain y w1 where s: "step x w = (y, w1)" by (metis surj_pair)
  obtain zs w2 where l: "loop xs w1 = (zs, w2)" by (metis surj_pair)
  have "ys = y # zs" "w' = w2" using Cons.prems(2) by (auto simp: loop_Cons s l)
  then show ?case
    using Cons.IH [OF _ l, of "S y + P" "M y + D"] step_holds [OF _ s, of w0 "slots_of S xs + P" "slots_of M xs + D"] Cons.prems
    by (auto simp: ac_simps)
qed (simp add: loop_Nil)

end

text \<open>Freeing the elements of a list, each of which may need an access through \<open>NULL\<close>.\<close>

locale free_loop =
  fixes step :: "'a \<Rightarrow> idpf_world \<Rightarrow> idpf_world option"
    and loop :: "'a list \<Rightarrow> idpf_world \<Rightarrow> idpf_world option"
    and S M :: "'a \<Rightarrow> ptr multiset" and part full :: "'a \<Rightarrow> bool"
  assumes loop_Nil: "loop [] w = Some w"
    and loop_Cons: "loop (x # xs) w = (case step x w of None \<Rightarrow> None | Some w \<Rightarrow> loop xs w)"
    and step_holds: "part x \<Longrightarrow> step x w = Some w' \<Longrightarrow> holds w0 (S x + P) (M x + D) w \<Longrightarrow> holds w0 P D w'"
    and step_full: "full x \<Longrightarrow> \<exists>w'. step x w = Some w'"
begin

lemma loop_holds:
  "\<forall>x \<in> set xs. part x \<Longrightarrow> loop xs w = Some w' \<Longrightarrow> holds w0 (slots_of S xs + P) (slots_of M xs + D) w \<Longrightarrow> holds w0 P D w'"
proof (induction xs arbitrary: w)
  case (Cons x xs)
  obtain w1 where s: "step x w = Some w1" "loop xs w1 = Some w'"
    using Cons.prems(2) by (cases "step x w") (auto simp: loop_Cons)
  then show ?case
    using Cons.IH [of w1] step_holds [OF _ s(1), of w0 "slots_of S xs + P" "slots_of M xs + D"] Cons.prems by (auto simp: ac_simps)
qed (simp add: loop_Nil)

lemma loop_full: "\<forall>x \<in> set xs. full x \<Longrightarrow> \<exists>w'. loop xs w = Some w'"
proof (induction xs arbitrary: w)
  case (Cons x xs)
  then obtain w1 where "step x w = Some w1" using step_full [of x w] by auto
  then show ?case using Cons by (simp add: loop_Cons)
qed (simp add: loop_Nil)

end

end
