(* ===== verification/Idpf_Vport_Mem.thy ===== *)
theory Idpf_Vport_Mem
  imports Idpf_Account
begin

text \<open>
  The memory of the queues of a vport (\<open>idpf_txrx.c\<close>): groups, queue objects, descriptor rings, buffer
  arrays and refill rings, as \<open>idpf_vport_queue_alloc_all\<close> and \<open>idpf_rx_bufs_init_all\<close> allocate and
  \<open>idpf_vport_queues_rel\<close> releases them.  A structure is the pointers it holds; \<open>NULL\<close> is a slot without
  an object.  Coherent DMA memory is counted apart from the heap.

  As a result \<open>None\<close> is an access through \<open>NULL\<close>.  The pages behind receive buffers have their own
  accounts in the theories of the receive path; here it only matters whether they could be allocated.
\<close>

section \<open>Structures\<close>

text \<open>The parameters: queue models, counts, flow scheduling, header split; \<open>qp_pages\<close> tells by its array whether
  the pages for the buffers of a queue can be allocated.\<close>

record qparams =
  qp_tx_split :: bool
  qp_rx_split :: bool
  qp_num_txq_grp :: nat
  qp_num_rxq_grp :: nat
  qp_txq_per_grp :: nat
  qp_rxq_per_grp :: nat
  qp_num_bufqs :: nat
  qp_flow_sch :: bool
  qp_hsplit :: bool
  qp_pages :: "ptr \<Rightarrow> bool"

record tx_q =
  tq_obj :: ptr
  tq_refillq :: ptr
  tq_bufs :: ptr
  tq_desc :: ptr
  tq_ring :: ptr

record tx_grp =
  tg_num :: nat
  tg_txqs :: ptr
  tg_qs :: "tx_q list"
  tg_complq :: ptr
  tg_compl_desc :: ptr

text \<open>
  A receive queue: \<open>rq_bufs\<close> in the single queue model, \<open>rq_bufq_bufs\<close> and the header arrays in the split
  one.
\<close>

record rx_q =
  rq_obj :: ptr
  rq_desc :: ptr
  rq_bufs :: ptr
  rq_bufq_bufs :: ptr
  rq_hdrs :: ptr
  rq_hdr_list :: "ptr list"

record buf_q =
  bq_desc :: ptr
  bq_bufs :: ptr
  bq_hdr :: ptr
  bq_refillqs :: ptr
  bq_num_refillqs :: nat
  bq_rings :: "ptr list"

record rx_grp =
  rg_num :: nat
  rg_qs :: "rx_q list"
  rg_bufq_sets :: ptr
  rg_num_bufq_sets :: nat
  rg_bqs :: "buf_q list"

record qmem =
  qm_txq_grps :: ptr
  qm_tgs :: "tx_grp list"
  qm_rxq_grps :: ptr
  qm_rgs :: "rx_grp list"
  qm_txqs :: ptr

definition tx_q_zero :: tx_q where
  "tx_q_zero = \<lparr>tq_obj = NULL, tq_refillq = NULL, tq_bufs = NULL, tq_desc = NULL, tq_ring = NULL\<rparr>"

definition tx_grp_zero :: tx_grp where
  "tx_grp_zero = \<lparr>tg_num = 0, tg_txqs = NULL, tg_qs = [], tg_complq = NULL, tg_compl_desc = NULL\<rparr>"

definition rx_q_zero :: rx_q where
  "rx_q_zero = \<lparr>rq_obj = NULL, rq_desc = NULL, rq_bufs = NULL, rq_bufq_bufs = NULL, rq_hdrs = NULL, rq_hdr_list = []\<rparr>"

definition buf_q_zero :: buf_q where
  "buf_q_zero = \<lparr>bq_desc = NULL, bq_bufs = NULL, bq_hdr = NULL, bq_refillqs = NULL, bq_num_refillqs = 0, bq_rings = []\<rparr>"

definition rx_grp_zero :: rx_grp where
  "rx_grp_zero = \<lparr>rg_num = 0, rg_qs = [], rg_bufq_sets = NULL, rg_num_bufq_sets = 0, rg_bqs = []\<rparr>"

definition qmem_zero :: qmem where
  "qmem_zero = \<lparr>qm_txq_grps = NULL, qm_tgs = [], qm_rxq_grps = NULL, qm_rgs = [], qm_txqs = NULL\<rparr>"

section \<open>Transmit groups\<close>

text \<open>The loops return whether they completed; what comes after a failure stays zero.\<close>

primrec txqs_alloc :: "nat \<Rightarrow> idpf_world \<Rightarrow> bool \<times> tx_q list \<times> idpf_world" where
  "txqs_alloc 0 w = (True, [], w)"
| "txqs_alloc (Suc n) w =
     (case kcalloc w of (p, w) \<Rightarrow>
        if p = NULL then (False, replicate (Suc n) tx_q_zero, w)
        else case txqs_alloc n w of (ok, qs, w) \<Rightarrow> (ok, tx_q_zero\<lparr>tq_obj := p\<rparr> # qs, w))"

primrec refillqs_alloc :: "bool \<Rightarrow> tx_q list \<Rightarrow> idpf_world \<Rightarrow> bool \<times> tx_q list \<times> idpf_world" where
  "refillqs_alloc flow [] w = (True, [], w)"
| "refillqs_alloc flow (q # qs) w =
     (if \<not> flow then (True, q # qs, w)
      else case kcalloc w of (p, w) \<Rightarrow>
        if p = NULL then (False, q # qs, w)
        else case refillqs_alloc flow qs w of (ok, qs, w) \<Rightarrow> (ok, q\<lparr>tq_refillq := p\<rparr> # qs, w))"

definition txq_group_init :: "qparams \<Rightarrow> idpf_world \<Rightarrow> bool \<times> tx_grp \<times> idpf_world" where
  "txq_group_init qp w =
     (case kcalloc w of (arr, w) \<Rightarrow>
        let g = tx_grp_zero\<lparr>tg_num := qp_txq_per_grp qp, tg_txqs := arr\<rparr> in
        if arr = NULL then (False, g, w)
        else case txqs_alloc (qp_txq_per_grp qp) w of (ok, qs, w) \<Rightarrow>
          if \<not> ok then (False, g\<lparr>tg_qs := qs\<rparr>, w)
          else case refillqs_alloc (qp_flow_sch qp) qs w of (ok, qs, w) \<Rightarrow>
            let g = g\<lparr>tg_qs := qs\<rparr> in
            if \<not> ok then (False, g, w)
            else if \<not> qp_tx_split qp then (True, g, w)
            else case kcalloc w of (c, w) \<Rightarrow> (c \<noteq> NULL, g\<lparr>tg_complq := c\<rparr>, w))"

primrec txq_groups_init :: "qparams \<Rightarrow> nat \<Rightarrow> idpf_world \<Rightarrow> bool \<times> tx_grp list \<times> idpf_world" where
  "txq_groups_init qp 0 w = (True, [], w)"
| "txq_groups_init qp (Suc n) w =
     (case txq_group_init qp w of (ok, g, w) \<Rightarrow>
        if \<not> ok then (False, g # replicate n tx_grp_zero, w)
        else case txq_groups_init qp n w of (ok, gs, w) \<Rightarrow> (ok, g # gs, w))"

definition txq_rel :: "tx_q \<Rightarrow> idpf_world \<Rightarrow> idpf_world" where
  "txq_rel q w = (if tq_obj q = NULL then w else kfree (tq_obj q) (kfree (tq_refillq q) w))"

definition txq_group_rel_one :: "qparams \<Rightarrow> tx_grp \<Rightarrow> idpf_world \<Rightarrow> idpf_world option" where
  "txq_group_rel_one qp g w =
     (if tg_num g \<noteq> 0 \<and> tg_txqs g = NULL then None
      else
        let w = kfree (tg_txqs g) (fold txq_rel (tg_qs g) w)
        in Some (if qp_tx_split qp then kfree (tg_complq g) w else w))"

primrec txq_groups_rel :: "qparams \<Rightarrow> tx_grp list \<Rightarrow> idpf_world \<Rightarrow> idpf_world option" where
  "txq_groups_rel qp [] w = Some w"
| "txq_groups_rel qp (g # gs) w =
     (case txq_group_rel_one qp g w of None \<Rightarrow> None | Some w \<Rightarrow> txq_groups_rel qp gs w)"

definition idpf_txq_group_rel :: "qparams \<Rightarrow> qmem \<Rightarrow> idpf_world \<Rightarrow> (qmem \<times> idpf_world) option" where
  "idpf_txq_group_rel qp r w =
     (if qm_txq_grps r = NULL then Some (r, w)
      else case txq_groups_rel qp (qm_tgs r) w of None \<Rightarrow> None
        | Some w \<Rightarrow> Some (r\<lparr>qm_txq_grps := NULL, qm_tgs := []\<rparr>, kfree (qm_txq_grps r) w))"

definition idpf_txq_group_alloc :: "qparams \<Rightarrow> qmem \<Rightarrow> idpf_world \<Rightarrow> (ret \<times> qmem \<times> idpf_world) option" where
  "idpf_txq_group_alloc qp r w =
     (case kcalloc w of (p, w) \<Rightarrow>
        if p = NULL then Some (Some ENOMEM, r\<lparr>qm_txq_grps := NULL, qm_tgs := []\<rparr>, w)
        else case txq_groups_init qp (qp_num_txq_grp qp) w of (ok, gs, w) \<Rightarrow>
          let r = r\<lparr>qm_txq_grps := p, qm_tgs := gs\<rparr> in
          if ok then Some (ret_ok, r, w)
          else case idpf_txq_group_rel qp r w of None \<Rightarrow> None | Some (r, w) \<Rightarrow> Some (Some ENOMEM, r, w))"

section \<open>Receive groups\<close>

primrec rxqs_alloc :: "nat \<Rightarrow> idpf_world \<Rightarrow> bool \<times> rx_q list \<times> idpf_world" where
  "rxqs_alloc 0 w = (True, [], w)"
| "rxqs_alloc (Suc n) w =
     (case kcalloc w of (p, w) \<Rightarrow>
        if p = NULL then (False, replicate (Suc n) rx_q_zero, w)
        else case rxqs_alloc n w of (ok, qs, w) \<Rightarrow> (ok, rx_q_zero\<lparr>rq_obj := p\<rparr> # qs, w))"

primrec rings_alloc :: "nat \<Rightarrow> idpf_world \<Rightarrow> bool \<times> ptr list \<times> idpf_world" where
  "rings_alloc 0 w = (True, [], w)"
| "rings_alloc (Suc n) w =
     (case kcalloc w of (p, w) \<Rightarrow>
        if p = NULL then (False, replicate (Suc n) NULL, w)
        else case rings_alloc n w of (ok, ps, w) \<Rightarrow> (ok, p # ps, w))"

primrec bufq_sets_init :: "nat \<Rightarrow> nat \<Rightarrow> idpf_world \<Rightarrow> bool \<times> buf_q list \<times> idpf_world" where
  "bufq_sets_init num_rxq 0 w = (True, [], w)"
| "bufq_sets_init num_rxq (Suc n) w =
     (case kcalloc w of (p, w) \<Rightarrow>
        let b = buf_q_zero\<lparr>bq_num_refillqs := num_rxq, bq_refillqs := p\<rparr> in
        if p = NULL then (False, b # replicate n buf_q_zero, w)
        else case rings_alloc num_rxq w of (ok, ps, w) \<Rightarrow>
          let b = b\<lparr>bq_rings := ps\<rparr> in
          if \<not> ok then (False, b # replicate n buf_q_zero, w)
          else case bufq_sets_init num_rxq n w of (ok, bs, w) \<Rightarrow> (ok, b # bs, w))"

definition rxq_group_init :: "qparams \<Rightarrow> idpf_world \<Rightarrow> bool \<times> rx_grp \<times> idpf_world" where
  "rxq_group_init qp w =
     (let g = rx_grp_zero\<lparr>rg_num := qp_rxq_per_grp qp\<rparr> in
      case rxqs_alloc (qp_rxq_per_grp qp) w of (ok, qs, w) \<Rightarrow>
        let g = g\<lparr>rg_qs := qs\<rparr> in
        if \<not> ok \<or> \<not> qp_rx_split qp then (ok, g, w)
        else case kcalloc w of (p, w) \<Rightarrow>
          if p = NULL then (False, g, w)
          else case bufq_sets_init (qp_rxq_per_grp qp) (qp_num_bufqs qp) w of (ok, bs, w) \<Rightarrow>
            (ok, g\<lparr>rg_bufq_sets := p, rg_num_bufq_sets := qp_num_bufqs qp, rg_bqs := bs\<rparr>, w))"

primrec rxq_groups_init :: "qparams \<Rightarrow> nat \<Rightarrow> idpf_world \<Rightarrow> bool \<times> rx_grp list \<times> idpf_world" where
  "rxq_groups_init qp 0 w = (True, [], w)"
| "rxq_groups_init qp (Suc n) w =
     (case rxq_group_init qp w of (ok, g, w) \<Rightarrow>
        if \<not> ok then (False, g # replicate n rx_grp_zero, w)
        else case rxq_groups_init qp n w of (ok, gs, w) \<Rightarrow> (ok, g # gs, w))"

primrec idpf_rxq_sw_queue_rel :: "buf_q list \<Rightarrow> idpf_world \<Rightarrow> idpf_world option" where
  "idpf_rxq_sw_queue_rel [] w = Some w"
| "idpf_rxq_sw_queue_rel (b # bs) w =
     (if bq_num_refillqs b \<noteq> 0 \<and> bq_refillqs b = NULL then None
      else idpf_rxq_sw_queue_rel bs (kfree (bq_refillqs b) (kfree_list (bq_rings b) w)))"

definition rxq_group_rel_one :: "qparams \<Rightarrow> rx_grp \<Rightarrow> idpf_world \<Rightarrow> idpf_world option" where
  "rxq_group_rel_one qp g w =
     (let w = kfree_list (map rq_obj (rg_qs g)) w in
      if \<not> qp_rx_split qp then Some w
      else case idpf_rxq_sw_queue_rel (take (rg_num_bufq_sets g) (rg_bqs g)) w of None \<Rightarrow> None
        | Some w \<Rightarrow> Some (kfree (rg_bufq_sets g) w))"

primrec rxq_groups_rel :: "qparams \<Rightarrow> rx_grp list \<Rightarrow> idpf_world \<Rightarrow> idpf_world option" where
  "rxq_groups_rel qp [] w = Some w"
| "rxq_groups_rel qp (g # gs) w =
     (case rxq_group_rel_one qp g w of None \<Rightarrow> None | Some w \<Rightarrow> rxq_groups_rel qp gs w)"

definition idpf_rxq_group_rel :: "qparams \<Rightarrow> qmem \<Rightarrow> idpf_world \<Rightarrow> (qmem \<times> idpf_world) option" where
  "idpf_rxq_group_rel qp r w =
     (if qm_rxq_grps r = NULL then Some (r, w)
      else case rxq_groups_rel qp (qm_rgs r) w of None \<Rightarrow> None
        | Some w \<Rightarrow> Some (r\<lparr>qm_rxq_grps := NULL, qm_rgs := []\<rparr>, kfree (qm_rxq_grps r) w))"

definition idpf_rxq_group_alloc :: "qparams \<Rightarrow> qmem \<Rightarrow> idpf_world \<Rightarrow> (ret \<times> qmem \<times> idpf_world) option" where
  "idpf_rxq_group_alloc qp r w =
     (case kcalloc w of (p, w) \<Rightarrow>
        if p = NULL then Some (Some ENOMEM, r\<lparr>qm_rxq_grps := NULL, qm_rgs := []\<rparr>, w)
        else case rxq_groups_init qp (qp_num_rxq_grp qp) w of (ok, gs, w) \<Rightarrow>
          let r = r\<lparr>qm_rxq_grps := p, qm_rgs := gs\<rparr> in
          if ok then Some (ret_ok, r, w)
          else case idpf_rxq_group_rel qp r w of None \<Rightarrow> None | Some (r, w) \<Rightarrow> Some (Some ENOMEM, r, w))"

definition idpf_vport_queue_grp_rel_all :: "qparams \<Rightarrow> qmem \<Rightarrow> idpf_world \<Rightarrow> (qmem \<times> idpf_world) option" where
  "idpf_vport_queue_grp_rel_all qp r w =
     (case idpf_txq_group_rel qp r w of None \<Rightarrow> None | Some (r, w) \<Rightarrow> idpf_rxq_group_rel qp r w)"

definition idpf_vport_queue_grp_alloc_all :: "qparams \<Rightarrow> qmem \<Rightarrow> idpf_world \<Rightarrow> (ret \<times> qmem \<times> idpf_world) option" where
  "idpf_vport_queue_grp_alloc_all qp r w =
     (let undo = (\<lambda>e r w. case idpf_vport_queue_grp_rel_all qp r w of None \<Rightarrow> None | Some (r, w) \<Rightarrow> Some (Some e, r, w)) in
      case idpf_txq_group_alloc qp r w of None \<Rightarrow> None
      | Some (Some e, r, w) \<Rightarrow> undo e r w
      | Some (None, r, w) \<Rightarrow>
          (case idpf_rxq_group_alloc qp r w of None \<Rightarrow> None
           | Some (Some e, r, w) \<Rightarrow> undo e r w
           | Some (None, r, w) \<Rightarrow> Some (ret_ok, r, w)))"

section \<open>Transmit descriptor rings\<close>

text \<open>The pointer to the refill ring is not cleared; it is not looked at once the descriptor ring is gone.\<close>

definition idpf_tx_buf_rel_all :: "tx_q \<Rightarrow> idpf_world \<Rightarrow> tx_q \<times> idpf_world" where
  "idpf_tx_buf_rel_all q w = (if tq_bufs q = NULL then (q, w) else (q\<lparr>tq_bufs := NULL\<rparr>, kfree (tq_bufs q) w))"

definition idpf_tx_desc_rel :: "tx_q \<Rightarrow> idpf_world \<Rightarrow> tx_q \<times> idpf_world" where
  "idpf_tx_desc_rel q w =
     (case idpf_tx_buf_rel_all q w of (q, w) \<Rightarrow>
        if tq_desc q = NULL then (q, w)
        else
          let w = (if tq_refillq q = NULL then w else kfree (tq_ring q) w)
          in (q\<lparr>tq_desc := NULL\<rparr>, dma_free_attrs (tq_desc q) w))"

definition complq_desc_rel :: "tx_grp \<Rightarrow> idpf_world \<Rightarrow> tx_grp \<times> idpf_world" where
  "complq_desc_rel g w =
     (if tg_complq g = NULL \<or> tg_compl_desc g = NULL then (g, w)
      else (g\<lparr>tg_compl_desc := NULL\<rparr>, dma_free_attrs (tg_compl_desc g) w))"

primrec txqs_desc_rel :: "tx_q list \<Rightarrow> idpf_world \<Rightarrow> tx_q list \<times> idpf_world" where
  "txqs_desc_rel [] w = ([], w)"
| "txqs_desc_rel (q # qs) w =
     (case (if tq_obj q = NULL then (q, w) else idpf_tx_desc_rel q w) of (q, w) \<Rightarrow>
        case txqs_desc_rel qs w of (qs, w) \<Rightarrow> (q # qs, w))"

definition tx_group_desc_rel :: "qparams \<Rightarrow> tx_grp \<Rightarrow> idpf_world \<Rightarrow> tx_grp \<times> idpf_world" where
  "tx_group_desc_rel qp g w =
     (case txqs_desc_rel (tg_qs g) w of (qs, w) \<Rightarrow>
        if qp_tx_split qp then complq_desc_rel (g\<lparr>tg_qs := qs\<rparr>) w else (g\<lparr>tg_qs := qs\<rparr>, w))"

primrec tx_groups_desc_rel :: "qparams \<Rightarrow> tx_grp list \<Rightarrow> idpf_world \<Rightarrow> tx_grp list \<times> idpf_world" where
  "tx_groups_desc_rel qp [] w = ([], w)"
| "tx_groups_desc_rel qp (g # gs) w =
     (case tx_group_desc_rel qp g w of (g, w) \<Rightarrow> case tx_groups_desc_rel qp gs w of (gs, w) \<Rightarrow> (g # gs, w))"

definition idpf_tx_desc_rel_all :: "qparams \<Rightarrow> qmem \<Rightarrow> idpf_world \<Rightarrow> qmem \<times> idpf_world" where
  "idpf_tx_desc_rel_all qp r w =
     (if qm_txq_grps r = NULL then (r, w)
      else case tx_groups_desc_rel qp (qm_tgs r) w of (gs, w) \<Rightarrow> (r\<lparr>qm_tgs := gs\<rparr>, w))"

text \<open>A transmit queue: bookkeeping buffers, descriptor ring and, with flow scheduling, the refill ring.\<close>

definition idpf_tx_desc_alloc :: "bool \<Rightarrow> tx_q \<Rightarrow> idpf_world \<Rightarrow> ret \<times> tx_q \<times> idpf_world" where
  "idpf_tx_desc_alloc flow q w =
     (let undo = (\<lambda>q w. case idpf_tx_desc_rel q w of (q, w) \<Rightarrow> (Some ENOMEM, q, w)) in
      case kcalloc w of (bufs, w) \<Rightarrow>
        let q = q\<lparr>tq_bufs := bufs\<rparr> in
        if bufs = NULL then undo q w
        else case dma_alloc w of (d, w) \<Rightarrow>
          let q = q\<lparr>tq_desc := d\<rparr> in
          if d = NULL then undo q w
          else if \<not> flow then (ret_ok, q, w)
          else case kcalloc w of (ring, w) \<Rightarrow>
            let q = q\<lparr>tq_ring := ring\<rparr> in
            if ring = NULL then undo q w else (ret_ok, q, w))"

primrec txqs_desc_alloc :: "bool \<Rightarrow> tx_q list \<Rightarrow> idpf_world \<Rightarrow> ret \<times> tx_q list \<times> idpf_world" where
  "txqs_desc_alloc flow [] w = (ret_ok, [], w)"
| "txqs_desc_alloc flow (q # qs) w =
     (case idpf_tx_desc_alloc flow q w of
        (Some e, q, w) \<Rightarrow> (Some e, q # qs, w)
      | (None, q, w) \<Rightarrow> (case txqs_desc_alloc flow qs w of (err, qs, w) \<Rightarrow> (err, q # qs, w)))"

definition tx_group_desc_alloc :: "qparams \<Rightarrow> tx_grp \<Rightarrow> idpf_world \<Rightarrow> ret \<times> tx_grp \<times> idpf_world" where
  "tx_group_desc_alloc qp g w =
     (case txqs_desc_alloc (qp_flow_sch qp) (tg_qs g) w of (err, qs, w) \<Rightarrow>
        let g = g\<lparr>tg_qs := qs\<rparr> in
        if err \<noteq> ret_ok \<or> \<not> qp_tx_split qp then (err, g, w)
        else case dma_alloc w of (d, w) \<Rightarrow>
          (if d = NULL then Some ENOMEM else ret_ok, g\<lparr>tg_compl_desc := d\<rparr>, w))"

primrec tx_groups_desc_alloc :: "qparams \<Rightarrow> tx_grp list \<Rightarrow> idpf_world \<Rightarrow> ret \<times> tx_grp list \<times> idpf_world" where
  "tx_groups_desc_alloc qp [] w = (ret_ok, [], w)"
| "tx_groups_desc_alloc qp (g # gs) w =
     (case tx_group_desc_alloc qp g w of
        (Some e, g, w) \<Rightarrow> (Some e, g # gs, w)
      | (None, g, w) \<Rightarrow> (case tx_groups_desc_alloc qp gs w of (err, gs, w) \<Rightarrow> (err, g # gs, w)))"

definition idpf_tx_desc_alloc_all :: "qparams \<Rightarrow> qmem \<Rightarrow> idpf_world \<Rightarrow> ret \<times> qmem \<times> idpf_world" where
  "idpf_tx_desc_alloc_all qp r w =
     (case tx_groups_desc_alloc qp (qm_tgs r) w of (err, gs, w) \<Rightarrow> (err, r\<lparr>qm_tgs := gs\<rparr>, w))"

section \<open>Receive descriptor rings and buffers\<close>

definition rx_bufs_rel :: "ptr \<Rightarrow> ptr \<Rightarrow> idpf_world \<Rightarrow> (ptr \<times> ptr) \<times> idpf_world" where
  "rx_bufs_rel bufs hdr w =
     (if bufs = NULL then ((bufs, hdr), w) else ((NULL, NULL), kfree bufs (dma_free_attrs hdr w)))"

definition idpf_rxq_rel :: "qparams \<Rightarrow> rx_q \<Rightarrow> idpf_world \<Rightarrow> rx_q \<times> idpf_world" where
  "idpf_rxq_rel qp q w =
     (let w = dma_free_attrs (rq_desc q) w; q = q\<lparr>rq_desc := NULL\<rparr> in
      if \<not> qp_rx_split qp then
        (case rx_bufs_rel (rq_bufs q) NULL w of ((bufs, hdr), w) \<Rightarrow> (q\<lparr>rq_bufs := bufs\<rparr>, w))
      else
        let w = (if rq_hdrs q = NULL then w else kfree_list (rq_hdr_list q) w);
            w = kfree (rq_bufq_bufs q) (kfree (rq_hdrs q) w)
        in (q\<lparr>rq_hdrs := NULL, rq_hdr_list := [], rq_bufq_bufs := NULL\<rparr>, w))"

definition idpf_bufq_rel :: "buf_q \<Rightarrow> idpf_world \<Rightarrow> buf_q \<times> idpf_world" where
  "idpf_bufq_rel b w =
     (case rx_bufs_rel (bq_bufs b) (bq_hdr b) w of ((bufs, hdr), w) \<Rightarrow>
        (b\<lparr>bq_bufs := bufs, bq_hdr := hdr, bq_desc := NULL\<rparr>, dma_free_attrs (bq_desc b) w))"

primrec rxqs_rel :: "qparams \<Rightarrow> rx_q list \<Rightarrow> idpf_world \<Rightarrow> rx_q list \<times> idpf_world" where
  "rxqs_rel qp [] w = ([], w)"
| "rxqs_rel qp (q # qs) w =
     (case idpf_rxq_rel qp q w of (q, w) \<Rightarrow> case rxqs_rel qp qs w of (qs, w) \<Rightarrow> (q # qs, w))"

primrec bufqs_rel :: "buf_q list \<Rightarrow> idpf_world \<Rightarrow> buf_q list \<times> idpf_world" where
  "bufqs_rel [] w = ([], w)"
| "bufqs_rel (b # bs) w =
     (case idpf_bufq_rel b w of (b, w) \<Rightarrow> case bufqs_rel bs w of (bs, w) \<Rightarrow> (b # bs, w))"

definition rx_group_desc_rel :: "qparams \<Rightarrow> rx_grp \<Rightarrow> idpf_world \<Rightarrow> rx_grp \<times> idpf_world" where
  "rx_group_desc_rel qp g w =
     (case rxqs_rel qp (rg_qs g) w of (qs, w) \<Rightarrow>
        if \<not> qp_rx_split qp \<or> rg_bufq_sets g = NULL then (g\<lparr>rg_qs := qs\<rparr>, w)
        else case bufqs_rel (rg_bqs g) w of (bs, w) \<Rightarrow> (g\<lparr>rg_qs := qs, rg_bqs := bs\<rparr>, w))"

primrec rx_groups_desc_rel :: "qparams \<Rightarrow> rx_grp list \<Rightarrow> idpf_world \<Rightarrow> rx_grp list \<times> idpf_world" where
  "rx_groups_desc_rel qp [] w = ([], w)"
| "rx_groups_desc_rel qp (g # gs) w =
     (case rx_group_desc_rel qp g w of (g, w) \<Rightarrow> case rx_groups_desc_rel qp gs w of (gs, w) \<Rightarrow> (g # gs, w))"

definition idpf_rx_desc_rel_all :: "qparams \<Rightarrow> qmem \<Rightarrow> idpf_world \<Rightarrow> qmem \<times> idpf_world" where
  "idpf_rx_desc_rel_all qp r w =
     (if qm_rxq_grps r = NULL then (r, w)
      else case rx_groups_desc_rel qp (qm_rgs r) w of (gs, w) \<Rightarrow> (r\<lparr>qm_rgs := gs\<rparr>, w))"

primrec rxqs_desc_alloc :: "rx_q list \<Rightarrow> idpf_world \<Rightarrow> ret \<times> rx_q list \<times> idpf_world" where
  "rxqs_desc_alloc [] w = (ret_ok, [], w)"
| "rxqs_desc_alloc (q # qs) w =
     (case dma_alloc w of (d, w) \<Rightarrow>
        let q = q\<lparr>rq_desc := d\<rparr> in
        if d = NULL then (Some ENOMEM, q # qs, w)
        else case rxqs_desc_alloc qs w of (err, qs, w) \<Rightarrow> (err, q # qs, w))"

primrec bufqs_desc_alloc :: "buf_q list \<Rightarrow> idpf_world \<Rightarrow> ret \<times> buf_q list \<times> idpf_world" where
  "bufqs_desc_alloc [] w = (ret_ok, [], w)"
| "bufqs_desc_alloc (q # qs) w =
     (case dma_alloc w of (d, w) \<Rightarrow>
        let q = q\<lparr>bq_desc := d\<rparr> in
        if d = NULL then (Some ENOMEM, q # qs, w)
        else case bufqs_desc_alloc qs w of (err, qs, w) \<Rightarrow> (err, q # qs, w))"

definition rx_group_desc_alloc :: "qparams \<Rightarrow> rx_grp \<Rightarrow> idpf_world \<Rightarrow> ret \<times> rx_grp \<times> idpf_world" where
  "rx_group_desc_alloc qp g w =
     (case rxqs_desc_alloc (rg_qs g) w of (err, qs, w) \<Rightarrow>
        let g = g\<lparr>rg_qs := qs\<rparr> in
        if err \<noteq> ret_ok \<or> \<not> qp_rx_split qp then (err, g, w)
        else case bufqs_desc_alloc (rg_bqs g) w of (err, bs, w) \<Rightarrow> (err, g\<lparr>rg_bqs := bs\<rparr>, w))"

primrec rx_groups_desc_alloc :: "qparams \<Rightarrow> rx_grp list \<Rightarrow> idpf_world \<Rightarrow> ret \<times> rx_grp list \<times> idpf_world" where
  "rx_groups_desc_alloc qp [] w = (ret_ok, [], w)"
| "rx_groups_desc_alloc qp (g # gs) w =
     (case rx_group_desc_alloc qp g w of
        (Some e, g, w) \<Rightarrow> (Some e, g # gs, w)
      | (None, g, w) \<Rightarrow> (case rx_groups_desc_alloc qp gs w of (err, gs, w) \<Rightarrow> (err, g # gs, w)))"

definition idpf_rx_desc_alloc_all :: "qparams \<Rightarrow> qmem \<Rightarrow> idpf_world \<Rightarrow> ret \<times> qmem \<times> idpf_world" where
  "idpf_rx_desc_alloc_all qp r w =
     (case rx_groups_desc_alloc qp (qm_rgs r) w of (err, gs, w) \<Rightarrow>
        let r = r\<lparr>qm_rgs := gs\<rparr> in
        if err = ret_ok then (ret_ok, r, w)
        else case idpf_rx_desc_rel_all qp r w of (r, w) \<Rightarrow> (err, r, w))"

text \<open>The buffers of a buffer queue: the array, the header buffers, the pages.\<close>

definition rx_bufs_init_mem :: "qparams \<Rightarrow> buf_q \<Rightarrow> idpf_world \<Rightarrow> ret \<times> buf_q \<times> idpf_world" where
  "rx_bufs_init_mem qp b w =
     (case kcalloc w of (p, w) \<Rightarrow>
        let b = b\<lparr>bq_bufs := p\<rparr> in
        if p = NULL then (Some ENOMEM, b, w)
        else if \<not> qp_hsplit qp then (if qp_pages qp p then ret_ok else Some ENOMEM, b, w)
        else case dma_alloc w of (h, w) \<Rightarrow>
          (if h = NULL \<or> \<not> qp_pages qp p then Some ENOMEM else ret_ok, b\<lparr>bq_hdr := h\<rparr>, w))"

text \<open>In the single queue model a failure releases the array again.\<close>

definition rx_bufs_init_singleq_mem :: "qparams \<Rightarrow> rx_q \<Rightarrow> idpf_world \<Rightarrow> ret \<times> rx_q \<times> idpf_world" where
  "rx_bufs_init_singleq_mem qp q w =
     (case kcalloc w of (p, w) \<Rightarrow>
        if p = NULL then (Some ENOMEM, q\<lparr>rq_bufs := NULL\<rparr>, w)
        else if qp_pages qp p then (ret_ok, q\<lparr>rq_bufs := p\<rparr>, w)
        else (Some ENOMEM, q\<lparr>rq_bufs := NULL\<rparr>, kfree p w))"

primrec bufqs_bufs_init :: "qparams \<Rightarrow> buf_q list \<Rightarrow> idpf_world \<Rightarrow> ret \<times> buf_q list \<times> idpf_world" where
  "bufqs_bufs_init qp [] w = (ret_ok, [], w)"
| "bufqs_bufs_init qp (b # bs) w =
     (case rx_bufs_init_mem qp b w of
        (Some e, b, w) \<Rightarrow> (Some e, b # bs, w)
      | (None, b, w) \<Rightarrow> (case bufqs_bufs_init qp bs w of (err, bs, w) \<Rightarrow> (err, b # bs, w)))"

primrec rxqs_bufs_init :: "qparams \<Rightarrow> rx_q list \<Rightarrow> idpf_world \<Rightarrow> ret \<times> rx_q list \<times> idpf_world" where
  "rxqs_bufs_init qp [] w = (ret_ok, [], w)"
| "rxqs_bufs_init qp (q # qs) w =
     (case rx_bufs_init_singleq_mem qp q w of
        (Some e, q, w) \<Rightarrow> (Some e, q # qs, w)
      | (None, q, w) \<Rightarrow> (case rxqs_bufs_init qp qs w of (err, qs, w) \<Rightarrow> (err, q # qs, w)))"

definition rx_group_bufs_init :: "qparams \<Rightarrow> rx_grp \<Rightarrow> idpf_world \<Rightarrow> ret \<times> rx_grp \<times> idpf_world" where
  "rx_group_bufs_init qp g w =
     (if qp_rx_split qp then (case bufqs_bufs_init qp (rg_bqs g) w of (err, bs, w) \<Rightarrow> (err, g\<lparr>rg_bqs := bs\<rparr>, w))
      else (case rxqs_bufs_init qp (rg_qs g) w of (err, qs, w) \<Rightarrow> (err, g\<lparr>rg_qs := qs\<rparr>, w)))"

primrec rx_groups_bufs_init :: "qparams \<Rightarrow> rx_grp list \<Rightarrow> idpf_world \<Rightarrow> ret \<times> rx_grp list \<times> idpf_world" where
  "rx_groups_bufs_init qp [] w = (ret_ok, [], w)"
| "rx_groups_bufs_init qp (g # gs) w =
     (case rx_group_bufs_init qp g w of
        (Some e, g, w) \<Rightarrow> (Some e, g # gs, w)
      | (None, g, w) \<Rightarrow> (case rx_groups_bufs_init qp gs w of (err, gs, w) \<Rightarrow> (err, g # gs, w)))"

text \<open>Links from a receive queue to the buffers of its buffer queues, with their header buffers.\<close>

definition rxq_map_rings :: "qparams \<Rightarrow> rx_q \<Rightarrow> idpf_world \<Rightarrow> ret \<times> rx_q \<times> idpf_world" where
  "rxq_map_rings qp q w =
     (case kcalloc w of (p, w) \<Rightarrow>
        let q = q\<lparr>rq_bufq_bufs := p\<rparr> in
        if p = NULL then (Some ENOMEM, q, w)
        else if \<not> qp_hsplit qp then (ret_ok, q, w)
        else case kcalloc w of (h, w) \<Rightarrow>
          let q = q\<lparr>rq_hdrs := h\<rparr> in
          if h = NULL then (Some ENOMEM, q, w)
          else case rings_alloc (qp_num_bufqs qp) w of (ok, hs, w) \<Rightarrow>
            (if ok then ret_ok else Some ENOMEM, q\<lparr>rq_hdr_list := hs\<rparr>, w))"

primrec rxqs_map_rings :: "qparams \<Rightarrow> rx_q list \<Rightarrow> idpf_world \<Rightarrow> ret \<times> rx_q list \<times> idpf_world" where
  "rxqs_map_rings qp [] w = (ret_ok, [], w)"
| "rxqs_map_rings qp (q # qs) w =
     (case rxq_map_rings qp q w of
        (Some e, q, w) \<Rightarrow> (Some e, q # qs, w)
      | (None, q, w) \<Rightarrow> (case rxqs_map_rings qp qs w of (err, qs, w) \<Rightarrow> (err, q # qs, w)))"

definition rx_group_map_rings :: "qparams \<Rightarrow> rx_grp \<Rightarrow> idpf_world \<Rightarrow> ret \<times> rx_grp \<times> idpf_world" where
  "rx_group_map_rings qp g w = (case rxqs_map_rings qp (rg_qs g) w of (err, qs, w) \<Rightarrow> (err, g\<lparr>rg_qs := qs\<rparr>, w))"

primrec idpf_rx_map_buffer_rings :: "qparams \<Rightarrow> rx_grp list \<Rightarrow> idpf_world \<Rightarrow> ret \<times> rx_grp list \<times> idpf_world" where
  "idpf_rx_map_buffer_rings qp [] w = (ret_ok, [], w)"
| "idpf_rx_map_buffer_rings qp (g # gs) w =
     (case rx_group_map_rings qp g w of
        (Some e, g, w) \<Rightarrow> (Some e, g # gs, w)
      | (None, g, w) \<Rightarrow> (case idpf_rx_map_buffer_rings qp gs w of (err, gs, w) \<Rightarrow> (err, g # gs, w)))"

definition idpf_rx_bufs_init_all :: "qparams \<Rightarrow> qmem \<Rightarrow> idpf_world \<Rightarrow> ret \<times> qmem \<times> idpf_world" where
  "idpf_rx_bufs_init_all qp r w =
     (case rx_groups_bufs_init qp (qm_rgs r) w of (err, gs, w) \<Rightarrow>
        if err \<noteq> ret_ok \<or> \<not> qp_rx_split qp then (err, r\<lparr>qm_rgs := gs\<rparr>, w)
        else case idpf_rx_map_buffer_rings qp gs w of (err, gs, w) \<Rightarrow> (err, r\<lparr>qm_rgs := gs\<rparr>, w))"

section \<open>All queues of a vport\<close>

text \<open>
  The array for the fast path: all transmit queues in order.  The third result lists the indexes whose
  queue gets the timestamp capabilities: the code writes to the index of the group.
\<close>

definition fast_path_order :: "tx_grp list \<Rightarrow> ptr list" where
  "fast_path_order gs = concat (map (\<lambda>g. map tq_obj (tg_qs g)) gs)"

definition fast_path_caps :: "bool \<Rightarrow> tx_grp list \<Rightarrow> nat list" where
  "fast_path_caps caps gs = (if caps then concat (map (\<lambda>i. replicate (tg_num (gs ! i)) i) [0..<length gs]) else [])"

definition idpf_fast_path_txq_init :: "qmem \<Rightarrow> idpf_world \<Rightarrow> ret \<times> qmem \<times> idpf_world" where
  "idpf_fast_path_txq_init r w =
     (case kcalloc w of (p, w) \<Rightarrow> (if p = NULL then Some ENOMEM else ret_ok, r\<lparr>qm_txqs := p\<rparr>, w))"

definition idpf_vport_queues_rel :: "qparams \<Rightarrow> qmem \<Rightarrow> idpf_world \<Rightarrow> (qmem \<times> idpf_world) option" where
  "idpf_vport_queues_rel qp r w =
     (case idpf_tx_desc_rel_all qp r w of (r, w) \<Rightarrow>
      case idpf_rx_desc_rel_all qp r w of (r, w) \<Rightarrow>
      case idpf_vport_queue_grp_rel_all qp r w of None \<Rightarrow> None
      | Some (r, w) \<Rightarrow> Some (r\<lparr>qm_txqs := NULL\<rparr>, kfree (qm_txqs r) w))"

definition idpf_vport_queue_alloc_all :: "qparams \<Rightarrow> qmem \<Rightarrow> idpf_world \<Rightarrow> (ret \<times> qmem \<times> idpf_world) option" where
  "idpf_vport_queue_alloc_all qp r w =
     (let undo = (\<lambda>e r w. case idpf_vport_queues_rel qp r w of None \<Rightarrow> None | Some (r, w) \<Rightarrow> Some (Some e, r, w)) in
      case idpf_vport_queue_grp_alloc_all qp r w of None \<Rightarrow> None
      | Some (Some e, r, w) \<Rightarrow> undo e r w
      | Some (None, r, w) \<Rightarrow>
          (case idpf_tx_desc_alloc_all qp r w of
             (Some e, r, w) \<Rightarrow> undo e r w
           | (None, r, w) \<Rightarrow>
               (case idpf_rx_desc_alloc_all qp r w of
                  (Some e, r, w) \<Rightarrow> undo e r w
                | (None, r, w) \<Rightarrow>
                    (case idpf_fast_path_txq_init r w of
                       (Some e, r, w) \<Rightarrow> undo e r w
                     | (None, r, w) \<Rightarrow> Some (ret_ok, r, w)))))"

end
