(* ===== verification/Idpf_Vport_Mem_Tx.thy ===== *)
theory Idpf_Vport_Mem_Tx
  imports Idpf_Vport_Mem
begin

text \<open>
  The accounts of the transmit side of the queue memory: what groups, queues, rings and buffer arrays hold, and
  that building, filling, emptying and freeing them keeps the account.
\<close>

section \<open>Accounts of the transmit side\<close>

text \<open>The pointer to the refill ring counts only while there is a descriptor ring.\<close>

definition tq_slots :: "tx_q \<Rightarrow> ptr multiset" where
  "tq_slots q = slot (tq_obj q) + slot (tq_refillq q) + slot (tq_bufs q) + (if tq_desc q = NULL then {#} else slot (tq_ring q))"

definition tq_dmas :: "tx_q \<Rightarrow> ptr multiset" where
  "tq_dmas q = slot (tq_desc q)"

definition tg_slots :: "tx_grp \<Rightarrow> ptr multiset" where
  "tg_slots g = slot (tg_txqs g) + slot (tg_complq g) + slots_of tq_slots (tg_qs g)"

definition tg_dmas :: "tx_grp \<Rightarrow> ptr multiset" where
  "tg_dmas g = slot (tg_compl_desc g) + slots_of tq_dmas (tg_qs g)"

text \<open>A queue without rings; a queue whose object and refill queue are there; one with rings.\<close>

definition tq_bare :: "tx_q \<Rightarrow> bool" where
  "tq_bare q \<longleftrightarrow> tq_bufs q = NULL \<and> tq_desc q = NULL \<and> (tq_obj q = NULL \<longrightarrow> tq_refillq q = NULL)"

definition tq_ok :: "bool \<Rightarrow> tx_q \<Rightarrow> bool" where
  "tq_ok flow q \<longleftrightarrow> tq_obj q \<noteq> NULL \<and> (flow \<longrightarrow> tq_refillq q \<noteq> NULL) \<and> (\<not> flow \<longrightarrow> tq_ring q = NULL)"

definition tg_part :: "qparams \<Rightarrow> tx_grp \<Rightarrow> bool" where
  "tg_part qp g \<longleftrightarrow> (\<forall>q \<in> set (tg_qs g). tq_bare q) \<and> tg_compl_desc g = NULL \<and> (\<not> qp_tx_split qp \<longrightarrow> tg_complq g = NULL)"

definition tg_ok :: "qparams \<Rightarrow> tx_grp \<Rightarrow> bool" where
  "tg_ok qp g \<longleftrightarrow> (\<forall>q \<in> set (tg_qs g). tq_ok (qp_flow_sch qp) q) \<and> tg_txqs g \<noteq> NULL \<and>
     (if qp_tx_split qp then tg_complq g \<noteq> NULL else tg_complq g = NULL \<and> tg_compl_desc g = NULL)"

lemmas tx_account_defs = tq_slots_def tq_dmas_def tg_slots_def tg_dmas_def tq_bare_def tq_ok_def tg_part_def tg_ok_def
  tx_q_zero_def tx_grp_zero_def

interpretation txqs_build: build_loop "\<lambda>w. case kcalloc w of (p, w) \<Rightarrow> (p \<noteq> NULL, tx_q_zero\<lparr>tq_obj := p\<rparr>, w)" txqs_alloc
  tx_q_zero tq_slots tq_dmas "\<lambda>q. tq_bare q \<and> tq_refillq q = NULL \<and> tq_ring q = NULL" "\<lambda>q. tq_obj q \<noteq> NULL"
  by unfold_locales (auto simp: tx_account_defs split: prod.splits intro: holds_kcalloc)

lemma refillqs_alloc_holds:
  "refillqs_alloc flow qs w = (ok, qs', w') \<Longrightarrow> \<forall>q \<in> set qs. tq_bare q \<and> tq_refillq q = NULL \<and> tq_ring q = NULL \<and> tq_obj q \<noteq> NULL \<Longrightarrow>
   holds w0 (slots_of tq_slots qs + P) (slots_of tq_dmas qs + D) w \<Longrightarrow>
     holds w0 (slots_of tq_slots qs' + P) (slots_of tq_dmas qs' + D) w' \<and> (\<forall>q \<in> set qs'. tq_bare q) \<and> (ok \<longrightarrow> (\<forall>q \<in> set qs'. tq_ok flow q))"
proof (induction qs arbitrary: w w' ok qs' P D)
  case (Cons q qs)
  obtain p w1 where k: "kcalloc w = (p, w1)" by (metis surj_pair)
  obtain ok2 rs w2 where l: "refillqs_alloc flow qs w1 = (ok2, rs, w2)" by (metis prod_cases3)
  have q: "tq_slots q = slot (tq_obj q)" "tq_dmas q = {#}" using Cons.prems(2) by (auto simp: tx_account_defs)
  show ?case
  proof (cases "flow \<and> p \<noteq> NULL")
    case True
    have q': "tq_slots (q\<lparr>tq_refillq := p\<rparr>) = slot (tq_obj q) + slot p" "tq_dmas (q\<lparr>tq_refillq := p\<rparr>) = {#}"
      using Cons.prems(2) by (auto simp: tx_account_defs)
    have "holds w0 (slots_of tq_slots qs + (slot p + (slot (tq_obj q) + P))) (slots_of tq_dmas qs + D) w1"
      using holds_kcalloc [OF k Cons.prems(3)] by (simp add: q ac_simps)
    from Cons.IH [OF l _ this] Cons.prems(2)
    have r: "holds w0 (slots_of tq_slots rs + (slot p + (slot (tq_obj q) + P))) (slots_of tq_dmas rs + D) w2"
      "\<forall>q \<in> set rs. tq_bare q" "ok2 \<longrightarrow> (\<forall>q \<in> set rs. tq_ok flow q)" by simp_all
    have "qs' = q\<lparr>tq_refillq := p\<rparr> # rs" "w' = w2" "ok2 = ok" using Cons.prems(1) True l by (auto simp: k)
    moreover have "tq_bare (q\<lparr>tq_refillq := p\<rparr>)" "tq_ok flow (q\<lparr>tq_refillq := p\<rparr>)"
      using True Cons.prems(2) by (simp_all add: tq_bare_def tq_ok_def)
    ultimately show ?thesis using r by (simp add: q' ac_simps)
  next
    case False
    then have "qs' = q # qs" "ok = (\<not> flow)" "w' = (if flow then w1 else w)" "flow \<longrightarrow> p = NULL" using Cons.prems(1) k by (auto split: if_splits)
    moreover have "flow \<longrightarrow> holds w0 (slots_of tq_slots (q # qs) + P) (slots_of tq_dmas (q # qs) + D) w1"
      using holds_kcalloc [OF k Cons.prems(3)] False by auto
    ultimately show ?thesis using Cons.prems(2,3) by (simp add: tq_ok_def)
  qed
qed simp

lemma txq_group_init_holds:
  assumes "txq_group_init qp w = (ok, g, w')" and "holds w0 P D w"
  shows "holds w0 (tg_slots g + P) (tg_dmas g + D) w' \<and> tg_part qp g \<and> (ok \<longrightarrow> tg_ok qp g)"
proof -
  obtain arr w1 where k: "kcalloc w = (arr, w1)" by (metis surj_pair)
  obtain ok2 qs w2 where a: "txqs_alloc (qp_txq_per_grp qp) w1 = (ok2, qs, w2)" by (metis prod_cases3)
  obtain ok3 rs w3 where f: "refillqs_alloc (qp_flow_sch qp) qs w2 = (ok3, rs, w3)" by (metis prod_cases3)
  obtain c w4 where c: "kcalloc w3 = (c, w4)" by (metis surj_pair)
  have h1: "holds w0 (slot arr + P) D w1" by (rule holds_kcalloc [OF k assms(2)])
  note h2 = txqs_build.loop_holds [OF a h1]
  define g0 where "g0 = tx_grp_zero\<lparr>tg_num := qp_txq_per_grp qp, tg_txqs := arr\<rparr>"
  have g0: "tg_txqs g0 = arr" "tg_qs g0 = []" "tg_complq g0 = NULL" "tg_compl_desc g0 = NULL" by (simp_all add: g0_def tx_grp_zero_def)
  have "txq_group_init qp w =
      (if arr = NULL then (False, g0, w1) else if \<not> ok2 then (False, g0\<lparr>tg_qs := qs\<rparr>, w2)
       else if \<not> ok3 then (False, g0\<lparr>tg_qs := rs\<rparr>, w3)
       else if \<not> qp_tx_split qp then (True, g0\<lparr>tg_qs := rs\<rparr>, w3) else (c \<noteq> NULL, g0\<lparr>tg_qs := rs, tg_complq := c\<rparr>, w4))"
    by (simp add: txq_group_init_def k a f c g0_def Let_def)
  note run = this [unfolded assms(1)]
  consider (early) "arr = NULL" | (objs) "arr \<noteq> NULL" "\<not> ok2" | (late) "arr \<noteq> NULL" ok2 by blast
  then show ?thesis
  proof cases
    case early
    then show ?thesis using run h1 g0 by (auto simp: tg_slots_def tg_dmas_def tg_part_def)
  next
    case objs
    then show ?thesis using run h2 g0 by (auto simp: tg_slots_def tg_dmas_def tg_part_def ac_simps)
  next
    case late
    have h3: "holds w0 (slots_of tq_slots rs + (slot arr + P)) (slots_of tq_dmas rs + D) w3 \<and>
        (\<forall>q \<in> set rs. tq_bare q) \<and> (ok3 \<longrightarrow> (\<forall>q \<in> set rs. tq_ok (qp_flow_sch qp) q))"
      using h2 late by (intro refillqs_alloc_holds [OF f]) auto
    note h4 = holds_kcalloc [OF c h3 [THEN conjunct1]]
    show ?thesis using run h3 h4 g0 late by (cases ok3; cases "qp_tx_split qp") (auto simp: tg_slots_def tg_dmas_def tg_part_def tg_ok_def ac_simps)
  qed
qed

interpretation tx_groups_build: build_loop "txq_group_init qp" "txq_groups_init qp" tx_grp_zero tg_slots tg_dmas "tg_part qp" "tg_ok qp" for qp
  by unfold_locales (auto simp: tg_slots_def tg_dmas_def tg_part_def tx_grp_zero_def dest: txq_group_init_holds)

lemma txqs_rel_holds:
  "\<forall>q \<in> set qs. tq_bare q \<Longrightarrow> holds w0 (slots_of tq_slots qs + P) (slots_of tq_dmas qs + D) w \<Longrightarrow> holds w0 P D (fold txq_rel qs w)"
proof (induction qs arbitrary: w)
  case (Cons q qs)
  have "holds w0 (slots_of tq_slots qs + P) (slots_of tq_dmas qs + D) (txq_rel q w)"
  proof (cases "tq_obj q = NULL")
    case False
    have "holds w0 (slot (tq_refillq q) + (slot (tq_obj q) + (slots_of tq_slots qs + P))) (slots_of tq_dmas qs + D) w"
      using Cons.prems by (simp add: tq_slots_def [of q] tq_dmas_def [of q] tq_bare_def ac_simps)
    then show ?thesis using False by (simp add: txq_rel_def holds_kfree)
  qed (use Cons.prems in \<open>simp add: txq_rel_def tq_slots_def [of q] tq_dmas_def [of q] tq_bare_def\<close>)
  then show ?case using Cons by simp
qed simp

lemma txq_group_rel_one_holds:
  assumes "tg_part qp g" and "txq_group_rel_one qp g w = Some w'" and "holds w0 (tg_slots g + P) (tg_dmas g + D) w"
  shows "holds w0 P D w'"
proof -
  have "holds w0 (slots_of tq_slots (tg_qs g) + (slot (tg_txqs g) + (slot (tg_complq g) + P))) (slots_of tq_dmas (tg_qs g) + D) w"
    using assms(1,3) by (simp add: tg_slots_def tg_dmas_def tg_part_def ac_simps)
  then have "holds w0 ((slot (tg_txqs g) + (slot (tg_complq g) + P))) D (fold txq_rel (tg_qs g) w)"
    using assms(1) txqs_rel_holds unfolding tg_part_def by blast
  note h = holds_kfree [OF this]
  show ?thesis
    using assms(1,2) h holds_kfree [OF h] by (auto simp: txq_group_rel_one_def tg_part_def Let_def split: if_splits)
qed

interpretation tx_groups_free: free_loop "txq_group_rel_one qp" "txq_groups_rel qp" tg_slots tg_dmas "tg_part qp" "tg_ok qp" for qp
  by unfold_locales (auto simp: txq_group_rel_one_def tg_ok_def Let_def intro: txq_group_rel_one_holds)

section \<open>Transmit rings\<close>

definition tq_done :: "bool \<Rightarrow> tx_q \<Rightarrow> bool" where
  "tq_done flow q \<longleftrightarrow> tq_ok flow q \<and> tq_bare q"

lemma idpf_tx_desc_rel_eq:
  assumes "tq_ok flow q"
  shows "idpf_tx_desc_rel q w = (q\<lparr>tq_bufs := NULL, tq_desc := NULL\<rparr>,
    if tq_desc q = NULL then kfree (tq_bufs q) w else dma_free_attrs (tq_desc q) (kfree (tq_ring q) (kfree (tq_bufs q) w)))"
proof -
  have "idpf_tx_buf_rel_all q w = (q\<lparr>tq_bufs := NULL\<rparr>, kfree (tq_bufs q) w)"
    by (cases q) (simp add: idpf_tx_buf_rel_all_def kfree_def)
  then show ?thesis using assms by (cases q) (auto simp: idpf_tx_desc_rel_def Let_def tq_ok_def kfree_def)
qed

lemma idpf_tx_desc_rel_holds:
  assumes "tq_ok flow q" and "idpf_tx_desc_rel q w = (q', w')" and "holds w0 (tq_slots q + P) (tq_dmas q + D) w"
  shows "holds w0 (tq_slots q' + P) (tq_dmas q' + D) w' \<and> tq_done flow q'"
proof -
  note eq = assms(2) [unfolded idpf_tx_desc_rel_eq [OF assms(1)]]
  let ?own = "slot (tq_obj q) + (slot (tq_refillq q) + P)"
  have "holds w0 ?own D w'"
  proof (cases "tq_desc q = NULL")
    case True
    then have "holds w0 (slot (tq_bufs q) + ?own) D w" using assms(3) by (simp add: tq_slots_def tq_dmas_def ac_simps)
    then show ?thesis using eq True holds_kfree by auto
  next
    case False
    then have "holds w0 (slot (tq_bufs q) + (slot (tq_ring q) + ?own)) (slot (tq_desc q) + D) w"
      using assms(3) by (simp add: tq_slots_def tq_dmas_def ac_simps)
    then show ?thesis using eq False by (auto intro!: holds_dma_free holds_kfree)
  qed
  then show ?thesis using assms(1) eq by (auto simp: tq_slots_def tq_dmas_def tq_done_def tq_ok_def tq_bare_def ac_simps)
qed

interpretation txqs_drain: drain_loop "\<lambda>q w. if tq_obj q = NULL then (q, w) else idpf_tx_desc_rel q w" txqs_desc_rel
  tq_slots tq_dmas "tq_ok flow" "tq_done flow" for flow
proof unfold_locales
  fix x w y w' w0 P D
  assume "tq_ok flow x" "(if tq_obj x = NULL then (x, w) else idpf_tx_desc_rel x w) = (y, w')" "holds w0 (tq_slots x + P) (tq_dmas x + D) w"
  then show "holds w0 (tq_slots y + P) (tq_dmas y + D) w' \<and> tq_done flow y"
    by (intro idpf_tx_desc_rel_holds [of flow x w]) (auto simp: tq_ok_def)
qed simp_all


lemma idpf_tx_desc_alloc_holds:
  assumes "tq_done flow q" and "idpf_tx_desc_alloc flow q w = (err, q', w')" and "holds w0 (tq_slots q + P) (tq_dmas q + D) w"
  shows "holds w0 (tq_slots q' + P) (tq_dmas q' + D) w' \<and> tq_ok flow q'"
proof -
  obtain b w1 where b: "kcalloc w = (b, w1)" by (metis surj_pair)
  obtain d w2 where d: "dma_alloc w1 = (d, w2)" by (metis surj_pair)
  obtain r w3 where r: "kcalloc w2 = (r, w3)" by (metis surj_pair)
  have q: "tq_slots q = slot (tq_obj q) + slot (tq_refillq q)" "tq_dmas q = {#}" "tq_ok flow q"
    using assms(1) by (auto simp: tq_done_def tq_bare_def tq_slots_def tq_dmas_def)
  let ?P = "slot (tq_obj q) + slot (tq_refillq q) + P"
  note h1 = holds_kcalloc [OF b assms(3) [unfolded q(1,2)], simplified]
  note h2 = holds_dma_alloc [OF d h1]
  note h3 = holds_kcalloc [OF r h2]
  have undo: "holds w0 (tq_slots q'' + P) (tq_dmas q'' + D) w'' \<and> tq_ok flow q''"
    if "idpf_tx_desc_rel x v = (q'', w'')" "tq_ok flow x" "holds w0 (tq_slots x + P) (tq_dmas x + D) v" for x v q'' w''
    using idpf_tx_desc_rel_holds [OF that(2,1,3)] by (simp add: tq_done_def)
  consider (bufs) "b = NULL" | (desc) "b \<noteq> NULL" "d = NULL" | (plain) "b \<noteq> NULL" "d \<noteq> NULL" "\<not> flow"
    | (ring) "b \<noteq> NULL" "d \<noteq> NULL" flow "r = NULL" | (all) "b \<noteq> NULL" "d \<noteq> NULL" flow "r \<noteq> NULL" by blast
  then show ?thesis
  proof cases
    case bufs
    then have "idpf_tx_desc_rel (q\<lparr>tq_bufs := NULL\<rparr>) w1 = (q', w')"
      using assms(2) by (auto simp: idpf_tx_desc_alloc_def b Let_def split: prod.splits)
    then show ?thesis by (rule undo) (use h1 bufs assms(1) in \<open>auto simp: tq_slots_def tq_dmas_def tq_done_def tq_bare_def tq_ok_def ac_simps\<close>)
  next
    case desc
    then have "idpf_tx_desc_rel (q\<lparr>tq_bufs := b, tq_desc := NULL\<rparr>) w2 = (q', w')"
      using assms(2) by (auto simp: idpf_tx_desc_alloc_def b d Let_def split: prod.splits)
    then show ?thesis by (rule undo) (use h2 desc assms(1) in \<open>auto simp: tq_slots_def tq_dmas_def tq_done_def tq_bare_def tq_ok_def ac_simps\<close>)
  next
    case plain
    then have "q' = q\<lparr>tq_bufs := b, tq_desc := d\<rparr>" "w' = w2"
      using assms(2) by (auto simp: idpf_tx_desc_alloc_def b d Let_def)
    then show ?thesis using h2 plain q(3) by (auto simp: tq_slots_def tq_dmas_def tq_ok_def ac_simps)
  next
    case ring
    then have "idpf_tx_desc_rel (q\<lparr>tq_bufs := b, tq_desc := d, tq_ring := NULL\<rparr>) w3 = (q', w')"
      using assms(2) by (auto simp: idpf_tx_desc_alloc_def b d r Let_def split: prod.splits)
    then show ?thesis by (rule undo) (use h3 ring q(3) in \<open>auto simp: tq_slots_def tq_dmas_def tq_ok_def ac_simps\<close>)
  next
    case all
    then have "q' = q\<lparr>tq_bufs := b, tq_desc := d, tq_ring := r\<rparr>" "w' = w3"
      using assms(2) by (auto simp: idpf_tx_desc_alloc_def b d r Let_def)
    then show ?thesis using h3 all q(3) by (auto simp: tq_slots_def tq_dmas_def tq_ok_def ac_simps)
  qed
qed

interpretation txqs_fill: fill_loop "idpf_tx_desc_alloc flow" "txqs_desc_alloc flow" tq_slots tq_dmas "tq_done flow" "tq_ok flow" for flow
  by unfold_locales (rule txqs_desc_alloc.simps | erule (2) idpf_tx_desc_alloc_holds | simp add: tq_done_def)+

text \<open>The groups: ready for rings, with rings, and emptied again.\<close>

definition tg_done :: "qparams \<Rightarrow> tx_grp \<Rightarrow> bool" where
  "tg_done qp g \<longleftrightarrow> tg_ok qp g \<and> tg_part qp g"

lemma tx_group_desc_alloc_holds:
  assumes "tg_done qp g" and "tx_group_desc_alloc qp g w = (err, g', w')" and "holds w0 (tg_slots g + P) (tg_dmas g + D) w"
  shows "holds w0 (tg_slots g' + P) (tg_dmas g' + D) w' \<and> tg_ok qp g'"
proof -
  obtain e qs w1 where t: "txqs_desc_alloc (qp_flow_sch qp) (tg_qs g) w = (e, qs, w1)" by (metis prod_cases3)
  obtain d w2 where d: "dma_alloc w1 = (d, w2)" by (metis surj_pair)
  let ?P = "slot (tg_txqs g) + (slot (tg_complq g) + P)"
  have h1: "holds w0 (slots_of tq_slots qs + ?P) (slots_of tq_dmas qs + D) w1 \<and> (\<forall>q \<in> set qs. tq_ok (qp_flow_sch qp) q)"
    using assms(1,3)
    by (intro txqs_fill.loop_holds [OF _ t]) (auto simp: tg_done_def tg_ok_def tg_part_def tq_done_def tg_slots_def tg_dmas_def ac_simps)
  note h2 = holds_dma_alloc [OF d h1 [THEN conjunct1]]
  show ?thesis
  proof (cases "e \<noteq> ret_ok \<or> \<not> qp_tx_split qp")
    case True
    then have "g' = g\<lparr>tg_qs := qs\<rparr>" "w' = w1" using assms(2) by (auto simp: tx_group_desc_alloc_def t Let_def)
    then show ?thesis using h1 assms(1) by (auto simp: tg_slots_def tg_dmas_def tg_done_def tg_ok_def tg_part_def ac_simps)
  next
    case False
    then have "g' = g\<lparr>tg_qs := qs, tg_compl_desc := d\<rparr>" "w' = w2" using assms(2) by (auto simp: tx_group_desc_alloc_def t d Let_def)
    then show ?thesis using h1 h2 False assms(1) by (auto simp: tg_slots_def tg_dmas_def tg_done_def tg_ok_def tg_part_def ac_simps)
  qed
qed

interpretation tx_groups_fill: fill_loop "tx_group_desc_alloc qp" "tx_groups_desc_alloc qp" tg_slots tg_dmas "tg_done qp" "tg_ok qp" for qp
  by unfold_locales (rule tx_groups_desc_alloc.simps | erule (2) tx_group_desc_alloc_holds | simp add: tg_done_def)+

lemma tx_group_desc_rel_holds:
  assumes "tg_ok qp g" and "tx_group_desc_rel qp g w = (g', w')" and "holds w0 (tg_slots g + P) (tg_dmas g + D) w"
  shows "holds w0 (tg_slots g' + P) (tg_dmas g' + D) w' \<and> tg_done qp g'"
proof -
  obtain qs w1 where t: "txqs_desc_rel (tg_qs g) w = (qs, w1)" by (metis surj_pair)
  let ?P = "slot (tg_txqs g) + (slot (tg_complq g) + P)"
  have h: "holds w0 (slots_of tq_slots qs + ?P) (slots_of tq_dmas qs + (slot (tg_compl_desc g) + D)) w1 \<and> (\<forall>q \<in> set qs. tq_done (qp_flow_sch qp) q)"
    using assms(1,3)
    by (intro txqs_drain.loop_holds [OF _ t]) (auto simp: tg_ok_def tg_slots_def tg_dmas_def ac_simps)
  then have "holds w0 (slots_of tq_slots qs + ?P) (slot (tg_compl_desc g) + (slots_of tq_dmas qs + D)) w1"
    by (simp add: add.left_commute)
  then have f: "holds w0 (slots_of tq_slots qs + ?P) (slots_of tq_dmas qs + D) (dma_free_attrs (tg_compl_desc g) w1)"
    by (rule holds_dma_free)
  have d: "tg_compl_desc g = NULL \<Longrightarrow> dma_free_attrs (tg_compl_desc g) w1 = w1" by (simp add: dma_free_attrs_def)
  have e: "tg_compl_desc g = NULL \<Longrightarrow> g\<lparr>tg_qs := qs, tg_compl_desc := NULL\<rparr> = g\<lparr>tg_qs := qs\<rparr>" by (cases g) simp
  have "g' = g\<lparr>tg_qs := qs, tg_compl_desc := NULL\<rparr> \<and> w' = dma_free_attrs (tg_compl_desc g) w1"
    using assms(1,2) d e by (auto simp: tx_group_desc_rel_def t complq_desc_rel_def tg_ok_def split: if_splits)
  then show ?thesis using h f assms(1) by (simp add: tg_slots_def tg_dmas_def tg_done_def tg_ok_def tg_part_def tq_done_def ac_simps)
qed

interpretation tx_groups_drain: drain_loop "tx_group_desc_rel qp" "tx_groups_desc_rel qp" tg_slots tg_dmas "tg_ok qp" "tg_done qp" for qp
  by unfold_locales (rule tx_groups_desc_rel.simps | erule (2) tx_group_desc_rel_holds)+

end
