(* ===== verification/Idpf_Vport_Mem_Rx.thy ===== *)
theory Idpf_Vport_Mem_Rx
  imports Idpf_Vport_Mem
begin

text \<open>
  The accounts of the receive side of the queue memory: receive queues, buffer queues with their refill rings
  and header buffers, and the links between them.
\<close>

section \<open>Accounts of the receive side\<close>

definition rq_slots :: "rx_q \<Rightarrow> ptr multiset" where
  "rq_slots q = slot (rq_obj q) + slot (rq_bufs q) + slot (rq_bufq_bufs q) + slot (rq_hdrs q) + slots_of slot (rq_hdr_list q)"

definition rq_dmas :: "rx_q \<Rightarrow> ptr multiset" where
  "rq_dmas q = slot (rq_desc q)"

definition bq_slots :: "buf_q \<Rightarrow> ptr multiset" where
  "bq_slots b = slot (bq_bufs b) + slot (bq_refillqs b) + slots_of slot (bq_rings b)"

definition bq_dmas :: "buf_q \<Rightarrow> ptr multiset" where
  "bq_dmas b = slot (bq_desc b) + slot (bq_hdr b)"

definition rg_slots :: "rx_grp \<Rightarrow> ptr multiset" where
  "rg_slots g = slot (rg_bufq_sets g) + slots_of rq_slots (rg_qs g) + slots_of bq_slots (rg_bqs g)"

definition rg_dmas :: "rx_grp \<Rightarrow> ptr multiset" where
  "rg_dmas g = slots_of rq_dmas (rg_qs g) + slots_of bq_dmas (rg_bqs g)"

text \<open>Queues without buffers, without rings, and in any state the release expects.\<close>

definition rq_nobuf :: "rx_q \<Rightarrow> bool" where
  "rq_nobuf q \<longleftrightarrow> rq_bufs q = NULL \<and> rq_bufq_bufs q = NULL \<and> rq_hdrs q = NULL \<and> rq_hdr_list q = []"

definition rq_bare :: "rx_q \<Rightarrow> bool" where
  "rq_bare q \<longleftrightarrow> rq_nobuf q \<and> rq_desc q = NULL"

definition rq_fit :: "bool \<Rightarrow> rx_q \<Rightarrow> bool" where
  "rq_fit split q \<longleftrightarrow> (if split then rq_bufs q = NULL \<and> (rq_hdrs q = NULL \<longrightarrow> rq_hdr_list q = [])
     else rq_bufq_bufs q = NULL \<and> rq_hdrs q = NULL \<and> rq_hdr_list q = [])"

definition bq_nobuf :: "buf_q \<Rightarrow> bool" where
  "bq_nobuf b \<longleftrightarrow> bq_bufs b = NULL \<and> bq_hdr b = NULL"

definition bq_bare :: "buf_q \<Rightarrow> bool" where
  "bq_bare b \<longleftrightarrow> bq_nobuf b \<and> bq_desc b = NULL"

definition bq_ok :: "buf_q \<Rightarrow> bool" where
  "bq_ok b \<longleftrightarrow> (bq_bufs b = NULL \<longrightarrow> bq_hdr b = NULL) \<and> bq_refillqs b \<noteq> NULL"

lemmas rx_account_defs = rq_slots_def rq_dmas_def bq_slots_def bq_dmas_def rq_nobuf_def rq_bare_def rq_fit_def bq_nobuf_def bq_bare_def
  bq_ok_def rx_q_zero_def buf_q_zero_def

subsection \<open>Building and freeing groups\<close>

interpretation rings_build: build_loop "\<lambda>w. case kcalloc w of (p, w) \<Rightarrow> (p \<noteq> NULL, p, w)" rings_alloc
  NULL slot "\<lambda>_. {#}" "\<lambda>_. True" "\<lambda>p. p \<noteq> NULL"
  by unfold_locales (auto split: prod.splits intro: holds_kcalloc)

interpretation rxqs_build: build_loop "\<lambda>w. case kcalloc w of (p, w) \<Rightarrow> (p \<noteq> NULL, rx_q_zero\<lparr>rq_obj := p\<rparr>, w)" rxqs_alloc
  rx_q_zero rq_slots rq_dmas rq_bare "\<lambda>_. True"
  by unfold_locales (auto simp: rx_account_defs split: prod.splits intro: holds_kcalloc)

definition bufq_set_init :: "nat \<Rightarrow> idpf_world \<Rightarrow> bool \<times> buf_q \<times> idpf_world" where
  "bufq_set_init n w =
     (case kcalloc w of (p, w) \<Rightarrow>
        if p = NULL then (False, buf_q_zero\<lparr>bq_num_refillqs := n\<rparr>, w)
        else case rings_alloc n w of (ok, ps, w) \<Rightarrow> (ok, buf_q_zero\<lparr>bq_num_refillqs := n, bq_refillqs := p, bq_rings := ps\<rparr>, w))"

lemma bufq_set_init_holds:
  assumes "bufq_set_init n w = (ok, b, w')" and "holds w0 P D w"
  shows "holds w0 (bq_slots b + P) (bq_dmas b + D) w' \<and> bq_bare b \<and> (ok \<longrightarrow> bq_refillqs b \<noteq> NULL)"
proof -
  obtain p w1 where k: "kcalloc w = (p, w1)" by (metis surj_pair)
  obtain ok1 ps w2 where r: "rings_alloc n w1 = (ok1, ps, w2)" by (metis prod_cases3)
  note h = holds_kcalloc [OF k assms(2)]
  note h2 = rings_build.loop_holds [OF r h]
  show ?thesis
    using assms(1) h h2 by (cases "p = NULL") (auto simp: bufq_set_init_def k r rx_account_defs slots_of_empty ac_simps)
qed

lemma bufq_sets_init_Suc:
  "bufq_sets_init n (Suc m) w =
     (case bufq_set_init n w of (ok, b, w) \<Rightarrow> if \<not> ok then (False, b # replicate m buf_q_zero, w)
        else case bufq_sets_init n m w of (ok, bs, w) \<Rightarrow> (ok, b # bs, w))"
proof -
  obtain p w1 where k: "kcalloc w = (p, w1)" by (metis surj_pair)
  obtain ok1 ps w2 where r: "rings_alloc n w1 = (ok1, ps, w2)" by (metis prod_cases3)
  have "buf_q_zero\<lparr>bq_num_refillqs := n, bq_refillqs := NULL\<rparr> = buf_q_zero\<lparr>bq_num_refillqs := n\<rparr>" by (simp add: buf_q_zero_def)
  then show ?thesis by (simp add: bufq_set_init_def k r Let_def)
qed

interpretation bufqs_build: build_loop "bufq_set_init n" "bufq_sets_init n" buf_q_zero bq_slots bq_dmas bq_bare "\<lambda>b. bq_refillqs b \<noteq> NULL" for n
  by unfold_locales (rule bufq_sets_init.simps(1) bufq_sets_init_Suc | erule (1) bufq_set_init_holds | simp add: rx_account_defs)+

text \<open>A group during its construction, and a complete one.\<close>

definition rg_part :: "qparams \<Rightarrow> rx_grp \<Rightarrow> bool" where
  "rg_part qp g \<longleftrightarrow> (\<forall>q \<in> set (rg_qs g). rq_bare q) \<and> (\<forall>b \<in> set (rg_bqs g). bq_bare b) \<and> rg_num_bufq_sets g = length (rg_bqs g) \<and>
     (\<not> qp_rx_split qp \<longrightarrow> rg_bufq_sets g = NULL \<and> rg_bqs g = [])"

definition rg_ok :: "qparams \<Rightarrow> rx_grp \<Rightarrow> bool" where
  "rg_ok qp g \<longleftrightarrow> (\<forall>q \<in> set (rg_qs g). rq_fit (qp_rx_split qp) q) \<and> (\<forall>b \<in> set (rg_bqs g). bq_ok b) \<and>
     rg_num_bufq_sets g = length (rg_bqs g) \<and>
     (if qp_rx_split qp then rg_bufq_sets g \<noteq> NULL else rg_bufq_sets g = NULL \<and> rg_bqs g = [])"

lemma rq_bare_fit: "rq_bare q \<Longrightarrow> rq_fit split q"
  by (simp add: rx_account_defs)

lemma rxq_group_init_holds:
  assumes "rxq_group_init qp w = (ok, g, w')" and "holds w0 P D w"
  shows "holds w0 (rg_slots g + P) (rg_dmas g + D) w' \<and> rg_part qp g \<and> (ok \<longrightarrow> rg_ok qp g)"
proof -
  obtain ok1 qs w1 where q: "rxqs_alloc (qp_rxq_per_grp qp) w = (ok1, qs, w1)" by (metis prod_cases3)
  obtain p w2 where k: "kcalloc w1 = (p, w2)" by (metis surj_pair)
  obtain ok3 bs w3 where b: "bufq_sets_init (qp_rxq_per_grp qp) (qp_num_bufqs qp) w2 = (ok3, bs, w3)" by (metis prod_cases3)
  define g0 where "g0 = rx_grp_zero\<lparr>rg_num := qp_rxq_per_grp qp, rg_qs := qs\<rparr>"
  have g0: "rg_qs g0 = qs" "rg_bufq_sets g0 = NULL" "rg_bqs g0 = []" "rg_num_bufq_sets g0 = 0" by (simp_all add: g0_def rx_grp_zero_def)
  note h1 = rxqs_build.loop_holds [OF q assms(2)]
  note h2 = holds_kcalloc [OF k h1 [THEN conjunct1]]
  note h3 = bufqs_build.loop_holds [OF b h2]
  have "rxq_group_init qp w =
      (if \<not> ok1 \<or> \<not> qp_rx_split qp then (ok1, g0, w1) else if p = NULL then (False, g0, w2)
       else (ok3, g0\<lparr>rg_bufq_sets := p, rg_num_bufq_sets := qp_num_bufqs qp, rg_bqs := bs\<rparr>, w3))"
    by (simp add: rxq_group_init_def q k b g0_def Let_def)
  note run = this [unfolded assms(1)]
  consider (objs) "\<not> ok1 \<or> \<not> qp_rx_split qp" | (sets) ok1 "qp_rx_split qp" "p = NULL" | (late) ok1 "qp_rx_split qp" "p \<noteq> NULL" by blast
  then show ?thesis
  proof cases
    case objs
    then show ?thesis using run h1 g0 rq_bare_fit by (auto simp: rg_slots_def rg_dmas_def rg_part_def rg_ok_def)
  next
    case sets
    then show ?thesis using run h1 h2 g0 by (auto simp: rg_slots_def rg_dmas_def rg_part_def)
  next
    case late
    then have g: "g = g0\<lparr>rg_bufq_sets := p, rg_num_bufq_sets := qp_num_bufqs qp, rg_bqs := bs\<rparr>" "w' = w3" "ok = ok3" using run by auto
    have "rg_slots g + P = slots_of bq_slots bs + (slot p + (slots_of rq_slots qs + P))" "rg_dmas g + D = slots_of bq_dmas bs + (slots_of rq_dmas qs + D)"
      by (simp_all add: g g0 rg_slots_def rg_dmas_def ac_simps)
    then have "holds w0 (rg_slots g + P) (rg_dmas g + D) w'" using h3 g by (simp add: add.assoc)
    then show ?thesis using h1 h3 g g0 late rq_bare_fit by (auto simp: rg_part_def rg_ok_def bq_ok_def bq_bare_def bq_nobuf_def)
  qed
qed

interpretation rx_groups_build: build_loop "rxq_group_init qp" "rxq_groups_init qp" rx_grp_zero rg_slots rg_dmas "rg_part qp" "rg_ok qp" for qp
  by unfold_locales (rule rxq_groups_init.simps | erule (1) rxq_group_init_holds | simp add: rg_slots_def rg_dmas_def rg_part_def rx_grp_zero_def)+

definition bufq_set_rel :: "buf_q \<Rightarrow> idpf_world \<Rightarrow> idpf_world option" where
  "bufq_set_rel b w =
     (if bq_num_refillqs b \<noteq> 0 \<and> bq_refillqs b = NULL then None else Some (kfree (bq_refillqs b) (kfree_list (bq_rings b) w)))"

interpretation bufqs_free: free_loop bufq_set_rel idpf_rxq_sw_queue_rel bq_slots bq_dmas bq_bare "\<lambda>b. bq_refillqs b \<noteq> NULL"
proof unfold_locales
  fix b w w' w0 P D
  assume b: "bq_bare b" "bufq_set_rel b w = Some w'" "holds w0 (bq_slots b + P) (bq_dmas b + D) w"
  then have "holds w0 (slots_of slot (bq_rings b) + (slot (bq_refillqs b) + P)) D w" by (simp add: rx_account_defs ac_simps)
  from holds_kfree [OF holds_kfree_list [OF this]] show "holds w0 P D w'" using b(2) by (simp add: bufq_set_rel_def split: if_splits)
qed (simp_all add: bufq_set_rel_def)

lemma slots_of_bare: "\<forall>q \<in> set qs. rq_bare q \<Longrightarrow> slots_of rq_slots qs = slots_of slot (map rq_obj qs) \<and> slots_of rq_dmas qs = {#}"
  by (induction qs) (auto simp: rx_account_defs)

lemma rxq_group_rel_one_holds:
  assumes "rg_part qp g" and "rxq_group_rel_one qp g w = Some w'" and "holds w0 (rg_slots g + P) (rg_dmas g + D) w"
  shows "holds w0 P D w'"
proof -
  define w1 where "w1 = kfree_list (map rq_obj (rg_qs g)) w"
  note bare = slots_of_bare [of "rg_qs g"]
  have "holds w0 (slots_of slot (map rq_obj (rg_qs g)) + (slots_of bq_slots (rg_bqs g) + (slot (rg_bufq_sets g) + P))) (slots_of bq_dmas (rg_bqs g) + D) w"
    using assms(1,3) bare by (simp add: rg_slots_def rg_dmas_def rg_part_def ac_simps)
  then have h: "holds w0 (slots_of bq_slots (rg_bqs g) + (slot (rg_bufq_sets g) + P)) (slots_of bq_dmas (rg_bqs g) + D) w1"
    unfolding w1_def by (rule holds_kfree_list)
  show ?thesis
  proof (cases "qp_rx_split qp")
    case True
    then obtain w2 where f: "idpf_rxq_sw_queue_rel (rg_bqs g) w1 = Some w2" "w' = kfree (rg_bufq_sets g) w2"
      using assms(1,2) by (auto simp: rxq_group_rel_one_def w1_def rg_part_def Let_def split: option.splits)
    have "holds w0 (slot (rg_bufq_sets g) + P) D w2" using assms(1) by (intro bufqs_free.loop_holds [OF _ f(1) h]) (simp add: rg_part_def)
    then show ?thesis unfolding f by (rule holds_kfree)
  next
    case False
    then show ?thesis using assms(1,2) h by (simp add: rxq_group_rel_one_def w1_def rg_part_def Let_def)
  qed
qed

lemma rxq_group_rel_one_ok: "rg_ok qp g \<Longrightarrow> \<exists>w'. rxq_group_rel_one qp g w = Some w'"
  using bufqs_free.loop_full [of "rg_bqs g" "kfree_list (map rq_obj (rg_qs g)) w"]
  by (auto simp: rxq_group_rel_one_def rg_ok_def bq_ok_def Let_def)

interpretation rx_groups_free: free_loop "rxq_group_rel_one qp" "rxq_groups_rel qp" rg_slots rg_dmas "rg_part qp" "rg_ok qp" for qp
  by unfold_locales (rule rxq_groups_rel.simps | erule (2) rxq_group_rel_one_holds | erule rxq_group_rel_one_ok)+

subsection \<open>Emptying the rings\<close>

lemma free_nothing [simp]: "kfree NULL w = w" "dma_free_attrs NULL w = w"
  by (simp_all add: kfree_def dma_free_attrs_def)

lemma rx_bufs_rel_eq: "(bufs = NULL \<longrightarrow> hdr = NULL) \<Longrightarrow> rx_bufs_rel bufs hdr w = ((NULL, NULL), kfree bufs (dma_free_attrs hdr w))"
  by (auto simp: rx_bufs_rel_def)

lemma idpf_rxq_rel_holds:
  assumes "rq_fit (qp_rx_split qp) q" and "idpf_rxq_rel qp q w = (q', w')" and "holds w0 (rq_slots q + P) (rq_dmas q + D) w"
  shows "holds w0 (rq_slots q' + P) (rq_dmas q' + D) w' \<and> rq_bare q'"
proof -
  define w1 where "w1 = dma_free_attrs (rq_desc q) w"
  have h: "holds w0 (rq_slots q + P) D w1"
    unfolding w1_def using assms(3) by (intro holds_dma_free) (simp add: rq_dmas_def)
  show ?thesis
  proof (cases "qp_rx_split qp")
    case False
    then have "holds w0 (slot (rq_bufs q) + (slot (rq_obj q) + P)) D w1"
      using h assms(1) by (simp add: rq_slots_def rq_fit_def ac_simps)
    note h' = holds_kfree [OF this]
    have "q' = q\<lparr>rq_desc := NULL, rq_bufs := NULL\<rparr>" "w' = kfree (rq_bufs q) w1"
      using assms(2) False by (simp_all add: idpf_rxq_rel_def rx_bufs_rel_eq w1_def Let_def)
    then show ?thesis using h' False assms(1) by (auto simp: rx_account_defs)
  next
    case True
    have l: "(if rq_hdrs q = NULL then w1 else kfree_list (rq_hdr_list q) w1) = kfree_list (rq_hdr_list q) w1"
      using True assms(1) by (auto simp: rq_fit_def kfree_list_def)
    have "holds w0 (slots_of slot (rq_hdr_list q) + (slot (rq_hdrs q) + (slot (rq_bufq_bufs q) + (slot (rq_obj q) + P)))) D w1"
      using h True assms(1) by (simp add: rq_slots_def rq_fit_def ac_simps)
    from holds_kfree [OF holds_kfree [OF holds_kfree_list [OF this]]]
    have h': "holds w0 (slot (rq_obj q) + P) D (kfree (rq_bufq_bufs q) (kfree (rq_hdrs q) (kfree_list (rq_hdr_list q) w1)))" .
    have "q' = q\<lparr>rq_desc := NULL, rq_hdrs := NULL, rq_hdr_list := [], rq_bufq_bufs := NULL\<rparr>"
      "w' = kfree (rq_bufq_bufs q) (kfree (rq_hdrs q) (kfree_list (rq_hdr_list q) w1))"
      using assms(2) True l by (cases "rq_hdrs q = NULL"; simp add: idpf_rxq_rel_def w1_def Let_def)+
    then show ?thesis using h' True assms(1) by (auto simp: rx_account_defs)
  qed
qed

interpretation rxqs_drain: drain_loop "idpf_rxq_rel qp" "rxqs_rel qp" rq_slots rq_dmas "rq_fit (qp_rx_split qp)" rq_bare for qp
  by unfold_locales (rule rxqs_rel.simps | erule (2) idpf_rxq_rel_holds)+

lemma idpf_bufq_rel_holds:
  assumes "bq_ok b" and "idpf_bufq_rel b w = (b', w')" and "holds w0 (bq_slots b + P) (bq_dmas b + D) w"
  shows "holds w0 (bq_slots b' + P) (bq_dmas b' + D) w' \<and> bq_bare b' \<and> bq_ok b'"
proof -
  have "holds w0 (slot (bq_bufs b) + (slot (bq_refillqs b) + slots_of slot (bq_rings b) + P)) (slot (bq_hdr b) + (slot (bq_desc b) + D)) w"
    using assms(3) by (simp add: bq_slots_def bq_dmas_def ac_simps)
  from holds_dma_free [OF holds_kfree [OF holds_dma_free [OF this]]]
  have h: "holds w0 (slot (bq_refillqs b) + slots_of slot (bq_rings b) + P) D (dma_free_attrs (bq_desc b) (kfree (bq_bufs b) (dma_free_attrs (bq_hdr b) w)))" .
  have "b' = b\<lparr>bq_bufs := NULL, bq_hdr := NULL, bq_desc := NULL\<rparr>" "w' = dma_free_attrs (bq_desc b) (kfree (bq_bufs b) (dma_free_attrs (bq_hdr b) w))"
    using assms(1,2) by (simp_all add: idpf_bufq_rel_def rx_bufs_rel_eq bq_ok_def)
  then show ?thesis using h assms(1) by (auto simp: rx_account_defs)
qed

interpretation bufqs_drain: drain_loop idpf_bufq_rel bufqs_rel bq_slots bq_dmas bq_ok "\<lambda>b. bq_bare b \<and> bq_ok b"
  by unfold_locales (rule bufqs_rel.simps | erule (2) idpf_bufq_rel_holds)+

definition rg_done :: "qparams \<Rightarrow> rx_grp \<Rightarrow> bool" where
  "rg_done qp g \<longleftrightarrow> rg_ok qp g \<and> rg_part qp g"

lemma drain_length:
  "bufqs_rel bs w = (bs', w') \<Longrightarrow> length bs' = length bs"
  by (induction bs arbitrary: w bs' w') (auto split: prod.splits)

lemma rx_group_desc_rel_holds:
  assumes "rg_ok qp g" and "rx_group_desc_rel qp g w = (g', w')" and "holds w0 (rg_slots g + P) (rg_dmas g + D) w"
  shows "holds w0 (rg_slots g' + P) (rg_dmas g' + D) w' \<and> rg_done qp g'"
proof -
  obtain qs w1 where q: "rxqs_rel qp (rg_qs g) w = (qs, w1)" by (metis surj_pair)
  obtain bs w2 where b: "bufqs_rel (rg_bqs g) w1 = (bs, w2)" by (metis surj_pair)
  let ?P = "slot (rg_bufq_sets g) + P"
  have h1: "holds w0 (slots_of rq_slots qs + (slots_of bq_slots (rg_bqs g) + ?P)) (slots_of rq_dmas qs + (slots_of bq_dmas (rg_bqs g) + D)) w1
      \<and> (\<forall>q \<in> set qs. rq_bare q)"
    using assms(1,3) by (intro rxqs_drain.loop_holds [OF _ q]) (simp_all add: rg_ok_def rg_slots_def rg_dmas_def ac_simps)
  show ?thesis
  proof (cases "qp_rx_split qp")
    case False
    then have g: "g' = g\<lparr>rg_qs := qs\<rparr>" "w' = w1" using assms(2) by (simp_all add: rx_group_desc_rel_def q)
    show ?thesis using h1 False assms(1) rq_bare_fit
      by (simp add: g rg_slots_def rg_dmas_def rg_done_def rg_ok_def rg_part_def ac_simps)
  next
    case True
    then have g: "g' = g\<lparr>rg_qs := qs, rg_bqs := bs\<rparr>" "w' = w2" using assms(1,2) by (auto simp: rx_group_desc_rel_def q b rg_ok_def)
    have "holds w0 (slots_of bq_slots bs + (slots_of rq_slots qs + ?P)) (slots_of bq_dmas bs + (slots_of rq_dmas qs + D)) w2
        \<and> (\<forall>b \<in> set bs. bq_bare b \<and> bq_ok b)"
      using h1 assms(1) by (intro bufqs_drain.loop_holds [OF _ b]) (simp_all add: rg_ok_def ac_simps)
    then show ?thesis using h1 True assms(1) drain_length [OF b] rq_bare_fit
      by (simp add: g rg_slots_def rg_dmas_def rg_done_def rg_ok_def rg_part_def ac_simps)
  qed
qed

interpretation rx_groups_drain: drain_loop "rx_group_desc_rel qp" "rx_groups_desc_rel qp" rg_slots rg_dmas "rg_ok qp" "rg_done qp" for qp
  by unfold_locales (rule rx_groups_desc_rel.simps | erule (2) rx_group_desc_rel_holds)+

subsection \<open>Filling the rings\<close>

text \<open>Descriptor rings before there are buffers.\<close>

definition rg_nobuf :: "qparams \<Rightarrow> rx_grp \<Rightarrow> bool" where
  "rg_nobuf qp g \<longleftrightarrow> rg_ok qp g \<and> (\<forall>q \<in> set (rg_qs g). rq_nobuf q) \<and> (\<forall>b \<in> set (rg_bqs g). bq_nobuf b)"

definition rxq_desc_alloc :: "rx_q \<Rightarrow> idpf_world \<Rightarrow> ret \<times> rx_q \<times> idpf_world" where
  "rxq_desc_alloc q w = (case dma_alloc w of (d, w) \<Rightarrow> (if d = NULL then Some ENOMEM else ret_ok, q\<lparr>rq_desc := d\<rparr>, w))"

definition bufq_desc_alloc :: "buf_q \<Rightarrow> idpf_world \<Rightarrow> ret \<times> buf_q \<times> idpf_world" where
  "bufq_desc_alloc b w = (case dma_alloc w of (d, w) \<Rightarrow> (if d = NULL then Some ENOMEM else ret_ok, b\<lparr>bq_desc := d\<rparr>, w))"

interpretation rxqs_desc_fill: fill_loop rxq_desc_alloc rxqs_desc_alloc rq_slots rq_dmas rq_bare rq_nobuf
proof unfold_locales
  fix q w err q' w' w0 P D
  assume a: "rq_bare q" "rxq_desc_alloc q w = (err, q', w')" "holds w0 (rq_slots q + P) (rq_dmas q + D) w"
  obtain d w1 where d: "dma_alloc w = (d, w1)" by (metis surj_pair)
  then show "holds w0 (rq_slots q' + P) (rq_dmas q' + D) w' \<and> rq_nobuf q'"
    using a holds_dma_alloc [OF d a(3)] by (auto simp: rxq_desc_alloc_def rx_account_defs)
qed (auto simp: rxq_desc_alloc_def rq_bare_def Let_def split: prod.splits)

interpretation bufqs_desc_fill: fill_loop bufq_desc_alloc bufqs_desc_alloc bq_slots bq_dmas
  "\<lambda>b. bq_bare b \<and> bq_ok b" "\<lambda>b. bq_nobuf b \<and> bq_ok b"
proof unfold_locales
  fix b w err b' w' w0 P D
  assume a: "bq_bare b \<and> bq_ok b" "bufq_desc_alloc b w = (err, b', w')" "holds w0 (bq_slots b + P) (bq_dmas b + D) w"
  obtain d w1 where d: "dma_alloc w = (d, w1)" by (metis surj_pair)
  then show "holds w0 (bq_slots b' + P) (bq_dmas b' + D) w' \<and> bq_nobuf b' \<and> bq_ok b'"
    using a holds_dma_alloc [OF d a(3)] by (auto simp: bufq_desc_alloc_def rx_account_defs)
qed (auto simp: bufq_desc_alloc_def bq_bare_def Let_def split: prod.splits)

lemma bufqs_desc_alloc_length: "bufqs_desc_alloc bs w = (err, bs', w') \<Longrightarrow> length bs' = length bs"
  by (induction bs arbitrary: w err bs' w') (auto simp: Let_def split: prod.splits if_splits)

lemma rq_nobuf_fit: "rq_nobuf q \<Longrightarrow> rq_fit split q"
  by (simp add: rx_account_defs)

lemma rx_group_desc_alloc_holds:
  assumes "rg_done qp g" and "rx_group_desc_alloc qp g w = (err, g', w')" and "holds w0 (rg_slots g + P) (rg_dmas g + D) w"
  shows "holds w0 (rg_slots g' + P) (rg_dmas g' + D) w' \<and> rg_nobuf qp g'"
proof -
  obtain e qs w1 where q: "rxqs_desc_alloc (rg_qs g) w = (e, qs, w1)" by (metis prod_cases3)
  obtain e2 bs w2 where b: "bufqs_desc_alloc (rg_bqs g) w1 = (e2, bs, w2)" by (metis prod_cases3)
  let ?P = "slot (rg_bufq_sets g) + P"
  have h1: "holds w0 (slots_of rq_slots qs + (slots_of bq_slots (rg_bqs g) + ?P)) (slots_of rq_dmas qs + (slots_of bq_dmas (rg_bqs g) + D)) w1
      \<and> (\<forall>q \<in> set qs. rq_nobuf q)"
    using assms(1,3) by (intro rxqs_desc_fill.loop_holds [OF _ q]) (simp_all add: rg_done_def rg_part_def rg_slots_def rg_dmas_def ac_simps)
  show ?thesis
  proof (cases "e \<noteq> ret_ok \<or> \<not> qp_rx_split qp")
    case True
    then have g: "g' = g\<lparr>rg_qs := qs\<rparr>" "w' = w1" using assms(2) by (auto simp: rx_group_desc_alloc_def q Let_def)
    show ?thesis using h1 assms(1) rq_nobuf_fit
      by (simp add: g rg_slots_def rg_dmas_def rg_nobuf_def rg_done_def rg_ok_def rg_part_def bq_bare_def ac_simps)
  next
    case False
    then have g: "g' = g\<lparr>rg_qs := qs, rg_bqs := bs\<rparr>" "w' = w2" using assms(2) by (auto simp: rx_group_desc_alloc_def q b Let_def)
    have "holds w0 (slots_of bq_slots bs + (slots_of rq_slots qs + ?P)) (slots_of bq_dmas bs + (slots_of rq_dmas qs + D)) w2
        \<and> (\<forall>b \<in> set bs. bq_nobuf b \<and> bq_ok b)"
      using h1 assms(1) by (intro bufqs_desc_fill.loop_holds [OF _ b]) (simp_all add: rg_done_def rg_ok_def rg_part_def ac_simps)
    then show ?thesis using h1 False assms(1) bufqs_desc_alloc_length [OF b] rq_nobuf_fit
      by (simp add: g rg_slots_def rg_dmas_def rg_nobuf_def rg_done_def rg_ok_def rg_part_def ac_simps)
  qed
qed

lemma rg_done_nobuf: "rg_done qp g \<Longrightarrow> rg_nobuf qp g"
  by (simp add: rg_nobuf_def rg_done_def rg_part_def rq_bare_def bq_bare_def)

interpretation rx_groups_desc_fill: fill_loop "rx_group_desc_alloc qp" "rx_groups_desc_alloc qp" rg_slots rg_dmas "rg_done qp" "rg_nobuf qp" for qp
  by unfold_locales (rule rx_groups_desc_alloc.simps | erule (2) rx_group_desc_alloc_holds | erule rg_done_nobuf)+

text \<open>Buffers of buffer queues, or of receive queues in the single queue model.\<close>

lemma rx_bufs_init_mem_holds:
  assumes "bq_nobuf b \<and> bq_ok b" and "rx_bufs_init_mem qp b w = (err, b', w')" and "holds w0 (bq_slots b + P) (bq_dmas b + D) w"
  shows "holds w0 (bq_slots b' + P) (bq_dmas b' + D) w' \<and> bq_ok b'"
proof -
  obtain p w1 where k: "kcalloc w = (p, w1)" by (metis surj_pair)
  obtain h w2 where d: "dma_alloc w1 = (h, w2)" by (metis surj_pair)
  note h1 = holds_kcalloc [OF k assms(3)]
  note h2 = holds_dma_alloc [OF d h1]
  show ?thesis
  proof (cases "p = NULL \<or> \<not> qp_hsplit qp")
    case True
    then have "b' = b\<lparr>bq_bufs := p\<rparr>" "w' = w1" using assms(2) by (auto simp: rx_bufs_init_mem_def k Let_def split: if_splits)
    then show ?thesis using h1 assms(1) by (simp add: bq_slots_def bq_dmas_def bq_nobuf_def bq_ok_def ac_simps)
  next
    case False
    then have "b' = b\<lparr>bq_bufs := p, bq_hdr := h\<rparr>" "w' = w2" using assms(2) by (auto simp: rx_bufs_init_mem_def k d Let_def)
    then show ?thesis using h2 False assms(1) by (simp add: bq_slots_def bq_dmas_def bq_nobuf_def bq_ok_def ac_simps)
  qed
qed

interpretation bufqs_fill: fill_loop "rx_bufs_init_mem qp" "bufqs_bufs_init qp" bq_slots bq_dmas "\<lambda>b. bq_nobuf b \<and> bq_ok b" bq_ok for qp
  by unfold_locales (rule bufqs_bufs_init.simps | erule (2) rx_bufs_init_mem_holds | erule conjunct2)+

lemma rx_bufs_init_singleq_mem_holds:
  assumes "rq_nobuf q" and "rx_bufs_init_singleq_mem qp q w = (err, q', w')" and "holds w0 (rq_slots q + P) (rq_dmas q + D) w"
  shows "holds w0 (rq_slots q' + P) (rq_dmas q' + D) w' \<and> rq_fit False q'"
proof -
  obtain p w1 where k: "kcalloc w = (p, w1)" by (metis surj_pair)
  note h1 = holds_kcalloc [OF k assms(3)]
  show ?thesis using assms h1 holds_kfree [OF h1]
    by (auto simp: rx_bufs_init_singleq_mem_def k rx_account_defs ac_simps split: if_splits)
qed

interpretation rxqs_fill: fill_loop "rx_bufs_init_singleq_mem qp" "rxqs_bufs_init qp" rq_slots rq_dmas rq_nobuf "rq_fit False" for qp
  by unfold_locales (rule rxqs_bufs_init.simps | erule (2) rx_bufs_init_singleq_mem_holds | erule rq_nobuf_fit)+

text \<open>A group after its buffers were allocated: in the split queue model the receive queues have no links yet.\<close>

definition rg_filled :: "qparams \<Rightarrow> rx_grp \<Rightarrow> bool" where
  "rg_filled qp g \<longleftrightarrow> rg_ok qp g \<and> (qp_rx_split qp \<longrightarrow> (\<forall>q \<in> set (rg_qs g). rq_nobuf q))"

lemma bufqs_bufs_init_length: "bufqs_bufs_init qp bs w = (err, bs', w') \<Longrightarrow> length bs' = length bs"
  by (induction bs arbitrary: w err bs' w') (auto split: prod.splits option.splits)

lemma rx_group_bufs_init_holds:
  assumes "rg_nobuf qp g" and "rx_group_bufs_init qp g w = (err, g', w')" and "holds w0 (rg_slots g + P) (rg_dmas g + D) w"
  shows "holds w0 (rg_slots g' + P) (rg_dmas g' + D) w' \<and> rg_filled qp g'"
proof (cases "qp_rx_split qp")
  case True
  obtain e bs w1 where b: "bufqs_bufs_init qp (rg_bqs g) w = (e, bs, w1)" by (metis prod_cases3)
  have g: "g' = g\<lparr>rg_bqs := bs\<rparr>" "w' = w1" using assms(2) True by (simp_all add: rx_group_bufs_init_def b)
  let ?P = "slots_of rq_slots (rg_qs g) + (slot (rg_bufq_sets g) + P)"
  have "holds w0 (slots_of bq_slots bs + ?P) (slots_of bq_dmas bs + (slots_of rq_dmas (rg_qs g) + D)) w1 \<and> (\<forall>b \<in> set bs. bq_ok b)"
    using assms(1,3) by (intro bufqs_fill.loop_holds [OF _ b]) (simp_all add: rg_nobuf_def rg_ok_def rg_slots_def rg_dmas_def ac_simps)
  then show ?thesis using True assms(1) bufqs_bufs_init_length [OF b]
    by (simp add: g rg_slots_def rg_dmas_def rg_nobuf_def rg_filled_def rg_ok_def ac_simps)
next
  case False
  obtain e qs w1 where q: "rxqs_bufs_init qp (rg_qs g) w = (e, qs, w1)" by (metis prod_cases3)
  have g: "g' = g\<lparr>rg_qs := qs\<rparr>" "w' = w1" using assms(2) False by (simp_all add: rx_group_bufs_init_def q)
  let ?P = "slots_of bq_slots (rg_bqs g) + (slot (rg_bufq_sets g) + P)"
  have "holds w0 (slots_of rq_slots qs + ?P) (slots_of rq_dmas qs + (slots_of bq_dmas (rg_bqs g) + D)) w1 \<and> (\<forall>q \<in> set qs. rq_fit False q)"
    using assms(1,3) by (intro rxqs_fill.loop_holds [OF _ q]) (simp_all add: rg_nobuf_def rg_slots_def rg_dmas_def ac_simps)
  then show ?thesis using False assms(1)
    by (simp add: g rg_slots_def rg_dmas_def rg_nobuf_def rg_filled_def rg_ok_def ac_simps)
qed

interpretation rx_groups_bufs_fill: fill_loop "rx_group_bufs_init qp" "rx_groups_bufs_init qp" rg_slots rg_dmas "rg_nobuf qp" "rg_filled qp" for qp
  by unfold_locales (rule rx_groups_bufs_init.simps | erule (2) rx_group_bufs_init_holds | simp add: rg_filled_def rg_nobuf_def)+

lemma rxq_map_rings_holds:
  assumes "rq_nobuf q" and "rxq_map_rings qp q w = (err, q', w')" and "holds w0 (rq_slots q + P) (rq_dmas q + D) w"
  shows "holds w0 (rq_slots q' + P) (rq_dmas q' + D) w' \<and> rq_fit True q'"
proof -
  obtain p w1 where k: "kcalloc w = (p, w1)" by (metis surj_pair)
  obtain h w2 where k2: "kcalloc w1 = (h, w2)" by (metis surj_pair)
  obtain ok hs w3 where r: "rings_alloc (qp_num_bufqs qp) w2 = (ok, hs, w3)" by (metis prod_cases3)
  note h1 = holds_kcalloc [OF k assms(3)]
  note h2 = holds_kcalloc [OF k2 h1]
  note h3 = rings_build.loop_holds [OF r h2]
  have n: "rq_bufs q = NULL" "rq_bufq_bufs q = NULL" "rq_hdrs q = NULL" "rq_hdr_list q = []" using assms(1) by (simp_all add: rq_nobuf_def)
  consider (one) "p = NULL \<or> \<not> qp_hsplit qp" | (two) "p \<noteq> NULL" "qp_hsplit qp" "h = NULL" | (all) "p \<noteq> NULL" "qp_hsplit qp" "h \<noteq> NULL" by blast
  then show ?thesis
  proof cases
    case one
    then have "q' = q\<lparr>rq_bufq_bufs := p\<rparr>" "w' = w1" using assms(2) by (auto simp: rxq_map_rings_def k Let_def split: if_splits)
    then show ?thesis using h1 n by (simp add: rq_slots_def rq_dmas_def rq_fit_def ac_simps)
  next
    case two
    then have "q' = q\<lparr>rq_bufq_bufs := p, rq_hdrs := NULL\<rparr>" "w' = w2" using assms(2) by (simp_all add: rxq_map_rings_def k k2 Let_def)
    then show ?thesis using h2 two n by (simp add: rq_slots_def rq_dmas_def rq_fit_def ac_simps)
  next
    case all
    then have "q' = q\<lparr>rq_bufq_bufs := p, rq_hdrs := h, rq_hdr_list := hs\<rparr>" "w' = w3"
      using assms(2) by (simp_all add: rxq_map_rings_def k k2 r Let_def)
    then show ?thesis using h3 all n by (simp add: rq_slots_def rq_dmas_def rq_fit_def slots_of_empty ac_simps)
  qed
qed

interpretation rxqs_map_fill: fill_loop "rxq_map_rings qp" "rxqs_map_rings qp" rq_slots rq_dmas rq_nobuf "rq_fit True" for qp
  by unfold_locales (rule rxqs_map_rings.simps | erule (2) rxq_map_rings_holds | erule rq_nobuf_fit)+

lemma rx_group_map_rings_holds:
  assumes "rg_filled qp g \<and> qp_rx_split qp" and "rx_group_map_rings qp g w = (err, g', w')" and "holds w0 (rg_slots g + P) (rg_dmas g + D) w"
  shows "holds w0 (rg_slots g' + P) (rg_dmas g' + D) w' \<and> rg_ok qp g'"
proof -
  obtain e qs w1 where q: "rxqs_map_rings qp (rg_qs g) w = (e, qs, w1)" by (metis prod_cases3)
  have g: "g' = g\<lparr>rg_qs := qs\<rparr>" "w' = w1" using assms(2) by (simp_all add: rx_group_map_rings_def q)
  let ?P = "slots_of bq_slots (rg_bqs g) + (slot (rg_bufq_sets g) + P)"
  have "holds w0 (slots_of rq_slots qs + ?P) (slots_of rq_dmas qs + (slots_of bq_dmas (rg_bqs g) + D)) w1 \<and> (\<forall>q \<in> set qs. rq_fit True q)"
    using assms(1,3) by (intro rxqs_map_fill.loop_holds [OF _ q]) (simp_all add: rg_filled_def rg_slots_def rg_dmas_def ac_simps)
  then show ?thesis using assms(1) by (simp add: g rg_slots_def rg_dmas_def rg_filled_def rg_ok_def ac_simps)
qed

interpretation rx_groups_map_fill: fill_loop "rx_group_map_rings qp" "idpf_rx_map_buffer_rings qp" rg_slots rg_dmas
  "\<lambda>g. rg_filled qp g \<and> qp_rx_split qp" "rg_ok qp" for qp
  by unfold_locales (rule idpf_rx_map_buffer_rings.simps | erule (2) rx_group_map_rings_holds | simp add: rg_filled_def)+

end
