(* ===== verification/Idpf_Vport_Mem_Results.thy ===== *)
theory Idpf_Vport_Mem_Results
  imports Idpf_Vport_Mem_Tx Idpf_Vport_Mem_Rx
begin

text \<open>
  The memory of the queues is balanced: whatever allocation fails, and wherever, releasing the queues gives
  back exactly what was taken, once.  The release code can however run before an array it indexes was
  allocated.
\<close>

section \<open>All queues\<close>

definition tx_slots :: "qmem \<Rightarrow> ptr multiset" where
  "tx_slots r = slot (qm_txq_grps r) + slots_of tg_slots (qm_tgs r)"

definition tx_dmas :: "qmem \<Rightarrow> ptr multiset" where
  "tx_dmas r = slots_of tg_dmas (qm_tgs r)"

definition rx_slots :: "qmem \<Rightarrow> ptr multiset" where
  "rx_slots r = slot (qm_rxq_grps r) + slots_of rg_slots (qm_rgs r)"

definition rx_dmas :: "qmem \<Rightarrow> ptr multiset" where
  "rx_dmas r = slots_of rg_dmas (qm_rgs r)"

definition qm_account :: "idpf_world \<Rightarrow> qmem \<Rightarrow> idpf_world \<Rightarrow> bool" where
  "qm_account w0 r w \<longleftrightarrow> holds w0 (tx_slots r + (rx_slots r + slot (qm_txqs r))) (tx_dmas r + rx_dmas r) w"

text \<open>Groups in given states; without the array there are none.\<close>

definition tx_all :: "(tx_grp \<Rightarrow> bool) \<Rightarrow> qmem \<Rightarrow> bool" where
  "tx_all Q r \<longleftrightarrow> (\<forall>g \<in> set (qm_tgs r). Q g) \<and> (qm_txq_grps r = NULL \<longrightarrow> qm_tgs r = [])"

definition rx_all :: "(rx_grp \<Rightarrow> bool) \<Rightarrow> qmem \<Rightarrow> bool" where
  "rx_all Q r \<longleftrightarrow> (\<forall>g \<in> set (qm_rgs r). Q g) \<and> (qm_rxq_grps r = NULL \<longrightarrow> qm_rgs r = [])"

lemma all_mono: "tx_all Q r \<Longrightarrow> (\<And>g. Q g \<Longrightarrow> Q' g) \<Longrightarrow> tx_all Q' r" "rx_all R r \<Longrightarrow> (\<And>g. R g \<Longrightarrow> R' g) \<Longrightarrow> rx_all R' r"
  by (auto simp: tx_all_def rx_all_def)

subsection \<open>Groups\<close>

lemma idpf_txq_group_rel_holds:
  assumes "tx_all (tg_part qp) r" and "idpf_txq_group_rel qp r w = Some (r', w')" and "holds w0 (tx_slots r + P) (tx_dmas r + D) w"
  shows "holds w0 P D w' \<and> r' = r\<lparr>qm_txq_grps := NULL, qm_tgs := []\<rparr>"
proof (cases "qm_txq_grps r = NULL")
  case True
  then have "r\<lparr>qm_txq_grps := NULL, qm_tgs := []\<rparr> = r" using assms(1) by (cases r) (simp add: tx_all_def)
  then show ?thesis using assms True by (simp add: idpf_txq_group_rel_def tx_all_def tx_slots_def tx_dmas_def)
next
  case False
  then obtain w1 where f: "txq_groups_rel qp (qm_tgs r) w = Some w1" "w' = kfree (qm_txq_grps r) w1" "r' = r\<lparr>qm_txq_grps := NULL, qm_tgs := []\<rparr>"
    using assms(2) by (auto simp: idpf_txq_group_rel_def split: option.splits)
  have "holds w0 (slot (qm_txq_grps r) + P) D w1"
    using assms(1,3) by (intro tx_groups_free.loop_holds [OF _ f(1)]) (simp_all add: tx_all_def tx_slots_def tx_dmas_def ac_simps)
  then show ?thesis using f holds_kfree by simp
qed

lemma idpf_rxq_group_rel_holds:
  assumes "rx_all (rg_part qp) r" and "idpf_rxq_group_rel qp r w = Some (r', w')" and "holds w0 (rx_slots r + P) (rx_dmas r + D) w"
  shows "holds w0 P D w' \<and> r' = r\<lparr>qm_rxq_grps := NULL, qm_rgs := []\<rparr>"
proof (cases "qm_rxq_grps r = NULL")
  case True
  then have "r\<lparr>qm_rxq_grps := NULL, qm_rgs := []\<rparr> = r" using assms(1) by (cases r) (simp add: rx_all_def)
  then show ?thesis using assms True by (simp add: idpf_rxq_group_rel_def rx_all_def rx_slots_def rx_dmas_def)
next
  case False
  then obtain w1 where f: "rxq_groups_rel qp (qm_rgs r) w = Some w1" "w' = kfree (qm_rxq_grps r) w1" "r' = r\<lparr>qm_rxq_grps := NULL, qm_rgs := []\<rparr>"
    using assms(2) by (auto simp: idpf_rxq_group_rel_def split: option.splits)
  have "holds w0 (slot (qm_rxq_grps r) + P) D w1"
    using assms(1,3) by (intro rx_groups_free.loop_holds [OF _ f(1)]) (simp_all add: rx_all_def rx_slots_def rx_dmas_def ac_simps)
  then show ?thesis using f holds_kfree by simp
qed

text \<open>Complete groups are freed without an access through \<open>NULL\<close>.\<close>

lemma group_rel_full:
  "tx_all (tg_ok qp) r \<Longrightarrow> \<exists>r' w'. idpf_txq_group_rel qp r w = Some (r', w')"
  "rx_all (rg_ok qp) r \<Longrightarrow> \<exists>r' w'. idpf_rxq_group_rel qp r w = Some (r', w')"
  using tx_groups_free.loop_full [of "qm_tgs r" qp w] rx_groups_free.loop_full [of "qm_rgs r" qp w]
  by (auto simp: idpf_txq_group_rel_def idpf_rxq_group_rel_def tx_all_def rx_all_def)

lemma idpf_txq_group_alloc_holds:
  assumes "idpf_txq_group_alloc qp r w = Some (err, r', w')" and "holds w0 P D w"
  shows "\<exists>p gs. r' = r\<lparr>qm_txq_grps := p, qm_tgs := gs\<rparr> \<and> holds w0 (tx_slots r' + P) (tx_dmas r' + D) w' \<and> tx_all (tg_done qp) r' \<and>
     (err \<noteq> ret_ok \<longrightarrow> p = NULL \<and> gs = [])"
proof -
  obtain p w1 where k: "kcalloc w = (p, w1)" by (metis surj_pair)
  obtain ok gs w2 where g: "txq_groups_init qp (qp_num_txq_grp qp) w1 = (ok, gs, w2)" by (metis prod_cases3)
  define r1 where "r1 = r\<lparr>qm_txq_grps := p, qm_tgs := gs\<rparr>"
  have r1: "qm_txq_grps r1 = p" "qm_tgs r1 = gs" by (simp_all add: r1_def)
  note h1 = holds_kcalloc [OF k assms(2)]
  note h2 = tx_groups_build.loop_holds [OF g h1]
  have h: "holds w0 (tx_slots r1 + P) (tx_dmas r1 + D) w2" using h2 by (simp add: tx_slots_def tx_dmas_def r1 ac_simps)
  consider (none) "p = NULL" | (ok) "p \<noteq> NULL" ok | (fail) "p \<noteq> NULL" "\<not> ok" by blast
  then show ?thesis
  proof cases
    case none
    then have "r' = r\<lparr>qm_txq_grps := NULL, qm_tgs := []\<rparr>" "w' = w1" using assms(1) by (simp_all add: idpf_txq_group_alloc_def k)
    then show ?thesis using h1 none by (intro exI [of _ NULL] exI [of _ "[]"]) (simp add: tx_slots_def tx_dmas_def tx_all_def)
  next
    case ok
    then have "r' = r1" "w' = w2" "err = ret_ok" using assms(1) by (simp_all add: idpf_txq_group_alloc_def k g r1_def Let_def)
    then show ?thesis using h h2 ok by (intro exI [of _ p] exI [of _ gs]) (simp add: r1_def tx_all_def tg_done_def)
  next
    case fail
    then have rel: "idpf_txq_group_rel qp r1 w2 = Some (r', w')"
      using assms(1) by (simp add: idpf_txq_group_alloc_def k g r1_def [symmetric] Let_def split: option.splits prod.splits)
    have "holds w0 P D w' \<and> r' = r1\<lparr>qm_txq_grps := NULL, qm_tgs := []\<rparr>"
      using h2 fail by (intro idpf_txq_group_rel_holds [OF _ rel h]) (simp add: tx_all_def r1)
    then show ?thesis by (intro exI [of _ NULL] exI [of _ "[]"]) (simp add: tx_slots_def tx_dmas_def tx_all_def r1_def)
  qed
qed

lemma idpf_rxq_group_alloc_holds:
  assumes "idpf_rxq_group_alloc qp r w = Some (err, r', w')" and "holds w0 P D w"
  shows "\<exists>p gs. r' = r\<lparr>qm_rxq_grps := p, qm_rgs := gs\<rparr> \<and> holds w0 (rx_slots r' + P) (rx_dmas r' + D) w' \<and> rx_all (rg_done qp) r' \<and>
     (err \<noteq> ret_ok \<longrightarrow> p = NULL \<and> gs = [])"
proof -
  obtain p w1 where k: "kcalloc w = (p, w1)" by (metis surj_pair)
  obtain ok gs w2 where g: "rxq_groups_init qp (qp_num_rxq_grp qp) w1 = (ok, gs, w2)" by (metis prod_cases3)
  define r1 where "r1 = r\<lparr>qm_rxq_grps := p, qm_rgs := gs\<rparr>"
  have r1: "qm_rxq_grps r1 = p" "qm_rgs r1 = gs" by (simp_all add: r1_def)
  note h1 = holds_kcalloc [OF k assms(2)]
  note h2 = rx_groups_build.loop_holds [OF g h1]
  have h: "holds w0 (rx_slots r1 + P) (rx_dmas r1 + D) w2" using h2 by (simp add: rx_slots_def rx_dmas_def r1 ac_simps)
  consider (none) "p = NULL" | (ok) "p \<noteq> NULL" ok | (fail) "p \<noteq> NULL" "\<not> ok" by blast
  then show ?thesis
  proof cases
    case none
    then have "r' = r\<lparr>qm_rxq_grps := NULL, qm_rgs := []\<rparr>" "w' = w1" using assms(1) by (simp_all add: idpf_rxq_group_alloc_def k)
    then show ?thesis using h1 none by (intro exI [of _ NULL] exI [of _ "[]"]) (simp add: rx_slots_def rx_dmas_def rx_all_def)
  next
    case ok
    then have "r' = r1" "w' = w2" "err = ret_ok" using assms(1) by (simp_all add: idpf_rxq_group_alloc_def k g r1_def Let_def)
    then show ?thesis using h h2 ok by (intro exI [of _ p] exI [of _ gs]) (simp add: r1_def rx_all_def rg_done_def)
  next
    case fail
    then have rel: "idpf_rxq_group_rel qp r1 w2 = Some (r', w')"
      using assms(1) by (simp add: idpf_rxq_group_alloc_def k g r1_def [symmetric] Let_def split: option.splits prod.splits)
    have "holds w0 P D w' \<and> r' = r1\<lparr>qm_rxq_grps := NULL, qm_rgs := []\<rparr>"
      using h2 fail by (intro idpf_rxq_group_rel_holds [OF _ rel h]) (simp add: rx_all_def r1)
    then show ?thesis by (intro exI [of _ NULL] exI [of _ "[]"]) (simp add: rx_slots_def rx_dmas_def rx_all_def r1_def)
  qed
qed

lemma qm_account_zero [simp]: "qm_account w qmem_zero w"
  by (simp add: qm_account_def qmem_zero_def tx_slots_def tx_dmas_def rx_slots_def rx_dmas_def holds_refl)

lemma queue_grp_rel_all:
  assumes "tx_all (tg_done qp) r" and "rx_all (rg_done qp) r" and "qm_account w0 r w"
  shows "\<exists>w'. idpf_vport_queue_grp_rel_all qp r w = Some (qmem_zero\<lparr>qm_txqs := qm_txqs r\<rparr>, w') \<and> holds w0 (slot (qm_txqs r)) {#} w'"
proof -
  have t: "tx_all (tg_ok qp) r" "tx_all (tg_part qp) r" using assms(1) by (auto simp: tx_all_def tg_done_def)
  obtain r1 w1 where a: "idpf_txq_group_rel qp r w = Some (r1, w1)" using group_rel_full(1) [OF t(1)] by blast
  have r1: "holds w0 (rx_slots r + slot (qm_txqs r)) (rx_dmas r) w1 \<and> r1 = r\<lparr>qm_txq_grps := NULL, qm_tgs := []\<rparr>"
    using assms(3) by (intro idpf_txq_group_rel_holds [OF t(2) a]) (simp add: qm_account_def)
  then have u: "rx_all (rg_ok qp) r1" "rx_all (rg_part qp) r1" "rx_slots r1 = rx_slots r" "rx_dmas r1 = rx_dmas r"
    using assms(2) by (auto simp: rx_all_def rg_done_def rx_slots_def rx_dmas_def)
  obtain r2 w2 where b: "idpf_rxq_group_rel qp r1 w1 = Some (r2, w2)" using group_rel_full(2) [OF u(1)] by blast
  have "holds w0 (slot (qm_txqs r)) {#} w2 \<and> r2 = r1\<lparr>qm_rxq_grps := NULL, qm_rgs := []\<rparr>"
    using r1 u by (intro idpf_rxq_group_rel_holds [OF u(2) b]) simp
  moreover have "r\<lparr>qm_txq_grps := NULL, qm_tgs := [], qm_rxq_grps := NULL, qm_rgs := []\<rparr> = qmem_zero\<lparr>qm_txqs := qm_txqs r\<rparr>"
    by (cases r) (simp add: qmem_zero_def)
  moreover have "idpf_vport_queue_grp_rel_all qp r w = Some (r2, w2)" by (simp add: idpf_vport_queue_grp_rel_all_def a b)
  ultimately show ?thesis using r1 by simp
qed

lemma queue_grp_alloc_all:
  assumes "idpf_vport_queue_grp_alloc_all qp qmem_zero w0 = Some (err, r', w')"
  shows "qm_account w0 r' w' \<and> tx_all (tg_done qp) r' \<and> rx_all (rg_done qp) r' \<and> qm_txqs r' = NULL \<and> (err \<noteq> ret_ok \<longrightarrow> r' = qmem_zero)"
proof -
  obtain e1 r1 w1 where a: "idpf_txq_group_alloc qp qmem_zero w0 = Some (e1, r1, w1)"
    using assms by (cases "idpf_txq_group_alloc qp qmem_zero w0") (auto simp: idpf_vport_queue_grp_alloc_all_def)
  obtain p gs where r1: "r1 = qmem_zero\<lparr>qm_txq_grps := p, qm_tgs := gs\<rparr>" "holds w0 (tx_slots r1) (tx_dmas r1) w1" "tx_all (tg_done qp) r1"
    using idpf_txq_group_alloc_holds [OF a holds_refl] by auto
  have undo: "qm_account w0 r' w' \<and> tx_all (tg_done qp) r' \<and> rx_all (rg_done qp) r' \<and> qm_txqs r' = NULL \<and> r' = qmem_zero"
    if "idpf_vport_queue_grp_rel_all qp r w = Some (r', w')" "tx_all (tg_done qp) r" "rx_all (rg_done qp) r" "qm_account w0 r w" "qm_txqs r = NULL" for r w
  proof -
    have "r' = qmem_zero" "holds w0 {#} {#} w'"
      using queue_grp_rel_all [OF that(2,3,4)] that(1,5) by (auto simp: qmem_zero_def)
    then show ?thesis by (simp add: qm_account_def qmem_zero_def tx_slots_def tx_dmas_def rx_slots_def rx_dmas_def tx_all_def rx_all_def)
  qed
  have z: "qm_account w0 r1 w1" "rx_all (rg_done qp) r1" "qm_txqs r1 = NULL"
    using r1 by (simp_all add: qm_account_def qmem_zero_def rx_slots_def rx_dmas_def rx_all_def)
  show ?thesis
  proof (cases e1)
    case (Some e)
    then have "idpf_vport_queue_grp_rel_all qp r1 w1 = Some (r', w')"
      using assms by (simp add: idpf_vport_queue_grp_alloc_all_def a split: option.splits prod.splits)
    from undo [OF this r1(3) z(2,1,3)] show ?thesis by blast
  next
    case None
    obtain e2 r2 w2 where b: "idpf_rxq_group_alloc qp r1 w1 = Some (e2, r2, w2)"
      using assms None by (cases "idpf_rxq_group_alloc qp r1 w1") (auto simp: idpf_vport_queue_grp_alloc_all_def a)
    obtain q hs where r2: "r2 = r1\<lparr>qm_rxq_grps := q, qm_rgs := hs\<rparr>" "holds w0 (rx_slots r2 + tx_slots r1) (rx_dmas r2 + tx_dmas r1) w2" "rx_all (rg_done qp) r2"
      using idpf_rxq_group_alloc_holds [OF b r1(2)] by auto
    have y: "qm_account w0 r2 w2" "tx_all (tg_done qp) r2" "qm_txqs r2 = NULL"
      using r1 r2 z(3) by (simp_all add: qm_account_def tx_slots_def tx_dmas_def tx_all_def ac_simps)
    show ?thesis
    proof (cases e2)
      case (Some e)
      then have "idpf_vport_queue_grp_rel_all qp r2 w2 = Some (r', w')"
        using assms None by (simp add: idpf_vport_queue_grp_alloc_all_def a b split: option.splits prod.splits)
      from undo [OF this y(2) r2(3) y(1,3)] show ?thesis by blast
    next
      case None
      then have "r' = r2" "w' = w2" "err = ret_ok" using assms \<open>e1 = None\<close> by (simp_all add: idpf_vport_queue_grp_alloc_all_def a b)
      then show ?thesis using y r2 by simp
    qed
  qed
qed

subsection \<open>Rings and buffers\<close>

lemma tx_desc_alloc_all_holds:
  assumes "tx_all (tg_done qp) r" and "idpf_tx_desc_alloc_all qp r w = (err, r', w')" and "qm_account w0 r w"
  shows "qm_account w0 r' w' \<and> tx_all (tg_ok qp) r' \<and> qm_rxq_grps r' = qm_rxq_grps r \<and> qm_rgs r' = qm_rgs r \<and> qm_txqs r' = qm_txqs r"
proof -
  obtain e gs w1 where g: "tx_groups_desc_alloc qp (qm_tgs r) w = (e, gs, w1)" by (metis prod_cases3)
  have r': "r' = r\<lparr>qm_tgs := gs\<rparr>" "w' = w1" using assms(2) by (simp_all add: idpf_tx_desc_alloc_all_def g)
  have "holds w0 (slots_of tg_slots gs + (slot (qm_txq_grps r) + (rx_slots r + slot (qm_txqs r)))) (slots_of tg_dmas gs + rx_dmas r) w1
      \<and> (\<forall>g \<in> set gs. tg_ok qp g)"
    using assms(1,3) by (intro tx_groups_fill.loop_holds [OF _ g]) (simp_all add: qm_account_def tx_all_def tx_slots_def tx_dmas_def ac_simps)
  moreover have "qm_txq_grps r = NULL \<Longrightarrow> gs = []" using g assms(1) by (auto simp: tx_all_def)
  ultimately show ?thesis by (simp add: r' qm_account_def tx_all_def tx_slots_def tx_dmas_def rx_slots_def rx_dmas_def ac_simps)
qed

lemma tx_desc_rel_all_holds:
  assumes "tx_all (tg_ok qp) r" and "idpf_tx_desc_rel_all qp r w = (r', w')" and "qm_account w0 r w"
  shows "qm_account w0 r' w' \<and> tx_all (tg_done qp) r' \<and> qm_rxq_grps r' = qm_rxq_grps r \<and> qm_rgs r' = qm_rgs r \<and> qm_txqs r' = qm_txqs r"
proof (cases "qm_txq_grps r = NULL")
  case True
  then show ?thesis using assms by (auto simp: idpf_tx_desc_rel_all_def tx_all_def)
next
  case False
  obtain gs w1 where g: "tx_groups_desc_rel qp (qm_tgs r) w = (gs, w1)" by (metis surj_pair)
  have r': "r' = r\<lparr>qm_tgs := gs\<rparr>" "w' = w1" using assms(2) False by (simp_all add: idpf_tx_desc_rel_all_def g)
  have "holds w0 (slots_of tg_slots gs + (slot (qm_txq_grps r) + (rx_slots r + slot (qm_txqs r)))) (slots_of tg_dmas gs + rx_dmas r) w1
      \<and> (\<forall>g \<in> set gs. tg_done qp g)"
    using assms(1,3) by (intro tx_groups_drain.loop_holds [OF _ g]) (simp_all add: qm_account_def tx_all_def tx_slots_def tx_dmas_def ac_simps)
  then show ?thesis using False by (simp add: r' qm_account_def tx_all_def tx_slots_def tx_dmas_def rx_slots_def rx_dmas_def ac_simps)
qed

lemma rx_desc_rel_all_holds:
  assumes "rx_all (rg_ok qp) r" and "idpf_rx_desc_rel_all qp r w = (r', w')" and "qm_account w0 r w"
  shows "qm_account w0 r' w' \<and> rx_all (rg_done qp) r' \<and> qm_txq_grps r' = qm_txq_grps r \<and> qm_tgs r' = qm_tgs r \<and> qm_txqs r' = qm_txqs r"
proof (cases "qm_rxq_grps r = NULL")
  case True
  then show ?thesis using assms by (auto simp: idpf_rx_desc_rel_all_def rx_all_def)
next
  case False
  obtain gs w1 where g: "rx_groups_desc_rel qp (qm_rgs r) w = (gs, w1)" by (metis surj_pair)
  have r': "r' = r\<lparr>qm_rgs := gs\<rparr>" "w' = w1" using assms(2) False by (simp_all add: idpf_rx_desc_rel_all_def g)
  have "holds w0 (slots_of rg_slots gs + (slot (qm_rxq_grps r) + (tx_slots r + slot (qm_txqs r)))) (slots_of rg_dmas gs + tx_dmas r) w1
      \<and> (\<forall>g \<in> set gs. rg_done qp g)"
    using assms(1,3) by (intro rx_groups_drain.loop_holds [OF _ g]) (simp_all add: qm_account_def rx_all_def rx_slots_def rx_dmas_def ac_simps)
  then show ?thesis using False by (simp add: r' qm_account_def rx_all_def tx_slots_def tx_dmas_def rx_slots_def rx_dmas_def ac_simps)
qed

lemma rx_desc_alloc_all_holds:
  assumes "rx_all (rg_done qp) r" and "idpf_rx_desc_alloc_all qp r w = (err, r', w')" and "qm_account w0 r w"
  shows "qm_account w0 r' w' \<and> rx_all (rg_nobuf qp) r' \<and> qm_txq_grps r' = qm_txq_grps r \<and> qm_tgs r' = qm_tgs r \<and> qm_txqs r' = qm_txqs r"
proof -
  obtain e gs w1 where g: "rx_groups_desc_alloc qp (qm_rgs r) w = (e, gs, w1)" by (metis prod_cases3)
  define r1 where "r1 = r\<lparr>qm_rgs := gs\<rparr>"
  have "holds w0 (slots_of rg_slots gs + (slot (qm_rxq_grps r) + (tx_slots r + slot (qm_txqs r)))) (slots_of rg_dmas gs + tx_dmas r) w1
      \<and> (\<forall>g \<in> set gs. rg_nobuf qp g)"
    using assms(1,3) by (intro rx_groups_desc_fill.loop_holds [OF _ g]) (simp_all add: qm_account_def rx_all_def rx_slots_def rx_dmas_def ac_simps)
  moreover have "qm_rxq_grps r = NULL \<Longrightarrow> gs = []" using g assms(1) by (auto simp: rx_all_def)
  ultimately have h: "qm_account w0 r1 w1" "rx_all (rg_nobuf qp) r1"
    by (simp_all add: r1_def qm_account_def rx_all_def tx_slots_def tx_dmas_def rx_slots_def rx_dmas_def ac_simps)
  show ?thesis
  proof (cases "e = ret_ok")
    case True
    then have "r' = r1" "w' = w1" using assms(2) by (simp_all add: idpf_rx_desc_alloc_all_def g r1_def Let_def)
    then show ?thesis using h by (simp add: r1_def)
  next
    case False
    then have rel: "idpf_rx_desc_rel_all qp r1 w1 = (r', w')"
      using assms(2) by (simp add: idpf_rx_desc_alloc_all_def g r1_def [symmetric] Let_def split: prod.splits)
    have "rx_all (rg_ok qp) r1" using h(2) by (simp add: rx_all_def rg_nobuf_def)
    from rx_desc_rel_all_holds [OF this rel h(1)] show ?thesis using rg_done_nobuf by (auto simp: r1_def rx_all_def)
  qed
qed

lemma rx_bufs_init_all_holds:
  assumes "rx_all (rg_nobuf qp) r" and "idpf_rx_bufs_init_all qp r w = (err, r', w')" and "qm_account w0 r w"
  shows "qm_account w0 r' w' \<and> rx_all (rg_ok qp) r' \<and> qm_txq_grps r' = qm_txq_grps r \<and> qm_tgs r' = qm_tgs r \<and> qm_txqs r' = qm_txqs r"
proof -
  obtain e gs w1 where g: "rx_groups_bufs_init qp (qm_rgs r) w = (e, gs, w1)" by (metis prod_cases3)
  obtain e2 hs w2 where m: "idpf_rx_map_buffer_rings qp gs w1 = (e2, hs, w2)" by (metis prod_cases3)
  let ?P = "slot (qm_rxq_grps r) + (tx_slots r + slot (qm_txqs r))"
  have h1: "holds w0 (slots_of rg_slots gs + ?P) (slots_of rg_dmas gs + tx_dmas r) w1 \<and> (\<forall>g \<in> set gs. rg_filled qp g)"
    using assms(1,3) by (intro rx_groups_bufs_fill.loop_holds [OF _ g]) (simp_all add: qm_account_def rx_all_def rx_slots_def rx_dmas_def ac_simps)
  have none: "qm_rxq_grps r = NULL \<Longrightarrow> gs = [] \<and> hs = []" using g m assms(1) by (auto simp: rx_all_def)
  show ?thesis
  proof (cases "e \<noteq> ret_ok \<or> \<not> qp_rx_split qp")
    case True
    then have r': "r' = r\<lparr>qm_rgs := gs\<rparr>" "w' = w1" using assms(2) by (auto simp: idpf_rx_bufs_init_all_def g)
    show ?thesis using h1 none
      by (simp add: r' rg_filled_def qm_account_def rx_all_def tx_slots_def tx_dmas_def rx_slots_def rx_dmas_def ac_simps)
  next
    case False
    then have r': "r' = r\<lparr>qm_rgs := hs\<rparr>" "w' = w2" using assms(2) by (auto simp: idpf_rx_bufs_init_all_def g m)
    have "holds w0 (slots_of rg_slots hs + ?P) (slots_of rg_dmas hs + tx_dmas r) w2 \<and> (\<forall>g \<in> set hs. rg_ok qp g)"
      using h1 False by (intro rx_groups_map_fill.loop_holds [OF _ m]) simp_all
    then show ?thesis using none
      by (simp add: r' qm_account_def rx_all_def tx_slots_def tx_dmas_def rx_slots_def rx_dmas_def ac_simps)
  qed
qed

text \<open>Releasing all queues, in whatever state their rings and buffers are.\<close>

lemma queues_rel_all:
  assumes "tx_all (tg_ok qp) r" and "rx_all (rg_ok qp) r" and "qm_account w0 r w"
  shows "\<exists>w'. idpf_vport_queues_rel qp r w = Some (qmem_zero, w') \<and> owns w0 {} {} w'"
proof -
  obtain r1 w1 where a: "idpf_tx_desc_rel_all qp r w = (r1, w1)" by (metis surj_pair)
  note h1 = tx_desc_rel_all_holds [OF assms(1) a assms(3)]
  obtain r2 w2 where b: "idpf_rx_desc_rel_all qp r1 w1 = (r2, w2)" by (metis surj_pair)
  have "rx_all (rg_ok qp) r1" using h1 assms(2) by (simp add: rx_all_def)
  note h2 = rx_desc_rel_all_holds [OF this b h1 [THEN conjunct1]]
  have "tx_all (tg_done qp) r2" using h1 h2 by (simp add: tx_all_def)
  from queue_grp_rel_all [OF this] h2 obtain w3 where c: "idpf_vport_queue_grp_rel_all qp r2 w2 = Some (qmem_zero\<lparr>qm_txqs := qm_txqs r2\<rparr>, w3)"
    "holds w0 (slot (qm_txqs r2)) {#} w3" by blast
  have "owns w0 {} {} (kfree (qm_txqs r2) w3)" using holds_kfree [of w0 "qm_txqs r2" "{#}" "{#}" w3] c(2) by (simp add: holds_empty)
  then show ?thesis by (simp add: idpf_vport_queues_rel_def a b c(1) qmem_zero_def)
qed

lemma fast_path_txq_init_holds:
  assumes "qm_txqs r = NULL" and "idpf_fast_path_txq_init r w = (err, r', w')" and "qm_account w0 r w"
  shows "qm_account w0 r' w' \<and> qm_txq_grps r' = qm_txq_grps r \<and> qm_tgs r' = qm_tgs r \<and> qm_rxq_grps r' = qm_rxq_grps r \<and> qm_rgs r' = qm_rgs r"
proof -
  obtain p w1 where k: "kcalloc w = (p, w1)" by (metis surj_pair)
  have "r' = r\<lparr>qm_txqs := p\<rparr>" "w' = w1" using assms(2) by (simp_all add: idpf_fast_path_txq_init_def k)
  then show ?thesis using holds_kcalloc [OF k assms(3) [unfolded qm_account_def]] assms(1)
    by (simp add: qm_account_def tx_slots_def tx_dmas_def rx_slots_def rx_dmas_def ac_simps)
qed

text \<open>All of the allocation after the groups: it ends with complete queues or with nothing.\<close>

lemma queue_alloc_all:
  assumes "idpf_vport_queue_grp_alloc_all qp qmem_zero w0 = Some (e0, r0, v0)"
  shows "\<exists>err r w. idpf_vport_queue_alloc_all qp qmem_zero w0 = Some (err, r, w) \<and>
    (if err = ret_ok then qm_account w0 r w \<and> tx_all (tg_ok qp) r \<and> rx_all (rg_nobuf qp) r else r = qmem_zero \<and> owns w0 {} {} w)"
proof -
  note h0 = queue_grp_alloc_all [OF assms]
  have ok: "tx_all (tg_ok qp) r" if "tx_all (tg_done qp) r" for r using that by (simp add: tx_all_def tg_done_def)
  have rok: "rx_all (rg_ok qp) r" if "rx_all (rg_done qp) r \<or> rx_all (rg_nobuf qp) r" for r using that by (auto simp: rx_all_def rg_done_def rg_nobuf_def)
  obtain e1 r1 w1 where a: "idpf_tx_desc_alloc_all qp r0 v0 = (e1, r1, w1)" by (metis prod_cases3)
  have h1: "qm_account w0 r1 w1" "tx_all (tg_ok qp) r1" "rx_all (rg_done qp) r1" "qm_txqs r1 = NULL"
    using tx_desc_alloc_all_holds [OF _ a, of w0] h0 by (auto simp: rx_all_def)
  obtain e2 r2 w2 where b: "idpf_rx_desc_alloc_all qp r1 w1 = (e2, r2, w2)" by (metis prod_cases3)
  have h2: "qm_account w0 r2 w2" "tx_all (tg_ok qp) r2" "rx_all (rg_nobuf qp) r2" "qm_txqs r2 = NULL"
    using rx_desc_alloc_all_holds [OF h1(3) b h1(1)] h1 by (auto simp: tx_all_def)
  obtain e3 r3 w3 where c: "idpf_fast_path_txq_init r2 w2 = (e3, r3, w3)" by (metis prod_cases3)
  have h3: "qm_account w0 r3 w3" "tx_all (tg_ok qp) r3" "rx_all (rg_nobuf qp) r3"
    using fast_path_txq_init_holds [OF h2(4) c h2(1)] h2 by (auto simp: tx_all_def rx_all_def)
  obtain u0 u1 u2 u3 where u:
    "idpf_vport_queues_rel qp r0 v0 = Some (qmem_zero, u0)" "owns w0 {} {} u0" "idpf_vport_queues_rel qp r1 w1 = Some (qmem_zero, u1)" "owns w0 {} {} u1"
    "idpf_vport_queues_rel qp r2 w2 = Some (qmem_zero, u2)" "owns w0 {} {} u2" "idpf_vport_queues_rel qp r3 w3 = Some (qmem_zero, u3)" "owns w0 {} {} u3"
    using queues_rel_all [of qp r0 w0 v0] queues_rel_all [of qp r1 w0 w1] queues_rel_all [of qp r2 w0 w2] queues_rel_all [of qp r3 w0 w3] h0 h1 h2 h3 ok rok by blast
  show ?thesis
    using h3 u by (cases e0; cases e1; cases e2; cases e3) (simp_all add: idpf_vport_queue_alloc_all_def assms a b c)
qed

section \<open>Properties\<close>

definition demo_qp :: "bool \<Rightarrow> qparams" where
  "demo_qp hsplit = \<lparr>qp_tx_split = True, qp_rx_split = True, qp_num_txq_grp = 1, qp_num_rxq_grp = 1, qp_txq_per_grp = 1, qp_rxq_per_grp = 1,
     qp_num_bufqs = 1, qp_flow_sch = True, qp_hsplit = hsplit, qp_pages = (\<lambda>_. True)\<rparr>"

text \<open>A run in the single queue model, with one queue each way, stage by stage.\<close>

definition demo_single :: qparams where
  "demo_single = (demo_qp False)\<lparr>qp_tx_split := False, qp_rx_split := False, qp_flow_sch := False\<rparr>"

definition demo_w :: "ptr list \<Rightarrow> (ptr \<times> u64) list \<Rightarrow> ptr set \<Rightarrow> ptr set \<Rightarrow> idpf_world" where
  "demo_w ks ds L M = (demo_world ks ds)\<lparr>live := L, dma_live := M\<rparr>"

lemma demo_w_kcalloc: "k \<noteq> NULL \<Longrightarrow> k \<notin> L \<Longrightarrow> kcalloc (demo_w (k # ks) ds L M) = (k, demo_w ks ds (insert k L) M)"
  by (simp add: demo_w_def demo_world_def kcalloc_def)

lemma demo_w_dma: "k \<noteq> NULL \<Longrightarrow> k \<notin> M \<Longrightarrow> dma_alloc (demo_w ks ((k, a) # ds) L M) = (k, demo_w ks ds L (insert k M))"
  by (simp add: demo_w_def demo_world_def dma_alloc_def dma_alloc_attrs_def)

lemmas demo_run = demo_w_kcalloc demo_w_dma demo_single_def demo_qp_def qmem_zero_def tx_grp_zero_def tx_q_zero_def rx_grp_zero_def rx_q_zero_def

lemma demo_grps: "idpf_vport_queue_grp_alloc_all demo_single qmem_zero (demo_w [1, 2, 3, 4, 5, 6, 7] [(20, 0), (21, 0)] {} {}) = Some (ret_ok,
    \<lparr>qm_txq_grps = 1, qm_tgs = [tx_grp_zero\<lparr>tg_num := 1, tg_txqs := 2, tg_qs := [tx_q_zero\<lparr>tq_obj := 3\<rparr>]\<rparr>],
     qm_rxq_grps = 4, qm_rgs = [rx_grp_zero\<lparr>rg_num := 1, rg_qs := [rx_q_zero\<lparr>rq_obj := 5\<rparr>]\<rparr>], qm_txqs = NULL\<rparr>,
    demo_w [6, 7] [(20, 0), (21, 0)] {5, 4, 3, 2, 1} {})"
  by (simp add: idpf_vport_queue_grp_alloc_all_def idpf_txq_group_alloc_def idpf_rxq_group_alloc_def txq_group_init_def rxq_group_init_def
    demo_run Let_def)

lemma demo_alloc:
  "\<exists>r w. idpf_vport_queue_alloc_all demo_single qmem_zero (demo_w [1, 2, 3, 4, 5, 6, 7] [(20, 0), (21, 0)] {} {}) = Some (ret_ok, r, w)"
  unfolding idpf_vport_queue_alloc_all_def Let_def demo_grps
  by (simp add: idpf_tx_desc_alloc_all_def tx_group_desc_alloc_def idpf_tx_desc_alloc_def idpf_rx_desc_alloc_all_def rx_group_desc_alloc_def
    idpf_fast_path_txq_init_def demo_run)

text \<open>
  The only way not to return is the release of half-built groups: a transmit group whose array of queues
  could not be allocated, or a buffer queue without its array of refill queues.
\<close>

lemma free_loop_fault: "free_loop step loop S M part full \<Longrightarrow> loop xs w = None \<Longrightarrow> \<exists>x \<in> set xs. \<exists>w. step x w = None"
proof (induction xs arbitrary: w)
  case Nil
  then show ?case using free_loop.loop_Nil by fastforce
next
  case (Cons x xs)
  then show ?case using free_loop.loop_Cons [OF Cons.prems(1), of x xs w] by (cases "step x w") auto
qed

lemma tx_group_rel_fault:
  assumes "idpf_txq_group_rel qp r w = None"
  shows "\<exists>g \<in> set (qm_tgs r). tg_num g \<noteq> 0 \<and> tg_txqs g = NULL"
proof -
  have "txq_groups_rel qp (qm_tgs r) w = None" using assms by (simp add: idpf_txq_group_rel_def split: if_splits option.splits)
  from free_loop_fault [OF tx_groups_free.free_loop_axioms this] show ?thesis by (auto simp: txq_group_rel_one_def Let_def split: if_splits)
qed

lemma rx_group_rel_fault:
  assumes "idpf_rxq_group_rel qp r w = None"
  shows "\<exists>g \<in> set (qm_rgs r). \<exists>b \<in> set (rg_bqs g). bq_num_refillqs b \<noteq> 0 \<and> bq_refillqs b = NULL"
proof -
  have "rxq_groups_rel qp (qm_rgs r) w = None" using assms by (simp add: idpf_rxq_group_rel_def split: if_splits option.splits)
  from free_loop_fault [OF rx_groups_free.free_loop_axioms this] obtain g v where g: "g \<in> set (qm_rgs r)" "rxq_group_rel_one qp g v = None" by blast
  then have "idpf_rxq_sw_queue_rel (take (rg_num_bufq_sets g) (rg_bqs g)) (kfree_list (map rq_obj (rg_qs g)) v) = None"
    by (simp add: rxq_group_rel_one_def Let_def split: if_splits option.splits)
  from free_loop_fault [OF bufqs_free.free_loop_axioms this] obtain b x where
    "b \<in> set (take (rg_num_bufq_sets g) (rg_bqs g))" "bufq_set_rel b x = None" by blast
  then have "b \<in> set (rg_bqs g)" "bq_num_refillqs b \<noteq> 0 \<and> bq_refillqs b = NULL" by (auto simp: bufq_set_rel_def dest: in_set_takeD split: if_splits)
  then show ?thesis using g by blast
qed

definition tx_half_built :: "tx_grp list \<Rightarrow> bool" where
  "tx_half_built gs \<longleftrightarrow> (\<exists>g \<in> set gs. tg_num g \<noteq> 0 \<and> tg_txqs g = NULL)"

definition rx_half_built :: "rx_grp list \<Rightarrow> bool" where
  "rx_half_built gs \<longleftrightarrow> (\<exists>g \<in> set gs. \<exists>b \<in> set (rg_bqs g). bq_num_refillqs b \<noteq> 0 \<and> bq_refillqs b = NULL)"

text \<open>The allocation of the groups of one direction, from this very world, stops at such a group.\<close>

definition tx_alloc_breaks :: "qparams \<Rightarrow> idpf_world \<Rightarrow> bool" where
  "tx_alloc_breaks qp w \<longleftrightarrow> (\<exists>p w1 gs w2. kcalloc w = (p, w1) \<and> p \<noteq> NULL \<and>
     txq_groups_init qp (qp_num_txq_grp qp) w1 = (False, gs, w2) \<and> tx_half_built gs)"

definition rx_alloc_breaks :: "qparams \<Rightarrow> idpf_world \<Rightarrow> bool" where
  "rx_alloc_breaks qp w \<longleftrightarrow> (\<exists>p w1 gs w2. kcalloc w = (p, w1) \<and> p \<noteq> NULL \<and>
     rxq_groups_init qp (qp_num_rxq_grp qp) w1 = (False, gs, w2) \<and> rx_half_built gs)"

lemma tx_group_alloc_fault:
  assumes "idpf_txq_group_alloc qp r w = None"
  shows "tx_alloc_breaks qp w"
proof -
  obtain p w1 where k: "kcalloc w = (p, w1)" by (metis surj_pair)
  obtain ok gs w2 where i: "txq_groups_init qp (qp_num_txq_grp qp) w1 = (ok, gs, w2)" by (metis prod_cases3)
  have "p \<noteq> NULL" "\<not> ok" "idpf_txq_group_rel qp (r\<lparr>qm_txq_grps := p, qm_tgs := gs\<rparr>) w2 = None"
    using assms by (simp_all add: idpf_txq_group_alloc_def k i Let_def split: if_splits option.splits)
  then show ?thesis using tx_group_rel_fault i k by (fastforce simp: tx_alloc_breaks_def tx_half_built_def)
qed

lemma rx_group_alloc_fault:
  assumes "idpf_rxq_group_alloc qp r w = None"
  shows "rx_alloc_breaks qp w"
proof -
  obtain p w1 where k: "kcalloc w = (p, w1)" by (metis surj_pair)
  obtain ok gs w2 where i: "rxq_groups_init qp (qp_num_rxq_grp qp) w1 = (ok, gs, w2)" by (metis prod_cases3)
  have "p \<noteq> NULL" "\<not> ok" "idpf_rxq_group_rel qp (r\<lparr>qm_rxq_grps := p, qm_rgs := gs\<rparr>) w2 = None"
    using assms by (simp_all add: idpf_rxq_group_alloc_def k i Let_def split: if_splits option.splits)
  then show ?thesis using rx_group_rel_fault i k by (fastforce simp: rx_alloc_breaks_def rx_half_built_def)
qed

lemma grp_alloc_fault:
  assumes "idpf_vport_queue_grp_alloc_all qp qmem_zero w0 = None"
  shows "tx_alloc_breaks qp w0 \<or> (\<exists>r1 w1. idpf_txq_group_alloc qp qmem_zero w0 = Some (ret_ok, r1, w1) \<and> rx_alloc_breaks qp w1)"
proof (cases "idpf_txq_group_alloc qp qmem_zero w0")
  case None
  then show ?thesis using tx_group_alloc_fault by blast
next
  case (Some x)
  obtain e1 r1 w1 where a: "idpf_txq_group_alloc qp qmem_zero w0 = Some (e1, r1, w1)" using Some by (cases x) auto
  obtain p gs where r1: "r1 = qmem_zero\<lparr>qm_txq_grps := p, qm_tgs := gs\<rparr>" "holds w0 (tx_slots r1) (tx_dmas r1) w1" "tx_all (tg_done qp) r1"
    using idpf_txq_group_alloc_holds [OF a holds_refl] by auto
  then have z: "qm_account w0 r1 w1" "rx_all (rg_done qp) r1"
    by (simp_all add: qm_account_def qmem_zero_def rx_slots_def rx_dmas_def rx_all_def)
  have ok: "e1 = ret_ok"
    using assms queue_grp_rel_all [OF r1(3) z(2,1)] by (cases e1) (auto simp: idpf_vport_queue_grp_alloc_all_def a)
  have "idpf_rxq_group_alloc qp r1 w1 = None"
  proof (rule ccontr)
    assume "idpf_rxq_group_alloc qp r1 w1 \<noteq> None"
    then obtain e2 r2 w2 where b: "idpf_rxq_group_alloc qp r1 w1 = Some (e2, r2, w2)" by (metis option.exhaust prod_cases3)
    obtain q hs where r2: "r2 = r1\<lparr>qm_rxq_grps := q, qm_rgs := hs\<rparr>" "holds w0 (rx_slots r2 + tx_slots r1) (rx_dmas r2 + tx_dmas r1) w2" "rx_all (rg_done qp) r2"
      using idpf_rxq_group_alloc_holds [OF b r1(2)] by auto
    have y: "qm_account w0 r2 w2" "tx_all (tg_done qp) r2"
      using r1 r2 by (simp_all add: qm_account_def tx_slots_def tx_dmas_def tx_all_def qmem_zero_def ac_simps)
    show False
      using assms ok queue_grp_rel_all [OF y(2) r2(3) y(1)] by (cases e2) (auto simp: idpf_vport_queue_grp_alloc_all_def a b)
  qed
  then show ?thesis using a ok rx_group_alloc_fault by blast
qed

lemma queue_alloc_fault:
  assumes "idpf_vport_queue_alloc_all qp qmem_zero w0 = None"
  shows "tx_alloc_breaks qp w0 \<or> (\<exists>r1 w1. idpf_txq_group_alloc qp qmem_zero w0 = Some (ret_ok, r1, w1) \<and> rx_alloc_breaks qp w1)"
proof -
  have "idpf_vport_queue_grp_alloc_all qp qmem_zero w0 = None"
    using assms queue_alloc_all by (cases "idpf_vport_queue_grp_alloc_all qp qmem_zero w0") fastforce+
  then show ?thesis by (rule grp_alloc_fault)
qed

lemma queue_alloc_balanced:
  assumes "idpf_vport_queue_alloc_all qp qmem_zero w0 = Some (err, r, w)"
  shows "if err = ret_ok
    then (\<exists>w1. idpf_vport_queues_rel qp r w = Some (qmem_zero, w1) \<and> owns w0 {} {} w1) \<and>
      (case idpf_rx_bufs_init_all qp r w of (_, r2, w2) \<Rightarrow>
         \<exists>w3. idpf_vport_queues_rel qp r2 w2 = Some (qmem_zero, w3) \<and> owns w0 {} {} w3)
    else r = qmem_zero \<and> owns w0 {} {} w"
proof -
  obtain e0 r0 v0 where "idpf_vport_queue_grp_alloc_all qp qmem_zero w0 = Some (e0, r0, v0)"
    using assms by (cases "idpf_vport_queue_grp_alloc_all qp qmem_zero w0") (auto simp: idpf_vport_queue_alloc_all_def)
  note h = queue_alloc_all [OF this]
  show ?thesis
  proof (cases "err = ret_ok")
    case True
    then have k: "qm_account w0 r w" "tx_all (tg_ok qp) r" "rx_all (rg_nobuf qp) r" using h assms by auto
    then have "rx_all (rg_ok qp) r" by (auto simp: rx_all_def rg_nobuf_def)
    note now = queues_rel_all [OF k(2) this k(1)]
    obtain e r2 w2 where b: "idpf_rx_bufs_init_all qp r w = (e, r2, w2)" by (metis prod_cases3)
    have "qm_account w0 r2 w2" "tx_all (tg_ok qp) r2" "rx_all (rg_ok qp) r2"
      using rx_bufs_init_all_holds [OF k(3) b k(1)] k(2) by (auto simp: tx_all_def)
    then show ?thesis using True now queues_rel_all [of qp r2 w0 w2] by (simp add: b)
  next
    case False
    then show ?thesis using h assms by auto
  qed
qed

text \<open>
  C25.  The memory of the queues of a vport is balanced, whichever allocations fail.  If
  \<open>idpf_vport_queue_alloc_all\<close> succeeds then, whatever becomes of the receive buffers,
  \<open>idpf_vport_queues_rel\<close> runs to its end and gives back exactly what was taken.  If it returns an error,
  nothing is held and nothing was freed twice.  It fails to return (a dereference of \<open>NULL\<close> in the release
  of half-built groups) at most in two cases: when the array of queues of a transmit group could not be
  allocated, or the array of refill queues of a buffer queue after the transmit groups were complete.
\<close>

theorem queue_memory_balanced:
  "case idpf_vport_queue_alloc_all qp qmem_zero w0 of
     None \<Rightarrow> tx_alloc_breaks qp w0 \<or>
       (\<exists>r1 w1. idpf_txq_group_alloc qp qmem_zero w0 = Some (ret_ok, r1, w1) \<and> rx_alloc_breaks qp w1)
   | Some (err, r, w) \<Rightarrow>
       (if err = ret_ok
        then (\<exists>w1. idpf_vport_queues_rel qp r w = Some (qmem_zero, w1) \<and> owns w0 {} {} w1) \<and>
          (case idpf_rx_bufs_init_all qp r w of (_, r2, w2) \<Rightarrow>
             \<exists>w3. idpf_vport_queues_rel qp r2 w2 = Some (qmem_zero, w3) \<and> owns w0 {} {} w3)
        else r = qmem_zero \<and> owns w0 {} {} w)"
proof (cases "idpf_vport_queue_alloc_all qp qmem_zero w0")
  case None
  then show ?thesis using queue_alloc_fault by simp
next
  case (Some x)
  then show ?thesis using queue_alloc_balanced [of qp w0 "fst x" "fst (snd x)" "snd (snd x)"] by (simp add: split_beta)
qed

theorem queue_memory_balanced_witness:
  "\<exists>r w r2 w2 e2 w3. idpf_vport_queue_alloc_all demo_single qmem_zero (demo_w [1, 2, 3, 4, 5, 6, 7] [(20, 0), (21, 0)] {} {}) = Some (ret_ok, r, w) \<and>
     idpf_rx_bufs_init_all demo_single r w = (e2, r2, w2) \<and>
     idpf_vport_queues_rel demo_single r2 w2 = Some (qmem_zero, w3) \<and> live w3 = {} \<and> dma_live w3 = {} \<and> \<not> bad_free w3"
proof -
  let ?w = "demo_w [1, 2, 3, 4, 5, 6, 7] [(20, 0), (21, 0)] {} {}"
  obtain r w where run: "idpf_vport_queue_alloc_all demo_single qmem_zero ?w = Some (ret_ok, r, w)" using demo_alloc by blast
  obtain e2 r2 w2 where b: "idpf_rx_bufs_init_all demo_single r w = (e2, r2, w2)" by (metis prod_cases3)
  obtain w3 where w3: "idpf_vport_queues_rel demo_single r2 w2 = Some (qmem_zero, w3)" "owns ?w {} {} w3"
    using queue_memory_balanced [of demo_single ?w] run b by auto
  have "live w3 = {} \<and> dma_live w3 = {} \<and> \<not> bad_free w3" using w3(2) by (simp add: owns_def demo_w_def demo_world_def)
  then show ?thesis using run b w3(1) by blast
qed

text \<open>Two worlds in which that happens: one split queue group with one queue each way.\<close>

lemmas mem_eval = demo_qp_def demo_world_def tx_grp_zero_def tx_q_zero_def rx_grp_zero_def rx_q_zero_def buf_q_zero_def
  txq_group_init_def rxq_group_init_def kcalloc_def dma_alloc_def dma_alloc_attrs_def kfree_def kfree_list_def

text \<open>\<open>num_txq\<close> is set before the array is allocated; the release then indexes the missing array.\<close>

theorem txqs_alloc_failure_faults: "idpf_vport_queue_alloc_all (demo_qp False) qmem_zero (demo_world [1] []) = None"
proof -
  have "txq_groups_init (demo_qp False) 1 ((demo_world [1] [])\<lparr>kscript := [], live := {1}\<rparr>) =
      (False, [tx_grp_zero\<lparr>tg_num := 1\<rparr>], (demo_world [1] [])\<lparr>kscript := [], live := {1}\<rparr>)"
    by (simp add: mem_eval)
  then have "idpf_txq_group_alloc (demo_qp False) qmem_zero (demo_world [1] []) = None"
    by (simp add: idpf_txq_group_alloc_def idpf_txq_group_rel_def txq_group_rel_one_def tx_grp_zero_def demo_qp_def demo_world_def kcalloc_def Let_def)
  then show ?thesis by (simp add: idpf_vport_queue_alloc_all_def idpf_vport_queue_grp_alloc_all_def)
qed

text \<open>\<open>num_refillqs\<close> likewise, and in \<open>idpf_rxq_sw_queue_rel\<close> the missing array is indexed.\<close>

theorem refillqs_alloc_failure_faults: "idpf_rxq_group_alloc (demo_qp False) qmem_zero (demo_world [1, 2, 3] []) = None"
proof -
  have "rxq_groups_init (demo_qp False) 1 ((demo_world [1, 2, 3] [])\<lparr>kscript := [2, 3], live := {1}\<rparr>) =
      (False, [\<lparr>rg_num = 1, rg_qs = [rx_q_zero\<lparr>rq_obj := 2\<rparr>], rg_bufq_sets = 3, rg_num_bufq_sets = 1, rg_bqs = [buf_q_zero\<lparr>bq_num_refillqs := 1\<rparr>]\<rparr>],
       (demo_world [1, 2, 3] [])\<lparr>kscript := [], live := {3, 2, 1}\<rparr>)"
    by (simp add: mem_eval Let_def)
  then show ?thesis
    by (simp add: idpf_rxq_group_alloc_def idpf_rxq_group_rel_def rxq_group_rel_one_def buf_q_zero_def demo_qp_def demo_world_def kcalloc_def Let_def)
qed

text \<open>
  The array of queues for the fast path gives the timestamp capabilities to the queue whose index is the
  number of the group, once for each queue of the group: with one queue in the group that is the same, in the
  single queue model, with all queues in one group, only queue 0 gets them.
\<close>

theorem caps_of_first_queue_only:
  assumes "tg_num g = length (tg_qs g)" and "1 < length (tg_qs g)"
  shows "set (fast_path_caps True [g]) = {0} \<and> length (fast_path_order [g]) > 1"
  using assms by (auto simp: fast_path_caps_def fast_path_order_def)

end
