(* ===== verification/Idpf_Intr.thy ===== *)
theory Idpf_Intr
  imports Idpf_Vport_Mem Idpf_Queues
begin

unbundle bit_operations_syntax

text \<open>
  The interrupt vectors of a vport (\<open>idpf_txrx.c\<close>, \<open>idpf_dev.c\<close>): the array of \<open>q_vectors\<close>, the queues mapped to
  them, their registers, interrupt handlers and NAPI contexts.  Memory is accounted for as in
  \<open>Idpf_Vport_Mem\<close>.  As a result \<open>None\<close> is an access outside an array, a division by zero, or
  \<open>napi_disable\<close> of a context that was never enabled, for which the kernel waits for ever.
\<close>

section \<open>State\<close>

datatype napi = Napi_none | Napi_added | Napi_enabled

text \<open>
  A vector: its allocated arrays with the queues entered so far, the handler with the name that was
  allocated for it, and its registers.  Queues are counted through all groups.  The moderation settings
  copied from the user configuration are left out.
\<close>

record idpf_q_vector =
  iv_mask :: ptr
  iv_tx :: ptr
  iv_rx :: ptr
  iv_bufq :: ptr
  iv_txs :: "nat list"
  iv_rxs :: "nat list"
  iv_bufqs :: "nat list"
  iv_irq :: "ptr option"
  iv_napi :: napi
  iv_v_idx :: u16
  iv_dyn_ctl :: u32
  iv_rx_itr :: u32
  iv_tx_itr :: u32

definition vec_zero :: idpf_q_vector where
  "vec_zero = \<lparr>iv_mask = NULL, iv_tx = NULL, iv_rx = NULL, iv_bufq = NULL, iv_txs = [], iv_rxs = [], iv_bufqs = [],
     iv_irq = None, iv_napi = Napi_none, iv_v_idx = 0, iv_dyn_ctl = 0, iv_rx_itr = 0, iv_tx_itr = 0\<rparr>"

text \<open>\<open>in_irq_warn\<close>: \<open>free_irq\<close> was called for an interrupt that was not requested.\<close>

record intr =
  in_arr :: ptr
  in_vecs :: "idpf_q_vector list"
  in_irq_warn :: bool

definition intr_zero :: intr where
  "intr_zero = \<lparr>in_arr = NULL, in_vecs = [], in_irq_warn = False\<rparr>"

record virtchnl2_vector_chunk =
  vch_start :: u16
  vch_num :: u16
  vch_dynctl_start :: u32
  vch_dynctl_spacing :: u32
  vch_itrn_start :: u32
  vch_itrn_spacing :: u32
  vch_itrn_index_spacing :: u32

record idpf_vec_regs =
  dyn_ctl_reg :: u32
  itrn_reg :: u32
  itrn_index_spacing :: u32

text \<open>
  What the rest of the driver and the kernel provide: counts of vectors and queues, the vectors of this vport
  by their place among those of the function, the chunks the device granted, the number of reserved
  vectors, whether affinity masks are allocated, and the results of \<open>request_irq\<close>.
\<close>

record iparams =
  ip_num :: nat
  ip_num_txq :: nat
  ip_num_complq :: nat
  ip_num_rxq :: nat
  ip_xdp :: bool
  ip_masks :: bool
  ip_idxs :: "nat list"
  ip_chunks :: "virtchnl2_vector_chunk list option"
  ip_reserved :: nat
  ip_mb :: u16
  ip_irq :: "nat \<Rightarrow> ret"

section \<open>Memory\<close>

definition DIV_ROUND_UP :: "nat \<Rightarrow> nat \<Rightarrow> nat" where
  "DIV_ROUND_UP n d = (n + d - 1) div d"

definition txqs_per_vector :: "qparams \<Rightarrow> iparams \<Rightarrow> nat" where
  "txqs_per_vector qp ip =
     (let n = trunc16 (DIV_ROUND_UP (if qp_tx_split qp then ip_num_complq ip else ip_num_txq ip) (ip_num ip))
      in if ip_xdp ip then trunc16 (n * 2) else n)"

definition rxqs_per_vector :: "iparams \<Rightarrow> nat" where
  "rxqs_per_vector ip = trunc16 (DIV_ROUND_UP (ip_num_rxq ip) (ip_num ip))"

definition bufq_per_vector :: "qparams \<Rightarrow> iparams \<Rightarrow> nat" where
  "bufq_per_vector qp ip = trunc16 (qp_num_bufqs qp * rxqs_per_vector ip)"

definition vec_alloc :: "qparams \<Rightarrow> iparams \<Rightarrow> idpf_world \<Rightarrow> bool \<times> idpf_q_vector \<times> idpf_world" where
  "vec_alloc qp ip w =
     (case (if ip_masks ip then kcalloc w else (NULL, w)) of (m, w) \<Rightarrow>
        let v = vec_zero\<lparr>iv_mask := m\<rparr> in
        if ip_masks ip \<and> m = NULL then (False, v, w)
        else case kcalloc w of (t, w) \<Rightarrow>
          let v = v\<lparr>iv_tx := t\<rparr> in
          if t = NULL then (False, v, w)
          else case kcalloc w of (r, w) \<Rightarrow>
            let v = v\<lparr>iv_rx := r\<rparr> in
            if r = NULL then (False, v, w)
            else if \<not> qp_rx_split qp then (True, v, w)
            else case kcalloc w of (b, w) \<Rightarrow> (b \<noteq> NULL, v\<lparr>iv_bufq := b\<rparr>, w))"

primrec vecs_alloc :: "qparams \<Rightarrow> iparams \<Rightarrow> nat \<Rightarrow> idpf_world \<Rightarrow> bool \<times> idpf_q_vector list \<times> idpf_world" where
  "vecs_alloc qp ip 0 w = (True, [], w)"
| "vecs_alloc qp ip (Suc n) w =
     (case vec_alloc qp ip w of (ok, v, w) \<Rightarrow>
        if \<not> ok then (False, v # replicate n vec_zero, w)
        else case vecs_alloc qp ip n w of (ok, vs, w) \<Rightarrow> (ok, v # vs, w))"

definition vec_rel :: "idpf_q_vector \<Rightarrow> idpf_world \<Rightarrow> idpf_world" where
  "vec_rel v w = kfree_list [iv_bufq v, iv_tx v, iv_rx v, iv_mask v] w"

definition idpf_vport_intr_rel :: "intr \<Rightarrow> idpf_world \<Rightarrow> intr \<times> idpf_world" where
  "idpf_vport_intr_rel i w = (i\<lparr>in_arr := NULL, in_vecs := []\<rparr>, kfree (in_arr i) (fold vec_rel (in_vecs i) w))"

definition idpf_vport_intr_alloc :: "qparams \<Rightarrow> iparams \<Rightarrow> intr \<Rightarrow> idpf_world \<Rightarrow> (ret \<times> intr \<times> idpf_world) option" where
  "idpf_vport_intr_alloc qp ip i w =
     (case kcalloc w of (p, w) \<Rightarrow>
        if p = NULL then Some (Some ENOMEM, i\<lparr>in_arr := NULL, in_vecs := []\<rparr>, w)
        else if ip_num ip = 0 then None
        else case vecs_alloc qp ip (ip_num ip) w of (ok, vs, w) \<Rightarrow>
          let i = i\<lparr>in_arr := p, in_vecs := vs\<rparr> in
          if ok then Some (ret_ok, i, w)
          else case idpf_vport_intr_rel i w of (i, w) \<Rightarrow> Some (Some ENOMEM, i, w))"

section \<open>Queues of the vectors\<close>

text \<open>Entering a queue into an array of a vector with room for \<open>cap\<close> queues.\<close>

definition vec_put ::
  "(idpf_q_vector \<Rightarrow> nat list) \<Rightarrow> ((nat list \<Rightarrow> nat list) \<Rightarrow> idpf_q_vector \<Rightarrow> idpf_q_vector) \<Rightarrow> nat \<Rightarrow> nat \<Rightarrow> nat \<Rightarrow>
   idpf_q_vector list \<Rightarrow> idpf_q_vector list option" where
  "vec_put sel upd cap v q vs =
     (if v < length vs \<and> length (sel (vs ! v)) < cap then Some (vs[v := upd (\<lambda>qs. qs @ [q]) (vs ! v)]) else None)"

text \<open>Queues in turn to the vectors from \<open>qv\<close> on; the index is set back before it is used.\<close>

primrec map_in_turn ::
  "(idpf_q_vector \<Rightarrow> nat list) \<Rightarrow> ((nat list \<Rightarrow> nat list) \<Rightarrow> idpf_q_vector \<Rightarrow> idpf_q_vector) \<Rightarrow> nat \<Rightarrow> nat \<Rightarrow>
   nat list \<Rightarrow> nat \<Rightarrow> idpf_q_vector list \<Rightarrow> (nat \<times> idpf_q_vector list) option" where
  "map_in_turn sel upd nv cap [] qv vs = Some (qv, vs)"
| "map_in_turn sel upd nv cap (q # qs) qv vs =
     (let qv = (if nv \<le> qv then 0 else qv) in
      case vec_put sel upd cap qv q vs of None \<Rightarrow> None
      | Some vs \<Rightarrow> map_in_turn sel upd nv cap qs (Suc qv) vs)"

primrec map_bufqs :: "nat \<Rightarrow> nat \<Rightarrow> nat list \<Rightarrow> idpf_q_vector list \<Rightarrow> idpf_q_vector list option" where
  "map_bufqs cap v [] vs = Some vs"
| "map_bufqs cap v (q # qs) vs =
     (case vec_put iv_bufqs iv_bufqs_update cap v q vs of None \<Rightarrow> None | Some vs \<Rightarrow> map_bufqs cap v qs vs)"

primrec map_rx_groups ::
  "qparams \<Rightarrow> iparams \<Rightarrow> nat \<Rightarrow> nat \<Rightarrow> nat \<Rightarrow> nat \<Rightarrow> idpf_q_vector list \<Rightarrow> idpf_q_vector list option" where
  "map_rx_groups qp ip 0 g qv bv vs = Some vs"
| "map_rx_groups qp ip (Suc n) g qv bv vs =
     (let per = qp_rxq_per_grp qp; nb = qp_num_bufqs qp in
      case map_in_turn iv_rxs iv_rxs_update (ip_num ip) (rxqs_per_vector ip) [g * per..<g * per + per] qv vs of None \<Rightarrow> None
      | Some (qv, vs) \<Rightarrow>
          if \<not> qp_rx_split qp then map_rx_groups qp ip n (Suc g) qv bv vs
          else case map_bufqs (bufq_per_vector qp ip) bv [g * nb..<g * nb + nb] vs of None \<Rightarrow> None
          | Some vs \<Rightarrow> map_rx_groups qp ip n (Suc g) qv (if ip_num ip \<le> Suc bv then 0 else Suc bv) vs)"

text \<open>In the split queue model the completion queues are entered instead of the transmit queues.\<close>

primrec map_tx_groups :: "qparams \<Rightarrow> iparams \<Rightarrow> nat \<Rightarrow> nat \<Rightarrow> nat \<Rightarrow> idpf_q_vector list \<Rightarrow> idpf_q_vector list option" where
  "map_tx_groups qp ip 0 g qv vs = Some vs"
| "map_tx_groups qp ip (Suc n) g qv vs =
     (let per = qp_txq_per_grp qp in
      case map_in_turn iv_txs iv_txs_update (ip_num ip) (txqs_per_vector qp ip)
          (if qp_tx_split qp then [g] else [g * per..<g * per + per]) qv vs of None \<Rightarrow> None
      | Some (qv, vs) \<Rightarrow> map_tx_groups qp ip n (Suc g) qv vs)"

definition idpf_vport_intr_map_vector_to_qs :: "qparams \<Rightarrow> iparams \<Rightarrow> idpf_q_vector list \<Rightarrow> idpf_q_vector list option" where
  "idpf_vport_intr_map_vector_to_qs qp ip vs =
     (case map_rx_groups qp ip (qp_num_rxq_grp qp) 0 0 0 vs of None \<Rightarrow> None
      | Some vs \<Rightarrow> map_tx_groups qp ip (qp_num_txq_grp qp) 0 0 vs)"

section \<open>Vector numbers and registers\<close>

definition set_v_idx :: "u16 list \<Rightarrow> idpf_q_vector list \<Rightarrow> idpf_q_vector list" where
  "set_v_idx xs vs = map2 (\<lambda>x v. v\<lparr>iv_v_idx := x\<rparr>) xs vs"

definition idpf_vport_intr_init_vec_idx :: "iparams \<Rightarrow> idpf_q_vector list \<Rightarrow> idpf_world \<Rightarrow> (ret \<times> idpf_q_vector list \<times> idpf_world) option" where
  "idpf_vport_intr_init_vec_idx ip vs w =
     (case ip_chunks ip of
        None \<Rightarrow> if length (ip_idxs ip) < length vs then None
          else Some (ret_ok, set_v_idx (map word_of_nat (take (length vs) (ip_idxs ip))) vs, w)
      | Some cs \<Rightarrow>
          (case kcalloc w of (p, w) \<Rightarrow>
             if p = NULL then Some (Some ENOMEM, vs, w)
             else case idpf_get_vec_ids (ip_mb ip) (replicate (ip_reserved ip) 0) (ip_reserved ip)
                 (map (\<lambda>c. (vch_start c, vch_num c)) cs) of (_, ids) \<Rightarrow>
               if length (ip_idxs ip) < length vs \<or> (\<exists>k \<in> set (take (length vs) (ip_idxs ip)). length ids \<le> k) then None
               else Some (ret_ok, set_v_idx (map (\<lambda>k. ids ! k) (take (length vs) (ip_idxs ip))) vs, kfree p w)))"

text \<open>The registers of the vectors, by chunks; the array is not bounded by its size.\<close>

primrec vec_reg_run :: "nat \<Rightarrow> u32 \<Rightarrow> u32 \<Rightarrow> virtchnl2_vector_chunk \<Rightarrow> idpf_vec_regs list" where
  "vec_reg_run 0 dyn itrn c = []"
| "vec_reg_run (Suc n) dyn itrn c =
     \<lparr>dyn_ctl_reg = dyn, itrn_reg = itrn, itrn_index_spacing = vch_itrn_index_spacing c\<rparr> #
     vec_reg_run n (dyn + vch_dynctl_spacing c) (itrn + vch_itrn_spacing c) c"

definition idpf_get_reg_intr_vecs :: "nat \<Rightarrow> virtchnl2_vector_chunk list \<Rightarrow> idpf_vec_regs list option" where
  "idpf_get_reg_intr_vecs room cs =
     (let regs = concat (map (\<lambda>c. vec_reg_run (unat (vch_num c)) (vch_dynctl_start c) (vch_itrn_start c) c) cs)
      in if room < length regs then None else Some regs)"

definition IDPF_PF_ITR_IDX_SPACING :: u32 where
  "IDPF_PF_ITR_IDX_SPACING = 0x4"

definition set_regs :: "idpf_vec_regs \<Rightarrow> idpf_q_vector \<Rightarrow> idpf_q_vector" where
  "set_regs r v =
     (let spacing = (if itrn_index_spacing r = 0 then IDPF_PF_ITR_IDX_SPACING else itrn_index_spacing r)
      in v\<lparr>iv_dyn_ctl := dyn_ctl_reg r, iv_rx_itr := itrn_reg r + 0 * spacing, iv_tx_itr := itrn_reg r + 1 * spacing\<rparr>)"

text \<open>
  Entries the device did not describe are zero.  The vector of the mailbox is not among the registers: the
  index is shifted by one, in 16 bits.
\<close>

definition idpf_intr_reg_init :: "iparams \<Rightarrow> idpf_q_vector list \<Rightarrow> idpf_world \<Rightarrow> (ret \<times> idpf_q_vector list \<times> idpf_world) option" where
  "idpf_intr_reg_init ip vs w =
     (case kcalloc w of (p, w) \<Rightarrow>
        if p = NULL then Some (Some ENOMEM, vs, w)
        else case ip_chunks ip of None \<Rightarrow> None
        | Some cs \<Rightarrow>
            (case idpf_get_reg_intr_vecs (ip_reserved ip) cs of None \<Rightarrow> None
             | Some regs \<Rightarrow>
                 let num_regs = length regs;
                     arr = regs @ replicate (ip_reserved ip - num_regs) \<lparr>dyn_ctl_reg = 0, itrn_reg = 0, itrn_index_spacing = 0\<rparr>;
                     ids = map (\<lambda>k. trunc16 (k + 65535)) (take (length vs) (ip_idxs ip))
                 in if num_regs < length vs then Some (Some EINVAL, vs, kfree p w)
                    else if length ids < length vs \<or> (\<exists>k \<in> set ids. length arr \<le> k) then None
                    else Some (ret_ok, map2 (\<lambda>k v. set_regs (arr ! k) v) ids vs, kfree p w)))"

section \<open>Handlers and NAPI\<close>

text \<open>\<open>free_irq\<close> returns the name the handler was registered with; for a vector without a handler it warns.\<close>

definition vec_free_irq :: "idpf_q_vector \<Rightarrow> idpf_world \<Rightarrow> idpf_q_vector \<times> bool \<times> idpf_world" where
  "vec_free_irq v w = (case iv_irq v of Some name \<Rightarrow> (v\<lparr>iv_irq := None\<rparr>, False, kfree name w) | None \<Rightarrow> (v, True, w))"

text \<open>
  Handlers for the vectors from number \<open>k\<close> on.  A vector without queues gets none.  If a request fails the
  handlers before it are freed, the last first, for all vectors.
\<close>

primrec req_irqs :: "iparams \<Rightarrow> nat \<Rightarrow> idpf_q_vector list \<Rightarrow> idpf_world \<Rightarrow> ret \<times> idpf_q_vector list \<times> bool \<times> idpf_world" where
  "req_irqs ip k [] w = (ret_ok, [], False, w)"
| "req_irqs ip k (v # vs) w =
     (let undo = (\<lambda>v (err, vs, warn, w).
            if err = ret_ok then (err, v # vs, warn, w)
            else case vec_free_irq v w of (v, warn', w) \<Rightarrow> (err, v # vs, warn \<or> warn', w))
      in if iv_rxs v = [] \<and> iv_txs v = [] then undo v (req_irqs ip (Suc k) vs w)
         else case kcalloc w of (name, w) \<Rightarrow>
           (case ip_irq ip k of
              Some e \<Rightarrow> (Some e, v # vs, False, kfree name w)
            | None \<Rightarrow> undo (v\<lparr>iv_irq := Some name\<rparr>) (req_irqs ip (Suc k) vs w)))"

definition idpf_vport_intr_req_irq :: "iparams \<Rightarrow> intr \<Rightarrow> idpf_world \<Rightarrow> ret \<times> intr \<times> idpf_world" where
  "idpf_vport_intr_req_irq ip i w =
     (case req_irqs ip 0 (in_vecs i) w of (err, vs, warn, w) \<Rightarrow> (err, i\<lparr>in_vecs := vs, in_irq_warn := in_irq_warn i \<or> warn\<rparr>, w))"

primrec free_irqs :: "idpf_q_vector list \<Rightarrow> idpf_world \<Rightarrow> idpf_q_vector list \<times> bool \<times> idpf_world" where
  "free_irqs [] w = ([], False, w)"
| "free_irqs (v # vs) w =
     (case vec_free_irq v w of (v, warn, w) \<Rightarrow> case free_irqs vs w of (vs, warn', w) \<Rightarrow> (v # vs, warn \<or> warn', w))"

definition idpf_vport_intr_rel_irq :: "intr \<Rightarrow> idpf_world \<Rightarrow> intr \<times> idpf_world" where
  "idpf_vport_intr_rel_irq i w =
     (case free_irqs (in_vecs i) w of (vs, warn, w) \<Rightarrow> (i\<lparr>in_vecs := vs, in_irq_warn := in_irq_warn i \<or> warn\<rparr>, w))"

definition idpf_vport_intr_napi_add_all :: "intr \<Rightarrow> intr" where
  "idpf_vport_intr_napi_add_all i = i\<lparr>in_vecs := map (\<lambda>v. v\<lparr>iv_napi := Napi_added\<rparr>) (in_vecs i)\<rparr>"

definition idpf_vport_intr_napi_del_all :: "intr \<Rightarrow> intr" where
  "idpf_vport_intr_napi_del_all i = i\<lparr>in_vecs := map (\<lambda>v. v\<lparr>iv_napi := Napi_none\<rparr>) (in_vecs i)\<rparr>"

definition idpf_vport_intr_napi_ena_all :: "intr \<Rightarrow> intr" where
  "idpf_vport_intr_napi_ena_all i = i\<lparr>in_vecs := map (\<lambda>v. v\<lparr>iv_napi := Napi_enabled\<rparr>) (in_vecs i)\<rparr>"

definition idpf_vport_intr_napi_dis_all :: "intr \<Rightarrow> intr option" where
  "idpf_vport_intr_napi_dis_all i =
     (if \<forall>v \<in> set (in_vecs i). iv_napi v = Napi_enabled
      then Some (i\<lparr>in_vecs := map (\<lambda>v. v\<lparr>iv_napi := Napi_added\<rparr>) (in_vecs i)\<rparr>) else None)"

definition idpf_vport_intr_init :: "qparams \<Rightarrow> iparams \<Rightarrow> intr \<Rightarrow> idpf_world \<Rightarrow> (ret \<times> intr \<times> idpf_world) option" where
  "idpf_vport_intr_init qp ip i w =
     (case idpf_vport_intr_init_vec_idx ip (in_vecs i) w of None \<Rightarrow> None
      | Some (Some e, vs, w) \<Rightarrow> Some (Some e, i\<lparr>in_vecs := vs\<rparr>, w)
      | Some (None, vs, w) \<Rightarrow>
          (case idpf_vport_intr_map_vector_to_qs qp ip vs of None \<Rightarrow> None
           | Some vs \<Rightarrow>
               let i = idpf_vport_intr_napi_add_all (i\<lparr>in_vecs := vs\<rparr>) in
               (case idpf_intr_reg_init ip (in_vecs i) w of None \<Rightarrow> None
                | Some (Some e, vs, w) \<Rightarrow> Some (Some e, idpf_vport_intr_napi_del_all (i\<lparr>in_vecs := vs\<rparr>), w)
                | Some (None, vs, w) \<Rightarrow>
                    (case kcalloc w of (int_name, w) \<Rightarrow>
                       case idpf_vport_intr_req_irq ip (i\<lparr>in_vecs := vs\<rparr>) w of (err, i, w) \<Rightarrow>
                         Some (err, if err = ret_ok then i else idpf_vport_intr_napi_del_all i, kfree int_name w)))))"

definition idpf_vport_intr_deinit :: "intr \<Rightarrow> idpf_world \<Rightarrow> (intr \<times> idpf_world) option" where
  "idpf_vport_intr_deinit i w =
     (case idpf_vport_intr_napi_dis_all i of None \<Rightarrow> None
      | Some i \<Rightarrow> Some (idpf_vport_intr_rel_irq (idpf_vport_intr_napi_del_all i) w))"

section \<open>Interrupt moderation registers\<close>

definition PF_GLINT_DYN_CTL_INTENA_M :: u32 where "PF_GLINT_DYN_CTL_INTENA_M = 0x1"
definition PF_GLINT_DYN_CTL_SWINT_TRIG_M :: u32 where "PF_GLINT_DYN_CTL_SWINT_TRIG_M = 0x4"
definition PF_GLINT_DYN_CTL_SW_ITR_INDX_ENA_M :: u32 where "PF_GLINT_DYN_CTL_SW_ITR_INDX_ENA_M = 0x1000000"
definition PF_GLINT_DYN_CTL_WB_ON_ITR_M :: u32 where "PF_GLINT_DYN_CTL_WB_ON_ITR_M = 0x40000000"
definition PF_GLINT_DYN_CTL_INTENA_MSK_M :: u32 where "PF_GLINT_DYN_CTL_INTENA_MSK_M = 0x80000000"
definition PF_GLINT_DYN_CTL_ITR_INDX_S :: nat where "PF_GLINT_DYN_CTL_ITR_INDX_S = 3"
definition PF_GLINT_DYN_CTL_INTERVAL_S :: nat where "PF_GLINT_DYN_CTL_INTERVAL_S = 5"
definition IDPF_ITR_MASK :: u32 where "IDPF_ITR_MASK = 0x1FFE"
definition IDPF_ITR_20K :: u32 where "IDPF_ITR_20K = 0x0032"
definition IDPF_SW_ITR_UPDATE_IDX :: u32 where "IDPF_SW_ITR_UPDATE_IDX = 2"
definition IDPF_NO_ITR_UPDATE_IDX :: u32 where "IDPF_NO_ITR_UPDATE_IDX = 3"

definition idpf_vport_intr_buildreg_itr :: "bool \<Rightarrow> u32" where
  "idpf_vport_intr_buildreg_itr wb_on_itr =
     (let itr_val = PF_GLINT_DYN_CTL_INTENA_M;
          (itr_val, type, itr) = (if wb_on_itr
            then (itr_val OR (PF_GLINT_DYN_CTL_SWINT_TRIG_M OR PF_GLINT_DYN_CTL_SW_ITR_INDX_ENA_M), IDPF_SW_ITR_UPDATE_IDX, IDPF_ITR_20K)
            else (itr_val, IDPF_NO_ITR_UPDATE_IDX, 0));
          itr = itr AND IDPF_ITR_MASK
      in itr_val OR (push_bit PF_GLINT_DYN_CTL_ITR_INDX_S type OR push_bit (PF_GLINT_DYN_CTL_INTERVAL_S - 1) itr))"

text \<open>What is written to the control register, if anything, and the new value of \<open>wb_on_itr\<close>.\<close>

definition idpf_vport_intr_update_itr_ena_irq :: "bool \<Rightarrow> u32 \<times> bool" where
  "idpf_vport_intr_update_itr_ena_irq wb_on_itr = (idpf_vport_intr_buildreg_itr wb_on_itr, False)"

definition idpf_vport_intr_set_wb_on_itr :: "bool \<Rightarrow> u32 option \<times> bool" where
  "idpf_vport_intr_set_wb_on_itr wb_on_itr =
     (if wb_on_itr then (None, True)
      else (Some (PF_GLINT_DYN_CTL_WB_ON_ITR_M OR push_bit PF_GLINT_DYN_CTL_ITR_INDX_S IDPF_NO_ITR_UPDATE_IDX OR PF_GLINT_DYN_CTL_INTENA_MSK_M), True))"

definition idpf_vport_intr_write_itr :: "u32 \<Rightarrow> u32" where
  "idpf_vport_intr_write_itr itr = drop_bit 1 (itr AND IDPF_ITR_MASK)"

end
