(* ===== verification/Idpf_Intr_Results.thy ===== *)
theory Idpf_Intr_Results
  imports Idpf_Intr Idpf_Vport_Mem_Tx Idpf_Vport_Mem_Rx
begin

text \<open>
  The queues are dealt out to the vectors in turn and never beyond the arrays of a vector; handlers, names
  and arrays of the vectors are accounted for.
\<close>

section \<open>Dealing out\<close>

definition in_turn :: "nat \<Rightarrow> nat \<Rightarrow> nat \<Rightarrow> nat list" where
  "in_turn nv v k = filter (\<lambda>j. j mod nv = v) [0..<k]"

lemma in_turn_simps [simp]: "in_turn nv v 0 = []" "in_turn nv v (Suc k) = (if k mod nv = v then in_turn nv v k @ [k] else in_turn nv v k)"
  by (simp_all add: in_turn_def)

lemma in_turn_length: "v < nv \<Longrightarrow> length (in_turn nv v k) = (k + nv - 1 - v) div nv"
proof (induction k)
  case (Suc k)
  have "(Suc k + nv - 1 - v) = Suc (k + nv - 1 - v)" using Suc.prems by simp
  moreover have "(Suc (k + nv - 1 - v)) mod nv = 0 \<longleftrightarrow> k mod nv = v"
  proof -
    define r where "r = k mod nv"
    have r: "r < nv" using Suc.prems by (simp add: r_def)
    have e: "Suc (k + nv - 1 - v) mod nv = (r + (nv - v)) mod nv"
    proof -
      have "Suc (k + nv - 1 - v) = k + (nv - v)" using Suc.prems by simp
      then show ?thesis by (simp add: r_def mod_add_left_eq)
    qed
    show ?thesis
    proof (cases "r < v")
      case True
      then have "(r + (nv - v)) mod nv = r + (nv - v)" using Suc.prems by (intro mod_less) linarith
      then show ?thesis using True e Suc.prems by (simp add: r_def)
    next
      case False
      then have "r + (nv - v) = nv + (r - v)" using Suc.prems by linarith
      moreover have "(nv + (r - v)) mod nv = r - v" using r by simp
      ultimately have "Suc (k + nv - 1 - v) mod nv = r - v" using e by metis
      then show ?thesis using False unfolding r_def [symmetric] by linarith
    qed
  qed
  ultimately show ?case using Suc by (simp add: div_Suc)
qed simp

lemma in_turn_room:
  assumes "0 < nv" and "k < nv * cap"
  shows "length (in_turn nv (k mod nv) k) < cap"
proof -
  have "k + nv - 1 - k mod nv = (k div nv) * nv + (nv - 1)"
    using assms(1) mod_less_divisor [of nv k] div_mult_mod_eq [of k nv] by linarith
  moreover have "((k div nv) * nv + (nv - 1)) div nv = k div nv" using assms(1) by (intro div_nat_eqI) (simp_all add: mult.commute)
  moreover have "k div nv < cap" using assms by (simp add: div_less_iff_less_mult mult.commute)
  ultimately show ?thesis using assms(1) by (simp add: in_turn_length)
qed

lemma in_turn_set: "set (in_turn nv v k) = {j. j < k \<and> j mod nv = v}"
  by (auto simp: in_turn_def)

text \<open>The arrays of a vector are fields that are updated independently.\<close>

locale vec_field =
  fixes sel :: "idpf_q_vector \<Rightarrow> nat list" and upd :: "(nat list \<Rightarrow> nat list) \<Rightarrow> idpf_q_vector \<Rightarrow> idpf_q_vector"
  assumes sel_upd: "sel (upd f v) = f (sel v)"
begin

lemma put_other:
  assumes "vec_put sel upd cap v q vs = Some vs'" and "\<And>f x. other (upd f x) = other x"
  shows "map other vs' = map other vs"
  using assms by (auto simp: vec_put_def map_update list_update_same_conv split: if_splits intro!: nth_equalityI simp: nth_list_update)

lemma map_other:
  "map_in_turn sel upd nv cap qs qv vs = Some (qv', vs') \<Longrightarrow> (\<And>f x. other (upd f x) = other x) \<Longrightarrow> map other vs' = map other vs"
proof (induction qs arbitrary: qv vs)
  case (Cons q qs)
  let ?i = "if nv \<le> qv then 0 else qv"
  obtain vs1 where "vec_put sel upd cap ?i q vs = Some vs1" "map_in_turn sel upd nv cap qs (Suc ?i) vs1 = Some (qv', vs')"
    using Cons.prems(1) by (cases "vec_put sel upd cap ?i q vs") (auto simp: Let_def)
  then show ?case using Cons.IH Cons.prems(2) put_other by metis
qed simp

lemma map_in_turn_spec:
  assumes "0 < nv" and "length vs = nv" and "\<forall>v < nv. sel (vs ! v) = in_turn nv v k"
    and "(if nv \<le> qv then 0 else qv) = k mod nv" and "k + m \<le> nv * cap"
  shows "\<exists>qv' vs'. map_in_turn sel upd nv cap [k..<k + m] qv vs = Some (qv', vs') \<and> length vs' = nv \<and>
    (\<forall>v < nv. sel (vs' ! v) = in_turn nv v (k + m)) \<and> (if nv \<le> qv' then 0 else qv') = (k + m) mod nv"
  using assms
proof (induction m arbitrary: k qv vs)
  case (Suc m)
  let ?v = "k mod nv"
  have v: "?v < nv" using Suc.prems(1) by simp
  have room: "length (sel (vs ! ?v)) < cap" using Suc.prems v in_turn_room [of nv k cap] by simp
  define vs1 where "vs1 = vs[?v := upd (\<lambda>qs. qs @ [k]) (vs ! ?v)]"
  have put: "vec_put sel upd cap ?v k vs = Some vs1" using room v Suc.prems(2) by (simp add: vec_put_def vs1_def)
  have "\<forall>u < nv. sel (vs1 ! u) = in_turn nv u (Suc k)"
    using Suc.prems(2,3) v by (auto simp: vs1_def nth_list_update sel_upd)
  moreover have "(if nv \<le> Suc ?v then 0 else Suc ?v) = Suc k mod nv" using v by (auto simp: mod_Suc)
  moreover have "length vs1 = nv" using Suc.prems(2) by (simp add: vs1_def)
  ultimately obtain qv' vs' where "map_in_turn sel upd nv cap [Suc k..<Suc k + m] (Suc ?v) vs1 = Some (qv', vs')"
    "length vs' = nv" "\<forall>v < nv. sel (vs' ! v) = in_turn nv v (Suc k + m)" "(if nv \<le> qv' then 0 else qv') = (Suc k + m) mod nv"
    using Suc.IH [of vs1 "Suc k" "Suc ?v"] Suc.prems(1,5) by auto
  moreover have "[k..<k + Suc m] = k # [Suc k..<Suc k + m]" by (simp add: upt_conv_Cons)
  ultimately show ?case using put Suc.prems(4) by (simp add: Let_def del: upt_Suc in_turn_simps(2))
qed simp

end

interpretation rxs: vec_field iv_rxs iv_rxs_update by unfold_locales simp
interpretation txs: vec_field iv_txs iv_txs_update by unfold_locales simp
interpretation bufqs: vec_field iv_bufqs iv_bufqs_update by unfold_locales simp

section \<open>The mapping of all queues\<close>

definition bufqs_in_turn :: "nat \<Rightarrow> nat \<Rightarrow> nat \<Rightarrow> nat \<Rightarrow> nat list" where
  "bufqs_in_turn nv nb v g = concat (map (\<lambda>j. [j * nb..<j * nb + nb]) (in_turn nv v g))"

lemma bufqs_in_turn_length: "length (bufqs_in_turn nv nb v g) = nb * length (in_turn nv v g)"
  by (simp add: bufqs_in_turn_def length_concat comp_def sum_list_triv)

lemma map_bufqs_spec:
  assumes "v < length vs" and "length (iv_bufqs (vs ! v)) + length qs \<le> cap"
  shows "map_bufqs cap v qs vs = Some (vs[v := (vs ! v)\<lparr>iv_bufqs := iv_bufqs (vs ! v) @ qs\<rparr>])"
  using assms
proof (induction qs arbitrary: vs)
  case (Cons q qs)
  then show ?case by (simp add: vec_put_def)
qed simp

lemma DIV_ROUND_UP_ge: "0 < d \<Longrightarrow> n \<le> d * DIV_ROUND_UP n d"
  using mult_div_mod_eq [of d "n + d - 1"] mod_less_divisor [of d "n + d - 1"] unfolding DIV_ROUND_UP_def by linarith

lemma DIV_ROUND_UP_le: "0 < d \<Longrightarrow> DIV_ROUND_UP n d \<le> n"
proof (cases n)
  case (Suc m)
  assume d: "0 < d"
  have "m div d \<le> m" by simp
  moreover have "(n + d - 1) div d = Suc (m div d)" using d div_add_self2 [of d m] Suc by simp
  ultimately show ?thesis using Suc by (simp add: DIV_ROUND_UP_def)
qed (simp add: DIV_ROUND_UP_def)

text \<open>The number of buffer queues a vector gets follows from the number of groups.\<close>

lemma in_turn_le: "0 < nv \<Longrightarrow> k \<le> nv * cap \<Longrightarrow> v < nv \<Longrightarrow> length (in_turn nv v k) \<le> cap"
proof -
  assume a: "0 < nv" "k \<le> nv * cap" "v < nv"
  have "(k + nv - 1 - v) div nv \<le> (nv * cap + (nv - 1)) div nv" using a by (intro div_le_mono) linarith
  also have "\<dots> = cap" using a(1) by (intro div_nat_eqI) simp_all
  finally show ?thesis using a(3) by (simp add: in_turn_length)
qed

lemma map_rx_groups_spec:
  assumes "0 < ip_num ip" and "length vs = ip_num ip"
    and "\<forall>v < ip_num ip. iv_rxs (vs ! v) = in_turn (ip_num ip) v (g * qp_rxq_per_grp qp) \<and>
      iv_bufqs (vs ! v) = bufqs_in_turn (ip_num ip) (qp_num_bufqs qp) v (if qp_rx_split qp then g else 0)"
    and "(if ip_num ip \<le> qv then 0 else qv) = g * qp_rxq_per_grp qp mod ip_num ip" and "bv = g mod ip_num ip \<or> \<not> qp_rx_split qp"
    and "(g + n) * qp_rxq_per_grp qp \<le> ip_num ip * rxqs_per_vector ip" and "g + n \<le> ip_num ip * rxqs_per_vector ip"
    and "bufq_per_vector qp ip = qp_num_bufqs qp * rxqs_per_vector ip"
  shows "\<exists>vs'. map_rx_groups qp ip n g qv bv vs = Some vs' \<and> length vs' = ip_num ip \<and> map iv_txs vs' = map iv_txs vs \<and>
    (\<forall>v < ip_num ip. iv_rxs (vs' ! v) = in_turn (ip_num ip) v ((g + n) * qp_rxq_per_grp qp) \<and>
      iv_bufqs (vs' ! v) = bufqs_in_turn (ip_num ip) (qp_num_bufqs qp) v (if qp_rx_split qp then g + n else 0))"
  using assms
proof (induction n arbitrary: g qv bv vs)
  case (Suc n)
  let ?nv = "ip_num ip" and ?per = "qp_rxq_per_grp qp" and ?nb = "qp_num_bufqs qp" and ?cap = "rxqs_per_vector ip"
  have "g * ?per + ?per \<le> ?nv * ?cap" using Suc.prems(6) mult_le_mono1 [of "Suc g" "g + Suc n" ?per] by (simp add: algebra_simps)
  then obtain qv1 vs1 where m: "map_in_turn iv_rxs iv_rxs_update ?nv ?cap [g * ?per..<g * ?per + ?per] qv vs = Some (qv1, vs1)"
    "length vs1 = ?nv" "\<forall>v < ?nv. iv_rxs (vs1 ! v) = in_turn ?nv v (g * ?per + ?per)" "(if ?nv \<le> qv1 then 0 else qv1) = (g * ?per + ?per) mod ?nv"
    using rxs.map_in_turn_spec [of ?nv vs "g * ?per" qv ?per ?cap] Suc.prems(1-4) by blast
  have o: "map iv_txs vs1 = map iv_txs vs" "map iv_bufqs vs1 = map iv_bufqs vs" by (rule rxs.map_other [OF m(1)], simp)+
  have b1: "iv_bufqs (vs1 ! v) = iv_bufqs (vs ! v)" if "v < ?nv" for v using that o(2) m(2) Suc.prems(2) by (metis nth_map)
  have sg: "g * ?per + ?per = Suc g * ?per" by simp
  show ?case
  proof (cases "qp_rx_split qp")
    case False
    have "\<exists>vs'. map_rx_groups qp ip n (Suc g) qv1 bv vs1 = Some vs' \<and> length vs' = ?nv \<and> map iv_txs vs' = map iv_txs vs1 \<and>
      (\<forall>v < ?nv. iv_rxs (vs' ! v) = in_turn ?nv v ((Suc g + n) * ?per) \<and> iv_bufqs (vs' ! v) = bufqs_in_turn ?nv ?nb v (if qp_rx_split qp then Suc g + n else 0))"
      using Suc.prems m b1 False by (intro Suc.IH) (simp_all add: sg)
    then show ?thesis using m(1) o(1) False by (auto simp: Let_def)
  next
    case True
    let ?v = "g mod ?nv"
    define vs2 where "vs2 = vs1[?v := (vs1 ! ?v)\<lparr>iv_bufqs := iv_bufqs (vs1 ! ?v) @ [g * ?nb..<g * ?nb + ?nb]\<rparr>]"
    have v: "?v < ?nv" using Suc.prems(1) by simp
    have bv: "bv = ?v" using Suc.prems(5) True by simp
    have "length (in_turn ?nv ?v (Suc g)) \<le> ?cap" using Suc.prems(1,7) v by (intro in_turn_le) auto
    then have "Suc (length (in_turn ?nv ?v g)) \<le> ?cap" by simp
    then have "?nb * length (in_turn ?nv ?v g) + ?nb \<le> ?nb * ?cap" by (metis add.commute mult_Suc_right mult_le_mono2)
    then have room: "length (iv_bufqs (vs1 ! ?v)) + length [g * ?nb..<g * ?nb + ?nb] \<le> bufq_per_vector qp ip"
      using Suc.prems(3,8) v b1 True by (simp add: bufqs_in_turn_length)
    have mb: "map_bufqs (bufq_per_vector qp ip) bv [g * ?nb..<g * ?nb + ?nb] vs1 = Some vs2"
      unfolding vs2_def bv using v m(2) room by (intro map_bufqs_spec) simp_all
    have "iv_rxs (vs2 ! u) = in_turn ?nv u (Suc g * ?per) \<and> iv_bufqs (vs2 ! u) = bufqs_in_turn ?nv ?nb u (Suc g)" if "u < ?nv" for u
      using that v m(2,3) b1 Suc.prems(3) True by (auto simp: vs2_def nth_list_update bufqs_in_turn_def sg)
    moreover have "(if ?nv \<le> Suc bv then 0 else Suc bv) = Suc g mod ?nv" using v by (auto simp: bv mod_Suc)
    moreover have "length vs2 = ?nv" "map iv_txs vs2 = map iv_txs vs1"
      using m(2) v by (auto simp: vs2_def map_update list_update_same_conv)
    ultimately have "\<exists>vs'. map_rx_groups qp ip n (Suc g) qv1 (if ?nv \<le> Suc bv then 0 else Suc bv) vs2 = Some vs' \<and> length vs' = ?nv \<and> map iv_txs vs' = map iv_txs vs2 \<and>
      (\<forall>v < ?nv. iv_rxs (vs' ! v) = in_turn ?nv v ((Suc g + n) * ?per) \<and> iv_bufqs (vs' ! v) = bufqs_in_turn ?nv ?nb v (if qp_rx_split qp then Suc g + n else 0))"
      using Suc.prems m True by (intro Suc.IH) (simp_all add: sg)
    then show ?thesis using m(1) mb o(1) True \<open>map iv_txs vs2 = map iv_txs vs1\<close> by (auto simp: Let_def)
  qed
qed simp

lemma map_tx_groups_spec:
  fixes qp ip
  defines "per \<equiv> if qp_tx_split qp then 1 else qp_txq_per_grp qp"
  assumes "0 < ip_num ip" and "length vs = ip_num ip" and "\<forall>v < ip_num ip. iv_txs (vs ! v) = in_turn (ip_num ip) v (g * per)"
    and "(if ip_num ip \<le> qv then 0 else qv) = g * per mod ip_num ip" and "(g + n) * per \<le> ip_num ip * txqs_per_vector qp ip"
  shows "\<exists>vs'. map_tx_groups qp ip n g qv vs = Some vs' \<and> length vs' = ip_num ip \<and> map iv_rxs vs' = map iv_rxs vs \<and> map iv_bufqs vs' = map iv_bufqs vs \<and>
    (\<forall>v < ip_num ip. iv_txs (vs' ! v) = in_turn (ip_num ip) v ((g + n) * per))"
  using assms(2-)
proof (induction n arbitrary: g qv vs)
  case (Suc n)
  let ?nv = "ip_num ip" and ?cap = "txqs_per_vector qp ip"
  have qs: "(if qp_tx_split qp then [g] else [g * qp_txq_per_grp qp..<g * qp_txq_per_grp qp + qp_txq_per_grp qp]) = [g * per..<g * per + per]"
    by (simp add: per_def)
  have "g * per + per \<le> ?nv * ?cap" using Suc.prems(5) mult_le_mono1 [of "Suc g" "g + Suc n" per] by (simp add: algebra_simps)
  then obtain qv1 vs1 where m: "map_in_turn iv_txs iv_txs_update ?nv ?cap [g * per..<g * per + per] qv vs = Some (qv1, vs1)"
    "length vs1 = ?nv" "\<forall>v < ?nv. iv_txs (vs1 ! v) = in_turn ?nv v (g * per + per)" "(if ?nv \<le> qv1 then 0 else qv1) = (g * per + per) mod ?nv"
    using txs.map_in_turn_spec [of ?nv vs "g * per" qv per ?cap] Suc.prems(1-4) by blast
  have o: "map iv_rxs vs1 = map iv_rxs vs" "map iv_bufqs vs1 = map iv_bufqs vs" by (rule txs.map_other [OF m(1)], simp)+
  have sg: "g * per + per = Suc g * per" by simp
  have "\<exists>vs'. map_tx_groups qp ip n (Suc g) qv1 vs1 = Some vs' \<and> length vs' = ?nv \<and> map iv_rxs vs' = map iv_rxs vs1 \<and> map iv_bufqs vs' = map iv_bufqs vs1 \<and>
    (\<forall>v < ?nv. iv_txs (vs' ! v) = in_turn ?nv v ((Suc g + n) * per))"
    using Suc.prems m by (intro Suc.IH) (simp_all add: sg)
  moreover have "map_tx_groups qp ip (Suc n) g qv vs = map_tx_groups qp ip n (Suc g) qv1 vs1"
    by (simp only: map_tx_groups.simps Let_def qs m(1) option.case prod.case)
  ultimately show ?case using o by auto
qed simp

text \<open>
  C40.  Mapping the queues of a vport to its vectors stays within the arrays that \<open>idpf_vport_intr_alloc\<close> made
  room for, and deals the queues out in turn: vector \<open>v\<close> of \<open>n\<close> gets the receive queues and the transmit
  queues, or completion queues, whose number is \<open>v\<close> modulo \<open>n\<close>, in order, and in the split queue model all
  buffer queues of the groups whose number is \<open>v\<close> modulo \<open>n\<close>.  This is for both queue models, for groups of
  at least one receive queue, as long as the sizes of the arrays fit 16 bits.
\<close>

theorem vectors_dealt_in_turn:
  assumes "0 < ip_num ip" and "vs = replicate (ip_num ip) v0" and "iv_rxs v0 = []" and "iv_txs v0 = []" and "iv_bufqs v0 = []"
    and "ip_num_rxq ip = qp_num_rxq_grp qp * qp_rxq_per_grp qp" and "0 < qp_rxq_per_grp qp"
    and "(if qp_tx_split qp then ip_num_complq ip else ip_num_txq ip) = qp_num_txq_grp qp * (if qp_tx_split qp then 1 else qp_txq_per_grp qp)"
    and "qp_num_bufqs qp * ip_num_rxq ip < 65536" and "ip_num_rxq ip < 65536" and "2 * (if qp_tx_split qp then ip_num_complq ip else ip_num_txq ip) < 65536"
  shows "\<exists>vs'. idpf_vport_intr_map_vector_to_qs qp ip vs = Some vs' \<and> length vs' = ip_num ip \<and>
    (\<forall>v < ip_num ip. iv_rxs (vs' ! v) = in_turn (ip_num ip) v (ip_num_rxq ip) \<and>
       iv_txs (vs' ! v) = in_turn (ip_num ip) v (if qp_tx_split qp then ip_num_complq ip else ip_num_txq ip) \<and>
       iv_bufqs (vs' ! v) = (if qp_rx_split qp then bufqs_in_turn (ip_num ip) (qp_num_bufqs qp) v (qp_num_rxq_grp qp) else []))"
proof -
  let ?nv = "ip_num ip" and ?T = "if qp_tx_split qp then ip_num_complq ip else ip_num_txq ip"
  have r: "rxqs_per_vector ip = DIV_ROUND_UP (ip_num_rxq ip) ?nv" "rxqs_per_vector ip \<le> ip_num_rxq ip"
    using assms(10) DIV_ROUND_UP_le [OF assms(1), of "ip_num_rxq ip"] by (simp_all add: rxqs_per_vector_def)
  have R: "ip_num_rxq ip \<le> ?nv * rxqs_per_vector ip" using DIV_ROUND_UP_ge [OF assms(1)] r(1) by simp
  have G: "qp_num_rxq_grp qp \<le> ip_num_rxq ip" using assms(6,7) by (cases "qp_rxq_per_grp qp") auto
  have b: "bufq_per_vector qp ip = qp_num_bufqs qp * rxqs_per_vector ip"
    unfolding bufq_per_vector_def using order.strict_trans1 [OF mult_le_mono2 [OF r(2), of "qp_num_bufqs qp"] assms(9)] by (rule trunc16_id)
  have t: "DIV_ROUND_UP ?T ?nv \<le> ?T" by (rule DIV_ROUND_UP_le [OF assms(1)])
  have "DIV_ROUND_UP ?T ?nv \<le> txqs_per_vector qp ip" using t assms(11) by (simp add: txqs_per_vector_def Let_def split: if_splits)
  then have T: "?T \<le> ?nv * txqs_per_vector qp ip" using DIV_ROUND_UP_ge [OF assms(1), of ?T] mult_le_mono2 order_trans by meson
  obtain vs1 where m: "map_rx_groups qp ip (qp_num_rxq_grp qp) 0 0 0 vs = Some vs1" "length vs1 = ?nv" "map iv_txs vs1 = map iv_txs vs"
    "\<forall>v < ?nv. iv_rxs (vs1 ! v) = in_turn ?nv v (ip_num_rxq ip) \<and>
      iv_bufqs (vs1 ! v) = bufqs_in_turn ?nv (qp_num_bufqs qp) v (if qp_rx_split qp then qp_num_rxq_grp qp else 0)"
    using map_rx_groups_spec [of ip vs 0 qp 0 0 "qp_num_rxq_grp qp"] assms(1-7) R G b by (auto simp: bufqs_in_turn_def)
  have "iv_txs (vs1 ! v) = []" if "v < ?nv" for v using that m(2,3) assms(2,4) by (metis length_replicate nth_map nth_replicate)
  then obtain vs2 where n: "map_tx_groups qp ip (qp_num_txq_grp qp) 0 0 vs1 = Some vs2" "length vs2 = ?nv" "map iv_rxs vs2 = map iv_rxs vs1"
    "map iv_bufqs vs2 = map iv_bufqs vs1" "\<forall>v < ?nv. iv_txs (vs2 ! v) = in_turn ?nv v ?T"
    using map_tx_groups_spec [of ip vs1 0 qp 0 "qp_num_txq_grp qp"] assms(1,8) m(2) T by auto
  have "iv_rxs (vs2 ! v) = iv_rxs (vs1 ! v)" "iv_bufqs (vs2 ! v) = iv_bufqs (vs1 ! v)" if "v < ?nv" for v
    using that n(2-4) m(2) by (metis nth_map)+
  then show ?thesis using m n by (auto simp: idpf_vport_intr_map_vector_to_qs_def bufqs_in_turn_def)
qed

text \<open>Five receive queues in five groups with two buffer queues each, five completion queues, three vectors.\<close>

definition demo_split :: qparams where
  "demo_split = \<lparr>qp_tx_split = True, qp_rx_split = True, qp_num_txq_grp = 5, qp_num_rxq_grp = 5, qp_txq_per_grp = 1, qp_rxq_per_grp = 1,
     qp_num_bufqs = 2, qp_flow_sch = True, qp_hsplit = False, qp_pages = (\<lambda>_. True)\<rparr>"

definition demo_ip :: iparams where
  "demo_ip = \<lparr>ip_num = 3, ip_num_txq = 5, ip_num_complq = 5, ip_num_rxq = 5, ip_xdp = False, ip_masks = False, ip_idxs = [1, 2, 3],
     ip_chunks = None, ip_reserved = 4, ip_mb = 0, ip_irq = (\<lambda>_. None)\<rparr>"

theorem vectors_dealt_in_turn_witness:
  "\<exists>vs. idpf_vport_intr_map_vector_to_qs demo_split demo_ip (replicate 3 vec_zero) = Some vs \<and>
     map iv_rxs vs = [[0, 3], [1, 4], [2]] \<and> map iv_txs vs = [[0, 3], [1, 4], [2]] \<and> map iv_bufqs vs = [[0, 1, 6, 7], [2, 3, 8, 9], [4, 5]]"
proof -
  have p: "ip_num demo_ip = 3" "ip_num_rxq demo_ip = 5" "ip_num_complq demo_ip = 5" "qp_tx_split demo_split" "qp_rx_split demo_split"
    "qp_num_bufqs demo_split = 2" "qp_num_rxq_grp demo_split = 5" "qp_rxq_per_grp demo_split = 1" "qp_num_txq_grp demo_split = 5"
    by (simp_all add: demo_ip_def demo_split_def)
  have z: "iv_rxs vec_zero = []" "iv_txs vec_zero = []" "iv_bufqs vec_zero = []" by (simp_all add: vec_zero_def)
  obtain vs where v: "idpf_vport_intr_map_vector_to_qs demo_split demo_ip (replicate 3 vec_zero) = Some vs" "length vs = 3"
    "\<forall>v < 3. iv_rxs (vs ! v) = in_turn 3 v 5 \<and> iv_txs (vs ! v) = in_turn 3 v 5 \<and> iv_bufqs (vs ! v) = bufqs_in_turn 3 2 v 5"
    using vectors_dealt_in_turn [of demo_ip "replicate 3 vec_zero" vec_zero demo_split] by (auto simp: p z)
  have t: "in_turn 3 0 5 = [0, 3]" "in_turn 3 1 5 = [1, 4]" "in_turn 3 2 5 = [2]" by (simp_all add: in_turn_def upt_rec)
  have m: "map (f :: nat \<Rightarrow> nat list) [0..<3] = [f 0, f 1, f 2]" for f by (simp add: upt_rec numeral_2_eq_2)
  have "map iv_rxs vs = map (\<lambda>v. in_turn 3 v 5) [0..<3]" "map iv_txs vs = map (\<lambda>v. in_turn 3 v 5) [0..<3]"
    "map iv_bufqs vs = map (\<lambda>v. bufqs_in_turn 3 2 v 5) [0..<3]" using v(2,3) by (auto intro: nth_equalityI)
  then show ?thesis using v(1) unfolding m bufqs_in_turn_def t by (simp add: upt_rec)
qed

text \<open>
  The registers of the vectors are read from the chunks without looking at the size of the array: a device
  that describes more vectors than are reserved makes the driver write beyond it.  The vector numbers, from
  the same chunks, are cut off at the size.
\<close>

theorem vector_registers_overflow:
  assumes "room < unat (vch_num c)"
  shows "idpf_get_reg_intr_vecs room [c] = None"
proof -
  have "length (vec_reg_run n d i c) = n" for n d i by (induction n arbitrary: d i) auto
  then show ?thesis using assms by (simp add: idpf_get_reg_intr_vecs_def)
qed

text \<open>A vector without queues has no handler, but \<open>free_irq\<close> is called for it all the same.\<close>

theorem queueless_vector_warns:
  assumes "v \<in> set vs" and "iv_irq v = None"
  shows "fst (snd (free_irqs vs w))"
  using assms
proof (induction vs arbitrary: w)
  case (Cons a vs)
  obtain a' warn w1 where a: "vec_free_irq a w = (a', warn, w1)" by (metis prod_cases3)
  obtain vs' warn' w2 where f: "free_irqs vs w1 = (vs', warn', w2)" by (metis prod_cases3)
  have "v \<in> set vs \<Longrightarrow> warn'" using Cons.IH [of w1] Cons.prems(2) by (simp add: f)
  moreover have "v = a \<Longrightarrow> warn" using a Cons.prems(2) by (auto simp: vec_free_irq_def)
  ultimately show ?case using Cons.prems(1) by (auto simp: a f)
qed simp

section \<open>Register values\<close>

text \<open>
  The values written to the control register of a vector.  Enabling the interrupt sets its enable bit and
  no mask bit, and selects an interval of 50 microseconds, in units of two, with a software interrupt after
  write back mode; write back mode masks the enable bit instead.
\<close>

theorem dyn_ctl_values:
  "idpf_vport_intr_buildreg_itr False = 0x19" "idpf_vport_intr_buildreg_itr True = 0x1000335"
  "idpf_vport_intr_set_wb_on_itr False = (Some 0xC0000018, True)" "idpf_vport_intr_set_wb_on_itr True = (None, True)"
  by (simp_all add: idpf_vport_intr_buildreg_itr_def idpf_vport_intr_set_wb_on_itr_def PF_GLINT_DYN_CTL_INTENA_M_def
    PF_GLINT_DYN_CTL_SWINT_TRIG_M_def PF_GLINT_DYN_CTL_SW_ITR_INDX_ENA_M_def PF_GLINT_DYN_CTL_WB_ON_ITR_M_def
    PF_GLINT_DYN_CTL_INTENA_MSK_M_def PF_GLINT_DYN_CTL_ITR_INDX_S_def PF_GLINT_DYN_CTL_INTERVAL_S_def IDPF_ITR_MASK_def
    IDPF_ITR_20K_def IDPF_SW_ITR_UPDATE_IDX_def IDPF_NO_ITR_UPDATE_IDX_def)

section \<open>Memory of the vectors\<close>

definition iv_slots :: "idpf_q_vector \<Rightarrow> ptr multiset" where
  "iv_slots v = slot (iv_mask v) + slot (iv_tx v) + slot (iv_rx v) + slot (iv_bufq v) + (case iv_irq v of None \<Rightarrow> {#} | Some name \<Rightarrow> slot name)"

definition in_slots :: "intr \<Rightarrow> ptr multiset" where
  "in_slots i = slot (in_arr i) + slots_of iv_slots (in_vecs i)"

text \<open>Vectors without handlers and without NAPI, as after their allocation.\<close>

definition vec_idle :: "idpf_q_vector \<Rightarrow> bool" where
  "vec_idle v \<longleftrightarrow> iv_irq v = None \<and> iv_napi v = Napi_none"

lemma vec_alloc_holds:
  assumes "vec_alloc qp ip w = (ok, v, w')" and "holds w0 P D w"
  shows "holds w0 (iv_slots v + P) D w' \<and> vec_idle v"
proof -
  obtain m w1 where m: "(if ip_masks ip then kcalloc w else (NULL, w)) = (m, w1)" by (metis surj_pair)
  obtain t w2 where t: "kcalloc w1 = (t, w2)" by (metis surj_pair)
  obtain r w3 where r: "kcalloc w2 = (r, w3)" by (metis surj_pair)
  obtain b w4 where b: "kcalloc w3 = (b, w4)" by (metis surj_pair)
  have h1: "holds w0 (slot m + P) D w1" using m assms(2) holds_kcalloc by (cases "ip_masks ip") auto
  note h2 = holds_kcalloc [OF t h1]
  note h3 = holds_kcalloc [OF r h2]
  note h4 = holds_kcalloc [OF b h3]
  have "vec_alloc qp ip w =
    (if ip_masks ip \<and> m = NULL then (False, vec_zero\<lparr>iv_mask := m\<rparr>, w1)
     else if t = NULL then (False, vec_zero\<lparr>iv_mask := m, iv_tx := t\<rparr>, w2)
     else if r = NULL then (False, vec_zero\<lparr>iv_mask := m, iv_tx := t, iv_rx := r\<rparr>, w3)
     else if \<not> qp_rx_split qp then (True, vec_zero\<lparr>iv_mask := m, iv_tx := t, iv_rx := r\<rparr>, w3)
     else (b \<noteq> NULL, vec_zero\<lparr>iv_mask := m, iv_tx := t, iv_rx := r, iv_bufq := b\<rparr>, w4))"
    by (simp add: vec_alloc_def m t r b Let_def)
  note run = this [unfolded assms(1)]
  show ?thesis using run h1 h2 h3 h4 by (auto simp: iv_slots_def vec_idle_def vec_zero_def ac_simps split: if_splits)
qed

interpretation vecs_build: build_loop "vec_alloc qp ip" "vecs_alloc qp ip" vec_zero iv_slots "\<lambda>_. {#}" vec_idle "\<lambda>_. True" for qp ip
proof unfold_locales
  fix w ok v w' w0 P D
  assume "vec_alloc qp ip w = (ok, v, w')" "holds w0 P D w"
  from vec_alloc_holds [OF this] show "holds w0 (iv_slots v + P) ({#} + D) w' \<and> vec_idle v \<and> (ok \<longrightarrow> True)" by simp
qed (simp_all add: iv_slots_def vec_zero_def vec_idle_def)

lemma vecs_rel_holds:
  "\<forall>v \<in> set vs. iv_irq v = None \<Longrightarrow> holds w0 (slots_of iv_slots vs + P) D w \<Longrightarrow> holds w0 P D (fold vec_rel vs w)"
proof (induction vs arbitrary: w)
  case (Cons v vs)
  have "holds w0 (slots_of slot [iv_bufq v, iv_tx v, iv_rx v, iv_mask v] + (slots_of iv_slots vs + P)) D w"
    using Cons.prems by (simp add: iv_slots_def [of v] ac_simps)
  from holds_kfree_list [OF this] show ?case using Cons by (simp add: vec_rel_def)
qed simp

lemma intr_rel_holds:
  assumes "\<forall>v \<in> set (in_vecs i). iv_irq v = None" and "holds w0 (in_slots i + P) D w" and "idpf_vport_intr_rel i w = (i', w')"
  shows "holds w0 P D w' \<and> i' = i\<lparr>in_arr := NULL, in_vecs := []\<rparr>"
proof -
  have "holds w0 (slots_of iv_slots (in_vecs i) + (slot (in_arr i) + P)) D w" using assms(2) by (simp add: in_slots_def ac_simps)
  from holds_kfree [OF vecs_rel_holds [OF assms(1) this]] show ?thesis using assms(3) by (auto simp: idpf_vport_intr_rel_def)
qed

lemma intr_alloc_holds:
  assumes "idpf_vport_intr_alloc qp ip i w = Some (err, i', w')" and "holds w0 P D w"
  shows "holds w0 (in_slots i' + P) D w' \<and> (\<forall>v \<in> set (in_vecs i'). vec_idle v) \<and> in_irq_warn i' = in_irq_warn i \<and>
    (if err = ret_ok then in_arr i' \<noteq> NULL \<and> length (in_vecs i') = ip_num ip else in_arr i' = NULL \<and> in_vecs i' = [])"
proof -
  obtain p w1 where k: "kcalloc w = (p, w1)" by (metis surj_pair)
  obtain ok vs w2 where a: "vecs_alloc qp ip (ip_num ip) w1 = (ok, vs, w2)" by (metis prod_cases3)
  note h1 = holds_kcalloc [OF k assms(2)]
  note h2 = vecs_build.loop_holds [OF a h1]
  consider (none) "p = NULL" | (ok) "p \<noteq> NULL" "ip_num ip \<noteq> 0" ok | (fail) "p \<noteq> NULL" "ip_num ip \<noteq> 0" "\<not> ok" | (div) "p \<noteq> NULL" "ip_num ip = 0" by blast
  then show ?thesis
  proof cases
    case none
    then show ?thesis using assms(1) h1 by (auto simp: idpf_vport_intr_alloc_def k in_slots_def)
  next
    case ok
    then have "i' = i\<lparr>in_arr := p, in_vecs := vs\<rparr>" "w' = w2" "err = ret_ok" using assms(1) by (auto simp: idpf_vport_intr_alloc_def k a Let_def)
    then show ?thesis using h2 ok by (simp add: in_slots_def slots_of_empty ac_simps)
  next
    case fail
    let ?i = "i\<lparr>in_arr := p, in_vecs := vs\<rparr>"
    have rel: "idpf_vport_intr_rel ?i w2 = (i', w')" "err = Some ENOMEM"
      using fail assms(1) by (auto simp: idpf_vport_intr_alloc_def k a Let_def split: prod.splits)
    have "holds w0 P D w' \<and> i' = ?i\<lparr>in_arr := NULL, in_vecs := []\<rparr>"
      using h2 by (intro intr_rel_holds [OF _ _ rel(1)]) (auto simp: in_slots_def vec_idle_def slots_of_empty ac_simps)
    then show ?thesis using rel(2) by (simp add: in_slots_def)
  next
    case div
    then show ?thesis using assms(1) by (simp add: idpf_vport_intr_alloc_def k)
  qed
qed

subsection \<open>What the mapping leaves alone\<close>

lemma slots_of_map: "map f xs = map f ys \<Longrightarrow> slots_of f xs = slots_of f ys"
  by (simp add: slots_of_def)

lemma map_all: "map f xs = map f ys \<Longrightarrow> (\<forall>x \<in> set xs. Q (f x)) = (\<forall>y \<in> set ys. Q (f y))"
  by (metis (mono_tags) image_iff list.set_map)

lemma map_bufqs_other:
  "map_bufqs cap v qs vs = Some vs' \<Longrightarrow> (\<And>f x. other (iv_bufqs_update f x) = other x) \<Longrightarrow> map other vs' = map other vs"
proof (induction qs arbitrary: vs)
  case (Cons q qs)
  obtain vs1 where "vec_put iv_bufqs iv_bufqs_update cap v q vs = Some vs1" "map_bufqs cap v qs vs1 = Some vs'"
    using Cons.prems(1) by (cases "vec_put iv_bufqs iv_bufqs_update cap v q vs") auto
  then show ?case using Cons.IH Cons.prems(2) bufqs.put_other by metis
qed simp

lemma map_rx_other:
  assumes "\<And>f x. other (iv_rxs_update f x) = other x" and "\<And>f x. other (iv_bufqs_update f x) = other x"
  shows "map_rx_groups qp ip n g qv bv vs = Some vs' \<Longrightarrow> map other vs' = map other vs"
proof (induction n arbitrary: g qv bv vs)
  case (Suc n)
  let ?m = "map_in_turn iv_rxs iv_rxs_update (ip_num ip) (rxqs_per_vector ip) [g * qp_rxq_per_grp qp..<g * qp_rxq_per_grp qp + qp_rxq_per_grp qp] qv vs"
  obtain qv1 vs1 where m: "?m = Some (qv1, vs1)" using Suc.prems by (cases ?m) (auto simp: Let_def)
  note o = rxs.map_other [OF m, of other] assms(1)
  let ?b = "map_bufqs (bufq_per_vector qp ip) bv [g * qp_num_bufqs qp..<g * qp_num_bufqs qp + qp_num_bufqs qp] vs1"
  show ?case
  proof (cases "qp_rx_split qp")
    case True
    then obtain vs2 where b: "?b = Some vs2" using Suc.prems m by (cases ?b) (auto simp: Let_def)
    have "map other vs2 = map other vs1" by (rule map_bufqs_other [OF b assms(2)])
    then show ?thesis using Suc.IH Suc.prems m b o True by (auto simp: Let_def)
  qed (use Suc.IH Suc.prems m o in \<open>auto simp: Let_def\<close>)
qed simp

lemma map_tx_other:
  assumes "\<And>f x. other (iv_txs_update f x) = other x"
  shows "map_tx_groups qp ip n g qv vs = Some vs' \<Longrightarrow> map other vs' = map other vs"
proof (induction n arbitrary: g qv vs)
  case (Suc n)
  let ?m = "map_in_turn iv_txs iv_txs_update (ip_num ip) (txqs_per_vector qp ip)
     (if qp_tx_split qp then [g] else [g * qp_txq_per_grp qp..<g * qp_txq_per_grp qp + qp_txq_per_grp qp]) qv vs"
  obtain qv1 vs1 where m: "?m = Some (qv1, vs1)" using Suc.prems by (cases ?m) (auto simp: Let_def)
  then have "map_tx_groups qp ip n (Suc g) qv1 vs1 = Some vs'" using Suc.prems by (simp add: Let_def)
  then show ?case using Suc.IH txs.map_other [OF m, of other] assms by metis
qed simp

lemma map_vector_other:
  assumes "idpf_vport_intr_map_vector_to_qs qp ip vs = Some vs'"
    and "\<And>f x. other (iv_rxs_update f x) = other x" "\<And>f x. other (iv_bufqs_update f x) = other x" "\<And>f x. other (iv_txs_update f x) = other x"
  shows "map other vs' = map other vs"
  using assms(1) map_rx_other [OF assms(2,3)] map_tx_other [OF assms(4)]
  by (auto simp: idpf_vport_intr_map_vector_to_qs_def split: option.splits)

lemma set_v_idx_other: "length xs = length vs \<Longrightarrow> (\<And>f x. other (iv_v_idx_update f x) = other x) \<Longrightarrow> map other (set_v_idx xs vs) = map other vs"
  by (auto simp: set_v_idx_def intro: nth_equalityI)

lemma init_vec_idx_holds:
  assumes "idpf_vport_intr_init_vec_idx ip vs w = Some (err, vs', w')" and "holds w0 P D w" and "\<And>f x. other (iv_v_idx_update f x) = other x"
  shows "holds w0 P D w' \<and> map other vs' = map other vs"
proof (cases "ip_chunks ip")
  case None
  then show ?thesis using assms(1,2) set_v_idx_other [of _ vs other] assms(3)
    by (auto simp: idpf_vport_intr_init_vec_idx_def split: if_splits)
next
  case (Some cs)
  obtain p w1 where k: "kcalloc w = (p, w1)" by (metis surj_pair)
  note h = holds_kcalloc [OF k assms(2)]
  show ?thesis using assms(1) h holds_kfree [OF h] set_v_idx_other [of _ vs other] assms(3)
    by (auto simp: idpf_vport_intr_init_vec_idx_def Some k split: if_splits prod.splits)
qed

lemma reg_init_holds:
  assumes "idpf_intr_reg_init ip vs w = Some (err, vs', w')" and "holds w0 P D w" and "\<And>r x. other (set_regs r x) = other x"
  shows "holds w0 P D w' \<and> map other vs' = map other vs"
proof -
  obtain p w1 where k: "kcalloc w = (p, w1)" by (metis surj_pair)
  note h = holds_kcalloc [OF k assms(2)]
  have m: "map other (map2 (\<lambda>k v. set_regs (arr ! k) v) ids vs) = map other vs" if "\<not> length ids < length vs" "length ids \<le> length vs" for arr ids
    using that assms(3) by (auto intro: nth_equalityI)
  show ?thesis
  proof (cases "p = NULL")
    case False
    obtain cs regs where c: "ip_chunks ip = Some cs" "idpf_get_reg_intr_vecs (ip_reserved ip) cs = Some regs"
      using assms(1) False by (auto simp: idpf_intr_reg_init_def k split: option.splits)
    show ?thesis using assms(1) False holds_kfree [OF h]
      by (auto simp: idpf_intr_reg_init_def k c Let_def split: if_splits intro!: m)
  qed (use assms(1) h in \<open>auto simp: idpf_intr_reg_init_def k\<close>)
qed

subsection \<open>Handlers\<close>

lemma vec_free_irq_holds:
  assumes "vec_free_irq v w = (v', warn, w')" and "holds w0 (iv_slots v + P) D w"
  shows "holds w0 (iv_slots v' + P) D w' \<and> iv_irq v' = None \<and> iv_napi v' = iv_napi v"
proof (cases "iv_irq v")
  case (Some name)
  have "holds w0 (slot name + (slot (iv_mask v) + slot (iv_tx v) + slot (iv_rx v) + slot (iv_bufq v) + P)) D w"
    using assms(2) Some by (simp add: iv_slots_def ac_simps)
  from holds_kfree [OF this] show ?thesis using assms(1) Some by (auto simp: vec_free_irq_def iv_slots_def)
qed (use assms in \<open>auto simp: vec_free_irq_def\<close>)

lemma free_irqs_holds:
  "free_irqs vs w = (vs', warn, w') \<Longrightarrow> holds w0 (slots_of iv_slots vs + P) D w \<Longrightarrow>
     holds w0 (slots_of iv_slots vs' + P) D w' \<and> (\<forall>v \<in> set vs'. iv_irq v = None) \<and> map iv_napi vs' = map iv_napi vs"
proof (induction vs arbitrary: w w' vs' warn P)
  case (Cons v vs)
  obtain v1 warn1 w1 where a: "vec_free_irq v w = (v1, warn1, w1)" by (metis prod_cases3)
  obtain vs1 warn2 w2 where f: "free_irqs vs w1 = (vs1, warn2, w2)" by (metis prod_cases3)
  have e: "vs' = v1 # vs1" "w' = w2" using Cons.prems(1) by (simp_all add: a f)
  have h: "holds w0 (iv_slots v1 + (slots_of iv_slots vs + P)) D w1 \<and> iv_irq v1 = None \<and> iv_napi v1 = iv_napi v"
    using Cons.prems(2) by (intro vec_free_irq_holds [OF a]) (simp add: add.assoc)
  then have "holds w0 (slots_of iv_slots vs + (iv_slots v1 + P)) D w1" by (simp add: ac_simps)
  from Cons.IH [OF f this] h show ?case by (simp add: e ac_simps)
qed simp

lemma req_irqs_holds:
  "req_irqs ip k vs w = (err, vs', warn, w') \<Longrightarrow> \<forall>v \<in> set vs. iv_irq v = None \<Longrightarrow> holds w0 (slots_of iv_slots vs + P) D w \<Longrightarrow>
     holds w0 (slots_of iv_slots vs' + P) D w' \<and> (err \<noteq> ret_ok \<longrightarrow> (\<forall>v \<in> set vs'. iv_irq v = None)) \<and> map iv_napi vs' = map iv_napi vs"
proof (induction vs arbitrary: k w w' vs' warn err P)
  case (Cons v vs)
  define go where "go v1 w1 = (case req_irqs ip (Suc k) vs w1 of (err, vs, warn, w) \<Rightarrow>
    if err = ret_ok then (err, v1 # vs, warn, w)
    else case vec_free_irq v1 w of (v, warn', w) \<Rightarrow> (err, v # vs, warn \<or> warn', w))" for v1 w1
  have go: "holds w0 (slots_of iv_slots xs + P) D w2 \<and> (e \<noteq> ret_ok \<longrightarrow> (\<forall>v \<in> set xs. iv_irq v = None)) \<and> map iv_napi xs = iv_napi v1 # map iv_napi vs"
    if g: "go v1 w1 = (e, xs, wn, w2)" and h: "holds w0 (slots_of iv_slots vs + (iv_slots v1 + P)) D w1" for v1 w1 e xs wn w2
  proof -
    obtain e3 ys wn3 w3 where q: "req_irqs ip (Suc k) vs w1 = (e3, ys, wn3, w3)" by (metis prod_cases4)
    have i: "holds w0 (slots_of iv_slots ys + (iv_slots v1 + P)) D w3" "e3 \<noteq> ret_ok \<longrightarrow> (\<forall>v \<in> set ys. iv_irq v = None)" "map iv_napi ys = map iv_napi vs"
      using Cons.IH [OF q _ h] Cons.prems(2) by auto
    obtain v4 wn4 w4 where f: "vec_free_irq v1 w3 = (v4, wn4, w4)" by (metis prod_cases3)
    have j: "holds w0 (iv_slots v4 + (slots_of iv_slots ys + P)) D w4 \<and> iv_irq v4 = None \<and> iv_napi v4 = iv_napi v1"
      using i(1) by (intro vec_free_irq_holds [OF f]) (simp add: ac_simps)
    show ?thesis using g i j by (cases "e3 = ret_ok") (auto simp: go_def q f ac_simps)
  qed
  obtain name w1 where n: "kcalloc w = (name, w1)" by (metis surj_pair)
  have h: "holds w0 (slots_of iv_slots vs + (iv_slots v + P)) D w" using Cons.prems(3) by (simp add: ac_simps)
  note hn = holds_kcalloc [OF n Cons.prems(3)]
  consider (skip) "iv_rxs v = [] \<and> iv_txs v = []" | (err) e where "\<not> (iv_rxs v = [] \<and> iv_txs v = [])" "ip_irq ip k = Some e"
    | (ok) "\<not> (iv_rxs v = [] \<and> iv_txs v = [])" "ip_irq ip k = None" by (cases "ip_irq ip k") auto
  then show ?case
  proof cases
    case skip
    then have "go v w = (err, vs', warn, w')" using Cons.prems(1) by (simp add: go_def Let_def)
    from go [OF this h] show ?thesis by simp
  next
    case err
    then have "vs' = v # vs" "w' = kfree name w1" using Cons.prems(1) by (auto simp: n Let_def)
    then show ?thesis using holds_kfree [OF hn] Cons.prems(2) by simp
  next
    case ok
    then have g: "go (v\<lparr>iv_irq := Some name\<rparr>) w1 = (err, vs', warn, w')" using Cons.prems(1) by (auto simp: go_def n Let_def)
    have "holds w0 (slots_of iv_slots vs + (iv_slots (v\<lparr>iv_irq := Some name\<rparr>) + P)) D w1"
      using hn Cons.prems(2) by (simp add: iv_slots_def [of v] iv_slots_def [of "v\<lparr>iv_irq := Some name\<rparr>"] ac_simps)
    from go [OF g this] show ?thesis by simp
  qed
qed simp

subsection \<open>Setting up and tearing down\<close>

text \<open>What does not change in a vector while queues, numbers and registers are entered.\<close>

definition vec_core :: "idpf_q_vector \<Rightarrow> ptr multiset \<times> ptr option \<times> napi" where
  "vec_core v = (iv_slots v, iv_irq v, iv_napi v)"

lemma vec_core_upd [simp]:
  "vec_core (iv_rxs_update f v) = vec_core v" "vec_core (iv_txs_update f v) = vec_core v" "vec_core (iv_bufqs_update f v) = vec_core v"
  "vec_core (iv_v_idx_update g v) = vec_core v" "vec_core (set_regs r v) = vec_core v"
  by (simp_all add: vec_core_def iv_slots_def set_regs_def Let_def)

lemma vec_core_slots:
  assumes "map vec_core vs = map vec_core vs'"
  shows "slots_of iv_slots vs = slots_of iv_slots vs'"
proof -
  have "map fst (map vec_core xs) = map iv_slots xs" for xs by (simp add: vec_core_def)
  then have "map iv_slots vs = map iv_slots vs'" using assms by metis
  then show ?thesis by (rule slots_of_map)
qed

lemma slots_napi [simp]: "slots_of iv_slots (map (\<lambda>v. v\<lparr>iv_napi := n\<rparr>) vs) = slots_of iv_slots vs"
  by (induction vs) (simp_all add: iv_slots_def)

lemma intr_init_holds:
  assumes "idpf_vport_intr_init qp ip i w = Some (err, i', w')" and "\<forall>v \<in> set (in_vecs i). vec_idle v" and "holds w0 (in_slots i + P) D w"
  shows "holds w0 (in_slots i' + P) D w' \<and> in_arr i' = in_arr i \<and>
    (if err = ret_ok then \<forall>v \<in> set (in_vecs i'). iv_napi v = Napi_added else \<forall>v \<in> set (in_vecs i'). vec_idle v)"
proof -
  have acc: "holds w0 (slots_of iv_slots (in_vecs i) + (slot (in_arr i) + P)) D w" using assms(3) by (simp add: in_slots_def ac_simps)
  obtain e1 vs1 w1 where a: "idpf_vport_intr_init_vec_idx ip (in_vecs i) w = Some (e1, vs1, w1)"
    using assms(1) by (cases "idpf_vport_intr_init_vec_idx ip (in_vecs i) w") (auto simp: idpf_vport_intr_init_def)
  have a1: "holds w0 (slots_of iv_slots (in_vecs i) + (slot (in_arr i) + P)) D w1" "map vec_core vs1 = map vec_core (in_vecs i)"
    using init_vec_idx_holds [OF a acc, of vec_core] by auto
  have idle1: "\<forall>v \<in> set vs1. vec_idle v"
    using assms(2) map_all [OF a1(2), of "\<lambda>x. fst (snd x) = None \<and> snd (snd x) = Napi_none"] by (simp add: vec_core_def vec_idle_def)
  show ?thesis
  proof (cases e1)
    case (Some e)
    then have "i' = i\<lparr>in_vecs := vs1\<rparr>" "w' = w1" "err = Some e" using assms(1) by (simp_all add: idpf_vport_intr_init_def a)
    then show ?thesis using a1 idle1 vec_core_slots [OF a1(2)] by (simp add: in_slots_def ac_simps)
  next
    case None
    obtain vs2 where m: "idpf_vport_intr_map_vector_to_qs qp ip vs1 = Some vs2"
      using assms(1) None by (cases "idpf_vport_intr_map_vector_to_qs qp ip vs1") (auto simp: idpf_vport_intr_init_def a)
    have m1: "map vec_core vs2 = map vec_core vs1" by (rule map_vector_other [OF m]) simp_all
    define vs3 where "vs3 = map (\<lambda>v. v\<lparr>iv_napi := Napi_added\<rparr>) vs2"
    have irq2: "\<forall>v \<in> set vs2. iv_irq v = None"
      using idle1 map_all [OF m1, of "\<lambda>x. fst (snd x) = None"] by (simp add: vec_core_def vec_idle_def)
    have s3: "slots_of iv_slots vs3 = slots_of iv_slots (in_vecs i)" "\<forall>v \<in> set vs3. iv_irq v = None \<and> iv_napi v = Napi_added"
      using vec_core_slots [OF m1] vec_core_slots [OF a1(2)] irq2 by (simp_all add: vs3_def)
    have add: "idpf_vport_intr_napi_add_all (i\<lparr>in_vecs := vs2\<rparr>) = i\<lparr>in_vecs := vs3\<rparr>" by (simp add: idpf_vport_intr_napi_add_all_def vs3_def)
    obtain e4 vs4 w4 where r: "idpf_intr_reg_init ip vs3 w1 = Some (e4, vs4, w4)"
      using assms(1) None by (cases "idpf_intr_reg_init ip vs3 w1") (auto simp: idpf_vport_intr_init_def a m add Let_def)
    have r1: "holds w0 (slots_of iv_slots vs3 + (slot (in_arr i) + P)) D w4" "map vec_core vs4 = map vec_core vs3"
      using reg_init_holds [OF r, of w0 "slots_of iv_slots vs3 + (slot (in_arr i) + P)" D vec_core] a1(1) s3(1) by auto
    have s4: "slots_of iv_slots vs4 = slots_of iv_slots vs3" "\<forall>v \<in> set vs4. iv_irq v = None \<and> iv_napi v = Napi_added"
      using vec_core_slots [OF r1(2)] s3(2) map_all [OF r1(2), of "\<lambda>x. fst (snd x) = None \<and> snd (snd x) = Napi_added"] by (simp_all add: vec_core_def)
    show ?thesis
    proof (cases e4)
      case (Some e)
      then have "i' = idpf_vport_intr_napi_del_all (i\<lparr>in_vecs := vs4\<rparr>)" "w' = w4" "err = Some e"
        using assms(1) None by (simp_all add: idpf_vport_intr_init_def a m add r Let_def)
      then show ?thesis using r1(1) s4 by (auto simp: idpf_vport_intr_napi_del_all_def in_slots_def vec_idle_def ac_simps)
    next
      case e4: None
      obtain nm w5 where k: "kcalloc w4 = (nm, w5)" by (metis surj_pair)
      obtain e6 vs6 wn w6 where q: "req_irqs ip 0 vs4 w5 = (e6, vs6, wn, w6)" by (metis prod_cases4)
      have "holds w0 (slots_of iv_slots vs4 + (slot nm + (slot (in_arr i) + P))) D w5"
        using holds_kcalloc [OF k r1(1)] s4(1) by (simp add: ac_simps)
      from req_irqs_holds [OF q _ this] s4(2)
      have h6: "holds w0 (slots_of iv_slots vs6 + (slot nm + (slot (in_arr i) + P))) D w6" "e6 \<noteq> ret_ok \<longrightarrow> (\<forall>v \<in> set vs6. iv_irq v = None)"
        "map iv_napi vs6 = map iv_napi vs4" by auto
      have "holds w0 (slot nm + (slots_of iv_slots vs6 + (slot (in_arr i) + P))) D w6" using h6(1) by (simp add: ac_simps)
      note h7 = holds_kfree [OF this]
      have n6: "\<forall>v \<in> set vs6. iv_napi v = Napi_added" using s4(2) map_all [OF h6(3), of "\<lambda>x. x = Napi_added"] by simp
      define wr where "wr = (in_irq_warn i \<or> wn)"
      have "i' = (if e6 = ret_ok then i\<lparr>in_vecs := vs6, in_irq_warn := wr\<rparr> else idpf_vport_intr_napi_del_all (i\<lparr>in_vecs := vs6, in_irq_warn := wr\<rparr>))"
        "w' = kfree nm w6" "err = e6"
        using assms(1) None e4 by (auto simp: idpf_vport_intr_init_def a m add r k idpf_vport_intr_req_irq_def q wr_def Let_def)
      then show ?thesis using h7 h6(2) n6
        by (cases "e6 = ret_ok") (auto simp: idpf_vport_intr_napi_del_all_def in_slots_def vec_idle_def ac_simps)
    qed
  qed
qed

lemma intr_ena_holds:
  "in_slots (idpf_vport_intr_napi_ena_all i) = in_slots i" "\<forall>v \<in> set (in_vecs (idpf_vport_intr_napi_ena_all i)). iv_napi v = Napi_enabled"
  "in_arr (idpf_vport_intr_napi_ena_all i) = in_arr i"
  by (auto simp: idpf_vport_intr_napi_ena_all_def in_slots_def)

lemma intr_deinit_holds:
  assumes "\<forall>v \<in> set (in_vecs i). iv_napi v = Napi_enabled" and "holds w0 (in_slots i + P) D w"
  shows "\<exists>i' w'. idpf_vport_intr_deinit i w = Some (i', w') \<and> holds w0 (in_slots i' + P) D w' \<and> in_arr i' = in_arr i \<and> (\<forall>v \<in> set (in_vecs i'). vec_idle v)"
proof -
  define vs where "vs = map (\<lambda>v. v\<lparr>iv_napi := Napi_none\<rparr>) (in_vecs i)"
  have dis: "idpf_vport_intr_napi_dis_all i = Some (i\<lparr>in_vecs := map (\<lambda>v. v\<lparr>iv_napi := Napi_added\<rparr>) (in_vecs i)\<rparr>)"
    using assms(1) by (simp add: idpf_vport_intr_napi_dis_all_def)
  have del: "idpf_vport_intr_napi_del_all (i\<lparr>in_vecs := map (\<lambda>v. v\<lparr>iv_napi := Napi_added\<rparr>) (in_vecs i)\<rparr>) = i\<lparr>in_vecs := vs\<rparr>"
    by (simp add: idpf_vport_intr_napi_del_all_def vs_def comp_def)
  obtain vs1 wn w1 where f: "free_irqs vs w = (vs1, wn, w1)" by (metis prod_cases3)
  have "slots_of iv_slots vs = slots_of iv_slots (in_vecs i)" by (simp add: vs_def)
  then have "holds w0 (slots_of iv_slots vs + (slot (in_arr i) + P)) D w" using assms(2) by (simp add: in_slots_def ac_simps)
  from free_irqs_holds [OF f this]
  have h: "holds w0 (slots_of iv_slots vs1 + (slot (in_arr i) + P)) D w1" "\<forall>v \<in> set vs1. iv_irq v = None" "map iv_napi vs1 = map iv_napi vs" by auto
  have n: "\<forall>v \<in> set vs. iv_napi v = Napi_none" by (auto simp: vs_def)
  have "\<forall>v \<in> set vs1. vec_idle v" using map_all [OF h(3), of "\<lambda>x. x = Napi_none"] n h(2) unfolding vec_idle_def by blast
  moreover have "idpf_vport_intr_deinit i w = Some (i\<lparr>in_vecs := vs1, in_irq_warn := in_irq_warn i \<or> wn\<rparr>, w1)"
    unfolding idpf_vport_intr_deinit_def dis option.case del idpf_vport_intr_rel_irq_def by (simp add: f)
  moreover have "holds w0 (in_slots (i\<lparr>in_vecs := vs1, in_irq_warn := in_irq_warn i \<or> wn\<rparr>) + P) D w1" using h(1) by (simp add: in_slots_def ac_simps)
  ultimately show ?thesis by auto
qed

text \<open>Disabling NAPI before it was enabled does not return.\<close>

lemma intr_deinit_waits: "v \<in> set (in_vecs i) \<Longrightarrow> iv_napi v \<noteq> Napi_enabled \<Longrightarrow> idpf_vport_intr_deinit i w = None"
  by (auto simp: idpf_vport_intr_deinit_def idpf_vport_intr_napi_dis_all_def)

end
