(* ===== verification/Idpf_Vport.thy ===== *)
theory Idpf_Vport
  imports Idpf_Intr Idpf_Rss Idpf_Mac Idpf_Vectors "HOL-Library.Monad_Syntax"
begin

text \<open>
  The life of a vport (\<open>idpf_lib.c\<close>): \<open>idpf_vport_open\<close>, \<open>idpf_vport_stop\<close> and
  \<open>idpf_initiate_soft_reset\<close>, composed of the operations of the other theories: memory of vectors and queues,
  queue ids and registers, messages to the device, receive side scaling and MAC filters.

  The result \<open>None\<close> is that of the called functions: an access outside an array, or a wait that never ends.
  Receive timestamping and XDP programs, which \<open>idpf_vport_open\<close> sets up in the queues without looking at the
  result, are left out.
\<close>

section \<open>State\<close>

text \<open>
  A vport with what the functions reach from it.  \<open>vp_rsrc\<close> and \<open>vp_qv\<close> are the queue and vector parts of
  \<open>dflt_qv_rsrc\<close>, \<open>vp_attr\<close> the attributes of the queues that do not change here, \<open>vp_irq\<close> and
  \<open>vp_pages\<close> what the kernel answers to requests for handlers and pages.
\<close>

record vport =
  vp_up :: bool
  vp_DEL_QUEUES :: bool
  vp_carrier :: bool
  vp_link_up :: bool
  vp_id :: u32
  vp_idx :: nat
  vp_default :: bool
  vp_rsrc :: idpf_q_vec_rsrc
  vp_qv :: idpf_q_vecs
  vp_vecs :: idpf_vecs
  vp_cfg :: idpf_user_config
  vp_xdp :: idpf_vport_xdp
  vp_flow_sch :: bool
  vp_hsplit :: bool
  vp_rxhash :: bool
  vp_attr :: "idpf_qref \<Rightarrow> vc_queue"
  vp_masks :: bool
  vp_vchunks :: "virtchnl2_vector_chunk list option"
  vp_reserved :: nat
  vp_mb :: u16
  vp_irq :: "nat \<Rightarrow> ret"
  vp_pages :: "ptr \<Rightarrow> bool"
  vp_chunks :: "idpf_queue_id_reg_chunk list"
  vp_intr :: intr
  vp_mem :: qmem
  vp_mark :: marker_st
  vp_rss :: idpf_rss_data
  vp_mac :: idpf_vport_mac
  vp_st :: vc_st

definition vp_world :: "vport \<Rightarrow> idpf_world" where
  "vp_world vp = vs_world (vp_st vp)"

definition set_world :: "idpf_world \<Rightarrow> vport \<Rightarrow> vport" where
  "set_world w vp = vp\<lparr>vp_st := (vp_st vp)\<lparr>vs_world := w\<rparr>\<rparr>"

text \<open>Events during a call: markers handled early and while waiting, a reset of the device under way, removal of the driver, answers of the kernel to the numbers of queues.\<close>

record vport_env =
  ve_early :: "nat list"
  ve_markers :: "nat list"
  ve_CORER_IN_PROG :: bool
  ve_REMOVE_IN_PROG :: bool
  ve_real_rx :: ret
  ve_real_tx :: ret

section \<open>The resources as the other components see them\<close>

definition vp_qp :: "vport \<Rightarrow> qparams" where
  "vp_qp vp =
     (let r = vp_rsrc vp; (txq_per, rxq_per) = idpf_vport_calc_numq_per_grp r in
      \<lparr>qp_tx_split = idpf_is_queue_model_split (txq_model r), qp_rx_split = idpf_is_queue_model_split (rxq_model r),
       qp_num_txq_grp = num_txq_grp r, qp_num_rxq_grp = num_rxq_grp r, qp_txq_per_grp = txq_per, qp_rxq_per_grp = rxq_per,
       qp_num_bufqs = num_bufqs_per_qgrp r, qp_flow_sch = vp_flow_sch vp, qp_hsplit = vp_hsplit vp, qp_pages = vp_pages vp\<rparr>)"

definition vp_ip :: "vport \<Rightarrow> iparams" where
  "vp_ip vp =
     \<lparr>ip_num = num_q_vectors (vp_qv vp), ip_num_txq = num_txq (vp_rsrc vp), ip_num_complq = num_complq (vp_rsrc vp),
      ip_num_rxq = num_rxq (vp_rsrc vp), ip_xdp = xdp_prog (vp_cfg vp), ip_masks = vp_masks vp, ip_idxs = q_vector_idxs (vp_qv vp),
      ip_chunks = vp_vchunks vp, ip_reserved = vp_reserved vp, ip_mb = vp_mb vp, ip_irq = vp_irq vp\<rparr>"

text \<open>The groups as the allocation leaves them: queues without ids.\<close>

definition fresh_grps :: "idpf_q_vec_rsrc \<Rightarrow> idpf_q_vec_rsrc" where
  "fresh_grps r =
     (let q = \<lparr>q_qid = 0, q_qtype = 0, q_tail = 0\<rparr>; (txq_per, rxq_per) = idpf_vport_calc_numq_per_grp r in
      r\<lparr>txq_grps := replicate (num_txq_grp r) \<lparr>txqs = replicate txq_per q, complq = q\<rparr>,
        rxq_grps := replicate (num_rxq_grp r) \<lparr>rxqs = replicate rxq_per q,
          bufqs = (if idpf_is_queue_model_split (rxq_model r) then replicate (num_bufqs_per_qgrp r) q else [])\<rparr>\<rparr>)"

text \<open>The number of the vector that serves queue \<open>k\<close>.\<close>

definition vec_of :: "(idpf_q_vector \<Rightarrow> nat list) \<Rightarrow> idpf_q_vector list \<Rightarrow> nat \<Rightarrow> u16" where
  "vec_of sel vs k = (case find (\<lambda>v. k \<in> set (sel v)) vs of None \<Rightarrow> 0 | Some v \<Rightarrow> iv_v_idx v)"

definition vq_of :: "(idpf_qref \<Rightarrow> vc_queue) \<Rightarrow> u16 \<Rightarrow> u32 \<Rightarrow> idpf_qref \<Rightarrow> vc_queue" where
  "vq_of attr v itr q = (attr q)\<lparr>vq_id := q_qid q, vq_type := q_qtype q, vq_v_idx := v, vq_itr_idx := itr\<rparr>"

text \<open>A list of queues with their numbers from \<open>k\<close> on.\<close>

definition vqs_of :: "(idpf_qref \<Rightarrow> vc_queue) \<Rightarrow> (nat \<Rightarrow> u16) \<Rightarrow> u32 \<Rightarrow> nat \<Rightarrow> idpf_qref list \<Rightarrow> vc_queue list" where
  "vqs_of attr vec itr k qs = map2 (\<lambda>j q. vq_of attr (vec j) itr q) [k..<k + length qs] qs"

fun grps_of :: "('g \<Rightarrow> idpf_qref list) \<Rightarrow> (nat \<Rightarrow> nat \<Rightarrow> 'g \<Rightarrow> 'h) \<Rightarrow> nat \<Rightarrow> nat \<Rightarrow> 'g list \<Rightarrow> 'h list" where
  "grps_of get mk g k [] = []"
| "grps_of get mk g k (x # xs) = mk g k x # grps_of get mk (Suc g) (k + length (get x)) xs"

definition vp_msgs :: "vport \<Rightarrow> vc_rsrc" where
  "vp_msgs vp =
     (let r = vp_rsrc vp; vs = in_vecs (vp_intr vp); rxv = vec_of iv_rxs vs; txv = vec_of iv_txs vs in
      \<lparr>vr_txq_grps = grps_of txqs (\<lambda>g k x. \<lparr>vg_txqs = vqs_of (vp_attr vp) txv 1 k (txqs x), vg_complq = vq_of (vp_attr vp) (txv g) 1 (complq x)\<rparr>) 0 0 (txq_grps r),
       vr_rxq_grps = grps_of rxqs (\<lambda>g k x. \<lparr>vg_rxqs = vqs_of (vp_attr vp) rxv 0 k (rxqs x),
         vg_bufqs = map (vq_of (vp_attr vp) 0 0) (bufqs x)\<rparr>) 0 0 (rxq_grps r),
       vr_num_txq = num_txq r, vr_num_complq = num_complq r, vr_num_rxq = num_rxq r, vr_num_bufq = num_bufq r,
       vr_num_bufqs_per_qgrp = num_bufqs_per_qgrp r, vr_txq_model = txq_model r, vr_rxq_model = rxq_model r\<rparr>)"

section \<open>The calls on a vport\<close>

definition vp_intr_alloc :: "vport \<Rightarrow> (ret \<times> vport) option" where
  "vp_intr_alloc vp =
     do { (err, i, w) \<leftarrow> idpf_vport_intr_alloc (vp_qp vp) (vp_ip vp) (vp_intr vp) (vp_world vp);
          Some (err, (set_world w vp)\<lparr>vp_intr := i\<rparr>) }"

definition vp_intr_rel :: "vport \<Rightarrow> vport" where
  "vp_intr_rel vp = (case idpf_vport_intr_rel (vp_intr vp) (vp_world vp) of (i, w) \<Rightarrow> (set_world w vp)\<lparr>vp_intr := i\<rparr>)"

definition vp_queue_alloc_all :: "vport \<Rightarrow> (ret \<times> vport) option" where
  "vp_queue_alloc_all vp =
     do { (err, r, w) \<leftarrow> idpf_vport_queue_alloc_all (vp_qp vp) (vp_mem vp) (vp_world vp);
          Some (err, (set_world w vp)\<lparr>vp_mem := r, vp_rsrc := fresh_grps (vp_rsrc vp),
            vp_mark := (vp_mark vp)\<lparr>mk_txqs := replicate (num_txq (vp_rsrc vp)) \<lparr>tf_POLL_MODE = False, tf_SW_MARKER = False\<rparr>\<rparr>\<rparr>) }"

definition vp_queues_rel :: "vport \<Rightarrow> vport option" where
  "vp_queues_rel vp =
     do { (r, w) \<leftarrow> idpf_vport_queues_rel (vp_qp vp) (vp_mem vp) (vp_world vp);
          Some ((set_world w vp)\<lparr>vp_mem := r\<rparr>) }"

text \<open>Both fetch the ids or registers into an array of their own.\<close>

definition vp_queue_ids_init :: "vport \<Rightarrow> ret \<times> vport" where
  "vp_queue_ids_init vp =
     (case kcalloc (vp_world vp) of (p, w) \<Rightarrow>
      case idpf_vport_queue_ids_init (p \<noteq> NULL) (vp_rsrc vp) (vp_chunks vp) of (err, r) \<Rightarrow>
        (err, (set_world (kfree p w) vp)\<lparr>vp_rsrc := r\<rparr>))"

definition vp_queue_reg_init :: "vport \<Rightarrow> ret \<times> vport" where
  "vp_queue_reg_init vp =
     (case kcalloc (vp_world vp) of (p, w) \<Rightarrow>
      case idpf_queue_reg_init (p \<noteq> NULL) (vp_rsrc vp) (vp_chunks vp) of (err, r) \<Rightarrow>
        (err, (set_world (kfree p w) vp)\<lparr>vp_rsrc := r\<rparr>))"

definition vp_intr_init :: "vport \<Rightarrow> (ret \<times> vport) option" where
  "vp_intr_init vp =
     do { (err, i, w) \<leftarrow> idpf_vport_intr_init (vp_qp vp) (vp_ip vp) (vp_intr vp) (vp_world vp);
          Some (err, (set_world w vp)\<lparr>vp_intr := i\<rparr>) }"

definition vp_intr_deinit :: "vport \<Rightarrow> vport option" where
  "vp_intr_deinit vp =
     do { (i, w) \<leftarrow> idpf_vport_intr_deinit (vp_intr vp) (vp_world vp);
          Some ((set_world w vp)\<lparr>vp_intr := i\<rparr>) }"

definition vp_rx_bufs_init_all :: "vport \<Rightarrow> ret \<times> vport" where
  "vp_rx_bufs_init_all vp =
     (case idpf_rx_bufs_init_all (vp_qp vp) (vp_mem vp) (vp_world vp) of (err, r, w) \<Rightarrow> (err, (set_world w vp)\<lparr>vp_mem := r\<rparr>))"

text \<open>\<open>idpf_vport_intr_ena\<close>: the registers written at the end are those of \<open>idpf_vport_intr_update_itr_ena_irq\<close>.\<close>

definition vp_intr_ena :: "vport \<Rightarrow> vport" where
  "vp_intr_ena vp = vp\<lparr>vp_intr := idpf_vport_intr_napi_ena_all (vp_intr vp)\<rparr>"

definition vp_msg :: "(vc_st \<Rightarrow> (ret \<times> vc_st) option) \<Rightarrow> vport \<Rightarrow> (ret \<times> vport) option" where
  "vp_msg f vp = do { (err, s) \<leftarrow> f (vp_st vp); Some (err, vp\<lparr>vp_st := s\<rparr>) }"

definition vp_map_vectors :: "bool \<Rightarrow> vport \<Rightarrow> (ret \<times> vport) option" where
  "vp_map_vectors map_q vp = vp_msg (idpf_send_map_unmap_queue_vector_msg (vp_msgs vp) (vp_id vp) map_q) vp"

definition vp_disable_queues :: "vport_env \<Rightarrow> vport \<Rightarrow> (ret \<times> vport) option" where
  "vp_disable_queues env vp =
     do { (err, m, s) \<leftarrow> idpf_send_disable_queues_msg (ve_early env) (ve_markers env) (vp_id vp) (vp_chunks vp) (vp_mark vp) (vp_st vp);
          Some (err, vp\<lparr>vp_mark := m, vp_st := s\<rparr>) }"

definition vp_enable_vport :: "bool \<Rightarrow> vport \<Rightarrow> ret \<times> vport" where
  "vp_enable_vport ena vp =
     (case (if ena then idpf_send_enable_vport_msg (vp_id vp) (vp_st vp) else idpf_send_disable_vport_msg (vp_id vp) (vp_st vp)) of
        (err, s) \<Rightarrow> (err, vp\<lparr>vp_st := s\<rparr>))"

text \<open>The MAC filters share the memory of the vport.\<close>

definition vp_mac_call :: "(idpf_vport_mac \<Rightarrow> idpf_vport_mac) \<Rightarrow> vport \<Rightarrow> vport" where
  "vp_mac_call f vp =
     (let m = f ((vp_mac vp)\<lparr>IDPF_VPORT_UP := vp_up vp, mv_world := vp_world vp\<rparr>) in (set_world (mv_world m) vp)\<lparr>vp_mac := m\<rparr>)"

definition idpf_restore_features :: "vport \<Rightarrow> vport" where
  "idpf_restore_features vp = (if CAP_MACFILTER (vp_mac vp) then vp_mac_call idpf_restore_mac_filters vp else vp)"

definition idpf_remove_features :: "vport \<Rightarrow> vport" where
  "idpf_remove_features vp = (if CAP_MACFILTER (vp_mac vp) then vp_mac_call idpf_remove_mac_filters vp else vp)"

definition vp_rss_setup :: "vport \<Rightarrow> (ret \<times> vport) option" where
  "vp_rss_setup vp =
     do { (err, rd, s) \<leftarrow> (if fst (rss_lut (vp_rss vp)) \<noteq> NULL
            then idpf_config_rss (Some (vp_rxhash vp)) (vp_id vp) (vp_rss vp) (vp_st vp)
            else idpf_init_rss (Some (vp_rxhash vp)) (vp_id vp) (xdp_prog (vp_cfg vp)) (num_rxq (vp_rsrc vp)) (num_xdp_rxq (vp_xdp vp)) (vp_rss vp) (vp_st vp));
          Some (err, vp\<lparr>vp_rss := rd, vp_st := s\<rparr>) }"

definition vp_deinit_rss :: "vport \<Rightarrow> vport" where
  "vp_deinit_rss vp = (case idpf_deinit_rss (vp_rss vp) (vp_st vp) of (rd, s) \<Rightarrow> vp\<lparr>vp_rss := rd, vp_st := s\<rparr>)"

section \<open>Opening\<close>

definition idpf_set_real_num_queues :: "vport_env \<Rightarrow> ret" where
  "idpf_set_real_num_queues env = (if ve_real_rx env \<noteq> ret_ok then ve_real_rx env else ve_real_tx env)"

definition idpf_up_complete :: "vport \<Rightarrow> ret \<times> vport" where
  "idpf_up_complete vp = (ret_ok, (if vp_link_up vp \<and> \<not> vp_carrier vp then vp\<lparr>vp_carrier := True\<rparr> else vp)\<lparr>vp_up := True\<rparr>)"

text \<open>The labels behind the function, the last one first.\<close>

definition err_intr_rel :: "ret \<Rightarrow> vport \<Rightarrow> (ret \<times> vport) option" where
  "err_intr_rel err vp = Some (err, vp_intr_rel vp)"

definition err_queues_rel :: "ret \<Rightarrow> vport \<Rightarrow> (ret \<times> vport) option" where
  "err_queues_rel err vp = do { vp \<leftarrow> vp_queues_rel vp; err_intr_rel err vp }"

definition err_intr_deinit :: "ret \<Rightarrow> vport \<Rightarrow> (ret \<times> vport) option" where
  "err_intr_deinit err vp = do { vp \<leftarrow> vp_intr_deinit vp; err_queues_rel err vp }"

definition err_unmap_queue_vectors :: "ret \<Rightarrow> vport \<Rightarrow> (ret \<times> vport) option" where
  "err_unmap_queue_vectors err vp = do { (_, vp) \<leftarrow> vp_map_vectors False vp; err_intr_deinit err vp }"

definition err_disable_queues :: "vport_env \<Rightarrow> ret \<Rightarrow> vport \<Rightarrow> (ret \<times> vport) option" where
  "err_disable_queues env err vp = do { (_, vp) \<leftarrow> vp_disable_queues env vp; err_unmap_queue_vectors err vp }"

definition err_disable_vport :: "vport_env \<Rightarrow> ret \<Rightarrow> vport \<Rightarrow> (ret \<times> vport) option" where
  "err_disable_vport env err vp = err_disable_queues env err (snd (vp_enable_vport False vp))"

definition err_deinit_rss :: "vport_env \<Rightarrow> ret \<Rightarrow> vport \<Rightarrow> (ret \<times> vport) option" where
  "err_deinit_rss env err vp = err_disable_vport env err (vp_deinit_rss vp)"

text \<open>Up to \<open>idpf_vport_intr_ena\<close>: what the driver sets up by itself.\<close>

definition open_setup :: "vport \<Rightarrow> (ret \<times> vport) option" where
  "open_setup vp =
     do { (err, vp) \<leftarrow> vp_intr_alloc vp;
          if err \<noteq> ret_ok then Some (err, vp) else
     do { (err, vp) \<leftarrow> vp_queue_alloc_all vp;
          if err \<noteq> ret_ok then err_intr_rel err vp else
          (case vp_queue_ids_init vp of (err, vp) \<Rightarrow>
          if err \<noteq> ret_ok then err_queues_rel err vp else
     do { (err, vp) \<leftarrow> vp_intr_init vp;
          if err \<noteq> ret_ok then err_queues_rel err vp else
          (case vp_queue_reg_init vp of (err, vp) \<Rightarrow>
          if err \<noteq> ret_ok then err_intr_deinit err vp else
          (case vp_rx_bufs_init_all vp of (err, vp) \<Rightarrow>
          if err \<noteq> ret_ok then err_intr_deinit err vp else Some (ret_ok, vp_intr_ena vp))) }) } }"

text \<open>From there on: the messages to the device.\<close>

definition open_start :: "vport_env \<Rightarrow> vport \<Rightarrow> (ret \<times> vport) option" where
  "open_start env vp =
     do { (err, vp) \<leftarrow> vp_msg (idpf_send_config_queues_msg (vp_msgs vp) (vp_id vp)) vp;
          if err \<noteq> ret_ok then err_intr_deinit err vp else
     do { (err, vp) \<leftarrow> vp_map_vectors True vp;
          if err \<noteq> ret_ok then err_intr_deinit err vp else
     do { (err, vp) \<leftarrow> vp_msg (idpf_send_enable_queues_msg (vp_id vp) (vp_chunks vp)) vp;
          if err \<noteq> ret_ok then err_unmap_queue_vectors err vp else
          (case vp_enable_vport True vp of (err, vp) \<Rightarrow>
          if err \<noteq> ret_ok then err_disable_queues env (Some EAGAIN) vp else
     do { (err, vp) \<leftarrow> vp_rss_setup (idpf_restore_features vp);
          if err \<noteq> ret_ok then err_disable_vport env err vp else
          (case idpf_up_complete vp of (err, vp) \<Rightarrow>
          if err \<noteq> ret_ok then err_deinit_rss env err vp else Some (ret_ok, vp)) }) } } }"

definition idpf_vport_open :: "vport_env \<Rightarrow> vport \<Rightarrow> (ret \<times> vport) option" where
  "idpf_vport_open env vp =
     (if vp_up vp then Some (Some EBUSY, vp)
      else do { (err, vp) \<leftarrow> open_setup (vp\<lparr>vp_carrier := False\<rparr>);
                if err \<noteq> ret_ok then Some (err, vp) else open_start env vp })"

definition idpf_open :: "vport_env \<Rightarrow> vport \<Rightarrow> (ret \<times> vport) option" where
  "idpf_open env vp =
     (if ve_REMOVE_IN_PROG env then Some (ret_ok, vp)
      else let err = idpf_set_real_num_queues env in if err \<noteq> ret_ok then Some (err, vp) else idpf_vport_open env vp)"

section \<open>Stopping\<close>

definition idpf_vport_stop :: "vport_env \<Rightarrow> vport \<Rightarrow> vport option" where
  "idpf_vport_stop env vp =
     (if \<not> vp_up vp then Some vp
      else
        let vp = vp\<lparr>vp_up := False, vp_carrier := False\<rparr> in
        do { vp \<leftarrow> (if ve_CORER_IN_PROG env then Some vp
               else map_option snd (vp_disable_queues env (snd (vp_enable_vport False vp))));
             (_, vp) \<leftarrow> vp_map_vectors False vp;
             let vp = (if vp_DEL_QUEUES vp
               then vp\<lparr>vp_DEL_QUEUES := False, vp_st := snd (idpf_send_delete_queues_msg (vp_chunks vp) (vp_id vp) (vp_st vp))\<rparr> else vp);
             vp \<leftarrow> vp_intr_deinit (idpf_remove_features vp);
             vp \<leftarrow> vp_queues_rel vp;
             Some (vp_intr_rel vp) })"

definition idpf_stop :: "vport_env \<Rightarrow> vport \<Rightarrow> (ret \<times> vport) option" where
  "idpf_stop env vp = do { vp \<leftarrow> idpf_vport_stop env vp; Some (ret_ok, vp) }"

section \<open>Soft reset\<close>

text \<open>A cause that is none of these is refused before anything happens.\<close>

datatype idpf_vport_reset_cause =
    IDPF_SR_Q_CHANGE | IDPF_SR_Q_DESC_CHANGE | IDPF_SR_Q_SCH_CHANGE | IDPF_SR_MTU_CHANGE
  | IDPF_SR_RSC_CHANGE | IDPF_SR_HSPLIT_CHANGE | IDPF_SR_XDP_CHANGE

datatype mtu_event = IIDC_RDMA_EVENT_BEFORE_MTU_CHANGE | IIDC_RDMA_EVENT_AFTER_MTU_CHANGE

text \<open>The replies to the two messages that may ask for queues, with the success of the allocation of their chunks, and the result of \<open>idpf_xsk_handle_pool_change\<close>.\<close>

record sr_env =
  se_reply :: add_queues_reply
  se_mem :: bool
  se_reply_old :: add_queues_reply
  se_mem_old :: bool
  se_xsk :: ret

text \<open>
  The parameters of the copy.  The configuration of the user belongs to the adapter, so that the vport sees
  its change, too.
\<close>

definition sr_adjust :: "idpf_vport_reset_cause \<Rightarrow> vport \<Rightarrow> vport" where
  "sr_adjust cause new =
     (case cause of
        IDPF_SR_Q_CHANGE \<Rightarrow> (case idpf_vport_adjust_qs (vp_cfg new) (vp_rsrc new) of (cfg, vx, r) \<Rightarrow> new\<lparr>vp_cfg := cfg, vp_xdp := vx, vp_rsrc := r\<rparr>)
      | IDPF_SR_Q_DESC_CHANGE \<Rightarrow> new\<lparr>vp_rsrc := idpf_vport_calc_num_q_desc (vp_cfg new) (vp_rsrc new)\<rparr>
      | _ \<Rightarrow> new)"

text \<open>
  \<open>memcpy(vport, new_vport)\<close> up to \<open>sw_marker_wq\<close>: the resources with the pointers to vectors and queues, the XDP
  counts, the flags and the state of the link.  Up and carrier belong to the net device, the rest to the adapter.
\<close>

definition sr_copy :: "vport \<Rightarrow> vport \<Rightarrow> vport" where
  "sr_copy new vp =
     vp\<lparr>vp_rsrc := vp_rsrc new, vp_qv := vp_qv new, vp_intr := vp_intr new, vp_mem := vp_mem new, vp_xdp := vp_xdp new,
        vp_DEL_QUEUES := vp_DEL_QUEUES new, vp_link_up := vp_link_up new, vp_mark := vp_mark new\<rparr>"

definition vp_add_queues :: "add_queues_reply \<Rightarrow> bool \<Rightarrow> vport \<Rightarrow> vport \<Rightarrow> ret \<times> vport" where
  "vp_add_queues reply got_mem asking vp =
     (case idpf_send_add_queues_msg reply got_mem (vp_msgs asking) (vp_id vp) (vp_chunks vp) (vp_st vp) of
        (err, chunks, s) \<Rightarrow> (err, vp\<lparr>vp_chunks := chunks, vp_st := s\<rparr>))"

definition vp_alloc_vec_indexes :: "vport \<Rightarrow> vport" where
  "vp_alloc_vec_indexes vp =
     (case idpf_vport_alloc_vec_indexes (vp_default vp) (vp_idx vp) (if xdp_prog (vp_cfg vp) then Some (num_xdp_txq (vp_xdp vp)) else None) (vp_vecs vp)
        ((vp_qv vp)\<lparr>qv_num_txq := num_txq (vp_rsrc vp), qv_num_rxq := num_rxq (vp_rsrc vp)\<rparr>) of
        (_, qv, a) \<Rightarrow> vp\<lparr>vp_qv := qv, vp_vecs := a\<rparr>)"

text \<open>What follows the removal of the old queues; \<open>up\<close> tells whether the vport was up.\<close>

definition sr_reopen :: "vport_env \<Rightarrow> sr_env \<Rightarrow> idpf_vport_reset_cause \<Rightarrow> bool \<Rightarrow> vport \<Rightarrow> vport \<Rightarrow> (ret \<times> vport) option" where
  "sr_reopen env se cause up new vp =
     (let vp = (if cause = IDPF_SR_Q_CHANGE then vp_deinit_rss vp else vp);
          err_open = (\<lambda>err vp. if up then do { (_, vp) \<leftarrow> idpf_vport_open env vp; Some (err, vp) } else Some (err, vp))
      in case vp_add_queues (se_reply se) (se_mem se) new vp of (err, vp) \<Rightarrow>
           if err \<noteq> ret_ok
           then (case vp_add_queues (se_reply_old se) (se_mem_old se) vp vp of (tmp_err, vp) \<Rightarrow>
                   if tmp_err = ret_ok then err_open err vp else Some (err, vp))
           else
             let vp = sr_copy new vp;
                 vp = (if cause = IDPF_SR_Q_CHANGE then vp_alloc_vec_indexes vp else vp);
                 err = idpf_set_real_num_queues env
             in if err \<noteq> ret_ok then err_open err vp
                else if up then idpf_vport_open env vp else Some (ret_ok, vp))"

definition idpf_initiate_soft_reset ::
  "vport_env \<Rightarrow> sr_env \<Rightarrow> idpf_vport_reset_cause \<Rightarrow> vport \<Rightarrow> (ret \<times> mtu_event list \<times> vport) option" where
  "idpf_initiate_soft_reset env se cause vp =
     (case kcalloc (vp_world vp) of (new_vport, w) \<Rightarrow>
        let vp = set_world w vp; up = vp_up vp in
        if new_vport = NULL then Some (Some ENOMEM, [], vp)
        else
          let new = sr_adjust cause vp;
              vp = vp\<lparr>vp_cfg := vp_cfg new\<rparr>;
              before = (if cause \<in> {IDPF_SR_Q_SCH_CHANGE, IDPF_SR_MTU_CHANGE} then [IIDC_RDMA_EVENT_BEFORE_MTU_CHANGE] else []);
              after = (if cause = IDPF_SR_MTU_CHANGE then [IIDC_RDMA_EVENT_AFTER_MTU_CHANGE] else [])
          in do { vp \<leftarrow> (if \<not> up then Some (vp\<lparr>vp_st := snd (idpf_send_delete_queues_msg (vp_chunks vp) (vp_id vp) (vp_st vp))\<rparr>)
                    else idpf_vport_stop env (vp\<lparr>vp_DEL_QUEUES := True\<rparr>));
                  (err, vp) \<leftarrow> (if cause = IDPF_SR_XDP_CHANGE \<and> se_xsk se \<noteq> ret_ok then Some (se_xsk se, vp)
                    else sr_reopen env se cause up new vp);
                  Some (err, before @ after, set_world (kfree new_vport (vp_world vp)) vp) })"

end
