(* ===== verification/Idpf_Vport_Steps.thy ===== *)
theory Idpf_Vport_Steps
  imports Idpf_Vport Idpf_Intr_Results Idpf_Rss_Results Idpf_Mac_Results Idpf_Queues_Results Idpf_Vport_Msgs_Results Idpf_Vport_Mem_Results
begin

text \<open>
  The calls that open and stop a vport, one by one: what each does to the account of its memory, to its
  vectors and to its queues.  The accounts of the components are put together by framing.
\<close>

section \<open>Framing accounts\<close>

lemma holds_trans:
  assumes "holds w0 P D w" and "holds w Q E w'"
  shows "holds w0 (Q + P) (E + D) w'"
proof -
  note t = owns_trans [of w0 "set_mset P" "set_mset D" w "set_mset Q" "set_mset E" w']
  have d: "set_mset P \<inter> set_mset Q = {}" "set_mset D \<inter> set_mset E = {}" using t(2,3) assms by (simp_all add: holds_def)
  have c: "count (A + B) p \<le> 1" if "set_mset B \<inter> set_mset A = {}" "\<forall>p. count A p \<le> 1" "\<forall>p. count B p \<le> 1" for A B :: "ptr multiset" and p
  proof (cases "p \<in># A")
    case True
    then have "p \<notin># B" using that(1) by blast
    then show ?thesis using that(2) by (simp add: not_in_iff)
  qed (use that(3) in \<open>simp add: not_in_iff\<close>)
  show ?thesis using t(1) assms c d by (auto simp: holds_def Un_commute)
qed

lemma holds_owns: "holds w0 P D w \<Longrightarrow> owns w {} {} w' \<Longrightarrow> holds w0 P D w'"
  using holds_trans [of w0 P D w "{#}" "{#}" w'] by (simp add: holds_empty)

lemma holds_split:
  assumes "holds w0 (Q + P) (E + D) w"
  shows "\<exists>b. holds w0 P D b \<and> holds b Q E w"
proof -
  define b where "b = w0\<lparr>live := live w0 \<union> set_mset P, dma_live := dma_live w0 \<union> set_mset D\<rparr>"
  have c: "count A p \<le> 1" "count B p \<le> 1" "p \<in># A \<Longrightarrow> p \<notin># B" if "\<forall>p. count (A + B) p \<le> 1" for A B :: "ptr multiset" and p
  proof -
    have s: "count A p + count B p \<le> 1" using spec [OF that, of p] by simp
    then show "count A p \<le> 1" "count B p \<le> 1" by linarith+
    show "p \<in># A \<Longrightarrow> p \<notin># B" using s unfolding count_greater_zero_iff [symmetric] by linarith
  qed
  have "\<forall>p. count (Q + P) p \<le> 1" "\<forall>p. count (E + D) p \<le> 1" using assms by (auto simp: holds_def)
  note q = c [OF this(1)] and e = c [OF this(2)]
  have "holds w0 P D b" using assms q(2) e(2) by (auto simp: holds_def owns_def b_def)
  moreover have "holds b Q E w" using assms q e by (auto simp: holds_def owns_def b_def)
  ultimately show ?thesis by blast
qed

lemma holds_frame:
  assumes "holds w0 (Q + P) (E + D) w" and "\<And>b. holds b Q E w \<Longrightarrow> holds b Q' E' w'"
  shows "holds w0 (Q' + P) (E' + D) w'"
  using holds_split [OF assms(1)] assms(2) holds_trans by blast

section \<open>The components\<close>

text \<open>The tables of receive side scaling as an account.\<close>

definition rss_slots :: "idpf_rss_data \<Rightarrow> ptr multiset" where
  "rss_slots rd = slot (fst (rss_key rd)) + slot (fst (rss_lut rd)) + slot (fst (cached_lut rd))"

lemma rss_inv_holds: "rss_inv b rd s \<longleftrightarrow> rss_wf rd \<and> holds b (rss_slots rd) {#} (vs_world s)"
proof -
  have "rss_wf rd \<Longrightarrow> rss_objs rd = set_mset (rss_slots rd) \<and> (\<forall>p. count (rss_slots rd) p \<le> 1)"
    by (auto simp: rss_slots_def rss_objs_def rss_wf_def slot_def split: if_splits)
  then show ?thesis by (auto simp: rss_inv_def holds_def)
qed

lemma mac_send_loop_dma: "mac_send_loop add async n ma es s = (err, ma', s') \<Longrightarrow> dma_live (mv_world s') = dma_live (mv_world s)"
proof (induction n arbitrary: ma es s)
  case (Suc n)
  let ?new = "ma = NULL \<or> min (length es) IDPF_NUM_FILTERS_PER_MSG \<noteq> IDPF_NUM_FILTERS_PER_MSG"
  obtain ma1 w where a: "(if ?new then kcalloc (kfree ma (mv_world s)) else (ma, mv_world s)) = (ma1, w)" by fastforce
  have "dma_live w = dma_live (mv_world s)"
    using a by (auto simp: kcalloc_def kfree_def split: if_splits list.splits)
  moreover have "dma_live (mv_world s') = dma_live w"
    using Suc.prems Suc.IH [of ma1 "drop (min (length es) IDPF_NUM_FILTERS_PER_MSG) es"]
    by (simp only: mac_send_loop.simps Let_def a prod.case mac_xn_exec_def) (fastforce split: if_splits option.splits)
  ultimately show ?case by simp
qed simp

lemma add_del_owns: "owns (mv_world s) {} {} (mv_world (snd (idpf_add_del_mac_filters add async s)))"
proof -
  obtain err s' where r: "idpf_add_del_mac_filters add async s = (err, s')" by fastforce
  obtain p w where k: "kcalloc (mv_world s) = (p, w)" by fastforce
  have d: "dma_live w = dma_live (mv_world s)" using k by (auto simp: kcalloc_def split: list.splits if_splits)
  let ?tot = "length (filter (\<lambda>x. mac_marked add (snd x)) (mac_filter_list s))"
  obtain es fs where c: "mac_collect add (default_mac_addr s) ?tot 0 (mac_filter_list s) = (es, fs)" by fastforce
  obtain e1 ma s1 where l: "mac_send_loop add async ((?tot + IDPF_NUM_FILTERS_PER_MSG - 1) div IDPF_NUM_FILTERS_PER_MSG) NULL es
      (s\<lparr>mv_world := w, mac_filter_list := fs\<rparr>) = (e1, ma, s1)" by (metis prod_cases3)
  have "idpf_add_del_mac_filters add async s = (if ?tot = 0 then (ret_ok, s) else if p = NULL then (Some ENOMEM, s\<lparr>mv_world := w\<rparr>)
      else (e1, s1\<lparr>mv_world := kfree p (kfree ma (mv_world s1))\<rparr>))"
    using l by (simp add: idpf_add_del_mac_filters_def k c Let_def)
  note run = this [unfolded r]
  have "dma_live (mv_world s1) = dma_live w" using mac_send_loop_dma [OF l] by simp
  then have "dma_live (mv_world s') = dma_live (mv_world s)" using run d by (auto simp: kfree_def split: if_splits)
  then show ?thesis using idpf_add_del_spec [OF r] r by (simp add: owns_def mac_frame_def)
qed

text \<open>The sizes of the groups survive the assignment of ids and registers.\<close>

definition rsrc_sizes :: "idpf_q_vec_rsrc \<Rightarrow> nat list \<times> nat list \<times> nat list \<times> nat list" where
  "rsrc_sizes r = (rsrc_counts r @ [num_txq_grp r, num_rxq_grp r], map (length \<circ> txqs) (txq_grps r), map (length \<circ> rxqs) (rxq_grps r),
     map (length \<circ> bufqs) (rxq_grps r))"

lemma assign_qs_length: "length (fst (assign_qs f vals n m k qs)) = length qs"
  by (induction f vals n m k qs rule: assign_qs.induct) (auto split: prod.splits)

lemma assign_grps_length:
  "(\<And>g qs. get (put g qs) = qs) \<Longrightarrow> map (length \<circ> get) (assign_grps get put m f vals n k gs) = map (length \<circ> get) gs"
proof (induction gs arbitrary: k)
  case (Cons g gs)
  then show ?case using assign_qs_length [of f vals n "m g" k "get g"] by (auto split: prod.splits)
qed simp

lemma vport_queue_ids_sizes: "rsrc_sizes (vport_queue_ids_init r ids n t) = rsrc_sizes r"
  by (auto simp: rsrc_sizes_def vport_queue_ids_init_def Let_def assign_grps_length assign_grps_other intro: nth_equalityI)

lemma queue_reg_sizes: "rsrc_sizes (queue_reg_init r regs n t) = rsrc_sizes r"
  by (auto simp: rsrc_sizes_def queue_reg_init_def Let_def assign_grps_length assign_grps_other)


lemma queue_ids_sizes: "rsrc_sizes (snd (idpf_vport_queue_ids_init got r cs)) = rsrc_sizes r"
  by (auto simp: idpf_vport_queue_ids_init_def queue_ids_step_def vport_queue_ids_sizes split: prod.splits option.splits if_splits)

lemma queue_regs_sizes: "rsrc_sizes (snd (idpf_queue_reg_init got r cs)) = rsrc_sizes r"
  by (auto simp: idpf_queue_reg_init_def queue_reg_step_def queue_reg_sizes split: prod.splits option.splits if_splits)

text \<open>Counts as \<open>idpf_vport_calc_num_q_groups\<close> leaves them, with at least one queue each way.\<close>

definition rsrc_ok :: "idpf_q_vec_rsrc \<Rightarrow> bool" where
  "rsrc_ok r \<longleftrightarrow> 0 < num_txq r \<and> 0 < num_rxq r \<and> num_rxq r < 65536 \<and>
     (if idpf_is_queue_model_split (txq_model r) then num_txq_grp r = num_txq r \<and> num_complq r = num_txq_grp r
      else num_txq_grp r = 1 \<and> num_complq r = 0) \<and>
     (if idpf_is_queue_model_split (rxq_model r) then num_rxq_grp r = num_rxq r \<and> num_bufq r = num_bufqs_per_qgrp r * num_rxq_grp r
      else num_rxq_grp r = 1 \<and> num_bufq r = 0 \<and> num_bufqs_per_qgrp r = 0)"

text \<open>The groups have been allocated for these counts.\<close>

definition rsrc_alloc :: "idpf_q_vec_rsrc \<Rightarrow> bool" where
  "rsrc_alloc r \<longleftrightarrow> rsrc_sizes r = rsrc_sizes (fresh_grps r)"

lemma fresh_sizes: "rsrc_sizes (fresh_grps r) =
    (rsrc_counts r @ [num_txq_grp r, num_rxq_grp r], replicate (num_txq_grp r) (fst (idpf_vport_calc_numq_per_grp r)),
     replicate (num_rxq_grp r) (snd (idpf_vport_calc_numq_per_grp r)),
     replicate (num_rxq_grp r) (if idpf_is_queue_model_split (rxq_model r) then num_bufqs_per_qgrp r else 0))"
  by (simp add: rsrc_sizes_def fresh_grps_def Let_def comp_def split: prod.splits)

lemma sizes_keep:
  assumes "rsrc_sizes r' = rsrc_sizes r"
  shows "rsrc_ok r' = rsrc_ok r" "rsrc_alloc r' = rsrc_alloc r" "idpf_vport_calc_numq_per_grp r' = idpf_vport_calc_numq_per_grp r"
proof -
  have c: "num_txq r' = num_txq r" "num_rxq r' = num_rxq r" "num_complq r' = num_complq r" "num_bufq r' = num_bufq r" "txq_model r' = txq_model r"
    "rxq_model r' = rxq_model r" "num_bufqs_per_qgrp r' = num_bufqs_per_qgrp r" "num_txq_grp r' = num_txq_grp r" "num_rxq_grp r' = num_rxq_grp r"
    using assms by (simp_all add: rsrc_sizes_def)
  show p: "idpf_vport_calc_numq_per_grp r' = idpf_vport_calc_numq_per_grp r" by (simp add: idpf_vport_calc_numq_per_grp_def c)
  show "rsrc_ok r' = rsrc_ok r" by (simp add: rsrc_ok_def c)
  show "rsrc_alloc r' = rsrc_alloc r" unfolding rsrc_alloc_def assms fresh_sizes p c ..
qed

lemma alloc_fresh: "rsrc_alloc (fresh_grps r)" "rsrc_ok (fresh_grps r) = rsrc_ok r"
  by (simp_all add: rsrc_alloc_def fresh_sizes) (simp_all add: fresh_grps_def rsrc_ok_def idpf_vport_calc_numq_per_grp_def Let_def)

lemma grps_of_lengths:
  "(\<And>g k x. length (sel (mk g k x)) = length (get' x)) \<Longrightarrow>
     map (length \<circ> sel) (grps_of get mk g k xs) = map (length \<circ> get') xs"
  by (induction get mk g k xs rule: grps_of.induct) auto

lemma length_vqs_of [simp]: "length (vqs_of attr vec itr k qs) = length qs"
  by (simp add: vqs_of_def)

lemma vc_counts_msgs:
  assumes "rsrc_ok (vp_rsrc vp)" and "rsrc_alloc (vp_rsrc vp)"
  shows "vc_counts (vp_msgs vp)"
proof -
  let ?r = "vp_rsrc vp"
  have l: "map (length \<circ> vg_txqs) (vr_txq_grps (vp_msgs vp)) = map (length \<circ> txqs) (txq_grps ?r)"
    "map (length \<circ> vg_rxqs) (vr_rxq_grps (vp_msgs vp)) = map (length \<circ> rxqs) (rxq_grps ?r)"
    "map (length \<circ> vg_bufqs) (vr_rxq_grps (vp_msgs vp)) = map (length \<circ> bufqs) (rxq_grps ?r)"
    unfolding vp_msgs_def Let_def vc_rsrc.simps by ((rule grps_of_lengths, simp)+)
  have s: "map (length \<circ> txqs) (txq_grps ?r) = replicate (num_txq_grp ?r) (fst (idpf_vport_calc_numq_per_grp ?r))"
    "map (length \<circ> rxqs) (rxq_grps ?r) = replicate (num_rxq_grp ?r) (snd (idpf_vport_calc_numq_per_grp ?r))"
    "map (length \<circ> bufqs) (rxq_grps ?r) = replicate (num_rxq_grp ?r) (if idpf_is_queue_model_split (rxq_model ?r) then num_bufqs_per_qgrp ?r else 0)"
    using assms(2) [unfolded rsrc_alloc_def fresh_sizes] by (simp_all add: rsrc_sizes_def)
  have g: "length (vr_txq_grps (vp_msgs vp)) = num_txq_grp ?r" "length (vr_rxq_grps (vp_msgs vp)) = num_rxq_grp ?r"
    using arg_cong [OF l(1), of length] arg_cong [OF l(2), of length] arg_cong [OF s(1), of length] arg_cong [OF s(2), of length] by simp_all
  have b: "\<forall>x \<in> set (vr_rxq_grps (vp_msgs vp)). num_bufqs_per_qgrp ?r \<le> length (vg_bufqs x)"
  proof
    fix x
    assume "x \<in> set (vr_rxq_grps (vp_msgs vp))"
    then have "length (vg_bufqs x) \<in> set (map (length \<circ> vg_bufqs) (vr_rxq_grps (vp_msgs vp)))" by simp
    then show "num_bufqs_per_qgrp ?r \<le> length (vg_bufqs x)" using assms(1) unfolding l s by (auto simp: rsrc_ok_def split: if_splits)
  qed
  have f: "vr_num_txq (vp_msgs vp) = num_txq ?r" "vr_num_rxq (vp_msgs vp) = num_rxq ?r" "vr_num_complq (vp_msgs vp) = num_complq ?r"
    "vr_num_bufq (vp_msgs vp) = num_bufq ?r" "vr_num_bufqs_per_qgrp (vp_msgs vp) = num_bufqs_per_qgrp ?r" "vr_txq_model (vp_msgs vp) = txq_model ?r"
    "vr_rxq_model (vp_msgs vp) = rxq_model ?r" by (simp_all add: vp_msgs_def Let_def)
  show ?thesis unfolding vc_counts_def f l s g using assms(1) b
    by (auto simp: rsrc_ok_def idpf_vport_calc_numq_per_grp_def sum_list_replicate split: if_splits)
qed

section \<open>States of a vport\<close>

definition qm_slots :: "qmem \<Rightarrow> ptr multiset" where
  "qm_slots r = tx_slots r + (rx_slots r + slot (qm_txqs r))"

definition qm_dmas :: "qmem \<Rightarrow> ptr multiset" where
  "qm_dmas r = tx_dmas r + rx_dmas r"

lemma qm_zero [simp]: "qm_slots qmem_zero = {#}" "qm_dmas qmem_zero = {#}"
  by (simp_all add: qm_slots_def qm_dmas_def qmem_zero_def tx_slots_def tx_dmas_def rx_slots_def rx_dmas_def)

lemma qm_account_holds: "qm_account b r w \<longleftrightarrow> holds b (qm_slots r) (qm_dmas r) w"
  by (simp add: qm_account_def qm_slots_def qm_dmas_def)

definition mem_ok :: "qparams \<Rightarrow> qmem \<Rightarrow> bool" where
  "mem_ok qp r \<longleftrightarrow> tx_all (tg_ok qp) r \<and> rx_all (rg_ok qp) r"

text \<open>All memory of the vport is accounted for; its configuration makes sense.\<close>

definition vp_acct :: "idpf_world \<Rightarrow> vport \<Rightarrow> bool" where
  "vp_acct w0 vp \<longleftrightarrow> rss_wf (vp_rss vp) \<and> rsrc_ok (vp_rsrc vp) \<and> vp_chunks vp \<noteq> [] \<and> num_xdp_rxq (vp_xdp vp) = 0 \<and>
     holds w0 (in_slots (vp_intr vp) + (qm_slots (vp_mem vp) + rss_slots (vp_rss vp))) (qm_dmas (vp_mem vp)) (vp_world vp)"

definition vecs_in :: "(idpf_q_vector \<Rightarrow> bool) \<Rightarrow> vport \<Rightarrow> bool" where
  "vecs_in Q vp \<longleftrightarrow> (\<forall>v \<in> set (in_vecs (vp_intr vp)). Q v)"

definition vp_closed :: "idpf_world \<Rightarrow> vport \<Rightarrow> bool" where
  "vp_closed w0 vp \<longleftrightarrow> vp_acct w0 vp \<and> in_arr (vp_intr vp) = NULL \<and> in_vecs (vp_intr vp) = [] \<and> vp_mem vp = qmem_zero"

definition vp_running :: "idpf_world \<Rightarrow> vport \<Rightarrow> bool" where
  "vp_running w0 vp \<longleftrightarrow> vp_acct w0 vp \<and> rsrc_alloc (vp_rsrc vp) \<and> mem_ok (vp_qp vp) (vp_mem vp) \<and> vecs_in (\<lambda>v. iv_napi v = Napi_enabled) vp"

text \<open>What no call below changes.\<close>

definition vp_flags :: "vport \<Rightarrow> bool \<times> bool" where
  "vp_flags vp = (vp_up vp, vp_carrier vp)"

lemma set_world_simps [simp]:
  "vp_world (set_world w vp) = w" "vp_world (vp\<lparr>vp_st := s\<rparr>) = vs_world s" "vp_world (vp\<lparr>vp_intr := i\<rparr>) = vp_world vp"
  "vp_world (vp\<lparr>vp_mem := r\<rparr>) = vp_world vp" "vp_world (vp\<lparr>vp_rsrc := q\<rparr>) = vp_world vp" "vp_world (vp\<lparr>vp_mark := m\<rparr>) = vp_world vp"
  "vp_world (vp\<lparr>vp_rss := rd\<rparr>) = vp_world vp" "vp_world (vp\<lparr>vp_mac := mc\<rparr>) = vp_world vp"
  "vp_intr (set_world w vp) = vp_intr vp" "vp_mem (set_world w vp) = vp_mem vp" "vp_rsrc (set_world w vp) = vp_rsrc vp"
  "vp_rss (set_world w vp) = vp_rss vp" "vp_chunks (set_world w vp) = vp_chunks vp" "vp_xdp (set_world w vp) = vp_xdp vp"
  by (simp_all add: vp_world_def set_world_def)

lemma vp_flags_simps [simp]:
  "vp_flags (set_world w vp) = vp_flags vp" "vp_flags (vp\<lparr>vp_st := s\<rparr>) = vp_flags vp" "vp_flags (vp\<lparr>vp_intr := i\<rparr>) = vp_flags vp"
  "vp_flags (vp\<lparr>vp_mem := r\<rparr>) = vp_flags vp" "vp_flags (vp\<lparr>vp_rsrc := q\<rparr>) = vp_flags vp" "vp_flags (vp\<lparr>vp_mark := m\<rparr>) = vp_flags vp"
  "vp_flags (vp\<lparr>vp_rss := rd\<rparr>) = vp_flags vp" "vp_flags (vp\<lparr>vp_mac := mc\<rparr>) = vp_flags vp"
  by (simp_all add: vp_flags_def set_world_def)

lemma vp_qp_simps [simp]:
  "vp_qp (set_world w vp) = vp_qp vp" "vp_qp (vp\<lparr>vp_st := s\<rparr>) = vp_qp vp" "vp_qp (vp\<lparr>vp_intr := i\<rparr>) = vp_qp vp"
  "vp_qp (vp\<lparr>vp_mem := r\<rparr>) = vp_qp vp" "vp_qp (vp\<lparr>vp_mark := m\<rparr>) = vp_qp vp" "vp_qp (vp\<lparr>vp_rss := rd\<rparr>) = vp_qp vp"
  "vp_qp (vp\<lparr>vp_mac := mc\<rparr>) = vp_qp vp"
  by (simp_all add: vp_qp_def set_world_def Let_def)

lemma vp_qp_sizes:
  assumes "rsrc_sizes r = rsrc_sizes (vp_rsrc vp) \<or> r = fresh_grps (vp_rsrc vp)"
  shows "vp_qp (vp\<lparr>vp_rsrc := r\<rparr>) = vp_qp vp"
proof -
  have "rsrc_counts r @ [num_txq_grp r, num_rxq_grp r] = rsrc_counts (vp_rsrc vp) @ [num_txq_grp (vp_rsrc vp), num_rxq_grp (vp_rsrc vp)]"
    using assms fresh_sizes [of "vp_rsrc vp"] by (auto simp: rsrc_sizes_def)
  then show ?thesis by (simp add: vp_qp_def Let_def idpf_vport_calc_numq_per_grp_def)
qed

subsection \<open>Giving back\<close>

lemma intr_rel_closed:
  assumes "vp_acct w0 vp" and "vecs_in vec_idle vp" and "vp_mem vp = qmem_zero"
  shows "vp_closed w0 (vp_intr_rel vp) \<and> vp_flags (vp_intr_rel vp) = vp_flags vp"
proof -
  obtain i w where r: "idpf_vport_intr_rel (vp_intr vp) (vp_world vp) = (i, w)" by fastforce
  have "holds w0 (in_slots (vp_intr vp) + rss_slots (vp_rss vp)) {#} (vp_world vp)" using assms(1,3) by (simp add: vp_acct_def)
  from intr_rel_holds [OF _ this r] assms(2)
  have "holds w0 (rss_slots (vp_rss vp)) {#} w" "i = (vp_intr vp)\<lparr>in_arr := NULL, in_vecs := []\<rparr>" by (auto simp: vecs_in_def vec_idle_def)
  then show ?thesis using assms(1,3) by (simp add: vp_intr_rel_def r vp_closed_def vp_acct_def in_slots_def)
qed

lemma queues_rel_idle:
  assumes "vp_acct w0 vp" and "vecs_in vec_idle vp" and "mem_ok (vp_qp vp) (vp_mem vp)"
  shows "\<exists>vp'. vp_queues_rel vp = Some vp' \<and> vp_acct w0 vp' \<and> vecs_in vec_idle vp' \<and> vp_mem vp' = qmem_zero \<and> vp_flags vp' = vp_flags vp"
proof -
  have "holds w0 (qm_slots (vp_mem vp) + (in_slots (vp_intr vp) + rss_slots (vp_rss vp))) (qm_dmas (vp_mem vp) + {#}) (vp_world vp)"
    using assms(1) by (simp add: vp_acct_def ac_simps)
  from holds_split [OF this] obtain b where b: "holds w0 (in_slots (vp_intr vp) + rss_slots (vp_rss vp)) {#} b" "qm_account b (vp_mem vp) (vp_world vp)"
    by (auto simp: qm_account_holds)
  from queues_rel_all [OF _ _ b(2)] assms(3)
  obtain w where w: "idpf_vport_queues_rel (vp_qp vp) (vp_mem vp) (vp_world vp) = Some (qmem_zero, w)" "owns b {} {} w" by (auto simp: mem_ok_def)
  show ?thesis using assms holds_owns [OF b(1) w(2)] w(1) by (simp add: vp_queues_rel_def vp_acct_def vecs_in_def)
qed

lemma intr_deinit_idle:
  assumes "vp_running w0 vp"
  shows "\<exists>vp'. vp_intr_deinit vp = Some vp' \<and> vp_acct w0 vp' \<and> vecs_in vec_idle vp' \<and> mem_ok (vp_qp vp') (vp_mem vp') \<and> vp_flags vp' = vp_flags vp"
proof -
  have "holds w0 (in_slots (vp_intr vp) + (qm_slots (vp_mem vp) + rss_slots (vp_rss vp))) (qm_dmas (vp_mem vp)) (vp_world vp)"
    "\<forall>v \<in> set (in_vecs (vp_intr vp)). iv_napi v = Napi_enabled" using assms by (simp_all add: vp_running_def vp_acct_def vecs_in_def)
  from intr_deinit_holds [OF this(2,1)] assms show ?thesis by (auto simp: vp_intr_deinit_def vp_running_def vp_acct_def vecs_in_def)
qed

text \<open>Every label behind \<open>idpf_vport_open\<close> leads to a closed vport and returns the error.\<close>

lemma err_intr_rel_closed:
  "vp_acct w0 vp \<Longrightarrow> vecs_in vec_idle vp \<Longrightarrow> vp_mem vp = qmem_zero \<Longrightarrow>
     \<exists>vp'. err_intr_rel err vp = Some (err, vp') \<and> vp_closed w0 vp' \<and> vp_flags vp' = vp_flags vp"
  using intr_rel_closed by (simp add: err_intr_rel_def)

lemma err_queues_rel_closed:
  assumes "vp_acct w0 vp" and "vecs_in vec_idle vp" and "mem_ok (vp_qp vp) (vp_mem vp)"
  shows "\<exists>vp'. err_queues_rel err vp = Some (err, vp') \<and> vp_closed w0 vp' \<and> vp_flags vp' = vp_flags vp"
proof -
  obtain vp1 where "vp_queues_rel vp = Some vp1" "vp_acct w0 vp1" "vecs_in vec_idle vp1" "vp_mem vp1 = qmem_zero" "vp_flags vp1 = vp_flags vp"
    using queues_rel_idle [OF assms] by blast
  then show ?thesis using err_intr_rel_closed [of w0 vp1 err] by (simp add: err_queues_rel_def)
qed

lemma err_intr_deinit_closed:
  assumes "vp_running w0 vp"
  shows "\<exists>vp'. err_intr_deinit err vp = Some (err, vp') \<and> vp_closed w0 vp' \<and> vp_flags vp' = vp_flags vp"
proof -
  obtain vp1 where "vp_intr_deinit vp = Some vp1" "vp_acct w0 vp1" "vecs_in vec_idle vp1" "mem_ok (vp_qp vp1) (vp_mem vp1)" "vp_flags vp1 = vp_flags vp"
    using intr_deinit_idle [OF assms] by blast
  then show ?thesis using err_queues_rel_closed [of w0 vp1 err] by (simp add: err_intr_deinit_def)
qed

subsection \<open>Talking to the device\<close>

text \<open>A call that sends messages: it changes the log, the flags of the queues and the filters, and gives back what it allocates.\<close>

definition vp_talk :: "vport \<Rightarrow> vport \<Rightarrow> bool" where
  "vp_talk vp vp' \<longleftrightarrow> (\<exists>s m c. vp' = vp\<lparr>vp_st := s, vp_mark := m, vp_mac := c\<rparr> \<and> owns (vp_world vp) {} {} (vs_world s))"

lemma talk_st: "owns (vp_world vp) {} {} (vs_world s) \<Longrightarrow> vp_talk vp (vp\<lparr>vp_st := s\<rparr>)"
  unfolding vp_talk_def by (intro exI [of _ s] exI [of _ "vp_mark vp"] exI [of _ "vp_mac vp"]) simp

lemma talk_mark: "owns (vp_world vp) {} {} (vs_world s) \<Longrightarrow> vp_talk vp (vp\<lparr>vp_mark := m, vp_st := s\<rparr>)"
  unfolding vp_talk_def by (intro exI [of _ s] exI [of _ m] exI [of _ "vp_mac vp"]) simp

lemma talk_running:
  assumes "vp_talk vp vp'" and "vp_running w0 vp"
  shows "vp_running w0 vp' \<and> vp_flags vp' = vp_flags vp \<and> vp_DEL_QUEUES vp' = vp_DEL_QUEUES vp"
proof -
  obtain s m c where v: "vp' = vp\<lparr>vp_st := s, vp_mark := m, vp_mac := c\<rparr>" "owns (vp_world vp) {} {} (vs_world s)"
    using assms(1) by (auto simp: vp_talk_def)
  show ?thesis using assms(2) holds_owns [OF _ v(2)] by (simp add: v(1) vp_running_def vp_acct_def vecs_in_def)
qed

lemma queue_chunks_owns: "owns (vs_world s) {} {} (vs_world (snd (vc_send_queue_chunks op cs v s)))"
proof -
  obtain p w where k: "kcalloc (vs_world s) = (p, w)" by fastforce
  have "holds (vs_world s) {#} {#} (kfree p w)"
    using holds_kfree [of "vs_world s" p "{#}" "{#}" w] holds_kcalloc [OF k holds_refl] by simp
  moreover have "p = NULL \<Longrightarrow> kfree p w = w" by (simp add: kfree_def)
  ultimately show ?thesis by (auto simp: vc_send_queue_chunks_def k Let_def vc_exec_def vc_xn_def holds_empty split: prod.splits)
qed

lemma map_vectors_talks:
  assumes "vp_running w0 vp"
  shows "\<exists>err vp'. vp_map_vectors b vp = Some (err, vp') \<and> vp_talk vp vp'"
proof -
  have r: "rsrc_ok (vp_rsrc vp)" "rsrc_alloc (vp_rsrc vp)" using assms by (simp_all add: vp_running_def vp_acct_def)
  have "0 < vr_num_txq (vp_msgs vp) + vr_num_rxq (vp_msgs vp)" using r(1) by (simp add: vp_msgs_def Let_def rsrc_ok_def)
  from map_queue_vectors_sends [OF vc_counts_msgs [OF r] this, of "vp_id vp" b "vp_st vp"]
  obtain err s where s: "idpf_send_map_unmap_queue_vector_msg (vp_msgs vp) (vp_id vp) b (vp_st vp) = Some (err, s)"
    "owns (vp_world vp) {} {} (vs_world s)" by (auto simp: vc_sends_def vp_world_def)
  show ?thesis using s(1) talk_st [OF s(2)] by (simp add: vp_map_vectors_def vp_msg_def)
qed

lemma config_queues_talks:
  assumes "vp_running w0 vp"
  shows "\<exists>err vp'. vp_msg (idpf_send_config_queues_msg (vp_msgs vp) (vp_id vp)) vp = Some (err, vp') \<and> vp_talk vp vp'"
proof -
  have r: "rsrc_ok (vp_rsrc vp)" "rsrc_alloc (vp_rsrc vp)" using assms by (simp_all add: vp_running_def vp_acct_def)
  have n: "0 < vr_num_txq (vp_msgs vp)" "0 < vr_num_rxq (vp_msgs vp)" using r(1) by (simp_all add: vp_msgs_def Let_def rsrc_ok_def)
  note c = vc_counts_msgs [OF r]
  obtain e1 s1 where 1: "idpf_send_config_tx_queues_msg (vp_msgs vp) (vp_id vp) (vp_st vp) = Some (e1, s1)" "owns (vp_world vp) {} {} (vs_world s1)"
    using config_tx [OF c n(1), of "vp_id vp" "vp_st vp"] by (auto simp: vc_sends_def vp_world_def)
  obtain e2 s2 where 2: "idpf_send_config_rx_queues_msg (vp_msgs vp) (vp_id vp) s1 = Some (e2, s2)" "owns (vs_world s1) {} {} (vs_world s2)"
    using config_rx [OF c n(2), of "vp_id vp" s1] by (auto simp: vc_sends_def)
  have "owns (vp_world vp) {} {} (vs_world s2)" using owns_trans(1) [OF 1(2) 2(2)] by simp
  then show ?thesis using 1 2 talk_st [of vp s1] talk_st [of vp s2]
    by (cases e1) (auto simp: vp_msg_def idpf_send_config_queues_msg_def)
qed

lemma enable_queues_talks:
  assumes "vp_running w0 vp"
  shows "\<exists>err vp'. vp_msg (idpf_send_enable_queues_msg (vp_id vp) (vp_chunks vp)) vp = Some (err, vp') \<and> vp_talk vp vp'"
proof -
  obtain err s where q: "vc_send_queue_chunks VIRTCHNL2_OP_ENABLE_QUEUES (vp_chunks vp) (vp_id vp) (vp_st vp) = (err, s)" by fastforce
  have o: "owns (vp_world vp) {} {} (vs_world s)" using queue_chunks_owns [of "vp_st vp"] q by (metis snd_conv vp_world_def)
  have "vp_chunks vp \<noteq> []" using assms by (simp add: vp_running_def vp_acct_def)
  then show ?thesis using talk_st [OF o] q
    by (simp add: vp_msg_def idpf_send_enable_queues_msg_def idpf_send_ena_dis_queues_msg_def)
qed

lemma disable_queues_talks:
  assumes "vp_running w0 vp"
  shows "\<exists>err vp'. vp_disable_queues env vp = Some (err, vp') \<and> vp_talk vp vp'"
proof -
  obtain err s where q: "vc_send_queue_chunks VIRTCHNL2_OP_DISABLE_QUEUES (vp_chunks vp) (vp_id vp) (vp_st vp) = (err, s)" by fastforce
  have o: "owns (vp_world vp) {} {} (vs_world s)" using queue_chunks_owns [of "vp_st vp"] q by (metis snd_conv vp_world_def)
  have "vp_chunks vp \<noteq> []" using assms by (simp add: vp_running_def vp_acct_def)
  then show ?thesis using talk_mark [OF o] talk_st [OF o] q
    by (cases err) (auto simp: vp_disable_queues_def idpf_send_disable_queues_msg_def idpf_send_ena_dis_queues_msg_def split: prod.splits)
qed

lemma enable_vport_talks: "vp_talk vp (snd (vp_enable_vport ena vp))"
  by (auto simp: vp_enable_vport_def idpf_send_enable_vport_msg_def idpf_send_disable_vport_msg_def vc_exec_def vc_xn_def vp_world_def
    intro!: talk_st split: prod.splits)

lemma features_talk: "vp_talk vp (idpf_restore_features vp)" "vp_talk vp (idpf_remove_features vp)"
proof -
  have call: "vp_talk vp (vp_mac_call f vp)" if "\<And>m. owns (mv_world m) {} {} (mv_world (f m))" for f
    using that [of "(vp_mac vp)\<lparr>IDPF_VPORT_UP := vp_up vp, mv_world := vp_world vp\<rparr>"] unfolding vp_talk_def vp_mac_call_def Let_def set_world_def
    by (intro exI [of _ "(vp_st vp)\<lparr>vs_world := mv_world (f ((vp_mac vp)\<lparr>IDPF_VPORT_UP := vp_up vp, mv_world := vp_world vp\<rparr>))\<rparr>"]
      exI [of _ "vp_mark vp"] exI) (simp add: vp_world_def)
  have m: "owns (mv_world m) {} {} (mv_world (idpf_restore_mac_filters m))" "owns (mv_world m) {} {} (mv_world (idpf_remove_mac_filters m))" for m
    using add_del_owns [of "m\<lparr>mac_filter_list := fs\<rparr>" add False for fs add] by (simp_all add: idpf_restore_mac_filters_def idpf_remove_mac_filters_def)
  have "vp_talk vp vp" using talk_st [of vp "vp_st vp"] by (simp add: vp_world_def)
  then show "vp_talk vp (idpf_restore_features vp)" "vp_talk vp (idpf_remove_features vp)"
    using call [OF m(1)] call [OF m(2)] by (simp_all add: idpf_restore_features_def idpf_remove_features_def)
qed

lemma rss_setup_running:
  assumes "vp_running w0 vp"
  shows "\<exists>err vp'. vp_rss_setup vp = Some (err, vp') \<and> vp_running w0 vp' \<and> vp_flags vp' = vp_flags vp"
proof -
  let ?P = "in_slots (vp_intr vp) + qm_slots (vp_mem vp)"
  have a: "vp_acct w0 vp" "rss_wf (vp_rss vp)" using assms by (simp_all add: vp_running_def vp_acct_def)
  have "holds w0 (rss_slots (vp_rss vp) + ?P) ({#} + qm_dmas (vp_mem vp)) (vp_world vp)" using a(1) by (simp add: vp_acct_def ac_simps)
  from holds_split [OF this] obtain b where b: "holds w0 ?P (qm_dmas (vp_mem vp)) b" "rss_inv b (vp_rss vp) (vp_st vp)"
    using a(2) by (auto simp: rss_inv_holds vp_world_def)
  have n: "0 < num_rxq (vp_rsrc vp)" "num_rxq (vp_rsrc vp) < 65536" "num_xdp_rxq (vp_xdp vp) = 0" using a(1) by (simp_all add: vp_acct_def rsrc_ok_def)
  have "\<exists>err rd s. vp_rss_setup vp = Some (err, vp\<lparr>vp_rss := rd, vp_st := s\<rparr>) \<and> rss_inv b rd s"
  proof (cases "fst (rss_lut (vp_rss vp)) = NULL")
    case True
    obtain err rd s where i: "idpf_init_rss (Some (vp_rxhash vp)) (vp_id vp) (xdp_prog (vp_cfg vp)) (num_rxq (vp_rsrc vp)) 0 (vp_rss vp) (vp_st vp) = Some (err, rd, s)"
      "rss_inv b rd s" using init_rss_inv [OF b(2) True n(1,2), of "vp_rxhash vp" "vp_id vp" "xdp_prog (vp_cfg vp)"] by blast
    then show ?thesis using True n(3) by (intro exI [of _ err] exI [of _ rd] exI [of _ s]) (simp add: vp_rss_setup_def)
  next
    case False
    obtain err s where i: "idpf_config_rss (Some (vp_rxhash vp)) (vp_id vp) (vp_rss vp) (vp_st vp) = Some (err, vp_rss vp, s)" "rss_inv b (vp_rss vp) s"
      using config_rss_inv [OF b(2) False, of "vp_rxhash vp" "vp_id vp"] by blast
    then show ?thesis using False by (intro exI [of _ err] exI [of _ "vp_rss vp"] exI [of _ s]) (simp add: vp_rss_setup_def)
  qed
  then obtain err rd s where r: "vp_rss_setup vp = Some (err, vp\<lparr>vp_rss := rd, vp_st := s\<rparr>)" "rss_wf rd" "holds b (rss_slots rd) {#} (vs_world s)"
    by (auto simp: rss_inv_holds)
  from holds_trans [OF b(1) r(3)] have "vp_running w0 (vp\<lparr>vp_rss := rd, vp_st := s\<rparr>)"
    using assms r(2) by (simp add: vp_running_def vp_acct_def vecs_in_def ac_simps)
  then show ?thesis using r(1) by auto
qed

lemma err_unmap_closed:
  assumes "vp_running w0 vp"
  shows "\<exists>vp'. err_unmap_queue_vectors err vp = Some (err, vp') \<and> vp_closed w0 vp' \<and> vp_flags vp' = vp_flags vp"
proof -
  obtain e vp1 where "vp_map_vectors False vp = Some (e, vp1)" "vp_talk vp vp1" using map_vectors_talks [OF assms] by blast
  then show ?thesis using talk_running [OF _ assms] err_intr_deinit_closed [of w0 vp1 err] by (auto simp: err_unmap_queue_vectors_def)
qed

lemma err_disable_queues_closed:
  assumes "vp_running w0 vp"
  shows "\<exists>vp'. err_disable_queues env err vp = Some (err, vp') \<and> vp_closed w0 vp' \<and> vp_flags vp' = vp_flags vp"
proof -
  obtain e vp1 where "vp_disable_queues env vp = Some (e, vp1)" "vp_talk vp vp1" using disable_queues_talks [OF assms] by blast
  then show ?thesis using talk_running [OF _ assms] err_unmap_closed [of w0 vp1 err] by (auto simp: err_disable_queues_def)
qed

lemma err_disable_vport_closed:
  assumes "vp_running w0 vp"
  shows "\<exists>vp'. err_disable_vport env err vp = Some (err, vp') \<and> vp_closed w0 vp' \<and> vp_flags vp' = vp_flags vp"
  using talk_running [OF enable_vport_talks assms, of False] err_disable_queues_closed [of w0 "snd (vp_enable_vport False vp)" env err]
  by (simp add: err_disable_vport_def)

section \<open>Opening and stopping\<close>

text \<open>Once the vectors are enabled, opening returns: with the vport up, or closed with the error.\<close>

lemma open_start_returns:
  assumes run: "vp_running w0 vp"
  shows "\<exists>err vp'. open_start env vp = Some (err, vp') \<and>
    (if err = ret_ok then vp_running w0 vp' \<and> vp_up vp' else vp_closed w0 vp' \<and> vp_flags vp' = vp_flags vp)"
proof -
  obtain e1 vp1 where 1: "vp_msg (idpf_send_config_queues_msg (vp_msgs vp) (vp_id vp)) vp = Some (e1, vp1)" "vp_talk vp vp1"
    using config_queues_talks [OF run] by blast
  note r1 = talk_running [OF 1(2) run]
  obtain e2 vp2 where 2: "vp_map_vectors True vp1 = Some (e2, vp2)" "vp_talk vp1 vp2" using map_vectors_talks [of w0 vp1 True] r1 by blast
  have r2: "vp_running w0 vp2" "vp_flags vp2 = vp_flags vp" using talk_running [OF 2(2)] r1 by auto
  obtain e3 vp3 where 3: "vp_msg (idpf_send_enable_queues_msg (vp_id vp2) (vp_chunks vp2)) vp2 = Some (e3, vp3)" "vp_talk vp2 vp3"
    using enable_queues_talks [OF r2(1)] by blast
  have r3: "vp_running w0 vp3" "vp_flags vp3 = vp_flags vp" using talk_running [OF 3(2) r2(1)] r2 by auto
  obtain e4 vp4 where 4: "vp_enable_vport True vp3 = (e4, vp4)" by fastforce
  have r4: "vp_running w0 vp4" "vp_flags vp4 = vp_flags vp" using talk_running [OF enable_vport_talks r3(1), of True] r3 4 by auto
  have r5: "vp_running w0 (idpf_restore_features vp4)" "vp_flags (idpf_restore_features vp4) = vp_flags vp"
    using talk_running [OF features_talk(1) r4(1)] r4 by auto
  obtain e6 vp6 where 6: "vp_rss_setup (idpf_restore_features vp4) = Some (e6, vp6)" "vp_running w0 vp6" "vp_flags vp6 = vp_flags vp"
    using rss_setup_running [OF r5(1)] r5(2) by auto
  define vp7 where "vp7 = snd (idpf_up_complete vp6)"
  have up: "vp_running w0 vp7" "vp_up vp7"
    using 6(2) by (auto simp: vp7_def idpf_up_complete_def vp_running_def vp_acct_def vecs_in_def vp_qp_def vp_world_def Let_def)
  have run: "open_start env vp =
    (if e1 \<noteq> ret_ok then err_intr_deinit e1 vp1 else if e2 \<noteq> ret_ok then err_intr_deinit e2 vp2
     else if e3 \<noteq> ret_ok then err_unmap_queue_vectors e3 vp3 else if e4 \<noteq> ret_ok then err_disable_queues env (Some EAGAIN) vp4
     else if e6 \<noteq> ret_ok then err_disable_vport env e6 vp6 else Some (ret_ok, vp7))"
    by (simp add: open_start_def 1(1) 2(1) 3(1) 4 6(1) vp7_def idpf_up_complete_def)
  show ?thesis
    unfolding run
    using err_intr_deinit_closed [of w0 vp1 e1] err_intr_deinit_closed [of w0 vp2 e2] err_unmap_closed [OF r3(1), of e3]
      err_disable_queues_closed [OF r4(1), of env "Some EAGAIN"] err_disable_vport_closed [OF 6(2), of env e6] r1 r2 r3 r4 6(3) up
    by (simp split del: if_split) (auto split: if_splits)
qed

text \<open>The part before may not return; if it does, the vectors are enabled or the vport is closed again.\<close>

lemma intr_alloc_step:
  assumes "vp_closed w0 vp" and "vp_intr_alloc vp = Some (err, vp')"
  shows "vp_acct w0 vp' \<and> vecs_in vec_idle vp' \<and> vp_mem vp' = qmem_zero \<and> vp_flags vp' = vp_flags vp \<and> (err \<noteq> ret_ok \<longrightarrow> vp_closed w0 vp')"
proof -
  obtain i w where a: "idpf_vport_intr_alloc (vp_qp vp) (vp_ip vp) (vp_intr vp) (vp_world vp) = Some (err, i, w)" "vp' = (set_world w vp)\<lparr>vp_intr := i\<rparr>"
    using assms(2) by (auto simp: vp_intr_alloc_def bind_eq_Some_conv)
  have "holds w0 (rss_slots (vp_rss vp)) {#} (vp_world vp)" using assms(1) by (auto simp: vp_closed_def vp_acct_def in_slots_def)
  from intr_alloc_holds [OF a(1) this] show ?thesis using assms(1) by (auto simp: a(2) vp_closed_def vp_acct_def vecs_in_def)
qed

lemma queue_alloc_step:
  assumes "vp_acct w0 vp" and "vecs_in vec_idle vp" and "vp_mem vp = qmem_zero" and "vp_queue_alloc_all vp = Some (err, vp')"
  shows "vp_acct w0 vp' \<and> vecs_in vec_idle vp' \<and> vp_flags vp' = vp_flags vp \<and> rsrc_alloc (vp_rsrc vp') \<and>
    (if err = ret_ok then tx_all (tg_ok (vp_qp vp')) (vp_mem vp') \<and> rx_all (rg_nobuf (vp_qp vp')) (vp_mem vp') else vp_mem vp' = qmem_zero)"
proof -
  define m where "m = (vp_mark vp)\<lparr>mk_txqs := replicate (num_txq (vp_rsrc vp)) \<lparr>tf_POLL_MODE = False, tf_SW_MARKER = False\<rparr>\<rparr>"
  obtain r w where a: "idpf_vport_queue_alloc_all (vp_qp vp) qmem_zero (vp_world vp) = Some (err, r, w)"
      "vp' = (set_world w vp)\<lparr>vp_mem := r, vp_rsrc := fresh_grps (vp_rsrc vp), vp_mark := m\<rparr>"
    using assms(3,4) by (auto simp: vp_queue_alloc_all_def bind_eq_Some_conv m_def)
  have "idpf_vport_queue_grp_alloc_all (vp_qp vp) qmem_zero (vp_world vp) \<noteq> None"
  proof
    assume "idpf_vport_queue_grp_alloc_all (vp_qp vp) qmem_zero (vp_world vp) = None"
    then show False using a(1) by (simp add: idpf_vport_queue_alloc_all_def)
  qed
  then obtain g where "idpf_vport_queue_grp_alloc_all (vp_qp vp) qmem_zero (vp_world vp) = Some g" by blast
  then have q: "if err = ret_ok then qm_account (vp_world vp) r w \<and> tx_all (tg_ok (vp_qp vp)) r \<and> rx_all (rg_nobuf (vp_qp vp)) r
      else r = qmem_zero \<and> owns (vp_world vp) {} {} w"
    using queue_alloc_all [of "vp_qp vp" "vp_world vp" "fst g" "fst (snd g)" "snd (snd g)"] a(1) by auto
  have h: "holds w0 (in_slots (vp_intr vp) + rss_slots (vp_rss vp)) {#} (vp_world vp)" using assms(1,3) by (simp add: vp_acct_def)
  have "holds w0 (in_slots (vp_intr vp) + (qm_slots r + rss_slots (vp_rss vp))) (qm_dmas r) w"
    using q holds_trans [OF h, of "qm_slots r" "qm_dmas r" w] holds_owns [OF h, of w] by (cases "err = ret_ok") (simp_all add: qm_account_holds ac_simps)
  moreover have "vp_qp vp' = vp_qp vp" unfolding a(2) using vp_qp_sizes [of "fresh_grps (vp_rsrc vp)" "(set_world w vp)\<lparr>vp_mem := r\<rparr>"] by simp
  ultimately show ?thesis using assms(1,2) q alloc_fresh by (cases "err = ret_ok") (auto simp: a(2) vp_acct_def vecs_in_def)
qed

text \<open>Ids and registers: only the groups change, not their sizes.\<close>

definition vp_ids :: "vport \<Rightarrow> vport \<Rightarrow> bool" where
  "vp_ids vp vp' \<longleftrightarrow> (\<exists>w r. vp' = (set_world w vp)\<lparr>vp_rsrc := r\<rparr> \<and> owns (vp_world vp) {} {} w \<and> rsrc_sizes r = rsrc_sizes (vp_rsrc vp))"

lemma ids_steps: "vp_ids vp (snd (vp_queue_ids_init vp))" "vp_ids vp (snd (vp_queue_reg_init vp))"
proof -
  obtain p w where k: "kcalloc (vp_world vp) = (p, w)" by fastforce
  have "owns (vp_world vp) {} {} (kfree p w)"
    using holds_kfree [of "vp_world vp" p "{#}" "{#}" w] holds_kcalloc [OF k holds_refl] by (simp add: holds_empty)
  then show "vp_ids vp (snd (vp_queue_ids_init vp))" "vp_ids vp (snd (vp_queue_reg_init vp))"
    using queue_ids_sizes [of "p \<noteq> NULL" "vp_rsrc vp" "vp_chunks vp"] queue_regs_sizes [of "p \<noteq> NULL" "vp_rsrc vp" "vp_chunks vp"]
    by (auto simp: vp_ids_def vp_queue_ids_init_def vp_queue_reg_init_def k split: prod.splits) blast+
qed

lemma ids_keep:
  assumes "vp_ids vp vp'"
  shows "vp_acct w0 vp \<Longrightarrow> vp_acct w0 vp'" "rsrc_alloc (vp_rsrc vp') = rsrc_alloc (vp_rsrc vp)" "vecs_in Q vp' = vecs_in Q vp"
    "vp_qp vp' = vp_qp vp" "vp_mem vp' = vp_mem vp" "vp_flags vp' = vp_flags vp"
proof -
  obtain w r where v: "vp' = (set_world w vp)\<lparr>vp_rsrc := r\<rparr>" "owns (vp_world vp) {} {} w" "rsrc_sizes r = rsrc_sizes (vp_rsrc vp)"
    using assms by (auto simp: vp_ids_def)
  show "vp_acct w0 vp \<Longrightarrow> vp_acct w0 vp'" using holds_owns [OF _ v(2)] sizes_keep(1) [OF v(3)] by (simp add: v(1) vp_acct_def)
  show "rsrc_alloc (vp_rsrc vp') = rsrc_alloc (vp_rsrc vp)" using sizes_keep(2) [OF v(3)] by (simp add: v(1))
  show "vp_qp vp' = vp_qp vp" using vp_qp_sizes [of r "set_world w vp"] v(3) by (simp add: v(1))
  show "vecs_in Q vp' = vecs_in Q vp" "vp_mem vp' = vp_mem vp" "vp_flags vp' = vp_flags vp" by (simp_all add: v(1) vecs_in_def)
qed

lemma intr_init_step:
  assumes "vp_acct w0 vp" and "vecs_in vec_idle vp" and "vp_intr_init vp = Some (err, vp')"
  shows "vp_acct w0 vp' \<and> vp_rsrc vp' = vp_rsrc vp \<and> vp_qp vp' = vp_qp vp \<and> vp_mem vp' = vp_mem vp \<and> vp_flags vp' = vp_flags vp \<and>
    (err \<noteq> ret_ok \<longrightarrow> vecs_in vec_idle vp')"
proof -
  obtain i w where a: "idpf_vport_intr_init (vp_qp vp) (vp_ip vp) (vp_intr vp) (vp_world vp) = Some (err, i, w)" "vp' = (set_world w vp)\<lparr>vp_intr := i\<rparr>"
    using assms(3) by (auto simp: vp_intr_init_def bind_eq_Some_conv)
  have "holds w0 (in_slots (vp_intr vp) + (qm_slots (vp_mem vp) + rss_slots (vp_rss vp))) (qm_dmas (vp_mem vp)) (vp_world vp)"
    "\<forall>v \<in> set (in_vecs (vp_intr vp)). vec_idle v" using assms(1,2) by (simp_all add: vp_acct_def vecs_in_def)
  from intr_init_holds [OF a(1) this(2,1)] show ?thesis using assms(1) by (auto simp: a(2) vp_acct_def vecs_in_def)
qed

lemma rx_bufs_step:
  assumes "vp_acct w0 vp" and "tx_all (tg_ok (vp_qp vp)) (vp_mem vp)" and "rx_all (rg_nobuf (vp_qp vp)) (vp_mem vp)" and "vp_rx_bufs_init_all vp = (err, vp')"
  shows "vp_acct w0 vp' \<and> vp_rsrc vp' = vp_rsrc vp \<and> vp_intr vp' = vp_intr vp \<and> vp_flags vp' = vp_flags vp \<and> mem_ok (vp_qp vp') (vp_mem vp')"
proof -
  obtain r w where a: "idpf_rx_bufs_init_all (vp_qp vp) (vp_mem vp) (vp_world vp) = (err, r, w)" "vp' = (set_world w vp)\<lparr>vp_mem := r\<rparr>"
    using assms(4) by (auto simp: vp_rx_bufs_init_all_def split: prod.splits)
  have "holds w0 (qm_slots (vp_mem vp) + (in_slots (vp_intr vp) + rss_slots (vp_rss vp))) (qm_dmas (vp_mem vp) + {#}) (vp_world vp)"
    using assms(1) by (simp add: vp_acct_def ac_simps)
  from holds_frame [OF this, of "qm_slots r" "qm_dmas r" w] rx_bufs_init_all_holds [OF assms(3) a(1)]
  have "holds w0 (qm_slots r + (in_slots (vp_intr vp) + rss_slots (vp_rss vp))) (qm_dmas r) w" by (simp add: qm_account_holds)
  moreover obtain b where "qm_account b (vp_mem vp) (vp_world vp)"
    using holds_split \<open>holds w0 (qm_slots (vp_mem vp) + _) _ _\<close> by (metis qm_account_holds)
  note rx_bufs_init_all_holds [OF assms(3) a(1) this]
  ultimately show ?thesis using assms(1,2) by (simp add: a(2) vp_acct_def mem_ok_def tx_all_def ac_simps)
qed

text \<open>Releasing vectors that are not enabled does not return, so that whoever returns had them enabled.\<close>

lemma err_intr_deinit_returned:
  assumes "vp_acct w0 vp" and "rsrc_alloc (vp_rsrc vp)" and "mem_ok (vp_qp vp) (vp_mem vp)" and "err_intr_deinit err vp = Some (err', vp')"
  shows "err' = err \<and> vp_closed w0 vp' \<and> vp_flags vp' = vp_flags vp"
proof -
  have "vp_intr_deinit vp \<noteq> None" using assms(4) by (cases "vp_intr_deinit vp") (simp_all add: err_intr_deinit_def)
  then have "vecs_in (\<lambda>v. iv_napi v = Napi_enabled) vp"
    using intr_deinit_waits [of _ "vp_intr vp" "vp_world vp"]
    by (cases "idpf_vport_intr_deinit (vp_intr vp) (vp_world vp)") (auto simp: vp_intr_deinit_def vecs_in_def)
  then show ?thesis using err_intr_deinit_closed [of w0 vp err] assms by (auto simp: vp_running_def)
qed

lemma open_setup_rings:
  assumes a: "vp_acct w0 vp" "rsrc_alloc (vp_rsrc vp)" "tx_all (tg_ok (vp_qp vp)) (vp_mem vp)" "rx_all (rg_nobuf (vp_qp vp)) (vp_mem vp)"
    and run: "(case vp_queue_reg_init vp of (err, vp) \<Rightarrow>
          if err \<noteq> ret_ok then err_intr_deinit err vp else
          (case vp_rx_bufs_init_all vp of (err, vp) \<Rightarrow>
          if err \<noteq> ret_ok then err_intr_deinit err vp else Some (ret_ok, vp_intr_ena vp))) = Some (err, vp')"
  shows "vp_flags vp' = vp_flags vp \<and> (if err = ret_ok then vp_running w0 vp' else vp_closed w0 vp')"
proof -
  have ok: "rx_all (rg_nobuf qp) r \<Longrightarrow> rx_all (rg_ok qp) r" for qp r by (auto simp: rx_all_def rg_nobuf_def)
  obtain e5 v5 where 5: "vp_queue_reg_init vp = (e5, v5)" by fastforce
  note k5 = ids_keep [OF ids_steps(2) [of vp, unfolded 5 snd_conv]]
  have m5: "mem_ok (vp_qp v5) (vp_mem v5)" using a k5 ok by (simp add: mem_ok_def)
  show ?thesis
  proof (cases "e5 = ret_ok")
    case False
    then have "err_intr_deinit e5 v5 = Some (err, vp')" using run by (simp add: 5)
    from err_intr_deinit_returned [OF k5(1) [OF a(1)] _ m5 this] show ?thesis using False a(2) k5 by auto
  next
    case True
    obtain e6 v6 where 6: "vp_rx_bufs_init_all v5 = (e6, v6)" by fastforce
    have s6: "vp_acct w0 v6 \<and> vp_rsrc v6 = vp_rsrc v5 \<and> vp_intr v6 = vp_intr v5 \<and> vp_flags v6 = vp_flags v5 \<and> mem_ok (vp_qp v6) (vp_mem v6)"
      using a k5 by (intro rx_bufs_step [OF k5(1) _ _ 6]) simp_all
    show ?thesis
    proof (cases "e6 = ret_ok")
      case False
      then have "err_intr_deinit e6 v6 = Some (err, vp')" using run True by (simp add: 5 6)
      from err_intr_deinit_returned [OF _ _ _ this] show ?thesis using False s6 k5 a(2) by auto
    next
      case e6: True
      then have "vp' = vp_intr_ena v6" "err = ret_ok" using run True by (simp_all add: 5 6)
      then show ?thesis using s6 k5(2,6) a(2) intr_ena_holds [of "vp_intr v6"] by (auto simp: vp_intr_ena_def vp_running_def vp_acct_def vecs_in_def)
    qed
  qed
qed

lemma open_setup_ok:
  assumes "vp_closed w0 vp" and run: "open_setup vp = Some (err, vp')"
  shows "vp_flags vp' = vp_flags vp \<and> (if err = ret_ok then vp_running w0 vp' else vp_closed w0 vp')"
proof -
  have ok: "tx_all (tg_ok qp) r \<Longrightarrow> rx_all (rg_nobuf qp) r \<Longrightarrow> mem_ok qp r" for qp r by (auto simp: mem_ok_def rx_all_def rg_nobuf_def)
  obtain e1 v1 where 1: "vp_intr_alloc vp = Some (e1, v1)" using run by (cases "vp_intr_alloc vp") (auto simp: open_setup_def)
  note s1 = intr_alloc_step [OF assms(1) 1]
  show ?thesis
  proof (cases "e1 = ret_ok")
    case True
    obtain e2 v2 where 2: "vp_queue_alloc_all v1 = Some (e2, v2)" using run True by (cases "vp_queue_alloc_all v1") (auto simp: open_setup_def 1)
    have s2: "vp_acct w0 v2 \<and> vecs_in vec_idle v2 \<and> vp_flags v2 = vp_flags v1 \<and> rsrc_alloc (vp_rsrc v2) \<and>
      (if e2 = ret_ok then tx_all (tg_ok (vp_qp v2)) (vp_mem v2) \<and> rx_all (rg_nobuf (vp_qp v2)) (vp_mem v2) else vp_mem v2 = qmem_zero)"
      using s1 by (intro queue_alloc_step [OF _ _ _ 2]) simp_all
    show ?thesis
    proof (cases "e2 = ret_ok")
      case e2: True
      obtain e3 v3 where 3: "vp_queue_ids_init v2 = (e3, v3)" by fastforce
      note k3 = ids_keep [OF ids_steps(1) [of v2, unfolded 3 snd_conv]]
      have m3: "vp_acct w0 v3" "vecs_in vec_idle v3" "mem_ok (vp_qp v3) (vp_mem v3)" using k3 s2 e2 ok by simp_all
      show ?thesis
      proof (cases "e3 = ret_ok")
        case e3: True
        obtain e4 v4 where 4: "vp_intr_init v3 = Some (e4, v4)" using run True e2 e3 by (cases "vp_intr_init v3") (auto simp: open_setup_def 1 2 3)
        note s4 = intr_init_step [OF m3(1,2) 4]
        show ?thesis
        proof (cases "e4 = ret_ok")
          case e4: True
          have "vp_flags vp' = vp_flags v4 \<and> (if err = ret_ok then vp_running w0 vp' else vp_closed w0 vp')"
            using run True e2 e3 e4 s4 s2 k3 by (intro open_setup_rings) (simp_all add: open_setup_def 1 2 3 4)
          then show ?thesis using s1 s2 k3 s4 by simp
        next
          case False
          then show ?thesis using run True e2 e3 err_queues_rel_closed [of w0 v4 e4] s1 s2 s4 k3 m3 by (auto simp: open_setup_def 1 2 3 4)
        qed
      next
        case False
        then show ?thesis using run True e2 err_queues_rel_closed [OF m3, of e3] s1 s2 k3 by (auto simp: open_setup_def 1 2 3)
      qed
    next
      case False
      then show ?thesis using run True err_intr_rel_closed [of w0 v2 e2] s1 s2 by (auto simp: open_setup_def 1 2)
    qed
  next
    case False
    then show ?thesis using run s1 by (auto simp: open_setup_def 1)
  qed
qed

lemma stop_returns:
  assumes run: "vp_running w0 vp" and up: "vp_up vp"
  shows "\<exists>vp'. idpf_vport_stop env vp = Some vp' \<and> vp_closed w0 vp' \<and> \<not> vp_up vp' \<and> \<not> vp_carrier vp'"
proof -
  define v0 where "v0 = vp\<lparr>vp_up := False, vp_carrier := False\<rparr>"
  have r0: "vp_running w0 v0" "vp_flags v0 = (False, False)"
    using run by (auto simp: v0_def vp_running_def vp_acct_def vecs_in_def vp_qp_def vp_world_def vp_flags_def Let_def)
  note r1 = talk_running [OF enable_vport_talks r0(1), of False]
  obtain e2 v2' where 2: "vp_disable_queues env (snd (vp_enable_vport False v0)) = Some (e2, v2')" "vp_talk (snd (vp_enable_vport False v0)) v2'"
    using disable_queues_talks [of w0 "snd (vp_enable_vport False v0)" env] r1 by blast
  define v2 where "v2 = (if ve_CORER_IN_PROG env then v0 else v2')"
  have r2: "vp_running w0 v2" "vp_flags v2 = (False, False)" using r0 r1 talk_running [OF 2(2)] by (auto simp: v2_def)
  obtain e3 v3 where 3: "vp_map_vectors False v2 = Some (e3, v3)" "vp_talk v2 v3" using map_vectors_talks [OF r2(1)] by blast
  note r3 = talk_running [OF 3(2) r2(1)]
  define s where "s = snd (idpf_send_delete_queues_msg (vp_chunks v3) (vp_id v3) (vp_st v3))"
  define v4 where "v4 = (if vp_DEL_QUEUES v3 then v3\<lparr>vp_DEL_QUEUES := False, vp_st := s\<rparr> else v3)"
  have "owns (vp_world v3) {} {} (vs_world s)" using queue_chunks_owns by (simp add: s_def idpf_send_delete_queues_msg_def vp_world_def)
  from talk_running [OF talk_st [OF this]] r3
  have r4: "vp_running w0 v4" "vp_flags v4 = (False, False)"
    using r2 by (auto simp: v4_def vp_running_def vp_acct_def vecs_in_def vp_qp_def vp_world_def vp_flags_def Let_def)
  have r5: "vp_running w0 (idpf_remove_features v4)" "vp_flags (idpf_remove_features v4) = (False, False)"
    using talk_running [OF features_talk(2) r4(1)] r4 by auto
  obtain v6 where 6: "vp_intr_deinit (idpf_remove_features v4) = Some v6" "vp_acct w0 v6" "vecs_in vec_idle v6" "mem_ok (vp_qp v6) (vp_mem v6)"
    "vp_flags v6 = (False, False)" using intr_deinit_idle [OF r5(1)] r5(2) by auto
  obtain v7 where 7: "vp_queues_rel v6 = Some v7" "vp_acct w0 v7" "vecs_in vec_idle v7" "vp_mem v7 = qmem_zero" "vp_flags v7 = (False, False)"
    using queues_rel_idle [OF 6(2-4)] 6(5) by auto
  have "idpf_vport_stop env vp = Some (vp_intr_rel v7)"
    using up 2(1) 3(1) 6(1) 7(1) unfolding idpf_vport_stop_def Let_def v0_def [symmetric]
    by (simp add: v2_def v4_def s_def split: if_splits)
  then show ?thesis using intr_rel_closed [OF 7(2-4)] 7(5) by (auto simp: vp_flags_def)
qed

end
