(* ===== verification/Idpf_Vport_Results.thy ===== *)
theory Idpf_Vport_Results
  imports Idpf_Vport_Steps
begin

text \<open>
  Opening a vport is all or nothing and stopping undoes it, through every sequence of calls; where opening
  does not return, and what a soft reset does to memory that was given back.
\<close>

section \<open>Sequences of calls\<close>

datatype vport_call = Call_open vport_env | Call_stop vport_env

primrec vport_calls :: "vport_call list \<Rightarrow> vport \<Rightarrow> vport option" where
  "vport_calls [] vp = Some vp"
| "vport_calls (c # cs) vp =
     do { (_, vp) \<leftarrow> (case c of Call_open env \<Rightarrow> idpf_open env vp | Call_stop env \<Rightarrow> idpf_stop env vp);
          vport_calls cs vp }"

definition vp_inv :: "idpf_world \<Rightarrow> vport \<Rightarrow> bool" where
  "vp_inv w0 vp \<longleftrightarrow> (if vp_up vp then vp_running w0 vp else vp_closed w0 vp \<and> \<not> vp_carrier vp)"

lemma vport_open_inv:
  assumes "vp_inv w0 vp" and "idpf_vport_open env vp = Some (err, vp')"
  shows "vp_inv w0 vp' \<and> (err = ret_ok \<longrightarrow> vp_up vp') \<and> (err \<noteq> ret_ok \<longrightarrow> vp_up vp' = vp_up vp)"
proof (cases "vp_up vp")
  case False
  let ?v = "vp\<lparr>vp_carrier := False\<rparr>"
  have c: "vp_closed w0 ?v" "vp_flags ?v = (False, False)"
    using assms(1) False by (auto simp: vp_inv_def vp_closed_def vp_acct_def vp_world_def vp_flags_def)
  obtain e1 v1 where 1: "open_setup ?v = Some (e1, v1)" using assms(2) False by (cases "open_setup ?v") (auto simp: idpf_vport_open_def)
  note s = open_setup_ok [OF c(1) 1]
  show ?thesis
  proof (cases "e1 = ret_ok")
    case True
    then obtain e2 v2 where 2: "open_start env v1 = Some (e2, v2)"
      "if e2 = ret_ok then vp_running w0 v2 \<and> vp_up v2 else vp_closed w0 v2 \<and> vp_flags v2 = vp_flags v1"
      using open_start_returns [of w0 v1 env] s by auto
    have "err = e2" "vp' = v2" using assms(2) False 1 2(1) True by (simp_all add: idpf_vport_open_def)
    then show ?thesis using 2(2) s c False by (cases "e2 = ret_ok") (auto simp: vp_inv_def vp_flags_def)
  next
    case e1: False
    then have "err = e1" "vp' = v1" using assms(2) False 1 by (simp_all add: idpf_vport_open_def)
    then show ?thesis using s c False e1 by (auto simp: vp_inv_def vp_flags_def)
  qed
qed (use assms in \<open>auto simp: idpf_vport_open_def\<close>)

lemma vport_stop_inv:
  assumes "vp_inv w0 vp"
  shows "\<exists>vp'. idpf_vport_stop env vp = Some vp' \<and> vp_inv w0 vp' \<and> \<not> vp_up vp'"
  using assms stop_returns [of w0 vp env] by (cases "vp_up vp") (auto simp: vp_inv_def idpf_vport_stop_def)

lemma vport_calls_inv: "vport_calls cs vp = Some vp' \<Longrightarrow> vp_inv w0 vp \<Longrightarrow> vp_inv w0 vp'"
proof (induction cs arbitrary: vp)
  case (Cons c cs)
  show ?case
  proof (cases c)
    case (Call_open env)
    obtain e v where o: "idpf_open env vp = Some (e, v)" "vport_calls cs v = Some vp'"
      using Cons.prems(1) by (cases "idpf_open env vp") (auto simp: Call_open)
    have "vp_inv w0 v"
      using o(1) Cons.prems(2) vport_open_inv [OF Cons.prems(2), of env e v] by (auto simp: idpf_open_def Let_def split: if_splits)
    then show ?thesis using Cons.IH [OF o(2)] by blast
  next
    case (Call_stop env)
    then show ?thesis using Cons vport_stop_inv [OF Cons.prems(2), of env] by (auto simp: idpf_stop_def)
  qed
qed simp

text \<open>
  C12.  From a closed vport on, through every sequence of \<open>idpf_open\<close> and \<open>idpf_stop\<close> with any answers of the
  device and the kernel and any failing allocation: all memory is accounted for and nothing is freed twice.
  A vport that is not up holds no vectors, queues or rings, only the tables of receive side scaling; a vport
  that is up can be stopped, which always returns and gives all of that back.  Opening returns whenever its
  part before \<open>idpf_vport_intr_ena\<close> does, and then the vport is up exactly if it returns 0.
\<close>

theorem vport_lifecycle_safe:
  assumes "vp_closed w0 vp" and "\<not> vp_up vp" and "\<not> vp_carrier vp" and "vport_calls cs vp = Some vp'"
  shows "vp_acct w0 vp' \<and>
    (\<not> vp_up vp' \<longrightarrow> \<not> vp_carrier vp' \<and> in_vecs (vp_intr vp') = [] \<and> vp_mem vp' = qmem_zero \<and>
       owns w0 (set_mset (rss_slots (vp_rss vp'))) {} (vp_world vp')) \<and>
    (\<exists>vp''. idpf_vport_stop env vp' = Some vp'' \<and> vp_closed w0 vp'' \<and> \<not> vp_up vp'') \<and>
    (\<not> vp_up vp' \<longrightarrow> open_setup (vp'\<lparr>vp_carrier := False\<rparr>) \<noteq> None \<longrightarrow>
       (\<exists>err vp''. idpf_vport_open env vp' = Some (err, vp'') \<and> (vp_up vp'' \<longleftrightarrow> err = ret_ok)))"
proof -
  have inv: "vp_inv w0 vp'" using vport_calls_inv [OF assms(4)] assms(1-3) by (simp add: vp_inv_def)
  have "owns w0 (set_mset (rss_slots (vp_rss vp'))) {} (vp_world vp')" if "vp_closed w0 vp'"
    using that by (auto simp: vp_closed_def vp_acct_def in_slots_def holds_def)
  moreover have "\<exists>vp''. idpf_vport_stop env vp' = Some vp'' \<and> vp_closed w0 vp'' \<and> \<not> vp_up vp''"
    using vport_stop_inv [OF inv, of env] by (auto simp: vp_inv_def)
  moreover have "\<exists>err vp''. idpf_vport_open env vp' = Some (err, vp'') \<and> (vp_up vp'' \<longleftrightarrow> err = ret_ok)"
    if up: "\<not> vp_up vp'" and ret: "open_setup (vp'\<lparr>vp_carrier := False\<rparr>) \<noteq> None"
  proof -
    obtain e1 v1 where 1: "open_setup (vp'\<lparr>vp_carrier := False\<rparr>) = Some (e1, v1)" using ret by auto
    have c: "vp_closed w0 (vp'\<lparr>vp_carrier := False\<rparr>)" using inv up by (auto simp: vp_inv_def vp_closed_def vp_acct_def vp_world_def)
    have "idpf_vport_open env vp' \<noteq> None"
      using open_setup_ok [OF c 1] open_start_returns [of w0 v1 env] up by (cases "e1 = ret_ok") (auto simp: idpf_vport_open_def 1)
    then obtain err vp'' where "idpf_vport_open env vp' = Some (err, vp'')" by auto
    then show ?thesis using vport_open_inv [OF inv] up by blast
  qed
  moreover have "vp_acct w0 vp'" "\<not> vp_up vp' \<Longrightarrow> vp_closed w0 vp' \<and> \<not> vp_carrier vp'"
    using inv by (auto simp: vp_inv_def vp_running_def vp_closed_def split: if_splits)
  ultimately show ?thesis unfolding vp_closed_def by blast
qed

subsection \<open>An example\<close>

text \<open>A vport of the single queue model with one queue each way and one vector; the device grants two ids and one vector.\<close>

definition demo_vp_rsrc :: idpf_q_vec_rsrc where
  "demo_vp_rsrc = \<lparr>txq_grps = [], txq_desc_count = 512, complq_desc_count = 0, txq_model = 0, num_txq = 1, num_complq = 0, num_txq_grp = 1,
     num_rxq_grp = 1, rxq_model = 0, rxq_grps = [], num_rxq = 1, num_bufq = 0, rxq_desc_count = 512, bufq_desc_count = [], num_bufqs_per_qgrp = 0,
     bufq_size = [2048]\<rparr>"

definition demo_vp_chunks :: "idpf_queue_id_reg_chunk list" where
  "demo_vp_chunks = [\<lparr>qtail_reg_start = 0, qtail_reg_spacing = 4, chunk_type = 0, start_queue_id = 5, chunk_num_queues = 1\<rparr>,
     \<lparr>qtail_reg_start = 4096, qtail_reg_spacing = 4, chunk_type = 1, start_queue_id = 9, chunk_num_queues = 1\<rparr>]"

definition demo_vp :: "ptr list \<Rightarrow> vport" where
  "demo_vp ks = \<lparr>vp_up = False, vp_DEL_QUEUES = False, vp_carrier = False, vp_link_up = True, vp_id = 7, vp_idx = 0, vp_default = True,
     vp_rsrc = demo_vp_rsrc, vp_qv = \<lparr>qv_num_txq = 1, qv_num_rxq = 1, num_q_vectors = 1, q_vector_idxs = [1]\<rparr>,
     vp_vecs = \<lparr>vector_stack = \<lparr>lifo_top = 2, lifo_base = 1, lifo_size = 2, vec_idx = [0, 1]\<rparr>, num_avail_msix = 0, num_msix_entries = 2\<rparr>,
     vp_cfg = \<lparr>num_req_tx_qs = 1, num_req_rx_qs = 1, num_req_txq_desc = 512, num_req_rxq_desc = 512, xdp_prog = False\<rparr>,
     vp_xdp = \<lparr>num_xdp_txq = 0, num_xdp_rxq = 0, xdp_txq_offset = 0, xdp_rxq_offset = 0\<rparr>, vp_flow_sch = False, vp_hsplit = False, vp_rxhash = True,
     vp_attr = (\<lambda>q. \<lparr>vq_id = 0, vq_type = 0, vq_desc_count = 512, vq_dma = 0, vq_flow_sch = False, vq_rel_qid = 0, vq_max_pkt_size = 0, vq_buf_size = 2048,
       vq_hsplit_en = False, vq_hbuf_size = 0, vq_low_watermark = 0, vq_rsc_en = False, vq_rxdids = 0, vq_buf_stride = 0, vq_v_idx = 0, vq_itr_idx = 0\<rparr>),
     vp_masks = False, vp_vchunks = Some [\<lparr>vch_start = 1, vch_num = 1, vch_dynctl_start = 8, vch_dynctl_spacing = 4, vch_itrn_start = 16,
       vch_itrn_spacing = 4, vch_itrn_index_spacing = 0\<rparr>],
     vp_reserved = 2, vp_mb = 0, vp_irq = (\<lambda>_. ret_ok), vp_pages = (\<lambda>_. True), vp_chunks = demo_vp_chunks, vp_intr = intr_zero, vp_mem = qmem_zero,
     vp_mark = \<lparr>mk_txqs = [], mk_vport = False\<rparr>,
     vp_rss = \<lparr>rss_hash = 0, rss_key_size = 2, rss_key = (100, [1, 2]), rss_lut_size = 4, rss_lut = (NULL, []), cached_lut = (NULL, [])\<rparr>,
     vp_mac = mac_ex [] (\<lambda>_. ret_ok),
     vp_st = \<lparr>vs_world = demo_w ks [(20, 0), (21, 0)] {100} {}, vs_sent = [], vs_reply = (\<lambda>_. Inr 64)\<rparr>\<rparr>"

lemmas vp_eval = demo_vp_def demo_vp_rsrc_def vp_qp_def vp_ip_def idpf_vport_calc_numq_per_grp_def idpf_is_queue_model_split_def vp_world_def set_world_def
  intr_zero_def demo_w_kcalloc demo_w_dma

definition demo_env :: vport_env where
  "demo_env = \<lparr>ve_early = [], ve_markers = [0], ve_CORER_IN_PROG = False, ve_REMOVE_IN_PROG = False, ve_real_rx = ret_ok, ve_real_tx = ret_ok\<rparr>"

lemma demo_closed: "vp_closed (demo_w ks [(20, 0), (21, 0)] {} {}) (demo_vp ks)"
  by (simp add: vp_closed_def vp_acct_def vp_eval demo_vp_chunks_def rsrc_ok_def rss_wf_def in_slots_def rss_slots_def slot_def holds_def owns_def
    demo_w_def demo_world_def)

definition demo_ptrs :: "ptr list" where
  "demo_ptrs = [1, 2, 3, 4, 5, 6, 7, 8, 9, 10, 11, 12, 13, 14, 15, 16, 17, 18, 19]"

definition demo_vqp :: qparams where
  "demo_vqp = \<lparr>qp_tx_split = False, qp_rx_split = False, qp_num_txq_grp = 1, qp_num_rxq_grp = 1, qp_txq_per_grp = 1, qp_rxq_per_grp = 1,
     qp_num_bufqs = 0, qp_flow_sch = False, qp_hsplit = False, qp_pages = (\<lambda>_. True)\<rparr>"

definition demo_vip :: iparams where
  "demo_vip = \<lparr>ip_num = 1, ip_num_txq = 1, ip_num_complq = 0, ip_num_rxq = 1, ip_xdp = False, ip_masks = False, ip_idxs = [1],
      ip_chunks = Some [\<lparr>vch_start = 1, vch_num = 1, vch_dynctl_start = 8, vch_dynctl_spacing = 4, vch_itrn_start = 16,
       vch_itrn_spacing = 4, vch_itrn_index_spacing = 0\<rparr>], ip_reserved = 2, ip_mb = 0, ip_irq = (\<lambda>_. ret_ok)\<rparr>"

lemma demo_w_kfree: "p \<noteq> NULL \<Longrightarrow> p \<in> L \<Longrightarrow> kfree p (demo_w ks ds L M) = demo_w ks ds (L - {p}) M"
  by (simp add: demo_w_def demo_world_def kfree_def)

lemmas mem_run = demo_w_kcalloc demo_w_dma demo_w_kfree demo_vqp_def qmem_zero_def tx_grp_zero_def tx_q_zero_def rx_grp_zero_def rx_q_zero_def

definition demo_objs :: "ptr set" where
  "demo_objs = {10, 9, 8, 7, 6, 5, 4, 3, 2, 1, 100}"

definition demo_qmem :: "ptr \<Rightarrow> qmem" where
  "demo_qmem bufs = \<lparr>qm_txq_grps = 4, qm_tgs = [tx_grp_zero\<lparr>tg_num := 1, tg_txqs := 5, tg_qs := [tx_q_zero\<lparr>tq_obj := 6, tq_bufs := 9, tq_desc := 20\<rparr>]\<rparr>],
     qm_rxq_grps = 7, qm_rgs = [rx_grp_zero\<lparr>rg_num := 1, rg_qs := [rx_q_zero\<lparr>rq_obj := 8, rq_desc := 21, rx_q.rq_bufs := bufs\<rparr>]\<rparr>], qm_txqs = 10\<rparr>"

lemma demo_intr_alloc: "idpf_vport_intr_alloc demo_vqp demo_vip intr_zero (demo_w demo_ptrs [(20, 0), (21, 0)] {100} {}) =
    Some (ret_ok, \<lparr>in_arr = 1, in_vecs = [vec_zero\<lparr>iv_tx := 2, iv_rx := 3\<rparr>], in_irq_warn = False\<rparr>, demo_w (drop 3 demo_ptrs) [(20, 0), (21, 0)] {3, 2, 1, 100} {})"
  by (simp add: demo_vqp_def demo_vip_def intr_zero_def demo_w_kcalloc idpf_vport_intr_alloc_def vec_alloc_def vec_zero_def demo_ptrs_def Let_def)

lemma demo_grp_alloc: "idpf_vport_queue_grp_alloc_all demo_vqp qmem_zero (demo_w (drop 3 demo_ptrs) [(20, 0), (21, 0)] {3, 2, 1, 100} {}) =
    Some (ret_ok, \<lparr>qm_txq_grps = 4, qm_tgs = [tx_grp_zero\<lparr>tg_num := 1, tg_txqs := 5, tg_qs := [tx_q_zero\<lparr>tq_obj := 6\<rparr>]\<rparr>],
      qm_rxq_grps = 7, qm_rgs = [rx_grp_zero\<lparr>rg_num := 1, rg_qs := [rx_q_zero\<lparr>rq_obj := 8\<rparr>]\<rparr>], qm_txqs = NULL\<rparr>,
      demo_w (drop 8 demo_ptrs) [(20, 0), (21, 0)] {8, 7, 6, 5, 4, 3, 2, 1, 100} {})"
  by (simp add: idpf_vport_queue_grp_alloc_all_def idpf_txq_group_alloc_def idpf_rxq_group_alloc_def txq_group_init_def rxq_group_init_def
    mem_run demo_ptrs_def Let_def)

lemma demo_queue_alloc: "idpf_vport_queue_alloc_all demo_vqp qmem_zero (demo_w (drop 3 demo_ptrs) [(20, 0), (21, 0)] {3, 2, 1, 100} {}) =
    Some (ret_ok, demo_qmem NULL, demo_w (drop 10 demo_ptrs) [] demo_objs {21, 20})"
  unfolding idpf_vport_queue_alloc_all_def Let_def demo_grp_alloc
  by (simp add: idpf_tx_desc_alloc_all_def tx_group_desc_alloc_def idpf_tx_desc_alloc_def idpf_rx_desc_alloc_all_def rx_group_desc_alloc_def
    idpf_fast_path_txq_init_def mem_run demo_ptrs_def demo_qmem_def demo_objs_def)

lemma demo_ids: "\<exists>r r'. idpf_vport_queue_ids_init True (fresh_grps demo_vp_rsrc) demo_vp_chunks = (ret_ok, r) \<and> idpf_queue_reg_init True r demo_vp_chunks = (ret_ok, r')"
  by (simp add: idpf_vport_queue_ids_init_def queue_ids_step_def get_queue_ids_spec fresh_grps_def demo_vp_rsrc_def demo_vp_chunks_def queue_ids_def
    VIRTCHNL2_QUEUE_TYPE_TX_def VIRTCHNL2_QUEUE_TYPE_RX_def id_run_def IDPF_LARGE_MAX_Q_def idpf_is_queue_model_split_def
    idpf_vport_calc_numq_per_grp_def vport_queue_ids_init_def Let_def idpf_queue_reg_init_def queue_reg_step_def get_q_reg_spec queue_regs_def
    Idpf_Queues_Results.reg_run_def queue_reg_init_def)

lemma demo_intr_init: "\<exists>i. idpf_vport_intr_init demo_vqp demo_vip \<lparr>in_arr = 1, in_vecs = [vec_zero\<lparr>iv_tx := 2, iv_rx := 3\<rparr>], in_irq_warn = False\<rparr>
    (demo_w (drop 11 demo_ptrs) [] demo_objs {21, 20}) = Some (ret_ok, i, demo_w (drop 15 demo_ptrs) [] (insert 15 demo_objs) {21, 20})"
proof -
  have two: "replicate 2 x = [x, x]" for x :: "'x" by (simp add: numeral_2_eq_2)
  have a: "idpf_vport_intr_init_vec_idx demo_vip [vec_zero\<lparr>iv_tx := 2, iv_rx := 3\<rparr>] (demo_w (drop 11 demo_ptrs) [] demo_objs {21, 20}) =
      Some (ret_ok, [vec_zero\<lparr>iv_tx := 2, iv_rx := 3, iv_v_idx := 1\<rparr>], demo_w (drop 12 demo_ptrs) [] demo_objs {21, 20})"
    by (simp add: idpf_vport_intr_init_vec_idx_def demo_vip_def mem_run idpf_get_vec_ids_def two set_v_idx_def demo_ptrs_def demo_objs_def)
  have b: "idpf_vport_intr_map_vector_to_qs demo_vqp demo_vip [vec_zero\<lparr>iv_tx := 2, iv_rx := 3, iv_v_idx := 1\<rparr>] =
      Some [vec_zero\<lparr>iv_tx := 2, iv_rx := 3, iv_txs := [0], iv_rxs := [0], iv_v_idx := 1\<rparr>]"
    by (simp add: idpf_vport_intr_map_vector_to_qs_def demo_vqp_def demo_vip_def vec_put_def rxqs_per_vector_def txqs_per_vector_def DIV_ROUND_UP_def vec_zero_def Let_def)
  have c: "idpf_intr_reg_init demo_vip [vec_zero\<lparr>iv_tx := 2, iv_rx := 3, iv_txs := [0], iv_rxs := [0], iv_v_idx := 1, iv_napi := Napi_added\<rparr>]
        (demo_w (drop 12 demo_ptrs) [] demo_objs {21, 20}) =
      Some (ret_ok, [vec_zero\<lparr>iv_tx := 2, iv_rx := 3, iv_txs := [0], iv_rxs := [0], iv_v_idx := 1, iv_napi := Napi_added, iv_dyn_ctl := 8,
        iv_rx_itr := 16, iv_tx_itr := 20\<rparr>], demo_w (drop 13 demo_ptrs) [] demo_objs {21, 20})"
    by (simp add: idpf_intr_reg_init_def demo_vip_def mem_run idpf_get_reg_intr_vecs_def two set_regs_def IDPF_PF_ITR_IDX_SPACING_def Let_def
      trunc16_def demo_ptrs_def demo_objs_def)
  show ?thesis
    by (simp add: idpf_vport_intr_init_def a b c idpf_vport_intr_napi_add_all_def idpf_vport_intr_req_irq_def Let_def)
      (simp add: demo_vip_def vec_zero_def mem_run demo_ptrs_def demo_objs_def insert_Diff_if)
qed

lemma demo_bufs: "idpf_rx_bufs_init_all demo_vqp (demo_qmem NULL) (demo_w (drop 16 demo_ptrs) [] (insert 15 demo_objs) M) =
    (ret_ok, demo_qmem 17, demo_w (drop 17 demo_ptrs) [] (insert 17 (insert 15 demo_objs)) M)"
  by (simp add: idpf_rx_bufs_init_all_def demo_qmem_def rx_group_bufs_init_def rx_bufs_init_singleq_mem_def mem_run demo_ptrs_def demo_objs_def)

lemma demo_setup: "\<exists>vp. open_setup (demo_vp demo_ptrs) = Some (ret_ok, vp)"
proof -
  define v0 where "v0 = demo_vp demo_ptrs"
  define i1 where "i1 = \<lparr>in_arr = 1, in_vecs = [vec_zero\<lparr>iv_tx := 2, iv_rx := 3\<rparr>], in_irq_warn = False\<rparr>"
  define V where "V w i m r mk = (set_world w v0)\<lparr>vp_intr := i, vp_mem := m, vp_rsrc := r, vp_mark := mk\<rparr>" for w i m r mk
  have upd: "(set_world w' (V w i m r mk))\<lparr>vp_intr := i'\<rparr> = V w' i' m r mk" "(set_world w' (V w i m r mk))\<lparr>vp_mem := m'\<rparr> = V w' i m' r mk"
    "(set_world w' (V w i m r mk))\<lparr>vp_rsrc := r'\<rparr> = V w' i m r' mk"
    "(V w i m r mk)\<lparr>vp_rsrc := r', vp_mark := mk'\<rparr> = V w i m r' mk'" for w' w i m r mk i' m' r' mk'
    by (simp_all add: V_def set_world_def)
  have sel: "vp_world (V w i m r mk) = w" "vp_intr (V w i m r mk) = i" "vp_mem (V w i m r mk) = m" "vp_rsrc (V w i m r mk) = r"
    "vp_chunks (V w i m r mk) = demo_vp_chunks" "vp_mark (V w i m r mk) = mk" for w i m r mk by (simp_all add: V_def v0_def demo_vp_def)
  have par: "vp_qp (V w i m r mk) = demo_vqp" "vp_ip (V w i m r mk) = demo_vip" if "fst (rsrc_sizes r) = fst (rsrc_sizes demo_vp_rsrc)" for w i m r mk
    using that by (simp_all add: V_def v0_def vp_eval demo_vqp_def demo_vip_def rsrc_sizes_def)
  define w0 where "w0 = demo_w demo_ptrs [(20, 0), (21, 0)] {100} {}"
  have v0: "v0 = V w0 intr_zero qmem_zero demo_vp_rsrc (vp_mark v0)" by (simp add: V_def v0_def w0_def demo_vp_def set_world_def)
  have f: "fst (rsrc_sizes (fresh_grps demo_vp_rsrc)) = fst (rsrc_sizes demo_vp_rsrc)" by (simp add: fresh_sizes) (simp add: rsrc_sizes_def)
  obtain r r' where r: "idpf_vport_queue_ids_init True (fresh_grps demo_vp_rsrc) demo_vp_chunks = (ret_ok, r)" "idpf_queue_reg_init True r demo_vp_chunks = (ret_ok, r')"
    using demo_ids by blast
  have s: "fst (rsrc_sizes r) = fst (rsrc_sizes demo_vp_rsrc)" "fst (rsrc_sizes r') = fst (rsrc_sizes demo_vp_rsrc)"
    using queue_ids_sizes [of True "fresh_grps demo_vp_rsrc" demo_vp_chunks] queue_regs_sizes [of True r demo_vp_chunks] f r by simp_all
  obtain i where i: "idpf_vport_intr_init demo_vqp demo_vip i1 (demo_w (drop 11 demo_ptrs) [] demo_objs {21, 20}) =
      Some (ret_ok, i, demo_w (drop 15 demo_ptrs) [] (insert 15 demo_objs) {21, 20})" using demo_intr_init by (auto simp: i1_def)
  have k: "kcalloc (demo_w (drop 10 demo_ptrs) [] demo_objs {21, 20}) = (11, demo_w (drop 11 demo_ptrs) [] (insert 11 demo_objs) {21, 20})"
    "kfree 11 (demo_w (drop 11 demo_ptrs) [] (insert 11 demo_objs) {21, 20}) = demo_w (drop 11 demo_ptrs) [] demo_objs {21, 20}"
    "kcalloc (demo_w (drop 15 demo_ptrs) [] (insert 15 demo_objs) {21, 20}) = (16, demo_w (drop 16 demo_ptrs) [] (insert 16 (insert 15 demo_objs)) {21, 20})"
    "kfree 16 (demo_w (drop 16 demo_ptrs) [] (insert 16 (insert 15 demo_objs)) {21, 20}) = demo_w (drop 16 demo_ptrs) [] (insert 15 demo_objs) {21, 20}"
    by (simp_all add: demo_ptrs_def demo_objs_def demo_w_kcalloc demo_w_kfree)
  have 1: "vp_intr_alloc v0 = Some (ret_ok, V (demo_w (drop 3 demo_ptrs) [(20, 0), (21, 0)] {3, 2, 1, 100} {}) i1 qmem_zero demo_vp_rsrc (vp_mark v0))"
    by (subst (1) v0) (simp add: vp_intr_alloc_def sel par upd w0_def demo_intr_alloc i1_def)
  define mk where "mk = (vp_mark v0)\<lparr>mk_txqs := replicate (num_txq demo_vp_rsrc) \<lparr>tf_POLL_MODE = False, tf_SW_MARKER = False\<rparr>\<rparr>"
  have 2: "vp_queue_alloc_all (V (demo_w (drop 3 demo_ptrs) [(20, 0), (21, 0)] {3, 2, 1, 100} {}) i1 qmem_zero demo_vp_rsrc (vp_mark v0)) =
      Some (ret_ok, V (demo_w (drop 10 demo_ptrs) [] demo_objs {21, 20}) i1 (demo_qmem NULL) (fresh_grps demo_vp_rsrc) mk)"
    by (simp add: vp_queue_alloc_all_def sel par upd demo_queue_alloc mk_def)
  have 3: "vp_queue_ids_init (V (demo_w (drop 10 demo_ptrs) [] demo_objs {21, 20}) i1 (demo_qmem NULL) (fresh_grps demo_vp_rsrc) mk) =
      (ret_ok, V (demo_w (drop 11 demo_ptrs) [] demo_objs {21, 20}) i1 (demo_qmem NULL) r mk)"
    by (simp add: vp_queue_ids_init_def sel k r upd)
  have 4: "vp_intr_init (V (demo_w (drop 11 demo_ptrs) [] demo_objs {21, 20}) i1 (demo_qmem NULL) r mk) =
      Some (ret_ok, V (demo_w (drop 15 demo_ptrs) [] (insert 15 demo_objs) {21, 20}) i (demo_qmem NULL) r mk)"
    by (simp add: vp_intr_init_def sel par s i upd)
  have 5: "vp_queue_reg_init (V (demo_w (drop 15 demo_ptrs) [] (insert 15 demo_objs) {21, 20}) i (demo_qmem NULL) r mk) =
      (ret_ok, V (demo_w (drop 16 demo_ptrs) [] (insert 15 demo_objs) {21, 20}) i (demo_qmem NULL) r' mk)"
    by (simp add: vp_queue_reg_init_def sel k r upd)
  have 6: "vp_rx_bufs_init_all (V (demo_w (drop 16 demo_ptrs) [] (insert 15 demo_objs) {21, 20}) i (demo_qmem NULL) r' mk) =
      (ret_ok, V (demo_w (drop 17 demo_ptrs) [] (insert 17 (insert 15 demo_objs)) {21, 20}) i (demo_qmem 17) r' mk)"
    by (simp add: vp_rx_bufs_init_all_def sel par s demo_bufs upd)
  show ?thesis unfolding v0_def [symmetric] by (simp add: open_setup_def 1 2 3 4 5 6)
qed

theorem vport_lifecycle_safe_witness:
  "\<exists>vp. vport_calls [Call_open demo_env, Call_stop demo_env] (demo_vp demo_ptrs) = Some vp \<and> vp_mem vp = qmem_zero \<and>
     live (vp_world vp) = set_mset (rss_slots (vp_rss vp)) \<and> \<not> bad_free (vp_world vp)"
proof -
  let ?w0 = "demo_w demo_ptrs [(20, 0), (21, 0)] {} {}" and ?v = "demo_vp demo_ptrs"
  note c = demo_closed [of demo_ptrs]
  have f: "\<not> vp_up ?v" "\<not> vp_carrier ?v" "?v\<lparr>vp_carrier := False\<rparr> = ?v" by (simp_all add: demo_vp_def)
  obtain e v1 where 1: "idpf_vport_open demo_env ?v = Some (e, v1)"
    using vport_lifecycle_safe [OF c f(1,2), of "[]" ?v demo_env] demo_setup f by auto
  then have op: "idpf_open demo_env ?v = Some (e, v1)" by (simp add: idpf_open_def demo_env_def idpf_set_real_num_queues_def)
  then have o: "vport_calls [Call_open demo_env] ?v = Some v1" by simp
  obtain v2 where 2: "idpf_vport_stop demo_env v1 = Some v2" "\<not> vp_up v2" using vport_lifecycle_safe [OF c f(1,2) o, of demo_env] by blast
  have r: "vport_calls [Call_open demo_env, Call_stop demo_env] ?v = Some v2" using op 2(1) by (simp add: idpf_stop_def)
  have "vp_mem v2 = qmem_zero" "owns ?w0 (set_mset (rss_slots (vp_rss v2))) {} (vp_world v2)" using vport_lifecycle_safe [OF c f(1,2) r, of demo_env] 2(2) by blast+
  then show ?thesis using r by (auto simp: owns_def demo_w_def demo_world_def)
qed

section \<open>Where the code goes wrong\<close>

text \<open>
  If the registers or the receive buffers cannot be set up, \<open>idpf_vport_open\<close> goes to \<open>intr_deinit\<close>, which
  disables NAPI; but NAPI is only enabled afterwards, and \<open>napi_disable\<close> waits for ever.
\<close>

theorem failed_registers_hang:
  assumes "vp_acct w0 v3" and "vecs_in vec_idle v3"
    and "vp_intr_alloc vp = Some (ret_ok, v1)" and "vp_queue_alloc_all v1 = Some (ret_ok, v2)" and "vp_queue_ids_init v2 = (ret_ok, v3)"
    and "vp_intr_init v3 = Some (ret_ok, v4)" and "in_vecs (vp_intr v4) \<noteq> []" and "vp_queue_reg_init v4 = (Some e, v5)"
  shows "open_setup vp = None"
proof -
  obtain i w where a: "idpf_vport_intr_init (vp_qp v3) (vp_ip v3) (vp_intr v3) (vp_world v3) = Some (ret_ok, i, w)" "v4 = (set_world w v3)\<lparr>vp_intr := i\<rparr>"
    using assms(6) by (auto simp: vp_intr_init_def bind_eq_Some_conv)
  have "holds w0 (in_slots (vp_intr v3) + (qm_slots (vp_mem v3) + rss_slots (vp_rss v3))) (qm_dmas (vp_mem v3)) (vp_world v3)"
    "\<forall>v \<in> set (in_vecs (vp_intr v3)). vec_idle v" using assms(1,2) by (simp_all add: vp_acct_def vecs_in_def)
  from intr_init_holds [OF a(1) this(2,1)] have "vecs_in (\<lambda>v. iv_napi v = Napi_added) v4" by (simp add: a(2) vecs_in_def)
  then have "vecs_in (\<lambda>v. iv_napi v = Napi_added) v5" "vp_intr v5 = vp_intr v4"
    using assms(8) by (auto simp: vp_queue_reg_init_def vecs_in_def split: prod.splits)
  then have "vp_intr_deinit v5 = None"
    using intr_deinit_waits [of "hd (in_vecs (vp_intr v5))" "vp_intr v5" "vp_world v5"] assms(7) by (simp add: vp_intr_deinit_def vecs_in_def)
  then show ?thesis using assms(3-6,8) by (simp add: open_setup_def err_intr_deinit_def)
qed

text \<open>
  A soft reset copies the vport, stops it, and copies it back with the pointers to the groups of queues that
  \<open>idpf_vport_stop\<close> has freed.
\<close>

lemma calls_keep:
  fixes g defines "g \<equiv> \<lambda>vp. (vp_rss vp, vp_up vp)"
  shows "vp_intr_deinit vp = Some vp' \<Longrightarrow> g vp' = g vp" "vp_queues_rel vp = Some vp' \<Longrightarrow> g vp' = g vp" "g (vp_intr_rel vp) = g vp"
    "vp_map_vectors b vp = Some (e, vp') \<Longrightarrow> g vp' = g vp" "vp_disable_queues env vp = Some (e, vp') \<Longrightarrow> g vp' = g vp"
    "g (snd (vp_enable_vport ena vp)) = g vp" "g (idpf_remove_features vp) = g vp"
  by (auto simp: g_def set_world_def bind_eq_Some_conv vp_intr_deinit_def vp_queues_rel_def vp_intr_rel_def vp_map_vectors_def vp_msg_def
    vp_disable_queues_def vp_enable_vport_def idpf_remove_features_def vp_mac_call_def Let_def split: prod.splits)

lemma stop_keeps:
  assumes "idpf_vport_stop env vp = Some vp'"
  shows "vp_rss vp' = vp_rss vp \<and> \<not> vp_up vp'"
proof (cases "vp_up vp")
  case True
  define v0 where "v0 = vp\<lparr>vp_up := False, vp_carrier := False\<rparr>"
  let ?d = "if ve_CORER_IN_PROG env then Some v0 else map_option snd (vp_disable_queues env (snd (vp_enable_vport False v0)))"
  obtain v1 where 1: "?d = Some v1" using assms True unfolding idpf_vport_stop_def Let_def v0_def [symmetric] by (cases ?d) auto
  obtain e v2 where 2: "vp_map_vectors False v1 = Some (e, v2)"
    using assms True 1 unfolding idpf_vport_stop_def Let_def v0_def [symmetric] by (cases "vp_map_vectors False v1") auto
  define v3 where "v3 = (if vp_DEL_QUEUES v2 then v2\<lparr>vp_DEL_QUEUES := False, vp_st := snd (idpf_send_delete_queues_msg (vp_chunks v2) (vp_id v2) (vp_st v2))\<rparr> else v2)"
  obtain v4 v5 where 4: "vp_intr_deinit (idpf_remove_features v3) = Some v4" "vp_queues_rel v4 = Some v5" "vp' = vp_intr_rel v5"
    using assms True 1 2 unfolding idpf_vport_stop_def Let_def v0_def [symmetric] v3_def by (auto simp: bind_eq_Some_conv)
  have "vp_rss v1 = vp_rss vp \<and> \<not> vp_up v1"
    using 1 calls_keep(5) [of env "snd (vp_enable_vport False v0)"] calls_keep(6) [of False v0] by (auto simp: v0_def split: if_splits)
  then have "vp_rss v3 = vp_rss vp \<and> \<not> vp_up v3" using calls_keep(4) [OF 2] by (auto simp: v3_def)
  then show ?thesis using calls_keep(7) [of v3] calls_keep(1) [OF 4(1)] calls_keep(2) [OF 4(2)] calls_keep(3) [of v5] 4(3) by auto
qed (use assms in \<open>simp add: idpf_vport_stop_def\<close>)

theorem soft_reset_restores_freed:
  assumes "vp_running w0 vp" and "vp_up vp" and "idpf_vport_stop env vp = Some vp1"
  shows "vp_mem (sr_copy (sr_adjust cause vp) vp1) = vp_mem vp \<and> (\<forall>p \<in># qm_slots (vp_mem vp). p \<notin> live (vp_world (sr_copy (sr_adjust cause vp) vp1)))"
proof -
  have c: "vp_closed w0 vp1" using stop_returns [OF assms(1,2), of env] assms(3) by auto
  have h: "holds w0 (in_slots (vp_intr vp) + (qm_slots (vp_mem vp) + rss_slots (vp_rss vp))) (qm_dmas (vp_mem vp)) (vp_world vp)"
    using assms(1) by (simp add: vp_running_def vp_acct_def)
  have l: "live (vp_world vp1) = live w0 \<union> set_mset (rss_slots (vp_rss vp))"
    using c stop_keeps [OF assms(3)] by (auto simp: vp_closed_def vp_acct_def in_slots_def holds_def owns_def)
  have "p \<notin> live (vp_world vp1)" if "p \<in># qm_slots (vp_mem vp)" for p
  proof -
    have "p \<notin> live w0" using that h by (auto simp: holds_def owns_def)
    moreover have "count (qm_slots (vp_mem vp)) p + count (rss_slots (vp_rss vp)) p \<le> 1"
      using h [unfolded holds_def, THEN conjunct2, rule_format, of p] by simp
    then have "p \<notin># rss_slots (vp_rss vp)" using that unfolding count_greater_zero_iff [symmetric] by linarith
    ultimately show ?thesis by (simp add: l)
  qed
  moreover have "vp_mem (sr_adjust cause vp) = vp_mem vp" by (auto simp: sr_adjust_def split: idpf_vport_reset_cause.splits prod.splits)
  ultimately show ?thesis by (auto simp: sr_copy_def vp_world_def)
qed

text \<open>If the reopening then cannot allocate the transmit groups, the stale receive groups are freed again.\<close>

lemma kfree_live: "live (kfree p w) \<subseteq> live w" "live (kfree_list ps w) \<subseteq> live w"
proof -
  show k: "live (kfree p w) \<subseteq> live w" for p w by (auto simp: kfree_def)
  show "live (kfree_list ps w) \<subseteq> live w" by (induction ps arbitrary: w) (simp add: kfree_list_def, metis (no_types) fold_simps(2) k kfree_list_def order_trans)
qed

lemma rxq_groups_rel_live: "rxq_groups_rel qp gs w = Some w' \<Longrightarrow> live w' \<subseteq> live w"
proof (induction gs arbitrary: w)
  case (Cons g gs)
  have sw: "idpf_rxq_sw_queue_rel bs v = Some v' \<Longrightarrow> live v' \<subseteq> live v" for bs v v'
  proof (induction bs arbitrary: v)
    case (Cons b bs)
    then have "live v' \<subseteq> live (kfree (bq_refillqs b) (kfree_list (bq_rings b) v))" by (simp split: if_splits)
    then show ?case using kfree_live order_trans by meson
  qed simp
  obtain w1 where 1: "rxq_group_rel_one qp g w = Some w1" "rxq_groups_rel qp gs w1 = Some w'" using Cons.prems by (auto split: option.splits)
  have "live w1 \<subseteq> live (kfree_list (map rq_obj (rg_qs g)) w)"
    using 1(1) sw kfree_live(1) by (fastforce simp: rxq_group_rel_one_def Let_def split: if_splits option.splits)
  then show ?case using Cons.IH [OF 1(2)] kfree_live(2) order_trans by meson
qed simp

theorem stale_groups_freed_again:
  assumes "qm_rxq_grps r \<noteq> NULL" and "qm_rxq_grps r \<notin> live w" and "kcalloc w = (NULL, w1)"
    and "idpf_vport_queue_grp_alloc_all qp r w = Some (err, r', w')"
  shows "bad_free w'"
proof -
  have l: "live w1 \<subseteq> live w" using assms(3) by (auto simp: kcalloc_def split: list.splits if_splits)
  obtain w2 where g: "rxq_groups_rel qp (qm_rgs r) w1 = Some w2" "w' = kfree (qm_rxq_grps r) w2"
    using assms(1,3,4) by (auto simp: idpf_vport_queue_grp_alloc_all_def idpf_txq_group_alloc_def idpf_vport_queue_grp_rel_all_def idpf_txq_group_rel_def
      idpf_rxq_group_rel_def Let_def split: option.splits)
  have "qm_rxq_grps r \<notin> live w2" using rxq_groups_rel_live [OF g(1)] l assms(2) by blast
  then show ?thesis using assms(1) by (simp add: g(2) kfree_def)
qed

text \<open>A change of the scheduling mode announces a change of the MTU and never its end.\<close>

theorem sch_change_without_after:
  assumes "idpf_initiate_soft_reset env se IDPF_SR_Q_SCH_CHANGE vp = Some (err, evs, vp')"
  shows "evs = [] \<or> evs = [IIDC_RDMA_EVENT_BEFORE_MTU_CHANGE]"
  using assms by (auto simp: idpf_initiate_soft_reset_def Let_def bind_eq_Some_conv split: prod.splits if_splits)

text \<open>If the AF\_XDP pool cannot be changed the vport stays stopped.\<close>

theorem pool_change_failure_stops:
  assumes "vp_up vp" and "kcalloc (vp_world vp) = (p, w)" and "p \<noteq> NULL" and "se_xsk se \<noteq> ret_ok"
    and "idpf_initiate_soft_reset env se IDPF_SR_XDP_CHANGE vp = Some (err, evs, vp')"
  shows "\<not> vp_up vp' \<and> err = se_xsk se"
proof -
  have "vp_up (set_world w vp)" using assms(1) by (simp add: set_world_def)
  then obtain u v where "idpf_vport_stop env u = Some v" "vp' = set_world (kfree p (vp_world v)) v" "err = se_xsk se"
    using assms(2-5) by (auto simp: idpf_initiate_soft_reset_def bind_eq_Some_conv Let_def)
  then show ?thesis using stop_keeps by (simp add: set_world_def)
qed

end
